(* ===== verification/Prelude.thy ===== *)
theory Prelude
  imports Main "HOL-Library.Word"
begin

unbundle bit_operations_syntax

text \<open>
  Shared material: the C and PostgreSQL scalar types as words, the error values that
  stand for the \<open>ereport(ERROR)\<close> calls of the sources, the facts on signed words that
  every component uses, and the shared search loop on an index range.

  \<^item> \<open>int16\<close>, \<open>int32\<close>, \<open>int64\<close>, \<open>uint32\<close>, \<open>uint64\<close> are words of that width; a C
    comparison of signed values is a comparison of \<open>sint\<close>, of unsigned values of \<open>uint\<close>.
  \<^item> A \<open>Datum\<close> is a 64-bit word (the supported platforms are 64-bit).
  \<^item> A C cast between signed types is \<open>scast\<close>, from an unsigned type \<open>ucast\<close>.
\<close>

section \<open>Scalar types\<close>

type_synonym int16 = "16 word"
type_synonym int32 = "32 word"
type_synonym int64 = "64 word"
type_synonym uint8 = "8 word"
type_synonym uint16 = "16 word"
type_synonym uint32 = "32 word"
type_synonym uint64 = "64 word"
type_synonym Datum = "64 word"
type_synonym Oid = nat

text \<open>The errors that the modelled code raises with \<open>ereport\<close> or \<open>elog(ERROR)\<close>.\<close>

datatype pg_error =
    Smallint_out_of_range
  | Integer_out_of_range
  | Bigint_out_of_range
  | Division_by_zero
  | Float_overflow
  | Float_underflow
  | Char_out_of_range
  | Timestamp_out_of_range
  | Elog_error string

text \<open>A C function address of PostgreSQL is the name of the function.\<close>

type_synonym PGFunction = string

text \<open>The register class of an argument of a directly called function (pg_jit_funcs.h).\<close>

datatype jit_type = JIT_TYPE_32 | JIT_TYPE_64

named_theorems jit_defs \<open>definitions of the directly called functions\<close>

section \<open>Lists\<close>

lemma find_append: "find P (xs @ ys) = (case find P xs of None \<Rightarrow> find P ys | Some x \<Rightarrow> Some x)"
  by (induction xs) auto

section \<open>Datum conversions\<close>

definition DatumGetInt32 :: "Datum \<Rightarrow> int32" where
  "DatumGetInt32 d = ucast d"

definition DatumGetInt64 :: "Datum \<Rightarrow> int64" where
  "DatumGetInt64 d = d"

definition DatumGetUInt32 :: "Datum \<Rightarrow> uint32" where
  "DatumGetUInt32 d = ucast d"

definition DatumGetFloat4 :: "Datum \<Rightarrow> uint32" where
  "DatumGetFloat4 d = ucast d"

definition Int32GetDatum :: "int32 \<Rightarrow> Datum" where
  "Int32GetDatum i = scast i"

definition Int64GetDatum :: "int64 \<Rightarrow> Datum" where
  "Int64GetDatum i = i"

definition BoolGetDatum :: "bool \<Rightarrow> Datum" where
  "BoolGetDatum b = (if b then 1 else 0)"

definition DatumGetBool :: "Datum \<Rightarrow> bool" where
  "DatumGetBool d \<longleftrightarrow> d \<noteq> 0"

definition UInt32GetDatum :: "uint32 \<Rightarrow> Datum" where
  "UInt32GetDatum i = ucast i"

section \<open>Signed ranges\<close>

text \<open>\<open>sfits n i\<close>: the integer \<open>i\<close> is a value of an \<open>n\<close>-bit two's complement integer.\<close>

definition sfits :: "nat \<Rightarrow> int \<Rightarrow> bool" where
  "sfits n i \<longleftrightarrow> - (2 ^ (n - 1)) \<le> i \<and> i < 2 ^ (n - 1)"

lemma sint_sfits [simp]: "sfits LENGTH('a::len) (sint (w :: 'a word))"
  using sint_greater_eq [of w] sint_less [of w] by (simp add: sfits_def)

lemma sfits_16 [simp]: "sfits 16 (sint (w :: 16 word))"
  using sint_sfits [of w] by simp

lemma sfits_32 [simp]: "sfits 32 (sint (w :: 32 word))"
  using sint_sfits [of w] by simp

lemma sfits_64 [simp]: "sfits 64 (sint (w :: 64 word))"
  using sint_sfits [of w] by simp

lemma sint_word_of_int_sfits:
  assumes "sfits LENGTH('a::len) i"
  shows "sint (word_of_int i :: 'a word) = i"
  using assms by (simp add: sfits_def sint_sbintrunc' signed_take_bit_int_eq_self)

lemma sint_add_sfits:
  assumes "sfits LENGTH('a::len) (sint a + sint b)"
  shows "sint (a + b :: 'a word) = sint a + sint b"
proof -
  have "word_of_int (sint a + sint b) = (a + b :: 'a word)"
    by simp
  then show ?thesis
    using sint_word_of_int_sfits [OF assms] by simp
qed

lemma sint_sub_sfits:
  assumes "sfits LENGTH('a::len) (sint a - sint b)"
  shows "sint (a - b :: 'a word) = sint a - sint b"
proof -
  have "word_of_int (sint a - sint b) = (a - b :: 'a word)"
    by simp
  then show ?thesis
    using sint_word_of_int_sfits [OF assms] by simp
qed

lemma sint_mul_sfits:
  assumes "sfits LENGTH('a::len) (sint a * sint b)"
  shows "sint (a * b :: 'a word) = sint a * sint b"
proof -
  have "word_of_int (sint a * sint b) = (a * b :: 'a word)"
    by simp
  then show ?thesis
    using sint_word_of_int_sfits [OF assms] by simp
qed

lemma sint_neg_sfits:
  assumes "sfits LENGTH('a::len) (- sint a)"
  shows "sint (- a :: 'a word) = - sint a"
proof -
  have "word_of_int (- sint a) = (- a :: 'a word)"
    by simp
  then show ?thesis
    using sint_word_of_int_sfits [OF assms] by simp
qed

lemma sfits_mono: "sfits m i \<Longrightarrow> m \<le> n \<Longrightarrow> sfits n i"
  unfolding sfits_def
  by (smt (verit) diff_le_mono one_le_numeral power_increasing)

lemma sint_scast_up:
  assumes "LENGTH('a::len) \<le> LENGTH('b::len)"
  shows "sint (scast (w :: 'a word) :: 'b word) = sint w"
proof -
  have "sfits LENGTH('b) (sint w)"
    using sfits_mono [OF sint_sfits assms] .
  then show ?thesis
    unfolding scast_eq by (rule sint_word_of_int_sfits)
qed

lemma sint_scast_32_64 [simp]: "sint (scast (w :: 32 word) :: 64 word) = sint w"
  by (rule sint_scast_up) simp

lemma sint_scast_16_64 [simp]: "sint (scast (w :: 16 word) :: 64 word) = sint w"
  by (rule sint_scast_up) simp

lemma sint_scast_16_32 [simp]: "sint (scast (w :: 16 word) :: 32 word) = sint w"
  by (rule sint_scast_up) simp

lemma sint_scast_8_32 [simp]: "sint (scast (w :: 8 word) :: 32 word) = sint w"
  by (rule sint_scast_up) simp

text \<open>A narrowing cast keeps the value exactly when it is in range.\<close>

lemma sint_scast_down:
  assumes "sfits LENGTH('b::len) (sint (w :: 'a::len word))"
  shows "sint (scast w :: 'b word) = sint w"
  unfolding scast_eq using assms by (rule sint_word_of_int_sfits)

lemma ucast_scast_32_64 [simp]: "ucast (scast (i :: 32 word) :: 64 word) = i"
  by (rule bit_word_eqI) (simp add: bit_simps)

lemma ucast_ucast_32_64 [simp]: "ucast (ucast (i :: 32 word) :: 64 word) = i"
  by (rule bit_word_eqI) (simp add: bit_simps)

lemma DatumGetInt32_Int32GetDatum [simp]: "DatumGetInt32 (Int32GetDatum i) = i"
  by (simp add: DatumGetInt32_def Int32GetDatum_def)

lemma DatumGetUInt32_UInt32GetDatum [simp]: "DatumGetUInt32 (UInt32GetDatum i) = i"
  by (simp add: DatumGetUInt32_def UInt32GetDatum_def)

lemma DatumGetInt64_Int64GetDatum [simp]: "DatumGetInt64 (Int64GetDatum i) = i"
  by (simp add: DatumGetInt64_def Int64GetDatum_def)

section \<open>The three-way result of a C comparison\<close>

definition bool_int :: "bool \<Rightarrow> int" where
  "bool_int b = (if b then 1 else 0)"

lemma bool_int_simps [simp]: "bool_int True = 1" "bool_int False = 0"
  by (simp_all add: bool_int_def)

text \<open>\<open>(a > b) - (a < b)\<close> is the sign of the difference.\<close>

lemma cmp3_eq_sgn: "bool_int ((b::int) < a) - bool_int (a < b) = sgn (a - b)"
  by (simp add: bool_int_def sgn_if)

definition c_bool :: "bool \<Rightarrow> int32" where
  "c_bool b = (if b then 1 else 0)"

lemma c_bool_eq_1 [simp]: "c_bool b = 1 \<longleftrightarrow> b" and c_bool_eq_0 [simp]: "c_bool b = 0 \<longleftrightarrow> \<not> b"
  by (simp_all add: c_bool_def)

lemma c_bool_inject [simp]: "c_bool a = c_bool b \<longleftrightarrow> a = b"
  by (simp add: c_bool_def)

end
