(* ===== verification/Search.thy ===== *)
theory Search
  imports Prelude
begin

text \<open>
  The two binary search loops that the sources repeat for every type
  (\<open>while (lo < hi)\<close> for ordered CASE thresholds, \<open>while (lo <= hi)\<close> for equality),
  the linear branch scan they replace, and the two interfaces that make the
  replacement correct: a comparison that is monotone along the thresholds
  (\<open>ordered_case\<close>) and a three-way comparison with a key (\<open>keyed_case\<close>).
\<close>

section \<open>The loops\<close>

text \<open>
  \<^verbatim>\<open>
  int lo = 0, hi = n;
  while (lo < hi) { int mid = lo + (hi - lo) / 2; if (TEST(mid)) hi = mid; else lo = mid + 1; }
  \<close>
\<close>

function bs_first :: "(nat \<Rightarrow> bool) \<Rightarrow> nat \<Rightarrow> nat \<Rightarrow> nat" where
  "bs_first P lo hi =
     (if lo < hi then
        (let mid = lo + (hi - lo) div 2
         in if P mid then bs_first P lo mid else bs_first P (mid + 1) hi)
      else lo)"
  by pat_completeness auto
termination
  by (relation "measure (\<lambda>(P, lo, hi). hi - lo)") auto

declare bs_first.simps [simp del]

text \<open>
  \<^verbatim>\<open>
  int lo = 0, hi = n - 1;
  while (lo <= hi) { int mid = lo + (hi - lo) / 2;
    if (c == 0) return mid; else if (c > 0) lo = mid + 1; else hi = mid - 1; }
  \<close>
  where \<open>c\<close> is the three-way comparison of the searched value with element \<open>mid\<close>.
\<close>

function bs_eq :: "(nat \<Rightarrow> int) \<Rightarrow> int \<Rightarrow> int \<Rightarrow> nat option" where
  "bs_eq c lo hi =
     (if lo \<le> hi then
        (let mid = lo + (hi - lo) div 2; k = c (nat mid)
         in if k = 0 then Some (nat mid)
            else if k > 0 then bs_eq c (mid + 1) hi
            else bs_eq c lo (mid - 1))
      else None)"
  by pat_completeness auto
termination
  by (relation "measure (\<lambda>(c, lo, hi). nat (hi - lo + 1))") auto

declare bs_eq.simps [simp del]

text \<open>The scan that both loops replace: the first branch whose test holds.\<close>

fun case_linear :: "('t \<Rightarrow> bool) \<Rightarrow> ('t \<times> 'r) list \<Rightarrow> 'r \<Rightarrow> 'r" where
  "case_linear P [] d = d"
| "case_linear P ((t, r) # bs) d = (if P t then r else case_linear P bs d)"

section \<open>What the loops find\<close>

lemma bs_first_spec:
  assumes "lo \<le> hi"
    and "\<And>i j. lo \<le> i \<Longrightarrow> i < j \<Longrightarrow> j < hi \<Longrightarrow> P i \<Longrightarrow> P j"
  shows "lo \<le> bs_first P lo hi \<and> bs_first P lo hi \<le> hi
    \<and> (\<forall>i. lo \<le> i \<and> i < bs_first P lo hi \<longrightarrow> \<not> P i)
    \<and> (bs_first P lo hi < hi \<longrightarrow> P (bs_first P lo hi))"
  using assms
proof (induction P lo hi rule: bs_first.induct)
  case (1 P lo hi)
  show ?case
  proof (cases "lo < hi")
    case False
    then have "bs_first P lo hi = lo"
      by (subst bs_first.simps) simp
    moreover have "lo = hi" using False "1.prems"(1) by simp
    ultimately show ?thesis by auto
  next
    case True
    define mid where "mid = lo + (hi - lo) div 2"
    have mid: "lo \<le> mid" "mid < hi" using True by (auto simp: mid_def)
    show ?thesis
    proof (cases "P mid")
      case P: True
      have "bs_first P lo hi = bs_first P lo mid"
        using True P by (simp add: bs_first.simps [of P lo hi] mid_def Let_def)
      moreover have "lo \<le> bs_first P lo mid \<and> bs_first P lo mid \<le> mid
          \<and> (\<forall>i. lo \<le> i \<and> i < bs_first P lo mid \<longrightarrow> \<not> P i)
          \<and> (bs_first P lo mid < mid \<longrightarrow> P (bs_first P lo mid))"
        using "1.IH"(1) [OF True mid_def P mid(1)] "1.prems"(2) mid by (meson less_trans)
      ultimately show ?thesis using mid P by (metis le_less_trans less_imp_le le_neq_implies_less)
    next
      case nP: False
      define r where "r = bs_first P (mid + 1) hi"
      have eq: "bs_first P lo hi = r"
        using True nP by (simp add: r_def bs_first.simps [of P lo hi] mid_def Let_def)
      have ih: "mid + 1 \<le> r" "r \<le> hi" "\<forall>i. mid + 1 \<le> i \<and> i < r \<longrightarrow> \<not> P i" "r < hi \<longrightarrow> P r"
      proof -
        have "P j" if "mid + 1 \<le> i" "i < j" "j < hi" "P i" for i j
          using "1.prems"(2) [OF _ that(2,3,4)] that(1) mid(1) by linarith
        from "1.IH"(2) [OF True mid_def nP _ this] mid(2) show
          "mid + 1 \<le> r" "r \<le> hi" "\<forall>i. mid + 1 \<le> i \<and> i < r \<longrightarrow> \<not> P i" "r < hi \<longrightarrow> P r"
          unfolding r_def by simp_all
      qed
      have below: "\<not> P i" if "lo \<le> i" "i \<le> mid" for i
        using "1.prems"(2) [OF that(1), of mid] that mid nP by (cases "i = mid") auto
      have "\<not> P i" if "lo \<le> i" "i < r" for i
      proof (cases "i \<le> mid")
        case True
        then show ?thesis using below that(1) by blast
      next
        case False
        then show ?thesis using ih(3) that(2) by simp
      qed
      moreover have "lo \<le> r" using ih(1) mid(1) by simp
      ultimately show ?thesis using ih(2,4) unfolding eq by blast
    qed
  qed
qed

lemma bs_eq_bounds:
  "bs_eq c lo hi = Some i \<Longrightarrow> 0 \<le> lo \<Longrightarrow> lo \<le> int i \<and> int i \<le> hi \<and> c i = 0"
proof (induction c lo hi rule: bs_eq.induct)
  case (1 c lo hi)
  show ?case
  proof (cases "lo \<le> hi")
    case False
    with "1.prems" show ?thesis by (simp add: bs_eq.simps [of c lo hi])
  next
    case True
    define mid where "mid = lo + (hi - lo) div 2"
    have mid: "lo \<le> mid" "mid \<le> hi" using True by (auto simp: mid_def)
    consider (eq) "c (nat mid) = 0" | (gt) "c (nat mid) > 0" | (lt) "c (nat mid) < 0" by linarith
    then show ?thesis
    proof cases
      case eq
      then show ?thesis
        using "1.prems" True mid by (simp add: bs_eq.simps [of c lo hi] mid_def [symmetric] Let_def) auto
    next
      case gt
      then show ?thesis
        using "1.prems" True mid "1.IH"(1) [OF True mid_def refl]
        by (simp add: bs_eq.simps [of c lo hi] mid_def [symmetric] Let_def)
    next
      case lt
      then show ?thesis
        using "1.prems" True mid "1.IH"(2) [OF True mid_def refl]
        by (simp add: bs_eq.simps [of c lo hi] mid_def [symmetric] Let_def)
    qed
  qed
qed

text \<open>Completeness: with the comparison decreasing along the elements, nothing is missed.\<close>

lemma bs_eq_complete:
  assumes "0 \<le> lo" "lo \<le> int k" "int k \<le> hi" "c k = 0"
    and "\<And>i j. lo \<le> int i \<Longrightarrow> i < j \<Longrightarrow> int j \<le> hi \<Longrightarrow> c j = 0 \<Longrightarrow> c i > 0"
    and "\<And>i j. lo \<le> int i \<Longrightarrow> i < j \<Longrightarrow> int j \<le> hi \<Longrightarrow> c i = 0 \<Longrightarrow> c j < 0"
  shows "bs_eq c lo hi = Some k"
  using assms
proof (induction c lo hi rule: bs_eq.induct)
  case (1 c lo hi)
  have True: "lo \<le> hi" using "1.prems" by linarith
  define mid where "mid = lo + (hi - lo) div 2"
  have mid: "lo \<le> mid" "mid \<le> hi" using True by (auto simp: mid_def)
  have mn: "int (nat mid) = mid" using mid "1.prems"(1) by simp
  consider (eq) "k = nat mid" | (gt) "nat mid < k" | (lt) "k < nat mid" by linarith
  then show ?case
  proof cases
    case eq
    then show ?thesis using True "1.prems"(4)
      by (simp add: bs_eq.simps [of c lo hi] mid_def [symmetric] Let_def)
  next
    case gt
    have pos: "c (nat mid) > 0"
      using "1.prems"(5) [of "nat mid" k] gt "1.prems"(3,4) mid mn by simp
    have "bs_eq c (mid + 1) hi = Some k"
    proof (rule "1.IH"(1) [OF True mid_def refl])
      show "\<And>i j. mid + 1 \<le> int i \<Longrightarrow> i < j \<Longrightarrow> int j \<le> hi \<Longrightarrow> c j = 0 \<Longrightarrow> 0 < c i"
        by (rule "1.prems"(5)) (use mid(1) in simp_all)
      show "\<And>i j. mid + 1 \<le> int i \<Longrightarrow> i < j \<Longrightarrow> int j \<le> hi \<Longrightarrow> c i = 0 \<Longrightarrow> c j < 0"
        by (rule "1.prems"(6)) (use mid(1) in simp_all)
    qed (use pos gt mid mn "1.prems"(1-4) in linarith)+
    then show ?thesis using True pos
      by (simp add: bs_eq.simps [of c lo hi] mid_def [symmetric] Let_def)
  next
    case lt
    have neg: "c (nat mid) < 0"
      using "1.prems"(6) [of k "nat mid"] lt "1.prems"(2,4) mid mn by simp
    have "bs_eq c lo (mid - 1) = Some k"
    proof (rule "1.IH"(2) [OF True mid_def refl])
      show "\<And>i j. lo \<le> int i \<Longrightarrow> i < j \<Longrightarrow> int j \<le> mid - 1 \<Longrightarrow> c j = 0 \<Longrightarrow> 0 < c i"
        by (rule "1.prems"(5)) (use mid(2) in simp_all)
      show "\<And>i j. lo \<le> int i \<Longrightarrow> i < j \<Longrightarrow> int j \<le> mid - 1 \<Longrightarrow> c i = 0 \<Longrightarrow> c j < 0"
        by (rule "1.prems"(6)) (use mid(2) in simp_all)
    qed (use neg lt mid mn "1.prems"(1-4) in linarith)+
    then show ?thesis using True neg
      by (simp add: bs_eq.simps [of c lo hi] mid_def [symmetric] Let_def)
  qed
qed

section \<open>The linear scan\<close>

lemma case_linear_first:
  assumes "length ts = length rs" "k < length ts" "P (ts ! k)" "\<And>i. i < k \<Longrightarrow> \<not> P (ts ! i)"
  shows "case_linear P (zip ts rs) d = rs ! k"
  using assms
proof (induction ts rs arbitrary: k rule: list_induct2)
  case Nil
  then show ?case by simp
next
  case (Cons t ts r rs)
  show ?case
  proof (cases k)
    case 0
    with Cons.prems show ?thesis by simp
  next
    case (Suc k')
    have "\<not> P t" using Cons.prems(3) [of 0] Suc by simp
    moreover have "case_linear P (zip ts rs) d = rs ! k'"
      using Cons.prems Suc by (intro Cons.IH) force+
    ultimately show ?thesis using Suc by simp
  qed
qed

lemma case_linear_none:
  assumes "\<And>i. i < length ts \<Longrightarrow> \<not> P (ts ! i)"
  shows "case_linear P (zip ts rs) d = d"
  using assms
proof (induction ts arbitrary: rs)
  case Nil
  then show ?case by simp
next
  case (Cons t ts)
  have "\<not> P t" using Cons.prems [of 0] by simp
  moreover have "case_linear P (zip ts (tl rs)) d = d"
    using Cons.prems by (intro Cons.IH) force
  ultimately show ?case by (cases rs) auto
qed

lemma case_linear_cong:
  "(\<And>t. t \<in> set ts \<Longrightarrow> P t = Q t) \<Longrightarrow>
     case_linear P (zip ts rs) d = case_linear Q (zip ts rs) d"
proof (induction ts arbitrary: rs)
  case Nil
  then show ?case by simp
next
  case (Cons t ts)
  then show ?case by (cases rs) auto
qed

lemma case_linear_map:
  "case_linear P (zip (map f ts) rs) d = case_linear (\<lambda>t. P (f t)) (zip ts rs) d"
proof (induction ts arbitrary: rs)
  case Nil
  then show ?case by simp
next
  case (Cons t ts)
  then show ?case by (cases rs) auto
qed

section \<open>The interface of an ordered comparison\<close>

text \<open>
  \<open>before v t\<close> is the operator of the WHEN clause (\<open>v < t\<close>, \<open>v >= t\<close>, ...), \<open>ord\<close> the
  order the detection has checked between neighbouring thresholds: once the operator
  holds at a threshold it holds at all later ones.
\<close>

locale ordered_case =
  fixes before :: "'v \<Rightarrow> 't \<Rightarrow> bool" and ord :: "'t \<Rightarrow> 't \<Rightarrow> bool"
  assumes before_mono: "ord s t \<Longrightarrow> before v s \<Longrightarrow> before v t"
begin

lemma search_linear:
  assumes sorted: "sorted_wrt ord ts" and len: "length rs = length ts" and n: "n = length ts"
  shows "(let lo = bs_first (\<lambda>i. before v (ts ! i)) 0 n in if lo < n then rs ! lo else d)
    = case_linear (before v) (zip ts rs) d"
proof -
  define lo where "lo = bs_first (\<lambda>i. before v (ts ! i)) 0 n"
  have mono: "before v (ts ! j)" if "i < j" "j < n" "before v (ts ! i)" for i j
    using before_mono sorted_wrt_nth_less [OF sorted] that n by blast
  have spec: "lo \<le> n" "\<And>i. i < lo \<Longrightarrow> \<not> before v (ts ! i)" "lo < n \<Longrightarrow> before v (ts ! lo)"
    using bs_first_spec [of 0 n "\<lambda>i. before v (ts ! i)", folded lo_def] mono by blast+
  show ?thesis
  proof (cases "lo < n")
    case True
    then have "case_linear (before v) (zip ts rs) d = rs ! lo"
      using spec len n by (intro case_linear_first) auto
    with True show ?thesis by (simp add: lo_def)
  next
    case False
    then have "case_linear (before v) (zip ts rs) d = d"
      using spec n by (intro case_linear_none) auto
    with False show ?thesis by (simp add: lo_def)
  qed
qed

end

section \<open>The interface of a keyed three-way comparison\<close>

text \<open>
  \<open>cmp v t\<close> is the sign of the difference of two keys; the thresholds are sorted by key
  without duplicates.
\<close>

locale keyed_case =
  fixes cmp :: "'v \<Rightarrow> 't \<Rightarrow> int" and vkey :: "'v \<Rightarrow> 'k::linorder" and tkey :: "'t \<Rightarrow> 'k"
  assumes cmp_pos: "cmp v t > 0 \<longleftrightarrow> tkey t < vkey v"
    and cmp_neg: "cmp v t < 0 \<longleftrightarrow> vkey v < tkey t"
begin

lemma cmp_zero: "cmp v t = 0 \<longleftrightarrow> vkey v = tkey t"
  using cmp_pos [of v t] cmp_neg [of v t] by (metis less_irrefl linorder_neqE)

lemma search_linear:
  assumes sorted: "sorted_wrt (\<lambda>s t. tkey s < tkey t) ts" and len: "length rs = length ts"
    and n: "n = length ts"
  shows "(case bs_eq (\<lambda>i. cmp v (ts ! i)) 0 (int n - 1) of Some i \<Rightarrow> rs ! i | None \<Rightarrow> d)
    = case_linear (\<lambda>t. cmp v t = 0) (zip ts rs) d"
proof (cases "\<exists>k<n. cmp v (ts ! k) = 0")
  case True
  then obtain k where k: "k < n" "cmp v (ts ! k) = 0" by blast
  have less: "tkey (ts ! i) < tkey (ts ! j)" if "i < j" "j < n" for i j
    using sorted_wrt_nth_less [OF sorted] that n by blast
  have "bs_eq (\<lambda>i. cmp v (ts ! i)) 0 (int n - 1) = Some k"
    using k less by (intro bs_eq_complete) (force simp: cmp_pos cmp_neg cmp_zero)+
  moreover have "case_linear (\<lambda>t. cmp v t = 0) (zip ts rs) d = rs ! k"
    using k less [of _ k] len n by (intro case_linear_first) (fastforce simp: cmp_zero)+
  ultimately show ?thesis by simp
next
  case False
  have "bs_eq (\<lambda>i. cmp v (ts ! i)) 0 (int n - 1) \<noteq> Some i" for i
    using bs_eq_bounds [of "\<lambda>i. cmp v (ts ! i)" 0 "int n - 1" i] False by auto
  then have "bs_eq (\<lambda>i. cmp v (ts ! i)) 0 (int n - 1) = None"
    by (cases "bs_eq (\<lambda>i. cmp v (ts ! i)) 0 (int n - 1)") auto
  moreover have "case_linear (\<lambda>t. cmp v t = 0) (zip ts rs) d = d"
    using False n by (intro case_linear_none) auto
  ultimately show ?thesis by simp
qed

end

text \<open>A keyed comparison is monotone in all four directions.\<close>

sublocale keyed_case \<subseteq> less: ordered_case
  "\<lambda>v t. vkey v < tkey t" "\<lambda>s t. tkey s < tkey t"
  by unfold_locales (rule less_trans)

sublocale keyed_case \<subseteq> less_eq: ordered_case
  "\<lambda>v t. vkey v \<le> tkey t" "\<lambda>s t. tkey s < tkey t"
  by unfold_locales (meson le_less_trans less_imp_le)

sublocale keyed_case \<subseteq> greater: ordered_case
  "\<lambda>v t. tkey t < vkey v" "\<lambda>s t. tkey t < tkey s"
  by unfold_locales (rule less_trans)

sublocale keyed_case \<subseteq> greater_eq: ordered_case
  "\<lambda>v t. tkey t \<le> vkey v" "\<lambda>s t. tkey t < tkey s"
  by unfold_locales (meson less_le_trans less_imp_le)

end
