(* ===== verification/Floats.thy ===== *)
theory Floats
  imports Prelude
begin

text \<open>
  Comparison of \<open>float8\<close> and \<open>float4\<close> values (src/src/pg_jit_funcs.c and the copies of
  the comparison helpers in src/src/pg_jitter_common.c). A value is its IEEE 754 bit
  pattern: the sign bit, and the magnitude in the remaining bits, which orders the finite
  values and infinities of one sign as unsigned integers. A magnitude above that of
  infinity is a NaN; C's \<open><\<close>, \<open>>\<close> and \<open>==\<close> are false on a NaN.
\<close>

section \<open>Bit patterns\<close>

definition f64_mag :: "uint64 \<Rightarrow> int" where
  "f64_mag w = uint w mod 2 ^ 63"

definition f64_isnan :: "uint64 \<Rightarrow> bool" where
  "f64_isnan w \<longleftrightarrow> f64_mag w > 0x7FF0000000000000"

definition f64_isinf :: "uint64 \<Rightarrow> bool" where
  "f64_isinf w \<longleftrightarrow> f64_mag w = 0x7FF0000000000000"

definition f64_ord :: "uint64 \<Rightarrow> int" where
  "f64_ord w = (if uint w < 2 ^ 63 then f64_mag w else - f64_mag w)"

definition f64_lt :: "uint64 \<Rightarrow> uint64 \<Rightarrow> bool" where
  "f64_lt a b \<longleftrightarrow> \<not> f64_isnan a \<and> \<not> f64_isnan b \<and> f64_ord a < f64_ord b"

definition f64_eq :: "uint64 \<Rightarrow> uint64 \<Rightarrow> bool" where
  "f64_eq a b \<longleftrightarrow> \<not> f64_isnan a \<and> \<not> f64_isnan b \<and> f64_ord a = f64_ord b"

definition f32_mag :: "uint32 \<Rightarrow> int" where
  "f32_mag w = uint w mod 2 ^ 31"

definition f32_isnan :: "uint32 \<Rightarrow> bool" where
  "f32_isnan w \<longleftrightarrow> f32_mag w > 0x7F800000"

definition f32_ord :: "uint32 \<Rightarrow> int" where
  "f32_ord w = (if uint w < 2 ^ 31 then f32_mag w else - f32_mag w)"

definition f32_lt :: "uint32 \<Rightarrow> uint32 \<Rightarrow> bool" where
  "f32_lt a b \<longleftrightarrow> \<not> f32_isnan a \<and> \<not> f32_isnan b \<and> f32_ord a < f32_ord b"

section \<open>PostgreSQL's float order: NaN equals NaN and is above everything else\<close>

definition f64_key :: "uint64 \<Rightarrow> int" where
  "f64_key w = (if f64_isnan w then 2 ^ 64 else f64_ord w)"

definition f32_key :: "uint32 \<Rightarrow> int" where
  "f32_key w = (if f32_isnan w then 2 ^ 32 else f32_ord w)"

lemma f64_ord_bounds: "- (2 ^ 63) < f64_ord w \<and> f64_ord w < 2 ^ 63"
proof -
  have "0 \<le> f64_mag w" "f64_mag w < 2 ^ 63" by (simp_all add: f64_mag_def)
  then show ?thesis by (simp add: f64_ord_def)
qed

lemma f32_ord_bounds: "- (2 ^ 31) < f32_ord w \<and> f32_ord w < 2 ^ 31"
proof -
  have "0 \<le> f32_mag w" "f32_mag w < 2 ^ 31" by (simp_all add: f32_mag_def)
  then show ?thesis by (simp add: f32_ord_def)
qed

definition float8_cmp_jit :: "uint64 \<Rightarrow> uint64 \<Rightarrow> int" where
  "float8_cmp_jit a b =
     (if f64_isnan a then (if f64_isnan b then 0 else 1)
      else if f64_isnan b then - 1
      else if f64_lt b a then 1 else if f64_lt a b then - 1 else 0)"

definition float4_cmp_jit :: "uint32 \<Rightarrow> uint32 \<Rightarrow> int" where
  "float4_cmp_jit a b =
     (if f32_isnan a then (if f32_isnan b then 0 else 1)
      else if f32_isnan b then - 1
      else if f32_lt b a then 1 else if f32_lt a b then - 1 else 0)"

lemma float8_cmp_key: "float8_cmp_jit a b = sgn (f64_key a - f64_key b)"
  using f64_ord_bounds [of a] f64_ord_bounds [of b]
  by (auto simp: float8_cmp_jit_def f64_key_def f64_lt_def sgn_if)

lemma float4_cmp_key: "float4_cmp_jit a b = sgn (f32_key a - f32_key b)"
  using f32_ord_bounds [of a] f32_ord_bounds [of b]
  by (auto simp: float4_cmp_jit_def f32_key_def f32_lt_def sgn_if)

lemma sgn_diff_simps:
  "(sgn (a - b :: int) = 0) = (a = b)" "(sgn (a - b) < 0) = (a < b)"
  "(sgn (a - b) > 0) = (b < a)" "(sgn (a - b) \<le> 0) = (a \<le> b)" "(sgn (a - b) \<ge> 0) = (b \<le> a)"
  by (auto simp: sgn_if)

section \<open>The comparison functions\<close>

definition jit_float8eq :: "int64 \<Rightarrow> int64 \<Rightarrow> int32" where
  "jit_float8eq a b = c_bool (float8_cmp_jit a b = 0)"
definition jit_float8ne :: "int64 \<Rightarrow> int64 \<Rightarrow> int32" where
  "jit_float8ne a b = c_bool (float8_cmp_jit a b \<noteq> 0)"
definition jit_float8lt :: "int64 \<Rightarrow> int64 \<Rightarrow> int32" where
  "jit_float8lt a b = c_bool (float8_cmp_jit a b < 0)"
definition jit_float8le :: "int64 \<Rightarrow> int64 \<Rightarrow> int32" where
  "jit_float8le a b = c_bool (float8_cmp_jit a b \<le> 0)"
definition jit_float8gt :: "int64 \<Rightarrow> int64 \<Rightarrow> int32" where
  "jit_float8gt a b = c_bool (float8_cmp_jit a b > 0)"
definition jit_float8ge :: "int64 \<Rightarrow> int64 \<Rightarrow> int32" where
  "jit_float8ge a b = c_bool (float8_cmp_jit a b \<ge> 0)"

definition jit_float4eq :: "int64 \<Rightarrow> int64 \<Rightarrow> int32" where
  "jit_float4eq a b = c_bool (float4_cmp_jit (DatumGetFloat4 a) (DatumGetFloat4 b) = 0)"
definition jit_float4ne :: "int64 \<Rightarrow> int64 \<Rightarrow> int32" where
  "jit_float4ne a b = c_bool (float4_cmp_jit (DatumGetFloat4 a) (DatumGetFloat4 b) \<noteq> 0)"
definition jit_float4lt :: "int64 \<Rightarrow> int64 \<Rightarrow> int32" where
  "jit_float4lt a b = c_bool (float4_cmp_jit (DatumGetFloat4 a) (DatumGetFloat4 b) < 0)"
definition jit_float4le :: "int64 \<Rightarrow> int64 \<Rightarrow> int32" where
  "jit_float4le a b = c_bool (float4_cmp_jit (DatumGetFloat4 a) (DatumGetFloat4 b) \<le> 0)"
definition jit_float4gt :: "int64 \<Rightarrow> int64 \<Rightarrow> int32" where
  "jit_float4gt a b = c_bool (float4_cmp_jit (DatumGetFloat4 a) (DatumGetFloat4 b) > 0)"
definition jit_float4ge :: "int64 \<Rightarrow> int64 \<Rightarrow> int32" where
  "jit_float4ge a b = c_bool (float4_cmp_jit (DatumGetFloat4 a) (DatumGetFloat4 b) \<ge> 0)"

definition jit_float4larger :: "int64 \<Rightarrow> int64 \<Rightarrow> int64" where
  "jit_float4larger a b =
     (if float4_cmp_jit (DatumGetFloat4 a) (DatumGetFloat4 b) \<ge> 0 then a else b)"
definition jit_float4smaller :: "int64 \<Rightarrow> int64 \<Rightarrow> int64" where
  "jit_float4smaller a b =
     (if float4_cmp_jit (DatumGetFloat4 a) (DatumGetFloat4 b) \<le> 0 then a else b)"
definition jit_float8larger :: "int64 \<Rightarrow> int64 \<Rightarrow> int64" where
  "jit_float8larger a b = (if float8_cmp_jit a b \<ge> 0 then a else b)"
definition jit_float8smaller :: "int64 \<Rightarrow> int64 \<Rightarrow> int64" where
  "jit_float8smaller a b = (if float8_cmp_jit a b \<le> 0 then a else b)"

text \<open>The btree comparison functions compare with C's operators only.\<close>

definition jit_btfloat4cmp :: "int64 \<Rightarrow> int64 \<Rightarrow> int" where
  "jit_btfloat4cmp a b =
     (let fa = DatumGetFloat4 a; fb = DatumGetFloat4 b
      in if f32_lt fb fa then 1 else if f32_lt fa fb then - 1 else 0)"
definition jit_btfloat8cmp :: "int64 \<Rightarrow> int64 \<Rightarrow> int" where
  "jit_btfloat8cmp a b = (if f64_lt b a then 1 else if f64_lt a b then - 1 else 0)"

lemmas float_cmp_defs =
  jit_float8eq_def jit_float8ne_def jit_float8lt_def jit_float8le_def jit_float8gt_def
  jit_float8ge_def jit_float4eq_def jit_float4ne_def jit_float4lt_def jit_float4le_def
  jit_float4gt_def jit_float4ge_def float8_cmp_key float4_cmp_key sgn_diff_simps

text \<open>
  C31 (functional): the twelve float comparisons decide the relations of PostgreSQL's
  total order on floats, in which all NaNs are equal and greater than every other value.
\<close>

theorem float_comparisons_total_order:
  "(jit_float8eq a b = 1 \<longleftrightarrow> f64_key a = f64_key b)
   \<and> (jit_float8ne a b = 1 \<longleftrightarrow> f64_key a \<noteq> f64_key b)
   \<and> (jit_float8lt a b = 1 \<longleftrightarrow> f64_key a < f64_key b)
   \<and> (jit_float8le a b = 1 \<longleftrightarrow> f64_key a \<le> f64_key b)
   \<and> (jit_float8gt a b = 1 \<longleftrightarrow> f64_key b < f64_key a)
   \<and> (jit_float8ge a b = 1 \<longleftrightarrow> f64_key b \<le> f64_key a)
   \<and> (jit_float4eq a b = 1 \<longleftrightarrow> f32_key (DatumGetFloat4 a) = f32_key (DatumGetFloat4 b))
   \<and> (jit_float4ne a b = 1 \<longleftrightarrow> f32_key (DatumGetFloat4 a) \<noteq> f32_key (DatumGetFloat4 b))
   \<and> (jit_float4lt a b = 1 \<longleftrightarrow> f32_key (DatumGetFloat4 a) < f32_key (DatumGetFloat4 b))
   \<and> (jit_float4le a b = 1 \<longleftrightarrow> f32_key (DatumGetFloat4 a) \<le> f32_key (DatumGetFloat4 b))
   \<and> (jit_float4gt a b = 1 \<longleftrightarrow> f32_key (DatumGetFloat4 b) < f32_key (DatumGetFloat4 a))
   \<and> (jit_float4ge a b = 1 \<longleftrightarrow> f32_key (DatumGetFloat4 b) \<le> f32_key (DatumGetFloat4 a))"
  by (simp add: float_cmp_defs)

text \<open>
  the btree comparison \<open>jit_btfloat8cmp\<close> agrees with the order the other
  float functions implement exactly when either both or none of its arguments are NaN;
  with a single NaN it answers "equal", so the order it gives is not PostgreSQL's.
\<close>

theorem btfloat8cmp_agrees_iff:
  "jit_btfloat8cmp a b = float8_cmp_jit a b \<longleftrightarrow> (f64_isnan a \<longleftrightarrow> f64_isnan b)"
  by (auto simp: jit_btfloat8cmp_def float8_cmp_jit_def f64_lt_def)

end
