(* ===== verification/CaseHelpers.thy ===== *)
theory CaseHelpers
  imports Search Floats "HOL-Library.List_Lexorder"
begin

text \<open>
  The run-time helpers of the CASE binary search (src/src/pg_jitter_common.c, from
  \<open>pg_jitter_case_bsearch_lt_i32\<close> to \<open>pg_jitter_select_bsearch_helper\<close>, and the
  descriptor of src/src/pg_jitter_common.h). A descriptor holds the thresholds in the
  storage type of the comparison (\<open>int32\<close>, \<open>int64\<close> or \<open>Datum\<close>), the results and the
  ELSE value. Each helper is shown to compute the linear scan over the branches.
\<close>

section \<open>PostgreSQL functions and collations as parameters\<close>

text \<open>
  A \<open>PGFunction\<close> is named by its symbol. What the sources use of PostgreSQL is a
  record: \<open>pg_call fn coll a b\<close> is the boolean result of calling the two-argument
  comparison \<open>fn\<close> under collation \<open>coll\<close>; \<open>text_bytes\<close> the detoasted payload of a text
  Datum; the last two fields are the collation's \<open>deterministic\<close> flag and
  \<open>pg_jitter_collation_is_c\<close>.
\<close>

record pg_env =
  pg_call :: "PGFunction \<Rightarrow> Oid \<Rightarrow> Datum \<Rightarrow> Datum \<Rightarrow> bool"
  text_bytes :: "Datum \<Rightarrow> uint8 list"
  coll_deterministic :: "Oid \<Rightarrow> bool"
  coll_is_c :: "Oid \<Rightarrow> bool"

definition C_COLLATION_OID :: Oid where "C_COLLATION_OID = 950"
definition InvalidOid :: Oid where "InvalidOid = 0"

section \<open>The descriptor\<close>

datatype CaseBSearchType =
  CASE_BS_I32 | CASE_BS_I64 | CASE_BS_U32 | CASE_BS_I16 | CASE_BS_F4 | CASE_BS_F8 | CASE_BS_GENERIC

definition bs_type_to_var_type :: "CaseBSearchType \<Rightarrow> jit_type" where
  "bs_type_to_var_type t =
     (case t of CASE_BS_I32 \<Rightarrow> JIT_TYPE_32 | CASE_BS_U32 \<Rightarrow> JIT_TYPE_32 | CASE_BS_I16 \<Rightarrow> JIT_TYPE_32
      | _ \<Rightarrow> JIT_TYPE_64)"

record 't CaseBSearchDesc =
  bs_n :: nat
  bs_cmp_fn :: "PGFunction option"
  bs_cmp_order_fn :: "PGFunction option"
  bs_cmp_collation :: Oid
  bs_default_val :: Datum
  bs_range_min :: Datum
  bs_has_range_min :: bool
  bs_thresholds :: "'t list"
  bs_results :: "Datum list"

text \<open>The last statement of every ordered helper: \<open>lo < n ? results[lo] : default_val\<close>.\<close>

definition bs_pick :: "'t CaseBSearchDesc \<Rightarrow> nat \<Rightarrow> Datum" where
  "bs_pick desc lo = (if lo < bs_n desc then bs_results desc ! lo else bs_default_val desc)"

definition bs_pick_eq :: "'t CaseBSearchDesc \<Rightarrow> nat option \<Rightarrow> Datum" where
  "bs_pick_eq desc r = (case r of Some i \<Rightarrow> bs_results desc ! i | None \<Rightarrow> bs_default_val desc)"

section \<open>Signed 32 and 64 bit helpers\<close>

definition pg_jitter_case_bsearch_lt_i32 :: "int32 \<Rightarrow> int32 CaseBSearchDesc \<Rightarrow> Datum" where
  "pg_jitter_case_bsearch_lt_i32 val desc =
     (if bs_has_range_min desc \<and> sint val < sint (DatumGetInt32 (bs_range_min desc))
      then bs_default_val desc
      else bs_pick desc (bs_first (\<lambda>mid. sint val < sint (bs_thresholds desc ! mid)) 0 (bs_n desc)))"

definition pg_jitter_case_bsearch_le_i32 :: "int32 \<Rightarrow> int32 CaseBSearchDesc \<Rightarrow> Datum" where
  "pg_jitter_case_bsearch_le_i32 val desc =
     bs_pick desc (bs_first (\<lambda>mid. sint val \<le> sint (bs_thresholds desc ! mid)) 0 (bs_n desc))"

definition pg_jitter_case_bsearch_lt_i64 :: "int64 \<Rightarrow> int64 CaseBSearchDesc \<Rightarrow> Datum" where
  "pg_jitter_case_bsearch_lt_i64 val desc =
     (if bs_has_range_min desc \<and> sint val < sint (DatumGetInt64 (bs_range_min desc))
      then bs_default_val desc
      else bs_pick desc (bs_first (\<lambda>mid. sint val < sint (bs_thresholds desc ! mid)) 0 (bs_n desc)))"

definition pg_jitter_case_bsearch_le_i64 :: "int64 \<Rightarrow> int64 CaseBSearchDesc \<Rightarrow> Datum" where
  "pg_jitter_case_bsearch_le_i64 val desc =
     bs_pick desc (bs_first (\<lambda>mid. sint val \<le> sint (bs_thresholds desc ! mid)) 0 (bs_n desc))"

definition pg_jitter_case_bsearch_gt_i32 :: "int32 \<Rightarrow> int32 CaseBSearchDesc \<Rightarrow> Datum" where
  "pg_jitter_case_bsearch_gt_i32 val desc =
     bs_pick desc (bs_first (\<lambda>mid. sint val > sint (bs_thresholds desc ! mid)) 0 (bs_n desc))"

definition pg_jitter_case_bsearch_ge_i32 :: "int32 \<Rightarrow> int32 CaseBSearchDesc \<Rightarrow> Datum" where
  "pg_jitter_case_bsearch_ge_i32 val desc =
     bs_pick desc (bs_first (\<lambda>mid. sint val \<ge> sint (bs_thresholds desc ! mid)) 0 (bs_n desc))"

definition pg_jitter_case_bsearch_gt_i64 :: "int64 \<Rightarrow> int64 CaseBSearchDesc \<Rightarrow> Datum" where
  "pg_jitter_case_bsearch_gt_i64 val desc =
     bs_pick desc (bs_first (\<lambda>mid. sint val > sint (bs_thresholds desc ! mid)) 0 (bs_n desc))"

definition pg_jitter_case_bsearch_ge_i64 :: "int64 \<Rightarrow> int64 CaseBSearchDesc \<Rightarrow> Datum" where
  "pg_jitter_case_bsearch_ge_i64 val desc =
     bs_pick desc (bs_first (\<lambda>mid. sint val \<ge> sint (bs_thresholds desc ! mid)) 0 (bs_n desc))"

text \<open>
  The equality helpers test \<open>sorted_vals[mid] == val\<close>, then \<open>sorted_vals[mid] < val\<close>: the
  three-way comparison of \<open>val\<close> with the element.
\<close>

definition cmp_i32 :: "int32 \<Rightarrow> int32 \<Rightarrow> int" where
  "cmp_i32 val t = (if t = val then 0 else if sint t < sint val then 1 else - 1)"

definition pg_jitter_case_bsearch_eq_i32 :: "int32 \<Rightarrow> int32 CaseBSearchDesc \<Rightarrow> Datum" where
  "pg_jitter_case_bsearch_eq_i32 val desc =
     bs_pick_eq desc (bs_eq (\<lambda>mid. cmp_i32 val (bs_thresholds desc ! mid)) 0 (int (bs_n desc) - 1))"

definition cmp_i64 :: "int64 \<Rightarrow> int64 \<Rightarrow> int" where
  "cmp_i64 val t = (if t = val then 0 else if sint t < sint val then 1 else - 1)"

definition pg_jitter_case_bsearch_eq_i64 :: "int64 \<Rightarrow> int64 CaseBSearchDesc \<Rightarrow> Datum" where
  "pg_jitter_case_bsearch_eq_i64 val desc =
     bs_pick_eq desc (bs_eq (\<lambda>mid. cmp_i64 val (bs_thresholds desc ! mid)) 0 (int (bs_n desc) - 1))"

section \<open>Unsigned 32 bit helpers\<close>

definition pg_jitter_case_bsearch_lt_u32 :: "int32 \<Rightarrow> int32 CaseBSearchDesc \<Rightarrow> Datum" where
  "pg_jitter_case_bsearch_lt_u32 val desc =
     bs_pick desc (bs_first (\<lambda>mid. uint val < uint (bs_thresholds desc ! mid)) 0 (bs_n desc))"
definition pg_jitter_case_bsearch_le_u32 :: "int32 \<Rightarrow> int32 CaseBSearchDesc \<Rightarrow> Datum" where
  "pg_jitter_case_bsearch_le_u32 val desc =
     bs_pick desc (bs_first (\<lambda>mid. uint val \<le> uint (bs_thresholds desc ! mid)) 0 (bs_n desc))"
definition pg_jitter_case_bsearch_gt_u32 :: "int32 \<Rightarrow> int32 CaseBSearchDesc \<Rightarrow> Datum" where
  "pg_jitter_case_bsearch_gt_u32 val desc =
     bs_pick desc (bs_first (\<lambda>mid. uint val > uint (bs_thresholds desc ! mid)) 0 (bs_n desc))"
definition pg_jitter_case_bsearch_ge_u32 :: "int32 \<Rightarrow> int32 CaseBSearchDesc \<Rightarrow> Datum" where
  "pg_jitter_case_bsearch_ge_u32 val desc =
     bs_pick desc (bs_first (\<lambda>mid. uint val \<ge> uint (bs_thresholds desc ! mid)) 0 (bs_n desc))"

definition cmp_u32 :: "int32 \<Rightarrow> int32 \<Rightarrow> int" where
  "cmp_u32 val t = (if uint t = uint val then 0 else if uint t < uint val then 1 else - 1)"

definition pg_jitter_case_bsearch_eq_u32 :: "int32 \<Rightarrow> int32 CaseBSearchDesc \<Rightarrow> Datum" where
  "pg_jitter_case_bsearch_eq_u32 val desc =
     bs_pick_eq desc (bs_eq (\<lambda>mid. cmp_u32 val (bs_thresholds desc ! mid)) 0 (int (bs_n desc) - 1))"

section \<open>16 bit helpers: the value is cast, the thresholds are stored as int32\<close>

definition i16 :: "int32 \<Rightarrow> int" where
  "i16 val = sint (scast val :: int16)"

definition bsearch_body_i16 :: "(int \<Rightarrow> int \<Rightarrow> bool) \<Rightarrow> int32 \<Rightarrow> int32 CaseBSearchDesc \<Rightarrow> Datum" where
  "bsearch_body_i16 op val desc =
     (if bs_has_range_min desc \<and> i16 val < i16 (DatumGetInt32 (bs_range_min desc))
      then bs_default_val desc
      else bs_pick desc (bs_first (\<lambda>mid. op (i16 val) (sint (bs_thresholds desc ! mid))) 0 (bs_n desc)))"

definition pg_jitter_case_bsearch_lt_i16 :: "int32 \<Rightarrow> int32 CaseBSearchDesc \<Rightarrow> Datum" where
  "pg_jitter_case_bsearch_lt_i16 = bsearch_body_i16 (<)"
definition pg_jitter_case_bsearch_le_i16 :: "int32 \<Rightarrow> int32 CaseBSearchDesc \<Rightarrow> Datum" where
  "pg_jitter_case_bsearch_le_i16 = bsearch_body_i16 (\<le>)"
definition pg_jitter_case_bsearch_gt_i16 :: "int32 \<Rightarrow> int32 CaseBSearchDesc \<Rightarrow> Datum" where
  "pg_jitter_case_bsearch_gt_i16 = bsearch_body_i16 (>)"
definition pg_jitter_case_bsearch_ge_i16 :: "int32 \<Rightarrow> int32 CaseBSearchDesc \<Rightarrow> Datum" where
  "pg_jitter_case_bsearch_ge_i16 = bsearch_body_i16 (\<ge>)"

definition cmp_i16 :: "int32 \<Rightarrow> int32 \<Rightarrow> int" where
  "cmp_i16 val t = (if sint t = i16 val then 0 else if sint t < i16 val then 1 else - 1)"

definition pg_jitter_case_bsearch_eq_i16 :: "int32 \<Rightarrow> int32 CaseBSearchDesc \<Rightarrow> Datum" where
  "pg_jitter_case_bsearch_eq_i16 val desc =
     bs_pick_eq desc (bs_eq (\<lambda>mid. cmp_i16 val (bs_thresholds desc ! mid)) 0 (int (bs_n desc) - 1))"

section \<open>Float helpers\<close>

definition cmp_f4 :: "Datum \<Rightarrow> Datum \<Rightarrow> int" where
  "cmp_f4 val t = float4_cmp_jit (DatumGetFloat4 val) (DatumGetFloat4 t)"

definition pg_jitter_case_bsearch_lt_f4 :: "Datum \<Rightarrow> Datum CaseBSearchDesc \<Rightarrow> Datum" where
  "pg_jitter_case_bsearch_lt_f4 val desc =
     bs_pick desc (bs_first (\<lambda>mid. cmp_f4 val (bs_thresholds desc ! mid) < 0) 0 (bs_n desc))"
definition pg_jitter_case_bsearch_le_f4 :: "Datum \<Rightarrow> Datum CaseBSearchDesc \<Rightarrow> Datum" where
  "pg_jitter_case_bsearch_le_f4 val desc =
     bs_pick desc (bs_first (\<lambda>mid. cmp_f4 val (bs_thresholds desc ! mid) \<le> 0) 0 (bs_n desc))"
definition pg_jitter_case_bsearch_gt_f4 :: "Datum \<Rightarrow> Datum CaseBSearchDesc \<Rightarrow> Datum" where
  "pg_jitter_case_bsearch_gt_f4 val desc =
     bs_pick desc (bs_first (\<lambda>mid. cmp_f4 val (bs_thresholds desc ! mid) > 0) 0 (bs_n desc))"
definition pg_jitter_case_bsearch_ge_f4 :: "Datum \<Rightarrow> Datum CaseBSearchDesc \<Rightarrow> Datum" where
  "pg_jitter_case_bsearch_ge_f4 val desc =
     bs_pick desc (bs_first (\<lambda>mid. cmp_f4 val (bs_thresholds desc ! mid) \<ge> 0) 0 (bs_n desc))"
definition pg_jitter_case_bsearch_eq_f4 :: "Datum \<Rightarrow> Datum CaseBSearchDesc \<Rightarrow> Datum" where
  "pg_jitter_case_bsearch_eq_f4 val desc =
     bs_pick_eq desc (bs_eq (\<lambda>mid. cmp_f4 val (bs_thresholds desc ! mid)) 0 (int (bs_n desc) - 1))"

definition cmp_f8 :: "Datum \<Rightarrow> Datum \<Rightarrow> int" where
  "cmp_f8 val t = float8_cmp_jit val t"

definition pg_jitter_case_bsearch_lt_f8 :: "Datum \<Rightarrow> Datum CaseBSearchDesc \<Rightarrow> Datum" where
  "pg_jitter_case_bsearch_lt_f8 val desc =
     bs_pick desc (bs_first (\<lambda>mid. cmp_f8 val (bs_thresholds desc ! mid) < 0) 0 (bs_n desc))"
definition pg_jitter_case_bsearch_le_f8 :: "Datum \<Rightarrow> Datum CaseBSearchDesc \<Rightarrow> Datum" where
  "pg_jitter_case_bsearch_le_f8 val desc =
     bs_pick desc (bs_first (\<lambda>mid. cmp_f8 val (bs_thresholds desc ! mid) \<le> 0) 0 (bs_n desc))"
definition pg_jitter_case_bsearch_gt_f8 :: "Datum \<Rightarrow> Datum CaseBSearchDesc \<Rightarrow> Datum" where
  "pg_jitter_case_bsearch_gt_f8 val desc =
     bs_pick desc (bs_first (\<lambda>mid. cmp_f8 val (bs_thresholds desc ! mid) > 0) 0 (bs_n desc))"
definition pg_jitter_case_bsearch_ge_f8 :: "Datum \<Rightarrow> Datum CaseBSearchDesc \<Rightarrow> Datum" where
  "pg_jitter_case_bsearch_ge_f8 val desc =
     bs_pick desc (bs_first (\<lambda>mid. cmp_f8 val (bs_thresholds desc ! mid) \<ge> 0) 0 (bs_n desc))"
definition pg_jitter_case_bsearch_eq_f8 :: "Datum \<Rightarrow> Datum CaseBSearchDesc \<Rightarrow> Datum" where
  "pg_jitter_case_bsearch_eq_f8 val desc =
     bs_pick_eq desc (bs_eq (\<lambda>mid. cmp_f8 val (bs_thresholds desc ! mid)) 0 (int (bs_n desc) - 1))"

section \<open>Generic helpers: the comparison is a PostgreSQL function\<close>

text \<open>
  \<open>memcmp\<close> over the common prefix, then the lengths: C's byte order of two texts.
\<close>

fun memcmp :: "uint8 list \<Rightarrow> uint8 list \<Rightarrow> int" where
  "memcmp (x # xs) (y # ys) =
     (if x = y then memcmp xs ys else if uint x < uint y then - 1 else 1)"
| "memcmp _ _ = 0"

definition text_memcmp :: "uint8 list \<Rightarrow> uint8 list \<Rightarrow> int" where
  "text_memcmp t1 t2 =
     (let cmp = memcmp t1 t2
      in if cmp = 0
         then bool_int (length t1 > length t2) - bool_int (length t1 < length t2)
         else cmp)"

definition bsearch_body_generic :: "pg_env \<Rightarrow> Datum \<Rightarrow> Datum CaseBSearchDesc \<Rightarrow> Datum" where
  "bsearch_body_generic env val desc =
     bs_pick desc
       (bs_first (\<lambda>mid. pg_call env (the (bs_cmp_fn desc)) (bs_cmp_collation desc) val
                          (bs_thresholds desc ! mid)) 0 (bs_n desc))"

definition pg_jitter_case_bsearch_lt_generic :: "pg_env \<Rightarrow> Datum \<Rightarrow> Datum CaseBSearchDesc \<Rightarrow> Datum" where
  "pg_jitter_case_bsearch_lt_generic = bsearch_body_generic"
definition pg_jitter_case_bsearch_le_generic :: "pg_env \<Rightarrow> Datum \<Rightarrow> Datum CaseBSearchDesc \<Rightarrow> Datum" where
  "pg_jitter_case_bsearch_le_generic = bsearch_body_generic"
definition pg_jitter_case_bsearch_gt_generic :: "pg_env \<Rightarrow> Datum \<Rightarrow> Datum CaseBSearchDesc \<Rightarrow> Datum" where
  "pg_jitter_case_bsearch_gt_generic = bsearch_body_generic"
definition pg_jitter_case_bsearch_ge_generic :: "pg_env \<Rightarrow> Datum \<Rightarrow> Datum CaseBSearchDesc \<Rightarrow> Datum" where
  "pg_jitter_case_bsearch_ge_generic = bsearch_body_generic"

definition case_bsearch_generic_eq_can_memcmp :: "pg_env \<Rightarrow> 't CaseBSearchDesc \<Rightarrow> bool" where
  "case_bsearch_generic_eq_can_memcmp env desc \<longleftrightarrow>
     bs_cmp_fn desc = Some ''texteq''
     \<and> bs_cmp_collation desc \<noteq> InvalidOid \<and> bs_cmp_collation desc \<noteq> C_COLLATION_OID
     \<and> coll_deterministic env (bs_cmp_collation desc)
     \<and> \<not> coll_is_c env (bs_cmp_collation desc)"

text \<open>One comparison of the binary search: by bytes, or by two calls of the order function.\<close>

definition eq_generic_cmp :: "pg_env \<Rightarrow> 't CaseBSearchDesc \<Rightarrow> PGFunction \<Rightarrow> Datum \<Rightarrow> Datum \<Rightarrow> int" where
  "eq_generic_cmp env desc lt val t =
     (if case_bsearch_generic_eq_can_memcmp env desc
      then text_memcmp (text_bytes env val) (text_bytes env t)
      else if pg_call env lt (bs_cmp_collation desc) val t then - 1
      else if pg_call env lt (bs_cmp_collation desc) t val then 1 else 0)"

definition pg_jitter_case_bsearch_eq_generic :: "pg_env \<Rightarrow> Datum \<Rightarrow> Datum CaseBSearchDesc \<Rightarrow> Datum" where
  "pg_jitter_case_bsearch_eq_generic env val desc =
     (case bs_cmp_order_fn desc of
        Some lt \<Rightarrow>
          bs_pick_eq desc
            (bs_eq (\<lambda>mid. eq_generic_cmp env desc lt val (bs_thresholds desc ! mid)) 0 (int (bs_n desc) - 1))
      | None \<Rightarrow>
          case_linear (pg_call env (the (bs_cmp_fn desc)) (bs_cmp_collation desc) val)
            (zip (bs_thresholds desc) (bs_results desc)) (bs_default_val desc))"

section \<open>Helper selection\<close>

text \<open>
  A helper takes the value in a 32-bit or in a 64-bit register; the descriptor pointer
  leads to thresholds of that width.
\<close>

datatype bs_helper =
    Helper32 "int32 \<Rightarrow> int32 CaseBSearchDesc \<Rightarrow> Datum"
  | Helper64 "int64 \<Rightarrow> int64 CaseBSearchDesc \<Rightarrow> Datum"

datatype desc_ptr = Desc32 "int32 CaseBSearchDesc" | Desc64 "int64 CaseBSearchDesc"

definition select_op_idx :: "bool \<Rightarrow> bool \<Rightarrow> bool \<Rightarrow> nat" where
  "select_op_idx is_eq is_less is_inclusive =
     (if is_eq then 0
      else if is_less then (if is_inclusive then 2 else 1)
      else (if is_inclusive then 4 else 3))"

definition pg_jitter_select_bsearch_helper ::
  "pg_env \<Rightarrow> CaseBSearchType \<Rightarrow> bool \<Rightarrow> bool \<Rightarrow> bool \<Rightarrow> bs_helper" where
  "pg_jitter_select_bsearch_helper env bs_type is_eq is_less is_inclusive =
     (case bs_type of
        CASE_BS_I32 \<Rightarrow> map Helper32
          [pg_jitter_case_bsearch_eq_i32, pg_jitter_case_bsearch_lt_i32,
           pg_jitter_case_bsearch_le_i32, pg_jitter_case_bsearch_gt_i32,
           pg_jitter_case_bsearch_ge_i32]
      | CASE_BS_I64 \<Rightarrow> map Helper64
          [pg_jitter_case_bsearch_eq_i64, pg_jitter_case_bsearch_lt_i64,
           pg_jitter_case_bsearch_le_i64, pg_jitter_case_bsearch_gt_i64,
           pg_jitter_case_bsearch_ge_i64]
      | CASE_BS_U32 \<Rightarrow> map Helper32
          [pg_jitter_case_bsearch_eq_u32, pg_jitter_case_bsearch_lt_u32,
           pg_jitter_case_bsearch_le_u32, pg_jitter_case_bsearch_gt_u32,
           pg_jitter_case_bsearch_ge_u32]
      | CASE_BS_I16 \<Rightarrow> map Helper32
          [pg_jitter_case_bsearch_eq_i16, pg_jitter_case_bsearch_lt_i16,
           pg_jitter_case_bsearch_le_i16, pg_jitter_case_bsearch_gt_i16,
           pg_jitter_case_bsearch_ge_i16]
      | CASE_BS_F4 \<Rightarrow> map Helper64
          [pg_jitter_case_bsearch_eq_f4, pg_jitter_case_bsearch_lt_f4,
           pg_jitter_case_bsearch_le_f4, pg_jitter_case_bsearch_gt_f4,
           pg_jitter_case_bsearch_ge_f4]
      | CASE_BS_F8 \<Rightarrow> map Helper64
          [pg_jitter_case_bsearch_eq_f8, pg_jitter_case_bsearch_lt_f8,
           pg_jitter_case_bsearch_le_f8, pg_jitter_case_bsearch_gt_f8,
           pg_jitter_case_bsearch_ge_f8]
      | CASE_BS_GENERIC \<Rightarrow> map Helper64
          [pg_jitter_case_bsearch_eq_generic env, pg_jitter_case_bsearch_lt_generic env,
           pg_jitter_case_bsearch_le_generic env, pg_jitter_case_bsearch_gt_generic env,
           pg_jitter_case_bsearch_ge_generic env])
     ! select_op_idx is_eq is_less is_inclusive"

text \<open>The call the generated code makes: the value is passed in the register of the helper.\<close>

fun call_helper :: "bs_helper \<Rightarrow> Datum \<Rightarrow> desc_ptr \<Rightarrow> Datum option" where
  "call_helper (Helper32 h) v (Desc32 d) = Some (h (DatumGetInt32 v) d)"
| "call_helper (Helper64 h) v (Desc64 d) = Some (h v d)"
| "call_helper _ _ _ = None"

section \<open>Specification: the operators as comparisons of integer keys\<close>

definition bs_key :: "CaseBSearchType \<Rightarrow> Datum \<Rightarrow> int" where
  "bs_key t v =
     (case t of
        CASE_BS_I32 \<Rightarrow> sint (DatumGetInt32 v) | CASE_BS_I64 \<Rightarrow> sint (DatumGetInt64 v)
      | CASE_BS_U32 \<Rightarrow> uint (DatumGetUInt32 v) | CASE_BS_I16 \<Rightarrow> i16 (DatumGetInt32 v)
      | CASE_BS_F4 \<Rightarrow> f32_key (DatumGetFloat4 v) | CASE_BS_F8 \<Rightarrow> f64_key v
      | CASE_BS_GENERIC \<Rightarrow> 0)"

definition key_op :: "bool \<Rightarrow> bool \<Rightarrow> bool \<Rightarrow> 'k::linorder \<Rightarrow> 'k \<Rightarrow> bool" where
  "key_op is_eq is_less is_inclusive v t =
     (if is_eq then v = t
      else if is_less then (if is_inclusive then v \<le> t else v < t)
      else (if is_inclusive then t \<le> v else t < v))"

text \<open>The direction in which the detection requires the thresholds to be ordered.\<close>

definition key_ord :: "bool \<Rightarrow> bool \<Rightarrow> 'k::linorder \<Rightarrow> 'k \<Rightarrow> bool" where
  "key_ord is_eq is_less s t = (if is_eq \<or> is_less then s < t else t < s)"

definition stored_key32 :: "CaseBSearchType \<Rightarrow> int32 \<Rightarrow> int" where
  "stored_key32 t w = (if t = CASE_BS_U32 then uint w else sint w)"

definition desc_ok :: "'t CaseBSearchDesc \<Rightarrow> bool" where
  "desc_ok d \<longleftrightarrow> bs_n d = length (bs_thresholds d) \<and> length (bs_results d) = length (bs_thresholds d)"

text \<open>The linear scan over the branches of a descriptor.\<close>

definition desc_scan :: "('t \<Rightarrow> bool) \<Rightarrow> 't CaseBSearchDesc \<Rightarrow> Datum" where
  "desc_scan P d = case_linear P (zip (bs_thresholds d) (bs_results d)) (bs_default_val d)"

context ordered_case
begin

lemma pick_scan:
  fixes d :: "'t CaseBSearchDesc"
  assumes "desc_ok d" "sorted_wrt ord (bs_thresholds d)"
  shows "bs_pick d (bs_first (\<lambda>mid. before v (bs_thresholds d ! mid)) 0 (bs_n d)) = desc_scan (before v) d"
  using search_linear [OF assms(2), where rs = "bs_results d" and n = "bs_n d" and v = v and d = "bs_default_val d"] assms(1)
  by (simp add: bs_pick_def desc_scan_def desc_ok_def Let_def)

end

context keyed_case
begin

lemma pick_eq_scan:
  assumes "desc_ok d" "sorted_wrt (\<lambda>s t. tkey s < tkey t) (bs_thresholds d)"
  shows "bs_pick_eq d (bs_eq (\<lambda>mid. cmp v (bs_thresholds d ! mid)) 0 (int (bs_n d) - 1))
    = desc_scan (\<lambda>t. vkey v = tkey t) d"
  using search_linear [OF assms(2), where rs = "bs_results d" and n = "bs_n d" and v = v and d = "bs_default_val d"] assms(1)
  by (simp add: bs_pick_eq_def desc_scan_def desc_ok_def Let_def cmp_zero)

end

interpretation k_i32: keyed_case cmp_i32 sint sint
  by unfold_locales (auto simp: cmp_i32_def signed_word_eqI less_le)

interpretation k_i64: keyed_case cmp_i64 sint sint
  by unfold_locales (auto simp: cmp_i64_def signed_word_eqI less_le)

interpretation k_u32: keyed_case cmp_u32 uint uint
  by unfold_locales (auto simp: cmp_u32_def)

interpretation k_i16: keyed_case cmp_i16 i16 sint
  by unfold_locales (auto simp: cmp_i16_def)

interpretation k_f4: keyed_case cmp_f4 "\<lambda>v. f32_key (DatumGetFloat4 v)" "\<lambda>v. f32_key (DatumGetFloat4 v)"
  by unfold_locales (simp_all add: cmp_f4_def float4_cmp_key sgn_diff_simps)

interpretation k_f8: keyed_case cmp_f8 f64_key f64_key
  by unfold_locales (simp_all add: cmp_f8_def float8_cmp_key sgn_diff_simps)

lemma text_memcmp_lex:
  "(text_memcmp v t > 0 \<longleftrightarrow> t < v) \<and> (text_memcmp v t < 0 \<longleftrightarrow> v < t)"
proof (induction v arbitrary: t)
  case Nil
  show ?case by (cases t) (auto simp: text_memcmp_def)
next
  case (Cons x xs)
  show ?case
  proof (cases t)
    case (Cons y ys)
    then show ?thesis
      using Cons.IH [of ys]
      by (auto simp: text_memcmp_def Let_def word_less_def less_le dest: unsigned_word_eqI)
  qed (simp add: text_memcmp_def)
qed

interpretation k_text: keyed_case text_memcmp id id
  by unfold_locales (simp_all add: text_memcmp_lex)

section \<open>Every helper is the linear scan\<close>

fun ptr_keys :: "CaseBSearchType \<Rightarrow> desc_ptr \<Rightarrow> int list" where
  "ptr_keys t (Desc32 d) = map (stored_key32 t) (bs_thresholds d)"
| "ptr_keys t (Desc64 d) = map (bs_key t) (bs_thresholds d)"

fun ptr_results :: "desc_ptr \<Rightarrow> Datum list" where
  "ptr_results (Desc32 d) = bs_results d"
| "ptr_results (Desc64 d) = bs_results d"

fun ptr_default :: "desc_ptr \<Rightarrow> Datum" where
  "ptr_default (Desc32 d) = bs_default_val d"
| "ptr_default (Desc64 d) = bs_default_val d"

fun ptr_ok :: "CaseBSearchType \<Rightarrow> desc_ptr \<Rightarrow> bool" where
  "ptr_ok t (Desc32 d) \<longleftrightarrow> bs_type_to_var_type t = JIT_TYPE_32 \<and> desc_ok d"
| "ptr_ok t (Desc64 d) \<longleftrightarrow> bs_type_to_var_type t = JIT_TYPE_64 \<and> desc_ok d"

fun ptr_range_min :: "desc_ptr \<Rightarrow> Datum option" where
  "ptr_range_min (Desc32 d) = (if bs_has_range_min d then Some (bs_range_min d) else None)"
| "ptr_range_min (Desc64 d) = (if bs_has_range_min d then Some (bs_range_min d) else None)"

lemma scan_keys32:
  "case_linear P (zip (map (stored_key32 t) (bs_thresholds d)) (bs_results d)) (bs_default_val d)
    = desc_scan (\<lambda>w. P (stored_key32 t w)) d"
  by (simp add: desc_scan_def case_linear_map)

lemma scan_keys64:
  "case_linear P (zip (map (bs_key t) (bs_thresholds d)) (bs_results d)) (bs_default_val d)
    = desc_scan (\<lambda>w. P (bs_key t w)) d"
  by (simp add: desc_scan_def case_linear_map)

lemmas helper_defs_32 =
  pg_jitter_case_bsearch_eq_i32_def pg_jitter_case_bsearch_lt_i32_def
  pg_jitter_case_bsearch_le_i32_def pg_jitter_case_bsearch_gt_i32_def
  pg_jitter_case_bsearch_ge_i32_def pg_jitter_case_bsearch_eq_u32_def
  pg_jitter_case_bsearch_lt_u32_def pg_jitter_case_bsearch_le_u32_def
  pg_jitter_case_bsearch_gt_u32_def pg_jitter_case_bsearch_ge_u32_def
  pg_jitter_case_bsearch_eq_i16_def pg_jitter_case_bsearch_lt_i16_def
  pg_jitter_case_bsearch_le_i16_def pg_jitter_case_bsearch_gt_i16_def
  pg_jitter_case_bsearch_ge_i16_def bsearch_body_i16_def

lemmas helper_defs_64 =
  pg_jitter_case_bsearch_eq_i64_def pg_jitter_case_bsearch_lt_i64_def
  pg_jitter_case_bsearch_le_i64_def pg_jitter_case_bsearch_gt_i64_def
  pg_jitter_case_bsearch_ge_i64_def pg_jitter_case_bsearch_eq_f4_def
  pg_jitter_case_bsearch_lt_f4_def pg_jitter_case_bsearch_le_f4_def
  pg_jitter_case_bsearch_gt_f4_def pg_jitter_case_bsearch_ge_f4_def
  pg_jitter_case_bsearch_eq_f8_def pg_jitter_case_bsearch_lt_f8_def
  pg_jitter_case_bsearch_le_f8_def pg_jitter_case_bsearch_gt_f8_def
  pg_jitter_case_bsearch_ge_f8_def

lemmas pick_scans =
  k_i32.pick_eq_scan k_i32.less.pick_scan k_i32.less_eq.pick_scan
  k_i32.greater.pick_scan k_i32.greater_eq.pick_scan
  k_i64.pick_eq_scan k_i64.less.pick_scan k_i64.less_eq.pick_scan
  k_i64.greater.pick_scan k_i64.greater_eq.pick_scan
  k_u32.pick_eq_scan k_u32.less.pick_scan k_u32.less_eq.pick_scan
  k_u32.greater.pick_scan k_u32.greater_eq.pick_scan
  k_i16.pick_eq_scan k_i16.less.pick_scan k_i16.less_eq.pick_scan
  k_i16.greater.pick_scan k_i16.greater_eq.pick_scan
  k_f4.pick_eq_scan k_f4.less.pick_scan k_f4.less_eq.pick_scan
  k_f4.greater.pick_scan k_f4.greater_eq.pick_scan
  k_f8.pick_eq_scan k_f8.less.pick_scan k_f8.less_eq.pick_scan
  k_f8.greater.pick_scan k_f8.greater_eq.pick_scan

lemma cmp_f4_tests:
  "(cmp_f4 v t < 0) = (f32_key (DatumGetFloat4 v) < f32_key (DatumGetFloat4 t))"
  "(cmp_f4 v t \<le> 0) = (f32_key (DatumGetFloat4 v) \<le> f32_key (DatumGetFloat4 t))"
  "(0 < cmp_f4 v t) = (f32_key (DatumGetFloat4 t) < f32_key (DatumGetFloat4 v))"
  "(0 \<le> cmp_f4 v t) = (f32_key (DatumGetFloat4 t) \<le> f32_key (DatumGetFloat4 v))"
  by (simp_all add: cmp_f4_def float4_cmp_key sgn_diff_simps)

lemma cmp_f8_tests:
  "(cmp_f8 v t < 0) = (f64_key v < f64_key t)" "(cmp_f8 v t \<le> 0) = (f64_key v \<le> f64_key t)"
  "(0 < cmp_f8 v t) = (f64_key t < f64_key v)" "(0 \<le> cmp_f8 v t) = (f64_key t \<le> f64_key v)"
  by (simp_all add: cmp_f8_def float8_cmp_key sgn_diff_simps)

lemma helper32_scan:
  assumes "bs_type_to_var_type t = JIT_TYPE_32" "desc_ok d" "\<not> bs_has_range_min d"
    and "sorted_wrt (key_ord e l) (map (stored_key32 t) (bs_thresholds d))"
  shows "call_helper (pg_jitter_select_bsearch_helper env t e l i) v (Desc32 d)
    = Some (desc_scan (\<lambda>w. key_op e l i (bs_key t v) (stored_key32 t w)) d)"
  using assms
  by (cases t; cases e; cases l; cases i)
     (simp_all add: bs_type_to_var_type_def pg_jitter_select_bsearch_helper_def select_op_idx_def
        key_op_def key_ord_def stored_key32_def bs_key_def sorted_wrt_map pick_scans
        helper_defs_32 DatumGetInt32_def DatumGetUInt32_def)

lemma helper64_scan:
  assumes "bs_type_to_var_type t = JIT_TYPE_64" "t \<noteq> CASE_BS_GENERIC" "desc_ok d"
    "\<not> bs_has_range_min d" and "sorted_wrt (key_ord e l) (map (bs_key t) (bs_thresholds d))"
  shows "call_helper (pg_jitter_select_bsearch_helper env t e l i) v (Desc64 d)
    = Some (desc_scan (\<lambda>w. key_op e l i (bs_key t v) (bs_key t w)) d)"
  using assms
  by (cases t; cases e; cases l; cases i)
     (simp_all add: bs_type_to_var_type_def pg_jitter_select_bsearch_helper_def select_op_idx_def
        key_op_def key_ord_def bs_key_def sorted_wrt_map pick_scans
        helper_defs_64 DatumGetInt64_def cmp_f4_tests cmp_f8_tests)

lemma select_helper_scan:
  assumes "t \<noteq> CASE_BS_GENERIC" "ptr_ok t p" "ptr_range_min p = None"
    and "sorted_wrt (key_ord e l) (ptr_keys t p)"
  shows "call_helper (pg_jitter_select_bsearch_helper env t e l i) v p
    = Some (case_linear (key_op e l i (bs_key t v)) (zip (ptr_keys t p) (ptr_results p)) (ptr_default p))"
  using assms
  by (cases p) (simp_all add: helper32_scan helper64_scan scan_keys32 scan_keys64 split: if_splits)

text \<open>
  C19 (equivalence): the helper that \<open>pg_jitter_select_bsearch_helper\<close> picks for a
  comparison returns, on every value, what the linear scan over the WHEN branches returns
  (the result of the first branch whose comparison holds, else the ELSE value), for all
  six non-generic types and all five operators, provided the thresholds are strictly
  ordered in the direction the detection requires.
\<close>

theorem select_helper_is_linear_scan:
  assumes "t \<noteq> CASE_BS_GENERIC" "ptr_ok t p" "ptr_range_min p = None"
    and "sorted_wrt (key_ord e l) (ptr_keys t p)"
  shows "call_helper (pg_jitter_select_bsearch_helper env t e l i) v p
    = Some (case_linear (key_op e l i (bs_key t v)) (zip (ptr_keys t p) (ptr_results p)) (ptr_default p))"
  using assms by (rule select_helper_scan)

definition example_env :: pg_env where
  "example_env = \<lparr>pg_call = (\<lambda>f c x y. if f = ''numeric_lt'' then sint x < sint y else x = y),
     text_bytes = (\<lambda>d. [ucast d]), coll_deterministic = (\<lambda>_. True), coll_is_c = (\<lambda>_. False)\<rparr>"

definition example_desc :: "int32 CaseBSearchDesc" where
  "example_desc = \<lparr>bs_n = 4, bs_cmp_fn = None, bs_cmp_order_fn = None, bs_cmp_collation = InvalidOid,
     bs_default_val = 99, bs_range_min = 0, bs_has_range_min = False,
     bs_thresholds = [- 5, 10, 20, 30], bs_results = [1, 2, 3, 4]\<rparr>"

theorem select_helper_is_linear_scan_witness:
  "call_helper (pg_jitter_select_bsearch_helper example_env CASE_BS_I32 False True False) 12 (Desc32 example_desc)
   = Some 3"
  by (subst select_helper_is_linear_scan)
     (simp_all add: example_desc_def desc_ok_def bs_type_to_var_type_def key_ord_def stored_key32_def
        key_op_def bs_key_def DatumGetInt32_def)

section \<open>Range CASE: the ordered helper with a lower bound\<close>

text \<open>The linear scan over branches \<open>lo <= v AND v < hi\<close>.\<close>

definition range_linear :: "int \<Rightarrow> (int \<times> int) list \<Rightarrow> 'r list \<Rightarrow> 'r \<Rightarrow> 'r" where
  "range_linear v bs rs d = case_linear (\<lambda>(lo, hi). lo \<le> v \<and> v < hi) (zip bs rs) d"

text \<open>Contiguous ranges: each lower bound is the previous upper bound.\<close>

definition contiguous_ranges :: "int \<Rightarrow> int list \<Rightarrow> (int \<times> int) list" where
  "contiguous_ranges m his = zip (m # butlast his) his"

lemma range_linear_below:
  assumes "sorted_wrt (<) his" "his \<noteq> [] \<Longrightarrow> m \<le> hd his" "v < m"
  shows "range_linear v (contiguous_ranges m his) rs d = d"
  using assms
proof (induction his arbitrary: m rs)
  case Nil
  then show ?case by (simp add: range_linear_def contiguous_ranges_def)
next
  case (Cons h his)
  have "range_linear v (contiguous_ranges h his) (tl rs) d = d"
    using Cons.prems by (intro Cons.IH) (auto intro: less_imp_le)
  with Cons.prems show ?case
    by (cases rs; cases his) (auto simp: range_linear_def contiguous_ranges_def)
qed

lemma range_linear_scan:
  assumes "m \<le> v"
  shows "range_linear v (contiguous_ranges m his) rs d = case_linear (\<lambda>h. v < h) (zip his rs) d"
  using assms
proof (induction his arbitrary: m rs)
  case Nil
  then show ?case by (simp add: range_linear_def contiguous_ranges_def)
next
  case (Cons h his)
  show ?case
  proof (cases "v < h")
    case True
    with Cons.prems show ?thesis
      by (cases rs) (auto simp: range_linear_def contiguous_ranges_def)
  next
    case False
    then have "range_linear v (contiguous_ranges h his) (tl rs) d
        = case_linear (\<lambda>h. v < h) (zip his (tl rs)) d"
      by (intro Cons.IH) simp
    with False Cons.prems show ?thesis
      by (cases rs; cases his) (auto simp: range_linear_def contiguous_ranges_def)
  qed
qed

lemma range_helper_scan:
  assumes "t \<in> {CASE_BS_I32, CASE_BS_I64, CASE_BS_I16}" "ptr_ok t p" "ptr_range_min p = Some m"
    and "sorted_wrt (<) (ptr_keys t p)" "ptr_keys t p \<noteq> []" "bs_key t m \<le> hd (ptr_keys t p)"
  shows "call_helper (pg_jitter_select_bsearch_helper env t False True False) v p
    = Some (range_linear (bs_key t v) (contiguous_ranges (bs_key t m) (ptr_keys t p))
             (ptr_results p) (ptr_default p))"
proof (cases "bs_key t v < bs_key t m")
  case True
  with assms show ?thesis
    by (subst range_linear_below; cases p)
       (auto simp: pg_jitter_select_bsearch_helper_def select_op_idx_def helper_defs_32 helper_defs_64
          bs_key_def DatumGetInt64_def bs_type_to_var_type_def split: if_splits)
next
  case False
  with assms show ?thesis
    by (subst range_linear_scan; cases p)
       (auto simp: pg_jitter_select_bsearch_helper_def select_op_idx_def helper_defs_32 helper_defs_64
          bs_key_def stored_key32_def DatumGetInt64_def scan_keys32 scan_keys64 sorted_wrt_map
          pick_scans bs_type_to_var_type_def split: if_splits)
qed

text \<open>
  C28 (refinement): for the types that the range detection accepts, the \<open>lt\<close> helper with
  the lower bound of the first range returns the result of the first branch
  \<open>lo <= v AND v < hi\<close> of contiguous ranges with increasing upper bounds, else the default.
\<close>

theorem range_helper_is_linear_scan:
  assumes "t \<in> {CASE_BS_I32, CASE_BS_I64, CASE_BS_I16}" "ptr_ok t p" "ptr_range_min p = Some m"
    and "sorted_wrt (<) (ptr_keys t p)" "ptr_keys t p \<noteq> []" "bs_key t m \<le> hd (ptr_keys t p)"
  shows "call_helper (pg_jitter_select_bsearch_helper env t False True False) v p
    = Some (range_linear (bs_key t v) (contiguous_ranges (bs_key t m) (ptr_keys t p))
             (ptr_results p) (ptr_default p))"
  using assms by (rule range_helper_scan)

theorem range_helper_is_linear_scan_witness:
  "call_helper (pg_jitter_select_bsearch_helper example_env CASE_BS_I32 False True False) (- 7)
     (Desc32 (example_desc \<lparr>bs_range_min := - 20, bs_has_range_min := True\<rparr>)) = Some 1"
  by (subst range_helper_is_linear_scan [where m = "- 20"])
     (simp_all add: example_desc_def desc_ok_def bs_type_to_var_type_def stored_key32_def
        bs_key_def DatumGetInt32_def range_linear_def contiguous_ranges_def)

section \<open>The generic helpers\<close>

lemma lt_generic_scan:
  assumes "\<And>x y z. pg_call env f c x y \<Longrightarrow> pg_call env f c y z \<Longrightarrow> pg_call env f c x z"
    and "bs_cmp_fn d = Some f" "bs_cmp_collation d = c" "desc_ok d"
    and "sorted_wrt (pg_call env f c) (bs_thresholds d)"
  shows "bsearch_body_generic env v d = desc_scan (pg_call env f c v) d"
proof -
  have "ordered_case (pg_call env f c) (pg_call env f c)"
    by unfold_locales (rule assms(1))
  from ordered_case.pick_scan [OF this assms(4,5)] show ?thesis
    by (simp add: bsearch_body_generic_def assms(2,3))
qed

text \<open>
  For a byref type the ordered helpers call the WHEN operator itself; if
  the operator is transitive and the thresholds are ordered by it, the binary search
  returns the result of the first branch whose comparison holds.
\<close>

lemma generic_helper_is_linear_scan:
  assumes "\<And>x y z. pg_call env f c x y \<Longrightarrow> pg_call env f c y z \<Longrightarrow> pg_call env f c x z"
    and "bs_cmp_fn d = Some f" "bs_cmp_collation d = c" "desc_ok d"
    and "sorted_wrt (pg_call env f c) (bs_thresholds d)"
  shows "call_helper (pg_jitter_select_bsearch_helper env CASE_BS_GENERIC False l i) v (Desc64 d)
    = Some (desc_scan (pg_call env f c v) d)"
  using lt_generic_scan [OF assms]
  by (simp add: pg_jitter_select_bsearch_helper_def select_op_idx_def
      pg_jitter_case_bsearch_lt_generic_def pg_jitter_case_bsearch_le_generic_def
      pg_jitter_case_bsearch_gt_generic_def pg_jitter_case_bsearch_ge_generic_def)

definition example_generic :: "Datum CaseBSearchDesc" where
  "example_generic = \<lparr>bs_n = 4, bs_cmp_fn = Some ''numeric_lt'', bs_cmp_order_fn = None,
     bs_cmp_collation = InvalidOid, bs_default_val = 99, bs_range_min = 0, bs_has_range_min = False,
     bs_thresholds = [- 5, 10, 20, 30], bs_results = [1, 2, 3, 4]\<rparr>"

lemma generic_helper_is_linear_scan_witness:
  "call_helper (pg_jitter_select_bsearch_helper example_env CASE_BS_GENERIC False True False) 12
     (Desc64 example_generic) = Some 3"
  by (subst generic_helper_is_linear_scan [where f = "''numeric_lt''" and c = InvalidOid])
     (simp_all add: example_env_def example_generic_def desc_ok_def desc_scan_def)

text \<open>
  The generic equality helper, by bytes for a deterministic non-C
  collation and by two calls of the order function otherwise, returns what the linear scan
  with the equality operator returns. The hypotheses are what PostgreSQL documents of its
  operator classes: the equality and the order function decide equality and order of a key,
  and equality of texts in a deterministic collation is equality of their bytes.
\<close>

lemma generic_eq_helper_is_linear_scan:
  fixes key :: "Datum \<Rightarrow> 'k::linorder"
  assumes "bs_cmp_fn d = Some f" "bs_cmp_order_fn d = Some lt" "desc_ok d"
    and "case_bsearch_generic_eq_can_memcmp env d \<Longrightarrow>
      (\<forall>x y. pg_call env f (bs_cmp_collation d) x y \<longleftrightarrow> text_bytes env x = text_bytes env y)
      \<and> sorted_wrt (\<lambda>x y. text_bytes env x < text_bytes env y) (bs_thresholds d)"
    and "\<not> case_bsearch_generic_eq_can_memcmp env d \<Longrightarrow>
      (\<forall>x y. (pg_call env lt (bs_cmp_collation d) x y \<longleftrightarrow> key x < key y)
           \<and> (pg_call env f (bs_cmp_collation d) x y \<longleftrightarrow> key x = key y))
      \<and> sorted_wrt (pg_call env lt (bs_cmp_collation d)) (bs_thresholds d)"
  shows "call_helper (pg_jitter_select_bsearch_helper env CASE_BS_GENERIC True l i) v (Desc64 d)
    = Some (desc_scan (pg_call env f (bs_cmp_collation d) v) d)"
proof (cases "case_bsearch_generic_eq_can_memcmp env d")
  case True
  have kc: "keyed_case (eq_generic_cmp env d lt) (text_bytes env) (text_bytes env)"
    by unfold_locales (use True in \<open>simp_all add: eq_generic_cmp_def text_memcmp_lex\<close>)
  moreover have "pg_call env f (bs_cmp_collation d) v = (\<lambda>t. text_bytes env v = text_bytes env t)"
    using assms(4) [OF True] by (simp add: fun_eq_iff)
  ultimately show ?thesis
    using keyed_case.pick_eq_scan [OF kc assms(3), where v = v] assms(1,2,4) True
    by (simp add: pg_jitter_select_bsearch_helper_def select_op_idx_def
        pg_jitter_case_bsearch_eq_generic_def)
next
  case False
  have kc: "keyed_case (eq_generic_cmp env d lt) key key"
    by unfold_locales (use False assms(5) in \<open>auto simp: eq_generic_cmp_def\<close>)
  have lt: "pg_call env lt (bs_cmp_collation d) = (\<lambda>x y. key x < key y)"
    and eq: "pg_call env f (bs_cmp_collation d) v = (\<lambda>y. key v = key y)"
    using assms(5) [OF False] by (simp_all add: fun_eq_iff)
  show ?thesis
    using keyed_case.pick_eq_scan [OF kc assms(3), where v = v] assms(1,2) assms(5) [OF False] lt eq
    by (simp add: pg_jitter_select_bsearch_helper_def select_op_idx_def
        pg_jitter_case_bsearch_eq_generic_def)
qed

theorem generic_eq_helper_is_linear_scan_witness:
  "call_helper (pg_jitter_select_bsearch_helper example_env CASE_BS_GENERIC True False False) 20
     (Desc64 (example_generic \<lparr>bs_cmp_fn := Some ''numeric_eq'', bs_cmp_order_fn := Some ''numeric_lt''\<rparr>))
     = Some 3"
  by (subst generic_eq_helper_is_linear_scan [where key = sint and f = "''numeric_eq''" and lt = "''numeric_lt''"])
     (auto simp: example_env_def example_generic_def desc_ok_def desc_scan_def
        case_bsearch_generic_eq_can_memcmp_def signed_word_eqI)

end
