(* ===== verification/DirectTable.thy ===== *)
theory DirectTable
  imports Prelude
begin

text \<open>
  The table of directly callable functions \<open>jit_direct_fns\<close> (src/src/pg_jit_funcs.c), its
  row type and the row macros, entry by entry in the order of the source, and the call
  descriptions that the sljit backend derives from a row (src/src/pg_jit_funcs.h). A function
  address is its name. The two build switches around rows, PostgreSQL 18 and StringZilla,
  are the flags of \<open>build_config\<close>.
\<close>

section \<open>Rows\<close>

datatype (plugins only: size) JitInlineOp =
    JIT_INLINE_NONE | JIT_INLINE_INT4_ADD | JIT_INLINE_INT4_SUB | JIT_INLINE_INT4_MUL
  | JIT_INLINE_INT4_DIV | JIT_INLINE_INT4_MOD | JIT_INLINE_INT8_ADD | JIT_INLINE_INT8_SUB
  | JIT_INLINE_INT8_MUL | JIT_INLINE_INT4_EQ | JIT_INLINE_INT4_NE | JIT_INLINE_INT4_LT
  | JIT_INLINE_INT4_LE | JIT_INLINE_INT4_GT | JIT_INLINE_INT4_GE | JIT_INLINE_INT8_EQ
  | JIT_INLINE_INT8_NE | JIT_INLINE_INT8_LT | JIT_INLINE_INT8_LE | JIT_INLINE_INT8_GT
  | JIT_INLINE_INT8_GE | JIT_INLINE_UINT8_EQ | JIT_INLINE_UINT8_NE | JIT_INLINE_UINT8_LT
  | JIT_INLINE_UINT8_LE | JIT_INLINE_UINT8_GT | JIT_INLINE_UINT8_GE | JIT_INLINE_UINT32_EQ
  | JIT_INLINE_UINT32_NE | JIT_INLINE_UINT32_LT | JIT_INLINE_UINT32_LE | JIT_INLINE_UINT32_GT
  | JIT_INLINE_UINT32_GE | JIT_INLINE_UINT64_EQ | JIT_INLINE_UINT64_NE | JIT_INLINE_UINT64_LT
  | JIT_INLINE_UINT64_LE | JIT_INLINE_UINT64_GT | JIT_INLINE_UINT64_GE | JIT_INLINE_FLOAT8_ADD
  | JIT_INLINE_FLOAT8_SUB | JIT_INLINE_FLOAT8_MUL | JIT_INLINE_FLOAT8_DIV | JIT_INLINE_FLOAT8_EQ
  | JIT_INLINE_FLOAT8_NE | JIT_INLINE_FLOAT8_LT | JIT_INLINE_FLOAT8_LE | JIT_INLINE_FLOAT8_GT
  | JIT_INLINE_FLOAT8_GE | JIT_INLINE_BOOL_CMP3 | JIT_INLINE_INT8_CMP3 | JIT_INLINE_HASHINT4
  | JIT_INLINE_HASHINT8 | JIT_INLINE_TEXT_EQ | JIT_INLINE_TEXT_NE | JIT_INLINE_INT4_TO_INT8
  | JIT_INLINE_INT8_TO_INT4 | JIT_INLINE_INT2_TO_INT4 | JIT_INLINE_INT4_TO_INT2
  | JIT_INLINE_INT2_TO_INT8 | JIT_INLINE_INT8_TO_INT2 | JIT_INLINE_FLOAT4_TO_FLOAT8
  | JIT_INLINE_FLOAT8_TO_FLOAT4 | JIT_INLINE_INT4_TO_FLOAT8 | JIT_INLINE_INT8_TO_FLOAT8

record JitDirectFn =
  pg_fn :: PGFunction
  jit_fn :: string
  nargs :: nat
  ret_type :: jit_type
  arg_types :: "jit_type list"
  inline_op :: JitInlineOp
  flag_collation :: bool

abbreviation T32 :: jit_type where "T32 \<equiv> JIT_TYPE_32"
abbreviation T64 :: jit_type where "T64 \<equiv> JIT_TYPE_64"

definition mk_entry ::
  "PGFunction \<Rightarrow> string \<Rightarrow> nat \<Rightarrow> jit_type \<Rightarrow> jit_type list \<Rightarrow> JitInlineOp \<Rightarrow> bool \<Rightarrow> JitDirectFn" where
  "mk_entry pg jf n rt as iop fl =
     \<lparr>pg_fn = pg, jit_fn = jf, nargs = n, ret_type = rt, arg_types = as, inline_op = iop,
      flag_collation = fl\<rparr>"

text \<open>The row macros: 1 or 2 arguments, with an inline operation (I), collation aware (C).\<close>

definition E1 where "E1 pg jf rt a0 = mk_entry pg jf 1 rt [a0] JIT_INLINE_NONE False"
definition E2 where "E2 pg jf rt a0 a1 = mk_entry pg jf 2 rt [a0, a1] JIT_INLINE_NONE False"
definition EI1 where "EI1 pg jf rt a0 iop = mk_entry pg jf 1 rt [a0] iop False"
definition EI2 where "EI2 pg jf rt a0 a1 iop = mk_entry pg jf 2 rt [a0, a1] iop False"
definition EC2 where "EC2 pg jf rt a0 a1 = mk_entry pg jf 2 rt [a0, a1] JIT_INLINE_NONE True"
definition EIC2F where "EIC2F pg jf rt a0 a1 iop = mk_entry pg jf 2 rt [a0, a1] iop True"

lemmas entry_defs = mk_entry_def E1_def E2_def EI1_def EI2_def EC2_def EIC2F_def

lemma pg_fn_entries:
  "pg_fn (E1 f g a b) = f" "pg_fn (E2 f g a b c) = f" "pg_fn (EI1 f g a b i) = f"
  "pg_fn (EI2 f g a b c i) = f" "pg_fn (EC2 f g a b c) = f" "pg_fn (EIC2F f g a b c i) = f"
  by (simp_all add: entry_defs)

record build_config =
  pg18 :: bool
  have_simd :: bool

section \<open>The table\<close>

definition jit_direct_fns_1 :: "build_config \<Rightarrow> JitDirectFn list" where
  "jit_direct_fns_1 cfg =
    [EI2 ''int4pl'' ''jit_int4pl'' T32 T32 T32 JIT_INLINE_INT4_ADD,
     EI2 ''int4mi'' ''jit_int4mi'' T32 T32 T32 JIT_INLINE_INT4_SUB,
     EI2 ''int4mul'' ''jit_int4mul'' T32 T32 T32 JIT_INLINE_INT4_MUL,
     EI2 ''int4div'' ''jit_int4div'' T32 T32 T32 JIT_INLINE_INT4_DIV,
     EI2 ''int4mod'' ''jit_int4mod'' T32 T32 T32 JIT_INLINE_INT4_MOD,
     E1 ''int4abs'' ''jit_int4abs'' T32 T32,
     E1 ''int4inc'' ''jit_int4inc'' T32 T32,
     E1 ''int4um'' ''jit_int4um'' T32 T32,
     E1 ''int4up'' ''jit_int4up'' T32 T32,
     EI2 ''int8pl'' ''jit_int8pl'' T64 T64 T64 JIT_INLINE_INT8_ADD,
     EI2 ''int8mi'' ''jit_int8mi'' T64 T64 T64 JIT_INLINE_INT8_SUB,
     EI2 ''int8mul'' ''jit_int8mul'' T64 T64 T64 JIT_INLINE_INT8_MUL,
     E2 ''int8div'' ''jit_int8div'' T64 T64 T64,
     E2 ''int8mod'' ''jit_int8mod'' T64 T64 T64,
     E1 ''int8abs'' ''jit_int8abs'' T64 T64,
     E1 ''int8inc'' ''jit_int8inc'' T64 T64,
     E1 ''int8dec'' ''jit_int8dec'' T64 T64,
     E1 ''int8um'' ''jit_int8um'' T64 T64,
     E1 ''int8up'' ''jit_int8up'' T64 T64,
     E2 ''int2pl'' ''jit_int2pl'' T32 T32 T32,
     E2 ''int2mi'' ''jit_int2mi'' T32 T32 T32,
     E2 ''int2mul'' ''jit_int2mul'' T32 T32 T32,
     E2 ''int2div'' ''jit_int2div'' T32 T32 T32,
     E2 ''int2mod'' ''jit_int2mod'' T32 T32 T32,
     E1 ''int2abs'' ''jit_int2abs'' T32 T32,
     E1 ''int2um'' ''jit_int2um'' T32 T32,
     E1 ''int2up'' ''jit_int2up'' T32 T32,
     EI2 ''int4eq'' ''jit_int4eq'' T32 T32 T32 JIT_INLINE_INT4_EQ,
     EI2 ''int4ne'' ''jit_int4ne'' T32 T32 T32 JIT_INLINE_INT4_NE,
     EI2 ''int4lt'' ''jit_int4lt'' T32 T32 T32 JIT_INLINE_INT4_LT,
     EI2 ''int4le'' ''jit_int4le'' T32 T32 T32 JIT_INLINE_INT4_LE,
     EI2 ''int4gt'' ''jit_int4gt'' T32 T32 T32 JIT_INLINE_INT4_GT,
     EI2 ''int4ge'' ''jit_int4ge'' T32 T32 T32 JIT_INLINE_INT4_GE,
     EI2 ''int8eq'' ''jit_int8eq'' T32 T64 T64 JIT_INLINE_INT8_EQ,
     EI2 ''int8ne'' ''jit_int8ne'' T32 T64 T64 JIT_INLINE_INT8_NE,
     EI2 ''int8lt'' ''jit_int8lt'' T32 T64 T64 JIT_INLINE_INT8_LT,
     EI2 ''int8le'' ''jit_int8le'' T32 T64 T64 JIT_INLINE_INT8_LE,
     EI2 ''int8gt'' ''jit_int8gt'' T32 T64 T64 JIT_INLINE_INT8_GT,
     EI2 ''int8ge'' ''jit_int8ge'' T32 T64 T64 JIT_INLINE_INT8_GE,
     E2 ''int2eq'' ''jit_int2eq'' T32 T32 T32,
     E2 ''int2ne'' ''jit_int2ne'' T32 T32 T32,
     E2 ''int2lt'' ''jit_int2lt'' T32 T32 T32,
     E2 ''int2le'' ''jit_int2le'' T32 T32 T32,
     E2 ''int2gt'' ''jit_int2gt'' T32 T32 T32,
     E2 ''int2ge'' ''jit_int2ge'' T32 T32 T32,
     E2 ''int48eq'' ''jit_int48eq'' T32 T32 T64,
     E2 ''int48ne'' ''jit_int48ne'' T32 T32 T64,
     E2 ''int48lt'' ''jit_int48lt'' T32 T32 T64,
     E2 ''int48le'' ''jit_int48le'' T32 T32 T64,
     E2 ''int48gt'' ''jit_int48gt'' T32 T32 T64,
     E2 ''int48ge'' ''jit_int48ge'' T32 T32 T64,
     E2 ''int84eq'' ''jit_int84eq'' T32 T64 T32,
     E2 ''int84ne'' ''jit_int84ne'' T32 T64 T32,
     E2 ''int84lt'' ''jit_int84lt'' T32 T64 T32,
     E2 ''int84le'' ''jit_int84le'' T32 T64 T32,
     E2 ''int84gt'' ''jit_int84gt'' T32 T64 T32,
     E2 ''int84ge'' ''jit_int84ge'' T32 T64 T32,
     E2 ''int24eq'' ''jit_int24eq'' T32 T32 T32,
     E2 ''int24ne'' ''jit_int24ne'' T32 T32 T32,
     E2 ''int24lt'' ''jit_int24lt'' T32 T32 T32,
     E2 ''int24le'' ''jit_int24le'' T32 T32 T32,
     E2 ''int24gt'' ''jit_int24gt'' T32 T32 T32,
     E2 ''int24ge'' ''jit_int24ge'' T32 T32 T32,
     E2 ''int42eq'' ''jit_int42eq'' T32 T32 T32,
     E2 ''int42ne'' ''jit_int42ne'' T32 T32 T32,
     E2 ''int42lt'' ''jit_int42lt'' T32 T32 T32,
     E2 ''int42le'' ''jit_int42le'' T32 T32 T32,
     E2 ''int42gt'' ''jit_int42gt'' T32 T32 T32,
     E2 ''int42ge'' ''jit_int42ge'' T32 T32 T32,
     E2 ''int28eq'' ''jit_int28eq'' T32 T64 T64,
     E2 ''int28ne'' ''jit_int28ne'' T32 T64 T64,
     E2 ''int28lt'' ''jit_int28lt'' T32 T64 T64,
     E2 ''int28le'' ''jit_int28le'' T32 T64 T64,
     E2 ''int28gt'' ''jit_int28gt'' T32 T64 T64,
     E2 ''int28ge'' ''jit_int28ge'' T32 T64 T64,
     E2 ''int82eq'' ''jit_int82eq'' T32 T64 T64,
     E2 ''int82ne'' ''jit_int82ne'' T32 T64 T64,
     E2 ''int82lt'' ''jit_int82lt'' T32 T64 T64,
     E2 ''int82le'' ''jit_int82le'' T32 T64 T64,
     E2 ''int82gt'' ''jit_int82gt'' T32 T64 T64,
     E2 ''int82ge'' ''jit_int82ge'' T32 T64 T64,
     E2 ''int24pl'' ''jit_int24pl'' T32 T32 T32,
     E2 ''int24mi'' ''jit_int24mi'' T32 T32 T32,
     E2 ''int24mul'' ''jit_int24mul'' T32 T32 T32,
     E2 ''int24div'' ''jit_int24div'' T32 T32 T32,
     E2 ''int42pl'' ''jit_int42pl'' T32 T32 T32,
     E2 ''int42mi'' ''jit_int42mi'' T32 T32 T32,
     E2 ''int42mul'' ''jit_int42mul'' T32 T32 T32,
     E2 ''int42div'' ''jit_int42div'' T32 T32 T32,
     E2 ''int48pl'' ''jit_int48pl'' T64 T64 T64,
     E2 ''int48mi'' ''jit_int48mi'' T64 T64 T64,
     E2 ''int48mul'' ''jit_int48mul'' T64 T64 T64,
     E2 ''int48div'' ''jit_int48div'' T64 T64 T64,
     E2 ''int84pl'' ''jit_int84pl'' T64 T64 T64,
     E2 ''int84mi'' ''jit_int84mi'' T64 T64 T64,
     E2 ''int84mul'' ''jit_int84mul'' T64 T64 T64,
     E2 ''int84div'' ''jit_int84div'' T64 T64 T64,
     E2 ''int28pl'' ''jit_int28pl'' T64 T64 T64,
     E2 ''int28mi'' ''jit_int28mi'' T64 T64 T64,
     E2 ''int28mul'' ''jit_int28mul'' T64 T64 T64,
     E2 ''int28div'' ''jit_int28div'' T64 T64 T64,
     E2 ''int82pl'' ''jit_int82pl'' T64 T64 T64,
     E2 ''int82mi'' ''jit_int82mi'' T64 T64 T64,
     E2 ''int82mul'' ''jit_int82mul'' T64 T64 T64,
     E2 ''int82div'' ''jit_int82div'' T64 T64 T64,
     E2 ''int2larger'' ''jit_int2larger'' T32 T32 T32,
     E2 ''int2smaller'' ''jit_int2smaller'' T32 T32 T32]"

definition jit_direct_fns_2 :: "build_config \<Rightarrow> JitDirectFn list" where
  "jit_direct_fns_2 cfg =
    [E2 ''int4larger'' ''jit_int4larger'' T32 T32 T32,
     E2 ''int4smaller'' ''jit_int4smaller'' T32 T32 T32,
     E2 ''int8larger'' ''jit_int8larger'' T64 T64 T64,
     E2 ''int8smaller'' ''jit_int8smaller'' T64 T64 T64,
     E2 ''int2and'' ''jit_int2and'' T32 T32 T32,
     E2 ''int2or'' ''jit_int2or'' T32 T32 T32,
     E2 ''int2xor'' ''jit_int2xor'' T32 T32 T32,
     E1 ''int2not'' ''jit_int2not'' T32 T32,
     E2 ''int2shl'' ''jit_int2shl'' T32 T32 T32,
     E2 ''int2shr'' ''jit_int2shr'' T32 T32 T32,
     E2 ''int4and'' ''jit_int4and'' T32 T32 T32,
     E2 ''int4or'' ''jit_int4or'' T32 T32 T32,
     E2 ''int4xor'' ''jit_int4xor'' T32 T32 T32,
     E1 ''int4not'' ''jit_int4not'' T32 T32,
     E2 ''int4shl'' ''jit_int4shl'' T32 T32 T32,
     E2 ''int4shr'' ''jit_int4shr'' T32 T32 T32,
     E2 ''int8and'' ''jit_int8and'' T64 T64 T64,
     E2 ''int8or'' ''jit_int8or'' T64 T64 T64,
     E2 ''int8xor'' ''jit_int8xor'' T64 T64 T64,
     E1 ''int8not'' ''jit_int8not'' T64 T64,
     E2 ''int8shl'' ''jit_int8shl'' T64 T64 T32,
     E2 ''int8shr'' ''jit_int8shr'' T64 T64 T32,
     EI2 ''float8pl'' ''jit_float8pl'' T64 T64 T64 JIT_INLINE_FLOAT8_ADD,
     EI2 ''float8mi'' ''jit_float8mi'' T64 T64 T64 JIT_INLINE_FLOAT8_SUB,
     EI2 ''float8mul'' ''jit_float8mul'' T64 T64 T64 JIT_INLINE_FLOAT8_MUL,
     EI2 ''float8div'' ''jit_float8div'' T64 T64 T64 JIT_INLINE_FLOAT8_DIV,
     E1 ''float8abs'' ''jit_float8abs'' T64 T64,
     E1 ''float8um'' ''jit_float8um'' T64 T64,
     E1 ''float8up'' ''jit_float8up'' T64 T64,
     E2 ''float4pl'' ''jit_float4pl'' T64 T64 T64,
     E2 ''float4mi'' ''jit_float4mi'' T64 T64 T64,
     E2 ''float4mul'' ''jit_float4mul'' T64 T64 T64,
     E2 ''float4div'' ''jit_float4div'' T64 T64 T64,
     E1 ''float4abs'' ''jit_float4abs'' T64 T64,
     E1 ''float4um'' ''jit_float4um'' T64 T64,
     E1 ''float4up'' ''jit_float4up'' T64 T64,
     E2 ''float4eq'' ''jit_float4eq'' T32 T64 T64,
     E2 ''float4ne'' ''jit_float4ne'' T32 T64 T64,
     E2 ''float4lt'' ''jit_float4lt'' T32 T64 T64,
     E2 ''float4le'' ''jit_float4le'' T32 T64 T64,
     E2 ''float4gt'' ''jit_float4gt'' T32 T64 T64,
     E2 ''float4ge'' ''jit_float4ge'' T32 T64 T64,
     EI2 ''float8eq'' ''jit_float8eq'' T32 T64 T64 JIT_INLINE_FLOAT8_EQ,
     EI2 ''float8ne'' ''jit_float8ne'' T32 T64 T64 JIT_INLINE_FLOAT8_NE,
     EI2 ''float8lt'' ''jit_float8lt'' T32 T64 T64 JIT_INLINE_FLOAT8_LT,
     EI2 ''float8le'' ''jit_float8le'' T32 T64 T64 JIT_INLINE_FLOAT8_LE,
     EI2 ''float8gt'' ''jit_float8gt'' T32 T64 T64 JIT_INLINE_FLOAT8_GT,
     EI2 ''float8ge'' ''jit_float8ge'' T32 T64 T64 JIT_INLINE_FLOAT8_GE,
     E2 ''float4larger'' ''jit_float4larger'' T64 T64 T64,
     E2 ''float4smaller'' ''jit_float4smaller'' T64 T64 T64,
     E2 ''float8larger'' ''jit_float8larger'' T64 T64 T64,
     E2 ''float8smaller'' ''jit_float8smaller'' T64 T64 T64,
     E2 ''float48eq'' ''jit_float48eq'' T32 T64 T64,
     E2 ''float48ne'' ''jit_float48ne'' T32 T64 T64,
     E2 ''float48lt'' ''jit_float48lt'' T32 T64 T64,
     E2 ''float48le'' ''jit_float48le'' T32 T64 T64,
     E2 ''float48gt'' ''jit_float48gt'' T32 T64 T64,
     E2 ''float48ge'' ''jit_float48ge'' T32 T64 T64,
     E2 ''float84eq'' ''jit_float84eq'' T32 T64 T64,
     E2 ''float84ne'' ''jit_float84ne'' T32 T64 T64,
     E2 ''float84lt'' ''jit_float84lt'' T32 T64 T64,
     E2 ''float84le'' ''jit_float84le'' T32 T64 T64,
     E2 ''float84gt'' ''jit_float84gt'' T32 T64 T64,
     E2 ''float84ge'' ''jit_float84ge'' T32 T64 T64,
     E2 ''float48pl'' ''jit_float48pl'' T64 T64 T64,
     E2 ''float48mi'' ''jit_float48mi'' T64 T64 T64,
     E2 ''float48mul'' ''jit_float48mul'' T64 T64 T64,
     E2 ''float48div'' ''jit_float48div'' T64 T64 T64,
     E2 ''float84pl'' ''jit_float84pl'' T64 T64 T64,
     E2 ''float84mi'' ''jit_float84mi'' T64 T64 T64,
     E2 ''float84mul'' ''jit_float84mul'' T64 T64 T64,
     E2 ''float84div'' ''jit_float84div'' T64 T64 T64,
     EI1 ''int48'' ''jit_int48_cast'' T64 T32 JIT_INLINE_INT4_TO_INT8,
     EI1 ''int84'' ''jit_int84_cast'' T32 T64 JIT_INLINE_INT8_TO_INT4,
     EI1 ''i2toi4'' ''jit_int24_cast'' T32 T32 JIT_INLINE_INT2_TO_INT4,
     EI1 ''i4toi2'' ''jit_int42_cast'' T32 T32 JIT_INLINE_INT4_TO_INT2,
     EI1 ''int28'' ''jit_int28_cast'' T64 T32 JIT_INLINE_INT2_TO_INT8,
     EI1 ''int82'' ''jit_int82_cast'' T32 T64 JIT_INLINE_INT8_TO_INT2,
     EI1 ''ftod'' ''jit_ftod'' T64 T64 JIT_INLINE_FLOAT4_TO_FLOAT8,
     EI1 ''dtof'' ''jit_dtof'' T64 T64 JIT_INLINE_FLOAT8_TO_FLOAT4,
     EI1 ''i4tod'' ''jit_i4tod'' T64 T32 JIT_INLINE_INT4_TO_FLOAT8,
     E1 ''dtoi4'' ''jit_dtoi4'' T32 T64,
     E1 ''i4tof'' ''jit_i4tof'' T64 T32,
     E1 ''ftoi4'' ''jit_ftoi4'' T32 T64,
     EI1 ''i8tod'' ''jit_i8tod'' T64 T64 JIT_INLINE_INT8_TO_FLOAT8,
     E1 ''i8tof'' ''jit_i8tof'' T64 T64,
     E1 ''dtoi8'' ''jit_dtoi8'' T64 T64,
     E1 ''ftoi8'' ''jit_ftoi8'' T64 T64,
     E1 ''i2tod'' ''jit_i2tod'' T64 T32,
     E1 ''dtoi2'' ''jit_dtoi2'' T32 T64,
     E1 ''i2tof'' ''jit_i2tof'' T64 T32,
     E1 ''ftoi2'' ''jit_ftoi2'' T32 T64,
     E1 ''bool_int4'' ''jit_bool_int4'' T32 T64,
     E1 ''int4_bool'' ''jit_int4_bool'' T32 T32,
     E1 ''chartoi4'' ''jit_chartoi4'' T32 T32,
     E1 ''i4tochar'' ''jit_i4tochar'' T32 T32,
     E1 ''oidtoi8'' ''jit_oidtoi8'' T64 T32,
     E1 ''xid8toxid'' ''jit_xid8toxid'' T32 T64,
     E2 ''booleq'' ''jit_booleq'' T32 T64 T64,
     E2 ''boolne'' ''jit_boolne'' T32 T64 T64,
     E2 ''boollt'' ''jit_boollt'' T32 T64 T64,
     E2 ''boolgt'' ''jit_boolgt'' T32 T64 T64,
     E2 ''boolle'' ''jit_boolle'' T32 T64 T64,
     E2 ''boolge'' ''jit_boolge'' T32 T64 T64,
     E2 ''booland_statefunc'' ''jit_booland_statefunc'' T64 T64 T64,
     E2 ''boolor_statefunc'' ''jit_boolor_statefunc'' T64 T64 T64,
     EI2 ''chareq'' ''jit_chareq'' T32 T32 T32 JIT_INLINE_UINT8_EQ,
     EI2 ''charne'' ''jit_charne'' T32 T32 T32 JIT_INLINE_UINT8_NE,
     EI2 ''charlt'' ''jit_charlt'' T32 T32 T32 JIT_INLINE_UINT8_LT,
     EI2 ''charle'' ''jit_charle'' T32 T32 T32 JIT_INLINE_UINT8_LE,
     EI2 ''chargt'' ''jit_chargt'' T32 T32 T32 JIT_INLINE_UINT8_GT,
     EI2 ''charge'' ''jit_charge'' T32 T32 T32 JIT_INLINE_UINT8_GE,
     EI2 ''xideq'' ''jit_xideq'' T32 T32 T32 JIT_INLINE_UINT32_EQ,
     EI2 ''xidneq'' ''jit_xidneq'' T32 T32 T32 JIT_INLINE_UINT32_NE,
     EI2 ''cideq'' ''jit_cideq'' T32 T32 T32 JIT_INLINE_UINT32_EQ,
     EI2 ''xid8eq'' ''jit_xid8eq'' T32 T64 T64 JIT_INLINE_UINT64_EQ,
     EI2 ''xid8ne'' ''jit_xid8ne'' T32 T64 T64 JIT_INLINE_UINT64_NE,
     EI2 ''xid8lt'' ''jit_xid8lt'' T32 T64 T64 JIT_INLINE_UINT64_LT,
     EI2 ''xid8le'' ''jit_xid8le'' T32 T64 T64 JIT_INLINE_UINT64_LE,
     EI2 ''xid8gt'' ''jit_xid8gt'' T32 T64 T64 JIT_INLINE_UINT64_GT,
     EI2 ''xid8ge'' ''jit_xid8ge'' T32 T64 T64 JIT_INLINE_UINT64_GE,
     E2 ''xid8cmp'' ''jit_xid8cmp'' T32 T64 T64,
     EI2 ''pg_lsn_eq'' ''jit_pg_lsn_eq'' T32 T64 T64 JIT_INLINE_UINT64_EQ,
     EI2 ''pg_lsn_ne'' ''jit_pg_lsn_ne'' T32 T64 T64 JIT_INLINE_UINT64_NE,
     EI2 ''pg_lsn_lt'' ''jit_pg_lsn_lt'' T32 T64 T64 JIT_INLINE_UINT64_LT,
     EI2 ''pg_lsn_le'' ''jit_pg_lsn_le'' T32 T64 T64 JIT_INLINE_UINT64_LE,
     EI2 ''pg_lsn_gt'' ''jit_pg_lsn_gt'' T32 T64 T64 JIT_INLINE_UINT64_GT]"

definition jit_direct_fns_3 :: "build_config \<Rightarrow> JitDirectFn list" where
  "jit_direct_fns_3 cfg =
    [EI2 ''pg_lsn_ge'' ''jit_pg_lsn_ge'' T32 T64 T64 JIT_INLINE_UINT64_GE,
     E2 ''pg_lsn_cmp'' ''jit_pg_lsn_cmp'' T32 T64 T64,
     E2 ''pg_lsn_larger'' ''jit_pg_lsn_larger'' T64 T64 T64,
     E2 ''pg_lsn_smaller'' ''jit_pg_lsn_smaller'' T64 T64 T64,
     E1 ''pg_lsn_hash'' ''jit_pg_lsn_hash'' T32 T64,
     E2 ''pg_lsn_hash_extended'' ''jit_pg_lsn_hash_extended'' T64 T64 T64,
     EI2 ''timestamp_eq'' ''jit_timestamp_eq'' T32 T64 T64 JIT_INLINE_INT8_EQ,
     EI2 ''timestamp_ne'' ''jit_timestamp_ne'' T32 T64 T64 JIT_INLINE_INT8_NE,
     EI2 ''timestamp_lt'' ''jit_timestamp_lt'' T32 T64 T64 JIT_INLINE_INT8_LT,
     EI2 ''timestamp_le'' ''jit_timestamp_le'' T32 T64 T64 JIT_INLINE_INT8_LE,
     EI2 ''timestamp_gt'' ''jit_timestamp_gt'' T32 T64 T64 JIT_INLINE_INT8_GT,
     EI2 ''timestamp_ge'' ''jit_timestamp_ge'' T32 T64 T64 JIT_INLINE_INT8_GE,
     E2 ''timestamp_cmp'' ''jit_timestamp_cmp'' T32 T64 T64,
     E2 ''timestamp_larger'' ''jit_timestamp_larger'' T64 T64 T64,
     E2 ''timestamp_smaller'' ''jit_timestamp_smaller'' T64 T64 T64,
     E1 ''timestamp_finite'' ''jit_timestamp_finite'' T32 T64,
     EI1 ''timestamp_hash'' ''jit_timestamp_hash'' T64 T64 JIT_INLINE_HASHINT8]
    @ (if pg18 cfg then [EI1 ''timestamptz_hash'' ''jit_timestamptz_hash'' T64 T64 JIT_INLINE_HASHINT8] else [])
    @ [E2 ''timestamp_pl_interval'' ''jit_timestamp_pl_interval'' T64 T64 T64,
     E2 ''timestamp_mi_interval'' ''jit_timestamp_mi_interval'' T64 T64 T64,
     E2 ''timestamptz_pl_interval'' ''jit_timestamptz_pl_interval'' T64 T64 T64,
     E2 ''timestamptz_mi_interval'' ''jit_timestamptz_mi_interval'' T64 T64 T64,
     E2 ''timestamp_mi'' ''jit_timestamp_mi'' T64 T64 T64,
     EI2 ''date_eq'' ''jit_date_eq'' T32 T32 T32 JIT_INLINE_INT4_EQ,
     EI2 ''date_ne'' ''jit_date_ne'' T32 T32 T32 JIT_INLINE_INT4_NE,
     EI2 ''date_lt'' ''jit_date_lt'' T32 T32 T32 JIT_INLINE_INT4_LT,
     EI2 ''date_le'' ''jit_date_le'' T32 T32 T32 JIT_INLINE_INT4_LE,
     EI2 ''date_gt'' ''jit_date_gt'' T32 T32 T32 JIT_INLINE_INT4_GT,
     EI2 ''date_ge'' ''jit_date_ge'' T32 T32 T32 JIT_INLINE_INT4_GE,
     E2 ''date_larger'' ''jit_date_larger'' T32 T32 T32,
     E2 ''date_smaller'' ''jit_date_smaller'' T32 T32 T32,
     E2 ''date_pli'' ''jit_date_pli'' T32 T32 T32,
     E2 ''date_mii'' ''jit_date_mii'' T32 T32 T32,
     E2 ''date_mi'' ''jit_date_mi'' T32 T32 T32,
     E1 ''date_finite'' ''jit_date_finite'' T32 T32,
     E2 ''date_eq_timestamp'' ''jit_date_eq_timestamp'' T32 T32 T64,
     E2 ''date_ne_timestamp'' ''jit_date_ne_timestamp'' T32 T32 T64,
     E2 ''date_lt_timestamp'' ''jit_date_lt_timestamp'' T32 T32 T64,
     E2 ''date_le_timestamp'' ''jit_date_le_timestamp'' T32 T32 T64,
     E2 ''date_gt_timestamp'' ''jit_date_gt_timestamp'' T32 T32 T64,
     E2 ''date_ge_timestamp'' ''jit_date_ge_timestamp'' T32 T32 T64,
     E2 ''date_cmp_timestamp'' ''jit_date_cmp_timestamp'' T32 T32 T64,
     E2 ''timestamp_eq_date'' ''jit_timestamp_eq_date'' T32 T64 T32,
     E2 ''timestamp_ne_date'' ''jit_timestamp_ne_date'' T32 T64 T32,
     E2 ''timestamp_lt_date'' ''jit_timestamp_lt_date'' T32 T64 T32,
     E2 ''timestamp_le_date'' ''jit_timestamp_le_date'' T32 T64 T32,
     E2 ''timestamp_gt_date'' ''jit_timestamp_gt_date'' T32 T64 T32,
     E2 ''timestamp_ge_date'' ''jit_timestamp_ge_date'' T32 T64 T32,
     E2 ''timestamp_cmp_date'' ''jit_timestamp_cmp_date'' T32 T64 T32,
     EI2 ''time_eq'' ''jit_time_eq'' T32 T64 T64 JIT_INLINE_INT8_EQ,
     EI2 ''time_ne'' ''jit_time_ne'' T32 T64 T64 JIT_INLINE_INT8_NE,
     EI2 ''time_lt'' ''jit_time_lt'' T32 T64 T64 JIT_INLINE_INT8_LT,
     EI2 ''time_le'' ''jit_time_le'' T32 T64 T64 JIT_INLINE_INT8_LE,
     EI2 ''time_gt'' ''jit_time_gt'' T32 T64 T64 JIT_INLINE_INT8_GT,
     EI2 ''time_ge'' ''jit_time_ge'' T32 T64 T64 JIT_INLINE_INT8_GE,
     E2 ''time_cmp'' ''jit_time_cmp'' T32 T64 T64,
     E2 ''time_larger'' ''jit_time_larger'' T64 T64 T64,
     E2 ''time_smaller'' ''jit_time_smaller'' T64 T64 T64,
     E1 ''time_hash'' ''jit_time_hash'' T32 T64,
     E2 ''time_hash_extended'' ''jit_time_hash_extended'' T64 T64 T64,
     EI2 ''btboolcmp'' ''jit_btboolcmp'' T32 T64 T64 JIT_INLINE_BOOL_CMP3,
     E2 ''btcharcmp'' ''jit_btcharcmp'' T32 T32 T32,
     E2 ''btint2cmp'' ''jit_btint2cmp'' T32 T32 T32,
     E2 ''btint4cmp'' ''jit_btint4cmp'' T32 T32 T32,
     EI2 ''btint8cmp'' ''jit_btint8cmp'' T32 T64 T64 JIT_INLINE_INT8_CMP3,
     E2 ''btint24cmp'' ''jit_btint24cmp'' T32 T32 T32,
     E2 ''btint42cmp'' ''jit_btint42cmp'' T32 T32 T32,
     E2 ''btint28cmp'' ''jit_btint28cmp'' T32 T32 T64,
     E2 ''btint48cmp'' ''jit_btint48cmp'' T32 T32 T64,
     E2 ''btint82cmp'' ''jit_btint82cmp'' T32 T64 T32,
     E2 ''btint84cmp'' ''jit_btint84cmp'' T32 T64 T32,
     E2 ''btfloat4cmp'' ''jit_btfloat4cmp'' T32 T64 T64,
     E2 ''btfloat8cmp'' ''jit_btfloat8cmp'' T32 T64 T64,
     E2 ''btfloat48cmp'' ''jit_btfloat48cmp'' T32 T64 T64,
     E2 ''btfloat84cmp'' ''jit_btfloat84cmp'' T32 T64 T64,
     E2 ''btoidcmp'' ''jit_btoidcmp'' T32 T32 T32,
     E2 ''date_cmp'' ''jit_date_cmp'' T32 T32 T32,
     E2 ''int4range_subdiff'' ''jit_int4range_subdiff'' T64 T32 T32,
     E2 ''int8range_subdiff'' ''jit_int8range_subdiff'' T64 T64 T64,
     E2 ''daterange_subdiff'' ''jit_daterange_subdiff'' T64 T32 T32,
     E2 ''tsrange_subdiff'' ''jit_tsrange_subdiff'' T64 T64 T64,
     E2 ''tstzrange_subdiff'' ''jit_tstzrange_subdiff'' T64 T64 T64,
     EI2 ''cash_eq'' ''jit_cash_eq'' T32 T64 T64 JIT_INLINE_INT8_EQ,
     EI2 ''cash_ne'' ''jit_cash_ne'' T32 T64 T64 JIT_INLINE_INT8_NE,
     EI2 ''cash_lt'' ''jit_cash_lt'' T32 T64 T64 JIT_INLINE_INT8_LT,
     EI2 ''cash_le'' ''jit_cash_le'' T32 T64 T64 JIT_INLINE_INT8_LE,
     EI2 ''cash_gt'' ''jit_cash_gt'' T32 T64 T64 JIT_INLINE_INT8_GT,
     EI2 ''cash_ge'' ''jit_cash_ge'' T32 T64 T64 JIT_INLINE_INT8_GE,
     EI2 ''cash_cmp'' ''jit_cash_cmp'' T32 T64 T64 JIT_INLINE_INT8_CMP3,
     E2 ''cash_pl'' ''jit_cash_pl'' T64 T64 T64,
     E2 ''cash_mi'' ''jit_cash_mi'' T64 T64 T64,
     E2 ''cashlarger'' ''jit_cashlarger'' T64 T64 T64,
     E2 ''cashsmaller'' ''jit_cashsmaller'' T64 T64 T64,
     E1 ''textlen'' ''jit_textlen'' T32 T64,
     E1 ''textoctetlen'' ''jit_textoctetlen'' T32 T64,
     E2 ''text_starts_with'' ''jit_text_starts_with'' T32 T64 T64,
     EI2 ''oideq'' ''jit_oideq'' T32 T32 T32 JIT_INLINE_UINT32_EQ,
     EI2 ''oidne'' ''jit_oidne'' T32 T32 T32 JIT_INLINE_UINT32_NE,
     EI2 ''oidlt'' ''jit_oidlt'' T32 T32 T32 JIT_INLINE_UINT32_LT,
     EI2 ''oidle'' ''jit_oidle'' T32 T32 T32 JIT_INLINE_UINT32_LE,
     EI2 ''oidgt'' ''jit_oidgt'' T32 T32 T32 JIT_INLINE_UINT32_GT,
     EI2 ''oidge'' ''jit_oidge'' T32 T32 T32 JIT_INLINE_UINT32_GE,
     E2 ''oidlarger'' ''jit_oidlarger'' T32 T32 T32,
     E2 ''oidsmaller'' ''jit_oidsmaller'' T32 T32 T32]"

definition jit_direct_fns_4 :: "build_config \<Rightarrow> JitDirectFn list" where
  "jit_direct_fns_4 cfg =
    [E1 ''hashint2'' ''jit_hashint2'' T32 T64,
     EI1 ''hashint4'' ''jit_hashint4'' T32 T32 JIT_INLINE_HASHINT4,
     EI1 ''hashint8'' ''jit_hashint8'' T64 T64 JIT_INLINE_HASHINT8,
     EI1 ''hashoid'' ''jit_hashoid'' T32 T32 JIT_INLINE_HASHINT4]
    @ (if pg18 cfg then [E1 ''hashbool'' ''jit_hashbool'' T32 T64,
     EI1 ''hashdate'' ''jit_hashdate'' T32 T32 JIT_INLINE_HASHINT4] else [])
    @ [E2 ''hashint2extended'' ''jit_hashint2extended'' T64 T64 T64,
     E2 ''hashint4extended'' ''jit_hashint4extended'' T64 T64 T64,
     E2 ''hashint8extended'' ''jit_hashint8extended'' T64 T64 T64,
     E2 ''hashoidextended'' ''jit_hashoidextended'' T64 T64 T64]
    @ (if pg18 cfg then [E2 ''hashdateextended'' ''jit_hashdateextended'' T64 T64 T64] else [])
    @ [E2 ''int8inc_any'' ''jit_int8inc_any'' T64 T64 T64,
     E2 ''int8dec_any'' ''jit_int8dec_any'' T64 T64 T64,
     E2 ''int2_sum'' ''jit_int2_sum'' T64 T64 T64,
     E2 ''int4_sum'' ''jit_int4_sum'' T64 T64 T64,
     E2 ''int4_avg_accum'' ''jit_int4_avg_accum'' T64 T64 T32,
     E2 ''int8_avg_accum'' ''jit_int8_avg_accum'' T64 T64 T64,
     E2 ''interval_eq'' ''jit_interval_eq'' T32 T64 T64,
     E2 ''interval_ne'' ''jit_interval_ne'' T32 T64 T64,
     E2 ''interval_lt'' ''jit_interval_lt'' T32 T64 T64,
     E2 ''interval_le'' ''jit_interval_le'' T32 T64 T64,
     E2 ''interval_gt'' ''jit_interval_gt'' T32 T64 T64,
     E2 ''interval_ge'' ''jit_interval_ge'' T32 T64 T64,
     E2 ''interval_cmp'' ''jit_interval_cmp'' T32 T64 T64,
     E2 ''interval_smaller'' ''jit_interval_smaller'' T64 T64 T64,
     E2 ''interval_larger'' ''jit_interval_larger'' T64 T64 T64,
     E1 ''interval_hash'' ''jit_interval_hash'' T32 T64,
     E2 ''interval_pl'' ''jit_interval_pl'' T64 T64 T64,
     E2 ''interval_mi'' ''jit_interval_mi'' T64 T64 T64,
     EIC2F ''texteq'' ''simd_texteq'' T32 T64 T64 JIT_INLINE_TEXT_EQ,
     EIC2F ''textne'' ''simd_textne'' T32 T64 T64 JIT_INLINE_TEXT_NE,
     EC2 ''text_lt'' ''simd_text_lt'' T32 T64 T64,
     EC2 ''text_le'' ''simd_text_le'' T32 T64 T64,
     EC2 ''text_gt'' ''simd_text_gt'' T32 T64 T64,
     EC2 ''text_ge'' ''simd_text_ge'' T32 T64 T64,
     EC2 ''bttextcmp'' ''simd_bttextcmp'' T32 T64 T64,
     EC2 ''text_larger'' ''simd_text_larger'' T64 T64 T64,
     EC2 ''text_smaller'' ''simd_text_smaller'' T64 T64 T64]
    @ (if have_simd cfg then [E1 ''hashtext'' ''simd_hashtext'' T32 T64] else [])
    @ [E2 ''text_pattern_lt'' ''jit_text_pattern_lt'' T32 T64 T64,
     E2 ''text_pattern_le'' ''jit_text_pattern_le'' T32 T64 T64,
     E2 ''text_pattern_ge'' ''jit_text_pattern_ge'' T32 T64 T64,
     E2 ''text_pattern_gt'' ''jit_text_pattern_gt'' T32 T64 T64,
     E2 ''bttext_pattern_cmp'' ''jit_bttext_pattern_cmp'' T32 T64 T64,
     E2 ''numeric_eq'' ''jit_numeric_eq'' T32 T64 T64,
     E2 ''numeric_ne'' ''jit_numeric_ne'' T32 T64 T64,
     E2 ''numeric_lt'' ''jit_numeric_lt'' T32 T64 T64,
     E2 ''numeric_le'' ''jit_numeric_le'' T32 T64 T64,
     E2 ''numeric_gt'' ''jit_numeric_gt'' T32 T64 T64,
     E2 ''numeric_ge'' ''jit_numeric_ge'' T32 T64 T64,
     E2 ''numeric_cmp'' ''jit_numeric_cmp'' T32 T64 T64,
     E2 ''numeric_larger'' ''jit_numeric_larger'' T64 T64 T64,
     E2 ''numeric_smaller'' ''jit_numeric_smaller'' T64 T64 T64,
     E1 ''hash_numeric'' ''jit_hash_numeric_wrapper'' T32 T64,
     E1 ''numeric_abs'' ''jit_numeric_abs'' T64 T64,
     E1 ''numeric_uminus'' ''jit_numeric_uminus'' T64 T64,
     E2 ''numeric_add'' ''jit_numeric_add_wrapper'' T64 T64 T64,
     E2 ''numeric_sub'' ''jit_numeric_sub_wrapper'' T64 T64 T64,
     E2 ''numeric_mul'' ''jit_numeric_mul_wrapper'' T64 T64 T64,
     E2 ''uuid_eq'' ''jit_uuid_eq_wrapper'' T32 T64 T64,
     E2 ''uuid_lt'' ''jit_uuid_lt_wrapper'' T32 T64 T64,
     E2 ''uuid_cmp'' ''jit_uuid_cmp_wrapper'' T32 T64 T64,
     E1 ''uuid_hash'' ''jit_uuid_hash_wrapper'' T32 T64,
     E1 ''hashfloat4'' ''jit_hashfloat4'' T32 T64,
     E1 ''hashfloat8'' ''jit_hashfloat8'' T32 T64,
     E1 ''date_timestamp'' ''jit_date_timestamp'' T64 T32]"

definition jit_direct_fns :: "build_config \<Rightarrow> JitDirectFn list" where
  "jit_direct_fns cfg =
     jit_direct_fns_1 cfg @ jit_direct_fns_2 cfg @ jit_direct_fns_3 cfg @ jit_direct_fns_4 cfg"

text \<open>What a lookup by function address returns: the first row of that address.\<close>

definition find_direct :: "build_config \<Rightarrow> PGFunction \<Rightarrow> JitDirectFn option" where
  "find_direct cfg f = find (\<lambda>e. pg_fn e = f) (jit_direct_fns cfg)"

lemma find_direct_None:
  "find_direct cfg f = None \<longleftrightarrow> (\<forall>e \<in> set (jit_direct_fns cfg). pg_fn e \<noteq> f)"
  by (auto simp: find_direct_def find_None_iff)

lemmas table_defs =
  jit_direct_fns_def jit_direct_fns_1_def jit_direct_fns_2_def jit_direct_fns_3_def jit_direct_fns_4_def

lemmas find_direct_simps = find_direct_def table_defs find_append entry_defs

end
