(* ===== verification/CaseDetect.thy ===== *)
theory CaseDetect
  imports CaseHelpers DirectTable
begin

text \<open>
  The compile-time detection of CASE expressions that a binary search can replace
  (src/src/pg_jitter_common.c, \<open>build_cmp_class_table\<close> to
  \<open>pg_jitter_detect_case_bsearch\<close>), on the array of expression steps. The first pass finds
  searched and simple CASE expressions of five steps per branch, the second one range CASE
  expressions. The generated code for a detected pattern (src/src/pg_jitter_sljit.c,
  src/src/pg_jitter_mir.c) is \<open>jit_case_bsearch\<close>.
\<close>

section \<open>Expression steps\<close>

datatype ExprEvalOp =
  EEOP_INNER_VAR | EEOP_OUTER_VAR | EEOP_SCAN_VAR | EEOP_CASE_TESTVAL
  | EEOP_FUNCEXPR_STRICT | EEOP_FUNCEXPR_STRICT_1 | EEOP_FUNCEXPR_STRICT_2
  | EEOP_JUMP_IF_NOT_TRUE | EEOP_JUMP | EEOP_CONST
  | EEOP_QUAL | EEOP_BOOL_AND_STEP_FIRST | EEOP_BOOL_AND_STEP | EEOP_BOOL_AND_STEP_LAST
  | EEOP_OTHER nat

text \<open>
  The fields of the union \<open>d\<close> that the detection reads: the attribute number of a VAR step;
  function, collation and second argument of a function step; value of a CONST step;
  target of a jump.
\<close>

record ExprEvalStep =
  st_op :: ExprEvalOp
  st_attnum :: int
  st_fn_addr :: PGFunction
  st_collation :: Oid
  st_arg1 :: Datum
  st_arg1_isnull :: bool
  st_const :: Datum
  st_const_isnull :: bool
  st_jumpdone :: nat

definition is_var_opcode :: "ExprEvalOp \<Rightarrow> bool" where
  "is_var_opcode op \<longleftrightarrow> op = EEOP_INNER_VAR \<or> op = EEOP_OUTER_VAR \<or> op = EEOP_SCAN_VAR"

definition same_var :: "ExprEvalStep \<Rightarrow> ExprEvalStep \<Rightarrow> bool" where
  "same_var a b \<longleftrightarrow> st_op a = st_op b \<and> st_attnum a = st_attnum b"

definition is_funcexpr_strict :: "ExprEvalOp \<Rightarrow> bool" where
  "is_funcexpr_strict op \<longleftrightarrow>
     op = EEOP_FUNCEXPR_STRICT \<or> op = EEOP_FUNCEXPR_STRICT_1 \<or> op = EEOP_FUNCEXPR_STRICT_2"

section \<open>Classification of comparison functions\<close>

datatype CmpKind = CMP_EQ | CMP_LT | CMP_LE | CMP_GT | CMP_GE

text \<open>All groups of the source have five non-null functions.\<close>

definition add_cmp_group ::
  "PGFunction \<Rightarrow> PGFunction \<Rightarrow> PGFunction \<Rightarrow> PGFunction \<Rightarrow> PGFunction \<Rightarrow> CaseBSearchType
   \<Rightarrow> (PGFunction \<times> CmpKind \<times> CaseBSearchType) list" where
  "add_cmp_group eq_fn lt_fn le_fn gt_fn ge_fn t =
     [(eq_fn, CMP_EQ, t), (lt_fn, CMP_LT, t), (le_fn, CMP_LE, t), (gt_fn, CMP_GT, t), (ge_fn, CMP_GE, t)]"

definition build_cmp_class_table :: "(PGFunction \<times> CmpKind \<times> CaseBSearchType) list" where
  "build_cmp_class_table =
     add_cmp_group ''int4eq'' ''int4lt'' ''int4le'' ''int4gt'' ''int4ge'' CASE_BS_I32
   @ add_cmp_group ''int8eq'' ''int8lt'' ''int8le'' ''int8gt'' ''int8ge'' CASE_BS_I64
   @ add_cmp_group ''int2eq'' ''int2lt'' ''int2le'' ''int2gt'' ''int2ge'' CASE_BS_I16
   @ add_cmp_group ''date_eq'' ''date_lt'' ''date_le'' ''date_gt'' ''date_ge'' CASE_BS_I32
   @ add_cmp_group ''oideq'' ''oidlt'' ''oidle'' ''oidgt'' ''oidge'' CASE_BS_U32
   @ add_cmp_group ''timestamp_eq'' ''timestamp_lt'' ''timestamp_le'' ''timestamp_gt'' ''timestamp_ge'' CASE_BS_I64
   @ add_cmp_group ''float4eq'' ''float4lt'' ''float4le'' ''float4gt'' ''float4ge'' CASE_BS_F4
   @ add_cmp_group ''float8eq'' ''float8lt'' ''float8le'' ''float8gt'' ''float8ge'' CASE_BS_F8
   @ add_cmp_group ''booleq'' ''boollt'' ''boolle'' ''boolgt'' ''boolge'' CASE_BS_I64
   @ add_cmp_group ''texteq'' ''text_lt'' ''text_le'' ''text_gt'' ''text_ge'' CASE_BS_GENERIC
   @ add_cmp_group ''numeric_eq'' ''numeric_lt'' ''numeric_le'' ''numeric_gt'' ''numeric_ge'' CASE_BS_GENERIC
   @ add_cmp_group ''uuid_eq'' ''uuid_lt'' ''uuid_le'' ''uuid_gt'' ''uuid_ge'' CASE_BS_GENERIC
   @ add_cmp_group ''interval_eq'' ''interval_lt'' ''interval_le'' ''interval_gt'' ''interval_ge'' CASE_BS_GENERIC
   @ add_cmp_group ''bpchareq'' ''bpcharlt'' ''bpcharle'' ''bpchargt'' ''bpcharge'' CASE_BS_GENERIC
   @ add_cmp_group ''byteaeq'' ''bytealt'' ''byteale'' ''byteagt'' ''byteage'' CASE_BS_GENERIC
   @ add_cmp_group ''jsonb_eq'' ''jsonb_lt'' ''jsonb_le'' ''jsonb_gt'' ''jsonb_ge'' CASE_BS_GENERIC
   @ add_cmp_group ''network_eq'' ''network_lt'' ''network_le'' ''network_gt'' ''network_ge'' CASE_BS_GENERIC
   @ add_cmp_group ''array_eq'' ''array_lt'' ''array_le'' ''array_gt'' ''array_ge'' CASE_BS_GENERIC"

definition find_generic_lt_fn :: "PGFunction \<Rightarrow> PGFunction option" where
  "find_generic_lt_fn eq_fn = map_of
     [(''texteq'', ''text_lt''), (''numeric_eq'', ''numeric_lt''), (''uuid_eq'', ''uuid_lt''),
      (''interval_eq'', ''interval_lt''), (''bpchareq'', ''bpcharlt''), (''byteaeq'', ''bytealt''),
      (''jsonb_eq'', ''jsonb_lt''), (''network_eq'', ''network_lt''), (''array_eq'', ''array_lt'')] eq_fn"

record cmp_class =
  cc_eq :: bool
  cc_less :: bool
  cc_incl :: bool
  cc_type :: CaseBSearchType

definition classify_cmp_fn :: "PGFunction \<Rightarrow> cmp_class option" where
  "classify_cmp_fn fn =
     map_option (\<lambda>(k, t). \<lparr>cc_eq = (k = CMP_EQ), cc_less = (k = CMP_LT \<or> k = CMP_LE),
                            cc_incl = (k = CMP_LE \<or> k = CMP_GE), cc_type = t\<rparr>)
       (map_of build_cmp_class_table fn)"

section \<open>Order of thresholds\<close>

text \<open>
  What the detection uses of its environment besides \<open>pg_env\<close>: \<open>qsort\<close> (with the comparison
  function it passes) and \<open>jit_find_direct_fn\<close>.
\<close>

record case_env =
  ce_pg :: pg_env
  ce_qsort :: "(Datum \<times> Datum \<Rightarrow> Datum \<times> Datum \<Rightarrow> int) \<Rightarrow> (Datum \<times> Datum) list \<Rightarrow> (Datum \<times> Datum) list"
  ce_find :: "PGFunction \<Rightarrow> JitDirectFn option"

definition cmp3 :: "int \<Rightarrow> int \<Rightarrow> int" where
  "cmp3 a b = bool_int (a > b) - bool_int (a < b)"

definition cmp_threshold_result_i32 :: "Datum \<times> Datum \<Rightarrow> Datum \<times> Datum \<Rightarrow> int" where
  "cmp_threshold_result_i32 a b = cmp3 (sint (DatumGetInt32 (fst a))) (sint (DatumGetInt32 (fst b)))"

definition cmp_threshold_result_i64 :: "Datum \<times> Datum \<Rightarrow> Datum \<times> Datum \<Rightarrow> int" where
  "cmp_threshold_result_i64 a b = cmp3 (sint (DatumGetInt64 (fst a))) (sint (DatumGetInt64 (fst b)))"

definition cmp_threshold_result_u32 :: "Datum \<times> Datum \<Rightarrow> Datum \<times> Datum \<Rightarrow> int" where
  "cmp_threshold_result_u32 a b = cmp3 (uint (DatumGetUInt32 (fst a))) (uint (DatumGetUInt32 (fst b)))"

definition cmp_threshold_result_f4 :: "Datum \<times> Datum \<Rightarrow> Datum \<times> Datum \<Rightarrow> int" where
  "cmp_threshold_result_f4 a b = float4_cmp_jit (DatumGetFloat4 (fst a)) (DatumGetFloat4 (fst b))"

definition cmp_threshold_result_f8 :: "Datum \<times> Datum \<Rightarrow> Datum \<times> Datum \<Rightarrow> int" where
  "cmp_threshold_result_f8 a b = float8_cmp_jit (fst a) (fst b)"

definition cmp_threshold_result_generic ::
  "pg_env \<Rightarrow> PGFunction \<Rightarrow> Oid \<Rightarrow> Datum \<times> Datum \<Rightarrow> Datum \<times> Datum \<Rightarrow> int" where
  "cmp_threshold_result_generic env lt_fn coll a b =
     (if pg_call env lt_fn coll (fst a) (fst b) then - 1
      else if pg_call env lt_fn coll (fst b) (fst a) then 1 else 0)"

definition cmp_threshold_result_text_memcmp :: "pg_env \<Rightarrow> Datum \<times> Datum \<Rightarrow> Datum \<times> Datum \<Rightarrow> int" where
  "cmp_threshold_result_text_memcmp env a b =
     text_memcmp (text_bytes env (fst a)) (text_bytes env (fst b))"

text \<open>The comparison of a threshold with its predecessor in the monotonicity check.\<close>

definition mono_cmp :: "pg_env \<Rightarrow> CaseBSearchType \<Rightarrow> bool \<Rightarrow> PGFunction \<Rightarrow> Oid \<Rightarrow> Datum \<Rightarrow> Datum \<Rightarrow> int" where
  "mono_cmp env t is_less cmp_fn coll tp tc =
     (case t of
        CASE_BS_I32 \<Rightarrow> cmp3 (sint (DatumGetInt32 tc)) (sint (DatumGetInt32 tp))
      | CASE_BS_I64 \<Rightarrow> cmp3 (sint (DatumGetInt64 tc)) (sint (DatumGetInt64 tp))
      | CASE_BS_U32 \<Rightarrow> cmp3 (uint (DatumGetInt32 tc)) (uint (DatumGetInt32 tp))
      | CASE_BS_I16 \<Rightarrow> cmp3 (i16 (DatumGetInt32 tc)) (i16 (DatumGetInt32 tp))
      | CASE_BS_F4 \<Rightarrow> float4_cmp_jit (DatumGetFloat4 tc) (DatumGetFloat4 tp)
      | CASE_BS_F8 \<Rightarrow> float8_cmp_jit tc tp
      | CASE_BS_GENERIC \<Rightarrow>
          (let lt_result = pg_call env cmp_fn coll tp tc
           in if \<not> lt_result \<and> \<not> pg_call env cmp_fn coll tc tp then 0
              else if is_less then (if lt_result then 1 else - 1)
              else (if lt_result then - 1 else 1)))"

fun monotonic :: "pg_env \<Rightarrow> CaseBSearchType \<Rightarrow> bool \<Rightarrow> PGFunction \<Rightarrow> Oid \<Rightarrow> Datum list \<Rightarrow> bool" where
  "monotonic env t is_less cmp_fn coll (tp # tc # ts) \<longleftrightarrow>
     (let c = mono_cmp env t is_less cmp_fn coll tp tc
      in (if is_less then c > 0 else c < 0)) \<and> monotonic env t is_less cmp_fn coll (tc # ts)"
| "monotonic env t is_less cmp_fn coll _ \<longleftrightarrow> True"

section \<open>First pass: five steps per branch\<close>

record CaseBSearchInfo =
  start_opno :: nat
  end_opno :: nat
  else_end_opno :: nat
  num_branches :: nat
  ci_eq :: bool
  ci_less :: bool
  ci_incl :: bool
  ci_range :: bool
  range_stride :: nat
  ci_cmp_fn :: PGFunction
  ci_type :: CaseBSearchType
  default_result :: Datum
  default_is_null :: bool
  var_opno :: nat
  var_type :: jit_type
  ci_desc :: desc_ptr

definition CASE_BSEARCH_MIN_BRANCHES :: nat where "CASE_BSEARCH_MIN_BRANCHES = 4"

text \<open>The last four steps of a branch at \<open>j\<close>.\<close>

definition branch_structure :: "ExprEvalStep list \<Rightarrow> nat \<Rightarrow> bool" where
  "branch_structure steps j \<longleftrightarrow>
     is_funcexpr_strict (st_op (steps ! (j + 1)))
     \<and> st_op (steps ! (j + 2)) = EEOP_JUMP_IF_NOT_TRUE
     \<and> st_op (steps ! (j + 3)) = EEOP_CONST
     \<and> st_op (steps ! (j + 4)) = EEOP_JUMP"

text \<open>The checks on a further branch at \<open>j\<close> of a pattern that starts at \<open>i\<close>.\<close>

definition branch_matches ::
  "ExprEvalStep list \<Rightarrow> nat \<Rightarrow> bool \<Rightarrow> PGFunction \<Rightarrow> nat \<Rightarrow> nat \<Rightarrow> bool" where
  "branch_matches steps i is_var_pattern cmp_fn end_jump_target j \<longleftrightarrow>
     branch_structure steps j
     \<and> (if is_var_pattern
        then is_var_opcode (st_op (steps ! j)) \<and> same_var (steps ! i) (steps ! j)
        else st_op (steps ! j) = EEOP_CASE_TESTVAL)
     \<and> st_fn_addr (steps ! (j + 1)) = cmp_fn
     \<and> \<not> st_arg1_isnull (steps ! (j + 1))
     \<and> \<not> st_const_isnull (steps ! (j + 3))
     \<and> st_jumpdone (steps ! (j + 4)) = end_jump_target
     \<and> st_jumpdone (steps ! (j + 2)) = j + 5"

function count_branches ::
  "ExprEvalStep list \<Rightarrow> (nat \<Rightarrow> bool) \<Rightarrow> nat \<Rightarrow> nat \<Rightarrow> nat \<times> nat" where
  "count_branches steps ok branch_count j =
     (if j + 5 - 1 < length steps \<and> ok j
      then count_branches steps ok (branch_count + 1) (j + 5)
      else (branch_count, j))"
  by pat_completeness auto
termination
  by (relation "measure (\<lambda>(steps, ok, n, j). length steps - j)") auto

declare count_branches.simps [simp del]

text \<open>Every JUMP_IF_NOT_TRUE goes to the next branch, the last one to the ELSE part \<open>j\<close>.\<close>

definition jints_ok :: "ExprEvalStep list \<Rightarrow> nat \<Rightarrow> nat \<Rightarrow> nat \<Rightarrow> bool" where
  "jints_ok steps i branch_count j \<longleftrightarrow>
     list_all (\<lambda>k. st_jumpdone (steps ! (i + k * 5 + 2)) = i + (k + 1) * 5) [0..<branch_count - 1]
     \<and> st_jumpdone (steps ! (i + (branch_count - 1) * 5 + 2)) = j"

definition else_ok :: "ExprEvalStep list \<Rightarrow> nat \<Rightarrow> nat \<Rightarrow> bool" where
  "else_ok steps j end_jump_target \<longleftrightarrow>
     j < length steps \<and> st_op (steps ! j) = EEOP_CONST \<and> \<not> st_const_isnull (steps ! j)
     \<and> (j + 1 = end_jump_target
        \<or> (j + 1 < length steps \<and> st_op (steps ! (j + 1)) = EEOP_JUMP
           \<and> st_jumpdone (steps ! (j + 1)) = end_jump_target))"

definition branch_thresholds :: "ExprEvalStep list \<Rightarrow> nat \<Rightarrow> nat \<Rightarrow> Datum list" where
  "branch_thresholds steps i n = map (\<lambda>k. st_arg1 (steps ! (i + k * 5 + 1))) [0..<n]"

definition branch_results :: "ExprEvalStep list \<Rightarrow> nat \<Rightarrow> nat \<Rightarrow> Datum list" where
  "branch_results steps i n = map (\<lambda>k. st_const (steps ! (i + k * 5 + 3))) [0..<n]"

section \<open>The descriptor of a pattern\<close>

definition has_duplicate :: "(Datum \<times> Datum \<Rightarrow> Datum \<times> Datum \<Rightarrow> int) \<Rightarrow> (Datum \<times> Datum) list \<Rightarrow> bool" where
  "has_duplicate cmp_func pairs \<longleftrightarrow>
     list_ex (\<lambda>k. cmp_func (pairs ! (k - 1)) (pairs ! k) = 0) [1..<length pairs]"

text \<open>Pairs of threshold and result are sorted; a duplicate threshold rejects the pattern.\<close>

definition sort_pairs ::
  "case_env \<Rightarrow> (Datum \<times> Datum \<Rightarrow> Datum \<times> Datum \<Rightarrow> int) \<Rightarrow> Datum list \<Rightarrow> Datum list
   \<Rightarrow> (Datum list \<times> Datum list) option" where
  "sort_pairs env cmp_func ths rs =
     (let pairs = ce_qsort env cmp_func (zip ths rs)
      in if has_duplicate cmp_func pairs then None else Some (map fst pairs, map snd pairs))"

definition mk_desc ::
  "nat \<Rightarrow> PGFunction option \<Rightarrow> PGFunction option \<Rightarrow> Oid \<Rightarrow> Datum \<Rightarrow> 't list \<Rightarrow> Datum list \<Rightarrow> 't CaseBSearchDesc" where
  "mk_desc n fn order_fn coll dflt ths rs =
     \<lparr>bs_n = n, bs_cmp_fn = fn, bs_cmp_order_fn = order_fn, bs_cmp_collation = coll,
      bs_default_val = dflt, bs_range_min = 0, bs_has_range_min = False,
      bs_thresholds = ths, bs_results = rs\<rparr>"

text \<open>The thresholds as stored: 32-bit types in an int32 array, int2 narrowed first.\<close>

definition store32 :: "CaseBSearchType \<Rightarrow> Datum \<Rightarrow> int32" where
  "store32 t d = (if t = CASE_BS_I16 then scast (scast (DatumGetInt32 d) :: int16) else DatumGetInt32 d)"

definition store64 :: "CaseBSearchType \<Rightarrow> Datum \<Rightarrow> Datum" where
  "store64 t d = (if t = CASE_BS_I64 then DatumGetInt64 d else d)"

definition build_desc32 ::
  "case_env \<Rightarrow> CaseBSearchType \<Rightarrow> bool \<Rightarrow> Datum \<Rightarrow> Datum list \<Rightarrow> Datum list \<Rightarrow> desc_ptr option" where
  "build_desc32 env t is_eq dflt ts rs =
     (let ths = map (store32 t) ts;
          mk = (\<lambda>ths rs. Desc32 (mk_desc (length ts) None None InvalidOid dflt ths rs))
      in if is_eq
         then (if t = CASE_BS_U32
               then map_option (\<lambda>(ths', rs'). mk (map DatumGetUInt32 ths') rs')
                      (sort_pairs env cmp_threshold_result_u32 (map UInt32GetDatum ths) rs)
               else map_option (\<lambda>(ths', rs'). mk (map DatumGetInt32 ths') rs')
                      (sort_pairs env cmp_threshold_result_i32 (map Int32GetDatum ths) rs))
         else Some (mk ths rs))"

definition build_desc64 ::
  "case_env \<Rightarrow> CaseBSearchType \<Rightarrow> bool \<Rightarrow> Datum \<Rightarrow> Datum list \<Rightarrow> Datum list \<Rightarrow> desc_ptr option" where
  "build_desc64 env t is_eq dflt ts rs =
     (let ths = map (store64 t) ts;
          mk = (\<lambda>ths rs. Desc64 (mk_desc (length ts) None None InvalidOid dflt ths rs))
      in if is_eq
         then map_option (\<lambda>(ths', rs'). mk ths' rs')
                (sort_pairs env
                   (if t = CASE_BS_I64 then cmp_threshold_result_i64
                    else if t = CASE_BS_F4 then cmp_threshold_result_f4
                    else cmp_threshold_result_f8) ths rs)
         else Some (mk ths rs))"

definition build_desc_generic ::
  "case_env \<Rightarrow> PGFunction \<Rightarrow> Oid \<Rightarrow> bool \<Rightarrow> Datum \<Rightarrow> Datum list \<Rightarrow> Datum list \<Rightarrow> desc_ptr option" where
  "build_desc_generic env cmp_fn coll is_eq dflt ts rs =
     (let order_fn = (if is_eq then find_generic_lt_fn cmp_fn else None);
          mk = mk_desc (length ts) (Some cmp_fn) order_fn coll dflt
      in if is_eq \<and> order_fn \<noteq> None
         then map_option (\<lambda>(ths', rs'). Desc64 (mk ths' rs'))
                (sort_pairs env
                   (if case_bsearch_generic_eq_can_memcmp (ce_pg env) (mk ts rs)
                    then cmp_threshold_result_text_memcmp (ce_pg env)
                    else cmp_threshold_result_generic (ce_pg env) (the order_fn) coll) ts rs)
         else Some (Desc64 (mk ts rs)))"

definition build_desc ::
  "case_env \<Rightarrow> cmp_class \<Rightarrow> PGFunction \<Rightarrow> Oid \<Rightarrow> Datum \<Rightarrow> Datum list \<Rightarrow> Datum list \<Rightarrow> desc_ptr option" where
  "build_desc env c cmp_fn coll dflt ts rs =
     (case cc_type c of
        CASE_BS_GENERIC \<Rightarrow> build_desc_generic env cmp_fn coll (cc_eq c) dflt ts rs
      | t \<Rightarrow> (if bs_type_to_var_type t = JIT_TYPE_32
              then build_desc32 env t (cc_eq c) dflt ts rs
              else build_desc64 env t (cc_eq c) dflt ts rs))"

section \<open>One round of the first pass\<close>

datatype scan = Stop | Skip nat | Emit CaseBSearchInfo nat

definition pattern_start :: "case_env \<Rightarrow> ExprEvalStep list \<Rightarrow> nat \<Rightarrow> cmp_class option" where
  "pattern_start env steps i =
     (if \<not> branch_structure steps i then None
      else if st_const_isnull (steps ! (i + 3)) then None
      else if st_arg1_isnull (steps ! (i + 1)) then None
      else (case ce_find env (st_fn_addr (steps ! (i + 1))) of
              None \<Rightarrow> None
            | Some dfn \<Rightarrow> if nargs dfn \<noteq> 2 then None
                          else classify_cmp_fn (st_fn_addr (steps ! (i + 1)))))"

definition mk_info ::
  "ExprEvalStep list \<Rightarrow> nat \<Rightarrow> nat \<Rightarrow> nat \<Rightarrow> nat \<Rightarrow> cmp_class \<Rightarrow> desc_ptr \<Rightarrow> CaseBSearchInfo" where
  "mk_info steps i j n end_jump_target c d =
     \<lparr>start_opno = i, end_opno = j, else_end_opno = end_jump_target, num_branches = n,
      ci_eq = cc_eq c, ci_less = cc_less c, ci_incl = cc_incl c, ci_range = False, range_stride = 5,
      ci_cmp_fn = st_fn_addr (steps ! (i + 1)), ci_type = cc_type c,
      default_result = st_const (steps ! j), default_is_null = st_const_isnull (steps ! j),
      var_opno = i, var_type = bs_type_to_var_type (cc_type c), ci_desc = d\<rparr>"

text \<open>The checks after the branches have been counted: \<open>n\<close> branches, ELSE at \<open>j\<close>.\<close>

definition detect_branches :: "case_env \<Rightarrow> ExprEvalStep list \<Rightarrow> nat \<Rightarrow> cmp_class \<Rightarrow> nat \<times> nat \<Rightarrow> scan" where
  "detect_branches env steps i c nj =
     (let (n, j) = nj;
          cmp_fn = st_fn_addr (steps ! (i + 1));
          coll = st_collation (steps ! (i + 1));
          end_jump_target = st_jumpdone (steps ! (i + 4))
      in if \<not> jints_ok steps i n j then Skip (i + 1)
         else if \<not> else_ok steps j end_jump_target then Skip (i + 1)
         else if n < CASE_BSEARCH_MIN_BRANCHES then Skip j
         else if \<not> cc_eq c \<and>
                 \<not> monotonic (ce_pg env) (cc_type c) (cc_less c) cmp_fn coll
                     (branch_thresholds steps i n) then Skip j
         else (case build_desc env c cmp_fn coll (st_const (steps ! j))
                      (branch_thresholds steps i n) (branch_results steps i n) of
                 None \<Rightarrow> Skip j
               | Some d \<Rightarrow> Emit (mk_info steps i j n end_jump_target c d) end_jump_target))"

definition detect_case_at :: "case_env \<Rightarrow> ExprEvalStep list \<Rightarrow> nat \<Rightarrow> scan" where
  "detect_case_at env steps i =
     (let is_var_pattern = is_var_opcode (st_op (steps ! i))
      in if \<not> is_var_pattern \<and> st_op (steps ! i) \<noteq> EEOP_CASE_TESTVAL then Skip (i + 1)
         else if i + 4 \<ge> length steps then Stop
         else (case pattern_start env steps i of
                 None \<Rightarrow> Skip (i + 1)
               | Some c \<Rightarrow>
                   detect_branches env steps i c
                     (count_branches steps
                        (branch_matches steps i is_var_pattern (st_fn_addr (steps ! (i + 1)))
                           (st_jumpdone (steps ! (i + 4))))
                        1 (i + 5))))"

text \<open>
  The loop of the pass. The position after a pattern is a jump target of the program, so
  the loop is given fuel; \<open>None\<close> stands for not having finished.
\<close>

fun detect_pass1 ::
  "nat \<Rightarrow> case_env \<Rightarrow> ExprEvalStep list \<Rightarrow> nat \<Rightarrow> nat \<Rightarrow> CaseBSearchInfo list \<Rightarrow> CaseBSearchInfo list option" where
  "detect_pass1 0 env steps max_patterns i out = None"
| "detect_pass1 (Suc f) env steps max_patterns i out =
     (if i + 5 < length steps \<and> length out < max_patterns
      then (case detect_case_at env steps i of
              Stop \<Rightarrow> Some out
            | Skip i' \<Rightarrow> detect_pass1 f env steps max_patterns i' out
            | Emit info i' \<Rightarrow> detect_pass1 f env steps max_patterns i' (out @ [info]))
      else Some out)"

section \<open>Second pass: range CASE\<close>

text \<open>
  A branch \<open>WHEN v >= lo AND v < hi\<close> has seven steps: VAR, function, AND step, VAR, function,
  AND step, JUMP_IF_NOT_TRUE. The THEN part runs to a JUMP to the end, which is searched
  for in the next twenty steps.
\<close>

definition RANGE_WHEN_LEN :: nat where "RANGE_WHEN_LEN = 7"
definition MAX_RANGE_BRANCHES :: nat where "MAX_RANGE_BRANCHES = 128"

definition range_prefix :: "ExprEvalStep list \<Rightarrow> nat \<Rightarrow> bool" where
  "range_prefix steps j \<longleftrightarrow>
     is_var_opcode (st_op (steps ! j))
     \<and> is_funcexpr_strict (st_op (steps ! (j + 1)))
     \<and> st_op (steps ! (j + 2)) \<in> {EEOP_QUAL, EEOP_BOOL_AND_STEP_FIRST, EEOP_BOOL_AND_STEP}
     \<and> is_var_opcode (st_op (steps ! (j + 3)))
     \<and> is_funcexpr_strict (st_op (steps ! (j + 4)))
     \<and> st_op (steps ! (j + 5)) \<in> {EEOP_QUAL, EEOP_BOOL_AND_STEP_LAST, EEOP_BOOL_AND_STEP}
     \<and> st_op (steps ! (j + 6)) = EEOP_JUMP_IF_NOT_TRUE"

definition find_jump :: "ExprEvalStep list \<Rightarrow> (nat \<Rightarrow> bool) \<Rightarrow> nat \<Rightarrow> nat option" where
  "find_jump steps ok then_start =
     find (\<lambda>s. st_op (steps ! s) = EEOP_JUMP \<and> ok (st_jumpdone (steps ! s)))
       [then_start..<min (length steps) (then_start + 20)]"

definition range_branch ::
  "ExprEvalStep list \<Rightarrow> nat \<Rightarrow> PGFunction \<Rightarrow> PGFunction \<Rightarrow> nat \<Rightarrow> nat \<Rightarrow> nat option" where
  "range_branch steps i ge_fn lt_fn end_jump_target j =
     (if range_prefix steps j
         \<and> same_var (steps ! i) (steps ! j) \<and> same_var (steps ! i) (steps ! (j + 3))
         \<and> st_fn_addr (steps ! (j + 1)) = ge_fn \<and> st_fn_addr (steps ! (j + 4)) = lt_fn
         \<and> \<not> st_arg1_isnull (steps ! (j + 1)) \<and> \<not> st_arg1_isnull (steps ! (j + 4))
      then find_jump steps (\<lambda>t. t = end_jump_target) (j + RANGE_WHEN_LEN)
      else None)"

lemma find_Some_in: "find P xs = Some x \<Longrightarrow> x \<in> set xs \<and> P x"
  by (auto simp: find_Some_iff)

lemma find_jump_bounds:
  "find_jump steps ok s = Some b \<Longrightarrow> s \<le> b \<and> b < length steps \<and> b < s + 20"
  unfolding find_jump_def by (drule find_Some_in) auto

function range_branches ::
  "ExprEvalStep list \<Rightarrow> (nat \<Rightarrow> nat option) \<Rightarrow> nat list \<Rightarrow> nat \<Rightarrow> nat list \<times> nat" where
  "range_branches steps branch then_steps j =
     (if j + RANGE_WHEN_LEN < length steps \<and> length then_steps < MAX_RANGE_BRANCHES
      then (case branch j of
              None \<Rightarrow> (then_steps, j)
            | Some b_jump \<Rightarrow> range_branches steps branch (then_steps @ [j + RANGE_WHEN_LEN]) (b_jump + 1))
      else (then_steps, j))"
  by pat_completeness auto
termination
  by (relation "measure (\<lambda>(steps, branch, ts, j). MAX_RANGE_BRANCHES - length ts)") auto

declare range_branches.simps [simp del]

text \<open>Lower and upper bound of the branch whose THEN part starts at \<open>t\<close>.\<close>

definition range_lower :: "ExprEvalStep list \<Rightarrow> nat \<Rightarrow> Datum" where
  "range_lower steps t = st_arg1 (steps ! (t - RANGE_WHEN_LEN + 1))"

definition range_upper :: "ExprEvalStep list \<Rightarrow> nat \<Rightarrow> Datum" where
  "range_upper steps t = st_arg1 (steps ! (t - RANGE_WHEN_LEN + 4))"

definition case_range_upper_sentinel_representable :: "CaseBSearchType \<Rightarrow> Datum \<Rightarrow> bool" where
  "case_range_upper_sentinel_representable t upper =
     (case t of
        CASE_BS_I16 \<Rightarrow> sint (DatumGetInt32 upper) \<le> 2 ^ 15 - 1
      | CASE_BS_I32 \<Rightarrow> sint (DatumGetInt32 upper) < 2 ^ 31 - 1
      | CASE_BS_I64 \<Rightarrow> sint (DatumGetInt64 upper) < 2 ^ 63 - 1
      | _ \<Rightarrow> False)"

fun contiguous :: "ExprEvalStep list \<Rightarrow> CaseBSearchType \<Rightarrow> bool \<Rightarrow> nat list \<Rightarrow> bool" where
  "contiguous steps t upper_inclusive (a # b # ts) \<longleftrightarrow>
     t \<in> {CASE_BS_I32, CASE_BS_I64, CASE_BS_I16}
     \<and> (upper_inclusive \<longrightarrow> case_range_upper_sentinel_representable t (range_upper steps a))
     \<and> bs_key t (range_upper steps a) + (if upper_inclusive then 1 else 0) = bs_key t (range_lower steps b)
     \<and> contiguous steps t upper_inclusive (b # ts)"
| "contiguous steps t upper_inclusive _ \<longleftrightarrow> True"

definition range_desc ::
  "CaseBSearchType \<Rightarrow> bool \<Rightarrow> Datum \<Rightarrow> Datum \<Rightarrow> Datum list \<Rightarrow> Datum list \<Rightarrow> desc_ptr" where
  "range_desc t upper_inclusive first_lower dflt uppers rs =
     (let inc = (if upper_inclusive then 1 else 0)
      in if t = CASE_BS_I64
         then Desc64 ((mk_desc (length uppers) None None InvalidOid dflt (map (\<lambda>u. DatumGetInt64 u + inc) uppers) rs)
                \<lparr>bs_range_min := first_lower, bs_has_range_min := True\<rparr>)
         else Desc32 ((mk_desc (length uppers) None None InvalidOid dflt (map (\<lambda>u. store32 t u + (if upper_inclusive then 1 else 0)) uppers) rs)
                \<lparr>bs_range_min := first_lower, bs_has_range_min := True\<rparr>))"

definition mk_range_info ::
  "ExprEvalStep list \<Rightarrow> nat \<Rightarrow> nat \<Rightarrow> nat \<Rightarrow> nat \<Rightarrow> CaseBSearchType \<Rightarrow> PGFunction \<Rightarrow> desc_ptr \<Rightarrow> CaseBSearchInfo" where
  "mk_range_info steps i j n end_jump_target t lt_fn d =
     \<lparr>start_opno = i, end_opno = j, else_end_opno = end_jump_target, num_branches = n,
      ci_eq = False, ci_less = True, ci_incl = False, ci_range = False, range_stride = 0,
      ci_cmp_fn = lt_fn, ci_type = t,
      default_result = st_const (steps ! j), default_is_null = st_const_isnull (steps ! j),
      var_opno = i, var_type = bs_type_to_var_type t, ci_desc = d\<rparr>"

text \<open>The classification of the two comparisons of the first branch: \<open>>=\<close>, then \<open><\<close> or \<open><=\<close>.\<close>

definition range_start :: "ExprEvalStep list \<Rightarrow> nat \<Rightarrow> (CaseBSearchType \<times> bool) option" where
  "range_start steps i =
     (case (classify_cmp_fn (st_fn_addr (steps ! (i + 1))), classify_cmp_fn (st_fn_addr (steps ! (i + 4)))) of
        (Some ge, Some lt) \<Rightarrow>
          if cc_eq ge \<or> cc_less ge \<or> \<not> cc_incl ge then None
          else if cc_eq lt \<or> \<not> cc_less lt then None
          else if cc_type ge \<noteq> cc_type lt then None
          else if st_arg1_isnull (steps ! (i + 1)) \<or> st_arg1_isnull (steps ! (i + 4)) then None
          else Some (cc_type lt, cc_incl lt)
      | _ \<Rightarrow> None)"

text \<open>
  The accepted end of a range pattern: contiguous ranges (inclusive upper bounds with a
  representable successor), a non-null constant ELSE, and constant THEN parts; a pattern
  with another THEN part is skipped.
\<close>

definition range_build ::
  "ExprEvalStep list \<Rightarrow> nat \<Rightarrow> CaseBSearchType \<Rightarrow> bool \<Rightarrow> nat \<Rightarrow> nat list \<Rightarrow> nat \<Rightarrow> scan" where
  "range_build steps i t upper_inclusive end_jump_target then_steps j =
     (if length then_steps < CASE_BSEARCH_MIN_BRANCHES then Skip j
      else if \<not> contiguous steps t upper_inclusive then_steps then Skip j
      else if upper_inclusive \<and>
              \<not> list_all (\<lambda>a. case_range_upper_sentinel_representable t (range_upper steps a)) then_steps
      then Skip j
      else if j \<ge> length steps \<or> st_op (steps ! j) \<noteq> EEOP_CONST \<or> st_const_isnull (steps ! j) then Skip j
      else if list_all (\<lambda>a. st_op (steps ! a) = EEOP_CONST \<and> \<not> st_const_isnull (steps ! a)) then_steps
      then Emit (mk_range_info steps i j (length then_steps) end_jump_target t (st_fn_addr (steps ! (i + 4)))
              (range_desc t upper_inclusive (range_lower steps (hd then_steps)) (st_const (steps ! j))
                 (map (range_upper steps) then_steps) (map (\<lambda>a. st_const (steps ! a)) then_steps)))
            end_jump_target
      else Skip end_jump_target)"

text \<open>The branches from \<open>i\<close>: type, inclusive flag, end, THEN positions, position of the ELSE part.\<close>

definition range_parse ::
  "ExprEvalStep list \<Rightarrow> nat \<Rightarrow> (CaseBSearchType \<times> bool \<times> nat \<times> nat list \<times> nat) option" where
  "range_parse steps i =
     (if \<not> range_prefix steps i \<or> \<not> same_var (steps ! i) (steps ! (i + 3)) then None
      else (case range_start steps i of
              None \<Rightarrow> None
            | Some (t, upper_inclusive) \<Rightarrow>
                (case find_jump steps (\<lambda>_. True) (i + RANGE_WHEN_LEN) of
                   None \<Rightarrow> None
                 | Some jump_pos \<Rightarrow>
                     (let end_jump_target = st_jumpdone (steps ! jump_pos);
                          (then_steps, j) = range_branches steps
                            (range_branch steps i (st_fn_addr (steps ! (i + 1))) (st_fn_addr (steps ! (i + 4)))
                               end_jump_target)
                            [i + RANGE_WHEN_LEN] (jump_pos + 1)
                      in Some (t, upper_inclusive, end_jump_target, then_steps, j)))))"

definition detect_range_at :: "ExprEvalStep list \<Rightarrow> nat \<Rightarrow> scan" where
  "detect_range_at steps i =
     (if \<not> is_var_opcode (st_op (steps ! i)) then Skip (i + 1)
      else if i + RANGE_WHEN_LEN \<ge> length steps then Stop
      else (case range_parse steps i of
              None \<Rightarrow> Skip (i + 1)
            | Some (t, upper_inclusive, end_jump_target, then_steps, j) \<Rightarrow>
                range_build steps i t upper_inclusive end_jump_target then_steps j))"

fun detect_pass2 ::
  "nat \<Rightarrow> ExprEvalStep list \<Rightarrow> nat \<Rightarrow> nat \<Rightarrow> CaseBSearchInfo list \<Rightarrow> CaseBSearchInfo list option" where
  "detect_pass2 0 steps max_patterns i out = None"
| "detect_pass2 (Suc f) steps max_patterns i out =
     (if i + RANGE_WHEN_LEN < length steps \<and> length out < max_patterns
      then (case detect_range_at steps i of
              Stop \<Rightarrow> Some out
            | Skip i' \<Rightarrow> detect_pass2 f steps max_patterns i' out
            | Emit info i' \<Rightarrow> detect_pass2 f steps max_patterns i' (out @ [info]))
      else Some out)"

definition pg_jitter_detect_case_bsearch ::
  "nat \<Rightarrow> case_env \<Rightarrow> ExprEvalStep list \<Rightarrow> nat \<Rightarrow> CaseBSearchInfo list option" where
  "pg_jitter_detect_case_bsearch fuel env steps max_patterns =
     (case detect_pass1 fuel env steps max_patterns 0 [] of
        None \<Rightarrow> None
      | Some out \<Rightarrow> detect_pass2 fuel steps max_patterns 0 out)"

section \<open>The generated code for a pattern\<close>

text \<open>
  After the VAR step has loaded the variable, the code returns the ELSE value when it is
  null and the result of the selected helper otherwise; the result is a value and its null
  flag.
\<close>

definition jit_case_bsearch :: "pg_env \<Rightarrow> CaseBSearchInfo \<Rightarrow> Datum \<times> bool \<Rightarrow> (Datum \<times> bool) option" where
  "jit_case_bsearch env info var =
     (if snd var then Some (default_result info, default_is_null info)
      else map_option (\<lambda>r. (r, False))
             (call_helper
                (pg_jitter_select_bsearch_helper env (ci_type info) (ci_eq info) (ci_less info) (ci_incl info))
                (fst var) (ci_desc info)))"

end
