(* ===== verification/CaseCorrect.thy ===== *)
theory CaseCorrect
  imports CaseDetect "HOL-Library.Multiset"
begin

text \<open>
  Correctness of the CASE detection: the meaning of the expression steps is a step
  relation, and the generated code for a detected pattern yields the value and null flag
  with which the steps reach the end of the CASE expression.
\<close>

section \<open>The meaning of the expression steps\<close>

text \<open>
  \<open>vars\<close> gives every column that a VAR step can read, by opcode and attribute number, and the
  value of \<open>CASE_TESTVAL\<close>, each a value with its null flag. A VAR or CASE_TESTVAL step loads
  the first argument of the next function step; the other steps write the result of the
  CASE expression.
\<close>

type_synonym case_vars = "ExprEvalOp \<Rightarrow> int \<Rightarrow> Datum \<times> bool"

definition loaded :: "case_vars \<Rightarrow> ExprEvalStep \<Rightarrow> Datum \<times> bool" where
  "loaded vars st = (if is_var_opcode (st_op st) then vars (st_op st) (st_attnum st) else vars EEOP_CASE_TESTVAL 0)"

record case_state =
  cs_pc :: nat
  cs_arg :: "Datum \<times> bool"
  cs_res :: "Datum \<times> bool"

inductive case_step :: "pg_env \<Rightarrow> ExprEvalStep list \<Rightarrow> case_vars \<Rightarrow> case_state \<Rightarrow> case_state \<Rightarrow> bool"
  for env :: pg_env and steps :: "ExprEvalStep list" and vars :: case_vars where
  load: "pc < length steps \<Longrightarrow>
      is_var_opcode (st_op (steps ! pc)) \<or> st_op (steps ! pc) = EEOP_CASE_TESTVAL \<Longrightarrow>
      case_step env steps vars \<lparr>cs_pc = pc, cs_arg = a, cs_res = r\<rparr> \<lparr>cs_pc = pc + 1, cs_arg = loaded vars (steps ! pc), cs_res = r\<rparr>"
| call_null: "pc < length steps \<Longrightarrow> is_funcexpr_strict (st_op (steps ! pc)) \<Longrightarrow>
      snd a \<or> st_arg1_isnull (steps ! pc) \<Longrightarrow>
      case_step env steps vars \<lparr>cs_pc = pc, cs_arg = a, cs_res = r\<rparr>
        \<lparr>cs_pc = pc + 1, cs_arg = a, cs_res = (fst r, True)\<rparr>"
| call_fn: "pc < length steps \<Longrightarrow> is_funcexpr_strict (st_op (steps ! pc)) \<Longrightarrow>
      \<not> snd a \<Longrightarrow> \<not> st_arg1_isnull (steps ! pc) \<Longrightarrow>
      v = (if pg_call env (st_fn_addr (steps ! pc)) (st_collation (steps ! pc)) (fst a) (st_arg1 (steps ! pc))
           then 1 else 0) \<Longrightarrow>
      case_step env steps vars \<lparr>cs_pc = pc, cs_arg = a, cs_res = r\<rparr>
        \<lparr>cs_pc = pc + 1, cs_arg = a, cs_res = (v, False)\<rparr>"
| jint_taken: "pc < length steps \<Longrightarrow> st_op (steps ! pc) = EEOP_JUMP_IF_NOT_TRUE \<Longrightarrow>
      snd r \<or> fst r = 0 \<Longrightarrow>
      case_step env steps vars \<lparr>cs_pc = pc, cs_arg = a, cs_res = r\<rparr>
        \<lparr>cs_pc = st_jumpdone (steps ! pc), cs_arg = a, cs_res = r\<rparr>"
| jint_not_taken: "pc < length steps \<Longrightarrow> st_op (steps ! pc) = EEOP_JUMP_IF_NOT_TRUE \<Longrightarrow>
      \<not> snd r \<Longrightarrow> fst r \<noteq> 0 \<Longrightarrow>
      case_step env steps vars \<lparr>cs_pc = pc, cs_arg = a, cs_res = r\<rparr> \<lparr>cs_pc = pc + 1, cs_arg = a, cs_res = r\<rparr>"
| const: "pc < length steps \<Longrightarrow> st_op (steps ! pc) = EEOP_CONST \<Longrightarrow>
      case_step env steps vars \<lparr>cs_pc = pc, cs_arg = a, cs_res = r\<rparr>
        \<lparr>cs_pc = pc + 1, cs_arg = a, cs_res = (st_const (steps ! pc), st_const_isnull (steps ! pc))\<rparr>"
| jump: "pc < length steps \<Longrightarrow> st_op (steps ! pc) = EEOP_JUMP \<Longrightarrow>
      case_step env steps vars \<lparr>cs_pc = pc, cs_arg = a, cs_res = r\<rparr>
        \<lparr>cs_pc = st_jumpdone (steps ! pc), cs_arg = a, cs_res = r\<rparr>"

inductive_cases case_stepE: "case_step env steps vars s s'"

abbreviation case_run ::
  "pg_env \<Rightarrow> ExprEvalStep list \<Rightarrow> case_vars \<Rightarrow> case_state \<Rightarrow> case_state \<Rightarrow> bool" where
  "case_run env steps vars \<equiv> (case_step env steps vars)\<^sup>*\<^sup>*"

text \<open>The steps have one result: the relation is deterministic.\<close>

lemma case_step_det:
  "case_step env steps vars s s1 \<Longrightarrow> case_step env steps vars s s2 \<Longrightarrow> s1 = s2"
  by (erule case_stepE; erule case_stepE)
     (auto simp: is_var_opcode_def is_funcexpr_strict_def)

section \<open>What the detection has checked\<close>

lemma count_branches_spec:
  assumes "count_branches steps ok b j = (n, j')"
  shows "b \<le> n \<and> j' = j + 5 * (n - b)
    \<and> (\<forall>m. b \<le> m \<and> m < n \<longrightarrow> ok (j + 5 * (m - b)) \<and> j + 5 * (m - b) + 4 < length steps)"
  using assms
proof (induction steps ok b j rule: count_branches.induct)
  case (1 steps ok b j)
  show ?case
  proof (cases "j + 5 - 1 < length steps \<and> ok j")
    case False
    with "1.prems" show ?thesis
      by (auto simp: count_branches.simps [of steps ok b j] split: if_splits)
  next
    case True
    then have "count_branches steps ok (b + 1) (j + 5) = (n, j')"
      using "1.prems" by (simp add: count_branches.simps [of steps ok b j])
    from "1.IH" [OF True this] have ih: "b + 1 \<le> n" "j' = j + 5 + 5 * (n - (b + 1))"
      "\<And>m. b + 1 \<le> m \<Longrightarrow> m < n \<Longrightarrow>
         ok (j + 5 + 5 * (m - (b + 1))) \<and> j + 5 + 5 * (m - (b + 1)) + 4 < length steps"
      by blast+
    have "ok (j + 5 * (m - b)) \<and> j + 5 * (m - b) + 4 < length steps" if "b \<le> m" "m < n" for m
    proof (cases "m = b")
      case True
      with \<open>j + 5 - 1 < length steps \<and> ok j\<close> show ?thesis by simp
    next
      case False
      with that have "5 * (m - b) = 5 + 5 * (m - (b + 1))" by simp
      with ih(3) [of m] that False show ?thesis by (simp add: algebra_simps)
    qed
    moreover have "j' = j + 5 * (n - b)" using ih(1,2) by simp
    ultimately show ?thesis using ih(1) by simp
  qed
qed

text \<open>The shape of \<open>n\<close> branches from \<open>i\<close>, with a common end and function.\<close>

definition same_load :: "ExprEvalStep \<Rightarrow> ExprEvalStep \<Rightarrow> bool" where
  "same_load a b \<longleftrightarrow> is_var_opcode (st_op a) \<and> same_var a b \<or> st_op a = EEOP_CASE_TESTVAL \<and> st_op b = EEOP_CASE_TESTVAL"

lemma loaded_same: "same_load a b \<Longrightarrow> loaded vars b = loaded vars a"
  by (auto simp: same_load_def same_var_def loaded_def is_var_opcode_def)

definition case_shape :: "ExprEvalStep list \<Rightarrow> nat \<Rightarrow> nat \<Rightarrow> PGFunction \<Rightarrow> nat \<Rightarrow> bool" where
  "case_shape steps i n fn done \<longleftrightarrow>
     (\<forall>k<n. i + 5 * k + 4 < length steps
        \<and> (is_var_opcode (st_op (steps ! (i + 5 * k))) \<or> st_op (steps ! (i + 5 * k)) = EEOP_CASE_TESTVAL)
        \<and> same_load (steps ! i) (steps ! (i + 5 * k))
        \<and> branch_structure steps (i + 5 * k)
        \<and> st_fn_addr (steps ! (i + 5 * k + 1)) = fn
        \<and> \<not> st_arg1_isnull (steps ! (i + 5 * k + 1))
        \<and> \<not> st_const_isnull (steps ! (i + 5 * k + 3))
        \<and> st_jumpdone (steps ! (i + 5 * k + 4)) = done
        \<and> st_jumpdone (steps ! (i + 5 * k + 2)) = i + 5 * (k + 1))"

lemma case_shapeD:
  assumes "case_shape steps i n fn done" "k < n"
  shows "i + 5 * k + 4 < length steps"
    "is_var_opcode (st_op (steps ! (i + 5 * k))) \<or> st_op (steps ! (i + 5 * k)) = EEOP_CASE_TESTVAL"
    "is_funcexpr_strict (st_op (steps ! (i + 5 * k + 1)))"
    "st_op (steps ! (i + 5 * k + 2)) = EEOP_JUMP_IF_NOT_TRUE"
    "st_op (steps ! (i + 5 * k + 3)) = EEOP_CONST"
    "st_op (steps ! (i + 5 * k + 4)) = EEOP_JUMP"
    "st_fn_addr (steps ! (i + 5 * k + 1)) = fn"
    "\<not> st_arg1_isnull (steps ! (i + 5 * k + 1))"
    "\<not> st_const_isnull (steps ! (i + 5 * k + 3))"
    "st_jumpdone (steps ! (i + 5 * k + 4)) = done"
    "st_jumpdone (steps ! (i + 5 * k + 2)) = i + 5 * (k + 1)"
    "same_load (steps ! i) (steps ! (i + 5 * k))"
  using assms by (simp_all add: case_shape_def branch_structure_def)

lemma case_shapeI:
  assumes start: "branch_structure steps i" "\<not> st_const_isnull (steps ! (i + 3))"
      "\<not> st_arg1_isnull (steps ! (i + 1))" "i + 4 < length steps"
      "is_var_opcode (st_op (steps ! i)) \<or> st_op (steps ! i) = EEOP_CASE_TESTVAL"
    and count: "count_branches steps (branch_matches steps i (is_var_opcode (st_op (steps ! i)))
        (st_fn_addr (steps ! (i + 1))) (st_jumpdone (steps ! (i + 4)))) 1 (i + 5) = (n, j)"
    and jints: "jints_ok steps i n j" and n: "2 \<le> n"
  shows "case_shape steps i n (st_fn_addr (steps ! (i + 1))) (st_jumpdone (steps ! (i + 4))) \<and> j = i + 5 * n"
proof -
  note spec = count_branches_spec [OF count]
  have j: "j = i + 5 * n" using spec n by simp
  have first: "st_jumpdone (steps ! (i + 2)) = i + 5"
    using jints n by (auto simp: jints_ok_def list_all_iff dest: bspec [where x = 0])
  define isv where "isv = is_var_opcode (st_op (steps ! i))"
  define m where "m = branch_matches steps i isv (st_fn_addr (steps ! (i + 1))) (st_jumpdone (steps ! (i + 4)))"
  have further: "i + 5 * k + 4 < length steps \<and> m (i + 5 * k)" if "k \<noteq> 0" "k < n" for k
  proof -
    have "1 \<le> k" using that by simp
    moreover have "i + 5 + 5 * (k - 1) = i + 5 * k" using that by (cases k) simp_all
    ultimately show ?thesis using spec that unfolding m_def isv_def by (metis (no_types, lifting))
  qed
  have "case_shape steps i n (st_fn_addr (steps ! (i + 1))) (st_jumpdone (steps ! (i + 4)))"
    unfolding case_shape_def
  proof (intro allI impI, goal_cases)
    case (1 k)
    show ?case
    proof (cases "k = 0")
      case True
      with start first show ?thesis by (auto simp: same_load_def same_var_def)
    next
      case False
      from further [OF False 1] show ?thesis
        using start(5) by (cases isv) (simp_all add: m_def isv_def branch_matches_def same_load_def)
    qed
  qed
  with j show ?thesis by simp
qed

text \<open>Everything that an emitted pattern guarantees.\<close>

lemma detect_branches_Emit:
  assumes "detect_branches env steps i c (n, j) = Emit info i'"
  shows "jints_ok steps i n j \<and> else_ok steps j i' \<and> 4 \<le> n
    \<and> (cc_eq c \<or> monotonic (ce_pg env) (cc_type c) (cc_less c) (st_fn_addr (steps ! (i + 1)))
       (st_collation (steps ! (i + 1))) (branch_thresholds steps i n))
    \<and> (\<exists>d. build_desc env c (st_fn_addr (steps ! (i + 1))) (st_collation (steps ! (i + 1))) (st_const (steps ! j))
         (branch_thresholds steps i n) (branch_results steps i n) = Some d
         \<and> info = mk_info steps i j n i' c d) \<and> i' = st_jumpdone (steps ! (i + 4))"
  using assms unfolding detect_branches_def Let_def CASE_BSEARCH_MIN_BRANCHES_def prod.case
  by (simp split: if_split_asm option.split_asm) (elim conjE, simp only:)

lemma detect_case_at_Emit:
  assumes "detect_case_at env steps i = Emit info i'"
  obtains c n fn where
    "fn = st_fn_addr (steps ! (i + 1))" "classify_cmp_fn fn = Some c"
    "case_shape steps i n fn (else_end_opno info)"
    "else_ok steps (i + 5 * n) (else_end_opno info)" "4 \<le> n"
    "cc_eq c \<or> monotonic (ce_pg env) (cc_type c) (cc_less c) fn (st_collation (steps ! (i + 1)))
       (branch_thresholds steps i n)"
    "build_desc env c fn (st_collation (steps ! (i + 1))) (st_const (steps ! (i + 5 * n)))
       (branch_thresholds steps i n) (branch_results steps i n) = Some (ci_desc info)"
    "info = mk_info steps i (i + 5 * n) n (else_end_opno info) c (ci_desc info)"
    "i' = else_end_opno info"
proof -
  define fn where "fn = st_fn_addr (steps ! (i + 1))"
  define e where "e = st_jumpdone (steps ! (i + 4))"
  have load: "is_var_opcode (st_op (steps ! i)) \<or> st_op (steps ! i) = EEOP_CASE_TESTVAL"
    and len: "i + 4 < length steps"
    using assms by (auto simp: detect_case_at_def Let_def split: if_splits)
  obtain c where ps: "pattern_start env steps i = Some c"
    using assms load len by (cases "pattern_start env steps i") (auto simp: detect_case_at_def Let_def)
  obtain n j where nj: "count_branches steps
      (branch_matches steps i (is_var_opcode (st_op (steps ! i))) fn e) 1 (i + 5) = (n, j)"
    by fastforce
  from ps have start: "branch_structure steps i" "\<not> st_const_isnull (steps ! (i + 3))"
      "\<not> st_arg1_isnull (steps ! (i + 1))" "classify_cmp_fn fn = Some c"
    by (auto simp: pattern_start_def fn_def split: if_splits option.splits)
  have "detect_branches env steps i c (n, j) = Emit info i'"
    using assms load len nj unfolding detect_case_at_def Let_def fn_def e_def
    by (simp add: ps split: if_split_asm)
  then obtain d where d:
      "jints_ok steps i n j" "else_ok steps j i'" "4 \<le> n"
      "cc_eq c \<or> monotonic (ce_pg env) (cc_type c) (cc_less c) fn (st_collation (steps ! (i + 1)))
         (branch_thresholds steps i n)"
      "build_desc env c fn (st_collation (steps ! (i + 1))) (st_const (steps ! j))
         (branch_thresholds steps i n) (branch_results steps i n) = Some d"
      "info = mk_info steps i j n i' c d" "i' = e"
    using detect_branches_Emit unfolding fn_def e_def by blast
  have "case_shape steps i n fn e \<and> j = i + 5 * n"
    using case_shapeI [OF start(1-3) len load] nj d(1,3) by (simp add: fn_def e_def)
  with d start(4) show thesis
    by (intro that [of fn c n]) (auto simp: fn_def mk_info_def)
qed

section \<open>Running the steps\<close>

definition branch_test :: "pg_env \<Rightarrow> ExprEvalStep list \<Rightarrow> nat \<Rightarrow> Datum \<times> bool \<Rightarrow> nat \<Rightarrow> bool" where
  "branch_test env steps i var k \<longleftrightarrow> \<not> snd var \<and>
     pg_call env (st_fn_addr (steps ! (i + 5 * k + 1))) (st_collation (steps ! (i + 5 * k + 1)))
       (fst var) (st_arg1 (steps ! (i + 5 * k + 1)))"

definition branch_result :: "ExprEvalStep list \<Rightarrow> nat \<Rightarrow> nat \<Rightarrow> Datum" where
  "branch_result steps i k = st_const (steps ! (i + 5 * k + 3))"

lemma run_branch:
  assumes sh: "case_shape steps i n fn done" and k: "k < n"
  shows "case_run env steps vars \<lparr>cs_pc = i + 5 * k + 1, cs_arg = var, cs_res = r\<rparr>
    (if branch_test env steps i var k
     then \<lparr>cs_pc = done, cs_arg = var, cs_res = (branch_result steps i k, False)\<rparr>
     else \<lparr>cs_pc = i + 5 * (k + 1), cs_arg = var, cs_res = (if snd var then fst r else 0, snd var)\<rparr>)"
proof -
  note D = case_shapeD [OF sh k]
  let ?s = "\<lambda>pc r. \<lparr>cs_pc = pc, cs_arg = var, cs_res = r\<rparr>"
  let ?f = "i + 5 * k + 1"
  define r1 where "r1 = (if snd var then (fst r, True)
    else (if branch_test env steps i var k then 1 else 0, False))"
  have "case_step env steps vars (?s ?f r) (?s (?f + 1) r1)"
  proof (cases "snd var")
    case True
    then show ?thesis
      using D case_step.call_null [where pc = ?f and a = var and r = r and steps = steps and env = env and vars = vars]
      by (simp add: r1_def)
  next
    case False
    then show ?thesis
      using D case_step.call_fn [where pc = ?f and a = var and r = r and steps = steps and env = env and vars = vars]
      by (simp add: r1_def branch_test_def)
  qed
  then have step1: "case_step env steps vars (?s ?f r) (?s (i + 5 * k + 2) r1)" by simp
  show ?thesis
  proof (cases "branch_test env steps i var k")
    case True
    then have r1: "r1 = (1, False)" by (simp add: r1_def branch_test_def)
    have "case_step env steps vars (?s (i + 5 * k + 2) r1) (?s (i + 5 * k + 2 + 1) r1)"
      using D r1 by (intro case_step.jint_not_taken) simp_all
    then have step2: "case_step env steps vars (?s (i + 5 * k + 2) r1) (?s (i + 5 * k + 3) r1)"
      by (simp add: numeral_3_eq_3)
    have "case_step env steps vars (?s (i + 5 * k + 3) r1)
        (?s (i + 5 * k + 3 + 1) (st_const (steps ! (i + 5 * k + 3)), st_const_isnull (steps ! (i + 5 * k + 3))))"
      using D by (intro case_step.const) simp_all
    then have step3: "case_step env steps vars (?s (i + 5 * k + 3) r1) (?s (i + 5 * k + 4) (branch_result steps i k, False))"
      using D by (simp add: branch_result_def add.commute [of _ 4])
    have "case_step env steps vars (?s (i + 5 * k + 4) (branch_result steps i k, False))
        (?s (st_jumpdone (steps ! (i + 5 * k + 4))) (branch_result steps i k, False))"
      using D by (intro case_step.jump) simp_all
    with step1 step2 step3 True D(10) show ?thesis
      by (simp add: converse_rtranclp_into_rtranclp)
  next
    case False
    then have r1: "snd r1 \<or> fst r1 = 0" "r1 = (if snd var then fst r else 0, snd var)"
      by (auto simp: r1_def)
    have "case_step env steps vars (?s (i + 5 * k + 2) r1) (?s (st_jumpdone (steps ! (i + 5 * k + 2))) r1)"
      using D r1 by (intro case_step.jint_taken) simp_all
    with step1 False D(11) r1 show ?thesis by (simp add: converse_rtranclp_into_rtranclp)
  qed
qed

lemma run_load:
  assumes "pc < length steps" "is_var_opcode (st_op (steps ! pc)) \<or> st_op (steps ! pc) = EEOP_CASE_TESTVAL"
  shows "case_run env steps vars \<lparr>cs_pc = pc, cs_arg = a, cs_res = r\<rparr> \<lparr>cs_pc = pc + 1, cs_arg = loaded vars (steps ! pc), cs_res = r\<rparr>"
  using case_step.load [OF assms] by (rule r_into_rtranclp)

text \<open>The ELSE part: a constant, then the end of the CASE expression directly or by a JUMP.\<close>

lemma run_else:
  assumes "else_ok steps j done"
  shows "case_run env steps vars \<lparr>cs_pc = j, cs_arg = var, cs_res = r\<rparr>
    \<lparr>cs_pc = done, cs_arg = var, cs_res = (st_const (steps ! j), False)\<rparr>"
proof -
  let ?c = "(st_const (steps ! j), False)"
  have "case_step env steps vars \<lparr>cs_pc = j, cs_arg = var, cs_res = r\<rparr> \<lparr>cs_pc = j + 1, cs_arg = var, cs_res = ?c\<rparr>"
    using assms case_step.const [of j steps env vars var r] by (auto simp: else_ok_def)
  moreover have "j + 1 = done \<or> case_step env steps vars \<lparr>cs_pc = j + 1, cs_arg = var, cs_res = ?c\<rparr>
      \<lparr>cs_pc = done, cs_arg = var, cs_res = ?c\<rparr>"
    using assms case_step.jump [of "j + 1" steps env vars var ?c] by (auto simp: else_ok_def)
  ultimately show ?thesis
    by (auto intro: converse_rtranclp_into_rtranclp)
qed

lemma run_branches:
  assumes sh: "case_shape steps i n fn done" and el: "else_ok steps (i + 5 * n) done" and k: "k < n"
    and var: "var = loaded vars (steps ! i)"
  shows "case_run env steps vars \<lparr>cs_pc = i + 5 * k + 1, cs_arg = var, cs_res = r\<rparr>
    \<lparr>cs_pc = done, cs_arg = var,
     cs_res = (case_linear (branch_test env steps i var)
                 (map (\<lambda>k. (k, branch_result steps i k)) [k..<n]) (st_const (steps ! (i + 5 * n))), False)\<rparr>"
  using k
proof (induction "n - k" arbitrary: k r)
  case 0
  then show ?case by simp
next
  case (Suc m)
  let ?d = "st_const (steps ! (i + 5 * n))"
  let ?scan = "\<lambda>k. case_linear (branch_test env steps i var) (map (\<lambda>k. (k, branch_result steps i k)) [k..<n]) ?d"
  have scan: "?scan k = (if branch_test env steps i var k then branch_result steps i k else ?scan (k + 1))"
    using Suc.prems by (simp add: upt_conv_Cons)
  define r' where "r' = (if snd var then fst r else 0, snd var)"
  note run = run_branch [OF sh Suc.prems, of env vars var r, folded r'_def]
  show ?case
  proof (cases "branch_test env steps i var k")
    case True
    with run scan show ?thesis by simp
  next
    case False
    with run have run: "case_run env steps vars \<lparr>cs_pc = i + 5 * k + 1, cs_arg = var, cs_res = r\<rparr>
        \<lparr>cs_pc = i + 5 * (k + 1), cs_arg = var, cs_res = r'\<rparr>" by simp
    show ?thesis
    proof (cases "k + 1 < n")
      case True
      have "case_run env steps vars \<lparr>cs_pc = i + 5 * (k + 1), cs_arg = var, cs_res = r'\<rparr>
          \<lparr>cs_pc = i + 5 * (k + 1) + 1, cs_arg = var, cs_res = r'\<rparr>"
        using run_load [of "i + 5 * (k + 1)" steps env vars var r'] case_shapeD(1,2) [OF sh True]
          loaded_same [OF case_shapeD(12) [OF sh True], of vars] var by simp
      also have "case_run env steps vars \<dots> \<lparr>cs_pc = done, cs_arg = var, cs_res = (?scan (k + 1), False)\<rparr>"
        using Suc.hyps True by (intro Suc.hyps(1)) simp_all
      finally show ?thesis using run False scan by (simp add: rtranclp_trans)
    next
      case last: False
      then have n: "n = k + 1" using Suc.prems by simp
      have "?scan k = ?d" using False scan n by simp
      with rtranclp_trans [OF run] run_else [OF el, of env vars var r'] show ?thesis by (simp add: n)
    qed
  qed
qed

section \<open>Sorting the branches of an equality CASE\<close>

text \<open>What \<open>qsort\<close> promises for a comparison function that is a total preorder.\<close>

definition qsort_ok :: "((Datum \<times> Datum \<Rightarrow> Datum \<times> Datum \<Rightarrow> int) \<Rightarrow> (Datum \<times> Datum) list \<Rightarrow> (Datum \<times> Datum) list) \<Rightarrow> bool" where
  "qsort_ok qs \<longleftrightarrow>
     (\<forall>cmp ps. (\<forall>a b. cmp a b \<le> 0 \<or> cmp b a \<le> 0) \<and> (\<forall>a b c. cmp a b \<le> 0 \<longrightarrow> cmp b c \<le> 0 \<longrightarrow> cmp a c \<le> 0)
        \<longrightarrow> mset (qs cmp ps) = mset ps \<and> sorted_wrt (\<lambda>a b. cmp a b \<le> 0) (qs cmp ps))"

lemma case_linear_eq_map_of:
  "case_linear (\<lambda>t. v = t) ps d = (case map_of ps v of Some r \<Rightarrow> r | None \<Rightarrow> d)"
  by (induction "\<lambda>t. v = t" ps d rule: case_linear.induct) auto

text \<open>Without duplicate keys the order of the branches of an equality CASE does not matter.\<close>

lemma case_linear_eq_perm:
  assumes "mset ps = mset qs" "distinct (map fst ps)"
  shows "case_linear (\<lambda>t. v = t) ps d = case_linear (\<lambda>t. v = t) qs d"
proof -
  have "mset (map fst ps) = mset (map fst qs)" using assms(1) by simp
  then have dq: "distinct (map fst qs)" using assms(2) mset_eq_imp_distinct_iff by blast
  have "set ps = set qs" using assms(1) mset_eq_setD by blast
  then have "map_of ps = map_of qs" using map_of_inject_set [OF assms(2) dq] by simp
  then show ?thesis by (simp only: case_linear_eq_map_of)
qed

lemma zip_map_fst_snd: "zip (map f (map fst ps)) (map snd ps) = map (map_prod f id) ps"
  by (induction ps) auto

lemma sorted_no_duplicate:
  assumes "sorted_wrt (\<lambda>a b. cmp a b \<le> 0) ps" "\<not> has_duplicate cmp ps"
    and "\<And>a b. cmp a b \<le> 0 \<longleftrightarrow> K (fst a) \<le> (K (fst b) :: 'k::linorder)"
    and "\<And>a b. cmp a b = 0 \<longleftrightarrow> K (fst a) = K (fst b)"
  shows "sorted_wrt (<) (map K (map fst ps))"
proof -
  have "successively (<) (map K (map fst ps))"
    unfolding successively_conv_nth
  proof (intro allI impI)
    fix k assume k: "Suc k < length (map K (map fst ps))"
    then have "cmp (ps ! k) (ps ! Suc k) \<le> 0"
      using sorted_wrt_nth_less [OF assms(1), of k "Suc k"] by simp
    moreover have "cmp (ps ! k) (ps ! Suc k) \<noteq> 0"
      using assms(2) k unfolding has_duplicate_def list_ex_iff
      by (auto dest!: bspec [where x = "Suc k"])
    ultimately show "map K (map fst ps) ! k < map K (map fst ps) ! Suc k"
      using assms(3,4) k by simp
  qed
  then show ?thesis by (simp add: successively_conv_sorted_wrt)
qed

lemma sort_pairs_spec:
  fixes K :: "Datum \<Rightarrow> 'k::linorder"
  assumes qs: "qsort_ok (ce_qsort env)" and some: "sort_pairs env cmp ths rs = Some (ths', rs')"
    and len: "length ths = length rs"
    and le: "\<And>a b. cmp a b \<le> 0 \<longleftrightarrow> K (fst a) \<le> K (fst b)"
    and eq: "\<And>a b. cmp a b = 0 \<longleftrightarrow> K (fst a) = K (fst b)"
  shows "sorted_wrt (<) (map K ths') \<and> length ths' = length ths \<and> length rs' = length ths'
    \<and> (\<forall>v d. case_linear (\<lambda>t. v = t) (zip (map K ths') rs') d
             = case_linear (\<lambda>t. v = t) (zip (map K ths) rs) d)"
proof -
  define ps where "ps = zip ths rs"
  define ps' where "ps' = ce_qsort env cmp ps"
  have ths: "ths = map fst ps" "rs = map snd ps" using len by (simp_all add: ps_def)
  have nd: "\<not> has_duplicate cmp ps'" and ths': "ths' = map fst ps'" "rs' = map snd ps'"
    using some by (auto simp: sort_pairs_def Let_def ps'_def ps_def split: if_splits)
  have ms: "mset ps' = mset ps" and sorted: "sorted_wrt (\<lambda>a b. cmp a b \<le> 0) ps'"
    using qs le unfolding qsort_ok_def ps'_def by (meson linear order_trans)+
  have strict: "sorted_wrt (<) (map K (map fst ps'))"
    using sorted_no_duplicate [OF sorted nd le eq] .
  then have "distinct (map K (map fst ps'))" by (simp add: strict_sorted_iff)
  then have "distinct (map fst (map (map_prod K id) ps'))"
    by (simp add: comp_def)
  moreover have "mset (map (map_prod K id) ps') = mset (map (map_prod K id) ps)" using ms by simp
  ultimately have "case_linear (\<lambda>t. v = t) (zip (map K ths') rs') d
      = case_linear (\<lambda>t. v = t) (zip (map K ths) rs) d" for v and d :: Datum
    unfolding ths ths' zip_map_fst_snd by (intro case_linear_eq_perm)
  moreover have "length ps' = length ps" using ms by (rule mset_eq_length)
  ultimately show ?thesis using strict by (simp add: ths ths')
qed

section \<open>Descriptors of the non-generic types\<close>

lemma cmp3_simps: "(cmp3 a b \<le> 0) = (a \<le> b)" "(cmp3 a b = 0) = (a = b)" "(0 < cmp3 a b) = (b < a)"
  "(cmp3 a b < 0) = (a < b)"
  by (auto simp: cmp3_def bool_int_def)

lemma mono_cmp_key:
  "t \<noteq> CASE_BS_GENERIC \<Longrightarrow> (0 < mono_cmp env t l fn coll x y) = (bs_key t x < bs_key t y)"
  "t \<noteq> CASE_BS_GENERIC \<Longrightarrow> (mono_cmp env t l fn coll x y < 0) = (bs_key t y < bs_key t x)"
  by (cases t;
      simp add: mono_cmp_def bs_key_def cmp3_simps float4_cmp_key float8_cmp_key sgn_diff_simps
        DatumGetInt32_def DatumGetUInt32_def)+

lemma monotonic_sorted:
  assumes "t \<noteq> CASE_BS_GENERIC" "monotonic env t l fn coll ts"
  shows "sorted_wrt (key_ord False l) (map (bs_key t) ts)"
proof -
  have "successively (key_ord False l) (map (bs_key t) ts)"
    using assms
  proof (induction env t l fn coll ts rule: monotonic.induct)
    case (1 env t l fn coll x y ts)
    then show ?case
      by (cases l) (simp_all add: Let_def key_ord_def mono_cmp_key)
  qed simp_all
  moreover have "transp (key_ord False l :: int \<Rightarrow> int \<Rightarrow> bool)"
    by (auto simp: transp_def key_ord_def)
  ultimately show ?thesis by (simp add: successively_conv_sorted_wrt)
qed

lemma stored_key32_store32:
  "bs_type_to_var_type t = JIT_TYPE_32 \<Longrightarrow> stored_key32 t (store32 t d) = bs_key t d"
  by (cases t)
     (simp_all add: bs_type_to_var_type_def stored_key32_def store32_def bs_key_def i16_def
        DatumGetInt32_def DatumGetUInt32_def)

lemma bs_key_store64: "bs_key t (store64 t d) = bs_key t d"
  by (simp add: store64_def DatumGetInt64_def)

definition desc_spec :: "CaseBSearchType \<Rightarrow> bool \<Rightarrow> bool \<Rightarrow> bool \<Rightarrow> Datum list \<Rightarrow> Datum list \<Rightarrow> Datum \<Rightarrow> desc_ptr \<Rightarrow> bool" where
  "desc_spec t e l i ts rs d p \<longleftrightarrow>
     ptr_ok t p \<and> ptr_range_min p = None \<and> sorted_wrt (key_ord e l) (ptr_keys t p)
     \<and> (\<forall>v. case_linear (key_op e l i v) (zip (ptr_keys t p) (ptr_results p)) (ptr_default p)
           = case_linear (key_op e l i v) (zip (map (bs_key t) ts) rs) d)"

lemma mk_desc_sel [simp]:
  "bs_n (mk_desc n f g c d ths rs) = n" "bs_thresholds (mk_desc n f g c d ths rs) = ths"
  "bs_results (mk_desc n f g c d ths rs) = rs" "bs_default_val (mk_desc n f g c d ths rs) = d"
  "bs_has_range_min (mk_desc n f g c d ths rs) = False"
  "bs_cmp_fn (mk_desc n f g c d ths rs) = f" "bs_cmp_order_fn (mk_desc n f g c d ths rs) = g"
  "bs_cmp_collation (mk_desc n f g c d ths rs) = c"
  by (simp_all add: mk_desc_def)

lemma key_op_eq: "key_op True l i v = (\<lambda>t. v = t)"
  by (simp add: key_op_def fun_eq_iff)

lemma key_ord_eq: "key_ord True l = (<)"
  by (simp add: key_ord_def fun_eq_iff)

lemma build_desc32_spec:
  assumes p: "build_desc32 env t e d ts rs = Some p" and t: "bs_type_to_var_type t = JIT_TYPE_32"
    and len: "length rs = length ts" and qs: "qsort_ok (ce_qsort env)"
    and ord: "e \<or> sorted_wrt (key_ord e l) (map (bs_key t) ts)"
  shows "desc_spec t e l i ts rs d p"
proof (cases e)
  case False
  with p t len ord show ?thesis
    by (auto simp: build_desc32_def Let_def desc_spec_def desc_ok_def stored_key32_store32 comp_def)
next
  case True
  define K where "K = (\<lambda>d. stored_key32 t (DatumGetInt32 d))"
  define cmp where "cmp = (if t = CASE_BS_U32 then cmp_threshold_result_u32 else cmp_threshold_result_i32)"
  define to where "to = (if t = CASE_BS_U32 then UInt32GetDatum else Int32GetDatum)"
  have u: "DatumGetUInt32 = DatumGetInt32" by (simp add: fun_eq_iff DatumGetUInt32_def DatumGetInt32_def)
  have K_to: "K (to x) = stored_key32 t x" for x
    using DatumGetUInt32_UInt32GetDatum [of x] by (simp add: K_def to_def u)
  from p True obtain ths' rs' where sp: "sort_pairs env cmp (map to (map (store32 t) ts)) rs = Some (ths', rs')"
    and p': "p = Desc32 (mk_desc (length ts) None None InvalidOid d (map DatumGetInt32 ths') rs')"
    by (auto simp: build_desc32_def Let_def cmp_def to_def u split: if_splits)
  have cmp: "cmp a b \<le> 0 \<longleftrightarrow> K (fst a) \<le> K (fst b)" "cmp a b = 0 \<longleftrightarrow> K (fst a) = K (fst b)" for a b
    by (simp_all add: cmp_def K_def stored_key32_def cmp_threshold_result_i32_def
        cmp_threshold_result_u32_def cmp3_simps u)
  have spec: "sorted_wrt (<) (map K ths') \<and> length ths' = length ts \<and> length rs' = length ths'
    \<and> (\<forall>v d. case_linear (\<lambda>t. v = t) (zip (map K ths') rs') d
             = case_linear (\<lambda>t. v = t) (zip (map K (map to (map (store32 t) ts))) rs) d)"
    using sort_pairs_spec [OF qs sp _ cmp] len by simp
  have "map K (map to (map (store32 t) ts)) = map (bs_key t) ts"
    using t by (simp add: K_to stored_key32_store32)
  moreover have "ptr_keys t p = map K ths'" by (simp add: p' K_def)
  ultimately show ?thesis using spec True t
    by (auto simp: p' desc_spec_def desc_ok_def key_op_eq key_ord_eq simp del: ptr_keys.simps map_map)
qed

lemma build_desc64_spec:
  assumes p: "build_desc64 env t e d ts rs = Some p" and t: "bs_type_to_var_type t = JIT_TYPE_64"
    and g: "t \<noteq> CASE_BS_GENERIC" and len: "length rs = length ts" and qs: "qsort_ok (ce_qsort env)"
    and ord: "e \<or> sorted_wrt (key_ord e l) (map (bs_key t) ts)"
  shows "desc_spec t e l i ts rs d p"
proof (cases e)
  case False
  with p t len ord show ?thesis
    by (auto simp: build_desc64_def Let_def desc_spec_def desc_ok_def bs_key_store64 comp_def)
next
  case True
  define cmp where "cmp = (if t = CASE_BS_I64 then cmp_threshold_result_i64
    else if t = CASE_BS_F4 then cmp_threshold_result_f4 else cmp_threshold_result_f8)"
  from p True obtain ths' rs' where sp: "sort_pairs env cmp (map (store64 t) ts) rs = Some (ths', rs')"
    and p': "p = Desc64 (mk_desc (length ts) None None InvalidOid d ths' rs')"
    by (auto simp: build_desc64_def Let_def cmp_def split: if_splits)
  have cmp: "cmp a b \<le> 0 \<longleftrightarrow> bs_key t (fst a) \<le> bs_key t (fst b)"
      "cmp a b = 0 \<longleftrightarrow> bs_key t (fst a) = bs_key t (fst b)" for a b
    using t g by (cases t; simp add: cmp_def bs_key_def cmp_threshold_result_i64_def
        cmp_threshold_result_f4_def cmp_threshold_result_f8_def cmp3_simps float4_cmp_key
        float8_cmp_key sgn_diff_simps bs_type_to_var_type_def)+
  have spec: "sorted_wrt (<) (map (bs_key t) ths') \<and> length ths' = length ts \<and> length rs' = length ths'
    \<and> (\<forall>v d. case_linear (\<lambda>t. v = t) (zip (map (bs_key t) ths') rs') d
             = case_linear (\<lambda>t. v = t) (zip (map (bs_key t) (map (store64 t) ts)) rs) d)"
    using sort_pairs_spec [OF qs sp _ cmp] len by simp
  have "map (bs_key t) (map (store64 t) ts) = map (bs_key t) ts"
    by (simp add: bs_key_store64)
  then show ?thesis using spec True t
    by (auto simp: p' desc_spec_def desc_ok_def key_op_eq key_ord_eq simp del: map_map)
qed

lemma build_desc_spec:
  assumes "build_desc env c fn coll d ts rs = Some p" "cc_type c \<noteq> CASE_BS_GENERIC"
    and "length rs = length ts" "qsort_ok (ce_qsort env)"
    and "cc_eq c \<or> sorted_wrt (key_ord (cc_eq c) (cc_less c)) (map (bs_key (cc_type c)) ts)"
  shows "desc_spec (cc_type c) (cc_eq c) (cc_less c) i ts rs d p"
proof -
  have "build_desc env c fn coll d ts rs =
    (if bs_type_to_var_type (cc_type c) = JIT_TYPE_32 then build_desc32 env (cc_type c) (cc_eq c) d ts rs
     else build_desc64 env (cc_type c) (cc_eq c) d ts rs)"
    using assms(2) by (cases "cc_type c") (simp_all add: build_desc_def)
  note eq = this
  show ?thesis
  proof (cases "bs_type_to_var_type (cc_type c)")
    case JIT_TYPE_32
    show ?thesis
      by (rule build_desc32_spec [OF _ JIT_TYPE_32 assms(3,4,5)]) (use eq assms(1) JIT_TYPE_32 in simp)
  next
    case JIT_TYPE_64
    show ?thesis
      by (rule build_desc64_spec [OF _ JIT_TYPE_64 assms(2,3,4,5)]) (use eq assms(1) JIT_TYPE_64 in simp)
  qed
qed

section \<open>The generated code refines the steps\<close>

text \<open>
  What PostgreSQL documents of the comparison functions of the non-generic types: under
  every collation they decide the order of the values, as in the key specification.
\<close>

definition documented_cmp :: "pg_env \<Rightarrow> bool" where
  "documented_cmp env \<longleftrightarrow>
     (\<forall>fn c coll x y. classify_cmp_fn fn = Some c \<longrightarrow> cc_type c \<noteq> CASE_BS_GENERIC \<longrightarrow>
        (pg_call env fn coll x y
         \<longleftrightarrow> key_op (cc_eq c) (cc_less c) (cc_incl c) (bs_key (cc_type c) x) (bs_key (cc_type c) y)))"

lemma branch_thresholds_eq:
  "branch_thresholds steps i n = map (\<lambda>k. st_arg1 (steps ! (i + 5 * k + 1))) [0..<n]"
  by (simp add: branch_thresholds_def mult.commute)

lemma branch_results_eq:
  "branch_results steps i n = map (branch_result steps i) [0..<n]"
  by (simp add: branch_results_def branch_result_def fun_eq_iff mult.commute)

lemma length_branch_lists [simp]:
  "length (branch_thresholds steps i n) = n" "length (branch_results steps i n) = n"
  by (simp_all add: branch_thresholds_def branch_results_def)

lemma map_pair_zip: "map (\<lambda>k. (k, f k)) ks = zip (map (\<lambda>k. k) ks) (map f ks)"
  by (induction ks) auto

lemma scan_branches:
  assumes "\<And>k. k < n \<Longrightarrow> branch_test env steps i var k = Q (st_arg1 (steps ! (i + 5 * k + 1)))"
  shows "case_linear (branch_test env steps i var) (map (\<lambda>k. (k, branch_result steps i k)) [0..<n]) d
    = case_linear Q (zip (branch_thresholds steps i n) (branch_results steps i n)) d"
proof -
  have "case_linear Q (zip (branch_thresholds steps i n) (branch_results steps i n)) d
      = case_linear (\<lambda>k. Q (st_arg1 (steps ! (i + 5 * k + 1)))) (zip [0..<n] (branch_results steps i n)) d"
    by (simp only: branch_thresholds_eq case_linear_map)
  also have "\<dots> = case_linear (branch_test env steps i var) (zip [0..<n] (branch_results steps i n)) d"
    using assms by (intro case_linear_cong) simp
  finally show ?thesis by (simp add: map_pair_zip branch_results_eq)
qed

lemma null_scan:
  "snd var \<Longrightarrow> case_linear (branch_test env steps i var) ps d = d"
  by (induction "branch_test env steps i var" ps d rule: case_linear.induct) (simp_all add: branch_test_def)

lemma run_pattern:
  assumes sh: "case_shape steps i n fn done" and el: "else_ok steps (i + 5 * n) done" and n: "4 \<le> n"
    and var: "var = loaded vars (steps ! i)"
  shows "case_run env steps vars \<lparr>cs_pc = i, cs_arg = a, cs_res = r\<rparr>
    \<lparr>cs_pc = done, cs_arg = var,
     cs_res = (case_linear (branch_test env steps i var)
                 (map (\<lambda>k. (k, branch_result steps i k)) [0..<n]) (st_const (steps ! (i + 5 * n))), False)\<rparr>"
proof -
  have "case_run env steps vars \<lparr>cs_pc = i, cs_arg = a, cs_res = r\<rparr> \<lparr>cs_pc = i + 1, cs_arg = var, cs_res = r\<rparr>"
    using run_load [of i steps env vars a r] case_shapeD(1,2) [OF sh, of 0] n var by simp
  also have "case_run env steps vars \<lparr>cs_pc = i + 1, cs_arg = var, cs_res = r\<rparr> \<lparr>cs_pc = done, cs_arg = var,
     cs_res = (case_linear (branch_test env steps i var)
                 (map (\<lambda>k. (k, branch_result steps i k)) [0..<n]) (st_const (steps ! (i + 5 * n))), False)\<rparr>"
    using run_branches [OF sh el _ var, of 0 env r] n by simp
  finally show ?thesis .
qed

lemma case_at_refines:
  assumes "detect_case_at env steps i = Emit info i'" "ci_type info \<noteq> CASE_BS_GENERIC"
    and "qsort_ok (ce_qsort env)" "documented_cmp (ce_pg env)" "var = loaded vars (steps ! i)"
  shows "\<exists>res. jit_case_bsearch (ce_pg env) info var = Some res \<and>
    case_run (ce_pg env) steps vars \<lparr>cs_pc = i, cs_arg = a, cs_res = r\<rparr>
      \<lparr>cs_pc = else_end_opno info, cs_arg = var, cs_res = res\<rparr>"
proof -
  obtain c n fn where D: "fn = st_fn_addr (steps ! (i + 1))" "classify_cmp_fn fn = Some c"
    "case_shape steps i n fn (else_end_opno info)" "else_ok steps (i + 5 * n) (else_end_opno info)" "4 \<le> n"
    "cc_eq c \<or> monotonic (ce_pg env) (cc_type c) (cc_less c) fn (st_collation (steps ! (i + 1)))
       (branch_thresholds steps i n)"
    "build_desc env c fn (st_collation (steps ! (i + 1))) (st_const (steps ! (i + 5 * n)))
       (branch_thresholds steps i n) (branch_results steps i n) = Some (ci_desc info)"
    "info = mk_info steps i (i + 5 * n) n (else_end_opno info) c (ci_desc info)"
    using assms(1) by (rule detect_case_at_Emit)
  have sel: "ci_type info = cc_type c" "ci_eq info = cc_eq c" "ci_less info = cc_less c"
    "ci_incl info = cc_incl c" "default_result info = st_const (steps ! (i + 5 * n))"
    "default_is_null info = False"
    using D(4) by (subst D(8), simp add: mk_info_def else_ok_def)+
  have g: "cc_type c \<noteq> CASE_BS_GENERIC" using assms(2) sel by simp
  have ord: "cc_eq c \<or> sorted_wrt (key_ord (cc_eq c) (cc_less c)) (map (bs_key (cc_type c)) (branch_thresholds steps i n))"
    using D(6) monotonic_sorted [OF g] by (cases "cc_eq c") auto
  note spec = build_desc_spec [OF D(7) g _ assms(3) ord, simplified, of "cc_incl c"]
  let ?Q = "\<lambda>x. key_op (cc_eq c) (cc_less c) (cc_incl c) (bs_key (cc_type c) (fst var)) (bs_key (cc_type c) x)"
  let ?scan = "case_linear (branch_test (ce_pg env) steps i var)
     (map (\<lambda>k. (k, branch_result steps i k)) [0..<n]) (st_const (steps ! (i + 5 * n)))"
  have "jit_case_bsearch (ce_pg env) info var = Some (?scan, False)"
  proof (cases "snd var")
    case True
    then show ?thesis by (simp add: jit_case_bsearch_def sel null_scan)
  next
    case False
    have "branch_test (ce_pg env) steps i var k = ?Q (st_arg1 (steps ! (i + 5 * k + 1)))" if "k < n" for k
      using case_shapeD(7) [OF D(3) that] assms(4) D(2) g False
      by (simp add: branch_test_def documented_cmp_def)
    from scan_branches [OF this]
    have "?scan = case_linear ?Q (zip (branch_thresholds steps i n) (branch_results steps i n))
        (st_const (steps ! (i + 5 * n)))" by simp
    also have "call_helper (pg_jitter_select_bsearch_helper (ce_pg env) (cc_type c) (cc_eq c) (cc_less c) (cc_incl c))
        (fst var) (ci_desc info) = Some \<dots>"
      using select_helper_scan [OF g, of "ci_desc info"] spec
      by (simp add: desc_spec_def case_linear_map)
    finally show ?thesis using False by (simp add: jit_case_bsearch_def sel)
  qed
  with run_pattern [OF D(3-5) assms(5)] show ?thesis by blast
qed

lemma detect_pass1_at:
  "detect_pass1 f env steps mx i out = Some res \<Longrightarrow> info \<in> set res \<Longrightarrow>
     info \<in> set out \<or> (\<exists>i'. detect_case_at env steps (start_opno info) = Emit info i')"
proof (induction f env steps mx i out rule: detect_pass1.induct)
  case (2 f env steps mx i out)
  show ?case
  proof (cases "detect_case_at env steps i")
    case Stop
    with "2.prems" show ?thesis by (auto split: if_splits)
  next
    case (Skip k)
    with 2 show ?thesis by (auto split: if_splits)
  next
    case (Emit info' k)
    then have "start_opno info' = i"
      by (elim detect_case_at_Emit) (metis CaseBSearchInfo.select_convs(1) mk_info_def)
    with 2 Emit show ?thesis by (auto split: if_splits)
  qed
qed simp

text \<open>
  C5 (refinement): for every CASE over a non-generic type (integers, date, oid, timestamp, float, bool) that the first
  pass detects, the expression steps run from its first step to the end of the CASE with exactly the value and
  null flag that the generated code computes by binary search from the variable that its
  first step loads, for every value of the columns, NULL included. The hypotheses are the documented behaviour of \<open>qsort\<close> and of
  PostgreSQL's comparison functions. For generic types, text among them, the property fails when the branches have
  different collations (lemma \<open>collation_not_checked\<close> of theory CaseRange).
\<close>

theorem case_detection_refines:
  assumes "detect_pass1 fuel env steps max_patterns 0 [] = Some out" "info \<in> set out"
    and "ci_type info \<noteq> CASE_BS_GENERIC" "qsort_ok (ce_qsort env)" "documented_cmp (ce_pg env)"
    and "var = loaded vars (steps ! start_opno info)"
  shows "\<exists>res. jit_case_bsearch (ce_pg env) info var = Some res \<and>
    case_run (ce_pg env) steps vars \<lparr>cs_pc = start_opno info, cs_arg = a, cs_res = r\<rparr>
      \<lparr>cs_pc = else_end_opno info, cs_arg = var, cs_res = res\<rparr>"
proof -
  obtain i' where "detect_case_at env steps (start_opno info) = Emit info i'"
    using detect_pass1_at [OF assms(1,2)] by auto
  then show ?thesis by (rule case_at_refines [OF _ assms(3-6)])
qed

text \<open>An environment: insertion sort, the documented comparisons, the table of direct calls.\<close>

fun insert_by :: "('a \<Rightarrow> 'a \<Rightarrow> int) \<Rightarrow> 'a \<Rightarrow> 'a list \<Rightarrow> 'a list" where
  "insert_by cmp x [] = [x]"
| "insert_by cmp x (y # ys) = (if cmp x y \<le> 0 then x # y # ys else y # insert_by cmp x ys)"

definition sort_by :: "('a \<Rightarrow> 'a \<Rightarrow> int) \<Rightarrow> 'a list \<Rightarrow> 'a list" where
  "sort_by cmp xs = foldr (insert_by cmp) xs []"

lemma mset_insert_by [simp]: "mset (insert_by cmp x ys) = add_mset x (mset ys)"
  by (induction ys) auto

lemma set_insert_by [simp]: "set (insert_by cmp x ys) = insert x (set ys)"
  by (induction ys) auto

lemma sorted_insert_by:
  assumes "\<And>a b. cmp a b \<le> 0 \<or> cmp b a \<le> (0::int)" "\<And>a b c. cmp a b \<le> 0 \<Longrightarrow> cmp b c \<le> 0 \<Longrightarrow> cmp a c \<le> 0"
    and "sorted_wrt (\<lambda>a b. cmp a b \<le> 0) ys"
  shows "sorted_wrt (\<lambda>a b. cmp a b \<le> 0) (insert_by cmp x ys)"
  using assms(3)
proof (induction ys)
  case (Cons y ys)
  then show ?case using assms(1) [of x y] assms(2) by auto
qed simp

lemma qsort_ok_sort_by: "qsort_ok sort_by"
  unfolding qsort_ok_def
proof (intro allI impI, goal_cases)
  case (1 cmp ps)
  have "mset (sort_by cmp ps) = mset ps" by (induction ps) (simp_all add: sort_by_def)
  moreover have "sorted_wrt (\<lambda>a b. cmp a b \<le> 0) (sort_by cmp ps)"
  proof (induction ps)
    case (Cons a ps)
    then show ?case unfolding sort_by_def foldr.simps comp_def
      by (rule sorted_insert_by [rotated 2]) (use 1 in blast)+
  qed (simp add: sort_by_def)
  ultimately show ?case by simp
qed

definition example_pg_env :: pg_env where
  "example_pg_env = \<lparr>pg_call = (\<lambda>fn coll x y. case classify_cmp_fn fn of None \<Rightarrow> False
       | Some c \<Rightarrow> key_op (cc_eq c) (cc_less c) (cc_incl c) (bs_key (cc_type c) x) (bs_key (cc_type c) y)),
     text_bytes = (\<lambda>d. [ucast d]), coll_deterministic = (\<lambda>_. True), coll_is_c = (\<lambda>_. False)\<rparr>"

definition example_case_env :: case_env where
  "example_case_env = \<lparr>ce_pg = example_pg_env, ce_qsort = sort_by,
     ce_find = find_direct \<lparr>pg18 = True, have_simd = True\<rparr>\<rparr>"

lemma documented_example: "documented_cmp example_pg_env"
  by (simp add: documented_cmp_def example_pg_env_def)

definition base_step :: "ExprEvalOp \<Rightarrow> ExprEvalStep" where
  "base_step op = \<lparr>st_op = op, st_attnum = 0, st_fn_addr = [], st_collation = 0, st_arg1 = 0,
     st_arg1_isnull = False, st_const = 0, st_const_isnull = False, st_jumpdone = 0\<rparr>"

definition var_step :: "int \<Rightarrow> ExprEvalStep" where
  "var_step n = (base_step EEOP_SCAN_VAR) \<lparr>st_attnum := n\<rparr>"
definition fn_step :: "PGFunction \<Rightarrow> Oid \<Rightarrow> Datum \<Rightarrow> ExprEvalStep" where
  "fn_step f c d = (base_step EEOP_FUNCEXPR_STRICT) \<lparr>st_fn_addr := f, st_collation := c, st_arg1 := d\<rparr>"
definition jint_step :: "nat \<Rightarrow> ExprEvalStep" where
  "jint_step k = (base_step EEOP_JUMP_IF_NOT_TRUE) \<lparr>st_jumpdone := k\<rparr>"
definition jump_step :: "nat \<Rightarrow> ExprEvalStep" where
  "jump_step k = (base_step EEOP_JUMP) \<lparr>st_jumpdone := k\<rparr>"
definition const_step :: "Datum \<Rightarrow> ExprEvalStep" where
  "const_step d = (base_step EEOP_CONST) \<lparr>st_const := d\<rparr>"

lemmas step_defs = base_step_def var_step_def fn_step_def jint_step_def jump_step_def const_step_def

text \<open>The steps of \<open>CASE WHEN x f t1 THEN r1 ... ELSE d END\<close>, from position \<open>i\<close>.\<close>

definition case_branch :: "PGFunction \<Rightarrow> nat \<Rightarrow> nat \<Rightarrow> Datum \<times> Oid \<times> Datum \<Rightarrow> ExprEvalStep list" where
  "case_branch f done i b =
     [var_step 1, fn_step f (fst (snd b)) (fst b), jint_step (i + 5), const_step (snd (snd b)), jump_step done]"

fun case_branches :: "PGFunction \<Rightarrow> nat \<Rightarrow> nat \<Rightarrow> (Datum \<times> Oid \<times> Datum) list \<Rightarrow> ExprEvalStep list" where
  "case_branches f done i [] = []"
| "case_branches f done i (b # bs) = case_branch f done i b @ case_branches f done (i + 5) bs"

definition example_steps :: "ExprEvalStep list" where
  "example_steps = case_branches ''int4eq'' 21 0 [(30, 0, 300), (10, 0, 100), (20, 0, 200), (5, 0, 50)]
     @ [const_step 7]"

lemma find_int4eq: "find_direct cfg ''int4eq'' = Some (EI2 ''int4eq'' ''jit_int4eq'' T32 T32 T32 JIT_INLINE_INT4_EQ)"
  by (simp add: find_direct_def jit_direct_fns_def jit_direct_fns_1_def entry_defs)

lemma classify_int4eq: "classify_cmp_fn ''int4eq'' = Some \<lparr>cc_eq = True, cc_less = False, cc_incl = False, cc_type = CASE_BS_I32\<rparr>"
  by (simp add: classify_cmp_fn_def build_cmp_class_table_def add_cmp_group_def)

lemmas detect_defs =
  detect_case_at_def detect_branches_def pattern_start_def branch_structure_def branch_matches_def
  same_var_def is_var_opcode_def is_funcexpr_strict_def count_branches.simps jints_ok_def else_ok_def
  CASE_BSEARCH_MIN_BRANCHES_def branch_thresholds_def branch_results_def mk_info_def build_desc_def
  build_desc32_def build_desc64_def build_desc_generic_def store32_def store64_def sort_pairs_def
  has_duplicate_def mk_desc_def

lemmas threshold_cmp_defs =
  cmp_threshold_result_i32_def cmp_threshold_result_i64_def cmp_threshold_result_u32_def
  cmp_threshold_result_generic_def cmp_threshold_result_text_memcmp_def cmp3_def

lemma example_detected:
  "\<exists>info. detect_case_at example_case_env example_steps 0 = Emit info 21 \<and> ci_type info = CASE_BS_I32"
  by (simp add: example_steps_def case_branch_def step_defs Let_def
     find_int4eq example_case_env_def classify_int4eq entry_defs detect_defs threshold_cmp_defs upt_conv_Cons
     bs_type_to_var_type_def sort_by_def DatumGetInt32_def Int32GetDatum_def)

lemma example_pass1:
  "\<exists>info. detect_pass1 2 example_case_env example_steps 16 0 [] = Some [info] \<and> ci_type info = CASE_BS_I32"
proof -
  have "length example_steps = 21" by (simp add: example_steps_def case_branch_def)
  then show ?thesis using example_detected by (auto simp: numeral_2_eq_2)
qed

theorem case_detection_refines_witness:
  "\<exists>info res. detect_pass1 2 example_case_env example_steps 16 0 [] = Some [info]
    \<and> jit_case_bsearch example_pg_env info (20, False) = Some res
    \<and> case_run example_pg_env example_steps (\<lambda>_ _. (20, False))
        \<lparr>cs_pc = start_opno info, cs_arg = (0, True), cs_res = (0, True)\<rparr>
        \<lparr>cs_pc = else_end_opno info, cs_arg = (20, False), cs_res = res\<rparr>"
proof -
  obtain info where "detect_pass1 2 example_case_env example_steps 16 0 [] = Some [info]"
      "ci_type info = CASE_BS_I32"
    using example_pass1 by blast
  then show ?thesis
    using case_detection_refines [where env = example_case_env and steps = example_steps and info = info
        and vars = "\<lambda>_ _. (20, False)" and var = "(20, False)" and a = "(0, True)" and r = "(0, True)"]
      qsort_ok_sort_by documented_example
    by (fastforce simp: example_case_env_def loaded_def)
qed

end
