(* ===== verification/CaseRange.thy ===== *)
theory CaseRange
  imports CaseCorrect
begin

text \<open>
  The whole detection: it ends on programs whose jumps go forward and never writes more
  patterns than the caller's array holds; which of the classified comparison functions it
  can reach at all; what the code for a pattern of its second pass computes; the gaps of that pass and of
  the first one, which does not compare collations.
\<close>

section \<open>Termination and the bound of the pattern array\<close>

definition forward_jumps :: "ExprEvalStep list \<Rightarrow> bool" where
  "forward_jumps steps \<longleftrightarrow> (\<forall>k < length steps. st_op (steps ! k) = EEOP_JUMP \<longrightarrow> k < st_jumpdone (steps ! k))"

lemma count_branches_ge: "count_branches steps ok b j = (n, j') \<Longrightarrow> j \<le> j'"
  using count_branches_spec by fastforce

lemma detect_case_at_progress:
  assumes "forward_jumps steps"
  shows "detect_case_at env steps i = Skip i' \<Longrightarrow> i < i'"
    and "detect_case_at env steps i = Emit info i' \<Longrightarrow> i < i'"
proof -
  obtain n j where nj: "count_branches steps (branch_matches steps i (is_var_opcode (st_op (steps ! i)))
      (st_fn_addr (steps ! (i + 1))) (st_jumpdone (steps ! (i + 4)))) 1 (i + 5) = (n, j)"
    by fastforce
  have j: "i + 5 \<le> j" using count_branches_ge [OF nj] .
  show "i < i'" if "detect_case_at env steps i = Skip i'"
  proof (cases "pattern_start env steps i")
    case None
    with that show ?thesis by (auto simp: detect_case_at_def Let_def split: if_splits)
  next
    case (Some c)
    have "i < k" if "detect_branches env steps i c (n, j) = Skip k" for k
      using that j by (auto simp: detect_branches_def Let_def split: if_splits option.splits)
    with that Some nj show ?thesis by (auto simp: detect_case_at_def Let_def split: if_splits)
  qed
  show "i < i'" if "detect_case_at env steps i = Emit info i'"
    using that
  proof (elim detect_case_at_Emit)
    fix c n fn
    assume "case_shape steps i n fn (else_end_opno info)" "4 \<le> (n::nat)" "i' = else_end_opno info"
    then show ?thesis
      using case_shapeD(1,6,10) [of steps i n fn "else_end_opno info" 0] assms
      by (auto simp: forward_jumps_def)
  qed
qed

lemma detect_pass1_returns:
  assumes "forward_jumps steps"
  shows "length steps - i < fuel \<Longrightarrow> \<exists>res. detect_pass1 fuel env steps mx i out = Some res"
proof (induction fuel arbitrary: i out)
  case (Suc fuel)
  note progress = detect_case_at_progress [OF assms, of env i]
  show ?case
  proof (cases "i + 5 < length steps \<and> length out < mx")
    case True
    then show ?thesis
      using Suc progress by (cases "detect_case_at env steps i") (auto intro!: Suc.IH)
  qed auto
qed simp

lemma range_branches_ge:
  assumes "\<And>j b. branch j = Some b \<Longrightarrow> j \<le> b"
  shows "range_branches steps branch ts j = (ts', j') \<Longrightarrow> j \<le> j'"
  using assms
proof (induction steps branch ts j rule: range_branches.induct)
  case (1 steps branch ts j)
  show ?case
  proof (cases "j + RANGE_WHEN_LEN < length steps \<and> length ts < MAX_RANGE_BRANCHES")
    case False
    with "1.prems"(1) show ?thesis by (subst (asm) range_branches.simps) auto
  next
    case True
    show ?thesis
    proof (cases "branch j")
      case None
      with "1.prems"(1) True show ?thesis by (subst (asm) range_branches.simps) auto
    next
      case (Some b)
      then have "range_branches steps branch (ts @ [j + RANGE_WHEN_LEN]) (b + 1) = (ts', j')"
        using "1.prems"(1) True by (subst (asm) range_branches.simps) auto
      from "1.IH" [OF True Some this "1.prems"(2)] "1.prems"(2) [OF Some] show ?thesis by simp
    qed
  qed
qed

lemma range_branch_ge: "range_branch steps i ge lt e j = Some b \<Longrightarrow> j \<le> b"
  by (auto simp: range_branch_def split: if_splits dest!: find_jump_bounds)

lemma range_branches_nonempty:
  "range_branches steps branch ts j = (ts', j') \<Longrightarrow> ts \<noteq> [] \<Longrightarrow> ts' \<noteq> [] \<and> hd ts' = hd ts"
proof (induction steps branch ts j rule: range_branches.induct)
  case (1 steps branch ts j)
  then show ?case
    by (subst (asm) range_branches.simps) (auto split: if_splits option.splits)
qed

lemma range_parse_Some:
  assumes "range_parse steps i = Some (t, u, e, ts, j)"
  shows "range_start steps i = Some (t, u)" "ts \<noteq> []" "hd ts = i + RANGE_WHEN_LEN" "i < j"
    "forward_jumps steps \<Longrightarrow> i < e"
proof -
  from assms obtain jp where jp: "find_jump steps (\<lambda>_. True) (i + RANGE_WHEN_LEN) = Some jp"
      "e = st_jumpdone (steps ! jp)" and st: "range_start steps i = Some (t, u)"
      and rb: "range_branches steps (range_branch steps i (st_fn_addr (steps ! (i + 1)))
             (st_fn_addr (steps ! (i + 4))) e) [i + RANGE_WHEN_LEN] (jp + 1) = (ts, j)"
    by (auto simp: range_parse_def Let_def split: if_splits option.splits prod.splits)
  show "range_start steps i = Some (t, u)" by fact
  show "ts \<noteq> []" "hd ts = i + RANGE_WHEN_LEN" using range_branches_nonempty [OF rb] by simp_all
  have "i < jp" using find_jump_bounds [OF jp(1)] by (simp add: RANGE_WHEN_LEN_def)
  moreover have "jp + 1 \<le> j" using rb by (rule range_branches_ge [rotated]) (rule range_branch_ge)
  ultimately show "i < j" by simp
  have "st_op (steps ! jp) = EEOP_JUMP"
    using jp(1) unfolding find_jump_def by (drule_tac find_Some_in) simp
  with \<open>i < jp\<close> show "i < e" if "forward_jumps steps"
    using that find_jump_bounds [OF jp(1)] jp(2) by (auto simp: forward_jumps_def)
qed

lemma range_build_next:
  "range_build steps i t u e ts j = Skip k \<or> range_build steps i t u e ts j = Emit info k \<Longrightarrow> k = j \<or> k = e"
  by (auto simp: range_build_def split: if_splits)

lemma detect_range_at_progress:
  assumes "forward_jumps steps"
  shows "detect_range_at steps i = Skip i' \<or> detect_range_at steps i = Emit info i' \<Longrightarrow> i < i'"
proof (cases "range_parse steps i")
  case None
  then show "detect_range_at steps i = Skip i' \<or> detect_range_at steps i = Emit info i' \<Longrightarrow> i < i'"
    by (auto simp: detect_range_at_def split: if_splits)
next
  case (Some p)
  obtain t u e ts j where "p = (t, u, e, ts, j)" by (cases p) auto
  with Some have p: "range_parse steps i = Some (t, u, e, ts, j)" by simp
  show "detect_range_at steps i = Skip i' \<or> detect_range_at steps i = Emit info i' \<Longrightarrow> i < i'"
    using range_build_next [of steps i t u e ts j i' info] range_parse_Some(4) [OF p]
      range_parse_Some(5) [OF p assms] p
    by (auto simp: detect_range_at_def split: if_splits)
qed

lemma detect_pass2_returns:
  assumes "forward_jumps steps"
  shows "length steps - i < fuel \<Longrightarrow> \<exists>res. detect_pass2 fuel steps mx i out = Some res"
proof (induction fuel arbitrary: i out)
  case (Suc fuel)
  note progress = detect_range_at_progress [OF assms, of i]
  show ?case
  proof (cases "i + RANGE_WHEN_LEN < length steps \<and> length out < mx")
    case True
    then have "i < length steps" by simp
    then show ?thesis
      using Suc progress True by (cases "detect_range_at steps i") (fastforce intro!: Suc.IH)+
  qed auto
qed simp

lemma detect_pass1_length:
  "detect_pass1 fuel env steps mx i out = Some res \<Longrightarrow> length out \<le> mx \<Longrightarrow> length res \<le> mx"
  by (induction fuel env steps mx i out rule: detect_pass1.induct) (auto split: if_splits scan.splits)

lemma detect_pass2_length:
  "detect_pass2 fuel steps mx i out = Some res \<Longrightarrow> length out \<le> mx \<Longrightarrow> length res \<le> mx"
  by (induction fuel steps mx i out rule: detect_pass2.induct) (auto split: if_splits scan.splits)

text \<open>
  C29 (termination): on expression programs whose JUMP steps go forward, the detection ends
  (one round per step suffices for each pass) and writes at most \<open>max_patterns\<close> patterns
  into the caller's array.
\<close>

theorem detection_terminates:
  assumes "forward_jumps steps"
  shows "\<exists>out. pg_jitter_detect_case_bsearch (length steps + 1) env steps max_patterns = Some out
    \<and> length out \<le> max_patterns"
proof -
  obtain out1 where out1: "detect_pass1 (length steps + 1) env steps max_patterns 0 [] = Some out1"
    using detect_pass1_returns [OF assms, where i = 0 and out = "[]"] by (metis diff_zero less_add_one)
  obtain out2 where out2: "detect_pass2 (length steps + 1) steps max_patterns 0 out1 = Some out2"
    using detect_pass2_returns [OF assms, where i = 0 and out = out1] by (metis diff_zero less_add_one)
  have "length out2 \<le> max_patterns"
    using detect_pass1_length [OF out1] detect_pass2_length [OF out2] by simp
  with out1 out2 show ?thesis by (simp add: pg_jitter_detect_case_bsearch_def)
qed

theorem detection_terminates_witness:
  "\<exists>out. pg_jitter_detect_case_bsearch (length example_steps + 1) example_case_env example_steps 16 = Some out
    \<and> length out \<le> 16"
proof (rule detection_terminates)
  have "list_all (\<lambda>k. st_op (example_steps ! k) = EEOP_JUMP \<longrightarrow> k < st_jumpdone (example_steps ! k))
      [0..<length example_steps]"
    by (simp add: example_steps_def case_branch_def step_defs upt_conv_Cons)
  then show "forward_jumps example_steps" by (simp add: forward_jumps_def list_all_iff)
qed

section \<open>Comparison functions the detection cannot reach\<close>

definition unreachable_cmp_fns :: "PGFunction list" where
  "unreachable_cmp_fns =
     [''uuid_le'', ''uuid_gt'', ''uuid_ge'',
      ''bpchareq'', ''bpcharlt'', ''bpcharle'', ''bpchargt'', ''bpcharge'',
      ''byteaeq'', ''bytealt'', ''byteale'', ''byteagt'', ''byteage'',
      ''jsonb_eq'', ''jsonb_lt'', ''jsonb_le'', ''jsonb_gt'', ''jsonb_ge'',
      ''network_eq'', ''network_lt'', ''network_le'', ''network_gt'', ''network_ge'',
      ''array_eq'', ''array_lt'', ''array_le'', ''array_gt'', ''array_ge'']"

lemma unreachable_1: "list_all (\<lambda>e. pg_fn e \<notin> set unreachable_cmp_fns) (jit_direct_fns_1 cfg)"
  by (simp add: unreachable_cmp_fns_def jit_direct_fns_1_def pg_fn_entries)

lemma unreachable_2: "list_all (\<lambda>e. pg_fn e \<notin> set unreachable_cmp_fns) (jit_direct_fns_2 cfg)"
  by (simp add: unreachable_cmp_fns_def jit_direct_fns_2_def pg_fn_entries)

lemma unreachable_3: "list_all (\<lambda>e. pg_fn e \<notin> set unreachable_cmp_fns) (jit_direct_fns_3 cfg)"
  by (simp add: unreachable_cmp_fns_def jit_direct_fns_3_def pg_fn_entries)

lemma unreachable_4: "list_all (\<lambda>e. pg_fn e \<notin> set unreachable_cmp_fns) (jit_direct_fns_4 cfg)"
  by (simp add: unreachable_cmp_fns_def jit_direct_fns_4_def pg_fn_entries)

lemma unreachable_not_found: "f \<in> set unreachable_cmp_fns \<Longrightarrow> find_direct cfg f = None"
  using unreachable_1 unreachable_2 unreachable_3 unreachable_4
  by (auto simp: find_direct_None jit_direct_fns_def list_all_iff)

text \<open>
  with the table of direct calls, the first pass never detects a CASE over
  bpchar, bytea, jsonb, network or array comparisons, nor over the non-strict and greater
  comparisons of uuid, although all of them are classified: these functions have no row.
\<close>

theorem unreachable_types_not_detected:
  assumes "detect_case_at env steps i = Emit info i'" "ce_find env = find_direct cfg"
  shows "ci_cmp_fn info \<notin> set unreachable_cmp_fns"
proof -
  have "ce_find env (st_fn_addr (steps ! (i + 1))) \<noteq> None"
    using assms(1) by (auto simp: detect_case_at_def pattern_start_def Let_def split: if_splits option.splits)
  moreover have "ci_cmp_fn info = st_fn_addr (steps ! (i + 1))"
    using assms(1) by (elim detect_case_at_Emit) (metis CaseBSearchInfo.select_convs(10) mk_info_def)
  ultimately show ?thesis using unreachable_not_found assms(2) by metis
qed

theorem unreachable_types_not_detected_witness:
  "\<exists>info. detect_case_at example_case_env example_steps 0 = Emit info 21
    \<and> ci_cmp_fn info \<notin> set unreachable_cmp_fns"
  using example_detected unreachable_types_not_detected [of example_case_env example_steps 0]
  by (fastforce simp: example_case_env_def)

section \<open>Collations of a searched CASE over text\<close>

text \<open>
  The first pass takes the collation from the first branch only and does not compare the
  collations of the other branches. Two collations with opposite orders make a program that
  is detected although its branches are compared differently.
\<close>

definition two_collations_pg :: pg_env where
  "two_collations_pg = \<lparr>pg_call = (\<lambda>fn coll x y. if coll = 1 then sint x < sint y else sint y < sint x),
     text_bytes = (\<lambda>d. [ucast d]), coll_deterministic = (\<lambda>_. True), coll_is_c = (\<lambda>_. False)\<rparr>"

definition two_collations_env :: case_env where
  "two_collations_env = \<lparr>ce_pg = two_collations_pg, ce_qsort = sort_by,
     ce_find = (\<lambda>f. Some (EC2 f f T32 T64 T64))\<rparr>"

definition two_collations_steps :: "ExprEvalStep list" where
  "two_collations_steps =
     case_branches ''text_lt'' 21 0 [(10, 1, 100), (20, 2, 200), (30, 1, 300), (40, 1, 400)] @ [const_step 7]"

lemma classify_text_lt:
  "classify_cmp_fn ''text_lt'' = Some \<lparr>cc_eq = False, cc_less = True, cc_incl = False, cc_type = CASE_BS_GENERIC\<rparr>"
  by (simp add: classify_cmp_fn_def build_cmp_class_table_def add_cmp_group_def)

lemma two_collations_detected:
  "\<exists>info. detect_case_at two_collations_env two_collations_steps 0 = Emit info 21
    \<and> jit_case_bsearch two_collations_pg info (25, False) = Some (300, False) \<and> num_branches info = 4"
  by (simp add: two_collations_steps_def case_branch_def step_defs Let_def
     two_collations_env_def two_collations_pg_def classify_text_lt entry_defs detect_defs mono_cmp_def
     upt_conv_Cons jit_case_bsearch_def pg_jitter_select_bsearch_helper_def select_op_idx_def
     pg_jitter_case_bsearch_lt_generic_def bsearch_body_generic_def bs_first.simps bs_pick_def)

text \<open>
  a code bug. A CASE over text whose branches use different collations is
  detected; the steps end with 200 for the variable 25 and can end with nothing else, and
  the generated code returns 300.
\<close>

theorem collation_not_checked:
  "\<exists>info. detect_case_at two_collations_env two_collations_steps 0 = Emit info 21
    \<and> jit_case_bsearch two_collations_pg info (25, False) = Some (300, False)
    \<and> case_run two_collations_pg two_collations_steps (\<lambda>_ _. (25, False))
        \<lparr>cs_pc = 0, cs_arg = a, cs_res = r\<rparr> \<lparr>cs_pc = 21, cs_arg = (25, False), cs_res = (200, False)\<rparr>
    \<and> \<not> (\<exists>s. case_step two_collations_pg two_collations_steps (\<lambda>_ _. (25, False))
        \<lparr>cs_pc = 21, cs_arg = (25, False), cs_res = (200, False)\<rparr> s)"
proof -
  obtain info where info: "detect_case_at two_collations_env two_collations_steps 0 = Emit info 21"
      "jit_case_bsearch two_collations_pg info (25, False) = Some (300, False)" "num_branches info = 4"
    using two_collations_detected by blast
  obtain fn n where sh: "case_shape two_collations_steps 0 n fn 21" "else_ok two_collations_steps (0 + 5 * n) 21" "n = 4"
    using info(1,3) by (elim detect_case_at_Emit) (metis CaseBSearchInfo.select_convs(4) mk_info_def)
  have scan: "case_linear (branch_test two_collations_pg two_collations_steps 0 (25, False))
      (map (\<lambda>k. (k, branch_result two_collations_steps 0 k)) [0..<4]) (st_const (two_collations_steps ! (0 + 5 * 4))) = 200"
    by (simp add: upt_conv_Cons branch_test_def branch_result_def two_collations_steps_def case_branch_def
        step_defs two_collations_pg_def)
  have "case_run two_collations_pg two_collations_steps (\<lambda>_ _. (25, False)) \<lparr>cs_pc = 0, cs_arg = a, cs_res = r\<rparr>
      \<lparr>cs_pc = 21, cs_arg = (25, False), cs_res = (200, False)\<rparr>"
    using run_pattern [OF sh(1,2), where env = two_collations_pg and vars = "\<lambda>_ _. (25, False)" and var = "(25, False)" and a = a and r = r]
      scan sh(3) by (simp add: loaded_def)
  moreover have "length two_collations_steps = 21"
    by (simp add: two_collations_steps_def case_branch_def)
  ultimately show ?thesis
    using info by (auto elim!: case_stepE)
qed

section \<open>Range CASE\<close>

text \<open>Bounds of the branches as half-open intervals of keys, as written in the program.\<close>

definition range_bounds :: "ExprEvalStep list \<Rightarrow> CaseBSearchType \<Rightarrow> bool \<Rightarrow> nat list \<Rightarrow> (int \<times> int) list" where
  "range_bounds steps t upper_inclusive then_steps =
     map (\<lambda>a. (bs_key t (range_lower steps a),
              bs_key t (range_upper steps a) + (if upper_inclusive then 1 else 0))) then_steps"

lemma contiguous_bounds:
  assumes "contiguous steps t u ts" "ts \<noteq> []"
  shows "range_bounds steps t u ts
    = contiguous_ranges (bs_key t (range_lower steps (hd ts))) (map snd (range_bounds steps t u ts))"
  using assms
proof (induction steps t u ts rule: contiguous.induct)
  case (1 steps t u a b ts)
  then show ?case by (auto simp: range_bounds_def contiguous_ranges_def)
qed (simp_all add: range_bounds_def contiguous_ranges_def)

text \<open>The thresholds of the descriptor are the upper bounds of the intervals.\<close>

lemma range_desc_keys:
  assumes "t \<in> {CASE_BS_I32, CASE_BS_I64, CASE_BS_I16}"
    and "\<And>a. a \<in> set ups \<Longrightarrow> u \<Longrightarrow> case_range_upper_sentinel_representable t a"
  shows "ptr_keys t (range_desc t u m d ups rs) = map (\<lambda>a. bs_key t a + (if u then 1 else 0)) ups"
proof -
  have 32: "sint (store32 t a + 1) = bs_key t a + 1" if "t = CASE_BS_I32 \<or> t = CASE_BS_I16" "a \<in> set ups" u for a
  proof -
    have "sint (store32 t a) = bs_key t a"
      using that(1) by (auto simp: store32_def bs_key_def i16_def)
    moreover have "bs_key t a < 2 ^ 31 - 1"
    proof (cases "t = CASE_BS_I32")
      case True
      with assms(2) [OF that(2,3)] show ?thesis
        by (simp add: case_range_upper_sentinel_representable_def bs_key_def)
    next
      case False
      with that(1) show ?thesis
        using sfits_16 [of "scast (DatumGetInt32 a) :: int16"] by (simp add: bs_key_def i16_def sfits_def)
    qed
    moreover have "- (2 ^ 31) \<le> sint (store32 t a)" using sfits_32 [of "store32 t a"] by (simp add: sfits_def)
    ultimately show ?thesis
      using sint_add_sfits [of "store32 t a" 1] by (simp add: sfits_def)
  qed
  have 64: "sint (DatumGetInt64 a + 1) = bs_key t a + 1" if "t = CASE_BS_I64" "a \<in> set ups" u for a
    using assms(2) [OF that(2,3)] that(1) sint_add_sfits [of "DatumGetInt64 a" 1] sfits_64 [of "DatumGetInt64 a"]
    by (simp add: sfits_def bs_key_def case_range_upper_sentinel_representable_def)
  show ?thesis
    using assms(1) 32 64
    by (cases u) (auto simp: range_desc_def Let_def stored_key32_def bs_key_def DatumGetInt64_def store32_def i16_def)
qed

text \<open>
  The generated code for a detected pattern, in terms of the branches that the detection has parsed: with upper bounds that
  increase and a first interval that is not inverted, the code returns the constant at the start of the THEN part of
  the first branch whose bounds contain the value, else the constant at the start of the ELSE part.
\<close>

lemma range_code_scans:
  assumes "detect_range_at steps i = Emit info i'" "range_parse steps i = Some (t, u, e, ts, j)"
    and "sorted_wrt (<) (map snd (range_bounds steps t u ts))"
    and "fst (hd (range_bounds steps t u ts)) \<le> snd (hd (range_bounds steps t u ts))"
  shows "jit_case_bsearch env info var = Some
    (if snd var then st_const (steps ! j)
     else range_linear (bs_key t (fst var)) (range_bounds steps t u ts)
            (map (\<lambda>a. st_const (steps ! a)) ts) (st_const (steps ! j)), False)"
proof -
  let ?m = "range_lower steps (hd ts)" and ?ups = "map (range_upper steps) ts"
  let ?rs = "map (\<lambda>a. st_const (steps ! a)) ts" and ?d = "st_const (steps ! j)"
  let ?p = "range_desc t u ?m ?d ?ups ?rs"
  have "range_build steps i t u e ts j = Emit info i'"
    using assms(1,2) by (auto simp: detect_range_at_def split: if_splits)
  then have B: "4 \<le> length ts" "contiguous steps t u ts"
      "\<And>a. a \<in> set ?ups \<Longrightarrow> u \<Longrightarrow> case_range_upper_sentinel_representable t a"
      "\<not> st_const_isnull (steps ! j)"
      "info = mk_range_info steps i j (length ts) e t (st_fn_addr (steps ! (i + 4))) ?p"
    by (auto simp: range_build_def CASE_BSEARCH_MIN_BRANCHES_def list_all_iff split: if_splits)
  have ne: "ts \<noteq> []" using B(1) by auto
  obtain a b l where "ts = a # b # l" using B(1) by (cases ts; cases "tl ts") auto
  with B(2) have t: "t \<in> {CASE_BS_I32, CASE_BS_I64, CASE_BS_I16}" by simp
  have keys: "ptr_keys t ?p = map snd (range_bounds steps t u ts)"
    by (subst range_desc_keys [OF t]) (use B(3) in \<open>simp_all add: range_bounds_def comp_def\<close>)
  have p: "ptr_ok t ?p" "ptr_range_min ?p = Some ?m" "ptr_results ?p = ?rs" "ptr_default ?p = ?d"
    using t by (auto simp: range_desc_def Let_def desc_ok_def bs_type_to_var_type_def)
  have "fst (hd (range_bounds steps t u ts)) = bs_key t ?m" "hd (map snd (range_bounds steps t u ts)) = snd (hd (range_bounds steps t u ts))"
    using ne by (simp_all add: range_bounds_def hd_map)
  then have "call_helper (pg_jitter_select_bsearch_helper env t False True False) v ?p
      = Some (range_linear (bs_key t v) (contiguous_ranges (bs_key t ?m) (ptr_keys t ?p)) ?rs ?d)" for v
    using range_helper_scan [OF t p(1,2), of env v] assms(3,4) ne p keys by (simp add: range_bounds_def)
  then show ?thesis
    using contiguous_bounds [OF B(2) ne] keys B(4) by (simp add: B(5) jit_case_bsearch_def mk_range_info_def)
qed

text \<open>The steps of a range CASE over \<open>int4\<close>, from position \<open>i\<close>: eight plain steps per branch.\<close>

definition range_branch_steps :: "nat \<Rightarrow> nat \<Rightarrow> Datum \<times> Datum \<times> Datum \<Rightarrow> ExprEvalStep list" where
  "range_branch_steps done i b =
     [var_step 1, fn_step ''int4ge'' 0 (fst b), (base_step EEOP_BOOL_AND_STEP_FIRST) \<lparr>st_jumpdone := i + 6\<rparr>,
      var_step 1, fn_step ''int4lt'' 0 (fst (snd b)), (base_step EEOP_BOOL_AND_STEP_LAST) \<lparr>st_jumpdone := i + 6\<rparr>,
      jint_step (i + 9), const_step (snd (snd b)), jump_step done]"

fun range_program :: "nat \<Rightarrow> nat \<Rightarrow> (Datum \<times> Datum \<times> Datum) list \<Rightarrow> ExprEvalStep list" where
  "range_program done i [] = []"
| "range_program done i (b # bs) = range_branch_steps done i b @ range_program done (i + 9) bs"

definition good_ranges :: "ExprEvalStep list" where
  "good_ranges = range_program 37 0 [(10, 20, 100), (20, 30, 200), (30, 40, 300), (40, 50, 400)] @ [const_step 7]"

definition bad_ranges :: "ExprEvalStep list" where
  "bad_ranges = range_program 37 0 [(10, 20, 100), (20, 15, 200), (15, 30, 300), (30, 40, 400)] @ [const_step 7]"

lemma classify_int4_range:
  "classify_cmp_fn ''int4ge'' = Some \<lparr>cc_eq = False, cc_less = False, cc_incl = True, cc_type = CASE_BS_I32\<rparr>"
  "classify_cmp_fn ''int4lt'' = Some \<lparr>cc_eq = False, cc_less = True, cc_incl = False, cc_type = CASE_BS_I32\<rparr>"
  by (simp_all add: classify_cmp_fn_def build_cmp_class_table_def add_cmp_group_def)

lemmas range_defs =
  range_parse_def range_prefix_def is_var_opcode_def is_funcexpr_strict_def
  same_var_def range_start_def classify_int4_range find_jump_def range_branches.simps range_branch_def
  range_branch_steps_def step_defs RANGE_WHEN_LEN_def MAX_RANGE_BRANCHES_def

lemma good_ranges_parse:
  "range_parse good_ranges 0 = Some (CASE_BS_I32, False, 37, [7, 16, 25, 34], 36)"
  by (simp add: good_ranges_def range_defs Let_def upt_conv_Cons)

lemma bad_ranges_parse:
  "range_parse bad_ranges 0 = Some (CASE_BS_I32, False, 37, [7, 16, 25, 34], 36)"
  by (simp add: bad_ranges_def range_defs Let_def upt_conv_Cons)

lemmas range_build_defs =
  detect_range_at_def range_build_def CASE_BSEARCH_MIN_BRANCHES_def contiguous.simps
  range_upper_def range_lower_def RANGE_WHEN_LEN_def is_var_opcode_def bs_key_def DatumGetInt32_def
  range_branch_steps_def step_defs

lemma good_ranges_detected: "\<exists>info. detect_range_at good_ranges 0 = Emit info 37 \<and> ci_type info = CASE_BS_I32"
  by (simp add: good_ranges_parse range_build_defs) (simp add: good_ranges_def range_build_defs mk_range_info_def)

text \<open>
  a code bug. The second pass does not check that the upper bounds
  increase: for the branches 10 to 20, 20 to 15, 15 to 30, 30 to 40 the value 17 belongs to
  the first branch (100), and the generated code returns the result of the third (300).
\<close>

theorem range_order_not_checked:
  "\<exists>info. detect_range_at bad_ranges 0 = Emit info 37
    \<and> jit_case_bsearch env info (17, False) = Some (300, False)
    \<and> range_linear 17 (range_bounds bad_ranges CASE_BS_I32 False [7, 16, 25, 34])
        (map (\<lambda>a. st_const (bad_ranges ! a)) [7, 16, 25, 34]) (st_const (bad_ranges ! 36)) = 100"
proof -
  have "range_linear 17 (range_bounds bad_ranges CASE_BS_I32 False [7, 16, 25, 34])
        (map (\<lambda>a. st_const (bad_ranges ! a)) [7, 16, 25, 34]) (st_const (bad_ranges ! 36)) = 100"
    by (simp add: range_bounds_def bad_ranges_def range_build_defs range_linear_def)
  moreover have "\<exists>info. detect_range_at bad_ranges 0 = Emit info 37
      \<and> jit_case_bsearch env info (17, False) = Some (300, False)"
    by (simp add: bad_ranges_parse range_build_defs)
       (simp add: bad_ranges_def range_build_defs jit_case_bsearch_def mk_range_info_def range_desc_def
          pg_jitter_select_bsearch_helper_def select_op_idx_def helper_defs_32 bs_first.simps bs_pick_def
          store32_def)
  ultimately show ?thesis by blast
qed

end
