(* ===== verification/CaseRangeRun.thy ===== *)
theory CaseRangeRun
  imports CaseRange
begin

text \<open>
  Range CASE expressions, as the steps run: the step relation with the boolean steps of
  \<open>WHEN v >= lo AND v < hi\<close>, the correctness of the second pass of the detection against it, and what that pass
  leaves unchecked.
\<close>

section \<open>The meaning of the boolean steps\<close>

text \<open>The flag is \<open>*op->d.boolexpr.anynull\<close>, which the steps of one AND share.\<close>

type_synonym range_state = "case_state \<times> bool"

definition is_and_step :: "ExprEvalOp \<Rightarrow> bool" where
  "is_and_step op \<longleftrightarrow> op = EEOP_BOOL_AND_STEP_FIRST \<or> op = EEOP_BOOL_AND_STEP \<or> op = EEOP_BOOL_AND_STEP_LAST"

definition and_outcome :: "ExprEvalStep \<Rightarrow> nat \<Rightarrow> Datum \<times> bool \<Rightarrow> Datum \<times> bool \<Rightarrow> bool \<Rightarrow> range_state" where
  "and_outcome st pc a r anynull =
     (let anynull = (st_op st \<noteq> EEOP_BOOL_AND_STEP_FIRST \<and> anynull) in
      if \<not> snd r \<and> fst r = 0 then (\<lparr>cs_pc = st_jumpdone st, cs_arg = a, cs_res = r\<rparr>, anynull)
      else (let anynull = (anynull \<or> snd r) in
        (\<lparr>cs_pc = pc + 1, cs_arg = a, cs_res = (if st_op st = EEOP_BOOL_AND_STEP_LAST \<and> \<not> snd r \<and> anynull then (0, True) else r)\<rparr>, anynull)))"

inductive range_step :: "pg_env \<Rightarrow> ExprEvalStep list \<Rightarrow> case_vars \<Rightarrow> range_state \<Rightarrow> range_state \<Rightarrow> bool"
  for env :: pg_env and steps :: "ExprEvalStep list" and vars :: case_vars where
  plain: "case_step env steps vars s s' \<Longrightarrow> range_step env steps vars (s, anynull) (s', anynull)"
| and_step: "pc < length steps \<Longrightarrow> is_and_step (st_op (steps ! pc)) \<Longrightarrow>
    range_step env steps vars (\<lparr>cs_pc = pc, cs_arg = a, cs_res = r\<rparr>, anynull) (and_outcome (steps ! pc) pc a r anynull)"

abbreviation range_run :: "pg_env \<Rightarrow> ExprEvalStep list \<Rightarrow> case_vars \<Rightarrow> range_state \<Rightarrow> range_state \<Rightarrow> bool" where
  "range_run env steps vars \<equiv> (range_step env steps vars)\<^sup>*\<^sup>*"

section \<open>The steps of a range CASE\<close>

text \<open>
  A branch \<open>WHEN f v lo AND g w hi THEN x\<close> as PostgreSQL lays it out, for any comparisons, with a THEN part of one step: the jumps
  of the AND lead behind it, the jump of the WHEN to the next branch, the one behind THEN to the end.
\<close>

definition range_when :: "ExprEvalStep list \<Rightarrow> nat \<Rightarrow> nat \<Rightarrow> bool" where
  "range_when steps b done \<longleftrightarrow> b + 8 < length steps
     \<and> is_var_opcode (st_op (steps ! b)) \<and> is_funcexpr_strict (st_op (steps ! (b + 1)))
     \<and> st_op (steps ! (b + 2)) = EEOP_BOOL_AND_STEP_FIRST \<and> st_jumpdone (steps ! (b + 2)) = b + 6
     \<and> is_var_opcode (st_op (steps ! (b + 3))) \<and> is_funcexpr_strict (st_op (steps ! (b + 4)))
     \<and> st_op (steps ! (b + 5)) = EEOP_BOOL_AND_STEP_LAST \<and> st_jumpdone (steps ! (b + 5)) = b + 6
     \<and> st_op (steps ! (b + 6)) = EEOP_JUMP_IF_NOT_TRUE \<and> st_jumpdone (steps ! (b + 6)) = b + 9
     \<and> st_op (steps ! (b + 7)) \<noteq> EEOP_JUMP
     \<and> st_op (steps ! (b + 8)) = EEOP_JUMP \<and> st_jumpdone (steps ! (b + 8)) = done"

text \<open>A CASE of \<open>n\<close> such branches and an ELSE part of one step.\<close>

definition range_case :: "ExprEvalStep list \<Rightarrow> nat \<Rightarrow> nat \<Rightarrow> nat \<Rightarrow> bool" where
  "range_case steps i n done \<longleftrightarrow> 0 < n \<and> (\<forall>k<n. range_when steps (i + 9 * k) done) \<and> done = i + 9 * n + 1"

section \<open>Running a branch\<close>

definition cmp_result :: "pg_env \<Rightarrow> ExprEvalStep \<Rightarrow> Datum \<times> bool \<Rightarrow> Datum \<times> bool \<Rightarrow> Datum \<times> bool" where
  "cmp_result env st a r = (if snd a then (fst r, True)
     else (if pg_call env (st_fn_addr st) (st_collation st) (fst a) (st_arg1 st) then 1 else 0, False))"

lemma range_load:
  "pc < length steps \<Longrightarrow> is_var_opcode (st_op (steps ! pc)) \<Longrightarrow>
   range_run env steps vars (\<lparr>cs_pc = pc, cs_arg = a, cs_res = r\<rparr>, an)
     (\<lparr>cs_pc = pc + 1, cs_arg = loaded vars (steps ! pc), cs_res = r\<rparr>, an)"
  by (intro r_into_rtranclp range_step.plain case_step.load) simp_all

lemma range_call:
  assumes "pc < length steps" "is_funcexpr_strict (st_op (steps ! pc))" "\<not> st_arg1_isnull (steps ! pc)"
  shows "range_run env steps vars (\<lparr>cs_pc = pc, cs_arg = a, cs_res = r\<rparr>, an)
     (\<lparr>cs_pc = pc + 1, cs_arg = a, cs_res = cmp_result env (steps ! pc) a r\<rparr>, an)"
proof (cases "snd a")
  case True
  then show ?thesis using case_step.call_null [of pc steps a env vars r] assms
    by (intro r_into_rtranclp range_step.plain) (simp add: cmp_result_def)
next
  case False
  then show ?thesis using case_step.call_fn [of pc steps a _ env vars r] assms
    by (intro r_into_rtranclp range_step.plain) (simp add: cmp_result_def)
qed

lemma range_and:
  "pc < length steps \<Longrightarrow> is_and_step (st_op (steps ! pc)) \<Longrightarrow>
   range_run env steps vars (\<lparr>cs_pc = pc, cs_arg = a, cs_res = r\<rparr>, an) (and_outcome (steps ! pc) pc a r an)"
  by (intro r_into_rtranclp range_step.and_step)

lemma range_jint:
  "pc < length steps \<Longrightarrow> st_op (steps ! pc) = EEOP_JUMP_IF_NOT_TRUE \<Longrightarrow>
   range_run env steps vars (\<lparr>cs_pc = pc, cs_arg = a, cs_res = r\<rparr>, an)
     (\<lparr>cs_pc = (if snd r \<or> fst r = 0 then st_jumpdone (steps ! pc) else pc + 1), cs_arg = a, cs_res = r\<rparr>, an)"
  using case_step.jint_taken [of pc steps r env vars a] case_step.jint_not_taken [of pc steps r env vars a]
  by (intro r_into_rtranclp range_step.plain) auto

lemma range_const:
  "pc < length steps \<Longrightarrow> st_op (steps ! pc) = EEOP_CONST \<Longrightarrow>
   range_run env steps vars (\<lparr>cs_pc = pc, cs_arg = a, cs_res = r\<rparr>, an)
     (\<lparr>cs_pc = pc + 1, cs_arg = a, cs_res = (st_const (steps ! pc), st_const_isnull (steps ! pc))\<rparr>, an)"
  by (intro r_into_rtranclp range_step.plain case_step.const)

lemma range_jump:
  "pc < length steps \<Longrightarrow> st_op (steps ! pc) = EEOP_JUMP \<Longrightarrow>
   range_run env steps vars (\<lparr>cs_pc = pc, cs_arg = a, cs_res = r\<rparr>, an)
     (\<lparr>cs_pc = st_jumpdone (steps ! pc), cs_arg = a, cs_res = r\<rparr>, an)"
  by (intro r_into_rtranclp range_step.plain case_step.jump)

text \<open>Whether the WHEN of the branch at \<open>b\<close> is true of the variable.\<close>

definition when_true :: "pg_env \<Rightarrow> ExprEvalStep list \<Rightarrow> nat \<Rightarrow> Datum \<times> bool \<Rightarrow> bool" where
  "when_true env steps b var \<longleftrightarrow> \<not> snd var
     \<and> pg_call env (st_fn_addr (steps ! (b + 1))) (st_collation (steps ! (b + 1))) (fst var) (st_arg1 (steps ! (b + 1)))
     \<and> pg_call env (st_fn_addr (steps ! (b + 4))) (st_collation (steps ! (b + 4))) (fst var) (st_arg1 (steps ! (b + 4)))"

lemma run_when:
  assumes "range_when steps b done" "loaded vars (steps ! b) = var" "loaded vars (steps ! (b + 3)) = var"
    and "\<not> st_arg1_isnull (steps ! (b + 1))" "\<not> st_arg1_isnull (steps ! (b + 4))"
  shows "\<exists>r' an'. range_run env steps vars (\<lparr>cs_pc = b, cs_arg = a, cs_res = r\<rparr>, an)
    (\<lparr>cs_pc = (if when_true env steps b var then b + 7 else b + 9), cs_arg = var, cs_res = r'\<rparr>, an')"
proof -
  note W = assms(1) [unfolded range_when_def]
  let ?run = "range_run env steps vars"
  let ?s = "\<lambda>pc r. \<lparr>cs_pc = pc, cs_arg = var, cs_res = r\<rparr>"
  let ?r1 = "cmp_result env (steps ! (b + 1)) var r"
  have "?run (\<lparr>cs_pc = b, cs_arg = a, cs_res = r\<rparr>, an) (?s (b + 1) r, an)"
    using range_load [of b steps env vars a r an] W assms(2) by simp
  also have "?run (?s (b + 1) r, an) (?s (b + 2) ?r1, an)"
    using range_call [of "b + 1" steps env vars var r an] W assms(4) by (simp add: eval_nat_numeral)
  also have "?run (?s (b + 2) ?r1, an) (and_outcome (steps ! (b + 2)) (b + 2) var ?r1 an)"
    using W by (intro range_and) (simp_all add: is_and_step_def)
  finally have first: "?run (\<lparr>cs_pc = b, cs_arg = a, cs_res = r\<rparr>, an) (and_outcome (steps ! (b + 2)) (b + 2) var ?r1 an)" .
  have jint: "?run (?s (b + 6) q, m) (?s (if snd q \<or> fst q = 0 then b + 9 else b + 7) q, m)" for q m
  proof -
    have "b + 6 + 1 = b + 7" by simp
    then show ?thesis using range_jint [of "b + 6" steps env vars var q m] W by (simp only: if_distrib) auto
  qed
  show ?thesis
  proof (cases "\<not> snd ?r1 \<and> fst ?r1 = 0")
    case True
    then have "?run (\<lparr>cs_pc = b, cs_arg = a, cs_res = r\<rparr>, an) (?s (b + 6) ?r1, False)"
      using first W by (simp add: and_outcome_def)
    from rtranclp_trans [OF this jint] True have "?run (\<lparr>cs_pc = b, cs_arg = a, cs_res = r\<rparr>, an) (?s (b + 9) ?r1, False)" by simp
    moreover have "\<not> when_true env steps b var" using True by (auto simp: when_true_def cmp_result_def split: if_splits)
    ultimately show ?thesis by (intro exI [of _ ?r1] exI [of _ False]) simp
  next
    case False
    let ?r2 = "cmp_result env (steps ! (b + 4)) var ?r1"
    have "and_outcome (steps ! (b + 2)) (b + 2) var ?r1 an = (?s (b + 3) ?r1, snd ?r1)"
      unfolding and_outcome_def Let_def if_not_P [OF False] using W by simp
    then have "?run (\<lparr>cs_pc = b, cs_arg = a, cs_res = r\<rparr>, an) (?s (b + 3) ?r1, snd ?r1)" using first by simp
    also have "?run (?s (b + 3) ?r1, snd ?r1) (?s (b + 4) ?r1, snd ?r1)"
      using range_load [of "b + 3" steps env vars var ?r1 "snd ?r1"] W assms(3) by (simp add: eval_nat_numeral)
    also have "?run (?s (b + 4) ?r1, snd ?r1) (?s (b + 5) ?r2, snd ?r1)"
      using range_call [of "b + 4" steps env vars var ?r1 "snd ?r1"] W assms(5) by (simp add: eval_nat_numeral)
    also have "?run (?s (b + 5) ?r2, snd ?r1) (and_outcome (steps ! (b + 5)) (b + 5) var ?r2 (snd ?r1))"
      using W by (intro range_and) (simp_all add: is_and_step_def)
    finally have last: "?run (\<lparr>cs_pc = b, cs_arg = a, cs_res = r\<rparr>, an) (and_outcome (steps ! (b + 5)) (b + 5) var ?r2 (snd ?r1))" .
    define q where "q = ?r2"
    have "\<exists>m. and_outcome (steps ! (b + 5)) (b + 5) var ?r2 (snd ?r1) = (?s (b + 6) q, m)"
      using W False by (auto simp: and_outcome_def q_def cmp_result_def Let_def eval_nat_numeral split: if_splits)
    then obtain m where "?run (\<lparr>cs_pc = b, cs_arg = a, cs_res = r\<rparr>, an) (?s (b + 6) q, m)" using last by auto
    from rtranclp_trans [OF this jint]
    have "?run (\<lparr>cs_pc = b, cs_arg = a, cs_res = r\<rparr>, an) (?s (if snd q \<or> fst q = 0 then b + 9 else b + 7) q, m)" .
    moreover have "(snd q \<or> fst q = 0) \<longleftrightarrow> \<not> when_true env steps b var"
      using False by (auto simp: q_def when_true_def cmp_result_def split: if_splits)
    ultimately show ?thesis by (intro exI [of _ q] exI [of _ m]) (simp split: if_splits)
  qed
qed

section \<open>What the second pass finds\<close>

lemma range_whenD: "range_case steps i n done \<Longrightarrow> k < n \<Longrightarrow> range_when steps (i + 9 * k) done"
  unfolding range_case_def by blast

lemma find_jump_when:
  assumes "range_when steps b done" "ok done"
  shows "find_jump steps ok (b + RANGE_WHEN_LEN) = Some (b + 8)"
proof -
  have "b + 8 < min (length steps) (b + 27)" using assms(1) by (simp add: range_when_def)
  then have "[b + 7..<min (length steps) (b + 27)] = (b + 7) # (b + 8) # [b + 9..<min (length steps) (b + 27)]"
    by (simp add: upt_conv_Cons add.commute [of _ b])
  moreover have "b + RANGE_WHEN_LEN = b + 7" "b + RANGE_WHEN_LEN + 20 = b + 27" by (simp_all add: RANGE_WHEN_LEN_def)
  ultimately show ?thesis using assms by (simp only: find_jump_def) (simp add: range_when_def)
qed

text \<open>What the pass has checked of the branch \<open>k\<close> of a CASE at \<open>i\<close>.\<close>

definition range_checked :: "ExprEvalStep list \<Rightarrow> nat \<Rightarrow> nat \<Rightarrow> bool" where
  "range_checked steps i k \<longleftrightarrow> same_var (steps ! i) (steps ! (i + 9 * k)) \<and> same_var (steps ! i) (steps ! (i + 9 * k + 3))
     \<and> st_fn_addr (steps ! (i + 9 * k + 1)) = st_fn_addr (steps ! (i + 1)) \<and> st_fn_addr (steps ! (i + 9 * k + 4)) = st_fn_addr (steps ! (i + 4))
     \<and> \<not> st_arg1_isnull (steps ! (i + 9 * k + 1)) \<and> \<not> st_arg1_isnull (steps ! (i + 9 * k + 4))"

abbreviation then_positions :: "nat \<Rightarrow> nat \<Rightarrow> nat list" where
  "then_positions i n \<equiv> map (\<lambda>k. i + 9 * k + RANGE_WHEN_LEN) [0..<n]"

lemma range_branches_case:
  assumes "range_case steps i n done" "forward_jumps steps" "st_op (steps ! j) = EEOP_CONST"
    and "range_branches steps (range_branch steps i (st_fn_addr (steps ! (i + 1))) (st_fn_addr (steps ! (i + 4))) done)
           (then_positions i k) (i + 9 * k) = (ts, j)" "k \<le> n"
  shows "ts = then_positions i n \<and> j = i + 9 * n \<and> (\<forall>m. k \<le> m \<and> m < n \<longrightarrow> range_checked steps i m)"
  using assms(4,5)
proof (induction "n - k" arbitrary: k)
  case 0
  then have k: "k = n" by simp
  let ?b = "i + 9 * n"
  have "range_branch steps i (st_fn_addr (steps ! (i + 1))) (st_fn_addr (steps ! (i + 4))) done ?b = None"
  proof (rule ccontr)
    assume "\<not> ?thesis"
    then obtain s where s: "find_jump steps (\<lambda>t. t = done) (?b + RANGE_WHEN_LEN) = Some s"
      by (auto simp: range_branch_def split: if_splits)
    then have "st_op (steps ! s) = EEOP_JUMP" "st_jumpdone (steps ! s) = done"
      unfolding find_jump_def by (auto dest!: find_Some_in)
    moreover have "done \<le> s" "s < length steps" using find_jump_bounds [OF s] assms(1) by (simp_all add: range_case_def RANGE_WHEN_LEN_def)
    ultimately show False using assms(2) by (auto simp: forward_jumps_def)
  qed
  then show ?case using "0.prems" unfolding k by (subst (asm) range_branches.simps) (auto split: if_splits)
next
  case (Suc l)
  then have kn: "k < n" by simp
  note W = range_whenD [OF assms(1) kn]
  let ?b = "i + 9 * k"
  let ?branch = "range_branch steps i (st_fn_addr (steps ! (i + 1))) (st_fn_addr (steps ! (i + 4))) done"
  have v: "st_op (steps ! ?b) \<noteq> EEOP_CONST" using W by (auto simp: range_when_def is_var_opcode_def)
  show ?case
  proof (cases "?b + RANGE_WHEN_LEN < length steps \<and> length (then_positions i k) < MAX_RANGE_BRANCHES \<and> ?branch ?b \<noteq> None")
    case False
    then have "j = ?b" using Suc.prems(1) by (subst (asm) range_branches.simps) (auto split: if_splits)
    then show ?thesis using v assms(3) by simp
  next
    case True
    then obtain s where s: "?branch ?b = Some s" by auto
    then have c: "range_checked steps i k" and "find_jump steps (\<lambda>t. t = done) (?b + RANGE_WHEN_LEN) = Some s"
      by (auto simp: range_branch_def range_checked_def split: if_splits)
    then have "s = ?b + 8" using find_jump_when [OF W, of "\<lambda>t. t = done"] by simp
    then have "range_branches steps ?branch (then_positions i (Suc k)) (i + 9 * Suc k) = (ts, j)"
      using Suc.prems(1) True s by (subst (asm) range_branches.simps) (auto simp: algebra_simps eval_nat_numeral)
    from Suc.hyps(1) [OF _ this] Suc.hyps(2) kn
    have r: "ts = then_positions i n \<and> j = i + 9 * n \<and> (\<forall>m. Suc k \<le> m \<and> m < n \<longrightarrow> range_checked steps i m)" by simp
    then show ?thesis using c by (metis Suc_leI le_neq_implies_less)
  qed
qed

lemma range_parse_case:
  assumes "range_case steps i n done" "forward_jumps steps" "st_op (steps ! j) = EEOP_CONST"
    and "range_parse steps i = Some (t, u, e, ts, j)"
  shows "e = done" "ts = then_positions i n" "j = i + 9 * n" "\<And>m. m < n \<Longrightarrow> range_checked steps i m"
proof -
  have n: "0 < n" using assms(1) by (simp add: range_case_def)
  have W: "range_when steps i done" using range_whenD [OF assms(1) n] by simp
  have f: "find_jump steps (\<lambda>_. True) (i + RANGE_WHEN_LEN) = Some (i + 8)" using find_jump_when [OF W] by simp
  have p: "range_prefix steps i" "same_var (steps ! i) (steps ! (i + 3))" "range_start steps i = Some (t, u)" "e = st_jumpdone (steps ! (i + 8))"
    and b: "range_branches steps (range_branch steps i (st_fn_addr (steps ! (i + 1))) (st_fn_addr (steps ! (i + 4))) e)
        [i + RANGE_WHEN_LEN] (i + 8 + 1) = (ts, j)"
    using assms(4) f by (auto simp: range_parse_def Let_def split: if_splits option.splits prod.splits)
  show e: "e = done" using p(4) W by (simp add: range_when_def)
  have 0: "range_checked steps i 0"
    using p(2,3) by (auto simp: range_checked_def same_var_def range_start_def split: option.splits if_splits)
  have "range_branches steps (range_branch steps i (st_fn_addr (steps ! (i + 1))) (st_fn_addr (steps ! (i + 4))) done)
      (then_positions i 1) (i + 9 * 1) = (ts, j)"
    using b e by (simp add: eval_nat_numeral)
  from range_branches_case [OF assms(1-3) this] n
  have r: "ts = then_positions i n" "j = i + 9 * n" "\<And>m. 1 \<le> m \<Longrightarrow> m < n \<Longrightarrow> range_checked steps i m" by simp_all
  show "ts = then_positions i n" "j = i + 9 * n" by fact+
  show "range_checked steps i m" if "m < n" for m using r(3) [of m] 0 that by (cases m) simp_all
qed

section \<open>Running the CASE\<close>

text \<open>What the steps yield: the constant of the first branch whose WHEN is true, else the ELSE constant.\<close>

definition range_scan :: "pg_env \<Rightarrow> ExprEvalStep list \<Rightarrow> nat \<Rightarrow> nat \<Rightarrow> nat list \<Rightarrow> Datum \<times> bool \<Rightarrow> Datum" where
  "range_scan env steps i n ks var = case_linear (\<lambda>k. when_true env steps (i + 9 * k) var)
     (zip ks (map (\<lambda>k. st_const (steps ! (i + 9 * k + 7))) ks)) (st_const (steps ! (i + 9 * n)))"

lemma run_range_case:
  assumes "range_case steps i n done" "\<And>m. m < n \<Longrightarrow> range_checked steps i m" "var = loaded vars (steps ! i)"
    and "\<And>m. m < n \<Longrightarrow> st_op (steps ! (i + 9 * m + 7)) = EEOP_CONST \<and> \<not> st_const_isnull (steps ! (i + 9 * m + 7))"
    and "i + 9 * n < length steps" "st_op (steps ! (i + 9 * n)) = EEOP_CONST" "\<not> st_const_isnull (steps ! (i + 9 * n))"
  shows "k \<le> n \<Longrightarrow> (k = n \<Longrightarrow> a = var) \<Longrightarrow> \<exists>an'. range_run env steps vars (\<lparr>cs_pc = i + 9 * k, cs_arg = a, cs_res = r\<rparr>, an)
    (\<lparr>cs_pc = done, cs_arg = var, cs_res = (range_scan env steps i n [k..<n] var, False)\<rparr>, an')"
proof (induction "n - k" arbitrary: k a r an)
  case 0
  then have k: "k = n" "a = var" by simp_all
  have "done = i + 9 * n + 1" using assms(1) by (simp add: range_case_def)
  then show ?case using range_const [of "i + 9 * n" steps env vars var r an] assms(5-7) unfolding k by (auto simp: range_scan_def)
next
  case (Suc l)
  then have kn: "k < n" by simp
  let ?b = "i + 9 * k"
  note W = range_whenD [OF assms(1) kn]
  have l: "loaded vars (steps ! ?b) = var" "loaded vars (steps ! (?b + 3)) = var"
    using assms(2) [OF kn] assms(3) W range_whenD [OF assms(1), of 0] kn
    by (auto simp: range_checked_def range_when_def loaded_def same_var_def)
  obtain r' an' where run: "range_run env steps vars (\<lparr>cs_pc = ?b, cs_arg = a, cs_res = r\<rparr>, an)
      (\<lparr>cs_pc = (if when_true env steps ?b var then ?b + 7 else ?b + 9), cs_arg = var, cs_res = r'\<rparr>, an')"
    using run_when [OF W l] assms(2) [OF kn] unfolding range_checked_def by blast
  have scan: "range_scan env steps i n [k..<n] var = (if when_true env steps ?b var then st_const (steps ! (?b + 7))
      else range_scan env steps i n [Suc k..<n] var)"
    using kn by (simp add: range_scan_def upt_conv_Cons)
  show ?case
  proof (cases "when_true env steps ?b var")
    case True
    let ?c = "(st_const (steps ! (?b + 7)), False)"
    have "?b + 7 < length steps" and b8: "?b + 7 + 1 = ?b + 8" using W by (simp_all add: range_when_def)
    then have "range_run env steps vars (\<lparr>cs_pc = ?b + 7, cs_arg = var, cs_res = r'\<rparr>, an') (\<lparr>cs_pc = ?b + 8, cs_arg = var, cs_res = ?c\<rparr>, an')"
      using range_const [of "?b + 7" steps env vars var r' an', unfolded b8] assms(4) [OF kn] by simp
    also have "range_run env steps vars (\<lparr>cs_pc = ?b + 8, cs_arg = var, cs_res = ?c\<rparr>, an') (\<lparr>cs_pc = done, cs_arg = var, cs_res = ?c\<rparr>, an')"
      using range_jump [of "?b + 8" steps env vars var ?c an'] W by (simp add: range_when_def)
    finally show ?thesis using run True scan by (auto intro: rtranclp_trans)
  next
    case False
    have e: "i + 9 * Suc k = ?b + 9" and "l = n - Suc k" "Suc k \<le> n" using Suc.hyps(2) kn by simp_all
    then obtain an'' where "range_run env steps vars (\<lparr>cs_pc = ?b + 9, cs_arg = var, cs_res = r'\<rparr>, an')
        (\<lparr>cs_pc = done, cs_arg = var, cs_res = (range_scan env steps i n [Suc k..<n] var, False)\<rparr>, an'')"
      using Suc.hyps(1) [of "Suc k" var r' an', unfolded e] by blast
    then show ?thesis using run False scan by (auto intro: rtranclp_trans)
  qed
qed

lemma case_linear_never: "(\<And>x. \<not> P x) \<Longrightarrow> case_linear P ps d = d"
  by (induction P ps d rule: case_linear.induct) simp_all

text \<open>For functions that the classification takes for \<open>>=\<close> and \<open><\<close> or \<open><=\<close>, the WHENs are the intervals of the parsed pattern.\<close>

lemma range_scan_bounds:
  assumes "range_start steps i = Some (t, u)" "t \<noteq> CASE_BS_GENERIC" "documented_cmp env" "\<And>m. m < n \<Longrightarrow> range_checked steps i m"
  shows "range_scan env steps i n [0..<n] var = (if snd var then st_const (steps ! (i + 9 * n))
     else range_linear (bs_key t (fst var)) (range_bounds steps t u (then_positions i n))
            (map (\<lambda>a. st_const (steps ! a)) (then_positions i n)) (st_const (steps ! (i + 9 * n))))"
proof (cases "snd var")
  case True
  then show ?thesis by (simp add: range_scan_def when_true_def case_linear_never)
next
  case False
  obtain ge lt where c: "classify_cmp_fn (st_fn_addr (steps ! (i + 1))) = Some ge" "classify_cmp_fn (st_fn_addr (steps ! (i + 4))) = Some lt"
      "\<not> cc_eq ge" "\<not> cc_less ge" "cc_incl ge" "\<not> cc_eq lt" "cc_less lt" "cc_type ge = t" "cc_type lt = t" "u = cc_incl lt"
    using assms(1) by (auto simp: range_start_def split: option.splits if_splits)
  have w: "when_true env steps (i + 9 * k) var \<longleftrightarrow> bs_key t (range_lower steps (i + 9 * k + RANGE_WHEN_LEN)) \<le> bs_key t (fst var)
      \<and> bs_key t (fst var) < bs_key t (range_upper steps (i + 9 * k + RANGE_WHEN_LEN)) + (if u then 1 else 0)" if "k < n" for k
    using assms(4) [OF that] assms(2,3) c False
    by (auto simp: when_true_def range_checked_def documented_cmp_def key_op_def range_lower_def range_upper_def)
  let ?f = "\<lambda>k. (bs_key t (range_lower steps (i + 9 * k + RANGE_WHEN_LEN)), bs_key t (range_upper steps (i + 9 * k + RANGE_WHEN_LEN)) + (if u then 1 else 0))"
  have "range_bounds steps t u (then_positions i n) = map ?f [0..<n]" by (simp add: range_bounds_def comp_def)
  then have "range_linear (bs_key t (fst var)) (range_bounds steps t u (then_positions i n))
            (map (\<lambda>a. st_const (steps ! a)) (then_positions i n)) (st_const (steps ! (i + 9 * n)))
      = case_linear (\<lambda>k. case ?f k of (lo, hi) \<Rightarrow> lo \<le> bs_key t (fst var) \<and> bs_key t (fst var) < hi)
          (zip [0..<n] (map (\<lambda>k. st_const (steps ! (i + 9 * k + 7))) [0..<n])) (st_const (steps ! (i + 9 * n)))"
    by (simp only: range_linear_def case_linear_map map_map comp_def RANGE_WHEN_LEN_def)
  also have "\<dots> = range_scan env steps i n [0..<n] var"
    unfolding range_scan_def by (rule case_linear_cong) (simp add: w)
  finally show ?thesis using False by simp
qed

section \<open>Correctness of the second pass\<close>

text \<open>The two conditions that the pass does not check: the upper bounds increase, and the first interval is not inverted.\<close>

definition increasing_bounds :: "ExprEvalStep list \<Rightarrow> CaseBSearchType \<Rightarrow> nat \<Rightarrow> nat \<Rightarrow> bool" where
  "increasing_bounds steps t i n \<longleftrightarrow> bs_key t (st_arg1 (steps ! (i + 1))) \<le> bs_key t (st_arg1 (steps ! (i + 4)))
     \<and> (\<forall>k. k + 1 < n \<longrightarrow> bs_key t (st_arg1 (steps ! (i + 9 * k + 4))) < bs_key t (st_arg1 (steps ! (i + 9 * (k + 1) + 4))))"

lemma detected_range_refines:
  assumes "detect_range_at steps i = Emit info i'" "range_case steps i n done" "forward_jumps steps"
    and "increasing_bounds steps (ci_type info) i n" "documented_cmp env" "var = loaded vars (steps ! i)"
  shows "\<exists>res anynull'. jit_case_bsearch env info var = Some res \<and>
    range_run env steps vars (\<lparr>cs_pc = i, cs_arg = a, cs_res = r\<rparr>, anynull) (\<lparr>cs_pc = done, cs_arg = var, cs_res = res\<rparr>, anynull')"
proof -
  obtain t u e ts j where parse: "range_parse steps i = Some (t, u, e, ts, j)"
      and build: "range_build steps i t u e ts j = Emit info i'"
    using assms(1) by (auto simp: detect_range_at_def split: if_splits option.splits)
  have els: "j < length steps" "st_op (steps ! j) = EEOP_CONST" "\<not> st_const_isnull (steps ! j)"
    and thens: "\<And>b. b \<in> set ts \<Longrightarrow> st_op (steps ! b) = EEOP_CONST \<and> \<not> st_const_isnull (steps ! b)"
    and ts: "4 \<le> length ts" "contiguous steps t u ts" "ci_type info = t"
    using build by (auto simp: range_build_def list_all_iff CASE_BSEARCH_MIN_BRANCHES_def mk_range_info_def split: if_splits)
  note P = range_parse_case [OF assms(2,3) els(2) parse]
  have n: "4 \<le> n" using ts(1) P(2) by simp
  obtain b c l where "ts = b # c # l" using ts(1) by (cases ts; cases "tl ts") auto
  with ts(2) have t: "t \<noteq> CASE_BS_GENERIC" by auto
  have inc: "sorted_wrt (<) (map snd (range_bounds steps t u ts))"
    using assms(4) ts(3) unfolding P(2)
    by (subst sorted_wrt_iff_nth_Suc_transp) (auto simp: range_bounds_def range_upper_def increasing_bounds_def algebra_simps)
  have "[0..<n] = 0 # [1..<n]" using n by (simp add: upt_conv_Cons)
  then have first: "fst (hd (range_bounds steps t u ts)) \<le> snd (hd (range_bounds steps t u ts))"
    using assms(4) ts(3) unfolding P(2) by (simp add: range_bounds_def range_lower_def range_upper_def increasing_bounds_def)
  have code: "jit_case_bsearch env info var = Some (range_scan env steps i n [0..<n] var, False)"
    using range_code_scans [OF assms(1) parse inc first] range_scan_bounds [OF range_parse_Some(1) [OF parse] t assms(5) P(4), of n var]
    by (simp add: P(2,3))
  have "st_op (steps ! (i + 9 * m + 7)) = EEOP_CONST \<and> \<not> st_const_isnull (steps ! (i + 9 * m + 7))" if "m < n" for m
    using thens [of "i + 9 * m + 7"] that unfolding P(2) by (simp add: RANGE_WHEN_LEN_def image_iff)
  from run_range_case [OF assms(2) P(4) assms(6) this, where k = 0 and a = a and r = r and an = anynull and env = env] els P(3) n
  show ?thesis using code by auto
qed

text \<open>
  C18 (refinement): for every range CASE that the second pass detects, laid out as PostgreSQL does with THEN and ELSE parts of
  one step, the steps run from the first WHEN to the end of the CASE with exactly the value and null flag that the
  generated code computes by binary search from the variable, for every value of the columns, NULL included. Hypotheses that the
  pass does not check: the upper bounds increase and the first interval is not inverted.
\<close>

theorem range_detection_correct:
  assumes "detect_range_at steps i = Emit info i'" "range_case steps i n done" "forward_jumps steps"
    and "increasing_bounds steps (ci_type info) i n" "documented_cmp env" "var = loaded vars (steps ! i)"
  shows "\<exists>res anynull'. jit_case_bsearch env info var = Some res \<and>
    range_run env steps vars (\<lparr>cs_pc = i, cs_arg = a, cs_res = r\<rparr>, anynull) (\<lparr>cs_pc = done, cs_arg = var, cs_res = res\<rparr>, anynull')"
  using assms by (rule detected_range_refines)

lemma good_ranges_case: "range_case good_ranges 0 4 37"
proof -
  have "k < 4 \<Longrightarrow> k \<in> {0, 1, 2, 3}" for k :: nat by auto
  moreover have "range_when good_ranges (9 * k) 37" if "k \<in> {0, 1, 2, 3}" for k
    using that by (auto simp: range_when_def good_ranges_def range_branch_steps_def step_defs is_var_opcode_def is_funcexpr_strict_def)
  ultimately show ?thesis by (simp add: range_case_def)
qed

theorem range_detection_correct_witness:
  "\<exists>info res anynull'. detect_range_at good_ranges 0 = Emit info 37
    \<and> jit_case_bsearch example_pg_env info (33, False) = Some res
    \<and> range_run example_pg_env good_ranges (\<lambda>_ _. (33, False)) (\<lparr>cs_pc = 0, cs_arg = (0, True), cs_res = (0, True)\<rparr>, False)
        (\<lparr>cs_pc = 37, cs_arg = (33, False), cs_res = res\<rparr>, anynull')"
proof -
  obtain info where info: "detect_range_at good_ranges 0 = Emit info 37" "ci_type info = CASE_BS_I32"
    using good_ranges_detected by blast
  have "list_all (\<lambda>k. st_op (good_ranges ! k) = EEOP_JUMP \<longrightarrow> k < st_jumpdone (good_ranges ! k)) [0..<length good_ranges]"
    by (simp add: good_ranges_def range_branch_steps_def step_defs upt_conv_Cons)
  then have f: "forward_jumps good_ranges" by (simp add: forward_jumps_def list_all_iff)
  let ?up = "\<lambda>k. bs_key CASE_BS_I32 (st_arg1 (good_ranges ! (0 + 9 * k + 4)))"
  have "k + 1 < 4 \<Longrightarrow> k \<in> {0, 1, 2}" for k :: nat by auto
  moreover have "?up k < ?up (k + 1)" if "k \<in> {0, 1, 2}" for k
    using that by (auto simp: good_ranges_def range_branch_steps_def step_defs bs_key_def DatumGetInt32_def)
  moreover have "bs_key CASE_BS_I32 (st_arg1 (good_ranges ! (0 + 1))) \<le> bs_key CASE_BS_I32 (st_arg1 (good_ranges ! (0 + 4)))"
    by (simp add: good_ranges_def range_branch_steps_def step_defs bs_key_def DatumGetInt32_def)
  ultimately have "increasing_bounds good_ranges CASE_BS_I32 0 4" unfolding increasing_bounds_def by blast
  then show ?thesis
    using info range_detection_correct [OF info(1) good_ranges_case f, of example_pg_env "(33, False)" "\<lambda>_ _. (33, False)"]
      documented_example by (fastforce simp: loaded_def)
qed

section \<open>Further conditions that are not checked\<close>

text \<open>
  A code bug. Only the first step of a THEN part has to be a constant. With THEN parts like \<open>GREATEST(100, x)\<close>, whose first step
  stores a constant among the arguments of the step behind it, the pattern is detected and the generated code returns
  that constant.
\<close>

definition two_step_then :: "nat \<Rightarrow> nat \<Rightarrow> Datum \<times> Datum \<times> Datum \<Rightarrow> ExprEvalStep list" where
  "two_step_then done i b = take 8 (range_branch_steps done i b) @ [base_step (EEOP_OTHER 1), jump_step done]"

definition minmax_ranges :: "ExprEvalStep list" where
  "minmax_ranges = two_step_then 41 0 (10, 20, 100) @ two_step_then 41 10 (20, 30, 200) @ two_step_then 41 20 (30, 40, 300) @
     two_step_then 41 30 (40, 50, 400) @ [const_step 7]"

lemma minmax_ranges_parse: "range_parse minmax_ranges 0 = Some (CASE_BS_I32, False, 41, [7, 17, 27, 37], 40)"
  by (simp add: minmax_ranges_def two_step_then_def range_defs Let_def upt_conv_Cons)

lemma then_part_not_checked:
  "\<exists>info. detect_range_at minmax_ranges 0 = Emit info 41 \<and> st_op (minmax_ranges ! 8) = EEOP_OTHER 1
    \<and> jit_case_bsearch env info (12, False) = Some (100, False)"
  by (simp add: minmax_ranges_parse range_build_defs)
     (simp add: minmax_ranges_def two_step_then_def range_build_defs jit_case_bsearch_def mk_range_info_def range_desc_def
        pg_jitter_select_bsearch_helper_def select_op_idx_def helper_defs_32 bs_first.simps bs_pick_def store32_def)

text \<open>
  A code bug. The AND of the first branch may have further operands in front of the pattern: in
  \<open>WHEN x > 5 AND v >= 10 AND v < 20\<close> the pattern starts at the first test of \<open>v\<close>, and the AND step before it, when \<open>x > 5\<close> is false,
  jumps to a step inside the pattern, which the generated code leaves out.
\<close>

definition chained_ranges :: "ExprEvalStep list" where
  "chained_ranges =
     [var_step 2, fn_step ''int4gt'' 0 5, (base_step EEOP_BOOL_AND_STEP_FIRST) \<lparr>st_jumpdone := 9\<rparr>,
      var_step 1, fn_step ''int4ge'' 0 10, (base_step EEOP_BOOL_AND_STEP) \<lparr>st_jumpdone := 9\<rparr>,
      var_step 1, fn_step ''int4lt'' 0 20, (base_step EEOP_BOOL_AND_STEP_LAST) \<lparr>st_jumpdone := 9\<rparr>,
      jint_step 12, const_step 100, jump_step 40] @
     range_program 40 12 [(20, 30, 200), (30, 40, 300), (40, 50, 400)] @ [const_step 7]"

lemma chained_ranges_parse: "range_parse chained_ranges 3 = Some (CASE_BS_I32, False, 40, [10, 19, 28, 37], 39)"
  by (simp add: chained_ranges_def range_defs Let_def upt_conv_Cons)

lemma and_chain_not_checked:
  "\<exists>info. detect_range_at chained_ranges 3 = Emit info 40 \<and> start_opno info = 3 \<and> else_end_opno info = 40
    \<and> st_op (chained_ranges ! 2) = EEOP_BOOL_AND_STEP_FIRST \<and> st_jumpdone (chained_ranges ! 2) = 9"
  by (simp add: chained_ranges_parse range_build_defs)
     (simp add: chained_ranges_def range_build_defs mk_range_info_def)

end
