(* ===== verification/LikeMatch.thy ===== *)
theory LikeMatch
  imports Prelude
begin

text \<open>
  LIKE pattern matching without a regex engine (src/src/pg_jitter_simd.c): the
  classification of simple patterns with \<open>simd_like_match_text\<close>, and the compiled
  matcher (\<open>simd_like_compile\<close>, \<open>simd_like_match_compiled\<close>), against the meaning of LIKE
  on byte strings.
\<close>

section \<open>Patterns and their meaning\<close>

definition ch_pct :: uint8 where "ch_pct = 37"
definition ch_us :: uint8 where "ch_us = 95"
definition ch_esc :: uint8 where "ch_esc = 92"

lemma ch_neq [simp]: "ch_pct \<noteq> ch_us" "ch_pct \<noteq> ch_esc" "ch_us \<noteq> ch_esc"
  "ch_us \<noteq> ch_pct" "ch_esc \<noteq> ch_pct" "ch_esc \<noteq> ch_us"
  by (simp_all add: ch_pct_def ch_us_def ch_esc_def)

text \<open>Logical characters of a pattern: the decoding loop of \<open>simd_like_compile\<close>.\<close>

datatype ptok = Lit uint8 | Pct | Us

fun decode :: "uint8 list \<Rightarrow> ptok list option" where
  "decode [] = Some []"
| "decode (c # cs) =
     (if c = ch_esc then
        (case cs of [] \<Rightarrow> None | d # ds \<Rightarrow> map_option ((#) (Lit d)) (decode ds))
      else if c = ch_pct then map_option ((#) Pct) (decode cs)
      else if c = ch_us then map_option ((#) Us) (decode cs)
      else map_option ((#) (Lit c)) (decode cs))"

text \<open>SQL's LIKE on bytes: \<open>%\<close> is any sequence, \<open>_\<close> any single byte.\<close>

function (sequential) like :: "ptok list \<Rightarrow> uint8 list \<Rightarrow> bool" where
  "like [] s \<longleftrightarrow> s = []"
| "like (Pct # p) [] \<longleftrightarrow> like p []"
| "like (Pct # p) (x # s) \<longleftrightarrow> like p (x # s) \<or> like (Pct # p) s"
| "like (Us # p) (x # s) \<longleftrightarrow> like p s"
| "like (Lit c # p) (x # s) \<longleftrightarrow> c = x \<and> like p s"
| "like _ [] \<longleftrightarrow> False"
  by pat_completeness auto
termination by (relation "measures [\<lambda>(p, s). length p + length s]") auto

section \<open>Environment\<close>

record enc_env =
  enc_max_length :: nat
  enc_is_utf8 :: bool
  coll_is_deterministic :: "Oid \<Rightarrow> bool"

definition simd_like_byte_search_is_eligible :: "enc_env \<Rightarrow> Oid \<Rightarrow> bool" where
  "simd_like_byte_search_is_eligible env collid =
     (if \<not> coll_is_deterministic env collid then False
      else if enc_max_length env = 1 then True else enc_is_utf8 env)"

section \<open>Simple patterns\<close>

datatype like_type = LIKE_MATCH_EXACT | LIKE_MATCH_PREFIX | LIKE_MATCH_SUFFIX | LIKE_MATCH_INTERIOR

text \<open>\<open>sz_find\<close>: whether the needle occurs in the haystack.\<close>

definition sz_find :: "uint8 list \<Rightarrow> uint8 list \<Rightarrow> nat option" where
  "sz_find data pat =
     find (\<lambda>i. take (length pat) (drop i data) = pat) [0..<length data + 1 - length pat]"

definition simd_like_match_text :: "uint8 list \<Rightarrow> uint8 list \<Rightarrow> like_type \<Rightarrow> bool" where
  "simd_like_match_text data pat match_type =
     (case match_type of
        LIKE_MATCH_EXACT \<Rightarrow> length data = length pat \<and> data = pat
      | LIKE_MATCH_PREFIX \<Rightarrow> length data \<ge> length pat \<and> take (length pat) data = pat
      | LIKE_MATCH_SUFFIX \<Rightarrow> length data \<ge> length pat \<and> drop (length data - length pat) data = pat
      | LIKE_MATCH_INTERIOR \<Rightarrow> length pat \<le> length data \<and> sz_find data pat \<noteq> None)"

text \<open>
  The classification: \<open>None\<close> is the result -1; the literal is \<open>None\<close> for a pattern of
  percent signs only.
\<close>

definition simd_like_classify :: "enc_env \<Rightarrow> uint8 list \<Rightarrow> (like_type \<times> uint8 list option) option" where
  "simd_like_classify env pattern =
     (if enc_max_length env \<noteq> 1 \<and> \<not> enc_is_utf8 env then None
      else
        let has_leading_pct = (length pattern > 0 \<and> pattern ! 0 = ch_pct);
            start = (if has_leading_pct then 1 else 0);
            has_trailing_pct = (length pattern > start \<and> pattern ! (length pattern - 1) = ch_pct);
            stop = (if has_trailing_pct then length pattern - 1 else length pattern);
            literal = take (stop - start) (drop start pattern)
        in if list_ex (\<lambda>c. c = ch_pct \<or> c = ch_us \<or> c = ch_esc) literal then None
           else if literal = [] \<and> (has_leading_pct \<or> has_trailing_pct) then Some (LIKE_MATCH_EXACT, None)
           else if \<not> has_leading_pct \<and> \<not> has_trailing_pct then Some (LIKE_MATCH_EXACT, Some literal)
           else if \<not> has_leading_pct \<and> has_trailing_pct then Some (LIKE_MATCH_PREFIX, Some literal)
           else if has_leading_pct \<and> \<not> has_trailing_pct then Some (LIKE_MATCH_SUFFIX, Some literal)
           else Some (LIKE_MATCH_INTERIOR, Some literal))"

section \<open>Compiled patterns\<close>

definition SZ_LIKE_MAX_SEGMENTS :: nat where "SZ_LIKE_MAX_SEGMENTS = 16"
definition SZ_LIKE_MAX_PIECES :: nat where "SZ_LIKE_MAX_PIECES = 8"

text \<open>\<open>MaxAllocSize\<close> less the size of the struct (16 segments of 136 bytes and 8 bytes).\<close>

definition sz_like_max_literal :: nat where "sz_like_max_literal = 0x3fffffff - (8 + 16 * 136)"

record SzPiece =
  p_offset :: nat
  p_data :: "uint8 list"

record SzSegment =
  s_width :: nat
  s_longest_idx :: nat
  s_pieces :: "SzPiece list"

record SzLikeCompiled =
  c_min_len :: nat
  c_num_segments :: nat
  c_anchored_start :: bool
  c_anchored_end :: bool
  c_segments :: "SzSegment list"

datatype like_compiled = LikeNull | SIMD_LIKE_USE_V1 | LikeCompiled SzLikeCompiled

text \<open>The runs between percent signs: the first one, and the non-empty later ones.\<close>

fun split_runs :: "ptok list \<Rightarrow> ptok list \<times> ptok list list" where
  "split_runs [] = ([], [])"
| "split_runs (Pct # ts) = ([], let (g, gs) = split_runs ts in if g = [] then gs else g # gs)"
| "split_runs (t # ts) = (let (g, gs) = split_runs ts in (t # g, gs))"

definition segments_of :: "ptok list \<Rightarrow> ptok list list" where
  "segments_of ts = (let (g, gs) = split_runs ts in if g = [] then gs else g # gs)"

fun is_lit :: "ptok \<Rightarrow> bool" where
  "is_lit (Lit c) = True"
| "is_lit _ = False"

fun lit_char :: "ptok \<Rightarrow> uint8" where
  "lit_char (Lit c) = c"
| "lit_char _ = 0"

text \<open>The pieces of a segment: its runs of literals with their offsets.\<close>

function pieces_from :: "nat \<Rightarrow> ptok list \<Rightarrow> SzPiece list" where
  "pieces_from j [] = []"
| "pieces_from j (t # ts) =
     (if is_lit t
      then \<lparr>p_offset = j, p_data = map lit_char (t # takeWhile is_lit ts)\<rparr>
           # pieces_from (j + 1 + length (takeWhile is_lit ts)) (dropWhile is_lit ts)
      else pieces_from (j + 1) ts)"
  by pat_completeness auto
termination
  by (relation "measure (\<lambda>(j, ts). length ts)") (auto simp: le_imp_less_Suc length_dropWhile_le)

text \<open>The index of the first piece of maximal length.\<close>

fun longest_from :: "nat \<Rightarrow> nat \<Rightarrow> nat \<Rightarrow> SzPiece list \<Rightarrow> nat" where
  "longest_from idx longest_idx longest_len [] = longest_idx"
| "longest_from idx longest_idx longest_len (p # ps) =
     (if length (p_data p) > longest_len then longest_from (idx + 1) idx (length (p_data p)) ps
      else longest_from (idx + 1) longest_idx longest_len ps)"

definition mk_segment :: "ptok list \<Rightarrow> SzSegment" where
  "mk_segment g = (let ps = pieces_from 0 g in
     \<lparr>s_width = length g, s_longest_idx = longest_from 0 0 0 ps, s_pieces = ps\<rparr>)"

text \<open>The second half of the compilation, on the segments of the pattern.\<close>

definition compile_segments :: "enc_env \<Rightarrow> nat \<Rightarrow> bool \<Rightarrow> bool \<Rightarrow> ptok list list \<Rightarrow> like_compiled" where
  "compile_segments env nchars anchored_start anchored_end segs =
     (let num_segments = length segs;
          total_literal = length (filter is_lit (concat segs));
          has_underscore = list_ex (list_ex (\<lambda>t. t = Us)) segs;
          anchored_count0 = (if anchored_start then 1 else 0);
          anchored_count = (if anchored_end \<and> num_segments > anchored_count0 then anchored_count0 + 1 else anchored_count0);
          num_floating = int num_segments - int anchored_count
      in if num_segments > SZ_LIKE_MAX_SEGMENTS then LikeNull
         else if has_underscore \<and> enc_max_length env \<noteq> 1 then LikeNull
         else if num_segments = 0 then
           LikeCompiled \<lparr>c_min_len = 0, c_num_segments = 0, c_anchored_start = (nchars = 0),
                         c_anchored_end = (nchars = 0), c_segments = []\<rparr>
         else if total_literal > sz_like_max_literal then LikeNull
         else if num_floating > 0 \<and> num_segments = 1 \<and> \<not> has_underscore then
           (if total_literal < 5 then SIMD_LIKE_USE_V1 else LikeNull)
         else if list_ex (\<lambda>g. length (pieces_from 0 g) > SZ_LIKE_MAX_PIECES) segs then LikeNull
         else LikeCompiled
           \<lparr>c_min_len = sum_list (map length segs), c_num_segments = num_segments,
            c_anchored_start = anchored_start, c_anchored_end = anchored_end,
            c_segments = map mk_segment segs\<rparr>)"

text \<open>The first half: one leading and one trailing percent sign are stripped.\<close>

definition strip_start :: "ptok list \<Rightarrow> nat" where
  "strip_start toks = (if length toks > 0 \<and> toks ! 0 = Pct then 1 else 0)"

definition strip_stop :: "ptok list \<Rightarrow> nat" where
  "strip_stop toks =
     (if length toks > strip_start toks \<and> toks ! (length toks - 1) = Pct then length toks - 1 else length toks)"

definition simd_like_compile_toks :: "enc_env \<Rightarrow> ptok list \<Rightarrow> like_compiled" where
  "simd_like_compile_toks env toks =
     compile_segments env (length toks) (strip_start toks = 0) (strip_stop toks = length toks)
       (segments_of (take (strip_stop toks - strip_start toks) (drop (strip_start toks) toks)))"

definition simd_like_compile :: "enc_env \<Rightarrow> uint8 list \<Rightarrow> like_compiled" where
  "simd_like_compile env pattern =
     (if enc_max_length env \<noteq> 1 \<and> \<not> enc_is_utf8 env then LikeNull
      else (case decode pattern of None \<Rightarrow> LikeNull | Some toks \<Rightarrow> simd_like_compile_toks env toks))"

section \<open>Matching a compiled pattern\<close>

definition piece_at :: "uint8 list \<Rightarrow> nat \<Rightarrow> SzPiece \<Rightarrow> bool" where
  "piece_at data pos p \<longleftrightarrow> list_all (\<lambda>b. data ! (pos + p_offset p + b) = p_data p ! b) [0..<length (p_data p)]"

definition memchr :: "uint8 list \<Rightarrow> nat \<Rightarrow> nat \<Rightarrow> uint8 \<Rightarrow> nat option" where
  "memchr data scan scan_end c = find (\<lambda>i. data ! i = c) [scan..<scan_end + 1]"

lemma memchr_Some: "memchr data scan scan_end c = Some hit \<Longrightarrow> scan \<le> hit \<and> hit \<le> scan_end"
  unfolding memchr_def by (auto simp: find_Some_iff nth_upt simp del: upt_Suc)

definition anchor_at :: "uint8 list \<Rightarrow> nat \<Rightarrow> uint8 list \<Rightarrow> bool" where
  "anchor_at data hit anchor \<longleftrightarrow>
     list_all (\<lambda>i. data ! (hit + 1 + i) = anchor ! (1 + i)) [0..<length anchor - 1]"

definition other_pieces_at :: "uint8 list \<Rightarrow> nat \<Rightarrow> SzSegment \<Rightarrow> bool" where
  "other_pieces_at data seg_pos seg \<longleftrightarrow>
     list_all (\<lambda>k. k = s_longest_idx seg \<or> piece_at data seg_pos (s_pieces seg ! k)) [0..<length (s_pieces seg)]"

text \<open>
  The search for a floating segment: \<open>memchr\<close> for the first byte of its longest piece, then
  the rest of that piece, then the other pieces.
\<close>

function seg_search :: "uint8 list \<Rightarrow> SzSegment \<Rightarrow> nat \<Rightarrow> nat \<Rightarrow> nat option" where
  "seg_search data seg scan scan_end =
     (let anchor = s_pieces seg ! s_longest_idx seg
      in if scan \<le> scan_end
         then (case memchr data scan scan_end (p_data anchor ! 0) of
                 None \<Rightarrow> None
               | Some hit \<Rightarrow>
                   (if \<not> anchor_at data hit (p_data anchor) then seg_search data seg (hit + 1) scan_end
                    else if other_pieces_at data (hit - p_offset anchor) seg then Some (hit - p_offset anchor)
                    else seg_search data seg (hit + 1) scan_end))
         else None)"
  by pat_completeness auto
termination
  by (relation "measure (\<lambda>(data, seg, scan, scan_end). scan_end + 1 - scan)")
     (auto dest!: memchr_Some)

declare seg_search.simps [simp del]

fun float_loop :: "uint8 list \<Rightarrow> SzSegment list \<Rightarrow> nat \<Rightarrow> nat \<Rightarrow> (nat \<times> nat) option" where
  "float_loop data [] pos remaining = Some (pos, remaining)"
| "float_loop data (seg # segs) pos remaining =
     (if remaining < s_width seg then None
      else if s_pieces seg = [] then float_loop data segs (pos + s_width seg) (remaining - s_width seg)
      else (let off = p_offset (s_pieces seg ! s_longest_idx seg);
                max_pos = pos + remaining - s_width seg
            in case seg_search data seg (pos + off) (max_pos + off) of
                 None \<Rightarrow> None
               | Some seg_pos \<Rightarrow>
                   float_loop data segs (seg_pos + s_width seg) (length data - (seg_pos + s_width seg))))"

definition seg_at :: "uint8 list \<Rightarrow> nat \<Rightarrow> SzSegment \<Rightarrow> bool" where
  "seg_at data pos seg \<longleftrightarrow> list_all (piece_at data pos) (s_pieces seg)"

text \<open>The anchored first segment: new position, remaining bytes, segments left.\<close>

definition match_start :: "uint8 list \<Rightarrow> SzLikeCompiled \<Rightarrow> (nat \<times> nat \<times> SzSegment list) option" where
  "match_start data c =
     (if c_anchored_start c
      then (let seg = hd (c_segments c)
            in if length data < s_width seg \<or> \<not> seg_at data 0 seg then None
               else Some (s_width seg, length data - s_width seg, tl (c_segments c)))
      else Some (0, length data, c_segments c))"

text \<open>The anchored last segment, unless the first one was the last.\<close>

definition match_end ::
  "uint8 list \<Rightarrow> SzLikeCompiled \<Rightarrow> nat \<times> nat \<times> SzSegment list \<Rightarrow> (nat \<times> nat \<times> SzSegment list \<times> bool) option" where
  "match_end data c st =
     (case st of (pos, remaining, segs) \<Rightarrow>
        if c_anchored_end c \<and> segs \<noteq> []
        then (let seg = last segs; end_pos = length data - s_width seg
              in if remaining < s_width seg \<or> end_pos < pos \<or> \<not> seg_at data end_pos seg then None
                 else Some (pos, remaining - s_width seg, butlast segs, True))
        else Some (pos, remaining, segs, False))"

definition simd_like_match_compiled :: "uint8 list \<Rightarrow> SzLikeCompiled \<Rightarrow> bool" where
  "simd_like_match_compiled data c =
     (if length data < c_min_len c then False
      else if c_num_segments c = 0 then (\<not> c_anchored_start c \<and> \<not> c_anchored_end c) \<or> length data = 0
      else (case Option.bind (match_start data c) (match_end data c) of
              None \<Rightarrow> False
            | Some (pos, remaining, segs, end_done) \<Rightarrow>
                (case float_loop data segs pos remaining of
                   None \<Rightarrow> False
                 | Some (pos', _) \<Rightarrow> \<not> (c_anchored_end c \<and> \<not> end_done \<and> pos' \<noteq> length data))))"

end
