(* ===== verification/LikeCorrect.thy ===== *)
theory LikeCorrect
  imports LikeMatch
begin

text \<open>
  The compiled LIKE matcher against the meaning of LIKE: what the pieces of a segment
  test, what the search for a floating segment finds, the placement of segments, and when
  the matcher decides LIKE.
\<close>

section \<open>Segments\<close>

definition match_at :: "uint8 list \<Rightarrow> nat \<Rightarrow> ptok list \<Rightarrow> bool" where
  "match_at data pos g \<longleftrightarrow> (\<forall>i<length g. is_lit (g ! i) \<longrightarrow> data ! (pos + i) = lit_char (g ! i))"

lemma match_at_Nil [simp]: "match_at data pos []"
  by (simp add: match_at_def)

lemma all_less_Suc_conv: "(\<forall>i<Suc n. P i) \<longleftrightarrow> P 0 \<and> (\<forall>i<n. P (Suc i))"
  by (metis less_Suc_eq_0_disj)

lemma match_at_Cons [simp]:
  "match_at data pos (t # g) \<longleftrightarrow> (is_lit t \<longrightarrow> data ! pos = lit_char t) \<and> match_at data (pos + 1) g"
  by (simp add: match_at_def all_less_Suc_conv)

lemma match_at_append:
  "match_at data pos (g @ h) \<longleftrightarrow> match_at data pos g \<and> match_at data (pos + length g) h"
  by (induction g arbitrary: pos) (simp_all add: algebra_simps)

lemma piece_at_lits:
  assumes "\<forall>t \<in> set g. is_lit t"
  shows "piece_at data pos \<lparr>p_offset = j, p_data = map lit_char g\<rparr> \<longleftrightarrow> match_at data (pos + j) g"
  using assms by (auto simp: piece_at_def match_at_def list_all_iff)

lemma pieces_from_match:
  "list_all (piece_at data pos) (pieces_from j g) \<longleftrightarrow> match_at data (pos + j) g"
proof (induction j g rule: pieces_from.induct)
  case (1 j)
  then show ?case by simp
next
  case (2 j t ts)
  show ?case
  proof (cases "is_lit t")
    case True
    let ?run = "t # takeWhile is_lit ts"
    have run: "\<forall>t \<in> set ?run. is_lit t" using True by (auto dest: set_takeWhileD)
    have split: "match_at data (pos + j) (t # ts) \<longleftrightarrow> match_at data (pos + j) ?run \<and>
        match_at data (pos + j + length ?run) (dropWhile is_lit ts)"
      using match_at_append [of data "pos + j" ?run "dropWhile is_lit ts"] by simp
    show ?thesis unfolding split
      using 2(1) [OF True] piece_at_lits [OF run, of data pos j] True by (simp add: algebra_simps)
  next
    case False
    with 2(2) show ?thesis by (simp add: algebra_simps)
  qed
qed

lemma seg_at_match: "seg_at data pos (mk_segment g) \<longleftrightarrow> match_at data pos g"
  using pieces_from_match [of data pos 0 g] by (simp add: seg_at_def mk_segment_def Let_def)

lemma pieces_from_nonempty: "p \<in> set (pieces_from j g) \<Longrightarrow> p_data p \<noteq> []"
  by (induction j g rule: pieces_from.induct) (auto split: if_splits)

lemma longest_from_less:
  "longest_idx < idx + length ps \<Longrightarrow> longest_from idx longest_idx len ps < idx + length ps"
proof (induction ps arbitrary: idx longest_idx len)
  case (Cons p ps)
  then show ?case
    using Cons.IH [of idx "idx + 1" "length (p_data p)"] Cons.IH [of longest_idx "idx + 1" len]
    by simp
qed simp

section \<open>The search for a floating segment\<close>

lemma find_upt_cons:
  "lo \<le> hi \<Longrightarrow> find P [lo..<hi + 1] = (if P lo then Some lo else find P [lo + 1..<hi + 1])"
  by (simp del: upt_Suc add: upt_conv_Cons)

lemma find_upt_skip:
  "lo \<le> k \<Longrightarrow> k \<le> n \<Longrightarrow> (\<And>p. lo \<le> p \<Longrightarrow> p < k \<Longrightarrow> \<not> P p) \<Longrightarrow> find P [lo..<n] = find P [k..<n]"
  by (induction "k - lo" arbitrary: lo) (auto simp: upt_conv_Cons)

lemma list_all_upt_Suc:
  "list_all P [0..<Suc n] \<longleftrightarrow> P 0 \<and> list_all (\<lambda>i. P (Suc i)) [0..<n]"
  using all_less_Suc_conv [of n P] by (simp add: list_all_iff Ball_def del: upt_Suc)

lemma find_upt_Some:
  assumes "find P [a..<b] = Some p"
  shows "a \<le> p \<and> p < b \<and> P p \<and> (\<forall>k. a \<le> k \<and> k < p \<longrightarrow> \<not> P k)"
proof -
  obtain i where i: "i < length [a..<b]" "P p" "p = [a..<b] ! i" "\<And>j. j < i \<Longrightarrow> \<not> P ([a..<b] ! j)"
    using assms unfolding find_Some_iff by blast
  then have p: "p = a + i" "a + i < b" by (auto simp: nth_upt)
  have "\<not> P k" if "a \<le> k" "k < p" for k
    using i(4) [of "k - a"] that p by (simp add: nth_upt)
  with p i(2) show ?thesis by auto
qed

lemma memchr_first:
  assumes "memchr data a b c = Some hit"
  shows "a \<le> hit \<and> hit \<le> b \<and> data ! hit = c \<and> (\<forall>k. a \<le> k \<and> k < hit \<longrightarrow> data ! k \<noteq> c)"
  using find_upt_Some [OF assms [unfolded memchr_def]] by auto

lemma anchor_piece:
  assumes "p_data a \<noteq> []"
  shows "piece_at data pos a \<longleftrightarrow>
    data ! (pos + p_offset a) = p_data a ! 0 \<and> anchor_at data (pos + p_offset a) (p_data a)"
proof -
  obtain c cs where cs: "p_data a = c # cs" using assms by (cases "p_data a") auto
  show ?thesis
    by (simp del: upt_Suc add: piece_at_def anchor_at_def cs list_all_upt_Suc)
qed

definition seg_ok :: "SzSegment \<Rightarrow> bool" where
  "seg_ok seg \<longleftrightarrow> s_longest_idx seg < length (s_pieces seg) \<and> p_data (s_pieces seg ! s_longest_idx seg) \<noteq> []"

lemma mk_segment_ok: "s_pieces (mk_segment g) \<noteq> [] \<Longrightarrow> seg_ok (mk_segment g)"
proof -
  assume ne: "s_pieces (mk_segment g) \<noteq> []"
  have "longest_from 0 0 0 (pieces_from 0 g) < 0 + length (pieces_from 0 g)"
    using ne by (intro longest_from_less) (simp add: mk_segment_def Let_def)
  then show ?thesis
    using pieces_from_nonempty [of _ 0 g] by (auto simp: seg_ok_def mk_segment_def Let_def)
qed

lemma seg_at_anchor:
  assumes "seg_ok seg"
  shows "seg_at data pos seg \<longleftrightarrow>
    (let a = s_pieces seg ! s_longest_idx seg
     in data ! (pos + p_offset a) = p_data a ! 0 \<and> anchor_at data (pos + p_offset a) (p_data a)
        \<and> other_pieces_at data pos seg)"
proof -
  let ?a = "s_pieces seg ! s_longest_idx seg"
  have "seg_at data pos seg \<longleftrightarrow> piece_at data pos ?a \<and> other_pieces_at data pos seg"
    using assms by (auto simp: seg_at_def other_pieces_at_def seg_ok_def list_all_length list_all_iff)
  also have "piece_at data pos ?a \<longleftrightarrow>
      data ! (pos + p_offset ?a) = p_data ?a ! 0 \<and> anchor_at data (pos + p_offset ?a) (p_data ?a)"
    using assms by (intro anchor_piece) (simp add: seg_ok_def)
  finally show ?thesis by (auto simp: Let_def)
qed

text \<open>The search returns the first position at which the whole segment matches.\<close>

lemma seg_search_first:
  assumes ok: "seg_ok seg" and off: "off = p_offset (s_pieces seg ! s_longest_idx seg)"
    and scan: "scan = lo + off" and scan_end: "scan_end = hi + off"
  shows "seg_search data seg scan scan_end = find (\<lambda>p. seg_at data p seg) [lo..<hi + 1]"
  using assms
proof (induction data seg scan scan_end arbitrary: lo rule: seg_search.induct)
  case (1 data seg scan scan_end)
  let ?a = "s_pieces seg ! s_longest_idx seg"
  note at = seg_at_anchor [OF "1.prems"(1), of data, unfolded Let_def, folded "1.prems"(2)]
  note simps = seg_search.simps [of data seg scan scan_end]
  show ?case
  proof (cases "scan \<le> scan_end")
    case False
    then have "seg_search data seg scan scan_end = None" by (simp add: simps Let_def)
    with False "1.prems" show ?thesis by simp
  next
    case le: True
    show ?thesis
    proof (cases "memchr data scan scan_end (p_data ?a ! 0)")
      case None
      then have "data ! k \<noteq> p_data ?a ! 0" if "scan \<le> k" "k \<le> scan_end" for k
        using that unfolding memchr_def find_None_iff by (auto simp del: upt_Suc)
      note none = this
      have "\<not> seg_at data p seg" if "p \<in> set [lo..<hi + 1]" for p
      proof -
        from that have "lo \<le> p" "p \<le> hi" by (simp_all del: upt_Suc)
        then have "data ! (p + off) \<noteq> p_data ?a ! 0" using "1.prems"(3,4) by (intro none) simp_all
        with at [of p] show ?thesis by blast
      qed
      then have "find (\<lambda>p. seg_at data p seg) [lo..<hi + 1] = None"
        unfolding find_None_iff by blast
      with None le show ?thesis by (simp add: simps)
    next
      case (Some hit)
      have hit: "scan \<le> hit" "hit \<le> scan_end" "data ! hit = p_data ?a ! 0"
          "\<And>k. scan \<le> k \<Longrightarrow> k < hit \<Longrightarrow> data ! k \<noteq> p_data ?a ! 0"
        using memchr_first [OF Some] by auto
      define p where "p = hit - off"
      have p: "hit = p + off" "lo \<le> p" "p \<le> hi" using hit "1.prems" by (simp_all add: p_def)
      have skip: "find (\<lambda>p. seg_at data p seg) [lo..<hi + 1] = find (\<lambda>p. seg_at data p seg) [p..<hi + 1]"
        using p hit(4) at "1.prems" by (intro find_upt_skip) auto
      have here: "seg_at data p seg \<longleftrightarrow> anchor_at data hit (p_data ?a) \<and> other_pieces_at data p seg"
        using at [of p] hit(3) p(1) by simp
      show ?thesis
      proof (cases "seg_at data p seg")
        case True
        with here Some le "1.prems"(2) have "seg_search data seg scan scan_end = Some p"
          by (simp add: simps p_def Let_def)
        with True skip find_upt_cons [OF p(3)] show ?thesis by (simp del: upt_Suc)
      next
        case False
        then have "seg_search data seg scan scan_end = seg_search data seg (hit + 1) scan_end"
          using here Some le "1.prems"(2) by (auto simp: simps p_def Let_def)
        also have "\<dots> = find (\<lambda>p. seg_at data p seg) [p + 1..<hi + 1]"
        proof (cases "anchor_at data hit (p_data ?a)")
          case True
          with False here have "\<not> other_pieces_at data (hit - p_offset ?a) seg"
            using "1.prems"(2) by (simp add: p_def)
          from "1.IH"(2) [OF refl le Some _ this] True show ?thesis
            using "1.prems" p(1) by simp
        next
          case nf: False
          from "1.IH"(1) [OF refl le Some nf] show ?thesis
            using "1.prems" p(1) by simp
        qed
        finally show ?thesis using skip find_upt_cons [OF p(3)] False by (simp del: upt_Suc)
      qed
    qed
  qed
qed

section \<open>Placement of segments\<close>

text \<open>The segments occur in order, without overlap, between \<open>pos\<close> and \<open>lim\<close>.\<close>

fun placed :: "uint8 list \<Rightarrow> ptok list list \<Rightarrow> nat \<Rightarrow> nat \<Rightarrow> bool" where
  "placed data [] pos lim \<longleftrightarrow> pos \<le> lim"
| "placed data (g # gs) pos lim \<longleftrightarrow>
     (\<exists>p\<ge>pos. p + length g \<le> lim \<and> match_at data p g \<and> placed data gs (p + length g) lim)"

lemma placed_mono:
  "placed data gs pos lim \<Longrightarrow> pos' \<le> pos \<Longrightarrow> lim \<le> lim' \<Longrightarrow> placed data gs pos' lim'"
proof (induction gs arbitrary: pos pos')
  case (Cons g gs)
  then obtain p where "p \<ge> pos" "p + length g \<le> lim" "match_at data p g" "placed data gs (p + length g) lim"
    by auto
  with Cons show ?case by (meson order_trans order_refl placed.simps(2))
qed simp

lemma placed_length: "placed data gs pos lim \<Longrightarrow> pos + sum_list (map length gs) \<le> lim"
  by (induction gs arbitrary: pos) fastforce+

lemma placed_le: "placed data gs pos lim \<Longrightarrow> pos \<le> lim"
  using placed_length by fastforce

text \<open>Placing the first segment at its first match loses nothing.\<close>

lemma placed_first:
  assumes "pos + length g \<le> lim"
  shows "placed data (g # gs) pos lim \<longleftrightarrow>
    (case find (\<lambda>p. match_at data p g) [pos..<lim - length g + 1] of
       None \<Rightarrow> False | Some p \<Rightarrow> placed data gs (p + length g) lim)"
proof (cases "find (\<lambda>p. match_at data p g) [pos..<lim - length g + 1]")
  case None
  note none = None [unfolded find_None_iff]
  have "\<not> placed data (g # gs) pos lim"
  proof
    assume "placed data (g # gs) pos lim"
    then obtain p where "pos \<le> p" "p + length g \<le> lim" "match_at data p g" by auto
    with none show False by (simp del: upt_Suc)
  qed
  with None show ?thesis by simp
next
  case (Some q)
  note spec = find_upt_Some [OF Some]
  have q: "pos \<le> q" "q + length g \<le> lim" "match_at data q g"
    using spec assms by auto
  have first: "q \<le> p" if "pos \<le> p" "p + length g \<le> lim" "match_at data p g" for p
    using spec that by (meson not_le)
  show ?thesis
  proof
    assume "placed data (g # gs) pos lim"
    then obtain p where p: "p \<ge> pos" "p + length g \<le> lim" "match_at data p g" "placed data gs (p + length g) lim"
      by auto
    from first [OF p(1-3)] p(4) show "case find (\<lambda>p. match_at data p g) [pos..<lim - length g + 1] of
       None \<Rightarrow> False | Some p \<Rightarrow> placed data gs (p + length g) lim"
      unfolding Some by (auto intro: placed_mono)
  next
    assume "case find (\<lambda>p. match_at data p g) [pos..<lim - length g + 1] of
       None \<Rightarrow> False | Some p \<Rightarrow> placed data gs (p + length g) lim"
    with Some q show "placed data (g # gs) pos lim" by auto
  qed
qed

section \<open>The loop over the floating segments\<close>

lemma s_width_mk_segment [simp]: "s_width (mk_segment g) = length g"
  by (simp add: mk_segment_def Let_def)

lemma seg_search_find:
  assumes "s_pieces (mk_segment g) \<noteq> []" "pos + length g \<le> pos + remaining"
  shows "(let off = p_offset (s_pieces (mk_segment g) ! s_longest_idx (mk_segment g));
              max_pos = pos + remaining - s_width (mk_segment g)
          in seg_search data (mk_segment g) (pos + off) (max_pos + off))
    = find (\<lambda>p. match_at data p g) [pos..<pos + remaining - length g + 1]"
  unfolding Let_def s_width_mk_segment
  by (subst seg_search_first [OF mk_segment_ok [OF assms(1)] refl refl refl]) (simp only: seg_at_match)

lemma no_pieces_match: "s_pieces (mk_segment g) = [] \<Longrightarrow> match_at data pos g"
  using seg_at_match [of data pos g] by (simp add: seg_at_def)

lemma float_loop_step:
  "float_loop data (mk_segment g # segs) pos remaining =
     (if remaining < length g then None
      else if s_pieces (mk_segment g) = [] then float_loop data segs (pos + length g) (remaining - length g)
      else (case find (\<lambda>p. match_at data p g) [pos..<pos + remaining - length g + 1] of
              None \<Rightarrow> None
            | Some p \<Rightarrow> float_loop data segs (p + length g) (length data - (p + length g))))"
  using seg_search_find [of g pos remaining data]
  by (simp add: Let_def del: upt_Suc cong: option.case_cong)

declare float_loop.simps(2) [simp del]

text \<open>The loop never misses a placement.\<close>

lemma float_loop_complete:
  assumes "pos + remaining \<le> length data" "placed data gs pos (pos + remaining)"
  shows "float_loop data (map mk_segment gs) pos remaining \<noteq> None"
  using assms
proof (induction gs arbitrary: pos remaining)
  case (Cons g gs)
  have len: "length g \<le> remaining" using Cons.prems(2) by auto
  show ?case
  proof (cases "s_pieces (mk_segment g) = []")
    case True
    obtain p where "p \<ge> pos" "placed data gs (p + length g) (pos + remaining)"
      using Cons.prems(2) by auto
    then have "placed data gs (pos + length g) (pos + length g + (remaining - length g))"
      using len by (auto intro: placed_mono)
    with Cons.IH [OF _ this] Cons.prems(1) len True show ?thesis
      by (simp add: float_loop_step)
  next
    case False
    obtain p where p: "find (\<lambda>p. match_at data p g) [pos..<pos + remaining - length g + 1] = Some p"
        "placed data gs (p + length g) (pos + remaining)"
      using placed_first [of pos g "pos + remaining" data gs] Cons.prems(2) len
      by (auto split: option.splits simp del: upt_Suc)
    have "p + length g \<le> length data" using find_upt_Some [OF p(1)] Cons.prems(1) len by linarith
    moreover have "placed data gs (p + length g) (length data)"
      using p(2) Cons.prems(1) by (auto intro: placed_mono)
    ultimately show ?thesis
      using Cons.IH [of "p + length g" "length data - (p + length g)"] p(1) len False
      by (simp add: float_loop_step del: upt_Suc)
  qed
qed simp

text \<open>
  What it finds is a placement when the limit is the end of the data, or when there is at
  most one floating segment: after a hit the loop takes the end of the data as limit.
\<close>

lemma float_loop_sound:
  assumes "pos + remaining \<le> length data" "pos + remaining = length data \<or> length gs \<le> 1"
    and "float_loop data (map mk_segment gs) pos remaining = Some r"
  shows "placed data gs pos (pos + remaining) \<and> fst r + snd r \<le> length data"
  using assms
proof (induction gs arbitrary: pos remaining)
  case (Cons g gs)
  have len: "length g \<le> remaining" using Cons.prems(3) by (auto simp: float_loop_step split: if_splits)
  show ?case
  proof (cases "s_pieces (mk_segment g) = []")
    case True
    then have "placed data gs (pos + length g) (pos + remaining) \<and> fst r + snd r \<le> length data"
      using Cons.IH [of "pos + length g" "remaining - length g"] Cons.prems len
      by (auto simp: float_loop_step)
    with no_pieces_match [OF True] len show ?thesis by auto
  next
    case False
    obtain p where p: "find (\<lambda>p. match_at data p g) [pos..<pos + remaining - length g + 1] = Some p"
        "float_loop data (map mk_segment gs) (p + length g) (length data - (p + length g)) = Some r"
      using Cons.prems(3) len False by (auto simp: float_loop_step split: option.splits simp del: upt_Suc)
    have range: "pos \<le> p" "p + length g \<le> pos + remaining" "match_at data p g"
      using find_upt_Some [OF p(1)] len by auto
    have ih: "placed data gs (p + length g) (length data) \<and> fst r + snd r \<le> length data"
      using Cons.IH [OF _ _ p(2)] range Cons.prems(1) by simp
    have "placed data gs (p + length g) (pos + remaining)"
      using Cons.prems(2)
    proof
      assume "pos + remaining = length data"
      with ih show ?thesis by simp
    next
      assume "length (g # gs) \<le> 1"
      then show ?thesis using range by simp
    qed
    with range ih show ?thesis by auto
  qed
qed (auto dest: arg_cong [where f = fst])

section \<open>LIKE as placement of runs\<close>

lemma like_Pct:
  "pos \<le> length data \<Longrightarrow>
     like (Pct # r) (drop pos data) \<longleftrightarrow> (\<exists>p. pos \<le> p \<and> p \<le> length data \<and> like r (drop p data))"
proof (induction "length data - pos" arbitrary: pos)
  case 0
  then show ?case by auto
next
  case (Suc n)
  then have lt: "pos < length data" by simp
  have "like (Pct # r) (drop pos data) \<longleftrightarrow> like r (drop pos data) \<or> like (Pct # r) (drop (Suc pos) data)"
    using Cons_nth_drop_Suc [OF lt] by (metis like.simps(3))
  also have "like (Pct # r) (drop (Suc pos) data) \<longleftrightarrow> (\<exists>p. Suc pos \<le> p \<and> p \<le> length data \<and> like r (drop p data))"
    using Suc lt by (intro Suc.hyps(1)) simp_all
  finally show ?case using lt by (metis Suc_leD Suc_leI le_less not_less_eq_eq)
qed

lemma like_tok:
  assumes "t \<noteq> Pct" "pos \<le> length data"
  shows "like (t # r) (drop pos data) \<longleftrightarrow>
    pos < length data \<and> (is_lit t \<longrightarrow> data ! pos = lit_char t) \<and> like r (drop (pos + 1) data)"
proof (cases "pos < length data")
  case True
  then show ?thesis
    using Cons_nth_drop_Suc [OF True, symmetric] assms(1) by (cases t) auto
next
  case False
  with assms show ?thesis by (cases t) auto
qed

lemma split_runs_no_Pct: "Pct \<notin> set ts \<Longrightarrow> split_runs ts = (ts, [])"
  by (induction ts rule: split_runs.induct) (auto simp: Let_def)

lemma split_runs_later_nonempty:
  "split_runs ts = (g, gs) \<Longrightarrow> Pct \<in> set ts \<Longrightarrow> last ts \<noteq> Pct \<Longrightarrow> gs \<noteq> []"
proof (induction ts arbitrary: g gs rule: split_runs.induct)
  case (2 ts)
  obtain g' gs' where sp: "split_runs ts = (g', gs')" by fastforce
  show ?case
  proof (cases "Pct \<in> set ts")
    case True
    then have "gs' \<noteq> []" using 2 sp by (cases ts) auto
    with 2 sp show ?thesis by (auto simp: Let_def split: if_splits)
  next
    case False
    with 2 sp split_runs_no_Pct [OF False] show ?thesis by (auto simp: Let_def split: if_splits)
  qed
qed (auto split: prod.splits if_splits)

definition runs_spec :: "ptok list \<Rightarrow> uint8 list \<Rightarrow> ptok list list \<Rightarrow> nat \<Rightarrow> bool" where
  "runs_spec toks data gs pos \<longleftrightarrow>
     (if Pct \<notin> set toks then pos = length data
      else if last toks = Pct then placed data gs pos (length data)
      else gs \<noteq> [] \<and> length (last gs) \<le> length data
        \<and> placed data (butlast gs) pos (length data - length (last gs))
        \<and> match_at data (length data - length (last gs)) (last gs))"

lemma like_runs:
  assumes "split_runs toks = (g0, gs)" "pos \<le> length data"
  shows "like toks (drop pos data) \<longleftrightarrow>
    pos + length g0 \<le> length data \<and> match_at data pos g0 \<and> runs_spec toks data gs (pos + length g0)"
  using assms
proof (induction toks arbitrary: pos g0 gs)
  case Nil
  then show ?case by (auto simp: runs_spec_def)
next
  case (Cons t ts)
  obtain g gs' where sp: "split_runs ts = (g, gs')" by fastforce
  show ?case
  proof (cases "t = Pct")
    case False
    have g0: "g0 = t # g" "gs = gs'" using Cons.prems(1) sp False by (cases t; simp)+
    have rs: "runs_spec (t # ts) data gs' q = runs_spec ts data gs' q" for q
      using False by (auto simp: runs_spec_def)
    have "like (t # ts) (drop pos data) \<longleftrightarrow>
        pos < length data \<and> (is_lit t \<longrightarrow> data ! pos = lit_char t) \<and> like ts (drop (pos + 1) data)"
      using False Cons.prems(2) by (rule like_tok)
    also have "\<dots> \<longleftrightarrow> pos + length g0 \<le> length data \<and> match_at data pos g0 \<and> runs_spec ts data gs' (pos + length g0)"
    proof (cases "pos < length data")
      case True
      then show ?thesis using Cons.IH [OF sp, of "pos + 1"] by (auto simp: g0 algebra_simps)
    next
      case False
      then show ?thesis by (auto simp: g0)
    qed
    finally show ?thesis by (simp add: rs g0(2))
  next
    case True
    have g0: "g0 = []" "gs = (if g = [] then gs' else g # gs')"
      using Cons.prems(1) sp True by (auto simp: Let_def)
    have lk: "like (t # ts) (drop pos data) \<longleftrightarrow>
        (\<exists>p. pos \<le> p \<and> p + length g \<le> length data \<and> match_at data p g \<and> runs_spec ts data gs' (p + length g))"
      using like_Pct [OF Cons.prems(2), of ts] Cons.IH [OF sp] True by (metis add_leE)
    have "\<dots> \<longleftrightarrow> runs_spec (t # ts) data gs pos"
    proof (cases "Pct \<in> set ts")
      case False
      have g: "g = ts" "gs' = []" using split_runs_no_Pct [OF False] sp by simp_all
      show ?thesis
      proof (cases "ts = []")
        case ts: True
        then show ?thesis using Cons.prems(2) g True g0 by (auto simp: runs_spec_def)
      next
        case ts: False
        then have "last ts \<noteq> Pct" using False last_in_set by metis
        with ts show ?thesis using g True g0 False
          by (auto simp: runs_spec_def) (metis add_diff_cancel_right' le_add_diff_inverse2)+
      qed
    next
      case mem: True
      then have ne: "ts \<noteq> []" by auto
      show ?thesis
      proof (cases "last ts = Pct")
        case last: True
        then show ?thesis using mem ne True g0 placed_mono [of data gs' _ "length data" pos "length data"]
            placed_length [of data gs' _ "length data"] Cons.prems(2)
          by (auto simp: runs_spec_def)
      next
        case last: False
        have gs': "gs' \<noteq> []" using split_runs_later_nonempty [OF sp mem last] .
        define L where "L = length data - length (List.last gs')"
        define R where "R \<longleftrightarrow> length (List.last gs') \<le> length data \<and> match_at data L (List.last gs')"
        have L: "L \<le> length data" by (simp add: L_def)
        have ts: "runs_spec ts data gs' q \<longleftrightarrow> R \<and> placed data (butlast gs') q L" for q
          using mem last gs' by (auto simp: runs_spec_def R_def L_def)
        have "runs_spec (t # ts) data gs pos \<longleftrightarrow>
            R \<and> placed data ((if g = [] then [] else [g]) @ butlast gs') pos L"
          using ne last gs' True by (auto simp: runs_spec_def g0 R_def L_def)
        moreover have "(\<exists>p\<ge>pos. p + length g \<le> length data \<and> match_at data p g \<and> placed data (butlast gs') (p + length g) L)
            \<longleftrightarrow> placed data ((if g = [] then [] else [g]) @ butlast gs') pos L"
        proof (cases "g = []")
          case True
          then show ?thesis using Cons.prems(2) placed_mono by auto
        next
          case False
          then show ?thesis using L placed_le [of data "butlast gs'"] by (simp, meson order_trans)
        qed
        ultimately show ?thesis by (auto simp: ts)
      qed
    qed
    with lk Cons.prems(2) show ?thesis by (simp add: g0(1))
  qed
qed

section \<open>The compiled matcher\<close>

lemma split_runs_snoc: "split_runs (ts @ [Pct]) = split_runs ts"
  by (induction ts rule: split_runs.induct) (auto simp: Let_def)

lemma segments_of_Pct: "segments_of (Pct # ts) = segments_of ts"
  by (simp add: segments_of_def)

lemma segments_of_snoc: "segments_of (ts @ [Pct]) = segments_of ts"
  by (simp add: segments_of_def split_runs_snoc)

lemma segments_of_Nil: "segments_of toks = [] \<Longrightarrow> set toks \<subseteq> {Pct}"
proof (induction toks)
  case (Cons t ts)
  show ?case
  proof (cases "t = Pct")
    case True
    with Cons show ?thesis by (simp add: segments_of_Pct)
  next
    case False
    with Cons.prems show ?thesis
      by (cases t; cases "split_runs ts") (auto simp: segments_of_def)
  qed
qed simp

text \<open>Stripping one leading and one trailing percent sign does not change the segments.\<close>

lemma segments_of_core:
  "segments_of (take (strip_stop toks - strip_start toks) (drop (strip_start toks) toks)) = segments_of toks"
proof -
  define ts where "ts = drop (strip_start toks) toks"
  have ts: "segments_of ts = segments_of toks"
    by (cases toks) (auto simp: ts_def strip_start_def segments_of_Pct)
  show ?thesis
  proof (cases "length toks > strip_start toks \<and> toks ! (length toks - 1) = Pct")
    case True
    then have "ts \<noteq> []" "last ts = Pct" by (auto simp: ts_def last_drop last_conv_nth)
    then have "ts = butlast ts @ [Pct]" by (metis append_butlast_last_id)
    moreover have "take (strip_stop toks - strip_start toks) ts = butlast ts"
      using True by (simp add: ts_def butlast_conv_take strip_stop_def)
    ultimately show ?thesis using ts segments_of_snoc by (metis ts_def)
  next
    case False
    then have "strip_stop toks = length toks" unfolding strip_stop_def by (rule if_not_P)
    then show ?thesis using ts by (simp add: ts_def)
  qed
qed

text \<open>The number of segments that are anchored neither at the start nor at the end.\<close>

definition num_floating :: "SzLikeCompiled \<Rightarrow> nat" where
  "num_floating c = c_num_segments c - (if c_anchored_start c then 1 else 0) - (if c_anchored_end c then 1 else 0)"

lemma compile_segments_cases:
  "compile_segments env n as ae segs = LikeCompiled c \<Longrightarrow>
     c = (if segs = [] then \<lparr>c_min_len = 0, c_num_segments = 0, c_anchored_start = (n = 0),
            c_anchored_end = (n = 0), c_segments = []\<rparr>
          else \<lparr>c_min_len = sum_list (map length segs), c_num_segments = length segs,
            c_anchored_start = as, c_anchored_end = ae, c_segments = map mk_segment segs\<rparr>)"
  unfolding compile_segments_def Let_def
  by (simp split: if_split_asm)

lemma strip_anchors:
  assumes "segments_of toks \<noteq> []"
  shows "(strip_start toks = 0) = (hd toks \<noteq> Pct)" "(strip_stop toks = length toks) = (last toks \<noteq> Pct)"
proof -
  have ne: "toks \<noteq> []" "toks \<noteq> [Pct]" using assms by (auto simp: segments_of_def)
  then show "(strip_start toks = 0) = (hd toks \<noteq> Pct)" by (auto simp: strip_start_def hd_conv_nth)
  have "length toks > strip_start toks" using ne by (cases toks) (auto simp: strip_start_def neq_Nil_conv)
  then show "(strip_stop toks = length toks) = (last toks \<noteq> Pct)"
    using ne by (auto simp: strip_stop_def last_conv_nth)
qed

lemma compile_cases:
  assumes "simd_like_compile_toks env toks = LikeCompiled c"
  shows "c = (if segments_of toks = []
    then \<lparr>c_min_len = 0, c_num_segments = 0, c_anchored_start = (toks = []),
            c_anchored_end = (toks = []), c_segments = []\<rparr>
    else \<lparr>c_min_len = sum_list (map length (segments_of toks)), c_num_segments = length (segments_of toks),
            c_anchored_start = (hd toks \<noteq> Pct), c_anchored_end = (last toks \<noteq> Pct),
            c_segments = map mk_segment (segments_of toks)\<rparr>)"
  using compile_segments_cases [OF assms [unfolded simd_like_compile_toks_def segments_of_core]] strip_anchors
  by (cases "segments_of toks = []") simp_all

text \<open>The matcher in terms of the runs of the pattern.\<close>

definition stage_float :: "uint8 list \<Rightarrow> ptok list list \<Rightarrow> nat \<Rightarrow> nat \<Rightarrow> bool" where
  "stage_float data gs pos remaining \<longleftrightarrow> float_loop data (map mk_segment gs) pos remaining \<noteq> None"

definition match_runs :: "ptok list \<Rightarrow> uint8 list \<Rightarrow> ptok list \<Rightarrow> ptok list list \<Rightarrow> bool" where
  "match_runs toks data g0 gs \<longleftrightarrow>
     length g0 \<le> length data \<and> match_at data 0 g0
     \<and> (if Pct \<notin> set toks then length g0 = length data
        else if last toks = Pct then stage_float data gs (length g0) (length data - length g0)
        else length (last gs) \<le> length data - length g0
          \<and> match_at data (length data - length (last gs)) (last gs)
          \<and> stage_float data (butlast gs) (length g0) (length data - length g0 - length (last gs)))"

lemma match_start_runs:
  assumes "c_segments c = map mk_segment (segments_of toks)" "c_anchored_start c = (hd toks \<noteq> Pct)"
    "split_runs toks = (g0, gs)" "segments_of toks \<noteq> []"
  shows "match_start data c = (if length g0 \<le> length data \<and> match_at data 0 g0
    then Some (length g0, length data - length g0, map mk_segment gs) else None)"
proof (cases "hd toks = Pct")
  case True
  then have "g0 = []" using assms(3,4) by (cases toks) (auto simp: Let_def segments_of_def)
  with assms True show ?thesis by (simp add: match_start_def segments_of_def)
next
  case False
  then have "g0 \<noteq> []"
    using assms(3,4) by (cases toks; cases "hd toks") (auto simp: Let_def segments_of_def split: prod.splits)
  with assms False show ?thesis
    by (auto simp: match_start_def segments_of_def seg_at_match Let_def)
qed

lemma match_compiled_runs:
  assumes comp: "simd_like_compile_toks env toks = LikeCompiled c" and ne: "segments_of toks \<noteq> []"
    and sp: "split_runs toks = (g0, gs)" and len: "c_min_len c \<le> length data"
  shows "simd_like_match_compiled data c \<longleftrightarrow> match_runs toks data g0 gs"
proof -
  note c = compile_cases [OF comp] ne
  have start: "match_start data c = (if length g0 \<le> length data \<and> match_at data 0 g0
      then Some (length g0, length data - length g0, map mk_segment gs) else None)"
    using match_start_runs [OF _ _ sp ne, of c data] c by simp
  have num: "c_num_segments c \<noteq> 0" using c by simp
  have ae: "c_anchored_end c = (last toks \<noteq> Pct)" using c by simp
  have toks: "toks \<noteq> []" using ne by (auto simp: segments_of_def)
  have eq: "simd_like_match_compiled data c =
    (case Option.bind (match_start data c) (match_end data c) of
       None \<Rightarrow> False
     | Some (pos, remaining, segs, end_done) \<Rightarrow>
         (case float_loop data segs pos remaining of
            None \<Rightarrow> False
          | Some (pos', _) \<Rightarrow> \<not> (c_anchored_end c \<and> \<not> end_done \<and> pos' \<noteq> length data)))"
    using len num by (simp add: simd_like_match_compiled_def)
  show ?thesis
  proof (cases "length g0 \<le> length data \<and> match_at data 0 g0")
    case False
    then show ?thesis by (simp only: eq start) (auto simp: match_runs_def)
  next
    case fits: True
    show ?thesis
    proof (cases "Pct \<in> set toks")
      case False
      then have "gs = []" "last toks \<noteq> Pct"
        using split_runs_no_Pct [OF False] sp toks by (auto dest: last_in_set)
      with fits False show ?thesis
        by (simp add: eq start match_runs_def match_end_def ae)
    next
      case mem: True
      show ?thesis
      proof (cases "last toks = Pct")
        case True
        with fits mem show ?thesis
          by (auto simp: eq start match_runs_def match_end_def ae stage_float_def split: option.splits)
      next
        case False
        have gs: "gs \<noteq> []" using split_runs_later_nonempty [OF sp mem False] .
        then have "last (map mk_segment gs) = mk_segment (last gs)"
            "butlast (map mk_segment gs) = map mk_segment (butlast gs)"
          by (simp_all add: last_map map_butlast)
        with fits mem False gs show ?thesis
          by (auto simp: eq start match_runs_def match_end_def ae stage_float_def Let_def seg_at_match
              split: option.splits)
      qed
    qed
  qed
qed

lemma like_all_Pct:
  assumes "set toks \<subseteq> {Pct}" "toks \<noteq> []"
  shows "like toks data"
  using assms
proof (induction toks arbitrary: data)
  case (Cons t ts)
  have "like (Pct # ts) s" if "like ts []" for s
    using that by (induction s) auto
  moreover have "like ts []" using Cons by (cases "ts = []") auto
  ultimately show ?case using Cons.prems by simp
qed simp

lemma like_min_len:
  assumes "split_runs toks = (g0, gs)" "like toks data"
  shows "length g0 + sum_list (map length gs) \<le> length data"
proof -
  have r: "length g0 \<le> length data" "runs_spec toks data gs (length g0)"
    using like_runs [OF assms(1), of 0 data] assms(2) by simp_all
  show ?thesis
  proof (cases "Pct \<in> set toks")
    case False
    with assms(1) split_runs_no_Pct [OF False] r show ?thesis by (auto simp: runs_spec_def)
  next
    case True
    show ?thesis
    proof (cases "last toks = Pct")
      case last: True
      with True r show ?thesis by (auto simp: runs_spec_def dest: placed_length)
    next
      case False
      with True r have *: "gs \<noteq> []" "placed data (butlast gs) (length g0) (length data - length (last gs))"
          "length (last gs) \<le> length data"
        by (simp_all add: runs_spec_def)
      obtain xs e where "gs = xs @ [e]" using *(1) by (cases gs rule: rev_cases) auto
      with placed_length [OF *(2)] *(3) show ?thesis by simp
    qed
  qed
qed

lemma stage_float_complete:
  "pos + remaining \<le> length data \<Longrightarrow> placed data gs pos (pos + remaining) \<Longrightarrow> stage_float data gs pos remaining"
  unfolding stage_float_def by (rule float_loop_complete)

lemma stage_float_sound:
  "stage_float data gs pos remaining \<Longrightarrow> pos + remaining \<le> length data \<Longrightarrow>
     pos + remaining = length data \<or> length gs \<le> 1 \<Longrightarrow> placed data gs pos (pos + remaining)"
  unfolding stage_float_def using float_loop_sound by blast

lemma match_runs_complete:
  assumes "length g0 \<le> length data" "match_at data 0 g0" "runs_spec toks data gs (length g0)"
  shows "match_runs toks data g0 gs"
proof (cases "Pct \<in> set toks \<and> last toks \<noteq> Pct")
  case True
  let ?r = "length data - length g0 - length (last gs)"
  have p: "placed data (butlast gs) (length g0) (length data - length (last gs))"
      "length (last gs) \<le> length data"
    using assms(3) True by (simp_all add: runs_spec_def)
  then have "length g0 + ?r = length data - length (last gs)" using placed_le by fastforce
  with p have "stage_float data (butlast gs) (length g0) ?r"
    by (intro stage_float_complete) simp_all
  with assms True placed_le [OF p(1)] p(2) show ?thesis by (simp add: match_runs_def runs_spec_def)
next
  case False
  show ?thesis
  proof (cases "Pct \<in> set toks")
    case True
    with False assms have "stage_float data gs (length g0) (length data - length g0)"
      by (intro stage_float_complete) (simp_all add: runs_spec_def)
    with assms True False show ?thesis by (simp add: match_runs_def)
  next
    case False
    with assms show ?thesis by (simp add: match_runs_def runs_spec_def)
  qed
qed

lemma match_runs_sound:
  assumes "match_runs toks data g0 gs" "split_runs toks = (g0, gs)"
    and float: "last toks = Pct \<or> length (butlast gs) \<le> 1"
  shows "length g0 \<le> length data \<and> match_at data 0 g0 \<and> runs_spec toks data gs (length g0)"
proof (cases "Pct \<in> set toks \<and> last toks \<noteq> Pct")
  case True
  let ?r = "length data - length g0 - length (last gs)"
  have m: "length g0 \<le> length data" "match_at data 0 g0" "length (last gs) \<le> length data - length g0"
      "match_at data (length data - length (last gs)) (last gs)"
      "stage_float data (butlast gs) (length g0) ?r"
    using assms(1) True by (simp_all add: match_runs_def)
  then have "length g0 + ?r = length data - length (last gs)" by simp
  with stage_float_sound [OF m(5)] float True
  have "placed data (butlast gs) (length g0) (length data - length (last gs))" by simp
  with m True split_runs_later_nonempty [OF assms(2)] show ?thesis by (simp add: runs_spec_def)
next
  case False
  show ?thesis
  proof (cases "Pct \<in> set toks")
    case True
    with False assms(1) have "length g0 \<le> length data" "match_at data 0 g0"
        "stage_float data gs (length g0) (length data - length g0)"
      by (simp_all add: match_runs_def)
    with stage_float_sound [of data gs "length g0" "length data - length g0"] True False
    show ?thesis by (simp add: runs_spec_def)
  next
    case False
    with assms(1) show ?thesis by (simp add: match_runs_def runs_spec_def)
  qed
qed

lemma match_compiled_complete:
  assumes "simd_like_compile_toks env toks = LikeCompiled c" "like toks data"
  shows "simd_like_match_compiled data c"
proof (cases "segments_of toks = []")
  case True
  then show ?thesis
    using compile_cases [OF assms(1)] assms(2) by (auto simp: simd_like_match_compiled_def)
next
  case False
  obtain g0 gs where sp: "split_runs toks = (g0, gs)" by fastforce
  have "c_min_len c = length g0 + sum_list (map length gs)"
    using compile_cases [OF assms(1)] False sp by (simp add: segments_of_def)
  with like_min_len [OF sp assms(2)] have "c_min_len c \<le> length data" by simp
  note eq = match_compiled_runs [OF assms(1) False sp this]
  show ?thesis unfolding eq
    using like_runs [OF sp, of 0 data] assms(2) by (intro match_runs_complete) simp_all
qed

lemma match_compiled_sound:
  assumes "simd_like_compile_toks env toks = LikeCompiled c" "simd_like_match_compiled data c"
    and "c_anchored_end c \<Longrightarrow> num_floating c \<le> 1"
  shows "like toks data"
proof (cases "segments_of toks = []")
  case True
  then show ?thesis
    using compile_cases [OF assms(1)] assms(2) like_all_Pct [OF segments_of_Nil [OF True]]
    by (cases "toks = []") (auto simp: simd_like_match_compiled_def)
next
  case False
  note c = compile_cases [OF assms(1)]
  obtain g0 gs where sp: "split_runs toks = (g0, gs)" by fastforce
  have "c_min_len c \<le> length data" using assms(2) by (auto simp: simd_like_match_compiled_def split: if_splits)
  note eq = match_compiled_runs [OF assms(1) False sp this]
  have g0: "(hd toks = Pct) = (g0 = [])"
    using sp False by (cases toks; cases "hd toks") (auto simp: Let_def segments_of_def split: prod.splits)
  have "length (butlast gs) \<le> 1" if "last toks \<noteq> Pct"
    using assms(3) that c False g0 sp
    by (auto simp: num_floating_def segments_of_def Let_def split: if_splits)
  with match_runs_sound [OF assms(2) [unfolded eq] sp] like_runs [OF sp, of 0 data] show ?thesis by auto
qed

text \<open>
  Whenever LIKE holds, the compiled matcher answers true: no compiled
  pattern ever loses a row.
\<close>

lemma like_compiled_complete:
  assumes "decode pattern = Some toks" "simd_like_compile env pattern = LikeCompiled c" "like toks data"
  shows "simd_like_match_compiled data c"
  using assms match_compiled_complete by (auto simp: simd_like_compile_def split: if_splits)

text \<open>
  C13 (equivalence): the compiled matcher decides LIKE when the pattern ends in a percent
  sign or has at most one segment between its first and its last one.
\<close>

theorem like_compiled_correct:
  assumes "decode pattern = Some toks" "simd_like_compile env pattern = LikeCompiled c"
    and "c_anchored_end c \<Longrightarrow> num_floating c \<le> 1"
  shows "simd_like_match_compiled data c \<longleftrightarrow> like toks data"
  using assms match_compiled_complete match_compiled_sound
  by (auto simp: simd_like_compile_def split: if_splits)

text \<open>Byte strings of characters, for the examples.\<close>

definition bytes :: "string \<Rightarrow> uint8 list" where
  "bytes s = map of_char s"

definition example_enc :: enc_env where
  "example_enc = \<lparr>enc_max_length = 1, enc_is_utf8 = False, coll_is_deterministic = (\<lambda>_. True)\<rparr>"

lemmas like_eval =
  bytes_def ch_esc_def ch_pct_def ch_us_def example_enc_def simd_like_compile_def simd_like_compile_toks_def
  compile_segments_def strip_start_def strip_stop_def segments_of_def mk_segment_def Let_def
  SZ_LIKE_MAX_SEGMENTS_def SZ_LIKE_MAX_PIECES_def sz_like_max_literal_def

lemma example_like:
  "decode (bytes ''a%b_c%'') = Some [Lit 97, Pct, Lit 98, Us, Lit 99, Pct]"
  "\<exists>c. simd_like_compile example_enc (bytes ''a%b_c%'') = LikeCompiled c \<and> \<not> c_anchored_end c"
  by (simp_all add: like_eval)

lemma like_compiled_complete_witness:
  "\<exists>c. simd_like_compile example_enc (bytes ''a%b_c%'') = LikeCompiled c
    \<and> simd_like_match_compiled (bytes ''axbyczz'') c"
proof -
  obtain c where c: "simd_like_compile example_enc (bytes ''a%b_c%'') = LikeCompiled c"
    using example_like(2) by blast
  have "like [Lit 97, Pct, Lit 98, Us, Lit 99, Pct] (bytes ''axbyczz'')" by (simp add: bytes_def)
  from like_compiled_complete [OF example_like(1) c this] c show ?thesis by blast
qed

theorem like_compiled_correct_witness:
  "\<exists>c. simd_like_compile example_enc (bytes ''a%b_c%'') = LikeCompiled c
    \<and> simd_like_match_compiled (bytes ''axbyc'') c \<and> \<not> simd_like_match_compiled (bytes ''axbc'') c"
proof -
  obtain c where c: "simd_like_compile example_enc (bytes ''a%b_c%'') = LikeCompiled c" "\<not> c_anchored_end c"
    using example_like(2) by blast
  have "like [Lit 97, Pct, Lit 98, Us, Lit 99, Pct] (bytes ''axbyc'')"
      "\<not> like [Lit 97, Pct, Lit 98, Us, Lit 99, Pct] (bytes ''axbc'')"
    by (simp_all add: bytes_def)
  with like_compiled_correct [OF example_like(1) c(1)] c show ?thesis by auto
qed

text \<open>
  a code bug. For \<open>%ab%cd%cd\<close> the loop takes the end of the data as limit
  after its first hit, so the last floating segment may overlap the anchored one: the
  matcher accepts \<open>xxabcd\<close>, which LIKE rejects.
\<close>

theorem like_compiled_overlap:
  "decode (bytes ''%ab%cd%cd'') = Some [Pct, Lit 97, Lit 98, Pct, Lit 99, Lit 100, Pct, Lit 99, Lit 100]
   \<and> \<not> like [Pct, Lit 97, Lit 98, Pct, Lit 99, Lit 100, Pct, Lit 99, Lit 100] (bytes ''xxabcd'')
   \<and> (\<exists>c. simd_like_compile example_enc (bytes ''%ab%cd%cd'') = LikeCompiled c
        \<and> simd_like_match_compiled (bytes ''xxabcd'') c)"
  by (simp add: like_eval simd_like_match_compiled_def match_start_def match_end_def seg_at_def piece_at_def
      float_loop.simps seg_search.simps memchr_def anchor_at_def other_pieces_at_def upt_conv_Cons)

section \<open>Simple patterns\<close>

definition plain :: "uint8 list \<Rightarrow> bool" where
  "plain l \<longleftrightarrow> \<not> list_ex (\<lambda>c. c = ch_pct \<or> c = ch_us \<or> c = ch_esc) l"

lemma decode_plain: "plain l \<Longrightarrow> decode (l @ p) = map_option ((@) (map Lit l)) (decode p)"
  by (cases "decode p"; induction l) (auto simp: plain_def)

lemma decode_plain_nil: "plain l \<Longrightarrow> decode l = Some (map Lit l)"
  using decode_plain [of l "[]"] by simp

lemma like_only_lits: "like (map Lit l) s \<longleftrightarrow> s = l"
proof (induction l arbitrary: s)
  case Nil
  show ?case by (cases s) simp_all
next
  case (Cons c l)
  show ?case using Cons.IH by (cases s) auto
qed

lemma like_lits: "like (map Lit l @ r) s \<longleftrightarrow>
    length l \<le> length s \<and> take (length l) s = l \<and> like r (drop (length l) s)"
proof (induction l arbitrary: s)
  case (Cons c l)
  then show ?case by (cases s) auto
qed simp

lemma like_Pct_all: "like [Pct] s"
  by (induction s) auto

lemma like_lits_Pct: "like (map Lit l @ [Pct]) s \<longleftrightarrow> length l \<le> length s \<and> take (length l) s = l"
  by (simp only: like_lits like_Pct_all simp_thms)

lemma like_Pct_0: "like (Pct # r) s \<longleftrightarrow> (\<exists>p\<le>length s. like r (drop p s))"
  using like_Pct [of 0 s r] by simp

lemma sz_find_Some:
  assumes "length l \<le> length s"
  shows "sz_find s l \<noteq> None \<longleftrightarrow> (\<exists>p. p + length l \<le> length s \<and> take (length l) (drop p s) = l)"
proof -
  have "p \<in> set [0..<length s + 1 - length l] \<longleftrightarrow> p + length l \<le> length s" for p
    using assms by auto
  then show ?thesis unfolding sz_find_def find_None_iff by auto
qed

lemma like_interior:
  "like (Pct # map Lit l @ [Pct]) s \<longleftrightarrow> length l \<le> length s \<and> sz_find s l \<noteq> None"
proof -
  have arith: "(p \<le> n \<and> m \<le> n - p) = (p + m \<le> n)" for p m n :: nat by arith
  have "like (Pct # map Lit l @ [Pct]) s \<longleftrightarrow>
      (\<exists>p. (p \<le> length s \<and> length l \<le> length s - p) \<and> take (length l) (drop p s) = l)"
    unfolding like_Pct_0 [of "map Lit l @ [Pct]"] like_lits_Pct by auto
  also have "\<dots> \<longleftrightarrow> length l \<le> length s \<and> (\<exists>p. p + length l \<le> length s \<and> take (length l) (drop p s) = l)"
    unfolding arith by auto
  finally show ?thesis using sz_find_Some [of l s] by blast
qed

text \<open>Whether a pattern starts with, and then whether its rest ends with, a percent sign.\<close>

lemma classify_split:
  assumes "simd_like_classify env pattern = Some (ty, lit)"
  obtains (exact) "ty = LIKE_MATCH_EXACT" "lit = Some pattern" "plain pattern"
  | (pre) l where "ty = LIKE_MATCH_PREFIX" "lit = Some l" "plain l" "pattern = l @ [ch_pct]"
  | (suf) l where "ty = LIKE_MATCH_SUFFIX" "lit = Some l" "plain l" "pattern = ch_pct # l"
  | (inn) l where "ty = LIKE_MATCH_INTERIOR" "lit = Some l" "plain l" "pattern = ch_pct # l @ [ch_pct]"
  | (all1) "lit = None" "pattern = [ch_pct]"
  | (all2) "lit = None" "pattern = [ch_pct, ch_pct]"
proof (cases "pattern \<noteq> [] \<and> hd pattern = ch_pct")
  case True
  then obtain rest where rest: "pattern = ch_pct # rest" by (cases pattern) auto
  show thesis
  proof (cases "rest \<noteq> [] \<and> last rest = ch_pct")
    case True
    then obtain l where l: "rest = l @ [ch_pct]" by (metis append_butlast_last_id)
    with rest assms show thesis
      by (cases "l = []") (auto simp: simd_like_classify_def plain_def nth_append intro: inn all2 split: if_splits)
  next
    case False
    with rest assms show thesis
      by (cases "rest = []")
         (auto simp: simd_like_classify_def plain_def last_conv_nth intro: suf all1 split: if_splits)
  qed
next
  case False
  then have lead: "\<not> (length pattern > 0 \<and> pattern ! 0 = ch_pct)" by (auto simp: hd_conv_nth)
  show thesis
  proof (cases "pattern \<noteq> [] \<and> last pattern = ch_pct")
    case True
    then obtain l where l: "pattern = l @ [ch_pct]" by (metis append_butlast_last_id)
    have "l \<noteq> []" using False l by auto
    with l lead assms show thesis
      by (auto simp: simd_like_classify_def plain_def nth_append intro: pre split: if_splits)
  next
    case False
    with lead assms show thesis
      by (cases "pattern = []")
         (auto simp: simd_like_classify_def plain_def last_conv_nth intro: exact split: if_splits)
  qed
qed

lemma decode_specials: "decode (ch_pct # p) = map_option ((#) Pct) (decode p)" "decode [] = Some []"
  by simp_all

text \<open>
  C30 (equivalence): for every pattern that is classified as simple, matching the text
  against the extracted literal decides LIKE, and a pattern without a literal matches every
  text.
\<close>

theorem like_classify_correct:
  assumes "simd_like_classify env pattern = Some (ty, lit)" "decode pattern = Some toks"
  shows "like toks data \<longleftrightarrow> (case lit of Some l \<Rightarrow> simd_like_match_text data l ty | None \<Rightarrow> True)"
  using assms(1)
proof (cases rule: classify_split)
  case exact
  then have "toks = map Lit pattern" using assms(2) decode_plain_nil by force
  then have "like toks data \<longleftrightarrow> data = pattern"
    using like_only_lits [of pattern data] by auto
  then show ?thesis using exact(1,2) by (simp add: simd_like_match_text_def) blast
next
  case (pre l)
  have "toks = map Lit l @ [Pct]" using pre assms(2) decode_plain [of l "[ch_pct]"] by simp
  then have "like toks data \<longleftrightarrow> length l \<le> length data \<and> take (length l) data = l"
    using like_lits_Pct by blast
  then show ?thesis using pre(1,2) by (simp add: simd_like_match_text_def)
next
  case (suf l)
  have "toks = Pct # map Lit l" using suf assms(2) decode_plain [of l "[]"] by simp
  then have "like toks data \<longleftrightarrow> (\<exists>p\<le>length data. drop p data = l)"
    using like_lits [of l "[]"] by (auto simp: like_Pct_0)
  also have "\<dots> \<longleftrightarrow> length l \<le> length data \<and> drop (length data - length l) data = l"
    by (auto intro: exI [of _ "length data - length l"])
  finally show ?thesis using suf by (simp add: simd_like_match_text_def)
next
  case (inn l)
  have "toks = Pct # map Lit l @ [Pct]" using inn assms(2) decode_plain [of l "[ch_pct]"] by simp
  then have "like toks data \<longleftrightarrow> length l \<le> length data \<and> sz_find data l \<noteq> None"
    using like_interior by blast
  then show ?thesis using inn(1,2) by (simp add: simd_like_match_text_def)
next
  case all1
  then show ?thesis using assms(2) like_Pct_all by auto
next
  case all2
  have "like [Pct, Pct] t" for t by (induction t) auto
  then show ?thesis using all2 assms(2) by auto
qed

theorem like_classify_correct_witness:
  "like [Lit 97, Lit 98, Pct] (bytes ''abc'')
   \<longleftrightarrow> simd_like_match_text (bytes ''abc'') (bytes ''ab'') LIKE_MATCH_PREFIX"
proof -
  have "simd_like_classify example_enc (bytes ''ab%'') = Some (LIKE_MATCH_PREFIX, Some (bytes ''ab''))"
    by (simp add: simd_like_classify_def bytes_def example_enc_def ch_pct_def ch_us_def ch_esc_def Let_def)
  moreover have "decode (bytes ''ab%'') = Some [Lit 97, Lit 98, Pct]"
    by (simp add: bytes_def ch_pct_def ch_us_def ch_esc_def)
  ultimately show ?thesis
    using like_classify_correct by fastforce
qed

end
