(* ===== verification/IntFuncs.thy ===== *)
theory IntFuncs
  imports Prelude DirectTable "HOL-Library.Signed_Division"
begin

unbundle bit_operations_syntax

text \<open>
  The directly called functions on integer-like types of \<open>pg_jit_funcs.c\<close>: arithmetic with
  its errors, comparisons within and across int2, int4 and int8, minimum and maximum,
  bitwise functions, casts, the small scalar types (bool, "char", xid, oid, pg_lsn,
  timestamp, date, money), hashes and the sum transitions.

  Each C function has one definition with its name. PostgreSQL's inline functions of
  \<open>common/int.h\<close> and \<open>hash_bytes_uint32\<close> are parameters (\<open>pg_prims\<close>); an \<open>ereport\<close> is the
  left case of the result. A function of the table is called with registers: an argument
  of class \<open>JIT_TYPE_32\<close> is the low half of the datum.
\<close>

section \<open>What PostgreSQL provides\<close>

text \<open>
  \<open>pg_add_s32_overflow\<close> and its kin return whether the exact result overflows, and store the
  result if it does not; what is stored otherwise is not documented.
\<close>

record 'w pg_overflow =
  add_overflow :: "'w \<Rightarrow> 'w \<Rightarrow> bool \<times> 'w"
  sub_overflow :: "'w \<Rightarrow> 'w \<Rightarrow> bool \<times> 'w"
  mul_overflow :: "'w \<Rightarrow> 'w \<Rightarrow> bool \<times> 'w"

record pg_prims =
  s32 :: "int32 pg_overflow"
  s64 :: "int64 pg_overflow"
  hash_bytes_uint32 :: "uint32 \<Rightarrow> uint32"
  hash_bytes_uint32_extended :: "uint32 \<Rightarrow> uint64 \<Rightarrow> uint64"

definition documented_op :: "('a::len word \<Rightarrow> 'a word \<Rightarrow> bool \<times> 'a word) \<Rightarrow> (int \<Rightarrow> int \<Rightarrow> int) \<Rightarrow> bool" where
  "documented_op f g \<longleftrightarrow>
     (\<forall>a b. (fst (f a b) \<longleftrightarrow> \<not> sfits LENGTH('a) (g (sint a) (sint b)))
        \<and> (\<not> fst (f a b) \<longrightarrow> sint (snd (f a b)) = g (sint a) (sint b)))"

definition documented_overflow :: "'a::len word pg_overflow \<Rightarrow> bool" where
  "documented_overflow P \<longleftrightarrow>
     documented_op (add_overflow P) (+) \<and> documented_op (sub_overflow P) (-) \<and> documented_op (mul_overflow P) (*)"

definition documented_prims :: "pg_prims \<Rightarrow> bool" where
  "documented_prims E \<longleftrightarrow> documented_overflow (s32 E) \<and> documented_overflow (s64 E)"

section \<open>Errors\<close>

text \<open>\<open>if (unlikely(overflow)) jit_error(); return r;\<close>\<close>

definition checked :: "pg_error \<Rightarrow> bool \<times> 'a \<Rightarrow> pg_error + 'a" where
  "checked err r = (if fst r then Inl err else Inr (snd r))"

text \<open>C's division truncates towards zero; the remainder has the sign of the dividend.\<close>

definition c_div :: "'a::len word \<Rightarrow> 'a word \<Rightarrow> 'a word" where
  "c_div a b = word_of_int (sint a sdiv sint b)"

definition c_rem :: "'a::len word \<Rightarrow> 'a word \<Rightarrow> 'a word" where
  "c_rem a b = word_of_int (sint a smod sint b)"

definition PG_INT16_MIN :: int16 where "PG_INT16_MIN = - (2 ^ 15)"
definition PG_INT32_MIN :: int32 where "PG_INT32_MIN = - (2 ^ 31)"
definition PG_INT64_MIN :: int64 where "PG_INT64_MIN = - (2 ^ 63)"

section \<open>int4 arithmetic\<close>

definition jit_int4pl :: "pg_prims \<Rightarrow> int32 \<Rightarrow> int32 \<Rightarrow> pg_error + int32" where
  "jit_int4pl E a b = checked Integer_out_of_range (add_overflow (s32 E) a b)"

definition jit_int4mi :: "pg_prims \<Rightarrow> int32 \<Rightarrow> int32 \<Rightarrow> pg_error + int32" where
  "jit_int4mi E a b = checked Integer_out_of_range (sub_overflow (s32 E) a b)"

definition jit_int4mul :: "pg_prims \<Rightarrow> int32 \<Rightarrow> int32 \<Rightarrow> pg_error + int32" where
  "jit_int4mul E a b = checked Integer_out_of_range (mul_overflow (s32 E) a b)"

definition jit_int4div :: "int32 \<Rightarrow> int32 \<Rightarrow> pg_error + int32" where
  "jit_int4div a b =
     (if b = 0 then Inl Division_by_zero
      else if a = PG_INT32_MIN \<and> b = - 1 then Inl Integer_out_of_range
      else Inr (c_div a b))"

definition jit_int4mod :: "int32 \<Rightarrow> int32 \<Rightarrow> pg_error + int32" where
  "jit_int4mod a b =
     (if b = 0 then Inl Division_by_zero
      else if a = PG_INT32_MIN \<and> b = - 1 then Inr 0
      else Inr (c_rem a b))"

definition jit_int4abs :: "int32 \<Rightarrow> pg_error + int32" where
  "jit_int4abs a = (if a = PG_INT32_MIN then Inl Integer_out_of_range else Inr (if sint a < 0 then - a else a))"

definition jit_int4inc :: "pg_prims \<Rightarrow> int32 \<Rightarrow> pg_error + int32" where
  "jit_int4inc E a = checked Integer_out_of_range (add_overflow (s32 E) a 1)"

definition jit_int4um :: "int32 \<Rightarrow> pg_error + int32" where
  "jit_int4um a = (if a = PG_INT32_MIN then Inl Integer_out_of_range else Inr (- a))"

definition jit_int4up :: "int32 \<Rightarrow> int32" where
  "jit_int4up a = a"

section \<open>int8 arithmetic\<close>

definition jit_int8pl :: "pg_prims \<Rightarrow> int64 \<Rightarrow> int64 \<Rightarrow> pg_error + int64" where
  "jit_int8pl E a b = checked Bigint_out_of_range (add_overflow (s64 E) a b)"

definition jit_int8mi :: "pg_prims \<Rightarrow> int64 \<Rightarrow> int64 \<Rightarrow> pg_error + int64" where
  "jit_int8mi E a b = checked Bigint_out_of_range (sub_overflow (s64 E) a b)"

definition jit_int8mul :: "pg_prims \<Rightarrow> int64 \<Rightarrow> int64 \<Rightarrow> pg_error + int64" where
  "jit_int8mul E a b = checked Bigint_out_of_range (mul_overflow (s64 E) a b)"

definition jit_int8div :: "int64 \<Rightarrow> int64 \<Rightarrow> pg_error + int64" where
  "jit_int8div a b =
     (if b = 0 then Inl Division_by_zero
      else if a = PG_INT64_MIN \<and> b = - 1 then Inl Bigint_out_of_range
      else Inr (c_div a b))"

definition jit_int8mod :: "int64 \<Rightarrow> int64 \<Rightarrow> pg_error + int64" where
  "jit_int8mod a b =
     (if b = 0 then Inl Division_by_zero
      else if a = PG_INT64_MIN \<and> b = - 1 then Inr 0
      else Inr (c_rem a b))"

definition jit_int8abs :: "int64 \<Rightarrow> pg_error + int64" where
  "jit_int8abs a = (if a = PG_INT64_MIN then Inl Bigint_out_of_range else Inr (if sint a < 0 then - a else a))"

definition jit_int8inc :: "pg_prims \<Rightarrow> int64 \<Rightarrow> pg_error + int64" where
  "jit_int8inc E a = checked Bigint_out_of_range (add_overflow (s64 E) a 1)"

definition jit_int8dec :: "pg_prims \<Rightarrow> int64 \<Rightarrow> pg_error + int64" where
  "jit_int8dec E a = checked Bigint_out_of_range (sub_overflow (s64 E) a 1)"

definition jit_int8um :: "int64 \<Rightarrow> pg_error + int64" where
  "jit_int8um a = (if a = PG_INT64_MIN then Inl Bigint_out_of_range else Inr (- a))"

definition jit_int8up :: "int64 \<Rightarrow> int64" where
  "jit_int8up a = a"

section \<open>int2 arithmetic\<close>

text \<open>An int2 is passed in 32 bits; the C code narrows it, computes with \<open>int\<close> and narrows again.\<close>

abbreviation to_i16 :: "int32 \<Rightarrow> int16" where "to_i16 a \<equiv> scast a"
abbreviation of_i16 :: "int16 \<Rightarrow> int32" where "of_i16 a \<equiv> scast a"

definition int2_result :: "int32 \<Rightarrow> pg_error + int32" where
  "int2_result r =
     (if sint r < - (2 ^ 15) \<or> sint r > 2 ^ 15 - 1 then Inl Smallint_out_of_range
      else Inr (of_i16 (to_i16 r)))"

definition jit_int2pl :: "int32 \<Rightarrow> int32 \<Rightarrow> pg_error + int32" where
  "jit_int2pl a32 b32 = int2_result (of_i16 (to_i16 a32) + of_i16 (to_i16 b32))"

definition jit_int2mi :: "int32 \<Rightarrow> int32 \<Rightarrow> pg_error + int32" where
  "jit_int2mi a32 b32 = int2_result (of_i16 (to_i16 a32) - of_i16 (to_i16 b32))"

definition jit_int2mul :: "int32 \<Rightarrow> int32 \<Rightarrow> pg_error + int32" where
  "jit_int2mul a32 b32 = int2_result (of_i16 (to_i16 a32) * of_i16 (to_i16 b32))"

definition jit_int2div :: "int32 \<Rightarrow> int32 \<Rightarrow> pg_error + int32" where
  "jit_int2div a32 b32 =
     (let a = to_i16 a32; b = to_i16 b32
      in if b = 0 then Inl Division_by_zero
         else if a = PG_INT16_MIN \<and> b = - 1 then Inl Smallint_out_of_range
         else Inr (c_div (of_i16 a) (of_i16 b)))"

definition jit_int2mod :: "int32 \<Rightarrow> int32 \<Rightarrow> pg_error + int32" where
  "jit_int2mod a32 b32 =
     (let a = to_i16 a32; b = to_i16 b32
      in if b = 0 then Inl Division_by_zero
         else if a = PG_INT16_MIN \<and> b = - 1 then Inr 0
         else Inr (c_rem (of_i16 a) (of_i16 b)))"

definition jit_int2abs :: "int32 \<Rightarrow> pg_error + int32" where
  "jit_int2abs a32 =
     (let a = to_i16 a32
      in if a = PG_INT16_MIN then Inl Smallint_out_of_range
         else Inr (if sint a < 0 then - of_i16 a else of_i16 a))"

definition jit_int2um :: "int32 \<Rightarrow> pg_error + int32" where
  "jit_int2um a32 =
     (let a = to_i16 a32
      in if a = PG_INT16_MIN then Inl Smallint_out_of_range
         else Inr (of_i16 (to_i16 (- of_i16 a))))"

definition jit_int2up :: "int32 \<Rightarrow> int32" where
  "jit_int2up a32 = of_i16 (to_i16 a32)"

section \<open>Integer comparisons\<close>

text \<open>A C comparison of signed integers compares their values; the narrower operand is widened.\<close>

abbreviation i16_of64 :: "int64 \<Rightarrow> int16" where "i16_of64 a \<equiv> scast a"

definition jit_int4eq :: "int32 \<Rightarrow> int32 \<Rightarrow> int32" where
  "jit_int4eq a b = c_bool (sint a = sint b)"

definition jit_int4ne :: "int32 \<Rightarrow> int32 \<Rightarrow> int32" where
  "jit_int4ne a b = c_bool (sint a \<noteq> sint b)"

definition jit_int4lt :: "int32 \<Rightarrow> int32 \<Rightarrow> int32" where
  "jit_int4lt a b = c_bool (sint a < sint b)"

definition jit_int4le :: "int32 \<Rightarrow> int32 \<Rightarrow> int32" where
  "jit_int4le a b = c_bool (sint a \<le> sint b)"

definition jit_int4gt :: "int32 \<Rightarrow> int32 \<Rightarrow> int32" where
  "jit_int4gt a b = c_bool (sint a > sint b)"

definition jit_int4ge :: "int32 \<Rightarrow> int32 \<Rightarrow> int32" where
  "jit_int4ge a b = c_bool (sint a \<ge> sint b)"

definition jit_int8eq :: "int64 \<Rightarrow> int64 \<Rightarrow> int32" where
  "jit_int8eq a b = c_bool (sint a = sint b)"

definition jit_int8ne :: "int64 \<Rightarrow> int64 \<Rightarrow> int32" where
  "jit_int8ne a b = c_bool (sint a \<noteq> sint b)"

definition jit_int8lt :: "int64 \<Rightarrow> int64 \<Rightarrow> int32" where
  "jit_int8lt a b = c_bool (sint a < sint b)"

definition jit_int8le :: "int64 \<Rightarrow> int64 \<Rightarrow> int32" where
  "jit_int8le a b = c_bool (sint a \<le> sint b)"

definition jit_int8gt :: "int64 \<Rightarrow> int64 \<Rightarrow> int32" where
  "jit_int8gt a b = c_bool (sint a > sint b)"

definition jit_int8ge :: "int64 \<Rightarrow> int64 \<Rightarrow> int32" where
  "jit_int8ge a b = c_bool (sint a \<ge> sint b)"

definition jit_int2eq :: "int32 \<Rightarrow> int32 \<Rightarrow> int32" where
  "jit_int2eq a b = c_bool (sint (to_i16 a) = sint (to_i16 b))"

definition jit_int2ne :: "int32 \<Rightarrow> int32 \<Rightarrow> int32" where
  "jit_int2ne a b = c_bool (sint (to_i16 a) \<noteq> sint (to_i16 b))"

definition jit_int2lt :: "int32 \<Rightarrow> int32 \<Rightarrow> int32" where
  "jit_int2lt a b = c_bool (sint (to_i16 a) < sint (to_i16 b))"

definition jit_int2le :: "int32 \<Rightarrow> int32 \<Rightarrow> int32" where
  "jit_int2le a b = c_bool (sint (to_i16 a) \<le> sint (to_i16 b))"

definition jit_int2gt :: "int32 \<Rightarrow> int32 \<Rightarrow> int32" where
  "jit_int2gt a b = c_bool (sint (to_i16 a) > sint (to_i16 b))"

definition jit_int2ge :: "int32 \<Rightarrow> int32 \<Rightarrow> int32" where
  "jit_int2ge a b = c_bool (sint (to_i16 a) \<ge> sint (to_i16 b))"

definition jit_int48eq :: "int32 \<Rightarrow> int64 \<Rightarrow> int32" where
  "jit_int48eq a b = c_bool (sint (scast a :: int64) = sint b)"

definition jit_int48ne :: "int32 \<Rightarrow> int64 \<Rightarrow> int32" where
  "jit_int48ne a b = c_bool (sint (scast a :: int64) \<noteq> sint b)"

definition jit_int48lt :: "int32 \<Rightarrow> int64 \<Rightarrow> int32" where
  "jit_int48lt a b = c_bool (sint (scast a :: int64) < sint b)"

definition jit_int48le :: "int32 \<Rightarrow> int64 \<Rightarrow> int32" where
  "jit_int48le a b = c_bool (sint (scast a :: int64) \<le> sint b)"

definition jit_int48gt :: "int32 \<Rightarrow> int64 \<Rightarrow> int32" where
  "jit_int48gt a b = c_bool (sint (scast a :: int64) > sint b)"

definition jit_int48ge :: "int32 \<Rightarrow> int64 \<Rightarrow> int32" where
  "jit_int48ge a b = c_bool (sint (scast a :: int64) \<ge> sint b)"

definition jit_int84eq :: "int64 \<Rightarrow> int32 \<Rightarrow> int32" where
  "jit_int84eq a b = c_bool (sint a = sint (scast b :: int64))"

definition jit_int84ne :: "int64 \<Rightarrow> int32 \<Rightarrow> int32" where
  "jit_int84ne a b = c_bool (sint a \<noteq> sint (scast b :: int64))"

definition jit_int84lt :: "int64 \<Rightarrow> int32 \<Rightarrow> int32" where
  "jit_int84lt a b = c_bool (sint a < sint (scast b :: int64))"

definition jit_int84le :: "int64 \<Rightarrow> int32 \<Rightarrow> int32" where
  "jit_int84le a b = c_bool (sint a \<le> sint (scast b :: int64))"

definition jit_int84gt :: "int64 \<Rightarrow> int32 \<Rightarrow> int32" where
  "jit_int84gt a b = c_bool (sint a > sint (scast b :: int64))"

definition jit_int84ge :: "int64 \<Rightarrow> int32 \<Rightarrow> int32" where
  "jit_int84ge a b = c_bool (sint a \<ge> sint (scast b :: int64))"

definition jit_int24eq :: "int32 \<Rightarrow> int32 \<Rightarrow> int32" where
  "jit_int24eq a b = c_bool (sint (of_i16 (to_i16 a)) = sint b)"

definition jit_int24ne :: "int32 \<Rightarrow> int32 \<Rightarrow> int32" where
  "jit_int24ne a b = c_bool (sint (of_i16 (to_i16 a)) \<noteq> sint b)"

definition jit_int24lt :: "int32 \<Rightarrow> int32 \<Rightarrow> int32" where
  "jit_int24lt a b = c_bool (sint (of_i16 (to_i16 a)) < sint b)"

definition jit_int24le :: "int32 \<Rightarrow> int32 \<Rightarrow> int32" where
  "jit_int24le a b = c_bool (sint (of_i16 (to_i16 a)) \<le> sint b)"

definition jit_int24gt :: "int32 \<Rightarrow> int32 \<Rightarrow> int32" where
  "jit_int24gt a b = c_bool (sint (of_i16 (to_i16 a)) > sint b)"

definition jit_int24ge :: "int32 \<Rightarrow> int32 \<Rightarrow> int32" where
  "jit_int24ge a b = c_bool (sint (of_i16 (to_i16 a)) \<ge> sint b)"

definition jit_int42eq :: "int32 \<Rightarrow> int32 \<Rightarrow> int32" where
  "jit_int42eq a b = c_bool (sint a = sint (of_i16 (to_i16 b)))"

definition jit_int42ne :: "int32 \<Rightarrow> int32 \<Rightarrow> int32" where
  "jit_int42ne a b = c_bool (sint a \<noteq> sint (of_i16 (to_i16 b)))"

definition jit_int42lt :: "int32 \<Rightarrow> int32 \<Rightarrow> int32" where
  "jit_int42lt a b = c_bool (sint a < sint (of_i16 (to_i16 b)))"

definition jit_int42le :: "int32 \<Rightarrow> int32 \<Rightarrow> int32" where
  "jit_int42le a b = c_bool (sint a \<le> sint (of_i16 (to_i16 b)))"

definition jit_int42gt :: "int32 \<Rightarrow> int32 \<Rightarrow> int32" where
  "jit_int42gt a b = c_bool (sint a > sint (of_i16 (to_i16 b)))"

definition jit_int42ge :: "int32 \<Rightarrow> int32 \<Rightarrow> int32" where
  "jit_int42ge a b = c_bool (sint a \<ge> sint (of_i16 (to_i16 b)))"

definition jit_int28eq :: "int64 \<Rightarrow> int64 \<Rightarrow> int32" where
  "jit_int28eq a b = c_bool (sint (scast (i16_of64 a) :: int64) = sint b)"

definition jit_int28ne :: "int64 \<Rightarrow> int64 \<Rightarrow> int32" where
  "jit_int28ne a b = c_bool (sint (scast (i16_of64 a) :: int64) \<noteq> sint b)"

definition jit_int28lt :: "int64 \<Rightarrow> int64 \<Rightarrow> int32" where
  "jit_int28lt a b = c_bool (sint (scast (i16_of64 a) :: int64) < sint b)"

definition jit_int28le :: "int64 \<Rightarrow> int64 \<Rightarrow> int32" where
  "jit_int28le a b = c_bool (sint (scast (i16_of64 a) :: int64) \<le> sint b)"

definition jit_int28gt :: "int64 \<Rightarrow> int64 \<Rightarrow> int32" where
  "jit_int28gt a b = c_bool (sint (scast (i16_of64 a) :: int64) > sint b)"

definition jit_int28ge :: "int64 \<Rightarrow> int64 \<Rightarrow> int32" where
  "jit_int28ge a b = c_bool (sint (scast (i16_of64 a) :: int64) \<ge> sint b)"

definition jit_int82eq :: "int64 \<Rightarrow> int64 \<Rightarrow> int32" where
  "jit_int82eq a b = c_bool (sint a = sint (scast (i16_of64 b) :: int64))"

definition jit_int82ne :: "int64 \<Rightarrow> int64 \<Rightarrow> int32" where
  "jit_int82ne a b = c_bool (sint a \<noteq> sint (scast (i16_of64 b) :: int64))"

definition jit_int82lt :: "int64 \<Rightarrow> int64 \<Rightarrow> int32" where
  "jit_int82lt a b = c_bool (sint a < sint (scast (i16_of64 b) :: int64))"

definition jit_int82le :: "int64 \<Rightarrow> int64 \<Rightarrow> int32" where
  "jit_int82le a b = c_bool (sint a \<le> sint (scast (i16_of64 b) :: int64))"

definition jit_int82gt :: "int64 \<Rightarrow> int64 \<Rightarrow> int32" where
  "jit_int82gt a b = c_bool (sint a > sint (scast (i16_of64 b) :: int64))"

definition jit_int82ge :: "int64 \<Rightarrow> int64 \<Rightarrow> int32" where
  "jit_int82ge a b = c_bool (sint a \<ge> sint (scast (i16_of64 b) :: int64))"

section \<open>Arithmetic across integer types\<close>

definition jit_int24pl :: "pg_prims \<Rightarrow> int32 \<Rightarrow> int32 \<Rightarrow> pg_error + int32" where
  "jit_int24pl E a b = jit_int4pl E (of_i16 (to_i16 a)) b"

definition jit_int42pl :: "pg_prims \<Rightarrow> int32 \<Rightarrow> int32 \<Rightarrow> pg_error + int32" where
  "jit_int42pl E a b = jit_int4pl E a (of_i16 (to_i16 b))"

definition jit_int48pl :: "pg_prims \<Rightarrow> int64 \<Rightarrow> int64 \<Rightarrow> pg_error + int64" where
  "jit_int48pl E a b = jit_int8pl E (scast (scast a :: int32)) b"

definition jit_int84pl :: "pg_prims \<Rightarrow> int64 \<Rightarrow> int64 \<Rightarrow> pg_error + int64" where
  "jit_int84pl E a b = jit_int8pl E a (scast (scast b :: int32))"

definition jit_int28pl :: "pg_prims \<Rightarrow> int64 \<Rightarrow> int64 \<Rightarrow> pg_error + int64" where
  "jit_int28pl E a b = jit_int8pl E (scast (i16_of64 a)) b"

definition jit_int82pl :: "pg_prims \<Rightarrow> int64 \<Rightarrow> int64 \<Rightarrow> pg_error + int64" where
  "jit_int82pl E a b = jit_int8pl E a (scast (i16_of64 b))"

definition jit_int24mi :: "pg_prims \<Rightarrow> int32 \<Rightarrow> int32 \<Rightarrow> pg_error + int32" where
  "jit_int24mi E a b = jit_int4mi E (of_i16 (to_i16 a)) b"

definition jit_int42mi :: "pg_prims \<Rightarrow> int32 \<Rightarrow> int32 \<Rightarrow> pg_error + int32" where
  "jit_int42mi E a b = jit_int4mi E a (of_i16 (to_i16 b))"

definition jit_int48mi :: "pg_prims \<Rightarrow> int64 \<Rightarrow> int64 \<Rightarrow> pg_error + int64" where
  "jit_int48mi E a b = jit_int8mi E (scast (scast a :: int32)) b"

definition jit_int84mi :: "pg_prims \<Rightarrow> int64 \<Rightarrow> int64 \<Rightarrow> pg_error + int64" where
  "jit_int84mi E a b = jit_int8mi E a (scast (scast b :: int32))"

definition jit_int28mi :: "pg_prims \<Rightarrow> int64 \<Rightarrow> int64 \<Rightarrow> pg_error + int64" where
  "jit_int28mi E a b = jit_int8mi E (scast (i16_of64 a)) b"

definition jit_int82mi :: "pg_prims \<Rightarrow> int64 \<Rightarrow> int64 \<Rightarrow> pg_error + int64" where
  "jit_int82mi E a b = jit_int8mi E a (scast (i16_of64 b))"

definition jit_int24mul :: "pg_prims \<Rightarrow> int32 \<Rightarrow> int32 \<Rightarrow> pg_error + int32" where
  "jit_int24mul E a b = jit_int4mul E (of_i16 (to_i16 a)) b"

definition jit_int42mul :: "pg_prims \<Rightarrow> int32 \<Rightarrow> int32 \<Rightarrow> pg_error + int32" where
  "jit_int42mul E a b = jit_int4mul E a (of_i16 (to_i16 b))"

definition jit_int48mul :: "pg_prims \<Rightarrow> int64 \<Rightarrow> int64 \<Rightarrow> pg_error + int64" where
  "jit_int48mul E a b = jit_int8mul E (scast (scast a :: int32)) b"

definition jit_int84mul :: "pg_prims \<Rightarrow> int64 \<Rightarrow> int64 \<Rightarrow> pg_error + int64" where
  "jit_int84mul E a b = jit_int8mul E a (scast (scast b :: int32))"

definition jit_int28mul :: "pg_prims \<Rightarrow> int64 \<Rightarrow> int64 \<Rightarrow> pg_error + int64" where
  "jit_int28mul E a b = jit_int8mul E (scast (i16_of64 a)) b"

definition jit_int82mul :: "pg_prims \<Rightarrow> int64 \<Rightarrow> int64 \<Rightarrow> pg_error + int64" where
  "jit_int82mul E a b = jit_int8mul E a (scast (i16_of64 b))"

definition jit_int24div :: "int32 \<Rightarrow> int32 \<Rightarrow> pg_error + int32" where
  "jit_int24div a b = jit_int4div (of_i16 (to_i16 a)) b"

definition jit_int42div :: "int32 \<Rightarrow> int32 \<Rightarrow> pg_error + int32" where
  "jit_int42div a b = jit_int4div a (of_i16 (to_i16 b))"

definition jit_int48div :: "int64 \<Rightarrow> int64 \<Rightarrow> pg_error + int64" where
  "jit_int48div a b = jit_int8div (scast (scast a :: int32)) b"

definition jit_int84div :: "int64 \<Rightarrow> int64 \<Rightarrow> pg_error + int64" where
  "jit_int84div a b = jit_int8div a (scast (scast b :: int32))"

definition jit_int28div :: "int64 \<Rightarrow> int64 \<Rightarrow> pg_error + int64" where
  "jit_int28div a b = jit_int8div (scast (i16_of64 a)) b"

definition jit_int82div :: "int64 \<Rightarrow> int64 \<Rightarrow> pg_error + int64" where
  "jit_int82div a b = jit_int8div a (scast (i16_of64 b))"

section \<open>Minimum and maximum\<close>

definition jit_int2larger :: "int32 \<Rightarrow> int32 \<Rightarrow> int32" where
  "jit_int2larger a b = (if sint (to_i16 a) \<ge> sint (to_i16 b) then a else b)"

definition jit_int2smaller :: "int32 \<Rightarrow> int32 \<Rightarrow> int32" where
  "jit_int2smaller a b = (if sint (to_i16 a) \<le> sint (to_i16 b) then a else b)"

definition jit_int4larger :: "int32 \<Rightarrow> int32 \<Rightarrow> int32" where
  "jit_int4larger a b = (if sint a \<ge> sint b then a else b)"

definition jit_int4smaller :: "int32 \<Rightarrow> int32 \<Rightarrow> int32" where
  "jit_int4smaller a b = (if sint a \<le> sint b then a else b)"

definition jit_int8larger :: "int64 \<Rightarrow> int64 \<Rightarrow> int64" where
  "jit_int8larger a b = (if sint a \<ge> sint b then a else b)"

definition jit_int8smaller :: "int64 \<Rightarrow> int64 \<Rightarrow> int64" where
  "jit_int8smaller a b = (if sint a \<le> sint b then a else b)"

section \<open>Bitwise functions\<close>

definition jit_sar32_defined :: "int32 \<Rightarrow> uint32 \<Rightarrow> int32" where
  "jit_sar32_defined a sh =
     (if sh = 0 then a
      else if sint a \<ge> 0 then drop_bit (unat sh) a
      else NOT (drop_bit (unat sh) (NOT a)))"

definition jit_sar64_defined :: "int64 \<Rightarrow> uint32 \<Rightarrow> int64" where
  "jit_sar64_defined a sh =
     (if sh = 0 then a
      else if sint a \<ge> 0 then drop_bit (unat sh) a
      else NOT (drop_bit (unat sh) (NOT a)))"

definition jit_int2and :: "int32 \<Rightarrow> int32 \<Rightarrow> int32" where
  "jit_int2and a b = of_i16 (to_i16 a) AND of_i16 (to_i16 b)"

definition jit_int4and :: "int32 \<Rightarrow> int32 \<Rightarrow> int32" where
  "jit_int4and a b = a AND b"

definition jit_int8and :: "int64 \<Rightarrow> int64 \<Rightarrow> int64" where
  "jit_int8and a b = a AND b"

definition jit_int2or :: "int32 \<Rightarrow> int32 \<Rightarrow> int32" where
  "jit_int2or a b = of_i16 (to_i16 a) OR of_i16 (to_i16 b)"

definition jit_int4or :: "int32 \<Rightarrow> int32 \<Rightarrow> int32" where
  "jit_int4or a b = a OR b"

definition jit_int8or :: "int64 \<Rightarrow> int64 \<Rightarrow> int64" where
  "jit_int8or a b = a OR b"

definition jit_int2xor :: "int32 \<Rightarrow> int32 \<Rightarrow> int32" where
  "jit_int2xor a b = of_i16 (to_i16 a) XOR of_i16 (to_i16 b)"

definition jit_int4xor :: "int32 \<Rightarrow> int32 \<Rightarrow> int32" where
  "jit_int4xor a b = a XOR b"

definition jit_int8xor :: "int64 \<Rightarrow> int64 \<Rightarrow> int64" where
  "jit_int8xor a b = a XOR b"

definition jit_int2not :: "int32 \<Rightarrow> int32" where
  "jit_int2not a = NOT (of_i16 (to_i16 a))"

definition jit_int4not :: "int32 \<Rightarrow> int32" where
  "jit_int4not a = NOT a"

definition jit_int8not :: "int64 \<Rightarrow> int64" where
  "jit_int8not a = NOT a"

definition jit_int2shl :: "int32 \<Rightarrow> int32 \<Rightarrow> int32" where
  "jit_int2shl a b = of_i16 (to_i16 (push_bit (unat (b AND 31)) (of_i16 (to_i16 a))))"

definition jit_int2shr :: "int32 \<Rightarrow> int32 \<Rightarrow> int32" where
  "jit_int2shr a b = of_i16 (to_i16 (jit_sar32_defined (of_i16 (to_i16 a)) (b AND 31)))"

definition jit_int4shl :: "int32 \<Rightarrow> int32 \<Rightarrow> int32" where
  "jit_int4shl a b = push_bit (unat (b AND 31)) a"

definition jit_int4shr :: "int32 \<Rightarrow> int32 \<Rightarrow> int32" where
  "jit_int4shr a b = jit_sar32_defined a (b AND 31)"

definition jit_int8shl :: "int64 \<Rightarrow> int32 \<Rightarrow> int64" where
  "jit_int8shl a b = push_bit (unat (b AND 63)) a"

definition jit_int8shr :: "int64 \<Rightarrow> int32 \<Rightarrow> int64" where
  "jit_int8shr a b = jit_sar64_defined a (b AND 63)"

section \<open>Casts\<close>

definition jit_int48_cast :: "int32 \<Rightarrow> int64" where
  "jit_int48_cast a = scast a"

definition jit_int28_cast :: "int32 \<Rightarrow> int64" where
  "jit_int28_cast a = scast (to_i16 a)"

definition jit_int24_cast :: "int32 \<Rightarrow> int32" where
  "jit_int24_cast a = of_i16 (to_i16 a)"

definition jit_oidtoi8 :: "int32 \<Rightarrow> int64" where
  "jit_oidtoi8 a = ucast a"

definition jit_xid8toxid :: "int64 \<Rightarrow> int32" where
  "jit_xid8toxid a = ucast a"

definition jit_int84_cast :: "int64 \<Rightarrow> pg_error + int32" where
  "jit_int84_cast a =
     (if sint a < - (2 ^ 31) \<or> sint a > 2 ^ 31 - 1 then Inl Integer_out_of_range else Inr (scast a))"

definition jit_int82_cast :: "int64 \<Rightarrow> pg_error + int32" where
  "jit_int82_cast a =
     (if sint a < - (2 ^ 15) \<or> sint a > 2 ^ 15 - 1 then Inl Smallint_out_of_range
      else Inr (of_i16 (i16_of64 a)))"

definition jit_int42_cast :: "int32 \<Rightarrow> pg_error + int32" where
  "jit_int42_cast a =
     (if sint a < - (2 ^ 15) \<or> sint a > 2 ^ 15 - 1 then Inl Smallint_out_of_range
      else Inr (of_i16 (to_i16 a)))"

section \<open>Booleans and characters\<close>

definition jit_booleq :: "int64 \<Rightarrow> int64 \<Rightarrow> int32" where
  "jit_booleq a b = c_bool (sint a = sint b)"

definition jit_boolne :: "int64 \<Rightarrow> int64 \<Rightarrow> int32" where
  "jit_boolne a b = c_bool (sint a \<noteq> sint b)"

definition jit_boollt :: "int64 \<Rightarrow> int64 \<Rightarrow> int32" where
  "jit_boollt a b = c_bool (sint a < sint b)"

definition jit_boolle :: "int64 \<Rightarrow> int64 \<Rightarrow> int32" where
  "jit_boolle a b = c_bool (sint a \<le> sint b)"

definition jit_boolgt :: "int64 \<Rightarrow> int64 \<Rightarrow> int32" where
  "jit_boolgt a b = c_bool (sint a > sint b)"

definition jit_boolge :: "int64 \<Rightarrow> int64 \<Rightarrow> int32" where
  "jit_boolge a b = c_bool (sint a \<ge> sint b)"

definition jit_booland_statefunc :: "int64 \<Rightarrow> int64 \<Rightarrow> int64" where
  "jit_booland_statefunc a b = (if a \<noteq> 0 \<and> b \<noteq> 0 then 1 else 0)"

definition jit_boolor_statefunc :: "int64 \<Rightarrow> int64 \<Rightarrow> int64" where
  "jit_boolor_statefunc a b = (if a \<noteq> 0 \<or> b \<noteq> 0 then 1 else 0)"

definition jit_bool_int4 :: "int64 \<Rightarrow> int32" where
  "jit_bool_int4 a = c_bool (a \<noteq> 0)"

definition jit_int4_bool :: "int32 \<Rightarrow> int32" where
  "jit_int4_bool a = c_bool (a \<noteq> 0)"

definition jit_chartoi4 :: "int32 \<Rightarrow> int32" where
  "jit_chartoi4 a = scast (scast a :: 8 word)"

definition jit_i4tochar :: "int32 \<Rightarrow> pg_error + int32" where
  "jit_i4tochar a =
     (if sint a < - 128 \<or> sint a > 127 then Inl Char_out_of_range else Inr (scast (scast a :: 8 word)))"

definition jit_chareq :: "int32 \<Rightarrow> int32 \<Rightarrow> int32" where
  "jit_chareq a b = c_bool (uint (ucast a :: uint8) = uint (ucast b :: uint8))"

definition jit_charne :: "int32 \<Rightarrow> int32 \<Rightarrow> int32" where
  "jit_charne a b = c_bool (uint (ucast a :: uint8) \<noteq> uint (ucast b :: uint8))"

definition jit_charlt :: "int32 \<Rightarrow> int32 \<Rightarrow> int32" where
  "jit_charlt a b = c_bool (uint (ucast a :: uint8) < uint (ucast b :: uint8))"

definition jit_charle :: "int32 \<Rightarrow> int32 \<Rightarrow> int32" where
  "jit_charle a b = c_bool (uint (ucast a :: uint8) \<le> uint (ucast b :: uint8))"

definition jit_chargt :: "int32 \<Rightarrow> int32 \<Rightarrow> int32" where
  "jit_chargt a b = c_bool (uint (ucast a :: uint8) > uint (ucast b :: uint8))"

definition jit_charge :: "int32 \<Rightarrow> int32 \<Rightarrow> int32" where
  "jit_charge a b = c_bool (uint (ucast a :: uint8) \<ge> uint (ucast b :: uint8))"

section \<open>Transaction and object identifiers, log positions\<close>

definition jit_xideq :: "int32 \<Rightarrow> int32 \<Rightarrow> int32" where
  "jit_xideq a b = c_bool (uint a = uint b)"

definition jit_xidneq :: "int32 \<Rightarrow> int32 \<Rightarrow> int32" where
  "jit_xidneq a b = c_bool (uint a \<noteq> uint b)"

definition jit_cideq :: "int32 \<Rightarrow> int32 \<Rightarrow> int32" where
  "jit_cideq a b = c_bool (uint a = uint b)"

definition jit_xid8eq :: "int64 \<Rightarrow> int64 \<Rightarrow> int32" where
  "jit_xid8eq a b = c_bool (uint a = uint b)"

definition jit_xid8ne :: "int64 \<Rightarrow> int64 \<Rightarrow> int32" where
  "jit_xid8ne a b = c_bool (uint a \<noteq> uint b)"

definition jit_xid8lt :: "int64 \<Rightarrow> int64 \<Rightarrow> int32" where
  "jit_xid8lt a b = c_bool (uint a < uint b)"

definition jit_xid8le :: "int64 \<Rightarrow> int64 \<Rightarrow> int32" where
  "jit_xid8le a b = c_bool (uint a \<le> uint b)"

definition jit_xid8gt :: "int64 \<Rightarrow> int64 \<Rightarrow> int32" where
  "jit_xid8gt a b = c_bool (uint a > uint b)"

definition jit_xid8ge :: "int64 \<Rightarrow> int64 \<Rightarrow> int32" where
  "jit_xid8ge a b = c_bool (uint a \<ge> uint b)"

definition jit_xid8cmp :: "int64 \<Rightarrow> int64 \<Rightarrow> int32" where
  "jit_xid8cmp a b = of_bool (uint a > uint b) - of_bool (uint a < uint b)"

definition jit_pg_lsn_eq :: "int64 \<Rightarrow> int64 \<Rightarrow> int32" where
  "jit_pg_lsn_eq a b = c_bool (uint a = uint b)"

definition jit_pg_lsn_ne :: "int64 \<Rightarrow> int64 \<Rightarrow> int32" where
  "jit_pg_lsn_ne a b = c_bool (uint a \<noteq> uint b)"

definition jit_pg_lsn_lt :: "int64 \<Rightarrow> int64 \<Rightarrow> int32" where
  "jit_pg_lsn_lt a b = c_bool (uint a < uint b)"

definition jit_pg_lsn_le :: "int64 \<Rightarrow> int64 \<Rightarrow> int32" where
  "jit_pg_lsn_le a b = c_bool (uint a \<le> uint b)"

definition jit_pg_lsn_gt :: "int64 \<Rightarrow> int64 \<Rightarrow> int32" where
  "jit_pg_lsn_gt a b = c_bool (uint a > uint b)"

definition jit_pg_lsn_ge :: "int64 \<Rightarrow> int64 \<Rightarrow> int32" where
  "jit_pg_lsn_ge a b = c_bool (uint a \<ge> uint b)"

definition jit_pg_lsn_cmp :: "int64 \<Rightarrow> int64 \<Rightarrow> int32" where
  "jit_pg_lsn_cmp a b = of_bool (uint a > uint b) - of_bool (uint a < uint b)"

definition jit_pg_lsn_larger :: "int64 \<Rightarrow> int64 \<Rightarrow> int64" where
  "jit_pg_lsn_larger a b = (if uint a > uint b then a else b)"

definition jit_pg_lsn_smaller :: "int64 \<Rightarrow> int64 \<Rightarrow> int64" where
  "jit_pg_lsn_smaller a b = (if uint a < uint b then a else b)"

definition jit_oideq :: "int32 \<Rightarrow> int32 \<Rightarrow> int32" where
  "jit_oideq a b = c_bool (uint a = uint b)"

definition jit_oidne :: "int32 \<Rightarrow> int32 \<Rightarrow> int32" where
  "jit_oidne a b = c_bool (uint a \<noteq> uint b)"

definition jit_oidlt :: "int32 \<Rightarrow> int32 \<Rightarrow> int32" where
  "jit_oidlt a b = c_bool (uint a < uint b)"

definition jit_oidle :: "int32 \<Rightarrow> int32 \<Rightarrow> int32" where
  "jit_oidle a b = c_bool (uint a \<le> uint b)"

definition jit_oidgt :: "int32 \<Rightarrow> int32 \<Rightarrow> int32" where
  "jit_oidgt a b = c_bool (uint a > uint b)"

definition jit_oidge :: "int32 \<Rightarrow> int32 \<Rightarrow> int32" where
  "jit_oidge a b = c_bool (uint a \<ge> uint b)"

definition jit_oidlarger :: "int32 \<Rightarrow> int32 \<Rightarrow> int32" where
  "jit_oidlarger a b = (if uint a \<ge> uint b then a else b)"

definition jit_oidsmaller :: "int32 \<Rightarrow> int32 \<Rightarrow> int32" where
  "jit_oidsmaller a b = (if uint a \<le> uint b then a else b)"

section \<open>Timestamps, dates and money\<close>

definition jit_timestamp_eq :: "int64 \<Rightarrow> int64 \<Rightarrow> int32" where
  "jit_timestamp_eq a b = c_bool (sint a = sint b)"

definition jit_timestamp_ne :: "int64 \<Rightarrow> int64 \<Rightarrow> int32" where
  "jit_timestamp_ne a b = c_bool (sint a \<noteq> sint b)"

definition jit_timestamp_lt :: "int64 \<Rightarrow> int64 \<Rightarrow> int32" where
  "jit_timestamp_lt a b = c_bool (sint a < sint b)"

definition jit_timestamp_le :: "int64 \<Rightarrow> int64 \<Rightarrow> int32" where
  "jit_timestamp_le a b = c_bool (sint a \<le> sint b)"

definition jit_timestamp_gt :: "int64 \<Rightarrow> int64 \<Rightarrow> int32" where
  "jit_timestamp_gt a b = c_bool (sint a > sint b)"

definition jit_timestamp_ge :: "int64 \<Rightarrow> int64 \<Rightarrow> int32" where
  "jit_timestamp_ge a b = c_bool (sint a \<ge> sint b)"

definition jit_timestamp_cmp :: "int64 \<Rightarrow> int64 \<Rightarrow> int32" where
  "jit_timestamp_cmp a b = (if sint a < sint b then - 1 else if sint a > sint b then 1 else 0)"

definition jit_timestamp_larger :: "int64 \<Rightarrow> int64 \<Rightarrow> int64" where
  "jit_timestamp_larger a b = (if sint a \<ge> sint b then a else b)"

definition jit_timestamp_smaller :: "int64 \<Rightarrow> int64 \<Rightarrow> int64" where
  "jit_timestamp_smaller a b = (if sint a \<le> sint b then a else b)"

definition jit_date_eq :: "int32 \<Rightarrow> int32 \<Rightarrow> int32" where
  "jit_date_eq a b = c_bool (sint a = sint b)"

definition jit_date_ne :: "int32 \<Rightarrow> int32 \<Rightarrow> int32" where
  "jit_date_ne a b = c_bool (sint a \<noteq> sint b)"

definition jit_date_lt :: "int32 \<Rightarrow> int32 \<Rightarrow> int32" where
  "jit_date_lt a b = c_bool (sint a < sint b)"

definition jit_date_le :: "int32 \<Rightarrow> int32 \<Rightarrow> int32" where
  "jit_date_le a b = c_bool (sint a \<le> sint b)"

definition jit_date_gt :: "int32 \<Rightarrow> int32 \<Rightarrow> int32" where
  "jit_date_gt a b = c_bool (sint a > sint b)"

definition jit_date_ge :: "int32 \<Rightarrow> int32 \<Rightarrow> int32" where
  "jit_date_ge a b = c_bool (sint a \<ge> sint b)"

definition jit_date_cmp :: "int32 \<Rightarrow> int32 \<Rightarrow> int32" where
  "jit_date_cmp a b = of_bool (sint a > sint b) - of_bool (sint a < sint b)"

definition jit_date_larger :: "int32 \<Rightarrow> int32 \<Rightarrow> int32" where
  "jit_date_larger a b = (if sint a \<ge> sint b then a else b)"

definition jit_date_smaller :: "int32 \<Rightarrow> int32 \<Rightarrow> int32" where
  "jit_date_smaller a b = (if sint a \<le> sint b then a else b)"

definition jit_date_pli :: "pg_prims \<Rightarrow> int32 \<Rightarrow> int32 \<Rightarrow> pg_error + int32" where
  "jit_date_pli E date days = checked Integer_out_of_range (add_overflow (s32 E) date days)"

definition jit_date_mii :: "pg_prims \<Rightarrow> int32 \<Rightarrow> int32 \<Rightarrow> pg_error + int32" where
  "jit_date_mii E date days = checked Integer_out_of_range (sub_overflow (s32 E) date days)"

definition jit_date_mi :: "pg_prims \<Rightarrow> int32 \<Rightarrow> int32 \<Rightarrow> pg_error + int32" where
  "jit_date_mi E a b = checked Integer_out_of_range (sub_overflow (s32 E) a b)"

definition jit_cash_eq :: "int64 \<Rightarrow> int64 \<Rightarrow> int32" where
  "jit_cash_eq a b = c_bool (sint a = sint b)"

definition jit_cash_ne :: "int64 \<Rightarrow> int64 \<Rightarrow> int32" where
  "jit_cash_ne a b = c_bool (sint a \<noteq> sint b)"

definition jit_cash_lt :: "int64 \<Rightarrow> int64 \<Rightarrow> int32" where
  "jit_cash_lt a b = c_bool (sint a < sint b)"

definition jit_cash_le :: "int64 \<Rightarrow> int64 \<Rightarrow> int32" where
  "jit_cash_le a b = c_bool (sint a \<le> sint b)"

definition jit_cash_gt :: "int64 \<Rightarrow> int64 \<Rightarrow> int32" where
  "jit_cash_gt a b = c_bool (sint a > sint b)"

definition jit_cash_ge :: "int64 \<Rightarrow> int64 \<Rightarrow> int32" where
  "jit_cash_ge a b = c_bool (sint a \<ge> sint b)"

definition jit_cash_cmp :: "int64 \<Rightarrow> int64 \<Rightarrow> int32" where
  "jit_cash_cmp a b = of_bool (sint a > sint b) - of_bool (sint a < sint b)"

definition jit_cash_pl :: "int64 \<Rightarrow> int64 \<Rightarrow> int64" where
  "jit_cash_pl a b = a + b"

definition jit_cash_mi :: "int64 \<Rightarrow> int64 \<Rightarrow> int64" where
  "jit_cash_mi a b = a - b"

definition jit_cashlarger :: "int64 \<Rightarrow> int64 \<Rightarrow> int64" where
  "jit_cashlarger a b = (if sint a \<ge> sint b then a else b)"

definition jit_cashsmaller :: "int64 \<Rightarrow> int64 \<Rightarrow> int64" where
  "jit_cashsmaller a b = (if sint a \<le> sint b then a else b)"

section \<open>Three-way comparisons\<close>

definition jit_btboolcmp :: "int64 \<Rightarrow> int64 \<Rightarrow> int32" where
  "jit_btboolcmp a b = of_bool (a \<noteq> 0) - of_bool (b \<noteq> 0)"

definition jit_btcharcmp :: "int32 \<Rightarrow> int32 \<Rightarrow> int32" where
  "jit_btcharcmp a b = ucast (ucast a :: uint8) - ucast (ucast b :: uint8)"

definition jit_btint2cmp :: "int32 \<Rightarrow> int32 \<Rightarrow> int32" where
  "jit_btint2cmp a b = of_i16 (to_i16 a) - of_i16 (to_i16 b)"

definition jit_btint4cmp :: "int32 \<Rightarrow> int32 \<Rightarrow> int32" where
  "jit_btint4cmp a b = of_bool (sint a > sint b) - of_bool (sint a < sint b)"

definition jit_btint8cmp :: "int64 \<Rightarrow> int64 \<Rightarrow> int32" where
  "jit_btint8cmp a b = of_bool (sint a > sint b) - of_bool (sint a < sint b)"

definition jit_btint24cmp :: "int32 \<Rightarrow> int32 \<Rightarrow> int32" where
  "jit_btint24cmp a b = of_bool (sint (of_i16 (to_i16 a)) > sint b) - of_bool (sint (of_i16 (to_i16 a)) < sint b)"

definition jit_btint42cmp :: "int32 \<Rightarrow> int32 \<Rightarrow> int32" where
  "jit_btint42cmp a b = of_bool (sint (scast a :: int64) > sint (scast (to_i16 b) :: int64)) - of_bool (sint (scast a :: int64) < sint (scast (to_i16 b) :: int64))"

definition jit_btint28cmp :: "int32 \<Rightarrow> int64 \<Rightarrow> int32" where
  "jit_btint28cmp a b = of_bool (sint (scast (to_i16 a) :: int64) > sint b) - of_bool (sint (scast (to_i16 a) :: int64) < sint b)"

definition jit_btint48cmp :: "int32 \<Rightarrow> int64 \<Rightarrow> int32" where
  "jit_btint48cmp a b = of_bool (sint (scast a :: int64) > sint b) - of_bool (sint (scast a :: int64) < sint b)"

definition jit_btint82cmp :: "int64 \<Rightarrow> int32 \<Rightarrow> int32" where
  "jit_btint82cmp a b = of_bool (sint a > sint (scast (to_i16 b) :: int64)) - of_bool (sint a < sint (scast (to_i16 b) :: int64))"

definition jit_btint84cmp :: "int64 \<Rightarrow> int32 \<Rightarrow> int32" where
  "jit_btint84cmp a b = of_bool (sint a > sint (scast b :: int64)) - of_bool (sint a < sint (scast b :: int64))"

definition jit_btoidcmp :: "int32 \<Rightarrow> int32 \<Rightarrow> int32" where
  "jit_btoidcmp a b = of_bool (uint a > uint b) - of_bool (uint a < uint b)"

section \<open>Hashes\<close>

definition int8_fold :: "int64 \<Rightarrow> uint32" where
  "int8_fold val =
     (let lohalf = ucast val; hihalf = ucast (drop_bit 32 val)
      in lohalf XOR (if sint val \<ge> 0 then hihalf else NOT hihalf))"

definition jit_hashint2 :: "pg_prims \<Rightarrow> int64 \<Rightarrow> int32" where
  "jit_hashint2 E a = hash_bytes_uint32 E (scast (i16_of64 a))"

definition jit_hashint4 :: "pg_prims \<Rightarrow> int32 \<Rightarrow> int32" where
  "jit_hashint4 E a = hash_bytes_uint32 E a"

definition jit_hashint8 :: "pg_prims \<Rightarrow> int64 \<Rightarrow> int64" where
  "jit_hashint8 E val = ucast (hash_bytes_uint32 E (int8_fold val))"

definition jit_hashoid :: "pg_prims \<Rightarrow> int32 \<Rightarrow> int32" where
  "jit_hashoid E a = hash_bytes_uint32 E a"

definition jit_hashbool :: "pg_prims \<Rightarrow> int64 \<Rightarrow> int32" where
  "jit_hashbool E a = hash_bytes_uint32 E (of_bool (a \<noteq> 0))"

definition jit_hashdate :: "pg_prims \<Rightarrow> int32 \<Rightarrow> int32" where
  "jit_hashdate E a = hash_bytes_uint32 E a"

definition jit_time_hash :: "pg_prims \<Rightarrow> int64 \<Rightarrow> int32" where
  "jit_time_hash E a = ucast (jit_hashint8 E a)"

definition jit_pg_lsn_hash :: "pg_prims \<Rightarrow> int64 \<Rightarrow> int32" where
  "jit_pg_lsn_hash E a = ucast (jit_hashint8 E a)"

definition jit_hashint2extended :: "pg_prims \<Rightarrow> int64 \<Rightarrow> int64 \<Rightarrow> int64" where
  "jit_hashint2extended E val seed = hash_bytes_uint32_extended E (scast (i16_of64 val)) seed"

definition jit_hashint4extended :: "pg_prims \<Rightarrow> int64 \<Rightarrow> int64 \<Rightarrow> int64" where
  "jit_hashint4extended E val seed = hash_bytes_uint32_extended E (ucast val) seed"

definition jit_hashint8extended :: "pg_prims \<Rightarrow> int64 \<Rightarrow> int64 \<Rightarrow> int64" where
  "jit_hashint8extended E val seed = hash_bytes_uint32_extended E (int8_fold val) seed"

definition jit_hashoidextended :: "pg_prims \<Rightarrow> int64 \<Rightarrow> int64 \<Rightarrow> int64" where
  "jit_hashoidextended E val seed = hash_bytes_uint32_extended E (ucast val) seed"

section \<open>Sums and counts\<close>

definition jit_int8inc_any :: "pg_prims \<Rightarrow> int64 \<Rightarrow> int64 \<Rightarrow> pg_error + int64" where
  "jit_int8inc_any E a dummy = jit_int8inc E a"

definition jit_int8dec_any :: "pg_prims \<Rightarrow> int64 \<Rightarrow> int64 \<Rightarrow> pg_error + int64" where
  "jit_int8dec_any E a dummy = jit_int8dec E a"

definition jit_int2_sum :: "pg_prims \<Rightarrow> int64 \<Rightarrow> int64 \<Rightarrow> pg_error + int64" where
  "jit_int2_sum E oldsum newval = checked Bigint_out_of_range (add_overflow (s64 E) oldsum (scast (i16_of64 newval)))"

definition jit_int4_sum :: "pg_prims \<Rightarrow> int64 \<Rightarrow> int64 \<Rightarrow> pg_error + int64" where
  "jit_int4_sum E oldsum newval = checked Bigint_out_of_range (add_overflow (s64 E) oldsum (scast (scast newval :: int32)))"

lemmas int_fn_defs =
  jit_int4pl_def jit_int4mi_def jit_int4mul_def jit_int4div_def
  jit_int4mod_def jit_int4abs_def jit_int4inc_def jit_int4um_def
  jit_int4up_def jit_int8pl_def jit_int8mi_def jit_int8mul_def
  jit_int8div_def jit_int8mod_def jit_int8abs_def jit_int8inc_def
  jit_int8dec_def jit_int8um_def jit_int8up_def jit_int2pl_def
  jit_int2mi_def jit_int2mul_def jit_int2div_def jit_int2mod_def
  jit_int2abs_def jit_int2um_def jit_int2up_def jit_int4eq_def
  jit_int4ne_def jit_int4lt_def jit_int4le_def jit_int4gt_def
  jit_int4ge_def jit_int8eq_def jit_int8ne_def jit_int8lt_def
  jit_int8le_def jit_int8gt_def jit_int8ge_def jit_int2eq_def
  jit_int2ne_def jit_int2lt_def jit_int2le_def jit_int2gt_def
  jit_int2ge_def jit_int48eq_def jit_int48ne_def jit_int48lt_def
  jit_int48le_def jit_int48gt_def jit_int48ge_def jit_int84eq_def
  jit_int84ne_def jit_int84lt_def jit_int84le_def jit_int84gt_def
  jit_int84ge_def jit_int24eq_def jit_int24ne_def jit_int24lt_def
  jit_int24le_def jit_int24gt_def jit_int24ge_def jit_int42eq_def
  jit_int42ne_def jit_int42lt_def jit_int42le_def jit_int42gt_def
  jit_int42ge_def jit_int28eq_def jit_int28ne_def jit_int28lt_def
  jit_int28le_def jit_int28gt_def jit_int28ge_def jit_int82eq_def
  jit_int82ne_def jit_int82lt_def jit_int82le_def jit_int82gt_def
  jit_int82ge_def jit_int24pl_def jit_int42pl_def jit_int48pl_def
  jit_int84pl_def jit_int28pl_def jit_int82pl_def jit_int24mi_def
  jit_int42mi_def jit_int48mi_def jit_int84mi_def jit_int28mi_def
  jit_int82mi_def jit_int24mul_def jit_int42mul_def jit_int48mul_def
  jit_int84mul_def jit_int28mul_def jit_int82mul_def jit_int24div_def
  jit_int42div_def jit_int48div_def jit_int84div_def jit_int28div_def
  jit_int82div_def jit_int2larger_def jit_int2smaller_def jit_int4larger_def
  jit_int4smaller_def jit_int8larger_def jit_int8smaller_def jit_sar32_defined_def
  jit_sar64_defined_def jit_int2and_def jit_int4and_def jit_int8and_def
  jit_int2or_def jit_int4or_def jit_int8or_def jit_int2xor_def
  jit_int4xor_def jit_int8xor_def jit_int2not_def jit_int4not_def
  jit_int8not_def jit_int2shl_def jit_int2shr_def jit_int4shl_def
  jit_int4shr_def jit_int8shl_def jit_int8shr_def jit_int48_cast_def
  jit_int28_cast_def jit_int24_cast_def jit_oidtoi8_def jit_xid8toxid_def
  jit_int84_cast_def jit_int82_cast_def jit_int42_cast_def jit_booleq_def
  jit_boolne_def jit_boollt_def jit_boolle_def jit_boolgt_def
  jit_boolge_def jit_booland_statefunc_def jit_boolor_statefunc_def jit_bool_int4_def
  jit_int4_bool_def jit_chartoi4_def jit_i4tochar_def jit_chareq_def
  jit_charne_def jit_charlt_def jit_charle_def jit_chargt_def
  jit_charge_def jit_xideq_def jit_xidneq_def jit_cideq_def
  jit_xid8eq_def jit_xid8ne_def jit_xid8lt_def jit_xid8le_def
  jit_xid8gt_def jit_xid8ge_def jit_xid8cmp_def jit_pg_lsn_eq_def
  jit_pg_lsn_ne_def jit_pg_lsn_lt_def jit_pg_lsn_le_def jit_pg_lsn_gt_def
  jit_pg_lsn_ge_def jit_pg_lsn_cmp_def jit_pg_lsn_larger_def jit_pg_lsn_smaller_def
  jit_oideq_def jit_oidne_def jit_oidlt_def jit_oidle_def
  jit_oidgt_def jit_oidge_def jit_oidlarger_def jit_oidsmaller_def
  jit_timestamp_eq_def jit_timestamp_ne_def jit_timestamp_lt_def jit_timestamp_le_def
  jit_timestamp_gt_def jit_timestamp_ge_def jit_timestamp_cmp_def jit_timestamp_larger_def
  jit_timestamp_smaller_def jit_date_eq_def jit_date_ne_def jit_date_lt_def
  jit_date_le_def jit_date_gt_def jit_date_ge_def jit_date_cmp_def
  jit_date_larger_def jit_date_smaller_def jit_date_pli_def jit_date_mii_def
  jit_date_mi_def jit_cash_eq_def jit_cash_ne_def jit_cash_lt_def
  jit_cash_le_def jit_cash_gt_def jit_cash_ge_def jit_cash_cmp_def
  jit_cash_pl_def jit_cash_mi_def jit_cashlarger_def jit_cashsmaller_def
  jit_btboolcmp_def jit_btcharcmp_def jit_btint2cmp_def jit_btint4cmp_def
  jit_btint8cmp_def jit_btint24cmp_def jit_btint42cmp_def jit_btint28cmp_def
  jit_btint48cmp_def jit_btint82cmp_def jit_btint84cmp_def jit_btoidcmp_def
  int8_fold_def jit_hashint2_def jit_hashint4_def jit_hashint8_def
  jit_hashoid_def jit_hashbool_def jit_hashdate_def jit_time_hash_def
  jit_pg_lsn_hash_def jit_hashint2extended_def jit_hashint4extended_def jit_hashint8extended_def
  jit_hashoidextended_def jit_int8inc_any_def jit_int8dec_any_def jit_int2_sum_def
  jit_int4_sum_def

end
