(* ===== verification/IntCorrect.thy ===== *)
theory IntCorrect
  imports IntFuncs
begin

unbundle bit_operations_syntax

text \<open>
  Correctness of the integer functions. The statements are about what the generated code
  does with a call of a PostgreSQL function: it looks the function up in the table of direct
  functions, loads the arguments into registers of the classes that the row gives, and calls
  the function of the row. \<open>int_value\<close> is the value of a datum of one of the three types.
\<close>

section \<open>Calls through the table\<close>

datatype jit_val = V32 int32 | V64 int64

fun jit_arg :: "jit_type \<Rightarrow> Datum \<Rightarrow> jit_val" where
  "jit_arg JIT_TYPE_32 d = V32 (DatumGetInt32 d)"
| "jit_arg JIT_TYPE_64 d = V64 d"

fun jv_type :: "jit_val \<Rightarrow> jit_type" where
  "jv_type (V32 _) = JIT_TYPE_32"
| "jv_type (V64 _) = JIT_TYPE_64"

fun jv_int :: "jit_val \<Rightarrow> int" where
  "jv_int (V32 v) = sint v"
| "jv_int (V64 v) = sint v"

type_synonym native = "jit_val list \<Rightarrow> (pg_error + jit_val) option"

text \<open>A C function as called: \<open>None\<close> when the register classes are not those of its prototype.\<close>

fun c32_32 :: "('r \<Rightarrow> pg_error + jit_val) \<Rightarrow> (int32 \<Rightarrow> int32 \<Rightarrow> 'r) \<Rightarrow> native" where
  "c32_32 r f [V32 a, V32 b] = Some (r (f a b))"
| "c32_32 r f _ = None"

fun c32_64 :: "('r \<Rightarrow> pg_error + jit_val) \<Rightarrow> (int32 \<Rightarrow> int64 \<Rightarrow> 'r) \<Rightarrow> native" where
  "c32_64 r f [V32 a, V64 b] = Some (r (f a b))"
| "c32_64 r f _ = None"

fun c64_32 :: "('r \<Rightarrow> pg_error + jit_val) \<Rightarrow> (int64 \<Rightarrow> int32 \<Rightarrow> 'r) \<Rightarrow> native" where
  "c64_32 r f [V64 a, V32 b] = Some (r (f a b))"
| "c64_32 r f _ = None"

fun c64_64 :: "('r \<Rightarrow> pg_error + jit_val) \<Rightarrow> (int64 \<Rightarrow> int64 \<Rightarrow> 'r) \<Rightarrow> native" where
  "c64_64 r f [V64 a, V64 b] = Some (r (f a b))"
| "c64_64 r f _ = None"

abbreviation ret32 :: "int32 \<Rightarrow> pg_error + jit_val" where "ret32 v \<equiv> Inr (V32 v)"
abbreviation ret64 :: "int64 \<Rightarrow> pg_error + jit_val" where "ret64 v \<equiv> Inr (V64 v)"
abbreviation err32 :: "pg_error + int32 \<Rightarrow> pg_error + jit_val" where "err32 \<equiv> map_sum id V32"
abbreviation err64 :: "pg_error + int64 \<Rightarrow> pg_error + jit_val" where "err64 \<equiv> map_sum id V64"

text \<open>The call of \<open>f\<close>, whose row must name the function \<open>jit_f\<close> with the prototype \<open>g\<close>.\<close>

definition direct_call :: "build_config \<Rightarrow> PGFunction \<Rightarrow> native \<Rightarrow> Datum list \<Rightarrow> (pg_error + jit_val) option" where
  "direct_call cfg f g args =
     (case find_direct cfg f of
        None \<Rightarrow> None
      | Some e \<Rightarrow>
          if jit_fn e = ''jit_'' @ f \<and> nargs e = length args
          then (case g (map2 jit_arg (arg_types e) args) of
                  None \<Rightarrow> None
                | Some (Inl err) \<Rightarrow> Some (Inl err)
                | Some (Inr v) \<Rightarrow> if jv_type v = ret_type e then Some (Inr v) else None)
          else None)"

definition row_is :: "build_config \<Rightarrow> PGFunction \<Rightarrow> jit_type \<Rightarrow> jit_type list \<Rightarrow> bool" where
  "row_is cfg f rt as \<longleftrightarrow>
     (case find_direct cfg f of
        None \<Rightarrow> False
      | Some e \<Rightarrow> jit_fn e = ''jit_'' @ f \<and> nargs e = length as \<and> ret_type e = rt \<and> arg_types e = as)"

lemma direct_call_row:
  assumes "row_is cfg f rt as" "g (map2 jit_arg as args) = Some r" "length args = length as"
    and "\<forall>v. r = Inr v \<longrightarrow> jv_type v = rt"
  shows "direct_call cfg f g args = Some r"
  using assms by (cases r) (auto simp: row_is_def direct_call_def split: option.splits)

text \<open>Rewrites that find a row: only the names of the rows are compared.\<close>

lemma entry_row:
  "jit_fn (E1 f g a b) = g" "jit_fn (E2 f g a b c) = g" "jit_fn (EI1 f g a b i) = g" "jit_fn (EI2 f g a b c i) = g"
  "nargs (E1 f g a b) = 1" "nargs (E2 f g a b c) = 2" "nargs (EI1 f g a b i) = 1" "nargs (EI2 f g a b c i) = 2"
  "ret_type (E1 f g a b) = a" "ret_type (E2 f g a b c) = a" "ret_type (EI1 f g a b i) = a" "ret_type (EI2 f g a b c i) = a"
  "arg_types (E1 f g a b) = [b]" "arg_types (E2 f g a b c) = [b, c]" "arg_types (EI1 f g a b i) = [b]" "arg_types (EI2 f g a b c i) = [b, c]"
  by (simp_all add: entry_defs)

lemma find_row_1:
  "find (\<lambda>e. pg_fn e = f) (jit_direct_fns_1 cfg) = Some e \<Longrightarrow> find_direct cfg f = Some e"
  by (simp add: find_direct_def jit_direct_fns_def find_append)

lemma row_isI:
  "find_direct cfg f = Some e \<Longrightarrow> jit_fn e = ''jit_'' @ f \<Longrightarrow> nargs e = length as \<Longrightarrow> ret_type e = rt \<Longrightarrow> arg_types e = as
   \<Longrightarrow> row_is cfg f rt as"
  by (simp add: row_is_def)

lemma find_optional: "find P (if c then xs else []) = (if c then find P xs else None)"
  by simp

lemmas find_name_simps =
  find_optional if_cancel find_direct_def jit_direct_fns_def find_append pg_fn_entries find.simps list.inject list.distinct
  char.inject simp_thms if_True if_False option.case

lemmas row_simps =
  row_is_def find_name_simps entry_row append.simps list.size(3,4)

section \<open>Comparisons\<close>

datatype int_type = I2 | I4 | I8
datatype cmp_op = EQ | NE | LT | LE | GT | GE
datatype arith_op = PL | MI | MUL | DIV

fun int_digit :: "int_type \<Rightarrow> string" where
  "int_digit I2 = ''2''" | "int_digit I4 = ''4''" | "int_digit I8 = ''8''"

fun cmp_suffix :: "cmp_op \<Rightarrow> string" where
  "cmp_suffix EQ = ''eq''" | "cmp_suffix NE = ''ne''" | "cmp_suffix LT = ''lt''"
| "cmp_suffix LE = ''le''" | "cmp_suffix GT = ''gt''" | "cmp_suffix GE = ''ge''"

fun arith_suffix :: "arith_op \<Rightarrow> string" where
  "arith_suffix PL = ''pl''" | "arith_suffix MI = ''mi''" | "arith_suffix MUL = ''mul''" | "arith_suffix DIV = ''div''"

definition int_name :: "int_type \<Rightarrow> int_type \<Rightarrow> string \<Rightarrow> PGFunction" where
  "int_name t1 t2 op = ''int'' @ int_digit t1 @ (if t1 = t2 then [] else int_digit t2) @ op"

definition int_value :: "int_type \<Rightarrow> Datum \<Rightarrow> int" where
  "int_value t d = (case t of I2 \<Rightarrow> sint (ucast d :: int16) | I4 \<Rightarrow> sint (ucast d :: int32) | I8 \<Rightarrow> sint d)"

fun cmp_rel :: "cmp_op \<Rightarrow> int \<Rightarrow> int \<Rightarrow> bool" where
  "cmp_rel EQ a b \<longleftrightarrow> a = b" | "cmp_rel NE a b \<longleftrightarrow> a \<noteq> b" | "cmp_rel LT a b \<longleftrightarrow> a < b"
| "cmp_rel LE a b \<longleftrightarrow> a \<le> b" | "cmp_rel GT a b \<longleftrightarrow> a > b" | "cmp_rel GE a b \<longleftrightarrow> a \<ge> b"

definition pick :: "cmp_op \<Rightarrow> 'f \<Rightarrow> 'f \<Rightarrow> 'f \<Rightarrow> 'f \<Rightarrow> 'f \<Rightarrow> 'f \<Rightarrow> 'f" where
  "pick op eq ne lt le gt ge =
     (case op of EQ \<Rightarrow> eq | NE \<Rightarrow> ne | LT \<Rightarrow> lt | LE \<Rightarrow> le | GT \<Rightarrow> gt | GE \<Rightarrow> ge)"

fun int_cmp_fn :: "int_type \<Rightarrow> int_type \<Rightarrow> cmp_op \<Rightarrow> native" where
  "int_cmp_fn I2 I2 op = c32_32 ret32 (pick op jit_int2eq jit_int2ne jit_int2lt jit_int2le jit_int2gt jit_int2ge)"
| "int_cmp_fn I4 I4 op = c32_32 ret32 (pick op jit_int4eq jit_int4ne jit_int4lt jit_int4le jit_int4gt jit_int4ge)"
| "int_cmp_fn I8 I8 op = c64_64 ret32 (pick op jit_int8eq jit_int8ne jit_int8lt jit_int8le jit_int8gt jit_int8ge)"
| "int_cmp_fn I2 I4 op = c32_32 ret32 (pick op jit_int24eq jit_int24ne jit_int24lt jit_int24le jit_int24gt jit_int24ge)"
| "int_cmp_fn I4 I2 op = c32_32 ret32 (pick op jit_int42eq jit_int42ne jit_int42lt jit_int42le jit_int42gt jit_int42ge)"
| "int_cmp_fn I2 I8 op = c64_64 ret32 (pick op jit_int28eq jit_int28ne jit_int28lt jit_int28le jit_int28gt jit_int28ge)"
| "int_cmp_fn I8 I2 op = c64_64 ret32 (pick op jit_int82eq jit_int82ne jit_int82lt jit_int82le jit_int82gt jit_int82ge)"
| "int_cmp_fn I4 I8 op = c32_64 ret32 (pick op jit_int48eq jit_int48ne jit_int48lt jit_int48le jit_int48gt jit_int48ge)"
| "int_cmp_fn I8 I4 op = c64_32 ret32 (pick op jit_int84eq jit_int84ne jit_int84lt jit_int84le jit_int84gt jit_int84ge)"

definition int_cmp_regs :: "int_type \<Rightarrow> int_type \<Rightarrow> jit_type list" where
  "int_cmp_regs t1 t2 =
     (if t1 = t2 then (if t1 = I8 then [T64, T64] else [T32, T32])
      else if (t1, t2) \<in> {(I2, I8), (I8, I2)} then [T64, T64]
      else [if t1 = I8 then T64 else T32, if t2 = I8 then T64 else T32])"

lemma int_cmp_rows: "row_is cfg (int_name t1 t2 (cmp_suffix op)) T32 (int_cmp_regs t1 t2)"
proof -
  have *: "int_cmp_regs I2 I2 = [T32, T32]" "int_cmp_regs I4 I4 = [T32, T32]" "int_cmp_regs I8 I8 = [T64, T64]"
    "int_cmp_regs I2 I4 = [T32, T32]" "int_cmp_regs I4 I2 = [T32, T32]" "int_cmp_regs I2 I8 = [T64, T64]"
    "int_cmp_regs I8 I2 = [T64, T64]" "int_cmp_regs I4 I8 = [T32, T64]" "int_cmp_regs I8 I4 = [T64, T32]"
    by (simp_all add: int_cmp_regs_def)
  show ?thesis
    by (cases t1; cases t2; cases op)
       (simp_all only: int_name_def int_digit.simps cmp_suffix.simps int_type.distinct * row_simps jit_direct_fns_1_def)
qed

text \<open>Narrowing a word keeps its low bits, whatever the signedness of the cast.\<close>

lemma scast_narrow:
  assumes "LENGTH('b::len) \<le> LENGTH('a::len)"
  shows "(scast (w :: 'a word) :: 'b word) = ucast w"
  using assms by (intro bit_word_eqI) (simp add: bit_simps)

lemma scast_narrow_simps [simp]:
  "(scast (x :: 64 word) :: 32 word) = ucast x" "(scast (x :: 64 word) :: 16 word) = ucast x"
  "(scast (y :: 32 word) :: 16 word) = ucast y" "(scast (y :: 32 word) :: 8 word) = ucast y"
  "(ucast (ucast x :: 32 word) :: 16 word) = ucast x" "(ucast (ucast x :: 32 word) :: 8 word) = ucast x"
  by (auto intro!: scast_narrow bit_word_eqI simp: bit_simps)

lemma int_value_simps:
  "int_value I2 d = sint (ucast d :: int16)" "int_value I4 d = sint (ucast d :: int32)" "int_value I8 d = sint d"
  by (simp_all add: int_value_def)

lemmas int_value_regs = int_value_simps DatumGetInt32_def scast_narrow_simps
  sint_scast_32_64 sint_scast_16_64 sint_scast_16_32

text \<open>
  C32 (functional): the 54 comparison functions on pairs of integer types, called through
  the table of direct functions, decide the relation of the values. The types of a pair may
  differ, so together they realise one order on all integers, as the btree operator family
  of the integer types requires.
\<close>

theorem int_comparisons:
  "direct_call cfg (int_name t1 t2 (cmp_suffix op)) (int_cmp_fn t1 t2 op) [x, y]
   = Some (ret32 (c_bool (cmp_rel op (int_value t1 x) (int_value t2 y))))"
proof (rule direct_call_row [OF int_cmp_rows])
  show "int_cmp_fn t1 t2 op (map2 jit_arg (int_cmp_regs t1 t2) [x, y])
      = Some (ret32 (c_bool (cmp_rel op (int_value t1 x) (int_value t2 y))))"
    by (cases t1; cases t2; cases op) (simp_all add: int_cmp_regs_def pick_def int_fn_defs int_value_regs)
qed (auto simp: int_cmp_regs_def)

section \<open>Arithmetic\<close>

definition exact :: "nat \<Rightarrow> pg_error \<Rightarrow> int \<Rightarrow> pg_error + int" where
  "exact w err i = (if sfits w i then Inr i else Inl err)"

fun arith_exact :: "nat \<Rightarrow> pg_error \<Rightarrow> arith_op \<Rightarrow> int \<Rightarrow> int \<Rightarrow> pg_error + int" where
  "arith_exact w err PL a b = exact w err (a + b)"
| "arith_exact w err MI a b = exact w err (a - b)"
| "arith_exact w err MUL a b = exact w err (a * b)"
| "arith_exact w err DIV a b = (if b = 0 then Inl Division_by_zero else exact w err (a sdiv b))"

definition arith_pick :: "arith_op \<Rightarrow> 'f \<Rightarrow> 'f \<Rightarrow> 'f \<Rightarrow> 'f \<Rightarrow> 'f" where
  "arith_pick op pl mi mul dv = (case op of PL \<Rightarrow> pl | MI \<Rightarrow> mi | MUL \<Rightarrow> mul | DIV \<Rightarrow> dv)"

fun int_arith_fn :: "pg_prims \<Rightarrow> int_type \<Rightarrow> int_type \<Rightarrow> arith_op \<Rightarrow> native" where
  "int_arith_fn E I2 I2 op = c32_32 err32 (arith_pick op jit_int2pl jit_int2mi jit_int2mul jit_int2div)"
| "int_arith_fn E I4 I4 op = c32_32 err32 (arith_pick op (jit_int4pl E) (jit_int4mi E) (jit_int4mul E) jit_int4div)"
| "int_arith_fn E I8 I8 op = c64_64 err64 (arith_pick op (jit_int8pl E) (jit_int8mi E) (jit_int8mul E) jit_int8div)"
| "int_arith_fn E I2 I4 op = c32_32 err32 (arith_pick op (jit_int24pl E) (jit_int24mi E) (jit_int24mul E) jit_int24div)"
| "int_arith_fn E I4 I2 op = c32_32 err32 (arith_pick op (jit_int42pl E) (jit_int42mi E) (jit_int42mul E) jit_int42div)"
| "int_arith_fn E I2 I8 op = c64_64 err64 (arith_pick op (jit_int28pl E) (jit_int28mi E) (jit_int28mul E) jit_int28div)"
| "int_arith_fn E I8 I2 op = c64_64 err64 (arith_pick op (jit_int82pl E) (jit_int82mi E) (jit_int82mul E) jit_int82div)"
| "int_arith_fn E I4 I8 op = c64_64 err64 (arith_pick op (jit_int48pl E) (jit_int48mi E) (jit_int48mul E) jit_int48div)"
| "int_arith_fn E I8 I4 op = c64_64 err64 (arith_pick op (jit_int84pl E) (jit_int84mi E) (jit_int84mul E) jit_int84div)"

text \<open>The type of the result, the wider one, with its width and its error.\<close>

definition arith_type :: "int_type \<Rightarrow> int_type \<Rightarrow> int_type" where
  "arith_type t1 t2 = (if I8 \<in> {t1, t2} then I8 else if I4 \<in> {t1, t2} then I4 else I2)"

fun int_bits :: "int_type \<Rightarrow> nat" where
  "int_bits I2 = 16" | "int_bits I4 = 32" | "int_bits I8 = 64"

fun int_error :: "int_type \<Rightarrow> pg_error" where
  "int_error I2 = Smallint_out_of_range" | "int_error I4 = Integer_out_of_range" | "int_error I8 = Bigint_out_of_range"

fun int_reg :: "int_type \<Rightarrow> jit_type" where
  "int_reg I8 = T64" | "int_reg _ = T32"

abbreviation arith_reg :: "int_type \<Rightarrow> int_type \<Rightarrow> jit_type" where
  "arith_reg t1 t2 \<equiv> int_reg (arith_type t1 t2)"

lemma arith_reg_simps:
  "arith_reg I2 I2 = T32" "arith_reg I4 I4 = T32" "arith_reg I2 I4 = T32" "arith_reg I4 I2 = T32"
  "arith_reg I8 t = T64" "arith_reg t I8 = T64"
  by (simp_all add: arith_type_def)

lemma int_arith_rows:
  "row_is cfg (int_name t1 t2 (arith_suffix op)) (arith_reg t1 t2) [arith_reg t1 t2, arith_reg t1 t2]"
  by (cases t1; cases t2; cases op)
     (simp_all only: int_name_def int_digit.simps arith_suffix.simps int_type.distinct arith_reg_simps row_simps
        jit_direct_fns_1_def)

text \<open>The operations of \<open>common/int.h\<close>, and truncated division, on the values.\<close>

lemma checked_documented:
  assumes "documented_op f g"
  shows "map_sum id sint (checked err (f a (b :: 'a::len word))) = exact LENGTH('a) err (g (sint a) (sint b))"
  using assms by (simp add: documented_op_def checked_def exact_def)

lemma checked_overflow:
  assumes "documented_overflow P"
  shows "map_sum id sint (checked err (add_overflow P a (b :: 'a::len word))) = exact LENGTH('a) err (sint a + sint b)"
    "map_sum id sint (checked err (sub_overflow P a b)) = exact LENGTH('a) err (sint a - sint b)"
    "map_sum id sint (checked err (mul_overflow P a b)) = exact LENGTH('a) err (sint a * sint b)"
  using assms by (auto simp: documented_overflow_def intro!: checked_documented)

lemma abs_sdiv_less:
  assumes "1 < \<bar>b\<bar>" "a \<noteq> 0"
  shows "\<bar>a sdiv b\<bar> < \<bar>a :: int\<bar>"
proof -
  have "\<bar>a sdiv b\<bar> = \<bar>a\<bar> div \<bar>b\<bar>"
    using assms by (auto simp: signed_divide_int_def abs_mult abs_sgn_eq pos_imp_zdiv_nonneg_iff)
  then show ?thesis using int_div_less_self [of "\<bar>a\<bar>" "\<bar>b\<bar>"] assms by simp
qed

lemma sfits_less_abs: "sfits w a \<Longrightarrow> \<bar>b\<bar> < \<bar>a\<bar> \<Longrightarrow> sfits w b"
  by (auto simp: sfits_def)

lemma sfits_sdiv:
  assumes "sfits w a" "b \<noteq> 0"
  shows "sfits w (a sdiv b) \<longleftrightarrow> \<not> (a = - (2 ^ (w - 1)) \<and> b = - 1)"
proof -
  consider "b = 1" | "b = - 1" | "1 < \<bar>b\<bar>" using assms(2) by linarith
  then show ?thesis
  proof cases
    case 1
    then have "a sdiv b = a" by (simp add: signed_divide_int_def abs_if sgn_if)
    with 1 show ?thesis using assms by simp
  next
    case 2
    have "a sdiv - 1 = - a" by (simp add: signed_divide_int_def abs_if sgn_if)
    with 2 assms(1) show ?thesis by (auto simp: sfits_def)
  next
    case 3
    have "sfits w 0" by (simp add: sfits_def)
    then have "sfits w (a sdiv b)"
      using 3 sfits_less_abs [OF assms(1) abs_sdiv_less [OF 3]] by (cases "a = 0") auto
    then show ?thesis using 3 by auto
  qed
qed

lemma c_div_exact:
  assumes "b \<noteq> 0"
  shows "map_sum id sint (if sint a = - (2 ^ (LENGTH('a) - 1)) \<and> sint b = - 1 then Inl err else Inr (c_div a (b :: 'a::len word)))
    = exact LENGTH('a) err (sint a sdiv sint b)"
proof -
  have "sint b \<noteq> 0" using assms by (simp add: signed_eq_0_iff)
  from sfits_sdiv [OF sint_sfits this, of a] show ?thesis
    by (auto simp: exact_def c_div_def sint_word_of_int_sfits)
qed

lemma sint_mins:
  "a = PG_INT32_MIN \<longleftrightarrow> sint a = - (2 ^ 31)" "b = PG_INT64_MIN \<longleftrightarrow> sint b = - (2 ^ 63)"
  "c = PG_INT16_MIN \<longleftrightarrow> sint c = - (2 ^ 15)"
  "a = - 1 \<longleftrightarrow> sint a = - 1" "b = - 1 \<longleftrightarrow> sint b = - 1" "c = - 1 \<longleftrightarrow> sint c = - 1"
  by (auto simp: PG_INT32_MIN_def PG_INT64_MIN_def PG_INT16_MIN_def intro!: signed_word_eqI)

lemma jit_div_exact:
  "map_sum id sint (jit_int4div a b) = arith_exact 32 Integer_out_of_range DIV (sint a) (sint b)"
  "map_sum id sint (jit_int8div c d) = arith_exact 64 Bigint_out_of_range DIV (sint c) (sint d)"
  using c_div_exact [where a = a and b = b and err = Integer_out_of_range]
    c_div_exact [where a = c and b = d and err = Bigint_out_of_range]
  unfolding jit_int4div_def jit_int8div_def sint_mins by (simp_all add: signed_eq_0_iff)

lemma jit_checked_exact:
  assumes "documented_prims E"
  shows "map_sum id sint (jit_int4pl E a b) = arith_exact 32 Integer_out_of_range PL (sint a) (sint b)"
    "map_sum id sint (jit_int4mi E a b) = arith_exact 32 Integer_out_of_range MI (sint a) (sint b)"
    "map_sum id sint (jit_int4mul E a b) = arith_exact 32 Integer_out_of_range MUL (sint a) (sint b)"
    "map_sum id sint (jit_int8pl E c d) = arith_exact 64 Bigint_out_of_range PL (sint c) (sint d)"
    "map_sum id sint (jit_int8mi E c d) = arith_exact 64 Bigint_out_of_range MI (sint c) (sint d)"
    "map_sum id sint (jit_int8mul E c d) = arith_exact 64 Bigint_out_of_range MUL (sint c) (sint d)"
  using assms
  by (simp_all add: documented_prims_def jit_int4pl_def jit_int4mi_def jit_int4mul_def
      jit_int8pl_def jit_int8mi_def jit_int8mul_def checked_overflow)

lemma int2_result_exact: "map_sum id sint (int2_result r) = exact 16 Smallint_out_of_range (sint r)"
proof (cases "sfits 16 (sint r)")
  case True
  then have "sint (to_i16 r) = sint r" by (intro sint_scast_down) simp
  with True show ?thesis
    by (auto simp: int2_result_def exact_def sfits_def simp del: scast_narrow_simps)
next
  case False
  then show ?thesis by (auto simp: int2_result_def exact_def sfits_def)
qed

lemma of_i16_arith:
  "sint (of_i16 a + of_i16 b) = sint a + sint b" "sint (of_i16 a - of_i16 b) = sint a - sint b"
  "sint (of_i16 a * of_i16 b) = sint a * sint b"
proof -
  have r: "- 32768 \<le> sint a" "sint a < 32768" "- 32768 \<le> sint b" "sint b < 32768"
    using sfits_16 [of a] sfits_16 [of b] by (simp_all add: sfits_def)
  show "sint (of_i16 a + of_i16 b) = sint a + sint b"
    using r by (subst sint_add_sfits) (simp_all add: sfits_def)
  show "sint (of_i16 a - of_i16 b) = sint a - sint b"
    using r by (subst sint_sub_sfits) (simp_all add: sfits_def)
  have "\<bar>sint a * sint b\<bar> \<le> 32768 * 32768"
    unfolding abs_mult using r by (intro mult_mono) auto
  then show "sint (of_i16 a * of_i16 b) = sint a * sint b"
    by (subst sint_mul_sfits) (simp_all add: sfits_def abs_le_iff)
qed

lemma jit_int2_exact:
  "map_sum id sint (jit_int2pl a b) = arith_exact 16 Smallint_out_of_range PL (sint (to_i16 a)) (sint (to_i16 b))"
  "map_sum id sint (jit_int2mi a b) = arith_exact 16 Smallint_out_of_range MI (sint (to_i16 a)) (sint (to_i16 b))"
  "map_sum id sint (jit_int2mul a b) = arith_exact 16 Smallint_out_of_range MUL (sint (to_i16 a)) (sint (to_i16 b))"
  "map_sum id sint (jit_int2div a b) = arith_exact 16 Smallint_out_of_range DIV (sint (to_i16 a)) (sint (to_i16 b))"
proof -
  show "map_sum id sint (jit_int2div a b) = arith_exact 16 Smallint_out_of_range DIV (sint (to_i16 a)) (sint (to_i16 b))"
  proof (cases "to_i16 b = 0")
    case False
    define x y where "x = sint (to_i16 a)" and "y = sint (to_i16 b)"
    have xy: "sfits 16 x" "y \<noteq> 0" using False by (simp_all add: x_def y_def signed_eq_0_iff)
    then have "sfits 32 (x sdiv y)"
      using sfits_mono [OF xy(1), of 32] by (subst sfits_sdiv) (auto simp: sfits_def)
    then have "sint (c_div (of_i16 (to_i16 a)) (of_i16 (to_i16 b))) = x sdiv y"
      by (simp add: c_div_def x_def y_def sint_word_of_int_sfits del: scast_narrow_simps)
    moreover have "arith_exact 16 Smallint_out_of_range DIV x y
        = (if x = - (2 ^ 15) \<and> y = - 1 then Inl Smallint_out_of_range else Inr (x sdiv y))"
      using sfits_sdiv [OF xy] xy by (auto simp: exact_def)
    ultimately show ?thesis
      using False unfolding jit_int2div_def sint_mins by (simp add: Let_def x_def y_def)
  qed (simp add: jit_int2div_def)
qed (simp_all add: jit_int2pl_def jit_int2mi_def jit_int2mul_def int2_result_exact of_i16_arith del: scast_narrow_simps)

text \<open>The values of a call whose function may raise an error.\<close>

abbreviation jv_result :: "(pg_error + jit_val) option \<Rightarrow> (pg_error + int) option" where
  "jv_result \<equiv> map_option (map_sum id jv_int)"

lemma err_values [simp]:
  "map_sum id jv_int (err32 r) = map_sum id sint r" "map_sum id jv_int (err64 q) = map_sum id sint q"
  by (cases r; simp) (cases q; simp)

lemma err_types [simp]:
  "err32 r = Inr v \<Longrightarrow> jv_type v = T32" "err64 q = Inr v \<Longrightarrow> jv_type v = T64"
  by (cases r; auto) (cases q; auto)

lemma direct_call_value:
  assumes "row_is cfg f rt as" "g (map2 jit_arg as args) = Some r" "length args = length as"
    and "\<forall>v. r = Inr v \<longrightarrow> jv_type v = rt" "map_sum id jv_int r = res"
  shows "jv_result (direct_call cfg f g args) = Some res"
  using direct_call_row [where g = g, OF assms(1-4)] assms(5) by simp

text \<open>
  C25 (functional): the 36 functions for addition, subtraction, multiplication and division
  on pairs of integer types, called through the table, return the exact integer result of
  the wider type, and the error of that type exactly when the result does not fit; a zero
  divisor is the division error. For the functions of \<open>common/int.h\<close> this needs what they
  document.
\<close>

theorem int_arithmetic:
  assumes "documented_prims E"
  shows "jv_result (direct_call cfg (int_name t1 t2 (arith_suffix op)) (int_arith_fn E t1 t2 op) [x, y])
    = Some (arith_exact (int_bits (arith_type t1 t2)) (int_error (arith_type t1 t2)) op
              (int_value t1 x) (int_value t2 y))"
proof -
  define as where "as = [arith_reg t1 t2, arith_reg t1 t2]"
  have "\<exists>r. int_arith_fn E t1 t2 op (map2 jit_arg as [x, y]) = Some r
      \<and> (\<forall>v. r = Inr v \<longrightarrow> jv_type v = arith_reg t1 t2)
      \<and> map_sum id jv_int r = arith_exact (int_bits (arith_type t1 t2)) (int_error (arith_type t1 t2)) op
            (int_value t1 x) (int_value t2 y)"
    unfolding as_def
    by (cases t1; cases t2; cases op)
       (simp_all add: arith_type_def arith_pick_def jit_int2_exact jit_checked_exact [OF assms] jit_div_exact
         jit_int24pl_def jit_int24mi_def jit_int24mul_def jit_int24div_def jit_int42pl_def jit_int42mi_def
         jit_int42mul_def jit_int42div_def jit_int48pl_def jit_int48mi_def jit_int48mul_def jit_int48div_def
         jit_int84pl_def jit_int84mi_def jit_int84mul_def jit_int84div_def jit_int28pl_def jit_int28mi_def
         jit_int28mul_def jit_int28div_def jit_int82pl_def jit_int82mi_def jit_int82mul_def jit_int82div_def
         int_value_regs del: arith_exact.simps)
  then show ?thesis
    using direct_call_value [OF int_arith_rows [of cfg t1 t2 op, folded as_def]] by (auto simp: as_def)
qed

text \<open>An instance of the parameters, by the compiler's checked arithmetic.\<close>

definition builtin_overflow :: "'a::len word pg_overflow" where
  "builtin_overflow =
     \<lparr>add_overflow = (\<lambda>a b. (\<not> sfits LENGTH('a) (sint a + sint b), a + b)),
      sub_overflow = (\<lambda>a b. (\<not> sfits LENGTH('a) (sint a - sint b), a - b)),
      mul_overflow = (\<lambda>a b. (\<not> sfits LENGTH('a) (sint a * sint b), a * b))\<rparr>"

definition example_prims :: pg_prims where
  "example_prims = \<lparr>s32 = builtin_overflow, s64 = builtin_overflow,
     hash_bytes_uint32 = (\<lambda>k. k * 2654435761), hash_bytes_uint32_extended = (\<lambda>k seed. ucast k + seed)\<rparr>"

lemma documented_example_prims: "documented_prims example_prims"
  by (simp add: documented_prims_def documented_overflow_def documented_op_def example_prims_def
      builtin_overflow_def sint_add_sfits sint_sub_sfits sint_mul_sfits)

theorem int_arithmetic_witness:
  "jv_result (direct_call \<lparr>pg18 = True, have_simd = True\<rparr> ''int24mul'' (int_arith_fn example_prims I2 I4 MUL) [65535, 7])
   = Some (Inr (- 7))"
  using int_arithmetic [OF documented_example_prims, where ?t1.0 = I2 and ?t2.0 = I4 and op = MUL and x = 65535 and y = 7]
  by (simp add: int_name_def int_value_def arith_type_def exact_def sfits_def)

section \<open>Unary functions, remainders and casts\<close>

lemma exact_neg:
  assumes "sfits w a"
  shows "sfits w (- a) \<longleftrightarrow> a \<noteq> - (2 ^ (w - 1))" "sfits w \<bar>a\<bar> \<longleftrightarrow> a \<noteq> - (2 ^ (w - 1))"
  using assms by (auto simp: sfits_def abs_if)

lemma sint_neg_exact:
  assumes "sint a \<noteq> - (2 ^ (LENGTH('a) - 1))"
  shows "sint (- a) = - sint (a :: 'a::len word)"
  using exact_neg [OF sint_sfits, of a] assms by (intro sint_neg_sfits) simp

lemma sfits_smod:
  assumes "sfits w a" "b \<noteq> 0"
  shows "sfits w (a smod b)"
proof -
  define m where "m = \<bar>a\<bar> mod \<bar>b\<bar>"
  have "0 \<le> m" "m \<le> \<bar>a\<bar>"
    using assms(2) by (simp_all add: m_def zmod_le_nonneg_dividend)
  moreover have "a smod b = sgn a * m" by (simp add: m_def smod_int_alt_def)
  ultimately show ?thesis using assms(1) by (auto simp: sfits_def sgn_if abs_if split: if_splits)
qed

lemma smod_1 [simp]: "a smod 1 = 0" "a smod - 1 = 0" for a :: int
  by (simp_all add: smod_int_alt_def)

definition mod_exact :: "int \<Rightarrow> int \<Rightarrow> pg_error + int" where
  "mod_exact a b = (if b = 0 then Inl Division_by_zero else Inr (a smod b))"

lemma sint_c_rem: "b \<noteq> 0 \<Longrightarrow> sint (c_rem a b) = sint a smod sint (b :: 'a::len word)"
  by (simp add: c_rem_def sint_word_of_int_sfits sfits_smod signed_eq_0_iff)

lemma of_i16_rem:
  assumes "b \<noteq> 0"
  shows "sint (c_rem (of_i16 a) (of_i16 b)) = sint a smod sint b"
proof -
  have "of_i16 b \<noteq> 0" using assms by (metis signed_0 signed_eq_0_iff sint_scast_16_32)
  then show ?thesis by (simp add: sint_c_rem)
qed

lemma of_i16_neg: "sint (- of_i16 a) = - sint a"
proof -
  have "- 32768 \<le> sint a" "sint a < 32768"
    using sfits_16 [of a] by (simp_all add: sfits_def)
  then show ?thesis by (subst sint_neg_sfits) (simp_all add: sfits_def)
qed

text \<open>
  The remainder has the sign of the dividend and the only error is a zero
  divisor (the smallest value modulo -1 is 0); absolute value and negation return the exact
  result or the overflow error, for each of the three types.
\<close>

lemma int_unary_and_mod:
  "map_sum id sint (jit_int2mod a b) = mod_exact (sint (to_i16 a)) (sint (to_i16 b))
   \<and> map_sum id sint (jit_int4mod a b) = mod_exact (sint a) (sint b)
   \<and> map_sum id sint (jit_int8mod c d) = mod_exact (sint c) (sint d)
   \<and> map_sum id sint (jit_int2abs a) = exact 16 Smallint_out_of_range \<bar>sint (to_i16 a)\<bar>
   \<and> map_sum id sint (jit_int4abs a) = exact 32 Integer_out_of_range \<bar>sint a\<bar>
   \<and> map_sum id sint (jit_int8abs c) = exact 64 Bigint_out_of_range \<bar>sint c\<bar>
   \<and> map_sum id sint (jit_int2um a) = exact 16 Smallint_out_of_range (- sint (to_i16 a))
   \<and> map_sum id sint (jit_int4um a) = exact 32 Integer_out_of_range (- sint a)
   \<and> map_sum id sint (jit_int8um c) = exact 64 Bigint_out_of_range (- sint c)"
proof (intro conjI)
  show "map_sum id sint (jit_int2mod a b) = mod_exact (sint (to_i16 a)) (sint (to_i16 b))"
    using of_i16_rem [of "to_i16 b" "to_i16 a"]
    unfolding jit_int2mod_def mod_exact_def Let_def sint_mins by (auto simp: signed_eq_0_iff simp del: scast_narrow_simps)
  show "map_sum id sint (jit_int4mod a b) = mod_exact (sint a) (sint b)"
    unfolding jit_int4mod_def mod_exact_def sint_mins by (auto simp: sint_c_rem signed_eq_0_iff)
  show "map_sum id sint (jit_int8mod c d) = mod_exact (sint c) (sint d)"
    unfolding jit_int8mod_def mod_exact_def sint_mins by (auto simp: sint_c_rem signed_eq_0_iff)
  show "map_sum id sint (jit_int2abs a) = exact 16 Smallint_out_of_range \<bar>sint (to_i16 a)\<bar>"
    using exact_neg [OF sfits_16, of "to_i16 a"] unfolding jit_int2abs_def Let_def sint_mins
    by (auto simp: exact_def of_i16_neg simp del: scast_narrow_simps)
  show "map_sum id sint (jit_int4abs a) = exact 32 Integer_out_of_range \<bar>sint a\<bar>"
    using exact_neg [OF sfits_32, of a] sint_neg_exact [of a] unfolding jit_int4abs_def sint_mins
    by (auto simp: exact_def)
  show "map_sum id sint (jit_int8abs c) = exact 64 Bigint_out_of_range \<bar>sint c\<bar>"
    using exact_neg [OF sfits_64, of c] sint_neg_exact [of c] unfolding jit_int8abs_def sint_mins
    by (auto simp: exact_def)
  show "map_sum id sint (jit_int2um a) = exact 16 Smallint_out_of_range (- sint (to_i16 a))"
    using exact_neg [OF sfits_16, of "to_i16 a"] sint_scast_down [where ?'b = 16, of "- of_i16 (to_i16 a)"]
    unfolding jit_int2um_def Let_def sint_mins
    by (auto simp: exact_def of_i16_neg simp del: scast_narrow_simps)
  show "map_sum id sint (jit_int4um a) = exact 32 Integer_out_of_range (- sint a)"
    using exact_neg [OF sfits_32, of a] sint_neg_exact [of a] unfolding jit_int4um_def sint_mins
    by (auto simp: exact_def)
  show "map_sum id sint (jit_int8um c) = exact 64 Bigint_out_of_range (- sint c)"
    using exact_neg [OF sfits_64, of c] sint_neg_exact [of c] unfolding jit_int8um_def sint_mins
    by (auto simp: exact_def)
qed

lemma narrow_exact:
  assumes "n = LENGTH('b::len)" "v = sint (a :: 'a::len word)"
  shows "map_sum id sint (if v < - (2 ^ (n - 1)) \<or> v > 2 ^ (n - 1) - 1 then Inl err else Inr (scast a :: 'b word))
    = exact n err v"
  using assms sint_scast_down [where ?'b = 'b, of a] by (auto simp: exact_def sfits_def)

text \<open>
  C40 (roundtrip): a widening cast keeps the value, a narrowing cast undoes it and raises
  the error of the narrower type exactly when the value does not fit.
\<close>

theorem int_casts:
  "sint (jit_int48_cast a) = sint a \<and> sint (jit_int28_cast a) = sint (to_i16 a) \<and> sint (jit_int24_cast a) = sint (to_i16 a)
   \<and> map_sum id sint (jit_int84_cast c) = exact 32 Integer_out_of_range (sint c)
   \<and> map_sum id sint (jit_int82_cast c) = exact 16 Smallint_out_of_range (sint c)
   \<and> map_sum id sint (jit_int42_cast a) = exact 16 Smallint_out_of_range (sint a)
   \<and> jit_int84_cast (jit_int48_cast a) = Inr a
   \<and> jit_int82_cast (jit_int28_cast a) = Inr (jit_int24_cast a)
   \<and> map_sum id sint (jit_i4tochar a) = exact 8 Char_out_of_range (sint a)
   \<and> jit_i4tochar (jit_chartoi4 a) = Inr (jit_chartoi4 a)
   \<and> jit_xid8toxid (jit_oidtoi8 a) = a"
proof (intro conjI)
  have 16: "ucast (scast (x :: 16 word) :: 64 word) = x" for x by (rule bit_word_eqI) (simp add: bit_simps)
  have 8: "ucast (scast (x :: 8 word) :: 32 word) = x" for x by (rule bit_word_eqI) (simp add: bit_simps)
  show "jit_int84_cast (jit_int48_cast a) = Inr a"
    using sfits_32 [of a] by (auto simp: jit_int84_cast_def jit_int48_cast_def sfits_def)
  show "jit_int82_cast (jit_int28_cast a) = Inr (jit_int24_cast a)"
    using sfits_16 [of "ucast a"] by (auto simp: jit_int82_cast_def jit_int28_cast_def jit_int24_cast_def sfits_def 16)
  show "jit_i4tochar (jit_chartoi4 a) = Inr (jit_chartoi4 a)"
    using sint_sfits [of "ucast a :: 8 word"] by (auto simp: jit_i4tochar_def jit_chartoi4_def sfits_def 8)
  show "map_sum id sint (jit_int84_cast c) = exact 32 Integer_out_of_range (sint c)"
    using narrow_exact [where ?'b = 32, of 32 "sint c" c] by (simp add: jit_int84_cast_def del: scast_narrow_simps)
  show "map_sum id sint (jit_int82_cast c) = exact 16 Smallint_out_of_range (sint c)"
    using narrow_exact [where ?'b = 16, of 16 "sint c" c]
    by (auto simp: jit_int82_cast_def simp del: scast_narrow_simps split: if_splits)
  show "map_sum id sint (jit_int42_cast a) = exact 16 Smallint_out_of_range (sint a)"
    using narrow_exact [where ?'b = 16, of 16 "sint a" a]
    by (auto simp: jit_int42_cast_def simp del: scast_narrow_simps split: if_splits)
  show "map_sum id sint (jit_i4tochar a) = exact 8 Char_out_of_range (sint a)"
    using narrow_exact [where ?'b = 8, of 8 "sint a" a]
    by (auto simp: jit_i4tochar_def simp del: scast_narrow_simps split: if_splits)
qed (simp_all add: jit_int48_cast_def jit_int28_cast_def jit_int24_cast_def jit_xid8toxid_def jit_oidtoi8_def)

section \<open>Bitwise functions\<close>

text \<open>The shift that avoids C's undefined cases is the floor of a division.\<close>

lemma sar_signed_drop_bit:
  "(if sint a \<ge> 0 then drop_bit n a else NOT (drop_bit n (NOT a))) = signed_drop_bit n (a :: 'a::len word)"
proof (rule bit_word_eqI)
  fix k assume "k < LENGTH('a)"
  then show "bit (if sint a \<ge> 0 then drop_bit n a else NOT (drop_bit n (NOT a))) k
      \<longleftrightarrow> bit (signed_drop_bit n a) k"
    using bit_last_iff [of a] bit_imp_le_length [of a "n + k"]
    by (auto simp: bit_simps not_le less_diff_conv add.commute)
qed

lemma jit_sar_floor:
  "sint (jit_sar32_defined a sh) = sint a div 2 ^ unat sh"
  "sint (jit_sar64_defined c sh) = sint c div 2 ^ unat sh"
  by (simp_all add: jit_sar32_defined_def jit_sar64_defined_def sar_signed_drop_bit sint_signed_drop_bit_eq
      drop_bit_eq_div)

lemma unat_mask: "unat (b AND 31 :: uint32) = unat b mod 32" "unat (b AND 63 :: uint32) = unat b mod 64"
proof -
  have "b AND 31 = take_bit 5 b" "b AND 63 = take_bit 6 b"
    by (simp_all add: take_bit_eq_mask mask_numeral)
  then show "unat (b AND 31) = unat b mod 32" "unat (b AND 63) = unat b mod 64"
    by (simp_all only: unsigned_take_bit_eq) (simp_all add: take_bit_eq_mod)
qed

lemma sint_not: "sint (NOT (a :: 'a::len word)) = - sint a - 1"
proof -
  have "sfits LENGTH('a) (- sint a - 1)"
    using sint_sfits [of a] by (auto simp: sfits_def)
  moreover have "(word_of_int (- sint a - 1) :: 'a word) = NOT a"
    by (simp add: not_eq_complement)
  ultimately show ?thesis by (metis sint_word_of_int_sfits)
qed

lemma div_pow_bounds:
  assumes "- m \<le> (x :: int)" "x < m"
  shows "- m \<le> x div 2 ^ n \<and> x div 2 ^ n < m"
proof (cases "0 \<le> x")
  case True
  then have "0 \<le> x div 2 ^ n" "x div 2 ^ n \<le> x"
    using zdiv_mono2 [of x 1 "2 ^ n"] by (simp_all add: pos_imp_zdiv_nonneg_iff)
  with assms show ?thesis by linarith
next
  case False
  then have "x \<le> x div 2 ^ n" "x div 2 ^ n < 0"
    using zdiv_mono2_neg [of x 1 "2 ^ n"] by (simp_all add: pos_imp_zdiv_neg_iff)
  with assms show ?thesis by linarith
qed

lemma of_i16_shr: "sint (to_i16 (jit_sar32_defined (of_i16 a) sh)) = sint a div 2 ^ unat sh"
proof -
  have "sfits 16 (sint a div 2 ^ unat sh)"
    using sfits_16 [of a] div_pow_bounds [of "2 ^ 15"] by (simp add: sfits_def)
  then show ?thesis
    using sint_scast_down [where ?'b = 16, of "jit_sar32_defined (of_i16 a) sh"]
    by (simp add: jit_sar_floor del: scast_narrow_simps)
qed

text \<open>
  The right shifts divide by a power of two rounding down, with the shift
  count taken modulo the width of C's type (32 for int2 and int4, 64 for int8); the left
  shifts multiply and keep the low bits; the complement is \<open>- x - 1\<close>.
\<close>

lemma int_shifts:
  "sint (jit_int2shr a b) = sint (to_i16 a) div 2 ^ (unat b mod 32)
   \<and> sint (jit_int4shr a b) = sint a div 2 ^ (unat b mod 32)
   \<and> sint (jit_int8shr c b) = sint c div 2 ^ (unat b mod 64)
   \<and> jit_int2shl a b = of_i16 (to_i16 (a * 2 ^ (unat b mod 32)))
   \<and> jit_int4shl a b = a * 2 ^ (unat b mod 32)
   \<and> jit_int8shl c b = c * 2 ^ (unat b mod 64)
   \<and> sint (jit_int2not a) = - sint (to_i16 a) - 1
   \<and> sint (jit_int4not a) = - sint a - 1
   \<and> sint (jit_int8not c) = - sint c - 1"
proof (intro conjI)
  show "sint (jit_int2shr a b) = sint (to_i16 a) div 2 ^ (unat b mod 32)"
    by (simp add: jit_int2shr_def of_i16_shr unat_mask del: scast_narrow_simps)
  show "jit_int2shl a b = of_i16 (to_i16 (a * 2 ^ (unat b mod 32)))"
  proof -
    have "to_i16 (push_bit n (of_i16 (to_i16 a))) = to_i16 (push_bit n a)" for n
      by (rule bit_word_eqI) (auto simp: bit_simps)
    then show ?thesis by (simp add: jit_int2shl_def unat_mask push_bit_eq_mult del: scast_narrow_simps)
  qed
qed (simp_all add: jit_int4shr_def jit_int8shr_def jit_int4shl_def jit_int8shl_def jit_int2not_def jit_int4not_def
    jit_int8not_def jit_sar_floor unat_mask push_bit_eq_mult sint_not del: scast_narrow_simps)

section \<open>The other scalar types\<close>

datatype scalar = Bool | Char | Oid_t | Xid8 | Lsn | Timestamp | Date | Cash

fun scalar_prefix :: "scalar \<Rightarrow> string" where
  "scalar_prefix Bool = ''bool''" | "scalar_prefix Char = ''char''" | "scalar_prefix Oid_t = ''oid''"
| "scalar_prefix Xid8 = ''xid8''" | "scalar_prefix Lsn = ''pg_lsn_''" | "scalar_prefix Timestamp = ''timestamp_''"
| "scalar_prefix Date = ''date_''" | "scalar_prefix Cash = ''cash_''"

text \<open>The order of a type: bytes, identifiers and log positions are unsigned.\<close>

fun scalar_value :: "scalar \<Rightarrow> Datum \<Rightarrow> int" where
  "scalar_value Char d = uint (ucast d :: uint8)"
| "scalar_value Oid_t d = uint (ucast d :: uint32)"
| "scalar_value Date d = sint (ucast d :: int32)"
| "scalar_value Xid8 d = uint d"
| "scalar_value Lsn d = uint d"
| "scalar_value _ d = sint d"

fun scalar_reg :: "scalar \<Rightarrow> jit_type" where
  "scalar_reg Char = T32" | "scalar_reg Oid_t = T32" | "scalar_reg Date = T32"
| "scalar_reg Bool = T64" | "scalar_reg Xid8 = T64" | "scalar_reg Lsn = T64" | "scalar_reg Timestamp = T64"
| "scalar_reg Cash = T64"

fun scalar_cmp_fn :: "scalar \<Rightarrow> cmp_op \<Rightarrow> native" where
  "scalar_cmp_fn Bool op = c64_64 ret32 (pick op jit_booleq jit_boolne jit_boollt jit_boolle jit_boolgt jit_boolge)"
| "scalar_cmp_fn Char op = c32_32 ret32 (pick op jit_chareq jit_charne jit_charlt jit_charle jit_chargt jit_charge)"
| "scalar_cmp_fn Oid_t op = c32_32 ret32 (pick op jit_oideq jit_oidne jit_oidlt jit_oidle jit_oidgt jit_oidge)"
| "scalar_cmp_fn Xid8 op = c64_64 ret32 (pick op jit_xid8eq jit_xid8ne jit_xid8lt jit_xid8le jit_xid8gt jit_xid8ge)"
| "scalar_cmp_fn Lsn op = c64_64 ret32
     (pick op jit_pg_lsn_eq jit_pg_lsn_ne jit_pg_lsn_lt jit_pg_lsn_le jit_pg_lsn_gt jit_pg_lsn_ge)"
| "scalar_cmp_fn Timestamp op = c64_64 ret32
     (pick op jit_timestamp_eq jit_timestamp_ne jit_timestamp_lt jit_timestamp_le jit_timestamp_gt jit_timestamp_ge)"
| "scalar_cmp_fn Date op = c32_32 ret32 (pick op jit_date_eq jit_date_ne jit_date_lt jit_date_le jit_date_gt jit_date_ge)"
| "scalar_cmp_fn Cash op = c64_64 ret32 (pick op jit_cash_eq jit_cash_ne jit_cash_lt jit_cash_le jit_cash_gt jit_cash_ge)"

lemma scalar_rows: "row_is cfg (scalar_prefix t @ cmp_suffix op) T32 [scalar_reg t, scalar_reg t]"
  by (cases t; cases op)
     (simp_all only: scalar_prefix.simps cmp_suffix.simps scalar_reg.simps row_simps jit_direct_fns_1_def
        jit_direct_fns_2_def jit_direct_fns_3_def)

text \<open>
  The comparison functions of bool, "char", oid, xid8, pg_lsn, timestamp,
  date and money, called through the table, decide the relation of the values, as unsigned
  numbers for "char", identifiers and log positions and signed ones for the others.
\<close>

lemma scalar_comparisons:
  "direct_call cfg (scalar_prefix t @ cmp_suffix op) (scalar_cmp_fn t op) [x, y]
   = Some (ret32 (c_bool (cmp_rel op (scalar_value t x) (scalar_value t y))))"
proof (rule direct_call_row [OF scalar_rows])
  show "scalar_cmp_fn t op (map2 jit_arg [scalar_reg t, scalar_reg t] [x, y])
      = Some (ret32 (c_bool (cmp_rel op (scalar_value t x) (scalar_value t y))))"
    by (cases t; cases op) (simp_all add: pick_def int_fn_defs DatumGetInt32_def scast_narrow_simps)
qed auto

section \<open>Three-way comparisons, sums and hashes\<close>

lemma sint_of_bool_diff: "sint (of_bool (b < a) - of_bool (a < b) :: int32) = sgn (a - b)" for a b :: int
  by (auto simp: sgn_if)

text \<open>
  The btree support functions return a number with the sign of the
  difference of the values, within and across the integer types, and minimum and maximum
  return the smaller and the greater value.
\<close>

lemma three_way_and_extrema:
  "sgn (sint (jit_btint2cmp a b)) = sgn (sint (to_i16 a) - sint (to_i16 b))
   \<and> sint (jit_btint4cmp a b) = sgn (sint a - sint b)
   \<and> sint (jit_btint8cmp c d) = sgn (sint c - sint d)
   \<and> sint (jit_btint24cmp a b) = sgn (sint (to_i16 a) - sint b)
   \<and> sint (jit_btint42cmp a b) = sgn (sint a - sint (to_i16 b))
   \<and> sint (jit_btint28cmp a d) = sgn (sint (to_i16 a) - sint d)
   \<and> sint (jit_btint82cmp c b) = sgn (sint c - sint (to_i16 b))
   \<and> sint (jit_btint48cmp a d) = sgn (sint a - sint d)
   \<and> sint (jit_btint84cmp c b) = sgn (sint c - sint b)
   \<and> sint (jit_btoidcmp a b) = sgn (uint a - uint b)
   \<and> sint (jit_xid8cmp c d) = sgn (uint c - uint d)
   \<and> sint (jit_pg_lsn_cmp c d) = sgn (uint c - uint d)
   \<and> sint (jit_timestamp_cmp c d) = sgn (sint c - sint d)
   \<and> sint (jit_date_cmp a b) = sgn (sint a - sint b)
   \<and> sint (jit_cash_cmp c d) = sgn (sint c - sint d)
   \<and> sint (jit_int4larger a b) = max (sint a) (sint b) \<and> sint (jit_int4smaller a b) = min (sint a) (sint b)
   \<and> sint (jit_int8larger c d) = max (sint c) (sint d) \<and> sint (jit_int8smaller c d) = min (sint c) (sint d)
   \<and> uint (jit_oidlarger a b) = max (uint a) (uint b) \<and> uint (jit_oidsmaller a b) = min (uint a) (uint b)
   \<and> uint (jit_pg_lsn_larger c d) = max (uint c) (uint d) \<and> uint (jit_pg_lsn_smaller c d) = min (uint c) (uint d)"
  by (simp add: int_fn_defs sint_of_bool_diff of_i16_arith max_def min_def sgn_if del: scast_narrow_simps)

text \<open>
  The transition functions of \<open>sum(int2)\<close>, \<open>sum(int4)\<close> and \<open>count\<close> and the
  functions that add days to a date return the exact sum, or the overflow error of their
  type exactly when it does not fit.
\<close>

lemma sums_and_dates:
  assumes "documented_prims E"
  shows "map_sum id sint (jit_int2_sum E s v) = exact 64 Bigint_out_of_range (sint s + int_value I2 v)
   \<and> map_sum id sint (jit_int4_sum E s v) = exact 64 Bigint_out_of_range (sint s + int_value I4 v)
   \<and> map_sum id sint (jit_int8inc_any E s v) = exact 64 Bigint_out_of_range (sint s + 1)
   \<and> map_sum id sint (jit_int8dec_any E s v) = exact 64 Bigint_out_of_range (sint s - 1)
   \<and> map_sum id sint (jit_int4inc E a) = exact 32 Integer_out_of_range (sint a + 1)
   \<and> map_sum id sint (jit_date_pli E a b) = exact 32 Integer_out_of_range (sint a + sint b)
   \<and> map_sum id sint (jit_date_mii E a b) = exact 32 Integer_out_of_range (sint a - sint b)
   \<and> map_sum id sint (jit_date_mi E a b) = exact 32 Integer_out_of_range (sint a - sint b)"
  using assms
  by (simp add: documented_prims_def jit_int2_sum_def jit_int4_sum_def jit_int8inc_any_def jit_int8dec_any_def
      jit_int8inc_def jit_int8dec_def jit_int4inc_def jit_date_pli_def jit_date_mii_def jit_date_mi_def
      checked_overflow int_value_def)

theorem sums_and_dates_witness:
  "map_sum id sint (jit_int4_sum example_prims (2 ^ 63 - 1) 4294967295) = Inr (2 ^ 63 - 2)
   \<and> map_sum id sint (jit_int8inc_any example_prims (2 ^ 63 - 1) 0) = Inl Bigint_out_of_range"
  using sums_and_dates [OF documented_example_prims, of "2 ^ 63 - 1" 4294967295 0 0]
    sums_and_dates [OF documented_example_prims, of "2 ^ 63 - 1" 0 0 0]
  by (simp add: exact_def sfits_def int_value_def)

text \<open>The hash of an int8 folds its halves so that an int4 hashes to the same value.\<close>

lemma int8_fold_int4: "int8_fold (scast (i :: int32)) = i"
proof (rule bit_word_eqI)
  fix k assume "k < LENGTH(32)"
  then show "bit (int8_fold (scast i)) k \<longleftrightarrow> bit i k"
    using bit_last_iff [of i] by (simp add: int8_fold_def Let_def bit_simps)
qed

definition hash_key :: "int_type \<Rightarrow> Datum \<Rightarrow> uint32" where
  "hash_key t d = (case t of I2 \<Rightarrow> scast (ucast d :: int16) | I4 \<Rightarrow> ucast d | I8 \<Rightarrow> int8_fold d)"

lemma hash_key_value:
  assumes "int_value t1 x = int_value t2 y"
  shows "hash_key t1 x = hash_key t2 y"
proof -
  have val: "hash_key t d = word_of_int (int_value t d)" if "sfits 32 (int_value t d)" for t d
  proof (cases t)
    case I8
    define i :: int32 where "i = word_of_int (sint d)"
    have "sint i = sint d"
      unfolding i_def using that I8 by (intro sint_word_of_int_sfits) (simp add: int_value_def)
    then have "d = scast i" by (metis signed_word_eqI sint_scast_32_64)
    then have "int8_fold d = i" using int8_fold_int4 by simp
    then show ?thesis using I8 by (simp add: hash_key_def int_value_def i_def)
  next
    case I2
    then show ?thesis by (simp only: hash_key_def int_value_def int_type.case scast_eq)
  next
    case I4
    then show ?thesis by (simp add: hash_key_def int_value_def)
  qed
  show ?thesis
  proof (cases "sfits 32 (int_value t1 x)")
    case True
    then show ?thesis using val [of t1 x] val [of t2 y] assms by simp
  next
    case False
    have "t = I8" if "\<not> sfits 32 (int_value t d)" for t d
      using that sfits_mono [OF sfits_16, of 32] by (cases t) (auto simp: int_value_def)
    then have "t1 = I8" "t2 = I8" using False assms by metis+
    moreover from this have "x = y" using assms by (simp add: int_value_def signed_word_eqI)
    ultimately show ?thesis by simp
  qed
qed

fun int_hash :: "pg_prims \<Rightarrow> int_type \<Rightarrow> Datum \<Rightarrow> uint32" where
  "int_hash E I2 d = jit_hashint2 E d"
| "int_hash E I4 d = jit_hashint4 E (DatumGetInt32 d)"
| "int_hash E I8 d = ucast (jit_hashint8 E d)"

fun int_hash_extended :: "pg_prims \<Rightarrow> int_type \<Rightarrow> Datum \<Rightarrow> int64 \<Rightarrow> int64" where
  "int_hash_extended E I2 d seed = jit_hashint2extended E d seed"
| "int_hash_extended E I4 d seed = jit_hashint4extended E d seed"
| "int_hash_extended E I8 d seed = jit_hashint8extended E d seed"

text \<open>
  C33 (equivalence): equal values of different integer types have equal hashes, with and
  without a seed, as the hash operator family of the integer types requires of joins
  across types.
\<close>

theorem int_hash_consistent:
  assumes "int_value t1 x = int_value t2 y"
  shows "int_hash E t1 x = int_hash E t2 y \<and> int_hash_extended E t1 x seed = int_hash_extended E t2 y seed"
proof -
  have "int_hash E t d = hash_bytes_uint32 E (hash_key t d)" for t d
    by (cases t) (simp_all add: hash_key_def jit_hashint2_def jit_hashint4_def jit_hashint8_def DatumGetInt32_def)
  moreover have "int_hash_extended E t d seed = hash_bytes_uint32_extended E (hash_key t d) seed" for t d
    by (cases t) (simp_all add: hash_key_def jit_hashint2extended_def jit_hashint4extended_def jit_hashint8extended_def)
  ultimately show ?thesis using hash_key_value [OF assms] by simp
qed

theorem int_hash_consistent_witness:
  "int_hash example_prims I2 65533 = int_hash example_prims I8 (- 3)
   \<and> int_hash_extended example_prims I2 65533 7 = int_hash_extended example_prims I8 (- 3) 7"
  by (rule int_hash_consistent) (simp add: int_value_def)

end
