(* ===== verification/HashProbe.thy ===== *)
theory HashProbe
  imports Prelude
begin

unbundle bit_operations_syntax

text \<open>
  Open addressing with linear probing, as the three hash tables of the sources do it: the
  table of direct functions (\<open>pg_jit_funcs.c\<close>), the int4 table and the text table of IN lists
  (\<open>pg_jitter_simd.c\<close>). The size is a power of two and the next slot is \<open>(h + 1) & mask\<close>.

  The C loops end at a free slot only; here they are given as much fuel as the table has
  slots, and \<open>None\<close> stands for having gone round. The locale states what the client of a
  table relies on: an entry that matches a key occupies its slot and has the key's hash.
\<close>

section \<open>The loops\<close>

fun free_slot :: "('s \<Rightarrow> bool) \<Rightarrow> 's list \<Rightarrow> nat \<Rightarrow> nat \<Rightarrow> nat \<Rightarrow> nat option" where
  "free_slot occ t msk 0 i = None"
| "free_slot occ t msk (Suc f) i =
     (if occ (t ! i) then free_slot occ t msk f ((i + 1) AND msk) else Some i)"

fun probe_slot :: "('s \<Rightarrow> bool) \<Rightarrow> ('s \<Rightarrow> bool) \<Rightarrow> 's list \<Rightarrow> nat \<Rightarrow> nat \<Rightarrow> nat \<Rightarrow> 's option option" where
  "probe_slot occ matches t msk 0 i = None"
| "probe_slot occ matches t msk (Suc f) i =
     (if \<not> occ (t ! i) then Some None
      else if matches (t ! i) then Some (Some (t ! i))
      else probe_slot occ matches t msk f ((i + 1) AND msk))"

definition insert_slot :: "('s \<Rightarrow> bool) \<Rightarrow> ('s \<Rightarrow> uint32) \<Rightarrow> nat \<Rightarrow> 's list \<Rightarrow> 's \<Rightarrow> 's list option" where
  "insert_slot occ hash msk t s =
     map_option (\<lambda>i. t[i := s]) (free_slot occ t msk (length t) (unat (hash s) AND msk))"

fun insert_slots :: "('s \<Rightarrow> bool) \<Rightarrow> ('s \<Rightarrow> uint32) \<Rightarrow> nat \<Rightarrow> 's list \<Rightarrow> 's list \<Rightarrow> 's list option" where
  "insert_slots occ hash msk t [] = Some t"
| "insert_slots occ hash msk t (s # ss) =
     (case insert_slot occ hash msk t s of
        None \<Rightarrow> None
      | Some t' \<Rightarrow> insert_slots occ hash msk t' ss)"

section \<open>Masks and cyclic positions\<close>

lemma and_mask_mod: "(i :: nat) AND (2 ^ b - 1) = i mod 2 ^ b"
  unfolding mask_eq_exp_minus_1 [symmetric] take_bit_eq_mask [symmetric] by (simp add: take_bit_eq_mod)

lemma cyclic_position:
  assumes "i < n" "j < (n :: nat)"
  obtains d where "d < n" "j = (i + d) mod n"
proof
  show "(n + j - i) mod n < n" using assms by simp
  have "(i + (n + j - i) mod n) mod n = (n + j) mod n"
    using assms by (simp add: mod_add_right_eq)
  then show "j = (i + (n + j - i) mod n) mod n" using assms by simp
qed

lemma cyclic_inj:
  assumes "(i + d) mod n = (i + e) mod n" "d < n" "e < (n :: nat)"
  shows "d = e"
proof -
  have "d mod n = e mod n" using assms(1) by (simp add: nat_mod_eq_iff)
  then show ?thesis using assms by simp
qed

section \<open>Tables\<close>

locale probing =
  fixes occ :: "'s \<Rightarrow> bool"
    and hash :: "'s \<Rightarrow> uint32"
    and khash :: "'k \<Rightarrow> uint32"
    and matches :: "'k \<Rightarrow> 's \<Rightarrow> bool"
  assumes matches_slot: "matches k s \<Longrightarrow> occ s \<and> hash s = khash k"
begin

lemma free_slot_run:
  assumes "\<And>i. i AND msk = i mod n" "i < n" "d < f"
    and "\<forall>e<d. occ (t ! ((i + e) mod n))" "\<not> occ (t ! ((i + d) mod n))"
  shows "free_slot occ t msk f i = Some ((i + d) mod n)"
  using assms(2-)
proof (induction f arbitrary: i d)
  case (Suc f)
  have shift: "((i + 1) mod n + e) mod n = (i + Suc e) mod n" for e
    by (simp add: mod_add_left_eq)
  show ?case
  proof (cases d)
    case (Suc d')
    have "occ (t ! i)" using Suc.prems Suc by force
    then show ?thesis
      using Suc.IH [of "(i + 1) mod n" d'] Suc.prems Suc assms(1) shift by (simp add: All_less_Suc2)
  qed (use Suc.prems in simp)
qed simp

lemma probe_slot_run:
  assumes "\<And>i. i AND msk = i mod n" "i < n" "d < f"
    and "\<forall>e<d. occ (t ! ((i + e) mod n)) \<and> \<not> m (t ! ((i + e) mod n))"
    and "\<not> occ (t ! ((i + d) mod n)) \<or> m (t ! ((i + d) mod n))"
  shows "probe_slot occ m t msk f i
    = Some (if occ (t ! ((i + d) mod n)) then Some (t ! ((i + d) mod n)) else None)"
  using assms(2-)
proof (induction f arbitrary: i d)
  case (Suc f)
  have shift: "((i + 1) mod n + e) mod n = (i + Suc e) mod n" for e
    by (simp add: mod_add_left_eq)
  show ?case
  proof (cases d)
    case (Suc d')
    have "occ (t ! i)" "\<not> m (t ! i)" using Suc.prems Suc by force+
    then show ?thesis
      using Suc.IH [of "(i + 1) mod n" d'] Suc.prems Suc assms(1) shift by (simp add: All_less_Suc2)
  qed (use Suc.prems in auto)
qed simp

text \<open>
  The invariant: an occupied slot is reached from its home over occupied slots; and what a
  probe finds: the first inserted entry that matches.
\<close>

definition home :: "nat \<Rightarrow> uint32 \<Rightarrow> nat" where "home n h = unat h mod n"

definition reach :: "'s list \<Rightarrow> nat \<Rightarrow> nat \<Rightarrow> bool" where
  "reach t i d \<longleftrightarrow> (\<forall>e<d. occ (t ! ((i + e) mod length t)))"

definition well_placed :: "'s list \<Rightarrow> bool" where
  "well_placed t \<longleftrightarrow>
     (\<forall>j<length t. occ (t ! j) \<longrightarrow>
        (\<exists>d<length t. j = (home (length t) (hash (t ! j)) + d) mod length t
           \<and> reach t (home (length t) (hash (t ! j))) d))"

definition finds :: "'s list \<Rightarrow> 'k \<Rightarrow> 's option \<Rightarrow> bool" where
  "finds t k r \<longleftrightarrow>
     (\<exists>d<length t. reach t (home (length t) (khash k)) d
        \<and> (\<forall>e<d. \<not> matches k (t ! ((home (length t) (khash k) + e) mod length t)))
        \<and> (let s = t ! ((home (length t) (khash k) + d) mod length t)
           in case r of None \<Rightarrow> \<not> occ s | Some s' \<Rightarrow> s = s' \<and> matches k s))"

definition num_occupied :: "'s list \<Rightarrow> nat" where
  "num_occupied t = card {j. j < length t \<and> occ (t ! j)}"

lemma finds_probe:
  assumes "\<And>i. i AND msk = i mod length t" "finds t k r"
  shows "probe_slot occ (matches k) t msk (length t) (unat (khash k) AND msk) = Some r"
proof -
  obtain d where d: "d < length t" "reach t (home (length t) (khash k)) d"
      "\<forall>e<d. \<not> matches k (t ! ((home (length t) (khash k) + e) mod length t))"
      "case r of None \<Rightarrow> \<not> occ (t ! ((home (length t) (khash k) + d) mod length t))
        | Some s' \<Rightarrow> t ! ((home (length t) (khash k) + d) mod length t) = s' \<and> matches k s'"
    using assms(2) by (auto simp: finds_def Let_def split: option.splits)
  have "home (length t) (khash k) < length t" using d(1) unfolding home_def by (intro mod_less_divisor) linarith
  then show ?thesis
    using probe_slot_run [OF assms(1), of "home (length t) (khash k)" d "length t" t "matches k"] d matches_slot [of k]
    by (cases r) (auto simp: assms(1) home_def reach_def)
qed

text \<open>As long as a slot is free, there is a first free one from every position.\<close>

lemma first_free:
  assumes "num_occupied t < length t" "i < length t"
  obtains d where "d < length t" "reach t i d" "\<not> occ (t ! ((i + d) mod length t))"
proof -
  have "\<exists>j<length t. \<not> occ (t ! j)"
  proof (rule ccontr)
    assume "\<not> ?thesis"
    then have "{j. j < length t \<and> occ (t ! j)} = {..<length t}" by auto
    with assms(1) show False by (simp add: num_occupied_def)
  qed
  then obtain j where j: "j < length t" "\<not> occ (t ! j)" by blast
  obtain d0 where d0: "d0 < length t" "j = (i + d0) mod length t"
    using cyclic_position [OF assms(2) j(1)] by blast
  define d where "d = (LEAST d. \<not> occ (t ! ((i + d) mod length t)))"
  have "\<not> occ (t ! ((i + d) mod length t))" "d \<le> d0"
    using LeastI [of "\<lambda>d. \<not> occ (t ! ((i + d) mod length t))" d0] Least_le [of _ d0] d0 j
    by (auto simp: d_def)
  moreover have "reach t i d"
    unfolding reach_def d_def using not_less_Least by blast
  ultimately show thesis using that [of d] d0 by simp
qed

text \<open>Inserting an entry keeps the invariant and extends what the table finds.\<close>

lemma finds_none_complete:
  assumes "well_placed t" "finds t k None" "j < length t" "matches k (t ! j)"
  shows False
proof -
  let ?n = "length t" let ?i = "home (length t) (khash k)"
  obtain d where d: "d < ?n" "reach t ?i d" "\<forall>e<d. \<not> matches k (t ! ((?i + e) mod ?n))" "\<not> occ (t ! ((?i + d) mod ?n))"
    using assms(2) by (auto simp: finds_def Let_def)
  obtain e where e: "e < ?n" "j = (?i + e) mod ?n" "reach t ?i e"
    using assms(1,3) matches_slot [OF assms(4)] unfolding well_placed_def by metis
  consider "e < d" | "e = d" | "d < e" by linarith
  then show False
    using d e assms(4) matches_slot [OF assms(4)] by cases (auto simp: reach_def)
qed

lemma reach_update:
  assumes "reach t i d" "q < length t" "occ s"
  shows "reach (t[q := s]) i d"
  using assms by (auto simp: reach_def nth_list_update)

lemma insert_slot_spec:
  assumes "\<And>i. i AND msk = i mod length t" "well_placed t" "num_occupied t < length t" "occ s"
  obtains t' where "insert_slot occ hash msk t s = Some t'" "length t' = length t" "well_placed t'"
    "num_occupied t' \<le> Suc (num_occupied t)"
    "\<And>k r. finds t k (Some r) \<Longrightarrow> finds t' k (Some r)"
    "\<And>k. finds t k None \<Longrightarrow> matches k s \<Longrightarrow> finds t' k (Some s)"
    "\<And>k. finds t k None \<Longrightarrow> \<not> matches k s \<Longrightarrow> num_occupied t' < length t \<Longrightarrow> finds t' k None"
proof -
  let ?n = "length t"
  define i where "i = home ?n (hash s)"
  have n: "0 < ?n" using assms(3) by linarith
  have i: "i < ?n" using n by (simp add: i_def home_def)
  obtain d where d: "d < ?n" "reach t i d" "\<not> occ (t ! ((i + d) mod ?n))"
    using first_free [OF assms(3) i] by blast
  define q where "q = (i + d) mod ?n"
  have q: "q < ?n" "\<not> occ (t ! q)" using n d(3) by (simp_all add: q_def)
  define t' where "t' = t[q := s]"
  have len: "length t' = ?n" by (simp add: t'_def)
  have ins: "insert_slot occ hash msk t s = Some t'"
    using free_slot_run [OF assms(1) i d(1) _ d(3)] d(2)
    by (simp add: insert_slot_def t'_def q_def assms(1) i_def home_def reach_def)
  have other: "t' ! j = t ! j" if "occ (t ! j)" for j
    using that q by (auto simp: t'_def nth_list_update)
  have wp: "well_placed t'"
    unfolding well_placed_def len
  proof (intro allI impI)
    fix j assume j: "j < ?n" "occ (t' ! j)"
    show "\<exists>d<?n. j = (home ?n (hash (t' ! j)) + d) mod ?n \<and> reach t' (home ?n (hash (t' ! j))) d"
    proof (cases "j = q")
      case True
      then show ?thesis
        using d q reach_update [OF d(2) q(1) assms(4)] by (auto simp: t'_def i_def q_def)
    next
      case False
      then have "t' ! j = t ! j" by (simp add: t'_def)
      then show ?thesis
        using assms(2) j reach_update [OF _ q(1) assms(4)] unfolding well_placed_def t'_def by metis
    qed
  qed
  have "{j. j < ?n \<and> occ (t' ! j)} \<subseteq> insert q {j. j < ?n \<and> occ (t ! j)}"
    by (auto simp: t'_def nth_list_update split: if_splits)
  then have "num_occupied t' \<le> card (insert q {j. j < ?n \<and> occ (t ! j)})"
    unfolding num_occupied_def len by (intro card_mono) auto
  also have "\<dots> \<le> Suc (num_occupied t)"
    by (simp add: num_occupied_def card_insert_if)
  finally have cnt: "num_occupied t' \<le> Suc (num_occupied t)" .
  have same: "finds t' k (Some r)" if "finds t k (Some r)" for k r
    using that other matches_slot [of k] reach_update [OF _ q(1) assms(4)]
    unfolding finds_def len Let_def option.case by (metis (no_types, lifting) reach_def t'_def)
  have new: "finds t' k (Some s)" if "finds t k None" "matches k s" for k
  proof -
    note k = that
    have hk: "home ?n (khash k) = i" using matches_slot [OF that(2)] by (simp add: i_def)
    then obtain e where e: "e < ?n" "reach t i e" "\<not> occ (t ! ((i + e) mod ?n))"
        "\<forall>e'<e. \<not> matches k (t ! ((i + e') mod ?n))"
      using k(1) unfolding finds_def Let_def option.case hk by blast
    have "e = d" using e d by (metis linorder_neqE_nat reach_def)
    moreover have "\<not> matches k (t' ! ((i + e') mod ?n))" if "e' < d" for e'
      using that e(4) d(2) other \<open>e = d\<close> by (auto simp: reach_def)
    moreover have "t' ! ((i + d) mod ?n) = s" using q(1) by (simp add: t'_def q_def)
    ultimately show ?thesis
      unfolding finds_def len hk Let_def option.case t'_def [symmetric]
      using k(2) d(1) reach_update [OF d(2) q(1) assms(4)] by (auto simp: t'_def)
  qed
  have none: "finds t' k None" if "finds t k None" "\<not> matches k s" "num_occupied t' < ?n" for k
  proof -
    note k = that
    have "home ?n (khash k) < length t'" using n by (simp add: home_def len)
    then obtain e where e: "e < ?n" "reach t' (home ?n (khash k)) e" "\<not> occ (t' ! ((home ?n (khash k) + e) mod ?n))"
      using first_free [of t' "home ?n (khash k)"] k(3) by (metis len)
    have "\<not> matches k (t' ! j)" if "j < ?n" for j
      using finds_none_complete [OF assms(2) k(1)] k(2) that
      by (cases "j = q") (auto simp: t'_def q)
    with e n show ?thesis unfolding finds_def len by (auto simp: Let_def)
  qed
  show thesis
    by (rule that [OF ins len wp cnt same new none])
qed

lemma insert_slots_spec:
  assumes "\<And>i. i AND msk = i mod length t" "well_placed t" "\<forall>k. finds t k (find (matches k) ss0)"
    and "num_occupied t + length ss < length t" "list_all occ ss"
  shows "\<exists>t'. insert_slots occ hash msk t ss = Some t' \<and> length t' = length t
    \<and> (\<forall>k. finds t' k (find (matches k) (ss0 @ ss)))"
  using assms
proof (induction ss arbitrary: t ss0)
  case (Cons s ss)
  have msk: "\<And>i. i AND msk = i mod length t" by (rule Cons.prems(1))
  have "num_occupied t < length t" "occ s" using Cons.prems by simp_all
  then obtain t' where t': "insert_slot occ hash msk t s = Some t'" "length t' = length t" "well_placed t'"
      "num_occupied t' \<le> Suc (num_occupied t)"
      "\<And>k r. finds t k (Some r) \<Longrightarrow> finds t' k (Some r)"
      "\<And>k. finds t k None \<Longrightarrow> matches k s \<Longrightarrow> finds t' k (Some s)"
      "\<And>k. finds t k None \<Longrightarrow> \<not> matches k s \<Longrightarrow> num_occupied t' < length t \<Longrightarrow> finds t' k None"
    using insert_slot_spec [OF msk Cons.prems(2)] by metis
  have found: "find (matches k) (ss0 @ [s]) = (case find (matches k) ss0 of None \<Rightarrow> if matches k s then Some s else None | Some r \<Rightarrow> Some r)" for k
    by (induction ss0) auto
  have "finds t' k (find (matches k) (ss0 @ [s]))" for k
  proof (cases "find (matches k) ss0")
    case None
    then have "finds t k None" using Cons.prems(3) by metis
    moreover have "num_occupied t' < length t" using Cons.prems(4) t'(4) by simp
    ultimately show ?thesis using t'(6,7) None by (simp only: found option.case split: if_split) blast
  next
    case (Some r)
    then have "finds t k (Some r)" using Cons.prems(3) by metis
    then show ?thesis using t'(5) Some by (simp only: found option.case)
  qed
  then have "\<exists>t''. insert_slots occ hash msk t' ss = Some t'' \<and> length t'' = length t'
      \<and> (\<forall>k. finds t'' k (find (matches k) ((ss0 @ [s]) @ ss)))"
    using Cons.prems t'(2,3,4) msk by (intro Cons.IH) auto
  then show ?case using t'(1,2) by auto
qed simp

text \<open>What a client gets from a table filled from scratch.\<close>

theorem filled_table_finds:
  assumes "\<not> occ e" "n = 2 ^ b" "list_all occ ss" "length ss < n"
  shows "\<exists>t. insert_slots occ hash (n - 1) (replicate n e) ss = Some t \<and> length t = n
    \<and> (\<forall>k. probe_slot occ (matches k) t (n - 1) n (unat (khash k) AND (n - 1)) = Some (find (matches k) ss))"
proof -
  have msk: "\<And>i. i AND (n - 1) = i mod n" using and_mask_mod assms(2) by simp
  have "0 < n" using assms(2) by simp
  have none: "{j. j < n \<and> occ (replicate n e ! j)} = {}" using assms(1) by auto
  have zero: "num_occupied (replicate n e) = 0"
    by (simp only: num_occupied_def length_replicate none card.empty)
  from \<open>0 < n\<close> have empty: "finds (replicate n e) k None" for k
    using assms(1) by (auto simp: finds_def reach_def home_def intro!: exI [of _ 0])
  have "\<exists>t. insert_slots occ hash (n - 1) (replicate n e) ss = Some t \<and> length t = length (replicate n e)
      \<and> (\<forall>k. finds t k (find (matches k) ([] @ ss)))"
    by (rule insert_slots_spec) (use assms(1,3,4) msk empty zero in \<open>simp_all add: well_placed_def\<close>)
  then obtain t where "insert_slots occ hash (n - 1) (replicate n e) ss = Some t" "length t = n"
      "\<forall>k. finds t k (find (matches k) ss)" by auto
  then show ?thesis using finds_probe [of "n - 1" t] msk by auto
qed

end

end
