(* ===== verification/InList.thy ===== *)
theory InList
  imports HashProbe DirectTable
begin

unbundle bit_operations_syntax

text \<open>
  The three open-addressing tables: the CRC32C hash table of int4 IN lists and the text
  table of \<open>pg_jitter_simd.c\<close>, and the lookup of direct functions in \<open>pg_jit_funcs.c\<close>.
  Each is the generic loops of \<open>HashProbe\<close> on its own slots, with an interpretation of the
  locale that gives what a probe of a filled table returns. Words are stored little-endian.
\<close>

section \<open>CRC32C\<close>

definition crc_bit :: "uint32 \<Rightarrow> uint32" where
  "crc_bit crc = drop_bit 1 crc XOR (0x82F63B78 AND (0 - (crc AND 1)))"

definition crc_byte :: "uint32 \<Rightarrow> uint8 \<Rightarrow> uint32" where
  "crc_byte crc b = (crc_bit ^^ 8) (crc XOR ucast b)"

definition pg_jitter_crc32c_sw_raw :: "uint32 \<Rightarrow> uint8 list \<Rightarrow> uint32" where
  "pg_jitter_crc32c_sw_raw crc data = foldl crc_byte crc data"

text \<open>
  The processor: the build options that compile the SSE4.2 code, the test at run time and
  the three CRC32 instructions.
\<close>

record cpu =
  built_sse42 :: bool
  built_m_x64 :: bool
  pg_jitter_cpu_has_sse42 :: bool
  mm_crc32_u8 :: "uint32 \<Rightarrow> uint8 \<Rightarrow> uint32"
  mm_crc32_u32 :: "uint32 \<Rightarrow> uint32 \<Rightarrow> uint32"
  mm_crc32_u64 :: "uint64 \<Rightarrow> uint64 \<Rightarrow> uint64"

fun le_word :: "uint8 list \<Rightarrow> 'a::len word" where
  "le_word [] = 0"
| "le_word (b # bs) = ucast b OR push_bit 8 (le_word bs)"

function crc_u64_loop :: "cpu \<Rightarrow> uint32 \<Rightarrow> uint8 list \<Rightarrow> uint32 \<times> uint8 list" where
  "crc_u64_loop c crc p =
     (if length p \<ge> 8
      then crc_u64_loop c (ucast (mm_crc32_u64 c (ucast crc) (le_word (take 8 p)))) (drop 8 p)
      else (crc, p))"
  by pat_completeness auto
termination by (relation "measure (\<lambda>(c, crc, p). length p)") auto

function crc_u32_loop :: "cpu \<Rightarrow> uint32 \<Rightarrow> uint8 list \<Rightarrow> uint32 \<times> uint8 list" where
  "crc_u32_loop c crc p =
     (if length p \<ge> 4
      then crc_u32_loop c (mm_crc32_u32 c crc (le_word (take 4 p))) (drop 4 p)
      else (crc, p))"
  by pat_completeness auto
termination by (relation "measure (\<lambda>(c, crc, p). length p)") auto

declare crc_u64_loop.simps [simp del] crc_u32_loop.simps [simp del]

definition pg_jitter_crc32c_raw :: "cpu \<Rightarrow> uint32 \<Rightarrow> uint8 list \<Rightarrow> uint32" where
  "pg_jitter_crc32c_raw c crc data =
     (if built_sse42 c \<and> pg_jitter_cpu_has_sse42 c
      then (let (crc, p) = (if built_m_x64 c then crc_u64_loop c crc data else (crc, data));
                (crc, p) = crc_u32_loop c crc p
            in foldl (mm_crc32_u8 c) crc p)
      else pg_jitter_crc32c_sw_raw crc data)"

text \<open>The instruction set manual: each instruction accumulates its bytes, the lowest first.\<close>

definition documented_cpu :: "cpu \<Rightarrow> bool" where
  "documented_cpu c \<longleftrightarrow>
     (\<forall>crc b. mm_crc32_u8 c crc b = crc_byte crc b)
     \<and> (\<forall>crc bs. length bs = 4 \<longrightarrow> mm_crc32_u32 c crc (le_word bs) = foldl crc_byte crc bs)
     \<and> (\<forall>crc bs. length bs = 8 \<longrightarrow> ucast (mm_crc32_u64 c (ucast crc) (le_word bs)) = foldl crc_byte crc bs)"

lemma crc_loops_documented:
  assumes "documented_cpu c"
  shows "(case crc_u64_loop c crc p of (crc', p') \<Rightarrow> foldl crc_byte crc' p') = foldl crc_byte crc p"
    and "(case crc_u32_loop c crc p of (crc', p') \<Rightarrow> foldl crc_byte crc' p') = foldl crc_byte crc p"
proof -
  have join: "foldl crc_byte (foldl crc_byte crc (take n p)) (drop n p) = foldl crc_byte crc p" for crc n p
    by (metis append_take_drop_id foldl_append)
  show "(case crc_u64_loop c crc p of (crc', p') \<Rightarrow> foldl crc_byte crc' p') = foldl crc_byte crc p"
  proof (induction p arbitrary: crc rule: length_induct)
    case (1 p)
    show ?case
    proof (cases "length p \<ge> 8")
      case True
      then have "ucast (mm_crc32_u64 c (ucast crc) (le_word (take 8 p))) = foldl crc_byte crc (take 8 p)"
        using assms by (simp add: documented_cpu_def)
      then show ?thesis
        using 1 [rule_format, of "drop 8 p" "foldl crc_byte crc (take 8 p)"] True join
        by (subst crc_u64_loop.simps) simp
    qed (simp add: crc_u64_loop.simps)
  qed
  show "(case crc_u32_loop c crc p of (crc', p') \<Rightarrow> foldl crc_byte crc' p') = foldl crc_byte crc p"
  proof (induction p arbitrary: crc rule: length_induct)
    case (1 p)
    show ?case
    proof (cases "length p \<ge> 4")
      case True
      then have "mm_crc32_u32 c crc (le_word (take 4 p)) = foldl crc_byte crc (take 4 p)"
        using assms by (simp add: documented_cpu_def)
      then show ?thesis
        using 1 [rule_format, of "drop 4 p" "foldl crc_byte crc (take 4 p)"] True join
        by (subst crc_u32_loop.simps) simp
    qed (simp add: crc_u32_loop.simps)
  qed
qed

text \<open>
  The CRC32C with the SSE4.2 instructions, in steps of eight, four and
  one byte, is the software CRC32C on every input, so a table that was built on one code
  path is read correctly on the other.
\<close>

lemma crc32c_paths_agree:
  assumes "documented_cpu c"
  shows "pg_jitter_crc32c_raw c crc data = pg_jitter_crc32c_sw_raw crc data"
proof -
  have u8: "foldl (mm_crc32_u8 c) x p = foldl crc_byte x p" for x p
    using assms by (intro foldl_cong) (simp_all add: documented_cpu_def)
  show ?thesis
    using crc_loops_documented [OF assms]
    by (auto simp: pg_jitter_crc32c_raw_def pg_jitter_crc32c_sw_raw_def u8 split: prod.splits)
qed

text \<open>A processor with the instructions, as the manual describes them.\<close>

definition bytes_of :: "nat \<Rightarrow> 'a::len word \<Rightarrow> uint8 list" where
  "bytes_of n w = map (\<lambda>k. ucast (drop_bit (8 * k) w)) [0..<n]"

definition example_cpu :: cpu where
  "example_cpu =
     \<lparr>built_sse42 = True, built_m_x64 = True, pg_jitter_cpu_has_sse42 = True,
      mm_crc32_u8 = crc_byte,
      mm_crc32_u32 = (\<lambda>crc w. foldl crc_byte crc (bytes_of 4 w)),
      mm_crc32_u64 = (\<lambda>crc w. ucast (foldl crc_byte (ucast crc) (bytes_of 8 w)))\<rparr>"

lemma bit_le_word:
  "bit (le_word bs :: 'a::len word) m \<longleftrightarrow> m < LENGTH('a) \<and> m div 8 < length bs \<and> bit (bs ! (m div 8)) (m mod 8)"
proof (induction bs arbitrary: m)
  case (Cons b bs)
  show ?case
  proof (cases "m < 8")
    case False
    then have "m div 8 = Suc ((m - 8) div 8)" "m mod 8 = (m - 8) mod 8"
      by (simp_all add: le_div_geq le_mod_geq)
    moreover have "\<not> bit b m" using False bit_imp_le_length [of b m] by auto
    ultimately show ?thesis using False Cons.IH [of "m - 8"] by (auto simp: bit_simps)
  qed (auto simp: bit_simps)
qed simp

lemma bytes_of_le_word:
  assumes "length bs = n" "8 * n = LENGTH('a::len)"
  shows "bytes_of n (le_word bs :: 'a word) = bs"
proof (rule nth_equalityI)
  fix k assume "k < length (bytes_of n (le_word bs :: 'a word))"
  then have k: "k < n" by (simp add: bytes_of_def)
  show "bytes_of n (le_word bs :: 'a word) ! k = bs ! k"
  proof (rule bit_word_eqI)
    fix j assume "j < LENGTH(8)"
    then have "j < 8" by simp
    with k assms show "bit (bytes_of n (le_word bs :: 'a word) ! k) j \<longleftrightarrow> bit (bs ! k) j"
      by (simp add: bytes_of_def bit_simps bit_le_word)
  qed
qed (simp add: bytes_of_def assms)

lemma documented_example_cpu: "documented_cpu example_cpu"
  by (simp add: documented_cpu_def example_cpu_def bytes_of_le_word)

lemma crc32c_paths_agree_witness:
  "pg_jitter_crc32c_raw example_cpu 0xFFFFFFFF [49, 50, 51, 52, 53] = 3878608074"
proof -
  have step: "(crc_bit ^^ 8) x = crc_bit (crc_bit (crc_bit (crc_bit (crc_bit (crc_bit (crc_bit (crc_bit x)))))))" for x
    by (simp add: eval_nat_numeral)
  show ?thesis
    unfolding crc32c_paths_agree [OF documented_example_cpu]
    by (simp add: pg_jitter_crc32c_sw_raw_def crc_byte_def step crc_bit_def)
qed

section \<open>The int4 table\<close>

definition INT_MAX :: nat where "INT_MAX = 2 ^ 31 - 1"
definition MaxAllocSize :: nat where "MaxAllocSize = 0x3fffffff"

text \<open>Doubling from 16 slots to at least \<open>min_slots\<close>; \<open>None\<close> is the overflow error.\<close>

function table_exponent :: "nat \<Rightarrow> nat \<Rightarrow> nat option" where
  "table_exponent min_slots b =
     (if (2 :: nat) ^ b < min_slots
      then (if 2 ^ b > INT_MAX div 2 then None else table_exponent min_slots (b + 1))
      else Some b)"
  by pat_completeness auto
termination
proof (relation "measure (\<lambda>(m, b). 31 - b)")
  fix min_slots b assume "\<not> INT_MAX div 2 < 2 ^ b"
  then have "b < 31"
    using power_increasing [of 31 b "2 :: nat"] by (cases "31 \<le> b") (auto simp: INT_MAX_def)
  then show "((min_slots, b + 1), min_slots, b) \<in> measure (\<lambda>(m, b). 31 - b)" by simp
qed simp

declare table_exponent.simps [simp del]

record Crc32HashSlot =
  slot_value :: int32
  occupied :: bool

record Crc32HashTable =
  ht_mask :: nat
  ht_nitems :: nat
  ht_has_nulls :: bool
  ht_table :: "Crc32HashSlot list"

definition crc32_hash_int4 :: "cpu \<Rightarrow> int32 \<Rightarrow> uint32" where
  "crc32_hash_int4 c val = pg_jitter_crc32c_raw c 0xFFFFFFFF (bytes_of 4 val)"

abbreviation free_int4 :: Crc32HashSlot where
  "free_int4 \<equiv> \<lparr>slot_value = 0, occupied = False\<rparr>"

text \<open>
  \<open>None\<close> is an insertion that never ends; an \<open>elog(ERROR)\<close> is the left case. The header of the
  table has 12 bytes, a slot 8.
\<close>

definition crc32_hash_build_int4 :: "cpu \<Rightarrow> int32 list \<Rightarrow> bool \<Rightarrow> (pg_error + Crc32HashTable) option" where
  "crc32_hash_build_int4 c vals has_nulls =
     (let nvals = length vals
      in if nvals = 0 \<or> nvals > INT_MAX div 2 then Some (Inl (Elog_error ''invalid int4 hash table size''))
         else (case table_exponent (nvals * 2) 4 of
                 None \<Rightarrow> Some (Inl (Elog_error ''int4 hash table size overflow''))
               | Some b \<Rightarrow>
                   if 2 ^ b > (MaxAllocSize - 12) div 8
                   then Some (Inl (Elog_error ''int4 hash table allocation too large''))
                   else map_option
                          (\<lambda>t. Inr \<lparr>ht_mask = 2 ^ b - 1, ht_nitems = nvals, ht_has_nulls = has_nulls, ht_table = t\<rparr>)
                          (insert_slots occupied (\<lambda>s. crc32_hash_int4 c (slot_value s)) (2 ^ b - 1)
                             (replicate (2 ^ b) free_int4)
                             (map (\<lambda>v. \<lparr>slot_value = v, occupied = True\<rparr>) vals))))"

definition crc32_hash_probe_int4 :: "cpu \<Rightarrow> int32 \<Rightarrow> Crc32HashTable \<Rightarrow> int32 option" where
  "crc32_hash_probe_int4 c val ht =
     map_option (\<lambda>r. c_bool (r \<noteq> None))
       (probe_slot occupied (\<lambda>s. slot_value s = val) (ht_table ht) (ht_mask ht) (length (ht_table ht))
          (unat (crc32_hash_int4 c val) AND ht_mask ht))"

interpretation int4_table: probing occupied "\<lambda>s. crc32_hash_int4 c (slot_value s)" "crc32_hash_int4 c"
    "\<lambda>v s. occupied s \<and> slot_value s = v"
  by unfold_locales auto

lemma probe_slot_cong:
  "probe_slot occ (\<lambda>s. occ s \<and> m s) t msk f i = probe_slot occ m t msk f i"
  by (induction f arbitrary: i) auto

lemma table_exponent_spec:
  assumes "table_exponent m b = Some b'"
  shows "m \<le> 2 ^ b' \<and> b \<le> b'"
  using assms by (induction m b rule: table_exponent.induct) (subst (asm) table_exponent.simps, fastforce split: if_splits)

lemma table_exponent_small:
  assumes "m \<le> 2 ^ k" "b \<le> k" "k \<le> 30"
  shows "\<exists>b'. table_exponent m b = Some b' \<and> b' \<le> k"
  using assms
proof (induction m b rule: table_exponent.induct)
  case (1 m b)
  show ?case
  proof (cases "(2 :: nat) ^ b < m")
    case True
    have "(2 :: nat) ^ b < 2 ^ k" using True 1(2) by (rule less_le_trans)
    then have bk: "b < k" by simp
    then have "(2 :: nat) ^ b \<le> 2 ^ 29" using 1(4) by (intro power_increasing) auto
    then have small: "\<not> 2 ^ b > INT_MAX div 2" by (simp add: INT_MAX_def)
    have "\<exists>b'. table_exponent m (b + 1) = Some b' \<and> b' \<le> k"
      by (rule 1(1)) (use True small bk 1 in auto)
    then show ?thesis using True small by (subst table_exponent.simps) simp
  qed (use 1 in \<open>simp add: table_exponent.simps\<close>)
qed

lemma find_mapped_value:
  "(find (\<lambda>s. occupied s \<and> slot_value s = v) (map (\<lambda>v. \<lparr>slot_value = v, occupied = True\<rparr>) vals) \<noteq> None)
   \<longleftrightarrow> v \<in> set vals"
  by (auto simp: find_None_iff)

text \<open>
  C23 (functional): for one to 2^25 values the int4 table is built without an error, every
  probe of it ends, and it answers 1 exactly for the values of the list, whatever the hash
  function gives.
\<close>

theorem int4_hash_in_list:
  assumes "vals \<noteq> []" "length vals \<le> 2 ^ 25"
  shows "\<exists>ht. crc32_hash_build_int4 c vals has_nulls = Some (Inr ht)
    \<and> (\<forall>v. crc32_hash_probe_int4 c v ht = Some (c_bool (v \<in> set vals)))"
proof -
  let ?slots = "map (\<lambda>v. \<lparr>slot_value = v, occupied = True\<rparr>) vals"
  obtain b where b: "table_exponent (length vals * 2) 4 = Some b" "b \<le> 26"
    using table_exponent_small [of "length vals * 2" 26 4] assms(2) by auto
  have "2 ^ b \<le> (2 :: nat) ^ 26" using b(2) by (intro power_increasing) auto
  then have alloc: "\<not> 2 ^ b > (MaxAllocSize - 12) div 8" by (simp add: MaxAllocSize_def)
  have room: "length vals < 2 ^ b"
    using table_exponent_spec [OF b(1)] assms(1) by (cases vals) auto
  have occ: "list_all occupied ?slots" by (simp add: list_all_iff)
  obtain t where t: "insert_slots occupied (\<lambda>s. crc32_hash_int4 c (slot_value s)) (2 ^ b - 1)
        (replicate (2 ^ b) free_int4) ?slots = Some t" "length t = 2 ^ b"
      "\<And>v. probe_slot occupied (\<lambda>s. occupied s \<and> slot_value s = v) t (2 ^ b - 1) (2 ^ b)
          (unat (crc32_hash_int4 c v) AND (2 ^ b - 1)) = Some (find (\<lambda>s. occupied s \<and> slot_value s = v) ?slots)"
    using int4_table.filled_table_finds [where c = c, OF _ refl occ, of free_int4 b] room by auto
  define ht where "ht = \<lparr>ht_mask = 2 ^ b - 1, ht_nitems = length vals, ht_has_nulls = has_nulls, ht_table = t\<rparr>"
  have "crc32_hash_build_int4 c vals has_nulls = Some (Inr ht)"
    using b(1) alloc assms t(1) by (simp add: crc32_hash_build_int4_def Let_def INT_MAX_def ht_def)
  moreover have "crc32_hash_probe_int4 c v ht = Some (c_bool (v \<in> set vals))" for v
    using t(2) t(3) [of v, unfolded probe_slot_cong] find_mapped_value [of v vals]
    by (simp add: crc32_hash_probe_int4_def ht_def)
  ultimately show ?thesis by blast
qed

theorem int4_hash_in_list_witness:
  "\<exists>ht. crc32_hash_build_int4 example_cpu [3, 19, -5] False = Some (Inr ht)
    \<and> crc32_hash_probe_int4 example_cpu 19 ht = Some 1 \<and> crc32_hash_probe_int4 example_cpu 4 ht = Some 0"
  using int4_hash_in_list [of "[3, 19, -5]" example_cpu False] by auto

section \<open>The text table\<close>

text \<open>
  A slot with hash 0 is free, so the hash has its lowest bit set. \<open>sz_hash\<close> is the hash of the
  StringZilla library, \<open>sz_equal\<close> its comparison of \<open>len\<close> bytes. The header has 16 bytes, an
  entry 16.
\<close>

record TextHashEntry =
  te_hash :: uint32
  te_len :: nat
  te_data :: "uint8 list"

record TextHashTable =
  tt_mask :: nat
  tt_nitems :: nat
  tt_has_nulls :: bool
  tt_entries :: "TextHashEntry list"

definition text_hybrid_hash :: "cpu \<Rightarrow> (uint8 list \<Rightarrow> uint64) \<Rightarrow> uint8 list \<Rightarrow> uint32" where
  "text_hybrid_hash c sz_hash data =
     (if length data \<le> 16 then pg_jitter_crc32c_raw c 0xFFFFFFFF data else ucast (sz_hash data)) OR 1"

abbreviation free_text :: TextHashEntry where
  "free_text \<equiv> \<lparr>te_hash = 0, te_len = 0, te_data = []\<rparr>"

definition text_entry :: "cpu \<Rightarrow> (uint8 list \<Rightarrow> uint64) \<Rightarrow> uint8 list \<Rightarrow> TextHashEntry" where
  "text_entry c sz_hash src =
     \<lparr>te_hash = text_hybrid_hash c sz_hash src, te_len = length src, te_data = src\<rparr>"

definition text_hash_build ::
  "cpu \<Rightarrow> (uint8 list \<Rightarrow> uint64) \<Rightarrow> uint8 list list \<Rightarrow> bool \<Rightarrow> (pg_error + TextHashTable) option" where
  "text_hash_build c sz_hash texts has_nulls =
     (let nvals = length texts
      in if nvals = 0 \<or> nvals > INT_MAX div 2 then Some (Inl (Elog_error ''invalid text hash table size''))
         else (case table_exponent (nvals * 2) 4 of
                 None \<Rightarrow> Some (Inl (Elog_error ''text hash table size overflow''))
               | Some b \<Rightarrow>
                   if 2 ^ b > (MaxAllocSize - 16) div 16
                   then Some (Inl (Elog_error ''text hash table allocation too large''))
                   else map_option
                          (\<lambda>t. Inr \<lparr>tt_mask = 2 ^ b - 1, tt_nitems = nvals, tt_has_nulls = has_nulls, tt_entries = t\<rparr>)
                          (insert_slots (\<lambda>e. te_hash e \<noteq> 0) te_hash (2 ^ b - 1) (replicate (2 ^ b) free_text)
                             (map (text_entry c sz_hash) texts))))"

definition text_entry_is :: "cpu \<Rightarrow> (uint8 list \<Rightarrow> uint64) \<Rightarrow> uint8 list \<Rightarrow> TextHashEntry \<Rightarrow> bool" where
  "text_entry_is c sz_hash data e \<longleftrightarrow>
     te_hash e = text_hybrid_hash c sz_hash data \<and> te_len e = length data \<and> take (length data) (te_data e) = data"

definition text_hash_probe :: "cpu \<Rightarrow> (uint8 list \<Rightarrow> uint64) \<Rightarrow> uint8 list \<Rightarrow> TextHashTable \<Rightarrow> int32 option" where
  "text_hash_probe c sz_hash data ht =
     map_option (\<lambda>r. c_bool (r \<noteq> None))
       (probe_slot (\<lambda>e. te_hash e \<noteq> 0) (text_entry_is c sz_hash data) (tt_entries ht) (tt_mask ht)
          (length (tt_entries ht)) (unat (text_hybrid_hash c sz_hash data) AND tt_mask ht))"

lemma text_hybrid_hash_nonzero: "text_hybrid_hash c sz_hash data \<noteq> 0"
proof
  assume "text_hybrid_hash c sz_hash data = 0"
  then have "\<not> bit (text_hybrid_hash c sz_hash data) 0" by simp
  then show False by (simp add: text_hybrid_hash_def bit_or_iff)
qed

interpretation text_table: probing "\<lambda>e. te_hash e \<noteq> 0" te_hash "text_hybrid_hash c sz_hash"
    "\<lambda>data e. text_entry_is c sz_hash data e"
  by unfold_locales (simp add: text_entry_is_def text_hybrid_hash_nonzero)

lemma find_text_entry:
  "find (text_entry_is c sz_hash data) (map (text_entry c sz_hash) texts) \<noteq> None \<longleftrightarrow> data \<in> set texts"
  by (auto simp: find_None_iff text_entry_is_def text_entry_def)

text \<open>
  C34 (functional): for one to 2^24 texts the table is built without an error, every probe
  ends and answers 1 exactly for the texts of the list, byte for byte, whatever \<open>sz_hash\<close> is.
\<close>

theorem text_hash_in_list:
  assumes "texts \<noteq> []" "length texts \<le> 2 ^ 24"
  shows "\<exists>ht. text_hash_build c sz_hash texts has_nulls = Some (Inr ht)
    \<and> (\<forall>data. text_hash_probe c sz_hash data ht = Some (c_bool (data \<in> set texts)))"
proof -
  let ?es = "map (text_entry c sz_hash) texts"
  obtain b where b: "table_exponent (length texts * 2) 4 = Some b" "b \<le> 25"
    using table_exponent_small [of "length texts * 2" 25 4] assms(2) by auto
  have "2 ^ b \<le> (2 :: nat) ^ 25" using b(2) by (intro power_increasing) auto
  then have alloc: "\<not> 2 ^ b > (MaxAllocSize - 16) div 16" by (simp add: MaxAllocSize_def)
  have room: "length texts < 2 ^ b"
    using table_exponent_spec [OF b(1)] assms(1) by (cases texts) auto
  have occ: "list_all (\<lambda>e. te_hash e \<noteq> 0) ?es"
    by (simp add: list_all_iff text_entry_def text_hybrid_hash_nonzero)
  obtain t where t: "insert_slots (\<lambda>e. te_hash e \<noteq> 0) te_hash (2 ^ b - 1) (replicate (2 ^ b) free_text) ?es = Some t"
      "length t = 2 ^ b"
      "\<And>data. probe_slot (\<lambda>e. te_hash e \<noteq> 0) (text_entry_is c sz_hash data) t (2 ^ b - 1) (2 ^ b)
          (unat (text_hybrid_hash c sz_hash data) AND (2 ^ b - 1)) = Some (find (text_entry_is c sz_hash data) ?es)"
    using text_table.filled_table_finds [where c = c and sz_hash = sz_hash, OF _ refl occ, of free_text b] room by auto
  define ht where "ht = \<lparr>tt_mask = 2 ^ b - 1, tt_nitems = length texts, tt_has_nulls = has_nulls, tt_entries = t\<rparr>"
  have "text_hash_build c sz_hash texts has_nulls = Some (Inr ht)"
    using b(1) alloc assms t(1) by (simp add: text_hash_build_def Let_def INT_MAX_def ht_def)
  moreover have "text_hash_probe c sz_hash data ht = Some (c_bool (data \<in> set texts))" for data
    using t(2) t(3) [of data] find_text_entry [of c sz_hash data texts]
    by (simp add: text_hash_probe_def ht_def)
  ultimately show ?thesis by blast
qed

theorem text_hash_in_list_witness:
  "\<exists>ht. text_hash_build example_cpu (\<lambda>_. 0) [[97], [], [98, 99]] True = Some (Inr ht)
    \<and> text_hash_probe example_cpu (\<lambda>_. 0) [98, 99] ht = Some 1
    \<and> text_hash_probe example_cpu (\<lambda>_. 0) [99] ht = Some 0"
  using text_hash_in_list [of "[[97], [], [98, 99]]" example_cpu "\<lambda>_. 0" True] by auto

section \<open>The lookup of direct functions\<close>

text \<open>
  \<open>addr\<close> is the address of a PostgreSQL function. The table has at least 1024 slots and three
  for each row.
\<close>

definition jit_fn_hash :: "(PGFunction \<Rightarrow> uint64) \<Rightarrow> PGFunction \<Rightarrow> uint32" where
  "jit_fn_hash addr fn = ucast (drop_bit 32 (drop_bit 4 (addr fn) * 11400714819323198485))"

function fn_table_exponent :: "nat \<Rightarrow> nat \<Rightarrow> nat" where
  "fn_table_exponent count b = (if 2 ^ b < count * 3 then fn_table_exponent count (b + 1) else b)"
  by pat_completeness auto
termination
proof (relation "measure (\<lambda>(count, b). count * 3 - 2 ^ b)")
  fix count b :: nat assume "2 ^ b < count * 3"
  then have "count * 3 - 2 ^ (b + 1) < count * 3 - 2 ^ b" by (intro diff_less_mono2) simp_all
  then show "((count, b + 1), count, b) \<in> measure (\<lambda>(count, b). count * 3 - 2 ^ b)" by simp
qed simp

declare fn_table_exponent.simps [simp del]

lemma fn_table_exponent_spec: "count * 3 \<le> 2 ^ fn_table_exponent count b \<and> b \<le> fn_table_exponent count b"
  by (induction count b rule: fn_table_exponent.induct) (subst (1 2) fn_table_exponent.simps, auto)

definition jit_fn_ht_init :: "(PGFunction \<Rightarrow> uint64) \<Rightarrow> JitDirectFn list \<Rightarrow> JitDirectFn option list option" where
  "jit_fn_ht_init addr fns =
     (let sz = 2 ^ fn_table_exponent (length fns) 10
      in insert_slots (\<lambda>s. s \<noteq> None) (\<lambda>s. jit_fn_hash addr (pg_fn (the s))) (sz - 1) (replicate sz None) (map Some fns))"

text \<open>The result is \<open>None\<close> when a loop does not end, \<open>Some None\<close> for a NULL pointer.\<close>

definition jit_find_direct_fn :: "(PGFunction \<Rightarrow> uint64) \<Rightarrow> build_config \<Rightarrow> PGFunction \<Rightarrow> JitDirectFn option option" where
  "jit_find_direct_fn addr cfg f =
     (case jit_fn_ht_init addr (jit_direct_fns cfg) of
        None \<Rightarrow> None
      | Some t \<Rightarrow>
          map_option (\<lambda>r. case r of None \<Rightarrow> None | Some s \<Rightarrow> s)
            (probe_slot (\<lambda>s. s \<noteq> None) (\<lambda>s. addr (pg_fn (the s)) = addr f) t (length t - 1) (length t)
               (unat (jit_fn_hash addr f) AND (length t - 1))))"

interpretation fn_table: probing "\<lambda>s. s \<noteq> None" "\<lambda>s. jit_fn_hash addr (pg_fn (the s))" "jit_fn_hash addr"
    "\<lambda>f s. s \<noteq> None \<and> addr (pg_fn (the s)) = addr f"
  by unfold_locales (simp add: jit_fn_hash_def)

lemma find_Some_map:
  "find (\<lambda>s. s \<noteq> None \<and> P (the s)) (map Some xs) = map_option Some (find P xs)"
  by (induction xs) auto

text \<open>
  The hash lookup ends and returns the first row of the table for the
  function, or NULL when it has none, for every layout in memory in which the function and
  the functions of the table have different addresses.
\<close>

lemma direct_fn_lookup:
  assumes "inj_on addr (insert f (pg_fn ` set (jit_direct_fns cfg)))"
  shows "jit_find_direct_fn addr cfg f = Some (find_direct cfg f)"
proof -
  let ?fns = "jit_direct_fns cfg"
  define n where "n = (2 :: nat) ^ fn_table_exponent (length ?fns) 10"
  have "2 ^ 10 \<le> n"
    unfolding n_def using fn_table_exponent_spec by (intro power_increasing) auto
  then have room: "length ?fns < n"
    using fn_table_exponent_spec [of "length ?fns" 10] by (simp add: n_def)
  have occ: "list_all (\<lambda>s. s \<noteq> None) (map Some ?fns)" by (simp add: list_all_iff)
  obtain t where t: "jit_fn_ht_init addr ?fns = Some t" "length t = n"
      "\<And>k. probe_slot (\<lambda>s. s \<noteq> None) (\<lambda>s. s \<noteq> None \<and> addr (pg_fn (the s)) = addr k) t (n - 1) n
          (unat (jit_fn_hash addr k) AND (n - 1))
        = Some (find (\<lambda>s. s \<noteq> None \<and> addr (pg_fn (the s)) = addr k) (map Some ?fns))"
    using fn_table.filled_table_finds [where addr = addr, OF _ n_def occ, of None] room
    by (auto simp: jit_fn_ht_init_def n_def Let_def)
  have "find (\<lambda>e. addr (pg_fn e) = addr f) ?fns = find_direct cfg f"
    unfolding find_direct_def
    by (rule find_cong) (use assms in \<open>auto simp: inj_on_def\<close>)
  then have "find (\<lambda>s. s \<noteq> None \<and> addr (pg_fn (the s)) = addr f) (map Some ?fns) = map_option Some (find_direct cfg f)"
    using find_Some_map [of "\<lambda>e. addr (pg_fn e) = addr f" ?fns] by metis
  then show ?thesis
    using t(1,2) t(3) [of f, unfolded probe_slot_cong [of "\<lambda>s. s \<noteq> None"]]
    by (simp add: jit_find_direct_fn_def split: option.splits)
qed

text \<open>Addresses that differ: the position of a name among the names, a multiple of 16.\<close>

definition name_index :: "'a list \<Rightarrow> 'a \<Rightarrow> nat" where
  "name_index names f = length (takeWhile (\<lambda>g. g \<noteq> f) names)"

definition example_addr :: "build_config \<Rightarrow> PGFunction \<Rightarrow> uint64" where
  "example_addr cfg f = word_of_nat (16 * name_index (map pg_fn (jit_direct_fns cfg)) f)"

lemma name_index_nth: "f \<in> set names \<Longrightarrow> names ! name_index names f = f \<and> name_index names f < length names"
  by (induction names) (auto simp: name_index_def)

lemma name_index_le: "name_index names f \<le> length names"
  by (simp add: name_index_def length_takeWhile_le)

lemma name_index_none: "f \<notin> set names \<Longrightarrow> name_index names f = length names"
  by (induction names) (auto simp: name_index_def)

lemma length_direct_fns: "length (jit_direct_fns cfg) < 1000"
  by (simp add: table_defs)

lemma unat_word_of_nat: "k < 2 ^ 64 \<Longrightarrow> unat (word_of_nat k :: uint64) = k"
  by (simp add: unsigned_of_nat take_bit_nat_eq_self_iff)

lemma example_addr_inj: "inj_on (example_addr cfg) (insert f (pg_fn ` set (jit_direct_fns cfg)))"
proof (rule inj_onI)
  let ?names = "map pg_fn (jit_direct_fns cfg)"
  fix x y assume xy: "x \<in> insert f (pg_fn ` set (jit_direct_fns cfg))" "y \<in> insert f (pg_fn ` set (jit_direct_fns cfg))"
    and eq: "example_addr cfg x = example_addr cfg y"
  have small: "16 * name_index ?names z < 2 ^ 64" for z
    using name_index_le [of ?names z] length_direct_fns [of cfg] by simp
  have "unat (example_addr cfg z) = 16 * name_index ?names z" for z
    unfolding example_addr_def by (rule unat_word_of_nat) (rule small)
  with eq have "name_index ?names x = name_index ?names y" by (metis mult_left_cancel zero_neq_numeral)
  moreover have "z \<in> set ?names \<or> z = f" if "z \<in> insert f (pg_fn ` set (jit_direct_fns cfg))" for z
    using that by auto
  ultimately show "x = y"
    using xy name_index_nth [of _ ?names] name_index_none [of _ ?names] by (metis less_irrefl)
qed

lemma direct_fn_lookup_witness:
  "\<exists>e. jit_find_direct_fn (example_addr \<lparr>pg18 = False, have_simd = True\<rparr>) \<lparr>pg18 = False, have_simd = True\<rparr> ''int4pl''
      = Some (Some e) \<and> jit_fn e = ''jit_int4pl''"
  unfolding direct_fn_lookup [OF example_addr_inj]
  by (simp add: find_direct_def jit_direct_fns_def find_append jit_direct_fns_1_def pg_fn_entries)
     (simp add: entry_defs)

end
