(* ===== verification/ArrayOps.thy ===== *)
theory ArrayOps
  imports InList
begin

unbundle bit_operations_syntax

text \<open>
  The array helpers of \<open>pg_jitter_simd.c\<close>: the branchless binary search in a sorted IN list,
  the searches in int4 and int8 arrays, the loop of \<open>x op ANY (array)\<close> and \<open>x op ALL (array)\<close>,
  and the two helpers of tuple deforming. A vector instruction is its effect on the lanes;
  \<open>simd_build\<close> is the choice of the preprocessor between the vector and the scalar loops.
\<close>

datatype simd_build = NEON | SSE41 | SSE2 | Portable

section \<open>Sorted IN lists\<close>

record SortedInt32Array =
  sa_nvals :: nat
  sa_has_nulls :: bool
  sa_vals :: "int32 list"

definition sorted_array_build_int4 :: "int32 list \<Rightarrow> nat \<Rightarrow> bool \<Rightarrow> SortedInt32Array" where
  "sorted_array_build_int4 vals nvals has_nulls =
     \<lparr>sa_nvals = nvals, sa_has_nulls = has_nulls, sa_vals = take nvals vals\<rparr>"

text \<open>The loop moves the pointer \<open>base\<close>, here an index, and shrinks \<open>n\<close>.\<close>

function sorted_loop :: "int32 list \<Rightarrow> int32 \<Rightarrow> nat \<Rightarrow> nat \<Rightarrow> nat \<times> nat" where
  "sorted_loop vals val base n =
     (if n > 1
      then (let half = n div 2
            in sorted_loop vals val (base + (if sint (vals ! (base + half - 1)) < sint val then half else 0)) (n - half))
      else (base, n))"
  by pat_completeness auto
termination by (relation "measure (\<lambda>(vals, val, base, n). n)") auto

declare sorted_loop.simps [simp del]

definition sorted_array_probe_int4 :: "int32 \<Rightarrow> SortedInt32Array \<Rightarrow> int32" where
  "sorted_array_probe_int4 val sa =
     (let (base, n) = sorted_loop (sa_vals sa) val 0 (sa_nvals sa)
      in c_bool (n > 0 \<and> sa_vals sa ! base = val))"

text \<open>One step of the loop keeps the value in the window, when it is there.\<close>

lemma sorted_step:
  assumes "sorted (map sint vals)" "base + n \<le> length vals" "1 < n"
    and "\<exists>j<n. vals ! (base + j) = (val :: int32)"
  defines "half \<equiv> n div 2"
  defines "b' \<equiv> base + (if sint (vals ! (base + half - 1)) < sint val then half else 0)"
  shows "\<exists>j<n - half. vals ! (b' + j) = val"
proof -
  have half: "0 < half" "half < n" "half \<le> n - half"
    using assms(3) by (auto simp: half_def)
  have mono: "sint (vals ! i) \<le> sint (vals ! j)" if "i \<le> j" "j < base + n" for i j
    using sorted_nth_mono [OF assms(1), of i j] that assms(2) by simp
  obtain j where j: "j < n" "vals ! (base + j) = val"
    using assms(4) by blast
  show ?thesis
  proof (cases "sint (vals ! (base + half - 1)) < sint val")
    case True
    then have "\<not> j < half"
      using mono [of "base + j" "base + half - 1"] j half by fastforce
    then have "base + half + (j - half) = base + j" "j - half < n - half"
      using j by auto
    then show ?thesis
      using True j by (auto simp: b'_def intro!: exI [of _ "j - half"])
  next
    case False
    show ?thesis
    proof (cases "j < n - half")
      case True
      then show ?thesis
        using False j by (auto simp: b'_def)
    next
      case j2: False
      have "sint (vals ! (base + half - 1)) \<le> sint (vals ! (base + j))"
        using mono [of "base + half - 1" "base + j"] j half j2 by auto
      then have "vals ! (base + half - 1) = val"
        using False j by (metis antisym not_less signed_word_eqI)
      then show ?thesis
        using False half by (auto simp: b'_def intro!: exI [of _ "half - 1"])
    qed
  qed
qed

lemma sorted_loop_spec:
  assumes "sorted (map sint vals)" "base + n \<le> length vals"
  shows "(case sorted_loop vals val base n of (base', n') \<Rightarrow>
      n' \<le> 1 \<and> (n = 0 \<longleftrightarrow> n' = 0) \<and> base' + n' \<le> length vals \<and>
      ((\<exists>j<n. vals ! (base + j) = val) \<longrightarrow> (\<exists>j<n'. vals ! (base' + j) = val)))"
  using assms(2)
proof (induction n arbitrary: base rule: less_induct)
  case (less n)
  show ?case
  proof (cases "1 < n")
    case True
    define half where "half = n div 2"
    define b' where "b' = base + (if sint (vals ! (base + half - 1)) < sint val then half else 0)"
    have half: "0 < half" "half < n" and b': "b' + (n - half) \<le> length vals"
      using True less.prems by (auto simp: half_def b'_def)
    have "sorted_loop vals val base n = sorted_loop vals val b' (n - half)"
      using True sorted_loop.simps [of vals val base n] by (simp add: Let_def b'_def half_def)
    moreover have "(\<exists>j<n. vals ! (base + j) = val) \<longrightarrow> (\<exists>j<n - half. vals ! (b' + j) = val)"
      using sorted_step [OF assms(1) less.prems True] unfolding b'_def half_def by blast
    ultimately show ?thesis
      using less.IH [of "n - half" b'] half b' by (auto split: prod.splits)
  next
    case False
    then have "sorted_loop vals val base n = (base, n)"
      using sorted_loop.simps [of vals val base n] by simp
    then show ?thesis
      using less.prems False by auto
  qed
qed

lemma sorted_probe_member:
  assumes "sorted (map sint vals)"
  shows "sorted_array_probe_int4 val (sorted_array_build_int4 vals (length vals) hn) = c_bool (val \<in> set vals)"
proof -
  obtain b n where loop: "sorted_loop vals val 0 (length vals) = (b, n)"
    by fastforce
  have spec: "n \<le> 1" "b + n \<le> length vals" "(\<exists>j<length vals. vals ! j = val) \<longrightarrow> (\<exists>j<n. vals ! (b + j) = val)"
    using sorted_loop_spec [OF assms, of 0 "length vals" val] by (simp_all add: loop)
  have "(n > 0 \<and> vals ! b = val) \<longleftrightarrow> val \<in> set vals"
  proof
    assume "0 < n \<and> vals ! b = val"
    then show "val \<in> set vals"
      using spec(2) by (auto intro: nth_mem)
  next
    assume "val \<in> set vals"
    then obtain j where "j < n" "vals ! (b + j) = val"
      using spec(3) by (auto simp: in_set_conv_nth)
    then show "0 < n \<and> vals ! b = val"
      using spec(1) by (cases j) auto
  qed
  then show ?thesis
    by (simp add: sorted_array_probe_int4_def sorted_array_build_int4_def loop)
qed

section \<open>Searches in arrays of int4 and int8\<close>

text \<open>The scalar loop \<open>for (; i < nitems; i++) if (data[i] == val) return 1; return 0\<close>.\<close>

function scalar_eq_loop :: "'a::len word \<Rightarrow> 'a word list \<Rightarrow> nat \<Rightarrow> nat \<Rightarrow> int32" where
  "scalar_eq_loop val data nitems i =
     (if i < nitems then (if data ! i = val then 1 else scalar_eq_loop val data nitems (i + 1)) else 0)"
  by pat_completeness auto
termination by (relation "measure (\<lambda>(val, data, nitems, i). nitems - i)") auto

text \<open>The vector loops compare four int4 or two int8 lanes; a lane that compares equal is all
  ones (\<open>vceqq\<close>).\<close>

definition vceqq :: "'a::len word \<Rightarrow> 'a word list \<Rightarrow> 'a word list" where
  "vceqq val lanes = map (\<lambda>d. if d = val then - 1 else 0) lanes"

definition vmaxvq :: "'a::len word list \<Rightarrow> 'a word" where
  "vmaxvq lanes = foldr max lanes 0"

function neon_int4_loop :: "int32 \<Rightarrow> int32 list \<Rightarrow> nat \<Rightarrow> nat \<Rightarrow> int32" where
  "neon_int4_loop val data nitems i =
     (if i + 4 \<le> nitems
      then (if vmaxvq (vceqq val (take 4 (drop i data))) \<noteq> 0 then 1
            else neon_int4_loop val data nitems (i + 4))
      else scalar_eq_loop val data nitems i)"
  by pat_completeness auto
termination by (relation "measure (\<lambda>(val, data, nitems, i). nitems - i)") auto

function neon_int8_loop :: "int64 \<Rightarrow> int64 list \<Rightarrow> nat \<Rightarrow> nat \<Rightarrow> int32" where
  "neon_int8_loop val data nitems i =
     (if i + 2 \<le> nitems
      then (let cmp = vceqq val (take 2 (drop i data))
            in if (cmp ! 0 OR cmp ! 1) \<noteq> 0 then 1 else neon_int8_loop val data nitems (i + 2))
      else scalar_eq_loop val data nitems i)"
  by pat_completeness auto
termination by (relation "measure (\<lambda>(val, data, nitems, i). nitems - i)") auto

declare scalar_eq_loop.simps [simp del] neon_int4_loop.simps [simp del] neon_int8_loop.simps [simp del]

definition simd_int4_array_eq :: "simd_build \<Rightarrow> int32 \<Rightarrow> int32 list \<Rightarrow> nat \<Rightarrow> int32" where
  "simd_int4_array_eq b val data nitems =
     (if b = NEON then neon_int4_loop val data nitems 0 else scalar_eq_loop val data nitems 0)"

definition simd_int8_array_eq :: "simd_build \<Rightarrow> int64 \<Rightarrow> int64 list \<Rightarrow> nat \<Rightarrow> int32" where
  "simd_int8_array_eq b val data nitems =
     (if b = NEON then neon_int8_loop val data nitems 0 else scalar_eq_loop val data nitems 0)"

lemma scalar_eq_loop_member:
  "nitems \<le> length data \<Longrightarrow> scalar_eq_loop val data nitems i = c_bool (val \<in> set (drop i (take nitems data)))"
proof (induction val data nitems i rule: scalar_eq_loop.induct)
  case (1 val data nitems i)
  have "drop i (take nitems data) = data ! i # drop (i + 1) (take nitems data)" if "i < nitems"
    using that 1(2) Cons_nth_drop_Suc [of i "take nitems data"] by simp
  then show ?case
    using 1 by (subst scalar_eq_loop.simps) (auto simp: c_bool_def)
qed

lemma vmaxvq_vceqq: "vmaxvq (vceqq val lanes) = 0 \<longleftrightarrow> val \<notin> set lanes"
  by (induction lanes) (auto simp: vmaxvq_def vceqq_def max_def)

lemma window_append:
  assumes "i + k \<le> nitems" "nitems \<le> length data"
  shows "drop i (take nitems data) = take k (drop i data) @ drop (i + k) (take nitems data)"
proof -
  have "take k (drop i (take nitems data)) = take k (drop i data)"
    using assms by (simp add: drop_take min_def)
  then show ?thesis
    by (metis add.commute append_take_drop_id drop_drop)
qed

lemma neon_int4_loop_member:
  "nitems \<le> length data \<Longrightarrow> neon_int4_loop val data nitems i = c_bool (val \<in> set (drop i (take nitems data)))"
proof (induction val data nitems i rule: neon_int4_loop.induct)
  case (1 val data nitems i)
  show ?case
  proof (cases "i + 4 \<le> nitems")
    case True
    then show ?thesis
      using 1 window_append [OF True "1.prems"]
      by (subst neon_int4_loop.simps) (simp add: vmaxvq_vceqq c_bool_def)
  next
    case False
    then show ?thesis
      using scalar_eq_loop_member [OF "1.prems"] by (subst neon_int4_loop.simps) simp
  qed
qed

lemma neon_int8_loop_member:
  "nitems \<le> length data \<Longrightarrow> neon_int8_loop val data nitems i = c_bool (val \<in> set (drop i (take nitems data)))"
proof (induction val data nitems i rule: neon_int8_loop.induct)
  case (1 val data nitems i)
  show ?case
  proof (cases "i + 2 \<le> nitems")
    case True
    then have "take 2 (drop i data) = [data ! i, data ! (i + 1)]"
      using "1.prems" by (simp add: take_Suc_conv_app_nth numeral_2_eq_2)
    then show ?thesis
      using 1 True window_append [OF True "1.prems"]
      by (subst neon_int8_loop.simps) (auto simp: Let_def vceqq_def c_bool_def)
  next
    case False
    then show ?thesis
      using scalar_eq_loop_member [OF "1.prems"] by (subst neon_int8_loop.simps) simp
  qed
qed

lemma array_eq_member:
  assumes "n \<le> length data4" "m \<le> length data8"
  shows "simd_int4_array_eq b v4 data4 n = c_bool (v4 \<in> set (take n data4))"
    and "simd_int8_array_eq b v8 data8 m = c_bool (v8 \<in> set (take m data8))"
  using assms
  by (simp_all add: simd_int4_array_eq_def simd_int8_array_eq_def neon_int4_loop_member neon_int8_loop_member
      scalar_eq_loop_member)

section \<open>The null bitmap of a tuple\<close>

text \<open>The loop over whole bytes, one byte or (NEON) sixteen bytes at a time, then the bits of the
  last byte.\<close>

function bytes_full_loop :: "uint8 list \<Rightarrow> nat \<Rightarrow> nat \<Rightarrow> bool" where
  "bytes_full_loop bits full_bytes i =
     (if i < full_bytes then (if bits ! i \<noteq> 0xFF then False else bytes_full_loop bits full_bytes (i + 1)) else True)"
  by pat_completeness auto
termination by (relation "measure (\<lambda>(bits, full_bytes, i). full_bytes - i)") auto

definition vminvq :: "uint8 list \<Rightarrow> uint8" where
  "vminvq lanes = foldr min lanes 0xFF"

function neon_full_loop :: "uint8 list \<Rightarrow> nat \<Rightarrow> nat \<Rightarrow> bool" where
  "neon_full_loop bits full_bytes i =
     (if i + 16 \<le> full_bytes
      then (if vminvq (take 16 (drop i bits)) \<noteq> 0xFF then False else neon_full_loop bits full_bytes (i + 16))
      else bytes_full_loop bits full_bytes i)"
  by pat_completeness auto
termination by (relation "measure (\<lambda>(bits, full_bytes, i). full_bytes - i)") auto

declare bytes_full_loop.simps [simp del] neon_full_loop.simps [simp del]

definition simd_nullbitmap_all_notnull :: "simd_build \<Rightarrow> uint8 list \<Rightarrow> nat \<Rightarrow> bool" where
  "simd_nullbitmap_all_notnull b bits ncols =
     (let full_bytes = ncols div 8; trailing = ncols mod 8;
          m = push_bit trailing 1 - 1
      in (if b = NEON then neon_full_loop bits full_bytes 0 else bytes_full_loop bits full_bytes 0)
         \<and> (trailing \<noteq> 0 \<longrightarrow> (bits ! full_bytes) AND m = m))"

lemma bytes_full_loop_all:
  "full \<le> length bits \<Longrightarrow> bytes_full_loop bits full i \<longleftrightarrow> (\<forall>x\<in>set (drop i (take full bits)). x = 0xFF)"
proof (induction bits full i rule: bytes_full_loop.induct)
  case (1 bits full i)
  have "drop i (take full bits) = bits ! i # drop (i + 1) (take full bits)" if "i < full"
    using that 1(2) Cons_nth_drop_Suc [of i "take full bits"] by simp
  then show ?case
    using 1 by (subst bytes_full_loop.simps) auto
qed

lemma byte_255: "(0xFF :: uint8) = - 1"
  by simp

lemma min_255 [simp]: "min (x :: uint8) 0xFF = x" "min 0xFF x = x"
proof -
  have "x \<le> 0xFF"
    unfolding byte_255 by (rule word_n1_ge)
  then show "min x 0xFF = x" "min 0xFF x = x"
    by (simp_all add: min_def)
qed

lemma vminvq_full: "vminvq lanes = 0xFF \<longleftrightarrow> (\<forall>x\<in>set lanes. x = 0xFF)"
proof (induction lanes)
  case Nil
  then show ?case by (simp add: vminvq_def)
next
  case (Cons a lanes)
  have "min a (foldr min lanes 0xFF) = 0xFF \<longleftrightarrow> a = 0xFF \<and> foldr min lanes 0xFF = 0xFF"
    by (metis min.cobounded1 min.cobounded2 min_255(1) min_255(2) min.absorb_iff1 min.orderE antisym)
  then show ?case
    using Cons by (simp add: vminvq_def)
qed

lemma neon_full_loop_all:
  "full \<le> length bits \<Longrightarrow> neon_full_loop bits full i \<longleftrightarrow> (\<forall>x\<in>set (drop i (take full bits)). x = 0xFF)"
proof (induction bits full i rule: neon_full_loop.induct)
  case (1 bits full i)
  show ?case
  proof (cases "i + 16 \<le> full")
    case True
    then show ?thesis
      using 1 window_append [OF True "1.prems"]
      by (subst neon_full_loop.simps) (auto simp: vminvq_full)
  next
    case False
    then show ?thesis
      using bytes_full_loop_all [OF "1.prems"] by (subst neon_full_loop.simps) simp
  qed
qed

lemma byte_full: "(x :: uint8) = 0xFF \<longleftrightarrow> (\<forall>k<8. bit x k)"
proof -
  have "x = - 1 \<longleftrightarrow> (\<forall>k<8. bit x k)"
    by (auto simp: bit_eq_iff)
  then show ?thesis
    unfolding byte_255 .
qed

lemma mask_bits:
  "t < 8 \<Longrightarrow> (x :: uint8) AND (push_bit t 1 - 1) = push_bit t 1 - 1 \<longleftrightarrow> (\<forall>k<t. bit x k)"
proof -
  assume t: "t < 8"
  have m: "push_bit t 1 - 1 = (mask t :: uint8)"
    by (simp add: mask_eq_exp_minus_1 push_bit_eq_mult)
  have "(x AND mask t = mask t) \<longleftrightarrow> (\<forall>k<8. k < t \<longrightarrow> bit x k)"
    by (auto simp: bit_eq_iff bit_simps)
  then show ?thesis
    unfolding m using t by (auto intro: less_trans)
qed

lemma nullbitmap_iff:
  assumes "ncols \<le> 8 * length bits"
  shows "simd_nullbitmap_all_notnull b bits ncols \<longleftrightarrow> (\<forall>k<ncols. bit (bits ! (k div 8)) (k mod 8))"
proof -
  define f where "f = ncols div 8"
  define t where "t = ncols mod 8"
  have n: "ncols = 8 * f + t" "t < 8" "f \<le> length bits"
    using assms by (auto simp: f_def t_def)
  have split: "(\<forall>k<ncols. P k) \<longleftrightarrow> (\<forall>i<f. \<forall>k<8. P (8 * i + k)) \<and> (\<forall>k<t. P (8 * f + k))" for P
  proof (intro iffI conjI allI impI)
    fix k assume P: "(\<forall>i<f. \<forall>k<8. P (8 * i + k)) \<and> (\<forall>k<t. P (8 * f + k))" and "k < ncols"
    then show "P k"
    proof (cases "k < 8 * f")
      case True
      then have "k div 8 < f"
        by (simp add: less_mult_imp_div_less mult.commute)
      moreover have "k mod 8 < 8"
        by simp
      ultimately have "P (8 * (k div 8) + k mod 8)"
        using P by blast
      then show ?thesis
        by (simp only: mult_div_mod_eq)
    next
      case False
      then have "k - 8 * f < t" "8 * f + (k - 8 * f) = k"
        using n(1) \<open>k < ncols\<close> by auto
      then show ?thesis
        using P by metis
    qed
  qed (use n in auto)
  have "(\<forall>x\<in>set (take f bits). x = 0xFF) \<longleftrightarrow> (\<forall>i<f. \<forall>k<8. bit (bits ! i) k)"
    using n(3) by (auto simp: all_set_conv_all_nth byte_full)
  moreover have "(t \<noteq> 0 \<longrightarrow> bits ! f AND (push_bit t 1 - 1) = push_bit t 1 - 1) \<longleftrightarrow> (\<forall>k<t. bit (bits ! f) k)"
    using mask_bits [OF n(2)] by auto
  moreover have "(if b = NEON then neon_full_loop bits f 0 else bytes_full_loop bits f 0) \<longleftrightarrow>
      (\<forall>x\<in>set (take f bits). x = 0xFF)"
    using neon_full_loop_all [OF n(3)] bytes_full_loop_all [OF n(3)] by simp
  moreover have "simd_nullbitmap_all_notnull b bits ncols \<longleftrightarrow>
      (if b = NEON then neon_full_loop bits f 0 else bytes_full_loop bits f 0) \<and>
      (t \<noteq> 0 \<longrightarrow> bits ! f AND (push_bit t 1 - 1) = push_bit t 1 - 1)"
    by (simp only: simd_nullbitmap_all_notnull_def Let_def f_def t_def)
  ultimately have "simd_nullbitmap_all_notnull b bits ncols \<longleftrightarrow>
      (\<forall>i<f. \<forall>k<8. bit (bits ! i) k) \<and> (\<forall>k<t. bit (bits ! f) k)"
    by (simp only:)
  then show ?thesis
    unfolding split using n(2) by simp
qed

section \<open>Columns of int4 of a tuple\<close>

text \<open>The \<open>k\<close> int4 values that follow column \<open>i\<close> of a run of int4 columns.\<close>

definition load_int32s :: "uint8 list \<Rightarrow> nat \<Rightarrow> nat \<Rightarrow> int32 list" where
  "load_int32s tupdata i k = map (\<lambda>j. le_word (take 4 (drop (4 * (i + j)) tupdata))) [0..<k]"

definition store_at :: "Datum list \<Rightarrow> nat \<Rightarrow> Datum list \<Rightarrow> Datum list" where
  "store_at values i xs = take i values @ xs @ drop (i + length xs) values"

text \<open>One step of each vector loop: what it stores for the columns from \<open>i\<close> on. SSE4.1 shifts
  the register by 8 bytes to reach its upper lanes; SSE2 interleaves the value and its sign.\<close>

definition neon_widen :: "int32 list \<Rightarrow> Datum list" where
  "neon_widen v = map scast (take 2 v) @ map scast (drop 2 v)"

definition srli_si128_8 :: "int32 list \<Rightarrow> int32 list" where
  "srli_si128_8 v = drop 2 v @ [0, 0]"

definition cvtepi32_epi64 :: "int32 list \<Rightarrow> Datum list" where
  "cvtepi32_epi64 v = map scast (take 2 v)"

definition sse41_widen :: "int32 list \<Rightarrow> Datum list" where
  "sse41_widen v = cvtepi32_epi64 v @ cvtepi32_epi64 (srli_si128_8 v)"

definition sse2_widen :: "int32 list \<Rightarrow> Datum list" where
  "sse2_widen v = map2 (\<lambda>lo hi. ucast lo OR push_bit 32 (ucast hi)) v (map (signed_drop_bit 31) v)"

function widen_loop :: "nat \<Rightarrow> (int32 list \<Rightarrow> Datum list) \<Rightarrow> uint8 list \<Rightarrow> Datum list \<Rightarrow> nat \<Rightarrow> nat \<Rightarrow> Datum list" where
  "widen_loop w widen tupdata values count i =
     (if 0 < w \<and> i + w \<le> count
      then widen_loop w widen tupdata (store_at values i (widen (load_int32s tupdata i w))) count (i + w)
      else if i < count
      then widen_loop w widen tupdata (store_at values i [Int32GetDatum (hd (load_int32s tupdata i 1))]) count (i + 1)
      else values)"
  by pat_completeness auto
termination by (relation "measure (\<lambda>(w, widen, tupdata, values, count, i). count - i)") auto

declare widen_loop.simps [simp del]

definition simd_extract_int32_values :: "simd_build \<Rightarrow> uint8 list \<Rightarrow> Datum list \<Rightarrow> nat \<Rightarrow> Datum list" where
  "simd_extract_int32_values b tupdata values count =
     (case b of
        NEON \<Rightarrow> widen_loop 4 neon_widen tupdata values count 0
      | SSE41 \<Rightarrow> widen_loop 4 sse41_widen tupdata values count 0
      | SSE2 \<Rightarrow> widen_loop 2 sse2_widen tupdata values count 0
      | Portable \<Rightarrow> widen_loop 0 (\<lambda>_. []) tupdata values count 0)"

lemma sse2_sign_extend: "ucast (v :: int32) OR push_bit 32 (ucast (signed_drop_bit 31 v)) = (scast v :: Datum)"
proof (rule bit_word_eqI)
  fix n
  assume "n < LENGTH(64)"
  consider "n < 31" | "n = 31" | "n = 32" | "32 < n"
    by linarith
  then show "bit (ucast v OR push_bit 32 (ucast (signed_drop_bit 31 v)) :: Datum) n \<longleftrightarrow> bit (scast v :: Datum) n"
    using \<open>n < LENGTH(64)\<close> by cases (auto simp: bit_simps min_def dest: bit_imp_le_length)
qed

lemma widen_correct:
  "length v = 4 \<Longrightarrow> neon_widen v = map Int32GetDatum v"
  "length v = 4 \<Longrightarrow> sse41_widen v = map Int32GetDatum v"
  "sse2_widen v = map Int32GetDatum v"
proof -
  show "length v = 4 \<Longrightarrow> neon_widen v = map Int32GetDatum v"
    by (simp add: neon_widen_def Int32GetDatum_def flip: map_append)
  show "length v = 4 \<Longrightarrow> sse41_widen v = map Int32GetDatum v"
    by (simp add: sse41_widen_def cvtepi32_epi64_def srli_si128_8_def Int32GetDatum_def flip: map_append)
  show "sse2_widen v = map Int32GetDatum v"
    by (simp add: sse2_widen_def sse2_sign_extend Int32GetDatum_def map2_map_map [where f=id, simplified] cong: map_cong)
qed

lemma load_int32s_add: "load_int32s t i (a + b) = load_int32s t i a @ load_int32s t (i + a) b"
  unfolding load_int32s_def upt_add_eq_append [OF le0] map_append
  by (simp add: map_add_upt [symmetric] add.assoc add.commute [of a] del: map_add_upt) 

lemma length_load_int32s [simp]: "length (load_int32s t i k) = k"
  by (simp add: load_int32s_def)

lemma store_at_store_at:
  assumes "i + length xs + length ys \<le> length values"
  shows "store_at (store_at values i xs) (i + length xs) ys = store_at values i (xs @ ys)"
  using assms by (simp add: store_at_def add_ac)

lemma length_store_at [simp]: "i + length xs \<le> length values \<Longrightarrow> length (store_at values i xs) = length values"
  by (simp add: store_at_def)

lemma widen_loop_spec:
  assumes "\<And>v. length v = w \<Longrightarrow> widen v = map Int32GetDatum v"
  shows "i \<le> count \<Longrightarrow> count \<le> length vals \<Longrightarrow> widen_loop w widen tupdata vals count i =
    store_at vals i (map Int32GetDatum (load_int32s tupdata i (count - i)))"
proof (induction "count - i" arbitrary: i vals rule: less_induct)
  case less
  have step: "widen_loop w widen tupdata (store_at vals i (map Int32GetDatum (load_int32s tupdata i k))) count (i + k) =
      store_at vals i (map Int32GetDatum (load_int32s tupdata i (count - i)))"
    if "0 < k" "i + k \<le> count" for k
  proof -
    have "count - i = k + (count - (i + k))"
      using that by simp
    then have "load_int32s tupdata i (count - i) = load_int32s tupdata i k @ load_int32s tupdata (i + k) (count - (i + k))"
      by (simp only: load_int32s_add)
    moreover have "widen_loop w widen tupdata (store_at vals i (map Int32GetDatum (load_int32s tupdata i k))) count (i + k) =
        store_at (store_at vals i (map Int32GetDatum (load_int32s tupdata i k))) (i + k)
          (map Int32GetDatum (load_int32s tupdata (i + k) (count - (i + k))))"
      using less.prems that by (intro less.hyps) auto
    ultimately show ?thesis
      using store_at_store_at [of i "map Int32GetDatum (load_int32s tupdata i k)"
          "map Int32GetDatum (load_int32s tupdata (i + k) (count - (i + k)))" vals] less.prems that
      by simp
  qed
  consider "0 < w \<and> i + w \<le> count" | "\<not> (0 < w \<and> i + w \<le> count)" "i < count" | "i = count"
    using less.prems by linarith
  then show ?case
  proof cases
    case 1
    then show ?thesis
      using step [of w] assms [of "load_int32s tupdata i w"]
      by (subst widen_loop.simps) simp
  next
    case 2
    then show ?thesis
      using step [of 1] widen_loop.simps [of w widen tupdata vals count i]
      by (simp only: if_False if_True) (simp add: load_int32s_def)
  next
    case 3
    then show ?thesis
      by (subst widen_loop.simps) (auto simp: store_at_def load_int32s_def)
  qed
qed

lemma extract_correct:
  assumes "count \<le> length values"
  shows "simd_extract_int32_values b tupdata values count =
    map Int32GetDatum (load_int32s tupdata 0 count) @ drop count values"
proof -
  have spec: "widen_loop w widen tupdata values count 0 = store_at values 0 (map Int32GetDatum (load_int32s tupdata 0 count))"
    if "\<And>v. length v = w \<Longrightarrow> widen v = map Int32GetDatum v" for w widen
    using widen_loop_spec [of w widen 0 count] that assms by simp
  have "simd_extract_int32_values b tupdata values count = store_at values 0 (map Int32GetDatum (load_int32s tupdata 0 count))"
  proof (cases b)
    case NEON
    then show ?thesis
      by (simp add: simd_extract_int32_values_def spec widen_correct)
  next
    case SSE41
    then show ?thesis
      by (simp add: simd_extract_int32_values_def spec widen_correct)
  next
    case SSE2
    then show ?thesis
      by (simp add: simd_extract_int32_values_def spec widen_correct)
  next
    case Portable
    then show ?thesis
      using spec [of 0 "\<lambda>_. []"] by (simp add: simd_extract_int32_values_def)
  qed
  then show ?thesis
    by (simp add: store_at_def)
qed

section \<open>ANY and ALL over an array\<close>

text \<open>An array as the executor sees it: its element type, the number of elements, the null bitmap
  and the bytes of the elements that are not null. \<open>PgArrayEnv\<close> holds what the code takes from
  PostgreSQL: the macros that read an element and step to the next one, the lookup of a type, and
  the call of a function on arguments with null flags.\<close>

record ArrayType =
  arr_elemtype :: Oid
  arr_nitems :: int
  arr_nullbitmap :: "uint8 list option"
  arr_data :: "uint8 list"

record PgArrayEnv =
  fetch_att :: "uint8 list \<Rightarrow> nat \<Rightarrow> bool \<Rightarrow> int \<Rightarrow> Datum"
  att_addlength_pointer :: "uint8 list \<Rightarrow> nat \<Rightarrow> int \<Rightarrow> nat"
  att_align_nominal :: "nat \<Rightarrow> char \<Rightarrow> nat"
  get_typlenbyvalalign :: "Oid \<Rightarrow> int \<times> bool \<times> char"
  fcall :: "PGFunction \<Rightarrow> Datum \<times> bool \<Rightarrow> Datum \<times> bool \<Rightarrow> pg_error + Datum \<times> bool"

record ScalarArrayOp =
  element_type :: Oid
  typlen :: int
  typbyval :: bool
  typalign :: char
  useOr :: bool
  fn_strict :: bool
  sao_fn_addr :: PGFunction
  resvalue :: Datum
  resnull :: bool

lemma DatumGetBool_BoolGetDatum [simp]: "DatumGetBool (BoolGetDatum b) = b"
  by (simp add: BoolGetDatum_def DatumGetBool_def)

text \<open>The type information is cached in the step until an array of another type comes.\<close>

definition cache_elemtype :: "PgArrayEnv \<Rightarrow> ArrayType \<Rightarrow> ScalarArrayOp \<Rightarrow> ScalarArrayOp" where
  "cache_elemtype env arr op =
     (if element_type op \<noteq> arr_elemtype arr
      then (case get_typlenbyvalalign env (arr_elemtype arr) of (l, v, a) \<Rightarrow>
        op\<lparr>typlen := l, typbyval := v, typalign := a, element_type := arr_elemtype arr\<rparr>)
      else op)"

text \<open>One call of the comparison function.\<close>

definition saop_call :: "PgArrayEnv \<Rightarrow> ScalarArrayOp \<Rightarrow> Datum \<times> bool \<Rightarrow> Datum \<times> bool \<Rightarrow> pg_error + Datum \<times> bool" where
  "saop_call env op a0 a1 = (if snd a1 \<and> fn_strict op then Inr (0, True) else fcall env (sao_fn_addr op) a0 a1)"

text \<open>The loop over the elements: \<open>n\<close> elements are left, the next one that is not null is at
  \<open>s\<close>, its bit is \<open>bitmask\<close> of the first byte of \<open>bitmap\<close>.\<close>

fun saop_loop :: "PgArrayEnv \<Rightarrow> ScalarArrayOp \<Rightarrow> uint8 list \<Rightarrow> Datum \<times> bool \<Rightarrow> nat \<Rightarrow> nat \<Rightarrow>
    uint8 list option \<Rightarrow> int32 \<Rightarrow> bool \<Rightarrow> pg_error + Datum \<times> bool" where
  "saop_loop env op data a0 0 s bitmap bitmask resultnull = Inr (BoolGetDatum (\<not> useOr op), resultnull)"
| "saop_loop env op data a0 (Suc n) s bitmap bitmask resultnull =
     (let isnull = (case bitmap of None \<Rightarrow> False | Some bits \<Rightarrow> ucast (hd bits) AND bitmask = 0);
          (a1, s') = (if isnull then ((0, True), s)
            else ((fetch_att env data s (typbyval op) (typlen op), False),
                  att_align_nominal env (att_addlength_pointer env data s (typlen op)) (typalign op)))
      in case saop_call env op a0 a1 of
           Inl e \<Rightarrow> Inl e
         | Inr (thisresult, fnull) \<Rightarrow>
             if \<not> fnull \<and> useOr op \<and> DatumGetBool thisresult then Inr (BoolGetDatum True, False)
             else if \<not> fnull \<and> \<not> useOr op \<and> \<not> DatumGetBool thisresult then Inr (BoolGetDatum False, False)
             else (let mask' = push_bit 1 bitmask;
                       (bitmap', bitmask') = (case bitmap of None \<Rightarrow> (None, bitmask)
                         | Some bits \<Rightarrow> if mask' = 0x100 then (Some (tl bits), 1) else (Some bits, mask'))
                   in saop_loop env op data a0 n s' bitmap' bitmask' (fnull \<or> resultnull)))"

text \<open>An array without nulls as C arrays of int4 and int8.\<close>

definition as_int32s :: "uint8 list \<Rightarrow> nat \<Rightarrow> int32 list" where
  "as_int32s data n = map (\<lambda>i. le_word (take 4 (drop (4 * i) data))) [0..<n]"

definition as_int64s :: "uint8 list \<Rightarrow> nat \<Rightarrow> int64 list" where
  "as_int64s data n = map (\<lambda>i. le_word (take 8 (drop (8 * i) data))) [0..<n]"

definition pg_jitter_scalararrayop_loop ::
  "simd_build \<Rightarrow> PgArrayEnv \<Rightarrow> ScalarArrayOp \<Rightarrow> ArrayType \<Rightarrow> Datum \<Rightarrow> bool \<Rightarrow> pg_error + ScalarArrayOp" where
  "pg_jitter_scalararrayop_loop b env op arr scalar_value scalar_null =
     (let nitems = nat (arr_nitems arr); op1 = cache_elemtype env arr op
      in if arr_nitems arr \<le> 0 then Inr (op\<lparr>resvalue := BoolGetDatum (\<not> useOr op), resnull := False\<rparr>)
         else if scalar_null \<and> fn_strict op then Inr (op\<lparr>resnull := True\<rparr>)
         else if arr_nullbitmap arr = None \<and> typbyval op1 \<and> useOr op1 \<and> sao_fn_addr op1 = ''int4eq'' \<and> typlen op1 = 4
         then (let found = simd_int4_array_eq b (DatumGetInt32 scalar_value) (as_int32s (arr_data arr) nitems) nitems
               in Inr (op1\<lparr>resvalue := BoolGetDatum (found \<noteq> 0), resnull := False\<rparr>))
         else if arr_nullbitmap arr = None \<and> typbyval op1 \<and> useOr op1 \<and> sao_fn_addr op1 = ''int8eq'' \<and> typlen op1 = 8
         then (let found = simd_int8_array_eq b (DatumGetInt64 scalar_value) (as_int64s (arr_data arr) nitems) nitems
               in Inr (op1\<lparr>resvalue := BoolGetDatum (found \<noteq> 0), resnull := False\<rparr>))
         else case saop_loop env op1 (arr_data arr) (scalar_value, scalar_null) nitems 0 (arr_nullbitmap arr) 1 False of
             Inl e \<Rightarrow> Inl e
           | Inr (result, resultnull) \<Rightarrow> Inr (op1\<lparr>resvalue := result, resnull := resultnull\<rparr>))"

subsection \<open>The value that SQL gives\<close>

text \<open>The elements of an array, null or not, and the three-valued results of comparing them.\<close>

fun array_elems :: "PgArrayEnv \<Rightarrow> ScalarArrayOp \<Rightarrow> uint8 list \<Rightarrow> (nat \<Rightarrow> bool) \<Rightarrow> nat \<Rightarrow> nat \<Rightarrow> nat \<Rightarrow> (Datum \<times> bool) list" where
  "array_elems env op data present i 0 s = []"
| "array_elems env op data present i (Suc n) s =
     (if present i
      then (fetch_att env data s (typbyval op) (typlen op), False) #
        array_elems env op data present (Suc i) n
          (att_align_nominal env (att_addlength_pointer env data s (typlen op)) (typalign op))
      else (0, True) # array_elems env op data present (Suc i) n s)"

definition bitmap_present :: "uint8 list option \<Rightarrow> nat \<Rightarrow> bool" where
  "bitmap_present bitmap i = (case bitmap of None \<Rightarrow> True | Some bits \<Rightarrow> bit (bits ! (i div 8)) (i mod 8))"

definition elem_results :: "PgArrayEnv \<Rightarrow> ScalarArrayOp \<Rightarrow> ArrayType \<Rightarrow> Datum \<times> bool \<Rightarrow> (pg_error + Datum \<times> bool) list" where
  "elem_results env op arr a0 = map (saop_call env op a0)
     (array_elems env op (arr_data arr) (bitmap_present (arr_nullbitmap arr)) 0 (nat (arr_nitems arr)) 0)"

text \<open>\<open>ANY\<close> is true when one result is true, otherwise null when one is null, otherwise false;
  \<open>ALL\<close> dually. \<open>None\<close> is null.\<close>

fun truth :: "Datum \<times> bool \<Rightarrow> bool option" where
  "truth (d, isnull) = (if isnull then None else Some (DatumGetBool d))"

definition sql_any :: "bool option list \<Rightarrow> bool option" where
  "sql_any ts = (if Some True \<in> set ts then Some True else if None \<in> set ts then None else Some False)"

definition sql_all :: "bool option list \<Rightarrow> bool option" where
  "sql_all ts = (if Some False \<in> set ts then Some False else if None \<in> set ts then None else Some True)"

definition sql_quantified :: "bool \<Rightarrow> bool option list \<Rightarrow> bool option" where
  "sql_quantified uo ts = (if uo then sql_any ts else sql_all ts)"

text \<open>The results one after the other: the first error or the first deciding result ends the loop.\<close>

fun saop_fold :: "bool \<Rightarrow> (pg_error + Datum \<times> bool) list \<Rightarrow> bool \<Rightarrow> pg_error + Datum \<times> bool" where
  "saop_fold uo [] rn = Inr (BoolGetDatum (\<not> uo), rn)"
| "saop_fold uo (Inl e # rs) rn = Inl e"
| "saop_fold uo (Inr v # rs) rn =
     (if truth v = Some uo then Inr (BoolGetDatum uo, False) else saop_fold uo rs (rn \<or> truth v = None))"

lemma bitmap_step:
  assumes "i div 8 < length bits"
  shows "ucast (hd (drop (i div 8) bits)) AND push_bit (i mod 8) (1 :: int32) = 0 \<longleftrightarrow>
      \<not> bit (bits ! (i div 8) :: uint8) (i mod 8)"
proof -
  have "i mod 8 < 32"
    using mod_less_divisor [of 8 i] by linarith
  then show ?thesis
    using assms
    by (auto simp: hd_drop_conv_nth bit_eq_iff [where 'a = "32 word"] bit_simps intro!: exI [of _ "i mod 8"])
qed

lemma bitmask_step:
  defines "m i \<equiv> push_bit (i mod 8) (1 :: int32)"
  shows "push_bit 1 (m i) = 0x100 \<longleftrightarrow> i mod 8 = 7"
    and "i mod 8 = 7 \<Longrightarrow> m (Suc i) = 1 \<and> Suc i div 8 = Suc (i div 8)"
    and "i mod 8 \<noteq> 7 \<Longrightarrow> m (Suc i) = push_bit 1 (m i) \<and> Suc i div 8 = i div 8"
proof -
  have lt: "i mod 8 < 8"
    by simp
  have "(0x100 :: int32) = push_bit 8 1"
    by (simp add: push_bit_eq_mult)
  moreover have "push_bit 1 (m i) = push_bit (Suc (i mod 8)) 1"
    by (simp add: m_def push_bit_push_bit)
  moreover have "push_bit (Suc k) (1 :: int32) = push_bit 8 1 \<longleftrightarrow> k = 7" if "k < 8" for k
  proof
    assume eq: "push_bit (Suc k) (1 :: int32) = push_bit 8 1"
    have "bit (push_bit (Suc k) (1 :: int32)) 8"
      unfolding eq by (simp add: bit_simps)
    then show "k = 7"
      by (auto simp: bit_simps)
  qed simp
  ultimately show "push_bit 1 (m i) = 0x100 \<longleftrightarrow> i mod 8 = 7"
    using lt by metis
  show "i mod 8 = 7 \<Longrightarrow> m (Suc i) = 1 \<and> Suc i div 8 = Suc (i div 8)"
    by (simp add: m_def mod_Suc div_Suc)
  show "i mod 8 \<noteq> 7 \<Longrightarrow> m (Suc i) = push_bit 1 (m i) \<and> Suc i div 8 = i div 8"
    using lt by (simp add: m_def mod_Suc div_Suc push_bit_push_bit)
qed

lemma saop_fold_Cons:
  "saop_fold uo (r # rs) rn = (case r of Inl e \<Rightarrow> Inl e
     | Inr (d, fnull) \<Rightarrow> if \<not> fnull \<and> uo \<and> DatumGetBool d then Inr (BoolGetDatum True, False)
         else if \<not> fnull \<and> \<not> uo \<and> \<not> DatumGetBool d then Inr (BoolGetDatum False, False)
         else saop_fold uo rs (fnull \<or> rn))"
  by (cases uo; cases r) (auto simp: disj_commute split: if_splits)

lemma saop_loop_fold:
  assumes "case bitmap of None \<Rightarrow> True | Some bits \<Rightarrow> i + n \<le> 8 * length bits"
  shows "saop_loop env op data a0 n s (map_option (drop (i div 8)) bitmap)
      (case bitmap of None \<Rightarrow> 1 | Some _ \<Rightarrow> push_bit (i mod 8) 1) rn =
    saop_fold (useOr op) (map (saop_call env op a0) (array_elems env op data (bitmap_present bitmap) i n s)) rn"
  using assms
proof (induction n arbitrary: i s rn)
  case 0
  then show ?case by simp
next
  case (Suc n)
  show ?case
  proof (cases bitmap)
    case None
    then show ?thesis
      using Suc.IH [of "Suc i"]
      by (auto simp: Let_def saop_fold_Cons bitmap_present_def split: sum.splits)
  next
    case (Some bits)
    define m where "m i = push_bit (i mod 8) (1 :: int32)" for i
    have len: "i div 8 < length bits"
      using Suc.prems Some by auto
    have IH: "saop_loop env op data a0 n s (Some (drop (Suc i div 8) bits)) (m (Suc i)) rn =
      saop_fold (useOr op) (map (saop_call env op a0) (array_elems env op data (bitmap_present (Some bits)) (Suc i) n s)) rn"
      for s rn
      using Suc.IH [of "Suc i"] Suc.prems Some by (simp add: m_def)
    have next_bit: "(if push_bit 1 (m i) = 0x100 then (Some (tl (drop (i div 8) bits)), 1) else (Some (drop (i div 8) bits), push_bit 1 (m i)))
        = (Some (drop (Suc i div 8) bits), m (Suc i))"
      using bitmask_step [of i] unfolding m_def
      by (cases "i mod 8 = 7") (auto simp: drop_Suc tl_drop)
    have null: "ucast (hd (drop (i div 8) bits)) AND m i = 0 \<longleftrightarrow> \<not> bitmap_present (Some bits) i"
      using bitmap_step [OF len] by (simp add: m_def bitmap_present_def)
    show ?thesis
      unfolding Some option.map option.case m_def [symmetric] saop_loop.simps array_elems.simps Let_def null next_bit
      by (cases "bitmap_present (Some bits) i") (simp_all add: IH saop_fold_Cons split: sum.splits)
  qed
qed

lemma saop_fold_value:
  assumes "\<forall>r\<in>set rs. \<exists>v. r = Inr v"
  shows "saop_fold uo rs rn = (let ts = map (truth \<circ> projr) rs
    in if Some uo \<in> set ts then Inr (BoolGetDatum uo, False) else Inr (BoolGetDatum (\<not> uo), rn \<or> None \<in> set ts))"
  using assms
proof (induction rs arbitrary: rn)
  case Nil
  then show ?case by (simp add: Let_def)
next
  case (Cons r rs)
  then obtain v where "r = Inr v"
    by auto
  then show ?case
    using Cons.IH [of "rn \<or> truth v = None"] Cons.prems by (auto simp: Let_def)
qed

lemma saop_fold_prefix:
  assumes "\<forall>r\<in>set pre. \<exists>v. r = Inr v \<and> truth v \<noteq> Some uo"
  shows "saop_fold uo (pre @ Inl e # post) rn = Inl e"
    and "truth v = Some uo \<Longrightarrow> saop_fold uo (pre @ Inr v # post) rn = Inr (BoolGetDatum uo, False)"
  using assms by (induction pre arbitrary: rn) auto

text \<open>What PostgreSQL documents: \<open>fetch_att\<close> reads a by-value element of 4 uo 8 bytes in the byte
  order of the machine and the macros step to the next one; \<open>int4eq\<close> and \<open>int8eq\<close> compare.\<close>

definition documented_env :: "PgArrayEnv \<Rightarrow> bool" where
  "documented_env env \<longleftrightarrow>
     (\<forall>data s. fetch_att env data s True 4 = Int32GetDatum (le_word (take 4 (drop s data)))
             \<and> fetch_att env data s True 8 = le_word (take 8 (drop s data))
             \<and> att_addlength_pointer env data s 4 = s + 4 \<and> att_addlength_pointer env data s 8 = s + 8)
     \<and> (\<forall>k. att_align_nominal env (4 * k) CHR ''i'' = 4 * k \<and> att_align_nominal env (8 * k) CHR ''d'' = 8 * k)
     \<and> (\<forall>a b. fcall env ''int4eq'' (a, False) (b, False) = Inr (BoolGetDatum (DatumGetInt32 a = DatumGetInt32 b), False)
            \<and> fcall env ''int8eq'' (a, False) (b, False) = Inr (BoolGetDatum (a = b), False))"

text \<open>A step for \<open>int4eq\<close> uo \<open>int8eq\<close> is strict, and its arrays have the alignment of the type.\<close>

definition saop_wf :: "ScalarArrayOp \<Rightarrow> bool" where
  "saop_wf op \<longleftrightarrow> (sao_fn_addr op \<in> {''int4eq'', ''int8eq''} \<longrightarrow> fn_strict op
     \<and> (typlen op = 4 \<longrightarrow> typalign op = CHR ''i'') \<and> (typlen op = 8 \<longrightarrow> typalign op = CHR ''d''))"

definition bitmap_wf :: "ArrayType \<Rightarrow> bool" where
  "bitmap_wf arr \<longleftrightarrow> (case arr_nullbitmap arr of None \<Rightarrow> True | Some bits \<Rightarrow> nat (arr_nitems arr) \<le> 8 * length bits)"

lemma fast_elems4:
  assumes "documented_env env" "typlen op = 4" "typbyval op" "typalign op = CHR ''i''"
  shows "array_elems env op data (bitmap_present None) i n (4 * i) =
    map (\<lambda>j. (Int32GetDatum (le_word (take 4 (drop (4 * (i + j)) data))), False)) [0..<n]"
proof (induction n arbitrary: i)
  case 0
  then show ?case by simp
next
  case (Suc n)
  have "att_align_nominal env (4 * i + 4) CHR ''i'' = 4 * Suc i"
    using assms(1) unfolding documented_env_def by (metis add.commute mult_Suc_right)
  then show ?case
    using Suc [of "Suc i"] assms
    by (simp add: bitmap_present_def documented_env_def upt_conv_Cons map_Suc_upt [symmetric] add_ac del: upt_Suc map_Suc_upt)
qed

lemma fast_elems8:
  assumes "documented_env env" "typlen op = 8" "typbyval op" "typalign op = CHR ''d''"
  shows "array_elems env op data (bitmap_present None) i n (8 * i) =
    map (\<lambda>j. (le_word (take 8 (drop (8 * (i + j)) data)), False)) [0..<n]"
proof (induction n arbitrary: i)
  case 0
  then show ?case by simp
next
  case (Suc n)
  have "att_align_nominal env (8 * i + 8) CHR ''d'' = 8 * Suc i"
    using assms(1) unfolding documented_env_def by (metis add.commute mult_Suc_right)
  then show ?case
    using Suc [of "Suc i"] assms
    by (simp add: bitmap_present_def documented_env_def upt_conv_Cons map_Suc_upt [symmetric] add_ac del: upt_Suc map_Suc_upt)
qed

lemma saop_fold_eq:
  "saop_fold True (map (\<lambda>x. Inr (BoolGetDatum (P x), False)) xs) rn =
     Inr (BoolGetDatum (\<exists>x\<in>set xs. P x), rn \<and> \<not> (\<exists>x\<in>set xs. P x))"
  by (induction xs) auto

text \<open>The helper is the fold over the results, whatever path it takes.\<close>

lemma cache_elemtype_simps [simp]:
  "useOr (cache_elemtype env arr op) = useOr op" "fn_strict (cache_elemtype env arr op) = fn_strict op"
  "sao_fn_addr (cache_elemtype env arr op) = sao_fn_addr op"
  by (simp_all add: cache_elemtype_def split: prod.splits)

lemma saop_helper_fold:
  fixes env arr op defines "op1 \<equiv> cache_elemtype env arr op"
  assumes "documented_env env" "saop_wf op1" "bitmap_wf arr" "0 < arr_nitems arr" "\<not> (scalar_null \<and> fn_strict op)"
  shows "pg_jitter_scalararrayop_loop b env op arr v scalar_null =
    map_sum id (\<lambda>(d, n). op1\<lparr>resvalue := d, resnull := n\<rparr>)
      (saop_fold (useOr op) (elem_results env op1 arr (v, scalar_null)) False)"
proof -
  let ?n = "nat (arr_nitems arr)"
  have op1: "useOr op1 = useOr op" "fn_strict op1 = fn_strict op" "sao_fn_addr op1 = sao_fn_addr op"
    by (simp_all add: op1_def)
  consider (four) "arr_nullbitmap arr = None" "typbyval op1" "useOr op" "sao_fn_addr op = ''int4eq''" "typlen op1 = 4"
    | (eight) "arr_nullbitmap arr = None" "typbyval op1" "useOr op" "sao_fn_addr op = ''int8eq''" "typlen op1 = 8"
    | (loop) "\<not> (arr_nullbitmap arr = None \<and> typbyval op1 \<and> useOr op \<and> sao_fn_addr op = ''int4eq'' \<and> typlen op1 = 4)"
        "\<not> (arr_nullbitmap arr = None \<and> typbyval op1 \<and> useOr op \<and> sao_fn_addr op = ''int8eq'' \<and> typlen op1 = 8)"
    by auto
  then show ?thesis
  proof cases
    case four
    have [simp]: "scalar_null = False" and al: "typalign op1 = CHR ''i''" "fn_strict op"
      using four assms(3,6) op1 by (auto simp: saop_wf_def)
    have call: "saop_call env op1 (v, False) (d, False) = Inr (BoolGetDatum (DatumGetInt32 v = DatumGetInt32 d), False)" for d
      using assms(2) four op1 by (simp add: saop_call_def documented_env_def)
    define xs where "xs = as_int32s (arr_data arr) ?n"
    have xs: "length xs = ?n"
      by (simp add: xs_def as_int32s_def)
    have "elem_results env op1 arr (v, scalar_null) = map (\<lambda>w. Inr (BoolGetDatum (DatumGetInt32 v = w), False)) xs"
      using fast_elems4 [OF assms(2) four(5,2) al(1), of "arr_data arr" 0 ?n] four(1)
      by (simp add: elem_results_def xs_def as_int32s_def call)
    then have "saop_fold True (elem_results env op1 arr (v, scalar_null)) False = Inr (BoolGetDatum (DatumGetInt32 v \<in> set xs), False)"
      by (simp only: saop_fold_eq) simp
    then show ?thesis
      using four assms(5) op1 xs array_eq_member(1) [of ?n xs 0 "[]" b "DatumGetInt32 v"]
      by (simp add: pg_jitter_scalararrayop_loop_def Let_def op1_def [symmetric] xs_def [symmetric] DatumGetInt64_def)
  next
    case eight
    have [simp]: "scalar_null = False" and al: "typalign op1 = CHR ''d''" "fn_strict op"
      using eight assms(3,6) op1 by (auto simp: saop_wf_def)
    have call: "saop_call env op1 (v, False) (d, False) = Inr (BoolGetDatum (v = d), False)" for d
      using assms(2) eight op1 by (simp add: saop_call_def documented_env_def)
    define xs where "xs = as_int64s (arr_data arr) ?n"
    have xs: "length xs = ?n"
      by (simp add: xs_def as_int64s_def)
    have "elem_results env op1 arr (v, scalar_null) = map (\<lambda>w. Inr (BoolGetDatum (v = w), False)) xs"
      using fast_elems8 [OF assms(2) eight(5,2) al(1), of "arr_data arr" 0 ?n] eight(1)
      by (simp add: elem_results_def xs_def as_int64s_def call)
    then have "saop_fold True (elem_results env op1 arr (v, scalar_null)) False = Inr (BoolGetDatum (v \<in> set xs), False)"
      by (simp only: saop_fold_eq) simp
    then show ?thesis
      using eight assms(5) op1 xs array_eq_member(2) [of 0 "[]" ?n xs b v]
      by (simp add: pg_jitter_scalararrayop_loop_def Let_def op1_def [symmetric] xs_def [symmetric] DatumGetInt64_def)
  next
    case loop
    have "saop_loop env op1 (arr_data arr) (v, scalar_null) ?n 0 (arr_nullbitmap arr) 1 False =
        saop_fold (useOr op) (elem_results env op1 arr (v, scalar_null)) False"
      using saop_loop_fold [where bitmap = "arr_nullbitmap arr" and i = 0 and n = ?n and env = env and op = op1
          and data = "arr_data arr" and ?a0.0 = "(v, scalar_null)" and s = 0 and rn = False] assms(4) op1
      by (cases "arr_nullbitmap arr") (simp_all add: elem_results_def bitmap_wf_def)
    moreover have "\<not> arr_nitems arr \<le> 0"
      using assms(5) by simp
    ultimately show ?thesis
      unfolding pg_jitter_scalararrayop_loop_def Let_def op1_def [symmetric] op1
      by (simp only: if_not_P [OF loop(1)] if_not_P [OF loop(2)] if_not_P [OF assms(6)] if_False)
        (cases "saop_fold (useOr op) (elem_results env op1 arr (v, scalar_null)) False"; auto)
  qed
qed

definition saop_truth :: "ScalarArrayOp \<Rightarrow> bool option" where
  "saop_truth op = truth (resvalue op, resnull op)"

section \<open>Properties\<close>

text \<open>
  C22 (functional): When no comparison raises an error, the helper for \<open>x op ANY (array)\<close> and
  \<open>x op ALL (array)\<close> returns the three-valued result of SQL on the results of the comparisons with
  the elements, null elements included, whether it walks the bitmap or takes the int4 or int8
  search; for a strict function and a null value the result over a non-empty array is null.\<close>

theorem saop_three_valued:
  fixes env arr op
  defines "op1 \<equiv> cache_elemtype env arr op"
  assumes "documented_env env" "saop_wf op1" "bitmap_wf arr"
    and "\<forall>r\<in>set (elem_results env op1 arr (v, scalar_null)). \<exists>x. r = Inr x"
  shows "\<exists>op'. pg_jitter_scalararrayop_loop b env op arr v scalar_null = Inr op' \<and>
    saop_truth op' = (if scalar_null \<and> fn_strict op \<and> 0 < arr_nitems arr then None
      else sql_quantified (useOr op) (map (truth \<circ> projr) (elem_results env op1 arr (v, scalar_null))))"
proof -
  consider "arr_nitems arr \<le> 0" | "0 < arr_nitems arr" "scalar_null \<and> fn_strict op"
    | "0 < arr_nitems arr" "\<not> (scalar_null \<and> fn_strict op)"
    by linarith
  then show ?thesis
  proof cases
    case 1
    then show ?thesis
      by (auto simp: pg_jitter_scalararrayop_loop_def saop_truth_def elem_results_def sql_quantified_def sql_any_def sql_all_def)
  next
    case 2
    then show ?thesis
      by (auto simp: pg_jitter_scalararrayop_loop_def saop_truth_def)
  next
    case 3
    then show ?thesis
      using saop_helper_fold [OF assms(2,3) [unfolded op1_def] assms(4) 3, of b v] saop_fold_value [OF assms(5), of "useOr op" False]
      by (cases "useOr op")
        (auto simp: op1_def saop_truth_def sql_quantified_def sql_any_def sql_all_def Let_def image_iff split: if_splits)
  qed
qed

text \<open>An array with a null in the middle, compared with a value that it does not hold: the result
  is null.\<close>

definition example_env :: PgArrayEnv where
  "example_env = \<lparr>
     fetch_att = (\<lambda>data s byval len. if len = 4 then Int32GetDatum (le_word (take 4 (drop s data))) else le_word (take 8 (drop s data))),
     att_addlength_pointer = (\<lambda>data s len. s + nat len),
     att_align_nominal = (\<lambda>s c. s),
     get_typlenbyvalalign = (\<lambda>oid. (4, True, CHR ''i'')),
     fcall = (\<lambda>f a b. if f = ''int4eq'' then Inr (BoolGetDatum (DatumGetInt32 (fst a) = DatumGetInt32 (fst b)), False)
       else if f = ''int8eq'' then Inr (BoolGetDatum (fst a = fst b), False) else Inl (Elog_error ''no function''))\<rparr>"

definition example_saop :: "PGFunction \<Rightarrow> ScalarArrayOp" where
  "example_saop f = \<lparr>element_type = 0, typlen = 0, typbyval = False, typalign = CHR ''c'', useOr = True, fn_strict = True,
     sao_fn_addr = f, resvalue = 0, resnull = False\<rparr>"

definition example_array :: ArrayType where
  "example_array = \<lparr>arr_elemtype = 23, arr_nitems = 3, arr_nullbitmap = Some [5], arr_data = [1, 0, 0, 0, 3, 0, 0, 0]\<rparr>"

lemmas example_defs = example_env_def example_saop_def example_array_def

lemma example_documented: "documented_env example_env"
  by (simp add: documented_env_def example_env_def)

lemma example_results:
  "elem_results example_env (cache_elemtype example_env example_array (example_saop ''int4eq'')) example_array (7, False) =
     [Inr (BoolGetDatum False, False), Inr (0, True), Inr (BoolGetDatum False, False)]"
  by code_simp

lemma example_error_results:
  "elem_results example_env (cache_elemtype example_env example_array (example_saop ''nofn'')) example_array (7, False) =
     [Inl (Elog_error ''no function''), Inr (0, True), Inl (Elog_error ''no function'')]"
  by code_simp

lemma example_wf:
  "saop_wf (cache_elemtype example_env example_array (example_saop f))" "bitmap_wf example_array"
  "useOr (example_saop f)" "fn_strict (example_saop f)" "arr_nitems example_array = 3"
  by (simp_all add: saop_wf_def bitmap_wf_def cache_elemtype_def example_defs)

theorem saop_three_valued_witness:
  "\<exists>op'. pg_jitter_scalararrayop_loop NEON example_env (example_saop ''int4eq'') example_array 7 False = Inr op' \<and>
     saop_truth op' = None"
  using saop_three_valued [OF example_documented example_wf(1,2), of "''int4eq''" 7 False NEON]
  by (simp add: example_results example_wf sql_quantified_def sql_any_def ex_bool_eq)

text \<open>
  C35 (error): The helper raises the error of the first comparison that fails, unless an earlier
  comparison already decides the result; then later elements are not looked at.\<close>

theorem saop_errors:
  fixes env arr op
  defines "op1 \<equiv> cache_elemtype env arr op"
  assumes "documented_env env" "saop_wf op1" "bitmap_wf arr" "0 < arr_nitems arr" "\<not> (scalar_null \<and> fn_strict op)"
    and "elem_results env op1 arr (v, scalar_null) = before @ r # after"
    and "\<forall>r\<in>set before. \<exists>x. r = Inr x \<and> truth x \<noteq> Some (useOr op)"
  shows "(\<forall>e. r = Inl e \<longrightarrow> pg_jitter_scalararrayop_loop b env op arr v scalar_null = Inl e) \<and>
    (\<forall>x. r = Inr x \<and> truth x = Some (useOr op) \<longrightarrow> pg_jitter_scalararrayop_loop b env op arr v scalar_null =
      Inr (op1\<lparr>resvalue := BoolGetDatum (useOr op), resnull := False\<rparr>))"
  using saop_helper_fold [OF assms(2,3) [unfolded op1_def] assms(4,5,6), of b v] saop_fold_prefix [OF assms(8)] assms(7)
  by (simp add: op1_def)

theorem saop_errors_witness:
  "pg_jitter_scalararrayop_loop SSE2 example_env (example_saop ''nofn'') example_array 7 False = Inl (Elog_error ''no function'')"
  using saop_errors [OF example_documented example_wf(1,2), of False "''nofn''" 7 "[]"]
  by (simp add: example_wf example_error_results)

text \<open>
  The branchless search in a sorted list and the vector searches in an array,
  with or without vector instructions, all decide whether the value is an element; the empty
  list included.\<close>

lemma array_searches_agree:
  assumes "sorted (map sint vals)"
  shows "sorted_array_probe_int4 val (sorted_array_build_int4 vals (length vals) has_nulls) = c_bool (val \<in> set vals) \<and>
    simd_int4_array_eq b val vals (length vals) = c_bool (val \<in> set vals) \<and>
    simd_int8_array_eq b val8 vals8 (length vals8) = c_bool (val8 \<in> set vals8)"
  using sorted_probe_member [OF assms] array_eq_member [of "length vals" vals "length vals8" vals8]
  by simp

lemma array_searches_agree_witness:
  "sorted_array_probe_int4 (- 3) (sorted_array_build_int4 [- 5, - 3, 7] (length [- 5, - 3, 7 :: int32]) False) = 1 \<and>
   simd_int4_array_eq NEON (- 3) [- 5, - 3, 7] (length [- 5, - 3, 7 :: int32]) = 1 \<and>
   simd_int8_array_eq NEON 4 [] (length ([] :: int64 list)) = 0"
  using array_searches_agree [of "[- 5, - 3, 7]" "- 3" False NEON 4 "[]"] by simp

text \<open>
  C36 (equivalence): On every build, the null bitmap check decides whether the first \<open>ncols\<close>
  attributes are all present, and the extraction of \<open>count\<close> int4 columns stores the datum of each
  column, sign extended, and leaves the rest of the array as it was.\<close>

theorem deform_helpers_agree:
  assumes "ncols \<le> 8 * length bits" "count \<le> length vals"
  shows "(simd_nullbitmap_all_notnull b bits ncols \<longleftrightarrow> (\<forall>k<ncols. bit (bits ! (k div 8)) (k mod 8))) \<and>
    simd_extract_int32_values b tupdata vals count =
      map (\<lambda>i. Int32GetDatum (le_word (take 4 (drop (4 * i) tupdata)))) [0..<count] @ drop count vals"
  using nullbitmap_iff [OF assms(1)] extract_correct [OF assms(2)] by (simp add: load_int32s_def comp_def)

theorem deform_helpers_agree_witness:
  "\<not> simd_nullbitmap_all_notnull NEON [0xFF, 5] 10 \<and>
   simd_extract_int32_values NEON [0xFE, 0xFF, 0xFF, 0xFF] [0, 9] 1 = [Int32GetDatum 0xFFFFFFFE, 9]"
proof -
  have "le_word [0xFE, 0xFF, 0xFF, 0xFF] = (0xFFFFFFFE :: int32)"
    by code_simp
  moreover have "\<not> (\<forall>k<10. bit ([0xFF, 5 :: uint8] ! (k div 8)) (k mod 8))"
    by code_simp
  ultimately show ?thesis
    using deform_helpers_agree [of 10 "[0xFF, 5]" 1 "[0, 9]" NEON "[0xFE, 0xFF, 0xFF, 0xFF]"] by (simp del: le_word.simps)
qed

end
