(* ===== verification/LikeRegex.thy ===== *)
theory LikeRegex
  imports LikeMatch
begin

text \<open>
  The translation of a LIKE pattern to a PCRE2 pattern (\<open>like_to_regex\<close> of
  \<open>pg_jitter_pcre2.c\<close>), against the meaning of LIKE over characters of one or more bytes. PCRE2
  itself is not part of the sources; \<open>re_search\<close> is its documented matching, restricted to the
  constructs that the translation emits: a literal, an escaped literal, a dot, a dot with a star,
  the anchors at the start and at the end of the subject.
\<close>

section \<open>The translation\<close>

definition MaxAllocSize :: nat where "MaxAllocSize = 0x3fffffff"

text \<open>\<open>sizeof(LikeToken)\<close>: a byte, and an enumeration aligned to four bytes.\<close>

definition sizeof_LikeToken :: nat where "sizeof_LikeToken = 8"

definition regex_special :: "uint8 list" where
  "regex_special = map (of_char :: char \<Rightarrow> uint8) ''.+*?[](){}^$|'' @ [ch_esc]"

fun tok_regex :: "ptok \<Rightarrow> uint8 list" where
  "tok_regex Pct = [of_char (CHR ''.''), of_char (CHR ''*'')]"
| "tok_regex Us = [of_char (CHR ''.'')]"
| "tok_regex (Lit c) = (if c \<in> set regex_special then [ch_esc, c] else [c])"

text \<open>The two loops that strip percent signs return the first token that is left and the one after
  the last.\<close>

function strip_lead :: "ptok list \<Rightarrow> nat \<Rightarrow> nat" where
  "strip_lead toks start = (if start < length toks \<and> toks ! start = Pct then strip_lead toks (start + 1) else start)"
  by pat_completeness auto
termination by (relation "measure (\<lambda>(toks, start). length toks - start)") auto

function strip_trail :: "ptok list \<Rightarrow> nat \<Rightarrow> nat \<Rightarrow> nat" where
  "strip_trail toks start stop = (if stop > start \<and> toks ! (stop - 1) = Pct then strip_trail toks start (stop - 1) else stop)"
  by pat_completeness auto
termination by (relation "measure (\<lambda>(toks, start, stop). stop)") auto

declare strip_lead.simps [simp del] strip_trail.simps [simp del]

definition toks_regex :: "ptok list \<Rightarrow> uint8 list" where
  "toks_regex toks =
     (let start = strip_lead toks 0; stop = strip_trail toks start (length toks)
      in (if start = 0 then [of_char (CHR ''^'')] else [])
         @ concat (map tok_regex (take (stop - start) (drop start toks)))
         @ (if stop = length toks then [ch_esc, of_char (CHR ''z'')] else []))"

text \<open>\<open>alloc_ok\<close> says whether an allocation of that many bytes succeeds.\<close>

definition like_to_regex :: "(nat \<Rightarrow> bool) \<Rightarrow> uint8 list \<Rightarrow> int \<Rightarrow> uint8 list option" where
  "like_to_regex alloc_ok like_pat like_len =
     (let n = nat like_len; max_len = n * 2 + 4; ntokens_alloc = (if n > 0 then n else 1)
      in if like_len < 0 then None
         else if n > (MaxAllocSize - 4) div 2 then None
         else if ntokens_alloc > MaxAllocSize div sizeof_LikeToken then None
         else if \<not> alloc_ok max_len then None
         else if \<not> alloc_ok (ntokens_alloc * sizeof_LikeToken) then None
         else map_option toks_regex (decode (take n like_pat)))"

section \<open>LIKE over characters\<close>

text \<open>\<open>clen s\<close> is the length of the first character of \<open>s\<close>, one or more bytes.\<close>

definition adv :: "(uint8 list \<Rightarrow> nat) \<Rightarrow> uint8 list \<Rightarrow> uint8 list" where
  "adv clen s = drop (max 1 (clen s)) s"

lemma length_adv: "s \<noteq> [] \<Longrightarrow> length (adv clen s) < length s"
  by (cases s) (auto simp: adv_def)

declare conj_cong [fundef_cong]

function like_chars :: "(uint8 list \<Rightarrow> nat) \<Rightarrow> ptok list \<Rightarrow> uint8 list \<Rightarrow> bool" where
  "like_chars clen [] s \<longleftrightarrow> s = []"
| "like_chars clen (Pct # p) s \<longleftrightarrow> like_chars clen p s \<or> (s \<noteq> [] \<and> like_chars clen (Pct # p) (adv clen s))"
| "like_chars clen (Us # p) s \<longleftrightarrow> s \<noteq> [] \<and> like_chars clen p (adv clen s)"
| "like_chars clen (Lit c # p) s \<longleftrightarrow> s \<noteq> [] \<and> hd s = c \<and> like_chars clen p (tl s)"
  by pat_completeness auto
termination
  by (relation "measure (\<lambda>(clen, p, s). length p + length s)") (auto simp: length_adv less_SucI)

declare like_chars.simps(2) [simp del]

text \<open>A search that starts again one character later tries all the characters.\<close>

lemma adv_Nil [simp]: "(adv clen ^^ n) [] = []"
  by (induction n) (auto simp: adv_def)

lemma search_iff:
  assumes "\<And>s. R s \<longleftrightarrow> P s \<or> (s \<noteq> [] \<and> R (adv clen s))"
  shows "R s \<longleftrightarrow> (\<exists>n. P ((adv clen ^^ n) s))"
proof (induction "length s" arbitrary: s rule: less_induct)
  case less
  show ?case
  proof (cases "s = []")
    case True
    then show ?thesis
      using assms [of "[]"] by auto
  next
    case False
    have "(\<exists>n. P ((adv clen ^^ n) s)) \<longleftrightarrow> P s \<or> (\<exists>n. P ((adv clen ^^ n) (adv clen s)))"
    proof
      assume "\<exists>n. P ((adv clen ^^ n) s)"
      then obtain n where "P ((adv clen ^^ n) s)" ..
      then show "P s \<or> (\<exists>n. P ((adv clen ^^ n) (adv clen s)))"
        by (cases n) (auto simp: funpow_swap1)
    next
      assume "P s \<or> (\<exists>n. P ((adv clen ^^ n) (adv clen s)))"
      then show "\<exists>n. P ((adv clen ^^ n) s)"
        by (auto intro: exI [of _ 0]) (metis funpow_swap1 funpow.simps(2) comp_apply)
    qed
    then show ?thesis
      using less [OF length_adv [OF False, of clen]] assms [of s] False by simp
  qed
qed

lemma like_chars_Pct: "like_chars clen (Pct # p) s \<longleftrightarrow> (\<exists>n. like_chars clen p ((adv clen ^^ n) s))"
  by (rule search_iff) (rule like_chars.simps(2))

text \<open>With characters of one byte this is LIKE on bytes.\<close>

lemma like_chars_bytes: "like_chars (\<lambda>_. 1) p s \<longleftrightarrow> like p s"
proof (induction p arbitrary: s)
  case Nil
  then show ?case by simp
next
  case (Cons t p)
  show ?case
  proof (cases t)
    case Pct
    show ?thesis
      unfolding Pct
    proof (induction s)
      case Nil
      then show ?case
        using Cons like_chars.simps(2) [of "\<lambda>_. 1" p "[]"] by simp
    next
      case (Cons x s)
      then show ?case
        using \<open>\<And>s. like_chars (\<lambda>_. 1) p s \<longleftrightarrow> like p s\<close> like_chars.simps(2) [of "\<lambda>_. 1" p "x # s"]
        by (simp add: adv_def)
    qed
  qed (use Cons in \<open>cases s; auto simp: adv_def\<close>)+
qed

section \<open>The constructs of PCRE2 that the translation emits\<close>

text \<open>With \<open>PCRE2_DOTALL\<close> a dot is any character. \<open>re_here\<close> matches at the start of the subject,
  \<open>re_search\<close> looks for a match at every character.\<close>

text \<open>Any other metacharacter and an escaped letter or digit begin constructs of which the
  translation makes no use; \<open>re_here\<close> gives them no match, so a pattern that lets one of them
  through where it means itself is not a correct translation.\<close>

definition pcre2_metachars :: "uint8 list" where
  "pcre2_metachars = map of_char (CHR 0x5C # ''^$.[|()?*+{'')"

definition ascii_alnum :: "uint8 \<Rightarrow> bool" where
  "ascii_alnum c \<longleftrightarrow> (48 \<le> c \<and> c \<le> 57) \<or> (65 \<le> c \<and> c \<le> 90) \<or> (97 \<le> c \<and> c \<le> 122)"

abbreviation "b_dot \<equiv> (46 :: uint8)"
abbreviation "b_star \<equiv> (42 :: uint8)"
abbreviation "b_caret \<equiv> (94 :: uint8)"
abbreviation "b_z \<equiv> (122 :: uint8)"

function (sequential) re_here :: "(uint8 list \<Rightarrow> nat) \<Rightarrow> uint8 list \<Rightarrow> uint8 list \<Rightarrow> bool" where
  "re_here clen [] s \<longleftrightarrow> True"
| "re_here clen (c # r) s \<longleftrightarrow>
     (if c = ch_esc \<and> r \<noteq> [] \<and> hd r = b_z then s = [] \<and> re_here clen (tl r) s
      else if c = ch_esc \<and> r \<noteq> [] then \<not> ascii_alnum (hd r) \<and> s \<noteq> [] \<and> hd s = hd r \<and> re_here clen (tl r) (tl s)
      else if c = b_dot \<and> r \<noteq> [] \<and> hd r = b_star
      then re_here clen (tl r) s \<or> (s \<noteq> [] \<and> re_here clen (c # r) (adv clen s))
      else if c = b_dot then s \<noteq> [] \<and> re_here clen r (adv clen s)
      else c \<notin> set pcre2_metachars \<and> s \<noteq> [] \<and> hd s = c \<and> re_here clen r (tl s))"
  by pat_completeness auto
termination
  by (relation "measure (\<lambda>(clen, p, s). length p + length s)") (auto simp: length_adv less_SucI)

function re_anywhere :: "(uint8 list \<Rightarrow> nat) \<Rightarrow> uint8 list \<Rightarrow> uint8 list \<Rightarrow> bool" where
  "re_anywhere clen r s \<longleftrightarrow> re_here clen r s \<or> (s \<noteq> [] \<and> re_anywhere clen r (adv clen s))"
  by pat_completeness auto
termination by (relation "measure (\<lambda>(clen, p, s). length s)") (auto simp: length_adv)

declare re_anywhere.simps [simp del] re_here.simps(2) [simp del]

lemma re_anywhere_iff: "re_anywhere clen r s \<longleftrightarrow> (\<exists>n. re_here clen r ((adv clen ^^ n) s))"
  by (rule search_iff) (rule re_anywhere.simps)

lemma re_here_star:
  "re_here clen (b_dot # b_star # r) s \<longleftrightarrow> (\<exists>n. re_here clen r ((adv clen ^^ n) s))"
  by (rule search_iff, subst re_here.simps(2)) (simp add: ch_esc_def)

definition re_search :: "(uint8 list \<Rightarrow> nat) \<Rightarrow> uint8 list \<Rightarrow> uint8 list \<Rightarrow> bool" where
  "re_search clen r s = (if r \<noteq> [] \<and> hd r = b_caret then re_here clen (tl r) s else re_anywhere clen r s)"


section \<open>Stripping percent signs\<close>

lemma strip_lead_spec:
  "start \<le> length toks \<Longrightarrow> start \<le> strip_lead toks start \<and> strip_lead toks start \<le> length toks \<and>
    (\<forall>i. start \<le> i \<and> i < strip_lead toks start \<longrightarrow> toks ! i = Pct) \<and>
    (strip_lead toks start < length toks \<longrightarrow> toks ! strip_lead toks start \<noteq> Pct)"
proof (induction toks start rule: strip_lead.induct)
  case (1 toks start)
  show ?case
  proof (cases "start < length toks \<and> toks ! start = Pct")
    case True
    then have eq: "strip_lead toks start = strip_lead toks (start + 1)"
      by (subst strip_lead.simps) simp
    show ?thesis
      using 1 True unfolding eq by (metis Suc_eq_plus1 Suc_leI le_eq_less_or_eq less_le_not_le Suc_leD)
  next
    case False
    then show ?thesis
      using 1(2) by (subst (1 2 3 4 5) strip_lead.simps) auto
  qed
qed

lemma strip_trail_spec:
  "start \<le> stop \<Longrightarrow> start \<le> strip_trail toks start stop \<and> strip_trail toks start stop \<le> stop \<and>
    (\<forall>i. strip_trail toks start stop \<le> i \<and> i < stop \<longrightarrow> toks ! i = Pct)"
proof (induction toks start stop rule: strip_trail.induct)
  case (1 toks start stop)
  show ?case
  proof (cases "stop > start \<and> toks ! (stop - 1) = Pct")
    case True
    then have eq: "strip_trail toks start stop = strip_trail toks start (stop - 1)"
      by (subst strip_trail.simps) simp
    have IH: "start \<le> strip_trail toks start (stop - 1)" "strip_trail toks start (stop - 1) \<le> stop - 1"
      "\<forall>i. strip_trail toks start (stop - 1) \<le> i \<and> i < stop - 1 \<longrightarrow> toks ! i = Pct"
      using 1 True by auto
    have "toks ! i = Pct" if "strip_trail toks start (stop - 1) \<le> i" "i < stop" for i
      using IH(3) that True by (cases "i = stop - 1") auto
    then show ?thesis
      using IH unfolding eq by auto
  next
    case False
    then have "strip_trail toks start stop = stop"
      by (subst strip_trail.simps) auto
    then show ?thesis
      using 1(2) by auto
  qed
qed

text \<open>The tokens are the leading percent signs, the part between, and the trailing ones.\<close>

lemma split_toks:
  fixes toks
  defines "start \<equiv> strip_lead toks 0"
  defines "stop \<equiv> strip_trail toks start (length toks)"
  shows "toks = replicate start Pct @ take (stop - start) (drop start toks) @ replicate (length toks - stop) Pct"
    and "start \<le> stop" "stop \<le> length toks"
proof -
  have lead: "start \<le> length toks" "\<And>i. i < start \<Longrightarrow> toks ! i = Pct"
    using strip_lead_spec [of 0 toks] by (auto simp: start_def)
  have trail: "start \<le> stop" "stop \<le> length toks" "\<And>i. stop \<le> i \<Longrightarrow> i < length toks \<Longrightarrow> toks ! i = Pct"
    using strip_trail_spec [OF lead(1), of toks] by (auto simp: stop_def)
  show "start \<le> stop" "stop \<le> length toks"
    using trail by auto
  show "toks = replicate start Pct @ take (stop - start) (drop start toks) @ replicate (length toks - stop) Pct"
    using lead trail by (intro nth_equalityI) (auto simp: nth_append)
qed

lemma like_chars_cong:
  assumes "\<And>s. like_chars clen q s = like_chars clen q' s"
  shows "like_chars clen (p @ q) s = like_chars clen (p @ q') s"
  using assms
proof (induction p arbitrary: s)
  case (Cons t p)
  then show ?case
    by (cases t) (simp_all add: like_chars_Pct)
qed simp

lemma like_chars_Pcts:
  "like_chars clen (replicate n Pct @ p) s = like_chars clen (if n = 0 then p else Pct # p) s"
proof (induction n arbitrary: s)
  case (Suc n)
  have "(\<exists>k m. like_chars clen p ((adv clen ^^ m) ((adv clen ^^ k) s))) = (\<exists>k. like_chars clen p ((adv clen ^^ k) s))"
    by (metis comp_apply funpow_add funpow_0)
  then show ?case
    using Suc by (cases n) (simp_all add: like_chars_Pct)
qed simp

section \<open>The translation is correct\<close>

lemma special_escaped:
  "c \<notin> set regex_special \<Longrightarrow> c \<noteq> ch_esc \<and> c \<noteq> b_dot \<and> c \<noteq> b_caret \<and> c \<notin> set pcre2_metachars"
  by (auto simp: regex_special_def pcre2_metachars_def ch_esc_def)

lemma special_not_alnum: "c \<in> set regex_special \<Longrightarrow> \<not> ascii_alnum c"
  by (auto simp: regex_special_def ch_esc_def ascii_alnum_def)

lemma special_not_z: "c \<in> set regex_special \<Longrightarrow> c \<noteq> b_z"
  by (auto simp: regex_special_def ch_esc_def)

definition ends_with :: "bool \<Rightarrow> uint8 list" where
  "ends_with anchored = (if anchored then [ch_esc, of_char (CHR ''z'')] else [])"

lemma not_star:
  "concat (map tok_regex toks) @ ends_with anchored \<noteq> [] \<Longrightarrow>
    hd (concat (map tok_regex toks) @ ends_with anchored) \<noteq> b_star \<and>
    hd (concat (map tok_regex toks) @ ends_with anchored) \<noteq> b_caret"
proof (cases toks)
  case Nil
  then show "concat (map tok_regex toks) @ ends_with anchored \<noteq> [] \<Longrightarrow> ?thesis"
    by (auto simp: ends_with_def ch_esc_def)
next
  case (Cons t ts)
  then show "concat (map tok_regex toks) @ ends_with anchored \<noteq> [] \<Longrightarrow> ?thesis"
    by (cases t) (auto simp: ch_esc_def regex_special_def)
qed

lemma re_here_toks:
  "re_here clen (concat (map tok_regex toks) @ ends_with anchored) s =
    like_chars clen (toks @ (if anchored then [] else [Pct])) s"
proof (induction toks arbitrary: s)
  case Nil
  have "\<exists>n. (adv clen ^^ n) s = []" for s
    using search_iff [of "\<lambda>_. True" "\<lambda>s. s = []" clen s] by auto
  then show ?case
    by (auto simp: ends_with_def re_here.simps(2) like_chars_Pct)
next
  case (Cons t toks)
  define r where "r = concat (map tok_regex toks) @ ends_with anchored"
  have r: "r \<noteq> [] \<Longrightarrow> hd r \<noteq> b_star"
    using not_star [of toks anchored] by (simp add: r_def)
  have IH: "re_here clen r s = like_chars clen (toks @ (if anchored then [] else [Pct])) s" for s
    using Cons by (simp add: r_def)
  show ?case
  proof (cases t)
    case Pct
    then show ?thesis
      using re_here_star [of clen r s] by (simp add: r_def [symmetric] IH like_chars_Pct)
  next
    case Us
    have "re_here clen (b_dot # r) s \<longleftrightarrow> s \<noteq> [] \<and> re_here clen r (adv clen s)"
      using r by (subst re_here.simps(2)) (auto simp: ch_esc_def)
    then show ?thesis
      using Us by (simp add: r_def [symmetric] IH)
  next
    case (Lit c)
    have "re_here clen (tok_regex (Lit c) @ r) s \<longleftrightarrow> s \<noteq> [] \<and> hd s = c \<and> re_here clen r (tl s)"
    proof (cases "c \<in> set regex_special")
      case True
      then show ?thesis
        using special_not_z [OF True] special_not_alnum [OF True] by (simp add: re_here.simps(2))
    next
      case False
      then show ?thesis
        using special_escaped [OF False] by (simp add: re_here.simps(2))
    qed
    then show ?thesis
      using Lit by (simp add: r_def [symmetric] IH del: tok_regex.simps)
  qed
qed

lemma toks_regex_search: "re_search clen (toks_regex toks) s = like_chars clen toks s"
proof -
  define start stop where "start = strip_lead toks 0" and "stop = strip_trail toks start (length toks)"
  define core where "core = take (stop - start) (drop start toks)"
  define anchored where "anchored \<longleftrightarrow> stop = length toks"
  note split = split_toks [of toks, folded start_def, folded stop_def, folded core_def]
  define body where "body = concat (map tok_regex core) @ ends_with anchored"
  have regex: "toks_regex toks = (if start = 0 then [b_caret] else []) @ body"
    by (simp add: toks_regex_def body_def ends_with_def anchored_def core_def start_def stop_def Let_def)
  have trail: "like_chars clen (core @ replicate (length toks - stop) Pct) s =
      like_chars clen (core @ (if anchored then [] else [Pct])) s" for s
    using like_chars_cong [of clen "replicate (length toks - stop) Pct" "if anchored then [] else [Pct]"]
      like_chars_Pcts [of clen "length toks - stop" "[]"] split(3) by (auto simp: anchored_def)
  have "like_chars clen toks s = like_chars clen (replicate start Pct @ core @ replicate (length toks - stop) Pct) s"
    using split(1) by simp
  also have "\<dots> = (if start = 0 then re_here clen body s else \<exists>n. re_here clen body ((adv clen ^^ n) s))"
    by (simp add: like_chars_Pcts like_chars_Pct trail re_here_toks body_def)
  also have "\<dots> = re_search clen (toks_regex toks) s"
    using not_star [of core anchored]
    by (auto simp: regex re_search_def re_anywhere_iff body_def [symmetric])
  finally show ?thesis ..
qed

lemma length_tok_regex: "length (tok_regex t) \<le> 2"
  by (cases t) auto

lemma length_toks_regex: "length (toks_regex toks) \<le> 2 * length toks + 3"
proof -
  have "length (concat (map tok_regex ts)) \<le> 2 * length ts" for ts
    by (induction ts) (auto intro: add_mono [OF length_tok_regex, simplified] simp: length_tok_regex add_mono)
  from this [of "take (strip_trail toks (strip_lead toks 0) (length toks) - strip_lead toks 0) (drop (strip_lead toks 0) toks)"]
  show ?thesis
    by (auto simp: toks_regex_def Let_def)
qed

lemma length_decode: "decode p = Some toks \<Longrightarrow> length toks \<le> length p"
  by (induction p arbitrary: toks rule: decode.induct) (fastforce split: if_splits list.splits)+

text \<open>
  C20 (equivalence): PCRE2 finds the translated pattern in a text exactly when LIKE matches the
  text, for every way of dividing the text into characters; the translation fits the buffer that
  was allocated for it, with its terminating zero.\<close>

theorem like_to_regex_correct:
  assumes "like_to_regex alloc_ok pat len = Some regex"
  shows "\<exists>toks. decode (take (nat len) pat) = Some toks \<and> (\<forall>clen s. re_search clen regex s \<longleftrightarrow> like_chars clen toks s) \<and>
    (\<forall>s. re_search (\<lambda>_. 1) regex s \<longleftrightarrow> like toks s) \<and> length regex < 2 * nat len + 4"
proof -
  obtain toks where toks: "decode (take (nat len) pat) = Some toks" "regex = toks_regex toks"
    using assms by (auto simp: like_to_regex_def Let_def split: if_splits)
  have "length toks \<le> nat len"
    using length_decode [OF toks(1)] by simp
  then have "length regex < 2 * nat len + 4"
    using length_toks_regex [of toks] toks(2) by simp
  then show ?thesis
    using toks toks_regex_search like_chars_bytes by auto
qed

theorem like_to_regex_correct_witness:
  "\<exists>toks. decode [37, 97, 46, 95] = Some toks \<and> (\<forall>s. re_search (\<lambda>_. 1) [97, 92, 46, 46, 92, 122] s \<longleftrightarrow> like toks s)"
proof -
  have "map_option toks_regex (decode [37, 97, 46, 95]) = Some [97, 92, 46, 46, 92, 122]"
    by code_simp
  then have "like_to_regex (\<lambda>_. True) [37, 97, 46, 95] 4 = Some [97, 92, 46, 46, 92, 122]"
    unfolding like_to_regex_def Let_def by (simp add: MaxAllocSize_def sizeof_LikeToken_def del: decode.simps)
  from like_to_regex_correct [OF this] show ?thesis
    by (auto simp del: decode.simps)
qed

end
