(* ===== verification/RawRegex.thy ===== *)
theory RawRegex
  imports LikeRegex "HOL-Library.Monad_Syntax"
begin

unbundle bit_operations_syntax

text \<open>
  The translation of a PostgreSQL regular expression to PCRE2 (\<open>raw_regex_to_pcre2\<close> of
  \<open>pg_jitter_pcre2.c\<close> with its parsers of bounds, escapes, groups and classes). \<open>None\<close> is the
  fallback to PostgreSQL. The output buffer is the list of the bytes written so far; every append
  checks the capacity as the code does.
\<close>

definition PCRE2_MAX_PATTERN_BYTES :: nat where "PCRE2_MAX_PATTERN_BYTES = 65536"

abbreviation chr8 :: "char \<Rightarrow> uint8" where "chr8 c \<equiv> of_char c"
abbreviation str8 :: "string \<Rightarrow> uint8 list" where "str8 s \<equiv> map of_char s"

definition among :: "uint8 \<Rightarrow> string \<Rightarrow> bool" where
  "among c s \<longleftrightarrow> c \<in> set (str8 s)"

section \<open>The output buffer\<close>

definition pcre2_regex_append :: "nat \<Rightarrow> uint8 list \<Rightarrow> uint8 list \<Rightarrow> uint8 list option" where
  "pcre2_regex_append cap buf s =
     (if length buf > cap \<or> length s > cap - length buf then None else Some (buf @ s))"

definition pcre2_regex_append_byte :: "nat \<Rightarrow> uint8 list \<Rightarrow> uint8 \<Rightarrow> uint8 list option" where
  "pcre2_regex_append_byte cap buf c = (if length buf \<ge> cap then None else Some (buf @ [c]))"

definition raw_regex_ascii_is_alnum :: "uint8 \<Rightarrow> bool" where
  "raw_regex_ascii_is_alnum c \<longleftrightarrow> (chr8 CHR ''A'' \<le> c \<and> c \<le> chr8 CHR ''Z'') \<or>
     (chr8 CHR ''a'' \<le> c \<and> c \<le> chr8 CHR ''z'') \<or> (chr8 CHR ''0'' \<le> c \<and> c \<le> chr8 CHR ''9'')"

definition raw_regex_ascii_is_digit :: "uint8 \<Rightarrow> bool" where
  "raw_regex_ascii_is_digit c \<longleftrightarrow> chr8 CHR ''0'' \<le> c \<and> c \<le> chr8 CHR ''9''"

definition digit_value :: "uint8 \<Rightarrow> nat" where
  "digit_value c = unat c - unat (chr8 CHR ''0'')"

section \<open>Bounds and quantifiers\<close>

function parse_bound_loop :: "uint8 list \<Rightarrow> nat \<Rightarrow> nat \<Rightarrow> (nat \<times> nat) option" where
  "parse_bound_loop p idx n =
     (let n' = n * 10 + digit_value (p ! idx)
      in if n' > 255 then None
         else if idx + 1 < length p \<and> raw_regex_ascii_is_digit (p ! (idx + 1)) then parse_bound_loop p (idx + 1) n'
         else Some (n', idx + 1))"
  by pat_completeness auto
termination by (relation "measure (\<lambda>(p, idx, n). length p - idx)") auto

declare parse_bound_loop.simps [simp del]

text \<open>The value and the index after it.\<close>

definition raw_regex_parse_bound_number :: "uint8 list \<Rightarrow> nat \<Rightarrow> (nat \<times> nat) option" where
  "raw_regex_parse_bound_number p idx =
     (if idx \<ge> length p \<or> \<not> raw_regex_ascii_is_digit (p ! idx) then None else parse_bound_loop p idx 0)"

definition raw_regex_bound_is_supported :: "uint8 list \<Rightarrow> nat \<Rightarrow> bool" where
  "raw_regex_bound_is_supported p pos =
     (let idx = pos + 1;
          at_close = (\<lambda>idx. idx < length p \<and> p ! idx = chr8 CHR ''}'')
      in if idx \<ge> length p \<or> \<not> raw_regex_ascii_is_digit (p ! idx) then True
         else case raw_regex_parse_bound_number p idx of
             None \<Rightarrow> False
           | Some (lower, idx) \<Rightarrow>
               if idx < length p \<and> p ! idx = chr8 CHR '',''
               then (let idx = idx + 1
                     in if idx < length p \<and> raw_regex_ascii_is_digit (p ! idx)
                        then (case raw_regex_parse_bound_number p idx of
                            None \<Rightarrow> False
                          | Some (upper, idx) \<Rightarrow> if lower > upper then False else at_close idx)
                        else at_close idx)
               else at_close idx)"

definition raw_regex_starts_quantifier :: "uint8 list \<Rightarrow> nat \<Rightarrow> bool" where
  "raw_regex_starts_quantifier p pos =
     (if pos \<ge> length p then False
      else if among (p ! pos) ''*+?'' then True
      else p ! pos = chr8 CHR ''{'' \<and> pos + 1 < length p \<and> raw_regex_ascii_is_digit (p ! (pos + 1)))"

section \<open>Escapes\<close>

definition raw_regex_hex_value :: "uint8 \<Rightarrow> uint32 option" where
  "raw_regex_hex_value c =
     (if chr8 CHR ''0'' \<le> c \<and> c \<le> chr8 CHR ''9'' then Some (ucast (c - chr8 CHR ''0''))
      else if chr8 CHR ''a'' \<le> c \<and> c \<le> chr8 CHR ''f'' then Some (ucast (c - chr8 CHR ''a'') + 10)
      else if chr8 CHR ''A'' \<le> c \<and> c \<le> chr8 CHR ''F'' then Some (ucast (c - chr8 CHR ''A'') + 10)
      else None)"

text \<open>The conversion \<open>%X\<close> of \<open>snprintf\<close>.\<close>

fun hexX :: "nat \<Rightarrow> uint8 list" where
  "hexX n = (let d = str8 ''0123456789ABCDEF'' ! (n mod 16) in if n < 16 then [d] else hexX (n div 16) @ [d])"

declare hexX.simps [simp del]

definition raw_regex_append_codepoint :: "nat \<Rightarrow> uint8 list \<Rightarrow> uint32 \<Rightarrow> uint8 list option" where
  "raw_regex_append_codepoint cap buf codepoint =
     (if codepoint > 0x10FFFF then None
      else let tmp = str8 [CHR 0x5C, CHR ''x'', CHR ''{''] @ hexX (unat codepoint) @ str8 ''}''
           in if length tmp \<ge> 16 then None else pcre2_regex_append cap buf tmp)"

fun fixed_hex_loop :: "uint8 list \<Rightarrow> nat \<Rightarrow> nat \<Rightarrow> uint32 \<Rightarrow> uint32 option" where
  "fixed_hex_loop p k 0 val = Some val"
| "fixed_hex_loop p k (Suc n) val =
     (case raw_regex_hex_value (p ! k) of None \<Rightarrow> None
      | Some hex \<Rightarrow> fixed_hex_loop p (k + 1) n (push_bit 4 val OR hex))"

definition raw_regex_parse_fixed_hex_escape :: "uint8 list \<Rightarrow> nat \<Rightarrow> nat \<Rightarrow> (uint32 \<times> nat) option" where
  "raw_regex_parse_fixed_hex_escape p idx digits =
     (if idx + digits \<ge> length p then None
      else case fixed_hex_loop p (idx + 1) digits 0 of None \<Rightarrow> None
        | Some val \<Rightarrow> if val > 0x10FFFF then None else Some (val, idx + digits))"

function variable_hex_loop :: "uint8 list \<Rightarrow> nat \<Rightarrow> nat \<Rightarrow> uint32 \<Rightarrow> (uint32 \<times> nat \<times> nat) option" where
  "variable_hex_loop p pos digits val =
     (if pos < length p \<and> digits < 255
      then (case raw_regex_hex_value (p ! pos) of
          None \<Rightarrow> Some (val, pos, digits)
        | Some hex \<Rightarrow> if val > (0x10FFFF - hex) div 16 then None
            else variable_hex_loop p (pos + 1) (digits + 1) (val * 16 + hex))
      else Some (val, pos, digits))"
  by pat_completeness auto
termination by (relation "measure (\<lambda>(p, pos, digits, val). length p - pos)") auto

declare variable_hex_loop.simps [simp del]

definition raw_regex_parse_variable_hex_escape :: "uint8 list \<Rightarrow> nat \<Rightarrow> (uint32 \<times> nat) option" where
  "raw_regex_parse_variable_hex_escape p idx =
     (case variable_hex_loop p (idx + 1) 0 0 of None \<Rightarrow> None
      | Some (val, pos, digits) \<Rightarrow> if digits = 0 \<or> val > 0x10FFFF then None else Some (val, pos - 1))"

function octal_loop :: "uint8 list \<Rightarrow> nat \<Rightarrow> nat \<Rightarrow> uint32 \<Rightarrow> uint32 \<times> nat \<times> nat" where
  "octal_loop p pos digits val =
     (if pos < length p \<and> digits < 3 \<and> chr8 CHR ''0'' \<le> p ! pos \<and> p ! pos \<le> chr8 CHR ''7''
      then octal_loop p (pos + 1) (digits + 1) (push_bit 3 val + ucast (p ! pos - chr8 CHR ''0''))
      else (val, pos, digits))"
  by pat_completeness auto
termination by (relation "measure (\<lambda>(p, pos, digits, val). length p - pos)") auto

declare octal_loop.simps [simp del]

definition raw_regex_parse_octal_escape :: "uint8 list \<Rightarrow> nat \<Rightarrow> (uint32 \<times> nat) option" where
  "raw_regex_parse_octal_escape p idx =
     (case octal_loop p idx 0 0 of (val, pos, digits) \<Rightarrow>
        if digits = 0 then None
        else (let (val, pos, digits) = (if val > 0xFF \<and> digits = 3 then (drop_bit 3 val, pos - 1, digits - 1) else (val, pos, digits))
              in if val > 0xFF \<or> digits = 0 then None else Some (val, pos - 1)))"

text \<open>The result is the buffer and the index of the last byte of the escape.\<close>

definition raw_regex_append_plain_escape ::
  "nat \<Rightarrow> uint8 list \<Rightarrow> uint8 list \<Rightarrow> nat \<Rightarrow> uint8 \<Rightarrow> (uint8 list \<times> nat) option" where
  "raw_regex_append_plain_escape cap buf p idx escape =
     (let at = (\<lambda>idx codepoint. map_option (\<lambda>b. (b, idx)) (raw_regex_append_codepoint cap buf codepoint));
          parsed = (\<lambda>r. case r of None \<Rightarrow> None | Some (codepoint, idx') \<Rightarrow> at idx' codepoint)
      in if escape = chr8 CHR ''a'' then at idx 7
         else if escape = chr8 CHR ''b'' then at idx 8
         else if escape = chr8 CHR ''B'' then at idx 92
         else if escape = chr8 CHR ''c'' then
           (if idx + 1 \<ge> length p then None else at (idx + 1) (ucast (p ! (idx + 1)) AND 31))
         else if escape = chr8 CHR ''e'' then at idx 27
         else if escape = chr8 CHR ''f'' then at idx 12
         else if escape = chr8 CHR ''n'' then at idx 10
         else if escape = chr8 CHR ''r'' then at idx 13
         else if escape = chr8 CHR ''t'' then at idx 9
         else if escape = chr8 CHR ''u'' then parsed (raw_regex_parse_fixed_hex_escape p idx 4)
         else if escape = chr8 CHR ''U'' then parsed (raw_regex_parse_fixed_hex_escape p idx 8)
         else if escape = chr8 CHR ''v'' then at idx 11
         else if escape = chr8 CHR ''x'' then parsed (raw_regex_parse_variable_hex_escape p idx)
         else if escape = chr8 CHR ''0'' then parsed (raw_regex_parse_octal_escape p idx)
         else None)"

section \<open>Groups and classes\<close>

definition raw_regex_supported_group_intro :: "uint8 list \<Rightarrow> nat \<Rightarrow> (nat \<times> bool) option" where
  "raw_regex_supported_group_intro p pos =
     (if pos + 2 \<ge> length p \<or> p ! pos \<noteq> chr8 CHR ''('' \<or> p ! (pos + 1) \<noteq> chr8 CHR ''?'' then None
      else if p ! (pos + 2) = chr8 CHR '':'' then Some (3, False)
      else if among (p ! (pos + 2)) ''=!'' then Some (3, True)
      else if p ! (pos + 2) = chr8 CHR ''<''
      then (if pos + 3 < length p \<and> among (p ! (pos + 3)) ''=!'' then Some (4, True) else None)
      else None)"

definition raw_regex_class_start_is_unsupported :: "uint8 list \<Rightarrow> nat \<Rightarrow> bool" where
  "raw_regex_class_start_is_unsupported p pos =
     (if pos + 2 \<ge> length p \<or> p ! (pos + 1) \<noteq> chr8 CHR ''['' then False
      else if among (p ! (pos + 2)) ''.='' then True
      else pos + 4 < length p \<and> p ! (pos + 2) = chr8 CHR '':'' \<and> among (p ! (pos + 3)) ''<>'' \<and> p ! (pos + 4) = chr8 CHR '':'')"

definition raw_regex_word_constraint :: "uint8 list \<Rightarrow> nat \<Rightarrow> uint8 option" where
  "raw_regex_word_constraint p pos =
     (if pos + 6 \<ge> length p then None
      else if p ! pos \<noteq> chr8 CHR ''['' \<or> p ! (pos + 1) \<noteq> chr8 CHR ''['' \<or> p ! (pos + 2) \<noteq> chr8 CHR '':''
        \<or> \<not> among (p ! (pos + 3)) ''<>'' \<or> p ! (pos + 4) \<noteq> chr8 CHR '':''
        \<or> p ! (pos + 5) \<noteq> chr8 CHR '']'' \<or> p ! (pos + 6) \<noteq> chr8 CHR '']'' then None
      else Some (p ! (pos + 3)))"

section \<open>The translation loop\<close>

text \<open>The locals of the loop. \<open>groups\<close> is \<open>group_lookaround\<close> up to \<open>group_depth\<close>, the innermost group
  first.\<close>

record raw_state =
  r_buf :: "uint8 list"
  r_in_class :: bool
  r_class_first :: bool
  r_class_after_leading_caret :: bool
  r_last_atom_was_constraint :: bool
  r_groups :: "bool list"
  r_lookaround_depth :: nat

definition lookbehind_start :: "uint8 list" where
  "lookbehind_start = str8 ''(?<![[:alnum:]_])(?=[[:alnum:]_])''"

definition lookbehind_end :: "uint8 list" where
  "lookbehind_end = str8 ''(?<=[[:alnum:]_])(?![[:alnum:]_])''"

text \<open>One byte inside a bracket expression: the new state and the index of the last byte read.\<close>

definition raw_class_escape :: "nat \<Rightarrow> uint8 list \<Rightarrow> nat \<Rightarrow> uint8 list \<Rightarrow> (uint8 list \<times> nat) option" where
  "raw_class_escape cap p i buf =
     (if i + 1 \<ge> length p then None
      else let e = p ! (i + 1)
           in if among e ''dDsSwW'' then
                do { buf \<leftarrow> pcre2_regex_append_byte cap buf ch_esc;
                     buf \<leftarrow> pcre2_regex_append_byte cap buf e;
                     Some (buf, i + 1) }
              else if among e ''abBcefnrtuUvx0'' then raw_regex_append_plain_escape cap buf p (i + 1) e
              else if raw_regex_ascii_is_alnum e then None
              else do { buf \<leftarrow> raw_regex_append_codepoint cap buf (ucast e); Some (buf, i + 1) })"

definition raw_class_step :: "nat \<Rightarrow> uint8 list \<Rightarrow> nat \<Rightarrow> raw_state \<Rightarrow> (raw_state \<times> nat) option" where
  "raw_class_step cap p i st =
     (let c = p ! i
      in if c = ch_esc
         then do { (buf, i') \<leftarrow> raw_class_escape cap p i (r_buf st);
                   Some (st\<lparr>r_buf := buf, r_class_first := False\<rparr>, i') }
         else if c = chr8 CHR ''['' \<and> raw_regex_class_start_is_unsupported p i then None
         else if c = chr8 CHR '']'' \<and> \<not> r_class_first st
         then do { buf \<leftarrow> pcre2_regex_append_byte cap (r_buf st) c;
                   Some (st\<lparr>r_buf := buf, r_in_class := False, r_class_first := False,
                     r_class_after_leading_caret := False, r_last_atom_was_constraint := False\<rparr>, i) }
         else do { buf \<leftarrow> pcre2_regex_append_byte cap (r_buf st) c;
                   Some (if r_class_first st
                         then (if c = chr8 CHR ''^'' \<and> \<not> r_class_after_leading_caret st
                               then st\<lparr>r_buf := buf, r_class_after_leading_caret := True\<rparr>
                               else st\<lparr>r_buf := buf, r_class_first := False\<rparr>)
                         else st\<lparr>r_buf := buf\<rparr>, i) })"

text \<open>An opening bracket, an escape and a parenthesis outside a bracket expression.\<close>

definition raw_bracket_step :: "nat \<Rightarrow> uint8 list \<Rightarrow> nat \<Rightarrow> raw_state \<Rightarrow> (raw_state \<times> nat) option" where
  "raw_bracket_step cap p i st =
     (case raw_regex_word_constraint p i of
        Some kind \<Rightarrow>
          do { buf \<leftarrow> pcre2_regex_append cap (r_buf st) (if kind = chr8 CHR ''<'' then lookbehind_start else lookbehind_end);
               Some (st\<lparr>r_buf := buf, r_last_atom_was_constraint := True\<rparr>, i + 6) }
      | None \<Rightarrow>
          if raw_regex_class_start_is_unsupported p i then None
          else do { buf \<leftarrow> pcre2_regex_append_byte cap (r_buf st) (p ! i);
                    Some (st\<lparr>r_buf := buf, r_in_class := True, r_class_first := True,
                      r_class_after_leading_caret := False, r_last_atom_was_constraint := False\<rparr>, i) })"

definition constraint_escape :: "uint8 \<Rightarrow> uint8 list option" where
  "constraint_escape e =
     (if e = chr8 CHR ''A'' then Some [ch_esc, chr8 CHR ''A'']
      else if e = chr8 CHR ''Z'' then Some [ch_esc, chr8 CHR ''z'']
      else if e = chr8 CHR ''y'' then Some [ch_esc, chr8 CHR ''b'']
      else if e = chr8 CHR ''Y'' then Some [ch_esc, chr8 CHR ''B'']
      else if e = chr8 CHR ''m'' then Some lookbehind_start
      else if e = chr8 CHR ''M'' then Some lookbehind_end
      else None)"

definition raw_escape_step :: "nat \<Rightarrow> uint8 list \<Rightarrow> nat \<Rightarrow> raw_state \<Rightarrow> (raw_state \<times> nat) option" where
  "raw_escape_step cap p i st =
     (if i + 1 \<ge> length p then None
      else
        let e = p ! (i + 1);
            copy = do { buf \<leftarrow> pcre2_regex_append_byte cap (r_buf st) ch_esc;
                        buf \<leftarrow> pcre2_regex_append_byte cap buf e;
                        Some (st\<lparr>r_buf := buf, r_last_atom_was_constraint := False\<rparr>, i + 1) }
        in case constraint_escape e of
             Some s \<Rightarrow> do { buf \<leftarrow> pcre2_regex_append cap (r_buf st) s;
                            Some (st\<lparr>r_buf := buf, r_last_atom_was_constraint := True\<rparr>, i + 1) }
           | None \<Rightarrow>
               if among e ''abBcefuUvx0''
               then do { (buf, i') \<leftarrow> raw_regex_append_plain_escape cap (r_buf st) p (i + 1) e;
                         Some (st\<lparr>r_buf := buf, r_last_atom_was_constraint := False\<rparr>, i') }
               else if among e ''dDsSwWnrt123456789''
               then (if among e ''123456789'' \<and> r_lookaround_depth st > 0 then None
                     else if among e ''123456789'' \<and> i + 2 < length p \<and> raw_regex_ascii_is_digit (p ! (i + 2)) then None
                     else copy)
               else if raw_regex_ascii_is_alnum e then None
               else copy)"

fun append_bytes :: "nat \<Rightarrow> uint8 list \<Rightarrow> uint8 list \<Rightarrow> uint8 list option" where
  "append_bytes cap buf [] = Some buf"
| "append_bytes cap buf (c # cs) = do { buf \<leftarrow> pcre2_regex_append_byte cap buf c; append_bytes cap buf cs }"

definition raw_open_step :: "nat \<Rightarrow> uint8 list \<Rightarrow> nat \<Rightarrow> raw_state \<Rightarrow> (raw_state \<times> nat) option" where
  "raw_open_step cap p i st =
     (if length (r_groups st) \<ge> length p then None
      else if i + 1 < length p \<and> p ! (i + 1) = chr8 CHR ''*'' then None
      else if i + 1 < length p \<and> p ! (i + 1) = chr8 CHR ''?''
      then do { (intro_len, is_lookaround) \<leftarrow> raw_regex_supported_group_intro p i;
                buf \<leftarrow> append_bytes cap (r_buf st) (take intro_len (drop i p));
                Some (st\<lparr>r_buf := buf, r_groups := is_lookaround # r_groups st,
                  r_lookaround_depth := r_lookaround_depth st + (if is_lookaround then 1 else 0),
                  r_last_atom_was_constraint := False\<rparr>, i + intro_len - 1) }
      else do { buf \<leftarrow> (if r_lookaround_depth st > 0 then pcre2_regex_append cap (r_buf st) (str8 ''(?:'')
                         else pcre2_regex_append_byte cap (r_buf st) (p ! i));
                Some (st\<lparr>r_buf := buf, r_groups := False # r_groups st, r_last_atom_was_constraint := False\<rparr>, i) })"

definition raw_close_step :: "nat \<Rightarrow> uint8 list \<Rightarrow> nat \<Rightarrow> raw_state \<Rightarrow> (raw_state \<times> nat) option" where
  "raw_close_step cap p i st =
     (let closing_lookaround = (r_groups st \<noteq> [] \<and> hd (r_groups st));
          depth = (if closing_lookaround \<and> r_lookaround_depth st > 0 then r_lookaround_depth st - 1 else r_lookaround_depth st)
      in do { buf \<leftarrow> pcre2_regex_append_byte cap (r_buf st) (p ! i);
              Some (st\<lparr>r_buf := buf, r_groups := tl (r_groups st), r_lookaround_depth := depth,
                r_last_atom_was_constraint := closing_lookaround\<rparr>, i) })"

definition raw_regex_step :: "nat \<Rightarrow> uint8 list \<Rightarrow> nat \<Rightarrow> raw_state \<Rightarrow> (raw_state \<times> nat) option" where
  "raw_regex_step cap p i st =
     (let c = p ! i
      in if r_in_class st then raw_class_step cap p i st
         else if r_last_atom_was_constraint st \<and> raw_regex_starts_quantifier p i then None
         else if c = chr8 CHR ''['' then raw_bracket_step cap p i st
         else if c = chr8 CHR ''$''
         then do { buf \<leftarrow> pcre2_regex_append cap (r_buf st) [ch_esc, chr8 CHR ''z''];
                   Some (st\<lparr>r_buf := buf, r_last_atom_was_constraint := True\<rparr>, i) }
         else if c = chr8 CHR ''^''
         then do { buf \<leftarrow> pcre2_regex_append_byte cap (r_buf st) c;
                   Some (st\<lparr>r_buf := buf, r_last_atom_was_constraint := True\<rparr>, i) }
         else if c = chr8 CHR ''{'' \<and> \<not> raw_regex_bound_is_supported p i then None
         else if c = ch_esc then raw_escape_step cap p i st
         else if c = chr8 CHR ''('' then raw_open_step cap p i st
         else if c = chr8 CHR '')'' then raw_close_step cap p i st
         else if among c ''*+?}'' \<and> i + 1 < length p \<and> p ! (i + 1) = chr8 CHR ''+'' then None
         else do { buf \<leftarrow> pcre2_regex_append_byte cap (r_buf st) c;
                   Some (st\<lparr>r_buf := buf, r_last_atom_was_constraint := False\<rparr>, i) })"

section \<open>Every step goes forward and keeps the invariant\<close>

lemma append_Some [simp]:
  "pcre2_regex_append cap buf s = Some b \<longleftrightarrow> length buf + length s \<le> cap \<and> b = buf @ s"
  "pcre2_regex_append_byte cap buf c = Some b \<longleftrightarrow> length buf < cap \<and> b = buf @ [c]"
  by (auto simp: pcre2_regex_append_def pcre2_regex_append_byte_def)

lemma append_bytes_length: "append_bytes cap buf cs = Some b \<Longrightarrow> length b \<le> max cap (length buf)"
  by (induction cs arbitrary: buf) (fastforce simp: bind_eq_Some_conv)+

lemma variable_hex_loop_pos:
  "variable_hex_loop p pos digits v = Some (v', pos', digits') \<Longrightarrow> pos' + digits = pos + digits' \<and> digits \<le> digits'"
proof (induction p pos digits v arbitrary: v' pos' digits' rule: variable_hex_loop.induct)
  case (1 p pos digits v)
  then show ?case
    by (subst (asm) (2) variable_hex_loop.simps) (fastforce split: if_splits option.splits)
qed

lemma octal_loop_pos:
  "octal_loop p pos digits v = (v', pos', digits') \<Longrightarrow> pos' + digits = pos + digits' \<and> digits \<le> digits'"
proof (induction p pos digits v arbitrary: v' pos' digits' rule: octal_loop.induct)
  case (1 p pos digits v)
  then show ?case
    by (subst (asm) (2) octal_loop.simps) (fastforce split: if_splits)
qed

lemma append_codepoint_Some:
  "raw_regex_append_codepoint cap buf cp = Some b \<Longrightarrow> length buf \<le> length b \<and> length b \<le> cap"
  by (auto simp: raw_regex_append_codepoint_def Let_def split: if_splits)

lemma plain_escape_forward:
  assumes "raw_regex_append_plain_escape cap buf p idx e = Some (b, idx')"
  shows "length b \<le> cap \<and> idx \<le> idx'"
proof -
  have parsed: "idx \<le> k" if "raw_regex_parse_fixed_hex_escape p idx n = Some (v, k)
      \<or> raw_regex_parse_variable_hex_escape p idx = Some (v, k) \<or> raw_regex_parse_octal_escape p idx = Some (v, k)" for n v k
    using that
    by (auto simp: raw_regex_parse_fixed_hex_escape_def raw_regex_parse_variable_hex_escape_def
        raw_regex_parse_octal_escape_def split: option.splits if_splits prod.splits
        dest!: variable_hex_loop_pos octal_loop_pos)
  show ?thesis
    using assms parsed unfolding raw_regex_append_plain_escape_def Let_def
    by (auto split: if_splits option.splits dest!: append_codepoint_Some)
qed

lemma class_escape_forward:
  "raw_class_escape cap p i buf = Some (b, i') \<Longrightarrow> length b \<le> cap \<and> i < i'"
  by (auto simp: raw_class_escape_def Let_def bind_eq_Some_conv split: if_splits
      dest!: plain_escape_forward append_codepoint_Some)

lemma group_intro_length: "raw_regex_supported_group_intro p pos = Some (n, l) \<Longrightarrow> 3 \<le> n"
  by (auto simp: raw_regex_supported_group_intro_def split: if_splits)

text \<open>The buffer never exceeds its capacity, the stack of groups never exceeds its array, and the
  depth of the lookarounds is the number of lookaround groups that are open.\<close>

definition raw_inv :: "nat \<Rightarrow> uint8 list \<Rightarrow> raw_state \<Rightarrow> bool" where
  "raw_inv cap p st \<longleftrightarrow> length (r_buf st) \<le> cap \<and> length (r_groups st) \<le> length p \<and>
     r_lookaround_depth st = length (filter id (r_groups st))"

lemmas raw_step_defs = raw_class_step_def raw_bracket_step_def raw_escape_step_def raw_open_step_def raw_close_step_def

lemma raw_class_step_ok:
  "raw_class_step cap p i st = Some (st', i') \<Longrightarrow> i \<le> i' \<and> (raw_inv cap p st \<longrightarrow> raw_inv cap p st')"
  by (auto simp: raw_class_step_def Let_def bind_eq_Some_conv raw_inv_def split: if_splits dest!: class_escape_forward)

lemma raw_bracket_step_ok:
  "raw_bracket_step cap p i st = Some (st', i') \<Longrightarrow> i \<le> i' \<and> (raw_inv cap p st \<longrightarrow> raw_inv cap p st')"
  by (auto simp: raw_bracket_step_def Let_def bind_eq_Some_conv raw_inv_def split: if_splits option.splits)

lemma raw_escape_step_ok:
  assumes "raw_escape_step cap p i st = Some (st', i')"
  shows "i \<le> i' \<and> (raw_inv cap p st \<longrightarrow> raw_inv cap p st')"
proof -
  have "\<exists>b x. st' = st\<lparr>r_buf := b, r_last_atom_was_constraint := x\<rparr> \<and> length b \<le> cap \<and> i < i'"
  proof (cases "constraint_escape (p ! (i + 1))")
    case None
    then show ?thesis
      using assms unfolding raw_escape_step_def Let_def
      by (simp add: bind_eq_Some_conv split: if_split_asm) (force dest: plain_escape_forward)+
  next
    case (Some s)
    then show ?thesis
      using assms unfolding raw_escape_step_def Let_def
      by (force simp add: bind_eq_Some_conv split: if_split_asm)
  qed
  then show ?thesis
    by (auto simp: raw_inv_def)
qed

lemma raw_open_step_ok:
  assumes "raw_open_step cap p i st = Some (st', i')"
  shows "i \<le> i' \<and> (raw_inv cap p st \<longrightarrow> raw_inv cap p st')"
proof -
  have room: "length (r_groups st) < length p"
    using assms by (auto simp: raw_open_step_def split: if_split_asm)
  have "\<exists>b l. st' = st\<lparr>r_buf := b, r_groups := l # r_groups st,
      r_lookaround_depth := r_lookaround_depth st + (if l then 1 else 0), r_last_atom_was_constraint := False\<rparr>
      \<and> length b \<le> max cap (length (r_buf st)) \<and> i \<le> i'"
  proof (cases "i + 1 < length p \<and> p ! (i + 1) = chr8 CHR ''?''")
    case True
    then obtain n l b where "raw_regex_supported_group_intro p i = Some (n, l)"
      "append_bytes cap (r_buf st) (take n (drop i p)) = Some b"
      "st' = st\<lparr>r_buf := b, r_groups := l # r_groups st,
        r_lookaround_depth := r_lookaround_depth st + (if l then 1 else 0), r_last_atom_was_constraint := False\<rparr>"
      "i' = i + n - 1"
      using assms room unfolding raw_open_step_def by (auto simp: bind_eq_Some_conv split: if_split_asm)
    then show ?thesis
      using append_bytes_length group_intro_length by fastforce
  next
    case False
    have "i' = i \<and> length (r_buf st') \<le> max cap (length (r_buf st)) \<and>
      st' = st\<lparr>r_buf := r_buf st', r_groups := False # r_groups st, r_last_atom_was_constraint := False\<rparr>"
      using assms room False unfolding raw_open_step_def by (auto simp: bind_eq_Some_conv split: if_split_asm)
    then show ?thesis
      by (intro exI [of _ "r_buf st'"] exI [of _ False]) simp
  qed
  then show ?thesis
    using room by (auto simp: raw_inv_def)
qed

lemma raw_close_step_ok:
  "raw_close_step cap p i st = Some (st', i') \<Longrightarrow> i \<le> i' \<and> (raw_inv cap p st \<longrightarrow> raw_inv cap p st')"
  by (cases "r_groups st")
    (auto simp: raw_close_step_def Let_def bind_eq_Some_conv raw_inv_def split: if_splits)

lemma raw_regex_step_ok:
  assumes "raw_regex_step cap p i st = Some (st', i')"
  shows "i \<le> i' \<and> (raw_inv cap p st \<longrightarrow> raw_inv cap p st')"
  using assms unfolding raw_regex_step_def Let_def
  by (auto simp: bind_eq_Some_conv raw_inv_def [of _ _ "st\<lparr>r_buf := b, r_last_atom_was_constraint := x\<rparr>" for b x]
      raw_inv_def [of _ _ st] split: if_splits
      dest: raw_class_step_ok raw_bracket_step_ok raw_escape_step_ok raw_open_step_ok raw_close_step_ok)

section \<open>The translation\<close>

function raw_regex_loop :: "nat \<Rightarrow> uint8 list \<Rightarrow> nat \<Rightarrow> raw_state \<Rightarrow> raw_state option" where
  "raw_regex_loop cap p i st =
     (if i < length p
      then (case raw_regex_step cap p i st of None \<Rightarrow> None | Some (st', i') \<Rightarrow> raw_regex_loop cap p (i' + 1) st')
      else Some st)"
  by pat_completeness auto
termination
  by (relation "measure (\<lambda>(cap, p, i, st). length p - i)") (auto dest!: raw_regex_step_ok)

declare raw_regex_loop.simps [simp del]

definition raw_start :: raw_state where
  "raw_start = \<lparr>r_buf = [], r_in_class = False, r_class_first = False, r_class_after_leading_caret = False,
     r_last_atom_was_constraint = False, r_groups = [], r_lookaround_depth = 0\<rparr>"

definition raw_capacity :: "nat \<Rightarrow> nat" where
  "raw_capacity patlen = (let cap = patlen * 32 + 1 in if cap > PCRE2_MAX_PATTERN_BYTES then PCRE2_MAX_PATTERN_BYTES else cap)"

definition raw_regex_to_pcre2 :: "(nat \<Rightarrow> bool) \<Rightarrow> uint8 list \<Rightarrow> int \<Rightarrow> uint8 list option" where
  "raw_regex_to_pcre2 alloc_ok pattern patlen =
     (let n = nat patlen; p = take n pattern; cap = raw_capacity n
      in if patlen < 0 \<or> n > PCRE2_MAX_PATTERN_BYTES then None
         else if \<not> alloc_ok (cap + 1) then None
         else if \<not> alloc_ok (if n > 0 then n else 1) then None
         else case raw_regex_loop cap p 0 raw_start of
             None \<Rightarrow> None
           | Some st \<Rightarrow> if r_in_class st \<or> length (r_buf st) > PCRE2_MAX_PATTERN_BYTES then None else Some (r_buf st))"

lemma raw_regex_loop_inv:
  "raw_regex_loop cap p i st = Some st' \<Longrightarrow> raw_inv cap p st \<Longrightarrow> raw_inv cap p st'"
proof (induction cap p i st rule: raw_regex_loop.induct)
  case (1 cap p i st)
  then show ?case
    by (subst (asm) (2) raw_regex_loop.simps) (auto split: if_splits option.splits dest: raw_regex_step_ok)
qed

section \<open>The states of the loop\<close>

inductive raw_reach :: "nat \<Rightarrow> uint8 list \<Rightarrow> nat \<Rightarrow> raw_state \<Rightarrow> bool" for cap p where
  raw_reach_start: "raw_reach cap p 0 raw_start"
| raw_reach_step: "raw_reach cap p i st \<Longrightarrow> i < length p \<Longrightarrow> raw_regex_step cap p i st = Some (st', i') \<Longrightarrow>
    raw_reach cap p (i' + 1) st'"

lemma raw_reach_inv: "raw_reach cap p i st \<Longrightarrow> raw_inv cap p st"
proof (induction rule: raw_reach.induct)
  case raw_reach_start
  then show ?case
    by (simp add: raw_inv_def raw_start_def)
next
  case (raw_reach_step i st st' i')
  then show ?case
    using raw_regex_step_ok by blast
qed

text \<open>A step that ends within the pattern: the indices that the parsers leave stay below its length.\<close>

lemma variable_hex_loop_inside:
  "variable_hex_loop p pos digits v = Some (v', pos', digits') \<Longrightarrow> pos \<le> length p \<Longrightarrow> pos' \<le> length p"
proof (induction p pos digits v arbitrary: v' pos' digits' rule: variable_hex_loop.induct)
  case (1 p pos digits v)
  then show ?case
    by (subst (asm) (2) variable_hex_loop.simps) (fastforce split: if_splits option.splits)
qed

lemma octal_loop_inside:
  "octal_loop p pos digits v = (v', pos', digits') \<Longrightarrow> pos \<le> length p \<Longrightarrow> pos' \<le> length p"
proof (induction p pos digits v arbitrary: v' pos' digits' rule: octal_loop.induct)
  case (1 p pos digits v)
  then show ?case
    by (subst (asm) (2) octal_loop.simps) (fastforce split: if_splits)
qed

lemma plain_escape_inside:
  assumes "raw_regex_append_plain_escape cap buf p idx e = Some (b, idx')" "idx < length p"
  shows "idx' < length p"
proof -
  have parsed: "k < length p" if "raw_regex_parse_fixed_hex_escape p idx n = Some (v, k)
      \<or> raw_regex_parse_variable_hex_escape p idx = Some (v, k) \<or> raw_regex_parse_octal_escape p idx = Some (v, k)" for n v k
    using that assms(2)
    by (auto simp: raw_regex_parse_fixed_hex_escape_def raw_regex_parse_variable_hex_escape_def
        raw_regex_parse_octal_escape_def split: option.splits if_splits prod.splits
        dest!: variable_hex_loop_inside octal_loop_inside)
  show ?thesis
    using assms parsed unfolding raw_regex_append_plain_escape_def Let_def
    by (auto split: if_splits option.splits)
qed

lemma group_intro_inside: "raw_regex_supported_group_intro p pos = Some (n, l) \<Longrightarrow> 3 \<le> n \<and> pos + n \<le> length p"
  by (auto simp: raw_regex_supported_group_intro_def split: if_splits)

lemma word_constraint_inside: "raw_regex_word_constraint p i = Some k \<Longrightarrow> i + 6 < length p"
  by (auto simp: raw_regex_word_constraint_def split: if_splits)

lemma raw_class_step_inside:
  "raw_class_step cap p i st = Some (st', i') \<Longrightarrow> i < length p \<Longrightarrow> i' < length p"
  by (auto simp: raw_class_step_def raw_class_escape_def Let_def bind_eq_Some_conv split: if_splits
      dest: plain_escape_inside)

lemma raw_escape_step_inside:
  "raw_escape_step cap p i st = Some (st', i') \<Longrightarrow> i < length p \<Longrightarrow> i' < length p"
  by (auto simp: raw_escape_step_def Let_def bind_eq_Some_conv split: if_splits option.splits
      dest: plain_escape_inside)

lemma raw_open_step_inside:
  "raw_open_step cap p i st = Some (st', i') \<Longrightarrow> i < length p \<Longrightarrow> i' < length p"
  by (auto simp: raw_open_step_def bind_eq_Some_conv split: if_split_asm dest!: group_intro_inside)

lemma raw_regex_step_inside:
  assumes "raw_regex_step cap p i st = Some (st', i')" "i < length p"
  shows "i' < length p"
proof -
  have "raw_bracket_step cap p i st = Some (st', i') \<Longrightarrow> i' < length p"
    using assms(2) by (auto simp: raw_bracket_step_def bind_eq_Some_conv split: if_splits option.splits
        dest!: word_constraint_inside)
  moreover have "raw_close_step cap p i st = Some (st', i') \<Longrightarrow> i' < length p"
    using assms(2) by (auto simp: raw_close_step_def Let_def bind_eq_Some_conv)
  ultimately show ?thesis
    using assms unfolding raw_regex_step_def Let_def
    by (auto simp: bind_eq_Some_conv split: if_splits
        dest: raw_class_step_inside raw_escape_step_inside raw_open_step_inside)
qed

lemma raw_reach_inside: "raw_reach cap p i st \<Longrightarrow> i \<le> length p"
proof (induction rule: raw_reach.induct)
  case (raw_reach_step i st st' i')
  then show ?case
    using raw_regex_step_inside by fastforce
qed simp

section \<open>Translating one item after the other\<close>

text \<open>The items of a pattern that has no bracket expression, bound, lookaround or character escape
  with a code: a plain byte, a quantifier, the line anchors, a constraint escape, a class escape,
  an escaped byte that is not alphanumeric, the parentheses of a group.\<close>

datatype ritem = Chr uint8 | Quant uint8 | Bol | Eol | ConEsc uint8 | ClsEsc uint8 | LitEsc uint8 | Open | Close

fun item_src :: "ritem \<Rightarrow> uint8 list" where
  "item_src (Chr c) = [c]"
| "item_src (Quant c) = [c]"
| "item_src Bol = str8 ''^''"
| "item_src Eol = str8 ''$''"
| "item_src (ConEsc e) = [ch_esc, e]"
| "item_src (ClsEsc e) = [ch_esc, e]"
| "item_src (LitEsc e) = [ch_esc, e]"
| "item_src Open = str8 ''(''"
| "item_src Close = str8 '')''"

text \<open>PCRE2 has another spelling of the end of the subject and of the constraints on words.\<close>

fun item_dst :: "ritem \<Rightarrow> uint8 list" where
  "item_dst Eol = [ch_esc, chr8 CHR ''z'']"
| "item_dst (ConEsc e) = the (constraint_escape e)"
| "item_dst x = item_src x"

fun item_ok :: "ritem \<Rightarrow> bool" where
  "item_ok (Chr c) \<longleftrightarrow> c \<noteq> ch_esc \<and> \<not> among c ''[()$^{*+?}''"
| "item_ok (Quant c) \<longleftrightarrow> among c ''*+?''"
| "item_ok (ConEsc e) \<longleftrightarrow> among e ''AZyYmM''"
| "item_ok (ClsEsc e) \<longleftrightarrow> among e ''dDsSwWnrt''"
| "item_ok (LitEsc e) \<longleftrightarrow> \<not> raw_regex_ascii_is_alnum e"
| "item_ok x \<longleftrightarrow> True"

fun is_con :: "ritem \<Rightarrow> bool" where
  "is_con Bol = True" | "is_con Eol = True" | "is_con (ConEsc e) = True" | "is_con x = False"

fun is_quant :: "ritem \<Rightarrow> bool" where
  "is_quant (Quant c) = True" | "is_quant x = False"

text \<open>What may follow an item: no quantifier after a constraint or an opening parenthesis, no plus
  sign after a quantifier.\<close>

definition adjacent_ok :: "ritem \<Rightarrow> ritem \<Rightarrow> bool" where
  "adjacent_ok x y \<longleftrightarrow> (is_con x \<or> x = Open \<longrightarrow> \<not> is_quant y) \<and> (is_quant x \<longrightarrow> y \<noteq> Quant (chr8 CHR ''+''))"

lemma item_src_first: "item_ok y \<Longrightarrow> \<not> is_quant y \<Longrightarrow> \<not> among (hd (item_src y @ r)) ''*+?'' \<and> hd (item_src y @ r) \<noteq> chr8 CHR ''{''"
  by (cases y) (auto simp: among_def ch_esc_def)

lemma item_src_nonempty [simp]: "item_src x \<noteq> []"
  by (cases x) auto

lemma plus_first: "item_ok y \<Longrightarrow> hd (item_src y @ r) = chr8 CHR ''+'' \<Longrightarrow> y = Quant (chr8 CHR ''+'')"
  by (cases y) (auto simp: among_def ch_esc_def)

lemma not_alnum_escape:
  assumes "\<not> raw_regex_ascii_is_alnum e"
  shows "constraint_escape e = None" "\<not> among e ''abBcefuUvx0''" "\<not> among e ''dDsSwWnrt123456789''"
  using assms by (auto simp: raw_regex_ascii_is_alnum_def constraint_escape_def among_def)

lemma raw_step_plain:
  assumes "\<not> r_in_class st" "\<not> (r_last_atom_was_constraint st \<and> raw_regex_starts_quantifier p i)"
    and "p ! i = c" "c \<noteq> ch_esc" "\<not> among c ''[()$^{''" "length (r_buf st) < cap"
    and "among c ''*+?}'' \<longrightarrow> i + 1 < length p \<longrightarrow> p ! (i + 1) \<noteq> chr8 CHR ''+''"
  shows "raw_regex_step cap p i st = Some (st\<lparr>r_buf := r_buf st @ [c], r_last_atom_was_constraint := False\<rparr>, i)"
proof -
  have "c \<noteq> chr8 CHR ''['' \<and> c \<noteq> chr8 CHR ''('' \<and> c \<noteq> chr8 CHR '')'' \<and> c \<noteq> chr8 CHR ''$'' \<and> c \<noteq> chr8 CHR ''^'' \<and> c \<noteq> chr8 CHR ''{''"
    using assms(5) by (simp add: among_def)
  then show ?thesis
    using assms unfolding raw_regex_step_def Let_def assms(3) by (simp add: pcre2_regex_append_byte_def)
qed

lemma raw_step_item:
  assumes "item_ok x" "p = pre @ item_src x @ rest" "\<not> r_in_class st" "r_lookaround_depth st = 0"
    and "\<forall>g\<in>set (r_groups st). \<not> g" "length (r_groups st) \<le> length pre"
    and "r_last_atom_was_constraint st \<longrightarrow> \<not> is_quant x"
    and "x = Open \<and> rest \<noteq> [] \<longrightarrow> \<not> among (hd rest) ''*+?''" "is_quant x \<and> rest \<noteq> [] \<longrightarrow> hd rest \<noteq> chr8 CHR ''+''"
    and "length (r_buf st) + length (item_dst x) \<le> cap"
  shows "\<exists>st'. raw_regex_step cap p (length pre) st = Some (st', length pre + length (item_src x) - 1) \<and>
    r_buf st' = r_buf st @ item_dst x \<and> \<not> r_in_class st' \<and> r_lookaround_depth st' = 0 \<and>
    (\<forall>g\<in>set (r_groups st'). \<not> g) \<and> length (r_groups st') \<le> length pre + 1 \<and>
    r_last_atom_was_constraint st' = is_con x"
proof -
  have here: "p ! length pre = hd (item_src x)" and len: "length pre < length p"
    using assms(2) by (cases "item_src x"; simp add: nth_append)+
  have next_byte: "rest \<noteq> [] \<Longrightarrow> p ! (length pre + 1) = hd rest" "length pre + 1 < length p \<longleftrightarrow> rest \<noteq> []" if "length (item_src x) = 1"
    using assms(2) that by (auto simp: nth_append length_Suc_conv hd_conv_nth)
  have esc: "p ! (length pre + 1) = e" "length pre + 1 < length p" if "item_src x = [ch_esc, e]" for e
    using assms(2) that by (auto simp: nth_append)
  have noq: "\<not> (r_last_atom_was_constraint st \<and> raw_regex_starts_quantifier p (length pre))"
    using assms(7) item_src_first [OF assms(1), of "[]"] by (auto simp: raw_regex_starts_quantifier_def here)
  note step = raw_regex_step_def [of cap p "length pre" st, unfolded Let_def here if_not_P [OF assms(3)] if_not_P [OF noq]]
  show ?thesis
  proof (cases x)
    case (Chr c)
    then have "\<not> among c ''[()$^{''" "\<not> among c ''*+?}''" "c \<noteq> ch_esc"
      using assms(1) by (auto simp: among_def)
    then have "raw_regex_step cap p (length pre) st = Some (st\<lparr>r_buf := r_buf st @ [c], r_last_atom_was_constraint := False\<rparr>, length pre)"
      using here Chr assms(10) by (intro raw_step_plain [OF assms(3) noq]) simp_all
    then show ?thesis
      using assms(3-6) Chr by simp
  next
    case (Quant c)
    then have c: "\<not> among c ''[()$^{''" "c \<noteq> ch_esc"
      using assms(1) by (auto simp: among_def ch_esc_def)
    have "among c ''*+?}'' \<longrightarrow> length pre + 1 < length p \<longrightarrow> p ! (length pre + 1) \<noteq> chr8 CHR ''+''"
      using next_byte Quant assms(9) by auto
    then have "raw_regex_step cap p (length pre) st = Some (st\<lparr>r_buf := r_buf st @ [c], r_last_atom_was_constraint := False\<rparr>, length pre)"
      using here c Quant assms(10) by (intro raw_step_plain [OF assms(3) noq]) simp_all
    then show ?thesis
      using assms(3-6) Quant by simp
  next
    case Bol
    then show ?thesis
      unfolding step using assms(3-6,10) by (simp add: ch_esc_def pcre2_regex_append_byte_def)
  next
    case Eol
    then show ?thesis
      unfolding step using assms(3-6,10) by (auto simp: ch_esc_def pcre2_regex_append_def)
  next
    case (ConEsc e)
    then obtain s where s: "length pre + 1 < length p" "p ! (length pre + 1) = e" "constraint_escape e = Some s"
      using assms(1) esc [of e] by (auto simp: among_def constraint_escape_def)
    then have "pcre2_regex_append cap (r_buf st) s = Some (r_buf st @ s)"
      using assms(10) ConEsc by simp
    then show ?thesis
      unfolding step using s assms(3-6) ConEsc by (simp add: ch_esc_def raw_escape_step_def del: append_Some)
  next
    case (ClsEsc e)
    then have "length pre + 1 < length p" "p ! (length pre + 1) = e" "constraint_escape e = None"
      "\<not> among e ''abBcefuUvx0''" "among e ''dDsSwWnrt123456789''" "\<not> among e ''123456789''"
      using assms(1) esc [of e] by (auto simp: among_def constraint_escape_def)
    then show ?thesis
      unfolding step using assms(3-6,10) ClsEsc
      by (simp add: ch_esc_def raw_escape_step_def pcre2_regex_append_byte_def)
  next
    case (LitEsc e)
    then have "length pre + 1 < length p" "p ! (length pre + 1) = e" "\<not> raw_regex_ascii_is_alnum e"
      using assms(1) esc [of e] by auto
    then show ?thesis
      unfolding step using assms(3-6,10) LitEsc not_alnum_escape [of e]
      by (simp add: ch_esc_def raw_escape_step_def pcre2_regex_append_byte_def)
  next
    case Open
    then have "\<not> (length pre + 1 < length p \<and> p ! (length pre + 1) = chr8 CHR ''*'')"
      "\<not> (length pre + 1 < length p \<and> p ! (length pre + 1) = chr8 CHR ''?'')"
      using next_byte assms(8) by (auto simp: among_def)
    note open_step = raw_open_step_def [of cap p "length pre" st, unfolded if_not_P [OF this(1)] if_not_P [OF this(2)]]
    show ?thesis
      unfolding step open_step using assms(3-6,10) Open len here
      by (auto simp: ch_esc_def pcre2_regex_append_byte_def)
  next
    case Close
    have "r_groups st \<noteq> [] \<Longrightarrow> \<not> hd (r_groups st)" "\<forall>g\<in>set (tl (r_groups st)). \<not> g"
      using assms(5) by (cases "r_groups st"; simp)+
    then show ?thesis
      unfolding step using assms(3-6,10) Close here
      by (cases "r_groups st") (auto simp: ch_esc_def raw_close_step_def pcre2_regex_append_byte_def)
  qed
qed

text \<open>The loop from the start of an item on.\<close>

fun items_ok :: "ritem list \<Rightarrow> bool" where
  "items_ok [] \<longleftrightarrow> True"
| "items_ok [x] \<longleftrightarrow> item_ok x"
| "items_ok (x # y # xs) \<longleftrightarrow> item_ok x \<and> adjacent_ok x y \<and> items_ok (y # xs)"

lemma items_ok_Cons:
  "items_ok (x # xs) \<longleftrightarrow> item_ok x \<and> (xs \<noteq> [] \<longrightarrow> adjacent_ok x (hd xs)) \<and> items_ok xs"
  by (cases xs) auto

lemma raw_loop_items:
  assumes "items_ok xs" "p = pre @ concat (map item_src xs) @ tail" "\<not> r_in_class st" "r_lookaround_depth st = 0"
    and "\<forall>g\<in>set (r_groups st). \<not> g" "length (r_groups st) \<le> length pre"
    and "xs \<noteq> [] \<and> r_last_atom_was_constraint st \<longrightarrow> \<not> is_quant (hd xs)"
    and "length (r_buf st) + length (concat (map item_dst xs)) \<le> cap"
    and "tail = [] \<or> is_con (last xs) \<and> xs \<noteq> []"
  shows "\<exists>st'. raw_regex_loop cap p (length pre) st = raw_regex_loop cap p (length p - length tail) st' \<and>
    r_buf st' = r_buf st @ concat (map item_dst xs) \<and> \<not> r_in_class st' \<and>
    (xs \<noteq> [] \<longrightarrow> r_last_atom_was_constraint st' = is_con (last xs))"
  using assms
proof (induction xs arbitrary: pre st)
  case Nil
  then show ?case
    by (intro exI [of _ st]) simp
next
  case (Cons x xs)
  define rest where "rest = concat (map item_src xs) @ tail"
  have ok: "item_ok x" "items_ok xs" "xs \<noteq> [] \<Longrightarrow> adjacent_ok x (hd xs)"
    using Cons.prems(1) by (auto simp: items_ok_Cons)
  have first: "(xs \<noteq> [] \<and> item_ok (hd xs) \<and> rest = item_src (hd xs) @ concat (map item_src (tl xs)) @ tail) \<or> is_con x"
    if "rest \<noteq> []"
    using that ok(2) Cons.prems(9) by (cases xs) (auto simp: rest_def items_ok_Cons)
  have p: "p = pre @ item_src x @ rest"
    using Cons.prems(2) by (simp add: rest_def)
  have kinds: "x = Open \<Longrightarrow> \<not> is_con x" "is_quant x \<Longrightarrow> \<not> is_con x"
    by (cases x; simp)+
  have "x = Open \<and> rest \<noteq> [] \<longrightarrow> \<not> among (hd rest) ''*+?''"
    using first ok(3) item_src_first [of "hd xs"] kinds(1) by (auto simp: adjacent_ok_def)
  moreover have "is_quant x \<and> rest \<noteq> [] \<longrightarrow> hd rest \<noteq> chr8 CHR ''+''"
    using first ok(3) plus_first [of "hd xs"] kinds(2) by (auto simp: adjacent_ok_def)
  moreover have "r_last_atom_was_constraint st \<longrightarrow> \<not> is_quant x" "length (r_buf st) + length (item_dst x) \<le> cap"
    using Cons.prems(7,8) by auto
  ultimately obtain st1 where st1: "raw_regex_step cap p (length pre) st = Some (st1, length pre + length (item_src x) - 1)"
    "r_buf st1 = r_buf st @ item_dst x" "\<not> r_in_class st1" "r_lookaround_depth st1 = 0" "\<forall>g\<in>set (r_groups st1). \<not> g"
    "length (r_groups st1) \<le> length pre + 1" "r_last_atom_was_constraint st1 = is_con x"
    using raw_step_item [OF ok(1) p Cons.prems(3-6)] by blast
  have src: "1 \<le> length (item_src x)"
    by (simp add: Suc_le_eq)
  have "\<exists>st'. raw_regex_loop cap p (length (pre @ item_src x)) st1 = raw_regex_loop cap p (length p - length tail) st' \<and>
      r_buf st' = r_buf st1 @ concat (map item_dst xs) \<and> \<not> r_in_class st' \<and>
      ((x # xs) \<noteq> [] \<longrightarrow> r_last_atom_was_constraint st' = is_con (last (x # xs)))"
  proof (cases xs)
    case Nil
    then show ?thesis
      using st1(2,3,7) p by (intro exI [of _ st1]) (simp add: rest_def)
  next
    case (Cons y ys)
    have "\<exists>st'. raw_regex_loop cap p (length (pre @ item_src x)) st1 = raw_regex_loop cap p (length p - length tail) st' \<and>
      r_buf st' = r_buf st1 @ concat (map item_dst xs) \<and> \<not> r_in_class st' \<and>
      (xs \<noteq> [] \<longrightarrow> r_last_atom_was_constraint st' = is_con (last xs))"
    proof (rule Cons.IH [OF ok(2) _ st1(3,4,5)])
      show "p = (pre @ item_src x) @ concat (map item_src xs) @ tail"
        using p by (simp add: rest_def)
      show "length (r_groups st1) \<le> length (pre @ item_src x)"
        using st1(6) src by (simp only: length_append)
      show "xs \<noteq> [] \<and> r_last_atom_was_constraint st1 \<longrightarrow> \<not> is_quant (hd xs)"
        using ok(3) st1(7) by (auto simp: adjacent_ok_def)
      show "length (r_buf st1) + length (concat (map item_dst xs)) \<le> cap"
        using Cons.prems(8) st1(2) by simp
      show "tail = [] \<or> is_con (last xs) \<and> xs \<noteq> []"
        using Cons.prems(9) Cons by auto
    qed
    then show ?thesis
      using Cons by simp
  qed
  moreover have "length pre < length p" "length pre + length (item_src x) - 1 + 1 = length (pre @ item_src x)"
    using p src by auto
  ultimately show ?case
    using st1(1,2) raw_regex_loop.simps [of cap p "length pre" st] by simp
qed

text \<open>A quantifier after a constraint ends the translation.\<close>

lemma raw_loop_con_quant:
  assumes "items_ok xs" "xs \<noteq> []" "is_con (last xs)" "among q ''*+?''" "\<not> is_quant (hd xs)"
    and "p = concat (map item_src xs) @ q # rest" "length (concat (map item_dst xs)) \<le> cap"
  shows "raw_regex_loop cap p 0 raw_start = None"
proof -
  have "\<exists>st'. raw_regex_loop cap p (length ([] :: uint8 list)) raw_start = raw_regex_loop cap p (length p - length (q # rest)) st' \<and>
    r_buf st' = r_buf raw_start @ concat (map item_dst xs) \<and> \<not> r_in_class st' \<and>
    (xs \<noteq> [] \<longrightarrow> r_last_atom_was_constraint st' = is_con (last xs))"
    by (rule raw_loop_items [OF assms(1), where pre = "[]" and tail = "q # rest"])
      (use assms in \<open>auto simp: raw_start_def\<close>)
  then obtain st' where st': "raw_regex_loop cap p 0 raw_start = raw_regex_loop cap p (length p - length (q # rest)) st'"
    "\<not> r_in_class st'" "r_last_atom_was_constraint st'"
    using assms(2,3) by auto
  define k where "k = length p - length (q # rest)"
  have at: "p ! k = q" "k < length p"
    using assms(6) by (auto simp: nth_append k_def)
  then have "raw_regex_starts_quantifier p k"
    using assms(4) by (simp add: raw_regex_starts_quantifier_def)
  then have "raw_regex_step cap p k st' = None"
    using st'(2,3) by (simp add: raw_regex_step_def Let_def)
  then show ?thesis
    using st'(1) at(2) raw_regex_loop.simps [of cap p k st'] by (simp add: k_def)
qed

section \<open>Properties\<close>

text \<open>
  C37 (bounds): Wherever the loop stands, and whether or not it gives up later: the index is at most
  the length of the pattern, the bytes written are within the buffer, whose capacity is at most 65536
  bytes, the stack of open groups is within the array allocated for it, and the depth of the
  lookarounds is the number of lookaround groups that are open. A result fits the buffer.\<close>

theorem raw_regex_bounds:
  assumes "n \<le> PCRE2_MAX_PATTERN_BYTES" "n \<le> length pat"
    and "raw_reach (raw_capacity n) (take n pat) i st"
  shows "i \<le> n \<and> length (r_buf st) \<le> raw_capacity n \<and> raw_capacity n \<le> 65536 \<and> length (r_groups st) \<le> n \<and>
    r_lookaround_depth st = length (filter id (r_groups st)) \<and>
    (\<forall>alloc_ok regex. raw_regex_to_pcre2 alloc_ok pat (int n) = Some regex \<longrightarrow> length regex \<le> raw_capacity n)"
proof -
  have "length regex \<le> raw_capacity n" if res: "raw_regex_to_pcre2 alloc_ok pat (int n) = Some regex" for alloc_ok regex
  proof -
    have "\<exists>st'. raw_regex_loop (raw_capacity n) (take n pat) 0 raw_start = Some st' \<and> regex = r_buf st'"
      using res by (cases "raw_regex_loop (raw_capacity n) (take n pat) 0 raw_start")
        (simp_all add: raw_regex_to_pcre2_def Let_def split: if_split_asm)
    then show ?thesis
      using raw_regex_loop_inv [OF _ raw_reach_inv [OF raw_reach_start]] by (auto simp: raw_inv_def)
  qed
  then show ?thesis
    using raw_reach_inv [OF assms(3)] raw_reach_inside [OF assms(3)] assms(1,2)
    by (auto simp: raw_inv_def raw_capacity_def Let_def PCRE2_MAX_PATTERN_BYTES_def)
qed

text \<open>The pattern \<open>(?=*+\<close> after its lookahead: the translation gives up at the possessive quantifier.\<close>

theorem raw_regex_bounds_witness:
  "raw_reach (raw_capacity 5) (str8 ''(?=*+'') 3
     (raw_start\<lparr>r_buf := str8 ''(?='', r_groups := [True], r_lookaround_depth := 1\<rparr>) \<and>
   raw_regex_to_pcre2 (\<lambda>_. True) (str8 ''(?=*+'') 5 = None \<and>
   length (str8 ''(?='') \<le> raw_capacity 5 \<and> length (filter id [True]) = 1"
proof -
  let ?st = "raw_start\<lparr>r_buf := str8 ''(?='', r_groups := [True], r_lookaround_depth := 1\<rparr>"
  have "raw_regex_loop 161 (str8 ''(?=*+'') 0 raw_start = None"
    by code_simp
  then have "raw_regex_to_pcre2 (\<lambda>_. True) (str8 ''(?=*+'') 5 = None"
    by (simp add: raw_regex_to_pcre2_def raw_capacity_def PCRE2_MAX_PATTERN_BYTES_def)
  moreover have "raw_regex_step 161 (str8 ''(?=*+'') 0 raw_start = Some (?st, 2)"
    by code_simp
  then have step: "raw_regex_step (raw_capacity 5) (str8 ''(?=*+'') 0 raw_start = Some (?st, 2)"
    by (simp add: raw_capacity_def PCRE2_MAX_PATTERN_BYTES_def)
  then have "raw_reach (raw_capacity 5) (str8 ''(?=*+'') 3 ?st"
    using raw_reach_step [OF raw_reach_start _ step] by simp
  ultimately show ?thesis
    using raw_regex_bounds [of 5 "str8 ''(?=*+''" 3 ?st] by (simp add: PCRE2_MAX_PATTERN_BYTES_def)
qed

text \<open>
  C21 (functional): A pattern of plain bytes, quantifiers, anchors, groups, class escapes and
  constraint escapes is translated item by item: the end of the subject and the constraints on
  words get their PCRE2 spelling, everything else is copied; and a quantifier right after a
  constraint is left to PostgreSQL.\<close>

theorem raw_regex_items:
  assumes "items_ok xs" "length (concat (map item_src xs)) \<le> PCRE2_MAX_PATTERN_BYTES"
    and "length (concat (map item_dst xs)) \<le> raw_capacity (length (concat (map item_src xs)))"
    and "\<And>k. alloc_ok k"
  shows "raw_regex_to_pcre2 alloc_ok (concat (map item_src xs)) (int (length (concat (map item_src xs)))) =
      Some (concat (map item_dst xs)) \<and>
    (\<forall>q rest. xs \<noteq> [] \<and> is_con (last xs) \<and> \<not> is_quant (hd xs) \<and> among q ''*+?'' \<longrightarrow>
      raw_regex_to_pcre2 alloc_ok (concat (map item_src xs) @ q # rest)
        (int (length (concat (map item_src xs) @ q # rest))) = None)"
proof -
  define p where "p = concat (map item_src xs)"
  have cap: "raw_capacity n \<le> PCRE2_MAX_PATTERN_BYTES" for n
    by (simp add: raw_capacity_def Let_def)
  have "\<exists>st'. raw_regex_loop (raw_capacity (length p)) p (length ([] :: uint8 list)) raw_start =
      raw_regex_loop (raw_capacity (length p)) p (length p - length ([] :: uint8 list)) st' \<and>
    r_buf st' = r_buf raw_start @ concat (map item_dst xs) \<and> \<not> r_in_class st' \<and>
    (xs \<noteq> [] \<longrightarrow> r_last_atom_was_constraint st' = is_con (last xs))"
    by (rule raw_loop_items [OF assms(1)]) (use assms(3) in \<open>auto simp: raw_start_def p_def\<close>)
  then obtain st' where "raw_regex_loop (raw_capacity (length p)) p 0 raw_start = Some st'"
    "r_buf st' = concat (map item_dst xs)" "\<not> r_in_class st'"
    using raw_regex_loop.simps [of "raw_capacity (length p)" p "length p"] by (auto simp: raw_start_def)
  then have "raw_regex_to_pcre2 alloc_ok p (int (length p)) = Some (concat (map item_dst xs))"
    using assms(2,3,4) cap [of "length p"] by (auto simp: raw_regex_to_pcre2_def Let_def p_def)
  moreover have "raw_regex_to_pcre2 alloc_ok (p @ q # rest) (int (length (p @ q # rest))) = None"
    if "xs \<noteq> []" "is_con (last xs)" "\<not> is_quant (hd xs)" "among q ''*+?''" for q rest
  proof -
    have "raw_capacity (length p) \<le> raw_capacity (length (p @ q # rest))"
      by (auto simp: raw_capacity_def Let_def)
    then have "raw_regex_loop (raw_capacity (length (p @ q # rest))) (p @ q # rest) 0 raw_start = None"
      using raw_loop_con_quant [OF assms(1) that(1,2,4,3), of "p @ q # rest" rest] assms(3)
      by (simp add: p_def)
    then show ?thesis
      unfolding raw_regex_to_pcre2_def Let_def nat_int take_all_iff [THEN iffD2, OF order_refl] by simp
  qed
  ultimately show ?thesis
    unfolding p_def by blast
qed

text \<open>The pattern \<open>^a+\y$\<close>, and the same with a star after it.\<close>

theorem raw_regex_items_witness:
  "raw_regex_to_pcre2 (\<lambda>_. True) (str8 ''^a+'' @ [ch_esc] @ str8 ''y$'') 6 =
     Some (str8 ''^a+'' @ [ch_esc] @ str8 ''b'' @ [ch_esc] @ str8 ''z'') \<and>
   raw_regex_to_pcre2 (\<lambda>_. True) (str8 ''^a+'' @ [ch_esc] @ str8 ''y$*'') 7 = None"
proof -
  define xs where "xs = [Bol, Chr (chr8 CHR ''a''), Quant (chr8 CHR ''+''), ConEsc (chr8 CHR ''y''), Eol]"
  have ok: "items_ok xs" and src: "concat (map item_src xs) = str8 ''^a+'' @ [ch_esc] @ str8 ''y$''"
    and dst: "concat (map item_dst xs) = str8 ''^a+'' @ [ch_esc] @ str8 ''b'' @ [ch_esc] @ str8 ''z''"
    by (auto simp: xs_def among_def adjacent_ok_def constraint_escape_def ch_esc_def)
  have len: "length (concat (map item_src xs)) \<le> PCRE2_MAX_PATTERN_BYTES"
    "length (concat (map item_dst xs)) \<le> raw_capacity (length (concat (map item_src xs)))"
    unfolding src dst by (simp_all add: PCRE2_MAX_PATTERN_BYTES_def raw_capacity_def)
  have star: "xs \<noteq> [] \<and> is_con (last xs) \<and> \<not> is_quant (hd xs) \<and> among (chr8 CHR ''*'') ''*+?''"
    by (simp add: xs_def among_def)
  note res = raw_regex_items [OF ok len, of "\<lambda>_. True", OF TrueI]
  show ?thesis
    using res [THEN conjunct1] res [THEN conjunct2, rule_format, OF star, of "[]"] unfolding src dst
    by simp
qed

end
