(* ===== verification/Pcre2Cache.thy ===== *)
theory Pcre2Cache
  imports RawRegex
begin

unbundle bit_operations_syntax

text \<open>
  The cache of compiled PCRE2 patterns (\<open>pg_jitter_pcre2.c\<close>) with the registration of compiled
  code in a JIT context (\<open>pg_jitter_common.c\<close>). Entries live on an explicit heap, the directory
  holds their addresses and contexts hold one registration for each pin. An assertion of the code
  that fails, or the use of an entry that was freed, is the result \<open>None\<close>; \<open>Throw\<close> is an error
  raised by PostgreSQL.

  PCRE2 is a parameter: \<open>lib pattern flags\<close> is the compiled code of a pattern, when it compiles.
\<close>

section \<open>Which patterns go to PCRE2\<close>

record pcre2_env = enc_env +
  coll_is_c :: "Oid \<Rightarrow> bool"
  PCRE2_DOTALL :: uint32
  PCRE2_DOLLAR_ENDONLY :: uint32
  PCRE2_UTF :: uint32
  PCRE2_CASELESS :: uint32

definition pg_jitter_pcre2_is_eligible :: "pcre2_env \<Rightarrow> Oid \<Rightarrow> bool \<Rightarrow> bool \<Rightarrow> bool" where
  "pg_jitter_pcre2_is_eligible env collid is_like case_insensitive =
     (if \<not> coll_is_deterministic env collid then False
      else if enc_is_utf8 env
      then (if case_insensitive then False else if is_like then True else coll_is_c env collid)
      else if enc_max_length env \<noteq> 1 then False
      else if is_like \<and> \<not> case_insensitive then True
      else coll_is_c env collid)"

definition pg_jitter_pcre2_compile_flags :: "pcre2_env \<Rightarrow> bool \<Rightarrow> uint32" where
  "pg_jitter_pcre2_compile_flags env case_insensitive =
     (let flags = PCRE2_DOTALL env OR PCRE2_DOLLAR_ENDONLY env;
          flags = (if enc_is_utf8 env then flags OR PCRE2_UTF env else flags)
      in if case_insensitive then flags OR PCRE2_CASELESS env else flags)"

section \<open>State\<close>

definition PCRE2_CACHE_SIZE :: nat where "PCRE2_CACHE_SIZE = 64"

record 'c Pcre2CacheEntry =
  pattern :: "uint8 list"
  flags :: uint32
  code :: 'c
  refcount :: nat
  in_cache :: bool
  lru_counter :: uint64

record 'c pcre2_state =
  heap :: "nat \<Rightarrow> 'c Pcre2CacheEntry option"
  cache :: "nat option list"
  lru_clock :: uint64
  contexts :: "nat list list"
  compile_counter :: uint64
  match_counter :: uint64

definition pcre2_init :: "'c pcre2_state" where
  "pcre2_init = \<lparr>heap = (\<lambda>_. None), cache = replicate PCRE2_CACHE_SIZE None, lru_clock = 0, contexts = [], compile_counter = 0,
     match_counter = 0\<rparr>"

datatype 'a outcome = Ret 'a | Throw

section \<open>Operations\<close>

definition pg_jitter_pcre2_free_entry :: "nat \<Rightarrow> 'c pcre2_state \<Rightarrow> 'c pcre2_state option" where
  "pg_jitter_pcre2_free_entry a st =
     (case heap st a of None \<Rightarrow> None
      | Some e \<Rightarrow> if refcount e = 0 \<and> \<not> in_cache e then Some (st\<lparr>heap := (heap st)(a := None)\<rparr>) else None)"

definition pg_jitter_pcre2_unpin_entry :: "nat \<Rightarrow> 'c pcre2_state \<Rightarrow> 'c pcre2_state option" where
  "pg_jitter_pcre2_unpin_entry a st =
     (case heap st a of None \<Rightarrow> None
      | Some e \<Rightarrow>
          if refcount e > 0
          then (let e' = e\<lparr>refcount := refcount e - 1\<rparr>; st' = st\<lparr>heap := (heap st)(a \<mapsto> e')\<rparr>
                in if refcount e' = 0 \<and> \<not> in_cache e' then pg_jitter_pcre2_free_entry a st' else Some st')
          else None)"

text \<open>\<open>reg_ok\<close>: the allocation of the cleanup record succeeds.\<close>

definition pg_jitter_register_compiled :: "bool \<Rightarrow> nat \<Rightarrow> nat \<Rightarrow> 'c pcre2_state \<Rightarrow> 'c pcre2_state outcome" where
  "pg_jitter_register_compiled reg_ok c a st =
     (if reg_ok then Ret (st\<lparr>contexts := (contexts st)[c := a # contexts st ! c]\<rparr>) else Throw)"

definition pg_jitter_pcre2_pin_entry :: "bool \<Rightarrow> nat \<Rightarrow> nat \<Rightarrow> 'c pcre2_state \<Rightarrow> ('c pcre2_state \<times> bool outcome) option" where
  "pg_jitter_pcre2_pin_entry reg_ok c a st =
     (case pg_jitter_register_compiled reg_ok c a st of
        Throw \<Rightarrow> Some (st, Throw)
      | Ret st1 \<Rightarrow>
          (case heap st1 a of None \<Rightarrow> None
           | Some e \<Rightarrow> Some (st1\<lparr>heap := (heap st1)(a \<mapsto> e\<lparr>refcount := refcount e + 1\<rparr>)\<rparr>, Ret True)))"

definition set_in_cache :: "nat \<Rightarrow> bool \<Rightarrow> 'c pcre2_state \<Rightarrow> 'c pcre2_state option" where
  "set_in_cache a b st = map_option (\<lambda>e. st\<lparr>heap := (heap st)(a \<mapsto> e\<lparr>in_cache := b\<rparr>)\<rparr>) (heap st a)"

definition unpublish :: "nat \<Rightarrow> nat \<Rightarrow> 'c pcre2_state \<Rightarrow> 'c pcre2_state option" where
  "unpublish slot a st =
     do { let st1 = (if cache st ! slot = Some a then st\<lparr>cache := (cache st)[slot := None]\<rparr> else st);
          st2 \<leftarrow> set_in_cache a False st1;
          pg_jitter_pcre2_free_entry a st2 }"

definition pg_jitter_pcre2_publish_and_pin_entry ::
  "bool \<Rightarrow> nat \<Rightarrow> nat \<Rightarrow> nat \<Rightarrow> 'c pcre2_state \<Rightarrow> ('c pcre2_state \<times> bool outcome) option" where
  "pg_jitter_pcre2_publish_and_pin_entry reg_ok c slot a st =
     (if slot \<ge> PCRE2_CACHE_SIZE then None
      else case heap st a of None \<Rightarrow> None
      | Some e \<Rightarrow>
          do { let st1 = st\<lparr>heap := (heap st)(a \<mapsto> e\<lparr>in_cache := True, lru_counter := lru_clock st + 1\<rparr>),
                 lru_clock := lru_clock st + 1, cache := (cache st)[slot := Some a]\<rparr>;
               (st2, r) \<leftarrow> pg_jitter_pcre2_pin_entry reg_ok c a st1;
               (case r of
                  Throw \<Rightarrow> do { st3 \<leftarrow> unpublish slot a st2; Some (st3, Throw) }
                | Ret pinned \<Rightarrow> if pinned then Some (st2, Ret True)
                    else do { st3 \<leftarrow> unpublish slot a st2; Some (st3, Ret False) }) })"

text \<open>The slot to reuse: the loop from slot \<open>i\<close> on with the oldest entries found so far.\<close>

fun choose_slot_loop :: "(nat \<Rightarrow> 'c Pcre2CacheEntry option) \<Rightarrow> nat option list \<Rightarrow> nat \<Rightarrow>
    (nat \<times> uint64) option \<Rightarrow> (nat \<times> uint64) option \<Rightarrow> nat option option" where
  "choose_slot_loop h [] i unpinned pinned =
     Some (case unpinned of Some (s, _) \<Rightarrow> Some s | None \<Rightarrow> map_option fst pinned)"
| "choose_slot_loop h (None # slots) i unpinned pinned = Some (Some i)"
| "choose_slot_loop h (Some a # slots) i unpinned pinned =
     (case h a of None \<Rightarrow> None
      | Some e \<Rightarrow>
          if refcount e = 0
          then choose_slot_loop h slots (i + 1)
            (case unpinned of None \<Rightarrow> Some (i, lru_counter e)
             | Some (s, oldest) \<Rightarrow> if lru_counter e < oldest then Some (i, lru_counter e) else unpinned) pinned
          else choose_slot_loop h slots (i + 1) unpinned
            (case pinned of None \<Rightarrow> Some (i, lru_counter e)
             | Some (s, oldest) \<Rightarrow> if lru_counter e < oldest then Some (i, lru_counter e) else pinned))"

definition pg_jitter_pcre2_choose_slot :: "'c pcre2_state \<Rightarrow> nat option option" where
  "pg_jitter_pcre2_choose_slot st = choose_slot_loop (heap st) (cache st) 0 None None"

definition pg_jitter_pcre2_evict_slot :: "nat \<Rightarrow> 'c pcre2_state \<Rightarrow> 'c pcre2_state option" where
  "pg_jitter_pcre2_evict_slot slot st =
     (if slot \<ge> PCRE2_CACHE_SIZE then None
      else case cache st ! slot of None \<Rightarrow> Some st
      | Some a \<Rightarrow>
          do { st1 \<leftarrow> set_in_cache a False st;
               let st2 = st1\<lparr>cache := (cache st1)[slot := None]\<rparr>;
               (case heap st2 a of None \<Rightarrow> None
                | Some e \<Rightarrow> if refcount e = 0 then pg_jitter_pcre2_free_entry a st2 else Some st2) })"

text \<open>What the environment decides during one compilation: which allocations succeed, and the
  address that the allocator returns.\<close>

record comp_event =
  ev_alloc_ok :: "nat \<Rightarrow> bool"
  ev_entry_ok :: bool
  ev_match_data_ok :: bool
  ev_match_context_ok :: bool
  ev_register_ok :: bool
  ev_addr :: nat

text \<open>The first slot with an entry for the pattern and the flags; a slot that holds a freed entry would be a use after free.\<close>

fun find_slot :: "(nat \<rightharpoonup> 'c Pcre2CacheEntry) \<Rightarrow> uint8 list \<Rightarrow> uint32 \<Rightarrow> nat option list \<Rightarrow> nat option option" where
  "find_slot hp regex fl [] = Some None"
| "find_slot hp regex fl (None # slots) = find_slot hp regex fl slots"
| "find_slot hp regex fl (Some a # slots) =
     (case hp a of None \<Rightarrow> None
      | Some e \<Rightarrow> if flags e = fl \<and> pattern e = regex then Some (Some a) else find_slot hp regex fl slots)"

definition cache_find :: "'c pcre2_state \<Rightarrow> uint8 list \<Rightarrow> uint32 \<Rightarrow> nat option option" where
  "cache_find st regex fl = find_slot (heap st) regex fl (cache st)"

definition cache_hit :: "bool \<Rightarrow> nat \<Rightarrow> nat \<Rightarrow> 'c pcre2_state \<Rightarrow> ('c pcre2_state \<times> nat option outcome) option" where
  "cache_hit reg_ok c a st =
     (case heap st a of None \<Rightarrow> None
      | Some e \<Rightarrow>
          do { let st1 = st\<lparr>heap := (heap st)(a \<mapsto> e\<lparr>lru_counter := lru_clock st + 1\<rparr>), lru_clock := lru_clock st + 1\<rparr>;
               (st2, r) \<leftarrow> pg_jitter_pcre2_pin_entry reg_ok c a st1;
               Some (case r of Throw \<Rightarrow> (st2, Throw)
                 | Ret pinned \<Rightarrow> if pinned then (st2\<lparr>compile_counter := compile_counter st2 + 1\<rparr>, Ret (Some a)) else (st2, Ret None)) })"

definition cache_miss :: "(uint8 list \<Rightarrow> uint32 \<Rightarrow> 'c option) \<Rightarrow> comp_event \<Rightarrow> nat \<Rightarrow> uint8 list \<Rightarrow> uint32 \<Rightarrow>
    'c pcre2_state \<Rightarrow> ('c pcre2_state \<times> nat option outcome) option" where
  "cache_miss lib ev c regex fl st =
     (if \<not> ev_entry_ok ev then Some (st, Ret None)
      else case lib regex fl of None \<Rightarrow> Some (st, Ret None)
      | Some compiled \<Rightarrow>
          if \<not> ev_match_data_ok ev then Some (st, Ret None)
          else do {
            s \<leftarrow> pg_jitter_pcre2_choose_slot st;
            (case s of None \<Rightarrow> Some (st, Ret None)
             | Some slot \<Rightarrow>
                 do { st1 \<leftarrow> pg_jitter_pcre2_evict_slot slot st;
                      if \<not> ev_match_context_ok ev then Some (st1, Ret None)
                      else do {
                        let a = ev_addr ev;
                        let st2 = st1\<lparr>heap := (heap st1)(a \<mapsto> \<lparr>pattern = regex, flags = fl, code = compiled, refcount = 0,
                          in_cache = False, lru_counter = 0\<rparr>)\<rparr>;
                        (st3, r) \<leftarrow> pg_jitter_pcre2_publish_and_pin_entry (ev_register_ok ev) c slot a st2;
                        Some (case r of Throw \<Rightarrow> (st3, Throw)
                          | Ret pinned \<Rightarrow> if pinned then (st3\<lparr>compile_counter := compile_counter st3 + 1\<rparr>, Ret (Some a)) else (st3, Ret None)) } }) })"

definition translate_pattern :: "(nat \<Rightarrow> bool) \<Rightarrow> uint8 list \<Rightarrow> int \<Rightarrow> bool \<Rightarrow> uint8 list option" where
  "translate_pattern alloc_ok pat patlen is_like =
     (if is_like then like_to_regex alloc_ok pat patlen else raw_regex_to_pcre2 alloc_ok pat patlen)"

definition pg_jitter_pcre2_compile ::
  "pcre2_env \<Rightarrow> (uint8 list \<Rightarrow> uint32 \<Rightarrow> 'c option) \<Rightarrow> comp_event \<Rightarrow> nat \<Rightarrow> uint8 list \<Rightarrow> int \<Rightarrow> bool \<Rightarrow> bool \<Rightarrow> Oid \<Rightarrow>
    'c pcre2_state \<Rightarrow> ('c pcre2_state \<times> nat option outcome) option" where
  "pg_jitter_pcre2_compile env lib ev c pat patlen is_like case_insensitive collid st =
     (if \<not> pg_jitter_pcre2_is_eligible env collid is_like case_insensitive then Some (st, Ret None)
      else if patlen < 0 \<or> nat patlen > PCRE2_MAX_PATTERN_BYTES then Some (st, Ret None)
      else let fl = pg_jitter_pcre2_compile_flags env case_insensitive
      in case translate_pattern (ev_alloc_ok ev) pat patlen is_like of None \<Rightarrow> Some (st, Ret None)
      | Some regex \<Rightarrow>
          if length regex > PCRE2_MAX_PATTERN_BYTES then Some (st, Ret None)
          else case cache_find st regex fl of
              None \<Rightarrow> None
            | Some (Some a) \<Rightarrow> cache_hit (ev_register_ok ev) c a st
            | Some None \<Rightarrow> cache_miss lib ev c regex fl st)"

text \<open>The release of a context runs the registered functions, last registered first.\<close>

fun release_list :: "nat list \<Rightarrow> 'c pcre2_state \<Rightarrow> 'c pcre2_state option" where
  "release_list [] st = Some st"
| "release_list (a # as) st = do { st \<leftarrow> pg_jitter_pcre2_unpin_entry a st; release_list as st }"

definition pg_jitter_release_context :: "nat \<Rightarrow> 'c pcre2_state \<Rightarrow> 'c pcre2_state option" where
  "pg_jitter_release_context c st =
     do { st1 \<leftarrow> release_list (contexts st ! c) st; Some (st1\<lparr>contexts := (contexts st1)[c := []]\<rparr>) }"

section \<open>The invariant\<close>

text \<open>\<open>P a\<close> is the number of pins of the entry at \<open>a\<close> that are still to be released.\<close>

definition slots_distinct :: "'a option list \<Rightarrow> bool" where
  "slots_distinct xs \<longleftrightarrow> (\<forall>i<length xs. \<forall>j<length xs. xs ! i = xs ! j \<and> xs ! i \<noteq> None \<longrightarrow> i = j)"

definition entry_ok ::
  "(uint8 list \<Rightarrow> uint32 \<Rightarrow> 'c option) \<Rightarrow> (nat \<Rightarrow> nat) \<Rightarrow> nat option list \<Rightarrow> nat \<Rightarrow> 'c Pcre2CacheEntry \<Rightarrow> bool" where
  "entry_ok lib P slots a e \<longleftrightarrow> refcount e = P a \<and> (in_cache e \<longleftrightarrow> Some a \<in> set slots) \<and> (in_cache e \<or> 0 < P a) \<and>
     lib (pattern e) (flags e) = Some (code e)"

definition pinv :: "(uint8 list \<Rightarrow> uint32 \<Rightarrow> 'c option) \<Rightarrow> (nat \<Rightarrow> nat) \<Rightarrow> 'c pcre2_state \<Rightarrow> bool" where
  "pinv lib P st \<longleftrightarrow> length (cache st) = PCRE2_CACHE_SIZE \<and> slots_distinct (cache st) \<and>
     (\<forall>a. case heap st a of None \<Rightarrow> P a = 0 \<and> Some a \<notin> set (cache st) | Some e \<Rightarrow> entry_ok lib P (cache st) a e)"

definition pins :: "nat list list \<Rightarrow> nat \<Rightarrow> nat" where
  "pins ctxs a = sum_list (map (\<lambda>l. count_list l a) ctxs)"

definition cache_inv :: "(uint8 list \<Rightarrow> uint32 \<Rightarrow> 'c option) \<Rightarrow> 'c pcre2_state \<Rightarrow> bool" where
  "cache_inv lib st \<longleftrightarrow> pinv lib (pins (contexts st)) st"

text \<open>What a user of an entry relies on: the entry is there and is for the same pattern.\<close>

definition keeps :: "'c pcre2_state \<Rightarrow> 'c pcre2_state \<Rightarrow> nat \<Rightarrow> bool" where
  "keeps st st' a \<longleftrightarrow> (\<forall>e. heap st a = Some e \<longrightarrow>
     (\<exists>e'. heap st' a = Some e' \<and> pattern e' = pattern e \<and> flags e' = flags e \<and> code e' = code e))"

lemma keeps_refl [simp]: "keeps st st a"
  by (simp add: keeps_def)

lemma keeps_trans: "keeps st st' a \<Longrightarrow> keeps st' st'' a \<Longrightarrow> keeps st st'' a"
  unfolding keeps_def by fastforce

lemma pinv_None: "pinv lib P st \<Longrightarrow> heap st a = None \<Longrightarrow> P a = 0 \<and> Some a \<notin> set (cache st)"
  unfolding pinv_def by (drule conjunct2, drule conjunct2, drule spec [of _ a]) simp

lemma pinv_Some: "pinv lib P st \<Longrightarrow> heap st a = Some e \<Longrightarrow> entry_ok lib P (cache st) a e"
  unfolding pinv_def by (drule conjunct2, drule conjunct2, drule spec [of _ a]) simp

lemma pinvI:
  assumes "length (cache st) = PCRE2_CACHE_SIZE" "slots_distinct (cache st)"
    and "\<And>a. heap st a = None \<Longrightarrow> P a = 0 \<and> Some a \<notin> set (cache st)"
    and "\<And>a e. heap st a = Some e \<Longrightarrow> entry_ok lib P (cache st) a e"
  shows "pinv lib P st"
  using assms by (simp add: pinv_def split: option.split)

lemma pinv_update [simp]:
  "pinv lib P (st\<lparr>contexts := x\<rparr>) = pinv lib P st" "pinv lib P (st\<lparr>lru_clock := y\<rparr>) = pinv lib P st"
  "pinv lib P (st\<lparr>compile_counter := z\<rparr>) = pinv lib P st"
  "pinv lib P (st\<lparr>match_counter := z\<rparr>) = pinv lib P st"
  by (simp_all add: pinv_def cong: option.case_cong)

lemma pinv_slots: "pinv lib P st \<Longrightarrow> length (cache st) = PCRE2_CACHE_SIZE \<and> slots_distinct (cache st)"
  by (simp add: pinv_def)

lemma pinv_pinned: "pinv lib P st \<Longrightarrow> 0 < P a \<Longrightarrow> \<exists>e. heap st a = Some e \<and> entry_ok lib P (cache st) a e"
  using pinv_None pinv_Some by (metis less_nat_zero_code option.exhaust)

lemma pinv_cached: "pinv lib P st \<Longrightarrow> Some a \<in> set (cache st) \<Longrightarrow> \<exists>e. heap st a = Some e \<and> entry_ok lib P (cache st) a e"
  using pinv_None pinv_Some by (metis option.exhaust)

lemma set_clear_slot:
  assumes "slots_distinct xs" "i < length xs" "xs ! i = Some a"
  shows "Some b \<in> set (xs[i := None]) \<longleftrightarrow> Some b \<in> set xs \<and> b \<noteq> a"
proof
  assume "Some b \<in> set (xs[i := None])"
  then obtain j where "j < length xs" "xs[i := None] ! j = Some b"
    by (auto simp: in_set_conv_nth)
  then have j: "j < length xs" "j \<noteq> i" "xs ! j = Some b"
    using assms(2) by (auto simp: nth_list_update split: if_splits)
  then show "Some b \<in> set xs \<and> b \<noteq> a"
    using assms unfolding slots_distinct_def by (metis nth_mem option.distinct(1))
next
  assume "Some b \<in> set xs \<and> b \<noteq> a"
  then obtain j where "j < length xs" "xs ! j = Some b" "j \<noteq> i"
    using assms(3) by (metis in_set_conv_nth option.inject)
  then show "Some b \<in> set (xs[i := None])"
    by (metis length_list_update nth_list_update_neq nth_mem)
qed

lemma slots_distinctD: "slots_distinct xs \<Longrightarrow> i < length xs \<Longrightarrow> j < length xs \<Longrightarrow> xs ! i = Some a \<Longrightarrow> xs ! j = Some a \<Longrightarrow> i = j"
  unfolding slots_distinct_def by (metis option.distinct(1))

lemma slots_distinctI:
  "(\<And>i j a. i < length xs \<Longrightarrow> j < length xs \<Longrightarrow> xs ! i = Some a \<Longrightarrow> xs ! j = Some a \<Longrightarrow> i = j) \<Longrightarrow> slots_distinct xs"
  unfolding slots_distinct_def by (metis not_None_eq)

lemma slots_distinct_clear:
  assumes "slots_distinct xs"
  shows "slots_distinct (xs[i := None])"
proof (rule slots_distinctI)
  fix k j a
  assume "k < length (xs[i := None])" "j < length (xs[i := None])" "xs[i := None] ! k = Some a" "xs[i := None] ! j = Some a"
  then show "k = j"
    using slots_distinctD [OF assms, of k j a] by (cases "k = i"; cases "j = i") simp_all
qed

lemma set_fill_slot:
  assumes "i < length xs" "xs ! i = None"
  shows "Some b \<in> set (xs[i := Some a]) \<longleftrightarrow> Some b \<in> set xs \<or> b = a"
proof
  assume "Some b \<in> set (xs[i := Some a])"
  then show "Some b \<in> set xs \<or> b = a"
    using set_update_subset_insert [of xs i "Some a"] by auto
next
  assume "Some b \<in> set xs \<or> b = a"
  then consider "b = a" | j where "j < length xs" "xs ! j = Some b" "j \<noteq> i"
    using assms(2) by (metis in_set_conv_nth option.distinct(1))
  then show "Some b \<in> set (xs[i := Some a])"
  proof cases
    case 1
    then show ?thesis
      using assms(1) by (simp add: set_update_memI)
  next
    case 2
    then show ?thesis
      by (metis length_list_update nth_list_update_neq nth_mem)
  qed
qed

lemma slots_distinct_fill:
  assumes "slots_distinct xs" "Some a \<notin> set xs"
  shows "slots_distinct (xs[i := Some a])"
proof (rule slots_distinctI)
  fix k j b
  assume "k < length (xs[i := Some a])" "j < length (xs[i := Some a])" "xs[i := Some a] ! k = Some b" "xs[i := Some a] ! j = Some b"
  then show "k = j"
    using slots_distinctD [OF assms(1), of k j b] assms(2) nth_mem [of k xs] nth_mem [of j xs]
    by (cases "k = i"; cases "j = i") auto
qed

section \<open>Pins\<close>

lemma pins_register:
  assumes "c < length ctxs"
  shows "pins (ctxs[c := a # ctxs ! c]) = (pins ctxs)(a := pins ctxs a + 1)"
proof
  fix b
  have "pins (ctxs[c := a # ctxs ! c]) b + count_list (ctxs ! c) b = pins ctxs b + count_list (a # ctxs ! c) b"
    using assms sum_list_update [of c "map (\<lambda>l. count_list l b) ctxs" "count_list (a # ctxs ! c) b"]
      member_le_sum_list [of "count_list (ctxs ! c) b" "map (\<lambda>l. count_list l b) ctxs"]
    by (auto simp: pins_def map_update)
  then show "pins (ctxs[c := a # ctxs ! c]) b = ((pins ctxs)(a := pins ctxs a + 1)) b"
    by (cases "b = a") simp_all
qed

lemma pins_release:
  assumes "c < length ctxs"
  shows "pins ctxs b = count_list (ctxs ! c) b + pins (ctxs[c := []]) b"
  using assms sum_list_update [of c "map (\<lambda>l. count_list l b) ctxs" 0]
    member_le_sum_list [of "count_list (ctxs ! c) b" "map (\<lambda>l. count_list l b) ctxs"]
  by (auto simp: pins_def map_update)

lemma unpin_ok:
  assumes "pinv lib P st" "0 < P a"
  shows "\<exists>st'. pg_jitter_pcre2_unpin_entry a st = Some st' \<and> pinv lib (P(a := P a - 1)) st' \<and>
    contexts st' = contexts st \<and> (\<forall>b. 0 < (P(a := P a - 1)) b \<longrightarrow> keeps st st' b)"
proof -
  obtain e where e: "heap st a = Some e" "entry_ok lib P (cache st) a e"
    using pinv_pinned [OF assms] by blast
  define e' where "e' = e\<lparr>refcount := refcount e - 1\<rparr>"
  have e': "refcount e' = P a - 1" "in_cache e' = in_cache e" "pattern e' = pattern e" "flags e' = flags e" "code e' = code e"
    using e(2) by (auto simp: e'_def entry_ok_def)
  have pos: "0 < refcount e"
    using e(2) assms(2) by (simp add: entry_ok_def)
  have others: "entry_ok lib (P(a := P a - 1)) (cache st) b f" if "heap st b = Some f" "b \<noteq> a" for b f
    using pinv_Some [OF assms(1) that(1)] that(2) by (auto simp: entry_ok_def)
  have free: "P b = 0 \<and> Some b \<notin> set (cache st)" if "heap st b = None" for b
    using pinv_None [OF assms(1) that] .
  show ?thesis
  proof (cases "refcount e' = 0 \<and> \<not> in_cache e'")
    case True
    then have "pg_jitter_pcre2_unpin_entry a st = Some (st\<lparr>heap := (heap st)(a := None)\<rparr>)"
      using e(1) pos by (simp add: pg_jitter_pcre2_unpin_entry_def pg_jitter_pcre2_free_entry_def e'_def)
    moreover have "pinv lib (P(a := P a - 1)) (st\<lparr>heap := (heap st)(a := None)\<rparr>)"
    proof (rule pinvI)
      show "(P(a := P a - 1)) b = 0 \<and> Some b \<notin> set (cache (st\<lparr>heap := (heap st)(a := None)\<rparr>))"
        if "heap (st\<lparr>heap := (heap st)(a := None)\<rparr>) b = None" for b
        using that free [of b] True e' e(2) by (cases "b = a") (auto simp: entry_ok_def)
    qed (use pinv_slots [OF assms(1)] others in \<open>auto split: if_splits\<close>)
    moreover have "keeps st (st\<lparr>heap := (heap st)(a := None)\<rparr>) b" if "0 < (P(a := P a - 1)) b" for b
      using that True e' by (auto simp: keeps_def)
    ultimately show ?thesis
      by auto
  next
    case False
    then have "pg_jitter_pcre2_unpin_entry a st = Some (st\<lparr>heap := (heap st)(a \<mapsto> e')\<rparr>)"
      using e(1) pos by (auto simp: pg_jitter_pcre2_unpin_entry_def e'_def Let_def)
    moreover have "pinv lib (P(a := P a - 1)) (st\<lparr>heap := (heap st)(a \<mapsto> e')\<rparr>)"
    proof (rule pinvI)
      show "entry_ok lib (P(a := P a - 1)) (cache (st\<lparr>heap := (heap st)(a \<mapsto> e')\<rparr>)) b f"
        if "heap (st\<lparr>heap := (heap st)(a \<mapsto> e')\<rparr>) b = Some f" for b f
        using that others [of b f] False e' e(2) by (cases "b = a") (auto simp: entry_ok_def)
    qed (use pinv_slots [OF assms(1)] free in \<open>auto split: if_splits\<close>)
    moreover have "keeps st (st\<lparr>heap := (heap st)(a \<mapsto> e')\<rparr>) b" for b
      using e(1) e' by (auto simp: keeps_def)
    ultimately show ?thesis
      by auto
  qed
qed

lemma release_list_ok:
  assumes "pinv lib (\<lambda>b. count_list as b + Q b) st"
  shows "\<exists>st'. release_list as st = Some st' \<and> pinv lib Q st' \<and> contexts st' = contexts st \<and>
    (\<forall>b. 0 < Q b \<longrightarrow> keeps st st' b)"
  using assms
proof (induction as arbitrary: st)
  case Nil
  then show ?case
    by simp
next
  case (Cons a as)
  let ?P = "\<lambda>b. count_list (a # as) b + Q b"
  have P': "?P(a := ?P a - 1) = (\<lambda>b. count_list as b + Q b)"
    by auto
  obtain st1 where st1: "pg_jitter_pcre2_unpin_entry a st = Some st1" "pinv lib (\<lambda>b. count_list as b + Q b) st1"
    "contexts st1 = contexts st" "\<And>b. 0 < count_list as b + Q b \<Longrightarrow> keeps st st1 b"
    using unpin_ok [OF Cons.prems, of a] unfolding P' by auto
  obtain st2 where "release_list as st1 = Some st2" "pinv lib Q st2" "contexts st2 = contexts st1"
    "\<And>b. 0 < Q b \<Longrightarrow> keeps st1 st2 b"
    using Cons.IH [OF st1(2)] by blast
  moreover have "keeps st st2 b" if "0 < Q b" for b
    using keeps_trans [OF st1(4) calculation(4)] that by simp
  ultimately show ?case
    using st1(1,3) by auto
qed

lemma release_context_ok:
  assumes "cache_inv lib st" "c < length (contexts st)"
  shows "\<exists>st'. pg_jitter_release_context c st = Some st' \<and> cache_inv lib st' \<and> contexts st' = (contexts st)[c := []] \<and>
    (\<forall>b. 0 < pins (contexts st') b \<longrightarrow> keeps st st' b)"
proof -
  have "pinv lib (\<lambda>b. count_list (contexts st ! c) b + pins ((contexts st)[c := []]) b) st"
    using assms(1) unfolding cache_inv_def by (rule subst [OF ext [OF pins_release [OF assms(2)]], rotated])
  from release_list_ok [OF this] obtain st1 where "release_list (contexts st ! c) st = Some st1"
    "pinv lib (pins ((contexts st)[c := []])) st1" "contexts st1 = contexts st"
    "\<forall>b. 0 < pins ((contexts st)[c := []]) b \<longrightarrow> keeps st st1 b"
    by blast
  then show ?thesis
    by (auto simp: pg_jitter_release_context_def cache_inv_def keeps_def)
qed

section \<open>The slot to reuse\<close>

text \<open>\<open>best h pre Q acc\<close>: \<open>acc\<close> is the least recently used slot of \<open>pre\<close> that satisfies \<open>Q\<close>.\<close>

definition best :: "(nat \<Rightarrow> 'c Pcre2CacheEntry option) \<Rightarrow> nat option list \<Rightarrow> ('c Pcre2CacheEntry \<Rightarrow> bool) \<Rightarrow>
    (nat \<times> uint64) option \<Rightarrow> bool" where
  "best h pre Q acc \<longleftrightarrow> (case acc of
     None \<Rightarrow> (\<forall>b e. Some b \<in> set pre \<and> h b = Some e \<longrightarrow> \<not> Q e)
   | Some (s, oldest) \<Rightarrow> s < length pre \<and> (\<exists>a e. pre ! s = Some a \<and> h a = Some e \<and> Q e \<and> lru_counter e = oldest \<and>
       (\<forall>b f. Some b \<in> set pre \<and> h b = Some f \<and> Q f \<longrightarrow> lru_counter e \<le> lru_counter f)))"

lemma best_snoc_other: "best h pre Q acc \<Longrightarrow> h a = Some e \<Longrightarrow> \<not> Q e \<Longrightarrow> best h (pre @ [Some a]) Q acc"
  by (auto simp: best_def nth_append split: option.splits)

lemma best_snoc:
  assumes "best h pre Q acc" "h a = Some e" "Q e"
  shows "best h (pre @ [Some a]) Q (case acc of None \<Rightarrow> Some (length pre, lru_counter e)
    | Some (s, oldest) \<Rightarrow> if lru_counter e < oldest then Some (length pre, lru_counter e) else acc)"
  using assms
  by (auto simp: best_def nth_append split: option.splits prod.splits if_splits) (meson dual_order.trans less_imp_le not_le)+

definition lru_slot :: "(nat \<Rightarrow> 'c Pcre2CacheEntry option) \<Rightarrow> nat option list \<Rightarrow> nat \<Rightarrow> bool" where
  "lru_slot h slots s \<longleftrightarrow> s < length slots \<and> (case slots ! s of
     None \<Rightarrow> True
   | Some a \<Rightarrow> None \<notin> set slots \<and> (\<exists>e. h a = Some e \<and>
       (refcount e > 0 \<longrightarrow> (\<forall>b f. Some b \<in> set slots \<and> h b = Some f \<longrightarrow> refcount f > 0)) \<and>
       (\<forall>b f. Some b \<in> set slots \<and> h b = Some f \<and> (refcount f > 0 \<longleftrightarrow> refcount e > 0) \<longrightarrow> lru_counter e \<le> lru_counter f)))"

lemma choose_slot_loop_spec:
  assumes "\<forall>a. Some a \<in> set (pre @ slots) \<longrightarrow> h a \<noteq> None" "None \<notin> set pre" "pre @ slots \<noteq> []"
    and "best h pre (\<lambda>e. refcount e = 0) u" "best h pre (\<lambda>e. refcount e > 0) p"
  shows "\<exists>s. choose_slot_loop h slots (length pre) u p = Some (Some s) \<and> lru_slot h (pre @ slots) s"
  using assms
proof (induction slots arbitrary: pre u p)
  case Nil
  show ?case
  proof (cases u)
    case (Some x)
    then show ?thesis
      using Nil by (cases x) (force simp: best_def lru_slot_def)
  next
    case None
    have "p \<noteq> None"
    proof
      assume "p = None"
      obtain a where "Some a \<in> set pre"
        using Nil.prems(2,3) by (metis append_Nil2 list.set_sel(1) not_None_eq)
      then obtain e where "h a = Some e"
        using Nil.prems(1) by fastforce
      then show False
        using Nil.prems(4,5) None \<open>p = None\<close> \<open>Some a \<in> set pre\<close> by (auto simp: best_def)
    qed
    then obtain s l where p: "p = Some (s, l)"
      by auto
    then show ?thesis
      using Nil None by (force simp: best_def lru_slot_def)
  qed
next
  case (Cons x slots)
  show ?case
  proof (cases x)
    case None
    then show ?thesis
      by (simp add: lru_slot_def nth_append)
  next
    case (Some a)
    then obtain e where e: "h a = Some e"
      using Cons.prems(1) by fastforce
    have pre: "\<forall>b. Some b \<in> set ((pre @ [Some a]) @ slots) \<longrightarrow> h b \<noteq> None" "None \<notin> set (pre @ [Some a])"
      "(pre @ [Some a]) @ slots \<noteq> []"
      using Cons.prems Some by auto
    show ?thesis
    proof (cases "refcount e = 0")
      case True
      then show ?thesis
        using Cons.IH [OF pre best_snoc [OF Cons.prems(4) e True] best_snoc_other [OF Cons.prems(5) e]] Some e by simp
    next
      case False
      then show ?thesis
        using Cons.IH [OF pre best_snoc_other [OF Cons.prems(4) e] best_snoc [OF Cons.prems(5) e]] Some e by simp
    qed
  qed
qed

lemma choose_slot_ok:
  assumes "pinv lib P st"
  shows "\<exists>s. pg_jitter_pcre2_choose_slot st = Some (Some s) \<and> s < PCRE2_CACHE_SIZE \<and> lru_slot (heap st) (cache st) s"
proof -
  have len: "length (cache st) = 64"
    using pinv_slots [OF assms] by (simp add: PCRE2_CACHE_SIZE_def)
  have "\<exists>s. choose_slot_loop (heap st) (cache st) (length ([] :: nat option list)) None None = Some (Some s) \<and>
      lru_slot (heap st) ([] @ cache st) s"
  proof (rule choose_slot_loop_spec)
    show "\<forall>a. Some a \<in> set ([] @ cache st) \<longrightarrow> heap st a \<noteq> None"
      using pinv_None [OF assms] by auto
    show "[] @ cache st \<noteq> []"
      using len by auto
  qed (auto simp: best_def)
  then show ?thesis
    using len by (auto simp: pg_jitter_pcre2_choose_slot_def lru_slot_def PCRE2_CACHE_SIZE_def)
qed

section \<open>Every operation keeps the invariant\<close>

lemma evict_ok:
  assumes "pinv lib P st" "s < PCRE2_CACHE_SIZE"
  shows "\<exists>st'. pg_jitter_pcre2_evict_slot s st = Some st' \<and> pinv lib P st' \<and> cache st' ! s = None \<and>
    contexts st' = contexts st \<and> (\<forall>b. heap st b = None \<longrightarrow> heap st' b = None) \<and> (\<forall>b. 0 < P b \<longrightarrow> keeps st st' b)"
proof (cases "cache st ! s")
  case None
  then show ?thesis
    using assms by (auto simp: pg_jitter_pcre2_evict_slot_def)
next
  case (Some a)
  have slot: "s < length (cache st)" and dist: "slots_distinct (cache st)"
    using assms pinv_slots [OF assms(1)] by auto
  obtain e where e: "heap st a = Some e" "entry_ok lib P (cache st) a e"
    using pinv_cached [OF assms(1)] nth_mem [OF slot] Some by metis
  define st2 where "st2 = st\<lparr>heap := (heap st)(a \<mapsto> e\<lparr>in_cache := False\<rparr>), cache := (cache st)[s := None]\<rparr>"
  note members = set_clear_slot [OF dist slot Some]
  have others: "entry_ok lib P ((cache st)[s := None]) b f" if "heap st b = Some f" "b \<noteq> a" for b f
    using pinv_Some [OF assms(1) that(1)] that(2) by (auto simp: entry_ok_def members)
  have free: "P b = 0 \<and> Some b \<notin> set ((cache st)[s := None])" if "heap st b = None" for b
    using pinv_None [OF assms(1) that] by (simp add: members)
  show ?thesis
  proof (cases "refcount e = 0")
    case True
    define st3 where "st3 = st2\<lparr>heap := (heap st2)(a := None)\<rparr>"
    have "pg_jitter_pcre2_evict_slot s st = Some st3"
      using assms(2) Some e(1) True
      by (simp add: pg_jitter_pcre2_evict_slot_def set_in_cache_def pg_jitter_pcre2_free_entry_def st2_def st3_def)
    moreover have "pinv lib P st3"
    proof (rule pinvI)
      show "P b = 0 \<and> Some b \<notin> set (cache st3)" if "heap st3 b = None" for b
        using that free [of b] e(2) True members [of a] by (cases "b = a") (auto simp: st2_def st3_def entry_ok_def)
    qed (use pinv_slots [OF assms(1)] others slots_distinct_clear in \<open>auto simp: st2_def st3_def split: if_splits\<close>)
    moreover have "keeps st st3 b" if "0 < P b" for b
      using that e(2) True by (auto simp: keeps_def st2_def st3_def entry_ok_def)
    ultimately show ?thesis
      using slot by (auto simp: st2_def st3_def)
  next
    case False
    have "pg_jitter_pcre2_evict_slot s st = Some st2"
      using assms(2) Some e(1) False
      by (simp add: pg_jitter_pcre2_evict_slot_def set_in_cache_def st2_def)
    moreover have "pinv lib P st2"
    proof (rule pinvI)
      show "entry_ok lib P (cache st2) b f" if "heap st2 b = Some f" for b f
        using that others [of b f] e(2) False members [of a] by (cases "b = a") (auto simp: st2_def entry_ok_def)
    qed (use pinv_slots [OF assms(1)] free slots_distinct_clear in \<open>auto simp: st2_def split: if_splits\<close>)
    moreover have "keeps st st2 b" for b
      using e by (auto simp: keeps_def st2_def)
    ultimately show ?thesis
      using slot by (auto simp: st2_def e(1))
  qed
qed

lemma cache_inv_pin:
  assumes "pinv lib ((pins (contexts st))(a := pins (contexts st) a + 1)) st" "c < length (contexts st)"
  shows "cache_inv lib (st\<lparr>contexts := (contexts st)[c := a # contexts st ! c]\<rparr>)"
  using assms by (simp add: cache_inv_def pins_register)

text \<open>Publishing a new entry pins it, or leaves nothing behind when the registration fails.\<close>

lemma publish_ok:
  assumes inv: "cache_inv lib st" and new: "heap st a = None" and slot: "s < PCRE2_CACHE_SIZE" "cache st ! s = None"
    and c: "c < length (contexts st)" and compiled: "lib regex fl = Some cd"
  defines "st1 \<equiv> st\<lparr>heap := (heap st)(a \<mapsto> \<lparr>pattern = regex, flags = fl, code = cd, refcount = 0, in_cache = False, lru_counter = 0\<rparr>)\<rparr>"
  shows "\<exists>st'. pg_jitter_pcre2_publish_and_pin_entry reg_ok c s a st1 = Some (st', if reg_ok then Ret True else Throw) \<and>
    cache_inv lib st' \<and> (\<forall>b. keeps st st' b) \<and>
    contexts st' = (if reg_ok then (contexts st)[c := a # contexts st ! c] else contexts st) \<and>
    (reg_ok \<longrightarrow> (\<exists>e. heap st' a = Some e \<and> pattern e = regex \<and> flags e = fl \<and> code e = cd))"
proof -
  let ?P = "pins (contexts st)"
  have pinv: "pinv lib ?P st"
    using inv by (simp add: cache_inv_def)
  have len: "s < length (cache st)" and dist: "slots_distinct (cache st)"
    using pinv_slots [OF pinv] slot(1) by auto
  have fresh: "?P a = 0" "Some a \<notin> set (cache st)"
    using pinv_None [OF pinv new] by auto
  define e where "e = \<lparr>pattern = regex, flags = fl, code = cd, refcount = 1, in_cache = True, lru_counter = lru_clock st + 1\<rparr>"
  define st2 where "st2 = st\<lparr>heap := (heap st)(a \<mapsto> e), lru_clock := lru_clock st + 1, cache := (cache st)[s := Some a]\<rparr>"
  note members = set_fill_slot [OF len slot(2)]
  show ?thesis
  proof (cases reg_ok)
    case True
    have "pg_jitter_pcre2_publish_and_pin_entry reg_ok c s a st1 =
        Some (st2\<lparr>contexts := (contexts st2)[c := a # contexts st2 ! c]\<rparr>, Ret True)"
      using slot(1) True
      by (simp add: pg_jitter_pcre2_publish_and_pin_entry_def pg_jitter_pcre2_pin_entry_def
          pg_jitter_register_compiled_def st1_def st2_def e_def)
    moreover have "pinv lib ((pins (contexts st2))(a := pins (contexts st2) a + 1)) st2"
    proof (rule pinvI)
      show "entry_ok lib ((pins (contexts st2))(a := pins (contexts st2) a + 1)) (cache st2) b f" if "heap st2 b = Some f" for b f
      proof (cases "b = a")
        case True
        then show ?thesis
          using that fresh compiled by (auto simp: st2_def e_def entry_ok_def members)
      next
        case False
        then show ?thesis
          using that pinv_Some [OF pinv, of b f] by (auto simp: st2_def entry_ok_def members)
      qed
      show "((pins (contexts st2))(a := pins (contexts st2) a + 1)) b = 0 \<and> Some b \<notin> set (cache st2)" if "heap st2 b = None" for b
        using that pinv_None [OF pinv, of b] by (auto simp: st2_def members split: if_splits)
    qed (use pinv_slots [OF pinv] slots_distinct_fill [OF dist fresh(2)] in \<open>auto simp: st2_def\<close>)
    moreover have "keeps st (st2\<lparr>contexts := x\<rparr>) b" for b x
      using new by (auto simp: keeps_def st2_def)
    ultimately show ?thesis
      using cache_inv_pin [of lib st2 a c] c True by (auto simp: st2_def e_def)
  next
    case False
    have "(heap st)(a := None) = heap st" "(cache st)[s := None] = cache st"
      using new slot(2) by (auto simp: list_update_same_conv [OF len])
    then have "pg_jitter_pcre2_publish_and_pin_entry reg_ok c s a st1 = Some (st\<lparr>lru_clock := lru_clock st + 1\<rparr>, Throw)"
      using slot(1) False len
      by (simp add: pg_jitter_pcre2_publish_and_pin_entry_def pg_jitter_pcre2_pin_entry_def unpublish_def
          pg_jitter_register_compiled_def set_in_cache_def pg_jitter_pcre2_free_entry_def st1_def)
    then show ?thesis
      using pinv False by (auto simp: cache_inv_def keeps_def)
  qed
qed

lemma cache_hit_ok:
  assumes inv: "cache_inv lib st" and e: "heap st a = Some e" and c: "c < length (contexts st)"
  shows "\<exists>st'. cache_hit reg_ok c a st = Some (st', if reg_ok then Ret (Some a) else Throw) \<and>
    cache_inv lib st' \<and> (\<forall>b. keeps st st' b) \<and>
    contexts st' = (if reg_ok then (contexts st)[c := a # contexts st ! c] else contexts st)"
proof -
  let ?P = "pins (contexts st)"
  have pinv: "pinv lib ?P st"
    using inv by (simp add: cache_inv_def)
  have ok: "entry_ok lib ?P (cache st) a e"
    using pinv_Some [OF pinv e] .
  have upd: "pinv lib (?P(a := n)) (st\<lparr>heap := (heap st)(a \<mapsto> e\<lparr>lru_counter := l, refcount := n\<rparr>)\<rparr>)"
    if "n \<ge> ?P a" for n l
  proof (rule pinvI)
    show "entry_ok lib (?P(a := n)) (cache (st\<lparr>heap := (heap st)(a \<mapsto> e\<lparr>lru_counter := l, refcount := n\<rparr>)\<rparr>)) b f"
      if "heap (st\<lparr>heap := (heap st)(a \<mapsto> e\<lparr>lru_counter := l, refcount := n\<rparr>)\<rparr>) b = Some f" for b f
      using that ok \<open>n \<ge> ?P a\<close> pinv_Some [OF pinv, of b f] by (cases "b = a") (auto simp: entry_ok_def)
  qed (use pinv_slots [OF pinv] pinv_None [OF pinv] in \<open>auto split: if_splits\<close>)
  have n: "refcount e = ?P a"
    using ok by (simp add: entry_ok_def)
  show ?thesis
  proof (cases reg_ok)
    case True
    define st2 where "st2 = st\<lparr>heap := (heap st)(a \<mapsto> e\<lparr>lru_counter := lru_clock st + 1, refcount := refcount e + 1\<rparr>)\<rparr>"
    have "cache_hit reg_ok c a st = Some (st2\<lparr>lru_clock := lru_clock st + 1, compile_counter := compile_counter st + 1,
        contexts := (contexts st2)[c := a # contexts st2 ! c]\<rparr>, Ret (Some a))"
      using True e by (simp add: cache_hit_def pg_jitter_pcre2_pin_entry_def pg_jitter_register_compiled_def st2_def)
    moreover have "cache_inv lib (st2\<lparr>contexts := (contexts st2)[c := a # contexts st2 ! c]\<rparr>)"
      using cache_inv_pin [of lib st2 a c] upd [of "?P a + 1" "lru_clock st + 1"] c n by (simp add: st2_def)
    ultimately show ?thesis
      using True e by (auto simp: st2_def keeps_def cache_inv_def)
  next
    case False
    have "cache_hit reg_ok c a st = Some (st\<lparr>heap := (heap st)(a \<mapsto> e\<lparr>lru_counter := lru_clock st + 1\<rparr>), lru_clock := lru_clock st + 1\<rparr>, Throw)"
      using False e by (simp add: cache_hit_def pg_jitter_pcre2_pin_entry_def pg_jitter_register_compiled_def)
    moreover have "e\<lparr>lru_counter := l, refcount := ?P a\<rparr> = e\<lparr>lru_counter := l\<rparr>" for l
      using n by (cases e) simp
    then have "pinv lib ?P (st\<lparr>heap := (heap st)(a \<mapsto> e\<lparr>lru_counter := lru_clock st + 1\<rparr>)\<rparr>)"
      using upd [of "?P a" "lru_clock st + 1"] by (simp only: fun_upd_triv order_refl)
    ultimately show ?thesis
      using False e by (auto simp: keeps_def cache_inv_def)
  qed
qed

lemma keeps_pinned: "keeps st st' b \<Longrightarrow> 0 < pins (contexts st) b \<Longrightarrow> cache_inv lib st \<Longrightarrow> \<exists>e. heap st' b = Some e"
  unfolding cache_inv_def keeps_def by (meson pinv_pinned)

text \<open>What a compilation guarantees: no failure, the invariant, every pinned entry is kept, and a
  returned entry is for the pattern and is registered in the context.\<close>

definition compile_post ::
  "(uint8 list \<Rightarrow> uint32 \<Rightarrow> 'c option) \<Rightarrow> nat \<Rightarrow> uint8 list \<Rightarrow> uint32 \<Rightarrow> 'c pcre2_state \<Rightarrow> 'c pcre2_state \<times> nat option outcome \<Rightarrow> bool" where
  "compile_post lib c regex fl st res \<longleftrightarrow> (case res of (st', r) \<Rightarrow>
     cache_inv lib st' \<and> (\<forall>b. 0 < pins (contexts st) b \<longrightarrow> keeps st st' b) \<and>
     (case r of Ret (Some a) \<Rightarrow> contexts st' = (contexts st)[c := a # contexts st ! c] \<and>
          (\<exists>e. heap st' a = Some e \<and> pattern e = regex \<and> flags e = fl \<and> lib regex fl = Some (code e))
      | _ \<Rightarrow> contexts st' = contexts st))"

lemma find_slot_ok:
  "\<forall>a. Some a \<in> set slots \<longrightarrow> hp a \<noteq> None \<Longrightarrow> \<exists>r. find_slot hp regex fl slots = Some r \<and>
     (\<forall>a. r = Some a \<longrightarrow> (\<exists>e. hp a = Some e \<and> flags e = fl \<and> pattern e = regex))"
  by (induction hp regex fl slots rule: find_slot.induct) auto

lemma cache_find_ok:
  assumes "cache_inv lib st"
  obtains r where "cache_find st regex fl = Some r"
    and "\<And>a. r = Some a \<Longrightarrow> \<exists>e. heap st a = Some e \<and> flags e = fl \<and> pattern e = regex"
proof -
  have "\<forall>a. Some a \<in> set (cache st) \<longrightarrow> heap st a \<noteq> None"
    using pinv_None [OF assms [unfolded cache_inv_def]] by blast
  from find_slot_ok [OF this, of regex fl] show ?thesis
    using that by (auto simp: cache_find_def)
qed

lemma find_slot_empty [simp]: "find_slot hp regex fl (replicate n None) = Some None"
  by (induction n) auto

lemma hit_post:
  assumes "cache_inv lib st" "c < length (contexts st)" "cache_find st regex fl = Some (Some a)"
  shows "\<exists>st'. cache_hit reg_ok c a st = Some (st', if reg_ok then Ret (Some a) else Throw) \<and>
    compile_post lib c regex fl st (st', if reg_ok then Ret (Some a) else Throw)"
proof -
  obtain e where e: "heap st a = Some e" "flags e = fl" "pattern e = regex"
    using cache_find_ok [OF assms(1), of regex fl] assms(3) by (metis option.inject)
  have "lib regex fl = Some (code e)"
    using pinv_Some [OF assms(1) [unfolded cache_inv_def] e(1)] e by (simp add: entry_ok_def)
  moreover obtain st' where st': "cache_hit reg_ok c a st = Some (st', if reg_ok then Ret (Some a) else Throw)"
    "cache_inv lib st'" "\<And>b. keeps st st' b"
    "contexts st' = (if reg_ok then (contexts st)[c := a # contexts st ! c] else contexts st)"
    using cache_hit_ok [OF assms(1) e(1) assms(2), of reg_ok] by blast
  moreover obtain e' where "heap st' a = Some e'" "pattern e' = pattern e" "flags e' = flags e" "code e' = code e"
    using st'(3) [of a] e(1) by (auto simp: keeps_def)
  ultimately show ?thesis
    using e by (cases reg_ok) (auto simp: compile_post_def)
qed

lemma miss_post:
  assumes "cache_inv lib st" "c < length (contexts st)" "heap st (ev_addr ev) = None"
  shows "\<exists>st' r. cache_miss lib ev c regex fl st = Some (st', r) \<and> compile_post lib c regex fl st (st', r) \<and>
    (r = (if \<not> ev_entry_ok ev \<or> lib regex fl = None \<or> \<not> ev_match_data_ok ev \<or> \<not> ev_match_context_ok ev then Ret None
      else if ev_register_ok ev then Ret (Some (ev_addr ev)) else Throw))"
proof -
  have none: "compile_post lib c regex fl st (st, Ret None)"
    using assms(1) by (simp add: compile_post_def)
  obtain s where s: "pg_jitter_pcre2_choose_slot st = Some (Some s)" "s < PCRE2_CACHE_SIZE"
    using choose_slot_ok [OF assms(1) [unfolded cache_inv_def]] by blast
  obtain st1 where st1: "pg_jitter_pcre2_evict_slot s st = Some st1" "pinv lib (pins (contexts st)) st1" "cache st1 ! s = None"
    "contexts st1 = contexts st" "heap st1 (ev_addr ev) = None" "\<And>b. 0 < pins (contexts st) b \<Longrightarrow> keeps st st1 b"
    using evict_ok [OF assms(1) [unfolded cache_inv_def] s(2)] assms(3) by blast
  have evicted: "compile_post lib c regex fl st (st1, Ret None)"
    using st1 by (simp add: compile_post_def cache_inv_def)
  show ?thesis
  proof (cases "\<not> ev_entry_ok ev \<or> lib regex fl = None \<or> \<not> ev_match_data_ok ev \<or> \<not> ev_match_context_ok ev")
    case True
    then show ?thesis
      using none evicted s(1) st1(1) by (cases "lib regex fl") (auto simp: cache_miss_def)
  next
    case False
    then obtain cd where cd: "lib regex fl = Some cd"
      by auto
    have "cache_inv lib st1" "c < length (contexts st1)"
      using st1(2,4) assms(2) by (simp_all add: cache_inv_def)
    from publish_ok [OF this(1) st1(5) s(2) st1(3) this(2) cd, of "ev_register_ok ev"]
    obtain st3 where st3: "pg_jitter_pcre2_publish_and_pin_entry (ev_register_ok ev) c s (ev_addr ev)
        (st1\<lparr>heap := (heap st1)(ev_addr ev \<mapsto> \<lparr>pattern = regex, flags = fl, code = cd, refcount = 0, in_cache = False, lru_counter = 0\<rparr>)\<rparr>) =
        Some (st3, if ev_register_ok ev then Ret True else Throw)"
      "cache_inv lib st3" "\<And>b. keeps st1 st3 b"
      "contexts st3 = (if ev_register_ok ev then (contexts st1)[c := ev_addr ev # contexts st1 ! c] else contexts st1)"
      "ev_register_ok ev \<Longrightarrow> \<exists>e. heap st3 (ev_addr ev) = Some e \<and> pattern e = regex \<and> flags e = fl \<and> code e = cd"
      by blast
    have keep: "0 < pins (contexts st) b \<Longrightarrow> keeps st st3 b" for b
      using keeps_trans [OF st1(6) st3(3)] .
    show ?thesis
    proof (cases "ev_register_ok ev")
      case True
      have "cache_miss lib ev c regex fl st = Some (st3\<lparr>compile_counter := compile_counter st3 + 1\<rparr>, Ret (Some (ev_addr ev)))"
        using False True cd s(1) st1(1) st3(1) by (simp add: cache_miss_def)
      moreover have "compile_post lib c regex fl st (st3\<lparr>compile_counter := compile_counter st3 + 1\<rparr>, Ret (Some (ev_addr ev)))"
        using st3(2,4,5) st1(4) keep True cd by (auto simp: compile_post_def cache_inv_def keeps_def)
      ultimately show ?thesis
        using False True by auto
    next
      case no_reg: False
      have "cache_miss lib ev c regex fl st = Some (st3, Throw)"
        using False no_reg cd s(1) st1(1) st3(1) by (simp add: cache_miss_def)
      moreover have "compile_post lib c regex fl st (st3, Throw)"
        using st3(2,4) st1(4) keep no_reg by (auto simp: compile_post_def)
      ultimately show ?thesis
        using False no_reg by auto
    qed
  qed
qed

lemma compile_ok:
  assumes "cache_inv lib st" "c < length (contexts st)" "heap st (ev_addr ev) = None"
  shows "\<exists>st' r. pg_jitter_pcre2_compile env lib ev c pat patlen is_like ci collid st = Some (st', r) \<and>
    compile_post lib c (the (translate_pattern (ev_alloc_ok ev) pat patlen is_like)) (pg_jitter_pcre2_compile_flags env ci) st (st', r) \<and>
    (\<forall>a. r = Ret (Some a) \<longrightarrow> translate_pattern (ev_alloc_ok ev) pat patlen is_like \<noteq> None)"
proof -
  have none: "compile_post lib c x y st (st, Ret None)" for x y
    using assms(1) by (simp add: compile_post_def)
  let ?fl = "pg_jitter_pcre2_compile_flags env ci"
  show ?thesis
  proof (cases "translate_pattern (ev_alloc_ok ev) pat patlen is_like")
    case None
    then show ?thesis
      using none by (auto simp: pg_jitter_pcre2_compile_def Let_def)
  next
    case (Some regex)
    have hit: "\<exists>st' r. cache_hit (ev_register_ok ev) c a st = Some (st', r) \<and> compile_post lib c regex ?fl st (st', r)"
      if "cache_find st regex ?fl = Some (Some a)" for a
      using hit_post [OF assms(1,2) that] by blast
    have miss: "\<exists>st' r. cache_miss lib ev c regex ?fl st = Some (st', r) \<and> compile_post lib c regex ?fl st (st', r)"
      using miss_post [OF assms] by blast
    obtain r where "cache_find st regex ?fl = Some r"
      using cache_find_ok [OF assms(1)] by blast
    then show ?thesis
      using Some none hit miss
      by (cases r) (auto simp: pg_jitter_pcre2_compile_def Let_def)
  qed
qed

section \<open>Runs of the cache\<close>

text \<open>Contexts are created empty; the allocator returns an address that is not in use.\<close>

datatype cache_op = New_context | Compile nat | Release nat

inductive pcre2_step :: "pcre2_env \<Rightarrow> (uint8 list \<Rightarrow> uint32 \<Rightarrow> 'c option) \<Rightarrow> cache_op \<Rightarrow> 'c pcre2_state \<Rightarrow> 'c pcre2_state \<Rightarrow> bool"
  for env lib where
  step_new: "pcre2_step env lib New_context st (st\<lparr>contexts := contexts st @ [[]]\<rparr>)"
| step_compile: "c < length (contexts st) \<Longrightarrow> heap st (ev_addr ev) = None \<Longrightarrow>
    pg_jitter_pcre2_compile env lib ev c pat patlen is_like ci collid st = Some (st', r) \<Longrightarrow> pcre2_step env lib (Compile c) st st'"
| step_release: "c < length (contexts st) \<Longrightarrow> pg_jitter_release_context c st = Some st' \<Longrightarrow> pcre2_step env lib (Release c) st st'"

inductive pcre2_run :: "pcre2_env \<Rightarrow> (uint8 list \<Rightarrow> uint32 \<Rightarrow> 'c option) \<Rightarrow> cache_op list \<Rightarrow> 'c pcre2_state \<Rightarrow> 'c pcre2_state \<Rightarrow> bool"
  for env lib where
  run_none: "pcre2_run env lib [] st st"
| run_step: "pcre2_run env lib ops st st' \<Longrightarrow> pcre2_step env lib op st' st'' \<Longrightarrow> pcre2_run env lib (ops @ [op]) st st''"

lemma pins_new [simp]: "pins (ctxs @ [[]]) = pins ctxs"
  by (simp add: pins_def fun_eq_iff)

lemma step_inv: "pcre2_step env lib op st st' \<Longrightarrow> cache_inv lib st \<Longrightarrow> cache_inv lib st'"
proof (induction rule: pcre2_step.induct)
  case (step_new st)
  then show ?case
    by (simp add: cache_inv_def)
next
  case (step_compile c st ev pat patlen is_like ci collid st' r)
  then show ?case
    using compile_ok [OF step_compile.prems step_compile.hyps(1,2), of env pat patlen is_like ci collid]
    by (auto simp: compile_post_def)
next
  case (step_release c st st')
  then show ?case
    using release_context_ok [of lib st c] by auto
qed

lemma init_inv: "cache_inv lib pcre2_init"
  by (simp add: cache_inv_def pcre2_init_def pinv_def pins_def slots_distinct_def PCRE2_CACHE_SIZE_def)

lemma run_inv: "pcre2_run env lib ops st st' \<Longrightarrow> cache_inv lib st \<Longrightarrow> cache_inv lib st'"
  by (induction rule: pcre2_run.induct) (auto dest: step_inv)

text \<open>An operation other than the release of the context keeps what is registered there.\<close>

lemma step_keeps:
  assumes "pcre2_step env lib op st st'" "cache_inv lib st" "op \<noteq> Release c" "c < length (contexts st)" "a \<in> set (contexts st ! c)"
  shows "keeps st st' a \<and> c < length (contexts st') \<and> a \<in> set (contexts st' ! c)"
proof -
  have pinned: "0 < pins ctxs a" if "c < length ctxs" "a \<in> set (ctxs ! c)" for ctxs
    using that pins_release [OF that(1), of a] count_list_0_iff [of "ctxs ! c" a] by simp
  show ?thesis
    using assms
  proof (induction rule: pcre2_step.induct)
    case (step_new st)
    then show ?case
      by (auto simp: nth_append keeps_def)
  next
    case (step_compile d st ev pat patlen is_like ci collid st' r)
    have *: "compile_post lib d (the (translate_pattern (ev_alloc_ok ev) pat patlen is_like)) (pg_jitter_pcre2_compile_flags env ci) st (st', r)"
      using compile_ok [OF step_compile.prems(1) step_compile.hyps(1,2), of env pat patlen is_like ci collid] step_compile.hyps(3)
      by auto
    then have "contexts st' = contexts st \<or> (\<exists>b. contexts st' = (contexts st)[d := b # contexts st ! d])"
      by (auto simp: compile_post_def split: outcome.splits option.splits)
    then show ?case
      using * step_compile.prems step_compile.hyps(1) pinned
      by (auto simp: compile_post_def nth_list_update)
  next
    case (step_release d st st')
    then show ?case
      using release_context_ok [of lib st d] pinned [of "(contexts st)[d := []]"] by auto
  qed
qed

lemma run_keeps:
  "pcre2_run env lib ops st st' \<Longrightarrow> cache_inv lib st \<Longrightarrow> Release c \<notin> set ops \<Longrightarrow> c < length (contexts st) \<Longrightarrow>
    a \<in> set (contexts st ! c) \<Longrightarrow> keeps st st' a \<and> c < length (contexts st') \<and> a \<in> set (contexts st' ! c)"
proof (induction rule: pcre2_run.induct)
  case (run_none st)
  then show ?case
    by simp
next
  case (run_step ops st st' op st'')
  then have "keeps st st' a \<and> c < length (contexts st') \<and> a \<in> set (contexts st' ! c)" "cache_inv lib st'"
    using run_inv by auto
  then show ?case
    using step_keeps [OF run_step.hyps(2), of c a] run_step.prems(2) keeps_trans by fastforce
qed

lemma pins_concat: "pins ctxs a = count_list (concat ctxs) a"
  by (induction ctxs) (auto simp: pins_def)

lemma heap_bound:
  assumes "cache_inv lib st"
  shows "finite {a. heap st a \<noteq> None}" "card {a. heap st a \<noteq> None} \<le> PCRE2_CACHE_SIZE + length (concat (contexts st))"
proof -
  have pinv: "pinv lib (pins (contexts st)) st"
    using assms by (simp add: cache_inv_def)
  let ?C = "the ` set (cache st)" and ?R = "set (concat (contexts st))"
  have "{a. heap st a \<noteq> None} \<subseteq> ?C \<union> ?R"
  proof
    fix a assume "a \<in> {a. heap st a \<noteq> None}"
    then obtain e where "entry_ok lib (pins (contexts st)) (cache st) a e"
      using pinv_Some [OF pinv] by blast
    then consider "Some a \<in> set (cache st)" | "0 < pins (contexts st) a"
      by (auto simp: entry_ok_def)
    then show "a \<in> ?C \<union> ?R"
    proof cases
      case 1
      then show ?thesis
        by (metis UnI1 image_eqI option.sel)
    next
      case 2
      then show ?thesis
        using count_list_0_iff [of "concat (contexts st)" a] unfolding pins_concat by auto
    qed
  qed
  moreover have "card ?C \<le> PCRE2_CACHE_SIZE" "card ?R \<le> length (concat (contexts st))"
    using card_image_le [of "set (cache st)" the] card_length [of "cache st"] pinv_slots [OF pinv]
      card_length [of "concat (contexts st)"] by simp_all
  moreover have "finite (?C \<union> ?R)"
    by simp
  ultimately show "finite {a. heap st a \<noteq> None}" "card {a. heap st a \<noteq> None} \<le> PCRE2_CACHE_SIZE + length (concat (contexts st))"
    using card_mono [of "?C \<union> ?R" "{a. heap st a \<noteq> None}"] card_Un_le [of ?C ?R] finite_subset by (blast, linarith)
qed

section \<open>Properties\<close>

text \<open>
  C14 (invariant): After any sequence of compilations and releases, no further compilation or release
  fails an assertion or touches a freed entry; the reference count of an entry is the number of
  its registrations in contexts, an entry is marked as cached exactly when the directory holds it,
  an entry that is neither cached nor pinned has been freed, and there are at most 64 entries
  more than registrations.\<close>

theorem pcre2_cache_invariant:
  assumes "pcre2_run env lib ops pcre2_init st"
  shows "(\<forall>ev c pat patlen is_like ci collid. c < length (contexts st) \<and> heap st (ev_addr ev) = None \<longrightarrow>
      pg_jitter_pcre2_compile env lib ev c pat patlen is_like ci collid st \<noteq> None) \<and>
    (\<forall>c<length (contexts st). pg_jitter_release_context c st \<noteq> None) \<and>
    (\<forall>a e. heap st a = Some e \<longrightarrow> refcount e = count_list (concat (contexts st)) a \<and>
      (in_cache e \<longleftrightarrow> Some a \<in> set (cache st)) \<and> (in_cache e \<or> 0 < refcount e)) \<and>
    card {a. heap st a \<noteq> None} \<le> 64 + length (concat (contexts st))"
proof -
  have inv: "cache_inv lib st"
    using run_inv [OF assms init_inv] .
  have entries: "refcount e = count_list (concat (contexts st)) a \<and> (in_cache e \<longleftrightarrow> Some a \<in> set (cache st)) \<and>
      (in_cache e \<or> 0 < refcount e)" if "heap st a = Some e" for a e
    using pinv_Some [OF inv [unfolded cache_inv_def] that] by (auto simp: entry_ok_def pins_concat)
  have "pg_jitter_pcre2_compile env lib ev c pat patlen is_like ci collid st \<noteq> None"
    if "c < length (contexts st)" "heap st (ev_addr ev) = None" for ev c pat patlen is_like ci collid
    using compile_ok [where ev = ev, OF inv that, of env pat patlen is_like ci collid] by auto
  moreover have "pg_jitter_release_context c st \<noteq> None" if "c < length (contexts st)" for c
    using release_context_ok [OF inv that] by auto
  ultimately show ?thesis
    using entries heap_bound(2) [OF inv] unfolding PCRE2_CACHE_SIZE_def by blast
qed

definition pcre2_example_env :: pcre2_env where
  "pcre2_example_env = \<lparr>enc_max_length = 4, enc_is_utf8 = True, coll_is_deterministic = (\<lambda>_. True), coll_is_c = (\<lambda>_. False),
     PCRE2_DOTALL = 0x20, PCRE2_DOLLAR_ENDONLY = 0x10, PCRE2_UTF = 0x80000, PCRE2_CASELESS = 8\<rparr>"

definition pcre2_example_event :: comp_event where
  "pcre2_example_event = \<lparr>ev_alloc_ok = (\<lambda>_. True), ev_entry_ok = True, ev_match_data_ok = True, ev_match_context_ok = True,
     ev_register_ok = True, ev_addr = 100\<rparr>"

definition pcre2_example_state :: "nat pcre2_state" where
  "pcre2_example_state = pcre2_init\<lparr>contexts := [[]]\<rparr>"

lemma pcre2_example_run: "pcre2_run pcre2_example_env lib [New_context] pcre2_init pcre2_example_state"
proof -
  have "pcre2_step pcre2_example_env lib New_context pcre2_init pcre2_example_state"
    using step_new [of pcre2_example_env lib pcre2_init] by (simp add: pcre2_example_state_def pcre2_init_def)
  then show ?thesis
    using run_step [OF run_none] by fastforce
qed

theorem pcre2_cache_invariant_witness:
  "card {a. heap pcre2_example_state a \<noteq> None} \<le> 64 \<and> pg_jitter_release_context 0 pcre2_example_state \<noteq> None"
  using pcre2_cache_invariant [OF pcre2_example_run] by (simp add: pcre2_example_state_def pcre2_init_def)

text \<open>
  In every reachable state, an entry that the compilation returns holds the
  translated pattern, the flags for the request and the code that PCRE2 compiles from them,
  whether it comes from the cache or not, and is registered in the context; and the compilation
  does return an entry when the request is eligible, the translation exists and PCRE2 and the
  allocations succeed.\<close>

lemma pcre2_compile_correct:
  assumes "pcre2_run env lib ops pcre2_init st" "c < length (contexts st)" "heap st (ev_addr ev) = None"
  shows "(\<forall>st' a. pg_jitter_pcre2_compile env lib ev c pat patlen is_like ci collid st = Some (st', Ret (Some a)) \<longrightarrow>
      (\<exists>e regex. heap st' a = Some e \<and> translate_pattern (ev_alloc_ok ev) pat patlen is_like = Some regex \<and>
        pattern e = regex \<and> flags e = pg_jitter_pcre2_compile_flags env ci \<and> lib regex (flags e) = Some (code e) \<and>
        a \<in> set (contexts st' ! c))) \<and>
    (\<forall>regex. pg_jitter_pcre2_is_eligible env collid is_like ci \<and> 0 \<le> patlen \<and> patlen \<le> 65536 \<and>
        translate_pattern (ev_alloc_ok ev) pat patlen is_like = Some regex \<and> length regex \<le> 65536 \<and>
        lib regex (pg_jitter_pcre2_compile_flags env ci) \<noteq> None \<and>
        ev_entry_ok ev \<and> ev_match_data_ok ev \<and> ev_match_context_ok ev \<and> ev_register_ok ev \<longrightarrow>
      (\<exists>st' a. pg_jitter_pcre2_compile env lib ev c pat patlen is_like ci collid st = Some (st', Ret (Some a))))"
proof -
  have inv: "cache_inv lib st"
    using run_inv [OF assms(1) init_inv] .
  have "\<exists>e regex. heap st' a = Some e \<and> translate_pattern (ev_alloc_ok ev) pat patlen is_like = Some regex \<and>
        pattern e = regex \<and> flags e = pg_jitter_pcre2_compile_flags env ci \<and> lib regex (flags e) = Some (code e) \<and>
        a \<in> set (contexts st' ! c)"
    if "pg_jitter_pcre2_compile env lib ev c pat patlen is_like ci collid st = Some (st', Ret (Some a))" for st' a
    using compile_ok [where ev = ev, OF inv assms(2,3), of env pat patlen is_like ci collid] that assms(2)
    by (auto simp: compile_post_def)
  moreover have "\<exists>st' a. pg_jitter_pcre2_compile env lib ev c pat patlen is_like ci collid st = Some (st', Ret (Some a))"
    if ok: "pg_jitter_pcre2_is_eligible env collid is_like ci" "0 \<le> patlen" "patlen \<le> 65536"
      "translate_pattern (ev_alloc_ok ev) pat patlen is_like = Some regex" "length regex \<le> 65536"
      "lib regex (pg_jitter_pcre2_compile_flags env ci) \<noteq> None"
      "ev_entry_ok ev" "ev_match_data_ok ev" "ev_match_context_ok ev" "ev_register_ok ev" for regex
  proof -
    obtain r where r: "cache_find st regex (pg_jitter_pcre2_compile_flags env ci) = Some r"
      using cache_find_ok [OF inv] by blast
    show ?thesis
    proof (cases r)
      case None
      with r show ?thesis
        using miss_post [where ev = ev, OF inv assms(2,3), of regex "pg_jitter_pcre2_compile_flags env ci"] ok
        by (auto simp: pg_jitter_pcre2_compile_def PCRE2_MAX_PATTERN_BYTES_def Let_def)
    next
      case (Some a)
      with r show ?thesis
        using hit_post [OF inv assms(2), of regex "pg_jitter_pcre2_compile_flags env ci" a True] ok
        by (auto simp: pg_jitter_pcre2_compile_def PCRE2_MAX_PATTERN_BYTES_def Let_def)
    qed
  qed
  ultimately show ?thesis
    by blast
qed

lemma pcre2_example_translation:
  "translate_pattern (ev_alloc_ok pcre2_example_event) [97] 1 True = Some [94, 97, 92, 122]"
proof -
  have "toks_regex [Lit 97] = [94, 97, 92, 122]"
    by code_simp
  then show ?thesis
    by (simp add: translate_pattern_def like_to_regex_def MaxAllocSize_def sizeof_LikeToken_def pcre2_example_event_def
        ch_esc_def ch_pct_def ch_us_def)
qed

lemma pcre2_compile_correct_witness:
  "\<exists>st' a e. pg_jitter_pcre2_compile pcre2_example_env (\<lambda>_ _. Some 7) pcre2_example_event 0 [97] 1 True False 100 pcre2_example_state =
     Some (st', Ret (Some a)) \<and> heap st' a = Some e \<and> code e = (7 :: nat) \<and> a \<in> set (contexts st' ! 0)"
proof -
  have "0 < length (contexts pcre2_example_state)" "heap pcre2_example_state (ev_addr pcre2_example_event) = None"
    by (simp_all add: pcre2_example_state_def pcre2_init_def)
  note res = pcre2_compile_correct [OF pcre2_example_run this, of "\<lambda>_ _. Some (7 :: nat)" "[97]" 1 True False 100]
  have "pg_jitter_pcre2_is_eligible pcre2_example_env 100 True False" "ev_entry_ok pcre2_example_event"
    "ev_match_data_ok pcre2_example_event" "ev_match_context_ok pcre2_example_event" "ev_register_ok pcre2_example_event"
    by (simp_all add: pg_jitter_pcre2_is_eligible_def pcre2_example_env_def pcre2_example_event_def)
  then obtain st' a where st': "pg_jitter_pcre2_compile pcre2_example_env (\<lambda>_ _. Some 7) pcre2_example_event 0 [97] 1 True False 100
      pcre2_example_state = Some (st', Ret (Some a))"
    using res pcre2_example_translation by fastforce
  then show ?thesis
    using res by fastforce
qed

text \<open>
  C24 (safety): An entry that a compilation returned stays valid, for the same pattern and the same
  compiled code, through any sequence of compilations, evictions and releases of other contexts,
  until the context that pinned it is released.\<close>

theorem pcre2_entry_lives:
  assumes "pcre2_run env lib ops pcre2_init st" "c < length (contexts st)" "heap st (ev_addr ev) = None"
    and "pg_jitter_pcre2_compile env lib ev c pat patlen is_like ci collid st = Some (st1, Ret (Some a))"
    and "pcre2_run env lib ops' st1 st2" "Release c \<notin> set ops'"
  shows "\<exists>e1 e2. heap st1 a = Some e1 \<and> heap st2 a = Some e2 \<and> pattern e2 = pattern e1 \<and> flags e2 = flags e1 \<and>
    code e2 = code e1 \<and> 0 < refcount e2"
proof -
  have inv: "cache_inv lib st"
    using run_inv [OF assms(1) init_inv] .
  have post: "compile_post lib c (the (translate_pattern (ev_alloc_ok ev) pat patlen is_like)) (pg_jitter_pcre2_compile_flags env ci) st (st1, Ret (Some a))"
    using compile_ok [where ev = ev, OF inv assms(2,3), of env pat patlen is_like ci collid] assms(4) by auto
  then obtain e1 where e1: "heap st1 a = Some e1" "cache_inv lib st1" "contexts st1 = (contexts st)[c := a # contexts st ! c]"
    by (auto simp: compile_post_def)
  have run: "keeps st1 st2 a \<and> c < length (contexts st2) \<and> a \<in> set (contexts st2 ! c)"
    using run_keeps [OF assms(5) e1(2) assms(6), of a] e1(3) assms(2) by simp
  have "cache_inv lib st2"
    using run_inv [OF assms(5) e1(2)] .
  obtain e2 where e2: "heap st2 a = Some e2" "pattern e2 = pattern e1" "flags e2 = flags e1" "code e2 = code e1"
    using run e1(1) unfolding keeps_def by blast
  have "a \<in> set (concat (contexts st2))"
    using run by (auto intro: nth_mem)
  then have "0 < pins (contexts st2) a"
    unfolding pins_concat by (metis count_list_0_iff not_gr_zero)
  then have "0 < refcount e2"
    using pinv_Some [OF \<open>cache_inv lib st2\<close> [unfolded cache_inv_def] e2(1)] by (simp add: entry_ok_def)
  then show ?thesis
    using e1(1) e2 by blast
qed

text \<open>Compile in context 0, then release another, new context.\<close>

theorem pcre2_entry_lives_witness:
  "\<exists>st1 st2 e. pg_jitter_pcre2_compile pcre2_example_env (\<lambda>_ _. Some 7) pcre2_example_event 0 [97] 1 True False 100 pcre2_example_state =
     Some (st1, Ret (Some 100)) \<and> st2 = st1\<lparr>contexts := contexts st1 @ [[]]\<rparr> \<and> heap st2 100 = Some e \<and> code e = (7 :: nat) \<and> 0 < refcount e"
proof -
  let ?lib = "\<lambda>_ _. Some (7 :: nat)"
  let ?st = pcre2_example_state
  have st: "0 < length (contexts ?st)" "heap ?st (ev_addr pcre2_example_event) = None" "cache_inv ?lib ?st"
    using run_inv [OF pcre2_example_run init_inv] by (simp_all add: pcre2_example_state_def pcre2_init_def)
  have "cache_find ?st regex fl = Some None" for regex fl
    by (simp add: cache_find_def pcre2_example_state_def pcre2_init_def)
  then obtain st1 where st1: "pg_jitter_pcre2_compile pcre2_example_env ?lib pcre2_example_event 0 [97] 1 True False 100 ?st =
      Some (st1, Ret (Some 100))"
    using miss_post [OF st(3,1,2), of "[94, 97, 92, 122]" "pg_jitter_pcre2_compile_flags pcre2_example_env False"]
      pcre2_example_translation
    by (auto simp: pg_jitter_pcre2_compile_def pg_jitter_pcre2_is_eligible_def pcre2_example_env_def
        pcre2_example_event_def PCRE2_MAX_PATTERN_BYTES_def)
  then obtain e1 where "heap st1 100 = Some e1" "code e1 = 7"
    using compile_ok [where ev = pcre2_example_event, OF st(3,1,2), of pcre2_example_env "[97]" 1 True False 100]
    by (auto simp: compile_post_def)
  moreover have "pcre2_run pcre2_example_env ?lib [New_context] st1 (st1\<lparr>contexts := contexts st1 @ [[]]\<rparr>)"
    using run_step [OF run_none step_new, of pcre2_example_env ?lib st1] by simp
  ultimately show ?thesis
    using pcre2_entry_lives [OF pcre2_example_run st(1,2) st1, of "[New_context]" "st1\<lparr>contexts := contexts st1 @ [[]]\<rparr>"] st1
    by fastforce
qed

text \<open>
  The slot for a new entry is a free one when there is one, otherwise the least
  recently used one that is not pinned, otherwise the least recently used one.\<close>

lemma pcre2_slot_is_lru:
  assumes "pcre2_run env lib ops pcre2_init st"
  shows "\<exists>s. pg_jitter_pcre2_choose_slot st = Some (Some s) \<and> s < 64 \<and> (case cache st ! s of
     None \<Rightarrow> True
   | Some a \<Rightarrow> None \<notin> set (cache st) \<and> (\<exists>e. heap st a = Some e \<and>
       (refcount e > 0 \<longrightarrow> (\<forall>b f. Some b \<in> set (cache st) \<and> heap st b = Some f \<longrightarrow> refcount f > 0)) \<and>
       (\<forall>b f. Some b \<in> set (cache st) \<and> heap st b = Some f \<and> (refcount f > 0 \<longleftrightarrow> refcount e > 0) \<longrightarrow>
         lru_counter e \<le> lru_counter f)))"
proof -
  have "cache_inv lib st"
    using run_inv [OF assms init_inv] .
  then show ?thesis
    using choose_slot_ok [of lib "pins (contexts st)" st] unfolding cache_inv_def lru_slot_def PCRE2_CACHE_SIZE_def by blast
qed

theorem pcre2_slot_is_lru_witness:
  "\<exists>s. pg_jitter_pcre2_choose_slot pcre2_example_state = Some (Some s) \<and> s < 64"
  using pcre2_slot_is_lru [OF pcre2_example_run] by blast

end
