(* ===== verification/Pcre2Match.thy ===== *)
theory Pcre2Match
  imports Pcre2Cache
begin

unbundle bit_operations_syntax

text \<open>
  Matching a text with a cached pattern (\<open>pg_jitter_pcre2_match\<close>, \<open>pg_jitter_pcre2_match_raw\<close>
  and \<open>pg_jitter_pcre2_match_text\<close> of \<open>pg_jitter_pcre2.c\<close>), and LIKE from the pattern in the
  query to the value of the generated code. The match functions of PCRE2 are parameters; they
  return the number of captures or a negative code. An error code that the headers of PCRE2 do not
  define is \<open>None\<close>.
\<close>

record 'c pcre2_matcher =
  pcre2_jit_match :: "'c \<Rightarrow> uint8 list \<Rightarrow> uint32 \<Rightarrow> int"
  pcre2_jit_fast_match :: "'c \<Rightarrow> (uint8 list \<Rightarrow> uint32 \<Rightarrow> int) option"
  pcre2_match :: "'c \<Rightarrow> uint8 list \<Rightarrow> uint32 \<Rightarrow> int"
  PCRE2_NO_UTF_CHECK :: uint32
  PCRE2_NO_JIT :: "uint32 option"
  PCRE2_ERROR_NOMATCH :: int
  PCRE2_ERROR_JIT_STACKLIMIT :: "int option"
  PCRE2_ERROR_JIT_BADOPTION :: "int option"
  PCRE2_ERROR_JIT_UNSUPPORTED :: "int option"
  PCRE2_ERROR_MATCHLIMIT :: "int option"
  PCRE2_ERROR_DEPTHLIMIT :: "int option"
  PCRE2_ERROR_HEAPLIMIT :: "int option"

definition pcre2_match_result_is_match :: "'c pcre2_matcher \<Rightarrow> int \<Rightarrow> pg_error + bool" where
  "pcre2_match_result_is_match m rc =
     (if rc \<ge> 0 then Inr True
      else if rc = PCRE2_ERROR_NOMATCH m then Inr False
      else Inl (Elog_error ''PCRE2 match failed with error code''))"

definition pg_jitter_pcre2_should_retry_without_jit :: "'c pcre2_matcher \<Rightarrow> int \<Rightarrow> bool" where
  "pg_jitter_pcre2_should_retry_without_jit m rc \<longleftrightarrow>
     (if PCRE2_ERROR_JIT_STACKLIMIT m = Some rc then True
      else if PCRE2_ERROR_JIT_BADOPTION m = Some rc then True
      else if PCRE2_ERROR_JIT_UNSUPPORTED m = Some rc then True
      else if PCRE2_ERROR_MATCHLIMIT m = Some rc then True
      else if PCRE2_ERROR_DEPTHLIMIT m = Some rc then True
      else if PCRE2_ERROR_HEAPLIMIT m = Some rc then True
      else False)"

definition pg_jitter_pcre2_match_options :: "pcre2_env \<Rightarrow> 'c pcre2_matcher \<Rightarrow> 'c Pcre2CacheEntry \<Rightarrow> uint32" where
  "pg_jitter_pcre2_match_options env m entry =
     (if flags entry AND PCRE2_UTF env \<noteq> 0 then 0 OR PCRE2_NO_UTF_CHECK m else 0)"

definition pg_jitter_pcre2_interpreter_match :: "pcre2_env \<Rightarrow> 'c pcre2_matcher \<Rightarrow> 'c Pcre2CacheEntry \<Rightarrow> uint8 list \<Rightarrow> int" where
  "pg_jitter_pcre2_interpreter_match env m entry data =
     (let options = pg_jitter_pcre2_match_options env m entry;
          options = (case PCRE2_NO_JIT m of None \<Rightarrow> options | Some f \<Rightarrow> options OR f)
      in pcre2_match m (code entry) data options)"

text \<open>The entry is an address or \<open>NULL\<close>, the data are the bytes at the pointer or \<open>NULL\<close>. An
  address that is not on the heap would be a use after free: \<open>None\<close>.\<close>

definition pg_jitter_pcre2_match_raw :: "pcre2_env \<Rightarrow> 'c pcre2_matcher \<Rightarrow> 'c pcre2_state \<Rightarrow> nat option \<Rightarrow> uint8 list option \<Rightarrow> int \<Rightarrow>
    ('c pcre2_state \<times> (pg_error + int32)) option" where
  "pg_jitter_pcre2_match_raw env m st entry data len =
     (case entry of None \<Rightarrow> Some (st, Inr 0)
      | Some a \<Rightarrow> (case heap st a of None \<Rightarrow> None
        | Some e \<Rightarrow>
            if len < 0 \<or> (data = None \<and> len > 0) then Some (st, Inr 0)
            else let st' = st\<lparr>match_counter := match_counter st + 1\<rparr>;
                     subject = (case data of None \<Rightarrow> [] | Some bytes \<Rightarrow> take (nat len) bytes);
                     options = pg_jitter_pcre2_match_options env m e;
                     rc = (case pcre2_jit_fast_match m (code e) of Some fast \<Rightarrow> fast subject options
                           | None \<Rightarrow> pcre2_jit_match m (code e) subject options);
                     rc = (if pg_jitter_pcre2_should_retry_without_jit m rc
                           then pg_jitter_pcre2_interpreter_match env m e subject else rc)
                 in Some (st', map_sum id c_bool (pcre2_match_result_is_match m rc))))"

definition pg_jitter_pcre2_match :: "pcre2_env \<Rightarrow> 'c pcre2_matcher \<Rightarrow> 'c pcre2_state \<Rightarrow> nat option \<Rightarrow> uint8 list option \<Rightarrow> int \<Rightarrow>
    ('c pcre2_state \<times> (pg_error + bool)) option" where
  "pg_jitter_pcre2_match env m st entry data len =
     (case entry of None \<Rightarrow> Some (st, Inr False)
      | Some a \<Rightarrow> (case heap st a of None \<Rightarrow> None
        | Some e \<Rightarrow>
            if len < 0 \<or> (data = None \<and> len > 0) then Some (st, Inr False)
            else let st' = st\<lparr>match_counter := match_counter st + 1\<rparr>;
                     subject = (case data of None \<Rightarrow> [] | Some bytes \<Rightarrow> take (nat len) bytes);
                     rc = pcre2_jit_match m (code e) subject (pg_jitter_pcre2_match_options env m e);
                     rc = (if pg_jitter_pcre2_should_retry_without_jit m rc
                           then pg_jitter_pcre2_interpreter_match env m e subject else rc)
                 in Some (st', pcre2_match_result_is_match m rc)))"

text \<open>A text datum is detoasted; the copy, when there is one, is freed on success and on error. The
  last component says that it is still allocated at the end.\<close>

definition pg_jitter_pcre2_match_text :: "pcre2_env \<Rightarrow> 'c pcre2_matcher \<Rightarrow> (Datum \<Rightarrow> uint8 list \<times> bool) \<Rightarrow> 'c pcre2_state \<Rightarrow> Datum \<Rightarrow>
    nat option \<Rightarrow> ('c pcre2_state \<times> (pg_error + int32) \<times> bool) option" where
  "pg_jitter_pcre2_match_text env m DatumGetTextPP st d entry =
     (case DatumGetTextPP d of (bytes, copied) \<Rightarrow>
        (case pg_jitter_pcre2_match_raw env m st entry (Some bytes) (int (length bytes)) of
           None \<Rightarrow> None
         | Some (st', Inl err) \<Rightarrow> Some (st', Inl err, if copied then False else copied)
         | Some (st', Inr r) \<Rightarrow> Some (st', Inr r, if copied then False else copied)))"

section \<open>What PCRE2 documents\<close>

text \<open>A match function of PCRE2 returns a value of at least 0 when it found a match,
  \<open>PCRE2_ERROR_NOMATCH\<close> when there is none, and another negative code when it gave up: at a limit on
  matches, depth or heap, without memory, or where JIT code cannot be used. \<open>documented_pcre2\<close>
  asks this of the functions for a translated LIKE pattern and the flags that the code passes, and
  nothing about when they give up. \<open>clen\<close> is the length of a character: one byte, or that of a
  UTF-8 character.\<close>

definition rc_ok :: "'c pcre2_matcher \<Rightarrow> bool \<Rightarrow> int \<Rightarrow> bool" where
  "rc_ok m found rc \<longleftrightarrow> (if found then rc \<ge> 0 else rc = PCRE2_ERROR_NOMATCH m)"

definition gave_up :: "'c pcre2_matcher \<Rightarrow> int \<Rightarrow> bool" where
  "gave_up m rc \<longleftrightarrow> rc < 0 \<and> rc \<noteq> PCRE2_ERROR_NOMATCH m"

definition documented_pcre2 ::
  "pcre2_env \<Rightarrow> (uint8 list \<Rightarrow> nat) \<Rightarrow> (uint8 list \<Rightarrow> uint32 \<Rightarrow> 'c option) \<Rightarrow> 'c pcre2_matcher \<Rightarrow> bool" where
  "documented_pcre2 env clen lib m \<longleftrightarrow> PCRE2_ERROR_NOMATCH m < 0 \<and>
     (\<forall>rc. pg_jitter_pcre2_should_retry_without_jit m rc \<longrightarrow> gave_up m rc) \<and>
     (\<forall>toks c s opts. lib (toks_regex toks) (pg_jitter_pcre2_compile_flags env False) = Some c \<longrightarrow>
        (\<forall>f \<in> insert (pcre2_jit_match m c) (insert (pcre2_match m c) (set_option (pcre2_jit_fast_match m c))).
           gave_up m (f s opts) \<or> rc_ok m (re_search clen (toks_regex toks) s) (f s opts)))"

text \<open>The call ends with an error: the JIT code gave up, and so did the interpreter when it was asked.\<close>

definition call_gives_up :: "pcre2_env \<Rightarrow> 'c pcre2_matcher \<Rightarrow> 'c Pcre2CacheEntry \<Rightarrow> uint8 list \<Rightarrow> bool" where
  "call_gives_up env m e subject \<longleftrightarrow>
     (let options = pg_jitter_pcre2_match_options env m e;
          rc = (case pcre2_jit_fast_match m (code e) of Some fast \<Rightarrow> fast subject options
                | None \<Rightarrow> pcre2_jit_match m (code e) subject options)
      in gave_up m rc \<and>
         (pg_jitter_pcre2_should_retry_without_jit m rc \<longrightarrow> gave_up m (pg_jitter_pcre2_interpreter_match env m e subject)))"

lemma match_result:
  assumes "documented_pcre2 env clen lib m" "gave_up m rc \<or> rc_ok m found rc"
  shows "pcre2_match_result_is_match m rc =
    (if gave_up m rc then Inl (Elog_error ''PCRE2 match failed with error code'') else Inr found)"
  using assms by (auto simp: documented_pcre2_def rc_ok_def gave_up_def pcre2_match_result_is_match_def split: if_splits)

lemma match_raw_search:
  assumes doc: "documented_pcre2 env clen lib m" and e: "heap st a = Some e" "pattern e = toks_regex toks"
    "lib (toks_regex toks) (pg_jitter_pcre2_compile_flags env False) = Some (code e)"
    and len: "0 \<le> len"
  shows "pg_jitter_pcre2_match_raw env m st (Some a) (Some bytes) len =
    Some (st\<lparr>match_counter := match_counter st + 1\<rparr>,
      if call_gives_up env m e (take (nat len) bytes) then Inl (Elog_error ''PCRE2 match failed with error code'')
      else Inr (c_bool (like_chars clen toks (take (nat len) bytes))))"
proof -
  let ?s = "take (nat len) bytes" and ?o = "pg_jitter_pcre2_match_options env m e"
  define found where "found = re_search clen (toks_regex toks) ?s"
  define rc where "rc = (case pcre2_jit_fast_match m (code e) of Some fast \<Rightarrow> fast ?s ?o | None \<Rightarrow> pcre2_jit_match m (code e) ?s ?o)"
  define rc' where "rc' = pg_jitter_pcre2_interpreter_match env m e ?s"
  have jit: "gave_up m rc \<or> rc_ok m found rc"
    using doc e(3) unfolding documented_pcre2_def rc_def found_def
    by (cases "pcre2_jit_fast_match m (code e)") auto
  have interp: "gave_up m rc' \<or> rc_ok m found rc'"
    using doc e(3) unfolding documented_pcre2_def rc'_def pg_jitter_pcre2_interpreter_match_def Let_def found_def by blast
  have retry: "pg_jitter_pcre2_should_retry_without_jit m rc \<Longrightarrow> gave_up m rc"
    using doc by (simp add: documented_pcre2_def)
  have gives: "call_gives_up env m e ?s \<longleftrightarrow> gave_up m rc \<and> (pg_jitter_pcre2_should_retry_without_jit m rc \<longrightarrow> gave_up m rc')"
    by (simp add: call_gives_up_def Let_def rc_def rc'_def)
  have "pcre2_match_result_is_match m (if pg_jitter_pcre2_should_retry_without_jit m rc then rc' else rc) =
      (if call_gives_up env m e ?s then Inl (Elog_error ''PCRE2 match failed with error code'') else Inr found)"
    using match_result [OF doc interp] match_result [OF doc jit] retry unfolding gives by auto
  moreover have "pg_jitter_pcre2_match_raw env m st (Some a) (Some bytes) len =
      Some (st\<lparr>match_counter := match_counter st + 1\<rparr>, map_sum id c_bool (pcre2_match_result_is_match m
        (if pg_jitter_pcre2_should_retry_without_jit m rc then rc' else rc)))"
    unfolding rc_def rc'_def using e(1) len by (simp add: pg_jitter_pcre2_match_raw_def Let_def)
  ultimately show ?thesis
    by (simp add: found_def toks_regex_search)
qed

section \<open>LIKE through PCRE2\<close>

text \<open>
  C38 (refinement): A LIKE pattern that was compiled through the cache in some context, whatever
  happened to the cache since then short of the release of that context, decides LIKE: the
  call of the generated code on a text returns 1 when the text matches the pattern and 0 when it
  does not, unless PCRE2 gives up on the text (the JIT code with a code that asks for no second try,
  or both the JIT code and the interpreter): then, and only then, it raises the error. In every case
  the detoasted copy of the text is not left allocated. Hypothesis: the match functions return what
  PCRE2 documents (\<open>documented_pcre2\<close>), which leaves open when they give up.\<close>

theorem like_through_pcre2:
  assumes "pcre2_run env lib ops pcre2_init st" "c < length (contexts st)" "heap st (ev_addr ev) = None"
    and "pg_jitter_pcre2_compile env lib ev c pat patlen True False collid st = Some (st1, Ret (Some a))"
    and "pcre2_run env lib ops' st1 st2" "Release c \<notin> set ops'"
    and "documented_pcre2 env clen lib m"
  shows "\<exists>toks e. decode (take (nat patlen) pat) = Some toks \<and> heap st2 a = Some e \<and> pattern e = toks_regex toks \<and>
    pg_jitter_pcre2_match_text env m detoast st2 d (Some a) =
      Some (st2\<lparr>match_counter := match_counter st2 + 1\<rparr>,
        if call_gives_up env m e (fst (detoast d)) then Inl (Elog_error ''PCRE2 match failed with error code'')
        else Inr (c_bool (like_chars clen toks (fst (detoast d)))), False)"
proof -
  have inv: "cache_inv lib st"
    using run_inv [OF assms(1) init_inv] .
  have "compile_post lib c (the (translate_pattern (ev_alloc_ok ev) pat patlen True)) (pg_jitter_pcre2_compile_flags env False) st (st1, Ret (Some a))"
    and tr: "translate_pattern (ev_alloc_ok ev) pat patlen True \<noteq> None"
    using compile_ok [where ev = ev, OF inv assms(2,3), of env pat patlen True False collid] assms(4) by auto
  then obtain e1 where e1: "cache_inv lib st1" "contexts st1 = (contexts st)[c := a # contexts st ! c]" "heap st1 a = Some e1"
    "pattern e1 = the (translate_pattern (ev_alloc_ok ev) pat patlen True)" "flags e1 = pg_jitter_pcre2_compile_flags env False"
    "lib (pattern e1) (flags e1) = Some (code e1)"
    by (auto simp: compile_post_def)
  obtain toks where toks: "decode (take (nat patlen) pat) = Some toks" "pattern e1 = toks_regex toks"
    using tr e1(4) by (auto simp: translate_pattern_def like_to_regex_def Let_def split: if_splits)
  have "keeps st1 st2 a"
    using run_keeps [OF assms(5) e1(1) assms(6), of a] e1(2) assms(2) by simp
  then obtain e2 where e2: "heap st2 a = Some e2" "pattern e2 = toks_regex toks"
    "lib (toks_regex toks) (pg_jitter_pcre2_compile_flags env False) = Some (code e2)"
    using e1(3,5,6) toks(2) by (auto simp: keeps_def)
  from match_raw_search [OF assms(7) e2, of "int (length (fst (detoast d)))" "fst (detoast d)"] show ?thesis
    using toks(1) e2(1,2) by (auto simp: pg_jitter_pcre2_match_text_def split: prod.splits)
qed

text \<open>A matcher that always gives up in JIT code, and in the interpreter at its match limit on a text
  of more than four bytes.\<close>

definition example_matcher :: "uint8 list pcre2_matcher" where
  "example_matcher = \<lparr>pcre2_jit_match = (\<lambda>_ _ _. - 46), pcre2_jit_fast_match = (\<lambda>_. None),
     pcre2_match = (\<lambda>regex s _. if length s > 4 then - 47 else if re_search (\<lambda>_. 1) regex s then 1 else - 1),
     PCRE2_NO_UTF_CHECK = 0x40000000, PCRE2_NO_JIT = Some 0x2000, PCRE2_ERROR_NOMATCH = - 1,
     PCRE2_ERROR_JIT_STACKLIMIT = Some (- 46), PCRE2_ERROR_JIT_BADOPTION = Some (- 45), PCRE2_ERROR_JIT_UNSUPPORTED = None,
     PCRE2_ERROR_MATCHLIMIT = Some (- 47), PCRE2_ERROR_DEPTHLIMIT = Some (- 53), PCRE2_ERROR_HEAPLIMIT = Some (- 63)\<rparr>"

lemma example_matcher_documented: "documented_pcre2 env (\<lambda>_. 1) (\<lambda>regex _. Some regex) example_matcher"
  by (auto simp: documented_pcre2_def example_matcher_def rc_ok_def gave_up_def pg_jitter_pcre2_should_retry_without_jit_def)

lemma example_matcher_gives_up:
  assumes "pattern e = toks_regex toks" "code e = toks_regex toks"
  shows "call_gives_up env example_matcher e s \<longleftrightarrow> length s > 4"
  using assms by (auto simp: call_gives_up_def Let_def example_matcher_def gave_up_def
      pg_jitter_pcre2_should_retry_without_jit_def pg_jitter_pcre2_interpreter_match_def)

text \<open>The pattern \<open>a\<close> on the texts \<open>a\<close>, \<open>b\<close> and \<open>aaaaa\<close>.\<close>

theorem like_through_pcre2_witness:
  "\<exists>st1 a. pg_jitter_pcre2_compile pcre2_example_env (\<lambda>regex _. Some regex) pcre2_example_event 0 [97] 1 True False 100
      (pcre2_init\<lparr>contexts := [[]]\<rparr>) = Some (st1, Ret (Some a)) \<and>
    pg_jitter_pcre2_match_text pcre2_example_env example_matcher (\<lambda>_. ([97], True)) st1 5 (Some a) =
      Some (st1\<lparr>match_counter := match_counter st1 + 1\<rparr>, Inr 1, False) \<and>
    pg_jitter_pcre2_match_text pcre2_example_env example_matcher (\<lambda>_. ([98], True)) st1 5 (Some a) =
      Some (st1\<lparr>match_counter := match_counter st1 + 1\<rparr>, Inr 0, False) \<and>
    pg_jitter_pcre2_match_text pcre2_example_env example_matcher (\<lambda>_. ([97, 97, 97, 97, 97], True)) st1 5 (Some a) =
      Some (st1\<lparr>match_counter := match_counter st1 + 1\<rparr>, Inl (Elog_error ''PCRE2 match failed with error code''), False)"
proof -
  let ?lib = "\<lambda>regex _. Some (regex :: uint8 list)"
  let ?st = "pcre2_init\<lparr>contexts := [[]]\<rparr> :: uint8 list pcre2_state"
  have "pcre2_step pcre2_example_env ?lib New_context pcre2_init ?st"
    using step_new [of pcre2_example_env ?lib pcre2_init] by (simp add: pcre2_init_def)
  then have run: "pcre2_run pcre2_example_env ?lib ([] @ [New_context]) pcre2_init ?st"
    by (rule run_step [OF run_none])
  have st: "0 < length (contexts ?st)" "heap ?st (ev_addr pcre2_example_event) = None" "cache_inv ?lib ?st"
    using run_inv [OF run init_inv] by (simp_all add: pcre2_init_def)
  have "cache_find ?st regex fl = Some None" for regex fl
    by (simp add: cache_find_def pcre2_init_def)
  then obtain st1 where st1: "pg_jitter_pcre2_compile pcre2_example_env ?lib pcre2_example_event 0 [97] 1 True False 100 ?st =
      Some (st1, Ret (Some 100))"
    and post: "compile_post ?lib 0 [94, 97, 92, 122] (pg_jitter_pcre2_compile_flags pcre2_example_env False) ?st (st1, Ret (Some 100))"
    using miss_post [OF st(3,1,2), of "[94, 97, 92, 122]" "pg_jitter_pcre2_compile_flags pcre2_example_env False"]
      pcre2_example_translation
    by (auto simp: pg_jitter_pcre2_compile_def pg_jitter_pcre2_is_eligible_def pcre2_example_env_def
        pcre2_example_event_def PCRE2_MAX_PATTERN_BYTES_def)
  have code: "code e = pattern e" if "heap st1 100 = Some e" for e
    using post that by (auto simp: compile_post_def)
  have toks: "decode (take (nat 1) [97]) = Some [Lit 97]"
    by (simp add: ch_esc_def ch_pct_def ch_us_def)
  have res: "pg_jitter_pcre2_match_text pcre2_example_env example_matcher detoast st1 5 (Some 100) =
      Some (st1\<lparr>match_counter := match_counter st1 + 1\<rparr>,
        if length (fst (detoast 5)) > 4 then Inl (Elog_error ''PCRE2 match failed with error code'')
        else Inr (c_bool (like_chars (\<lambda>_. 1) [Lit 97] (fst (detoast 5)))), False)" for detoast :: "Datum \<Rightarrow> uint8 list \<times> bool"
  proof -
    obtain toks e where te: "decode (take (nat 1) [97]) = Some toks" "heap st1 100 = Some e" "pattern e = toks_regex toks"
      "pg_jitter_pcre2_match_text pcre2_example_env example_matcher detoast st1 5 (Some 100) =
        Some (st1\<lparr>match_counter := match_counter st1 + 1\<rparr>,
          if call_gives_up pcre2_example_env example_matcher e (fst (detoast 5))
          then Inl (Elog_error ''PCRE2 match failed with error code'')
          else Inr (c_bool (like_chars (\<lambda>_. 1) toks (fst (detoast 5)))), False)"
      using like_through_pcre2 [OF run st(1,2) st1 run_none _ example_matcher_documented, of detoast 5] by auto
    then show ?thesis
      using toks code [OF te(2)] example_matcher_gives_up [OF te(3)] by simp
  qed
  show ?thesis
    using st1 res [of "\<lambda>_. ([97], True)"] res [of "\<lambda>_. ([98], True)"] res [of "\<lambda>_. ([97, 97, 97, 97, 97], True)"]
    by (intro exI [of _ st1] exI [of _ 100]) (auto simp: c_bool_def)
qed

end
