(* ===== verification/Meta.thy ===== *)
theory Meta
  imports ArrayOps
begin

unbundle bit_operations_syntax

text \<open>
  The meta provider (\<open>pg_jitter_meta.c\<close>): loading the backends, the expression profile, the table
  of timing statistics, the choice of a backend, the timing wrapper and the dispatch of a
  compilation. The dynamic loader, the clock, the random numbers, the compilers of the backends
  and the compiled code are parameters.
\<close>

section \<open>Backends\<close>

definition PG_JITTER_BACKEND_SLJIT :: nat where "PG_JITTER_BACKEND_SLJIT = 0"
definition PG_JITTER_BACKEND_ASMJIT :: nat where "PG_JITTER_BACKEND_ASMJIT = 1"
definition PG_JITTER_BACKEND_MIR :: nat where "PG_JITTER_BACKEND_MIR = 2"
definition PG_JITTER_NUM_BACKENDS :: nat where "PG_JITTER_NUM_BACKENDS = 3"
definition PG_JITTER_BACKEND_AUTO :: nat where "PG_JITTER_BACKEND_AUTO = 4"

lemmas backend_consts = PG_JITTER_BACKEND_SLJIT_def PG_JITTER_BACKEND_ASMJIT_def PG_JITTER_BACKEND_MIR_def
  PG_JITTER_NUM_BACKENDS_def PG_JITTER_BACKEND_AUTO_def

definition backend_options :: "(string \<times> nat) list" where
  "backend_options = [(''sljit'', PG_JITTER_BACKEND_SLJIT), (''asmjit'', PG_JITTER_BACKEND_ASMJIT),
     (''mir'', PG_JITTER_BACKEND_MIR), (''auto'', PG_JITTER_BACKEND_AUTO)]"

definition pg_jitter_current_backend :: "nat \<Rightarrow> string" where
  "pg_jitter_current_backend val =
     (case find (\<lambda>(name, v). v = val) backend_options of Some (name, v) \<Rightarrow> name | None \<Rightarrow> ''unknown'')"

text \<open>What the dynamic loader finds: the library file, whether loading and initialising succeeds, and
  whether the library has the reset function of the deform cache.\<close>

record loader =
  file_exists :: "nat \<Rightarrow> bool"
  init_ok :: "nat \<Rightarrow> bool"
  has_reset :: "nat \<Rightarrow> bool"

record BackendEntry =
  attempted :: bool
  available :: bool
  deform_reset :: bool

type_synonym backend_table = "nat \<Rightarrow> BackendEntry"

definition meta_load_backend :: "loader \<Rightarrow> nat \<Rightarrow> backend_table \<Rightarrow> backend_table \<times> bool" where
  "meta_load_backend ld idx bs =
     (if attempted (bs idx) then (bs, available (bs idx))
      else let e = (bs idx)\<lparr>attempted := True, available := False\<rparr>
      in if \<not> file_exists ld idx then (bs(idx := e), False)
         else if init_ok ld idx then (bs(idx := e\<lparr>available := True, deform_reset := has_reset ld idx\<rparr>), True)
         else (bs(idx := e\<lparr>available := False, deform_reset := False\<rparr>), False))"

text \<open>The assign hook; the flag says that the warning is given.\<close>

definition meta_backend_assign :: "loader \<Rightarrow> nat \<Rightarrow> backend_table \<Rightarrow> backend_table \<times> bool" where
  "meta_backend_assign ld newval bs =
     (if newval = PG_JITTER_BACKEND_AUTO
      then (fold (\<lambda>idx bs. fst (meta_load_backend ld idx bs)) [0..<PG_JITTER_NUM_BACKENDS] bs, False)
      else (case meta_load_backend ld newval bs of (bs', ok) \<Rightarrow> (bs', \<not> ok)))"

definition meta_detect_default :: "loader \<Rightarrow> nat" where
  "meta_detect_default ld =
     (let installed = filter (file_exists ld) [0..<PG_JITTER_NUM_BACKENDS]
      in if length installed \<ge> 2 then PG_JITTER_BACKEND_AUTO
         else case installed of idx # _ \<Rightarrow> idx | [] \<Rightarrow> PG_JITTER_BACKEND_SLJIT)"

definition meta_default_backend :: "backend_table \<Rightarrow> nat" where
  "meta_default_backend bs =
     (if available (bs PG_JITTER_BACKEND_SLJIT) then PG_JITTER_BACKEND_SLJIT
      else if available (bs PG_JITTER_BACKEND_ASMJIT) then PG_JITTER_BACKEND_ASMJIT
      else if available (bs PG_JITTER_BACKEND_MIR) then PG_JITTER_BACKEND_MIR
      else PG_JITTER_BACKEND_SLJIT)"

text \<open>The adaptive index of a backend and back.\<close>

definition adaptive_backend_to_idx :: "nat \<Rightarrow> nat option" where
  "adaptive_backend_to_idx backend =
     (if backend = PG_JITTER_BACKEND_SLJIT then Some 0
      else if backend = PG_JITTER_BACKEND_ASMJIT then Some 1
      else if backend = PG_JITTER_BACKEND_MIR then Some 2
      else None)"

definition adaptive_idx_to_backend :: "nat \<Rightarrow> nat" where
  "adaptive_idx_to_backend idx =
     (if idx = 0 then PG_JITTER_BACKEND_SLJIT
      else if idx = 1 then PG_JITTER_BACKEND_ASMJIT
      else if idx = 2 then PG_JITTER_BACKEND_MIR
      else PG_JITTER_BACKEND_SLJIT)"

section \<open>Expression profiles\<close>

datatype meta_opcode =
    EEOP_INNER_FETCHSOME | EEOP_OUTER_FETCHSOME | EEOP_SCAN_FETCHSOME
  | EEOP_HASHDATUM_SET_INITVAL | EEOP_HASHDATUM_FIRST | EEOP_HASHDATUM_FIRST_STRICT
  | EEOP_HASHDATUM_NEXT32 | EEOP_HASHDATUM_NEXT32_STRICT
  | EEOP_FUNCEXPR | EEOP_FUNCEXPR_STRICT | EEOP_FUNCEXPR_FUSAGE | EEOP_FUNCEXPR_STRICT_FUSAGE
  | EEOP_QUAL | EEOP_AGG_PLAIN_TRANS_BYVAL | EEOP_AGG_PLAIN_TRANS_STRICT_BYVAL | EEOP_other

record ExprProfile =
  nsteps :: uint16
  fetchsome_natts :: uint16
  n_hashdatum :: uint8
  n_funcexpr :: uint8
  n_qual :: uint8
  n_agg :: uint8

definition empty_profile :: ExprProfile where
  "empty_profile = \<lparr>nsteps = 0, fetchsome_natts = 0, n_hashdatum = 0, n_funcexpr = 0, n_qual = 0, n_agg = 0\<rparr>"

text \<open>A step is its opcode and \<open>d.fetch.last_var\<close>; the counters wrap at their width.\<close>

definition profile_step :: "bool \<Rightarrow> meta_opcode \<times> int \<Rightarrow> ExprProfile \<Rightarrow> ExprProfile" where
  "profile_step have_hashdatum step profile =
     (case step of (opcode, last_var) \<Rightarrow>
       if opcode \<in> {EEOP_INNER_FETCHSOME, EEOP_OUTER_FETCHSOME, EEOP_SCAN_FETCHSOME}
       then profile\<lparr>fetchsome_natts := fetchsome_natts profile + word_of_int last_var\<rparr>
       else if have_hashdatum \<and> opcode \<in> {EEOP_HASHDATUM_SET_INITVAL, EEOP_HASHDATUM_FIRST, EEOP_HASHDATUM_FIRST_STRICT,
         EEOP_HASHDATUM_NEXT32, EEOP_HASHDATUM_NEXT32_STRICT}
       then profile\<lparr>n_hashdatum := n_hashdatum profile + 1\<rparr>
       else if opcode \<in> {EEOP_FUNCEXPR, EEOP_FUNCEXPR_STRICT, EEOP_FUNCEXPR_FUSAGE, EEOP_FUNCEXPR_STRICT_FUSAGE}
       then profile\<lparr>n_funcexpr := n_funcexpr profile + 1\<rparr>
       else if opcode = EEOP_QUAL then profile\<lparr>n_qual := n_qual profile + 1\<rparr>
       else if opcode \<in> {EEOP_AGG_PLAIN_TRANS_BYVAL, EEOP_AGG_PLAIN_TRANS_STRICT_BYVAL}
       then profile\<lparr>n_agg := n_agg profile + 1\<rparr>
       else profile)"

definition meta_build_profile :: "bool \<Rightarrow> (meta_opcode \<times> int) list \<Rightarrow> ExprProfile" where
  "meta_build_profile have_hashdatum steps =
     fold (profile_step have_hashdatum) steps (empty_profile\<lparr>nsteps := of_nat (min (length steps) 65535)\<rparr>)"

text \<open>The eight bytes of the struct, little endian; \<open>comp_crc32c\<close> is PostgreSQL's CRC-32C.\<close>

definition profile_bytes :: "ExprProfile \<Rightarrow> uint8 list" where
  "profile_bytes p = bytes_of 2 (nsteps p) @ bytes_of 2 (fetchsome_natts p) @ [n_hashdatum p, n_funcexpr p, n_qual p, n_agg p]"

definition meta_profile_hash :: "(uint32 \<Rightarrow> uint8 list \<Rightarrow> uint32) \<Rightarrow> ExprProfile \<Rightarrow> uint32" where
  "meta_profile_hash comp_crc32c profile = comp_crc32c 0xFFFFFFFF (profile_bytes profile) XOR 0xFFFFFFFF"

section \<open>The table of statistics\<close>

definition ADAPTIVE_STATS_MAX_ENTRIES :: nat where "ADAPTIVE_STATS_MAX_ENTRIES = 256"
definition ADAPTIVE_NUM_BACKENDS :: nat where "ADAPTIVE_NUM_BACKENDS = 3"

record AdaptiveStatsEntry =
  profile_hash :: uint32
  e_profile :: ExprProfile
  call_count :: "nat \<Rightarrow> uint32"
  compile_ns :: "nat \<Rightarrow> uint64"
  exec_ns :: "nat \<Rightarrow> uint64"

text \<open>The table is \<open>NULL\<close> until the first use; \<open>num_entries\<close> is the length of the list.\<close>

type_synonym stats_table = "AdaptiveStatsEntry list option"

definition adaptive_stats_init :: "stats_table \<Rightarrow> bool \<Rightarrow> stats_table \<times> bool" where
  "adaptive_stats_init stats tried = (if stats \<noteq> None \<or> tried then (stats, tried) else (Some [], True))"

definition adaptive_stats_lookup :: "stats_table \<Rightarrow> uint32 \<Rightarrow> nat option" where
  "adaptive_stats_lookup stats h =
     (case stats of None \<Rightarrow> None
      | Some es \<Rightarrow> find (\<lambda>i. profile_hash (es ! i) = h) [0..<length es])"

definition adaptive_stats_insert :: "stats_table \<Rightarrow> uint32 \<Rightarrow> ExprProfile \<Rightarrow> stats_table \<times> nat option" where
  "adaptive_stats_insert stats h profile =
     (case stats of None \<Rightarrow> (stats, None)
      | Some es \<Rightarrow>
          (case adaptive_stats_lookup stats h of Some i \<Rightarrow> (stats, Some i)
           | None \<Rightarrow>
               if length es \<ge> ADAPTIVE_STATS_MAX_ENTRIES then (stats, None)
               else (Some (es @ [\<lparr>profile_hash = h, e_profile = profile, call_count = (\<lambda>_. 0),
                 compile_ns = (\<lambda>_. 0), exec_ns = (\<lambda>_. 0)\<rparr>]), Some (length es))))"

definition add_timing :: "nat \<Rightarrow> int64 \<Rightarrow> int64 \<Rightarrow> nat \<Rightarrow> AdaptiveStatsEntry \<Rightarrow> AdaptiveStatsEntry" where
  "add_timing idx compile exec calls e =
     (let e = e\<lparr>call_count := (call_count e)(idx := call_count e idx + of_nat calls)\<rparr>;
          e = (if sint compile > 0 then e\<lparr>compile_ns := (compile_ns e)(idx := compile_ns e idx + compile)\<rparr> else e)
      in if sint exec > 0 then e\<lparr>exec_ns := (exec_ns e)(idx := exec_ns e idx + exec)\<rparr> else e)"

definition adaptive_stats_record ::
  "stats_table \<Rightarrow> uint32 \<Rightarrow> nat option \<Rightarrow> int64 \<Rightarrow> int64 \<Rightarrow> nat \<Rightarrow> ExprProfile option \<Rightarrow> stats_table" where
  "adaptive_stats_record stats h adaptive_idx compile exec calls profile =
     (case adaptive_idx of None \<Rightarrow> stats
      | Some idx \<Rightarrow>
          (case stats of None \<Rightarrow> stats
           | Some _ \<Rightarrow>
               (let (stats', slot) = (case adaptive_stats_lookup stats h of Some i \<Rightarrow> (stats, Some i)
                      | None \<Rightarrow> adaptive_stats_insert stats h (case profile of Some p \<Rightarrow> p | None \<Rightarrow> empty_profile))
                in case slot of None \<Rightarrow> stats'
                   | Some i \<Rightarrow> map_option (\<lambda>es. es[i := add_timing idx compile exec calls (es ! i)]) stats')))"

definition pg_jitter_adaptive_stats_reset :: "stats_table \<Rightarrow> bool \<Rightarrow> stats_table \<times> bool" where
  "pg_jitter_adaptive_stats_reset stats tried =
     (case adaptive_stats_init stats tried of (stats', tried') \<Rightarrow> (map_option (\<lambda>_. []) stats', tried'))"

section \<open>Choosing a backend\<close>

text \<open>\<open>cost\<close> is the sum of the two times as doubles, an integer; \<open>rand\<close> is the random number that
  the call draws, \<open>explore\<close> the test against epsilon.\<close>

record chooser =
  cost :: "uint64 \<Rightarrow> uint64 \<Rightarrow> int"
  rand :: uint32
  adaptive_samples :: nat
  epsilon_positive :: bool
  below_epsilon :: "nat \<Rightarrow> bool"

definition measured_cost :: "chooser \<Rightarrow> AdaptiveStatsEntry \<Rightarrow> nat \<Rightarrow> int option" where
  "measured_cost ch e b =
     (if call_count e b \<ge> of_nat (adaptive_samples ch) then Some (cost ch (compile_ns e b) (exec_ns e b)) else None)"

definition best_measured :: "(nat \<Rightarrow> int option) \<Rightarrow> nat" where
  "best_measured costs = snd (fold (\<lambda>b (best_cost, best_idx).
     case costs b of Some c \<Rightarrow> if c < best_cost then (c, b) else (best_cost, best_idx) | None \<Rightarrow> (best_cost, best_idx))
     [0..<ADAPTIVE_NUM_BACKENDS] (the (costs 0), 0))"

definition bootstrap_explore :: "chooser \<Rightarrow> backend_table \<Rightarrow> AdaptiveStatsEntry \<Rightarrow> nat option" where
  "bootstrap_explore ch bs e =
     (if call_count e 0 > 0
      then (let unmeasured = filter (\<lambda>b. call_count e b = 0 \<and> available (bs (adaptive_idx_to_backend b))) [0..<ADAPTIVE_NUM_BACKENDS];
                r = unat (rand ch)
            in if unmeasured \<noteq> [] \<and> r mod 64 = 0
               then Some (adaptive_idx_to_backend (unmeasured ! (r div 64 mod length unmeasured)))
               else None)
      else None)"

definition adaptive_select :: "chooser \<Rightarrow> backend_table \<Rightarrow> stats_table \<Rightarrow> uint32 \<Rightarrow> nat option" where
  "adaptive_select ch bs stats h =
     (case adaptive_stats_lookup stats h of None \<Rightarrow> None
      | Some slot \<Rightarrow>
          (let e = the stats ! slot;
               costs = measured_cost ch e;
               n_measured = length (filter (\<lambda>b. costs b \<noteq> None) [0..<ADAPTIVE_NUM_BACKENDS])
           in if costs 0 = None \<or> n_measured < 2 then bootstrap_explore ch bs e
              else let best_idx = best_measured costs; r = unat (rand ch);
                       candidates = filter (\<lambda>b. b \<noteq> best_idx \<and> costs b \<noteq> None) [0..<ADAPTIVE_NUM_BACKENDS]
                   in if epsilon_positive ch \<and> below_epsilon ch (r mod 10000) \<and> candidates \<noteq> []
                      then Some (adaptive_idx_to_backend (candidates ! (r div 10000 mod length candidates)))
                      else Some (adaptive_idx_to_backend best_idx)))"

definition heuristic_backend :: "bool \<Rightarrow> backend_table \<Rightarrow> ExprProfile \<Rightarrow> nat" where
  "heuristic_backend is_aarch64 bs p =
     (if available (bs PG_JITTER_BACKEND_ASMJIT)
      then (let natts = unat (fetchsome_natts p);
                use_asmjit = (if unat (n_hashdatum p) > 0 \<and> natts > 0 then True
                  else natts \<ge> (if is_aarch64 then 10 else 20) \<and> natts * 3 > unat (nsteps p))
            in if use_asmjit then PG_JITTER_BACKEND_ASMJIT else PG_JITTER_BACKEND_SLJIT)
      else meta_default_backend bs)"

record build_target =
  is_aarch64 :: bool
  have_hashdatum :: bool
  comp_crc32c :: "uint32 \<Rightarrow> uint8 list \<Rightarrow> uint32"

definition meta_auto_select_backend :: "build_target \<Rightarrow> bool \<Rightarrow> chooser \<Rightarrow> backend_table \<Rightarrow> stats_table \<Rightarrow>
    (meta_opcode \<times> int) list \<Rightarrow> nat \<times> uint32 \<times> ExprProfile" where
  "meta_auto_select_backend bt adaptive ch bs stats steps =
     (let profile = meta_build_profile (have_hashdatum bt) steps;
          h = meta_profile_hash (comp_crc32c bt) profile;
          selected = heuristic_backend (is_aarch64 bt) bs profile;
          selected = (if adaptive \<and> stats \<noteq> None
            then (case adaptive_select ch bs stats h of
                Some choice \<Rightarrow> if available (bs choice) then choice else selected
              | None \<Rightarrow> selected)
            else selected)
      in (selected, h, profile))"

section \<open>The SQL view of the statistics\<close>

text \<open>The running winner: index, cost, second cost and the number of measured backends.\<close>

definition winner_step :: "(nat \<Rightarrow> int option) \<Rightarrow> nat \<Rightarrow> nat option \<times> int \<times> int \<times> nat \<Rightarrow> nat option \<times> int \<times> int \<times> nat" where
  "winner_step costs b w =
     (case w of (best_b, best_cost, second_cost, n_measured) \<Rightarrow>
        case costs b of None \<Rightarrow> w
        | Some c \<Rightarrow>
            if best_b = None \<or> c < best_cost then (Some b, c, best_cost, n_measured + 1)
            else if n_measured = 1 \<or> c < second_cost then (best_b, best_cost, c, n_measured + 1)
            else (best_b, best_cost, second_cost, n_measured + 1))"

definition stats_winner :: "(nat \<Rightarrow> int option) \<Rightarrow> nat option \<times> int \<times> int \<times> nat" where
  "stats_winner costs = fold (winner_step costs) [0..<ADAPTIVE_NUM_BACKENDS] (None, 0, 0, 0)"

definition idx_names :: "string list" where "idx_names = [''sljit'', ''asmjit'', ''mir'']"

definition stats_selected :: "(nat \<Rightarrow> int option) \<Rightarrow> string" where
  "stats_selected costs =
     (case stats_winner costs of (best_b, _, _, n_measured) \<Rightarrow>
        case best_b of Some b \<Rightarrow> if n_measured \<ge> 2 then idx_names ! b else ''pending'' | None \<Rightarrow> ''pending'')"

definition pg_jitter_adaptive_stats :: "chooser \<Rightarrow> stats_table \<Rightarrow> bool \<Rightarrow>
    (uint32 \<times> ExprProfile \<times> (uint32 \<times> uint64 \<times> uint64) list \<times> string) list \<times> stats_table \<times> bool" where
  "pg_jitter_adaptive_stats ch stats tried =
     (case adaptive_stats_init stats tried of (stats', tried') \<Rightarrow>
        (case stats' of None \<Rightarrow> []
         | Some es \<Rightarrow> map (\<lambda>e. (profile_hash e, e_profile e,
             map (\<lambda>b. (call_count e b, compile_ns e b, exec_ns e b)) [0..<ADAPTIVE_NUM_BACKENDS],
             stats_selected (measured_cost ch e)))
             (filter (\<lambda>e. profile_hash e \<noteq> 0) es), stats', tried'))"

section \<open>Contexts, the timing wrapper and the dispatch of a compilation\<close>

text \<open>An \<open>ExprState\<close> is its steps and the \<open>EState\<close> of its parent, if it has one. \<open>evalfunc\<close> and
  \<open>evalfunc_private\<close> together are a value of \<open>'k evalfunc\<close>: \<open>Raw k\<close> is code of a backend, \<open>Timing a\<close>
  the wrapper with the timing context at address \<open>a\<close>.\<close>

record ExprState =
  steps :: "(meta_opcode \<times> int) list"
  parent :: "nat option"

datatype 'k evalfunc = NoFunc | Raw 'k | Timing nat

record 'k AdaptiveTimingCtx =
  original_evalfunc :: 'k
  t_profile_hash :: uint32
  t_profile :: ExprProfile
  backend_idx :: nat
  t_call_count :: nat
  t_exec_ns :: int64
  t_compile_ns :: int64
  t_done :: bool

record MetaJitterContext =
  adaptive_timings :: "nat list"
  backends_used :: uint32
  compiled_list :: "(nat \<times> bool) list"
  share_dsm :: "nat option"
  share_is_leader :: bool
  aux_context :: "nat option"

definition empty_context :: MetaJitterContext where
  "empty_context = \<lparr>adaptive_timings = [], backends_used = 0, compiled_list = [], share_dsm = None,
     share_is_leader = False, aux_context = None\<rparr>"

record 'k meta_state =
  backends :: backend_table
  adaptive_stats :: stats_table
  shmem_attempted :: bool
  evalfunc :: "nat \<Rightarrow> 'k evalfunc"
  es_jit :: "nat \<Rightarrow> MetaJitterContext option"
  tctxs :: "nat \<Rightarrow> 'k AdaptiveTimingCtx option"
  next_tctx :: nat

definition meta_ensure_context :: "ExprState \<Rightarrow> 'k meta_state \<Rightarrow> 'k meta_state" where
  "meta_ensure_context state s =
     (case parent state of None \<Rightarrow> s
      | Some p \<Rightarrow> if es_jit s p \<noteq> None then s else s\<lparr>es_jit := (es_jit s)(p \<mapsto> empty_context)\<rparr>)"

text \<open>The result of a call: \<open>None\<close> is a use of a freed timing context, \<open>Inl\<close> an error raised by the code.
  \<open>eval k x\<close> is what the code \<open>k\<close> does on the input \<open>x\<close>: its result, the code it leaves in \<open>evalfunc\<close>,
  and the elapsed nanoseconds.\<close>

type_synonym ('k, 'x, 'err, 'r) code = "'k \<Rightarrow> 'x \<Rightarrow> ('err + 'r) \<times> 'k \<times> int64"

definition meta_adaptive_timing_wrapper ::
  "nat \<Rightarrow> ('k, 'x, 'err, 'r) code \<Rightarrow> nat \<Rightarrow> nat \<Rightarrow> 'x \<Rightarrow> 'k meta_state \<Rightarrow> ('err + 'r) option \<times> 'k meta_state" where
  "meta_adaptive_timing_wrapper samples eval e a x s =
     (case tctxs s a of None \<Rightarrow> (None, s)
      | Some t \<Rightarrow>
          (case eval (original_evalfunc t) x of (res, k', ns) \<Rightarrow>
             (case res of
                Inl err \<Rightarrow> (Some (Inl err), s\<lparr>evalfunc := (evalfunc s)(e := Raw k')\<rparr>)
              | Inr r \<Rightarrow>
                  (let t = t\<lparr>t_call_count := t_call_count t + 1, t_exec_ns := t_exec_ns t + ns, original_evalfunc := k'\<rparr>
                   in if t_call_count t \<ge> samples
                      then (Some (Inr r), s\<lparr>evalfunc := (evalfunc s)(e := Raw k'),
                        adaptive_stats := adaptive_stats_record (adaptive_stats s) (t_profile_hash t) (Some (backend_idx t))
                          (t_compile_ns t) (t_exec_ns t) (t_call_count t) (Some (t_profile t)),
                        tctxs := (tctxs s)(a \<mapsto> t\<lparr>t_done := True\<rparr>)\<rparr>)
                      else (Some (Inr r), s\<lparr>evalfunc := (evalfunc s)(e := Timing a), tctxs := (tctxs s)(a \<mapsto> t)\<rparr>)))))"

text \<open>The executor evaluates an expression through \<open>state->evalfunc\<close>.\<close>

definition call_expr ::
  "nat \<Rightarrow> ('k, 'x, 'err, 'r) code \<Rightarrow> nat \<Rightarrow> 'x \<Rightarrow> 'k meta_state \<Rightarrow> ('err + 'r) option \<times> 'k meta_state" where
  "call_expr samples eval e x s =
     (case evalfunc s e of NoFunc \<Rightarrow> (None, s)
      | Raw k \<Rightarrow> (case eval k x of (res, k', ns) \<Rightarrow> (Some res, s\<lparr>evalfunc := (evalfunc s)(e := Raw k')\<rparr>))
      | Timing a \<Rightarrow> meta_adaptive_timing_wrapper samples eval e a x s)"

text \<open>The wrapper is installed right after a backend has set \<open>evalfunc\<close>, which is then \<open>NoFunc\<close> or \<open>Raw k\<close>.\<close>

definition enough_samples :: "nat \<Rightarrow> stats_table \<Rightarrow> uint32 \<Rightarrow> nat \<Rightarrow> bool" where
  "enough_samples samples stats h adaptive_idx =
     (case adaptive_stats_lookup stats h of None \<Rightarrow> False
      | Some slot \<Rightarrow> call_count (the stats ! slot) adaptive_idx \<ge> of_nat samples)"

definition meta_install_timing_wrapper ::
  "nat \<Rightarrow> nat \<Rightarrow> ExprState \<Rightarrow> nat \<Rightarrow> uint32 \<Rightarrow> int64 \<Rightarrow> ExprProfile \<Rightarrow> 'k meta_state \<Rightarrow> 'k meta_state" where
  "meta_install_timing_wrapper samples e state backend_enum h ns profile s =
     (case (adaptive_backend_to_idx backend_enum, evalfunc s e, parent state) of
        (Some adaptive_idx, Raw k, Some p) \<Rightarrow>
          (case es_jit s p of None \<Rightarrow> s
           | Some ctx \<Rightarrow>
               if enough_samples samples (adaptive_stats s) h adaptive_idx then s
               else let a = next_tctx s in
                 s\<lparr>tctxs := (tctxs s)(a \<mapsto> \<lparr>original_evalfunc = k, t_profile_hash = h, t_profile = profile,
                     backend_idx = adaptive_idx, t_call_count = 0, t_exec_ns = 0, t_compile_ns = ns, t_done = False\<rparr>),
                   next_tctx := a + 1, evalfunc := (evalfunc s)(e := Timing a),
                   es_jit := (es_jit s)(p \<mapsto> ctx\<lparr>adaptive_timings := a # adaptive_timings ctx\<rparr>)\<rparr>)
      | _ \<Rightarrow> s)"

text \<open>\<open>compile_expr\<close> of a backend: whether it compiled, the code it installed and the time it took.\<close>

record 'k provider =
  loader_of :: loader
  compile_cb :: "nat \<Rightarrow> ExprState \<Rightarrow> bool \<times> 'k option \<times> int64"
  target :: build_target

record gucs =
  pg_jitter_backend :: nat
  meta_adaptive :: bool
  selection :: chooser

definition mark_used :: "ExprState \<Rightarrow> nat \<Rightarrow> 'k meta_state \<Rightarrow> 'k meta_state" where
  "mark_used state idx s =
     (case parent state of None \<Rightarrow> s
      | Some p \<Rightarrow> (case es_jit s p of None \<Rightarrow> s
          | Some ctx \<Rightarrow> s\<lparr>es_jit := (es_jit s)(p \<mapsto> ctx\<lparr>backends_used := backends_used ctx OR push_bit idx 1\<rparr>)\<rparr>))"

definition run_backend :: "'k provider \<Rightarrow> nat \<Rightarrow> ExprState \<Rightarrow> nat \<Rightarrow> 'k meta_state \<Rightarrow> 'k meta_state \<times> bool \<times> int64" where
  "run_backend pv e state idx s =
     (case compile_cb pv idx state of (ok, code, ns) \<Rightarrow>
        (s\<lparr>evalfunc := (evalfunc s)(e := (case code of Some k \<Rightarrow> Raw k | None \<Rightarrow> NoFunc))\<rparr>, ok, ns))"

fun try_backends :: "'k provider \<Rightarrow> nat \<Rightarrow> ExprState \<Rightarrow> nat list \<Rightarrow> 'k meta_state \<Rightarrow> 'k meta_state \<times> bool" where
  "try_backends pv e state [] s = (s, False)"
| "try_backends pv e state (idx # idxs) s =
     (case meta_load_backend (loader_of pv) idx (backends s) of (bs, loaded) \<Rightarrow>
        let s = s\<lparr>backends := bs\<rparr> in
        if loaded
        then (case run_backend pv e state idx s of (s, ok, _) \<Rightarrow> (if ok then mark_used state idx s else s, ok))
        else try_backends pv e state idxs s)"

definition meta_compile_expr :: "'k provider \<Rightarrow> gucs \<Rightarrow> nat \<Rightarrow> ExprState \<Rightarrow> 'k meta_state \<Rightarrow> 'k meta_state \<times> bool" where
  "meta_compile_expr pv g e state s =
     (let is_auto = (pg_jitter_backend g = PG_JITTER_BACKEND_AUTO);
          s = meta_ensure_context state s;
          (stats, tried) = (if is_auto \<and> meta_adaptive g then adaptive_stats_init (adaptive_stats s) (shmem_attempted s)
            else (adaptive_stats s, shmem_attempted s));
          s = s\<lparr>adaptive_stats := stats, shmem_attempted := tried\<rparr>;
          (idx, h, profile) = (if is_auto
            then meta_auto_select_backend (target pv) (meta_adaptive g) (selection g) (backends s) stats (steps state)
            else (pg_jitter_backend g, 0, empty_profile));
          (bs, loaded) = meta_load_backend (loader_of pv) idx (backends s);
          s = s\<lparr>backends := bs\<rparr>
      in if loaded
         then (case run_backend pv e state idx s of (s, ok, ns) \<Rightarrow>
           (let s = (if ok \<and> is_auto \<and> meta_adaptive g \<and> adaptive_stats s \<noteq> None
                     then meta_install_timing_wrapper (adaptive_samples (selection g)) e state idx h ns profile s else s)
            in (if ok then mark_used state idx s else s, ok)))
         else try_backends pv e state [0..<PG_JITTER_NUM_BACKENDS] s)"

section \<open>Release and errors\<close>

datatype meta_effect = Deform_reset nat | Clear_dsm_handle | Dsm_detach nat | Free_code nat | Delete_aux nat
  | Forget_context | Reset_after_error nat

text \<open>One node of \<open>adaptive_timings\<close>; \<open>None\<close> is a use of a freed timing context.\<close>

definition release_timing :: "nat \<Rightarrow> 'k meta_state \<Rightarrow> 'k meta_state option" where
  "release_timing a s =
     (case tctxs s a of None \<Rightarrow> None
      | Some t \<Rightarrow>
          let stats = (if \<not> t_done t \<and> t_call_count t > 0
            then adaptive_stats_record (adaptive_stats s) (t_profile_hash t) (Some (backend_idx t)) (t_compile_ns t)
              (t_exec_ns t) (t_call_count t) None
            else adaptive_stats s)
          in Some (s\<lparr>adaptive_stats := stats, tctxs := (tctxs s)(a := None)\<rparr>))"

fun release_timings :: "nat list \<Rightarrow> 'k meta_state \<Rightarrow> 'k meta_state option" where
  "release_timings [] s = Some s"
| "release_timings (a # as) s = (case release_timing a s of None \<Rightarrow> None | Some s \<Rightarrow> release_timings as s)"

definition release_effects :: "backend_table \<Rightarrow> MetaJitterContext \<Rightarrow> meta_effect list" where
  "release_effects bs ctx =
     map Deform_reset (filter (\<lambda>idx. available (bs idx) \<and> deform_reset (bs idx)) [0..<PG_JITTER_NUM_BACKENDS])
     @ (case share_dsm ctx of None \<Rightarrow> [] | Some seg \<Rightarrow> (if share_is_leader ctx then [Clear_dsm_handle] else []) @ [Dsm_detach seg])
     @ map (\<lambda>(data, _). Free_code data) (filter snd (compiled_list ctx))
     @ (case aux_context ctx of None \<Rightarrow> [] | Some c \<Rightarrow> [Delete_aux c])
     @ [Forget_context]"

definition meta_release_context :: "nat \<Rightarrow> 'k meta_state \<Rightarrow> ('k meta_state \<times> meta_effect list) option" where
  "meta_release_context p s =
     (case es_jit s p of None \<Rightarrow> Some (s, [])
      | Some ctx \<Rightarrow>
          (case release_timings (adaptive_timings ctx) s of None \<Rightarrow> None
           | Some s' \<Rightarrow> Some (s'\<lparr>es_jit := (es_jit s')(p := None)\<rparr>, release_effects (backends s) ctx)))"

definition meta_reset_after_error :: "backend_table \<Rightarrow> meta_effect list" where
  "meta_reset_after_error bs = map Reset_after_error (filter (\<lambda>idx. available (bs idx)) [0..<PG_JITTER_NUM_BACKENDS])"

end
