(* ===== verification/MetaStats.thy ===== *)
theory MetaStats
  imports Meta
begin

text \<open>
  The table of statistics against its specification: for every profile hash the table holds the sums
  of what was recorded for it, and the choice of a backend takes the cheapest measured one.
\<close>

section \<open>The table\<close>

definition stats_ok :: "stats_table \<Rightarrow> bool" where
  "stats_ok stats = (case stats of None \<Rightarrow> True
     | Some es \<Rightarrow> distinct (map profile_hash es) \<and> length es \<le> ADAPTIVE_STATS_MAX_ENTRIES)"

lemma stats_ok_simps [simp]:
  "stats_ok None"
  "stats_ok (Some es) \<longleftrightarrow> distinct (map profile_hash es) \<and> length es \<le> ADAPTIVE_STATS_MAX_ENTRIES"
  by (simp_all add: stats_ok_def)

lemma lookup_None [simp]: "adaptive_stats_lookup None h = None"
  by (simp add: adaptive_stats_lookup_def)

lemma lookup_SomeD:
  assumes "adaptive_stats_lookup (Some es) h = Some i"
  shows "i < length es" "profile_hash (es ! i) = h"
  using assms by (auto simp: adaptive_stats_lookup_def find_Some_iff)

lemma lookup_eq_None_iff:
  "adaptive_stats_lookup (Some es) h = None \<longleftrightarrow> h \<notin> profile_hash ` set es"
  by (auto simp: adaptive_stats_lookup_def find_None_iff image_iff) (metis in_set_conv_nth)

lemma profile_hash_add_timing [simp]: "profile_hash (add_timing idx c x n e) = profile_hash e"
  by (simp add: add_timing_def Let_def)

lemma e_profile_add_timing [simp]: "e_profile (add_timing idx c x n e) = e_profile e"
  by (simp add: add_timing_def Let_def)

lemma record_None [simp]: "adaptive_stats_record None h idx c x n p = None"
  by (simp add: adaptive_stats_record_def split: option.split)

text \<open>Recording for a known hash, for a new one, and for a new one when the table is full.\<close>

lemma record_old:
  assumes "adaptive_stats_lookup (Some es) h = Some i"
  shows "adaptive_stats_record (Some es) h (Some idx) c x n p = Some (es[i := add_timing idx c x n (es ! i)])"
  using assms by (simp add: adaptive_stats_record_def)

definition new_entry :: "uint32 \<Rightarrow> ExprProfile \<Rightarrow> AdaptiveStatsEntry" where
  "new_entry h p = \<lparr>profile_hash = h, e_profile = p, call_count = (\<lambda>_. 0), compile_ns = (\<lambda>_. 0), exec_ns = (\<lambda>_. 0)\<rparr>"

lemma new_entry_sel [simp]:
  "profile_hash (new_entry h p) = h" "e_profile (new_entry h p) = p" "call_count (new_entry h p) = (\<lambda>_. 0)"
  "compile_ns (new_entry h p) = (\<lambda>_. 0)" "exec_ns (new_entry h p) = (\<lambda>_. 0)"
  by (simp_all add: new_entry_def)

lemma record_new:
  assumes "h \<notin> profile_hash ` set es" "length es < ADAPTIVE_STATS_MAX_ENTRIES"
  shows "adaptive_stats_record (Some es) h (Some idx) c x n p =
    Some (es @ [add_timing idx c x n (new_entry h (case p of Some p \<Rightarrow> p | None \<Rightarrow> empty_profile))])"
proof -
  have "adaptive_stats_lookup (Some es) h = None"
    using assms(1) by (simp only: lookup_eq_None_iff not_False_eq_True)
  then show ?thesis using assms(2)
    by (simp add: adaptive_stats_record_def adaptive_stats_insert_def new_entry_def)
qed

lemma record_full:
  assumes "h \<notin> profile_hash ` set es" "length es \<ge> ADAPTIVE_STATS_MAX_ENTRIES"
  shows "adaptive_stats_record (Some es) h idx c x n p = Some es"
proof -
  have "adaptive_stats_lookup (Some es) h = None"
    using assms(1) by (simp only: lookup_eq_None_iff not_False_eq_True)
  then show ?thesis using assms(2)
    by (simp add: adaptive_stats_record_def adaptive_stats_insert_def split: option.split)
qed

lemma record_cases [consumes 0, case_names none no_idx old new full]:
  obtains "stats = None"
  | "idx = None" "adaptive_stats_record stats h idx c x n p = stats"
  | es i b where "stats = Some es" "idx = Some b" "i < length es" "profile_hash (es ! i) = h"
      "adaptive_stats_record stats h idx c x n p = Some (es[i := add_timing b c x n (es ! i)])"
  | es b where "stats = Some es" "idx = Some b" "h \<notin> profile_hash ` set es" "length es < ADAPTIVE_STATS_MAX_ENTRIES"
      "adaptive_stats_record stats h idx c x n p =
        Some (es @ [add_timing b c x n (new_entry h (case p of Some p \<Rightarrow> p | None \<Rightarrow> empty_profile))])"
  | es b where "stats = Some es" "idx = Some b" "h \<notin> profile_hash ` set es" "length es \<ge> ADAPTIVE_STATS_MAX_ENTRIES"
      "adaptive_stats_record stats h idx c x n p = Some es"
proof (cases stats)
  case None
  then show ?thesis by (rule that(1))
next
  case (Some es)
  show ?thesis
  proof (cases idx)
    case None
    then show ?thesis using that(2) by (simp add: adaptive_stats_record_def)
  next
    case idx: (Some b)
    show ?thesis
    proof (cases "adaptive_stats_lookup (Some es) h")
      case None
      then have h: "h \<notin> profile_hash ` set es" by (simp add: lookup_eq_None_iff)
      then show ?thesis using that(4,5) Some idx record_new record_full by (metis not_le)
    next
      case look: (Some i)
      show ?thesis
        using that(3) Some idx lookup_SomeD[OF look] record_old[OF look] by blast
    qed
  qed
qed

lemma map_profile_hash_update:
  "map profile_hash (es[i := add_timing b c x n (es ! i)]) = map profile_hash es"
  by (metis list_update_id map_update profile_hash_add_timing)

lemma stats_ok_record: "stats_ok stats \<Longrightarrow> stats_ok (adaptive_stats_record stats h idx c x n p)"
  by (cases rule: record_cases[where stats = stats and h = h and idx = idx and c = c and x = x and n = n and p = p]) (auto simp: map_profile_hash_update)

lemma stats_ok_init: "stats_ok stats \<Longrightarrow> stats_ok (fst (adaptive_stats_init stats tried))"
  by (simp add: adaptive_stats_init_def)

lemma stats_ok_reset: "stats_ok stats \<Longrightarrow> stats_ok (fst (pg_jitter_adaptive_stats_reset stats tried))"
  by (cases stats) (auto simp: pg_jitter_adaptive_stats_reset_def adaptive_stats_init_def)

section \<open>The accounts\<close>

record timing_report =
  r_hash :: uint32
  r_idx :: nat
  r_compile :: int64
  r_exec :: int64
  r_calls :: nat
  r_profile :: "ExprProfile option"

definition record_report :: "timing_report \<Rightarrow> stats_table \<Rightarrow> stats_table" where
  "record_report r stats = adaptive_stats_record stats (r_hash r) (Some (r_idx r)) (r_compile r) (r_exec r) (r_calls r) (r_profile r)"

definition report_profile :: "timing_report \<Rightarrow> ExprProfile" where
  "report_profile r = (case r_profile r of Some p \<Rightarrow> p | None \<Rightarrow> empty_profile)"

definition positive :: "int64 \<Rightarrow> uint64" where "positive w = (if sint w > 0 then w else 0)"

definition reports_of :: "timing_report list \<Rightarrow> uint32 \<Rightarrow> nat \<Rightarrow> timing_report list" where
  "reports_of log h b = filter (\<lambda>r. r_hash r = h \<and> r_idx r = b) log"

text \<open>The hashes in the order of their first occurrence.\<close>

definition first_hashes :: "timing_report list \<Rightarrow> uint32 list" where
  "first_hashes log = rev (remdups (rev (map r_hash log)))"

lemma first_hashes_snoc:
  "first_hashes (log @ [r]) = (if r_hash r \<in> r_hash ` set log then first_hashes log else first_hashes log @ [r_hash r])"
  by (auto simp: first_hashes_def)

lemma set_first_hashes [simp]: "set (first_hashes log) = r_hash ` set log"
  by (simp add: first_hashes_def)

lemma add_timing_counts:
  "call_count (add_timing idx c x n e) b = call_count e b + (if b = idx then of_nat n else 0)"
  "compile_ns (add_timing idx c x n e) b = compile_ns e b + (if b = idx then positive c else 0)"
  "exec_ns (add_timing idx c x n e) b = exec_ns e b + (if b = idx then positive x else 0)"
  by (simp_all add: add_timing_def Let_def positive_def)

definition entry_accounts :: "timing_report list \<Rightarrow> AdaptiveStatsEntry \<Rightarrow> bool" where
  "entry_accounts log e = (\<forall>b.
     call_count e b = sum_list (map (\<lambda>r. of_nat (r_calls r)) (reports_of log (profile_hash e) b)) \<and>
     compile_ns e b = sum_list (map (\<lambda>r. positive (r_compile r)) (reports_of log (profile_hash e) b)) \<and>
     exec_ns e b = sum_list (map (\<lambda>r. positive (r_exec r)) (reports_of log (profile_hash e) b)))"

definition first_profile :: "timing_report list \<Rightarrow> uint32 \<Rightarrow> ExprProfile option" where
  "first_profile log h = map_option report_profile (find (\<lambda>r. r_hash r = h) log)"

lemma reports_of_snoc:
  "reports_of (log @ [r]) h b = reports_of log h b @ (if r_hash r = h \<and> r_idx r = b then [r] else [])"
  by (simp add: reports_of_def)

lemma entry_accounts_other: "entry_accounts log e \<Longrightarrow> r_hash r \<noteq> profile_hash e \<Longrightarrow> entry_accounts (log @ [r]) e"
  by (simp add: entry_accounts_def reports_of_snoc)

lemma entry_accounts_add:
  "entry_accounts log e \<Longrightarrow> r_hash r = profile_hash e \<Longrightarrow>
    entry_accounts (log @ [r]) (add_timing (r_idx r) (r_compile r) (r_exec r) (r_calls r) e)"
  by (auto simp: entry_accounts_def reports_of_snoc add_timing_counts)

lemma reports_of_fresh: "h \<notin> r_hash ` set log \<Longrightarrow> reports_of log h b = []"
  by (auto simp: reports_of_def filter_empty_conv)

lemma entry_accounts_new: "h \<notin> r_hash ` set log \<Longrightarrow> entry_accounts log (new_entry h p)"
  by (simp add: entry_accounts_def reports_of_fresh)

lemma first_profile_snoc_old: "first_profile log h = Some p \<Longrightarrow> first_profile (log @ [r]) h = Some p"
  by (auto simp: first_profile_def find_append split: option.splits)

lemma first_profile_fresh: "h \<notin> r_hash ` set log \<Longrightarrow> first_profile log h = None"
  by (auto simp: first_profile_def find_None_iff)

lemma first_profile_new: "r_hash r \<notin> r_hash ` set log \<Longrightarrow> first_profile (log @ [r]) (r_hash r) = Some (report_profile r)"
  using first_profile_fresh[of "r_hash r" log]
  by (auto simp: first_profile_def find_append split: option.splits)

definition table_accounts :: "timing_report list \<Rightarrow> AdaptiveStatsEntry list \<Rightarrow> bool" where
  "table_accounts log es \<longleftrightarrow>
     map profile_hash es = take ADAPTIVE_STATS_MAX_ENTRIES (first_hashes log) \<and>
     (\<forall>e\<in>set es. entry_accounts log e \<and> first_profile log (profile_hash e) = Some (e_profile e))"

lemma table_accounts_step:
  assumes "table_accounts log es"
  shows "\<exists>es'. record_report r (Some es) = Some es' \<and> table_accounts (log @ [r]) es'"
proof -
  let ?h = "r_hash r"
  have hs: "map profile_hash es = take ADAPTIVE_STATS_MAX_ENTRIES (first_hashes log)"
    and es: "\<And>e. e \<in> set es \<Longrightarrow> entry_accounts log e \<and> first_profile log (profile_hash e) = Some (e_profile e)"
    using assms by (auto simp: table_accounts_def)
  have sub: "profile_hash ` set es \<subseteq> r_hash ` set log"
    using arg_cong[OF hs, of set] set_take_subset[of ADAPTIVE_STATS_MAX_ENTRIES "first_hashes log"] by simp
  have others: "entry_accounts (log @ [r]) e \<and> first_profile (log @ [r]) (profile_hash e) = Some (e_profile e)"
    if "e \<in> set es" "profile_hash e \<noteq> ?h" for e
    using es[OF that(1)] that(2) by (simp add: entry_accounts_other first_profile_snoc_old)
  show ?thesis
  proof (cases "?h \<in> profile_hash ` set es")
    case True
    then obtain i where look: "adaptive_stats_lookup (Some es) ?h = Some i"
      by (metis lookup_eq_None_iff option.exhaust)
    note i = lookup_SomeD[OF look]
    let ?e = "add_timing (r_idx r) (r_compile r) (r_exec r) (r_calls r) (es ! i)"
    have same: "first_hashes (log @ [r]) = first_hashes log"
      using True sub by (auto simp: first_hashes_snoc)
    have dist: "distinct (map profile_hash es)" unfolding hs by (simp add: first_hashes_def)
    have acc: "entry_accounts (log @ [r]) e \<and> first_profile (log @ [r]) (profile_hash e) = Some (e_profile e)"
      if "e \<in> set (es[i := ?e])" for e
    proof -
      from that obtain j where "j < length (es[i := ?e])" "(es[i := ?e]) ! j = e"
        unfolding in_set_conv_nth by blast
      then have j: "j < length es" "e = (es[i := ?e]) ! j" by simp_all
      show ?thesis
      proof (cases "j = i")
        case True
        then have "e = ?e" using j by simp
        then show ?thesis
          using es[OF nth_mem[OF i(1)]] i(2) by (simp add: entry_accounts_add first_profile_snoc_old)
      next
        case False
        then have "e = es ! j" using j(2) by simp
        moreover have "profile_hash (es ! j) \<noteq> ?h"
          using False dist j(1) i by (metis length_map nth_eq_iff_index_eq nth_map)
        ultimately show ?thesis using others j(1) by simp
      qed
    qed
    have "table_accounts (log @ [r]) (es[i := ?e])"
      unfolding table_accounts_def map_profile_hash_update same hs using acc by simp
    then show ?thesis by (simp add: record_report_def record_old[OF look])
  next
    case False
    show ?thesis
    proof (cases "length es < ADAPTIVE_STATS_MAX_ENTRIES")
      case True
      have "length es = min (length (first_hashes log)) ADAPTIVE_STATS_MAX_ENTRIES"
        using hs by (metis length_map length_take)
      then have "length (first_hashes log) \<le> ADAPTIVE_STATS_MAX_ENTRIES" using True by simp
      then have all: "map profile_hash es = first_hashes log" using hs by simp
      then have fresh: "?h \<notin> r_hash ` set log"
        using False by (metis list.set_map set_first_hashes)
      let ?e = "add_timing (r_idx r) (r_compile r) (r_exec r) (r_calls r) (new_entry ?h (report_profile r))"
      have new: "entry_accounts (log @ [r]) ?e"
        by (rule entry_accounts_add[OF entry_accounts_new[OF fresh]]) simp
      have old: "\<forall>e\<in>set es. entry_accounts (log @ [r]) e \<and> first_profile (log @ [r]) (profile_hash e) = Some (e_profile e)"
        using others False by (metis image_eqI)
      have "length (first_hashes log) < ADAPTIVE_STATS_MAX_ENTRIES"
        using arg_cong[OF all, of length] True by simp
      then have "map profile_hash (es @ [?e]) = take ADAPTIVE_STATS_MAX_ENTRIES (first_hashes (log @ [r]))"
        using all fresh by (simp add: first_hashes_snoc)
      then have "table_accounts (log @ [r]) (es @ [?e])"
        using new old first_profile_new[OF fresh] by (simp add: table_accounts_def)
      then show ?thesis
        by (simp add: record_report_def record_new[OF False True] report_profile_def)
    next
      case full: False
      have "length (first_hashes log) \<ge> ADAPTIVE_STATS_MAX_ENTRIES"
        using arg_cong[OF hs, of length] full by simp
      then have "map profile_hash es = take ADAPTIVE_STATS_MAX_ENTRIES (first_hashes (log @ [r]))"
        using hs by (simp add: first_hashes_snoc)
      moreover have "\<forall>e\<in>set es. entry_accounts (log @ [r]) e \<and> first_profile (log @ [r]) (profile_hash e) = Some (e_profile e)"
        using others False by (metis image_eqI)
      ultimately have "table_accounts (log @ [r]) es" by (simp add: table_accounts_def)
      then show ?thesis using full by (simp add: record_report_def record_full[OF False])
    qed
  qed
qed

lemma table_accounts_run: "\<exists>es. fold record_report log (Some []) = Some es \<and> table_accounts log es"
proof (induction log rule: rev_induct)
  case Nil
  show ?case by (simp add: table_accounts_def first_hashes_def)
next
  case (snoc r log)
  then show ?case using table_accounts_step by fastforce
qed

text \<open>C26 (refinement): starting from the empty table, after any sequence of recorded timings the table
  holds exactly the first 256 distinct profile hashes in the order of their first occurrence, each with
  the profile it was first seen with, and for every backend the number of calls, the compilation time
  and the execution time are the sums, at 32 and 64 bits, of what was recorded for that hash and backend.\<close>

theorem stats_table_keeps_accounts:
  "\<exists>es. fold record_report log (Some []) = Some es \<and>
     map profile_hash es = take 256 (first_hashes log) \<and>
     (\<forall>e b. e \<in> set es \<longrightarrow> first_profile log (profile_hash e) = Some (e_profile e) \<and>
       call_count e b = sum_list (map (\<lambda>r. of_nat (r_calls r)) (reports_of log (profile_hash e) b)) \<and>
       compile_ns e b = sum_list (map (\<lambda>r. positive (r_compile r)) (reports_of log (profile_hash e) b)) \<and>
       exec_ns e b = sum_list (map (\<lambda>r. positive (r_exec r)) (reports_of log (profile_hash e) b)))"
  using table_accounts_run[of log]
  by (auto simp: table_accounts_def entry_accounts_def ADAPTIVE_STATS_MAX_ENTRIES_def)

definition sample_log :: "timing_report list" where
  "sample_log = [\<lparr>r_hash = 7, r_idx = 0, r_compile = 10, r_exec = 5, r_calls = 4, r_profile = None\<rparr>,
     \<lparr>r_hash = 7, r_idx = 1, r_compile = 3, r_exec = - 5, r_calls = 4, r_profile = None\<rparr>]"

theorem stats_table_keeps_accounts_witness:
  "\<exists>es. fold record_report sample_log (Some []) = Some es \<and> map profile_hash es = [7] \<and>
     (\<forall>e\<in>set es. compile_ns e 0 = 10 \<and> exec_ns e 1 = 0)"
proof -
  obtain es where "fold record_report sample_log (Some []) = Some es" "map profile_hash es = take 256 (first_hashes sample_log)"
    "\<forall>e b. e \<in> set es \<longrightarrow> compile_ns e b = sum_list (map (\<lambda>r. positive (r_compile r)) (reports_of sample_log (profile_hash e) b)) \<and>
       exec_ns e b = sum_list (map (\<lambda>r. positive (r_exec r)) (reports_of sample_log (profile_hash e) b))"
    using stats_table_keeps_accounts[of sample_log] by blast
  moreover have "first_hashes sample_log = [7]" by (simp add: sample_log_def first_hashes_def)
  moreover have "positive 10 = 10" "positive (- 5) = 0" by (simp_all add: positive_def)
  ultimately show ?thesis
    by (intro exI[of _ es]) (auto simp: sample_log_def reports_of_def map_eq_Cons_conv)
qed

section \<open>The choice of a backend\<close>

lemma three_backends: "[0..<ADAPTIVE_NUM_BACKENDS] = [0, 1, 2]"
  by (simp add: ADAPTIVE_NUM_BACKENDS_def upt_rec)

lemma less_three: "b < ADAPTIVE_NUM_BACKENDS \<longleftrightarrow> b = 0 \<or> b = 1 \<or> b = 2"
  by (auto simp: ADAPTIVE_NUM_BACKENDS_def)

lemma idx_to_backend [simp]: "b < ADAPTIVE_NUM_BACKENDS \<Longrightarrow> adaptive_idx_to_backend b = b"
  by (auto simp: less_three adaptive_idx_to_backend_def backend_consts)

definition n_measured_of :: "(nat \<Rightarrow> int option) \<Rightarrow> nat" where
  "n_measured_of costs = length (filter (\<lambda>b. costs b \<noteq> None) [0..<ADAPTIVE_NUM_BACKENDS])"

definition cheapest :: "(nat \<Rightarrow> int option) \<Rightarrow> nat \<Rightarrow> bool" where
  "cheapest costs b = (b < ADAPTIVE_NUM_BACKENDS \<and> (case costs b of None \<Rightarrow> False
     | Some c \<Rightarrow> (\<forall>b' d. b' < ADAPTIVE_NUM_BACKENDS \<and> costs b' = Some d \<longrightarrow> c < d \<or> c = d \<and> b \<le> b')))"

lemma best_measured_cheapest:
  assumes "costs 0 = Some c0"
  shows "cheapest costs (best_measured costs)"
  using assms by (cases "costs 1"; cases "costs 2")
    (auto simp: cheapest_def best_measured_def three_backends less_three)

lemma stats_winner_best:
  assumes "costs 0 = Some c0"
  shows "fst (stats_winner costs) = Some (best_measured costs)"
    and "snd (snd (snd (stats_winner costs))) = n_measured_of costs"
  using assms by (cases "costs 1"; cases "costs 2";
    simp add: stats_winner_def winner_step_def best_measured_def n_measured_of_def three_backends)+

lemma stats_selected_best:
  assumes "costs 0 = Some c0" "n_measured_of costs \<ge> 2"
  shows "stats_selected costs = idx_names ! best_measured costs"
  using assms(2) stats_winner_best[where costs = costs, OF assms(1)]
  by (cases "stats_winner costs") (auto simp: stats_selected_def)

lemma filter_pick:
  assumes "filter P xs \<noteq> []"
  shows "P (filter P xs ! (n mod length (filter P xs)))" "filter P xs ! (n mod length (filter P xs)) \<in> set xs"
proof -
  have "n mod length (filter P xs) < length (filter P xs)" using assms by simp
  from nth_mem[OF this] show "P (filter P xs ! (n mod length (filter P xs)))"
    "filter P xs ! (n mod length (filter P xs)) \<in> set xs" by simp_all
qed

lemma bootstrap_explore_SomeD:
  assumes "bootstrap_explore ch bs e = Some b"
  shows "b < ADAPTIVE_NUM_BACKENDS \<and> call_count e b = 0 \<and> available (bs b) \<and> call_count e 0 > 0 \<and> unat (rand ch) mod 64 = 0"
proof -
  let ?P = "\<lambda>b. call_count e b = 0 \<and> available (bs (adaptive_idx_to_backend b))"
  let ?u = "filter ?P [0..<ADAPTIVE_NUM_BACKENDS]"
  let ?b = "?u ! (unat (rand ch) div 64 mod length ?u)"
  have h: "call_count e 0 > 0" "?u \<noteq> []" "unat (rand ch) mod 64 = 0" "b = adaptive_idx_to_backend ?b"
    using assms by (auto simp: bootstrap_explore_def Let_def split: if_split_asm)
  have "?P ?b" "?b < ADAPTIVE_NUM_BACKENDS" using filter_pick[OF h(2)] by auto
  then show ?thesis using h by simp
qed

definition explores :: "chooser \<Rightarrow> bool" where
  "explores ch \<longleftrightarrow> epsilon_positive ch \<and> below_epsilon ch (unat (rand ch) mod 10000)"

lemma adaptive_select_measured:
  assumes "adaptive_stats_lookup (Some es) h = Some slot"
    and "costs = measured_cost ch (es ! slot)" "costs 0 \<noteq> None" "n_measured_of costs \<ge> 2"
  shows "\<exists>b < ADAPTIVE_NUM_BACKENDS. adaptive_select ch bs (Some es) h = Some b \<and> costs b \<noteq> None \<and>
    (if explores ch then b \<noteq> best_measured costs else b = best_measured costs)"
proof -
  let ?P = "\<lambda>b. b \<noteq> best_measured costs \<and> costs b \<noteq> None"
  let ?c = "filter ?P [0..<ADAPTIVE_NUM_BACKENDS]"
  let ?b = "?c ! (unat (rand ch) div 10000 mod length ?c)"
  obtain c0 where c0: "costs 0 = Some c0" using assms(3) by auto
  have cheap: "cheapest costs (best_measured costs)" by (rule best_measured_cheapest[where costs = costs, OF c0])
  then have best: "best_measured costs < ADAPTIVE_NUM_BACKENDS" "costs (best_measured costs) \<noteq> None"
    by (auto simp: cheapest_def split: option.splits)
  have ne: "?c \<noteq> []"
    using assms(4) by (cases "costs 0"; cases "costs 1"; cases "costs 2") (auto simp: n_measured_of_def three_backends)
  have b: "?P ?b" "?b < ADAPTIVE_NUM_BACKENDS" using filter_pick[OF ne] by auto
  have "adaptive_select ch bs (Some es) h =
      Some (adaptive_idx_to_backend (if explores ch then ?b else best_measured costs))"
    using assms(1,4) ne c0 unfolding adaptive_select_def
    by (simp add: Let_def assms(2)[symmetric] explores_def n_measured_of_def)
  then show ?thesis using b best by (auto split: if_splits)
qed

text \<open>C27 (functional): for a profile with an entry, when sljit and at least one other backend have enough
  samples, the choice is a measured backend: without exploration the one of least total cost (the
  lowest index among equals), which is also the one that the SQL view of the statistics reports, with
  exploration another measured one. Otherwise there is either no choice, or a loaded backend that has
  never been timed for the profile.\<close>

theorem adaptive_select_correct:
  assumes "adaptive_stats_lookup (Some es) h = Some slot"
    and "costs = measured_cost ch (es ! slot)"
  shows "case adaptive_select ch bs (Some es) h of
      None \<Rightarrow> costs 0 = None \<or> n_measured_of costs < 2
    | Some b \<Rightarrow> b < ADAPTIVE_NUM_BACKENDS \<and>
        (if costs 0 = None \<or> n_measured_of costs < 2
         then call_count (es ! slot) b = 0 \<and> available (bs b) \<and> call_count (es ! slot) 0 > 0 \<and> unat (rand ch) mod 64 = 0
         else costs b \<noteq> None \<and>
           (if explores ch then \<not> cheapest costs b
            else cheapest costs b \<and> stats_selected costs = idx_names ! b))"
proof (cases "costs 0 = None \<or> n_measured_of costs < 2")
  case True
  then have "adaptive_select ch bs (Some es) h = bootstrap_explore ch bs (es ! slot)"
    using assms by (simp add: adaptive_select_def n_measured_of_def)
  with True show ?thesis using bootstrap_explore_SomeD by (auto split: option.split)
next
  case False
  then obtain c0 where c0: "costs 0 = Some c0" and two: "n_measured_of costs \<ge> 2" by auto
  obtain b where b: "b < ADAPTIVE_NUM_BACKENDS" "adaptive_select ch bs (Some es) h = Some b" "costs b \<noteq> None"
    "if explores ch then b \<noteq> best_measured costs else b = best_measured costs"
    using adaptive_select_measured[OF assms] c0 two by auto
  have best: "cheapest costs (best_measured costs)" by (rule best_measured_cheapest[where costs = costs, OF c0])
  have uniq: "b = best_measured costs" if "cheapest costs b"
    using that best by (auto simp: cheapest_def split: option.splits) (metis less_asym le_antisym)
  have "if explores ch then \<not> cheapest costs b
      else cheapest costs b \<and> stats_selected costs = idx_names ! b"
  proof (cases "explores ch")
    case True
    then show ?thesis using b(4) uniq by auto
  next
    case f: False
    then have "b = best_measured costs" using b(4) by simp
    then show ?thesis using f best stats_selected_best[where costs = costs, OF c0 two] by simp
  qed
  then show ?thesis using c0 two b(1-3) by simp
qed

definition sample_chooser :: chooser where
  "sample_chooser = \<lparr>cost = (\<lambda>c x. uint c + uint x), rand = 0, adaptive_samples = 4, epsilon_positive = False,
     below_epsilon = (\<lambda>n. n < 500)\<rparr>"

definition sample_entry :: AdaptiveStatsEntry where
  "sample_entry = (new_entry 7 empty_profile)\<lparr>call_count := (\<lambda>b. if b = 2 then 0 else 4),
     exec_ns := (\<lambda>b. if b = 0 then 90 else 40)\<rparr>"

definition sample_table :: backend_table where
  "sample_table = (\<lambda>_. \<lparr>attempted = True, available = True, deform_reset = True\<rparr>)"

theorem adaptive_select_correct_witness:
  "adaptive_stats_lookup (Some [sample_entry]) 7 = Some 0 \<and>
   (case adaptive_select sample_chooser sample_table (Some [sample_entry]) 7 of
      None \<Rightarrow> False | Some b \<Rightarrow> cheapest (measured_cost sample_chooser sample_entry) b)"
proof -
  have look: "adaptive_stats_lookup (Some [sample_entry]) 7 = Some 0"
    by (simp add: adaptive_stats_lookup_def sample_entry_def)
  define costs where "costs = measured_cost sample_chooser sample_entry"
  have c: "costs 0 = Some 90" "n_measured_of costs = 2"
    by (simp_all add: costs_def measured_cost_def sample_chooser_def sample_entry_def n_measured_of_def three_backends)
  have "costs = measured_cost sample_chooser ([sample_entry] ! 0)" by (simp add: costs_def)
  from adaptive_select_correct[OF look this, of sample_table]
  have "case adaptive_select sample_chooser sample_table (Some [sample_entry]) 7 of None \<Rightarrow> False | Some b \<Rightarrow> cheapest costs b"
    using c by (auto simp: explores_def sample_chooser_def split: option.splits)
  with look show ?thesis unfolding costs_def by (rule conjI)
qed

end
