(* ===== verification/MetaDispatch.thy ===== *)
theory MetaDispatch
  imports MetaStats
begin

text \<open>
  The dispatch of the meta provider: a compilation reaches a usable backend, the timing wrapper is
  invisible to the executor and removes itself, and no timing context is used after it was freed.
\<close>

section \<open>Loading and dispatch\<close>

definition usable :: "loader \<Rightarrow> backend_table \<Rightarrow> nat \<Rightarrow> bool" where
  "usable ld bs idx = (if attempted (bs idx) then available (bs idx) else file_exists ld idx \<and> init_ok ld idx)"

lemma load_backend_usable [simp]: "snd (meta_load_backend ld idx bs) = usable ld bs idx"
  by (simp add: meta_load_backend_def usable_def Let_def)

lemma usable_load_backend [simp]: "usable ld (fst (meta_load_backend ld idx bs)) = usable ld bs"
  by (rule ext) (simp add: meta_load_backend_def usable_def Let_def)

lemma load_backend_tables: "meta_load_backend ld idx bs = (bs', ok) \<Longrightarrow> usable ld bs' = usable ld bs \<and> ok = usable ld bs idx"
  using usable_load_backend[of ld idx bs] load_backend_usable[of ld idx bs] by simp

lemma mark_used_sel [simp]:
  "evalfunc (mark_used state idx s) = evalfunc s" "tctxs (mark_used state idx s) = tctxs s"
  "backends (mark_used state idx s) = backends s" "adaptive_stats (mark_used state idx s) = adaptive_stats s"
  "next_tctx (mark_used state idx s) = next_tctx s"
  by (simp_all add: mark_used_def split: option.splits)

lemma install_sel [simp]:
  "backends (meta_install_timing_wrapper n e state b h ns p s) = backends s"
  "adaptive_stats (meta_install_timing_wrapper n e state b h ns p s) = adaptive_stats s"
  by (simp_all add: meta_install_timing_wrapper_def Let_def split: option.splits evalfunc.splits)

text \<open>The code that \<open>evalfunc\<close> ends up running.\<close>

definition underlying :: "'k meta_state \<Rightarrow> nat \<Rightarrow> 'k option" where
  "underlying s e = (case evalfunc s e of NoFunc \<Rightarrow> None | Raw k \<Rightarrow> Some k
     | Timing a \<Rightarrow> map_option original_evalfunc (tctxs s a))"

lemma underlying_mark_used [simp]: "underlying (mark_used state idx s) e = underlying s e"
  by (simp add: underlying_def split: evalfunc.split)

lemma underlying_install:
  assumes "evalfunc s e = NoFunc \<or> (\<exists>k. evalfunc s e = Raw k)"
  shows "underlying (meta_install_timing_wrapper n e state b h ns p s) e = underlying s e"
  using assms by (auto simp: underlying_def meta_install_timing_wrapper_def Let_def split: option.splits)

definition has_ctx :: "ExprState \<Rightarrow> 'k meta_state \<Rightarrow> bool" where
  "has_ctx state s = (case parent state of None \<Rightarrow> True | Some p \<Rightarrow> es_jit s p \<noteq> None)"

definition used_bit :: "ExprState \<Rightarrow> nat \<Rightarrow> 'k meta_state \<Rightarrow> bool" where
  "used_bit state idx s = (case parent state of None \<Rightarrow> True
     | Some p \<Rightarrow> (case es_jit s p of None \<Rightarrow> False | Some ctx \<Rightarrow> bit (backends_used ctx) idx))"

lemma has_ctx_ensure: "has_ctx state (meta_ensure_context state s)"
  by (simp add: has_ctx_def meta_ensure_context_def split: option.split)

lemma ensure_sel [simp]:
  "evalfunc (meta_ensure_context state s) = evalfunc s" "tctxs (meta_ensure_context state s) = tctxs s"
  "backends (meta_ensure_context state s) = backends s" "adaptive_stats (meta_ensure_context state s) = adaptive_stats s"
  "shmem_attempted (meta_ensure_context state s) = shmem_attempted s" "next_tctx (meta_ensure_context state s) = next_tctx s"
  by (simp_all add: meta_ensure_context_def split: option.splits)

lemma used_bit_mark_used: "idx < 32 \<Longrightarrow> has_ctx state s \<Longrightarrow> used_bit state idx (mark_used state idx s)"
  by (auto simp: used_bit_def mark_used_def has_ctx_def bit_simps split: option.splits)

lemma has_ctx_update [simp]:
  "has_ctx state (s\<lparr>evalfunc := f\<rparr>) = has_ctx state s" "has_ctx state (s\<lparr>backends := bs\<rparr>) = has_ctx state s"
  "has_ctx state (s\<lparr>adaptive_stats := st\<rparr>) = has_ctx state s" "has_ctx state (s\<lparr>shmem_attempted := t\<rparr>) = has_ctx state s"
  by (simp_all add: has_ctx_def split: option.split)

lemma has_ctx_install [simp]: "has_ctx state (meta_install_timing_wrapper n e state b h ns p s) = has_ctx state s"
  by (auto simp: has_ctx_def meta_install_timing_wrapper_def Let_def split: option.splits evalfunc.splits)

text \<open>What a compilation by backend \<open>idx\<close> leaves behind.\<close>

definition compiled_by :: "'k provider \<Rightarrow> nat \<Rightarrow> ExprState \<Rightarrow> nat \<Rightarrow> 'k meta_state \<times> bool \<Rightarrow> bool" where
  "compiled_by pv e state idx r =
     (case compile_cb pv idx state of (ok, code, ns) \<Rightarrow>
        snd r = ok \<and> underlying (fst r) e = code \<and> (ok \<longrightarrow> used_bit state idx (fst r)))"

lemma underlying_run_backend:
  "compile_cb pv idx state = (ok, code, ns) \<Longrightarrow>
    run_backend pv e state idx s = (s', ok', ns') \<Longrightarrow> ok' = ok \<and> ns' = ns \<and> underlying s' e = code \<and>
      (evalfunc s' e = NoFunc \<or> (\<exists>k. evalfunc s' e = Raw k)) \<and> has_ctx state s' = has_ctx state s"
  by (auto simp: run_backend_def underlying_def split: option.splits)

lemma try_backends_outcome:
  assumes "has_ctx state s" "\<forall>idx\<in>set idxs. idx < 32"
  shows "case find (usable (loader_of pv) (backends s)) idxs of
      None \<Rightarrow> \<not> snd (try_backends pv e state idxs s) \<and> evalfunc (fst (try_backends pv e state idxs s)) = evalfunc s
    | Some idx \<Rightarrow> compiled_by pv e state idx (try_backends pv e state idxs s)"
  using assms
proof (induction idxs arbitrary: s)
  case Nil
  then show ?case by simp
next
  case (Cons idx idxs)
  obtain bs loaded where load: "meta_load_backend (loader_of pv) idx (backends s) = (bs, loaded)" by fastforce
  note u = load_backend_tables[OF load]
  obtain ok code ns where comp: "compile_cb pv idx state = (ok, code, ns)" by (metis prod_cases3)
  obtain s' ok' ns' where run: "run_backend pv e state idx (s\<lparr>backends := bs\<rparr>) = (s', ok', ns')" by (metis prod_cases3)
  show ?case
  proof (cases loaded)
    case True
    have "used_bit state idx (mark_used state idx s')"
      using underlying_run_backend[OF comp run] Cons.prems by (intro used_bit_mark_used) auto
    then show ?thesis
      using True u underlying_run_backend[OF comp run] by (auto simp: load run comp compiled_by_def)
  next
    case False
    have "idx < 32" "\<forall>i\<in>set idxs. i < 32" using Cons.prems by auto
    then show ?thesis
      using False u Cons.IH[of "s\<lparr>backends := bs\<rparr>"] Cons.prems(1) by (auto simp: load split: option.splits)
  qed
qed

text \<open>The backend that a compilation tries first.\<close>

definition first_choice :: "'k provider \<Rightarrow> gucs \<Rightarrow> ExprState \<Rightarrow> 'k meta_state \<Rightarrow> nat" where
  "first_choice pv g state s =
     (if pg_jitter_backend g = PG_JITTER_BACKEND_AUTO
      then fst (meta_auto_select_backend (target pv) (meta_adaptive g) (selection g) (backends s)
        (if meta_adaptive g then fst (adaptive_stats_init (adaptive_stats s) (shmem_attempted s)) else adaptive_stats s) (steps state))
      else pg_jitter_backend g)"

lemma adaptive_select_lt:
  assumes "adaptive_select ch bs stats h = Some b"
  shows "b < PG_JITTER_NUM_BACKENDS"
proof -
  have "adaptive_idx_to_backend i < PG_JITTER_NUM_BACKENDS" for i
    by (simp add: adaptive_idx_to_backend_def backend_consts)
  then show ?thesis
    using assms by (auto simp: adaptive_select_def bootstrap_explore_def Let_def split: option.splits if_splits)
qed

lemma heuristic_backend_lt: "heuristic_backend arm bs p < PG_JITTER_NUM_BACKENDS"
  by (simp add: heuristic_backend_def meta_default_backend_def backend_consts Let_def)

lemma auto_select_lt: "fst (meta_auto_select_backend bt ad ch bs stats st) < PG_JITTER_NUM_BACKENDS"
  using adaptive_select_lt[of ch bs stats "meta_profile_hash (comp_crc32c bt) (meta_build_profile (have_hashdatum bt) st)"]
    heuristic_backend_lt
  by (auto simp: meta_auto_select_backend_def Let_def split: option.split)

definition valid_guc :: "gucs \<Rightarrow> bool" where
  "valid_guc g \<longleftrightarrow> pg_jitter_backend g \<in> snd ` set backend_options"

lemma first_choice_lt: "valid_guc g \<Longrightarrow> first_choice pv g state s < PG_JITTER_NUM_BACKENDS"
  using auto_select_lt by (auto simp: first_choice_def valid_guc_def backend_options_def backend_consts)

lemma meta_state_sel:
  "backends (s\<lparr>adaptive_stats := st, shmem_attempted := t\<rparr>) = backends s"
  "adaptive_stats (s\<lparr>adaptive_stats := st, shmem_attempted := t\<rparr>) = st"
  by simp_all

text \<open>The two ways through \<open>meta_compile_expr\<close>: the first choice loads, or the backends are tried in order.\<close>

definition start_stats :: "gucs \<Rightarrow> 'k meta_state \<Rightarrow> stats_table \<times> bool" where
  "start_stats g s = (if pg_jitter_backend g = PG_JITTER_BACKEND_AUTO \<and> meta_adaptive g
     then adaptive_stats_init (adaptive_stats s) (shmem_attempted s) else (adaptive_stats s, shmem_attempted s))"

definition dispatch_state :: "gucs \<Rightarrow> ExprState \<Rightarrow> 'k meta_state \<Rightarrow> backend_table \<Rightarrow> 'k meta_state" where
  "dispatch_state g state s bs = (meta_ensure_context state s)\<lparr>adaptive_stats := fst (start_stats g s),
     shmem_attempted := snd (start_stats g s), backends := bs\<rparr>"

lemma dispatch_state_sel [simp]:
  "evalfunc (dispatch_state g state s bs) = evalfunc s" "backends (dispatch_state g state s bs) = bs"
  "tctxs (dispatch_state g state s bs) = tctxs s" "next_tctx (dispatch_state g state s bs) = next_tctx s"
  "adaptive_stats (dispatch_state g state s bs) = fst (start_stats g s)" "has_ctx state (dispatch_state g state s bs)"
  by (simp_all add: dispatch_state_def has_ctx_ensure)

lemma meta_compile_cases:
  obtains bs where "meta_load_backend (loader_of pv) (first_choice pv g state s) (backends s) = (bs, False)"
      "meta_compile_expr pv g e state s = try_backends pv e state [0..<PG_JITTER_NUM_BACKENDS] (dispatch_state g state s bs)"
  | bs s3 ok ns s4 where "meta_load_backend (loader_of pv) (first_choice pv g state s) (backends s) = (bs, True)"
      "run_backend pv e state (first_choice pv g state s) (dispatch_state g state s bs) = (s3, ok, ns)"
      "s4 = s3 \<or> ok \<and> (\<exists>h profile. s4 = meta_install_timing_wrapper (adaptive_samples (selection g)) e state
        (first_choice pv g state s) h ns profile s3)"
      "meta_compile_expr pv g e state s = (if ok then mark_used state (first_choice pv g state s) s4 else s4, ok)"
proof -
  let ?auto = "pg_jitter_backend g = PG_JITTER_BACKEND_AUTO"
  obtain stats tried where st: "start_stats g s = (stats, tried)" by fastforce
  note init = st[unfolded start_stats_def]
  obtain idx h profile where sel: "(if ?auto
      then meta_auto_select_backend (target pv) (meta_adaptive g) (selection g) (backends s) stats (steps state)
      else (pg_jitter_backend g, 0, empty_profile)) = (idx, h, profile)" by (metis prod_cases3)
  have fc: "first_choice pv g state s = idx"
    using sel init by (auto simp: first_choice_def split: if_splits)
  obtain bs loaded where load: "meta_load_backend (loader_of pv) idx (backends s) = (bs, loaded)" by fastforce
  have ds: "dispatch_state g state s bs = (meta_ensure_context state s)\<lparr>adaptive_stats := stats, shmem_attempted := tried, backends := bs\<rparr>"
    by (simp add: dispatch_state_def st)
  note unfold_defs = meta_compile_expr_def Let_def ensure_sel init sel load prod.case meta_state.simps meta_state_sel if_False if_True
  show ?thesis
  proof (cases loaded)
    case False
    have "meta_compile_expr pv g e state s = try_backends pv e state [0..<PG_JITTER_NUM_BACKENDS] (dispatch_state g state s bs)"
      using False by (simp only: unfold_defs ds)
    then show ?thesis using that(1)[of bs] load False unfolding fc by simp
  next
    case True
    obtain s3 ok ns where run: "run_backend pv e state idx (dispatch_state g state s bs) = (s3, ok, ns)" by (metis prod_cases3)
    define s4 where "s4 = (if ok \<and> ?auto \<and> meta_adaptive g \<and> adaptive_stats s3 \<noteq> None
      then meta_install_timing_wrapper (adaptive_samples (selection g)) e state idx h ns profile s3 else s3)"
    have "meta_compile_expr pv g e state s = (if ok then mark_used state idx s4 else s4, ok)"
      using True by (simp only: unfold_defs s4_def run[unfolded ds])
    moreover have "s4 = s3 \<or> ok \<and> (\<exists>h profile. s4 = meta_install_timing_wrapper (adaptive_samples (selection g)) e state idx h ns profile s3)"
      by (cases "ok \<and> ?auto \<and> meta_adaptive g \<and> adaptive_stats s3 \<noteq> None") (auto simp: s4_def)
    ultimately show ?thesis
      using that(2)[of bs s3 ok ns s4] load run True unfolding fc by simp
  qed
qed

lemma meta_compile_outcome:
  assumes "valid_guc g"
  shows "case find (usable (loader_of pv) (backends s)) (first_choice pv g state s # [0..<PG_JITTER_NUM_BACKENDS]) of
      None \<Rightarrow> \<not> snd (meta_compile_expr pv g e state s) \<and> evalfunc (fst (meta_compile_expr pv g e state s)) = evalfunc s
    | Some idx \<Rightarrow> compiled_by pv e state idx (meta_compile_expr pv g e state s)"
proof (cases rule: meta_compile_cases[of pv g state s e])
  case (1 bs)
  have few: "\<forall>i\<in>set [0..<PG_JITTER_NUM_BACKENDS]. i < 32" by (simp add: backend_consts)
  have "usable (loader_of pv) bs = usable (loader_of pv) (backends s)"
    "\<not> usable (loader_of pv) (backends s) (first_choice pv g state s)" using load_backend_tables[OF 1(1)] by simp_all
  with try_backends_outcome[OF dispatch_state_sel(6)[of state g s bs] few, of pv e] show ?thesis
    by (simp only: 1(2) find.simps if_False dispatch_state_sel)
next
  case (2 bs s3 ok ns s4)
  let ?idx = "first_choice pv g state s"
  obtain ok' code ns' where comp: "compile_cb pv ?idx state = (ok', code, ns')" by (metis prod_cases3)
  note r = underlying_run_backend[OF comp 2(2)]
  have und: "underlying s4 e = code" using r 2(3) underlying_install[of s3 e] by auto
  have "has_ctx state s4" using r 2(3) by auto
  then have ub: "used_bit state ?idx (mark_used state ?idx s4)"
    using first_choice_lt[OF assms, where pv = pv and state = state and s = s] by (intro used_bit_mark_used) (auto simp: backend_consts)
  show ?thesis using load_backend_tables[OF 2(1)] r und ub by (simp add: 2(4) comp compiled_by_def)
qed

text \<open>C17 (liveness): with a value of the GUC that PostgreSQL accepts, the backend that is tried first
  is one of the three. When it can be loaded it compiles the expression; otherwise, when any backend can
  be loaded, the lowest one does. The answer is that backend's, its code is what \<open>evalfunc\<close> runs, and
  the context records it. When none can be loaded the answer is false and \<open>evalfunc\<close> is left
  alone, so the interpreter runs.\<close>

theorem meta_compile_reaches_backend:
  assumes "valid_guc g"
  shows "first_choice pv g state s < PG_JITTER_NUM_BACKENDS \<and>
    (if \<exists>idx < PG_JITTER_NUM_BACKENDS. usable (loader_of pv) (backends s) idx
     then \<exists>idx < PG_JITTER_NUM_BACKENDS. usable (loader_of pv) (backends s) idx \<and>
       (if usable (loader_of pv) (backends s) (first_choice pv g state s) then idx = first_choice pv g state s
        else \<forall>j < idx. \<not> usable (loader_of pv) (backends s) j) \<and>
       snd (meta_compile_expr pv g e state s) = fst (compile_cb pv idx state) \<and>
       underlying (fst (meta_compile_expr pv g e state s)) e = fst (snd (compile_cb pv idx state)) \<and>
       (fst (compile_cb pv idx state) \<longrightarrow> used_bit state idx (fst (meta_compile_expr pv g e state s)))
     else \<not> snd (meta_compile_expr pv g e state s) \<and> evalfunc (fst (meta_compile_expr pv g e state s)) = evalfunc s)"
proof -
  let ?u = "usable (loader_of pv) (backends s)" and ?f = "first_choice pv g state s"
  note out = meta_compile_outcome[OF assms, where pv = pv and s = s and state = state and e = e]
  have lt: "?f < PG_JITTER_NUM_BACKENDS" by (rule first_choice_lt[OF assms])
  show ?thesis
  proof (cases "find ?u (?f # [0..<PG_JITTER_NUM_BACKENDS])")
    case None
    then have none: "\<not> (\<exists>idx < PG_JITTER_NUM_BACKENDS. ?u idx)" by (auto simp: find_None_iff split: if_splits)
    show ?thesis unfolding if_not_P[OF none] using out lt None by simp
  next
    case (Some idx)
    have idx: "idx < PG_JITTER_NUM_BACKENDS" "?u idx" "if ?u ?f then idx = ?f else \<forall>j<idx. \<not> ?u j"
      using Some lt by (auto simp: find_Some_iff split: if_splits)
    then show ?thesis using out lt Some by (auto simp: compiled_by_def split: prod.splits)
  qed
qed

text \<open>A provider of which only asmjit is installed.\<close>

definition asmjit_only :: "nat provider" where
  "asmjit_only = \<lparr>loader_of = \<lparr>file_exists = (\<lambda>idx. idx = 1), init_ok = (\<lambda>_. True), has_reset = (\<lambda>_. True)\<rparr>,
     compile_cb = (\<lambda>idx _. (True, Some (10 * idx), 5)),
     target = \<lparr>is_aarch64 = False, have_hashdatum = True, comp_crc32c = (\<lambda>crc bytes. crc XOR of_nat (length bytes))\<rparr>\<rparr>"

definition sljit_gucs :: gucs where
  "sljit_gucs = \<lparr>pg_jitter_backend = PG_JITTER_BACKEND_SLJIT, meta_adaptive = True, selection = sample_chooser\<rparr>"

definition fresh_state :: "nat meta_state" where
  "fresh_state = \<lparr>backends = (\<lambda>_. \<lparr>attempted = False, available = False, deform_reset = False\<rparr>), adaptive_stats = None,
     shmem_attempted = False, evalfunc = (\<lambda>_. NoFunc), es_jit = (\<lambda>_. None), tctxs = (\<lambda>_. None), next_tctx = 0\<rparr>"

theorem meta_compile_reaches_backend_witness:
  "valid_guc sljit_gucs \<and>
   snd (meta_compile_expr asmjit_only sljit_gucs 0 \<lparr>steps = [], parent = Some 3\<rparr> fresh_state) \<and>
   underlying (fst (meta_compile_expr asmjit_only sljit_gucs 0 \<lparr>steps = [], parent = Some 3\<rparr> fresh_state)) 0 = Some 10"
proof -
  have v: "valid_guc sljit_gucs" by (simp add: valid_guc_def sljit_gucs_def backend_options_def)
  have u: "usable (loader_of asmjit_only) (backends fresh_state) idx \<longleftrightarrow> idx = 1" for idx
    by (simp add: usable_def asmjit_only_def fresh_state_def)
  have "\<exists>idx < PG_JITTER_NUM_BACKENDS. usable (loader_of asmjit_only) (backends fresh_state) idx"
    by (rule exI[of _ 1]) (simp add: u backend_consts)
  with meta_compile_reaches_backend[OF v, of asmjit_only "\<lparr>steps = [], parent = Some 3\<rparr>" fresh_state 0] v u
  show ?thesis by (auto simp: asmjit_only_def)
qed

end
