(* ===== verification/MetaTiming.thy ===== *)
theory MetaTiming
  imports MetaDispatch
begin

text \<open>
  The timing wrapper and the life of the timing contexts: calling a wrapped expression gives what the
  code of the backend gives, the wrapper goes away after the configured number of calls and reports
  them once, and in every reachable state no freed timing context is touched.
\<close>

section \<open>The wrapper is invisible\<close>

text \<open>Running the code itself: the results, the elapsed times and the code that is left.\<close>

fun raw_run :: "('k, 'x, 'err, 'r) code \<Rightarrow> 'k \<Rightarrow> 'x list \<Rightarrow> ('err + 'r) list \<times> int64 list \<times> 'k" where
  "raw_run eval k [] = ([], [], k)"
| "raw_run eval k (x # xs) =
     (case eval k x of (res, k', ns) \<Rightarrow>
        case raw_run eval k' xs of (rs, ts, k'') \<Rightarrow> (res # rs, ns # ts, k''))"

fun call_exprs ::
  "nat \<Rightarrow> ('k, 'x, 'err, 'r) code \<Rightarrow> nat \<Rightarrow> 'x list \<Rightarrow> 'k meta_state \<Rightarrow> ('err + 'r) option list \<times> 'k meta_state" where
  "call_exprs samples eval e [] s = ([], s)"
| "call_exprs samples eval e (x # xs) s =
     (case call_expr samples eval e x s of (res, s') \<Rightarrow>
        case call_exprs samples eval e xs s' of (rs, s'') \<Rightarrow> (res # rs, s''))"

lemma call_expr_underlying:
  assumes "underlying s e = Some k" "eval k x = (res, k', ns)"
  shows "fst (call_expr samples eval e x s) = Some res \<and> underlying (snd (call_expr samples eval e x s)) e = Some k'"
  using assms
  by (cases res) (auto simp: underlying_def call_expr_def meta_adaptive_timing_wrapper_def Let_def
      split: evalfunc.splits if_splits)

lemma call_exprs_underlying:
  assumes "underlying s e = Some k"
  shows "fst (call_exprs samples eval e xs s) = map Some (fst (raw_run eval k xs)) \<and>
    underlying (snd (call_exprs samples eval e xs s)) e = Some (snd (snd (raw_run eval k xs)))"
  using assms
proof (induction xs arbitrary: s k)
  case (Cons x xs)
  obtain res k' ns where ev: "eval k x = (res, k', ns)" by (metis prod_cases3)
  obtain res' s' where c: "call_expr samples eval e x s = (res', s')" by fastforce
  have "res' = Some res" "underlying s' e = Some k'"
    using call_expr_underlying[where eval = eval, OF Cons.prems ev, of samples] c by auto
  then show ?case using Cons.IH[of s' k'] by (simp add: ev c case_prod_beta)
qed simp

section \<open>The wrapper removes itself\<close>

text \<open>\<open>due s e n\<close>: the wrapper is installed and has \<open>n\<close> calls to go; \<open>report t ts n\<close> is what it will record.\<close>

lemma call_raw:
  "evalfunc s e = Raw k \<Longrightarrow> adaptive_stats (snd (call_exprs samples eval e xs s)) = adaptive_stats s \<and>
    tctxs (snd (call_exprs samples eval e xs s)) = tctxs s \<and>
    evalfunc (snd (call_exprs samples eval e xs s)) e = Raw (snd (snd (raw_run eval k xs)))"
proof (induction xs arbitrary: s k)
  case (Cons x xs)
  obtain res k' ns where ev: "eval k x = (res, k', ns)" by (metis prod_cases3)
  show ?case
    using Cons.IH[of "s\<lparr>evalfunc := (evalfunc s)(e := Raw k')\<rparr>" k'] Cons.prems
    by (simp add: call_expr_def ev case_prod_beta)
qed simp

definition all_return :: "('err + 'r) list \<Rightarrow> bool" where "all_return rs = list_all (\<lambda>r. \<not> isl r) rs"

definition timing_report_of :: "'k AdaptiveTimingCtx \<Rightarrow> int64 list \<Rightarrow> nat \<Rightarrow> stats_table \<Rightarrow> stats_table" where
  "timing_report_of t elapsed n stats = adaptive_stats_record stats (t_profile_hash t) (Some (backend_idx t)) (t_compile_ns t)
     (t_exec_ns t + sum_list elapsed) n (Some (t_profile t))"

lemma wrapper_counts_down:
  assumes "evalfunc s e = Timing a" "tctxs s a = Some t" "t_call_count t + n = samples" "n > 0"
    and "length xs \<ge> n" "all_return (fst (raw_run eval (original_evalfunc t) xs))"
  shows "\<exists>k t'. evalfunc (snd (call_exprs samples eval e xs s)) e = Raw k \<and>
      tctxs (snd (call_exprs samples eval e xs s)) a = Some t' \<and> t_done t' \<and>
      adaptive_stats (snd (call_exprs samples eval e xs s)) =
        timing_report_of t (take n (fst (snd (raw_run eval (original_evalfunc t) xs)))) samples (adaptive_stats s)"
  using assms
proof (induction xs arbitrary: s t n)
  case Nil
  then show ?case by simp
next
  case (Cons x xs)
  obtain res k' ns where ev: "eval (original_evalfunc t) x = (res, k', ns)" by (metis prod_cases3)
  obtain rs ts k'' where run: "raw_run eval k' xs = (rs, ts, k'')" by (metis prod_cases3)
  obtain r where res: "res = Inr r" and ret: "all_return rs"
    using Cons.prems(6) by (cases res) (auto simp: ev run all_return_def)
  let ?t = "t\<lparr>t_call_count := t_call_count t + 1, t_exec_ns := t_exec_ns t + ns, original_evalfunc := k'\<rparr>"
  show ?case
  proof (cases "n = 1")
    case True
    define s' where "s' = s\<lparr>evalfunc := (evalfunc s)(e := Raw k'), adaptive_stats := timing_report_of t [ns] samples (adaptive_stats s),
      tctxs := (tctxs s)(a \<mapsto> ?t\<lparr>t_done := True\<rparr>)\<rparr>"
    have c: "call_expr samples eval e x s = (Some res, s')"
      using Cons.prems(1-3) True
      by (simp add: call_expr_def meta_adaptive_timing_wrapper_def ev res timing_report_of_def s'_def)
    have s': "evalfunc s' e = Raw k'" "tctxs s' a = Some (?t\<lparr>t_done := True\<rparr>)"
      "adaptive_stats s' = timing_report_of t [ns] samples (adaptive_stats s)" by (simp_all add: s'_def)
    show ?thesis
      using call_raw[OF s'(1), of samples eval xs] s' True by (simp add: c ev run case_prod_beta)
  next
    case False
    let ?s = "s\<lparr>evalfunc := (evalfunc s)(e := Timing a), tctxs := (tctxs s)(a \<mapsto> ?t)\<rparr>"
    have c: "call_expr samples eval e x s = (Some res, ?s)"
      using Cons.prems(1-4) False
      by (simp add: call_expr_def meta_adaptive_timing_wrapper_def ev res)
    obtain m where m: "n = Suc m" "m > 0" using False Cons.prems(4) by (cases n) auto
    have "timing_report_of ?t (take m ts) samples st = timing_report_of t (take n (ns # ts)) samples st" for st
      by (simp add: timing_report_of_def m add.assoc)
    then show ?thesis
      using Cons.IH[of ?s ?t m] Cons.prems(3,5) m ret by (simp add: c ev run case_prod_beta)
  qed
qed

text \<open>C16 (liveness): the wrapper is invisible and goes away. Right after it was installed around code
  \<open>k\<close>, any sequence of calls returns exactly the results (and errors) that \<open>k\<close> itself returns, and once
  \<open>samples\<close> of them have been made without an error the expression runs the bare code again, the timing
  context is marked as done and the table has received exactly one report, with the times of the first
  \<open>samples\<close> calls.\<close>

theorem timing_wrapper_transparent:
  assumes "evalfunc s e = Raw k" "parent state = Some p" "es_jit s p \<noteq> None"
    and "adaptive_backend_to_idx b = Some idx" "\<not> enough_samples samples (adaptive_stats s) h idx"
    and "samples > 0" "s1 = meta_install_timing_wrapper samples e state b h compile profile s"
    and "call_exprs samples eval e xs s1 = (results, s2)" "raw_run eval k xs = (rs, elapsed, k')"
  shows "results = map Some rs \<and> underlying s2 e = Some k' \<and>
    (length xs \<ge> samples \<and> all_return rs \<longrightarrow>
       evalfunc s2 e = Raw k' \<and> map_option t_done (tctxs s2 (next_tctx s)) = Some True \<and>
       adaptive_stats s2 = adaptive_stats_record (adaptive_stats s) h (Some idx) compile
         (sum_list (take samples elapsed)) samples (Some profile))"
proof -
  obtain ctx where ctx: "es_jit s p = Some ctx" using assms(3) by auto
  let ?t = "\<lparr>original_evalfunc = k, t_profile_hash = h, t_profile = profile, backend_idx = idx, t_call_count = 0,
    t_exec_ns = 0, t_compile_ns = compile, t_done = False\<rparr>"
  have s1: "evalfunc s1 e = Timing (next_tctx s)" "tctxs s1 (next_tctx s) = Some ?t" "adaptive_stats s1 = adaptive_stats s"
    using assms(1,2,4,5,7) ctx by (simp_all add: meta_install_timing_wrapper_def Let_def)
  then have u: "underlying s1 e = Some k" by (simp add: underlying_def)
  note tr = call_exprs_underlying[OF u, of samples eval xs]
  show ?thesis
  proof (intro conjI impI)
    show "results = map Some rs" "underlying s2 e = Some k'" using tr assms(8,9) by simp_all
    assume long: "samples \<le> length xs \<and> all_return rs"
    then obtain k2 t' where end_state: "evalfunc s2 e = Raw k2" "tctxs s2 (next_tctx s) = Some t'" "t_done t'"
      "adaptive_stats s2 = timing_report_of ?t (take samples elapsed) samples (adaptive_stats s)"
      using wrapper_counts_down[OF s1(1,2), of samples samples xs eval] assms(6,8,9) s1(3) by auto
    then show "evalfunc s2 e = Raw k'" using tr assms(8,9) by (simp add: underlying_def)
    show "map_option t_done (tctxs s2 (next_tctx s)) = Some True" using end_state by simp
    show "adaptive_stats s2 = adaptive_stats_record (adaptive_stats s) h (Some idx) compile
         (sum_list (take samples elapsed)) samples (Some profile)"
      using end_state by (simp add: timing_report_of_def)
  qed
qed

text \<open>Code that counts its calls: it answers the input plus the number of the call and leaves the next count.\<close>

definition counting_code :: "(nat, nat, string, nat) code" where
  "counting_code k x = (Inr (x + k), k + 1, 10)"

definition wrapped_state :: "nat meta_state" where
  "wrapped_state = fresh_state\<lparr>adaptive_stats := Some [], evalfunc := (\<lambda>_. Raw 0), es_jit := [3 \<mapsto> empty_context]\<rparr>"

theorem timing_wrapper_transparent_witness:
  "\<exists>s2. call_exprs 4 counting_code 0 [5, 5, 5, 5, 5]
      (meta_install_timing_wrapper 4 0 \<lparr>steps = [], parent = Some 3\<rparr> PG_JITTER_BACKEND_MIR 9 7 empty_profile wrapped_state)
     = (map Some [Inr 5, Inr 6, Inr 7, Inr 8, Inr 9], s2) \<and> evalfunc s2 0 = Raw 5 \<and>
     adaptive_stats s2 = adaptive_stats_record (Some []) 9 (Some 2) 7 40 4 (Some empty_profile)"
proof -
  let ?st = "\<lparr>steps = [], parent = Some 3\<rparr>"
  let ?s1 = "meta_install_timing_wrapper 4 0 ?st PG_JITTER_BACKEND_MIR 9 7 empty_profile wrapped_state"
  obtain results s2 where run: "call_exprs 4 counting_code 0 [5, 5, 5, 5, 5] ?s1 = (results, s2)" by fastforce
  have raw: "raw_run counting_code 0 [5, 5, 5, 5, 5] = ([Inr 5, Inr 6, Inr 7, Inr 8, Inr 9], [10, 10, 10, 10, 10], 5)"
    by (simp add: counting_code_def)
  have h: "evalfunc wrapped_state 0 = Raw 0" "parent ?st = Some 3" "es_jit wrapped_state 3 \<noteq> None"
    "adaptive_backend_to_idx PG_JITTER_BACKEND_MIR = Some 2" "\<not> enough_samples 4 (adaptive_stats wrapped_state) 9 2" "(4::nat) > 0"
    by (simp_all add: wrapped_state_def adaptive_backend_to_idx_def backend_consts enough_samples_def adaptive_stats_lookup_def)
  have "adaptive_stats wrapped_state = Some []" by (simp add: wrapped_state_def)
  then show ?thesis
    using timing_wrapper_transparent[OF h refl run raw] run by (auto simp: all_return_def eval_nat_numeral)
qed

end
