(* ===== verification/MetaLife.thy ===== *)
theory MetaLife
  imports MetaTiming
begin

text \<open>
  The meta provider as a transition system: compilations, evaluations, releases of contexts, changes
  of the settings and resets of the statistics in any order. In every reachable state no freed timing
  context is used and none is leaked.
\<close>

section \<open>The transition system\<close>

text \<open>\<open>prog\<close> gives the steps and the parent of every \<open>ExprState\<close>; \<open>live\<close> holds those that the executor may
  still evaluate: compiled, and the context of their parent not yet released.\<close>

inductive meta_step :: "'k provider \<Rightarrow> ('k, 'x, 'err, 'r) code \<Rightarrow> (nat \<Rightarrow> ExprState) \<Rightarrow>
    'k meta_state \<times> nat set \<Rightarrow> 'k meta_state \<times> nat set \<Rightarrow> bool"
  for pv :: "'k provider" and eval :: "('k, 'x, 'err, 'r) code" and prog :: "nat \<Rightarrow> ExprState" where
  compile: "valid_guc g \<Longrightarrow> meta_compile_expr pv g e (prog e) s = (s', ok) \<Longrightarrow>
    meta_step pv eval prog (s, live) (s', if ok then insert e live else live - {e})"
| call: "e \<in> live \<Longrightarrow> call_expr samples eval e x s = (res, s') \<Longrightarrow> meta_step pv eval prog (s, live) (s', live)"
| release: "meta_release_context p s = Some (s', effects) \<Longrightarrow>
    meta_step pv eval prog (s, live) (s', {e \<in> live. parent (prog e) \<noteq> Some p})"
| set_backend: "meta_backend_assign (loader_of pv) newval (backends s) = (bs, warn) \<Longrightarrow>
    meta_step pv eval prog (s, live) (s\<lparr>backends := bs\<rparr>, live)"
| reset: "pg_jitter_adaptive_stats_reset (adaptive_stats s) (shmem_attempted s) = (stats, tried) \<Longrightarrow>
    meta_step pv eval prog (s, live) (s\<lparr>adaptive_stats := stats, shmem_attempted := tried\<rparr>, live)"

definition meta_init :: "'k meta_state" where
  "meta_init = \<lparr>backends = (\<lambda>_. \<lparr>attempted = False, available = False, deform_reset = False\<rparr>), adaptive_stats = None,
     shmem_attempted = False, evalfunc = (\<lambda>_. NoFunc), es_jit = (\<lambda>_. None), tctxs = (\<lambda>_. None), next_tctx = 0\<rparr>"

inductive meta_reachable :: "'k provider \<Rightarrow> ('k, 'x, 'err, 'r) code \<Rightarrow> (nat \<Rightarrow> ExprState) \<Rightarrow> 'k meta_state \<times> nat set \<Rightarrow> bool"
  for pv :: "'k provider" and eval :: "('k, 'x, 'err, 'r) code" and prog :: "nat \<Rightarrow> ExprState" where
  init: "meta_reachable pv eval prog (meta_init, {})"
| step: "meta_reachable pv eval prog c \<Longrightarrow> meta_step pv eval prog c c' \<Longrightarrow> meta_reachable pv eval prog c'"

text \<open>What the providers promise: a successful compilation installs code.\<close>

definition installs_code :: "'k provider \<Rightarrow> bool" where
  "installs_code pv \<longleftrightarrow> (\<forall>idx state. fst (compile_cb pv idx state) \<longrightarrow> fst (snd (compile_cb pv idx state)) \<noteq> None)"

section \<open>The invariant\<close>

definition timings_of :: "'k meta_state \<Rightarrow> nat \<Rightarrow> nat list" where
  "timings_of s p = (case es_jit s p of None \<Rightarrow> [] | Some ctx \<Rightarrow> adaptive_timings ctx)"

definition heap_inv :: "'k meta_state \<Rightarrow> bool" where
  "heap_inv s \<longleftrightarrow> (\<forall>p. distinct (timings_of s p)) \<and>
     (\<forall>p q. p \<noteq> q \<longrightarrow> set (timings_of s p) \<inter> set (timings_of s q) = {}) \<and>
     (\<forall>a. tctxs s a \<noteq> None \<longleftrightarrow> (\<exists>p. a \<in> set (timings_of s p))) \<and>
     (\<forall>a. tctxs s a \<noteq> None \<longrightarrow> a < next_tctx s)"

definition slot_ok :: "(nat \<Rightarrow> ExprState) \<Rightarrow> 'k meta_state \<Rightarrow> nat \<Rightarrow> bool" where
  "slot_ok prog s e = (case evalfunc s e of NoFunc \<Rightarrow> False | Raw k \<Rightarrow> True
     | Timing a \<Rightarrow> (case parent (prog e) of None \<Rightarrow> False | Some p \<Rightarrow> a \<in> set (timings_of s p)))"

fun meta_inv :: "(nat \<Rightarrow> ExprState) \<Rightarrow> 'k meta_state \<times> nat set \<Rightarrow> bool" where
  "meta_inv prog (s, live) \<longleftrightarrow> stats_ok (adaptive_stats s) \<and> heap_inv s \<and> (\<forall>e\<in>live. slot_ok prog s e)"

lemma timings_of_upd [simp]:
  "timings_of (s\<lparr>backends := bs\<rparr>) = timings_of s" "timings_of (s\<lparr>adaptive_stats := st\<rparr>) = timings_of s"
  "timings_of (s\<lparr>shmem_attempted := b\<rparr>) = timings_of s" "timings_of (s\<lparr>evalfunc := f\<rparr>) = timings_of s"
  "timings_of (s\<lparr>tctxs := t\<rparr>) = timings_of s" "timings_of (s\<lparr>next_tctx := n\<rparr>) = timings_of s"
  by (rule ext, simp add: timings_of_def)+

lemma timings_of_ensure [simp]: "timings_of (meta_ensure_context state s) = timings_of s"
  by (rule ext) (simp add: timings_of_def meta_ensure_context_def empty_context_def split: option.split)

lemma timings_of_mark_used [simp]: "timings_of (mark_used state idx s) = timings_of s"
  by (rule ext) (simp add: timings_of_def mark_used_def split: option.split)

lemma inv_upd [simp]:
  "slot_ok prog (s\<lparr>backends := bs\<rparr>) = slot_ok prog s" "slot_ok prog (s\<lparr>adaptive_stats := st, shmem_attempted := b\<rparr>) = slot_ok prog s"
  "heap_inv (s\<lparr>backends := bs\<rparr>) = heap_inv s" "heap_inv (s\<lparr>adaptive_stats := st, shmem_attempted := b\<rparr>) = heap_inv s"
  by (rule ext, simp add: slot_ok_def split: evalfunc.split option.split)+ (simp_all add: heap_inv_def)

text \<open>Two states with the same timing contexts that differ in \<open>evalfunc\<close> at \<open>e\<close> only.\<close>

definition quiet :: "nat \<Rightarrow> 'k meta_state \<Rightarrow> 'k meta_state \<Rightarrow> bool" where
  "quiet e s s' \<longleftrightarrow> timings_of s' = timings_of s \<and> dom (tctxs s') = dom (tctxs s) \<and> next_tctx s' = next_tctx s \<and>
     (stats_ok (adaptive_stats s) \<longrightarrow> stats_ok (adaptive_stats s')) \<and> (\<forall>e'. e' \<noteq> e \<longrightarrow> evalfunc s' e' = evalfunc s e')"

lemma quiet_refl [simp]: "quiet e s s" by (simp add: quiet_def)

lemma quiet_trans: "quiet e s s' \<Longrightarrow> quiet e s' s'' \<Longrightarrow> quiet e s s''" by (simp add: quiet_def)

lemma quiet_mark_used: "quiet e s (mark_used state idx s)" by (simp add: quiet_def)

lemma quiet_backends: "quiet e s (s\<lparr>backends := bs\<rparr>)" by (simp add: quiet_def)

lemma quiet_heap_inv:
  assumes "quiet e s s'" shows "heap_inv s' = heap_inv s"
proof -
  have "tctxs s' a \<noteq> None \<longleftrightarrow> tctxs s a \<noteq> None" for a
    using assms by (metis domIff quiet_def)
  then show ?thesis using assms by (simp add: heap_inv_def quiet_def)
qed

lemma quiet_slot_ok: "quiet e s s' \<Longrightarrow> e' \<noteq> e \<Longrightarrow> slot_ok prog s' e' = slot_ok prog s e'"
  by (simp add: slot_ok_def quiet_def split: evalfunc.split option.split)

lemma quiet_run_backend:
  assumes "run_backend pv e state idx s = (s', ok, ns)" "installs_code pv"
  shows "quiet e s s' \<and> (ok \<longrightarrow> (\<exists>k. evalfunc s' e = Raw k))"
proof -
  obtain code where comp: "compile_cb pv idx state = (ok, code, ns)"
    and s': "s' = s\<lparr>evalfunc := (evalfunc s)(e := (case code of Some k \<Rightarrow> Raw k | None \<Rightarrow> NoFunc))\<rparr>"
    using assms(1) by (auto simp: run_backend_def split: prod.splits)
  have "ok \<longrightarrow> code \<noteq> None"
    using assms(2) comp unfolding installs_code_def by (metis fst_conv snd_conv)
  then show ?thesis by (auto simp: s' quiet_def)
qed

lemma quiet_try_backends:
  assumes "installs_code pv" "try_backends pv e state idxs s = (s', ok)"
  shows "quiet e s s' \<and> (ok \<longrightarrow> (\<exists>k. evalfunc s' e = Raw k))"
  using assms(2)
proof (induction idxs arbitrary: s)
  case Nil
  then show ?case by auto
next
  case (Cons idx idxs)
  obtain bs loaded where load: "meta_load_backend (loader_of pv) idx (backends s) = (bs, loaded)" by fastforce
  let ?s = "s\<lparr>backends := bs\<rparr>"
  obtain s1 ok' ns where run: "run_backend pv e state idx ?s = (s1, ok', ns)" by (metis prod_cases3)
  have q0: "quiet e s ?s" by (rule quiet_backends)
  show ?case
  proof (cases loaded)
    case True
    then have "s' = (if ok then mark_used state idx s1 else s1)" "ok' = ok"
      using Cons.prems by (auto simp: load run)
    moreover have "quiet e ?s s1" "ok' \<longrightarrow> (\<exists>k. evalfunc s1 e = Raw k)"
      using quiet_run_backend[OF run assms(1)] by auto
    moreover from this have "quiet e s s1" using quiet_trans[OF q0] by blast
    ultimately show ?thesis using quiet_trans[OF \<open>quiet e s s1\<close> quiet_mark_used] by auto
  next
    case False
    then have "try_backends pv e state idxs ?s = (s', ok)" using Cons.prems by (simp add: load)
    from Cons.IH[OF this] show ?thesis using quiet_trans[OF q0] by blast
  qed
qed

lemma install_inv:
  assumes "heap_inv s" "evalfunc s e = Raw k"
    and s'_def: "s' = meta_install_timing_wrapper n e (prog e) b h ns p s"
  shows "heap_inv s'" "slot_ok prog s' e" "\<And>e'. e' \<noteq> e \<Longrightarrow> slot_ok prog s e' \<Longrightarrow> slot_ok prog s' e'"
proof -
  have "s' = s \<or> (\<exists>q ctx t. parent (prog e) = Some q \<and> es_jit s q = Some ctx \<and>
      s' = s\<lparr>tctxs := (tctxs s)(next_tctx s \<mapsto> t), next_tctx := next_tctx s + 1,
        evalfunc := (evalfunc s)(e := Timing (next_tctx s)),
        es_jit := (es_jit s)(q \<mapsto> ctx\<lparr>adaptive_timings := next_tctx s # adaptive_timings ctx\<rparr>)\<rparr>)"
    using assms(2) by (auto simp: s'_def meta_install_timing_wrapper_def Let_def split: option.splits)
  then have "heap_inv s' \<and> slot_ok prog s' e \<and> (\<forall>e'. e' \<noteq> e \<longrightarrow> slot_ok prog s e' \<longrightarrow> slot_ok prog s' e')"
  proof (elim disjE exE conjE)
    assume "s' = s"
    then show ?thesis using assms(1,2) by (simp add: slot_ok_def)
  next
    fix q ctx t
    assume q: "parent (prog e) = Some q" "es_jit s q = Some ctx" and s': "s' = s\<lparr>tctxs := (tctxs s)(next_tctx s \<mapsto> t),
      next_tctx := next_tctx s + 1, evalfunc := (evalfunc s)(e := Timing (next_tctx s)),
      es_jit := (es_jit s)(q \<mapsto> ctx\<lparr>adaptive_timings := next_tctx s # adaptive_timings ctx\<rparr>)\<rparr>"
    have tq: "timings_of s q = adaptive_timings ctx" using q by (simp add: timings_of_def)
    have t': "timings_of s' = (timings_of s)(q := next_tctx s # timings_of s q)"
      by (rule ext) (simp add: s' timings_of_def q)
    have fresh: "tctxs s (next_tctx s) = None" "\<And>p. next_tctx s \<notin> set (timings_of s p)"
      using assms(1) unfolding heap_inv_def by blast+
    have "heap_inv s'"
      unfolding heap_inv_def t' using assms(1) fresh
      by (auto simp: heap_inv_def s' less_SucI split: if_split_asm) metis
    moreover have "slot_ok prog s' e" unfolding slot_ok_def t' by (simp add: s' q)
    moreover have "slot_ok prog s e' \<longrightarrow> slot_ok prog s' e'" if "e' \<noteq> e" for e'
      unfolding slot_ok_def t' using that by (auto simp: s' split: evalfunc.splits option.splits)
    ultimately show ?thesis by blast
  qed
  then show "heap_inv s'" "slot_ok prog s' e" "\<And>e'. e' \<noteq> e \<Longrightarrow> slot_ok prog s e' \<Longrightarrow> slot_ok prog s' e'" by blast+
qed

lemma stats_ok_start: "stats_ok (adaptive_stats s) \<Longrightarrow> stats_ok (fst (start_stats g s))"
  by (simp add: start_stats_def stats_ok_init)

lemma quiet_dispatch: "quiet e s (dispatch_state g state s bs)"
  unfolding quiet_def by (simp add: stats_ok_start) (simp add: dispatch_state_def)

lemma compile_inv:
  assumes "installs_code pv" "meta_inv prog (s, live)"
    and "meta_compile_expr pv g e (prog e) s = (s', ok)"
  shows "meta_inv prog (s', if ok then insert e live else live - {e})"
proof -
  have inv: "stats_ok (adaptive_stats s)" "heap_inv s" "\<And>e. e \<in> live \<Longrightarrow> slot_ok prog s e" using assms(2) by auto
  have quiet_case: ?thesis if q: "quiet e s s'" and raw: "ok \<longrightarrow> (\<exists>k. evalfunc s' e = Raw k)"
  proof -
    have "slot_ok prog s' e'" if "e' \<in> (if ok then insert e live else live - {e})" for e'
      using that raw inv(3) quiet_slot_ok[OF q] by (cases "e' = e") (auto simp: slot_ok_def split: if_splits)
    moreover have "stats_ok (adaptive_stats s')" using q inv(1) by (simp add: quiet_def)
    ultimately show ?thesis using quiet_heap_inv[OF q] inv(2) by simp
  qed
  show ?thesis
  proof (cases rule: meta_compile_cases[of pv g "prog e" s e])
    case (1 bs)
    then have "try_backends pv e (prog e) [0..<PG_JITTER_NUM_BACKENDS] (dispatch_state g (prog e) s bs) = (s', ok)"
      using assms(3) by simp
    from quiet_try_backends[OF assms(1) this] show ?thesis
      using quiet_trans[OF quiet_dispatch] by (intro quiet_case) blast+
  next
    case (2 bs s3 ok' ns s4)
    let ?idx = "first_choice pv g (prog e) s"
    have q3: "quiet e s s3" and raw: "ok' \<longrightarrow> (\<exists>k. evalfunc s3 e = Raw k)"
      using quiet_run_backend[OF 2(2) assms(1)] quiet_trans[OF quiet_dispatch] by blast+
    have s': "s' = (if ok then mark_used (prog e) ?idx s4 else s4)" "ok' = ok" using 2(4) assms(3) by auto
    from 2(3) show ?thesis
    proof (elim disjE conjE exE)
      assume "s4 = s3"
      then have "quiet e s s'" "ok \<longrightarrow> (\<exists>k. evalfunc s' e = Raw k)"
        using s' q3 raw quiet_trans[OF q3 quiet_mark_used] by auto
      then show ?thesis by (rule quiet_case)
    next
      fix h profile assume ok: "ok'" and s4: "s4 = meta_install_timing_wrapper (adaptive_samples (selection g)) e (prog e) ?idx h ns profile s3"
      obtain k where k: "evalfunc s3 e = Raw k" using raw ok by blast
      have "heap_inv s3" using quiet_heap_inv[OF q3] inv(2) by simp
      note i = install_inv[where prog = prog, OF this k s4]
      have "stats_ok (adaptive_stats s4)" using q3 inv(1) by (simp add: s4 quiet_def)
      moreover have "slot_ok prog s4 e'" if "e' \<in> insert e live" for e'
        using that i(2,3) inv(3) quiet_slot_ok[OF q3] by (cases "e' = e") auto
      moreover have "slot_ok prog (mark_used (prog e) ?idx s4) e' = slot_ok prog s4 e'" for e'
        by (simp add: slot_ok_def split: evalfunc.split option.split)
      ultimately show ?thesis
        using i(1) quiet_heap_inv[OF quiet_mark_used[of e s4 "prog e" ?idx]] s' ok by simp
    qed
  qed
qed

lemma call_inv:
  assumes "meta_inv prog (s, live)" "e \<in> live" "call_expr samples eval e x s = (res, s')"
  shows "res \<noteq> None \<and> meta_inv prog (s', live)"
proof -
  have inv: "stats_ok (adaptive_stats s)" "heap_inv s" "\<And>e. e \<in> live \<Longrightarrow> slot_ok prog s e" using assms(1) by auto
  have "res \<noteq> None \<and> quiet e s s' \<and> slot_ok prog s' e"
  proof (cases "evalfunc s e")
    case NoFunc
    then show ?thesis using inv(3)[OF assms(2)] by (simp add: slot_ok_def)
  next
    case (Raw k)
    then show ?thesis using assms(3) by (auto simp: call_expr_def quiet_def slot_ok_def split: prod.splits)
  next
    case (Timing a)
    then obtain p where p: "parent (prog e) = Some p" "a \<in> set (timings_of s p)"
      using inv(3)[OF assms(2)] by (auto simp: slot_ok_def split: option.splits)
    then obtain t where t: "tctxs s a = Some t" using inv(2) unfolding heap_inv_def by (metis not_Some_eq)
    obtain r k' ns where ev: "eval (original_evalfunc t) x = (r, k', ns)" by (metis prod_cases3)
    show ?thesis
    proof (cases r)
      case (Inl err)
      then show ?thesis using assms(3) Timing t ev
        by (auto simp: call_expr_def meta_adaptive_timing_wrapper_def quiet_def slot_ok_def)
    next
      case (Inr v)
      then show ?thesis using assms(3) Timing t ev p
        by (auto simp: call_expr_def meta_adaptive_timing_wrapper_def quiet_def slot_ok_def Let_def stats_ok_record split: if_splits)
    qed
  qed
  then have r: "res \<noteq> None" and q: "quiet e s s'" and e: "slot_ok prog s' e" by auto
  have "slot_ok prog s' e'" if "e' \<in> live" for e'
    using that e inv(3) quiet_slot_ok[OF q] by (cases "e' = e") auto
  then show ?thesis using r quiet_heap_inv[OF q] inv q by (simp add: quiet_def)
qed

lemma release_timings_ok:
  assumes "distinct as" "\<forall>a\<in>set as. tctxs s a \<noteq> None" "stats_ok (adaptive_stats s)"
  shows "\<exists>s'. release_timings as s = Some s' \<and> tctxs s' = (\<lambda>a. if a \<in> set as then None else tctxs s a) \<and>
    es_jit s' = es_jit s \<and> evalfunc s' = evalfunc s \<and> next_tctx s' = next_tctx s \<and> stats_ok (adaptive_stats s')"
  using assms
proof (induction as arbitrary: s)
  case Nil
  then show ?case by simp
next
  case (Cons a as)
  obtain t where t: "tctxs s a = Some t" using Cons.prems(2) by auto
  define stats where "stats = (if \<not> t_done t \<and> t_call_count t > 0
    then adaptive_stats_record (adaptive_stats s) (t_profile_hash t) (Some (backend_idx t)) (t_compile_ns t)
      (t_exec_ns t) (t_call_count t) None
    else adaptive_stats s)"
  have r: "release_timing a s = Some (s\<lparr>adaptive_stats := stats, tctxs := (tctxs s)(a := None)\<rparr>)"
    by (simp add: release_timing_def t stats_def)
  have st: "stats_ok stats" using Cons.prems(3) by (simp add: stats_def stats_ok_record)
  let ?s = "s\<lparr>adaptive_stats := stats, tctxs := (tctxs s)(a := None)\<rparr>"
  have "\<exists>s'. release_timings as ?s = Some s' \<and> tctxs s' = (\<lambda>b. if b \<in> set as then None else tctxs ?s b) \<and>
    es_jit s' = es_jit ?s \<and> evalfunc s' = evalfunc ?s \<and> next_tctx s' = next_tctx ?s \<and> stats_ok (adaptive_stats s')"
    using Cons.prems st by (intro Cons.IH) auto
  then show ?case by (auto simp: r fun_eq_iff)
qed

lemma release_inv:
  assumes "meta_inv prog (s, live)"
  shows "\<exists>s' effects. meta_release_context p s = Some (s', effects) \<and> meta_inv prog (s', {e \<in> live. parent (prog e) \<noteq> Some p})"
proof (cases "es_jit s p")
  case None
  then show ?thesis using assms by (auto simp: meta_release_context_def)
next
  case (Some ctx)
  have tp: "timings_of s p = adaptive_timings ctx" by (simp add: timings_of_def Some)
  have h: "heap_inv s" "stats_ok (adaptive_stats s)" "\<And>e. e \<in> live \<Longrightarrow> slot_ok prog s e" using assms by auto
  have "distinct (timings_of s p)" "\<forall>a\<in>set (timings_of s p). tctxs s a \<noteq> None"
    using h(1) unfolding heap_inv_def by metis+
  from release_timings_ok[OF this h(2)] obtain s1 where s1: "release_timings (adaptive_timings ctx) s = Some s1"
    "tctxs s1 = (\<lambda>a. if a \<in> set (timings_of s p) then None else tctxs s a)" "es_jit s1 = es_jit s"
    "evalfunc s1 = evalfunc s" "next_tctx s1 = next_tctx s" "stats_ok (adaptive_stats s1)" unfolding tp by blast
  let ?s = "s1\<lparr>es_jit := (es_jit s1)(p := None)\<rparr>"
  have r: "meta_release_context p s = Some (?s, release_effects (backends s) ctx)"
    by (simp add: meta_release_context_def Some s1(1))
  have t': "timings_of ?s = (timings_of s)(p := [])" by (rule ext) (simp add: timings_of_def s1(3))
  have dist: "\<And>q. distinct (timings_of s q)" and disj: "\<And>q r. q \<noteq> r \<Longrightarrow> set (timings_of s q) \<inter> set (timings_of s r) = {}"
    and alive: "\<And>a. tctxs s a \<noteq> None \<longleftrightarrow> (\<exists>q. a \<in> set (timings_of s q))" and lt: "\<And>a. tctxs s a \<noteq> None \<Longrightarrow> a < next_tctx s"
    using h(1) unfolding heap_inv_def by blast+
  have alive': "tctxs ?s a \<noteq> None \<longleftrightarrow> (\<exists>q. a \<in> set (timings_of ?s q))" for a
  proof (cases "a \<in> set (timings_of s p)")
    case True
    then have "a \<notin> set (timings_of s q)" if "q \<noteq> p" for q using disj[OF that] by blast
    then show ?thesis using True by (simp add: t' s1(2))
  next
    case False
    then show ?thesis unfolding t' using alive[of a] by (auto simp: s1(2))
  qed
  have "heap_inv ?s"
    unfolding heap_inv_def
  proof (intro conjI allI impI)
    show "distinct (timings_of ?s q)" for q by (simp add: t' dist)
    show "q \<noteq> r \<Longrightarrow> set (timings_of ?s q) \<inter> set (timings_of ?s r) = {}" for q r using disj[of q r] by (simp add: t')
    show "(tctxs ?s a \<noteq> None) = (\<exists>q. a \<in> set (timings_of ?s q))" for a by (rule alive')
    show "tctxs ?s a \<noteq> None \<Longrightarrow> a < next_tctx ?s" for a using lt[of a] by (simp add: s1(2,5) split: if_splits)
  qed
  moreover have "slot_ok prog ?s e" if "e \<in> live" "parent (prog e) \<noteq> Some p" for e
    using h(3)[OF that(1)] that(2) unfolding slot_ok_def t'
    by (auto simp: s1(4) split: evalfunc.splits option.splits)
  ultimately show ?thesis using r s1(6) by auto
qed

lemma meta_inv_reachable:
  assumes "installs_code pv" "meta_reachable pv eval prog c"
  shows "meta_inv prog c"
  using assms(2)
proof (induction rule: meta_reachable.induct)
  case init
  show ?case by (simp add: meta_init_def heap_inv_def timings_of_def)
next
  case (step c c')
  from step.hyps(2) step.IH show ?case
  proof (cases rule: meta_step.cases)
    case (compile g e s s' ok live)
    have "meta_inv prog (s, live)" using step.IH compile(1) by (simp only:)
    from compile_inv[OF assms(1) this compile(4)] show ?thesis by (simp only: compile(2))
  next
    case (call e live samples x s res s')
    have "meta_inv prog (s, live)" using step.IH call(1) by (simp only:)
    from call_inv[OF this call(3,4)] show ?thesis by (simp only: call(2))
  next
    case (release p s s' effects live)
    have "meta_inv prog (s, live)" using step.IH release(1) by (simp only:)
    from release_inv[OF this, of p] show ?thesis using release(2,3) by auto
  next
    case (set_backend newval s bs warn live)
    then show ?thesis using step.IH by simp
  next
    case (reset s stats tried live)
    then show ?thesis using step.IH stats_ok_reset[of "adaptive_stats s" "shmem_attempted s"]
      by simp
  qed
qed

text \<open>C15 (invariant): when the backends keep their contract that a successful compilation installs code,
  then in every state that any interleaving of compilations, evaluations, releases, setting changes and
  resets can reach: the table of statistics has no two entries of one hash and at most 256 entries;
  evaluating any expression whose context is not released never runs through a freed timing context;
  every context can be released without freeing a timing context twice; and a timing context exists
  only while it is on the list of a context, so that after the last release none is left.\<close>

theorem timing_contexts_safe:
  assumes "installs_code pv" "meta_reachable pv eval prog (s, live)"
  shows "stats_ok (adaptive_stats s) \<and>
    (\<forall>e samples x. e \<in> live \<longrightarrow> fst (call_expr samples eval e x s) \<noteq> None) \<and>
    (\<forall>p. meta_release_context p s \<noteq> None) \<and>
    ((\<forall>p. es_jit s p = None) \<longrightarrow> (\<forall>a. tctxs s a = None))"
proof -
  note inv = meta_inv_reachable[OF assms]
  have "fst (call_expr samples eval e x s) \<noteq> None" if "e \<in> live" for e samples x
    using call_inv[OF inv that, of samples eval x] by (metis prod.collapse)
  moreover have "meta_release_context p s \<noteq> None" for p using release_inv[OF inv, of p] by auto
  moreover have "tctxs s a = None" if "\<forall>p. es_jit s p = None" for a
    using inv that by (auto simp: heap_inv_def timings_of_def)
  ultimately show ?thesis using inv by auto
qed

definition sample_prog :: "nat \<Rightarrow> ExprState" where "sample_prog = (\<lambda>_. \<lparr>steps = [], parent = Some 3\<rparr>)"

definition compiled_state :: "nat meta_state" where
  "compiled_state = fst (meta_compile_expr asmjit_only sljit_gucs 0 (sample_prog 0) meta_init)"

theorem timing_contexts_safe_witness:
  "meta_reachable asmjit_only counting_code sample_prog (compiled_state, {0}) \<and>
   fst (call_expr 4 counting_code 0 5 compiled_state) \<noteq> None \<and> meta_release_context 3 compiled_state \<noteq> None"
proof -
  have ok: "installs_code asmjit_only" by (simp add: installs_code_def asmjit_only_def)
  have v: "valid_guc sljit_gucs" by (simp add: valid_guc_def sljit_gucs_def backend_options_def)
  have c: "meta_compile_expr asmjit_only sljit_gucs 0 (sample_prog 0) meta_init = (compiled_state, True)"
    unfolding compiled_state_def
    by (simp add: meta_compile_expr_def asmjit_only_def sljit_gucs_def sample_prog_def meta_init_def meta_ensure_context_def
        meta_load_backend_def run_backend_def backend_consts upt_rec)
  have "meta_step asmjit_only counting_code sample_prog (meta_init, {}) (compiled_state, if True then insert 0 {} else {} - {0})"
    by (rule meta_step.compile[where prog = sample_prog, OF v c])
  then have r: "meta_reachable asmjit_only counting_code sample_prog (compiled_state, {0})"
    using meta_reachable.step[OF meta_reachable.init] by fastforce
  with timing_contexts_safe[OF ok r] show ?thesis by blast
qed

end
