(* ===== verification/Sljit.thy ===== *)
theory Sljit
  imports InList
begin

text \<open>
  The part of the sljit interface through which the deform compiler emits code. An emitted program is
  the list of the calls of emitting functions. sljit itself is a parameter (\<open>sljit\<close>: creating
  a compiler, generating code); what the deform compiler relies on, the documented effect of each instruction,
  is the hypothesis \<open>documented_sljit\<close>. The effects are stated by \<open>exec\<close> on a machine with the slot, the tuple and the frame of the generated function as its memory. Offsets of fields of PostgreSQL's
  structs appear by the name of the field. A jump goes to a label further on (\<open>sljit_set_label\<close> on
  a label emitted later); an access outside an object or through the wrong field, the use of
  a scratch register after a call, and falling off the end of the code have no result.
\<close>

section \<open>Instructions\<close>

datatype reg = R0 | R1 | R2 | R3 | S0 | S1 | S2 | S3 | S4

datatype mov = SLJIT_MOV | SLJIT_MOV_U8 | SLJIT_MOV_S8 | SLJIT_MOV_U16 | SLJIT_MOV_S16 | SLJIT_MOV_U32 | SLJIT_MOV_S32

datatype alu = SLJIT_ADD | SLJIT_AND | SLJIT_OR

datatype cond = SLJIT_EQUAL | SLJIT_NOT_EQUAL | SLJIT_SIG_GREATER_EQUAL

text \<open>The fields: of \<open>TupleTableSlot\<close> and its extensions, of \<open>HeapTupleData\<close>, of \<open>HeapTupleHeaderData\<close>.\<close>

datatype field = Tts_values | Tts_isnull | Tts_nvalid | Tts_flags
  | Heap_tuple | Heap_off | Minimal_tuple | Minimal_off
  | T_data | T_infomask | T_infomask2 | T_hoff

datatype operand = Reg reg | Imm int | Imm_bits | Sp nat | Mem1 reg int | Mem1f reg field | Mem2 reg reg

datatype lbl = L_att nat | L_notnull nat | L_aligned nat | L_skip_missing | L_out

datatype callee = Slot_getmissingattrs | Varsize_any | Strlen

datatype ins = Enter nat nat nat | Op1 mov operand operand | Op2 alu operand operand operand
  | Cmp cond operand operand lbl | Jump lbl | Label lbl | Icall callee | Return_void

section \<open>The machine\<close>

datatype block = SlotB | TupB | HdrB | ValuesB | IsnullB

text \<open>A machine word is a number or an address, an object and a byte offset in it.\<close>

datatype mval = Num uint64 | Addr block uint64

datatype slot_ops = TTSOpsVirtual | TTSOpsHeapTuple | TTSOpsBufferHeapTuple | TTSOpsMinimalTuple

text \<open>\<open>t_bytes\<close> are the bytes of the tuple from the start of its header, \<open>bits_off\<close> is the offset of
  \<open>t_bits\<close> in the header.\<close>

record heap_tuple =
  t_infomask :: uint16
  t_infomask2 :: uint16
  t_hoff :: uint8
  t_bytes :: "uint8 list"
  bits_off :: nat

text \<open>\<open>tts_cap\<close> is the number of elements of both arrays.\<close>

record tuple_slot =
  tts_ops :: slot_ops
  tts_nvalid :: int16
  tts_flags :: uint16
  tts_off :: uint32
  tts_cap :: nat
  tts_values :: "nat \<Rightarrow> mval"
  tts_isnull :: "nat \<Rightarrow> uint8"

record mstate =
  mslot :: tuple_slot
  mtuple :: heap_tuple
  mreg :: "reg \<Rightarrow> mval option"
  mframe :: "nat \<Rightarrow> mval option"
  mframe_size :: nat

text \<open>The functions that the code calls: the default values of missing attributes and the size of a
  variable-length datum that begins with the given bytes.\<close>

record deform_env =
  missing_attr :: "nat \<Rightarrow> mval \<times> uint8"
  varsize_any :: "uint8 list \<Rightarrow> nat option"

fun c_strlen :: "uint8 list \<Rightarrow> nat option" where
  "c_strlen [] = None"
| "c_strlen (b # bs) = (if b = 0 then Some 0 else map_option Suc (c_strlen bs))"

definition is_heap :: "slot_ops \<Rightarrow> bool" where
  "is_heap ops \<longleftrightarrow> ops = TTSOpsHeapTuple \<or> ops = TTSOpsBufferHeapTuple"

definition load_field :: "mstate \<Rightarrow> mov \<Rightarrow> block \<Rightarrow> field \<Rightarrow> mval option" where
  "load_field m w b f =
     (case (b, f, w) of
        (SlotB, Tts_values, SLJIT_MOV) \<Rightarrow> Some (Addr ValuesB 0)
      | (SlotB, Tts_isnull, SLJIT_MOV) \<Rightarrow> Some (Addr IsnullB 0)
      | (SlotB, Tts_nvalid, SLJIT_MOV_S16) \<Rightarrow> Some (Num (scast (tts_nvalid (mslot m))))
      | (SlotB, Tts_flags, SLJIT_MOV_U16) \<Rightarrow> Some (Num (ucast (tts_flags (mslot m))))
      | (SlotB, Heap_tuple, SLJIT_MOV) \<Rightarrow> if is_heap (tts_ops (mslot m)) then Some (Addr TupB 0) else None
      | (SlotB, Minimal_tuple, SLJIT_MOV) \<Rightarrow> if tts_ops (mslot m) = TTSOpsMinimalTuple then Some (Addr TupB 0) else None
      | (SlotB, Heap_off, SLJIT_MOV_U32) \<Rightarrow> if is_heap (tts_ops (mslot m)) then Some (Num (ucast (tts_off (mslot m)))) else None
      | (SlotB, Minimal_off, SLJIT_MOV_U32) \<Rightarrow>
          if tts_ops (mslot m) = TTSOpsMinimalTuple then Some (Num (ucast (tts_off (mslot m)))) else None
      | (TupB, T_data, SLJIT_MOV) \<Rightarrow> Some (Addr HdrB 0)
      | (HdrB, T_infomask, SLJIT_MOV_U16) \<Rightarrow> Some (Num (ucast (t_infomask (mtuple m))))
      | (HdrB, T_infomask2, SLJIT_MOV_U16) \<Rightarrow> Some (Num (ucast (t_infomask2 (mtuple m))))
      | (HdrB, T_hoff, SLJIT_MOV_U8) \<Rightarrow> Some (Num (ucast (t_hoff (mtuple m))))
      | _ \<Rightarrow> None)"

definition bytes_at :: "uint8 list \<Rightarrow> nat \<Rightarrow> nat \<Rightarrow> uint8 list option" where
  "bytes_at bs ofs k = (if ofs + k \<le> length bs then Some (take k (drop ofs bs)) else None)"

text \<open>Reading the tuple: the width and the extension of the instruction, in the byte order of the machine.\<close>

definition load_bytes :: "uint8 list \<Rightarrow> mov \<Rightarrow> nat \<Rightarrow> uint64 option" where
  "load_bytes bs w ofs =
     (case w of SLJIT_MOV \<Rightarrow> map_option le_word (bytes_at bs ofs 8)
      | SLJIT_MOV_U8 \<Rightarrow> map_option (\<lambda>b. ucast (le_word b :: uint8)) (bytes_at bs ofs 1)
      | SLJIT_MOV_S8 \<Rightarrow> map_option (\<lambda>b. scast (le_word b :: uint8)) (bytes_at bs ofs 1)
      | SLJIT_MOV_U16 \<Rightarrow> map_option (\<lambda>b. ucast (le_word b :: uint16)) (bytes_at bs ofs 2)
      | SLJIT_MOV_S16 \<Rightarrow> map_option (\<lambda>b. scast (le_word b :: uint16)) (bytes_at bs ofs 2)
      | SLJIT_MOV_U32 \<Rightarrow> map_option (\<lambda>b. ucast (le_word b :: uint32)) (bytes_at bs ofs 4)
      | SLJIT_MOV_S32 \<Rightarrow> map_option (\<lambda>b. scast (le_word b :: uint32)) (bytes_at bs ofs 4))"

definition load_addr :: "mstate \<Rightarrow> mov \<Rightarrow> mval \<Rightarrow> mval option" where
  "load_addr m w a = (case a of Addr HdrB ofs \<Rightarrow> map_option Num (load_bytes (t_bytes (mtuple m)) w (unat ofs)) | _ \<Rightarrow> None)"

definition add_mval :: "mval \<Rightarrow> mval \<Rightarrow> mval option" where
  "add_mval a b = (case (a, b) of (Num x, Num y) \<Rightarrow> Some (Num (x + y)) | (Addr k ofs, Num y) \<Rightarrow> Some (Addr k (ofs + y)) | _ \<Rightarrow> None)"

definition frame_slot :: "mstate \<Rightarrow> nat \<Rightarrow> bool" where
  "frame_slot m ofs \<longleftrightarrow> ofs mod 8 = 0 \<and> ofs + 8 \<le> mframe_size m"

definition read_op :: "mstate \<Rightarrow> mov \<Rightarrow> operand \<Rightarrow> mval option" where
  "read_op m w x =
     (case x of Reg r \<Rightarrow> mreg m r
      | Imm i \<Rightarrow> Some (Num (word_of_int i))
      | Imm_bits \<Rightarrow> Some (Num (of_nat (bits_off (mtuple m))))
      | Sp ofs \<Rightarrow> if w = SLJIT_MOV \<and> frame_slot m ofs then mframe m ofs else None
      | Mem1 r i \<Rightarrow> Option.bind (mreg m r) (\<lambda>a. Option.bind (add_mval a (Num (word_of_int i))) (load_addr m w))
      | Mem1f r f \<Rightarrow> Option.bind (mreg m r) (\<lambda>a. case a of Addr b ofs \<Rightarrow> if ofs = 0 then load_field m w b f else None | _ \<Rightarrow> None)
      | Mem2 r s \<Rightarrow> Option.bind (mreg m r) (\<lambda>a. Option.bind (mreg m s) (\<lambda>b. Option.bind (add_mval a b) (load_addr m w))))"

definition store_field :: "mstate \<Rightarrow> mov \<Rightarrow> field \<Rightarrow> uint64 \<Rightarrow> mstate option" where
  "store_field m w f v =
     (case (f, w) of
        (Tts_nvalid, SLJIT_MOV_S16) \<Rightarrow> Some (m\<lparr>mslot := (mslot m)\<lparr>tts_nvalid := ucast v\<rparr>\<rparr>)
      | (Tts_flags, SLJIT_MOV_U16) \<Rightarrow> Some (m\<lparr>mslot := (mslot m)\<lparr>tts_flags := ucast v\<rparr>\<rparr>)
      | (Heap_off, SLJIT_MOV_U32) \<Rightarrow>
          if is_heap (tts_ops (mslot m)) then Some (m\<lparr>mslot := (mslot m)\<lparr>tts_off := ucast v\<rparr>\<rparr>) else None
      | (Minimal_off, SLJIT_MOV_U32) \<Rightarrow>
          if tts_ops (mslot m) = TTSOpsMinimalTuple then Some (m\<lparr>mslot := (mslot m)\<lparr>tts_off := ucast v\<rparr>\<rparr>) else None
      | _ \<Rightarrow> None)"

definition store_addr :: "mstate \<Rightarrow> mov \<Rightarrow> mval \<Rightarrow> mval \<Rightarrow> mstate option" where
  "store_addr m w a v =
     (case a of
        Addr ValuesB ofs \<Rightarrow>
          if w = SLJIT_MOV \<and> unat ofs mod 8 = 0 \<and> unat ofs div 8 < tts_cap (mslot m)
          then Some (m\<lparr>mslot := (mslot m)\<lparr>tts_values := (tts_values (mslot m))(unat ofs div 8 := v)\<rparr>\<rparr>) else None
      | Addr IsnullB ofs \<Rightarrow>
          (case v of Num x \<Rightarrow>
             if w = SLJIT_MOV_U8 \<and> unat ofs < tts_cap (mslot m)
             then Some (m\<lparr>mslot := (mslot m)\<lparr>tts_isnull := (tts_isnull (mslot m))(unat ofs := ucast x)\<rparr>\<rparr>) else None
           | _ \<Rightarrow> None)
      | _ \<Rightarrow> None)"

definition write_op :: "mstate \<Rightarrow> mov \<Rightarrow> operand \<Rightarrow> mval \<Rightarrow> mstate option" where
  "write_op m w x v =
     (case x of Reg r \<Rightarrow> Some (m\<lparr>mreg := (mreg m)(r \<mapsto> v)\<rparr>)
      | Sp ofs \<Rightarrow> if w = SLJIT_MOV \<and> frame_slot m ofs then Some (m\<lparr>mframe := (mframe m)(ofs \<mapsto> v)\<rparr>) else None
      | Mem1 r i \<Rightarrow> Option.bind (mreg m r) (\<lambda>a. Option.bind (add_mval a (Num (word_of_int i))) (\<lambda>p. store_addr m w p v))
      | Mem1f r f \<Rightarrow> Option.bind (mreg m r) (\<lambda>a. case (a, v) of (Addr SlotB ofs, Num y) \<Rightarrow> if ofs = 0 then store_field m w f y else None | _ \<Rightarrow> None)
      | _ \<Rightarrow> None)"

definition alu_op :: "alu \<Rightarrow> mval \<Rightarrow> mval \<Rightarrow> mval option" where
  "alu_op f a b =
     (case f of SLJIT_ADD \<Rightarrow> add_mval a b
      | SLJIT_AND \<Rightarrow> (case (a, b) of (Num x, Num y) \<Rightarrow> Some (Num (x AND y)) | _ \<Rightarrow> None)
      | SLJIT_OR \<Rightarrow> (case (a, b) of (Num x, Num y) \<Rightarrow> Some (Num (x OR y)) | _ \<Rightarrow> None))"

definition cond_holds :: "cond \<Rightarrow> mval \<Rightarrow> mval \<Rightarrow> bool option" where
  "cond_holds c a b =
     (case (a, b) of (Num x, Num y) \<Rightarrow>
        Some (case c of SLJIT_EQUAL \<Rightarrow> x = y | SLJIT_NOT_EQUAL \<Rightarrow> x \<noteq> y | SLJIT_SIG_GREATER_EQUAL \<Rightarrow> sint y \<le> sint x)
      | _ \<Rightarrow> None)"

text \<open>A call destroys the scratch registers; its result is in \<open>R0\<close>.\<close>

definition clobber :: "mstate \<Rightarrow> mval option \<Rightarrow> mstate" where
  "clobber m res = m\<lparr>mreg := (mreg m)(R0 := res, R1 := None, R2 := None, R3 := None)\<rparr>"

definition fill_missing :: "deform_env \<Rightarrow> nat \<Rightarrow> nat \<Rightarrow> tuple_slot \<Rightarrow> tuple_slot" where
  "fill_missing env start stop s = s\<lparr>
     tts_values := (\<lambda>i. if start \<le> i \<and> i < stop then fst (missing_attr env i) else tts_values s i),
     tts_isnull := (\<lambda>i. if start \<le> i \<and> i < stop then snd (missing_attr env i) else tts_isnull s i)\<rparr>"

definition call_fn :: "deform_env \<Rightarrow> callee \<Rightarrow> mstate \<Rightarrow> mstate option" where
  "call_fn env f m =
     (case f of
        Slot_getmissingattrs \<Rightarrow>
          (case (mreg m R0, mreg m R1, mreg m R2) of
             (Some (Addr SlotB ofs), Some (Num start), Some (Num stop)) \<Rightarrow>
               if ofs = 0 \<and> unat stop \<le> tts_cap (mslot m)
               then Some (clobber (m\<lparr>mslot := fill_missing env (unat start) (unat stop) (mslot m)\<rparr>) None) else None
           | _ \<Rightarrow> None)
      | Varsize_any \<Rightarrow>
          (case mreg m R0 of Some (Addr HdrB ofs) \<Rightarrow>
             map_option (\<lambda>n. clobber m (Some (Num (of_nat n)))) (varsize_any env (drop (unat ofs) (t_bytes (mtuple m))))
           | _ \<Rightarrow> None)
      | Strlen \<Rightarrow>
          (case mreg m R0 of Some (Addr HdrB ofs) \<Rightarrow>
             map_option (\<lambda>n. clobber m (Some (Num (of_nat n)))) (c_strlen (drop (unat ofs) (t_bytes (mtuple m))))
           | _ \<Rightarrow> None))"

text \<open>The entry of a function of one pointer argument, which arrives in \<open>S0\<close>.\<close>

definition enter_frame :: "nat \<Rightarrow> mstate \<Rightarrow> mstate" where
  "enter_frame locals m = m\<lparr>mreg := [S0 \<mapsto> Addr SlotB 0], mframe := (\<lambda>_. None), mframe_size := locals\<rparr>"

definition ins_step :: "deform_env \<Rightarrow> ins \<Rightarrow> mstate \<Rightarrow> mstate option" where
  "ins_step env i m =
     (case i of
        Enter scratches saveds locals \<Rightarrow> if scratches = 4 \<and> saveds = 5 then Some (enter_frame locals m) else None
      | Op1 w dst src \<Rightarrow> Option.bind (read_op m w src) (write_op m w dst)
      | Op2 f dst x y \<Rightarrow> Option.bind (read_op m SLJIT_MOV x) (\<lambda>a. Option.bind (read_op m SLJIT_MOV y)
          (\<lambda>b. Option.bind (alu_op f a b) (write_op m SLJIT_MOV dst)))
      | Icall f \<Rightarrow> call_fn env f m
      | Label l \<Rightarrow> Some m
      | _ \<Rightarrow> None)"

fun after_label :: "lbl \<Rightarrow> ins list \<Rightarrow> ins list option" where
  "after_label l [] = None"
| "after_label l (i # is) = (if i = Label l then Some is else after_label l is)"

lemma after_label_length [termination_simp]: "after_label l is = Some js \<Longrightarrow> length js < length is"
  by (induction "is") (auto split: if_splits)

fun exec :: "deform_env \<Rightarrow> ins list \<Rightarrow> mstate \<Rightarrow> mstate option" where
  "exec env [] m = None"
| "exec env (i # is) m =
     (case i of
        Return_void \<Rightarrow> Some m
      | Jump l \<Rightarrow> (case after_label l is of None \<Rightarrow> None | Some js \<Rightarrow> exec env js m)
      | Cmp c x y l \<Rightarrow>
          (case Option.bind (read_op m SLJIT_MOV x) (\<lambda>a. Option.bind (read_op m SLJIT_MOV y) (cond_holds c a)) of
             None \<Rightarrow> None
           | Some True \<Rightarrow> (case after_label l is of None \<Rightarrow> None | Some js \<Rightarrow> exec env js m)
           | Some False \<Rightarrow> exec env is m)
      | _ \<Rightarrow> (case ins_step env i m of None \<Rightarrow> None | Some m' \<Rightarrow> exec env is m'))"

declare exec.simps [simp del]

section \<open>sljit as a parameter\<close>

text \<open>\<open>sljit_create_ok\<close>: a compiler object can be allocated. \<open>sljit_generate_code\<close>: the native
  function for a program, as its effect on the machine, or \<open>None\<close> for the null pointer.\<close>

record sljit =
  sljit_create_ok :: bool
  sljit_generate_code :: "ins list \<Rightarrow> (mstate \<Rightarrow> mstate option) option"

definition documented_sljit :: "deform_env \<Rightarrow> sljit \<Rightarrow> bool" where
  "documented_sljit env sj \<longleftrightarrow>
     (\<forall>prog code m m'. sljit_generate_code sj prog = Some code \<and> exec env prog m = Some m' \<longrightarrow> code m = Some m')"

end
