(* ===== verification/DeformCode.thy ===== *)
theory DeformCode
  imports Sljit
begin

text \<open>
  The unrolled tuple deform compiler (\<open>pg_jitter_compile_deform\<close> of \<open>pg_jitter_deform_jit.c\<close>): the
  instructions that it emits for a tuple descriptor, and the deforming of a tuple, column by column,
  that the emitted code has to do.
\<close>

section \<open>Descriptors\<close>

text \<open>\<open>attnotnull\<close> is \<open>JITTER_ATT_IS_NOTNULL\<close>, which is false before PostgreSQL 18; \<open>attalignby\<close> is
  \<open>JITTER_ATTALIGNBY\<close>.\<close>

record CompactAttribute =
  attlen :: int
  attbyval :: bool
  attalignby :: nat
  attnotnull :: bool
  atthasmissing :: bool
  attisdropped :: bool

definition jitter_attalign_to_int :: "char \<Rightarrow> nat" where
  "jitter_attalign_to_int align =
     (if align = CHR ''c'' then 1 else if align = CHR ''s'' then 2 else if align = CHR ''i'' then 4
      else if align = CHR ''d'' then 8 else 4)"

definition HEAP_HASNULL :: int where "HEAP_HASNULL = 1"
definition HEAP_NATTS_MASK :: int where "HEAP_NATTS_MASK = 0x07FF"
definition TTS_FLAG_SLOW :: int where "TTS_FLAG_SLOW = 8"

text \<open>The frame of the generated function.\<close>

definition DOFF_DEFORM_OFF :: nat where "DOFF_DEFORM_OFF = 0"
definition DOFF_DEFORM_HASNULLS :: nat where "DOFF_DEFORM_HASNULLS = 8"
definition DOFF_DEFORM_MAXATT :: nat where "DOFF_DEFORM_MAXATT = 16"
definition DOFF_TOTAL :: nat where "DOFF_TOTAL = 24"

lemmas doff_defs = DOFF_DEFORM_OFF_def DOFF_DEFORM_HASNULLS_def DOFF_DEFORM_MAXATT_def DOFF_TOTAL_def

definition TYPEALIGN :: "int \<Rightarrow> int \<Rightarrow> int" where
  "TYPEALIGN alignto n = (n + (alignto - 1)) AND NOT (alignto - 1)"

section \<open>The emitted code\<close>

definition tuple_field :: "slot_ops \<Rightarrow> field" where
  "tuple_field ops = (if is_heap ops then Heap_tuple else Minimal_tuple)"

definition off_field :: "slot_ops \<Rightarrow> field" where
  "off_field ops = (if is_heap ops then Heap_off else Minimal_off)"

definition guaranteed_column :: "CompactAttribute list \<Rightarrow> nat \<Rightarrow> int" where
  "guaranteed_column desc natts =
     fold (\<lambda>attnum g. let att = desc ! attnum in
       if attnotnull att \<and> \<not> atthasmissing att \<and> \<not> attisdropped att then int attnum else g) [0..<natts] (-1)"

definition emit_prologue :: "slot_ops \<Rightarrow> ins list" where
  "emit_prologue ops =
     [Enter 4 5 DOFF_TOTAL,
      Op1 SLJIT_MOV (Reg S1) (Mem1f S0 Tts_values),
      Op1 SLJIT_MOV (Reg S2) (Mem1f S0 Tts_isnull),
      Op1 SLJIT_MOV (Reg R0) (Mem1f S0 (tuple_field ops)),
      Op1 SLJIT_MOV (Reg R1) (Mem1f R0 T_data),
      Op1 SLJIT_MOV_U16 (Reg R2) (Mem1f R1 T_infomask),
      Op2 SLJIT_AND (Reg R2) (Reg R2) (Imm HEAP_HASNULL),
      Op1 SLJIT_MOV (Sp DOFF_DEFORM_HASNULLS) (Reg R2),
      Op1 SLJIT_MOV_U16 (Reg R2) (Mem1f R1 T_infomask2),
      Op2 SLJIT_AND (Reg R2) (Reg R2) (Imm HEAP_NATTS_MASK),
      Op1 SLJIT_MOV (Sp DOFF_DEFORM_MAXATT) (Reg R2),
      Op2 SLJIT_ADD (Reg S4) (Reg R1) Imm_bits,
      Op1 SLJIT_MOV_U8 (Reg R2) (Mem1f R1 T_hoff),
      Op2 SLJIT_ADD (Reg S3) (Reg R1) (Reg R2),
      Op1 SLJIT_MOV_U32 (Reg R0) (Mem1f S0 (off_field ops)),
      Op1 SLJIT_MOV (Sp DOFF_DEFORM_OFF) (Reg R0)]"

definition emit_missing :: "nat \<Rightarrow> int \<Rightarrow> ins list" where
  "emit_missing natts gcol =
     (if int natts - 1 > gcol then
       [Op1 SLJIT_MOV (Reg R0) (Sp DOFF_DEFORM_MAXATT),
        Cmp SLJIT_SIG_GREATER_EQUAL (Reg R0) (Imm (int natts)) L_skip_missing,
        Op1 SLJIT_MOV (Reg R0) (Reg S0),
        Op1 SLJIT_MOV (Reg R1) (Sp DOFF_DEFORM_MAXATT),
        Op1 SLJIT_MOV (Reg R2) (Imm (int natts)),
        Icall Slot_getmissingattrs,
        Label L_skip_missing]
      else [])"

definition emit_nvalid :: "nat \<Rightarrow> ins list" where
  "emit_nvalid natts =
     Op1 SLJIT_MOV_S16 (Reg R0) (Mem1f S0 Tts_nvalid) #
     map (\<lambda>attnum. Cmp SLJIT_EQUAL (Reg R0) (Imm (int attnum)) (L_att attnum)) [0..<natts] @ [Jump L_out]"

text \<open>One column: the start, the null check, the alignment, the value, the next offset.\<close>

definition emit_start :: "nat \<Rightarrow> int \<Rightarrow> ins list" where
  "emit_start attnum gcol =
     (if attnum = 0 then [Op1 SLJIT_MOV (Sp DOFF_DEFORM_OFF) (Imm 0)] else [])
     @ (if int attnum > gcol then
          [Op1 SLJIT_MOV (Reg R0) (Sp DOFF_DEFORM_MAXATT),
           Cmp SLJIT_SIG_GREATER_EQUAL (Imm (int attnum)) (Reg R0) L_out]
        else [])"

definition emit_null :: "CompactAttribute \<Rightarrow> nat \<Rightarrow> lbl \<Rightarrow> ins list" where
  "emit_null att attnum next_lbl =
     (if attnotnull att then [] else
       [Op1 SLJIT_MOV (Reg R0) (Sp DOFF_DEFORM_HASNULLS),
        Cmp SLJIT_EQUAL (Reg R0) (Imm 0) (L_notnull attnum),
        Op1 SLJIT_MOV_U8 (Reg R0) (Mem1 S4 (int (attnum div 8))),
        Op2 SLJIT_AND (Reg R0) (Reg R0) (Imm (2 ^ (attnum mod 8))),
        Cmp SLJIT_NOT_EQUAL (Reg R0) (Imm 0) (L_notnull attnum),
        Op1 SLJIT_MOV (Mem1 S1 (int attnum * 8)) (Imm 0),
        Op1 SLJIT_MOV_U8 (Mem1 S2 (int attnum)) (Imm 1),
        Jump next_lbl,
        Label (L_notnull attnum)])"

definition needs_align :: "CompactAttribute \<Rightarrow> int \<Rightarrow> bool" where
  "needs_align att known_alignment \<longleftrightarrow> attalignby att > 1 \<and>
     (known_alignment < 0 \<or> known_alignment \<noteq> TYPEALIGN (int (attalignby att)) known_alignment)"

definition round_up_off :: "nat \<Rightarrow> ins list" where
  "round_up_off alignto =
     [Op2 SLJIT_ADD (Reg R0) (Reg R0) (Imm (int alignto - 1)),
      Op2 SLJIT_AND (Reg R0) (Reg R0) (Imm (NOT (int alignto - 1))),
      Op1 SLJIT_MOV (Sp DOFF_DEFORM_OFF) (Reg R0)]"

definition emit_align :: "CompactAttribute \<Rightarrow> nat \<Rightarrow> int \<Rightarrow> ins list" where
  "emit_align att attnum known_alignment =
     (if \<not> needs_align att known_alignment then []
      else if attlen att = -1 then
        [Op1 SLJIT_MOV (Reg R0) (Sp DOFF_DEFORM_OFF),
         Op1 SLJIT_MOV_U8 (Reg R1) (Mem2 S3 R0),
         Cmp SLJIT_NOT_EQUAL (Reg R1) (Imm 0) (L_aligned attnum)]
        @ round_up_off (attalignby att) @ [Label (L_aligned attnum)]
      else Op1 SLJIT_MOV (Reg R0) (Sp DOFF_DEFORM_OFF) # round_up_off (attalignby att))"

text \<open>What the compiler knows of the offset after the null check and the alignment: the alignment
  (or minus one) and whether it is the offset itself.\<close>

definition track_align :: "CompactAttribute \<Rightarrow> int \<times> bool \<Rightarrow> int \<times> bool" where
  "track_align att kg =
     (case kg of (known_alignment, attguaranteedalign) \<Rightarrow>
       let attguaranteedalign = attguaranteedalign \<and> attnotnull att
       in if needs_align att known_alignment
          then ((if known_alignment \<ge> 0 then TYPEALIGN (int (attalignby att)) known_alignment else known_alignment),
                (if attlen att = -1 then False else attguaranteedalign))
          else (known_alignment, attguaranteedalign))"

definition value_mov :: "CompactAttribute \<Rightarrow> mov option" where
  "value_mov att = (if attlen att = 1 then Some SLJIT_MOV_S8 else if attlen att = 2 then Some SLJIT_MOV_S16
     else if attlen att = 4 then Some SLJIT_MOV_S32 else if attlen att = 8 then Some SLJIT_MOV else None)"

definition emit_value :: "CompactAttribute \<Rightarrow> nat \<Rightarrow> int \<times> bool \<Rightarrow> ins list option" where
  "emit_value att attnum kg =
     (let pre = (if snd kg then [Op1 SLJIT_MOV (Sp DOFF_DEFORM_OFF) (Imm (fst kg))] else [])
        @ [Op1 SLJIT_MOV (Reg R0) (Sp DOFF_DEFORM_OFF),
           Op2 SLJIT_ADD (Reg R1) (Reg S3) (Reg R0),
           Op1 SLJIT_MOV_U8 (Mem1 S2 (int attnum)) (Imm 0)]
      in if attbyval att
         then map_option (\<lambda>mov_op. pre @ [Op1 mov_op (Reg R3) (Mem1 R1 0),
           Op1 SLJIT_MOV (Mem1 S1 (int attnum * 8)) (Reg R3)]) (value_mov att)
         else Some (pre @ [Op1 SLJIT_MOV (Mem1 S1 (int attnum * 8)) (Reg R1)]))"

definition track_next :: "CompactAttribute \<Rightarrow> int \<times> bool \<Rightarrow> int \<times> bool" where
  "track_next att kg =
     (case kg of (known_alignment, attguaranteedalign) \<Rightarrow>
       if attlen att < 0 then (-1, False)
       else if attnotnull att \<and> attguaranteedalign \<and> known_alignment \<ge> 0 then (known_alignment + attlen att, attguaranteedalign)
       else if attnotnull att \<and> attlen att mod int (attalignby att) = 0 then (int (attalignby att), False)
       else (-1, False))"

definition emit_advance :: "CompactAttribute \<Rightarrow> int \<times> bool \<Rightarrow> ins list" where
  "emit_advance att kg =
     (if attlen att > 0 then
        (if snd kg then [Op1 SLJIT_MOV (Sp DOFF_DEFORM_OFF) (Imm (fst kg))]
         else [Op1 SLJIT_MOV (Reg R0) (Sp DOFF_DEFORM_OFF),
               Op2 SLJIT_ADD (Reg R0) (Reg R0) (Imm (attlen att)),
               Op1 SLJIT_MOV (Sp DOFF_DEFORM_OFF) (Reg R0)])
      else if attlen att = -1 then
        [Op1 SLJIT_MOV (Reg R0) (Reg R1),
         Icall Varsize_any,
         Op1 SLJIT_MOV (Reg R1) (Sp DOFF_DEFORM_OFF),
         Op2 SLJIT_ADD (Reg R1) (Reg R1) (Reg R0),
         Op1 SLJIT_MOV (Sp DOFF_DEFORM_OFF) (Reg R1)]
      else if attlen att = -2 then
        [Op1 SLJIT_MOV (Reg R0) (Reg R1),
         Icall Strlen,
         Op2 SLJIT_ADD (Reg R0) (Reg R0) (Imm 1),
         Op1 SLJIT_MOV (Reg R1) (Sp DOFF_DEFORM_OFF),
         Op2 SLJIT_ADD (Reg R1) (Reg R1) (Reg R0),
         Op1 SLJIT_MOV (Sp DOFF_DEFORM_OFF) (Reg R1)]
      else [])"

definition emit_column :: "CompactAttribute \<Rightarrow> nat \<Rightarrow> int \<Rightarrow> lbl \<Rightarrow> int \<times> bool \<Rightarrow> (ins list \<times> int \<times> bool) option" where
  "emit_column att attnum gcol next_lbl kg =
     (let kg1 = track_align att kg; kg2 = track_next att kg1
      in map_option (\<lambda>value_code.
           (Label (L_att attnum) # emit_start attnum gcol @ emit_null att attnum next_lbl
              @ emit_align att attnum (fst kg) @ value_code @ emit_advance att kg2, kg2))
         (emit_value att attnum kg1))"

fun emit_columns :: "CompactAttribute list \<Rightarrow> nat \<Rightarrow> int \<Rightarrow> int \<times> bool \<Rightarrow> ins list option" where
  "emit_columns [] attnum gcol kg = Some []"
| "emit_columns (att # atts) attnum gcol kg =
     (case emit_column att attnum gcol (if atts = [] then L_out else L_att (attnum + 1)) kg of
        None \<Rightarrow> None
      | Some (code, kg') \<Rightarrow> map_option (\<lambda>rest. code @ rest) (emit_columns atts (attnum + 1) gcol kg'))"

definition emit_epilogue :: "slot_ops \<Rightarrow> nat \<Rightarrow> ins list" where
  "emit_epilogue ops natts =
     [Label L_out,
      Op1 SLJIT_MOV_S16 (Mem1f S0 Tts_nvalid) (Imm (int natts)),
      Op1 SLJIT_MOV (Reg R1) (Sp DOFF_DEFORM_OFF),
      Op1 SLJIT_MOV_U32 (Mem1f S0 (off_field ops)) (Reg R1),
      Op1 SLJIT_MOV_U16 (Reg R1) (Mem1f S0 Tts_flags),
      Op2 SLJIT_OR (Reg R1) (Reg R1) (Imm TTS_FLAG_SLOW),
      Op1 SLJIT_MOV_U16 (Mem1f S0 Tts_flags) (Reg R1),
      Return_void]"

definition deform_program :: "CompactAttribute list \<Rightarrow> slot_ops \<Rightarrow> nat \<Rightarrow> ins list option" where
  "deform_program desc ops natts =
     (let gcol = guaranteed_column desc natts
      in map_option (\<lambda>cols. emit_prologue ops @ emit_missing natts gcol @ emit_nvalid natts @ cols @ emit_epilogue ops natts)
           (emit_columns (take natts desc) 0 gcol (0, True)))"

definition pg_jitter_compile_deform ::
  "sljit \<Rightarrow> CompactAttribute list \<Rightarrow> slot_ops \<Rightarrow> int \<Rightarrow> (mstate \<Rightarrow> mstate option) option" where
  "pg_jitter_compile_deform sj desc ops natts =
     (if ops = TTSOpsVirtual then None
      else if ops \<noteq> TTSOpsHeapTuple \<and> ops \<noteq> TTSOpsBufferHeapTuple \<and> ops \<noteq> TTSOpsMinimalTuple then None
      else if natts \<le> 0 \<or> natts > int (length desc) then None
      else if \<not> sljit_create_ok sj then None
      else Option.bind (deform_program desc ops (nat natts)) (sljit_generate_code sj))"

section \<open>Deforming a tuple\<close>

text \<open>The number of attributes that the tuple stores, its null bitmap and its data.\<close>

definition tuple_natts :: "heap_tuple \<Rightarrow> nat" where
  "tuple_natts tup = unat (t_infomask2 tup) mod 2048"

definition tuple_hasnulls :: "heap_tuple \<Rightarrow> bool" where
  "tuple_hasnulls tup \<longleftrightarrow> odd (unat (t_infomask tup))"

definition att_isnull :: "heap_tuple \<Rightarrow> nat \<Rightarrow> bool" where
  "att_isnull tup attnum \<longleftrightarrow> tuple_hasnulls tup \<and> \<not> bit (t_bytes tup ! (bits_off tup + attnum div 8)) (attnum mod 8)"

definition tuple_data :: "heap_tuple \<Rightarrow> uint8 list" where
  "tuple_data tup = drop (unat (t_hoff tup)) (t_bytes tup)"

definition align_to :: "nat \<Rightarrow> nat \<Rightarrow> nat" where
  "align_to a n = (n + a - 1) div a * a"

text \<open>A varlena that does not start with a zero byte is short and not aligned.\<close>

definition att_start :: "heap_tuple \<Rightarrow> CompactAttribute \<Rightarrow> nat \<Rightarrow> nat option" where
  "att_start tup att off =
     (if attlen att = -1
      then (if off < length (tuple_data tup)
            then Some (if tuple_data tup ! off \<noteq> 0 then off else align_to (attalignby att) off) else None)
      else Some (align_to (attalignby att) off))"

definition att_size :: "deform_env \<Rightarrow> heap_tuple \<Rightarrow> CompactAttribute \<Rightarrow> nat \<Rightarrow> nat option" where
  "att_size env tup att off =
     (if attlen att > 0 then Some (nat (attlen att))
      else if attlen att = -1 then varsize_any env (drop off (tuple_data tup))
      else if attlen att = -2 then map_option Suc (c_strlen (drop off (tuple_data tup)))
      else None)"

definition att_value :: "heap_tuple \<Rightarrow> CompactAttribute \<Rightarrow> nat \<Rightarrow> mval" where
  "att_value tup att off =
     (if attbyval att
      then (let bs = drop off (tuple_data tup) in Num
             (if attlen att = 1 then scast (le_word (take 1 bs) :: uint8)
              else if attlen att = 2 then scast (le_word (take 2 bs) :: uint16)
              else if attlen att = 4 then scast (le_word (take 4 bs) :: uint32)
              else le_word (take 8 bs)))
      else Addr HdrB (of_nat (unat (t_hoff tup) + off)))"

text \<open>One column: its value and null flag, and the offset after it; \<open>None\<close> when the data ends before it.\<close>

definition deform_column :: "deform_env \<Rightarrow> heap_tuple \<Rightarrow> CompactAttribute \<Rightarrow> nat \<Rightarrow> nat \<Rightarrow> (mval \<times> uint8 \<times> nat) option" where
  "deform_column env tup att attnum off =
     (if att_isnull tup attnum then Some (Num 0, 1, off)
      else Option.bind (att_start tup att off) (\<lambda>start. Option.bind (att_size env tup att start)
        (\<lambda>sz. if start + sz \<le> length (tuple_data tup) then Some (att_value tup att start, 0, start + sz) else None)))"

definition put_column :: "nat \<Rightarrow> mval \<Rightarrow> uint8 \<Rightarrow> tuple_slot \<Rightarrow> tuple_slot" where
  "put_column attnum v isnull s =
     s\<lparr>tts_values := (tts_values s)(attnum := v), tts_isnull := (tts_isnull s)(attnum := isnull)\<rparr>"

text \<open>The columns from \<open>attnum\<close> up to \<open>limit\<close>.\<close>

function deform_columns :: "deform_env \<Rightarrow> heap_tuple \<Rightarrow> CompactAttribute list \<Rightarrow> nat \<Rightarrow> nat \<Rightarrow> tuple_slot \<Rightarrow> nat \<Rightarrow>
    (tuple_slot \<times> nat) option" where
  "deform_columns env tup desc attnum limit s off =
     (if attnum < limit
      then (case deform_column env tup (desc ! attnum) attnum off of None \<Rightarrow> None
            | Some (v, isnull, off') \<Rightarrow> deform_columns env tup desc (attnum + 1) limit (put_column attnum v isnull s) off')
      else Some (s, off))"
  by pat_completeness auto
termination by (relation "measure (\<lambda>(env, tup, desc, attnum, limit, s, off). limit - attnum)") auto

declare deform_columns.simps [simp del]

definition finish_slot :: "nat \<Rightarrow> nat \<Rightarrow> tuple_slot \<Rightarrow> tuple_slot" where
  "finish_slot natts off s = s\<lparr>tts_nvalid := of_nat natts, tts_off := of_nat off,
     tts_flags := tts_flags s OR word_of_int TTS_FLAG_SLOW\<rparr>"

definition deform_tuple :: "deform_env \<Rightarrow> heap_tuple \<Rightarrow> CompactAttribute list \<Rightarrow> nat \<Rightarrow> tuple_slot \<Rightarrow> tuple_slot option" where
  "deform_tuple env tup desc natts s =
     (let maxatt = tuple_natts tup;
          s1 = (if maxatt < natts then fill_missing env maxatt natts s else s);
          start = unat (tts_nvalid s)
      in map_option (\<lambda>(s2, off). finish_slot natts off s2)
           (deform_columns env tup desc start (min natts maxatt) s1 (if start = 0 then 0 else unat (tts_off s))))"

end
