(* ===== verification/DeformCorrect.thy ===== *)
theory DeformCorrect
  imports DeformCode
begin

text \<open>
  The code that the unrolled deform compiler emits, run on a tuple, leaves in the slot what deforming
  the tuple column by column leaves there: the static tracking of alignments, the omitted null and
  availability checks and the entry in the middle of a partly deformed tuple included.
\<close>

section \<open>Words and alignment\<close>

lemma sint_small: "0 \<le> i \<Longrightarrow> i < 2 ^ 63 \<Longrightarrow> sint (word_of_int i :: uint64) = i"
  by (simp add: signed_take_bit_int_eq_self signed_of_int)

lemma sint_of_nat_small: "n < 2 ^ 63 \<Longrightarrow> sint (of_nat n :: uint64) = int n"
  using sint_small[of "int n"] by simp

lemma unat_small: "n < 2 ^ 64 \<Longrightarrow> unat (of_nat n :: uint64) = n"
  by (simp add: unat_of_nat take_bit_nat_eq_self)

lemma and_not_mask: "x AND NOT (mask k) = (x div 2 ^ k * 2 ^ k :: int)"
proof -
  have "x AND NOT (mask k) = push_bit k (drop_bit k x)"
    by (rule bit_eqI) (auto simp: bit_simps)
  then show ?thesis by (simp add: push_bit_eq_mult drop_bit_eq_div)
qed

lemma align_cases: "a \<in> {1, 2, 4, 8 :: nat} \<Longrightarrow> \<exists>k. int a - 1 = mask k \<and> a = 2 ^ k"
proof -
  assume "a \<in> {1, 2, 4, 8}"
  then consider "a = 1" | "a = 2" | "a = 4" | "a = 8" by auto
  then show ?thesis
  proof cases
    case 1 then show ?thesis by (intro exI[of _ 0]) simp
  next
    case 2 then show ?thesis by (intro exI[of _ 1]) (simp add: mask_eq_exp_minus_1)
  next
    case 3 then show ?thesis by (intro exI[of _ 2]) (simp add: mask_eq_exp_minus_1)
  next
    case 4 then show ?thesis by (intro exI[of _ 3]) (simp add: mask_eq_exp_minus_1)
  qed
qed

lemma TYPEALIGN_int: "a \<in> {1, 2, 4, 8} \<Longrightarrow> TYPEALIGN (int a) (int n) = int (align_to a n)"
proof -
  assume a: "a \<in> {1, 2, 4, 8}"
  then obtain k where k: "int a - 1 = mask k" "a = 2 ^ k" using align_cases by blast
  have "a > 0" using a by auto
  then have "int n + (int a - 1) = int (n + a - 1)" by simp
  then show ?thesis
    using k by (simp add: TYPEALIGN_def and_not_mask align_to_def zdiv_int)
qed

lemma align_to_ge: "a \<in> {1, 2, 4, 8} \<Longrightarrow> n \<le> align_to a n \<and> align_to a n < n + 8 \<and> a dvd align_to a n"
proof -
  assume "a \<in> {1, 2, 4, 8}"
  then consider "a = 1" | "a = 2" | "a = 4" | "a = 8" by auto
  then have "n \<le> align_to a n \<and> align_to a n < n + 8" by cases (auto simp: align_to_def)
  then show ?thesis by (simp add: align_to_def)
qed

lemma align_to_self: "a \<in> {1, 2, 4, 8} \<Longrightarrow> a dvd n \<Longrightarrow> align_to a n = n"
  by (auto simp: align_to_def)

lemma round_up_word:
  assumes "a \<in> {1, 2, 4, 8}"
  shows "(of_nat n + word_of_int (int a - 1)) AND word_of_int (NOT (int a - 1)) = (of_nat (align_to a n) :: uint64)"
proof -
  have "word_of_int (TYPEALIGN (int a) (int n)) = ((of_nat n + word_of_int (int a - 1)) AND word_of_int (NOT (int a - 1)) :: uint64)"
    by (simp add: TYPEALIGN_def of_int_and_eq)
  then show ?thesis by (simp add: TYPEALIGN_int[OF assms])
qed

section \<open>What the compiler knows of the offset\<close>

definition kg_inv :: "int \<times> bool \<Rightarrow> nat \<Rightarrow> bool" where
  "kg_inv kg off \<longleftrightarrow> (fst kg < 0 \<or> int off = fst kg \<or> fst kg \<in> {1, 2, 4, 8} \<and> fst kg dvd int off) \<and>
     (snd kg \<longrightarrow> int off = fst kg)"

definition att_ok :: "CompactAttribute \<Rightarrow> bool" where
  "att_ok att \<longleftrightarrow> attalignby att \<in> {1, 2, 4, 8} \<and> (attlen att = -1 \<or> attlen att = -2 \<or> 0 < attlen att \<and> attlen att < 2 ^ 15)"

lemma no_align_needed:
  assumes "att_ok att" "kg_inv kg off" "\<not> needs_align att (fst kg)"
  shows "align_to (attalignby att) off = off"
proof (cases "attalignby att = 1")
  case True
  then show ?thesis by (simp add: align_to_def)
next
  case False
  have a: "attalignby att \<in> {1, 2, 4, 8}" using assms(1) by (simp add: att_ok_def)
  then have k: "fst kg \<ge> 0" "fst kg = TYPEALIGN (int (attalignby att)) (fst kg)"
    using assms(3) False by (auto simp: needs_align_def)
  then have "fst kg = int (align_to (attalignby att) (nat (fst kg)))"
    using TYPEALIGN_int[OF a, of "nat (fst kg)"] by simp
  then have "int (attalignby att) dvd fst kg" using align_to_ge[OF a] by (metis int_dvd_int_iff)
  moreover have "fst kg dvd int off" using assms(2) k(1) by (auto simp: kg_inv_def)
  ultimately have "attalignby att dvd off" by (meson dvd_trans int_dvd_int_iff)
  then show ?thesis by (rule align_to_self[OF a])
qed

lemma track_align_fixed:
  assumes "att_ok att" "kg_inv kg off" "attlen att \<noteq> -1"
  shows "kg_inv (track_align att kg) (align_to (attalignby att) off)"
proof (cases "needs_align att (fst kg)")
  case False
  then show ?thesis
    using no_align_needed[OF assms(1,2) False] assms(2) by (auto simp: track_align_def kg_inv_def split: prod.splits)
next
  case True
  have a: "attalignby att \<in> {1, 2, 4, 8}" using assms(1) by (simp add: att_ok_def)
  show ?thesis
  proof (cases "fst kg < 0")
    case True
    then show ?thesis using \<open>needs_align att (fst kg)\<close> assms(2)
      by (auto simp: track_align_def kg_inv_def split: prod.splits)
  next
    case nonneg: False
    have al: "TYPEALIGN (int (attalignby att)) (fst kg) = int (align_to (attalignby att) (nat (fst kg)))"
      using TYPEALIGN_int[OF a, of "nat (fst kg)"] nonneg by simp
    consider "int off = fst kg" | "fst kg \<in> {1, 2, 4, 8}" "int off \<noteq> fst kg" using assms(2) nonneg by (auto simp: kg_inv_def)
    then show ?thesis
    proof cases
      case 1
      then have "nat (fst kg) = off" by simp
      then show ?thesis using True nonneg al by (auto simp: track_align_def kg_inv_def split: prod.splits)
    next
      case 2
      then have "\<not> snd kg" using assms(2) by (auto simp: kg_inv_def)
      have "attalignby att > nat (fst kg)"
      proof (rule ccontr)
        assume "\<not> attalignby att > nat (fst kg)"
        then have "attalignby att dvd nat (fst kg)" using a 2(1) by auto
        then show False using True nonneg al align_to_self[OF a] by (auto simp: needs_align_def)
      qed
      then have "align_to (attalignby att) (nat (fst kg)) = attalignby att"
        using a 2(1) by (auto simp: align_to_def)
      then show ?thesis using True nonneg al \<open>\<not> snd kg\<close> align_to_ge[OF a, of off] a
        by (auto simp: track_align_def kg_inv_def split: prod.splits)
    qed
  qed
qed

lemma track_align_var:
  assumes "att_ok att" "kg_inv kg off" "attlen att = -1" "snd (track_align att kg)"
  shows "\<not> needs_align att (fst kg) \<and> kg_inv (track_align att kg) off"
  using assms(2-4) by (cases "needs_align att (fst kg)"; cases kg) (auto simp: track_align_def kg_inv_def)

lemma track_next_null: "\<not> attnotnull att \<Longrightarrow> kg_inv (track_next att kg) off"
  by (cases kg) (simp add: track_next_def kg_inv_def)

lemma track_next_var: "attlen att < 0 \<Longrightarrow> kg_inv (track_next att kg) off"
  by (cases kg) (simp add: track_next_def kg_inv_def)

lemma track_next_fixed:
  assumes "att_ok att" "attlen att > 0" "kg_inv kg start" "attalignby att dvd start"
  shows "kg_inv (track_next att kg) (start + nat (attlen att))"
proof -
  have a: "attalignby att \<in> {1, 2, 4, 8}" using assms(1) by (simp add: att_ok_def)
  have "int (attalignby att) dvd int start + attlen att" if "attlen att mod int (attalignby att) = 0"
    using that assms(4) by (auto intro!: dvd_add)
  then show ?thesis
    using assms(2,3) a by (cases kg) (auto simp: track_next_def kg_inv_def)
qed

text \<open>What holds of the offset is kept by every column.\<close>

definition kg_next :: "CompactAttribute \<Rightarrow> int \<times> bool \<Rightarrow> int \<times> bool" where
  "kg_next att kg = track_next att (track_align att kg)"

definition notnull_ok :: "heap_tuple \<Rightarrow> CompactAttribute \<Rightarrow> nat \<Rightarrow> bool" where
  "notnull_ok tup att attnum \<longleftrightarrow> (attnotnull att \<longrightarrow> \<not> att_isnull tup attnum)"

lemma kg_inv_column:
  assumes "att_ok att" "kg_inv kg off" "notnull_ok tup att attnum"
    and "deform_column env tup att attnum off = Some (v, isnull, off')"
  shows "kg_inv (kg_next att kg) off'"
proof (cases "att_isnull tup attnum")
  case True
  then have "\<not> attnotnull att" using assms(3) by (simp add: notnull_ok_def)
  then show ?thesis unfolding kg_next_def by (rule track_next_null)
next
  case False
  then obtain start sz where st: "att_start tup att off = Some start" "att_size env tup att start = Some sz" "off' = start + sz"
    using assms(4) by (auto simp: deform_column_def bind_eq_Some_conv split: if_splits)
  show ?thesis
  proof (cases "attlen att < 0")
    case True
    then show ?thesis unfolding kg_next_def by (rule track_next_var)
  next
    case False
    have len: "attlen att > 0" using False assms(1) by (auto simp: att_ok_def)
    then have s: "start = align_to (attalignby att) off" "sz = nat (attlen att)"
      using st by (auto simp: att_start_def att_size_def)
    have "attalignby att dvd start" using s align_to_ge assms(1) by (auto simp: att_ok_def)
    moreover have "kg_inv (track_align att kg) start" using track_align_fixed[OF assms(1,2)] len s by simp
    ultimately show ?thesis using track_next_fixed[OF assms(1) len] by (simp add: kg_next_def st(3) s(2))
  qed
qed

end
