(* ===== verification/DeformExec.thy ===== *)
theory DeformExec
  imports DeformCorrect
begin

text \<open>
  Running the emitted code of one column, then of all columns, then of the whole function.
\<close>

section \<open>The configuration between two columns\<close>

text \<open>The registers that keep their value, the frame, the slot \<open>s\<close> and the offset \<open>off\<close>.\<close>

definition hasnulls_word :: "heap_tuple \<Rightarrow> uint64" where
  "hasnulls_word tup = of_bool (tuple_hasnulls tup)"

definition cfg :: "heap_tuple \<Rightarrow> mstate \<Rightarrow> tuple_slot \<Rightarrow> nat \<Rightarrow> bool" where
  "cfg tup m s off \<longleftrightarrow> mslot m = s \<and> mtuple m = tup \<and> mframe_size m = 24 \<and>
     mreg m S0 = Some (Addr SlotB 0) \<and> mreg m S1 = Some (Addr ValuesB 0) \<and> mreg m S2 = Some (Addr IsnullB 0) \<and>
     mreg m S3 = Some (Addr HdrB (ucast (t_hoff tup))) \<and> mreg m S4 = Some (Addr HdrB (of_nat (bits_off tup))) \<and>
     mframe m 0 = Some (Num (of_nat off)) \<and> mframe m 8 = Some (Num (hasnulls_word tup)) \<and>
     mframe m 16 = Some (Num (of_nat (tuple_natts tup)))"

lemmas exec_defs = exec.simps ins_step_def read_op_def write_op_def frame_slot_def add_mval_def alu_op_def
  cond_holds_def load_addr_def store_addr_def load_field_def store_field_def call_fn_def clobber_def

text \<open>Numbers that fit their registers.\<close>

definition tuple_fits :: "heap_tuple \<Rightarrow> bool" where
  "tuple_fits tup \<longleftrightarrow> length (t_bytes tup) < 2 ^ 31 \<and> unat (t_hoff tup) \<le> length (t_bytes tup) \<and>
     (tuple_hasnulls tup \<longrightarrow> bits_off tup + (tuple_natts tup + 7) div 8 \<le> length (t_bytes tup))"

lemma run_to: "P m \<Longrightarrow> \<exists>m'. exec env is m = exec env is m' \<and> P m'"
  by blast

lemma tuple_natts_less: "tuple_natts tup < 2048"
  by (simp add: tuple_natts_def)

lemma index_word: "a < 2 ^ 15 \<Longrightarrow> unat (word_of_int (int a) :: uint64) = a" "a < 2 ^ 15 \<Longrightarrow> unat (word_of_int (int a * 8) :: uint64) = a * 8"
  using unat_small[of a] unat_small[of "a * 8"] by simp_all

text \<open>Reading one byte of the tuple, and one bit of it.\<close>

lemma le_word_byte: "le_word [b] = (b :: uint8)"
  by simp

lemma load_byte:
  assumes "i < length bs"
  shows "load_bytes bs SLJIT_MOV_U8 i = Some (ucast (bs ! i))"
  using assms by (simp add: load_bytes_def bytes_at_def take_Suc_conv_app_nth hd_drop_conv_nth take_Suc)

lemma bit_test:
  assumes "k < 8"
  shows "(ucast (b :: uint8) AND word_of_int (2 ^ k) = (0 :: uint64)) \<longleftrightarrow> \<not> bit b k"
proof -
  have "word_of_int (2 ^ k) = (push_bit k 1 :: uint64)" by (simp add: push_bit_eq_mult)
  then have "ucast b AND word_of_int (2 ^ k) = (if bit b k then push_bit k 1 else (0 :: uint64))"
    using assms by (auto intro!: bit_eqI simp: bit_simps)
  moreover have "push_bit k 1 \<noteq> (0 :: uint64)"
    using assms by (auto simp: bit_eq_iff[of "push_bit k 1" "0 :: uint64"] bit_simps)
  ultimately show ?thesis by simp
qed

lemma bits_index:
  assumes "tuple_fits tup" "tuple_hasnulls tup" "a < tuple_natts tup"
  shows "bits_off tup + a div 8 < length (t_bytes tup)"
    and "unat (of_nat (bits_off tup) + of_nat (a div 8) :: uint64) = bits_off tup + a div 8"
proof -
  have "a div 8 < (tuple_natts tup + 7) div 8" using assms(3) by linarith
  then show "bits_off tup + a div 8 < length (t_bytes tup)" using assms(1,2) by (simp add: tuple_fits_def)
  then have "bits_off tup + a div 8 < 2 ^ 64" using assms(1) by (simp add: tuple_fits_def)
  then show "unat (of_nat (bits_off tup) + of_nat (a div 8) :: uint64) = bits_off tup + a div 8"
    using unat_small[of "bits_off tup + a div 8"] by simp
qed

lemma null_byte:
  assumes "tuple_fits tup" "tuple_hasnulls tup" "a < tuple_natts tup"
  shows "load_bytes (t_bytes tup) SLJIT_MOV_U8 (unat (of_nat (bits_off tup) + word_of_int (int (a div 8)) :: uint64)) =
    Some (ucast (t_bytes tup ! (bits_off tup + a div 8)))"
  using load_byte[OF bits_index(1)[OF assms]] bits_index(2)[OF assms] by simp

section \<open>The pieces of a column\<close>

lemma exec_label [simp]: "exec env (Label l # is) m = exec env is m"
  by (simp add: exec_defs)

lemma exec_jump: "after_label l is = Some js \<Longrightarrow> exec env (Jump l # is) m = exec env js m"
  by (simp add: exec.simps)

lemma exec_cmp:
  assumes "read_op m SLJIT_MOV x = Some (Num v)" "read_op m SLJIT_MOV y = Some (Num w)" "cond_holds c (Num v) (Num w) = Some b"
  shows "exec env (Cmp c x y l # is) m =
    (if b then (case after_label l is of None \<Rightarrow> None | Some js \<Rightarrow> exec env js m) else exec env is m)"
  using assms by (simp add: exec.simps)

lemma exec_straight:
  "ins_step env i m = Some m' \<Longrightarrow> i \<notin> range Jump \<Longrightarrow> i \<noteq> Return_void \<Longrightarrow> exec env (i # is) m = exec env is m'"
  by (cases i) (auto simp: exec.simps ins_step_def)

lemma exec_null_present:
  assumes "cfg tup m s off" "tuple_fits tup" "a < tuple_natts tup" "attnotnull att \<or> \<not> att_isnull tup a"
  shows "\<exists>m'. exec env (emit_null att a nl @ rest) m = exec env rest m' \<and> cfg tup m' s off"
proof (cases "attnotnull att")
  case True
  then show ?thesis using assms(1) by (auto simp: emit_null_def)
next
  case notnull: False
  show ?thesis
  proof (cases "tuple_hasnulls tup")
    case False
    then show ?thesis using assms(1) notnull unfolding cfg_def
      by (simp add: emit_null_def hasnulls_word_def exec_defs doff_defs) (rule run_to, simp)
  next
    case True
    then have "bit (t_bytes tup ! (bits_off tup + a div 8)) (a mod 8)"
      using assms(4) notnull by (simp add: att_isnull_def)
    then have "ucast (t_bytes tup ! (bits_off tup + a div 8)) AND word_of_int (2 ^ (a mod 8)) \<noteq> (0 :: uint64)"
      using bit_test[of "a mod 8"] by simp
    then show ?thesis using assms(1) notnull True null_byte[OF assms(2) True assms(3)] unfolding cfg_def
      by (simp add: emit_null_def hasnulls_word_def exec_defs doff_defs) (rule run_to, simp)
  qed
qed

lemma exec_null_null:
  assumes "cfg tup m s off" "tuple_fits tup" "a < tuple_natts tup" "att_isnull tup a" "\<not> attnotnull att"
    and "a < 2 ^ 15" "a < tts_cap s" "after_label nl rest = Some rest'" "nl \<noteq> L_notnull a"
  shows "\<exists>m'. exec env (emit_null att a nl @ rest) m = exec env rest' m' \<and> cfg tup m' (put_column a (Num 0) 1 s) off"
proof -
  have hn: "tuple_hasnulls tup" and "\<not> bit (t_bytes tup ! (bits_off tup + a div 8)) (a mod 8)"
    using assms(4) by (simp_all add: att_isnull_def)
  then have "ucast (t_bytes tup ! (bits_off tup + a div 8)) AND word_of_int (2 ^ (a mod 8)) = (0 :: uint64)"
    using bit_test[of "a mod 8"] by simp
  then show ?thesis using assms hn null_byte[OF assms(2) hn assms(3)] index_word[OF assms(6)] unfolding cfg_def
    by (simp add: emit_null_def hasnulls_word_def exec_defs doff_defs) (rule run_to, simp add: put_column_def)
qed

lemma off_index:
  assumes "tuple_fits tup" "off \<le> length (tuple_data tup)"
  shows "unat (of_nat (unat (t_hoff tup)) + of_nat off :: uint64) = unat (t_hoff tup) + off"
    and "unat (of_nat (unat (t_hoff tup) + off) :: uint64) = unat (t_hoff tup) + off"
    and "unat (t_hoff tup) + off \<le> length (t_bytes tup)"
proof -
  show le: "unat (t_hoff tup) + off \<le> length (t_bytes tup)" using assms by (auto simp: tuple_data_def tuple_fits_def)
  then have "unat (t_hoff tup) + off < 2 ^ 64" using assms(1) by (simp add: tuple_fits_def)
  then show "unat (of_nat (unat (t_hoff tup) + off) :: uint64) = unat (t_hoff tup) + off" by (rule unat_small)
  then show "unat (of_nat (unat (t_hoff tup)) + of_nat off :: uint64) = unat (t_hoff tup) + off" by (simp add: add.commute)
qed

lemma first_byte:
  assumes "tuple_fits tup" "off < length (tuple_data tup)"
  shows "load_bytes (t_bytes tup) SLJIT_MOV_U8 (unat (of_nat (unat (t_hoff tup)) + of_nat off :: uint64)) =
    Some (ucast (tuple_data tup ! off))"
proof -
  have "unat (t_hoff tup) + off < length (t_bytes tup)" using assms by (simp add: tuple_data_def tuple_fits_def)
  from load_byte[OF this] show ?thesis
    using off_index(1)[of tup off] assms by (simp add: tuple_data_def)
qed

lemma ucast_eq_0: "(ucast (b :: uint8) :: uint64) = 0 \<longleftrightarrow> b = 0"
  by transfer simp

lemma exec_align:
  assumes "cfg tup m s off" "tuple_fits tup" "att_ok att" "kg_inv kg off" "att_start tup att off = Some start"
  shows "\<exists>m'. exec env (emit_align att a (fst kg) @ rest) m = exec env rest m' \<and> cfg tup m' s start"
proof (cases "needs_align att (fst kg)")
  case False
  then have "start = off"
    using assms(5) no_align_needed[OF assms(3,4) False] by (auto simp: att_start_def split: if_splits)
  then show ?thesis using False assms(1) by (auto simp: emit_align_def)
next
  case True
  have al: "attalignby att \<in> {1, 2, 4, 8}" using assms(3) by (simp add: att_ok_def)
  note round = round_up_word[OF al, of off]
  show ?thesis
  proof (cases "attlen att = -1")
    case False
    then have "start = align_to (attalignby att) off" using assms(5) by (simp add: att_start_def)
    then show ?thesis using assms(1) True False round unfolding cfg_def
      by (simp add: emit_align_def round_up_off_def exec_defs doff_defs) (rule run_to, simp)
  next
    case var: True
    then have lt: "off < length (tuple_data tup)" using assms(5) by (simp add: att_start_def split: if_splits)
    note byte = first_byte[OF assms(2) lt]
    show ?thesis
    proof (cases "tuple_data tup ! off = 0")
      case zero: True
      then have "start = align_to (attalignby att) off" using assms(5) var lt by (simp add: att_start_def)
      then show ?thesis using assms(1) True var round byte zero unfolding cfg_def
        by (simp add: emit_align_def round_up_off_def exec_defs doff_defs) (rule run_to, simp)
    next
      case False
      then have "start = off" using assms(5) var lt by (simp add: att_start_def)
      then show ?thesis using assms(1) True var byte False unfolding cfg_def
        by (simp add: emit_align_def round_up_off_def exec_defs doff_defs ucast_eq_0) (rule run_to, simp)
    qed
  qed
qed

text \<open>The bytes of a fixed-length value lie within the data.\<close>

lemma value_bytes:
  assumes "tuple_fits tup" "start + k \<le> length (tuple_data tup)"
  shows "bytes_at (t_bytes tup) (unat (t_hoff tup) + start) k = Some (take k (drop start (tuple_data tup)))"
  using assms by (auto simp: bytes_at_def tuple_data_def tuple_fits_def add.commute)

lemma load_value:
  assumes "tuple_fits tup" "value_mov att = Some w" "start + nat (attlen att) \<le> length (tuple_data tup)" "attbyval att"
  shows "map_option Num (load_bytes (t_bytes tup) w (unat (t_hoff tup) + start)) = Some (att_value tup att start)"
  using assms(2-4) value_bytes[OF assms(1), of start "nat (attlen att)"]
  by (auto simp: value_mov_def load_bytes_def att_value_def Let_def split: if_splits)

lemma exec_value:
  assumes "cfg tup m s start" "tuple_fits tup" "snd kg \<Longrightarrow> int start = fst kg" "emit_value att a kg = Some code"
    and "start + sz \<le> length (tuple_data tup)" "0 < attlen att \<longrightarrow> sz = nat (attlen att)" "a < 2 ^ 15" "a < tts_cap s"
  shows "\<exists>m'. exec env (code @ rest) m = exec env rest m' \<and> cfg tup m' (put_column a (att_value tup att start) 0 s) start \<and>
    mreg m' R1 = Some (Addr HdrB (of_nat (unat (t_hoff tup) + start)))"
proof -
  have idx: "unat (of_nat (unat (t_hoff tup)) + of_nat start :: uint64) = unat (t_hoff tup) + start"
    using off_index(1)[OF assms(2), of start] assms(5) by simp
  have g: "snd kg \<Longrightarrow> word_of_int (fst kg) = (of_nat start :: uint64)" using assms(3) by (metis of_int_of_nat_eq)
  show ?thesis
  proof (cases "attbyval att")
    case False
    then have "code = (if snd kg then [Op1 SLJIT_MOV (Sp DOFF_DEFORM_OFF) (Imm (fst kg))] else [])
        @ [Op1 SLJIT_MOV (Reg R0) (Sp DOFF_DEFORM_OFF), Op2 SLJIT_ADD (Reg R1) (Reg S3) (Reg R0),
           Op1 SLJIT_MOV_U8 (Mem1 S2 (int a)) (Imm 0), Op1 SLJIT_MOV (Mem1 S1 (int a * 8)) (Reg R1)]"
      using assms(4) by (simp add: emit_value_def Let_def)
    then show ?thesis using assms(1,8) index_word[OF assms(7)] g False unfolding cfg_def
      by (cases "snd kg"; simp add: exec_defs doff_defs)
        (rule run_to, simp add: put_column_def att_value_def)+
  next
    case True
    then obtain w where w: "value_mov att = Some w" using assms(4) by (auto simp: emit_value_def Let_def)
    then have code: "code = (if snd kg then [Op1 SLJIT_MOV (Sp DOFF_DEFORM_OFF) (Imm (fst kg))] else [])
        @ [Op1 SLJIT_MOV (Reg R0) (Sp DOFF_DEFORM_OFF), Op2 SLJIT_ADD (Reg R1) (Reg S3) (Reg R0),
           Op1 SLJIT_MOV_U8 (Mem1 S2 (int a)) (Imm 0), Op1 w (Reg R3) (Mem1 R1 0), Op1 SLJIT_MOV (Mem1 S1 (int a * 8)) (Reg R3)]"
      using assms(4) True by (simp add: emit_value_def Let_def)
    have "start + nat (attlen att) \<le> length (tuple_data tup)"
      using assms(5,6) w by (auto simp: value_mov_def split: if_splits)
    then obtain z where load: "load_bytes (t_bytes tup) w (unat (ucast (t_hoff tup) + of_nat start :: uint64)) = Some z"
        "att_value tup att start = Num z"
      using load_value[OF assms(2) w _ True, of start] idx by auto
    show ?thesis using assms(1,8) index_word[OF assms(7)] g load unfolding cfg_def code
      by (cases "snd kg"; simp add: exec_defs doff_defs)
        (rule run_to, simp add: put_column_def)+
  qed
qed

lemma exec_advance:
  assumes "cfg tup m s start" "tuple_fits tup" "att_ok att" "att_size env tup att start = Some sz"
    and "start + sz \<le> length (tuple_data tup)" "snd kg \<Longrightarrow> 0 < attlen att \<Longrightarrow> int (start + sz) = fst kg"
    and "mreg m R1 = Some (Addr HdrB (of_nat (unat (t_hoff tup) + start)))"
  shows "\<exists>m'. exec env (emit_advance att kg @ rest) m = exec env rest m' \<and> cfg tup m' s (start + sz)"
proof -
  have idx: "unat (of_nat (unat (t_hoff tup)) + of_nat start :: uint64) = unat (t_hoff tup) + start"
    using off_index(1)[OF assms(2), of start] assms(5) by simp
  have suffix: "drop (unat (t_hoff tup) + start) (t_bytes tup) = drop start (tuple_data tup)"
    by (simp add: tuple_data_def add.commute)
  consider "0 < attlen att" | "attlen att = -1" | "attlen att = -2" using assms(3) by (auto simp: att_ok_def)
  then show ?thesis
  proof cases
    case 1
    then have sz: "sz = nat (attlen att)" using assms(4) by (simp add: att_size_def)
    have w: "(of_nat start + word_of_int (attlen att) :: uint64) = of_nat (start + sz)"
      using 1 sz by simp
    have g: "snd kg \<Longrightarrow> word_of_int (fst kg) = (of_nat (start + sz) :: uint64)" using assms(6) 1 by (metis of_int_of_nat_eq)
    show ?thesis using assms(1) 1 w g unfolding cfg_def
      by (cases "snd kg"; simp add: emit_advance_def exec_defs doff_defs)
        (rule run_to, simp)+
  next
    case 2
    then have "varsize_any env (drop start (tuple_data tup)) = Some sz" using assms(4) by (simp add: att_size_def)
    then show ?thesis using assms(1,7) 2 idx suffix unfolding cfg_def
      by (simp add: emit_advance_def exec_defs doff_defs) (rule run_to, simp)
  next
    case 3
    then obtain n where "c_strlen (drop start (tuple_data tup)) = Some n" "sz = Suc n"
      using assms(4) by (auto simp: att_size_def)
    then show ?thesis using assms(1,7) 3 idx suffix unfolding cfg_def
      by (simp add: emit_advance_def exec_defs doff_defs) (rule run_to, simp add: algebra_simps)
  qed
qed

section \<open>A column\<close>

lemma exec_start_out:
  assumes "cfg tup m s off" "tuple_natts tup \<le> a" "int a > gcol" "a < 2 ^ 15" "after_label L_out rest = Some rest'"
  shows "\<exists>m'. exec env (emit_start a gcol @ rest) m = exec env rest' m' \<and> cfg tup m' s (if a = 0 then 0 else off)"
proof -
  have "sint (of_nat a :: uint64) = int a" "sint (of_nat (tuple_natts tup) :: uint64) = int (tuple_natts tup)"
    using assms(4) tuple_natts_less[of tup] by (simp_all add: sint_of_nat_small)
  then show ?thesis using assms(1-3,5) unfolding cfg_def
    by (cases "a = 0"; simp add: emit_start_def exec_defs doff_defs) (rule run_to, simp)+
qed

lemma exec_start_in:
  assumes "cfg tup m s off" "a < tuple_natts tup"
  shows "\<exists>m'. exec env (emit_start a gcol @ rest) m = exec env rest m' \<and> cfg tup m' s (if a = 0 then 0 else off)"
proof -
  have "sint (of_nat a :: uint64) = int a" "sint (of_nat (tuple_natts tup) :: uint64) = int (tuple_natts tup)"
    using assms(2) tuple_natts_less[of tup] by (simp_all add: sint_of_nat_small)
  then show ?thesis using assms(1,2) unfolding cfg_def
    by (cases "a = 0"; cases "int a > gcol"; simp add: emit_start_def exec_defs doff_defs) (rule run_to, simp)+
qed

text \<open>The labels of the pieces, for the jumps over them.\<close>

lemma after_label_append: "Label l \<notin> set xs \<Longrightarrow> after_label l (xs @ ys) = after_label l ys"
  by (induction xs) auto

definition far_label :: "nat \<Rightarrow> lbl \<Rightarrow> bool" where
  "far_label a l \<longleftrightarrow> l \<noteq> L_notnull a \<and> l \<noteq> L_aligned a"

lemma column_labels:
  "far_label a l \<Longrightarrow> Label l \<notin> set (emit_start a gcol)"
  "far_label a l \<Longrightarrow> Label l \<notin> set (emit_null att a nl)"
  "far_label a l \<Longrightarrow> Label l \<notin> set (emit_align att a k)"
  "emit_value att a kg = Some code \<Longrightarrow> Label l \<notin> set code"
  "Label l \<notin> set (emit_advance att kg)"
  by (auto simp: far_label_def emit_start_def emit_null_def emit_align_def round_up_off_def emit_value_def Let_def
      emit_advance_def split: if_splits)

lemma emit_column_parts:
  assumes "emit_column att a gcol nl kg = Some (code, kg')"
  obtains vcode where "emit_value att a (track_align att kg) = Some vcode" "kg' = kg_next att kg"
    "code = Label (L_att a) # emit_start a gcol @ emit_null att a nl @ emit_align att a (fst kg) @ vcode @ emit_advance att kg'"
  using assms by (auto simp: emit_column_def Let_def kg_next_def)

lemma after_label_column:
  assumes "emit_column att a gcol nl kg = Some (code, kg')" "far_label a l" "l \<noteq> L_att a"
  shows "after_label l (code @ rest) = after_label l rest"
proof -
  obtain vcode where "emit_value att a (track_align att kg) = Some vcode"
    "code = Label (L_att a) # emit_start a gcol @ emit_null att a nl @ emit_align att a (fst kg) @ vcode @ emit_advance att kg'"
    using assms(1) by (rule emit_column_parts)
  then have "Label l \<notin> set code"
    using column_labels(1-3)[OF assms(2)] column_labels(4,5) assms(3) by simp
  then show ?thesis by (rule after_label_append)
qed

lemma present_guarantee:
  assumes "att_ok att" "kg_inv kg off" "att_start tup att off = Some start"
  shows "snd (track_align att kg) \<Longrightarrow> int start = fst (track_align att kg)"
    and "att_size env tup att start = Some sz \<Longrightarrow> 0 < attlen att \<Longrightarrow> kg_inv (kg_next att kg) (start + sz)"
proof -
  assume g: "snd (track_align att kg)"
  show "int start = fst (track_align att kg)"
  proof (cases "attlen att = -1")
    case True
    note tr = track_align_var[OF assms(1,2) True g]
    then have "start = off" using assms(3) no_align_needed[OF assms(1,2)] by (auto simp: att_start_def split: if_splits)
    then show ?thesis using tr g by (simp add: kg_inv_def)
  next
    case False
    then have "start = align_to (attalignby att) off" using assms(3) by (simp add: att_start_def)
    then show ?thesis using track_align_fixed[OF assms(1,2) False] g by (simp add: kg_inv_def)
  qed
next
  assume "att_size env tup att start = Some sz" "0 < attlen att"
  then have s: "start = align_to (attalignby att) off" "sz = nat (attlen att)" and ne: "attlen att \<noteq> -1"
    using assms(3) by (auto simp: att_start_def att_size_def)
  have "attalignby att dvd start" using s align_to_ge assms(1) by (auto simp: att_ok_def)
  then show "kg_inv (kg_next att kg) (start + sz)"
    using track_next_fixed[OF assms(1) \<open>0 < attlen att\<close>] track_align_fixed[OF assms(1,2) ne] s by (simp add: kg_next_def)
qed

lemma exec_column:
  assumes "cfg tup m s off0" "tuple_fits tup" "att_ok att" "notnull_ok tup att a" "a < tuple_natts tup" "a < tts_cap s"
    and "off = (if a = 0 then 0 else off0)" "kg_inv kg off" "deform_column env tup att a off = Some (v, isnull, off')"
    and "emit_column att a gcol nl kg = Some (code, kg')" "nl = L_out \<or> nl = L_att (a + 1)" "rest = Label nl # rest'"
  shows "\<exists>m'. exec env (code @ rest) m = exec env rest m' \<and> cfg tup m' (put_column a v isnull s) off'"
proof -
  have a15: "a < 2 ^ 15" using assms(5) tuple_natts_less[of tup] by simp
  obtain vcode where v: "emit_value att a (track_align att kg) = Some vcode" "kg' = kg_next att kg" and
    code: "code = Label (L_att a) # emit_start a gcol @ emit_null att a nl @ emit_align att a (fst kg) @ vcode @ emit_advance att kg'"
    using assms(10) by (rule emit_column_parts)
  let ?r3 = "emit_advance att kg' @ rest"
  let ?r2 = "emit_align att a (fst kg) @ vcode @ ?r3"
  obtain m1 where m1: "exec env (code @ rest) m = exec env (emit_null att a nl @ ?r2) m1" "cfg tup m1 s off"
    using exec_start_in[OF assms(1,5), of env gcol "emit_null att a nl @ ?r2"] code assms(7) by auto
  show ?thesis
  proof (cases "att_isnull tup a")
    case True
    then have d: "v = Num 0" "isnull = 1" "off' = off" using assms(9) by (auto simp: deform_column_def)
    have far: "far_label a nl" using assms(11) by (auto simp: far_label_def)
    have "after_label nl ?r2 = Some rest'"
      using column_labels(3)[OF far] column_labels(4)[OF v(1)] column_labels(5) assms(12) by (simp add: after_label_append)
    moreover have "\<not> attnotnull att" using True assms(4) by (simp add: notnull_ok_def)
    moreover have "nl \<noteq> L_notnull a" using far by (simp add: far_label_def)
    ultimately show ?thesis
      using exec_null_null[OF m1(2) assms(2,5) True _ a15 assms(6), where nl = nl and rest = ?r2 and rest' = rest' and env = env]
        m1(1) assms(12) by (auto simp: d)
  next
    case False
    then obtain start sz where st: "att_start tup att off = Some start" "att_size env tup att start = Some sz"
        "off' = start + sz" "start + sz \<le> length (tuple_data tup)" "v = att_value tup att start" "isnull = 0"
      using assms(9) by (auto simp: deform_column_def bind_eq_Some_conv split: if_splits)
    obtain m2 where m2: "exec env (code @ rest) m = exec env ?r2 m2" "cfg tup m2 s off"
      using exec_null_present[OF m1(2) assms(2,5), where env = env and att = att and nl = nl and rest = ?r2] False m1(1) by auto
    obtain m3 where m3: "exec env (code @ rest) m = exec env (vcode @ ?r3) m3" "cfg tup m3 s start"
      using exec_align[OF m2(2) assms(2,3,8) st(1), where env = env and a = a and rest = "vcode @ ?r3"] m2(1) by auto
    have "0 < attlen att \<longrightarrow> sz = nat (attlen att)" using st(2) by (auto simp: att_size_def split: if_splits)
    from exec_value[OF m3(2) assms(2) present_guarantee(1)[OF assms(3,8) st(1)] v(1) st(4) this a15 assms(6), where env = env and rest = ?r3]
    obtain m4 where m4: "exec env (code @ rest) m = exec env ?r3 m4" "cfg tup m4 (put_column a v isnull s) start"
        "mreg m4 R1 = Some (Addr HdrB (of_nat (unat (t_hoff tup) + start)))"
      using m3(1) st(5,6) by auto
    have "snd kg' \<Longrightarrow> 0 < attlen att \<Longrightarrow> int (start + sz) = fst kg'"
      using present_guarantee(2)[OF assms(3,8) st(1,2)] v(2) by (simp add: kg_inv_def)
    from exec_advance[OF m4(2) assms(2,3) st(2,4) this m4(3), where rest = rest]
    show ?thesis using m4(1) st(3) by auto
  qed
qed

end
