(* ===== verification/DeformTuple.thy ===== *)
theory DeformTuple
  imports DeformExec
begin

text \<open>
  Running the whole function that the unrolled deform compiler emits: the columns one after the other,
  the entry at the column that is the first not yet deformed, and the refinement of deforming.
\<close>

section \<open>All columns\<close>

lemma deform_columns_done: "limit \<le> a \<Longrightarrow> deform_columns env tup desc a limit s off = Some (s, off)"
  by (simp add: deform_columns.simps)

lemma after_label_columns:
  assumes "emit_columns atts a gcol kg = Some code" "l = L_out \<or> l = L_skip_missing"
  shows "after_label l (code @ rest) = after_label l rest"
  using assms(1)
proof (induction atts arbitrary: a kg code)
  case Nil
  then show ?case by simp
next
  case (Cons att atts)
  then obtain c1 kg1 c2 where c: "emit_column att a gcol (if atts = [] then L_out else L_att (a + 1)) kg = Some (c1, kg1)"
      "emit_columns atts (a + 1) gcol kg1 = Some c2" "code = c1 @ c2"
    by (auto split: option.splits)
  have "far_label a l" "l \<noteq> L_att a" using assms(2) by (auto simp: far_label_def)
  then show ?case using after_label_column[OF c(1)] Cons.IH[OF c(2)] c(3) by simp
qed

lemma columns_head:
  assumes "emit_columns (att # atts) a gcol kg = Some code"
  shows "\<exists>code'. code = Label (L_att a) # code'"
  using assms by (auto simp: emit_column_def Let_def split: option.splits)

text \<open>The hypotheses on a tuple and its descriptor: every attribute has a documented length and
  alignment, and those that are declared not null are not null where they are stored.\<close>

definition desc_ok :: "heap_tuple \<Rightarrow> CompactAttribute list \<Rightarrow> nat \<Rightarrow> bool" where
  "desc_ok tup desc n \<longleftrightarrow> (\<forall>a < n. att_ok (desc ! a) \<and> (a < tuple_natts tup \<longrightarrow> notnull_ok tup (desc ! a) a))"

lemma columns_exec:
  assumes "cfg tup m s off0" "tuple_fits tup" "desc_ok tup desc n" "n \<le> tts_cap s" "gcol < int (tuple_natts tup)"
    and "n < 2 ^ 15" "0 < n" "emit_columns atts a gcol kg = Some code" "atts = drop a (take n desc)" "n \<le> length desc" "a \<le> n"
    and "off = (if a = 0 then 0 else off0)" "a < min n (tuple_natts tup) \<longrightarrow> kg_inv kg off"
    and "deform_columns env tup desc a (min n (tuple_natts tup)) s off = Some (s', off')"
  shows "\<exists>m'. exec env (code @ Label L_out # rest) m = exec env rest m' \<and> cfg tup m' s' off'"
  using assms(1,4,8,9,11-14)
proof (induction atts arbitrary: a kg code m s off0 off)
  case Nil
  then have "a = n" using assms(10) by simp
  then show ?case using Nil assms(7) by (auto simp: deform_columns_done)
next
  case (Cons att atts)
  note cfg = Cons.prems(1) and cap = Cons.prems(2) and em = Cons.prems(3) and atts = Cons.prems(4) and off = Cons.prems(6)
    and kg = Cons.prems(7) and run = Cons.prems(8)
  have "drop a (take n desc) \<noteq> []" using atts[symmetric] by simp
  then have an: "a < n" and lt: "a < length (take n desc)" by auto
  have "att # atts = take n desc ! a # drop (Suc a) (take n desc)" using atts Cons_nth_drop_Suc[OF lt] by simp
  then have att: "att = desc ! a" and rest_atts: "atts = drop (Suc a) (take n desc)" using an by simp_all
  define nl where "nl = (if atts = [] then L_out else L_att (a + 1))"
  obtain c1 kg1 c2 where c: "emit_column att a gcol nl kg = Some (c1, kg1)"
      "emit_columns atts (a + 1) gcol kg1 = Some c2" "code = c1 @ c2"
    using em by (auto simp: nl_def split: option.splits)
  show ?case
  proof (cases "a < tuple_natts tup")
    case False
    obtain vcode where "c1 = Label (L_att a) # emit_start a gcol @ vcode"
      using c(1) by (rule emit_column_parts) blast
    have out: "after_label L_out (c1 @ c2 @ Label L_out # rest) = Some rest"
      using after_label_column[OF c(1)] after_label_columns[OF c(2)] by (simp add: far_label_def)
    have "Label L_out \<notin> set (Label (L_att a) # emit_start a gcol)"
      using column_labels(1)[of a L_out gcol] by (simp add: far_label_def)
    then have "after_label L_out (vcode @ c2 @ Label L_out # rest) = Some rest"
      using out \<open>c1 = _\<close> after_label_append[of L_out "Label (L_att a) # emit_start a gcol" "vcode @ c2 @ Label L_out # rest"]
      by simp
    from exec_start_out[OF cfg _ _ _ this, of a gcol env] False assms(5,6) an
    show ?thesis using run off c(3) \<open>c1 = _\<close> by (auto simp: deform_columns_done)
  next
    case True
    then obtain v isnull off1 where d: "deform_column env tup att a off = Some (v, isnull, off1)"
        "deform_columns env tup desc (a + 1) (min n (tuple_natts tup)) (put_column a v isnull s) off1 = Some (s', off')"
      using run an att by (subst (asm) deform_columns.simps) (auto split: option.splits)
    have ok: "att_ok att" "notnull_ok tup att a" using assms(3) an True att by (auto simp: desc_ok_def)
    have kginv: "kg_inv kg off" using kg an True by simp
    have "\<exists>rest'. c2 @ Label L_out # rest = Label nl # rest'"
      using c(2) columns_head[of "hd atts" "tl atts" "a + 1" gcol kg1 c2] by (cases atts) (auto simp: nl_def)
    then obtain rest' where r: "c2 @ Label L_out # rest = Label nl # rest'" by blast
    have nl: "nl = L_out \<or> nl = L_att (a + 1)" by (simp add: nl_def)
    obtain m1 where m1: "exec env (code @ Label L_out # rest) m = exec env (c2 @ Label L_out # rest) m1"
        "cfg tup m1 (put_column a v isnull s) off1"
      using exec_column[OF cfg assms(2) ok True _ off kginv d(1) c(1) nl r] an cap c(3) by auto
    have "kg1 = kg_next att kg" using c(1) by (rule emit_column_parts)
    then have "kg_inv kg1 off1" using kg_inv_column[OF ok(1) kginv ok(2) d(1)] by simp
    moreover have "n \<le> tts_cap (put_column a v isnull s)" using cap by (simp add: put_column_def)
    ultimately show ?thesis
      using Cons.IH[OF m1(2) _ c(2) _ _ _ _ d(2)] rest_atts an m1(1) by simp
  qed
qed

section \<open>Entry at the first column that is not yet deformed\<close>

lemma emit_columns_at:
  assumes "emit_columns atts a gcol kg = Some code" "a \<le> k" "k < a + length atts"
  shows "\<exists>code_k. emit_columns (drop (k - a) atts) k gcol (fold kg_next (take (k - a) atts) kg) = Some (Label (L_att k) # code_k) \<and>
    after_label (L_att k) (code @ rest) = Some (code_k @ rest)"
  using assms
proof (induction atts arbitrary: a kg code)
  case Nil
  then show ?case by simp
next
  case (Cons att atts)
  then obtain c1 kg1 c2 where c: "emit_column att a gcol (if atts = [] then L_out else L_att (a + 1)) kg = Some (c1, kg1)"
      "emit_columns atts (a + 1) gcol kg1 = Some c2" "code = c1 @ c2"
    by (auto split: option.splits)
  show ?case
  proof (cases "k = a")
    case True
    then show ?thesis using columns_head[OF Cons.prems(1)] Cons.prems(1) by auto
  next
    case False
    have "kg1 = kg_next att kg" using c(1) by (rule emit_column_parts)
    moreover have "k - a = Suc (k - (a + 1))" using False Cons.prems(2) by simp
    moreover have "after_label (L_att k) (code @ rest) = after_label (L_att k) (c2 @ rest)"
      using after_label_column[OF c(1), of "L_att k" "c2 @ rest"] False c(3) by (simp add: far_label_def)
    ultimately show ?thesis using Cons.IH[OF c(2)] False Cons.prems(2,3) by simp
  qed
qed

lemma exec_dispatch:
  assumes "mreg m R0 = Some (Num x)"
  shows "exec env (map (\<lambda>k. Cmp SLJIT_EQUAL (Reg R0) (Imm (int k)) (L_att k)) ks @ rest) m =
    (case find (\<lambda>k. x = of_nat k) ks of None \<Rightarrow> exec env rest m
     | Some k \<Rightarrow> (case after_label (L_att k) rest of None \<Rightarrow> None | Some js \<Rightarrow> exec env js m))"
proof -
  have skip: "after_label l (map (\<lambda>k. Cmp SLJIT_EQUAL (Reg R0) (Imm (int k)) (L_att k)) ks @ rest) = after_label l rest" for ks l
    by (rule after_label_append) auto
  have cmp: "exec env (Cmp SLJIT_EQUAL (Reg R0) (Imm (int k)) l # is) m =
      (if x = of_nat k then (case after_label l is of None \<Rightarrow> None | Some js \<Rightarrow> exec env js m) else exec env is m)" for k l "is"
    using assms by (simp add: exec_cmp[where v = x and w = "of_nat k"] read_op_def cond_holds_def)
  show ?thesis by (induction ks) (simp_all add: cmp skip)
qed

lemma nvalid_equal: "k < 2 ^ 15 \<Longrightarrow> (scast (w :: int16) :: uint64) = of_nat k \<longleftrightarrow> unat w = k"
proof -
  assume k: "k < 2 ^ 15"
  have "(scast w :: uint64) = of_nat k \<longleftrightarrow> sint w = int k"
  proof
    assume "(scast w :: uint64) = of_nat k"
    then have "sint (scast w :: uint64) = int k" using k by (simp add: sint_of_nat_small)
    then show "sint w = int k" by (simp add: sint_up_scast)
  next
    assume "sint w = int k"
    then have "(word_of_int (sint w) :: uint64) = of_nat k" by simp
    then show "(scast w :: uint64) = of_nat k" by simp
  qed
  also have "\<dots> \<longleftrightarrow> unat w = k"
  proof
    assume "sint w = int k"
    then have "w = of_nat k" by (metis of_int_of_nat_eq of_int_sint scast_id)
    then show "unat w = k" using k by (simp add: unat_of_nat take_bit_nat_eq_self)
  next
    assume "unat w = k"
    then have "w = of_nat k" by auto
    then show "sint w = int k" using k by (simp add: signed_of_nat signed_take_bit_int_eq_self)
  qed
  finally show ?thesis .
qed

lemma find_nvalid:
  assumes "n < 2 ^ 15"
  shows "find (\<lambda>k. (scast (w :: int16) :: uint64) = of_nat k) [0..<n] = (if unat w < n then Some (unat w) else None)"
proof -
  have "find (\<lambda>k. (scast w :: uint64) = of_nat k) [0..<n] = find (\<lambda>k. unat w = k) [0..<n]"
    by (rule find_cong) (use nvalid_equal assms in auto)
  also have "\<dots> = (if unat w < n then Some (unat w) else None)"
    by (induction n) (auto simp: find_append split: option.splits)
  finally show ?thesis .
qed

lemma columns_keep_kg:
  assumes "deform_columns env tup desc a k s off = Some (s', off')" "k \<le> n" "k \<le> tuple_natts tup" "n \<le> length desc"
    and "desc_ok tup desc n" "kg_inv kg off"
  shows "kg_inv (fold kg_next (drop a (take k desc)) kg) off'"
  using assms(1,6)
proof (induction "k - a" arbitrary: a s off kg)
  case 0
  then show ?case by (simp add: deform_columns_done)
next
  case (Suc d)
  then have "a < k" by simp
  then obtain v isnull off1 where d: "deform_column env tup (desc ! a) a off = Some (v, isnull, off1)"
      "deform_columns env tup desc (a + 1) k (put_column a v isnull s) off1 = Some (s', off')"
    using Suc.prems(1) by (subst (asm) deform_columns.simps) (auto split: option.splits)
  have "drop a (take k desc) = desc ! a # drop (Suc a) (take k desc)"
    using \<open>a < k\<close> assms(2,4) Cons_nth_drop_Suc[of a "take k desc"] by simp
  moreover have "kg_inv (kg_next (desc ! a) kg) off1"
    using kg_inv_column[OF _ Suc.prems(2) _ d(1)] assms(2,3,5) \<open>a < k\<close> by (auto simp: desc_ok_def)
  ultimately show ?case using Suc.hyps(1)[OF _ d(2)] Suc.hyps(2) by simp
qed

section \<open>The prologue, the missing attributes and the epilogue\<close>

lemma hasnulls_and: "(ucast (t_infomask tup) AND 1 :: uint64) = hasnulls_word tup"
proof -
  let ?w = "t_infomask tup"
  have "(ucast ?w AND 1 :: uint64) = of_bool (odd (ucast ?w :: uint64))" by (simp add: and_one_eq mod_2_eq_odd)
  also have "odd (ucast ?w :: uint64) \<longleftrightarrow> odd (unat ?w)" by (simp add: bit_0[symmetric] bit_simps)
  finally show ?thesis by (simp add: hasnulls_word_def tuple_hasnulls_def)
qed

lemma natts_and: "(ucast (t_infomask2 tup) AND 2047 :: uint64) = of_nat (tuple_natts tup)"
proof -
  let ?w = "t_infomask2 tup"
  have "(2047 :: uint64) = Bit_Operations.mask 11" by (simp add: mask_eq_exp_minus_1)
  then have "(ucast ?w AND 2047 :: uint64) = take_bit 11 (ucast ?w)" by (simp add: take_bit_eq_mask)
  also have "\<dots> = of_nat (take_bit 11 (unat ?w))" by (rule bit_eqI) (simp add: bit_simps)
  finally show ?thesis by (simp add: take_bit_eq_mod tuple_natts_def)
qed

lemma exec_prologue:
  assumes "mslot m = s" "mtuple m = tup" "is_heap (tts_ops s) \<or> tts_ops s = TTSOpsMinimalTuple"
  shows "\<exists>m'. exec env (emit_prologue (tts_ops s) @ rest) m = exec env rest m' \<and> cfg tup m' s (unat (tts_off s))"
  using assms unfolding cfg_def
  by (cases "is_heap (tts_ops s)"; simp add: emit_prologue_def tuple_field_def off_field_def exec_defs doff_defs enter_frame_def
      HEAP_HASNULL_def HEAP_NATTS_MASK_def hasnulls_and natts_and)
    (rule run_to, simp)+

lemma exec_missing:
  assumes "cfg tup m s off" "n < 2 ^ 15" "n \<le> tts_cap s" "gcol < int (tuple_natts tup)"
  shows "\<exists>m'. exec env (emit_missing n gcol @ rest) m = exec env rest m' \<and>
    cfg tup m' (if tuple_natts tup < n then fill_missing env (tuple_natts tup) n s else s) off"
proof (cases "int n - 1 > gcol")
  case False
  then show ?thesis using assms(1,4) by (auto simp: emit_missing_def)
next
  case True
  have w: "sint (of_nat n :: uint64) = int n" "sint (of_nat (tuple_natts tup) :: uint64) = int (tuple_natts tup)"
      "unat (of_nat n :: uint64) = n" "unat (of_nat (tuple_natts tup) :: uint64) = tuple_natts tup"
    using assms(2) tuple_natts_less[of tup] by (simp_all add: sint_of_nat_small unat_small)
  show ?thesis
  proof (cases "tuple_natts tup < n")
    case False
    then show ?thesis using assms(1) w True unfolding cfg_def
      by (simp add: emit_missing_def exec_defs doff_defs) (rule run_to, simp)
  next
    case less: True
    then show ?thesis using assms(1,3) w True unfolding cfg_def
      by (simp add: emit_missing_def exec_defs doff_defs) (rule run_to, simp add: fill_missing_def)
  qed
qed

lemma narrow:
  "ucast (of_nat k :: uint64) = (of_nat k :: uint16)" "ucast (of_nat k :: uint64) = (of_nat k :: uint32)"
  "ucast (ucast (f :: uint16) OR word_of_int TTS_FLAG_SLOW :: uint64) = f OR word_of_int TTS_FLAG_SLOW"
  by (rule bit_eqI; simp add: bit_simps)+

lemma exec_epilogue:
  assumes "cfg tup m s off" "is_heap (tts_ops s) \<or> tts_ops s = TTSOpsMinimalTuple"
  shows "\<exists>m'. exec env (emit_epilogue (tts_ops s) n) m = Some m' \<and> mslot m' = finish_slot n off s \<and> mtuple m' = tup"
  using assms unfolding cfg_def
  by (cases "is_heap (tts_ops s)"; simp add: emit_epilogue_def off_field_def exec_defs doff_defs finish_slot_def narrow)

section \<open>The compiled function deforms the tuple\<close>

lemma deform_columns_frame:
  assumes "deform_columns env tup desc a k s off = Some (s', off')"
  shows "tts_ops s' = tts_ops s \<and> tts_cap s' = tts_cap s"
  using assms
proof (induction "k - a" arbitrary: a s off)
  case 0
  then show ?case by (simp add: deform_columns_done)
next
  case (Suc d)
  then have "a < k" by simp
  then obtain v isnull off1 where
      "deform_columns env tup desc (a + 1) k (put_column a v isnull s) off1 = Some (s', off')"
    using Suc.prems by (subst (asm) deform_columns.simps) (auto split: option.splits)
  from Suc.hyps(1)[OF _ this] Suc.hyps(2) show ?case by (simp add: put_column_def)
qed

lemma fill_missing_frame [simp]:
  "tts_ops (fill_missing env i j s) = tts_ops s" "tts_cap (fill_missing env i j s) = tts_cap s"
  "tts_nvalid (fill_missing env i j s) = tts_nvalid s" "tts_off (fill_missing env i j s) = tts_off s"
  by (simp_all add: fill_missing_def)

lemma guaranteed_column_stored:
  assumes "\<forall>a < n. attnotnull (desc ! a) \<and> \<not> atthasmissing (desc ! a) \<and> \<not> attisdropped (desc ! a) \<longrightarrow> a < k"
  shows "guaranteed_column desc n < int k"
  using assms by (induction n) (auto simp: guaranteed_column_def Let_def)

text \<open>The slot records the offset after the columns that it already holds.\<close>

definition saved_offset_ok :: "deform_env \<Rightarrow> heap_tuple \<Rightarrow> CompactAttribute list \<Rightarrow> nat \<Rightarrow> tuple_slot \<Rightarrow> bool" where
  "saved_offset_ok env tup desc n s \<longleftrightarrow>
     (let k = unat (tts_nvalid s)
      in 0 < k \<and> k < n \<and> k < tuple_natts tup \<longrightarrow>
         map_option snd (deform_columns env tup desc 0 k s 0) = Some (unat (tts_off s)))"

definition guaranteed_stored :: "heap_tuple \<Rightarrow> CompactAttribute list \<Rightarrow> nat \<Rightarrow> bool" where
  "guaranteed_stored tup desc n \<longleftrightarrow>
     (\<forall>a < n. attnotnull (desc ! a) \<and> \<not> atthasmissing (desc ! a) \<and> \<not> attisdropped (desc ! a) \<longrightarrow> a < tuple_natts tup)"

lemma exec_nvalid:
  assumes "cfg tup m s off" "n < 2 ^ 15"
  shows "\<exists>m'. cfg tup m' s off \<and> exec env (emit_nvalid n @ rest) m =
    (if unat (tts_nvalid s) < n
     then (case after_label (L_att (unat (tts_nvalid s))) rest of None \<Rightarrow> None | Some js \<Rightarrow> exec env js m')
     else (case after_label L_out rest of None \<Rightarrow> None | Some js \<Rightarrow> exec env js m'))"
proof -
  define m1 where "m1 = m\<lparr>mreg := (mreg m)(R0 \<mapsto> Num (scast (tts_nvalid s)))\<rparr>"
  have "exec env (emit_nvalid n @ rest) m =
      exec env (map (\<lambda>k. Cmp SLJIT_EQUAL (Reg R0) (Imm (int k)) (L_att k)) [0..<n] @ Jump L_out # rest) m1"
    using assms(1) unfolding cfg_def emit_nvalid_def append_Cons
    by (subst exec.simps(2)) (simp add: ins_step_def read_op_def write_op_def load_field_def m1_def)
  moreover have "mreg m1 R0 = Some (Num (scast (tts_nvalid s)))" by (simp add: m1_def)
  moreover have "cfg tup m1 s off" using assms(1) by (simp add: cfg_def m1_def)
  ultimately show ?thesis
    by (intro exI[of _ m1]) (simp add: exec_dispatch find_nvalid[OF assms(2)] exec.simps split: option.splits)
qed

text \<open>From the dispatch on the number of valid attributes to the epilogue.\<close>

lemma exec_from_nvalid:
  assumes "cfg tup m s off0" "tuple_fits tup" "desc_ok tup desc n" "n \<le> tts_cap s" "gcol < int (tuple_natts tup)" "n < 2 ^ 15"
    and "0 < n" "n \<le> length desc" "emit_columns (take n desc) 0 gcol (0, True) = Some cols" "k = unat (tts_nvalid s)"
    and "0 < k \<and> k < min n (tuple_natts tup) \<longrightarrow> (\<exists>s0 sk. deform_columns env tup desc 0 k s0 0 = Some (sk, off0))"
    and "deform_columns env tup desc k (min n (tuple_natts tup)) s (if k = 0 then 0 else off0) = Some (s', off)"
  shows "\<exists>m'. exec env (emit_nvalid n @ cols @ Label L_out # rest) m = exec env rest m' \<and> cfg tup m' s' off"
proof -
  let ?code = "cols @ Label L_out # rest"
  obtain m1 where m1: "cfg tup m1 s off0" "exec env (emit_nvalid n @ ?code) m =
      (if k < n then (case after_label (L_att k) ?code of None \<Rightarrow> None | Some js \<Rightarrow> exec env js m1)
       else (case after_label L_out ?code of None \<Rightarrow> None | Some js \<Rightarrow> exec env js m1))"
    using exec_nvalid[OF assms(1,6), of env ?code] assms(10) by auto
  show ?thesis
  proof (cases "k < n")
    case False
    then have "s' = s" "off = off0" using assms(7,12) by (auto simp: deform_columns_done)
    moreover have "after_label L_out ?code = Some rest" using after_label_columns[OF assms(9)] by simp
    ultimately show ?thesis using m1 False by auto
  next
    case True
    let ?kg = "fold kg_next (take k (take n desc)) (0, True)"
    obtain code_k where code_k: "emit_columns (drop k (take n desc)) k gcol ?kg = Some (Label (L_att k) # code_k)"
        "after_label (L_att k) ?code = Some (code_k @ Label L_out # rest)"
      using emit_columns_at[OF assms(9), of k "Label L_out # rest"] True assms(8) by auto
    have kg: "kg_inv ?kg (if k = 0 then 0 else off0)" if lt: "k < min n (tuple_natts tup)"
    proof (cases "k = 0")
      case True
      then show ?thesis by (simp add: kg_inv_def)
    next
      case False
      then obtain s0 sk where "deform_columns env tup desc 0 k s0 0 = Some (sk, off0)" using assms(11) lt by auto
      from columns_keep_kg[OF this _ _ assms(8,3), of "(0, True)"] lt False
      show ?thesis by (simp add: kg_inv_def min_absorb1)
    qed
    have "exec env (emit_nvalid n @ ?code) m = exec env ((Label (L_att k) # code_k) @ Label L_out # rest) m1"
      using m1(2) True code_k(2) by simp
    then show ?thesis
      using columns_exec[OF m1(1) assms(2,3,4,5,6,7) code_k(1) refl assms(8) _ refl _ assms(12)] kg True by auto
  qed
qed

lemma program_refines:
  assumes "deform_program desc (tts_ops s) natts = Some prog" "is_heap (tts_ops s) \<or> tts_ops s = TTSOpsMinimalTuple"
    and "0 < natts" "natts \<le> length desc"
    and "mslot m = s" "mtuple m = tup" "tuple_fits tup" "desc_ok tup desc natts" "natts \<le> tts_cap s" "natts < 2 ^ 15"
    and "guaranteed_stored tup desc natts" "saved_offset_ok env tup desc natts s"
    and "deform_tuple env tup desc natts s = Some s'"
  shows "\<exists>m'. exec env prog m = Some m' \<and> mslot m' = s'"
proof -
  define gcol where "gcol = guaranteed_column desc natts"
  define s1 where "s1 = (if tuple_natts tup < natts then fill_missing env (tuple_natts tup) natts s else s)"
  define k where "k = unat (tts_nvalid s)"
  note ops = assms(2) and n = assms(3,4)
  obtain cols where cols: "emit_columns (take natts desc) 0 gcol (0, True) = Some cols"
    and prog: "prog = emit_prologue (tts_ops s) @ emit_missing natts gcol @ emit_nvalid natts @ cols @ emit_epilogue (tts_ops s) natts"
    using assms(1) by (auto simp: deform_program_def Let_def gcol_def)
  obtain s2 off where run: "deform_columns env tup desc k (min natts (tuple_natts tup)) s1 (if k = 0 then 0 else unat (tts_off s)) = Some (s2, off)"
    and s': "s' = finish_slot natts off s2"
    using assms(13) by (auto simp: deform_tuple_def Let_def s1_def k_def)
  have g: "gcol < int (tuple_natts tup)"
    unfolding gcol_def using assms(11) by (intro guaranteed_column_stored) (simp add: guaranteed_stored_def)
  have s1: "tts_ops s1 = tts_ops s" "tts_cap s1 = tts_cap s" "tts_nvalid s1 = tts_nvalid s" by (simp_all add: s1_def)
  have s2: "tts_ops s2 = tts_ops s" using deform_columns_frame[OF run] s1 by simp
  obtain rest where epi: "emit_epilogue (tts_ops s) natts = Label L_out # rest" by (simp add: emit_epilogue_def)
  let ?code = "cols @ emit_epilogue (tts_ops s) natts"
  obtain m1 where m1: "exec env prog m = exec env (emit_missing natts gcol @ emit_nvalid natts @ ?code) m1" "cfg tup m1 s (unat (tts_off s))"
    using exec_prologue[OF assms(5,6) ops, of env "emit_missing natts gcol @ emit_nvalid natts @ ?code"] prog by auto
  obtain m2 where m2: "exec env prog m = exec env (emit_nvalid natts @ ?code) m2" "cfg tup m2 s1 (unat (tts_off s))"
    using exec_missing[OF m1(2) assms(10,9) g, of env "emit_nvalid natts @ ?code"] m1(1) s1_def by auto
  have "0 < k \<and> k < min natts (tuple_natts tup) \<longrightarrow>
      (\<exists>s0 sk. deform_columns env tup desc 0 k s0 0 = Some (sk, unat (tts_off s)))"
    using assms(12) by (auto simp: saved_offset_ok_def Let_def k_def)
  from exec_from_nvalid[OF m2(2) assms(7,8) _ g assms(10) n cols _ this run, where rest = rest]
  have "\<exists>m4. exec env prog m = exec env rest m4 \<and> cfg tup m4 s2 off"
    using m2(1) epi assms(9) s1 k_def by auto
  then obtain m4 where m4: "exec env prog m = exec env (emit_epilogue (tts_ops s2) natts) m4" "cfg tup m4 s2 off"
    using epi s2 by auto
  then show ?thesis using exec_epilogue[OF m4(2), of env natts] ops s2 s' by auto
qed

lemma compiled_refines:
  assumes "documented_sljit env sj" "pg_jitter_compile_deform sj desc (tts_ops s) (int natts) = Some code"
    and "mslot m = s" "mtuple m = tup" "tuple_fits tup" "desc_ok tup desc natts" "natts \<le> tts_cap s" "natts < 2 ^ 15"
    and "guaranteed_stored tup desc natts" "saved_offset_ok env tup desc natts s"
    and "deform_tuple env tup desc natts s = Some s'"
  shows "\<exists>m'. code m = Some m' \<and> mslot m' = s'"
proof -
  obtain prog where prog: "deform_program desc (tts_ops s) natts = Some prog" "sljit_generate_code sj prog = Some code"
    and guards: "is_heap (tts_ops s) \<or> tts_ops s = TTSOpsMinimalTuple" "0 < natts" "natts \<le> length desc"
    using assms(2) by (auto simp: pg_jitter_compile_deform_def is_heap_def bind_eq_Some_conv split: if_splits)
  obtain m' where "exec env prog m = Some m'" "mslot m' = s'"
    using program_refines[OF prog(1) guards assms(3-11)] by blast
  moreover have "code m = Some m'" using calculation(1) assms(1) prog(2) unfolding documented_sljit_def by blast
  ultimately show ?thesis by blast
qed

text \<open>C6 (refinement): whenever the deform compiler accepts a tuple descriptor and sljit does what it documents, the
  compiled function,
  run on a tuple whose stored attributes match the descriptor, returns with the slot in exactly the
  state that deforming the tuple column by column leaves: from the first column not yet deformed,
  with the alignment of each column rounded up at run time, each null bit tested, the missing attributes filled in, and the offset, the
  number of valid attributes and the slow flag recorded. The static alignment, the null checks and
  the availability checks that the compiler omits make no difference.\<close>

theorem compiled_deform_refines:
  assumes "documented_sljit env sj" "pg_jitter_compile_deform sj desc (tts_ops s) (int natts) = Some code"
    and "mslot m = s" "mtuple m = tup" "tuple_fits tup" "desc_ok tup desc natts" "natts \<le> tts_cap s" "natts < 2 ^ 15"
    and "guaranteed_stored tup desc natts" "saved_offset_ok env tup desc natts s"
    and "deform_tuple env tup desc natts s = Some s'"
  shows "\<exists>m'. code m = Some m' \<and> mslot m' = s'"
  by (rule compiled_refines[OF assms])

text \<open>Five columns: a not null int2, a text with a short header, a null int4, an int4 after three bytes of
  padding, and an int8 that the tuple does not store;
  the first two are deformed already.\<close>

definition example_desc :: "CompactAttribute list" where
  "example_desc =
     [\<lparr>attlen = 2, attbyval = True, attalignby = 2, attnotnull = True, atthasmissing = False, attisdropped = False\<rparr>,
      \<lparr>attlen = -1, attbyval = False, attalignby = 4, attnotnull = False, atthasmissing = False, attisdropped = False\<rparr>,
      \<lparr>attlen = 4, attbyval = True, attalignby = 4, attnotnull = False, atthasmissing = False, attisdropped = False\<rparr>,
      \<lparr>attlen = 4, attbyval = True, attalignby = 4, attnotnull = False, atthasmissing = False, attisdropped = False\<rparr>,
      \<lparr>attlen = 8, attbyval = True, attalignby = 8, attnotnull = True, atthasmissing = True, attisdropped = False\<rparr>]"

definition example_tuple :: heap_tuple where
  "example_tuple = \<lparr>t_infomask = 1, t_infomask2 = 4, t_hoff = 24,
     t_bytes = replicate 23 0 @ [11, 7, 0, 7, 97, 98, 0, 0, 0, 255, 255, 255, 255], bits_off = 23\<rparr>"

definition example_slot :: tuple_slot where
  "example_slot = \<lparr>tts_ops = TTSOpsHeapTuple, tts_nvalid = 2, tts_flags = 4, tts_off = 5, tts_cap = 5,
     tts_values = (\<lambda>_. Num 0)(0 := Num 7, 1 := Addr HdrB 26), tts_isnull = (\<lambda>_. 0)\<rparr>"

definition example_deform_env :: deform_env where
  "example_deform_env = \<lparr>missing_attr = (\<lambda>_. (Num 5, 0)),
     varsize_any = (\<lambda>bs. case bs of [] \<Rightarrow> None | b # _ \<Rightarrow> if odd (unat b) then Some (unat b div 2) else None)\<rparr>"

definition example_machine :: mstate where
  "example_machine = \<lparr>mslot = example_slot, mtuple = example_tuple, mreg = (\<lambda>_. None), mframe = (\<lambda>_. None), mframe_size = 0\<rparr>"

lemma example_deformed:
  "map_option (\<lambda>s. (map (tts_values s) [0..<5], map (tts_isnull s) [0..<5], tts_off s))
     (deform_tuple example_deform_env example_tuple example_desc 5 example_slot) =
   Some ([Num 7, Addr HdrB 26, Num 0, Num (- 1), Num 5], [0, 0, 1, 0, 0], 12)"
  by code_simp

lemma example_tuple_facts:
  "tuple_natts example_tuple = 4" "att_isnull example_tuple 0 = False"
  by code_simp+

lemma less_5: "a < 5 \<Longrightarrow> a = 0 \<or> a = 1 \<or> a = 2 \<or> a = 3 \<or> a = (4 :: nat)"
  by auto

definition example_sljit :: sljit where
  "example_sljit = \<lparr>sljit_create_ok = True, sljit_generate_code = (\<lambda>prog. Some (exec example_deform_env prog))\<rparr>"

lemma example_hypotheses:
  "\<exists>code. pg_jitter_compile_deform example_sljit example_desc (tts_ops example_slot) (int 5) = Some code"
  "tuple_fits example_tuple"
  "desc_ok example_tuple example_desc 5"
  "guaranteed_stored example_tuple example_desc 5"
  "saved_offset_ok example_deform_env example_tuple example_desc 5 example_slot"
proof -
  show "\<exists>code. pg_jitter_compile_deform example_sljit example_desc (tts_ops example_slot) (int 5) = Some code"
    by (simp add: pg_jitter_compile_deform_def deform_program_def example_sljit_def example_desc_def example_slot_def emit_column_def emit_value_def
        value_mov_def Let_def)
  show "tuple_fits example_tuple"
    by (simp add: tuple_fits_def example_tuple_facts) (simp add: example_tuple_def)
  show "desc_ok example_tuple example_desc 5"
    by (auto dest!: less_5 simp: desc_ok_def example_desc_def example_tuple_facts att_ok_def notnull_ok_def)
  show "guaranteed_stored example_tuple example_desc 5"
    by (auto dest!: less_5 simp: guaranteed_stored_def example_desc_def example_tuple_facts)
  show "saved_offset_ok example_deform_env example_tuple example_desc 5 example_slot"
    by code_simp
qed

lemma example_sljit_documented: "documented_sljit example_deform_env example_sljit"
  by (auto simp: documented_sljit_def example_sljit_def)

theorem compiled_deform_refines_witness:
  "\<exists>code m'. pg_jitter_compile_deform example_sljit example_desc TTSOpsHeapTuple 5 = Some code \<and>
     code example_machine = Some m' \<and>
     map (tts_values (mslot m')) [0..<5] = [Num 7, Addr HdrB 26, Num 0, Num (- 1), Num 5] \<and> tts_off (mslot m') = 12"
proof -
  obtain s' where s': "deform_tuple example_deform_env example_tuple example_desc 5 example_slot = Some s'"
      "map (tts_values s') [0..<5] = [Num 7, Addr HdrB 26, Num 0, Num (- 1), Num 5]" "tts_off s' = 12"
    using example_deformed by auto
  obtain code where code: "pg_jitter_compile_deform example_sljit example_desc (tts_ops example_slot) (int 5) = Some code"
    using example_hypotheses(1) by blast
  have "mslot example_machine = example_slot" "mtuple example_machine = example_tuple" "5 \<le> tts_cap example_slot"
    by (simp_all add: example_machine_def example_slot_def)
  from compiled_deform_refines[OF example_sljit_documented code this(1,2) example_hypotheses(2,3) this(3) _ example_hypotheses(4,5) s'(1)]
  show ?thesis using s' code by (auto simp: example_slot_def)
qed

end
