(* ===== verification/DeformSparse.thy ===== *)
theory DeformSparse
  imports DeformTuple
begin

text \<open>
  The helper for wide tables with nullable columns (\<open>deform_sparse_dispatch\<close> of \<open>pg_jitter_deform_jit.c\<close>): it
  reads the null bitmap byte by byte, sets eight columns to null at once and then visits the bits that are set.
\<close>

section \<open>The code\<close>

record DeformColDesc =
  d_attlen :: int
  d_attalign :: nat
  d_attbyval :: bool
  d_attnotnull :: bool

definition build_descriptor :: "CompactAttribute \<Rightarrow> DeformColDesc" where
  "build_descriptor att = \<lparr>d_attlen = attlen att, d_attalign = attalignby att, d_attbyval = attbyval att, d_attnotnull = attnotnull att\<rparr>"

text \<open>The macros of PostgreSQL that read a tuple: whether the byte at an offset of the data is not padding, the datum
  at an offset, the offset after the datum there.\<close>

record sparse_env = deform_env +
  varatt_not_pad_byte :: "heap_tuple \<Rightarrow> nat \<Rightarrow> bool option"
  fetch_att :: "heap_tuple \<Rightarrow> nat \<Rightarrow> bool \<Rightarrow> int \<Rightarrow> mval option"
  att_addlength_pointer :: "heap_tuple \<Rightarrow> nat \<Rightarrow> int \<Rightarrow> nat option"

definition deform_att_align_nominal :: "nat \<Rightarrow> nat \<Rightarrow> nat" where
  "deform_att_align_nominal cur_offset attalign_bytes = nat (TYPEALIGN (int attalign_bytes) (int cur_offset))"

definition deform_att_align_pointer :: "sparse_env \<Rightarrow> heap_tuple \<Rightarrow> nat \<Rightarrow> nat \<Rightarrow> nat option" where
  "deform_att_align_pointer env tup cur_offset attalign_bytes =
     map_option (\<lambda>not_pad. if not_pad then cur_offset else nat (TYPEALIGN (int attalign_bytes) (int cur_offset)))
       (varatt_not_pad_byte env tup cur_offset)"

text \<open>The alignment of one column.\<close>

definition deform_align :: "sparse_env \<Rightarrow> heap_tuple \<Rightarrow> DeformColDesc \<Rightarrow> nat \<Rightarrow> nat option" where
  "deform_align env tup d off =
     (if d_attlen d = -1 then deform_att_align_pointer env tup off (d_attalign d)
      else if d_attalign d > 1 then Some (deform_att_align_nominal off (d_attalign d)) else Some off)"

definition extract_column :: "sparse_env \<Rightarrow> heap_tuple \<Rightarrow> DeformColDesc list \<Rightarrow> nat \<Rightarrow> tuple_slot \<Rightarrow> nat \<Rightarrow> (tuple_slot \<times> nat) option" where
  "extract_column env tup descs col s off =
     (if col < length descs \<and> col < tts_cap s
      then (let d = descs ! col
            in Option.bind (deform_align env tup d off)
                 (\<lambda>off. Option.bind (fetch_att env tup off (d_attbyval d) (d_attlen d))
                 (\<lambda>v. map_option (\<lambda>off'. (put_column col v 0 s, off')) (att_addlength_pointer env tup off (d_attlen d)))))
      else None)"

definition null_column :: "nat \<Rightarrow> tuple_slot \<Rightarrow> tuple_slot option" where
  "null_column col s = (if col < tts_cap s then Some (put_column col (Num 0) 1 s) else None)"

function dense_loop :: "sparse_env \<Rightarrow> heap_tuple \<Rightarrow> DeformColDesc list \<Rightarrow> nat \<Rightarrow> nat \<Rightarrow> tuple_slot \<Rightarrow> nat \<Rightarrow> (tuple_slot \<times> nat) option" where
  "dense_loop env tup descs attnum limit s off =
     (if attnum < limit
      then Option.bind (extract_column env tup descs attnum s off) (\<lambda>(s', off'). dense_loop env tup descs (attnum + 1) limit s' off')
      else Some (s, off))"
  by pat_completeness auto
termination by (relation "measure (\<lambda>(env, tup, descs, attnum, limit, s, off). limit - attnum)") auto

text \<open>One byte of the bitmap, bit by bit.\<close>

function bits_loop :: "sparse_env \<Rightarrow> heap_tuple \<Rightarrow> DeformColDesc list \<Rightarrow> uint8 \<Rightarrow> nat \<Rightarrow> nat \<Rightarrow> tuple_slot \<Rightarrow> nat \<Rightarrow> (tuple_slot \<times> nat) option" where
  "bits_loop env tup descs bm col end_col s off =
     (if col < end_col
      then (if bm AND push_bit (col mod 8) 1 = 0
            then Option.bind (null_column col s) (\<lambda>s'. bits_loop env tup descs bm (col + 1) end_col s' off)
            else Option.bind (extract_column env tup descs col s off)
                   (\<lambda>(s', off'). bits_loop env tup descs bm (col + 1) end_col s' off'))
      else Some (s, off))"
  by pat_completeness auto
termination by (relation "measure (\<lambda>(env, tup, descs, bm, col, end_col, s, off). end_col - col)") auto

text \<open>The position of the lowest bit that is set.\<close>

definition builtin_ctz :: "uint8 \<Rightarrow> nat" where
  "builtin_ctz bm = hd (filter (bit bm) [0..<8])"

lemma bit_pred: "bit x k \<Longrightarrow> (\<forall>j<k. \<not> bit x j) \<Longrightarrow> bit (x - 1) n \<longleftrightarrow> n < k \<or> k < n \<and> bit (x :: int) n"
proof (induction k arbitrary: x n)
  case 0
  then have "odd x" by (simp add: bit_0)
  then have "(x - 1) div 2 = x div 2" by presburger
  then show ?case using \<open>odd x\<close> by (cases n) (auto simp: bit_0 bit_Suc)
next
  case (Suc k)
  have ev: "even x" using Suc.prems(2)[rule_format, of 0] by (simp add: bit_0)
  have "\<forall>j<k. \<not> bit (x div 2) j" using Suc.prems(2) by (auto simp: bit_Suc[symmetric])
  moreover have "bit (x div 2) k" using Suc.prems(1) by (simp add: bit_Suc)
  moreover have "(x - 1) div 2 = x div 2 - 1" using ev by presburger
  ultimately show ?case using Suc.IH[of "x div 2"] ev by (cases n) (auto simp: bit_0 bit_Suc)
qed

lemma clear_lowest:
  assumes "bit w k" "\<forall>j<k. \<not> bit w j"
  shows "bit (w AND (w - 1)) n \<longleftrightarrow> bit (w :: 'a::len word) n \<and> n \<noteq> k"
proof -
  have "w \<noteq> 0" using assms(1) by auto
  then have "0 < unat w" by (simp add: unat_gt_0)
  then have "int (unat (w - 1)) = int (unat w) - 1" using unat_minus_one[OF \<open>w \<noteq> 0\<close>] by simp
  then have "uint (w - 1) = uint w - 1" by simp
  moreover have "bit (uint w) k" "\<forall>j<k. \<not> bit (uint w) j" using assms by (auto simp: bit_uint_iff bit_imp_le_length)
  ultimately have "bit (uint (w - 1)) n \<longleftrightarrow> n < k \<or> k < n \<and> bit (uint w) n" using bit_pred[of "uint w" k n] by simp
  then show ?thesis using assms bit_imp_le_length[of w n] bit_imp_le_length[of "w - 1" n]
    by (auto simp: bit_uint_iff bit_and_iff) 
qed
lemma clear_lowest_less: "bm \<noteq> 0 \<Longrightarrow> unat (bm AND (bm - 1)) < unat (bm :: uint8)"
proof -
  assume "bm \<noteq> 0"
  have "bm AND (bm - 1) \<le> bm - 1" by (simp add: word_and_le1)
  then have "unat (bm AND (bm - 1)) \<le> unat (bm - 1)" by (simp add: word_le_nat_alt)
  then show ?thesis using measure_unat[OF \<open>bm \<noteq> 0\<close>] by simp
qed

function ctz_loop :: "sparse_env \<Rightarrow> heap_tuple \<Rightarrow> DeformColDesc list \<Rightarrow> nat \<Rightarrow> uint8 \<Rightarrow> tuple_slot \<Rightarrow> nat \<Rightarrow> (tuple_slot \<times> nat) option" where
  "ctz_loop env tup descs base bm s off =
     (if bm \<noteq> 0
      then Option.bind (extract_column env tup descs (base + builtin_ctz bm) s off)
             (\<lambda>(s', off'). ctz_loop env tup descs base (bm AND (bm - 1)) s' off')
      else Some (s, off))"
  by pat_completeness auto
termination by (relation "measure (\<lambda>(env, tup, descs, base, bm, s, off). unat bm)") (auto simp: clear_lowest_less)

definition t_bits_at :: "heap_tuple \<Rightarrow> nat \<Rightarrow> uint8 option" where
  "t_bits_at tup i = (if bits_off tup + i < length (t_bytes tup) then Some (t_bytes tup ! (bits_off tup + i)) else None)"

definition set_eight_null :: "nat \<Rightarrow> tuple_slot \<Rightarrow> tuple_slot option" where
  "set_eight_null base s =
     (if base + 8 \<le> tts_cap s
      then Some (s\<lparr>tts_values := (\<lambda>i. if base \<le> i \<and> i < base + 8 then Num 0 else tts_values s i),
                   tts_isnull := (\<lambda>i. if base \<le> i \<and> i < base + 8 then 1 else tts_isnull s i)\<rparr>)
      else None)"

function byte_loop :: "sparse_env \<Rightarrow> heap_tuple \<Rightarrow> DeformColDesc list \<Rightarrow> nat \<Rightarrow> nat \<Rightarrow> nat \<Rightarrow> tuple_slot \<Rightarrow> nat \<Rightarrow> (tuple_slot \<times> nat) option" where
  "byte_loop env tup descs bi nbytes limit s off =
     (if bi < nbytes
      then Option.bind (t_bits_at tup bi) (\<lambda>bm.
             if bi * 8 + 8 > limit then bits_loop env tup descs bm (bi * 8) limit s off
             else Option.bind (set_eight_null (bi * 8) s) (\<lambda>s1.
                  Option.bind (ctz_loop env tup descs (bi * 8) bm s1 off)
                    (\<lambda>(s', off'). byte_loop env tup descs (bi + 1) nbytes limit s' off')))
      else Some (s, off))"
  by pat_completeness auto
termination by (relation "measure (\<lambda>(env, tup, descs, bi, nbytes, limit, s, off). nbytes - bi)") auto

definition bitmap_columns :: "sparse_env \<Rightarrow> heap_tuple \<Rightarrow> DeformColDesc list \<Rightarrow> nat \<Rightarrow> nat \<Rightarrow> tuple_slot \<Rightarrow> nat \<Rightarrow> (tuple_slot \<times> nat) option" where
  "bitmap_columns env tup descs attnum limit s off =
     (let start_byte = attnum div 8; nbytes = (limit + 7) div 8
      in if attnum mod 8 > 0
         then Option.bind (t_bits_at tup start_byte) (\<lambda>bm.
              Option.bind (bits_loop env tup descs bm attnum (min (start_byte * 8 + 8) limit) s off)
                (\<lambda>(s', off'). byte_loop env tup descs (start_byte + 1) nbytes limit s' off'))
         else byte_loop env tup descs start_byte nbytes limit s off)"

definition deform_sparse_dispatch :: "sparse_env \<Rightarrow> heap_tuple \<Rightarrow> tuple_slot \<Rightarrow> nat \<Rightarrow> DeformColDesc list \<Rightarrow> bool \<Rightarrow> tuple_slot option" where
  "deform_sparse_dispatch env tup s natts descs is_minimal =
     (if (if is_minimal then tts_ops s = TTSOpsMinimalTuple else is_heap (tts_ops s)) \<and> 0 \<le> sint (tts_nvalid s)
      then (let attnum = nat (sint (tts_nvalid s));
                maxatt = tuple_natts tup;
                s1 = (if maxatt < natts then fill_missing (deform_env.truncate env) maxatt natts s else s);
                off = (if attnum = 0 then 0 else unat (tts_off s));
                limit = min natts maxatt
            in map_option (\<lambda>(s2, off'). finish_slot natts off' s2)
                 (if \<not> tuple_hasnulls tup then dense_loop env tup descs attnum limit s1 off
                  else bitmap_columns env tup descs attnum limit s1 off))
      else None)"

declare dense_loop.simps [simp del] bits_loop.simps [simp del] ctz_loop.simps [simp del] byte_loop.simps [simp del]

section \<open>The helper deforms the tuple\<close>

definition documented_sparse :: "sparse_env \<Rightarrow> bool" where
  "documented_sparse env \<longleftrightarrow>
     (\<forall>tup off. off < length (tuple_data tup) \<longrightarrow> varatt_not_pad_byte env tup off = Some (tuple_data tup ! off \<noteq> 0)) \<and>
     (\<forall>tup att off sz. att_size (deform_env.truncate env) tup att off = Some sz \<and> off + sz \<le> length (tuple_data tup) \<and>
        (attbyval att \<longrightarrow> attlen att \<in> {1, 2, 4, 8}) \<longrightarrow>
        fetch_att env tup off (attbyval att) (attlen att) = Some (att_value tup att off) \<and>
        att_addlength_pointer env tup off (attlen att) = Some (off + sz))"

definition descs_ok :: "CompactAttribute list \<Rightarrow> nat \<Rightarrow> bool" where
  "descs_ok desc n \<longleftrightarrow> n \<le> length desc \<and>
     (\<forall>a < n. att_ok (desc ! a) \<and> (attbyval (desc ! a) \<longrightarrow> attlen (desc ! a) \<in> {1, 2, 4, 8}))"

lemma extract_ok:
  assumes "documented_sparse env" "descs_ok desc n" "a < n" "a < tts_cap s" "\<not> att_isnull tup a"
    and "deform_column (deform_env.truncate env) tup (desc ! a) a off = Some (v, isnull, off')"
  shows "extract_column env tup (map build_descriptor (take n desc)) a s off = Some (put_column a v isnull s, off')"
proof -
  obtain start sz where st: "att_start tup (desc ! a) off = Some start" "att_size (deform_env.truncate env) tup (desc ! a) start = Some sz"
      "start + sz \<le> length (tuple_data tup)" "v = att_value tup (desc ! a) start" "isnull = 0" "off' = start + sz"
    using assms(5,6) by (auto simp: deform_column_def bind_eq_Some_conv split: if_splits)
  have ok: "att_ok (desc ! a)" "attbyval (desc ! a) \<longrightarrow> attlen (desc ! a) \<in> {1, 2, 4, 8}" "a < length desc"
    using assms(2,3) by (auto simp: descs_ok_def)
  have al: "attalignby (desc ! a) \<in> {1, 2, 4, 8}" using ok(1) by (simp add: att_ok_def)
  have "deform_align env tup (build_descriptor (desc ! a)) off = Some start"
  proof (cases "attlen (desc ! a) = -1")
    case True
    then have "off < length (tuple_data tup)" using st(1) by (simp add: att_start_def split: if_splits)
    then show ?thesis using st(1) True assms(1) TYPEALIGN_int[OF al, of off]
      by (auto simp: att_start_def deform_align_def build_descriptor_def deform_att_align_pointer_def documented_sparse_def)
  next
    case False
    moreover have "align_to 1 off = off" by (simp add: align_to_def)
    ultimately show ?thesis using st(1) al TYPEALIGN_int[OF al, of off]
      by (auto simp: att_start_def deform_align_def build_descriptor_def deform_att_align_nominal_def)
  qed
  moreover have "fetch_att env tup start (attbyval (desc ! a)) (attlen (desc ! a)) = Some (att_value tup (desc ! a) start)"
      "att_addlength_pointer env tup start (attlen (desc ! a)) = Some (start + sz)"
    using assms(1) st(2,3) ok(2) by (auto simp: documented_sparse_def)
  ultimately show ?thesis
    using assms(3,4) ok(3) st(4-6) by (simp add: extract_column_def Let_def) (simp add: build_descriptor_def)
qed

lemma columns_step:
  assumes "deform_columns env tup desc a limit s off = Some r" "a < limit"
  obtains v isnull off1 where "deform_column env tup (desc ! a) a off = Some (v, isnull, off1)"
    "deform_columns env tup desc (a + 1) limit (put_column a v isnull s) off1 = Some r"
  using assms by (subst (asm) deform_columns.simps) (auto split: option.splits)

lemma columns_split:
  assumes "a \<le> mid" "mid \<le> limit" "deform_columns env tup desc a limit s off = Some r"
  obtains s1 off1 where "deform_columns env tup desc a mid s off = Some (s1, off1)"
    "deform_columns env tup desc mid limit s1 off1 = Some r"
proof -
  have "\<exists>s1 off1. deform_columns env tup desc a mid s off = Some (s1, off1) \<and> deform_columns env tup desc mid limit s1 off1 = Some r"
    using assms
  proof (induction "mid - a" arbitrary: a s off)
    case 0
    then show ?case by (simp add: deform_columns_done)
  next
    case (Suc d)
    then have lt: "a < mid" "a < limit" by simp_all
    obtain v isnull off1 where c: "deform_column env tup (desc ! a) a off = Some (v, isnull, off1)"
        "deform_columns env tup desc (a + 1) limit (put_column a v isnull s) off1 = Some r"
      using columns_step[OF Suc.prems(3) lt(2)] .
    then show ?case using Suc.hyps(1)[OF _ _ _ c(2)] Suc.hyps(2) Suc.prems(2) lt by (subst deform_columns.simps) auto
  qed
  then show ?thesis using that by blast
qed

lemma put_column_frame [simp]: "tts_cap (put_column a v n s) = tts_cap s"
  by (simp add: put_column_def)

lemma dense_loop_ok:
  assumes "documented_sparse env" "descs_ok desc n" "limit \<le> n" "limit \<le> tts_cap s" "\<not> tuple_hasnulls tup"
    and "deform_columns (deform_env.truncate env) tup desc a limit s off = Some r"
  shows "dense_loop env tup (map build_descriptor (take n desc)) a limit s off = Some r"
  using assms(4,6)
proof (induction "limit - a" arbitrary: a s off)
  case 0
  then show ?case by (simp add: deform_columns_done dense_loop.simps)
next
  case (Suc d)
  then have lt: "a < limit" by simp
  obtain v isnull off1 where c: "deform_column (deform_env.truncate env) tup (desc ! a) a off = Some (v, isnull, off1)"
      "deform_columns (deform_env.truncate env) tup desc (a + 1) limit (put_column a v isnull s) off1 = Some r"
    using columns_step[OF Suc.prems(2) lt] .
  have "extract_column env tup (map build_descriptor (take n desc)) a s off = Some (put_column a v isnull s, off1)"
    using extract_ok[OF assms(1,2) _ _ _ c(1)] lt Suc.prems(1) assms(3,5) by (simp add: att_isnull_def)
  then show ?case using Suc.hyps(1)[OF _ _ c(2)] Suc.hyps(2) Suc.prems(1) lt by (subst dense_loop.simps) simp
qed

lemma bit_and_one: "(bm AND push_bit k 1 = 0) \<longleftrightarrow> \<not> bit bm k" if "k < 8" for bm :: uint8
proof -
  have "bm AND push_bit k 1 = (if bit bm k then push_bit k 1 else 0)"
    using that by (auto intro!: bit_eqI simp: bit_simps)
  moreover have "push_bit k 1 \<noteq> (0 :: uint8)"
    using that by (auto simp: bit_eq_iff[of "push_bit k 1" "0 :: uint8"] bit_simps)
  ultimately show ?thesis by simp
qed

lemma null_column_ref:
  "att_isnull tup a \<Longrightarrow> deform_column env tup att a off = Some (v, isnull, off') \<longleftrightarrow> v = Num 0 \<and> isnull = 1 \<and> off' = off"
  by (auto simp: deform_column_def)

lemma bits_loop_ok:
  assumes "documented_sparse env" "descs_ok desc n" "end_col \<le> n" "end_col \<le> tts_cap s" "tuple_hasnulls tup"
    and "\<forall>c. a \<le> c \<and> c < end_col \<longrightarrow> t_bytes tup ! (bits_off tup + c div 8) = bm"
    and "deform_columns (deform_env.truncate env) tup desc a end_col s off = Some r"
  shows "bits_loop env tup (map build_descriptor (take n desc)) bm a end_col s off = Some r"
  using assms(4,6,7)
proof (induction "end_col - a" arbitrary: a s off)
  case 0
  then show ?case by (simp add: deform_columns_done bits_loop.simps)
next
  case (Suc d)
  then have lt: "a < end_col" by simp
  obtain v isnull off1 where c: "deform_column (deform_env.truncate env) tup (desc ! a) a off = Some (v, isnull, off1)"
      "deform_columns (deform_env.truncate env) tup desc (a + 1) end_col (put_column a v isnull s) off1 = Some r"
    using columns_step[OF Suc.prems(3) lt] .
  have nul: "att_isnull tup a \<longleftrightarrow> bm AND push_bit (a mod 8) 1 = 0"
    using Suc.prems(2) lt assms(5) bit_and_one[of "a mod 8" bm] by (simp add: att_isnull_def)
  have IH: "bits_loop env tup (map build_descriptor (take n desc)) bm (a + 1) end_col (put_column a v isnull s) off1 = Some r"
    using Suc.hyps(1)[OF _ _ _ c(2)] Suc.hyps(2) Suc.prems(1,2) by simp
  show ?case
  proof (cases "att_isnull tup a")
    case True
    then show ?thesis using c(1) IH nul lt Suc.prems(1) null_column_ref[OF True]
      by (subst bits_loop.simps) (simp add: null_column_def)
  next
    case False
    then have "extract_column env tup (map build_descriptor (take n desc)) a s off = Some (put_column a v isnull s, off1)"
      using extract_ok[OF assms(1,2) _ _ False c(1)] lt Suc.prems(1) assms(3) by simp
    then show ?thesis using IH nul False lt by (subst bits_loop.simps) simp
  qed
qed

text \<open>The columns of a byte from \<open>a\<close> on, set to null.\<close>

definition nulled :: "nat \<Rightarrow> nat \<Rightarrow> tuple_slot \<Rightarrow> tuple_slot" where
  "nulled a b s = s\<lparr>tts_values := (\<lambda>i. if a \<le> i \<and> i < b then Num 0 else tts_values s i),
                    tts_isnull := (\<lambda>i. if a \<le> i \<and> i < b then 1 else tts_isnull s i)\<rparr>"

lemma nulled_null: "a < b \<Longrightarrow> nulled (a + 1) b (put_column a (Num 0) 1 s) = nulled a b s"
  by (auto simp: nulled_def put_column_def fun_eq_iff)

lemma nulled_put: "a < b \<Longrightarrow> put_column a v n (nulled a b s) = nulled (a + 1) b (put_column a v n s)"
  by (auto simp: nulled_def put_column_def fun_eq_iff)

lemma nulled_empty [simp]: "nulled a a s = s"
  by (cases s) (auto simp: nulled_def fun_eq_iff)

lemma nulled_frame [simp]: "tts_cap (nulled a b s) = tts_cap s"
  by (simp add: nulled_def)

lemma builtin_ctz_eq: "bit bm k \<Longrightarrow> \<forall>j<k. \<not> bit bm j \<Longrightarrow> builtin_ctz bm = k"
proof -
  assume k: "bit bm k" "\<forall>j<k. \<not> bit bm j"
  then have "k < 8" using bit_imp_le_length[of bm k] by simp
  then have "[0..<8] = [0..<k] @ k # [Suc k..<8]"
    using upt_add_eq_append[of 0 k "8 - k"] upt_conv_Cons[of k 8] by simp
  moreover have "filter (bit bm) [0..<k] = []" using k(2) by simp
  ultimately show ?thesis using k(1) by (simp add: builtin_ctz_def)
qed

lemma ctz_loop_ok:
  assumes "documented_sparse env" "descs_ok desc n" "base + 8 \<le> n" "base + 8 \<le> tts_cap s" "tuple_hasnulls tup"
    and "base mod 8 = 0" "k \<le> 8" "\<forall>j<k. \<not> bit bm j"
    and "\<forall>j. k \<le> j \<and> j < 8 \<longrightarrow> bit bm j = bit (t_bytes tup ! (bits_off tup + base div 8)) j"
    and "deform_columns (deform_env.truncate env) tup desc (base + k) (base + 8) s off = Some r"
  shows "ctz_loop env tup (map build_descriptor (take n desc)) base bm (nulled (base + k) (base + 8) s) off = Some r"
  using assms(4,7-10)
proof (induction "8 - k" arbitrary: k bm s off)
  case 0
  then have "k = 8" by simp
  moreover have "bm = 0" using 0 \<open>k = 8\<close> by (intro bit_eqI) simp
  ultimately show ?case using 0 by (simp add: deform_columns_done ctz_loop.simps)
next
  case (Suc d)
  then have k: "k < 8" by simp
  obtain v isnull off1 where c: "deform_column (deform_env.truncate env) tup (desc ! (base + k)) (base + k) off = Some (v, isnull, off1)"
      "deform_columns (deform_env.truncate env) tup desc (base + k + 1) (base + 8) (put_column (base + k) v isnull s) off1 = Some r"
    using columns_step[OF Suc.prems(5)] k by auto
  obtain q where "base = 8 * q" using assms(6) by (auto simp: mod_eq_0_iff_dvd dvd_def)
  then have "(base + k) div 8 = base div 8" "(base + k) mod 8 = k" using k by simp_all
  then have nul: "att_isnull tup (base + k) \<longleftrightarrow> \<not> bit bm k"
    using Suc.prems(4) k assms(5) by (simp add: att_isnull_def)
  show ?case
  proof (cases "bit bm k")
    case False
    then have "v = Num 0 \<and> isnull = 1 \<and> off1 = off" using c(1) nul null_column_ref by metis
    moreover have "\<forall>j<k + 1. \<not> bit bm j" using Suc.prems(3) False less_Suc_eq by auto
    ultimately show ?thesis
      using Suc.hyps(1)[of "k + 1" "put_column (base + k) v isnull s" bm off1] Suc.hyps(2) Suc.prems(1,4) c(2) k
        nulled_null[of "base + k" "base + 8" s] by (simp add: add.assoc)
  next
    case True
    then have ctz: "builtin_ctz bm = k" and "bm \<noteq> 0" using Suc.prems(3) builtin_ctz_eq by auto
    let ?s = "nulled (base + k) (base + 8) s"
    have ex: "extract_column env tup (map build_descriptor (take n desc)) (base + k) ?s off = Some (put_column (base + k) v isnull ?s, off1)"
      using extract_ok[OF assms(1,2) _ _ _ c(1)] nul True k assms(3) Suc.prems(1) by simp
    have bits: "bit (bm AND (bm - 1)) j \<longleftrightarrow> bit bm j \<and> j \<noteq> k" for j
      by (rule clear_lowest[OF True Suc.prems(3)])
    have "ctz_loop env tup (map build_descriptor (take n desc)) base (bm AND (bm - 1))
        (nulled (base + (k + 1)) (base + 8) (put_column (base + k) v isnull s)) off1 = Some r"
      by (rule Suc.hyps(1)) (use Suc.hyps(2) Suc.prems(1,3,4) c(2) k bits less_Suc_eq in \<open>auto simp: add.assoc\<close>)
    then show ?thesis using ctz \<open>bm \<noteq> 0\<close> ex k nulled_put[of "base + k" "base + 8" v isnull s]
      by (subst ctz_loop.simps) (simp add: add.assoc)
  qed
qed

lemma byte_loop_ok:
  assumes "documented_sparse env" "descs_ok desc n" "limit \<le> n" "limit \<le> tts_cap s" "tuple_hasnulls tup" "tuple_fits tup"
    and "limit \<le> tuple_natts tup" "deform_columns (deform_env.truncate env) tup desc (bi * 8) limit s off = Some r"
  shows "byte_loop env tup (map build_descriptor (take n desc)) bi ((limit + 7) div 8) limit s off = Some r"
  using assms(4,8)
proof (induction "(limit + 7) div 8 - bi" arbitrary: bi s off)
  case 0
  then have "\<not> bi < (limit + 7) div 8" "limit \<le> bi * 8" by simp_all
  then show ?case using 0 by (simp add: deform_columns_done byte_loop.simps)
next
  case (Suc d)
  then have lt: "bi < (limit + 7) div 8" and lt8: "bi * 8 < limit" by linarith+
  then have bm: "t_bits_at tup bi = Some (t_bytes tup ! (bits_off tup + bi))"
    using assms(5,6,7) by (auto simp: t_bits_at_def tuple_fits_def)
  show ?case
  proof (cases "bi * 8 + 8 > limit")
    case True
    have "bits_loop env tup (map build_descriptor (take n desc)) (t_bytes tup ! (bits_off tup + bi)) (bi * 8) limit s off = Some r"
    proof (rule bits_loop_ok[OF assms(1,2,3) Suc.prems(1) assms(5) _ Suc.prems(2)], intro allI impI)
      fix c assume "bi * 8 \<le> c \<and> c < limit"
      then have "c div 8 = bi" using True by auto
      then show "t_bytes tup ! (bits_off tup + c div 8) = t_bytes tup ! (bits_off tup + bi)" by simp
    qed
    then show ?thesis using lt bm True by (subst byte_loop.simps) simp
  next
    case False
    then have le: "bi * 8 + 8 \<le> limit" by simp
    obtain s1 off1 where sp: "deform_columns (deform_env.truncate env) tup desc (bi * 8) (bi * 8 + 8) s off = Some (s1, off1)"
        "deform_columns (deform_env.truncate env) tup desc (bi * 8 + 8) limit s1 off1 = Some r"
      using columns_split[OF _ le Suc.prems(2)] by auto
    have "ctz_loop env tup (map build_descriptor (take n desc)) (bi * 8) (t_bytes tup ! (bits_off tup + bi)) (nulled (bi * 8 + 0) (bi * 8 + 8) s) off = Some (s1, off1)"
      by (rule ctz_loop_ok[OF assms(1,2) _ _ assms(5)]) (use le assms(3) Suc.prems(1) sp(1) in auto)
    moreover have "set_eight_null (bi * 8) s = Some (nulled (bi * 8) (bi * 8 + 8) s)"
      using le Suc.prems(1) by (simp add: set_eight_null_def nulled_def)
    moreover have "tts_cap s1 = tts_cap s" using deform_columns_frame[OF sp(1)] by simp
    moreover have "byte_loop env tup (map build_descriptor (take n desc)) (bi + 1) ((limit + 7) div 8) limit s1 off1 = Some r"
      by (rule Suc.hyps(1)) (use Suc.hyps(2) Suc.prems(1) sp(2) calculation(3) in \<open>auto simp: algebra_simps\<close>)
    ultimately show ?thesis using lt bm le by (subst byte_loop.simps) simp
  qed
qed

text \<open>The byte of the bitmap at which the helper starts belongs to the tuple.\<close>

definition first_byte_ok :: "heap_tuple \<Rightarrow> tuple_slot \<Rightarrow> bool" where
  "first_byte_ok tup s \<longleftrightarrow> tuple_hasnulls tup \<longrightarrow> bits_off tup + unat (tts_nvalid s) div 8 < length (t_bytes tup)"

lemma bitmap_columns_ok:
  assumes "documented_sparse env" "descs_ok desc n" "limit \<le> n" "limit \<le> tts_cap s" "tuple_hasnulls tup" "tuple_fits tup"
    and "limit \<le> tuple_natts tup" "bits_off tup + a div 8 < length (t_bytes tup)"
    and "deform_columns (deform_env.truncate env) tup desc a limit s off = Some r"
  shows "bitmap_columns env tup (map build_descriptor (take n desc)) a limit s off = Some r"
proof (cases "a mod 8 > 0")
  case False
  then have "a = a div 8 * 8" by presburger
  then show ?thesis
    using False byte_loop_ok[OF assms(1-7), of "a div 8"] assms(9) by (simp add: bitmap_columns_def Let_def)
next
  case True
  let ?stop = "min (a div 8 * 8 + 8) limit"
  have bm: "t_bits_at tup (a div 8) = Some (t_bytes tup ! (bits_off tup + a div 8))"
    using assms(8) by (simp add: t_bits_at_def)
  obtain s1 off1 where sp: "deform_columns (deform_env.truncate env) tup desc a ?stop s off = Some (s1, off1)"
      "deform_columns (deform_env.truncate env) tup desc ((a div 8 + 1) * 8) limit s1 off1 = Some r"
  proof (cases "a < limit")
    case lt: True
    have "a \<le> ?stop" using lt by (simp add: min_def) linarith
    from columns_split[OF this _ assms(9)] obtain s1 off1
      where sp: "deform_columns (deform_env.truncate env) tup desc a ?stop s off = Some (s1, off1)"
        "deform_columns (deform_env.truncate env) tup desc ?stop limit s1 off1 = Some r" by auto
    moreover have "deform_columns (deform_env.truncate env) tup desc ((a div 8 + 1) * 8) limit s1 off1 = Some r"
    proof (cases "a div 8 * 8 + 8 \<le> limit")
      case True
      then show ?thesis using sp(2) by (simp add: algebra_simps)
    next
      case False
      then show ?thesis using sp(2) by (simp add: deform_columns_done)
    qed
    ultimately show ?thesis using that by blast
  next
    case False
    moreover have "a < (a div 8 + 1) * 8" by presburger
    ultimately have "limit \<le> (a div 8 + 1) * 8" "?stop \<le> a" by simp_all
    then show ?thesis using that False assms(9) by (cases r) (simp add: deform_columns_done)
  qed
  have "bits_loop env tup (map build_descriptor (take n desc)) (t_bytes tup ! (bits_off tup + a div 8)) a ?stop s off = Some (s1, off1)"
  proof (rule bits_loop_ok[OF assms(1,2) _ _ assms(5) _ sp(1)])
    show "\<forall>c. a \<le> c \<and> c < ?stop \<longrightarrow> t_bytes tup ! (bits_off tup + c div 8) = t_bytes tup ! (bits_off tup + a div 8)"
    proof (intro allI impI)
      fix c assume "a \<le> c \<and> c < ?stop"
      then have "c div 8 = a div 8" by auto
      then show "t_bytes tup ! (bits_off tup + c div 8) = t_bytes tup ! (bits_off tup + a div 8)" by simp
    qed
  qed (use assms(3,4) in auto)
  moreover have "limit \<le> tts_cap s1" using deform_columns_frame[OF sp(1)] assms(4) by simp
  ultimately show ?thesis
    using True bm byte_loop_ok[OF assms(1-3) _ assms(5-7) sp(2)] by (simp add: bitmap_columns_def Let_def)
qed

lemma nat_sint_nvalid: "0 \<le> sint (w :: int16) \<Longrightarrow> nat (sint w) = unat w"
proof -
  assume "0 \<le> sint w"
  then have k: "sint w = int (nat (sint w))" by simp
  then have "(word_of_int (sint w) :: uint64) = of_nat (nat (sint w))" by (metis of_int_of_nat_eq)
  then have "(scast w :: uint64) = of_nat (nat (sint w))" by simp
  moreover have "nat (sint w) < 2 ^ 15" using sint_less[of w] by simp
  ultimately show ?thesis using nvalid_equal[of "nat (sint w)" w] by simp
qed

text \<open>C8 (equivalence): the helper for wide nullable tables leaves the slot exactly as deforming the tuple
  column by column does: whether the tuple has nulls or not, wherever in a byte of the bitmap the
  first missing column is, and although it sets eight columns to null before it visits the bits that are set.\<close>

theorem sparse_deform_agrees:
  assumes "documented_sparse env" "descs_ok desc natts" "tuple_fits tup" "natts \<le> tts_cap s" "0 \<le> sint (tts_nvalid s)"
    and "first_byte_ok tup s" "if is_minimal then tts_ops s = TTSOpsMinimalTuple else is_heap (tts_ops s)"
    and "deform_tuple (deform_env.truncate env) tup desc natts s = Some s'"
  shows "deform_sparse_dispatch env tup s natts (map build_descriptor (take natts desc)) is_minimal = Some s'"
proof -
  define s1 where "s1 = (if tuple_natts tup < natts then fill_missing (deform_env.truncate env) (tuple_natts tup) natts s else s)"
  define a where "a = unat (tts_nvalid s)"
  define off where "off = (if a = 0 then 0 else unat (tts_off s))"
  have a: "nat (sint (tts_nvalid s)) = a"
    unfolding a_def by (rule nat_sint_nvalid[OF assms(5)])
  obtain s2 off2 where run: "deform_columns (deform_env.truncate env) tup desc a (min natts (tuple_natts tup)) s1 off = Some (s2, off2)"
    and s': "s' = finish_slot natts off2 s2"
    using assms(8) by (auto simp: deform_tuple_def Let_def s1_def a_def off_def)
  have cap: "min natts (tuple_natts tup) \<le> tts_cap s1" using assms(4) by (simp add: s1_def)
  have "(if \<not> tuple_hasnulls tup then dense_loop env tup (map build_descriptor (take natts desc)) a (min natts (tuple_natts tup)) s1 off
      else bitmap_columns env tup (map build_descriptor (take natts desc)) a (min natts (tuple_natts tup)) s1 off) = Some (s2, off2)"
    using dense_loop_ok[OF assms(1,2) _ cap _ run] bitmap_columns_ok[OF assms(1,2) _ cap _ assms(3) _ _ run] assms(6)
    by (simp add: first_byte_ok_def a_def)
  then show ?thesis using assms(5,7) s'
    by (cases "tuple_hasnulls tup") (simp_all add: deform_sparse_dispatch_def Let_def a flip: s1_def off_def)
qed

text \<open>Ten nullable int2 columns, of which the first, the third and the last are stored.\<close>

definition wide_desc :: "CompactAttribute list" where
  "wide_desc = replicate 10
     \<lparr>attlen = 2, attbyval = True, attalignby = 2, attnotnull = False, atthasmissing = False, attisdropped = False\<rparr>"

definition wide_tuple :: heap_tuple where
  "wide_tuple = \<lparr>t_infomask = 1, t_infomask2 = 10, t_hoff = 32,
     t_bytes = replicate 23 0 @ [5, 2, 0, 0, 0, 0, 0, 0, 0, 1, 0, 2, 0, 3, 0], bits_off = 23\<rparr>"

definition wide_slot :: tuple_slot where
  "wide_slot = \<lparr>tts_ops = TTSOpsMinimalTuple, tts_nvalid = 0, tts_flags = 0, tts_off = 0, tts_cap = 10,
     tts_values = (\<lambda>_. Num 9), tts_isnull = (\<lambda>_. 0)\<rparr>"

definition example_att :: "bool \<Rightarrow> int \<Rightarrow> CompactAttribute" where
  "example_att byval len = \<lparr>attlen = len, attbyval = byval, attalignby = 1, attnotnull = False, atthasmissing = False, attisdropped = False\<rparr>"

definition example_sparse_env :: sparse_env where
  "example_sparse_env = \<lparr>missing_attr = missing_attr example_deform_env, varsize_any = varsize_any example_deform_env,
     varatt_not_pad_byte = (\<lambda>tup off. if off < length (tuple_data tup) then Some (tuple_data tup ! off \<noteq> 0) else None),
     fetch_att = (\<lambda>tup off byval len. Some (att_value tup (example_att byval len) off)),
     att_addlength_pointer = (\<lambda>tup off len. map_option ((+) off) (att_size example_deform_env tup (example_att False len) off))\<rparr>"

lemma example_truncate: "deform_env.truncate example_sparse_env = example_deform_env"
  by (simp add: deform_env.truncate_def example_sparse_env_def)

lemma example_sparse_documented: "documented_sparse example_sparse_env"
proof -
  have size: "att_size example_deform_env tup (example_att False (attlen att)) off = att_size example_deform_env tup att off" for tup att off
    by (simp add: att_size_def example_att_def)
  have "att_value tup (example_att (attbyval att) (attlen att)) off = att_value tup att off" for tup att off
    by (simp add: att_value_def example_att_def Let_def)
  then show ?thesis
    unfolding documented_sparse_def example_truncate using size by (simp add: example_sparse_env_def)
qed

lemma wide_deformed:
  "map_option (\<lambda>s. (map (tts_isnull s) [0..<10], tts_values s 0, tts_values s 2, tts_values s 9))
     (deform_tuple example_deform_env wide_tuple wide_desc 10 wide_slot) =
   Some ([0, 1, 0, 1, 1, 1, 1, 1, 1, 0], Num 1, Num 2, Num 3)"
  by code_simp

lemma wide_hypotheses:
  "descs_ok wide_desc 10" "tuple_fits wide_tuple" "10 \<le> tts_cap wide_slot" "0 \<le> sint (tts_nvalid wide_slot)"
  "first_byte_ok wide_tuple wide_slot" "if True then tts_ops wide_slot = TTSOpsMinimalTuple else is_heap (tts_ops wide_slot)"
  by (simp_all add: descs_ok_def wide_desc_def att_ok_def tuple_fits_def wide_tuple_def tuple_natts_def wide_slot_def first_byte_ok_def)

theorem sparse_deform_agrees_witness:
  "\<exists>s'. deform_sparse_dispatch example_sparse_env wide_tuple wide_slot 10 (map build_descriptor (take 10 wide_desc)) True = Some s' \<and>
     map (tts_isnull s') [0..<10] = [0, 1, 0, 1, 1, 1, 1, 1, 1, 0] \<and> tts_values s' 9 = Num 3"
proof -
  obtain s' where s': "deform_tuple (deform_env.truncate example_sparse_env) wide_tuple wide_desc 10 wide_slot = Some s'"
      "map (tts_isnull s') [0..<10] = [0, 1, 0, 1, 1, 1, 1, 1, 1, 0]" "tts_values s' 9 = Num 3"
    unfolding example_truncate using wide_deformed by (auto simp del: upt_rec_numeral)
  from sparse_deform_agrees[OF example_sparse_documented wide_hypotheses(1-6) s'(1)] s'(2,3)
  show ?thesis by simp
qed

end
