(* ===== verification/DeformDispatch.thy ===== *)
theory DeformDispatch
  imports DeformSparse
begin

text \<open>
  Choosing the deforming function of a slot (\<open>pg_jitter_compiled_deform_dispatch\<close> of
  \<open>pg_jitter_deform_jit.c\<close>): the function shared between parallel workers, the cache keyed by the address of the
  descriptor, the cache keyed by the attributes, compilation, and the interpreter.
\<close>

section \<open>State\<close>

text \<open>A descriptor at an address. \<open>td_attrs\<close> are the fields of the attributes that the hash covers.\<close>

record tuple_desc =
  tdtypeid :: uint32
  tdtypmod :: uint32
  td_attrs :: "CompactAttribute list"

record 'fn DeformDispatchEntry =
  de_attrs_hash :: uint32
  de_natts :: nat
  de_ops :: slot_ops
  de_fn :: 'fn
  de_attrs :: "CompactAttribute list"

record 'fn DispatchFastEntry =
  fe_desc :: nat
  fe_ops :: slot_ops
  fe_natts :: nat
  fe_attrs_hash :: uint32
  fe_tdtypeid :: uint32
  fe_tdtypmod :: uint32
  fe_fn :: 'fn

record 'fn dispatch_state =
  deform_dispatch_cache :: "'fn DeformDispatchEntry list"
  dispatch_fast :: "'fn DispatchFastEntry list"
  shared_deform_fn :: "'fn option"
  shared_deform_natts :: nat
  shared_deform_attrs_hash :: uint32
  shared_deform_ops_kind :: nat
  shared_deform_tdtypeid :: uint32
  shared_deform_tdtypmod :: uint32
  shared_deform_valid_desc :: "nat option"
  shared_deform_valid_ops :: "slot_ops option"

definition DEFORM_DISPATCH_CACHE_SIZE :: nat where "DEFORM_DISPATCH_CACHE_SIZE = 32"
definition DEFORM_MAX_CACHED_ATTRS :: nat where "DEFORM_MAX_CACHED_ATTRS = 16"
definition DISPATCH_FASTPATH_SIZE :: nat where "DISPATCH_FASTPATH_SIZE = 4"

lemmas dispatch_sizes = DEFORM_DISPATCH_CACHE_SIZE_def DEFORM_MAX_CACHED_ATTRS_def DISPATCH_FASTPATH_SIZE_def

definition SHARED_DEFORM_OPS_INVALID :: nat where "SHARED_DEFORM_OPS_INVALID = 0"

definition shared_deform_slot_ops_kind :: "slot_ops \<Rightarrow> nat" where
  "shared_deform_slot_ops_kind ops =
     (if ops = TTSOpsHeapTuple then 1 else if ops = TTSOpsBufferHeapTuple then 2
      else if ops = TTSOpsMinimalTuple then 3 else SHARED_DEFORM_OPS_INVALID)"

text \<open>The settings, the checksum of PostgreSQL over the attributes and the two compilers.\<close>

record 'fn dispatch_env =
  pg_jitter_deform_cache :: bool
  wide_deform_limit :: nat
  deform_threshold :: nat
  attrs_crc :: "CompactAttribute list \<Rightarrow> uint32"
  compile_deform_loop :: "CompactAttribute list \<Rightarrow> slot_ops \<Rightarrow> nat \<Rightarrow> 'fn option"
  compile_deform :: "CompactAttribute list \<Rightarrow> slot_ops \<Rightarrow> nat \<Rightarrow> 'fn option"

section \<open>Operations\<close>

definition deform_attrs_hash :: "'fn dispatch_env \<Rightarrow> tuple_desc \<Rightarrow> nat \<Rightarrow> uint32" where
  "deform_attrs_hash env d natts = attrs_crc env (take natts (td_attrs d))"

definition deform_desc_has_nullable :: "tuple_desc \<Rightarrow> nat \<Rightarrow> bool" where
  "deform_desc_has_nullable d natts = list_ex (\<lambda>att. \<not> attnotnull att) (take natts (td_attrs d))"

definition pg_jitter_deform_dispatch_reset_fastpath :: "'fn dispatch_state \<Rightarrow> 'fn dispatch_state" where
  "pg_jitter_deform_dispatch_reset_fastpath st = st\<lparr>dispatch_fast := []\<rparr>"

definition pg_jitter_reset_shared_deform :: "'fn dispatch_state \<Rightarrow> 'fn dispatch_state" where
  "pg_jitter_reset_shared_deform st = st\<lparr>shared_deform_fn := None, shared_deform_natts := 0, shared_deform_attrs_hash := 0,
     shared_deform_ops_kind := SHARED_DEFORM_OPS_INVALID, shared_deform_tdtypeid := 0, shared_deform_tdtypmod := - 1,
     shared_deform_valid_desc := None, shared_deform_valid_ops := None\<rparr>"

text \<open>What the dispatch ends in: a compiled function is run, or \<open>slot_getsomeattrs_int\<close>.\<close>

datatype 'fn deform_action = Run_compiled 'fn | Slot_getsomeattrs_int

text \<open>The shared function, when its key matches; a match by hash is remembered.\<close>

definition shared_lookup :: "'fn dispatch_env \<Rightarrow> 'fn dispatch_state \<Rightarrow> nat \<Rightarrow> tuple_desc \<Rightarrow> slot_ops \<Rightarrow> nat \<Rightarrow> ('fn \<times> 'fn dispatch_state) option" where
  "shared_lookup env st addr d ops natts =
     (case shared_deform_fn st of None \<Rightarrow> None | Some f \<Rightarrow>
       if natts \<noteq> shared_deform_natts st then None
       else if shared_deform_valid_desc st = Some addr \<and> shared_deform_valid_ops st = Some ops
               \<and> tdtypeid d = shared_deform_tdtypeid st \<and> tdtypmod d = shared_deform_tdtypmod st
       then Some (f, st)
       else if shared_deform_slot_ops_kind ops = shared_deform_ops_kind st
               \<and> tdtypeid d = shared_deform_tdtypeid st \<and> tdtypmod d = shared_deform_tdtypmod st
               \<and> deform_attrs_hash env d natts = shared_deform_attrs_hash st
       then Some (f, st\<lparr>shared_deform_valid_desc := Some addr, shared_deform_valid_ops := Some ops\<rparr>)
       else None)"

definition fast_match :: "nat \<Rightarrow> tuple_desc \<Rightarrow> slot_ops \<Rightarrow> nat \<Rightarrow> 'fn DispatchFastEntry \<Rightarrow> bool" where
  "fast_match addr d ops natts fe \<longleftrightarrow>
     fe_desc fe = addr \<and> fe_ops fe = ops \<and> fe_natts fe = natts \<and> fe_tdtypeid fe = tdtypeid d \<and> fe_tdtypmod fe = tdtypmod d"

text \<open>The entry that matches moves to the front.\<close>

fun fast_lookup :: "nat \<Rightarrow> tuple_desc \<Rightarrow> slot_ops \<Rightarrow> nat \<Rightarrow> 'fn DispatchFastEntry list \<Rightarrow> 'fn DispatchFastEntry list \<Rightarrow>
    ('fn \<times> 'fn DispatchFastEntry list) option" where
  "fast_lookup addr d ops natts before [] = None"
| "fast_lookup addr d ops natts before (fe # after) =
     (if fast_match addr d ops natts fe then Some (fe_fn fe, fe # before @ after)
      else fast_lookup addr d ops natts (before @ [fe]) after)"

definition cache_match :: "'fn dispatch_env \<Rightarrow> tuple_desc \<Rightarrow> slot_ops \<Rightarrow> nat \<Rightarrow> 'fn DeformDispatchEntry \<Rightarrow> bool" where
  "cache_match env d ops natts e \<longleftrightarrow> de_natts e = natts \<and> de_ops e = ops \<and> de_attrs_hash e = deform_attrs_hash env d natts
     \<and> list_all (\<lambda>a. td_attrs d ! a = de_attrs e ! a) [0..<natts]"

definition compile_for :: "'fn dispatch_env \<Rightarrow> tuple_desc \<Rightarrow> slot_ops \<Rightarrow> nat \<Rightarrow> 'fn option" where
  "compile_for env d ops natts =
     (if natts > deform_threshold env \<or> natts \<ge> 64 \<and> deform_desc_has_nullable d natts
      then compile_deform_loop env (td_attrs d) ops natts
      else compile_deform env (td_attrs d) ops natts)"

definition cache_insert :: "'fn dispatch_env \<Rightarrow> tuple_desc \<Rightarrow> slot_ops \<Rightarrow> nat \<Rightarrow> 'fn \<Rightarrow> 'fn dispatch_state \<Rightarrow> 'fn dispatch_state" where
  "cache_insert env d ops natts f st =
     (if length (deform_dispatch_cache st) < DEFORM_DISPATCH_CACHE_SIZE \<and> natts \<le> DEFORM_MAX_CACHED_ATTRS
      then st\<lparr>deform_dispatch_cache := deform_dispatch_cache st @
             [\<lparr>de_attrs_hash = deform_attrs_hash env d natts, de_natts = natts, de_ops = ops, de_fn = f, de_attrs = take natts (td_attrs d)\<rparr>]\<rparr>
      else st)"

definition fast_insert :: "'fn dispatch_env \<Rightarrow> nat \<Rightarrow> tuple_desc \<Rightarrow> slot_ops \<Rightarrow> nat \<Rightarrow> 'fn \<Rightarrow> 'fn dispatch_state \<Rightarrow> 'fn dispatch_state" where
  "fast_insert env addr d ops natts f st =
     (let slot_idx = (if length (dispatch_fast st) < DISPATCH_FASTPATH_SIZE then length (dispatch_fast st) else DISPATCH_FASTPATH_SIZE - 1)
      in st\<lparr>dispatch_fast := \<lparr>fe_desc = addr, fe_ops = ops, fe_natts = natts, fe_attrs_hash = deform_attrs_hash env d natts,
              fe_tdtypeid = tdtypeid d, fe_tdtypmod = tdtypmod d, fe_fn = f\<rparr> # take slot_idx (dispatch_fast st)\<rparr>)"

definition compile_step :: "'fn dispatch_env \<Rightarrow> 'fn dispatch_state \<Rightarrow> nat \<Rightarrow> tuple_desc \<Rightarrow> slot_ops \<Rightarrow> nat \<Rightarrow> 'fn dispatch_state \<times> 'fn deform_action" where
  "compile_step env st addr d ops natts =
     (case compile_for env d ops natts of
        None \<Rightarrow> (st, Slot_getsomeattrs_int)
      | Some f \<Rightarrow>
          ((if pg_jitter_deform_cache env then fast_insert env addr d ops natts f (cache_insert env d ops natts f st) else st),
           Run_compiled f))"

definition pg_jitter_compiled_deform_dispatch ::
  "'fn dispatch_env \<Rightarrow> 'fn dispatch_state \<Rightarrow> nat \<Rightarrow> tuple_desc \<Rightarrow> slot_ops \<Rightarrow> nat \<Rightarrow> 'fn dispatch_state \<times> 'fn deform_action" where
  "pg_jitter_compiled_deform_dispatch env st addr d ops natts =
     (if natts > wide_deform_limit env then (st, Slot_getsomeattrs_int)
      else case shared_lookup env st addr d ops natts of
        Some (f, st') \<Rightarrow> (st', Run_compiled f)
      | None \<Rightarrow>
          if \<not> pg_jitter_deform_cache env then compile_step env st addr d ops natts
          else case fast_lookup addr d ops natts [] (dispatch_fast st) of
            Some (f, fast') \<Rightarrow> (st\<lparr>dispatch_fast := fast'\<rparr>, Run_compiled f)
          | None \<Rightarrow>
              (case find (cache_match env d ops natts) (deform_dispatch_cache st) of
                 Some e \<Rightarrow> (fast_insert env addr d ops natts (de_fn e) st, Run_compiled (de_fn e))
               | None \<Rightarrow> compile_step env st addr d ops natts))"

text \<open>The last statements of \<open>pg_jitter_compile_shared_deform\<close> and of \<open>pg_jitter_attach_shared_deform\<close>.\<close>

definition set_shared_deform :: "'fn \<Rightarrow> nat \<Rightarrow> uint32 \<Rightarrow> nat \<Rightarrow> uint32 \<Rightarrow> uint32 \<Rightarrow> nat option \<Rightarrow> slot_ops option \<Rightarrow> 'fn dispatch_state \<Rightarrow> 'fn dispatch_state" where
  "set_shared_deform f natts hash kind typeid typmod valid_desc valid_ops st =
     st\<lparr>shared_deform_fn := Some f, shared_deform_natts := natts, shared_deform_attrs_hash := hash, shared_deform_ops_kind := kind,
        shared_deform_tdtypeid := typeid, shared_deform_tdtypmod := typmod,
        shared_deform_valid_desc := valid_desc, shared_deform_valid_ops := valid_ops\<rparr>"

definition publish_shared :: "'fn dispatch_env \<Rightarrow> 'fn \<Rightarrow> nat \<Rightarrow> tuple_desc \<Rightarrow> slot_ops \<Rightarrow> nat \<Rightarrow> 'fn dispatch_state \<Rightarrow> 'fn dispatch_state" where
  "publish_shared env f addr d ops natts =
     set_shared_deform f natts (deform_attrs_hash env d natts) (shared_deform_slot_ops_kind ops) (tdtypeid d) (tdtypmod d) (Some addr) (Some ops)"

section \<open>A session\<close>

text \<open>The descriptors in memory, the state of the dispatch, and, as a ghost, the addresses at which a descriptor has been replaced
  while a key of the state held the address: nothing in the code prevents this, and the pointer keys then belong to the former
  descriptor. \<open>code_for f attrs ops\<close> says that a function deforms the attributes of a slot of a kind; \<open>U\<close> are the layouts of the
  session. The function that is attached from the shared page is one for the layout whose hash and kind the page holds.\<close>

type_synonym 'fn session = "(nat \<Rightarrow> tuple_desc) \<times> 'fn dispatch_state \<times> nat set"

text \<open>The addresses that the state holds: the keys of the pointer cache and the descriptor remembered for the shared function.\<close>

definition key_addrs :: "'fn dispatch_state \<Rightarrow> nat set" where
  "key_addrs st = fe_desc ` set (dispatch_fast st) \<union> set_option (shared_deform_valid_desc st)"

definition start_state :: "'fn dispatch_state" where
  "start_state = \<lparr>deform_dispatch_cache = [], dispatch_fast = [], shared_deform_fn = None, shared_deform_natts = 0,
     shared_deform_attrs_hash = 0, shared_deform_ops_kind = SHARED_DEFORM_OPS_INVALID, shared_deform_tdtypeid = 0,
     shared_deform_tdtypmod = - 1, shared_deform_valid_desc = None, shared_deform_valid_ops = None\<rparr>"

definition layout :: "tuple_desc \<Rightarrow> nat \<Rightarrow> CompactAttribute list" where
  "layout d natts = take natts (td_attrs d)"

inductive session_step :: "'fn dispatch_env \<Rightarrow> ('fn \<Rightarrow> CompactAttribute list \<Rightarrow> slot_ops \<Rightarrow> bool) \<Rightarrow> CompactAttribute list set \<Rightarrow>
    'fn session \<Rightarrow> 'fn session \<Rightarrow> bool" for env code_for U where
  dispatched: "natts \<le> length (td_attrs (mem addr)) \<Longrightarrow> layout (mem addr) natts \<in> U \<Longrightarrow>
    st' = fst (pg_jitter_compiled_deform_dispatch (env\<lparr>pg_jitter_deform_cache := use_cache\<rparr>) st addr (mem addr) ops natts) \<Longrightarrow>
    session_step env code_for U (mem, st, stale) (mem, st', stale \<inter> key_addrs st')"
| context_released: "st' = pg_jitter_deform_dispatch_reset_fastpath st \<Longrightarrow>
    session_step env code_for U (mem, st, stale) (mem, st', stale \<inter> key_addrs st')"
| shared_reset: "st' = pg_jitter_reset_shared_deform st \<Longrightarrow>
    session_step env code_for U (mem, st, stale) (mem, st', stale \<inter> key_addrs st')"
| shared_published: "natts \<le> length (td_attrs (mem addr)) \<Longrightarrow> layout (mem addr) natts \<in> U \<Longrightarrow>
    shared_deform_slot_ops_kind ops \<noteq> SHARED_DEFORM_OPS_INVALID \<Longrightarrow> code_for f (layout (mem addr) natts) ops \<Longrightarrow>
    st' = publish_shared env f addr (mem addr) ops natts st \<Longrightarrow>
    session_step env code_for U (mem, st, stale) (mem, st', stale \<inter> key_addrs st')"
| shared_attached: "lay \<in> U \<Longrightarrow> shared_deform_slot_ops_kind ops \<noteq> SHARED_DEFORM_OPS_INVALID \<Longrightarrow> code_for f lay ops \<Longrightarrow>
    st' = set_shared_deform f (length lay) (attrs_crc env lay) (shared_deform_slot_ops_kind ops) typeid typmod None None st \<Longrightarrow>
    session_step env code_for U (mem, st, stale) (mem, st', stale \<inter> key_addrs st')"
| reallocated: "session_step env code_for U (mem, st, stale)
    (mem(addr := d), st, if addr \<in> key_addrs st then insert addr stale else stale)"

inductive session_reaches :: "'fn dispatch_env \<Rightarrow> ('fn \<Rightarrow> CompactAttribute list \<Rightarrow> slot_ops \<Rightarrow> bool) \<Rightarrow> CompactAttribute list set \<Rightarrow>
    'fn session \<Rightarrow> bool" for env code_for U where
  start: "session_reaches env code_for U (mem, start_state, {})"
| step: "session_reaches env code_for U c \<Longrightarrow> session_step env code_for U c c' \<Longrightarrow> session_reaches env code_for U c'"

text \<open>A key that holds the address of the descriptor answers, without a look at its attributes.\<close>

definition pointer_hit :: "'fn dispatch_state \<Rightarrow> nat \<Rightarrow> tuple_desc \<Rightarrow> slot_ops \<Rightarrow> nat \<Rightarrow> bool" where
  "pointer_hit st addr d ops natts \<longleftrightarrow>
     (shared_deform_fn st \<noteq> None \<and> natts = shared_deform_natts st \<and> shared_deform_valid_desc st = Some addr \<and> shared_deform_valid_ops st = Some ops
        \<and> tdtypeid d = shared_deform_tdtypeid st \<and> tdtypmod d = shared_deform_tdtypmod st)
     \<or> list_ex (fast_match addr d ops natts) (dispatch_fast st)"

section \<open>The function that runs is the one for the slot\<close>

definition compiles_correctly :: "'fn dispatch_env \<Rightarrow> ('fn \<Rightarrow> CompactAttribute list \<Rightarrow> slot_ops \<Rightarrow> bool) \<Rightarrow> bool" where
  "compiles_correctly env code_for \<longleftrightarrow>
     (\<forall>d ops natts f. compile_for env d ops natts = Some f \<longrightarrow> code_for f (layout d natts) ops)"

definition no_collision :: "'fn dispatch_env \<Rightarrow> CompactAttribute list set \<Rightarrow> bool" where
  "no_collision env U \<longleftrightarrow> (\<forall>a \<in> U. \<forall>b \<in> U. attrs_crc env a = attrs_crc env b \<longrightarrow> a = b)"

definition cache_ok :: "('fn \<Rightarrow> CompactAttribute list \<Rightarrow> slot_ops \<Rightarrow> bool) \<Rightarrow> 'fn dispatch_state \<Rightarrow> bool" where
  "cache_ok code_for st \<longleftrightarrow> length (deform_dispatch_cache st) \<le> DEFORM_DISPATCH_CACHE_SIZE \<and>
     (\<forall>e \<in> set (deform_dispatch_cache st). length (de_attrs e) = de_natts e \<and> de_natts e \<le> DEFORM_MAX_CACHED_ATTRS \<and>
        code_for (de_fn e) (de_attrs e) (de_ops e))"

definition fast_ok :: "('fn \<Rightarrow> CompactAttribute list \<Rightarrow> slot_ops \<Rightarrow> bool) \<Rightarrow> (nat \<Rightarrow> tuple_desc) \<Rightarrow> nat set \<Rightarrow> 'fn DispatchFastEntry list \<Rightarrow> bool" where
  "fast_ok code_for mem stale fast \<longleftrightarrow> length fast \<le> DISPATCH_FASTPATH_SIZE \<and>
     (\<forall>fe \<in> set fast. fe_desc fe \<notin> stale \<longrightarrow> code_for (fe_fn fe) (layout (mem (fe_desc fe)) (fe_natts fe)) (fe_ops fe))"

definition shared_ok :: "'fn dispatch_env \<Rightarrow> ('fn \<Rightarrow> CompactAttribute list \<Rightarrow> slot_ops \<Rightarrow> bool) \<Rightarrow> CompactAttribute list set \<Rightarrow>
    (nat \<Rightarrow> tuple_desc) \<Rightarrow> nat set \<Rightarrow> 'fn dispatch_state \<Rightarrow> bool" where
  "shared_ok env code_for U mem stale st \<longleftrightarrow>
     (\<forall>f. shared_deform_fn st = Some f \<longrightarrow> (\<exists>lay \<in> U. \<exists>ops. code_for f lay ops \<and> length lay = shared_deform_natts st \<and>
        shared_deform_attrs_hash st = attrs_crc env lay \<and> shared_deform_ops_kind st = shared_deform_slot_ops_kind ops \<and>
        shared_deform_slot_ops_kind ops \<noteq> SHARED_DEFORM_OPS_INVALID \<and>
        (\<forall>addr ops'. shared_deform_valid_desc st = Some addr \<and> addr \<notin> stale \<and> shared_deform_valid_ops st = Some ops' \<longrightarrow>
           ops' = ops \<and> layout (mem addr) (shared_deform_natts st) = lay)))"

definition session_inv :: "'fn dispatch_env \<Rightarrow> ('fn \<Rightarrow> CompactAttribute list \<Rightarrow> slot_ops \<Rightarrow> bool) \<Rightarrow> CompactAttribute list set \<Rightarrow>
    'fn session \<Rightarrow> bool" where
  "session_inv env code_for U c \<longleftrightarrow>
     (case c of (mem, st, stale) \<Rightarrow>
        cache_ok code_for st \<and> fast_ok code_for mem stale (dispatch_fast st) \<and> shared_ok env code_for U mem stale st)"

lemma kind_inject:
  "shared_deform_slot_ops_kind ops = shared_deform_slot_ops_kind ops' \<Longrightarrow> shared_deform_slot_ops_kind ops \<noteq> SHARED_DEFORM_OPS_INVALID \<Longrightarrow> ops = ops'"
  by (cases ops; cases ops') (auto simp: shared_deform_slot_ops_kind_def SHARED_DEFORM_OPS_INVALID_def)

lemma layout_length: "natts \<le> length (td_attrs d) \<Longrightarrow> length (layout d natts) = natts"
  by (simp add: layout_def)

text \<open>When a key with the address of the descriptor answers, its descriptor is the one the key was made for.\<close>

definition address_kept :: "nat set \<Rightarrow> 'fn dispatch_state \<Rightarrow> nat \<Rightarrow> tuple_desc \<Rightarrow> slot_ops \<Rightarrow> nat \<Rightarrow> bool" where
  "address_kept stale st addr d ops natts \<longleftrightarrow> addr \<notin> stale \<or> \<not> pointer_hit st addr d ops natts"

lemma shared_lookup_ok:
  assumes "shared_ok env code_for U mem stale st" "no_collision env U" "natts \<le> length (td_attrs (mem addr))" "layout (mem addr) natts \<in> U"
    and "shared_lookup env st addr (mem addr) ops natts = Some (f, st')"
  shows "(address_kept stale st addr (mem addr) ops natts \<longrightarrow> code_for f (layout (mem addr) natts) ops) \<and> shared_ok env code_for U mem stale st' \<and>
    deform_dispatch_cache st' = deform_dispatch_cache st \<and> dispatch_fast st' = dispatch_fast st"
proof -
  from assms(5) have f: "shared_deform_fn st = Some f" and n: "natts = shared_deform_natts st"
    by (auto simp: shared_lookup_def split: option.splits if_splits)
  then obtain lay lops where lay: "lay \<in> U" "code_for f lay lops" "length lay = natts" "shared_deform_attrs_hash st = attrs_crc env lay"
      "shared_deform_ops_kind st = shared_deform_slot_ops_kind lops" "shared_deform_slot_ops_kind lops \<noteq> SHARED_DEFORM_OPS_INVALID"
      "\<forall>addr ops'. shared_deform_valid_desc st = Some addr \<and> addr \<notin> stale \<and> shared_deform_valid_ops st = Some ops' \<longrightarrow>
           ops' = lops \<and> layout (mem addr) natts = lay"
    using assms(1) by (auto simp: shared_ok_def)
  consider "shared_deform_valid_desc st = Some addr" "shared_deform_valid_ops st = Some ops" "st' = st" "pointer_hit st addr (mem addr) ops natts"
    | "shared_deform_slot_ops_kind ops = shared_deform_ops_kind st" "deform_attrs_hash env (mem addr) natts = shared_deform_attrs_hash st"
      "st' = st\<lparr>shared_deform_valid_desc := Some addr, shared_deform_valid_ops := Some ops\<rparr>"
    using assms(5) f n by (auto simp: shared_lookup_def pointer_hit_def split: if_splits)
  then show ?thesis
  proof cases
    case 1
    then show ?thesis using lay assms(1) by (auto simp: address_kept_def)
  next
    case 2
    then have "ops = lops" using kind_inject[of ops lops] lay(5,6) by simp
    moreover have "layout (mem addr) natts = lay"
      using 2(2) lay(1,4) assms(2,4) by (simp add: no_collision_def deform_attrs_hash_def layout_def)
    ultimately show ?thesis using lay 2(3) f n by (auto simp: shared_ok_def)
  qed
qed

lemma fast_lookup_SomeD:
  "fast_lookup addr d ops natts before after = Some (f, fast') \<Longrightarrow>
     set fast' = set before \<union> set after \<and> length fast' = length before + length after \<and>
     (\<exists>fe \<in> set after. fast_match addr d ops natts fe \<and> fe_fn fe = f)"
  by (induction addr d ops natts before after rule: fast_lookup.induct) (auto split: if_splits)

lemma cache_match_layout:
  assumes "cache_match env d ops natts e" "length (de_attrs e) = de_natts e" "natts \<le> length (td_attrs d)"
  shows "de_attrs e = layout d natts" "de_ops e = ops"
  using assms by (auto simp: cache_match_def layout_def list_all_iff intro!: nth_equalityI)

lemma fast_insert_ok:
  assumes "fast_ok code_for mem stale (dispatch_fast st)" "code_for f (layout (mem addr) natts) ops"
  shows "fast_ok code_for mem stale (dispatch_fast (fast_insert env addr (mem addr) ops natts f st))"
  using assms by (auto simp: fast_ok_def fast_insert_def Let_def dispatch_sizes dest!: in_set_takeD)

lemma insert_frame [simp]:
  "deform_dispatch_cache (fast_insert env addr d ops natts f st) = deform_dispatch_cache st"
  "dispatch_fast (cache_insert env d ops natts f st) = dispatch_fast st"
  by (simp_all add: fast_insert_def cache_insert_def Let_def)

lemma shared_ok_cong:
  assumes "shared_deform_fn st' = shared_deform_fn st" "shared_deform_natts st' = shared_deform_natts st"
    "shared_deform_attrs_hash st' = shared_deform_attrs_hash st" "shared_deform_ops_kind st' = shared_deform_ops_kind st"
    "shared_deform_valid_desc st' = shared_deform_valid_desc st" "shared_deform_valid_ops st' = shared_deform_valid_ops st"
  shows "shared_ok env code_for U mem stale st' = shared_ok env code_for U mem stale st"
  using assms by (simp add: shared_ok_def)

lemma shared_ok_frame [simp]:
  "shared_ok env code_for U mem stale (fast_insert env' addr d ops natts f st) = shared_ok env code_for U mem stale st"
  "shared_ok env code_for U mem stale (cache_insert env' d ops natts f st) = shared_ok env code_for U mem stale st"
  "shared_ok env code_for U mem stale (st\<lparr>dispatch_fast := fast\<rparr>) = shared_ok env code_for U mem stale st"
  by (rule shared_ok_cong; simp add: fast_insert_def cache_insert_def Let_def)+

lemma cache_insert_ok:
  assumes "cache_ok code_for st" "code_for f (layout d natts) ops" "natts \<le> length (td_attrs d)"
  shows "cache_ok code_for (cache_insert env d ops natts f st)"
  using assms by (auto simp: cache_ok_def cache_insert_def layout_def)

lemma compile_for_ok:
  "compiles_correctly env code_for \<Longrightarrow> compile_for env d ops natts = Some f \<Longrightarrow> code_for f (layout d natts) ops"
  by (simp add: compiles_correctly_def)

lemma compile_step_ok:
  assumes "session_inv env0 code_for U (mem, st, stale)" "compiles_correctly env code_for" "natts \<le> length (td_attrs (mem addr))"
    and "compile_step env st addr (mem addr) ops natts = (st', act)"
  shows "session_inv env0 code_for U (mem, st', stale) \<and> (\<forall>f. act = Run_compiled f \<longrightarrow> code_for f (layout (mem addr) natts) ops)"
  using assms compile_for_ok[OF assms(2), of "mem addr" ops natts]
  by (auto simp: compile_step_def session_inv_def cache_insert_ok fast_insert_ok cache_ok_def[of _ "fast_insert _ _ _ _ _ _ _"]
      split: option.splits if_splits simp flip: cache_ok_def)

lemma compile_for_cache [simp]:
  "compile_for (env\<lparr>pg_jitter_deform_cache := b\<rparr>) d ops natts = compile_for env d ops natts"
  by (simp add: compile_for_def)

lemma env_cache_indep [simp]:
  "compiles_correctly (env\<lparr>pg_jitter_deform_cache := b\<rparr>) code_for = compiles_correctly env code_for"
  "no_collision (env\<lparr>pg_jitter_deform_cache := b\<rparr>) U = no_collision env U"
  "shared_ok (env\<lparr>pg_jitter_deform_cache := b\<rparr>) code_for U mem stale st = shared_ok env code_for U mem stale st"
  "session_inv (env\<lparr>pg_jitter_deform_cache := b\<rparr>) code_for U c = session_inv env code_for U c"
  by (simp_all add: compiles_correctly_def no_collision_def shared_ok_def session_inv_def)

lemma dispatch_ok:
  assumes inv: "session_inv env code_for U (mem, st, stale)" and ok: "compiles_correctly env code_for" "no_collision env U"
    and n: "natts \<le> length (td_attrs (mem addr))" "layout (mem addr) natts \<in> U"
    and run: "pg_jitter_compiled_deform_dispatch env st addr (mem addr) ops natts = (st', act)"
  shows "session_inv env code_for U (mem, st', stale) \<and>
    (address_kept stale st addr (mem addr) ops natts \<longrightarrow> (\<forall>f. act = Run_compiled f \<longrightarrow> code_for f (layout (mem addr) natts) ops))"
proof (cases "natts > wide_deform_limit env")
  case True
  then show ?thesis using run inv by (auto simp: pg_jitter_compiled_deform_dispatch_def)
next
  case False
  note step = compile_step_ok[OF inv ok(1) n(1), of ops st' act]
  show ?thesis
  proof (cases "shared_lookup env st addr (mem addr) ops natts")
    case (Some r)
    then obtain f st1 where r: "shared_lookup env st addr (mem addr) ops natts = Some (f, st1)" "act = Run_compiled f" "st' = st1"
      using run False by (cases r) (auto simp: pg_jitter_compiled_deform_dispatch_def)
    have "shared_ok env code_for U mem stale st" using inv by (simp add: session_inv_def)
    from shared_lookup_ok[OF this ok(2) n r(1)] show ?thesis
      using inv r(2,3) by (auto simp: session_inv_def cache_ok_def)
  next
    case None
    note nos = this
    show ?thesis
    proof (cases "pg_jitter_deform_cache env")
      case False
      then show ?thesis using step run nos \<open>\<not> natts > _\<close> by (simp add: pg_jitter_compiled_deform_dispatch_def)
    next
      case True
      show ?thesis
      proof (cases "fast_lookup addr (mem addr) ops natts [] (dispatch_fast st)")
        case (Some r)
        then obtain f fast' where r: "fast_lookup addr (mem addr) ops natts [] (dispatch_fast st) = Some (f, fast')"
            "act = Run_compiled f" "st' = st\<lparr>dispatch_fast := fast'\<rparr>"
          using run nos True \<open>\<not> natts > _\<close> by (cases r) (auto simp: pg_jitter_compiled_deform_dispatch_def)
        then show ?thesis
          using fast_lookup_SomeD[OF r(1)] inv by (auto simp: session_inv_def cache_ok_def fast_ok_def fast_match_def address_kept_def pointer_hit_def list_ex_iff)
      next
        case nofast: None
        show ?thesis
        proof (cases "find (cache_match env (mem addr) ops natts) (deform_dispatch_cache st)")
          case None
          then show ?thesis using step run nos nofast True \<open>\<not> natts > _\<close> by (simp add: pg_jitter_compiled_deform_dispatch_def)
        next
          case (Some e)
          then have e: "e \<in> set (deform_dispatch_cache st)" "cache_match env (mem addr) ops natts e"
            by (auto simp: find_Some_iff)
          then have "code_for (de_fn e) (layout (mem addr) natts) ops"
            using inv cache_match_layout[OF e(2) _ n(1)] by (auto simp: session_inv_def cache_ok_def)
          then show ?thesis using run nos nofast True Some \<open>\<not> natts > _\<close> inv
            by (auto simp: pg_jitter_compiled_deform_dispatch_def session_inv_def cache_ok_def fast_insert_ok)
        qed
      qed
    qed
  qed
qed

text \<open>An address that no key holds is not stale; a replaced descriptor makes the address stale.\<close>

lemma shared_ok_transfer:
  assumes "shared_ok env code_for U mem stale st"
    "\<And>a. shared_deform_valid_desc st = Some a \<Longrightarrow> a \<notin> stale' \<Longrightarrow> a \<notin> stale \<and> mem' a = mem a"
  shows "shared_ok env code_for U mem' stale' st"
  using assms unfolding shared_ok_def by metis

lemma fast_ok_transfer:
  assumes "fast_ok code_for mem stale fast" "\<And>fe. fe \<in> set fast \<Longrightarrow> fe_desc fe \<notin> stale' \<Longrightarrow> fe_desc fe \<notin> stale \<and> mem' (fe_desc fe) = mem (fe_desc fe)"
  shows "fast_ok code_for mem' stale' fast"
  using assms by (auto simp: fast_ok_def)

lemma session_inv_held:
  "session_inv env code_for U (mem, st, stale) \<Longrightarrow> session_inv env code_for U (mem, st, stale \<inter> key_addrs st)"
  by (auto simp: session_inv_def key_addrs_def elim: shared_ok_transfer fast_ok_transfer)

lemma session_inv_replaced:
  "session_inv env code_for U (mem, st, stale) \<Longrightarrow>
   session_inv env code_for U (mem(addr := d), st, if addr \<in> key_addrs st then insert addr stale else stale)"
  by (auto simp: session_inv_def key_addrs_def elim!: shared_ok_transfer fast_ok_transfer split: if_splits)

lemma session_step_inv:
  assumes "session_step env code_for U c c'" "session_inv env code_for U c" "compiles_correctly env code_for" "no_collision env U"
  shows "session_inv env code_for U c'"
  using assms(1,2)
proof cases
  case (dispatched natts mem addr st' use_cache st ops stale)
  obtain st1 act where r: "pg_jitter_compiled_deform_dispatch (env\<lparr>pg_jitter_deform_cache := use_cache\<rparr>) st addr (mem addr) ops natts = (st1, act)"
    by (cases "pg_jitter_compiled_deform_dispatch (env\<lparr>pg_jitter_deform_cache := use_cache\<rparr>) st addr (mem addr) ops natts")
  have "session_inv (env\<lparr>pg_jitter_deform_cache := use_cache\<rparr>) code_for U (mem, st, stale)"
      "compiles_correctly (env\<lparr>pg_jitter_deform_cache := use_cache\<rparr>) code_for" "no_collision (env\<lparr>pg_jitter_deform_cache := use_cache\<rparr>) U"
    using assms(2-4) dispatched(1) by simp_all
  from dispatch_ok[OF this dispatched(3,4) r]
  have "session_inv (env\<lparr>pg_jitter_deform_cache := use_cache\<rparr>) code_for U (mem, st1, stale)" ..
  then show ?thesis using dispatched(2,5) r by (auto intro: session_inv_held)
next
  case (context_released st' st mem stale)
  then show ?thesis using assms(2) unfolding context_released(2)
    by (intro session_inv_held) (auto simp: session_inv_def cache_ok_def fast_ok_def pg_jitter_deform_dispatch_reset_fastpath_def)
next
  case (shared_reset st' st mem stale)
  then show ?thesis using assms(2) unfolding shared_reset(2)
    by (intro session_inv_held) (auto simp: session_inv_def cache_ok_def shared_ok_def pg_jitter_reset_shared_deform_def)
next
  case (shared_published natts mem addr ops f st' st stale)
  then have "shared_ok env code_for U mem stale st'"
    unfolding shared_ok_def publish_shared_def set_shared_deform_def
    by (auto simp: deform_attrs_hash_def layout_length simp flip: layout_def intro!: bexI[of _ "layout (mem addr) natts"] exI[of _ ops])
  then show ?thesis using assms(2) shared_published(1,7) unfolding shared_published(2)
    by (intro session_inv_held) (auto simp: session_inv_def cache_ok_def publish_shared_def set_shared_deform_def)
next
  case (shared_attached lay ops f st' typeid typmod st mem stale)
  then show ?thesis using assms(2) unfolding shared_attached(2)
    by (intro session_inv_held) (auto simp: session_inv_def cache_ok_def shared_ok_def set_shared_deform_def)
next
  case (reallocated mem st stale addr d)
  then show ?thesis using assms(2) session_inv_replaced [of env code_for U mem st stale addr d] by simp
qed

lemma session_reaches_inv:
  assumes "session_reaches env code_for U c" "compiles_correctly env code_for" "no_collision env U"
  shows "session_inv env code_for U c"
  using assms(1)
proof induction
  case (start mem)
  then show ?case
    by (simp add: session_inv_def cache_ok_def fast_ok_def shared_ok_def start_state_def)
next
  case (step c c')
  then show ?case using session_step_inv assms(2,3) by blast
qed

text \<open>C9 (safety): in every reachable state of a session, whatever of the three caches answers or whether
  the code is compiled now, the function that the dispatch runs on a slot is one for the attributes of the descriptor and the kind of the slot,
  unless a key made for a former descriptor at the same address answers (\<open>address_kept\<close>). The session may release contexts, reset, publish
  and attach the shared function, switch the cache on and off, and replace any descriptor at any time; the ghost \<open>stale\<close> holds the addresses whose
  descriptor was replaced while a key held them. Hypotheses: the compilers produce code for their layout, the
  checksum tells the layouts of the session apart, and a function attached from the shared page is one for a layout with the page's hash.\<close>

theorem dispatch_runs_matching_code:
  assumes "compiles_correctly env code_for" "no_collision env U" "session_reaches env code_for U (mem, st, stale)"
    and "natts \<le> length (td_attrs (mem addr))" "layout (mem addr) natts \<in> U"
    and "address_kept stale st addr (mem addr) ops natts"
    and "pg_jitter_compiled_deform_dispatch env st addr (mem addr) ops natts = (st', Run_compiled f)"
  shows "code_for f (layout (mem addr) natts) ops"
  using dispatch_ok[OF session_reaches_inv[OF assms(3,1,2)] assms(1,2,4,5,7)] assms(6) by blast

text \<open>Two int4 columns and one int8 column; code is its own layout and kind.\<close>

definition col_of :: "int \<Rightarrow> CompactAttribute" where
  "col_of len = \<lparr>attlen = len, attbyval = True, attalignby = nat len, attnotnull = True, atthasmissing = False, attisdropped = False\<rparr>"

definition two_ints :: tuple_desc where
  "two_ints = \<lparr>tdtypeid = 2249, tdtypmod = - 1, td_attrs = [col_of 4, col_of 4]\<rparr>"

definition two_bigints :: tuple_desc where
  "two_bigints = \<lparr>tdtypeid = 2249, tdtypmod = - 1, td_attrs = [col_of 8, col_of 8]\<rparr>"

definition example_dispatch_env :: "(CompactAttribute list \<times> slot_ops) dispatch_env" where
  "example_dispatch_env = \<lparr>pg_jitter_deform_cache = True, wide_deform_limit = 1664, deform_threshold = 117,
     attrs_crc = (\<lambda>atts. case atts of [] \<Rightarrow> 0 | att # _ \<Rightarrow> word_of_int (attlen att)),
     compile_deform_loop = (\<lambda>atts ops n. Some (take n atts, ops)), compile_deform = (\<lambda>atts ops n. Some (take n atts, ops))\<rparr>"

definition example_code_for :: "CompactAttribute list \<times> slot_ops \<Rightarrow> CompactAttribute list \<Rightarrow> slot_ops \<Rightarrow> bool" where
  "example_code_for f atts ops \<longleftrightarrow> f = (atts, ops)"

lemma example_dispatch_hypotheses:
  "compiles_correctly example_dispatch_env example_code_for"
  "no_collision example_dispatch_env {layout two_ints 2, layout two_bigints 2}"
  by (auto simp: compiles_correctly_def compile_for_def example_dispatch_env_def example_code_for_def no_collision_def layout_def
      two_ints_def two_bigints_def col_of_def split: if_splits)

text \<open>The state after a first dispatch.\<close>

definition example_dispatched :: "(CompactAttribute list \<times> slot_ops) dispatch_state" where
  "example_dispatched =
     fst (pg_jitter_compiled_deform_dispatch example_dispatch_env start_state 7 two_ints TTSOpsMinimalTuple 2)"

text \<open>Then the descriptor at the address is replaced.\<close>

lemma example_session:
  "session_reaches example_dispatch_env example_code_for {layout two_ints 2, layout two_bigints 2}
     ((\<lambda>_. two_ints)(7 := d), example_dispatched, {7})"
proof (rule session_reaches.step)
  let ?U = "{layout two_ints 2, layout two_bigints 2}"
  have e: "example_dispatch_env\<lparr>pg_jitter_deform_cache := True\<rparr> = example_dispatch_env" by (simp add: example_dispatch_env_def)
  have k: "7 \<in> key_addrs example_dispatched" by code_simp
  show "session_reaches example_dispatch_env example_code_for ?U ((\<lambda>_. two_ints), example_dispatched, {})"
    using session_reaches.step[OF session_reaches.start dispatched[where env = example_dispatch_env and U = ?U and code_for = example_code_for and mem = "\<lambda>_. two_ints" and st' = example_dispatched and addr = 7 and natts = 2 and
      ops = TTSOpsMinimalTuple and use_cache = True]] e by (simp add: example_dispatched_def two_ints_def)
  show "session_step example_dispatch_env example_code_for ?U ((\<lambda>_. two_ints), example_dispatched, {})
      ((\<lambda>_. two_ints)(7 := d), example_dispatched, {7})"
    using reallocated[of _ _ ?U "\<lambda>_. two_ints" example_dispatched "{}" 7 d] k by simp
qed

text \<open>A descriptor that the keys tell from the former one: the dispatch compiles its own code.\<close>

definition named_bigints :: tuple_desc where "named_bigints = two_bigints\<lparr>tdtypmod := 3\<rparr>"

lemma example_second_dispatch:
  "snd (pg_jitter_compiled_deform_dispatch example_dispatch_env example_dispatched 7 named_bigints TTSOpsMinimalTuple 2) =
   Run_compiled ([col_of 8, col_of 8], TTSOpsMinimalTuple)"
  "\<not> pointer_hit example_dispatched 7 named_bigints TTSOpsMinimalTuple 2"
  by code_simp+

theorem dispatch_runs_matching_code_witness:
  "\<exists>st' f. pg_jitter_compiled_deform_dispatch example_dispatch_env example_dispatched 7 named_bigints TTSOpsMinimalTuple 2 =
     (st', Run_compiled f) \<and> example_code_for f (layout named_bigints 2) TTSOpsMinimalTuple"
proof -
  obtain st' where run: "pg_jitter_compiled_deform_dispatch example_dispatch_env example_dispatched 7 named_bigints TTSOpsMinimalTuple 2 =
      (st', Run_compiled ([col_of 8, col_of 8], TTSOpsMinimalTuple))"
    using example_second_dispatch(1) by (metis prod.collapse)
  have l: "layout named_bigints 2 = layout two_bigints 2" by (simp add: layout_def named_bigints_def)
  have "address_kept {7} example_dispatched 7 named_bigints TTSOpsMinimalTuple 2"
    using example_second_dispatch(2) by (simp add: address_kept_def)
  from dispatch_runs_matching_code[OF example_dispatch_hypotheses example_session[of named_bigints], of 2 7, simplified fun_upd_same, OF _ _ this run]
  show ?thesis using run l by (simp add: named_bigints_def two_bigints_def)
qed

text \<open>A code bug. The pointer cache does not look at the hash that its entries hold: in a session in which the address of a record
  descriptor is used again for another layout while an entry holds it, the old function runs.\<close>

lemma reused_address_runs_old_code:
  "\<exists>mem st st'. session_reaches example_dispatch_env example_code_for {layout two_ints 2, layout two_bigints 2} (mem, st, {7}) \<and> mem 7 = two_bigints \<and>
     pg_jitter_compiled_deform_dispatch example_dispatch_env st 7 (mem 7) TTSOpsMinimalTuple 2 = (st', Run_compiled ([col_of 4, col_of 4], TTSOpsMinimalTuple))"
proof -
  have "snd (pg_jitter_compiled_deform_dispatch example_dispatch_env example_dispatched 7 two_bigints TTSOpsMinimalTuple 2) =
      Run_compiled ([col_of 4, col_of 4], TTSOpsMinimalTuple)" by code_simp
  then obtain st' where "pg_jitter_compiled_deform_dispatch example_dispatch_env example_dispatched 7 two_bigints TTSOpsMinimalTuple 2 =
      (st', Run_compiled ([col_of 4, col_of 4], TTSOpsMinimalTuple))" by (metis prod.collapse)
  then show ?thesis
    by (intro exI[of _ "(\<lambda>_. two_ints)(7 := two_bigints)"] exI[of _ example_dispatched] exI[of _ st']) (simp add: example_session)
qed

text \<open>A function for more than sixteen columns is kept only by the pointer cache, and with the cache switched off not at
  all: after a release of any context, the next dispatch compiles again.\<close>

lemma wide_layouts_not_cached:
  assumes "natts > DEFORM_MAX_CACHED_ATTRS" "compile_for env d ops natts = Some f" "shared_deform_fn st = None"
    and "natts \<le> wide_deform_limit env" "cache_ok code_for st" "pg_jitter_deform_cache env"
  shows "pg_jitter_compiled_deform_dispatch env (pg_jitter_deform_dispatch_reset_fastpath st) addr d ops natts =
    (fast_insert env addr d ops natts f (pg_jitter_deform_dispatch_reset_fastpath st), Run_compiled f)"
proof -
  have "find (cache_match env d ops natts) (deform_dispatch_cache st) = None"
    using assms(1,5) by (auto simp: find_None_iff cache_ok_def cache_match_def)
  then show ?thesis using assms
    by (simp add: pg_jitter_compiled_deform_dispatch_def shared_lookup_def pg_jitter_deform_dispatch_reset_fastpath_def
        compile_step_def cache_insert_def)
qed

end
