(* ===== verification/DeformSession.thy ===== *)
theory DeformSession
  imports DeformDispatch
begin

text \<open>
  The dispatch together with the compiler: in a session, a dispatch for a narrow descriptor deforms the tuple
  of the slot, whichever cache the code comes from.
\<close>

text \<open>A function deforms the tuples of a layout in slots of a kind.\<close>

definition deforms :: "deform_env \<Rightarrow> (mstate \<Rightarrow> mstate option) \<Rightarrow> CompactAttribute list \<Rightarrow> slot_ops \<Rightarrow> bool" where
  "deforms denv f lay ops \<longleftrightarrow>
     (\<forall>m s'. let s = mslot m; tup = mtuple m; n = length lay in
        tts_ops s = ops \<and> tuple_fits tup \<and> desc_ok tup lay n \<and> n \<le> tts_cap s \<and> n < 2 ^ 15 \<and>
        guaranteed_stored tup lay n \<and> saved_offset_ok denv tup lay n s \<and> deform_tuple denv tup lay n s = Some s' \<longrightarrow>
        (\<exists>m'. f m = Some m' \<and> mslot m' = s'))"

text \<open>The layouts for which the unrolled compiler is chosen.\<close>

definition unrolled :: "'fn dispatch_env \<Rightarrow> CompactAttribute list \<Rightarrow> bool" where
  "unrolled env lay \<longleftrightarrow> length lay \<le> deform_threshold env \<and> (length lay < 64 \<or> list_all attnotnull lay)"

definition unrolled_deforms :: "'fn dispatch_env \<Rightarrow> deform_env \<Rightarrow> (mstate \<Rightarrow> mstate option) \<Rightarrow> CompactAttribute list \<Rightarrow> slot_ops \<Rightarrow> bool" where
  "unrolled_deforms env denv f lay ops \<longleftrightarrow> (unrolled env lay \<longrightarrow> deforms denv f lay ops)"

lemma guaranteed_column_take: "n \<le> length desc \<Longrightarrow> guaranteed_column (take n desc) n = guaranteed_column desc n"
  unfolding guaranteed_column_def by (rule fold_cong) auto

lemma compile_deform_take:
  "pg_jitter_compile_deform sj desc ops (int n) = Some f \<Longrightarrow> n \<le> length desc \<and> pg_jitter_compile_deform sj (take n desc) ops (int n) = Some f"
  by (auto simp: pg_jitter_compile_deform_def deform_program_def guaranteed_column_take Let_def split: if_splits)

lemma unrolled_choice:
  assumes "unrolled env (layout d natts)" "natts \<le> length (td_attrs d)"
  shows "compile_for env d ops natts = compile_deform env (td_attrs d) ops natts"
  using assms by (auto simp: unrolled_def compile_for_def deform_desc_has_nullable_def layout_def list_ex_iff list_all_iff)

lemma compiler_deforms:
  assumes "documented_sljit denv sj" "pg_jitter_compile_deform sj lay ops (int (length lay)) = Some f"
  shows "deforms denv f lay ops"
  unfolding deforms_def Let_def using compiled_refines[OF assms(1)] assms(2) by blast

definition uses_compiler :: "sljit \<Rightarrow> (mstate \<Rightarrow> mstate option) dispatch_env \<Rightarrow> bool" where
  "uses_compiler sj env \<longleftrightarrow> compile_deform env = (\<lambda>attrs ops n. pg_jitter_compile_deform sj attrs ops (int n)) \<and>
     (\<forall>attrs ops n f. compile_deform_loop env attrs ops n = Some f \<longrightarrow> n \<le> length attrs)"

lemma compiler_correct:
  assumes "documented_sljit denv sj" "uses_compiler sj env"
  shows "compiles_correctly env (unrolled_deforms env denv)"
  unfolding compiles_correctly_def unrolled_deforms_def
proof (intro allI impI)
  fix d ops natts f
  assume f: "compile_for env d ops natts = Some f" and un: "unrolled env (layout d natts)"
  have le: "natts \<le> length (td_attrs d)"
    using f assms(2) compile_deform_take[of sj "td_attrs d" ops natts f]
    by (auto simp: compile_for_def uses_compiler_def split: if_splits)
  then have "pg_jitter_compile_deform sj (td_attrs d) ops (int natts) = Some f"
    using f unrolled_choice[OF un le] assms(2) by (simp add: uses_compiler_def)
  then have "pg_jitter_compile_deform sj (layout d natts) ops (int (length (layout d natts))) = Some f"
    using compile_deform_take le by (simp add: layout_def)
  then show "deforms denv f (layout d natts) ops" by (rule compiler_deforms[OF assms(1)])
qed

text \<open>C7 (refinement): in every reachable state of a session with the deform compiler, a dispatch that runs compiled
  code on a slot whose descriptor is narrow enough for the unrolled compiler leaves the slot as deforming its tuple column by column does, unless a key made
  for a former descriptor at the same address answers (\<open>address_kept\<close>; see C9 for the session and the other hypotheses).\<close>

theorem dispatch_deforms_tuple:
  assumes "documented_sljit denv sj" "uses_compiler sj env" "no_collision env U"
    and "session_reaches env (unrolled_deforms env denv) U (mem, st, stale)"
    and "natts \<le> length (td_attrs (mem addr))" "lay = layout (mem addr) natts" "lay \<in> U" "unrolled env lay"
    and "address_kept stale st addr (mem addr) (tts_ops (mslot m)) natts"
    and "pg_jitter_compiled_deform_dispatch env st addr (mem addr) (tts_ops (mslot m)) natts = (st', Run_compiled f)"
    and "tuple_fits (mtuple m)" "desc_ok (mtuple m) lay natts" "natts \<le> tts_cap (mslot m)" "natts < 2 ^ 15"
    and "guaranteed_stored (mtuple m) lay natts" "saved_offset_ok denv (mtuple m) lay natts (mslot m)"
    and "deform_tuple denv (mtuple m) lay natts (mslot m) = Some s'"
  shows "\<exists>m'. f m = Some m' \<and> mslot m' = s'"
proof -
  have ok: "compiles_correctly env (unrolled_deforms env denv)" by (rule compiler_correct[OF assms(1,2)])
  have "session_inv env (unrolled_deforms env denv) U (mem, st, stale)" by (rule session_reaches_inv[OF assms(4) ok assms(3)])
  from dispatch_ok[OF this ok assms(3,5) assms(7)[unfolded assms(6)] assms(10)]
  have "unrolled_deforms env denv f lay (tts_ops (mslot m))" using assms(6,9) by blast
  then have "deforms denv f lay (tts_ops (mslot m))" using assms(8) by (simp add: unrolled_deforms_def)
  moreover have "length lay = natts" using assms(5,6) by (simp add: layout_length)
  ultimately show ?thesis using assms(11-17) by (auto simp: deforms_def Let_def)
qed

text \<open>The session of one slot, in its initial state.\<close>

definition session_env :: "(mstate \<Rightarrow> mstate option) dispatch_env" where
  "session_env = \<lparr>pg_jitter_deform_cache = True, wide_deform_limit = 1664, deform_threshold = 117, attrs_crc = (\<lambda>_. 0),
     compile_deform_loop = (\<lambda>_ _ _. None),
     compile_deform = (\<lambda>attrs ops n. pg_jitter_compile_deform example_sljit attrs ops (int n))\<rparr>"

definition session_desc :: tuple_desc where
  "session_desc = \<lparr>tdtypeid = 16384, tdtypmod = - 1, td_attrs = example_desc\<rparr>"

theorem dispatch_deforms_tuple_witness:
  "\<exists>st' f m'. pg_jitter_compiled_deform_dispatch session_env start_state 7 session_desc TTSOpsHeapTuple 5 = (st', Run_compiled f) \<and>
     f example_machine = Some m' \<and>
     map (tts_values (mslot m')) [0..<5] = [Num 7, Addr HdrB 26, Num 0, Num (- 1), Num 5]"
proof -
  have lay: "example_desc = layout session_desc 5" by (simp add: layout_def session_desc_def example_desc_def)
  have m: "mslot example_machine = example_slot" "mtuple example_machine = example_tuple" by (simp_all add: example_machine_def)
  obtain s' where s': "deform_tuple example_deform_env example_tuple example_desc 5 example_slot = Some s'"
      "map (tts_values s') [0..<5] = [Num 7, Addr HdrB 26, Num 0, Num (- 1), Num 5]"
    using example_deformed by auto
  obtain code where code: "pg_jitter_compile_deform example_sljit example_desc TTSOpsHeapTuple 5 = Some code"
    using example_hypotheses(1) by (auto simp: example_slot_def)
  then have "compile_for session_env session_desc TTSOpsHeapTuple 5 = Some code"
    by (simp add: compile_for_def session_env_def session_desc_def)
  then obtain st' where run: "pg_jitter_compiled_deform_dispatch session_env start_state 7 session_desc (tts_ops (mslot example_machine)) 5
      = (st', Run_compiled code)"
    by (simp add: pg_jitter_compiled_deform_dispatch_def shared_lookup_def start_state_def compile_step_def session_env_def m example_slot_def)
  have hyps: "uses_compiler example_sljit session_env" "no_collision session_env {example_desc}"
      "session_reaches session_env (unrolled_deforms session_env example_deform_env) {example_desc} ((\<lambda>_. session_desc), start_state, {})"
      "5 \<le> length (td_attrs session_desc)" "example_desc \<in> {example_desc}" "unrolled session_env example_desc"
    by (simp_all add: uses_compiler_def session_env_def no_collision_def session_reaches.start session_desc_def example_desc_def unrolled_def)
  have k: "address_kept {} start_state 7 session_desc (tts_ops (mslot example_machine)) 5" by (simp add: address_kept_def)
  have "5 \<le> tts_cap (mslot example_machine)" "(5 :: nat) < 2 ^ 15" by (simp_all add: m example_slot_def)
  from dispatch_deforms_tuple[OF example_sljit_documented hyps(1,2,3,4) lay hyps(5,6) k run _ _ this _ _ s'(1)[folded m]]
  show ?thesis using run s'(2) example_hypotheses(2-5) by (auto simp: m example_slot_def)
qed

end
