(* ===== verification/SharedCode.thy ===== *)
theory SharedCode
  imports InList
begin

text \<open>
  The segment through which the leader of a parallel query hands compiled code to its workers
  (\<open>pg_jitter_init_shared_dsm\<close>, \<open>pg_jitter_store_shared_code\<close> and \<open>pg_jitter_find_shared_code\<close> of
  \<open>pg_jitter_common.c\<close>): a header, entries that grow from the start and, at the end, the bytes of the shared deform
  function.
\<close>

section \<open>The segment\<close>

text \<open>The fields of \<open>SharedJitCompiledCode\<close>, and the bytes of the whole segment of which the first
  \<open>SHARED_HEADER_SIZE\<close> belong to the header. \<open>seg_size\<close> is what is mapped.\<close>

record dsm_segment =
  lock :: uint32
  num_entries :: int32
  capacity :: uint64
  used :: uint64
  deform_addr :: uint64
  deform_page_size :: uint64
  deform_used_size :: uint64
  deform_code_size :: uint64
  deform_desc_offset :: uint64
  deform_natts :: int32
  deform_attrs_hash :: uint32
  deform_ops_kind :: uint32
  deform_tdtypeid :: uint32
  deform_tdtypmod :: int32
  seg_bytes :: "nat \<Rightarrow> uint8"
  seg_size :: nat

definition SHARED_HEADER_SIZE :: uint64 where "SHARED_HEADER_SIZE = 88"
definition CODE_BYTES_OFFSET :: uint64 where "CODE_BYTES_OFFSET = 32"
definition SIZE_MAX :: uint64 where "SIZE_MAX = - 1"
definition MAXIMUM_ALIGNOF :: uint64 where "MAXIMUM_ALIGNOF = 8"

definition MAXALIGN :: "uint64 \<Rightarrow> uint64" where
  "MAXALIGN len = (len + (MAXIMUM_ALIGNOF - 1)) AND NOT (MAXIMUM_ALIGNOF - 1)"

lemmas shared_sizes = SHARED_HEADER_SIZE_def CODE_BYTES_OFFSET_def SIZE_MAX_def MAXIMUM_ALIGNOF_def

record SharedJitCodeEntry =
  plan_node_id :: int32
  expr_index :: int32
  expr_fingerprint :: uint64
  code_size :: uint64
  dylib_ref_addr :: uint64

text \<open>Bytes at an offset; an access beyond the segment has no result.\<close>

definition read_seg :: "dsm_segment \<Rightarrow> nat \<Rightarrow> nat \<Rightarrow> uint8 list option" where
  "read_seg sjc ofs n = (if ofs + n \<le> seg_size sjc then Some (map (seg_bytes sjc) [ofs..<ofs + n]) else None)"

definition write_seg :: "dsm_segment \<Rightarrow> nat \<Rightarrow> uint8 list \<Rightarrow> dsm_segment option" where
  "write_seg sjc ofs bs =
     (if ofs + length bs \<le> seg_size sjc
      then Some (sjc\<lparr>seg_bytes := (\<lambda>i. if ofs \<le> i \<and> i < ofs + length bs then bs ! (i - ofs) else seg_bytes sjc i)\<rparr>)
      else None)"

definition entry_bytes :: "SharedJitCodeEntry \<Rightarrow> uint8 list" where
  "entry_bytes e = bytes_of 4 (plan_node_id e) @ bytes_of 4 (expr_index e) @ bytes_of 8 (expr_fingerprint e)
     @ bytes_of 8 (code_size e) @ bytes_of 8 (dylib_ref_addr e)"

definition entry_of_bytes :: "uint8 list \<Rightarrow> SharedJitCodeEntry" where
  "entry_of_bytes bs = \<lparr>plan_node_id = le_word (take 4 bs), expr_index = le_word (take 4 (drop 4 bs)),
     expr_fingerprint = le_word (take 8 (drop 8 bs)), code_size = le_word (take 8 (drop 16 bs)),
     dylib_ref_addr = le_word (take 8 (drop 24 bs))\<rparr>"

section \<open>Initialising, storing and finding\<close>

text \<open>The leader sets four fields of a segment that \<open>dsm_create\<close> returned.\<close>

definition pg_jitter_init_shared_dsm :: "uint64 \<Rightarrow> dsm_segment \<Rightarrow> dsm_segment" where
  "pg_jitter_init_shared_dsm dsm_size sjc = sjc\<lparr>lock := 0, num_entries := 0, capacity := dsm_size, used := MAXALIGN SHARED_HEADER_SIZE\<rparr>"

text \<open>The spin lock: acquiring it when it is held does not return.\<close>

definition acquire :: "dsm_segment \<Rightarrow> dsm_segment option" where
  "acquire sjc = (if lock sjc = 0 then Some (sjc\<lparr>lock := 1\<rparr>) else None)"

definition release :: "dsm_segment \<Rightarrow> dsm_segment" where
  "release sjc = sjc\<lparr>lock := 0\<rparr>"

definition store_entry :: "dsm_segment \<Rightarrow> SharedJitCodeEntry \<Rightarrow> uint8 list \<Rightarrow> uint64 \<Rightarrow> dsm_segment option" where
  "store_entry sjc e code entry_size =
     Option.bind (write_seg sjc (unat (used sjc)) (entry_bytes e)) (\<lambda>sjc1.
       map_option (\<lambda>sjc2. sjc2\<lparr>used := used sjc2 + entry_size, num_entries := num_entries sjc2 + 1\<rparr>)
         (write_seg sjc1 (unat (used sjc) + unat CODE_BYTES_OFFSET) code))"

text \<open>\<open>code\<close> is \<open>None\<close> for the null pointer. The result is whether the entry is stored.\<close>

definition pg_jitter_store_shared_code ::
  "dsm_segment \<Rightarrow> uint8 list option \<Rightarrow> uint64 \<Rightarrow> int32 \<Rightarrow> int32 \<Rightarrow> uint64 \<Rightarrow> uint64 \<Rightarrow> (bool \<times> dsm_segment) option" where
  "pg_jitter_store_shared_code sjc code size_of_code node_id expr_idx fingerprint dylib_ref =
     (case code of None \<Rightarrow> Some (False, sjc) | Some bs \<Rightarrow>
       if size_of_code = 0 then Some (False, sjc)
       else if size_of_code > SIZE_MAX - CODE_BYTES_OFFSET then Some (False, sjc)
       else let entry_payload = CODE_BYTES_OFFSET + size_of_code in
         if entry_payload > SIZE_MAX - (MAXIMUM_ALIGNOF - 1) then Some (False, sjc)
         else let entry_size = MAXALIGN entry_payload in
           Option.bind (acquire sjc) (\<lambda>sjc.
             if deform_used_size sjc > capacity sjc then Some (False, release sjc)
             else let usable_capacity = capacity sjc - deform_used_size sjc in
               if used sjc > usable_capacity \<or> entry_size > usable_capacity - used sjc then Some (False, release sjc)
               else map_option (\<lambda>sjc'. (True, release sjc'))
                 (store_entry sjc \<lparr>plan_node_id = node_id, expr_index = expr_idx, expr_fingerprint = fingerprint,
                    code_size = size_of_code, dylib_ref_addr = dylib_ref\<rparr> bs entry_size)))"

text \<open>The result of a search: the offset of the code, its size and the address it was relocated from; or why
  there is none.\<close>

datatype shared_search = Shared_found uint64 uint64 uint64 | Shared_missing | Shared_invalid nat

text \<open>\<open>n\<close> entries are left.\<close>

fun find_loop :: "dsm_segment \<Rightarrow> uint64 \<Rightarrow> int32 \<Rightarrow> int32 \<Rightarrow> uint64 \<Rightarrow> nat \<Rightarrow> uint64 \<Rightarrow> shared_search option" where
  "find_loop sjc usable_capacity node_id expr_idx fingerprint 0 offset = Some Shared_missing"
| "find_loop sjc usable_capacity node_id expr_idx fingerprint (Suc n) offset =
     (if offset > usable_capacity \<or> CODE_BYTES_OFFSET > usable_capacity - offset then Some (Shared_invalid 3)
      else Option.bind (read_seg sjc (unat offset) (unat CODE_BYTES_OFFSET)) (\<lambda>bs.
        let e = entry_of_bytes bs in
        if code_size e > SIZE_MAX - CODE_BYTES_OFFSET then Some (Shared_invalid 4)
        else let entry_payload = CODE_BYTES_OFFSET + code_size e in
          if entry_payload > SIZE_MAX - (MAXIMUM_ALIGNOF - 1) then Some (Shared_invalid 5)
          else let entry_size = MAXALIGN entry_payload in
            if entry_size > usable_capacity - offset then Some (Shared_invalid 6)
            else if plan_node_id e = node_id \<and> expr_index e = expr_idx \<and> expr_fingerprint e = fingerprint
            then Some (Shared_found (offset + CODE_BYTES_OFFSET) (code_size e) (dylib_ref_addr e))
            else find_loop sjc usable_capacity node_id expr_idx fingerprint n (offset + entry_size)))"

definition pg_jitter_find_shared_code ::
  "dsm_segment \<Rightarrow> int32 \<Rightarrow> int32 \<Rightarrow> uint64 \<Rightarrow> (shared_search \<times> dsm_segment) option" where
  "pg_jitter_find_shared_code sjc node_id expr_idx fingerprint =
     Option.bind (acquire sjc) (\<lambda>sjc.
       map_option (\<lambda>r. (r, release sjc))
         (if deform_used_size sjc > capacity sjc then Some (Shared_invalid 1)
          else let usable_capacity = capacity sjc - deform_used_size sjc in
            if used sjc > usable_capacity then Some (Shared_invalid 2)
            else find_loop sjc usable_capacity node_id expr_idx fingerprint (nat (sint (num_entries sjc))) (MAXALIGN SHARED_HEADER_SIZE)))"

text \<open>The identity of an expression: the node of its plan and a counter over the context.\<close>

definition pg_jitter_get_expr_identity :: "int32 \<Rightarrow> int32 \<Rightarrow> (int32 \<times> int32) \<times> int32" where
  "pg_jitter_get_expr_identity node ordinal = ((node, ordinal), ordinal + 1)"

section \<open>Bytes and sizes\<close>

lemma length_bytes_of [simp]: "length (bytes_of n w) = n"
  by (simp add: bytes_of_def)

lemma le_word_bytes_of:
  assumes "8 * n = LENGTH('a::len)"
  shows "le_word (bytes_of n (w :: 'a word)) = w"
proof (rule bit_word_eqI)
  fix m assume m: "m < LENGTH('a)"
  then have "m div 8 < n" using assms by linarith
  then show "bit (le_word (bytes_of n w) :: 'a word) m \<longleftrightarrow> bit w m"
    using m by (simp add: bit_le_word bytes_of_def bit_simps)
qed

lemma length_entry_bytes [simp]: "length (entry_bytes e) = 32"
  by (simp add: entry_bytes_def)

lemma entry_of_entry_bytes [simp]: "entry_of_bytes (entry_bytes e) = e"
  by (cases e) (simp add: entry_of_bytes_def entry_bytes_def le_word_bytes_of)

lemma write_seg_frame:
  assumes "write_seg sjc ofs bs = Some sjc'"
  shows "sjc' = sjc\<lparr>seg_bytes := seg_bytes sjc'\<rparr>" "ofs + length bs \<le> seg_size sjc"
    "map (seg_bytes sjc') [ofs..<ofs + length bs] = bs"
    "i < ofs \<or> ofs + length bs \<le> i \<Longrightarrow> seg_bytes sjc' i = seg_bytes sjc i"
  using assms by (auto simp: write_seg_def split: if_splits intro!: nth_equalityI)

lemma and_not_mask_unat:
  fixes w :: "'a::len word"
  assumes "k < LENGTH('a)"
  shows "unat (w AND NOT (2 ^ k - 1)) = unat w div 2 ^ k * 2 ^ k"
proof -
  have m: "(2 :: 'a word) ^ k - 1 = Bit_Operations.mask k" by (simp add: mask_eq_exp_minus_1)
  have w: "w AND NOT (2 ^ k - 1) = push_bit k (drop_bit k w)"
    unfolding m by (rule bit_word_eqI) (simp only: bit_and_iff bit_not_iff bit_mask_iff bit_push_bit_iff bit_drop_bit_eq comp_apply, auto)
  have d: "unat (drop_bit k w) = unat w div 2 ^ k" unfolding unat_drop_bit_eq by (simp add: drop_bit_eq_div)
  have "unat w div 2 ^ k * 2 ^ k < 2 ^ LENGTH('a)"
    using unsigned_less[of w, where ?'a = nat] by (meson div_times_less_eq_dividend le_less_trans)
  then show ?thesis unfolding w unsigned_push_bit_eq d by (simp add: push_bit_eq_mult take_bit_nat_eq_self)
qed

lemma MAXALIGN_int:
  assumes "unat x \<le> 2 ^ 64 - 8"
  shows "unat (MAXALIGN x) = (unat x + 7) div 8 * 8"
proof -
  have "unat (x + 7) = unat x + 7" using assms by (simp add: unat_word_ariths)
  then show ?thesis using and_not_mask_unat[of 3 "x + 7"] by (simp add: MAXALIGN_def MAXIMUM_ALIGNOF_def)
qed

text \<open>The size of an entry, when the checks for overflow passed.\<close>

lemma entry_size_unat:
  assumes "\<not> n > SIZE_MAX - CODE_BYTES_OFFSET" "\<not> CODE_BYTES_OFFSET + n > SIZE_MAX - (MAXIMUM_ALIGNOF - 1)"
  shows "unat (CODE_BYTES_OFFSET + n) = 32 + unat n"
    and "unat (MAXALIGN (CODE_BYTES_OFFSET + n)) = (39 + unat n) div 8 * 8"
proof -
  have max: "unat (SIZE_MAX - CODE_BYTES_OFFSET) = 2 ^ 64 - 33" "unat (SIZE_MAX - (MAXIMUM_ALIGNOF - 1)) = 2 ^ 64 - 8"
    by (simp_all add: shared_sizes)
  have "unat n \<le> 2 ^ 64 - 33" using assms(1) max by (simp add: word_le_nat_alt not_less)
  then show p: "unat (CODE_BYTES_OFFSET + n) = 32 + unat n" by (simp add: CODE_BYTES_OFFSET_def unat_word_ariths)
  have "unat (CODE_BYTES_OFFSET + n) \<le> 2 ^ 64 - 8" using assms(2) max by (simp add: word_le_nat_alt not_less)
  then show "unat (MAXALIGN (CODE_BYTES_OFFSET + n)) = (39 + unat n) div 8 * 8"
    using p by (simp add: MAXALIGN_int)
qed


section \<open>The layout of the entries\<close>

text \<open>The bytes an entry takes, and what the segment holds when \<open>xs\<close> was stored in it from \<open>ofs\<close> on.\<close>

definition slot_size :: "nat \<Rightarrow> nat" where "slot_size n = (39 + n) div 8 * 8"

fun entries_at :: "dsm_segment \<Rightarrow> nat \<Rightarrow> (SharedJitCodeEntry \<times> uint8 list) list \<Rightarrow> bool" where
  "entries_at sjc ofs [] \<longleftrightarrow> unat (used sjc) = ofs"
| "entries_at sjc ofs ((e, bs) # xs) \<longleftrightarrow>
     map (seg_bytes sjc) [ofs..<ofs + 32] = entry_bytes e
     \<and> map (seg_bytes sjc) [ofs + 32..<ofs + 32 + length bs] = bs
     \<and> unat (code_size e) = length bs \<and> entries_at sjc (ofs + slot_size (length bs)) xs"

definition key_of :: "SharedJitCodeEntry \<Rightarrow> int32 \<times> int32 \<times> uint64" where
  "key_of e = (plan_node_id e, expr_index e, expr_fingerprint e)"

definition usable :: "dsm_segment \<Rightarrow> uint64" where "usable sjc = capacity sjc - deform_used_size sjc"

definition shared_inv :: "dsm_segment \<Rightarrow> (SharedJitCodeEntry \<times> uint8 list) list \<Rightarrow> bool" where
  "shared_inv sjc xs \<longleftrightarrow> lock sjc = 0 \<and> unat (capacity sjc) \<le> 2 ^ 30 \<and> unat (capacity sjc) \<le> seg_size sjc
     \<and> deform_used_size sjc \<le> capacity sjc \<and> used sjc \<le> usable sjc
     \<and> num_entries sjc = of_nat (length xs) \<and> entries_at sjc 88 xs"

lemma slot_size_bounds: "32 + n \<le> slot_size n" "slot_size n \<le> 39 + n" "32 \<le> slot_size n"
  by (auto simp: slot_size_def)

lemma entries_at_used:
  "entries_at sjc ofs xs \<Longrightarrow> unat (used sjc) = ofs + (\<Sum>(e, bs) \<leftarrow> xs. slot_size (length bs))"
  by (induction xs arbitrary: ofs) auto

lemma entries_at_length: "entries_at sjc ofs xs \<Longrightarrow> ofs + 32 * length xs \<le> unat (used sjc)"
proof (induction xs arbitrary: ofs)
  case (Cons x xs)
  obtain e bs where x: "x = (e, bs)" by (cases x)
  have "ofs + slot_size (length bs) + 32 * length xs \<le> unat (used sjc)" using Cons by (auto simp: x)
  then show ?case using slot_size_bounds(3)[of "length bs"] by simp
qed simp

lemma map_bytes_cong: "(\<And>i. a \<le> i \<Longrightarrow> i < b \<Longrightarrow> f i = g i) \<Longrightarrow> map f [a..<b] = map g [a..<b]"
  by simp

text \<open>Writing behind the entries keeps them; the new one is there.\<close>

lemma entries_at_append:
  assumes "entries_at sjc ofs xs"
    and same: "\<And>i. i < unat (used sjc) \<Longrightarrow> seg_bytes sjc' i = seg_bytes sjc i"
    and new: "entries_at sjc' (unat (used sjc)) [x]"
  shows "entries_at sjc' ofs (xs @ [x])"
  using assms(1)
proof (induction xs arbitrary: ofs)
  case Nil
  then show ?case using new by simp
next
  case (Cons y xs)
  obtain e bs where y: "y = (e, bs)" by (cases y)
  have ent: "map (seg_bytes sjc) [ofs..<ofs + 32] = entry_bytes e"
      "map (seg_bytes sjc) [ofs + 32..<ofs + 32 + length bs] = bs" "unat (code_size e) = length bs"
      "entries_at sjc (ofs + slot_size (length bs)) xs"
    using Cons.prems by (auto simp: y)
  have le: "ofs + 32 + length bs \<le> unat (used sjc)"
    using entries_at_length[OF ent(4)] slot_size_bounds(1)[of "length bs"] by simp
  have "map (seg_bytes sjc') [ofs..<ofs + 32] = map (seg_bytes sjc) [ofs..<ofs + 32]"
      "map (seg_bytes sjc') [ofs + 32..<ofs + 32 + length bs] = map (seg_bytes sjc) [ofs + 32..<ofs + 32 + length bs]"
    using le by (auto intro!: map_bytes_cong same)
  then show ?case using Cons.IH[OF ent(4)] ent by (simp add: y)
qed

lemma shared_inv_num:
  assumes "shared_inv sjc xs"
  shows "nat (sint (num_entries sjc)) = length xs" "length xs < 2 ^ 26"
proof -
  have "unat (used sjc) \<le> unat (capacity sjc)"
    using assms by (auto simp: shared_inv_def usable_def word_le_nat_alt unat_sub)
  then have "32 * length xs + 88 \<le> 2 ^ 30"
    using entries_at_length[of sjc 88 xs] assms by (auto simp: shared_inv_def)
  then show l: "length xs < 2 ^ 26" by simp
  have "num_entries sjc = word_of_nat (length xs)" using assms by (simp add: shared_inv_def)
  then have "sint (num_entries sjc) = int (length xs)"
    using l by (simp add: signed_of_nat signed_take_bit_int_eq_self)
  then show "nat (sint (num_entries sjc)) = length xs" by simp
qed


section \<open>What a store does\<close>

definition fits :: "dsm_segment \<Rightarrow> nat \<Rightarrow> bool" where
  "fits sjc n \<longleftrightarrow> 0 < n \<and> unat (used sjc) + slot_size n \<le> unat (usable sjc)"

lemma store_entry_effect:
  assumes "unat (used sjc) + slot_size (length bs) \<le> seg_size sjc" "unat (code_size e) = length bs"
    and "unat entry_size = slot_size (length bs)" "unat (used sjc) + slot_size (length bs) < 2 ^ 64"
  obtains sjc' where "store_entry sjc e bs entry_size = Some sjc'"
    and "sjc' = sjc\<lparr>seg_bytes := seg_bytes sjc', used := used sjc + entry_size, num_entries := num_entries sjc + 1\<rparr>"
    and "\<And>i. i < unat (used sjc) \<or> unat (used sjc) + slot_size (length bs) \<le> i \<Longrightarrow> seg_bytes sjc' i = seg_bytes sjc i"
    and "entries_at sjc' (unat (used sjc)) [(e, bs)]"
proof -
  let ?u = "unat (used sjc)"
  have fit: "?u + 32 + length bs \<le> seg_size sjc" using assms(1) slot_size_bounds(1)[of "length bs"] by simp
  then obtain sjc1 where w1: "write_seg sjc ?u (entry_bytes e) = Some sjc1" by (simp add: write_seg_def)
  note f1 = write_seg_frame[OF w1]
  have same1: "seg_size sjc1 = seg_size sjc" "used sjc1 = used sjc" "num_entries sjc1 = num_entries sjc"
    by (subst f1(1), simp)+
  then obtain sjc2 where w2: "write_seg sjc1 (?u + 32) bs = Some sjc2" using fit by (simp add: write_seg_def)
  note f2 = write_seg_frame[OF w2]
  have same2: "used sjc2 = used sjc" "num_entries sjc2 = num_entries sjc" using same1 by (subst f2(1), simp)+
  have all2: "sjc2 = sjc\<lparr>seg_bytes := seg_bytes sjc2\<rparr>" by (subst f2(1), subst f1(1)) simp
  let ?r = "sjc2\<lparr>used := used sjc2 + entry_size, num_entries := num_entries sjc2 + 1\<rparr>"
  show thesis
  proof (rule that[of ?r])
    show "store_entry sjc e bs entry_size = Some ?r"
      using w1 w2 by (simp add: store_entry_def CODE_BYTES_OFFSET_def)
    show "?r = sjc\<lparr>seg_bytes := seg_bytes ?r, used := used sjc + entry_size, num_entries := num_entries sjc + 1\<rparr>"
      by (subst all2) (simp add: same2)
    show "seg_bytes ?r i = seg_bytes sjc i" if "i < ?u \<or> ?u + slot_size (length bs) \<le> i" for i
      using that f1(4)[of i] f2(4)[of i] slot_size_bounds(1)[of "length bs"] by auto
    have "map (seg_bytes sjc2) [?u..<?u + 32] = entry_bytes e"
      using f1(3) f2(4) by (subst map_bytes_cong[of _ _ _ "seg_bytes sjc1"]) auto
    moreover have "unat (used sjc + entry_size) = ?u + slot_size (length bs)"
      using assms(3,4) by (simp add: unat_word_ariths)
    ultimately show "entries_at ?r ?u [(e, bs)]" using f2(3) assms(2) by (simp add: same2)
  qed
qed

text \<open>Storing appends to the list when the entry fits, and else changes nothing.\<close>

lemma store_refines:
  assumes inv: "shared_inv sjc xs" and size: "unat size_of_code = length bs"
    and e: "e = \<lparr>plan_node_id = node, expr_index = idx, expr_fingerprint = fp, code_size = size_of_code, dylib_ref_addr = a\<rparr>"
  shows "if fits sjc (length bs)
    then \<exists>sjc'. pg_jitter_store_shared_code sjc (Some bs) size_of_code node idx fp a = Some (True, sjc')
      \<and> shared_inv sjc' (xs @ [(e, bs)]) \<and> deform_used_size sjc' = deform_used_size sjc \<and> capacity sjc' = capacity sjc
      \<and> (\<forall>i \<ge> unat (usable sjc). seg_bytes sjc' i = seg_bytes sjc i)
    else pg_jitter_store_shared_code sjc (Some bs) size_of_code node idx fp a = Some (False, sjc)"
proof -
  have I: "lock sjc = 0" "unat (capacity sjc) \<le> 2 ^ 30" "unat (capacity sjc) \<le> seg_size sjc"
      "deform_used_size sjc \<le> capacity sjc" "used sjc \<le> usable sjc" "num_entries sjc = of_nat (length xs)" "entries_at sjc 88 xs"
    using inv by (simp_all add: shared_inv_def)
  have us: "unat (usable sjc) \<le> unat (capacity sjc)"
    using I(4) by (simp add: usable_def unat_sub)
  let ?l = "sjc\<lparr>lock := 1\<rparr>"
  have rel: "sjc\<lparr>lock := 0\<rparr> = sjc" using I(1) by simp
  have acq: "acquire sjc = Some ?l" using I(1) by (simp add: acquire_def)
  show ?thesis
  proof (cases "size_of_code = 0 \<or> size_of_code > SIZE_MAX - CODE_BYTES_OFFSET
      \<or> CODE_BYTES_OFFSET + size_of_code > SIZE_MAX - (MAXIMUM_ALIGNOF - 1)")
    case True
    have "\<not> fits sjc (length bs)"
    proof (cases "size_of_code = 0")
      case True
      then show ?thesis using size by (simp add: fits_def)
    next
      case False
      have "2 ^ 32 \<le> unat size_of_code"
      proof (rule ccontr)
        assume "\<not> ?thesis"
        then have s: "unat size_of_code < 2 ^ 32" by simp
        then have "unat (CODE_BYTES_OFFSET + size_of_code) = 32 + unat size_of_code"
          by (simp add: CODE_BYTES_OFFSET_def unat_word_ariths)
        then show False using True False s by (auto simp: shared_sizes word_less_nat_alt)
      qed
      then show ?thesis using size us I(2) slot_size_bounds(1)[of "length bs"] by (simp add: fits_def)
    qed
    then show ?thesis using True by (auto simp: pg_jitter_store_shared_code_def Let_def)
  next
    case False
    define n where "n = MAXALIGN (CODE_BYTES_OFFSET + size_of_code)"
    have n: "unat n = slot_size (length bs)"
      using False entry_size_unat(2)[of size_of_code] size by (simp add: n_def slot_size_def)
    have pos: "0 < length bs" using False size by (metis gr0I unat_eq_zero)
    have store: "pg_jitter_store_shared_code sjc (Some bs) size_of_code node idx fp a
        = (if used sjc > usable sjc \<or> n > usable sjc - used sjc then Some (False, sjc)
           else map_option (\<lambda>sjc'. (True, release sjc')) (store_entry ?l e bs n))"
    proof -
      have neg: "(size_of_code = 0) = False" "(size_of_code > SIZE_MAX - CODE_BYTES_OFFSET) = False"
          "(CODE_BYTES_OFFSET + size_of_code > SIZE_MAX - (MAXIMUM_ALIGNOF - 1)) = False"
          "(deform_used_size sjc > capacity sjc) = False"
        using False I(4) by auto
      show ?thesis
        by (simp only: pg_jitter_store_shared_code_def option.case neg if_False Let_def acq)
          (simp add: neg n_def usable_def release_def e rel)
    qed
    have test: "n > usable sjc - used sjc \<longleftrightarrow> \<not> fits sjc (length bs)"
      using I(5) pos n by (auto simp: fits_def word_less_nat_alt unat_sub word_le_nat_alt)
    show ?thesis
    proof (cases "fits sjc (length bs)")
      case False
      then show ?thesis using store test by simp
    next
      case True
      then have room: "unat (used sjc) + slot_size (length bs) \<le> unat (usable sjc)" by (simp add: fits_def)
      obtain sjc' where S: "store_entry ?l e bs n = Some sjc'"
          "sjc' = ?l\<lparr>seg_bytes := seg_bytes sjc', used := used ?l + n, num_entries := num_entries ?l + 1\<rparr>"
          "\<And>i. i < unat (used ?l) \<or> unat (used ?l) + slot_size (length bs) \<le> i \<Longrightarrow> seg_bytes sjc' i = seg_bytes ?l i"
          "entries_at sjc' (unat (used ?l)) [(e, bs)]"
      proof (rule store_entry_effect[of ?l bs e n])
      qed (use room us I(2,3) n size e in auto)
      let ?r = "release sjc'"
      have fields: "lock ?r = 0" "capacity ?r = capacity sjc" "seg_size ?r = seg_size sjc"
          "deform_used_size ?r = deform_used_size sjc" "used ?r = used sjc + n" "num_entries ?r = num_entries sjc + 1"
          "seg_bytes ?r = seg_bytes sjc'"
        unfolding release_def by (subst S(2), simp)+
      have used: "unat (used sjc + n) = unat (used sjc) + slot_size (length bs)"
        using n room us I(2) by (simp add: unat_word_ariths)
      have "entries_at ?r (unat (used sjc)) [(e, bs)]" using S(4) by (simp add: release_def)
      then have "entries_at ?r 88 (xs @ [(e, bs)])"
        by (rule entries_at_append[OF I(7), rotated]) (use S(3) in \<open>simp add: fields(7)\<close>)
      then have "shared_inv ?r (xs @ [(e, bs)])"
        using I room used by (simp add: shared_inv_def fields usable_def word_le_nat_alt)
      then show ?thesis using True store test I(5) S room by (auto simp: fields)
    qed
  qed
qed

section \<open>What a search does\<close>

text \<open>Whatever the entries hold, the search stays inside the usable part.\<close>

lemma find_loop_safe:
  assumes "unat U \<le> seg_size sjc"
  shows "\<exists>r. find_loop sjc U node idx fp n ofs = Some r
    \<and> (\<forall>c s a. r = Shared_found c s a \<longrightarrow> unat c + unat s \<le> unat U)"
proof (induction n arbitrary: ofs)
  case (Suc n)
  show ?case
  proof (cases "ofs > U \<or> CODE_BYTES_OFFSET > U - ofs")
    case False
    then have room: "unat ofs + 32 \<le> unat U"
      by (auto simp: word_less_nat_alt word_le_nat_alt unat_sub CODE_BYTES_OFFSET_def)
    then have read: "read_seg sjc (unat ofs) 32 = Some (map (seg_bytes sjc) [unat ofs..<unat ofs + 32])"
      using assms by (simp add: read_seg_def)
    define e where "e = entry_of_bytes (map (seg_bytes sjc) [unat ofs..<unat ofs + 32])"
    have inside: "unat (ofs + CODE_BYTES_OFFSET) + unat (code_size e) \<le> unat U"
      if c: "\<not> code_size e > SIZE_MAX - CODE_BYTES_OFFSET"
        "\<not> CODE_BYTES_OFFSET + code_size e > SIZE_MAX - (MAXIMUM_ALIGNOF - 1)"
        "\<not> MAXALIGN (CODE_BYTES_OFFSET + code_size e) > U - ofs"
    proof -
      have "(39 + unat (code_size e)) div 8 * 8 \<le> unat U - unat ofs"
        using c(3) room entry_size_unat(2)[OF c(1,2)] False
        by (simp add: not_less word_le_nat_alt unat_sub)
      then have "32 + unat (code_size e) \<le> unat U - unat ofs"
        using slot_size_bounds(1)[of "unat (code_size e)"] by (simp add: slot_size_def)
      moreover have "unat (ofs + CODE_BYTES_OFFSET) = unat ofs + 32"
        using room unsigned_less[of U, where ?'a = nat]
        by (simp add: CODE_BYTES_OFFSET_def unat_word_ariths)
      ultimately show ?thesis using room by simp
    qed
    show ?thesis
      using False Suc.IH[of "ofs + MAXALIGN (CODE_BYTES_OFFSET + code_size e)"] inside
      by (auto simp: read e_def[symmetric] Let_def CODE_BYTES_OFFSET_def)
  qed auto
qed simp

lemma find_stays_inside:
  assumes "lock sjc = 0" "unat (capacity sjc) \<le> seg_size sjc"
  shows "\<exists>r. pg_jitter_find_shared_code sjc node idx fp = Some (r, sjc)
    \<and> (\<forall>c s a. r = Shared_found c s a \<longrightarrow> (\<exists>bs. read_seg sjc (unat c) (unat s) = Some bs)
        \<and> unat c + unat s \<le> unat (capacity sjc) - unat (deform_used_size sjc))"
proof -
  let ?l = "sjc\<lparr>lock := 1\<rparr>"
  have acq: "acquire sjc = Some ?l" using assms by (simp add: acquire_def)
  have rel: "release ?l = sjc" using assms by (simp add: release_def)
  consider "deform_used_size sjc > capacity sjc"
    | "\<not> deform_used_size sjc > capacity sjc" "used sjc > capacity sjc - deform_used_size sjc"
    | "\<not> deform_used_size sjc > capacity sjc" "\<not> used sjc > capacity sjc - deform_used_size sjc" by blast
  then show ?thesis
  proof cases
    case 3
    have U: "unat (capacity sjc - deform_used_size sjc) = unat (capacity sjc) - unat (deform_used_size sjc)"
      using 3(1) by (simp add: unat_sub)
    then have "unat (capacity sjc - deform_used_size sjc) \<le> seg_size ?l" using assms by simp
    from find_loop_safe[OF this] U 3 show ?thesis
      using assms(2) by (fastforce simp: pg_jitter_find_shared_code_def acq Let_def rel read_seg_def)
  qed (simp_all add: pg_jitter_find_shared_code_def acq Let_def rel)
qed

text \<open>With entries laid out it returns the first one that has the key.\<close>

lemma find_loop_entries:
  assumes "entries_at sjc (unat ofs) xs" "unat (used sjc) \<le> unat U" "unat U \<le> 2 ^ 30" "unat U \<le> seg_size sjc"
  shows "\<exists>r. find_loop sjc U node idx fp (length xs) ofs = Some r \<and>
    (case List.find (\<lambda>(e, bs). key_of e = (node, idx, fp)) xs of
       None \<Rightarrow> r = Shared_missing
     | Some (e, bs) \<Rightarrow> \<exists>c. r = Shared_found c (code_size e) (dylib_ref_addr e)
         \<and> read_seg sjc (unat c) (unat (code_size e)) = Some bs)"
  using assms(1)
proof (induction xs arbitrary: ofs)
  case (Cons x xs)
  obtain e bs where x: "x = (e, bs)" by (cases x)
  have E: "map (seg_bytes sjc) [unat ofs..<unat ofs + 32] = entry_bytes e"
      "map (seg_bytes sjc) [unat ofs + 32..<unat ofs + 32 + length bs] = bs" "unat (code_size e) = length bs"
      "entries_at sjc (unat ofs + slot_size (length bs)) xs"
    using Cons.prems by (auto simp: x)
  have room: "unat ofs + slot_size (length bs) \<le> unat U"
    using entries_at_length[OF E(4)] assms(2) by simp
  have small: "length bs < 2 ^ 30" "unat ofs + 32 + length bs \<le> unat U"
    using room assms(3) slot_size_bounds(1)[of "length bs"] by auto
  have le: "ofs \<le> U" using room by (simp add: word_le_nat_alt)
  have read: "read_seg sjc (unat ofs) 32 = Some (entry_bytes e)"
    using small(2) assms(4) E(1) by (simp add: read_seg_def)
  have n: "unat (CODE_BYTES_OFFSET + code_size e) = 32 + length bs"
    using small E(3) by (simp add: CODE_BYTES_OFFSET_def unat_word_ariths)
  have neg: "\<not> (ofs > U \<or> CODE_BYTES_OFFSET > U - ofs)" "\<not> code_size e > SIZE_MAX - CODE_BYTES_OFFSET"
      "\<not> CODE_BYTES_OFFSET + code_size e > SIZE_MAX - (MAXIMUM_ALIGNOF - 1)"
    using small le n E(3) by (auto simp: shared_sizes word_less_nat_alt unat_sub not_less word_le_nat_alt)
  have size: "unat (MAXALIGN (CODE_BYTES_OFFSET + code_size e)) = slot_size (length bs)"
    using entry_size_unat(2)[OF neg(2,3)] E(3) by (simp add: slot_size_def)
  have fit: "\<not> MAXALIGN (CODE_BYTES_OFFSET + code_size e) > U - ofs"
    using size room le by (simp add: not_less word_le_nat_alt unat_sub)
  have unfold: "find_loop sjc U node idx fp (Suc (length xs)) ofs
      = (if key_of e = (node, idx, fp) then Some (Shared_found (ofs + CODE_BYTES_OFFSET) (code_size e) (dylib_ref_addr e))
         else find_loop sjc U node idx fp (length xs) (ofs + MAXALIGN (CODE_BYTES_OFFSET + code_size e)))"
  proof -
    have "unat CODE_BYTES_OFFSET = 32" by (simp add: CODE_BYTES_OFFSET_def)
    then show ?thesis
      by (simp only: find_loop.simps neg(1) if_False read Option.bind.bind_lunit entry_of_entry_bytes Let_def
            neg(2,3) fit key_of_def prod.inject)
  qed
  show ?case
  proof (cases "key_of e = (node, idx, fp)")
    case True
    have "unat (ofs + CODE_BYTES_OFFSET) = unat ofs + 32"
      using small(2) assms(3) by (simp add: CODE_BYTES_OFFSET_def unat_word_ariths)
    then have "read_seg sjc (unat (ofs + CODE_BYTES_OFFSET)) (unat (code_size e)) = Some bs"
      using small(2) assms(4) E(2,3) by (simp add: read_seg_def)
    then show ?thesis using True by (simp add: x unfold del: find_loop.simps)
  next
    case False
    have "unat (ofs + MAXALIGN (CODE_BYTES_OFFSET + code_size e)) = unat ofs + slot_size (length bs)"
      using size room assms(3) by (simp add: unat_word_ariths)
    then show ?thesis
      using Cons.IH[of "ofs + MAXALIGN (CODE_BYTES_OFFSET + code_size e)"] E(4) False
      by (simp add: x unfold del: find_loop.simps)
  qed
qed simp

lemma find_refines:
  assumes inv: "shared_inv sjc xs"
  shows "\<exists>r. pg_jitter_find_shared_code sjc node idx fp = Some (r, sjc) \<and>
    (case List.find (\<lambda>(e, bs). key_of e = (node, idx, fp)) xs of
       None \<Rightarrow> r = Shared_missing
     | Some (e, bs) \<Rightarrow> \<exists>c. r = Shared_found c (code_size e) (dylib_ref_addr e)
         \<and> read_seg sjc (unat c) (unat (code_size e)) = Some bs)"
proof -
  let ?l = "sjc\<lparr>lock := 1\<rparr>"
  have entries_lock: "entries_at (sjc\<lparr>lock := l\<rparr>) ofs ys = entries_at sjc ofs ys" for l ofs ys
    by (induction ys arbitrary: ofs) auto
  have I: "lock sjc = 0" "unat (capacity sjc) \<le> 2 ^ 30" "unat (capacity sjc) \<le> seg_size sjc"
      "deform_used_size sjc \<le> capacity sjc" "used sjc \<le> usable sjc" "entries_at sjc 88 xs"
    using inv by (simp_all add: shared_inv_def)
  have acq: "acquire sjc = Some ?l" and rel: "release ?l = sjc" using I(1) by (simp_all add: acquire_def release_def)
  have first: "MAXALIGN SHARED_HEADER_SIZE = 88" by (simp add: MAXALIGN_def shared_sizes)
  have us: "unat (usable sjc) \<le> unat (capacity sjc)" using I(4) by (simp add: usable_def unat_sub)
  have body: "pg_jitter_find_shared_code sjc node idx fp
      = map_option (\<lambda>r. (r, sjc)) (find_loop ?l (usable sjc) node idx fp (length xs) 88)"
  proof -
    have neg: "(deform_used_size sjc > capacity sjc) = False" "(used sjc > capacity sjc - deform_used_size sjc) = False"
      using I(4,5) by (auto simp: usable_def)
    then show ?thesis using shared_inv_num(1)[OF inv]
      by (simp add: pg_jitter_find_shared_code_def acq rel first usable_def Let_def neg)
  qed
  have "entries_at ?l (unat (88 :: uint64)) xs" using I(6) by (simp add: entries_lock)
  moreover have "unat (used ?l) \<le> unat (usable sjc)" "unat (usable sjc) \<le> 2 ^ 30" "unat (usable sjc) \<le> seg_size ?l"
    using us I by (simp_all add: word_le_nat_alt)
  moreover have "read_seg ?l = read_seg sjc" by (simp add: read_seg_def fun_eq_iff)
  ultimately show ?thesis using find_loop_entries[of ?l 88 xs "usable sjc" node idx fp] body
    by (auto split: option.splits)
qed

section \<open>A sequence of stores and a search\<close>

text \<open>What the leader stores: identity, fingerprint, code and the address of its library.\<close>

record shared_request =
  rq_node :: int32
  rq_index :: int32
  rq_fingerprint :: uint64
  rq_code :: "uint8 list"
  rq_ref :: uint64

primrec store_all :: "shared_request list \<Rightarrow> dsm_segment \<Rightarrow> (bool list \<times> dsm_segment) option" where
  "store_all [] sjc = Some ([], sjc)"
| "store_all (q # qs) sjc = Option.bind
     (pg_jitter_store_shared_code sjc (Some (rq_code q)) (of_nat (length (rq_code q))) (rq_node q) (rq_index q)
        (rq_fingerprint q) (rq_ref q))
     (\<lambda>(ok, sjc'). map_option (\<lambda>(oks, sjc''). (ok # oks, sjc'')) (store_all qs sjc'))"

text \<open>The first accepted request with a key.\<close>

fun first_accepted :: "shared_request list \<Rightarrow> bool list \<Rightarrow> int32 \<times> int32 \<times> uint64 \<Rightarrow> shared_request option" where
  "first_accepted (q # qs) (ok # oks) k =
     (if ok \<and> (rq_node q, rq_index q, rq_fingerprint q) = k then Some q else first_accepted qs oks k)"
| "first_accepted _ _ _ = None"

definition entry_of :: "shared_request \<Rightarrow> SharedJitCodeEntry \<times> uint8 list" where
  "entry_of q = (\<lparr>plan_node_id = rq_node q, expr_index = rq_index q, expr_fingerprint = rq_fingerprint q,
     code_size = of_nat (length (rq_code q)), dylib_ref_addr = rq_ref q\<rparr>, rq_code q)"

definition accepted :: "shared_request list \<Rightarrow> bool list \<Rightarrow> (SharedJitCodeEntry \<times> uint8 list) list" where
  "accepted qs oks = map (entry_of \<circ> fst) (filter snd (zip qs oks))"

lemma find_accepted:
  "length oks = length qs \<Longrightarrow> List.find (\<lambda>(e, bs). key_of e = k) (accepted qs oks) = map_option entry_of (first_accepted qs oks k)"
  by (induction qs oks k rule: first_accepted.induct) (auto simp: accepted_def entry_of_def key_of_def)

text \<open>What holds of the segment of a leader also when \<open>deform_used_size\<close>, which \<open>pg_jitter_init_shared_dsm\<close> does not set, is so large that
  it leaves no room for an entry: then none is stored, until a deform function is shared and sets the field.\<close>

definition shared_room :: "dsm_segment \<Rightarrow> bool" where
  "shared_room sjc \<longleftrightarrow> deform_used_size sjc \<le> capacity sjc \<and> used sjc \<le> usable sjc"

definition shared_base :: "dsm_segment \<Rightarrow> (SharedJitCodeEntry \<times> uint8 list) list \<Rightarrow> bool" where
  "shared_base sjc xs \<longleftrightarrow> lock sjc = 0 \<and> unat (capacity sjc) \<le> 2 ^ 30 \<and> unat (capacity sjc) \<le> seg_size sjc
     \<and> used sjc \<le> capacity sjc \<and> num_entries sjc = of_nat (length xs) \<and> entries_at sjc 88 xs \<and> (shared_room sjc \<or> xs = [])"

lemma shared_inv_base: "shared_inv sjc xs \<longleftrightarrow> shared_base sjc xs \<and> shared_room sjc"
proof -
  have "used sjc \<le> capacity sjc" if "deform_used_size sjc \<le> capacity sjc" "used sjc \<le> usable sjc"
    using that by (simp add: usable_def word_le_nat_alt unat_sub)
  then show ?thesis by (auto simp: shared_inv_def shared_base_def shared_room_def)
qed

lemma shared_init_base:
  assumes "88 \<le> unat dsm_size" "unat dsm_size \<le> 2 ^ 30" "unat dsm_size \<le> seg_size sjc"
  shows "shared_base (pg_jitter_init_shared_dsm dsm_size sjc) []"
    "unat (deform_used_size sjc) + 88 \<le> unat dsm_size \<Longrightarrow> shared_room (pg_jitter_init_shared_dsm dsm_size sjc)"
proof -
  have "MAXALIGN SHARED_HEADER_SIZE = 88" by (simp add: MAXALIGN_def shared_sizes)
  then show "shared_base (pg_jitter_init_shared_dsm dsm_size sjc) []"
    "unat (deform_used_size sjc) + 88 \<le> unat dsm_size \<Longrightarrow> shared_room (pg_jitter_init_shared_dsm dsm_size sjc)"
    using assms by (simp_all add: shared_base_def shared_room_def pg_jitter_init_shared_dsm_def usable_def word_le_nat_alt unat_sub)
qed

lemma shared_init_inv:
  assumes "88 \<le> unat dsm_size" "unat dsm_size \<le> 2 ^ 30" "unat dsm_size \<le> seg_size sjc" "deform_used_size sjc = 0"
  shows "shared_inv (pg_jitter_init_shared_dsm dsm_size sjc) []"
  using shared_init_base[OF assms(1-3)] assms(1,4) by (simp add: shared_inv_base)

lemma no_room:
  assumes "lock sjc = 0" "\<not> shared_room sjc"
  shows "pg_jitter_store_shared_code sjc (Some bs) n node idx fp a = Some (False, sjc)"
    and "pg_jitter_find_shared_code sjc node idx fp = Some (Shared_invalid (if deform_used_size sjc > capacity sjc then 1 else 2), sjc)"
proof -
  have r: "sjc\<lparr>lock := 0\<rparr> = sjc" using assms(1) by simp
  have g: "deform_used_size sjc > capacity sjc \<or> used sjc > capacity sjc - deform_used_size sjc"
    using assms(2) by (auto simp: shared_room_def usable_def)
  show "pg_jitter_store_shared_code sjc (Some bs) n node idx fp a = Some (False, sjc)"
    using assms(1) g r by (auto simp: pg_jitter_store_shared_code_def acquire_def release_def Let_def)
  show "pg_jitter_find_shared_code sjc node idx fp = Some (Shared_invalid (if deform_used_size sjc > capacity sjc then 1 else 2), sjc)"
    using assms(1) g r by (auto simp: pg_jitter_find_shared_code_def acquire_def release_def Let_def)
qed

text \<open>One request: stored behind the others, or rejected.\<close>

lemma store_request:
  assumes "shared_base sjc xs" "length (rq_code q) < 2 ^ 64"
  shows "\<exists>ok sjc'. pg_jitter_store_shared_code sjc (Some (rq_code q)) (of_nat (length (rq_code q))) (rq_node q)
        (rq_index q) (rq_fingerprint q) (rq_ref q) = Some (ok, sjc')
      \<and> shared_base sjc' (xs @ accepted [q] [ok]) \<and> shared_room sjc' = shared_room sjc
      \<and> deform_used_size sjc' = deform_used_size sjc \<and> capacity sjc' = capacity sjc
      \<and> (ok \<longleftrightarrow> shared_room sjc \<and> fits sjc (length (rq_code q)))"
proof (cases "shared_room sjc")
  case True
  have len: "unat (of_nat (length (rq_code q)) :: uint64) = length (rq_code q)"
    using assms(2) by (simp add: unat_of_nat)
  have inv: "shared_inv sjc xs" using True assms(1) by (simp add: shared_inv_base)
  show ?thesis
    using store_refines[OF inv len refl, of "rq_node q" "rq_index q" "rq_fingerprint q" "rq_ref q"] assms(1) True
    by (auto simp: accepted_def entry_of_def shared_inv_base split: if_splits)
next
  case False
  then have "pg_jitter_store_shared_code sjc (Some (rq_code q)) (of_nat (length (rq_code q))) (rq_node q)
        (rq_index q) (rq_fingerprint q) (rq_ref q) = Some (False, sjc)" "shared_base sjc (xs @ accepted [q] [False])"
    using assms(1) no_room(1)[OF _ False] by (auto simp: accepted_def shared_base_def)
  then show ?thesis using False by blast
qed

text \<open>A search among the stored entries.\<close>

lemma find_base:
  assumes "shared_base sjc xs"
  shows "\<exists>r. pg_jitter_find_shared_code sjc node idx fp = Some (r, sjc) \<and>
    (case List.find (\<lambda>(e, bs). key_of e = (node, idx, fp)) xs of
       None \<Rightarrow> r = (if shared_room sjc then Shared_missing else Shared_invalid (if deform_used_size sjc > capacity sjc then 1 else 2))
     | Some (e, bs) \<Rightarrow> \<exists>c. r = Shared_found c (code_size e) (dylib_ref_addr e)
         \<and> read_seg sjc (unat c) (unat (code_size e)) = Some bs)"
proof (cases "shared_room sjc")
  case True
  then show ?thesis using find_refines[of sjc xs node idx fp] assms by (simp add: shared_inv_base)
next
  case False
  then show ?thesis using no_room(2)[OF _ False, of node idx fp] assms by (simp add: shared_base_def)
qed

lemma store_all_base:
  assumes "shared_base sjc xs" "\<forall>q \<in> set qs. length (rq_code q) < 2 ^ 64"
  shows "\<exists>oks sjc'. store_all qs sjc = Some (oks, sjc') \<and> length oks = length qs \<and> shared_base sjc' (xs @ accepted qs oks)"
  using assms
proof (induction qs arbitrary: sjc xs)
  case (Cons q qs)
  then obtain ok sjc1 where st: "pg_jitter_store_shared_code sjc (Some (rq_code q)) (of_nat (length (rq_code q))) (rq_node q)
        (rq_index q) (rq_fingerprint q) (rq_ref q) = Some (ok, sjc1)" "shared_base sjc1 (xs @ accepted [q] [ok])"
    using store_request[of sjc xs q] by auto
  have "\<forall>q \<in> set qs. length (rq_code q) < 2 ^ 64" using Cons.prems(2) by simp
  from Cons.IH[OF st(2) this] obtain oks sjc' where r: "store_all qs sjc1 = Some (oks, sjc')" "length oks = length qs"
      "shared_base sjc' ((xs @ accepted [q] [ok]) @ accepted qs oks)" by blast
  have "xs @ accepted (q # qs) (ok # oks) = (xs @ accepted [q] [ok]) @ accepted qs oks" by (simp add: accepted_def)
  then show ?case using st r by (intro exI[of _ "ok # oks"] exI[of _ sjc']) simp
qed (simp add: accepted_def)

lemma store_all_refines:
  assumes "shared_inv sjc xs" "\<forall>q \<in> set qs. length (rq_code q) < 2 ^ 64"
  shows "\<exists>oks sjc'. store_all qs sjc = Some (oks, sjc') \<and> length oks = length qs
    \<and> shared_inv sjc' (xs @ accepted qs oks) \<and> deform_used_size sjc' = deform_used_size sjc \<and> capacity sjc' = capacity sjc
    \<and> (\<forall>i \<ge> unat (usable sjc). seg_bytes sjc' i = seg_bytes sjc i)"
  using assms
proof (induction qs arbitrary: sjc xs)
  case (Cons q qs)
  have len: "unat (of_nat (length (rq_code q)) :: uint64) = length (rq_code q)"
    using Cons.prems(2) by (simp add: unat_of_nat)
  have one: "\<exists>ok sjc1. pg_jitter_store_shared_code sjc (Some (rq_code q)) (of_nat (length (rq_code q))) (rq_node q)
        (rq_index q) (rq_fingerprint q) (rq_ref q) = Some (ok, sjc1)
      \<and> shared_inv sjc1 (xs @ accepted [q] [ok]) \<and> deform_used_size sjc1 = deform_used_size sjc \<and> capacity sjc1 = capacity sjc
      \<and> (\<forall>i \<ge> unat (usable sjc). seg_bytes sjc1 i = seg_bytes sjc i)"
    using store_refines[OF Cons.prems(1) len refl, of "rq_node q" "rq_index q" "rq_fingerprint q" "rq_ref q"] Cons.prems(1)
    by (auto simp: accepted_def entry_of_def split: if_splits)
  then obtain ok sjc1 where st: "pg_jitter_store_shared_code sjc (Some (rq_code q)) (of_nat (length (rq_code q))) (rq_node q)
        (rq_index q) (rq_fingerprint q) (rq_ref q) = Some (ok, sjc1)"
      "shared_inv sjc1 (xs @ accepted [q] [ok])" "deform_used_size sjc1 = deform_used_size sjc" "capacity sjc1 = capacity sjc"
      "\<forall>i \<ge> unat (usable sjc). seg_bytes sjc1 i = seg_bytes sjc i" by blast
  have "\<forall>q \<in> set qs. length (rq_code q) < 2 ^ 64" using Cons.prems(2) by simp
  from Cons.IH[OF st(2) this] obtain oks sjc' where r: "store_all qs sjc1 = Some (oks, sjc')" "length oks = length qs"
      "shared_inv sjc' ((xs @ accepted [q] [ok]) @ accepted qs oks)" "deform_used_size sjc' = deform_used_size sjc1"
      "capacity sjc' = capacity sjc1" "\<forall>i \<ge> unat (usable sjc1). seg_bytes sjc' i = seg_bytes sjc1 i" by blast
  have acc: "xs @ accepted (q # qs) (ok # oks) = (xs @ accepted [q] [ok]) @ accepted qs oks" by (simp add: accepted_def)
  have "usable sjc1 = usable sjc" using st by (simp add: usable_def)
  then show ?case using st r
    by (intro exI[of _ "ok # oks"] exI[of _ sjc']) (simp add: acc)
qed (simp add: accepted_def)

lemma shared_find_first_accepted:
  assumes "88 \<le> unat dsm_size" "unat dsm_size \<le> 2 ^ 30" "unat dsm_size \<le> seg_size sjc"
    and "\<forall>q \<in> set qs. length (rq_code q) < 2 ^ 64"
  shows "\<exists>oks sjc' r. store_all qs (pg_jitter_init_shared_dsm dsm_size sjc) = Some (oks, sjc') \<and> length oks = length qs
    \<and> pg_jitter_find_shared_code sjc' node idx fp = Some (r, sjc')
    \<and> (case first_accepted qs oks (node, idx, fp) of
         None \<Rightarrow> r \<in> {Shared_missing, Shared_invalid 1, Shared_invalid 2}
       | Some q \<Rightarrow> \<exists>c. r = Shared_found c (of_nat (length (rq_code q))) (rq_ref q)
           \<and> read_seg sjc' (unat c) (length (rq_code q)) = Some (rq_code q))"
proof -
  obtain oks sjc' where st: "store_all qs (pg_jitter_init_shared_dsm dsm_size sjc) = Some (oks, sjc')" "length oks = length qs"
      "shared_base sjc' (accepted qs oks)"
    using store_all_base[OF shared_init_base(1)[OF assms(1-3)] assms(4)] by auto
  have "q \<in> set qs" if "first_accepted qs oks k = Some q" for q k
    using that by (induction qs oks k rule: first_accepted.induct) (auto split: if_splits)
  then have "unat (of_nat (length (rq_code q)) :: uint64) = length (rq_code q)"
    if "first_accepted qs oks (node, idx, fp) = Some q" for q
    using that assms(4) by (simp add: unat_of_nat)
  then show ?thesis
    using st find_base[OF st(3), of node idx fp] find_accepted[OF st(2), of "(node, idx, fp)"]
    by (auto simp: entry_of_def split: option.splits if_splits)
qed

section \<open>Any segment\<close>

definition example_segment :: "nat \<Rightarrow> dsm_segment" where
  "example_segment n = \<lparr>lock = 7, num_entries = 9, capacity = 0, used = 0, deform_addr = 0, deform_page_size = 0,
     deform_used_size = 0, deform_code_size = 0, deform_desc_offset = 0, deform_natts = 0, deform_attrs_hash = 0,
     deform_ops_kind = 0, deform_tdtypeid = 0, deform_tdtypmod = 0, seg_bytes = (\<lambda>i. of_nat i), seg_size = n\<rparr>"

text \<open>
  C39 (safety): whatever a segment holds, as long as its capacity is mapped and its lock free, a search returns, with the
  segment unchanged and its lock free, it reads nothing outside the segment, and the code it finds lies inside the capacity and before the
  bytes of the shared deform function.
\<close>

theorem find_reads_inside_segment:
  assumes "lock sjc = 0" "unat (capacity sjc) \<le> seg_size sjc"
  shows "\<exists>r. pg_jitter_find_shared_code sjc node idx fp = Some (r, sjc)
    \<and> (\<forall>c s a. r = Shared_found c s a \<longrightarrow> (\<exists>bs. read_seg sjc (unat c) (unat s) = Some bs)
        \<and> unat c + unat s \<le> unat (capacity sjc) - unat (deform_used_size sjc))"
  by (rule find_stays_inside[OF assms])

lemma find_reads_inside_segment_witness:
  "\<exists>r. pg_jitter_find_shared_code ((example_segment 500)\<lparr>lock := 0, capacity := 500, used := 300\<rparr>) 1 2 3
     = Some (r, (example_segment 500)\<lparr>lock := 0, capacity := 500, used := 300\<rparr>)"
  using find_reads_inside_segment[of "(example_segment 500)\<lparr>lock := 0, capacity := 500, used := 300\<rparr>" 1 2 3]
  by (auto simp: example_segment_def)

end
