(* ===== verification/SharedDeform.thy ===== *)
theory SharedDeform
  imports SharedCode DeformDispatch
begin

text \<open>
  The deform function that the leader of a parallel query compiles at an address of its own choice and that its workers map
  at the same address (\<open>pg_jitter_compile_shared_deform\<close> and \<open>pg_jitter_attach_shared_deform\<close> of
  \<open>pg_jitter_deform_jit.c\<close>). The calls to the operating system and the generator of the code are parameters.
\<close>

section \<open>The leader\<close>

text \<open>What \<open>pg_jitter_compile_deform_loop\<close> yields: the code, its size, the size of the buffer it needs and the descriptors of
  the columns. Its arguments are the address of the descriptors and a buffer to generate into.\<close>

record loop_code =
  lc_code :: "uint8 list"
  lc_code_size :: uint64
  lc_buffer_size :: uint64
  lc_descs :: "uint8 list"

record shared_os =
  alloc_at :: "uint64 \<Rightarrow> uint64 \<Rightarrow> bool"
  mmap_any :: "uint64 \<Rightarrow> uint64 option"
  mprotect_exec :: "uint64 \<Rightarrow> uint64 \<Rightarrow> bool"
  sysconf_pagesize :: "64 word"
  text_base :: uint64
  palloc_descs :: uint64
  compile_loop :: "tuple_desc \<Rightarrow> slot_ops \<Rightarrow> nat \<Rightarrow> uint64 \<Rightarrow> (uint64 \<times> uint64) option \<Rightarrow> loop_code option"

definition SIZEOF_DEFORM_COL_DESC :: uint64 where "SIZEOF_DEFORM_COL_DESC = 8"

definition shared_page_size :: "shared_os \<Rightarrow> uint64" where
  "shared_page_size os = (if sysconf_pagesize os \<le>s 0 then 4096 else sysconf_pagesize os)"

definition round_to_pages :: "uint64 \<Rightarrow> uint64 \<Rightarrow> uint64" where
  "round_to_pages total_size page_size = (total_size + page_size - 1) AND NOT (page_size - 1)"

definition shared_deform_alloc_fixed :: "shared_os \<Rightarrow> uint64 \<Rightarrow> uint64 \<Rightarrow> uint64 option" where
  "shared_deform_alloc_fixed os target total_size = (if alloc_at os target total_size \<and> target \<noteq> 0 then Some target else None)"

text \<open>Up to 32 addresses are tried from 64 MB above the text of the library on; then any will do.\<close>

fun try_addresses :: "shared_os \<Rightarrow> uint64 \<Rightarrow> uint64 \<Rightarrow> nat list \<Rightarrow> uint64 option" where
  "try_addresses os hint_base total_size [] = mmap_any os total_size"
| "try_addresses os hint_base total_size (attempt # rest) =
     (case shared_deform_alloc_fixed os (hint_base + of_nat attempt * total_size) total_size of
        Some page \<Rightarrow> Some page
      | None \<Rightarrow> try_addresses os hint_base total_size rest)"

definition alloc_page :: "shared_os \<Rightarrow> uint64 \<Rightarrow> uint64 option" where
  "alloc_page os total_size =
     try_addresses os ((text_base os + 0x4000000) AND NOT (shared_page_size os - 1)) total_size [0..<32]"

text \<open>The page: the code at its start, the descriptors at their offset. The rest is zero, as the kernel hands out anonymous pages.\<close>

definition page_bytes :: "uint8 list \<Rightarrow> uint8 list \<Rightarrow> nat \<Rightarrow> nat \<Rightarrow> uint8" where
  "page_bytes code descs desc_offset i =
     (if desc_offset \<le> i \<and> i < desc_offset + length descs then descs ! (i - desc_offset)
      else if i < length code then code ! i else 0)"

text \<open>The header of the segment and the bytes at its end; \<open>None\<close> when a copy leaves the segment.\<close>

definition publish_bytes :: "dsm_segment \<Rightarrow> uint64 \<Rightarrow> (nat \<Rightarrow> uint8) \<Rightarrow> uint64 \<Rightarrow> uint64 \<Rightarrow> uint64 \<Rightarrow> dsm_segment option" where
  "publish_bytes sjc stored_size contents code_bytes_size desc_offset desc_size =
     (let dsm_dest = capacity sjc - stored_size in
      Option.bind (write_seg sjc (unat dsm_dest) (map contents [0..<unat code_bytes_size]))
        (\<lambda>sjc. write_seg sjc (unat (dsm_dest + code_bytes_size))
           (map contents [unat desc_offset..<unat desc_offset + unat desc_size])))"

definition set_deform_header ::
  "uint64 \<Rightarrow> uint64 \<Rightarrow> uint64 \<Rightarrow> uint64 \<Rightarrow> uint64 \<Rightarrow> nat \<Rightarrow> uint32 \<Rightarrow> nat \<Rightarrow> tuple_desc \<Rightarrow> dsm_segment \<Rightarrow> dsm_segment" where
  "set_deform_header page_addr total_size stored_size code_bytes_size desc_offset natts attrs_hash ops_kind desc sjc =
     sjc\<lparr>deform_addr := page_addr, deform_page_size := total_size, deform_used_size := stored_size,
       deform_code_size := code_bytes_size, deform_desc_offset := desc_offset, deform_natts := of_nat natts,
       deform_attrs_hash := attrs_hash, deform_ops_kind := of_nat ops_kind, deform_tdtypeid := tdtypeid desc,
       deform_tdtypmod := tdtypmod desc\<rparr>"

text \<open>\<open>addr\<close> is the address of the descriptor \<open>desc\<close>. The result holds whether the function is shared, the
  segment, the state of the dispatch and the page.\<close>

definition pg_jitter_compile_shared_deform ::
  "shared_os \<Rightarrow> uint64 dispatch_env \<Rightarrow> dsm_segment \<Rightarrow> uint64 dispatch_state \<Rightarrow> nat \<Rightarrow> tuple_desc \<Rightarrow> slot_ops \<Rightarrow> nat \<Rightarrow>
   (bool \<times> dsm_segment \<times> uint64 dispatch_state \<times> (uint64 \<times> (nat \<Rightarrow> uint8)) option) option" where
  "pg_jitter_compile_shared_deform os env sjc st addr desc ops natts =
     (let failed = Some (False, sjc, st, None) in
      if deform_addr sjc \<noteq> 0 then failed
      else if shared_deform_slot_ops_kind ops = SHARED_DEFORM_OPS_INVALID then failed
      else let attrs_hash = deform_attrs_hash env desc natts; desc_size = SIZEOF_DEFORM_COL_DESC * of_nat natts in
        case compile_loop os desc ops natts (palloc_descs os) None of None \<Rightarrow> failed | Some probe \<Rightarrow>
          let expected = lc_code_size probe; buffer = lc_buffer_size probe in
          if expected = 0 \<or> buffer = 0 \<or> expected > buffer then failed
          else let desc_offset = MAXALIGN buffer; stored_size = expected + desc_size;
                   total_size = round_to_pages (desc_offset + desc_size) (shared_page_size os) in
            if used sjc + stored_size > capacity sjc then failed
            else case alloc_page os total_size of None \<Rightarrow> failed | Some page_addr \<Rightarrow>
              case compile_loop os desc ops natts (page_addr + desc_offset) (Some (page_addr, buffer)) of None \<Rightarrow> failed
              | Some compiled \<Rightarrow>
                if lc_code_size compiled = 0 \<or> lc_code_size compiled \<noteq> expected \<or> lc_buffer_size compiled \<noteq> buffer
                   \<or> lc_code_size compiled > buffer then failed
                else if \<not> mprotect_exec os page_addr total_size then failed
                else let contents = page_bytes (lc_code compiled) (lc_descs compiled) (unat desc_offset) in
                  map_option (\<lambda>sjc'. (True, sjc', publish_shared env page_addr addr desc ops natts st, Some (page_addr, contents)))
                    (publish_bytes
                       (set_deform_header page_addr total_size stored_size expected desc_offset natts attrs_hash
                          (shared_deform_slot_ops_kind ops) desc sjc)
                       stored_size contents expected desc_offset desc_size))"

section \<open>The worker\<close>

definition pg_jitter_attach_shared_deform ::
  "shared_os \<Rightarrow> dsm_segment \<Rightarrow> uint64 dispatch_state \<Rightarrow> (bool \<times> uint64 dispatch_state \<times> (uint64 \<times> (nat \<Rightarrow> uint8)) option) option" where
  "pg_jitter_attach_shared_deform os sjc st =
     (if deform_addr sjc = 0 then Some (False, st, None)
      else if deform_natts sjc \<le>s 0 \<or> deform_code_size sjc = 0 \<or> deform_used_size sjc = 0
              \<or> deform_desc_offset sjc < deform_code_size sjc \<or> deform_desc_offset sjc > deform_page_size sjc
      then Some (False, st, None)
      else let desc_size = SIZEOF_DEFORM_COL_DESC * of_nat (nat (sint (deform_natts sjc))) in
        if deform_used_size sjc \<noteq> deform_code_size sjc + desc_size \<or> desc_size > deform_page_size sjc - deform_desc_offset sjc
        then Some (False, st, None)
        else if shared_deform_fn st \<noteq> None then Some (True, st, None)
        else case shared_deform_alloc_fixed os (deform_addr sjc) (deform_page_size sjc) of None \<Rightarrow> Some (False, st, None)
        | Some page \<Rightarrow>
          let dsm_src = capacity sjc - deform_used_size sjc in
          Option.bind (read_seg sjc (unat dsm_src) (unat (deform_code_size sjc))) (\<lambda>code.
            map_option (\<lambda>descs.
              if \<not> mprotect_exec os page (deform_page_size sjc) then (False, st, None)
              else (True, set_shared_deform page (nat (sint (deform_natts sjc))) (dsm_segment.deform_attrs_hash sjc)
                       (unat (deform_ops_kind sjc)) (deform_tdtypeid sjc) (deform_tdtypmod sjc) None None st,
                    Some (page, page_bytes code descs (unat (deform_desc_offset sjc)))))
              (read_seg sjc (unat (dsm_src + deform_code_size sjc)) (unat desc_size))))"

section \<open>Publishing keeps the entries\<close>

lemma entries_at_frame:
  assumes "entries_at sjc ofs xs" "used sjc' = used sjc" "\<And>i. i < unat (used sjc) \<Longrightarrow> seg_bytes sjc' i = seg_bytes sjc i"
  shows "entries_at sjc' ofs xs"
  using assms(1)
proof (induction xs arbitrary: ofs)
  case Nil
  then show ?case using assms(2) by simp
next
  case (Cons x xs)
  obtain e bs where x: "x = (e, bs)" by (cases x)
  have tl: "entries_at sjc (ofs + slot_size (length bs)) xs" using Cons.prems by (simp add: x)
  have "ofs + 32 + length bs \<le> unat (used sjc)"
    using entries_at_length[OF tl] slot_size_bounds(1)[of "length bs"] by simp
  then have "map (seg_bytes sjc') [ofs..<ofs + 32] = map (seg_bytes sjc) [ofs..<ofs + 32]"
      "map (seg_bytes sjc') [ofs + 32..<ofs + 32 + length bs] = map (seg_bytes sjc) [ofs + 32..<ofs + 32 + length bs]"
    by (auto intro!: map_bytes_cong assms(3))
  then show ?case using Cons.IH[OF tl] Cons.prems by (simp add: x del: map_eq_conv)
qed

lemma round_to_pages_ge:
  assumes "ps = 2 ^ k" "k \<le> 30" "unat t \<le> 2 ^ 62"
  shows "unat t \<le> unat (round_to_pages t ps)"
proof -
  have p30: "(2 :: nat) ^ k \<le> 2 ^ 30" using assms(2) by (intro power_increasing) auto
  have "ps = word_of_nat (2 ^ k)" using assms(1) by simp
  then have "unat ps = take_bit 64 (2 ^ k)" by (simp only: unsigned_of_nat) simp
  then have p: "unat ps = 2 ^ k" using assms(2) by simp
  have "unat (t + ps - 1) = unat t + 2 ^ k - 1"
  proof -
    have "unat (t + ps) = unat t + 2 ^ k" using p p30 assms(3) by (simp add: unat_word_ariths)
    then show ?thesis using p by (subst unat_sub) (auto simp: word_le_nat_alt Suc_le_eq)
  qed
  then have "unat (round_to_pages t ps) = (unat t + 2 ^ k - 1) div 2 ^ k * 2 ^ k"
    using and_not_mask_unat[of k "t + ps - 1"] assms by (simp add: round_to_pages_def)
  moreover have "n \<le> (n + m - 1) div m * m" if "0 < m" for n m :: nat
  proof -
    have "(n + m - 1) mod m \<le> m - 1" using that mod_less_divisor[of m "n + m - 1"] by linarith
    moreover have "n + m - 1 = (n + m - 1) div m * m + (n + m - 1) mod m" by simp
    ultimately show ?thesis using that by linarith
  qed
  ultimately show ?thesis by simp
qed

lemma write_seg_fits: "ofs + length bs \<le> seg_size sjc \<Longrightarrow> \<exists>sjc'. write_seg sjc ofs bs = Some sjc'"
  by (simp add: write_seg_def)

lemma tail_offset:
  fixes a s c :: uint64
  assumes "unat s \<le> unat a" "unat c \<le> unat s"
  shows "unat (a - s + c) = unat (a - s) + unat c"
  using assms unsigned_less[of a, where ?'a = nat] by (simp add: unat_word_ariths unat_sub word_le_nat_alt)

lemma publish_bytes_effect:
  assumes "unat stored = unat c + unat d" "unat stored \<le> unat (capacity sjc)" "unat (capacity sjc) \<le> seg_size sjc"
  obtains sjc' where "publish_bytes sjc stored contents c off d = Some sjc'" "sjc' = sjc\<lparr>seg_bytes := seg_bytes sjc'\<rparr>"
    and "\<And>i. i < unat (capacity sjc - stored) \<Longrightarrow> seg_bytes sjc' i = seg_bytes sjc i"
    and "map (seg_bytes sjc') [unat (capacity sjc - stored)..<unat (capacity sjc - stored) + unat c] = map contents [0..<unat c]"
    and "map (seg_bytes sjc') [unat (capacity sjc - stored + c)..<unat (capacity sjc - stored + c) + unat d]
       = map contents [unat off..<unat off + unat d]"
proof -
  let ?a = "unat (capacity sjc - stored)"
  have a: "?a = unat (capacity sjc) - unat stored" using assms(2) by (simp add: unat_sub word_le_nat_alt)
  have ac: "unat (capacity sjc - stored + c) = ?a + unat c"
    by (rule tail_offset) (use assms(1,2) in simp_all)
  have le: "?a + unat c + unat d \<le> seg_size sjc" using a assms by linarith
  obtain sjc1 where w1: "write_seg sjc ?a (map contents [0..<unat c]) = Some sjc1"
    using write_seg_fits[of ?a "map contents [0..<unat c]" sjc] le by auto
  note f1 = write_seg_frame[OF w1]
  have "seg_size sjc1 = seg_size sjc" by (subst f1(1)) simp
  then obtain sjc2 where w2: "write_seg sjc1 (?a + unat c) (map contents [unat off..<unat off + unat d]) = Some sjc2"
    using write_seg_fits[of "?a + unat c" "map contents [unat off..<unat off + unat d]" sjc1] le by auto
  note f2 = write_seg_frame[OF w2]
  show thesis
  proof (rule that[of sjc2])
    show "publish_bytes sjc stored contents c off d = Some sjc2"
      using w1 w2 by (simp add: publish_bytes_def Let_def ac)
    show "sjc2 = sjc\<lparr>seg_bytes := seg_bytes sjc2\<rparr>" by (subst f2(1), subst f1(1)) simp
    show "seg_bytes sjc2 i = seg_bytes sjc i" if "i < ?a" for i using that f1(4)[of i] f2(4)[of i] by simp
    have "map (seg_bytes sjc2) [?a..<?a + unat c] = map (seg_bytes sjc1) [?a..<?a + unat c]"
      by (rule map_bytes_cong) (use f2(4) in simp)
    then show "map (seg_bytes sjc2) [?a..<?a + unat c] = map contents [0..<unat c]" using f1(3) by (simp del: map_eq_conv)
    show "map (seg_bytes sjc2) [unat (capacity sjc - stored + c)..<unat (capacity sjc - stored + c) + unat d]
        = map contents [unat off..<unat off + unat d]"
      using f2(3) by (simp add: ac del: map_eq_conv)
  qed
qed

lemma page_bytes_copy:
  assumes "length code \<le> ofs"
  shows "map (page_bytes code descs ofs) [0..<length code] = code"
    and "map (page_bytes code descs ofs) [ofs..<ofs + length descs] = descs"
  using assms by (auto simp: page_bytes_def intro!: nth_equalityI)

section \<open>The same function in every worker\<close>

text \<open>What is known of the generator: it reports the sizes of what it wrote, and these are far below the address
  space.\<close>

definition exact_generator :: "shared_os \<Rightarrow> bool" where
  "exact_generator os \<longleftrightarrow> (\<forall>desc ops natts a b lc. compile_loop os desc ops natts a b = Some lc \<longrightarrow>
     length (lc_code lc) = unat (lc_code_size lc) \<and> length (lc_descs lc) = 8 * natts \<and> unat (lc_buffer_size lc) \<le> 2 ^ 30)"

text \<open>What the segment holds once a function is shared.\<close>

definition published :: "dsm_segment \<Rightarrow> uint64 \<Rightarrow> uint64 \<Rightarrow> uint8 list \<Rightarrow> uint8 list \<Rightarrow> uint64 \<Rightarrow> nat \<Rightarrow> bool" where
  "published sjc page total_size code descs desc_offset natts \<longleftrightarrow>
     deform_addr sjc = page \<and> page \<noteq> 0 \<and> deform_page_size sjc = total_size \<and> unat (deform_code_size sjc) = length code \<and> code \<noteq> []
     \<and> deform_desc_offset sjc = desc_offset \<and> deform_natts sjc = of_nat natts \<and> 0 < natts \<and> natts \<le> 1664
     \<and> length descs = 8 * natts \<and> length code \<le> unat desc_offset \<and> unat desc_offset + length descs \<le> unat total_size
     \<and> unat (deform_used_size sjc) = length code + length descs \<and> deform_used_size sjc \<le> capacity sjc
     \<and> unat (capacity sjc) \<le> seg_size sjc
     \<and> map (seg_bytes sjc) [unat (usable sjc)..<unat (usable sjc) + length code] = code
     \<and> map (seg_bytes sjc) [unat (usable sjc) + length code..<unat (usable sjc) + length code + length descs] = descs"

lemma attach_published:
  assumes P: "published sjc page total_size code descs desc_offset natts"
    and "shared_deform_fn st = None" "alloc_at os page total_size" "mprotect_exec os page total_size"
  shows "pg_jitter_attach_shared_deform os sjc st
    = Some (True, set_shared_deform page natts (dsm_segment.deform_attrs_hash sjc) (unat (deform_ops_kind sjc))
        (deform_tdtypeid sjc) (deform_tdtypmod sjc) None None st,
      Some (page, page_bytes code descs (unat desc_offset)))"
proof -
  have F: "deform_addr sjc = page" "page \<noteq> 0" "deform_page_size sjc = total_size" "unat (deform_code_size sjc) = length code"
      "code \<noteq> []" "deform_desc_offset sjc = desc_offset" "deform_natts sjc = of_nat natts" "0 < natts" "natts \<le> 1664"
      "length descs = 8 * natts" "length code \<le> unat desc_offset" "unat desc_offset + length descs \<le> unat total_size"
      "unat (deform_used_size sjc) = length code + length descs" "deform_used_size sjc \<le> capacity sjc"
      "unat (capacity sjc) \<le> seg_size sjc"
      "map (seg_bytes sjc) [unat (usable sjc)..<unat (usable sjc) + length code] = code"
      "map (seg_bytes sjc) [unat (usable sjc) + length code..<unat (usable sjc) + length code + length descs] = descs"
    using P by (auto simp: published_def simp del: map_eq_conv)
  have sn: "sint (of_nat natts :: int32) = int natts"
    using F(9) by (simp add: signed_of_nat signed_take_bit_int_eq_self)
  have ds: "unat (SIZEOF_DEFORM_COL_DESC * of_nat natts) = 8 * natts"
    using F(9) by (simp add: SIZEOF_DEFORM_COL_DESC_def unat_word_ariths unat_of_nat)
  have u: "unat (usable sjc) + (length code + length descs) = unat (capacity sjc)"
    using F(13,14) by (simp add: usable_def unat_sub word_le_nat_alt)
  have uc: "unat (usable sjc + deform_code_size sjc) = unat (usable sjc) + length code"
    using u F(4) unsigned_less[of "capacity sjc", where ?'a = nat] by (simp add: unat_word_ariths)
  have used: "deform_used_size sjc = deform_code_size sjc + SIZEOF_DEFORM_COL_DESC * of_nat natts"
    using F(4,10,13) ds u unsigned_less[of "capacity sjc", where ?'a = nat]
    by (simp add: word_unat_eq_iff unat_word_ariths)
  have guards: "((of_nat natts :: int32) \<le>s 0) = False" "(deform_code_size sjc = 0) = False" "(deform_used_size sjc = 0) = False"
      "(desc_offset < deform_code_size sjc) = False" "(desc_offset > total_size) = False"
      "(SIZEOF_DEFORM_COL_DESC * of_nat natts > total_size - desc_offset) = False"
    using F sn ds by (auto simp: word_sle_eq word_less_nat_alt unat_sub word_le_nat_alt)
  have reads: "read_seg sjc (unat (usable sjc)) (length code) = Some code"
      "read_seg sjc (unat (usable sjc) + length code) (8 * natts) = Some descs"
    using F u by (auto simp: read_seg_def simp del: map_eq_conv)
  show ?thesis
    using reads F(1,2,3,6) assms(2-)
    by (simp add: pg_jitter_attach_shared_deform_def guards F(4,7) sn ds Let_def used[symmetric] usable_def[symmetric] uc
        shared_deform_alloc_fixed_def)
qed

text \<open>The operating system maps no page at address 0, and its pages have the size of a power of two.\<close>

definition documented_os :: "shared_os \<Rightarrow> bool" where
  "documented_os os \<longleftrightarrow> (\<forall>n. mmap_any os n \<noteq> Some 0) \<and> (\<exists>k \<le> 30. shared_page_size os = 2 ^ k)"

lemma try_addresses_nonzero:
  "try_addresses os h n ks = Some page \<Longrightarrow> documented_os os \<Longrightarrow> page \<noteq> 0"
  by (induction ks) (auto simp: shared_deform_alloc_fixed_def documented_os_def split: option.splits if_splits)

lemma compile_shared_cases:
  assumes inv: "shared_base sjc xs" and os: "exact_generator os" "documented_os os" and n: "0 < natts" "natts \<le> 1664"
  obtains "pg_jitter_compile_shared_deform os env sjc st addr desc ops natts = Some (False, sjc, st, None)"
  | sjc' page total_size code descs desc_offset where
      "pg_jitter_compile_shared_deform os env sjc st addr desc ops natts
        = Some (True, sjc', publish_shared env page addr desc ops natts st, Some (page, page_bytes code descs (unat desc_offset)))"
      "published sjc' page total_size code descs desc_offset natts" "shared_inv sjc' xs"
      "dsm_segment.deform_attrs_hash sjc' = deform_attrs_hash env desc natts" "unat (deform_ops_kind sjc') = shared_deform_slot_ops_kind ops"
      "deform_tdtypeid sjc' = tdtypeid desc" "deform_tdtypmod sjc' = tdtypmod desc"
proof (cases "pg_jitter_compile_shared_deform os env sjc st addr desc ops natts = Some (False, sjc, st, None)")
  case False
  let ?d = "SIZEOF_DEFORM_COL_DESC * of_nat natts" and ?k = "shared_deform_slot_ops_kind ops"
  obtain probe where probe: "compile_loop os desc ops natts (palloc_descs os) None = Some probe"
    and g1: "deform_addr sjc = 0" "?k \<noteq> SHARED_DEFORM_OPS_INVALID" "lc_code_size probe \<noteq> 0" "lc_buffer_size probe \<noteq> 0"
      "\<not> lc_code_size probe > lc_buffer_size probe"
    using False by (auto simp: pg_jitter_compile_shared_deform_def Let_def split: option.splits if_splits)
  let ?off = "MAXALIGN (lc_buffer_size probe)"
  let ?stored = "lc_code_size probe + ?d" and ?total = "round_to_pages (?off + ?d) (shared_page_size os)"
  obtain page lc where g2: "\<not> used sjc + ?stored > capacity sjc" "alloc_page os ?total = Some page"
      "compile_loop os desc ops natts (page + ?off) (Some (page, lc_buffer_size probe)) = Some lc"
      "lc_code_size lc = lc_code_size probe" "mprotect_exec os page ?total"
    and sz: "lc_buffer_size lc = lc_buffer_size probe"
    using False probe g1 by (auto simp: pg_jitter_compile_shared_deform_def Let_def split: option.splits if_splits)
  let ?contents = "page_bytes (lc_code lc) (lc_descs lc) (unat ?off)"
  let ?h = "set_deform_header page ?total ?stored (lc_code_size probe) ?off natts (deform_attrs_hash env desc natts) ?k desc sjc"
  have result: "pg_jitter_compile_shared_deform os env sjc st addr desc ops natts
      = map_option (\<lambda>sjc'. (True, sjc', publish_shared env page addr desc ops natts st, Some (page, ?contents)))
          (publish_bytes ?h ?stored ?contents (lc_code_size probe) ?off ?d)"
    using probe g1 g2 sz by (simp add: pg_jitter_compile_shared_deform_def Let_def)
  have lens: "length (lc_code lc) = unat (lc_code_size probe)" "length (lc_descs lc) = 8 * natts" "unat (lc_buffer_size probe) \<le> 2 ^ 30"
    using os(1) g2(3,4) probe unfolding exact_generator_def by metis+
  have I: "lock sjc = 0" "unat (capacity sjc) \<le> 2 ^ 30" "unat (capacity sjc) \<le> seg_size sjc"
      "used sjc \<le> capacity sjc" "num_entries sjc = of_nat (length xs)" "entries_at sjc 88 xs"
    using inv by (simp_all add: shared_base_def)
  have c: "unat (lc_code_size probe) \<le> unat (lc_buffer_size probe)" "0 < unat (lc_code_size probe)"
    using g1 by (auto simp: word_less_nat_alt not_less unat_gt_0)
  have d: "unat ?d = 8 * natts"
    using n by (simp add: SIZEOF_DEFORM_COL_DESC_def unat_word_ariths unat_of_nat)
  have off: "unat (lc_buffer_size probe) \<le> unat ?off" "unat ?off \<le> 2 ^ 30 + 7"
    using MAXALIGN_int[of "lc_buffer_size probe"] lens(3) by auto
  have stored: "unat ?stored = unat (lc_code_size probe) + unat ?d"
    using d c lens(3) n by (simp add: unat_word_ariths)
  have "unat (used sjc) \<le> 2 ^ 30"
    using I by (auto simp: word_le_nat_alt)
  then have room: "unat (used sjc) + unat ?stored \<le> unat (capacity sjc)"
    using g2(1) stored d c lens(3) n by (simp add: word_less_nat_alt unat_word_ariths not_less)
  obtain k where k: "k \<le> 30" "shared_page_size os = 2 ^ k" using os(2) by (auto simp: documented_os_def)
  have "unat (?off + ?d) = unat ?off + 8 * natts" using off d n by (simp add: unat_word_ariths)
  then have total: "unat ?off + 8 * natts \<le> unat ?total"
    using round_to_pages_ge[OF k(2,1), of "?off + ?d"] off n by simp
  have hs: "capacity ?h = capacity sjc" "seg_size ?h = seg_size sjc" "seg_bytes ?h = seg_bytes sjc"
    by (simp_all add: set_deform_header_def)
  have fits: "unat ?stored \<le> unat (capacity ?h)" "unat (capacity ?h) \<le> seg_size ?h" using room I(3) by (simp_all add: hs)
  obtain sjc' where S: "publish_bytes ?h ?stored ?contents (lc_code_size probe) ?off ?d = Some sjc'"
      "sjc' = ?h\<lparr>seg_bytes := seg_bytes sjc'\<rparr>" "\<And>i. i < unat (capacity ?h - ?stored) \<Longrightarrow> seg_bytes sjc' i = seg_bytes ?h i"
      "map (seg_bytes sjc') [unat (capacity ?h - ?stored)..<unat (capacity ?h - ?stored) + unat (lc_code_size probe)]
         = map ?contents [0..<unat (lc_code_size probe)]"
      "map (seg_bytes sjc') [unat (capacity ?h - ?stored + lc_code_size probe)..<unat (capacity ?h - ?stored + lc_code_size probe) + unat ?d]
         = map ?contents [unat ?off..<unat ?off + unat ?d]"
    using publish_bytes_effect[OF stored fits] by blast
  have fields: "deform_addr sjc' = page" "deform_page_size sjc' = ?total" "deform_used_size sjc' = ?stored"
      "deform_code_size sjc' = lc_code_size probe" "deform_desc_offset sjc' = ?off" "deform_natts sjc' = of_nat natts"
      "dsm_segment.deform_attrs_hash sjc' = deform_attrs_hash env desc natts" "deform_ops_kind sjc' = of_nat ?k"
      "deform_tdtypeid sjc' = tdtypeid desc" "deform_tdtypmod sjc' = tdtypmod desc" "lock sjc' = lock sjc"
      "capacity sjc' = capacity sjc" "seg_size sjc' = seg_size sjc" "used sjc' = used sjc" "num_entries sjc' = num_entries sjc"
    by (subst S(2), simp add: set_deform_header_def)+
  have us: "usable sjc' = capacity sjc - ?stored" by (simp add: usable_def fields)
  have usu: "unat (capacity sjc - ?stored) = unat (capacity sjc) - unat ?stored"
    using room by (simp add: unat_sub word_le_nat_alt)
  have uc: "unat (capacity sjc - ?stored + lc_code_size probe) = unat (capacity sjc - ?stored) + unat (lc_code_size probe)"
    by (rule tail_offset) (use stored room in simp_all)
  note tail = S(4)[unfolded hs] S(5)[unfolded hs uc]
  have "length (lc_code lc) \<le> unat ?off" using lens(1) c(1) off(1) by simp
  note copies = page_bytes_copy[OF this, of "lc_descs lc"]
  have P: "published sjc' page ?total (lc_code lc) (lc_descs lc) ?off natts"
    using tail copies lens c off total room stored d n I(3) g2(2) os(2) try_addresses_nonzero[OF _ os(2)]
    by (auto simp: published_def fields us uc hs alloc_page_def word_le_nat_alt simp del: map_eq_conv)
  have "entries_at sjc' 88 xs"
    by (rule entries_at_frame[OF I(6)]) (use S(3) room usu in \<open>simp_all add: fields hs\<close>)
  then have J: "shared_inv sjc' xs"
    using I room usu by (simp add: shared_inv_def fields us word_le_nat_alt)
  have kind: "unat (deform_ops_kind sjc') = ?k"
    by (simp add: fields shared_deform_slot_ops_kind_def SHARED_DEFORM_OPS_INVALID_def)
  show thesis
    by (rule that(2)[OF _ P J fields(7) kind fields(9,10)]) (simp add: result S(1))
qed (rule that(1))

text \<open>Storing further codes leaves what is published.\<close>

definition deform_header where
  "deform_header sjc = (deform_addr sjc, deform_page_size sjc, deform_used_size sjc, deform_code_size sjc, deform_desc_offset sjc,
     deform_natts sjc, dsm_segment.deform_attrs_hash sjc, deform_ops_kind sjc, deform_tdtypeid sjc, deform_tdtypmod sjc,
     capacity sjc, seg_size sjc)"

lemma store_keeps_header:
  "pg_jitter_store_shared_code sjc code n node idx fp a = Some (ok, sjc') \<Longrightarrow> deform_header sjc' = deform_header sjc"
  by (auto simp: pg_jitter_store_shared_code_def acquire_def release_def store_entry_def write_seg_def deform_header_def Let_def
      split: option.splits if_splits bind_splits)

lemma store_all_keeps_header: "store_all qs sjc = Some (oks, sjc') \<Longrightarrow> deform_header sjc' = deform_header sjc"
proof (induction qs arbitrary: sjc oks)
  case (Cons q qs)
  then show ?case by (auto split: bind_splits) (metis store_keeps_header)
qed simp

lemma store_all_published:
  assumes P: "published sjc page total_size code descs desc_offset natts" and inv: "shared_inv sjc xs"
    and "\<forall>q \<in> set qs. length (rq_code q) < 2 ^ 64" and st: "store_all qs sjc = Some (oks, sjc')"
  shows "published sjc' page total_size code descs desc_offset natts"
proof -
  have h: "deform_header sjc' = deform_header sjc" by (rule store_all_keeps_header[OF st])
  then have u: "usable sjc' = usable sjc" by (simp add: deform_header_def usable_def)
  have same: "seg_bytes sjc' i = seg_bytes sjc i" if "unat (usable sjc) \<le> i" for i
    using store_all_refines[OF inv assms(3)] st that by auto
  have c: "map (seg_bytes sjc) [unat (usable sjc)..<unat (usable sjc) + length code] = code"
      "map (seg_bytes sjc) [unat (usable sjc) + length code..<unat (usable sjc) + length code + length descs] = descs"
    using P unfolding published_def by blast+
  have "map (seg_bytes sjc') [unat (usable sjc)..<unat (usable sjc) + length code] = code"
    by (rule trans[OF map_bytes_cong c(1)]) (use same in simp)
  moreover have "map (seg_bytes sjc') [unat (usable sjc) + length code..<unat (usable sjc) + length code + length descs] = descs"
    by (rule trans[OF map_bytes_cong c(2)]) (use same in simp)
  ultimately show ?thesis using P h unfolding published_def u deform_header_def prod.inject by metis
qed

text \<open>
  C12 (roundtrip): when the leader shares a deform function and then stores any further codes, a worker whose operating system gives it
  the leader's address maps there a page with exactly the bytes of the leader's page, code and column descriptors,
  and its dispatch then has the leader's key: the columns, the hash of their attributes, the kind of slot and the
  type of the tuple. The codes stored before and after can still be found.
\<close>

theorem shared_deform_roundtrip:
  assumes "shared_inv sjc xs" "exact_generator os" "documented_os os" "0 < natts" "natts \<le> 1664"
    and "pg_jitter_compile_shared_deform os env sjc st addr desc ops natts = Some (True, sjc1, st1, mapped)"
    and "\<forall>q \<in> set qs. length (rq_code q) < 2 ^ 64" "store_all qs sjc1 = Some (oks, sjc2)"
    and "shared_deform_fn wst = None" "\<forall>page n. alloc_at wos page n" "\<forall>page n. mprotect_exec wos page n"
  shows "\<exists>page contents. mapped = Some (page, contents) \<and> shared_deform_fn st1 = Some page
    \<and> pg_jitter_attach_shared_deform wos sjc2 wst
      = Some (True, set_shared_deform page natts (deform_attrs_hash env desc natts) (shared_deform_slot_ops_kind ops)
                (tdtypeid desc) (tdtypmod desc) None None wst, Some (page, contents))
    \<and> shared_inv sjc2 (xs @ accepted qs oks)"
  using assms(1)[unfolded shared_inv_base, THEN conjunct1] assms(2-5)
proof (rule compile_shared_cases[where env = env and st = st and addr = addr and desc = desc and ops = ops])
  assume "pg_jitter_compile_shared_deform os env sjc st addr desc ops natts = Some (False, sjc, st, None)"
  then show ?thesis using assms(6) by simp
next
  fix s page total_size code descs desc_offset
  assume r: "pg_jitter_compile_shared_deform os env sjc st addr desc ops natts
        = Some (True, s, publish_shared env page addr desc ops natts st, Some (page, page_bytes code descs (unat desc_offset)))"
    and P: "published s page total_size code descs desc_offset natts" "shared_inv s xs"
    and key: "dsm_segment.deform_attrs_hash s = deform_attrs_hash env desc natts" "unat (deform_ops_kind s) = shared_deform_slot_ops_kind ops"
      "deform_tdtypeid s = tdtypeid desc" "deform_tdtypmod s = tdtypmod desc"
  have s: "s = sjc1" "st1 = publish_shared env page addr desc ops natts st" "mapped = Some (page, page_bytes code descs (unat desc_offset))"
    using r assms(6) by auto
  have P2: "published sjc2 page total_size code descs desc_offset natts"
    by (rule store_all_published[OF P assms(7)]) (use assms(8) s in simp)
  have "shared_inv sjc2 (xs @ accepted qs oks)"
    using store_all_refines[OF P(2) assms(7)] assms(8) s(1) by auto
  moreover have "deform_header sjc2 = deform_header s" using store_all_keeps_header assms(8) s(1) by blast
  ultimately show ?thesis
    using attach_published[OF P2 assms(9), of wos] assms(10,11) key
    by (simp add: s(2,3) publish_shared_def set_shared_deform_def deform_header_def)
qed

section \<open>What the leader does with the segment\<close>

text \<open>The leader stores codes and shares deform functions, in any order. The results are whether each was stored or shared.\<close>

datatype leader_op = Store_code shared_request | Share_deform nat tuple_desc slot_ops nat

primrec leader_run :: "shared_os \<Rightarrow> uint64 dispatch_env \<Rightarrow> leader_op list \<Rightarrow> dsm_segment \<times> uint64 dispatch_state \<Rightarrow>
    (bool list \<times> dsm_segment \<times> uint64 dispatch_state) option" where
  "leader_run os env [] c = Some ([], c)"
| "leader_run os env (a # as) c = Option.bind
     (case a of
        Store_code q \<Rightarrow> map_option (\<lambda>(ok, sjc). (ok, sjc, snd c))
          (pg_jitter_store_shared_code (fst c) (Some (rq_code q)) (of_nat (length (rq_code q))) (rq_node q) (rq_index q) (rq_fingerprint q) (rq_ref q))
      | Share_deform addr desc ops natts \<Rightarrow> map_option (\<lambda>(ok, sjc, st, _). (ok, sjc, st))
          (pg_jitter_compile_shared_deform os env (fst c) (snd c) addr desc ops natts))
     (\<lambda>(ok, c'). map_option (\<lambda>(oks, c''). (ok # oks, c'')) (leader_run os env as c'))"

text \<open>The codes that were stored, in order.\<close>

fun stored_codes :: "leader_op list \<Rightarrow> bool list \<Rightarrow> shared_request list" where
  "stored_codes (Store_code q # as) (ok # oks) = (if ok then [q] else []) @ stored_codes as oks"
| "stored_codes (Share_deform _ _ _ _ # as) (ok # oks) = stored_codes as oks"
| "stored_codes _ _ = []"

text \<open>The codes are shorter than the address space, the deform functions have at most 1664 columns.\<close>

definition leader_op_ok :: "leader_op \<Rightarrow> bool" where
  "leader_op_ok a \<longleftrightarrow> (case a of Store_code q \<Rightarrow> length (rq_code q) < 2 ^ 64 | Share_deform _ _ _ natts \<Rightarrow> 0 < natts \<and> natts \<le> 1664)"

lemma leader_run_base:
  assumes "exact_generator os" "documented_os os"
  shows "\<lbrakk>shared_base sjc xs; list_all leader_op_ok as\<rbrakk> \<Longrightarrow>
    \<exists>oks sjc' st'. leader_run os env as (sjc, st) = Some (oks, sjc', st') \<and> length oks = length as
      \<and> shared_base sjc' (xs @ map entry_of (stored_codes as oks)) \<and> (shared_room sjc \<longrightarrow> shared_room sjc') \<and> set (stored_codes as oks) \<subseteq> {q. Store_code q \<in> set as}"
proof (induction as arbitrary: sjc xs st)
  case (Cons a as)
  have rest: "list_all leader_op_ok as" using Cons.prems(2) by simp
  show ?case
  proof (cases a)
    case (Store_code q)
    obtain ok sjc1 where st: "pg_jitter_store_shared_code sjc (Some (rq_code q)) (of_nat (length (rq_code q))) (rq_node q)
        (rq_index q) (rq_fingerprint q) (rq_ref q) = Some (ok, sjc1)" "shared_base sjc1 (xs @ accepted [q] [ok])" "shared_room sjc1 = shared_room sjc"
      using store_request[OF Cons.prems(1), of q] Cons.prems(2) by (auto simp: leader_op_ok_def Store_code)
    obtain oks c where r: "leader_run os env as (sjc1, st) = Some (oks, c)" "length oks = length as"
        "shared_base (fst c) ((xs @ accepted [q] [ok]) @ map entry_of (stored_codes as oks))" "shared_room sjc1 \<longrightarrow> shared_room (fst c)"
        "set (stored_codes as oks) \<subseteq> {q. Store_code q \<in> set as}"
      using Cons.IH[OF st(2) rest, of st] by fastforce
    have e: "(xs @ accepted [q] [ok]) @ map entry_of (stored_codes as oks) = xs @ map entry_of (stored_codes (a # as) (ok # oks))"
      by (simp add: Store_code accepted_def)
    show ?thesis using st(1,3) r(1,2,4,5) r(3)[unfolded e]
      by (intro exI[of _ "ok # oks"] exI[of _ "fst c"] exI[of _ "snd c"]) (auto simp: Store_code)
  next
    case (Share_deform addr desc ops natts)
    have n: "0 < natts" "natts \<le> 1664" using Cons.prems(2) by (simp_all add: leader_op_ok_def Share_deform)
    obtain ok sjc1 st1 m where s: "pg_jitter_compile_shared_deform os env sjc st addr desc ops natts = Some (ok, sjc1, st1, m)"
        "shared_base sjc1 xs" "shared_room sjc \<longrightarrow> shared_room sjc1"
      by (rule compile_shared_cases[OF Cons.prems(1) assms n, of env st addr desc ops]) (use Cons.prems(1) in \<open>auto simp: shared_inv_base\<close>)
    obtain oks c where r: "leader_run os env as (sjc1, st1) = Some (oks, c)" "length oks = length as"
        "shared_base (fst c) (xs @ map entry_of (stored_codes as oks))" "shared_room sjc1 \<longrightarrow> shared_room (fst c)"
        "set (stored_codes as oks) \<subseteq> {q. Store_code q \<in> set as}"
      using Cons.IH[OF s(2) rest, of st1] by fastforce
    show ?thesis using s(1,3) r
      by (intro exI[of _ "ok # oks"] exI[of _ "fst c"] exI[of _ "snd c"]) (auto simp: Share_deform)
  qed
qed simp

lemma leader_run_append:
  "leader_run os env (as @ bs) c = Option.bind (leader_run os env as c)
     (\<lambda>(oks, c'). map_option (\<lambda>(oks', c''). (oks @ oks', c'')) (leader_run os env bs c'))"
proof (induction as arbitrary: c)
  case Nil
  then show ?case by (simp add: option.map_id0 flip: id_def)
next
  case (Cons a as)
  then show ?case by (auto split: option.splits leader_op.splits simp: Option.bind_def map_option_case)
qed

text \<open>A code is accepted exactly when the segment has room for it at that moment.\<close>

lemma leader_accepts:
  assumes "exact_generator os" "documented_os os" "shared_base sjc xs" "list_all leader_op_ok as"
    and "leader_run os env as (sjc, st) = Some (oks, c)" "i < length as" "as ! i = Store_code q"
  shows "\<exists>oks0 sjc0 st0. leader_run os env (take i as) (sjc, st) = Some (oks0, sjc0, st0)
    \<and> (oks ! i \<longleftrightarrow> shared_room sjc0 \<and> fits sjc0 (length (rq_code q)))"
proof -
  have split: "as = take i as @ Store_code q # drop (Suc i) as"
    using id_take_nth_drop[OF assms(6)] assms(7) by simp
  have ok: "list_all leader_op_ok (take i as)" "leader_op_ok (Store_code q)"
    using assms(4,6,7) by (metis nth_mem list_all_iff in_set_takeD)+
  obtain oks0 sjc0 st0 where r: "leader_run os env (take i as) (sjc, st) = Some (oks0, sjc0, st0)" "length oks0 = i"
      "shared_base sjc0 (xs @ map entry_of (stored_codes (take i as) oks0))"
    using leader_run_base[OF assms(1,2,3) ok(1), of env st] assms(6) by auto
  obtain ok' sjc1 where s: "pg_jitter_store_shared_code sjc0 (Some (rq_code q)) (of_nat (length (rq_code q))) (rq_node q)
        (rq_index q) (rq_fingerprint q) (rq_ref q) = Some (ok', sjc1)" "ok' \<longleftrightarrow> shared_room sjc0 \<and> fits sjc0 (length (rq_code q))"
    using store_request[OF r(3), of q] ok(2) by (auto simp: leader_op_ok_def)
  have "oks ! i = ok'"
    using assms(5) r(1,2) s(1) by (subst (asm) split) (auto simp: leader_run_append nth_append bind_eq_Some_conv)
  then show ?thesis using r(1) s(2) by blast
qed

lemma find_entry_of:
  "List.find (\<lambda>(e, bs). key_of e = k) (map entry_of qs) = map_option entry_of (List.find (\<lambda>q. (rq_node q, rq_index q, rq_fingerprint q) = k) qs)"
  by (induction qs) (auto simp: entry_of_def key_of_def)

lemma leader_codes_found:
  assumes "88 \<le> unat dsm_size" "unat dsm_size \<le> 2 ^ 30" "unat dsm_size \<le> seg_size sjc"
    and "exact_generator os" "documented_os os" "list_all leader_op_ok as"
  shows "\<exists>oks sjc' st' r. leader_run os env as (pg_jitter_init_shared_dsm dsm_size sjc, st) = Some (oks, sjc', st') \<and> length oks = length as
    \<and> (\<forall>i q. i < length as \<and> as ! i = Store_code q \<longrightarrow>
        (\<exists>oks0 sjc0 st0. leader_run os env (take i as) (pg_jitter_init_shared_dsm dsm_size sjc, st) = Some (oks0, sjc0, st0)
          \<and> (oks ! i \<longleftrightarrow> shared_room sjc0 \<and> fits sjc0 (length (rq_code q)))))
    \<and> pg_jitter_find_shared_code sjc' node idx fp = Some (r, sjc')
    \<and> (case List.find (\<lambda>q. (rq_node q, rq_index q, rq_fingerprint q) = (node, idx, fp)) (stored_codes as oks) of
         None \<Rightarrow> r = Shared_missing \<or> r \<in> {Shared_invalid 1, Shared_invalid 2} \<and> stored_codes as oks = [] \<and> unat dsm_size < unat (deform_used_size sjc) + 88
       | Some q \<Rightarrow> \<exists>c. r = Shared_found c (of_nat (length (rq_code q))) (rq_ref q)
           \<and> read_seg sjc' (unat c) (length (rq_code q)) = Some (rq_code q))"
proof -
  obtain oks sjc' st' where run: "leader_run os env as (pg_jitter_init_shared_dsm dsm_size sjc, st) = Some (oks, sjc', st')" "length oks = length as"
      "shared_base sjc' (map entry_of (stored_codes as oks))" "set (stored_codes as oks) \<subseteq> {q. Store_code q \<in> set as}"
      "shared_room (pg_jitter_init_shared_dsm dsm_size sjc) \<longrightarrow> shared_room sjc'"
    using leader_run_base[OF assms(4,5) shared_init_base(1)[OF assms(1-3)] assms(6), of env st] by auto
  have none: "unat dsm_size < unat (deform_used_size sjc) + 88 \<and> stored_codes as oks = []" if "\<not> shared_room sjc'"
    using that run(3,5) shared_init_base(2)[OF assms(1-3)] by (auto simp: shared_base_def not_le[symmetric])
  have len: "unat (of_nat (length (rq_code q)) :: uint64) = length (rq_code q)"
    if "List.find P (stored_codes as oks) = Some q" for P q
  proof -
    have "q \<in> set (stored_codes as oks)" using that by (auto simp: find_Some_iff)
    then have "Store_code q \<in> set as" using run(4) by auto
    then show ?thesis using assms(6) by (auto simp: list_all_iff leader_op_ok_def unat_of_nat)
  qed
  note room = leader_accepts[OF assms(4,5) shared_init_base(1)[OF assms(1-3)] assms(6) run(1)]
  show ?thesis
    using run(1,2) room find_base[OF run(3), of node idx fp] none len unfolding find_entry_of
    by (cases "List.find (\<lambda>q. (rq_node q, rq_index q, rq_fingerprint q) = (node, idx, fp)) (stored_codes as oks)")
       (fastforce simp: entry_of_def split: if_splits)+
qed

definition example_os :: shared_os where
  "example_os = \<lparr>alloc_at = (\<lambda>_ _. True), mmap_any = (\<lambda>_. Some 4096), mprotect_exec = (\<lambda>_ _. True), sysconf_pagesize = 4096,
     text_base = 8192, palloc_descs = 64,
     compile_loop = (\<lambda>desc ops natts a b. Some \<lparr>lc_code = [1, 2, 3], lc_code_size = 3, lc_buffer_size = 16,
       lc_descs = replicate (8 * natts) 9\<rparr>)\<rparr>"

definition example_shared_env :: "uint64 dispatch_env" where
  "example_shared_env = \<lparr>pg_jitter_deform_cache = True, wide_deform_limit = 1664, deform_threshold = 117, attrs_crc = (\<lambda>a. of_nat (length a)),
     compile_deform_loop = (\<lambda>_ _ _. None), compile_deform = (\<lambda>_ _ _. None)\<rparr>"

lemma example_os_ok: "exact_generator example_os" "documented_os example_os"
proof -
  show "exact_generator example_os" by (simp add: exact_generator_def example_os_def)
  have "shared_page_size example_os = 2 ^ 12" by (simp add: shared_page_size_def example_os_def word_sle_eq)
  then have "\<exists>k \<le> 30. shared_page_size example_os = 2 ^ k" by (intro exI[of _ 12]) simp
  then show "documented_os example_os" by (simp add: documented_os_def) (simp add: example_os_def)
qed

lemma example_compiled:
  "\<exists>sjc1 st1 m. pg_jitter_compile_shared_deform example_os example_shared_env
     (pg_jitter_init_shared_dsm 4096 (example_segment 4096)) start_state 7 two_ints TTSOpsMinimalTuple 2 = Some (True, sjc1, st1, m)"
proof -
  have ps: "shared_page_size example_os = 4096" by (simp add: shared_page_size_def example_os_def word_sle_eq)
  have "alloc_page example_os 4096 \<noteq> None"
    by (simp add: alloc_page_def ps) (simp add: example_os_def shared_deform_alloc_fixed_def upt_rec split: option.splits)
  then obtain page where "alloc_page example_os 4096 = Some page" by blast
  moreover have "MAXALIGN SHARED_HEADER_SIZE = 88" "MAXALIGN 16 = 16" by (simp_all add: MAXALIGN_def shared_sizes)
  moreover have "round_to_pages 32 4096 = 4096" by (simp add: round_to_pages_def)
  moreover have "compile_loop example_os d o2 n a b = Some \<lparr>lc_code = [1, 2, 3], lc_code_size = 3, lc_buffer_size = 16,
       lc_descs = replicate (8 * n) 9\<rparr>" "mprotect_exec example_os x y" for d o2 n a b x y by (simp_all add: example_os_def)
  ultimately show ?thesis
    by (simp add: pg_jitter_compile_shared_deform_def ps example_segment_def pg_jitter_init_shared_dsm_def Let_def
        shared_deform_slot_ops_kind_def SHARED_DEFORM_OPS_INVALID_def SIZEOF_DEFORM_COL_DESC_def publish_bytes_def
        set_deform_header_def write_seg_def)
qed

lemma shared_deform_roundtrip_witness:
  "\<exists>sjc1 st1 m page contents. pg_jitter_compile_shared_deform example_os example_shared_env
       (pg_jitter_init_shared_dsm 4096 (example_segment 4096)) start_state 7 two_ints TTSOpsMinimalTuple 2 = Some (True, sjc1, st1, m)
     \<and> m = Some (page, contents)
     \<and> (\<exists>wst. pg_jitter_attach_shared_deform example_os sjc1 start_state = Some (True, wst, Some (page, contents)))"
proof -
  obtain sjc1 st1 m where c: "pg_jitter_compile_shared_deform example_os example_shared_env
     (pg_jitter_init_shared_dsm 4096 (example_segment 4096)) start_state 7 two_ints TTSOpsMinimalTuple 2 = Some (True, sjc1, st1, m)"
    using example_compiled by blast
  have "shared_inv (pg_jitter_init_shared_dsm 4096 (example_segment 4096)) []"
    by (rule shared_init_inv) (simp_all add: example_segment_def)
  from shared_deform_roundtrip[OF this example_os_ok _ _ c, of "[]" "[]" sjc1 start_state example_os] c show ?thesis
    by (auto simp: start_state_def example_os_def)
qed

text \<open>
  C10 (roundtrip): after a leader initialised a segment of the size that the setting allows, with any contents before, stored any list of codes and
  shared deform functions in between, each code was accepted exactly when the segment had room for it behind the codes before it, and a worker that searches for a node, an expression and a
  fingerprint gets the size and library address of the first accepted code with these three, at an offset where the segment has
  exactly the bytes of that code. When there is none it misses; when the field \<open>deform_used_size\<close>, which the leader does not set, was so large
  that no code could be stored, it reports an invalid segment. The lock is free again.
\<close>

theorem shared_code_roundtrip:
  assumes "88 \<le> unat dsm_size" "unat dsm_size \<le> 2 ^ 30" "unat dsm_size \<le> seg_size sjc"
    and "exact_generator os" "documented_os os" "list_all leader_op_ok as"
  shows "\<exists>oks sjc' st' r. leader_run os env as (pg_jitter_init_shared_dsm dsm_size sjc, st) = Some (oks, sjc', st') \<and> length oks = length as
    \<and> (\<forall>i q. i < length as \<and> as ! i = Store_code q \<longrightarrow>
        (\<exists>oks0 sjc0 st0. leader_run os env (take i as) (pg_jitter_init_shared_dsm dsm_size sjc, st) = Some (oks0, sjc0, st0)
          \<and> (oks ! i \<longleftrightarrow> shared_room sjc0 \<and> fits sjc0 (length (rq_code q)))))
    \<and> pg_jitter_find_shared_code sjc' node idx fp = Some (r, sjc')
    \<and> (case List.find (\<lambda>q. (rq_node q, rq_index q, rq_fingerprint q) = (node, idx, fp)) (stored_codes as oks) of
         None \<Rightarrow> r = Shared_missing \<or> r \<in> {Shared_invalid 1, Shared_invalid 2} \<and> stored_codes as oks = [] \<and> unat dsm_size < unat (deform_used_size sjc) + 88
       | Some q \<Rightarrow> \<exists>c. r = Shared_found c (of_nat (length (rq_code q))) (rq_ref q)
           \<and> read_seg sjc' (unat c) (length (rq_code q)) = Some (rq_code q))"
  by (rule leader_codes_found[OF assms])

theorem shared_code_roundtrip_witness:
  "\<exists>oks sjc' st' r. leader_run example_os example_shared_env
      [Store_code \<lparr>rq_node = 3, rq_index = 1, rq_fingerprint = 77, rq_code = [1, 2, 3], rq_ref = 5\<rparr>, Share_deform 7 two_ints TTSOpsMinimalTuple 2,
       Store_code \<lparr>rq_node = 3, rq_index = 2, rq_fingerprint = 78, rq_code = [4, 5], rq_ref = 6\<rparr>]
      (pg_jitter_init_shared_dsm 4096 (example_segment 4096), start_state) = Some (oks, sjc', st') \<and> length oks = 3
    \<and> pg_jitter_find_shared_code sjc' 3 2 78 = Some (r, sjc')"
  using shared_code_roundtrip[of 4096 "example_segment 4096" example_os "[Store_code \<lparr>rq_node = 3, rq_index = 1, rq_fingerprint = 77, rq_code = [1, 2, 3], rq_ref = 5\<rparr>,
      Share_deform 7 two_ints TTSOpsMinimalTuple 2, Store_code \<lparr>rq_node = 3, rq_index = 2, rq_fingerprint = 78, rq_code = [4, 5], rq_ref = 6\<rparr>]"
      example_shared_env start_state 3 2 78] example_os_ok
  by (fastforce simp: example_segment_def leader_op_ok_def)

end
