(* ===== verification/Relocate.thy ===== *)
theory Relocate
  imports SharedCode
begin

text \<open>
  What a parallel worker does with code that its leader compiled (\<open>pg_jitter_copy_to_executable\<close>,
  \<open>pg_jitter_relocate_dylib_addrs\<close> and their helpers in \<open>pg_jitter_common.c\<close>, and the place where \<open>sljit_compile_expr\<close>
  calls them): the bytes are copied and searched for calls of the functions of the library, whose addresses are replaced by those of the
  worker; when a call goes anywhere else the worker compiles the expression itself.
\<close>

section \<open>Known addresses\<close>

text \<open>The build switches around the table of fixed helpers, and the addresses of a process: a function has the address that \<open>addr_of\<close> gives its
  name.\<close>

record reloc_build =
  have_pcre2 :: bool
  have_yyjson :: bool
  pg16 :: bool

definition fixed_helpers :: "reloc_build \<Rightarrow> string list" where
  "fixed_helpers b =
     [''pg_jitter_fallback_step'',
      ''pg_jitter_agg_trans_init_strict_byval'', ''pg_jitter_agg_trans_strict_byval'', ''pg_jitter_agg_trans_byval'',
      ''pg_jitter_agg_trans_init_strict_byref'', ''pg_jitter_agg_trans_strict_byref'', ''pg_jitter_agg_trans_byref'',
      ''pg_jitter_agg_byref_finish'',
      ''pg_jitter_compiled_deform_dispatch'',
      ''pg_jitter_scalararrayop_loop'',
      ''jit_text_datum_eq'', ''jit_text_datum_ne'',
      ''simd_like_match_text'', ''simd_like_match_compiled'',
      ''crc32_hash_probe_int4'', ''text_hash_probe'', ''sorted_array_probe_int4'',
      ''jit_jsonb_object_field_text'',
      ''jit_error_int2_overflow'', ''jit_error_int4_overflow'', ''jit_error_int8_overflow'', ''jit_error_division_by_zero'',
      ''jit_error_float_overflow'', ''jit_error_float_underflow''] @
     concat (map (\<lambda>t. map (\<lambda>op. ''pg_jitter_case_bsearch_'' @ op @ t) [''eq_'', ''lt_'', ''le_'', ''gt_'', ''ge_''])
       [''i32'', ''i64'', ''u32'', ''i16'', ''f4'', ''f8'', ''generic'']) @
     (if have_pcre2 b then [''pg_jitter_pcre2_match_raw'', ''pg_jitter_pcre2_match_text''] else []) @
     (if have_yyjson b then (if pg16 b then [''pg_jitter_yj_is_json_datum''] else []) @ [''pg_jitter_yj_jsonb_in''] else [])"

text \<open>The result is the address of the worker.\<close>

definition pg_jitter_reloc_match_worker_addr :: "uint64 \<Rightarrow> uint64 \<Rightarrow> uint64 \<Rightarrow> uint64 option" where
  "pg_jitter_reloc_match_worker_addr worker_ptr leader_addr delta =
     (if worker_ptr = 0 then None else if worker_ptr - delta \<noteq> leader_addr then None else Some worker_ptr)"

fun match_first :: "uint64 list \<Rightarrow> uint64 \<Rightarrow> uint64 \<Rightarrow> uint64 option" where
  "match_first [] leader_addr delta = None"
| "match_first (p # ps) leader_addr delta =
     (case pg_jitter_reloc_match_worker_addr p leader_addr delta of Some a \<Rightarrow> Some a | None \<Rightarrow> match_first ps leader_addr delta)"

definition pg_jitter_reloc_lookup_known_helper ::
  "reloc_build \<Rightarrow> build_config \<Rightarrow> (string \<Rightarrow> uint64) \<Rightarrow> uint64 \<Rightarrow> uint64 \<Rightarrow> uint64 option" where
  "pg_jitter_reloc_lookup_known_helper b cfg addr_of leader_addr delta =
     (case match_first (map addr_of (fixed_helpers b)) leader_addr delta of
        Some a \<Rightarrow> Some a
      | None \<Rightarrow> match_first (map (addr_of \<circ> jit_fn) (jit_direct_fns cfg)) leader_addr delta)"

section \<open>ARM64\<close>

text \<open>The register and the address that four instructions load; whether the fifth branches to that register.\<close>

definition arm_movs :: "uint32 \<Rightarrow> uint32 \<Rightarrow> uint32 \<Rightarrow> uint32 \<Rightarrow> (uint32 \<times> uint64) option" where
  "arm_movs w0 w1 w2 w3 =
     (if w0 AND 0xFFE00000 \<noteq> 0xD2800000 then None
      else let rd = w0 AND 0x1F in
        if w1 AND 0xFFE0001F \<noteq> 0xF2A00000 OR rd then None
        else if w2 AND 0xFFE0001F \<noteq> 0xF2C00000 OR rd then None
        else if w3 AND 0xFFE0001F \<noteq> 0xF2E00000 OR rd then None
        else Some (rd,
          ((ucast (drop_bit 5 w0 AND 0xFFFF) OR push_bit 16 (ucast (drop_bit 5 w1 AND 0xFFFF)))
            OR push_bit 32 (ucast (drop_bit 5 w2 AND 0xFFFF))) OR push_bit 48 (ucast (drop_bit 5 w3 AND 0xFFFF))))"

definition arm_branches :: "uint32 \<Rightarrow> uint32 \<Rightarrow> bool" where
  "arm_branches w4 rd \<longleftrightarrow> w4 AND 0xFFFFFC1F = 0xD63F0000 OR rd \<or> w4 AND 0xFFFFFC1F = 0xD61F0000 OR rd"

definition arm_patch :: "uint32 \<Rightarrow> nat \<Rightarrow> uint64 \<Rightarrow> uint32" where
  "arm_patch w sh new_addr = (w AND 0xFFE0001F) OR push_bit 5 (ucast (drop_bit sh new_addr AND 0xFFFF))"

text \<open>The loop over the instructions; \<open>known\<close> is the lookup of an address.\<close>

function arm_scan :: "(uint64 \<Rightarrow> uint64 option) \<Rightarrow> nat \<Rightarrow> uint32 list \<Rightarrow> int \<Rightarrow> bool \<Rightarrow> uint32 list \<times> int \<times> bool" where
  "arm_scan known i insns patched unknown_call_target =
     (if i + 3 < length insns then
        let w0 = insns ! i; w1 = insns ! (i + 1); w2 = insns ! (i + 2); w3 = insns ! (i + 3) in
        case arm_movs w0 w1 w2 w3 of None \<Rightarrow> arm_scan known (i + 1) insns patched unknown_call_target
        | Some (rd, addr) \<Rightarrow>
          let w4 = if i + 4 < length insns then insns ! (i + 4) else 0 in
          if arm_branches w4 rd then
            (case known addr of None \<Rightarrow> arm_scan known (i + 1) insns patched True
             | Some new_addr \<Rightarrow> arm_scan known (i + 4)
                 (insns[i := arm_patch w0 0 new_addr, i + 1 := arm_patch w1 16 new_addr,
                        i + 2 := arm_patch w2 32 new_addr, i + 3 := arm_patch w3 48 new_addr])
                 (patched + 1) unknown_call_target)
          else arm_scan known (i + 1) insns patched unknown_call_target
      else (insns, patched, unknown_call_target))"
  by pat_completeness auto
termination by (relation "measure (\<lambda>(known, i, insns, patched, u). length insns - i)") auto

declare arm_scan.simps [simp del]

section \<open>x86-64\<close>

definition pg_jitter_x86_movabs_followed_by_indirect_branch :: "uint8 list \<Rightarrow> nat \<Rightarrow> nat \<Rightarrow> nat \<Rightarrow> bool" where
  "pg_jitter_x86_movabs_followed_by_indirect_branch bytes csize pos reg =
     (let (rex, pos) = (if pos < csize \<and> bytes ! pos AND 0xF0 = 0x40 then (bytes ! pos, pos + 1) else (0, pos)) in
      if pos + 1 \<ge> csize \<or> bytes ! pos \<noteq> 0xFF then False
      else let modrm = bytes ! (pos + 1) in
        if modrm AND 0xC0 \<noteq> 0xC0 then False
        else let op = drop_bit 3 modrm AND 7 in
          if op \<noteq> 2 \<and> op \<noteq> 4 then False
          else let rm = modrm AND 7; rm = (if rex AND 1 \<noteq> 0 then rm OR 8 else rm) in unat rm = reg)"

definition x86_reg :: "uint8 \<Rightarrow> uint8 \<Rightarrow> nat" where
  "x86_reg rex opc = unat ((opc AND 7) OR (if rex AND 1 \<noteq> 0 then 8 else 0))"

function x86_scan :: "(uint64 \<Rightarrow> uint64 option) \<Rightarrow> nat \<Rightarrow> uint8 list \<Rightarrow> int \<Rightarrow> bool \<Rightarrow> uint8 list \<times> int \<times> bool" where
  "x86_scan known i bytes patched unknown_call_target =
     (if i + 9 < length bytes then
        let rex = bytes ! i; opc = bytes ! (i + 1) in
        if rex \<noteq> 0x48 \<and> rex \<noteq> 0x49 then x86_scan known (i + 1) bytes patched unknown_call_target
        else if opc AND 0xF8 \<noteq> 0xB8 then x86_scan known (i + 1) bytes patched unknown_call_target
        else let addr = le_word (take 8 (drop (i + 2) bytes)) in
          if pg_jitter_x86_movabs_followed_by_indirect_branch bytes (length bytes) (i + 10) (x86_reg rex opc) then
            (case known addr of None \<Rightarrow> x86_scan known (i + 1) bytes patched True
             | Some new_addr \<Rightarrow> x86_scan known (i + 10) (take (i + 2) bytes @ bytes_of 8 new_addr @ drop (i + 10) bytes) (patched + 1)
                 unknown_call_target)
          else x86_scan known (i + 1) bytes patched unknown_call_target
      else (bytes, patched, unknown_call_target))"
  by pat_completeness auto
termination by (relation "measure (\<lambda>(known, i, bytes, patched, u). length bytes - i)") (auto simp: bytes_of_def)

declare x86_scan.simps [simp del]

section \<open>The whole code, and the worker\<close>

datatype arch = AArch64 | X86_64 | Other_arch

record ExecMemInfo =
  code_ptr :: "uint8 list"
  alloc_size :: uint64

text \<open>The pages are readable and writable, then readable and executable; \<open>mmap_ok\<close> and \<open>mprotect_ok\<close> are what the system calls return. A null
  pointer is \<open>None\<close>.\<close>

definition pg_jitter_copy_to_executable :: "bool \<Rightarrow> bool \<Rightarrow> uint8 list option \<Rightarrow> uint64 \<Rightarrow> ExecMemInfo option" where
  "pg_jitter_copy_to_executable mmap_ok mprotect_ok code_bytes csize =
     (case code_bytes of None \<Rightarrow> None | Some bs \<Rightarrow>
       if csize = 0 \<or> csize > SIZE_MAX - 4095 then None
       else let alloc = (csize + 4095) AND NOT 4095 in
         if \<not> mmap_ok then None
         else let mem = take (unat csize) bs @ replicate (unat alloc - unat csize) 0 in
           if \<not> mprotect_ok then None else Some \<lparr>code_ptr = mem, alloc_size = alloc\<rparr>)"

fun insns_of :: "nat \<Rightarrow> uint8 list \<Rightarrow> uint32 list" where
  "insns_of 0 bs = []"
| "insns_of (Suc n) bs = le_word (take 4 bs) # insns_of n (drop 4 bs)"

definition bytes_of_insns :: "uint32 list \<Rightarrow> uint8 list" where
  "bytes_of_insns insns = concat (map (bytes_of 4) insns)"

text \<open>The number of patched addresses, or -1. \<open>known\<close> takes an address and the distance between the processes.\<close>

definition pg_jitter_relocate_dylib_addrs ::
  "arch \<Rightarrow> (uint64 \<Rightarrow> uint64 \<Rightarrow> uint64 option) \<Rightarrow> bool \<Rightarrow> bool \<Rightarrow> ExecMemInfo option \<Rightarrow> uint64 \<Rightarrow> uint64 \<Rightarrow> uint64 \<Rightarrow>
     int \<times> ExecMemInfo option" where
  "pg_jitter_relocate_dylib_addrs arch known rw_ok rx_ok handle csize leader_ref_addr worker_ref_addr =
     (case handle of None \<Rightarrow> (0, None) | Some info \<Rightarrow>
       if arch = Other_arch \<or> leader_ref_addr = worker_ref_addr then (0, handle)
       else let delta = worker_ref_addr - leader_ref_addr in
         if \<not> rw_ok then (-1, handle)
         else let code = code_ptr info;
             (code', patched, unknown_call_target) =
               (case arch of AArch64 \<Rightarrow>
                  let ninsns = unat csize div 4;
                    (insns, r) = arm_scan (\<lambda>a. known a delta) 0 (insns_of ninsns code) 0 False
                  in (bytes_of_insns insns @ drop (4 * ninsns) code, r)
                | _ \<Rightarrow>
                  let (bytes, r) = x86_scan (\<lambda>a. known a delta) 0 (take (unat csize) code) 0 False
                  in (bytes @ drop (unat csize) code, r));
             info' = info\<lparr>code_ptr := code'\<rparr>
           in if \<not> rx_ok then (-1, Some info')
              else (if unknown_call_target then -1 else patched, Some info'))"

text \<open>What the worker runs: the code of its leader, or its own.\<close>

datatype worker_code = Reused "uint8 list" | Compiled_locally

definition worker_reuse_shared_code ::
  "arch \<Rightarrow> (uint64 \<Rightarrow> uint64 \<Rightarrow> uint64 option) \<Rightarrow> bool \<Rightarrow> bool \<Rightarrow> bool \<Rightarrow> bool \<Rightarrow> uint64 \<Rightarrow> dsm_segment \<Rightarrow> int32 \<Rightarrow> int32 \<Rightarrow> uint64 \<Rightarrow>
     (worker_code \<times> dsm_segment) option" where
  "worker_reuse_shared_code arch known mmap_ok mprotect_ok rw_ok rx_ok worker_ref sjc node_id expr_idx fingerprint =
     Option.bind (pg_jitter_find_shared_code sjc node_id expr_idx fingerprint) (\<lambda>(found, sjc').
       case found of Shared_found ofs csize leader_dylib_ref \<Rightarrow>
         map_option (\<lambda>bs.
           case pg_jitter_copy_to_executable mmap_ok mprotect_ok (Some bs) csize of None \<Rightarrow> (Compiled_locally, sjc')
           | Some handle \<Rightarrow>
             (case pg_jitter_relocate_dylib_addrs arch known rw_ok rx_ok (Some handle) csize leader_dylib_ref worker_ref of (npatched, handle') \<Rightarrow>
               if npatched < 0 then (Compiled_locally, sjc')
               else (Reused (case handle' of None \<Rightarrow> [] | Some info \<Rightarrow> take (unat csize) (code_ptr info)), sjc')))
           (read_seg sjc' (unat ofs) (unat csize))
       | _ \<Rightarrow> Some (Compiled_locally, sjc'))"

section \<open>Known addresses\<close>

lemma match_first_eq: "match_first ps a delta = (if a + delta \<noteq> 0 \<and> a + delta \<in> set ps then Some (a + delta) else None)"
  by (induction ps) (auto simp: pg_jitter_reloc_match_worker_addr_def algebra_simps)

definition known_helper :: "reloc_build \<Rightarrow> build_config \<Rightarrow> string \<Rightarrow> bool" where
  "known_helper b cfg h \<longleftrightarrow> h \<in> set (fixed_helpers b) \<or> h \<in> set (map jit_fn (jit_direct_fns cfg))"

text \<open>The lookup answers with the address in the worker when some known helper of the worker is there.\<close>

lemma known_eq:
  "pg_jitter_reloc_lookup_known_helper b cfg addr_of a delta =
     (if a + delta \<noteq> 0 \<and> (\<exists>h. known_helper b cfg h \<and> addr_of h = a + delta) then Some (a + delta) else None)"
  by (auto simp: pg_jitter_reloc_lookup_known_helper_def match_first_eq known_helper_def image_iff)

section \<open>ARM64 instructions\<close>

definition arm_imm :: "nat \<Rightarrow> uint64 \<Rightarrow> uint32" where
  "arm_imm sh a = push_bit 5 (ucast (drop_bit sh a AND 0xFFFF))"

definition arm_load :: "uint32 \<Rightarrow> nat \<Rightarrow> 5 word \<Rightarrow> uint64 \<Rightarrow> uint32" where
  "arm_load opc sh rd a = opc OR arm_imm sh a OR ucast rd"

abbreviation "arm_movz \<equiv> arm_load 0xD2800000 0"
abbreviation "arm_movk16 \<equiv> arm_load 0xF2A00000 16"
abbreviation "arm_movk32 \<equiv> arm_load 0xF2C00000 32"
abbreviation "arm_movk48 \<equiv> arm_load 0xF2E00000 48"

definition arm_branch :: "bool \<Rightarrow> 5 word \<Rightarrow> uint32" where
  "arm_branch link rd = (if link then 0xD63F0000 else 0xD61F0000) OR push_bit 5 (ucast rd)"

text \<open>The masks of the scanner: the operation of an instruction is above bit 21, its immediate above bit 5, its register below.\<close>

lemma arm_masks:
  "(0xFFE00000 :: uint32) = NOT (mask 21)" "(0xFFE0001F :: uint32) = NOT (push_bit 5 (mask 16))" "(0x1F :: uint32) = mask 5"
  "(0xFFFF :: uint32) = mask 16" "(0xFFFF :: uint64) = mask 16" "(0xFFFFFC1F :: uint32) = NOT (push_bit 5 (mask 5))"
  by (simp_all add: mask_eq_exp_minus_1)

lemma arm_opcs:
  "(0xD2800000 :: uint32) = push_bit 21 0x694" "(0xF2A00000 :: uint32) = push_bit 21 0x795" "(0xF2C00000 :: uint32) = push_bit 21 0x796"
  "(0xF2E00000 :: uint32) = push_bit 21 0x797" "(0xD63F0000 :: uint32) = push_bit 16 0xD63F" "(0xD61F0000 :: uint32) = push_bit 16 0xD61F"
  by simp_all

lemma bit_arm_imm: "bit (arm_imm sh a) n \<longleftrightarrow> 5 \<le> n \<and> n < 21 \<and> bit a (sh + (n - 5))"
  by (auto simp: arm_imm_def arm_masks bit_simps dest: bit_imp_le_length)

lemma bit_rd: "bit (ucast (rd :: 5 word) :: uint32) n \<longleftrightarrow> bit rd n"
  by (auto simp: bit_simps dest: bit_imp_le_length)

lemma rd_below: "bit (rd :: 5 word) n \<Longrightarrow> n < 5"
  using bit_imp_le_length [of rd n] by simp

lemma masked_load:
  "arm_load (push_bit 21 k) sh rd a AND NOT (push_bit 5 (mask 16)) = push_bit 21 k OR ucast rd"
  "arm_load (push_bit 21 k) sh rd a AND NOT (mask 21) = push_bit 21 k"
  "arm_load (push_bit 21 k) sh rd a AND mask 5 = ucast rd"
  "drop_bit 5 (arm_load (push_bit 21 k) sh rd a) AND mask 16 = drop_bit 5 (arm_imm sh a)"
  by (rule bit_word_eqI; auto simp: arm_load_def bit_arm_imm bit_rd bit_simps dest: rd_below)+

lemma arm_operations:
  "arm_load (push_bit 21 k) sh rd a AND NOT (mask 21) \<noteq> push_bit 21 k' \<longleftrightarrow> push_bit 21 k \<noteq> (push_bit 21 k' :: uint32)"
  by (simp add: masked_load)

text \<open>The four immediates of an address.\<close>

lemma arm_address:
  "((ucast (drop_bit 5 (arm_imm 0 a)) OR push_bit 16 (ucast (drop_bit 5 (arm_imm 16 a))) :: uint64)
     OR push_bit 32 (ucast (drop_bit 5 (arm_imm 32 a)))) OR push_bit 48 (ucast (drop_bit 5 (arm_imm 48 a))) = a"
proof (rule bit_word_eqI)
  fix n assume "n < LENGTH(64)"
  then have "n < 64" by simp
  then consider "n < 16" | "16 \<le> n" "n < 32" | "32 \<le> n" "n < 48" | "48 \<le> n" "n < 64" by linarith
  then show "bit (((ucast (drop_bit 5 (arm_imm 0 a)) OR push_bit 16 (ucast (drop_bit 5 (arm_imm 16 a))) :: uint64)
     OR push_bit 32 (ucast (drop_bit 5 (arm_imm 32 a)))) OR push_bit 48 (ucast (drop_bit 5 (arm_imm 48 a)))) n = bit a n"
    by cases (auto simp: bit_simps bit_arm_imm)
qed

lemma arm_movs_load: "arm_movs (arm_movz rd a) (arm_movk16 rd a) (arm_movk32 rd a) (arm_movk48 rd a) = Some (ucast rd, a)"
  unfolding arm_movs_def arm_opcs by (simp add: arm_masks masked_load arm_address del: push_bit_numeral)

text \<open>The instruction set has the register of a branch in the bits 5 to 9; the scanner compares the bits 0 to 4, which are zero.\<close>

lemma arm_branches_x0: "arm_branches (arm_branch link r) (ucast (rd :: 5 word)) \<longleftrightarrow> rd = 0"
proof -
  have e: "(if link then push_bit 16 0xD63F else push_bit 16 0xD61F :: uint32) = push_bit 16 (if link then 0xD63F else 0xD61F)" by simp
  have m: "arm_branch link r AND NOT (push_bit 5 (mask 5)) = push_bit 16 (if link then 0xD63F else 0xD61F)"
    unfolding arm_branch_def arm_opcs e
    by (rule bit_word_eqI; auto simp: bit_rd bit_simps dest: rd_below)
  have z: "push_bit 16 k = push_bit 16 k' OR ucast rd \<longleftrightarrow> push_bit 16 k = (push_bit 16 k' :: uint32) \<and> rd = 0" for k k'
  proof
    assume a: "push_bit 16 k = push_bit 16 k' OR ucast rd"
    have "\<not> bit rd n" for n
      using arg_cong [OF a, of "\<lambda>w. bit w n"] rd_below [of rd n] by (auto simp: bit_simps bit_rd)
    then have "rd = 0" by (auto intro: bit_word_eqI)
    with a show "push_bit 16 k = (push_bit 16 k' :: uint32) \<and> rd = 0" by simp
  qed simp
  show ?thesis unfolding arm_branches_def arm_masks arm_opcs m z by auto
qed

lemma arm_patch_load: "arm_patch (arm_load (push_bit 21 k) sh rd a) sh b = arm_load (push_bit 21 k) sh rd b"
  unfolding arm_patch_def arm_masks masked_load
  by (rule bit_word_eqI) (auto simp: arm_load_def bit_arm_imm bit_rd bit_simps dest: rd_below bit_imp_le_length)

lemma arm_patched:
  "arm_patch (arm_movz rd a) 0 b = arm_movz rd b" "arm_patch (arm_movk16 rd a) 16 b = arm_movk16 rd b"
  "arm_patch (arm_movk32 rd a) 32 b = arm_movk32 rd b" "arm_patch (arm_movk48 rd a) 48 b = arm_movk48 rd b"
  unfolding arm_opcs by (rule arm_patch_load)+

text \<open>What is not a MOVZ starts no match.\<close>

definition is_movz :: "uint32 \<Rightarrow> bool" where
  "is_movz w \<longleftrightarrow> w AND 0xFFE00000 = 0xD2800000"

lemma arm_movs_movz: "arm_movs w0 w1 w2 w3 = Some r \<Longrightarrow> is_movz w0"
  by (auto simp: arm_movs_def is_movz_def Let_def split: if_splits)

lemma is_movz_simps [simp]:
  "is_movz (arm_movk16 rd a) = False" "is_movz (arm_movk32 rd a) = False" "is_movz (arm_movk48 rd a) = False" "is_movz (arm_branch link r) = False"
  "is_movz (arm_movz rd a) = True"
proof -
  show "is_movz (arm_movk16 rd a) = False" "is_movz (arm_movk32 rd a) = False" "is_movz (arm_movk48 rd a) = False" "is_movz (arm_movz rd a) = True"
    unfolding is_movz_def arm_opcs arm_masks by (simp_all add: masked_load del: push_bit_numeral) simp_all
  have e: "(if link then push_bit 16 0xD63F else push_bit 16 0xD61F :: uint32) = push_bit 16 (if link then 0xD63F else 0xD61F)" by simp
  have "arm_branch link r AND NOT (mask 21) = push_bit 16 (if link then 0xD63F else 0xD61F) AND NOT (mask 21)"
    unfolding arm_branch_def arm_opcs e
    by (rule bit_word_eqI) (auto simp: bit_rd bit_simps dest: rd_below)
  then show "is_movz (arm_branch link r) = False" unfolding is_movz_def arm_masks by (simp add: mask_eq_exp_minus_1 split: if_splits)
qed

section \<open>ARM64 code as calls and other instructions\<close>

text \<open>A call loads an address into a register and branches to a register; everything else is a word.\<close>

datatype arm_item = Arm_word uint32 | Arm_call "5 word" bool "5 word" uint64

fun arm_words :: "arm_item \<Rightarrow> uint32 list" where
  "arm_words (Arm_word w) = [w]"
| "arm_words (Arm_call rd link r a) = [arm_movz rd a, arm_movk16 rd a, arm_movk32 rd a, arm_movk48 rd a, arm_branch link r]"

abbreviation arm_code :: "arm_item list \<Rightarrow> uint32 list" where
  "arm_code p \<equiv> concat (map arm_words p)"

text \<open>No words outside the calls end like one.\<close>

fun arm_quiet :: "arm_item list \<Rightarrow> bool" where
  "arm_quiet (Arm_word w # Arm_word v # p) \<longleftrightarrow>
     \<not> (w AND 0xFFE00000 = 0xF2E00000 \<and> arm_branches v (w AND 0x1F)) \<and> arm_quiet (Arm_word v # p)"
| "arm_quiet (_ # p) \<longleftrightarrow> arm_quiet p"
| "arm_quiet [] \<longleftrightarrow> True"

text \<open>What the scanner takes for calls, and what it makes of them.\<close>

fun arm_seen :: "arm_item \<Rightarrow> uint64 option" where
  "arm_seen (Arm_call rd link r a) = (if rd = 0 then Some a else None)"
| "arm_seen _ = None"

fun arm_moved :: "(uint64 \<Rightarrow> uint64 option) \<Rightarrow> arm_item \<Rightarrow> arm_item" where
  "arm_moved known (Arm_call rd link r a) =
     (if rd = 0 then Arm_call rd link r (case known a of None \<Rightarrow> a | Some b \<Rightarrow> b) else Arm_call rd link r a)"
| "arm_moved known i = i"

definition seen_known :: "(uint64 \<Rightarrow> uint64 option) \<Rightarrow> uint64 option \<Rightarrow> bool" where
  "seen_known known s \<longleftrightarrow> (case s of None \<Rightarrow> False | Some a \<Rightarrow> known a \<noteq> None)"

definition seen_unknown :: "(uint64 \<Rightarrow> uint64 option) \<Rightarrow> uint64 option \<Rightarrow> bool" where
  "seen_unknown known s \<longleftrightarrow> (case s of None \<Rightarrow> False | Some a \<Rightarrow> known a = None)"

section \<open>The scan over ARM64 code\<close>

lemma arm_scan_skip:
  assumes "\<not> is_movz w"
  shows "arm_scan known (length pre) (pre @ w # ws) n u = arm_scan known (Suc (length pre)) (pre @ w # ws) n u"
proof (cases "length pre + 3 < length (pre @ w # ws)")
  case True
  have "arm_movs w b c d = None" for b c d using assms arm_movs_movz by (cases "arm_movs w b c d") auto
  then show ?thesis using True by (subst arm_scan.simps) (simp add: nth_append Let_def)
next
  case False
  then show ?thesis by (subst (1 2) arm_scan.simps) simp
qed

text \<open>A word outside the calls is passed over.\<close>

lemma arm_movs_parts:
  assumes "arm_movs w0 w1 w2 w3 = Some (rd, a)"
  shows "\<not> is_movz w1" "\<not> is_movz w2" "\<not> is_movz w3" "w3 AND 0xFFE00000 = 0xF2E00000" "rd = w3 AND 0x1F"
proof -
  have sub: "\<not> is_movz v" "v AND 0xFFE00000 = push_bit 21 k" "v AND 0x1F = w0 AND 0x1F"
    if "v AND 0xFFE0001F = push_bit 21 k OR (w0 AND 0x1F)" "push_bit 21 k \<noteq> push_bit 21 0x694" for v k
  proof -
    have m: "v AND 0xFFE00000 = (v AND 0xFFE0001F) AND 0xFFE00000" "v AND 0x1F = (v AND 0xFFE0001F) AND 0x1F"
      unfolding arm_masks by (rule bit_word_eqI; auto simp: bit_simps)+
    show h: "v AND 0xFFE00000 = push_bit 21 k"
      unfolding m that(1) unfolding arm_masks by (rule bit_word_eqI) (auto simp: bit_simps)
    show "v AND 0x1F = w0 AND 0x1F"
      unfolding m that(1) unfolding arm_masks by (rule bit_word_eqI) (auto simp: bit_simps)
    show "\<not> is_movz v" using h that(2) unfolding is_movz_def arm_opcs by simp
  qed
  have "w1 AND 0xFFE0001F = push_bit 21 0x795 OR (w0 AND 0x1F)" "w2 AND 0xFFE0001F = push_bit 21 0x796 OR (w0 AND 0x1F)"
      "w3 AND 0xFFE0001F = push_bit 21 0x797 OR (w0 AND 0x1F)" "rd = w0 AND 0x1F"
    using assms by (auto simp: arm_movs_def Let_def split: if_splits)
  note * = sub(1)[OF this(1)] sub(1)[OF this(2)] sub[OF this(3)] this(4)
  show "\<not> is_movz w1" "\<not> is_movz w2" "\<not> is_movz w3" "w3 AND 0xFFE00000 = 0xF2E00000" "rd = w3 AND 0x1F"
    using * by simp_all
qed

lemma arm_branch_not_movz: "arm_branches v rd \<Longrightarrow> rd = w AND 0x1F \<Longrightarrow> \<not> is_movz v"
proof
  assume b: "arm_branches v rd" "rd = w AND 0x1F" and m: "is_movz v"
  have "v AND 0xFFE00000 = (v AND 0xFFFFFC1F) AND 0xFFE00000"
    unfolding arm_masks by (rule bit_word_eqI) (auto simp: bit_simps)
  moreover have "(push_bit 16 k OR (w AND 0x1F)) AND 0xFFE00000 = (push_bit 16 k :: uint32) AND 0xFFE00000" for k
    unfolding arm_masks by (rule bit_word_eqI) (auto simp: bit_simps)
  moreover have "push_bit 16 0xD63F AND 0xFFE00000 \<noteq> (0xD2800000 :: uint32)" "push_bit 16 0xD61F AND 0xFFE00000 \<noteq> (0xD2800000 :: uint32)"
    by simp_all
  ultimately show False using b m unfolding arm_branches_def is_movz_def arm_opcs(5,6) by metis
qed

lemma plain_prefix:
  "\<lbrakk>k \<le> length (arm_code p); \<forall>j < k. \<not> is_movz (arm_code p ! j)\<rbrakk> \<Longrightarrow> \<exists>p'. p = map Arm_word (take k (arm_code p)) @ p'"
proof (induction k arbitrary: p)
  case (Suc k)
  then obtain i q where p: "p = i # q" by (cases p) auto
  show ?case
  proof (cases i)
    case (Arm_word w)
    have "\<forall>j < k. \<not> is_movz (arm_code q ! j)" using Suc.prems(2) p Arm_word by auto
    then show ?thesis using Suc.IH [of q] Suc.prems(1) p Arm_word by auto
  next
    case (Arm_call rd link r a)
    then show ?thesis using Suc.prems(2) p by auto
  qed
qed simp

lemma arm_branches_0: "\<not> arm_branches 0 (w AND 0x1F)"
proof -
  have "c OR (w AND 0x1F) = 0 \<longleftrightarrow> c = 0 \<and> w AND 0x1F = 0" for c :: uint32 by (rule or_eq_0_iff)
  then have "0 \<noteq> c OR (w AND 0x1F)" if "c \<noteq> 0" for c :: uint32 using that by metis
  from this [of "0xD63F0000"] this [of "0xD61F0000"] show ?thesis unfolding arm_branches_def by simp
qed

lemma arm_quiet_word:
  assumes "arm_quiet (Arm_word w # p)" "3 \<le> length (arm_code p)"
    and "arm_movs w (arm_code p ! 0) (arm_code p ! 1) (arm_code p ! 2) = Some (rd, a)"
  shows "\<not> arm_branches (if 3 < length (arm_code p) then arm_code p ! 3 else 0) rd"
proof (cases "3 < length (arm_code p)")
  case True
  let ?c = "arm_code p"
  note m = arm_movs_parts [OF assms(3)]
  show ?thesis
  proof
    assume "arm_branches (if 3 < length ?c then ?c ! 3 else 0) rd"
    then have b: "arm_branches (?c ! 3) (?c ! 2 AND 0x1F)" using True m(5) by simp
    have "\<not> is_movz (?c ! 3)" using arm_branch_not_movz [OF b refl] .
    then have "\<forall>j < 4. \<not> is_movz (?c ! j)" using m(1-3) by (auto simp: less_Suc_eq numeral_eq_Suc)
    then obtain p' where p: "p = map Arm_word (take 4 ?c) @ p'" using plain_prefix [of 4 p] True by auto
    have "take 4 ?c = [?c ! 0, ?c ! 1, ?c ! 2, ?c ! 3]" using True by (intro nth_equalityI) (auto simp: less_Suc_eq numeral_eq_Suc)
    then have "p = Arm_word (?c ! 0) # Arm_word (?c ! 1) # Arm_word (?c ! 2) # Arm_word (?c ! 3) # p'" using p by simp
    then have "arm_quiet (Arm_word w # Arm_word (?c ! 0) # Arm_word (?c ! 1) # Arm_word (?c ! 2) # Arm_word (?c ! 3) # p')"
      using assms(1) by simp
    then show False using b m(4) by simp
  qed
next
  case False
  then show ?thesis using arm_movs_parts(5) [OF assms(3)] arm_branches_0 by simp
qed

lemma arm_scan_word:
  assumes "arm_quiet (Arm_word w # p)"
  shows "arm_scan known (length pre) (pre @ w # arm_code p) n u = arm_scan known (Suc (length pre)) (pre @ w # arm_code p) n u"
proof (cases "3 \<le> length (arm_code p)")
  case True
  let ?m = "arm_movs w (arm_code p ! 0) (arm_code p ! 1) (arm_code p ! 2)"
  show ?thesis
  proof (cases ?m)
    case None
    then show ?thesis using True by (subst arm_scan.simps) (simp add: nth_append Let_def numeral_eq_Suc)
  next
    case (Some r)
    obtain rd a where r: "r = (rd, a)" by (cases r)
    have i: "(pre @ w # arm_code p) ! (length pre + 1) = arm_code p ! 0" "(pre @ w # arm_code p) ! (length pre + 2) = arm_code p ! 1"
        "(pre @ w # arm_code p) ! (length pre + 3) = arm_code p ! 2" "(pre @ w # arm_code p) ! (length pre + 4) = arm_code p ! 3"
        "(pre @ w # arm_code p) ! length pre = w"
      by (simp_all add: nth_append numeral_eq_Suc)
    have l: "length pre + 4 < length (pre @ w # arm_code p) \<longleftrightarrow> 3 < length (arm_code p)" by simp
    show ?thesis using True Some r arm_quiet_word [OF assms True Some [unfolded r]]
      by (subst arm_scan.simps) (simp only: i l Let_def, simp)
  qed
next
  case False
  then show ?thesis by (subst (1 2) arm_scan.simps) simp
qed

lemma arm_scan_skip4:
  assumes "\<not> is_movz a" "\<not> is_movz b" "\<not> is_movz c" "\<not> is_movz d"
  shows "arm_scan known (length pre) (pre @ [a, b, c, d] @ ws) n u = arm_scan known (length pre + 4) (pre @ [a, b, c, d] @ ws) n u"
  using arm_scan_skip [OF assms(1), of known pre "b # c # d # ws" n u] arm_scan_skip [OF assms(2), of known "pre @ [a]" "c # d # ws" n u]
    arm_scan_skip [OF assms(3), of known "pre @ [a, b]" "d # ws" n u] arm_scan_skip [OF assms(4), of known "pre @ [a, b, c]" ws n u]
  by (simp add: numeral_eq_Suc)

lemma arm_scan_skip_call:
  assumes "\<not> is_movz a" "\<not> is_movz b" "\<not> is_movz c" "\<not> is_movz d"
  shows "arm_scan known (length pre + 1) (pre @ [x, a, b, c] @ d # ws) n u = arm_scan known (length pre + 5) (pre @ [x, a, b, c] @ d # ws) n u"
  using arm_scan_skip4 [OF assms, of known "pre @ [x]" ws n u] by (simp add: numeral_eq_Suc)

lemma arm_scan_skip_branch:
  assumes "\<not> is_movz d"
  shows "arm_scan known (length pre + 4) (pre @ [x, a, b, c] @ d # ws) n u = arm_scan known (length pre + 5) (pre @ [x, a, b, c] @ d # ws) n u"
  using arm_scan_skip [OF assms, of known "pre @ [x, a, b, c]" ws n u] by (simp add: numeral_eq_Suc)

lemma seen_None [simp]: "seen_known known None = False" "seen_unknown known None = False"
  by (simp_all add: seen_known_def seen_unknown_def)

lemma updates_at:
  "(pre @ [a, b, c, d] @ ws)[length pre := a', length pre + 1 := b', length pre + 2 := c', length pre + 3 := d'] = pre @ [a', b', c', d'] @ ws"
  by (simp add: list_update_append numeral_eq_Suc)

lemma arm_scan_call:
  "arm_scan known (length pre) (pre @ arm_words (Arm_call rd link r a) @ ws) n u =
   (let ws' = pre @ arm_words (arm_moved known (Arm_call rd link r a)) @ ws; s = arm_seen (Arm_call rd link r a) in
     arm_scan known (length pre + 5) ws' (n + (if seen_known known s then 1 else 0)) (u \<or> seen_unknown known s))"
proof -
  let ?m = "[arm_movz rd a, arm_movk16 rd a, arm_movk32 rd a, arm_movk48 rd a]" and ?b = "arm_branch link r"
  let ?ws = "pre @ ?m @ ?b # ws"
  have i: "?ws ! length pre = arm_movz rd a" "?ws ! (length pre + 1) = arm_movk16 rd a" "?ws ! (length pre + 2) = arm_movk32 rd a"
      "?ws ! (length pre + 3) = arm_movk48 rd a" "?ws ! (length pre + 4) = ?b" "length pre + 3 < length ?ws" "length pre + 4 < length ?ws"
    by (simp_all add: nth_append numeral_eq_Suc)
  have nm: "\<not> is_movz ?b" by simp
  note last = arm_scan_skip_branch [OF nm]
  have rest: "arm_scan known (length pre + 1) ?ws n u = arm_scan known (length pre + 5) ?ws n u" for n u
    by (rule arm_scan_skip_call) simp_all
  have x0: "arm_branches ?b (ucast rd) \<longleftrightarrow> rd = 0" by (rule arm_branches_x0)
  have "arm_scan known (length pre) ?ws n u =
     (if rd = 0 then (case known a of None \<Rightarrow> arm_scan known (length pre + 1) ?ws n True
        | Some b \<Rightarrow> arm_scan known (length pre + 4) (pre @ [arm_movz rd b, arm_movk16 rd b, arm_movk32 rd b, arm_movk48 rd b] @ ?b # ws) (n + 1) u)
      else arm_scan known (length pre + 1) ?ws n u)"
    by (subst arm_scan.simps) (simp only: i Let_def arm_movs_load option.case prod.case if_True x0 arm_patched updates_at)
  then show ?thesis
    unfolding rest last by (simp add: seen_known_def seen_unknown_def Let_def split: option.splits)
qed

lemma arm_quiet_tail: "arm_quiet (i # p) \<Longrightarrow> arm_quiet p"
  by (cases i; cases p; cases "hd p") auto

lemma arm_scan_code:
  "arm_quiet p \<Longrightarrow> arm_scan known (length pre) (pre @ arm_code p) n u =
     (pre @ arm_code (map (arm_moved known) p), n + int (length (filter (\<lambda>i. seen_known known (arm_seen i)) p)),
      u \<or> (\<exists>i \<in> set p. seen_unknown known (arm_seen i)))"
proof (induction p arbitrary: pre n u)
  case Nil
  then show ?case by (subst arm_scan.simps) simp
next
  case (Cons i p)
  note IH = Cons.IH [OF arm_quiet_tail [OF Cons.prems]]
  show ?case
  proof (cases i)
    case (Arm_word w)
    have "arm_scan known (length pre) (pre @ w # arm_code p) n u = arm_scan known (length (pre @ [w])) ((pre @ [w]) @ arm_code p) n u"
      using arm_scan_word Cons.prems Arm_word by simp
    then show ?thesis unfolding IH using Arm_word by (simp add: comp_def)
  next
    case (Arm_call rd link r a)
    let ?pre = "pre @ arm_words (arm_moved known i)"
    have "length pre + 5 = length ?pre" using Arm_call by simp
    then have "arm_scan known (length pre) (pre @ arm_code (i # p)) n u =
        arm_scan known (length ?pre) (?pre @ arm_code p) (n + (if seen_known known (arm_seen i) then 1 else 0)) (u \<or> seen_unknown known (arm_seen i))"
      using arm_scan_call [of known pre rd link r a "arm_code p" n u] Arm_call by (simp add: Let_def del: arm_words.simps arm_seen.simps arm_moved.simps)
    then show ?thesis unfolding IH by (simp del: arm_words.simps arm_seen.simps arm_moved.simps)
  qed
qed

section \<open>x86-64 code as calls and other bytes\<close>

text \<open>A call moves an address into a register and calls it or jumps to it; before linking it names the function.\<close>

datatype 'f x86_item = X86_byte uint8 | X86_call nat bool 'f

fun x86_bytes :: "uint64 x86_item \<Rightarrow> uint8 list" where
  "x86_bytes (X86_byte b) = [b]"
| "x86_bytes (X86_call reg link a) =
     [if reg < 8 then 0x48 else 0x49, 0xB8 OR of_nat (reg mod 8)] @ bytes_of 8 a @
     (if reg < 8 then [] else [0x41]) @ [0xFF, (if link then 0xD0 else 0xE0) OR of_nat (reg mod 8)]"

abbreviation x86_code :: "uint64 x86_item list \<Rightarrow> uint8 list" where
  "x86_code p \<equiv> concat (map x86_bytes p)"

text \<open>The address of the call that the scanner sees at the head of some bytes.\<close>

definition x86_here :: "uint8 list \<Rightarrow> uint64 option" where
  "x86_here bs =
     (if 9 < length bs \<and> (bs ! 0 = 0x48 \<or> bs ! 0 = 0x49) \<and> bs ! 1 AND 0xF8 = 0xB8 \<and>
         pg_jitter_x86_movabs_followed_by_indirect_branch bs (length bs) 10 (x86_reg (bs ! 0) (bs ! 1))
      then Some (le_word (take 8 (drop 2 bs))) else None)"

text \<open>It sees none elsewhere, in particular none inside the address of a call.\<close>

fun x86_quiet :: "uint64 x86_item list \<Rightarrow> bool" where
  "x86_quiet (X86_byte b # p) \<longleftrightarrow> x86_here (b # x86_code p) = None \<and> x86_quiet p"
| "x86_quiet (X86_call reg link a # p) \<longleftrightarrow> reg < 16 \<and>
     list_all (\<lambda>k. x86_here (drop k (x86_bytes (X86_call reg link a)) @ x86_code p) = None)
       [1..<length (x86_bytes (X86_call reg link a))] \<and> x86_quiet p"
| "x86_quiet [] \<longleftrightarrow> True"

fun x86_seen :: "uint64 x86_item \<Rightarrow> uint64 option" where
  "x86_seen (X86_call reg link a) = Some a"
| "x86_seen _ = None"

fun x86_moved :: "(uint64 \<Rightarrow> uint64 option) \<Rightarrow> uint64 x86_item \<Rightarrow> uint64 x86_item" where
  "x86_moved known (X86_call reg link a) = X86_call reg link (case known a of None \<Rightarrow> a | Some b \<Rightarrow> b)"
| "x86_moved known i = i"

lemma followed_suffix:
  "pg_jitter_x86_movabs_followed_by_indirect_branch (pre @ bs) (length (pre @ bs)) (length pre + k) reg =
   pg_jitter_x86_movabs_followed_by_indirect_branch bs (length bs) k reg"
  by (simp add: pg_jitter_x86_movabs_followed_by_indirect_branch_def Let_def nth_append del: of_nat_add)

lemma x86_scan_step:
  "x86_scan known (length pre) (pre @ bs) n u =
     (case x86_here bs of None \<Rightarrow> if 9 < length bs then x86_scan known (length pre + 1) (pre @ bs) n u else (pre @ bs, n, u)
      | Some a \<Rightarrow> (case known a of None \<Rightarrow> x86_scan known (length pre + 1) (pre @ bs) n True
         | Some b \<Rightarrow> x86_scan known (length pre + 10) (pre @ take 2 bs @ bytes_of 8 b @ drop 10 bs) (n + 1) u))"
proof -
  have i: "9 < length bs \<Longrightarrow> (pre @ bs) ! length pre = bs ! 0" "9 < length bs \<Longrightarrow> (pre @ bs) ! (length pre + 1) = bs ! 1"
    by (simp_all add: nth_append)
  have l: "length pre + 9 < length (pre @ bs) \<longleftrightarrow> 9 < length bs" by simp
  have d: "drop (length pre + k) (pre @ bs) = drop k bs" "take (length pre + k) (pre @ bs) = pre @ take k bs" for k by simp_all
  show ?thesis
  proof (cases "9 < length bs")
    case True
    note f = followed_suffix [of pre bs 10]
    show ?thesis by (subst x86_scan.simps) (use True in \<open>simp only: Let_def l i [OF True] d f x86_here_def append_assoc, simp split: option.splits\<close>)
  next
    case False
    then show ?thesis by (subst x86_scan.simps) (simp add: x86_here_def)
  qed
qed

lemma x86_scan_skip:
  assumes "x86_here (b # bs) = None"
  shows "x86_scan known (length pre) (pre @ b # bs) n u = x86_scan known (length (pre @ [b])) ((pre @ [b]) @ bs) n u"
  using x86_scan_step [of known pre "b # bs" n u] x86_scan_step [of known "pre @ [b]" bs n u] assms
  by (auto simp: x86_here_def split: if_splits)

lemma x86_scan_skip_list:
  "\<forall>k < length xs. x86_here (drop k xs @ ws) = None \<Longrightarrow>
   x86_scan known (length pre) (pre @ xs @ ws) n u = x86_scan known (length (pre @ xs)) ((pre @ xs) @ ws) n u"
proof (induction xs arbitrary: pre)
  case (Cons x xs)
  have h: "x86_here (x # xs @ ws) = None" using Cons.prems by (metis append_Cons drop0 length_greater_0_conv list.discI)
  have t: "\<forall>k < length xs. x86_here (drop k xs @ ws) = None"
  proof (intro allI impI)
    fix k assume "k < length xs"
    then show "x86_here (drop k xs @ ws) = None" using Cons.prems [rule_format, of "Suc k"] by simp
  qed
  have "x86_scan known (length pre) (pre @ (x # xs) @ ws) n u = x86_scan known (length (pre @ [x])) ((pre @ [x]) @ xs @ ws) n u"
    using x86_scan_skip [OF h, of known pre n u] by simp
  also have "\<dots> = x86_scan known (length ((pre @ [x]) @ xs)) (((pre @ [x]) @ xs) @ ws) n u" by (rule Cons.IH [OF t])
  finally show ?case by simp
qed simp

lemma reg_cases: "reg < 16 \<Longrightarrow> reg \<in> {0, 1, 2, 3, 4, 5, 6, 7, 8, 9, 10, 11, 12, 13, 14, 15 :: nat}"
  unfolding insert_iff empty_iff by presburger

lemma length_bytes_8 [simp]: "length (bytes_of 8 (a :: uint64)) = 8"
  by simp

lemma le_word_bytes_8 [simp]: "le_word (bytes_of 8 a) = (a :: uint64)"
  by (rule le_word_bytes_of) simp

text \<open>The scanner reads a call back.\<close>

lemma x86_here_call:
  assumes "reg < 16"
  shows "x86_here (x86_bytes (X86_call reg link a) @ ws) = Some a"
proof -
  let ?b = "bytes_of 8 a"
  obtain b0 b1 b2 b3 b4 b5 b6 b7 where b: "?b = [b0, b1, b2, b3, b4, b5, b6, b7]"
    using length_bytes_8 [of a] by (auto simp: numeral_eq_Suc length_Suc_conv simp del: length_bytes_8 length_bytes_of)
  have le: "le_word [b0, b1, b2, b3, b4, b5, b6, b7] = a" using le_word_bytes_8 [of a] unfolding b .
  show ?thesis
    using reg_cases [OF assms] le
    by (auto simp: b x86_here_def pg_jitter_x86_movabs_followed_by_indirect_branch_def x86_reg_def)
qed

lemma x86_scan_call:
  assumes "reg < 16" "\<forall>k \<in> {1..<length (x86_bytes (X86_call reg link a))}. x86_here (drop k (x86_bytes (X86_call reg link a)) @ ws) = None"
  shows "x86_scan known (length pre) (pre @ x86_bytes (X86_call reg link a) @ ws) n u =
    (let xs = x86_bytes (x86_moved known (X86_call reg link a)); s = x86_seen (X86_call reg link a) in
      x86_scan known (length (pre @ xs)) ((pre @ xs) @ ws) (n + (if seen_known known s then 1 else 0)) (u \<or> seen_unknown known s))"
proof -
  let ?c = "X86_call reg link a"
  have l: "9 < length (x86_bytes ?c @ ws)" by simp
  have e: "drop 10 (x86_bytes ?c @ ws) = drop 10 (x86_bytes ?c) @ ws" by simp
  show ?thesis
  proof (cases "known a")
    case None
    let ?t = "tl (x86_bytes ?c)"
    have t: "pre @ x86_bytes ?c @ ws = (pre @ [hd (x86_bytes ?c)]) @ ?t @ ws" by simp
    have q: "\<forall>k < length ?t. x86_here (drop k ?t @ ws) = None"
    proof (intro allI impI)
      fix k assume "k < length ?t"
      then have "Suc k \<in> {1..<length (x86_bytes ?c)}" by auto
      from assms(2) [rule_format, OF this] show "x86_here (drop k ?t @ ws) = None" by (simp add: drop_Suc)
    qed
    have "x86_scan known (length pre) (pre @ x86_bytes ?c @ ws) n u = x86_scan known (length pre + 1) (pre @ x86_bytes ?c @ ws) n True"
      using x86_scan_step [of known pre "x86_bytes ?c @ ws" n u] x86_here_call [OF assms(1), of link a ws] None by simp
    also have "\<dots> = x86_scan known (length (pre @ x86_bytes ?c)) ((pre @ x86_bytes ?c) @ ws) n True"
      using x86_scan_skip_list [OF q, of known "pre @ [hd (x86_bytes ?c)]" n True] unfolding t by simp
    finally show ?thesis using None by (simp add: seen_known_def seen_unknown_def Let_def del: x86_bytes.simps)
  next
    case (Some b)
    let ?d = "X86_call reg link b" let ?t = "drop 10 (x86_bytes ?d)"
    have t: "?t = drop 10 (x86_bytes ?c)" by simp
    have h: "take 2 (x86_bytes ?c @ ws) @ bytes_of 8 b @ drop 10 (x86_bytes ?c @ ws) = take 10 (x86_bytes ?d) @ ?t @ ws" by simp
    have q: "\<forall>k < length ?t. x86_here (drop k ?t @ ws) = None"
    proof (intro allI impI)
      fix k assume "k < length ?t"
      then have "k + 10 \<in> {1..<length (x86_bytes ?c)}" by auto
      from assms(2) [rule_format, OF this] show "x86_here (drop k ?t @ ws) = None" unfolding t drop_drop by (simp add: add.commute)
    qed
    have j: "(pre @ take 10 (x86_bytes ?d)) @ ?t = pre @ x86_bytes ?d" by (simp del: x86_bytes.simps)
    have "x86_scan known (length pre) (pre @ x86_bytes ?c @ ws) n u =
        x86_scan known (length (pre @ take 10 (x86_bytes ?d))) ((pre @ take 10 (x86_bytes ?d)) @ ?t @ ws) (n + 1) u"
      using x86_scan_step [of known pre "x86_bytes ?c @ ws" n u] x86_here_call [OF assms(1), of link a ws] Some by (simp add: h del: x86_bytes.simps) simp
    also have "\<dots> = x86_scan known (length (pre @ x86_bytes ?d)) ((pre @ x86_bytes ?d) @ ws) (n + 1) u"
      using x86_scan_skip_list [OF q, of known "pre @ take 10 (x86_bytes ?d)" "n + 1" u] unfolding j .
    finally show ?thesis using Some by (simp add: seen_known_def seen_unknown_def Let_def del: x86_bytes.simps)
  qed
qed

lemma x86_scan_code:
  "x86_quiet p \<Longrightarrow> x86_scan known (length pre) (pre @ x86_code p) n u =
     (pre @ x86_code (map (x86_moved known) p), n + int (length (filter (\<lambda>i. seen_known known (x86_seen i)) p)),
      u \<or> (\<exists>i \<in> set p. seen_unknown known (x86_seen i)))"
proof (induction p arbitrary: pre n u)
  case Nil
  then show ?case by (subst x86_scan.simps) simp
next
  case (Cons i p)
  have q: "x86_quiet p" using Cons.prems by (cases i) simp_all
  note IH = Cons.IH [OF q]
  show ?case
  proof (cases i)
    case (X86_byte b)
    have "x86_here (b # x86_code p) = None" using Cons.prems X86_byte by simp
    from x86_scan_skip [OF this, of known pre n u] show ?thesis unfolding IH using X86_byte by simp
  next
    case (X86_call reg link a)
    have r: "reg < 16" "\<forall>k \<in> {1..<length (x86_bytes (X86_call reg link a))}. x86_here (drop k (x86_bytes (X86_call reg link a)) @ x86_code p) = None"
      using Cons.prems unfolding X86_call x86_quiet.simps by (auto simp: list_all_iff simp del: x86_bytes.simps)
    from x86_scan_call [OF r, of known pre n u] show ?thesis unfolding Let_def IH X86_call
      by (simp del: x86_bytes.simps x86_seen.simps x86_moved.simps)
  qed
qed

section \<open>Copies\<close>

lemma length_bytes_of_insns [simp]: "length (bytes_of_insns ws) = 4 * length ws"
  by (induction ws) (simp_all add: bytes_of_insns_def)

lemma insns_of_bytes [simp]: "insns_of (length ws) (bytes_of_insns ws @ rest) = ws"
  by (induction ws) (simp_all add: bytes_of_insns_def le_word_bytes_of)

lemma copied:
  assumes "code \<noteq> []" "length code < 2 ^ 63"
  shows "\<exists>info. pg_jitter_copy_to_executable True True (Some code) (of_nat (length code)) = Some info \<and> take (length code) (code_ptr info) = code
    \<and> (\<exists>pad. code_ptr info = code @ pad)"
proof -
  have n: "unat (of_nat (length code) :: uint64) = length code" using assms(2) by (simp add: unat_of_nat)
  have "unat (SIZE_MAX - 4095) = 2 ^ 64 - 4096" by (simp add: SIZE_MAX_def unat_sub_if')
  then have "\<not> of_nat (length code) > SIZE_MAX - 4095" "of_nat (length code) \<noteq> (0 :: uint64)"
    using assms n by (auto simp: word_less_nat_alt)
  then show ?thesis by (simp add: pg_jitter_copy_to_executable_def Let_def n)
qed

section \<open>The code of the worker\<close>

abbreviation x86_link :: "(string \<Rightarrow> uint64) \<Rightarrow> string x86_item list \<Rightarrow> uint8 list" where
  "x86_link addr_of p \<equiv> x86_code (map (map_x86_item addr_of) p)"

text \<open>The library lies at two addresses: the functions it may call are at the same distance.\<close>

definition dylib_at :: "(string \<Rightarrow> bool) \<Rightarrow> (string \<Rightarrow> uint64) \<Rightarrow> (string \<Rightarrow> uint64) \<Rightarrow> uint64 \<Rightarrow> bool" where
  "dylib_at known leader worker delta \<longleftrightarrow> (\<forall>h. known h \<longrightarrow> worker h = leader h + delta \<and> worker h \<noteq> 0)"

lemma x86_linked:
  assumes "dylib_at (known_helper b cfg) leader worker delta" "\<forall>i \<in> set p. \<forall>h \<in> set_x86_item i. known_helper b cfg h"
  shows "map (x86_moved (\<lambda>a. pg_jitter_reloc_lookup_known_helper b cfg worker a delta)) (map (map_x86_item leader) p) = map (map_x86_item worker) p"
    "\<not> (\<exists>i \<in> set (map (map_x86_item leader) p). seen_unknown (\<lambda>a. pg_jitter_reloc_lookup_known_helper b cfg worker a delta) (x86_seen i))"
proof -
  have k: "pg_jitter_reloc_lookup_known_helper b cfg worker (leader h) delta = Some (worker h)" if "known_helper b cfg h" for h
    using assms(1) that by (auto simp: known_eq dylib_at_def)
  have "x86_moved (\<lambda>a. pg_jitter_reloc_lookup_known_helper b cfg worker a delta) (map_x86_item leader i) = map_x86_item worker i \<and>
      \<not> seen_unknown (\<lambda>a. pg_jitter_reloc_lookup_known_helper b cfg worker a delta) (x86_seen (map_x86_item leader i))" if "i \<in> set p" for i
    using assms(2) that k by (cases i) (auto simp: seen_unknown_def)
  then show "map (x86_moved (\<lambda>a. pg_jitter_reloc_lookup_known_helper b cfg worker a delta)) (map (map_x86_item leader) p) = map (map_x86_item worker) p"
    "\<not> (\<exists>i \<in> set (map (map_x86_item leader) p). seen_unknown (\<lambda>a. pg_jitter_reloc_lookup_known_helper b cfg worker a delta) (x86_seen i))"
    by auto
qed

lemma x86_link_length: "length (x86_link f p) = length (x86_link g p)"
proof -
  have "length (x86_bytes (map_x86_item f i)) = length (x86_bytes (map_x86_item g i))" for i :: "string x86_item" by (cases i) simp_all
  then show ?thesis by (induction p) simp_all
qed

lemma x86_relocated:
  assumes "x86_quiet (map (map_x86_item leader) p)" "dylib_at (known_helper b cfg) leader worker (ref' - ref)"
    and "\<forall>i \<in> set p. \<forall>h \<in> set_x86_item i. known_helper b cfg h" "code_ptr info = x86_link leader p @ pad"
    and "unat csize = length (x86_link leader p)"
  shows "\<exists>n info'. n \<ge> 0 \<and> pg_jitter_relocate_dylib_addrs X86_64 (pg_jitter_reloc_lookup_known_helper b cfg worker) True True (Some info) csize ref ref' = (n, Some info')
    \<and> take (unat csize) (code_ptr info') = x86_link worker p"
proof (cases "ref = ref'")
  case True
  have "worker h = leader h" if "known_helper b cfg h" for h using assms(2) that True by (simp add: dylib_at_def)
  then have "map (map_x86_item worker) p = map (map_x86_item leader) p" using assms(3) by (auto intro!: x86_item.map_cong0)
  then have "x86_link worker p = x86_link leader p" by (simp only:)
  then show ?thesis using True assms(4,5) by (simp add: pg_jitter_relocate_dylib_addrs_def del: map_map)
next
  case False
  let ?known = "\<lambda>a. pg_jitter_reloc_lookup_known_helper b cfg worker a (ref' - ref)"
  note linked = x86_linked [OF assms(2,3)]
  note len = x86_link_length [of worker p leader]
  have "x86_scan ?known 0 (x86_link leader p) 0 False = (x86_link worker p, int (length (filter (\<lambda>i. seen_known ?known (x86_seen i)) (map (map_x86_item leader) p))), False)"
    using x86_scan_code [OF assms(1), of ?known "[]" 0 False] linked(2) unfolding linked(1) by (simp del: map_map set_map)
  then show ?thesis using False assms(4,5) len
    by (simp add: pg_jitter_relocate_dylib_addrs_def Let_def del: length_concat map_map)
qed

lemma x86_reused:
  assumes "x86_quiet (map (map_x86_item leader) p)"
    and "dylib_at (known_helper b cfg) leader worker (worker ''pg_jitter_fallback_step'' - leader ''pg_jitter_fallback_step'')"
    and "\<forall>i \<in> set p. \<forall>h \<in> set_x86_item i. known_helper b cfg h" "p \<noteq> []" "length (x86_link leader p) < 2 ^ 63"
    and "pg_jitter_find_shared_code sjc node idx fp = Some (Shared_found c (of_nat (length (x86_link leader p))) (leader ''pg_jitter_fallback_step''), sjc)"
    and "read_seg sjc (unat c) (length (x86_link leader p)) = Some (x86_link leader p)"
  shows "worker_reuse_shared_code X86_64 (pg_jitter_reloc_lookup_known_helper b cfg worker) True True True True (worker ''pg_jitter_fallback_step'')
      sjc node idx fp = Some (Reused (x86_link worker p), sjc)"
proof -
  let ?code = "x86_link leader p"
  have n: "unat (of_nat (length ?code) :: uint64) = length ?code" using assms(5) by (simp add: unat_of_nat del: map_map length_concat)
  have "x86_bytes i \<noteq> []" for i by (cases i) simp_all
  then have "?code \<noteq> []" using assms(4) by (cases p) auto
  from copied [OF this assms(5)] obtain info pad where i: "pg_jitter_copy_to_executable True True (Some ?code) (of_nat (length ?code)) = Some info"
      "code_ptr info = ?code @ pad" by blast
  from x86_relocated [OF assms(1-3) i(2) n] obtain m info' where r: "m \<ge> 0"
      "pg_jitter_relocate_dylib_addrs X86_64 (pg_jitter_reloc_lookup_known_helper b cfg worker) True True (Some info) (of_nat (length ?code))
        (leader ''pg_jitter_fallback_step'') (worker ''pg_jitter_fallback_step'') = (m, Some info')"
      "take (unat (of_nat (length ?code) :: uint64)) (code_ptr info') = x86_link worker p" by blast
  show ?thesis using assms(6,7) i(1) r n by (simp add: worker_reuse_shared_code_def del: map_map length_concat)
qed

lemma first_accepted_in: "first_accepted qs oks k = Some q \<Longrightarrow> q \<in> set qs"
  by (induction qs oks k rule: first_accepted.induct) (auto split: if_splits)

lemma worker_x86:
  assumes "88 \<le> unat dsm_size" "unat dsm_size \<le> 2 ^ 30" "unat dsm_size \<le> seg_size sjc"
    and "\<forall>q \<in> set qs. length (rq_code q) < 2 ^ 63 \<and> rq_ref q = leader ''pg_jitter_fallback_step''"
    and "dylib_at (known_helper b cfg) leader worker (worker ''pg_jitter_fallback_step'' - leader ''pg_jitter_fallback_step'')"
  shows "\<exists>oks sjc'. store_all qs (pg_jitter_init_shared_dsm dsm_size sjc) = Some (oks, sjc') \<and>
    (case first_accepted qs oks (node, idx, fp) of
       None \<Rightarrow> worker_reuse_shared_code X86_64 (pg_jitter_reloc_lookup_known_helper b cfg worker) True True True True
         (worker ''pg_jitter_fallback_step'') sjc' node idx fp = Some (Compiled_locally, sjc')
     | Some q \<Rightarrow> \<forall>p. p \<noteq> [] \<and> rq_code q = x86_link leader p \<and> x86_quiet (map (map_x86_item leader) p) \<and>
           (\<forall>i \<in> set p. \<forall>h \<in> set_x86_item i. known_helper b cfg h) \<longrightarrow>
         worker_reuse_shared_code X86_64 (pg_jitter_reloc_lookup_known_helper b cfg worker) True True True True
           (worker ''pg_jitter_fallback_step'') sjc' node idx fp = Some (Reused (x86_link worker p), sjc'))"
proof -
  have len: "\<forall>q \<in> set qs. length (rq_code q) < 2 ^ 64" using assms(4) by fastforce
  obtain oks sjc' r where s: "store_all qs (pg_jitter_init_shared_dsm dsm_size sjc) = Some (oks, sjc')"
      "pg_jitter_find_shared_code sjc' node idx fp = Some (r, sjc')"
      "case first_accepted qs oks (node, idx, fp) of None \<Rightarrow> r \<in> {Shared_missing, Shared_invalid 1, Shared_invalid 2}
       | Some q \<Rightarrow> \<exists>c. r = Shared_found c (of_nat (length (rq_code q))) (rq_ref q) \<and> read_seg sjc' (unat c) (length (rq_code q)) = Some (rq_code q)"
    using shared_find_first_accepted [OF assms(1-3) len, of node idx fp] by blast
  show ?thesis
  proof (cases "first_accepted qs oks (node, idx, fp)")
    case None
    then show ?thesis using s by (intro exI [of _ oks] exI [of _ sjc']) (auto simp: worker_reuse_shared_code_def)
  next
    case (Some q)
    have q: "length (rq_code q) < 2 ^ 63" "rq_ref q = leader ''pg_jitter_fallback_step''" using assms(4) first_accepted_in [OF Some] by auto
    obtain c where c: "r = Shared_found c (of_nat (length (rq_code q))) (rq_ref q)" "read_seg sjc' (unat c) (length (rq_code q)) = Some (rq_code q)"
      using s(3) Some by auto
    have "worker_reuse_shared_code X86_64 (pg_jitter_reloc_lookup_known_helper b cfg worker) True True True True
           (worker ''pg_jitter_fallback_step'') sjc' node idx fp = Some (Reused (x86_link worker p), sjc')"
      if p: "p \<noteq> []" "rq_code q = x86_link leader p" "x86_quiet (map (map_x86_item leader) p)"
        "\<forall>i \<in> set p. \<forall>h \<in> set_x86_item i. known_helper b cfg h" for p
      by (rule x86_reused [OF p(3) assms(5) p(4,1)]) (use q c p(2) s(2) in \<open>simp_all only: p(2) q\<close>)
    then show ?thesis using s(1) Some by (intro exI [of _ oks] exI [of _ sjc']) (simp del: map_map length_concat)
  qed
qed

section \<open>The properties\<close>

text \<open>C11 (roundtrip): on x86-64, a worker that finds code of its leader in the segment runs the code that it would have with its own addresses of the
  functions of the library, when the code calls only known ones and the scanner sees no call that is none; when
  there is no code it compiles.\<close>

theorem worker_runs_relocated_code:
  assumes "88 \<le> unat dsm_size" "unat dsm_size \<le> 2 ^ 30" "unat dsm_size \<le> seg_size sjc"
    and "\<forall>q \<in> set qs. length (rq_code q) < 2 ^ 63 \<and> rq_ref q = leader ''pg_jitter_fallback_step''"
    and "dylib_at (known_helper b cfg) leader worker (worker ''pg_jitter_fallback_step'' - leader ''pg_jitter_fallback_step'')"
  shows "\<exists>oks sjc'. store_all qs (pg_jitter_init_shared_dsm dsm_size sjc) = Some (oks, sjc') \<and>
    (case first_accepted qs oks (node, idx, fp) of
       None \<Rightarrow> worker_reuse_shared_code X86_64 (pg_jitter_reloc_lookup_known_helper b cfg worker) True True True True
         (worker ''pg_jitter_fallback_step'') sjc' node idx fp = Some (Compiled_locally, sjc')
     | Some q \<Rightarrow> \<forall>p. p \<noteq> [] \<and> rq_code q = x86_link leader p \<and> x86_quiet (map (map_x86_item leader) p) \<and>
           (\<forall>i \<in> set p. \<forall>h \<in> set_x86_item i. known_helper b cfg h) \<longrightarrow>
         worker_reuse_shared_code X86_64 (pg_jitter_reloc_lookup_known_helper b cfg worker) True True True True
           (worker ''pg_jitter_fallback_step'') sjc' node idx fp = Some (Reused (x86_link worker p), sjc'))"
  by (rule worker_x86 [OF assms])

text \<open>A library with all its functions, mapped at two addresses.\<close>

definition example_build :: reloc_build where
  "example_build = \<lparr>have_pcre2 = True, have_yyjson = True, pg16 = True\<rparr>"

definition example_cfg :: build_config where
  "example_cfg = \<lparr>pg18 = False, have_simd = True\<rparr>"

definition dylib_from :: "uint64 \<Rightarrow> string \<Rightarrow> uint64" where
  "dylib_from base h = base + word_of_nat (16 * name_index (fixed_helpers example_build @ map jit_fn (jit_direct_fns example_cfg)) h)"

lemma dylib_from_at:
  assumes "unat base < 2 ^ 48" "unat base \<noteq> 0"
  shows "dylib_at known (dylib_from base') (dylib_from base) (base - base')"
proof -
  let ?names = "fixed_helpers example_build @ map jit_fn (jit_direct_fns example_cfg)"
  have "length ?names < 2000" using length_direct_fns [of example_cfg] by (simp add: fixed_helpers_def example_build_def)
  then have small: "name_index ?names h < 2000" for h using name_index_le [of ?names h] by (rule le_less_trans [rotated])
  have n: "unat (word_of_nat (16 * name_index ?names h) :: uint64) = 16 * name_index ?names h" for h
    by (rule unat_word_of_nat) (use small [of h] in simp)
  have "unat base + 16 * name_index ?names h < 2 ^ 64" for h using small [of h] assms(1) by simp
  then have "unat (dylib_from base h) = unat base + 16 * name_index ?names h" for h
    unfolding dylib_from_def using n by (subst unat_add_lem [THEN iffD1]) simp_all
  then have "dylib_from base h \<noteq> 0" for h using assms(2) by (metis add_is_0 unat_0)
  then show ?thesis by (simp add: dylib_at_def dylib_from_def)
qed

definition example_code :: "string x86_item list" where
  "example_code = [X86_byte 0x53, X86_call 10 True ''jit_error_int4_overflow'', X86_byte 0xC3]"

lemma example_code_link: "map (map_x86_item (dylib_from 0x7F0000001000)) example_code = [X86_byte 0x53, X86_call 10 True 0x7F0000001130, X86_byte 0xC3]"
  by (simp add: example_code_def dylib_from_def name_index_def fixed_helpers_def example_build_def)

lemma example_code_quiet: "x86_quiet (map (map_x86_item (dylib_from 0x7F0000001000)) example_code)"
  unfolding example_code_link by code_simp

abbreviation example_request :: shared_request where
  "example_request \<equiv> \<lparr>rq_node = 3, rq_index = 1, rq_fingerprint = 77, rq_code = x86_link (dylib_from 0x7F0000001000) example_code,
     rq_ref = dylib_from 0x7F0000001000 ''pg_jitter_fallback_step''\<rparr>"

lemma example_link_length: "length (x86_link f example_code) = 15"
  by (simp add: example_code_def)

lemma example_stored:
  "\<exists>sjc'. store_all [example_request] (pg_jitter_init_shared_dsm 4096 (example_segment 4096)) = Some ([True], sjc')"
proof -
  let ?s = "pg_jitter_init_shared_dsm 4096 (example_segment 4096)"
  have inv: "shared_inv ?s []" by (rule shared_init_inv) (simp_all add: example_segment_def)
  have "unat (used ?s) = 88" "unat (usable ?s) = 4096"
    by (simp_all add: pg_jitter_init_shared_dsm_def MAXALIGN_def shared_sizes usable_def example_segment_def)
  then have f: "fits ?s (length (x86_link (dylib_from 0x7F0000001000) example_code))" unfolding example_link_length by (simp add: fits_def slot_size_def)
  have n: "unat (of_nat (length (x86_link (dylib_from 0x7F0000001000) example_code)) :: uint64) = length (x86_link (dylib_from 0x7F0000001000) example_code)"
    unfolding example_link_length by simp
  obtain sjc' where "pg_jitter_store_shared_code ?s (Some (x86_link (dylib_from 0x7F0000001000) example_code))
      (of_nat (length (x86_link (dylib_from 0x7F0000001000) example_code))) 3 1 77 (dylib_from 0x7F0000001000 ''pg_jitter_fallback_step'') = Some (True, sjc')"
    using store_refines [OF inv n refl, of 3 1 77 "dylib_from 0x7F0000001000 ''pg_jitter_fallback_step''"] f unfolding if_P [OF f] by blast
  then show ?thesis by (simp del: map_map length_concat)
qed

theorem worker_runs_relocated_code_witness:
  "\<exists>sjc'. worker_reuse_shared_code X86_64 (pg_jitter_reloc_lookup_known_helper example_build example_cfg (dylib_from 0x7F0000801000)) True True True True
     (dylib_from 0x7F0000801000 ''pg_jitter_fallback_step'') sjc' 3 1 77 = Some (Reused (x86_link (dylib_from 0x7F0000801000) example_code), sjc')"
proof -
  let ?l = "dylib_from 0x7F0000001000" and ?w = "dylib_from 0x7F0000801000"
  have d: "dylib_at (known_helper example_build example_cfg) ?l ?w (?w ''pg_jitter_fallback_step'' - ?l ''pg_jitter_fallback_step'')"
    using dylib_from_at [of "0x7F0000801000" "known_helper example_build example_cfg" "0x7F0000001000"] by (simp add: dylib_from_def)
  have k: "\<forall>i \<in> set example_code. \<forall>h \<in> set_x86_item i. known_helper example_build example_cfg h"
    by (simp add: example_code_def known_helper_def fixed_helpers_def)
  have q: "\<forall>q \<in> set [example_request]. length (rq_code q) < 2 ^ 63 \<and> rq_ref q = ?l ''pg_jitter_fallback_step''"
    using example_link_length by (simp del: map_map length_concat)
  obtain sjc' where s: "store_all [example_request] (pg_jitter_init_shared_dsm 4096 (example_segment 4096)) = Some ([True], sjc')"
    using example_stored by blast
  have z: "88 \<le> unat (4096 :: uint64)" "unat (4096 :: uint64) \<le> 2 ^ 30" "unat (4096 :: uint64) \<le> seg_size (example_segment 4096)" by (simp_all add: example_segment_def)
  have p: "example_code \<noteq> []" by (simp add: example_code_def)
  from worker_runs_relocated_code [OF z q d, of 3 1 77] s p example_code_quiet k
  show ?thesis by (auto simp del: map_map length_concat)
qed

lemma arm_relocated:
  assumes "arm_quiet p" "unat csize = 4 * length (arm_code p)" "code_ptr info = bytes_of_insns (arm_code p) @ pad" "ref \<noteq> ref'"
  shows "pg_jitter_relocate_dylib_addrs AArch64 known True True (Some info) csize ref ref' =
    (if \<exists>i \<in> set p. seen_unknown (\<lambda>a. known a (ref' - ref)) (arm_seen i) then -1
     else int (length (filter (\<lambda>i. seen_known (\<lambda>a. known a (ref' - ref)) (arm_seen i)) p)),
     Some (info\<lparr>code_ptr := bytes_of_insns (arm_code (map (arm_moved (\<lambda>a. known a (ref' - ref))) p)) @ pad\<rparr>))"
proof -
  have i: "insns_of (unat csize div 4) (code_ptr info) = arm_code p"
    unfolding assms(2,3) using insns_of_bytes [of "arm_code p" pad] by (simp del: map_map length_concat)
  have d: "drop (4 * (unat csize div 4)) (code_ptr info) = pad" unfolding assms(2,3) by (simp del: map_map length_concat)
  show ?thesis
    using arm_scan_code [OF assms(1), of "\<lambda>a. known a (ref' - ref)" "[]" 0 False] assms(4) i d
    by (simp add: pg_jitter_relocate_dylib_addrs_def Let_def del: map_map length_concat)
qed

text \<open>On ARM64 the relocation moves the addresses of the calls through the register 0, and reports -1 when one of them goes to no known
  helper; a call through any other register keeps the address of the leader and is not reported, for
  the scanner compares the wrong bits of the branch.\<close>

lemma arm_relocation_of_calls:
  assumes "arm_quiet p" "unat csize = 4 * length (arm_code p)" "code_ptr info = bytes_of_insns (arm_code p) @ pad" "ref \<noteq> ref'"
  shows "pg_jitter_relocate_dylib_addrs AArch64 known True True (Some info) csize ref ref' =
    (if \<exists>i \<in> set p. seen_unknown (\<lambda>a. known a (ref' - ref)) (arm_seen i) then -1
     else int (length (filter (\<lambda>i. seen_known (\<lambda>a. known a (ref' - ref)) (arm_seen i)) p)),
     Some (info\<lparr>code_ptr := bytes_of_insns (arm_code (map (arm_moved (\<lambda>a. known a (ref' - ref))) p)) @ pad\<rparr>))"
  by (rule arm_relocated [OF assms])

text \<open>A call through register 9 of a function that the worker knows, 16 bytes further on.\<close>

lemma arm_relocation_of_calls_witness:
  "pg_jitter_relocate_dylib_addrs AArch64 (\<lambda>a delta. if a = 4096 then Some (a + delta) else None) True True
     (Some \<lparr>code_ptr = bytes_of_insns (arm_code [Arm_call 9 True 9 4096]), alloc_size = 4096\<rparr>) 20 32 48 =
   (0, Some \<lparr>code_ptr = bytes_of_insns (arm_code [Arm_call 9 True 9 4096]), alloc_size = 4096\<rparr>)"
  using arm_relocation_of_calls [of "[Arm_call 9 True 9 4096]" 20 "\<lparr>code_ptr = bytes_of_insns (arm_code [Arm_call 9 True 9 4096]), alloc_size = 4096\<rparr>" "[]" 32 48
      "\<lambda>a delta. if a = 4096 then Some (a + delta) else None"]
  by simp

end
