(* ===== verification/ExprSteps.thy ===== *)
theory ExprSteps
  imports Prelude
begin

text \<open>
  The steps of an expression and \<open>pg_jitter_fallback_step\<close> (\<open>pg_jitter_common.c\<close>), which executes one of them as PostgreSQL's interpreter does:
  the state of an expression, one definition per group of opcodes, and the direct helpers for aggregate transitions. The
  functions of PostgreSQL that a step calls are parameters.
\<close>

section \<open>Steps\<close>

text \<open>The slots of an expression context. \<open>Result\<close> is the pair \<open>state->resvalue\<close>, \<open>state->resnull\<close>, \<open>Arg f i\<close> the
  \<open>NullableDatum\<close> of argument \<open>i\<close> of a call frame, \<open>Cell\<close> any other pair.\<close>

datatype slot_kind = Inner | Outer | Scan | Old | New

datatype loc = Result | Arg nat nat | Cell nat

datatype CompareType = COMPARE_LT | COMPARE_LE | COMPARE_EQ | COMPARE_GE | COMPARE_GT | COMPARE_NE

type_synonym fn_addr = nat

datatype strictness = NON_STRICT | STRICT | STRICT_1 | STRICT_2

datatype step_position = First_step | Middle_step | Last_step

datatype bool_test = IS_TRUE | IS_NOT_TRUE | IS_FALSE | IS_NOT_FALSE

datatype trans_kind = INIT_STRICT | STRICT_TRANS | PLAIN_TRANS

datatype check_kind = CHECK_ARGS | CHECK_ARGS_1

text \<open>The opcodes whose step is one call of a function of PostgreSQL.\<close>

datatype eval_op = EEOP_SYSVAR slot_kind | EEOP_WHOLEROW | EEOP_FUNCEXPR_FUSAGE | EEOP_FUNCEXPR_STRICT_FUSAGE
  | EEOP_NULLTEST_ROWISNULL | EEOP_NULLTEST_ROWISNOTNULL
  | EEOP_PARAM_EXEC | EEOP_PARAM_EXTERN | EEOP_PARAM_CALLBACK PGFunction | EEOP_PARAM_SET | EEOP_IOCOERCE_SAFE
  | EEOP_SQLVALUEFUNCTION | EEOP_CURRENTOFEXPR | EEOP_NEXTVALUEEXPR | EEOP_ARRAYEXPR | EEOP_ARRAYCOERCE | EEOP_ROW
  | EEOP_MINMAX | EEOP_FIELDSELECT | EEOP_FIELDSTORE_DEFORM | EEOP_FIELDSTORE_FORM
  | EEOP_SBSREF_OLD PGFunction | EEOP_SBSREF_ASSIGN PGFunction | EEOP_SBSREF_FETCH PGFunction
  | EEOP_CONVERT_ROWTYPE | EEOP_SCALARARRAYOP | EEOP_HASHED_SCALARARRAYOP | EEOP_XMLEXPR
  | EEOP_JSON_CONSTRUCTOR | EEOP_IS_JSON | EEOP_JSONEXPR_COERCION | EEOP_JSONEXPR_COERCION_FINISH
  | EEOP_GROUPING_FUNC | EEOP_MERGE_SUPPORT_FUNC | EEOP_SUBPLAN
  | EEOP_AGG_ORDERED_TRANS_DATUM | EEOP_AGG_ORDERED_TRANS_TUPLE

text \<open>\<open>ExprEvalOp\<close> with the member of the union \<open>d\<close> that belongs to the opcode; variants of one opcode by slot, position or strictness are
  one constructor with an argument.\<close>

datatype (plugins only: code) ExprEvalOp =
    EEOP_DONE_RETURN | EEOP_DONE_NO_RETURN
  | EEOP_EVAL eval_op
  | EEOP_FETCHSOME slot_kind int16 | EEOP_VAR slot_kind nat
  | EEOP_ASSIGN_VAR slot_kind nat nat | EEOP_ASSIGN_TMP nat | EEOP_ASSIGN_TMP_MAKE_RO nat
  | EEOP_CONST Datum bool
  | EEOP_FUNCEXPR strictness fn_addr nat nat
  | EEOP_BOOL_AND_STEP step_position nat nat | EEOP_BOOL_OR_STEP step_position nat nat
  | EEOP_BOOL_NOT_STEP | EEOP_QUAL nat
  | EEOP_JUMP nat | EEOP_JUMP_IF_NULL nat | EEOP_JUMP_IF_NOT_NULL nat | EEOP_JUMP_IF_NOT_TRUE nat
  | EEOP_NULLTEST_ISNULL | EEOP_NULLTEST_ISNOTNULL | EEOP_BOOLTEST bool_test
  | EEOP_CASE_TESTVAL "loc option" loc | EEOP_CASE_TESTVAL_EXT | EEOP_MAKE_READONLY loc loc
  | EEOP_IOCOERCE nat nat
  | EEOP_DISTINCT fn_addr nat | EEOP_NOT_DISTINCT fn_addr nat | EEOP_NULLIF fn_addr nat
  | EEOP_RETURNINGEXPR uint8 nat
  | EEOP_ROWCOMPARE_STEP fn_addr nat bool nat nat | EEOP_ROWCOMPARE_FINAL CompareType
  | EEOP_SBSREF_SUBSCRIPTS PGFunction nat | EEOP_JSONEXPR_PATH
  | EEOP_DOMAIN_TESTVAL "loc option" loc | EEOP_DOMAIN_TESTVAL_EXT | EEOP_DOMAIN_NOTNULL | EEOP_DOMAIN_CHECK loc loc
  | EEOP_HASHDATUM_SET_INITVAL Datum | EEOP_HASHDATUM_FIRST fn_addr nat | EEOP_HASHDATUM_FIRST_STRICT fn_addr nat nat
  | EEOP_HASHDATUM_NEXT32 fn_addr nat loc | EEOP_HASHDATUM_NEXT32_STRICT fn_addr nat loc nat
  | EEOP_AGGREF nat | EEOP_WINDOW_FUNC nat
  | EEOP_AGG_STRICT_DESERIALIZE nat nat | EEOP_AGG_DESERIALIZE nat
  | EEOP_AGG_STRICT_INPUT_CHECK_ARGS check_kind nat nat nat nat
  | EEOP_AGG_STRICT_INPUT_CHECK_NULLS nat nat nat | EEOP_AGG_PLAIN_PERGROUP_NULLCHECK nat nat
  | EEOP_AGG_PLAIN_TRANS_BYVAL trans_kind nat nat nat nat nat | EEOP_AGG_PLAIN_TRANS_BYREF trans_kind nat nat nat nat nat
  | EEOP_AGG_PRESORTED_DISTINCT_SINGLE nat nat | EEOP_AGG_PRESORTED_DISTINCT_MULTI nat nat

record ExprEvalStep =
  opcode :: ExprEvalOp
  resvalue :: loc
  resnull :: loc

section \<open>The state of an expression\<close>

record slot_data =
  nvalid :: int16
  tvalues :: "nat \<Rightarrow> Datum"
  tisnull :: "nat \<Rightarrow> bool"

record AggStatePerGroup =
  transValue :: Datum
  transValueIsNull :: bool
  noTransValue :: bool

text \<open>What the pointers of the steps lead to. \<open>fc_isnull\<close> is the field \<open>isnull\<close> of a call frame, \<open>anynulls\<close> the
  variables of AND and OR, \<open>nulls_arrays\<close> arrays of \<open>bool\<close>, \<open>pergroups\<close> the array \<open>all_pergroups\<close>; \<open>world\<close> is what
  the functions of PostgreSQL may change besides.\<close>

record 'w expr_mem =
  vals :: "loc \<Rightarrow> Datum"
  nulls :: "loc \<Rightarrow> bool"
  fc_isnull :: "nat \<Rightarrow> bool"
  anynulls :: "nat \<Rightarrow> bool"
  slots :: "slot_kind \<Rightarrow> slot_data"
  result_values :: "nat \<Rightarrow> Datum"
  result_isnull :: "nat \<Rightarrow> bool"
  aggvalues :: "nat \<Rightarrow> Datum"
  aggnulls :: "nat \<Rightarrow> bool"
  caseValue :: "Datum \<times> bool"
  domainValue :: "Datum \<times> bool"
  nulls_arrays :: "nat \<Rightarrow> nat \<Rightarrow> bool"
  wfuncnos :: "nat \<Rightarrow> nat"
  es_flags :: uint8
  pergroups :: "nat \<Rightarrow> (nat \<Rightarrow> AggStatePerGroup) option"
  curaggcontext :: nat
  current_set :: nat
  curpertrans :: nat
  CurrentMemoryContext :: nat
  world :: 'w

text \<open>PostgreSQL: \<open>v1_call\<close> calls a function with the arguments of a frame and the value of \<open>fcinfo->isnull\<close> before; its result is the datum, the flag
  after and the new world, or an error. \<open>exec_eval\<close> are the functions \<open>ExecEval...\<close> by name, \<open>exec_eval_int\<close>
  those with a result, \<open>presorted_distinct\<close> those on the transition state of an aggregate.\<close>

record 'w pg_fns =
  v1_call :: "fn_addr \<Rightarrow> (Datum \<times> bool) list \<Rightarrow> bool \<Rightarrow> 'w \<Rightarrow> pg_error + Datum \<times> bool \<times> 'w"
  fc_nargs :: "nat \<Rightarrow> nat"
  fc_fn_addr :: "nat \<Rightarrow> fn_addr"
  fc_collation :: "nat \<Rightarrow> uint32"
  exec_eval :: "PGFunction \<Rightarrow> slot_kind option \<Rightarrow> nat \<Rightarrow> 'w expr_mem \<Rightarrow> pg_error + 'w expr_mem"
  exec_eval_int :: "PGFunction \<Rightarrow> nat \<Rightarrow> 'w expr_mem \<Rightarrow> pg_error + int \<times> 'w expr_mem"
  presorted_distinct :: "PGFunction \<Rightarrow> nat \<Rightarrow> 'w expr_mem \<Rightarrow> pg_error + bool \<times> 'w expr_mem"
  getsomeattrs :: "slot_kind \<Rightarrow> int16 \<Rightarrow> 'w expr_mem \<Rightarrow> pg_error + 'w expr_mem"
  make_readonly :: "Datum \<Rightarrow> Datum"
  pt_fcinfo :: "nat \<Rightarrow> nat"
  per_tuple_memory :: nat
  agg_init_group :: "nat \<Rightarrow> nat \<Rightarrow> nat \<Rightarrow> nat \<Rightarrow> 'w expr_mem \<Rightarrow> pg_error + 'w expr_mem"
  agg_copy_trans_value :: "nat \<Rightarrow> Datum \<Rightarrow> bool \<Rightarrow> Datum \<Rightarrow> bool \<Rightarrow> 'w \<Rightarrow> pg_error + Datum \<times> 'w"

text \<open>A step yields the number of the step to go on with, or -1 for the next one, or an error. \<open>None\<close>
  is a null pointer dereferenced.\<close>

type_synonym 'w step_result = "(pg_error + int \<times> 'w expr_mem) option"

abbreviation cont :: "'w expr_mem \<Rightarrow> 'w step_result" where "cont m \<equiv> Some (Inr (- 1, m))"
abbreviation goto :: "nat \<Rightarrow> 'w expr_mem \<Rightarrow> 'w step_result" where "goto t m \<equiv> Some (Inr (int t, m))"

definition bind_err :: "pg_error + 'a \<Rightarrow> ('a \<Rightarrow> (pg_error + 'b) option) \<Rightarrow> (pg_error + 'b) option" where
  "bind_err r f = (case r of Inl e \<Rightarrow> Some (Inl e) | Inr x \<Rightarrow> f x)"

lemma bind_err_simps [simp]: "bind_err (Inl e) f = Some (Inl e)" "bind_err (Inr x) f = f x"
  by (simp_all add: bind_err_def)

definition set_val :: "loc \<Rightarrow> Datum \<Rightarrow> 'w expr_mem \<Rightarrow> 'w expr_mem" where
  "set_val l d m = m\<lparr>vals := (vals m)(l := d)\<rparr>"

definition set_null :: "loc \<Rightarrow> bool \<Rightarrow> 'w expr_mem \<Rightarrow> 'w expr_mem" where
  "set_null l b m = m\<lparr>nulls := (nulls m)(l := b)\<rparr>"

definition set_fc_isnull :: "nat \<Rightarrow> bool \<Rightarrow> 'w expr_mem \<Rightarrow> 'w expr_mem" where
  "set_fc_isnull f b m = m\<lparr>fc_isnull := (fc_isnull m)(f := b)\<rparr>"

definition set_anynull :: "nat \<Rightarrow> bool \<Rightarrow> 'w expr_mem \<Rightarrow> 'w expr_mem" where
  "set_anynull a b m = m\<lparr>anynulls := (anynulls m)(a := b)\<rparr>"

definition frame_args :: "'w pg_fns \<Rightarrow> nat \<Rightarrow> 'w expr_mem \<Rightarrow> (Datum \<times> bool) list" where
  "frame_args pg f m = map (\<lambda>i. (vals m (Arg f i), nulls m (Arg f i))) [0..<fc_nargs pg f]"

text \<open>\<open>fn(fcinfo)\<close>; the flag of the frame is what the function leaves in it.\<close>

definition call_frame :: "'w pg_fns \<Rightarrow> fn_addr \<Rightarrow> nat \<Rightarrow> 'w expr_mem \<Rightarrow> pg_error + Datum \<times> 'w expr_mem" where
  "call_frame pg fn f m =
     (case v1_call pg fn (frame_args pg f m) (fc_isnull m f) (world m) of
        Inl e \<Rightarrow> Inl e
      | Inr (d, isnull, w) \<Rightarrow> Inr (d, (set_fc_isnull f isnull m)\<lparr>world := w\<rparr>))"

end
