(* ===== verification/Fallback.thy ===== *)
theory Fallback
  imports ExprSteps
begin

text \<open>
  \<open>pg_jitter_fallback_step\<close> of \<open>pg_jitter_common.c\<close>, one definition per group of cases, and the direct helpers for aggregate
  transitions. An argument \<open>op\<close> is the step, \<open>opno\<close> its number.
\<close>

section \<open>Steps that call one function\<close>

fun eval_fn :: "eval_op \<Rightarrow> PGFunction \<times> slot_kind option" where
  "eval_fn (EEOP_SYSVAR k) = (''ExecEvalSysVar'', Some k)"
| "eval_fn EEOP_WHOLEROW = (''ExecEvalWholeRowVar'', None)"
| "eval_fn EEOP_FUNCEXPR_FUSAGE = (''ExecEvalFuncExprFusage'', None)"
| "eval_fn EEOP_FUNCEXPR_STRICT_FUSAGE = (''ExecEvalFuncExprStrictFusage'', None)"
| "eval_fn EEOP_NULLTEST_ROWISNULL = (''ExecEvalRowNull'', None)"
| "eval_fn EEOP_NULLTEST_ROWISNOTNULL = (''ExecEvalRowNotNull'', None)"
| "eval_fn EEOP_PARAM_EXEC = (''ExecEvalParamExec'', None)"
| "eval_fn EEOP_PARAM_EXTERN = (''ExecEvalParamExtern'', None)"
| "eval_fn (EEOP_PARAM_CALLBACK f) = (f, None)"
| "eval_fn EEOP_PARAM_SET = (''ExecEvalParamSet'', None)"
| "eval_fn EEOP_IOCOERCE_SAFE = (''ExecEvalCoerceViaIOSafe'', None)"
| "eval_fn EEOP_SQLVALUEFUNCTION = (''ExecEvalSQLValueFunction'', None)"
| "eval_fn EEOP_CURRENTOFEXPR = (''ExecEvalCurrentOfExpr'', None)"
| "eval_fn EEOP_NEXTVALUEEXPR = (''ExecEvalNextValueExpr'', None)"
| "eval_fn EEOP_ARRAYEXPR = (''ExecEvalArrayExpr'', None)"
| "eval_fn EEOP_ARRAYCOERCE = (''ExecEvalArrayCoerce'', None)"
| "eval_fn EEOP_ROW = (''ExecEvalRow'', None)"
| "eval_fn EEOP_MINMAX = (''ExecEvalMinMax'', None)"
| "eval_fn EEOP_FIELDSELECT = (''ExecEvalFieldSelect'', None)"
| "eval_fn EEOP_FIELDSTORE_DEFORM = (''ExecEvalFieldStoreDeForm'', None)"
| "eval_fn EEOP_FIELDSTORE_FORM = (''ExecEvalFieldStoreForm'', None)"
| "eval_fn (EEOP_SBSREF_OLD f) = (f, None)"
| "eval_fn (EEOP_SBSREF_ASSIGN f) = (f, None)"
| "eval_fn (EEOP_SBSREF_FETCH f) = (f, None)"
| "eval_fn EEOP_CONVERT_ROWTYPE = (''ExecEvalConvertRowtype'', None)"
| "eval_fn EEOP_SCALARARRAYOP = (''ExecEvalScalarArrayOp'', None)"
| "eval_fn EEOP_HASHED_SCALARARRAYOP = (''ExecEvalHashedScalarArrayOp'', None)"
| "eval_fn EEOP_XMLEXPR = (''ExecEvalXmlExpr'', None)"
| "eval_fn EEOP_JSON_CONSTRUCTOR = (''ExecEvalJsonConstructor'', None)"
| "eval_fn EEOP_IS_JSON = (''ExecEvalJsonIsPredicate'', None)"
| "eval_fn EEOP_JSONEXPR_COERCION = (''ExecEvalJsonCoercion'', None)"
| "eval_fn EEOP_JSONEXPR_COERCION_FINISH = (''ExecEvalJsonCoercionFinish'', None)"
| "eval_fn EEOP_GROUPING_FUNC = (''ExecEvalGroupingFunc'', None)"
| "eval_fn EEOP_MERGE_SUPPORT_FUNC = (''ExecEvalMergeSupportFunc'', None)"
| "eval_fn EEOP_SUBPLAN = (''ExecEvalSubPlan'', None)"
| "eval_fn EEOP_AGG_ORDERED_TRANS_DATUM = (''ExecEvalAggOrderedTransDatum'', None)"
| "eval_fn EEOP_AGG_ORDERED_TRANS_TUPLE = (''ExecEvalAggOrderedTransTuple'', None)"

definition call_eval :: "'w pg_fns \<Rightarrow> PGFunction \<times> slot_kind option \<Rightarrow> nat \<Rightarrow> 'w expr_mem \<Rightarrow> 'w step_result" where
  "call_eval pg f opno m = bind_err (exec_eval pg (fst f) (snd f) opno m) cont"

section \<open>Values and nulls\<close>

fun fallback_booltest :: "bool_test \<Rightarrow> ExprEvalStep \<Rightarrow> 'w expr_mem \<Rightarrow> 'w expr_mem" where
  "fallback_booltest IS_TRUE op m =
     (if nulls m (resnull op) then set_null (resnull op) False (set_val (resvalue op) (BoolGetDatum False) m) else m)"
| "fallback_booltest IS_NOT_TRUE op m =
     (if nulls m (resnull op) then set_null (resnull op) False (set_val (resvalue op) (BoolGetDatum True) m)
      else set_val (resvalue op) (BoolGetDatum (\<not> DatumGetBool (vals m (resvalue op)))) m)"
| "fallback_booltest IS_FALSE op m =
     (if nulls m (resnull op) then set_null (resnull op) False (set_val (resvalue op) (BoolGetDatum False) m)
      else set_val (resvalue op) (BoolGetDatum (\<not> DatumGetBool (vals m (resvalue op)))) m)"
| "fallback_booltest IS_NOT_FALSE op m =
     (if nulls m (resnull op) then set_null (resnull op) False (set_val (resvalue op) (BoolGetDatum True) m) else m)"

definition copy_pair :: "ExprEvalStep \<Rightarrow> Datum \<times> bool \<Rightarrow> 'w expr_mem \<Rightarrow> 'w expr_mem" where
  "copy_pair op p m = set_null (resnull op) (snd p) (set_val (resvalue op) (fst p) m)"

text \<open>The value pointer of the test value may be null; it is dereferenced all the same.\<close>

definition fallback_testval :: "loc option \<Rightarrow> loc \<Rightarrow> ExprEvalStep \<Rightarrow> 'w expr_mem \<Rightarrow> 'w step_result" where
  "fallback_testval value isnull op m =
     (case value of None \<Rightarrow> None
      | Some l \<Rightarrow> let m1 = set_val (resvalue op) (vals m l) m in cont (set_null (resnull op) (nulls m1 isnull) m1))"

definition fallback_make_readonly :: "'w pg_fns \<Rightarrow> loc \<Rightarrow> loc \<Rightarrow> ExprEvalStep \<Rightarrow> 'w expr_mem \<Rightarrow> 'w step_result" where
  "fallback_make_readonly pg value isnull op m =
     (let m1 = if \<not> nulls m isnull then set_val (resvalue op) (make_readonly pg (vals m value)) m else m in
      cont (set_null (resnull op) (nulls m1 isnull) m1))"

definition fallback_iocoerce :: "'w pg_fns \<Rightarrow> nat \<Rightarrow> nat \<Rightarrow> ExprEvalStep \<Rightarrow> 'w expr_mem \<Rightarrow> 'w step_result" where
  "fallback_iocoerce pg f_out f_in op m =
     (if nulls m (resnull op) then cont m
      else let m1 = set_fc_isnull f_out False (set_null (Arg f_out 0) False (set_val (Arg f_out 0) (vals m (resvalue op)) m)) in
        bind_err (call_frame pg (fc_fn_addr pg f_out) f_out m1) (\<lambda>(str, m2).
          let m3 = set_fc_isnull f_in False (set_null (Arg f_in 0) False (set_val (Arg f_in 0) str m2)) in
          bind_err (call_frame pg (fc_fn_addr pg f_in) f_in m3) (\<lambda>(d, m4).
            cont (set_null (resnull op) (fc_isnull m4 f_in) (set_val (resvalue op) d m4)))))"

section \<open>Comparisons\<close>

definition fallback_distinct :: "'w pg_fns \<Rightarrow> bool \<Rightarrow> fn_addr \<Rightarrow> nat \<Rightarrow> ExprEvalStep \<Rightarrow> 'w expr_mem \<Rightarrow> 'w step_result" where
  "fallback_distinct pg is_distinct fn f op m =
     (let arg_null0 = nulls m (Arg f 0); arg_null1 = nulls m (Arg f 1) in
      if arg_null0 \<noteq> arg_null1 then cont (set_null (resnull op) False (set_val (resvalue op) (BoolGetDatum is_distinct) m))
      else if arg_null0 then cont (set_null (resnull op) False (set_val (resvalue op) (BoolGetDatum (\<not> is_distinct)) m))
      else bind_err (call_frame pg fn f (set_fc_isnull f False m)) (\<lambda>(result, m1).
        let m2 = set_null (resnull op) False m1 in
        cont (set_val (resvalue op) (if is_distinct then BoolGetDatum (\<not> DatumGetBool result) else result) m2)))"

definition fallback_nullif :: "'w pg_fns \<Rightarrow> fn_addr \<Rightarrow> nat \<Rightarrow> ExprEvalStep \<Rightarrow> 'w expr_mem \<Rightarrow> 'w step_result" where
  "fallback_nullif pg fn f op m =
     (let return_a = (\<lambda>m. cont (set_null (resnull op) False (set_val (resvalue op) (vals m (Arg f 0)) m))) in
      if nulls m (Arg f 0) then cont (set_null (resnull op) True m)
      else if \<not> nulls m (Arg f 1) then
        bind_err (call_frame pg fn f (set_fc_isnull f False m)) (\<lambda>(result, m1).
          if \<not> fc_isnull m1 f \<and> DatumGetBool result then cont (set_null (resnull op) True m1) else return_a m1)
      else return_a m)"

definition fallback_rowcompare_step ::
  "'w pg_fns \<Rightarrow> fn_addr \<Rightarrow> nat \<Rightarrow> bool \<Rightarrow> nat \<Rightarrow> nat \<Rightarrow> ExprEvalStep \<Rightarrow> 'w expr_mem \<Rightarrow> 'w step_result" where
  "fallback_rowcompare_step pg fn f fn_strict jumpnull jumpdone op m =
     (if fn_strict \<and> (nulls m (Arg f 0) \<or> nulls m (Arg f 1)) then goto jumpnull (set_null (resnull op) True m)
      else bind_err (call_frame pg fn f (set_fc_isnull f False m)) (\<lambda>(d, m1).
        let m2 = set_val (resvalue op) d m1 in
        if fc_isnull m2 f then goto jumpnull (set_null (resnull op) True m2)
        else let m3 = set_null (resnull op) False m2 in
          if DatumGetInt32 d \<noteq> 0 then goto jumpdone m3 else cont m3))"

definition fallback_rowcompare_final :: "CompareType \<Rightarrow> ExprEvalStep \<Rightarrow> 'w expr_mem \<Rightarrow> 'w step_result" where
  "fallback_rowcompare_final cmptype op m =
     (let cmpresult = sint (DatumGetInt32 (vals m (resvalue op)));
          store = (\<lambda>b. cont (set_null (resnull op) False (set_val (resvalue op) (BoolGetDatum b) m))) in
      case cmptype of COMPARE_LT \<Rightarrow> store (cmpresult < 0) | COMPARE_LE \<Rightarrow> store (cmpresult \<le> 0)
      | COMPARE_GE \<Rightarrow> store (0 \<le> cmpresult) | COMPARE_GT \<Rightarrow> store (0 < cmpresult)
      | _ \<Rightarrow> Some (Inl (Elog_error ''unexpected compare type'')))"

section \<open>Hashing\<close>

definition pg_rotate_left32 :: "uint32 \<Rightarrow> nat \<Rightarrow> uint32" where
  "pg_rotate_left32 x n = (push_bit n x) OR (drop_bit (32 - n) x)"

definition fallback_hash_first :: "'w pg_fns \<Rightarrow> nat option \<Rightarrow> fn_addr \<Rightarrow> nat \<Rightarrow> ExprEvalStep \<Rightarrow> 'w expr_mem \<Rightarrow> 'w step_result" where
  "fallback_hash_first pg strict_jump fn f op m =
     (case (strict_jump, nulls m (Arg f 0)) of
        (Some jumpdone, True) \<Rightarrow> goto jumpdone (set_val (resvalue op) 0 (set_null (resnull op) True m))
      | (_, False) \<Rightarrow> bind_err (call_frame pg fn f (set_fc_isnull f False m))
            (\<lambda>(d, m1). cont (set_null (resnull op) False (set_val (resvalue op) d m1)))
      | (None, True) \<Rightarrow> cont (set_null (resnull op) False (set_val (resvalue op) 0 m)))"

definition fallback_hash_next :: "'w pg_fns \<Rightarrow> nat option \<Rightarrow> fn_addr \<Rightarrow> nat \<Rightarrow> loc \<Rightarrow> ExprEvalStep \<Rightarrow> 'w expr_mem \<Rightarrow> 'w step_result" where
  "fallback_hash_next pg strict_jump fn f iresult op m =
     (let existing = pg_rotate_left32 (DatumGetUInt32 (vals m iresult)) 1 in
      case (strict_jump, nulls m (Arg f 0)) of
        (Some jumpdone, True) \<Rightarrow> goto jumpdone (set_val (resvalue op) 0 (set_null (resnull op) True m))
      | (_, False) \<Rightarrow> bind_err (call_frame pg fn f (set_fc_isnull f False m))
            (\<lambda>(hashval, m1). cont (set_null (resnull op) False
               (set_val (resvalue op) (UInt32GetDatum (existing XOR DatumGetUInt32 hashval)) m1)))
      | (None, True) \<Rightarrow> cont (set_null (resnull op) False (set_val (resvalue op) (UInt32GetDatum existing) m)))"

section \<open>Slots, constants and function calls\<close>

definition fallback_fetchsome :: "'w pg_fns \<Rightarrow> slot_kind \<Rightarrow> int16 \<Rightarrow> 'w expr_mem \<Rightarrow> 'w step_result" where
  "fallback_fetchsome pg k last_var m =
     (if sint (nvalid (slots m k)) < sint last_var then bind_err (getsomeattrs pg k last_var m) cont else cont m)"

definition fallback_var :: "slot_kind \<Rightarrow> nat \<Rightarrow> ExprEvalStep \<Rightarrow> 'w expr_mem \<Rightarrow> 'w step_result" where
  "fallback_var k attnum op m = cont (copy_pair op (tvalues (slots m k) attnum, tisnull (slots m k) attnum) m)"

definition set_result :: "nat \<Rightarrow> Datum \<Rightarrow> bool \<Rightarrow> 'w expr_mem \<Rightarrow> 'w expr_mem" where
  "set_result resultnum d isnull m =
     m\<lparr>result_values := (result_values m)(resultnum := d), result_isnull := (result_isnull m)(resultnum := isnull)\<rparr>"

definition fallback_assign_var :: "slot_kind \<Rightarrow> nat \<Rightarrow> nat \<Rightarrow> 'w expr_mem \<Rightarrow> 'w step_result" where
  "fallback_assign_var k attnum resultnum m =
     cont (set_result resultnum (tvalues (slots m k) attnum) (tisnull (slots m k) attnum) m)"

text \<open>A value that may be changed in place is made read-only, in the state too.\<close>

definition fallback_assign_tmp :: "'w pg_fns \<Rightarrow> bool \<Rightarrow> nat \<Rightarrow> 'w expr_mem \<Rightarrow> 'w step_result" where
  "fallback_assign_tmp pg make_ro resultnum m =
     (let m1 = if make_ro \<and> \<not> nulls m Result then set_val Result (make_readonly pg (vals m Result)) m else m in
      cont (set_result resultnum (vals m1 Result) (nulls m1 Result) m1))"

definition any_arg_null :: "nat \<Rightarrow> nat \<Rightarrow> nat \<Rightarrow> 'w expr_mem \<Rightarrow> bool" where
  "any_arg_null f base nargs m \<longleftrightarrow> (\<exists>i < nargs. nulls m (Arg f (base + i)))"

definition fallback_funcexpr :: "'w pg_fns \<Rightarrow> strictness \<Rightarrow> fn_addr \<Rightarrow> nat \<Rightarrow> nat \<Rightarrow> ExprEvalStep \<Rightarrow> 'w expr_mem \<Rightarrow> 'w step_result" where
  "fallback_funcexpr pg strict fn f nargs op m =
     (if strict \<noteq> NON_STRICT \<and> any_arg_null f 0 nargs m then cont (set_null (resnull op) True m)
      else bind_err (call_frame pg fn f (set_fc_isnull f False m)) (\<lambda>(d, m1).
        let m2 = set_val (resvalue op) d m1 in cont (set_null (resnull op) (fc_isnull m2 f) m2)))"

section \<open>Logic and jumps\<close>

definition and_or_last :: "step_position \<Rightarrow> nat \<Rightarrow> ExprEvalStep \<Rightarrow> 'w expr_mem \<Rightarrow> 'w step_result" where
  "and_or_last pos a op m =
     (if pos = Last_step \<and> anynulls m a then cont (set_null (resnull op) True (set_val (resvalue op) 0 m)) else cont m)"

definition fallback_and_step :: "step_position \<Rightarrow> nat \<Rightarrow> nat \<Rightarrow> ExprEvalStep \<Rightarrow> 'w expr_mem \<Rightarrow> 'w step_result" where
  "fallback_and_step pos a jumpdone op m =
     (let m1 = if pos = First_step then set_anynull a False m else m in
      if nulls m1 (resnull op) then and_or_last pos a op (set_anynull a True m1)
      else if \<not> DatumGetBool (vals m1 (resvalue op)) then goto jumpdone m1
      else and_or_last pos a op m1)"

definition fallback_or_step :: "step_position \<Rightarrow> nat \<Rightarrow> nat \<Rightarrow> ExprEvalStep \<Rightarrow> 'w expr_mem \<Rightarrow> 'w step_result" where
  "fallback_or_step pos a jumpdone op m =
     (let m1 = if pos = First_step then set_anynull a False m else m in
      if nulls m1 (resnull op) then and_or_last pos a op (set_anynull a True m1)
      else if DatumGetBool (vals m1 (resvalue op)) then goto jumpdone m1
      else and_or_last pos a op m1)"

definition fallback_qual :: "nat \<Rightarrow> ExprEvalStep \<Rightarrow> 'w expr_mem \<Rightarrow> 'w step_result" where
  "fallback_qual jumpdone op m =
     (if nulls m (resnull op) \<or> \<not> DatumGetBool (vals m (resvalue op))
      then goto jumpdone (set_null (resnull op) False (set_val (resvalue op) 0 m)) else cont m)"

definition fallback_jump_if_not_true :: "nat \<Rightarrow> ExprEvalStep \<Rightarrow> 'w expr_mem \<Rightarrow> 'w step_result" where
  "fallback_jump_if_not_true jumpdone op m =
     (if nulls m (resnull op) \<or> \<not> DatumGetBool (vals m (resvalue op))
      then goto jumpdone (set_null (resnull op) False (set_val (resvalue op) (BoolGetDatum False) m)) else cont m)"

definition fallback_returningexpr :: "uint8 \<Rightarrow> nat \<Rightarrow> ExprEvalStep \<Rightarrow> 'w expr_mem \<Rightarrow> 'w step_result" where
  "fallback_returningexpr nullflag jumpdone op m =
     (if es_flags m AND nullflag \<noteq> 0 then goto jumpdone (set_null (resnull op) True (set_val (resvalue op) 0 m)) else cont m)"

section \<open>Aggregates\<close>

definition fallback_agg_deserialize :: "'w pg_fns \<Rightarrow> nat option \<Rightarrow> nat \<Rightarrow> ExprEvalStep \<Rightarrow> 'w expr_mem \<Rightarrow> 'w step_result" where
  "fallback_agg_deserialize pg strict_jump f op m =
     (case (strict_jump, nulls m (Arg f 0)) of
        (Some jumpnull, True) \<Rightarrow> goto jumpnull m
      | _ \<Rightarrow> bind_err (call_frame pg (fc_fn_addr pg f) f (set_fc_isnull f False m)) (\<lambda>(d, m1).
               let m2 = set_val (resvalue op) d m1 in cont (set_null (resnull op) (fc_isnull m2 f) m2)))"

definition set_pergroup :: "nat \<Rightarrow> nat \<Rightarrow> AggStatePerGroup \<Rightarrow> 'w expr_mem \<Rightarrow> 'w expr_mem" where
  "set_pergroup setoff transno g m =
     m\<lparr>pergroups := (pergroups m)(setoff := map_option (\<lambda>gs. gs(transno := g)) (pergroups m setoff))\<rparr>"

text \<open>The transition function is called in the memory of the tuple, on the old value and the arguments that are in its
  frame; a result passed by reference that is not the old value is copied.\<close>

definition advance_transition :: "'w pg_fns \<Rightarrow> bool \<Rightarrow> nat \<Rightarrow> nat \<Rightarrow> nat \<Rightarrow> nat \<Rightarrow> nat \<Rightarrow> AggStatePerGroup \<Rightarrow> 'w expr_mem \<Rightarrow> 'w step_result" where
  "advance_transition pg byref setoff transno pertrans aggcontext setno g m =
     (let f = pt_fcinfo pg pertrans; oldContext = CurrentMemoryContext m;
          m1 = m\<lparr>curaggcontext := aggcontext, current_set := setno, curpertrans := pertrans,
                 CurrentMemoryContext := per_tuple_memory pg\<rparr>;
          m2 = set_fc_isnull f False (set_null (Arg f 0) (transValueIsNull g) (set_val (Arg f 0) (transValue g) m1)) in
      bind_err (call_frame pg (fc_fn_addr pg f) f m2) (\<lambda>(newVal, m3).
        bind_err
          (if byref \<and> newVal \<noteq> transValue g
           then agg_copy_trans_value pg pertrans newVal (fc_isnull m3 f) (transValue g) (transValueIsNull g) (world m3)
           else Inr (newVal, world m3))
          (\<lambda>(v, w). cont ((set_pergroup setoff transno
             (g\<lparr>transValue := v, transValueIsNull := fc_isnull m3 f\<rparr>) m3)\<lparr>world := w, CurrentMemoryContext := oldContext\<rparr>))))"

definition fallback_agg_trans_init_strict :: "'w pg_fns \<Rightarrow> bool \<Rightarrow> nat \<Rightarrow> nat \<Rightarrow> nat \<Rightarrow> nat \<Rightarrow> nat \<Rightarrow> 'w expr_mem \<Rightarrow> 'w step_result" where
  "fallback_agg_trans_init_strict pg byref setoff transno pertrans aggcontext setno m =
     (case pergroups m setoff of None \<Rightarrow> None | Some gs \<Rightarrow>
        let g = gs transno in
        if noTransValue g then bind_err (agg_init_group pg pertrans setoff transno aggcontext m) cont
        else if \<not> transValueIsNull g then advance_transition pg byref setoff transno pertrans aggcontext setno g m
        else cont m)"

definition fallback_agg_trans_strict :: "'w pg_fns \<Rightarrow> bool \<Rightarrow> nat \<Rightarrow> nat \<Rightarrow> nat \<Rightarrow> nat \<Rightarrow> nat \<Rightarrow> 'w expr_mem \<Rightarrow> 'w step_result" where
  "fallback_agg_trans_strict pg byref setoff transno pertrans aggcontext setno m =
     (case pergroups m setoff of None \<Rightarrow> None | Some gs \<Rightarrow>
        let g = gs transno in
        if \<not> transValueIsNull g then advance_transition pg byref setoff transno pertrans aggcontext setno g m else cont m)"

definition fallback_agg_trans_plain :: "'w pg_fns \<Rightarrow> bool \<Rightarrow> nat \<Rightarrow> nat \<Rightarrow> nat \<Rightarrow> nat \<Rightarrow> nat \<Rightarrow> 'w expr_mem \<Rightarrow> 'w step_result" where
  "fallback_agg_trans_plain pg byref setoff transno pertrans aggcontext setno m =
     (case pergroups m setoff of None \<Rightarrow> None | Some gs \<Rightarrow>
        advance_transition pg byref setoff transno pertrans aggcontext setno (gs transno) m)"

fun fallback_agg_trans :: "trans_kind \<Rightarrow> 'w pg_fns \<Rightarrow> bool \<Rightarrow> nat \<Rightarrow> nat \<Rightarrow> nat \<Rightarrow> nat \<Rightarrow> nat \<Rightarrow> 'w expr_mem \<Rightarrow> 'w step_result" where
  "fallback_agg_trans INIT_STRICT = fallback_agg_trans_init_strict"
| "fallback_agg_trans STRICT_TRANS = fallback_agg_trans_strict"
| "fallback_agg_trans PLAIN_TRANS = fallback_agg_trans_plain"

definition fallback_presorted :: "'w pg_fns \<Rightarrow> PGFunction \<Rightarrow> nat \<Rightarrow> nat \<Rightarrow> 'w expr_mem \<Rightarrow> 'w step_result" where
  "fallback_presorted pg fn pertrans jumpdistinct m =
     bind_err (presorted_distinct pg fn pertrans m) (\<lambda>(r, m1). if r then cont m1 else goto jumpdistinct m1)"

section \<open>The dispatch\<close>

definition pg_jitter_fallback_step :: "'w pg_fns \<Rightarrow> ExprEvalStep \<Rightarrow> nat \<Rightarrow> 'w expr_mem \<Rightarrow> 'w step_result" where
  "pg_jitter_fallback_step pg op opno m =
     (case opcode op of
        EEOP_DONE_RETURN \<Rightarrow> Some (Inl (Elog_error ''pg_jitter: DONE opcode in fallback''))
      | EEOP_DONE_NO_RETURN \<Rightarrow> Some (Inl (Elog_error ''pg_jitter: DONE opcode in fallback''))
      | EEOP_EVAL e \<Rightarrow> call_eval pg (eval_fn e) opno m
      | EEOP_FETCHSOME k last_var \<Rightarrow> fallback_fetchsome pg k last_var m
      | EEOP_VAR k attnum \<Rightarrow> fallback_var k attnum op m
      | EEOP_ASSIGN_VAR k attnum resultnum \<Rightarrow> fallback_assign_var k attnum resultnum m
      | EEOP_ASSIGN_TMP resultnum \<Rightarrow> fallback_assign_tmp pg False resultnum m
      | EEOP_ASSIGN_TMP_MAKE_RO resultnum \<Rightarrow> fallback_assign_tmp pg True resultnum m
      | EEOP_CONST value isnull \<Rightarrow> cont (copy_pair op (value, isnull) m)
      | EEOP_FUNCEXPR strict fn f nargs \<Rightarrow> fallback_funcexpr pg strict fn f nargs op m
      | EEOP_BOOL_AND_STEP pos a jumpdone \<Rightarrow> fallback_and_step pos a jumpdone op m
      | EEOP_BOOL_OR_STEP pos a jumpdone \<Rightarrow> fallback_or_step pos a jumpdone op m
      | EEOP_BOOL_NOT_STEP \<Rightarrow> cont (set_val (resvalue op) (BoolGetDatum (\<not> DatumGetBool (vals m (resvalue op)))) m)
      | EEOP_QUAL jumpdone \<Rightarrow> fallback_qual jumpdone op m
      | EEOP_JUMP jumpdone \<Rightarrow> goto jumpdone m
      | EEOP_JUMP_IF_NULL jumpdone \<Rightarrow> if nulls m (resnull op) then goto jumpdone m else cont m
      | EEOP_JUMP_IF_NOT_NULL jumpdone \<Rightarrow> if \<not> nulls m (resnull op) then goto jumpdone m else cont m
      | EEOP_JUMP_IF_NOT_TRUE jumpdone \<Rightarrow> fallback_jump_if_not_true jumpdone op m
      | EEOP_NULLTEST_ISNULL \<Rightarrow> cont (set_null (resnull op) False (set_val (resvalue op) (BoolGetDatum (nulls m (resnull op))) m))
      | EEOP_NULLTEST_ISNOTNULL \<Rightarrow> cont (set_null (resnull op) False (set_val (resvalue op) (BoolGetDatum (\<not> nulls m (resnull op))) m))
      | EEOP_BOOLTEST t \<Rightarrow> cont (fallback_booltest t op m)
      | EEOP_CASE_TESTVAL value isnull \<Rightarrow> fallback_testval value isnull op m
      | EEOP_CASE_TESTVAL_EXT \<Rightarrow> cont (copy_pair op (caseValue m) m)
      | EEOP_MAKE_READONLY value isnull \<Rightarrow> fallback_make_readonly pg value isnull op m
      | EEOP_IOCOERCE f_out f_in \<Rightarrow> fallback_iocoerce pg f_out f_in op m
      | EEOP_DISTINCT fn f \<Rightarrow> fallback_distinct pg True fn f op m
      | EEOP_NOT_DISTINCT fn f \<Rightarrow> fallback_distinct pg False fn f op m
      | EEOP_NULLIF fn f \<Rightarrow> fallback_nullif pg fn f op m
      | EEOP_RETURNINGEXPR nullflag jumpdone \<Rightarrow> fallback_returningexpr nullflag jumpdone op m
      | EEOP_ROWCOMPARE_STEP fn f strict jumpnull jumpdone \<Rightarrow> fallback_rowcompare_step pg fn f strict jumpnull jumpdone op m
      | EEOP_ROWCOMPARE_FINAL cmptype \<Rightarrow> fallback_rowcompare_final cmptype op m
      | EEOP_SBSREF_SUBSCRIPTS fn jumpdone \<Rightarrow> bind_err (exec_eval_int pg fn opno m) (\<lambda>(r, m1). if r = 0 then goto jumpdone m1 else cont m1)
      | EEOP_JSONEXPR_PATH \<Rightarrow> bind_err (exec_eval_int pg ''ExecEvalJsonExprPath'' opno m) (\<lambda>r. Some (Inr r))
      | EEOP_DOMAIN_TESTVAL value isnull \<Rightarrow> fallback_testval value isnull op m
      | EEOP_DOMAIN_TESTVAL_EXT \<Rightarrow> cont (copy_pair op (domainValue m) m)
      | EEOP_DOMAIN_NOTNULL \<Rightarrow> call_eval pg (''ExecEvalConstraintNotNull'', None) opno m
      | EEOP_DOMAIN_CHECK _ _ \<Rightarrow> call_eval pg (''ExecEvalConstraintCheck'', None) opno m
      | EEOP_HASHDATUM_SET_INITVAL v \<Rightarrow> cont (copy_pair op (v, False) m)
      | EEOP_HASHDATUM_FIRST fn f \<Rightarrow> fallback_hash_first pg None fn f op m
      | EEOP_HASHDATUM_FIRST_STRICT fn f jumpdone \<Rightarrow> fallback_hash_first pg (Some jumpdone) fn f op m
      | EEOP_HASHDATUM_NEXT32 fn f iresult \<Rightarrow> fallback_hash_next pg None fn f iresult op m
      | EEOP_HASHDATUM_NEXT32_STRICT fn f iresult jumpdone \<Rightarrow> fallback_hash_next pg (Some jumpdone) fn f iresult op m
      | EEOP_AGGREF aggno \<Rightarrow> cont (copy_pair op (aggvalues m aggno, aggnulls m aggno) m)
      | EEOP_WINDOW_FUNC w \<Rightarrow> cont (copy_pair op (aggvalues m (wfuncnos m w), aggnulls m (wfuncnos m w)) m)
      | EEOP_AGG_STRICT_DESERIALIZE f jumpnull \<Rightarrow> fallback_agg_deserialize pg (Some jumpnull) f op m
      | EEOP_AGG_DESERIALIZE f \<Rightarrow> fallback_agg_deserialize pg None f op m
      | EEOP_AGG_STRICT_INPUT_CHECK_ARGS kind f base nargs jumpnull \<Rightarrow> if any_arg_null f base nargs m then goto jumpnull m else cont m
      | EEOP_AGG_STRICT_INPUT_CHECK_NULLS arr nargs jumpnull \<Rightarrow>
          if \<exists>i < nargs. nulls_arrays m arr i then goto jumpnull m else cont m
      | EEOP_AGG_PLAIN_PERGROUP_NULLCHECK setoff jumpnull \<Rightarrow> if pergroups m setoff = None then goto jumpnull m else cont m
      | EEOP_AGG_PLAIN_TRANS_BYVAL kind setoff transno pertrans aggcontext setno \<Rightarrow>
          fallback_agg_trans kind pg False setoff transno pertrans aggcontext setno m
      | EEOP_AGG_PLAIN_TRANS_BYREF kind setoff transno pertrans aggcontext setno \<Rightarrow>
          fallback_agg_trans kind pg True setoff transno pertrans aggcontext setno m
      | EEOP_AGG_PRESORTED_DISTINCT_SINGLE pertrans jumpdistinct \<Rightarrow> fallback_presorted pg ''ExecEvalPreOrderedDistinctSingle'' pertrans jumpdistinct m
      | EEOP_AGG_PRESORTED_DISTINCT_MULTI pertrans jumpdistinct \<Rightarrow> fallback_presorted pg ''ExecEvalPreOrderedDistinctMulti'' pertrans jumpdistinct m)"

end
