(* ===== verification/ExprMachine.thy ===== *)
theory ExprMachine
  imports Fallback
begin

text \<open>
  The machine on which the code of an expression runs: the registers and the frame of the generated function, the objects its pointers lead
  to, and the documented effect of the sljit instructions that the expression compiler of \<open>pg_jitter_sljit.c\<close> emits. An
  offset of a field appears by the name of the field. A jump goes to a label further on. What has no result here: an
  access through the wrong pointer or of the wrong width, a byte other than 0 and 1 stored into a \<open>bool\<close>, the use of a scratch register
  after a call, and the end of the code.
\<close>

section \<open>Instructions\<close>

datatype xreg = R nat | S nat

datatype xmov = MOV | MOV_U8 | MOV_S16 | MOV_S32 | MOV32

datatype xalu = ALU_ADD | ALU_OR | ALU_XOR

datatype xcond = C_EQUAL | C_NOT_EQUAL | C_SIG_LESS | C_SIG_LESS_EQUAL | C_SIG_GREATER_EQUAL | C_SIG_GREATER

text \<open>The fields of \<open>ExprEvalStep\<close> that are read at run time.\<close>

datatype step_field = SF_resvalue | SF_resnull | SF_fcinfo | SF_fcinfo_in | SF_fn_addr | SF_anynull | SF_constval | SF_testval | SF_testnull
  | SF_ro_value | SF_ro_isnull | SF_check_args | SF_check_nulls | SF_checkvalue | SF_checknull | SF_pertrans

datatype xfield = F_resvalue | F_resnull | F_flags | F_steps | F_resultslot | F_parent
  | F_slot slot_kind | F_aggvalues | F_aggnulls | F_case_datum | F_case_isnull | F_domain_datum | F_domain_isnull
  | F_step nat step_field | F_nvalid | F_tts_values | F_tts_isnull | F_datum nat | F_bool nat
  | F_arg_value nat | F_arg_isnull nat | F_fc_isnull | F_fncollation | F_nd_isnull nat | F_zero | F_paired | F_all_pergroups | F_pergroup nat

text \<open>\<open>Off\<close> and \<open>Step_off\<close> are the offsets of a field and of a step, as immediate operands of an addition.\<close>

datatype operand = Reg xreg | Imm Datum | Off xfield | Step_off nat | Sp nat | Mem xreg xfield

datatype xlabel = L_step nat | L_local nat nat | L_prologue

text \<open>\<open>C_v1\<close> calls a function on the frame in \<open>R0\<close>, \<open>C_v1_reg\<close> the one whose address a register holds, \<open>C_direct\<close> a native function.\<close>

datatype callee = C_v1 fn_addr | C_v1_reg xreg | C_direct fn_addr nat | C_getsomeattrs | C_deform_dispatch | C_make_readonly
  | C_eval PGFunction "slot_kind option" | C_eval2 PGFunction | C_eval_bool PGFunction | C_presorted PGFunction

datatype xins = Op1 xmov operand operand | Op2 xalu xreg operand operand
  | Test_zero xreg | And_zero xreg Datum | Flag_equal xreg | Jump_zero xlabel | Cmp xcond operand operand xlabel | Jump xlabel | Label xlabel
  | Icall callee | Return operand

section \<open>The machine\<close>

text \<open>A pointer names the object and field it leads to.\<close>

datatype ptr = P_state | P_econtext | P_isnull_out | P_steps | P_step nat | P_resultslot | P_slot slot_kind
  | P_tvalues slot_kind | P_tisnull slot_kind | P_rvalues | P_risnull | P_val loc | P_null loc | P_frame nat | P_args nat nat
  | P_anynull nat | P_nulls nat | P_aggvalues | P_aggnulls | P_aggstate | P_pergroups | P_pergroup nat | P_pertrans nat | P_fn fn_addr

datatype xval = XN Datum | XP ptr

text \<open>\<open>direct_call\<close> are the native functions of \<open>pg_jit_funcs.c\<close>, on the values of the arguments; \<open>deform_dispatch\<close> is
  \<open>pg_jitter_compiled_deform_dispatch\<close> on the slots of an expression; \<open>flag_rest\<close> are the three bytes that follow \<open>state->flags\<close> in memory.\<close>

record 'w xenv =
  x_pg :: "'w pg_fns"
  x_steps :: "ExprEvalStep list"
  x_resultslot :: bool
  direct_call :: "fn_addr \<Rightarrow> Datum list \<Rightarrow> 'w \<Rightarrow> pg_error + Datum \<times> 'w"
  deform_dispatch :: "slot_kind \<Rightarrow> int16 \<Rightarrow> 'w expr_mem \<Rightarrow> pg_error + 'w expr_mem"
  flag_rest :: "'w expr_mem \<Rightarrow> Datum"

record 'w xmachine =
  xr :: "xreg \<Rightarrow> xval option"
  xframe :: "nat \<Rightarrow> xval option"
  xz :: "bool option"
  xm :: "'w expr_mem"
  isnull_out :: "bool option"

text \<open>The value of a field of a step.\<close>

definition frame_of :: "ExprEvalOp \<Rightarrow> nat option" where
  "frame_of op = (case op of EEOP_FUNCEXPR _ _ f _ \<Rightarrow> Some f | EEOP_DISTINCT _ f \<Rightarrow> Some f | EEOP_NOT_DISTINCT _ f \<Rightarrow> Some f
     | EEOP_NULLIF _ f \<Rightarrow> Some f | EEOP_ROWCOMPARE_STEP _ f _ _ _ \<Rightarrow> Some f | EEOP_IOCOERCE f _ \<Rightarrow> Some f
     | EEOP_AGG_DESERIALIZE f \<Rightarrow> Some f | EEOP_AGG_STRICT_DESERIALIZE f _ \<Rightarrow> Some f
     | EEOP_HASHDATUM_FIRST _ f \<Rightarrow> Some f | EEOP_HASHDATUM_FIRST_STRICT _ f _ \<Rightarrow> Some f | _ \<Rightarrow> None)"

definition fn_of :: "ExprEvalOp \<Rightarrow> fn_addr option" where
  "fn_of op = (case op of EEOP_FUNCEXPR _ fn _ _ \<Rightarrow> Some fn | EEOP_DISTINCT fn _ \<Rightarrow> Some fn | EEOP_NOT_DISTINCT fn _ \<Rightarrow> Some fn
     | EEOP_NULLIF fn _ \<Rightarrow> Some fn | _ \<Rightarrow> None)"

definition anynull_of :: "ExprEvalOp \<Rightarrow> nat option" where
  "anynull_of op = (case op of EEOP_BOOL_AND_STEP _ a _ \<Rightarrow> Some a | EEOP_BOOL_OR_STEP _ a _ \<Rightarrow> Some a | _ \<Rightarrow> None)"

definition testval_of :: "ExprEvalOp \<Rightarrow> (loc option \<times> loc) option" where
  "testval_of op = (case op of EEOP_CASE_TESTVAL v n \<Rightarrow> Some (v, n) | EEOP_DOMAIN_TESTVAL v n \<Rightarrow> Some (v, n) | _ \<Rightarrow> None)"

definition pertrans_of :: "ExprEvalOp \<Rightarrow> nat option" where
  "pertrans_of op = (case op of EEOP_AGG_PRESORTED_DISTINCT_SINGLE p _ \<Rightarrow> Some p | EEOP_AGG_PRESORTED_DISTINCT_MULTI p _ \<Rightarrow> Some p | _ \<Rightarrow> None)"

definition load_step :: "ExprEvalStep \<Rightarrow> step_field \<Rightarrow> xval option" where
  "load_step st sf =
     (case sf of SF_resvalue \<Rightarrow> Some (XP (P_val (resvalue st))) | SF_resnull \<Rightarrow> Some (XP (P_null (resnull st)))
      | SF_fcinfo \<Rightarrow> map_option (\<lambda>f. XP (P_frame f)) (frame_of (opcode st))
      | SF_fcinfo_in \<Rightarrow> (case opcode st of EEOP_IOCOERCE _ f \<Rightarrow> Some (XP (P_frame f)) | _ \<Rightarrow> None)
      | SF_fn_addr \<Rightarrow> map_option (\<lambda>f. XP (P_fn f)) (fn_of (opcode st))
      | SF_anynull \<Rightarrow> map_option (\<lambda>a. XP (P_anynull a)) (anynull_of (opcode st))
      | SF_constval \<Rightarrow> (case opcode st of EEOP_CONST v _ \<Rightarrow> Some (XN v) | _ \<Rightarrow> None)
      | SF_testval \<Rightarrow> (case testval_of (opcode st) of Some (Some l, _) \<Rightarrow> Some (XP (P_val l)) | Some (None, _) \<Rightarrow> Some (XN 0) | _ \<Rightarrow> None)
      | SF_testnull \<Rightarrow> (case testval_of (opcode st) of Some (_, l) \<Rightarrow> Some (XP (P_null l)) | _ \<Rightarrow> None)
      | SF_ro_value \<Rightarrow> (case opcode st of EEOP_MAKE_READONLY v _ \<Rightarrow> Some (XP (P_val v)) | _ \<Rightarrow> None)
      | SF_ro_isnull \<Rightarrow> (case opcode st of EEOP_MAKE_READONLY _ l \<Rightarrow> Some (XP (P_null l)) | _ \<Rightarrow> None)
      | SF_check_args \<Rightarrow> (case opcode st of EEOP_AGG_STRICT_INPUT_CHECK_ARGS _ f b _ _ \<Rightarrow> Some (XP (P_args f b)) | _ \<Rightarrow> None)
      | SF_check_nulls \<Rightarrow> (case opcode st of EEOP_AGG_STRICT_INPUT_CHECK_NULLS a _ _ \<Rightarrow> Some (XP (P_nulls a)) | _ \<Rightarrow> None)
      | SF_checkvalue \<Rightarrow> (case opcode st of EEOP_DOMAIN_CHECK v _ \<Rightarrow> Some (XP (P_val v)) | _ \<Rightarrow> None)
      | SF_checknull \<Rightarrow> (case opcode st of EEOP_DOMAIN_CHECK _ l \<Rightarrow> Some (XP (P_null l)) | _ \<Rightarrow> None)
      | SF_pertrans \<Rightarrow> map_option (\<lambda>p. XP (P_pertrans p)) (pertrans_of (opcode st)))"

definition byte_of :: "bool \<Rightarrow> xval" where "byte_of b = XN (of_bool b)"

definition load :: "'w xenv \<Rightarrow> 'w expr_mem \<Rightarrow> xmov \<Rightarrow> ptr \<Rightarrow> xfield \<Rightarrow> xval option" where
  "load env m w p f =
     (case w of
        MOV \<Rightarrow> (case (p, f) of
            (P_state, F_resvalue) \<Rightarrow> Some (XN (vals m Result)) | (P_state, F_steps) \<Rightarrow> Some (XP P_steps)
          | (P_state, F_resultslot) \<Rightarrow> Some (if x_resultslot env then XP P_resultslot else XN 0)
          | (P_state, F_parent) \<Rightarrow> Some (XP P_aggstate)
          | (P_econtext, F_slot k) \<Rightarrow> Some (XP (P_slot k))
          | (P_econtext, F_aggvalues) \<Rightarrow> Some (XP P_aggvalues) | (P_econtext, F_aggnulls) \<Rightarrow> Some (XP P_aggnulls)
          | (P_econtext, F_case_datum) \<Rightarrow> Some (XN (fst (caseValue m))) | (P_econtext, F_domain_datum) \<Rightarrow> Some (XN (fst (domainValue m)))
          | (P_steps, F_step n sf) \<Rightarrow> if n < length (x_steps env) then load_step (x_steps env ! n) sf else None
          | (P_slot k, F_tts_values) \<Rightarrow> Some (XP (P_tvalues k)) | (P_slot k, F_tts_isnull) \<Rightarrow> Some (XP (P_tisnull k))
          | (P_resultslot, F_tts_values) \<Rightarrow> Some (XP P_rvalues) | (P_resultslot, F_tts_isnull) \<Rightarrow> Some (XP P_risnull)
          | (P_tvalues k, F_datum i) \<Rightarrow> Some (XN (tvalues (slots m k) i)) | (P_aggvalues, F_datum i) \<Rightarrow> Some (XN (aggvalues m i))
          | (P_val l, F_zero) \<Rightarrow> Some (XN (vals m l)) | (P_frame g, F_arg_value i) \<Rightarrow> Some (XN (vals m (Arg g i)))
          | (P_aggstate, F_all_pergroups) \<Rightarrow> Some (XP P_pergroups)
          | (P_pergroups, F_pergroup i) \<Rightarrow> Some (if pergroups m i = None then XN 0 else XP (P_pergroup i))
          | _ \<Rightarrow> None)
      | MOV_U8 \<Rightarrow> (case (p, f) of
            (P_state, F_resnull) \<Rightarrow> Some (byte_of (nulls m Result))
          | (P_econtext, F_case_isnull) \<Rightarrow> Some (byte_of (snd (caseValue m))) | (P_econtext, F_domain_isnull) \<Rightarrow> Some (byte_of (snd (domainValue m)))
          | (P_tisnull k, F_bool i) \<Rightarrow> Some (byte_of (tisnull (slots m k) i)) | (P_aggnulls, F_bool i) \<Rightarrow> Some (byte_of (aggnulls m i))
          | (P_nulls a, F_bool i) \<Rightarrow> Some (byte_of (nulls_arrays m a i))
          | (P_null l, F_zero) \<Rightarrow> Some (byte_of (nulls m l)) | (P_anynull a, F_zero) \<Rightarrow> Some (byte_of (anynulls m a))
          | (P_frame g, F_arg_isnull i) \<Rightarrow> Some (byte_of (nulls m (Arg g i))) | (P_frame g, F_fc_isnull) \<Rightarrow> Some (byte_of (fc_isnull m g))
          | (P_args g b, F_nd_isnull i) \<Rightarrow> Some (byte_of (nulls m (Arg g (b + i))))
          | _ \<Rightarrow> None)
      | MOV_S16 \<Rightarrow> (case (p, f) of (P_slot k, F_nvalid) \<Rightarrow> Some (XN (scast (nvalid (slots m k)))) | _ \<Rightarrow> None)
      | MOV_S32 \<Rightarrow> (case (p, f) of (P_val l, F_zero) \<Rightarrow> Some (XN (scast (DatumGetInt32 (vals m l))))
          | (P_state, F_flags) \<Rightarrow> Some (XN (scast (ucast (ucast (es_flags m) OR push_bit 8 (flag_rest env m)) :: int32)))
          | _ \<Rightarrow> None)
      | MOV32 \<Rightarrow> (case (p, f) of (P_frame g, F_fncollation) \<Rightarrow> Some (XN (ucast (fc_collation (x_pg env) g))) | _ \<Rightarrow> None))"

definition bool_of :: "xval \<Rightarrow> bool option" where
  "bool_of v = (if v = XN 0 then Some False else if v = XN 1 then Some True else None)"

definition store_bool :: "ptr \<Rightarrow> xfield \<Rightarrow> bool \<Rightarrow> 'w xmachine \<Rightarrow> 'w xmachine option" where
  "store_bool p f b x =
     (case (p, f) of
        (P_state, F_resnull) \<Rightarrow> Some (x\<lparr>xm := set_null Result b (xm x)\<rparr>)
      | (P_null l, F_zero) \<Rightarrow> Some (x\<lparr>xm := set_null l b (xm x)\<rparr>)
      | (P_val l, F_paired) \<Rightarrow> if l = Result then None else Some (x\<lparr>xm := set_null l b (xm x)\<rparr>)
      | (P_anynull a, F_zero) \<Rightarrow> Some (x\<lparr>xm := set_anynull a b (xm x)\<rparr>)
      | (P_frame g, F_arg_isnull i) \<Rightarrow> Some (x\<lparr>xm := set_null (Arg g i) b (xm x)\<rparr>)
      | (P_frame g, F_fc_isnull) \<Rightarrow> Some (x\<lparr>xm := set_fc_isnull g b (xm x)\<rparr>)
      | (P_risnull, F_bool i) \<Rightarrow> Some (x\<lparr>xm := (xm x)\<lparr>result_isnull := (result_isnull (xm x))(i := b)\<rparr>\<rparr>)
      | (P_isnull_out, F_zero) \<Rightarrow> Some (x\<lparr>isnull_out := Some b\<rparr>)
      | _ \<Rightarrow> None)"

definition store_datum :: "ptr \<Rightarrow> xfield \<Rightarrow> Datum \<Rightarrow> 'w xmachine \<Rightarrow> 'w xmachine option" where
  "store_datum p f d x =
     (case (p, f) of
        (P_state, F_resvalue) \<Rightarrow> Some (x\<lparr>xm := set_val Result d (xm x)\<rparr>)
      | (P_val l, F_zero) \<Rightarrow> Some (x\<lparr>xm := set_val l d (xm x)\<rparr>)
      | (P_frame g, F_arg_value i) \<Rightarrow> Some (x\<lparr>xm := set_val (Arg g i) d (xm x)\<rparr>)
      | (P_rvalues, F_datum i) \<Rightarrow> Some (x\<lparr>xm := (xm x)\<lparr>result_values := (result_values (xm x))(i := d)\<rparr>\<rparr>)
      | _ \<Rightarrow> None)"

definition rd :: "'w xenv \<Rightarrow> xmov \<Rightarrow> operand \<Rightarrow> 'w xmachine \<Rightarrow> xval option" where
  "rd env w o1 x =
     (case o1 of
        Reg r \<Rightarrow> (case (w, xr x r) of (MOV, v) \<Rightarrow> v | (MOV_U8, Some (XN d)) \<Rightarrow> Some (XN (ucast (ucast d :: uint8))) | _ \<Rightarrow> None)
      | Imm d \<Rightarrow> Some (XN d) | Off _ \<Rightarrow> None | Step_off _ \<Rightarrow> None | Sp n \<Rightarrow> if w = MOV then xframe x n else None
      | Mem r f \<Rightarrow> (case xr x r of Some (XP p) \<Rightarrow> load env (xm x) w p f | _ \<Rightarrow> None))"

definition set_reg :: "xreg \<Rightarrow> xval \<Rightarrow> 'w xmachine \<Rightarrow> 'w xmachine" where
  "set_reg r v x = x\<lparr>xr := (xr x)(r := Some v)\<rparr>"

definition wr :: "xmov \<Rightarrow> operand \<Rightarrow> xval \<Rightarrow> 'w xmachine \<Rightarrow> 'w xmachine option" where
  "wr w dst v x =
     (case dst of Reg r \<Rightarrow> Some (set_reg r v x)
      | Sp n \<Rightarrow> if w = MOV then Some (x\<lparr>xframe := (xframe x)(n := Some v)\<rparr>) else None
      | Mem r f \<Rightarrow> (case (xr x r, w) of
            (Some (XP p), MOV) \<Rightarrow> (case v of XN d \<Rightarrow> store_datum p f d x | _ \<Rightarrow> None)
          | (Some (XP p), MOV_U8) \<Rightarrow> Option.bind (bool_of v) (\<lambda>b. store_bool p f b x)
          | _ \<Rightarrow> None)
      | _ \<Rightarrow> None)"

section \<open>Running\<close>

definition alu :: "xalu \<Rightarrow> xval \<Rightarrow> xval \<Rightarrow> xval option" where
  "alu f a b =
     (case (a, b) of (XN u, XN v) \<Rightarrow> Some (XN (case f of ALU_ADD \<Rightarrow> u + v | ALU_OR \<Rightarrow> u OR v | ALU_XOR \<Rightarrow> u XOR v))
      | _ \<Rightarrow> None)"

definition rd_alu :: "'w xenv \<Rightarrow> xalu \<Rightarrow> operand \<Rightarrow> operand \<Rightarrow> 'w xmachine \<Rightarrow> xval option" where
  "rd_alu env f a b x =
     (case (f, rd env MOV a x, b) of
        (ALU_ADD, Some (XP P_steps), Step_off n) \<Rightarrow> Some (XP (P_step n))
      | (ALU_ADD, Some (XP P_state), Off F_resvalue) \<Rightarrow> Some (XP (P_val Result))
      | (_, u, _) \<Rightarrow> Option.bind u (\<lambda>u. Option.bind (rd env MOV b x) (alu f u)))"

text \<open>A pointer into an object is not null.\<close>

definition holds :: "xcond \<Rightarrow> xval \<Rightarrow> xval \<Rightarrow> bool option" where
  "holds c a b =
     (case (a, b) of
        (XN u, XN v) \<Rightarrow> Some (case c of C_EQUAL \<Rightarrow> u = v | C_NOT_EQUAL \<Rightarrow> u \<noteq> v | C_SIG_LESS \<Rightarrow> sint u < sint v
          | C_SIG_LESS_EQUAL \<Rightarrow> sint u \<le> sint v | C_SIG_GREATER_EQUAL \<Rightarrow> sint v \<le> sint u | C_SIG_GREATER \<Rightarrow> sint v < sint u)
      | (XP p, XN v) \<Rightarrow> if v = 0 then (case c of C_EQUAL \<Rightarrow> Some False | C_NOT_EQUAL \<Rightarrow> Some True | _ \<Rightarrow> None) else None
      | _ \<Rightarrow> None)"

definition xstep :: "'w xenv \<Rightarrow> xins \<Rightarrow> 'w xmachine \<Rightarrow> 'w xmachine option" where
  "xstep env i x =
     (case i of Op1 w dst src \<Rightarrow> Option.bind (rd env w src x) (\<lambda>v. wr w dst v x)
      | Op2 f dst a b \<Rightarrow> map_option (\<lambda>v. set_reg dst v x) (rd_alu env f a b x)
      | Test_zero r \<Rightarrow> (case xr x r of Some (XN d) \<Rightarrow> Some (x\<lparr>xz := Some (d = 0)\<rparr>) | _ \<Rightarrow> None)
      | And_zero r c \<Rightarrow> (case xr x r of Some (XN d) \<Rightarrow> Some (x\<lparr>xz := Some (d AND c = 0)\<rparr>) | _ \<Rightarrow> None)
      | Flag_equal r \<Rightarrow> map_option (\<lambda>b. set_reg r (byte_of b) x) (xz x)
      | Label _ \<Rightarrow> Some x | _ \<Rightarrow> None)"

text \<open>A call leaves its result in \<open>R 0\<close> and nothing in the other scratch registers.\<close>

definition after_call :: "xval option \<Rightarrow> 'w expr_mem \<Rightarrow> 'w xmachine \<Rightarrow> 'w xmachine" where
  "after_call r m x = x\<lparr>xr := (\<lambda>q. case q of R n \<Rightarrow> if n = 0 then r else None | S n \<Rightarrow> xr x (S n)), xz := None, xm := m\<rparr>"

definition ret_val :: "pg_error + Datum \<times> 'w expr_mem \<Rightarrow> 'w xmachine \<Rightarrow> (pg_error + 'w xmachine) option" where
  "ret_val r x = bind_err r (\<lambda>(d, m). Some (Inr (after_call (Some (XN d)) m x)))"

definition ret_void :: "pg_error + 'w expr_mem \<Rightarrow> 'w xmachine \<Rightarrow> (pg_error + 'w xmachine) option" where
  "ret_void r x = bind_err r (\<lambda>m. Some (Inr (after_call None m x)))"

definition reg_nums :: "nat \<Rightarrow> 'w xmachine \<Rightarrow> Datum list option" where
  "reg_nums n x = those (map (\<lambda>i. case xr x (R i) of Some (XN d) \<Rightarrow> Some d | _ \<Rightarrow> None) [0..<n])"

definition do_call :: "'w xenv \<Rightarrow> callee \<Rightarrow> 'w xmachine \<Rightarrow> (pg_error + 'w xmachine) option" where
  "do_call env c x =
     (let pg = x_pg env; m = xm x;
          op_args = (xr x (R 0) = Some (XP P_state));
          step = (case xr x (R 1) of Some (XP (P_step n)) \<Rightarrow> Some n | Some (XP P_steps) \<Rightarrow> Some 0 | _ \<Rightarrow> None);
          ctx = (xr x (R 2) = Some (XP P_econtext)) in
      case c of
        C_v1 fn \<Rightarrow> (case xr x (R 0) of Some (XP (P_frame f)) \<Rightarrow> ret_val (call_frame pg fn f m) x | _ \<Rightarrow> None)
      | C_v1_reg r \<Rightarrow> (case (xr x (R 0), xr x r) of (Some (XP (P_frame f)), Some (XP (P_fn fn))) \<Rightarrow> ret_val (call_frame pg fn f m) x | _ \<Rightarrow> None)
      | C_direct fn n \<Rightarrow> Option.bind (reg_nums n x) (\<lambda>args.
          bind_err (direct_call env fn args (world m)) (\<lambda>(d, w). Some (Inr (after_call (Some (XN d)) (m\<lparr>world := w\<rparr>) x))))
      | C_getsomeattrs \<Rightarrow> (case (xr x (R 0), xr x (R 1)) of
          (Some (XP (P_slot k)), Some (XN n)) \<Rightarrow> ret_void (getsomeattrs pg k (ucast n) m) x | _ \<Rightarrow> None)
      | C_deform_dispatch \<Rightarrow> (case (xr x (R 0), xr x (R 1)) of
          (Some (XP (P_slot k)), Some (XN n)) \<Rightarrow> ret_void (deform_dispatch env k (ucast n) m) x | _ \<Rightarrow> None)
      | C_make_readonly \<Rightarrow> (case xr x (R 0) of Some (XN d) \<Rightarrow> Some (Inr (after_call (Some (XN (make_readonly pg d))) m x)) | _ \<Rightarrow> None)
      | C_eval name k \<Rightarrow> if op_args \<and> ctx then Option.bind step (\<lambda>n. ret_void (exec_eval pg name k n m) x) else None
      | C_eval2 name \<Rightarrow> if op_args then Option.bind step (\<lambda>n. ret_void (exec_eval pg name None n m) x) else None
      | C_eval_bool name \<Rightarrow> if op_args \<and> ctx then Option.bind step (\<lambda>n. bind_err (exec_eval_int pg name n m)
          (\<lambda>(r, m'). Some (Inr (after_call (Some (byte_of (r \<noteq> 0))) m' x)))) else None
      | C_presorted name \<Rightarrow> (case (xr x (R 0), xr x (R 1)) of
          (Some (XP P_aggstate), Some (XP (P_pertrans p))) \<Rightarrow>
            bind_err (presorted_distinct pg name p m) (\<lambda>(r, m'). Some (Inr (after_call (Some (byte_of r)) m' x)))
          | _ \<Rightarrow> None))"

fun xafter :: "xlabel \<Rightarrow> xins list \<Rightarrow> xins list option" where
  "xafter l [] = None"
| "xafter l (i # is) = (if i = Label l then Some is else xafter l is)"

lemma xafter_length [termination_simp]: "xafter l is = Some js \<Longrightarrow> length js < length is"
  by (induction "is") (auto split: if_splits)

fun xexec :: "'w xenv \<Rightarrow> xins list \<Rightarrow> 'w xmachine \<Rightarrow> (pg_error + Datum \<times> 'w xmachine) option" where
  "xexec env [] x = None"
| "xexec env (i # is) x =
     (case i of
        Return a \<Rightarrow> (case rd env MOV a x of Some (XN d) \<Rightarrow> Some (Inr (d, x)) | _ \<Rightarrow> None)
      | Jump_zero l \<Rightarrow> (case xz x of None \<Rightarrow> None
          | Some True \<Rightarrow> (case xafter l is of None \<Rightarrow> None | Some js \<Rightarrow> xexec env js x)
          | Some False \<Rightarrow> xexec env is x)
      | Jump l \<Rightarrow> (case xafter l is of None \<Rightarrow> None | Some js \<Rightarrow> xexec env js x)
      | Cmp c a b l \<Rightarrow>
          (case Option.bind (rd env MOV a x) (\<lambda>u. Option.bind (rd env MOV b x) (holds c u)) of
             None \<Rightarrow> None
           | Some True \<Rightarrow> (case xafter l is of None \<Rightarrow> None | Some js \<Rightarrow> xexec env js x)
           | Some False \<Rightarrow> xexec env is x)
      | Icall c \<Rightarrow> (case do_call env c x of None \<Rightarrow> None | Some (Inl e) \<Rightarrow> Some (Inl e) | Some (Inr x') \<Rightarrow> xexec env is x')
      | _ \<Rightarrow> (case xstep env i x of None \<Rightarrow> None | Some x' \<Rightarrow> xexec env is x'))"

declare xexec.simps [simp del]

definition xgoto :: "'w xenv \<Rightarrow> xlabel \<Rightarrow> xins list \<Rightarrow> 'w xmachine \<Rightarrow> (pg_error + Datum \<times> 'w xmachine) option" where
  "xgoto env l is x = (case xafter l is of None \<Rightarrow> None | Some js \<Rightarrow> xexec env js x)"

lemma xexec_ins:
  "xexec env (Op1 w dst src # is) x = (case Option.bind (rd env w src x) (\<lambda>v. wr w dst v x) of None \<Rightarrow> None | Some x' \<Rightarrow> xexec env is x')"
  "xexec env (Op2 f r a b # is) x = (case rd_alu env f a b x of None \<Rightarrow> None | Some v \<Rightarrow> xexec env is (set_reg r v x))"
  "xexec env (Test_zero r # is) x = (case xr x r of Some (XN d) \<Rightarrow> xexec env is (x\<lparr>xz := Some (d = 0)\<rparr>) | _ \<Rightarrow> None)"
  "xexec env (And_zero r k # is) x = (case xr x r of Some (XN d) \<Rightarrow> xexec env is (x\<lparr>xz := Some (d AND k = 0)\<rparr>) | _ \<Rightarrow> None)"
  "xexec env (Jump_zero l # is) x = (case xz x of None \<Rightarrow> None | Some t \<Rightarrow> if t then xgoto env l is x else xexec env is x)"
  "xexec env (Flag_equal r # is) x = (case xz x of None \<Rightarrow> None | Some b \<Rightarrow> xexec env is (set_reg r (byte_of b) x))"
  "xexec env (Label l # is) x = xexec env is x"
  "xexec env (Jump l # is) x = xgoto env l is x"
  "xexec env (Return a # is) x = (case rd env MOV a x of Some (XN d) \<Rightarrow> Some (Inr (d, x)) | _ \<Rightarrow> None)"
  "xexec env (Cmp c a b l # is) x =
     (case Option.bind (rd env MOV a x) (\<lambda>u. Option.bind (rd env MOV b x) (holds c u)) of
        None \<Rightarrow> None | Some t \<Rightarrow> if t then xgoto env l is x else xexec env is x)"
  "xexec env (Icall fn # is) x = (case do_call env fn x of None \<Rightarrow> None | Some (Inl e) \<Rightarrow> Some (Inl e) | Some (Inr x') \<Rightarrow> xexec env is x')"
  by (auto simp: xexec.simps xstep_def xgoto_def split: option.splits xval.splits bool.splits)

end
