(* ===== verification/ExprEmit.thy ===== *)
theory ExprEmit
  imports ExprMachine
begin

text \<open>
  What \<open>sljit_compile_expr\<close> (\<open>pg_jitter_sljit.c\<close>) emits for the steps of an expression: the prologue, the helpers that
  load and store results, and one definition per group of opcodes, with the batches of VAR and ASSIGN steps. \<open>None\<close> is an
  opcode or a variant whose code is not modelled: inlined functions, constant patterns and keys, hash steps, the deforming code, aggregate
  transitions, arrays.
\<close>

section \<open>Configuration\<close>

text \<open>\<open>direct_fn\<close> is \<open>jit_find_direct_fn\<close>; \<open>text_pattern\<close> says that a step calls a LIKE or regular expression function
  on a constant pattern, \<open>jsonb_field_text\<close> that it calls \<open>jsonb_object_field_text\<close> with a constant key; \<open>deform_ok\<close> that a fetch may be replaced by compiled deforming; \<open>is_jsonb_in\<close> that a frame
  belongs to the input function of jsonb; \<open>flinfo_fn_addr\<close> is \<open>fcinfo->flinfo->fn_addr\<close>.\<close>

record direct_info =
  dfn_inline :: bool
  dfn_has_fn :: bool
  dfn_nargs :: nat
  dfn_collation :: bool

record emit_cfg =
  shared_code_mode :: bool
  inline_enabled :: bool
  sreg_steps :: "nat option"
  sreg_slot :: "slot_kind \<Rightarrow> (nat \<times> nat) option"
  nsaved :: nat
  direct_fn :: "fn_addr \<Rightarrow> direct_info option"
  text_pattern :: "nat \<Rightarrow> bool"
  jsonb_field_text :: "nat \<Rightarrow> bool"
  deform_ok :: "nat \<Rightarrow> bool"
  is_jsonb_in :: "nat \<Rightarrow> bool"
  flinfo_fn_addr :: "nat \<Rightarrow> fn_addr"

definition SOFF_STEPS :: nat where "SOFF_STEPS = 144"
definition SOFF_RESULTSLOT :: nat where "SOFF_RESULTSLOT = 16"

fun slot_cache_offset :: "slot_kind \<Rightarrow> nat" where
  "slot_cache_offset Inner = 64" | "slot_cache_offset Outer = 80" | "slot_cache_offset Scan = 96"
| "slot_cache_offset Old = 112" | "slot_cache_offset New = 128"

lemmas soff_defs = SOFF_STEPS_def SOFF_RESULTSLOT_def

abbreviation "SREG_RESULTVALS \<equiv> S 3"
abbreviation "SREG_RESULTNULLS \<equiv> S 4"

section \<open>Saved registers\<close>

fun slot_of :: "ExprEvalOp \<Rightarrow> slot_kind option" where
  "slot_of (EEOP_FETCHSOME k _) = Some k" | "slot_of (EEOP_VAR k _) = Some k" | "slot_of (EEOP_ASSIGN_VAR k _ _) = Some k"
| "slot_of _ = None"

fun is_agg_trans :: "ExprEvalOp \<Rightarrow> bool" where
  "is_agg_trans (EEOP_AGG_PLAIN_TRANS_BYVAL _ _ _ _ _ _) = True" | "is_agg_trans (EEOP_AGG_PLAIN_TRANS_BYREF _ _ _ _ _ _) = True"
| "is_agg_trans _ = False"

fun is_hash_next :: "ExprEvalOp \<Rightarrow> bool" where
  "is_hash_next (EEOP_HASHDATUM_NEXT32 _ _ _) = True" | "is_hash_next (EEOP_HASHDATUM_NEXT32_STRICT _ _ _ _) = True" | "is_hash_next _ = False"

text \<open>\<open>nregs\<close> is \<open>SLJIT_NUMBER_OF_SAVED_REGISTERS\<close>. The base is six registers, a seventh holds a hash beside an
  aggregate; then the steps, then pairs for the slots in their order.\<close>

definition base_saved :: "nat \<Rightarrow> ExprEvalStep list \<Rightarrow> nat" where
  "base_saved nregs steps =
     (if list_ex (is_hash_next \<circ> opcode) steps \<and> list_ex (is_agg_trans \<circ> opcode) steps \<and> 7 \<le> nregs then 7 else 6)"

definition steps_reg :: "nat \<Rightarrow> ExprEvalStep list \<Rightarrow> nat option" where
  "steps_reg nregs steps = (if 7 \<le> nregs \<and> 10 \<le> length steps \<and> base_saved nregs steps < nregs then Some (base_saved nregs steps) else None)"

primrec slot_regs :: "nat \<Rightarrow> ExprEvalStep list \<Rightarrow> slot_kind list \<Rightarrow> nat \<Rightarrow> (slot_kind \<Rightarrow> (nat \<times> nat) option) \<times> nat" where
  "slot_regs nregs steps [] n = (\<lambda>_. None, n)"
| "slot_regs nregs steps (k # ks) n =
     (if 8 \<le> nregs \<and> list_ex (\<lambda>s. slot_of (opcode s) = Some k) steps \<and> n + 2 \<le> nregs
      then let (r, n') = slot_regs nregs steps ks (n + 2) in (r(k := Some (n, n + 1)), n')
      else slot_regs nregs steps ks n)"

definition alloc_registers :: "nat \<Rightarrow> ExprEvalStep list \<Rightarrow> emit_cfg \<Rightarrow> emit_cfg" where
  "alloc_registers nregs steps cfg =
     (let sr = steps_reg nregs steps; n = base_saved nregs steps + (if sr = None then 0 else 1);
          (slots, n') = slot_regs nregs steps [Inner, Outer, Scan, Old, New] n in
      cfg\<lparr>sreg_steps := sr, sreg_slot := slots, nsaved := n'\<rparr>)"

section \<open>Loading and storing results\<close>

definition emit_load_econtext_slot :: "xreg \<Rightarrow> slot_kind \<Rightarrow> xins list" where
  "emit_load_econtext_slot dst k = [Op1 MOV (Reg dst) (Mem (S 1) (F_slot k))]"

definition emit_load_step_field :: "emit_cfg \<Rightarrow> nat \<Rightarrow> step_field \<Rightarrow> xreg \<Rightarrow> xins list" where
  "emit_load_step_field cfg opno field dst =
     (case sreg_steps cfg of Some r \<Rightarrow> [Op1 MOV (Reg dst) (Mem (S r) (F_step opno field))]
      | None \<Rightarrow> [Op1 MOV (Reg dst) (Sp SOFF_STEPS), Op1 MOV (Reg dst) (Mem dst (F_step opno field))])"

definition emit_load_step_addr :: "emit_cfg \<Rightarrow> nat \<Rightarrow> xreg \<Rightarrow> xins list" where
  "emit_load_step_addr cfg opno dst =
     (case sreg_steps cfg of
        Some r \<Rightarrow> if opno \<noteq> 0 then [Op2 ALU_ADD dst (Reg (S r)) (Step_off opno)] else [Op1 MOV (Reg dst) (Reg (S r))]
      | None \<Rightarrow> [Op1 MOV (Reg dst) (Sp SOFF_STEPS)] @ (if opno \<noteq> 0 then [Op2 ALU_ADD dst (Reg dst) (Step_off opno)] else []))"

definition RESNULL_IS_PAIRED :: "ExprEvalStep \<Rightarrow> bool" where
  "RESNULL_IS_PAIRED op \<longleftrightarrow> resnull op = resvalue op \<and> resvalue op \<noteq> Result"

definition emit_store_resvalue :: "emit_cfg \<Rightarrow> nat \<Rightarrow> ExprEvalStep \<Rightarrow> operand \<Rightarrow> xins list" where
  "emit_store_resvalue cfg opno op src =
     (if resvalue op = Result then [Op1 MOV (Mem (S 0) F_resvalue) src]
      else emit_load_step_field cfg opno SF_resvalue (R 1) @ [Op1 MOV (Mem (R 1) F_zero) src])"

definition emit_store_resnull :: "emit_cfg \<Rightarrow> nat \<Rightarrow> ExprEvalStep \<Rightarrow> operand \<Rightarrow> xins list" where
  "emit_store_resnull cfg opno op src =
     (if resnull op = Result then [Op1 MOV_U8 (Mem (S 0) F_resnull) src]
      else emit_load_step_field cfg opno SF_resnull (R 1) @ [Op1 MOV_U8 (Mem (R 1) F_zero) src])"

definition emit_store_res_pair :: "emit_cfg \<Rightarrow> nat \<Rightarrow> ExprEvalStep \<Rightarrow> operand \<Rightarrow> Datum \<Rightarrow> xins list" where
  "emit_store_res_pair cfg opno op src isnull =
     (if resvalue op = Result then [Op1 MOV (Mem (S 0) F_resvalue) src, Op1 MOV_U8 (Mem (S 0) F_resnull) (Imm isnull)]
      else if RESNULL_IS_PAIRED op then
        emit_load_step_field cfg opno SF_resvalue (R 1) @ [Op1 MOV (Mem (R 1) F_zero) src, Op1 MOV_U8 (Mem (R 1) F_paired) (Imm isnull)]
      else emit_store_resvalue cfg opno op src @ emit_store_resnull cfg opno op (Imm isnull))"

definition emit_load_resvalue :: "emit_cfg \<Rightarrow> nat \<Rightarrow> ExprEvalStep \<Rightarrow> xreg \<Rightarrow> xins list" where
  "emit_load_resvalue cfg opno op dst =
     (if resvalue op = Result then [Op1 MOV (Reg dst) (Mem (S 0) F_resvalue)]
      else emit_load_step_field cfg opno SF_resvalue dst @ [Op1 MOV (Reg dst) (Mem dst F_zero)])"

definition emit_load_resnull :: "emit_cfg \<Rightarrow> nat \<Rightarrow> ExprEvalStep \<Rightarrow> xreg \<Rightarrow> xins list" where
  "emit_load_resnull cfg opno op dst =
     (if resnull op = Result then [Op1 MOV_U8 (Reg dst) (Mem (S 0) F_resnull)]
      else emit_load_step_field cfg opno SF_resnull dst @ [Op1 MOV_U8 (Reg dst) (Mem dst F_zero)])"

definition emit_load_resvalue_addr :: "emit_cfg \<Rightarrow> nat \<Rightarrow> ExprEvalStep \<Rightarrow> xreg \<Rightarrow> xins list" where
  "emit_load_resvalue_addr cfg opno op dst =
     (if resvalue op = Result then [Op2 ALU_ADD dst (Reg (S 0)) (Off F_resvalue)]
      else emit_load_step_field cfg opno SF_resvalue dst)"

text \<open>The arguments of \<open>ExecEval...(state, op, econtext)\<close>.\<close>

definition emit_eval_args :: "emit_cfg \<Rightarrow> nat \<Rightarrow> xins list" where
  "emit_eval_args cfg opno = [Op1 MOV (Reg (R 0)) (Reg (S 0))] @ emit_load_step_addr cfg opno (R 1) @ [Op1 MOV (Reg (R 2)) (Reg (S 1))]"

abbreviation jump_nonzero :: "xlabel \<Rightarrow> xins" where "jump_nonzero l \<equiv> Cmp C_NOT_EQUAL (Reg (R 0)) (Imm 0) l"
abbreviation jump_zero :: "xlabel \<Rightarrow> xins" where "jump_zero l \<equiv> Cmp C_EQUAL (Reg (R 0)) (Imm 0) l"

section \<open>Slots and the results of a tuple\<close>

definition emit_fetchsome :: "emit_cfg \<Rightarrow> nat \<Rightarrow> slot_kind \<Rightarrow> int16 \<Rightarrow> xins list option" where
  "emit_fetchsome cfg opno k last_var =
     (if deform_ok cfg opno then None
      else Some (
        emit_load_econtext_slot (R 0) k @
        [Op1 MOV_S16 (Reg (R 1)) (Mem (R 0) F_nvalid),
         Cmp C_SIG_GREATER_EQUAL (Reg (R 1)) (Imm (scast last_var)) (L_local opno 0)] @
        emit_load_econtext_slot (R 0) k @
        [Op1 MOV (Reg (R 1)) (Imm (scast last_var)),
         Icall (if shared_code_mode cfg then C_deform_dispatch else C_getsomeattrs),
         Label (L_local opno 0)] @
        emit_load_econtext_slot (R 0) k @
        (case sreg_slot cfg k of
           Some (rv, rn) \<Rightarrow> [Op1 MOV (Reg (S rv)) (Mem (R 0) F_tts_values), Op1 MOV (Reg (S rn)) (Mem (R 0) F_tts_isnull)]
         | None \<Rightarrow> [Op1 MOV (Reg (R 1)) (Mem (R 0) F_tts_values), Op1 MOV (Sp (slot_cache_offset k)) (Reg (R 1)),
                    Op1 MOV (Reg (R 1)) (Mem (R 0) F_tts_isnull), Op1 MOV (Sp (slot_cache_offset k + 8)) (Reg (R 1))])))"

text \<open>The register that holds the values or the null flags of a slot, and the code that loads it.\<close>

definition emit_slot_vals :: "emit_cfg \<Rightarrow> (slot_kind \<Rightarrow> bool) \<Rightarrow> slot_kind \<Rightarrow> xins list \<times> xreg" where
  "emit_slot_vals cfg cached k =
     (if cached k then
        (case sreg_slot cfg k of Some (rv, _) \<Rightarrow> ([], S rv)
         | None \<Rightarrow> ([Op1 MOV (Reg (R 0)) (Sp (slot_cache_offset k))], R 0))
      else (emit_load_econtext_slot (R 0) k @ [Op1 MOV (Reg (R 0)) (Mem (R 0) F_tts_values)], R 0))"

definition emit_slot_nulls :: "emit_cfg \<Rightarrow> (slot_kind \<Rightarrow> bool) \<Rightarrow> slot_kind \<Rightarrow> xins list \<times> xreg" where
  "emit_slot_nulls cfg cached k =
     (if cached k then
        (case sreg_slot cfg k of Some (_, rn) \<Rightarrow> ([], S rn)
         | None \<Rightarrow> ([Op1 MOV (Reg (R 0)) (Sp (slot_cache_offset k + 8))], R 0))
      else (emit_load_econtext_slot (R 0) k @ [Op1 MOV (Reg (R 0)) (Mem (R 0) F_tts_isnull)], R 0))"

definition emit_var_single :: "emit_cfg \<Rightarrow> (slot_kind \<Rightarrow> bool) \<Rightarrow> nat \<Rightarrow> slot_kind \<Rightarrow> nat \<Rightarrow> xins list" where
  "emit_var_single cfg cached opno k attnum =
     (let (vcode, vbase) = emit_slot_vals cfg cached k; (ncode, nbase) = emit_slot_nulls cfg cached k in
      vcode @ [Op1 MOV (Reg (R 2)) (Mem vbase (F_datum attnum))] @
      emit_load_step_field cfg opno SF_resvalue (R 1) @ [Op1 MOV (Mem (R 1) F_zero) (Reg (R 2))] @
      ncode @ [Op1 MOV_U8 (Reg (R 2)) (Mem nbase (F_bool attnum)), Op1 MOV_U8 (Mem (R 1) F_paired) (Reg (R 2))])"

text \<open>A batch is a list of steps, each with its number and attribute.\<close>

definition emit_var_batch :: "emit_cfg \<Rightarrow> (slot_kind \<Rightarrow> bool) \<Rightarrow> slot_kind \<Rightarrow> (nat \<times> ExprEvalStep \<times> nat) list \<Rightarrow> xins list" where
  "emit_var_batch cfg cached k batch =
     (let (vcode, vbase) = emit_slot_vals cfg cached k; (ncode, nbase) = emit_slot_nulls cfg cached k in
      vcode @ concat (map (\<lambda>(i, op, attnum).
        Op1 MOV (Reg (R 2)) (Mem vbase (F_datum attnum)) # emit_store_resvalue cfg i op (Reg (R 2))) batch) @
      ncode @ concat (map (\<lambda>(i, op, attnum).
        Op1 MOV_U8 (Reg (R 2)) (Mem nbase (F_bool attnum)) # emit_store_resnull cfg i op (Reg (R 2))) batch))"

definition emit_var :: "emit_cfg \<Rightarrow> (slot_kind \<Rightarrow> bool) \<Rightarrow> slot_kind \<Rightarrow> (nat \<times> ExprEvalStep \<times> nat) list \<Rightarrow> xins list" where
  "emit_var cfg cached k batch =
     (case batch of [(i, op, attnum)] \<Rightarrow>
        if RESNULL_IS_PAIRED op \<and> resvalue op \<noteq> Result then emit_var_single cfg cached i k attnum else emit_var_batch cfg cached k batch
      | _ \<Rightarrow> emit_var_batch cfg cached k batch)"

text \<open>Assignments of 32 or more consecutive attributes to consecutive results become a loop, which is not modelled.\<close>

definition emit_assign_var :: "emit_cfg \<Rightarrow> (slot_kind \<Rightarrow> bool) \<Rightarrow> slot_kind \<Rightarrow> (nat \<times> nat) list \<Rightarrow> xins list option" where
  "emit_assign_var cfg cached k batch =
     (let (vcode, vbase) = emit_slot_vals cfg cached k; (ncode, nbase) = emit_slot_nulls cfg cached k in
      if 32 \<le> length batch \<and> (\<forall>i < length batch. batch ! i = (fst (hd batch) + i, snd (hd batch) + i)) then None
      else Some (
        vcode @ concat (map (\<lambda>(attnum, resultnum).
          [Op1 MOV (Reg (R 2)) (Mem vbase (F_datum attnum)), Op1 MOV (Mem SREG_RESULTVALS (F_datum resultnum)) (Reg (R 2))]) batch) @
        ncode @ concat (map (\<lambda>(attnum, resultnum).
          [Op1 MOV_U8 (Reg (R 2)) (Mem nbase (F_bool attnum)), Op1 MOV_U8 (Mem SREG_RESULTNULLS (F_bool resultnum)) (Reg (R 2))]) batch)))"

definition emit_assign_tmp :: "nat \<Rightarrow> bool \<Rightarrow> nat \<Rightarrow> xins list" where
  "emit_assign_tmp opno make_ro resultnum =
     [Op1 MOV (Reg (R 0)) (Mem (S 0) F_resvalue), Op1 MOV_U8 (Reg (R 1)) (Mem (S 0) F_resnull)] @
     (if make_ro then
        [Cmp C_NOT_EQUAL (Reg (R 1)) (Imm 0) (L_local opno 0), Icall C_make_readonly, Op1 MOV (Reg (R 1)) (Imm 0), Label (L_local opno 0)]
      else []) @
     [Op1 MOV_U8 (Mem SREG_RESULTNULLS (F_bool resultnum)) (Reg (R 1)),
      Op1 MOV (Mem SREG_RESULTVALS (F_datum resultnum)) (Reg (R 0))]"

definition emit_const :: "emit_cfg \<Rightarrow> nat \<Rightarrow> ExprEvalStep \<Rightarrow> Datum \<Rightarrow> bool \<Rightarrow> xins list" where
  "emit_const cfg opno op value isnull =
     (if shared_code_mode cfg then emit_load_step_field cfg opno SF_constval (R 0) else [Op1 MOV (Reg (R 0)) (Imm value)]) @
     emit_store_resvalue cfg opno op (Reg (R 0)) @ emit_store_resnull cfg opno op (Imm (if isnull then 1 else 0))"

section \<open>Function calls\<close>

text \<open>Up to four null flags are tested at once; \<open>field\<close> is the flag of an argument, relative to the pointer in \<open>R1\<close>.\<close>

definition emit_null_checks :: "(nat \<Rightarrow> xfield) \<Rightarrow> nat \<Rightarrow> xlabel \<Rightarrow> xins list" where
  "emit_null_checks field nargs l =
     (if nargs \<le> 4 \<and> 1 < nargs then
        Op1 MOV_U8 (Reg (R 0)) (Mem (R 1) (field 0)) #
        concat (map (\<lambda>i. [Op1 MOV_U8 (Reg (R 2)) (Mem (R 1) (field i)), Op2 ALU_OR (R 0) (Reg (R 0)) (Reg (R 2))]) [1..<nargs]) @
        [jump_nonzero l]
      else concat (map (\<lambda>i. [Op1 MOV_U8 (Reg (R 0)) (Mem (R 1) (field i)), jump_nonzero l]) [0..<nargs]))"

definition emit_direct_call :: "emit_cfg \<Rightarrow> nat \<Rightarrow> ExprEvalStep \<Rightarrow> bool \<Rightarrow> fn_addr \<Rightarrow> direct_info \<Rightarrow> xins list" where
  "emit_direct_call cfg opno op r1_has_fcinfo fn dfn =
     (let native_nargs = dfn_nargs dfn + (if dfn_collation dfn then 1 else 0); base = R native_nargs in
      (if r1_has_fcinfo then [Op1 MOV (Reg base) (Reg (R 1))] else emit_load_step_field cfg opno SF_fcinfo base) @
      map (\<lambda>i. Op1 MOV (Reg (R i)) (Mem base (F_arg_value i))) [0..<dfn_nargs dfn] @
      (if dfn_collation dfn then [Op1 MOV32 (Reg (R (dfn_nargs dfn))) (Mem base F_fncollation)] else []) @
      [Icall (C_direct fn native_nargs)] @
      emit_store_res_pair cfg opno op (Reg (R 0)) 0)"

text \<open>The call of a function whose address is loaded from the step when the code is shared.\<close>

definition emit_call_fn :: "emit_cfg \<Rightarrow> nat \<Rightarrow> fn_addr \<Rightarrow> xins list" where
  "emit_call_fn cfg opno fn =
     (if shared_code_mode cfg then emit_load_step_field cfg opno SF_fn_addr (R 1) @ [Icall (C_v1_reg (R 1))] else [Icall (C_v1 fn)])"

definition emit_v1_call :: "emit_cfg \<Rightarrow> nat \<Rightarrow> ExprEvalStep \<Rightarrow> bool \<Rightarrow> fn_addr \<Rightarrow> xins list" where
  "emit_v1_call cfg opno op r1_has_fcinfo fn =
     (if r1_has_fcinfo then [Op1 MOV (Reg (R 0)) (Reg (R 1))] else emit_load_step_field cfg opno SF_fcinfo (R 0)) @
     [Op1 MOV_U8 (Mem (R 0) F_fc_isnull) (Imm 0)] @
     emit_call_fn cfg opno fn @
     emit_store_resvalue cfg opno op (Reg (R 0)) @
     emit_load_step_field cfg opno SF_fcinfo (R 0) @ [Op1 MOV_U8 (Reg (R 0)) (Mem (R 0) F_fc_isnull)] @
     emit_store_resnull cfg opno op (Reg (R 0))"

definition emit_funcexpr :: "emit_cfg \<Rightarrow> nat \<Rightarrow> ExprEvalStep \<Rightarrow> strictness \<Rightarrow> fn_addr \<Rightarrow> nat \<Rightarrow> xins list option" where
  "emit_funcexpr cfg opno op strict fn nargs =
     (let is_strict = (strict \<noteq> NON_STRICT);
          checks = (if is_strict then emit_load_step_field cfg opno SF_fcinfo (R 1) @ emit_null_checks F_arg_isnull nargs (L_local opno 0) else []);
          v1 = (if \<not> shared_code_mode cfg \<and> (text_pattern cfg opno \<or> jsonb_field_text cfg opno) then None else Some (emit_v1_call cfg opno op is_strict fn));
          body = (case direct_fn cfg fn of None \<Rightarrow> v1
            | Some dfn \<Rightarrow> if inline_enabled cfg \<and> dfn_inline dfn then None
                else if dfn_has_fn dfn then Some (emit_direct_call cfg opno op is_strict fn dfn) else v1);
          null_path = (if is_strict then [Jump (L_local opno 1), Label (L_local opno 0)] @ emit_store_resnull cfg opno op (Imm 1) @ [Label (L_local opno 1)]
            else []) in
      map_option (\<lambda>b. checks @ b @ null_path) body)"

section \<open>Logic and jumps\<close>

definition emit_bool_step :: "emit_cfg \<Rightarrow> nat \<Rightarrow> ExprEvalStep \<Rightarrow> xcond \<Rightarrow> step_position \<Rightarrow> nat \<Rightarrow> xins list" where
  "emit_bool_step cfg opno op short_circuit pos jumpdone =
     (if pos = First_step then emit_load_step_field cfg opno SF_anynull (R 0) @ [Op1 MOV_U8 (Mem (R 0) F_zero) (Imm 0)] else []) @
     emit_load_resnull cfg opno op (R 0) @ [jump_nonzero (L_local opno 0)] @
     emit_load_resvalue cfg opno op (R 0) @ [Cmp short_circuit (Reg (R 0)) (Imm 0) (L_step jumpdone)] @
     [Jump (L_local opno 1), Label (L_local opno 0)] @
     emit_load_step_field cfg opno SF_anynull (R 0) @ [Op1 MOV_U8 (Mem (R 0) F_zero) (Imm 1), Label (L_local opno 1)] @
     (if pos = Last_step then
        emit_load_step_field cfg opno SF_anynull (R 0) @ [Op1 MOV_U8 (Reg (R 0)) (Mem (R 0) F_zero), jump_zero (L_local opno 2)] @
        emit_store_resnull cfg opno op (Imm 1) @ emit_store_resvalue cfg opno op (Imm 0) @ [Label (L_local opno 2)]
      else [])"

definition emit_bool_and_step :: "emit_cfg \<Rightarrow> nat \<Rightarrow> ExprEvalStep \<Rightarrow> step_position \<Rightarrow> nat \<Rightarrow> xins list" where
  "emit_bool_and_step cfg opno op pos jumpdone = emit_bool_step cfg opno op C_EQUAL pos jumpdone"

definition emit_bool_or_step :: "emit_cfg \<Rightarrow> nat \<Rightarrow> ExprEvalStep \<Rightarrow> step_position \<Rightarrow> nat \<Rightarrow> xins list" where
  "emit_bool_or_step cfg opno op pos jumpdone = emit_bool_step cfg opno op C_NOT_EQUAL pos jumpdone"

text \<open>The value is tested against zero and replaced by the flag.\<close>

definition emit_not :: "emit_cfg \<Rightarrow> nat \<Rightarrow> ExprEvalStep \<Rightarrow> xins list" where
  "emit_not cfg opno op = emit_load_resvalue cfg opno op (R 0) @ [Test_zero (R 0), Flag_equal (R 0)] @ emit_store_resvalue cfg opno op (Reg (R 0))"

definition emit_qual :: "emit_cfg \<Rightarrow> nat \<Rightarrow> ExprEvalStep \<Rightarrow> nat \<Rightarrow> xins list" where
  "emit_qual cfg opno op jumpdone =
     emit_load_resnull cfg opno op (R 0) @ [jump_nonzero (L_local opno 0)] @
     emit_load_resvalue cfg opno op (R 0) @ [jump_nonzero (L_local opno 1), Label (L_local opno 0)] @
     emit_store_resnull cfg opno op (Imm 0) @ emit_store_resvalue cfg opno op (Imm 0) @
     [Jump (L_step jumpdone), Label (L_local opno 1)]"

definition emit_jump_if_null :: "emit_cfg \<Rightarrow> nat \<Rightarrow> ExprEvalStep \<Rightarrow> nat \<Rightarrow> xins list" where
  "emit_jump_if_null cfg opno op jumpdone = emit_load_resnull cfg opno op (R 0) @ [jump_nonzero (L_step jumpdone)]"

definition emit_jump_if_not_null :: "emit_cfg \<Rightarrow> nat \<Rightarrow> ExprEvalStep \<Rightarrow> nat \<Rightarrow> xins list" where
  "emit_jump_if_not_null cfg opno op jumpdone = emit_load_resnull cfg opno op (R 0) @ [jump_zero (L_step jumpdone)]"

definition emit_jump_if_not_true :: "emit_cfg \<Rightarrow> nat \<Rightarrow> ExprEvalStep \<Rightarrow> nat \<Rightarrow> xins list" where
  "emit_jump_if_not_true cfg opno op jumpdone =
     emit_load_resnull cfg opno op (R 0) @ [jump_nonzero (L_step jumpdone)] @
     emit_load_resvalue cfg opno op (R 0) @ [jump_zero (L_step jumpdone)]"

definition emit_nulltest :: "emit_cfg \<Rightarrow> nat \<Rightarrow> ExprEvalStep \<Rightarrow> bool \<Rightarrow> xins list" where
  "emit_nulltest cfg opno op isnull =
     emit_load_resnull cfg opno op (R 0) @ (if isnull then [] else [Op2 ALU_XOR (R 0) (Reg (R 0)) (Imm 1)]) @
     emit_store_res_pair cfg opno op (Reg (R 0)) 0"

fun emit_booltest :: "emit_cfg \<Rightarrow> nat \<Rightarrow> ExprEvalStep \<Rightarrow> bool_test \<Rightarrow> xins list" where
  "emit_booltest cfg opno op IS_TRUE =
     emit_load_resnull cfg opno op (R 0) @ [jump_zero (L_local opno 0)] @ emit_store_res_pair cfg opno op (Imm 0) 0 @ [Label (L_local opno 0)]"
| "emit_booltest cfg opno op IS_NOT_TRUE =
     emit_load_resnull cfg opno op (R 0) @ [jump_zero (L_local opno 0)] @ emit_store_res_pair cfg opno op (Imm 1) 0 @
     [Jump (L_local opno 1), Label (L_local opno 0)] @ emit_not cfg opno op @ [Label (L_local opno 1)]"
| "emit_booltest cfg opno op IS_FALSE =
     emit_load_resnull cfg opno op (R 0) @ [jump_zero (L_local opno 0)] @ emit_store_res_pair cfg opno op (Imm 0) 0 @
     [Jump (L_local opno 1), Label (L_local opno 0)] @ emit_not cfg opno op @ [Label (L_local opno 1)]"
| "emit_booltest cfg opno op IS_NOT_FALSE =
     emit_load_resnull cfg opno op (R 0) @ [jump_zero (L_local opno 0)] @ emit_store_res_pair cfg opno op (Imm 1) 0 @ [Label (L_local opno 0)]"

text \<open>The load of 32 bits covers \<open>state->flags\<close> and the three bytes that follow it.\<close>

definition emit_returningexpr :: "emit_cfg \<Rightarrow> nat \<Rightarrow> ExprEvalStep \<Rightarrow> uint8 \<Rightarrow> nat \<Rightarrow> xins list" where
  "emit_returningexpr cfg opno op nullflag jumpdone =
     [Op1 MOV_S32 (Reg (R 0)) (Mem (S 0) F_flags), And_zero (R 0) (ucast nullflag), Jump_zero (L_local opno 0)] @
     emit_store_resvalue cfg opno op (Imm 0) @ emit_store_resnull cfg opno op (Imm 1) @
     [Jump (L_step jumpdone), Label (L_local opno 0)]"

section \<open>Copies\<close>

definition emit_copy :: "emit_cfg \<Rightarrow> nat \<Rightarrow> ExprEvalStep \<Rightarrow> operand \<Rightarrow> operand \<Rightarrow> xins list" where
  "emit_copy cfg opno op value isnull =
     [Op1 MOV (Reg (R 0)) value] @ emit_store_resvalue cfg opno op (Reg (R 0)) @
     [Op1 MOV_U8 (Reg (R 0)) isnull] @ emit_store_resnull cfg opno op (Reg (R 0))"

definition emit_copy_from_step :: "emit_cfg \<Rightarrow> nat \<Rightarrow> ExprEvalStep \<Rightarrow> xins list" where
  "emit_copy_from_step cfg opno op =
     emit_load_step_field cfg opno SF_testval (R 0) @ [Op1 MOV (Reg (R 0)) (Mem (R 0) F_zero)] @ emit_store_resvalue cfg opno op (Reg (R 0)) @
     emit_load_step_field cfg opno SF_testnull (R 0) @ [Op1 MOV_U8 (Reg (R 0)) (Mem (R 0) F_zero)] @ emit_store_resnull cfg opno op (Reg (R 0))"

definition emit_case_testval_ext :: "emit_cfg \<Rightarrow> nat \<Rightarrow> ExprEvalStep \<Rightarrow> xins list" where
  "emit_case_testval_ext cfg opno op = emit_copy cfg opno op (Mem (S 1) F_case_datum) (Mem (S 1) F_case_isnull)"

definition emit_case_testval :: "emit_cfg \<Rightarrow> nat \<Rightarrow> ExprEvalStep \<Rightarrow> loc option \<Rightarrow> xins list" where
  "emit_case_testval cfg opno op value =
     (if value \<noteq> None then emit_copy_from_step cfg opno op else emit_copy cfg opno op (Mem (S 1) F_case_datum) (Mem (S 1) F_case_isnull))"

definition emit_domain_testval_ext :: "emit_cfg \<Rightarrow> nat \<Rightarrow> ExprEvalStep \<Rightarrow> xins list" where
  "emit_domain_testval_ext cfg opno op = emit_copy cfg opno op (Mem (S 1) F_domain_datum) (Mem (S 1) F_domain_isnull)"

definition emit_domain_testval :: "emit_cfg \<Rightarrow> nat \<Rightarrow> ExprEvalStep \<Rightarrow> loc option \<Rightarrow> xins list" where
  "emit_domain_testval cfg opno op value =
     (if value \<noteq> None then emit_copy_from_step cfg opno op else emit_copy cfg opno op (Mem (S 1) F_domain_datum) (Mem (S 1) F_domain_isnull))"

definition emit_aggref :: "emit_cfg \<Rightarrow> nat \<Rightarrow> ExprEvalStep \<Rightarrow> nat \<Rightarrow> xins list" where
  "emit_aggref cfg opno op aggno =
     [Op1 MOV (Reg (R 0)) (Mem (S 1) F_aggvalues), Op1 MOV (Reg (R 0)) (Mem (R 0) (F_datum aggno))] @ emit_store_resvalue cfg opno op (Reg (R 0)) @
     [Op1 MOV (Reg (R 0)) (Mem (S 1) F_aggnulls), Op1 MOV_U8 (Reg (R 0)) (Mem (R 0) (F_bool aggno))] @ emit_store_resnull cfg opno op (Reg (R 0))"

definition emit_make_readonly :: "emit_cfg \<Rightarrow> nat \<Rightarrow> ExprEvalStep \<Rightarrow> xins list" where
  "emit_make_readonly cfg opno op =
     emit_load_step_field cfg opno SF_ro_isnull (R 1) @ [Op1 MOV_U8 (Reg (R 0)) (Mem (R 1) F_zero)] @
     emit_store_resnull cfg opno op (Reg (R 0)) @ [jump_nonzero (L_local opno 0)] @
     emit_load_step_field cfg opno SF_ro_value (R 0) @ [Op1 MOV (Reg (R 0)) (Mem (R 0) F_zero), Icall C_make_readonly] @
     emit_store_resvalue cfg opno op (Reg (R 0)) @ [Label (L_local opno 0)]"

section \<open>Comparisons\<close>

definition emit_distinct :: "emit_cfg \<Rightarrow> nat \<Rightarrow> ExprEvalStep \<Rightarrow> bool \<Rightarrow> fn_addr \<Rightarrow> xins list" where
  "emit_distinct cfg opno op is_distinct fn =
     emit_load_step_field cfg opno SF_fcinfo (R 2) @
     [Op1 MOV_U8 (Reg (R 0)) (Mem (R 2) (F_arg_isnull 0)), Op1 MOV_U8 (Reg (R 1)) (Mem (R 2) (F_arg_isnull 1)),
      Cmp C_NOT_EQUAL (Reg (R 0)) (Reg (R 1)) (L_local opno 0), jump_nonzero (L_local opno 1),
      Op1 MOV_U8 (Mem (R 2) F_fc_isnull) (Imm 0), Op1 MOV (Reg (R 0)) (Reg (R 2))] @
     emit_call_fn cfg opno fn @
     (if is_distinct then [Test_zero (R 0), Flag_equal (R 0)] else []) @
     emit_store_res_pair cfg opno op (Reg (R 0)) 0 @ [Jump (L_local opno 2), Label (L_local opno 0)] @
     emit_store_res_pair cfg opno op (Imm (if is_distinct then 1 else 0)) 0 @ [Jump (L_local opno 2), Label (L_local opno 1)] @
     emit_store_res_pair cfg opno op (Imm (if is_distinct then 0 else 1)) 0 @ [Label (L_local opno 2)]"

definition emit_nullif :: "emit_cfg \<Rightarrow> nat \<Rightarrow> ExprEvalStep \<Rightarrow> fn_addr \<Rightarrow> xins list" where
  "emit_nullif cfg opno op fn =
     emit_load_step_field cfg opno SF_fcinfo (R 2) @
     [Op1 MOV_U8 (Reg (R 0)) (Mem (R 2) (F_arg_isnull 0)), jump_nonzero (L_local opno 0),
      Op1 MOV_U8 (Reg (R 0)) (Mem (R 2) (F_arg_isnull 1)), jump_nonzero (L_local opno 1),
      Op1 MOV_U8 (Mem (R 2) F_fc_isnull) (Imm 0), Op1 MOV (Reg (R 0)) (Reg (R 2))] @
     emit_call_fn cfg opno fn @
     emit_load_step_field cfg opno SF_fcinfo (R 2) @
     [Op1 MOV_U8 (Reg (R 1)) (Mem (R 2) F_fc_isnull), Cmp C_NOT_EQUAL (Reg (R 1)) (Imm 0) (L_local opno 2), jump_zero (L_local opno 3)] @
     emit_store_resnull cfg opno op (Imm 1) @ [Jump (L_local opno 4), Label (L_local opno 3), Label (L_local opno 2), Label (L_local opno 1)] @
     emit_load_step_field cfg opno SF_fcinfo (R 2) @ [Op1 MOV (Reg (R 0)) (Mem (R 2) (F_arg_value 0))] @
     emit_store_res_pair cfg opno op (Reg (R 0)) 0 @ [Jump (L_local opno 4), Label (L_local opno 0)] @
     emit_store_resnull cfg opno op (Imm 1) @ [Jump (L_local opno 4), Label (L_local opno 4)]"

definition emit_rowcompare_step :: "emit_cfg \<Rightarrow> nat \<Rightarrow> ExprEvalStep \<Rightarrow> fn_addr \<Rightarrow> bool \<Rightarrow> nat \<Rightarrow> nat \<Rightarrow> xins list" where
  "emit_rowcompare_step cfg opno op fn fn_strict jumpnull jumpdone =
     emit_load_step_field cfg opno SF_fcinfo (R 2) @
     (if fn_strict then
        [Op1 MOV_U8 (Reg (R 0)) (Mem (R 2) (F_arg_isnull 0)), Op1 MOV_U8 (Reg (R 1)) (Mem (R 2) (F_arg_isnull 1)),
         Op2 ALU_OR (R 0) (Reg (R 0)) (Reg (R 1)), jump_zero (L_local opno 0)] @
        emit_store_resnull cfg opno op (Imm 1) @ [Jump (L_step jumpnull), Label (L_local opno 0)]
      else []) @
     [Op1 MOV_U8 (Mem (R 2) F_fc_isnull) (Imm 0), Op1 MOV (Reg (R 0)) (Reg (R 2)), Icall (C_v1 fn)] @
     emit_store_resvalue cfg opno op (Reg (R 0)) @
     emit_load_step_field cfg opno SF_fcinfo (R 1) @
     [Op1 MOV_U8 (Reg (R 1)) (Mem (R 1) F_fc_isnull), Cmp C_EQUAL (Reg (R 1)) (Imm 0) (L_local opno 1)] @
     emit_store_resnull cfg opno op (Imm 1) @ [Jump (L_step jumpnull), Label (L_local opno 1)] @
     emit_store_resnull cfg opno op (Imm 0) @ [jump_nonzero (L_step jumpdone)]"

definition cmp_flag :: "CompareType \<Rightarrow> xcond" where
  "cmp_flag t = (case t of COMPARE_LT \<Rightarrow> C_SIG_LESS | COMPARE_LE \<Rightarrow> C_SIG_LESS_EQUAL | COMPARE_GE \<Rightarrow> C_SIG_GREATER_EQUAL
     | COMPARE_GT \<Rightarrow> C_SIG_GREATER | _ \<Rightarrow> C_SIG_LESS)"

definition emit_rowcompare_final :: "emit_cfg \<Rightarrow> nat \<Rightarrow> ExprEvalStep \<Rightarrow> CompareType \<Rightarrow> xins list" where
  "emit_rowcompare_final cfg opno op cmptype =
     emit_load_resvalue_addr cfg opno op (R 1) @
     [Op1 MOV_S32 (Reg (R 0)) (Mem (R 1) F_zero), Op1 MOV (Reg (R 2)) (Imm 0),
      Cmp (cmp_flag cmptype) (Reg (R 0)) (Imm 0) (L_local opno 0), Jump (L_local opno 1), Label (L_local opno 0),
      Op1 MOV (Reg (R 2)) (Imm 1), Label (L_local opno 1), Op1 MOV (Mem (R 1) F_zero) (Reg (R 2))] @
     emit_store_resnull cfg opno op (Imm 0)"

section \<open>Coercions and domains\<close>

definition emit_set_arg :: "xins list" where
  "emit_set_arg = [Op1 MOV (Mem (R 1) (F_arg_value 0)) (Reg (R 0)), Op1 MOV_U8 (Mem (R 1) (F_arg_isnull 0)) (Imm 0),
     Op1 MOV_U8 (Mem (R 1) F_fc_isnull) (Imm 0), Op1 MOV (Reg (R 0)) (Reg (R 1))]"

definition emit_iocoerce :: "emit_cfg \<Rightarrow> nat \<Rightarrow> ExprEvalStep \<Rightarrow> fn_addr \<Rightarrow> fn_addr \<Rightarrow> xins list" where
  "emit_iocoerce cfg opno op fn_out fn_in =
     emit_load_resnull cfg opno op (R 0) @ [jump_nonzero (L_local opno 0)] @
     emit_load_resvalue cfg opno op (R 0) @ emit_load_step_field cfg opno SF_fcinfo (R 1) @ emit_set_arg @ [Icall (C_v1 fn_out)] @
     emit_load_step_field cfg opno SF_fcinfo_in (R 1) @ emit_set_arg @ [Icall (C_v1 fn_in)] @
     emit_store_resvalue cfg opno op (Reg (R 0)) @
     emit_load_step_field cfg opno SF_fcinfo_in (R 2) @ [Op1 MOV_U8 (Reg (R 0)) (Mem (R 2) F_fc_isnull)] @
     emit_store_resnull cfg opno op (Reg (R 0)) @ [Label (L_local opno 0)]"

definition emit_eval2 :: "emit_cfg \<Rightarrow> nat \<Rightarrow> PGFunction \<Rightarrow> xins list" where
  "emit_eval2 cfg opno fn = [Op1 MOV (Reg (R 0)) (Reg (S 0))] @ emit_load_step_addr cfg opno (R 1) @ [Icall (C_eval2 fn)]"

definition emit_eval3 :: "emit_cfg \<Rightarrow> nat \<Rightarrow> PGFunction \<Rightarrow> xins list" where
  "emit_eval3 cfg opno fn = emit_eval_args cfg opno @ [Icall (C_eval fn None)]"

text \<open>A null is passed on without a call.\<close>

definition emit_fieldselect :: "emit_cfg \<Rightarrow> nat \<Rightarrow> ExprEvalStep \<Rightarrow> xins list" where
  "emit_fieldselect cfg opno op =
     emit_load_resnull cfg opno op (R 0) @ [jump_nonzero (L_local opno 0)] @ emit_load_resvalue cfg opno op (R 0) @
     emit_eval3 cfg opno ''ExecEvalFieldSelect'' @ [Label (L_local opno 0)]"

definition emit_convert_rowtype :: "emit_cfg \<Rightarrow> nat \<Rightarrow> ExprEvalStep \<Rightarrow> xins list" where
  "emit_convert_rowtype cfg opno op =
     emit_load_resnull cfg opno op (R 0) @ [jump_nonzero (L_local opno 0)] @
     emit_eval3 cfg opno ''ExecEvalConvertRowtype'' @ [Label (L_local opno 0)]"

definition emit_domain_notnull :: "emit_cfg \<Rightarrow> nat \<Rightarrow> ExprEvalStep \<Rightarrow> xins list" where
  "emit_domain_notnull cfg opno op =
     emit_load_resnull cfg opno op (R 0) @ [jump_zero (L_local opno 0)] @
     emit_eval2 cfg opno ''ExecEvalConstraintNotNull'' @ [Label (L_local opno 0)]"

definition emit_domain_check :: "emit_cfg \<Rightarrow> nat \<Rightarrow> xins list" where
  "emit_domain_check cfg opno =
     emit_load_step_field cfg opno SF_checknull (R 0) @ [Op1 MOV_U8 (Reg (R 0)) (Mem (R 0) F_zero), jump_nonzero (L_local opno 0)] @
     emit_load_step_field cfg opno SF_checkvalue (R 0) @ [Op1 MOV (Reg (R 0)) (Mem (R 0) F_zero), jump_nonzero (L_local opno 1)] @
     emit_eval2 cfg opno ''ExecEvalConstraintCheck'' @ [Label (L_local opno 0), Label (L_local opno 1)]"

definition emit_sbsref_subscripts :: "emit_cfg \<Rightarrow> nat \<Rightarrow> PGFunction \<Rightarrow> nat \<Rightarrow> xins list" where
  "emit_sbsref_subscripts cfg opno fn jumpdone =
     emit_eval_args cfg opno @ [Icall (C_eval_bool fn), Op1 MOV_U8 (Reg (R 0)) (Reg (R 0)), jump_zero (L_step jumpdone)]"

section \<open>Aggregates\<close>

definition emit_agg_input_check :: "emit_cfg \<Rightarrow> nat \<Rightarrow> nat \<Rightarrow> nat \<Rightarrow> xins list" where
  "emit_agg_input_check cfg opno nargs jumpnull =
     emit_load_step_field cfg opno SF_check_args (R 1) @ emit_null_checks F_nd_isnull nargs (L_step jumpnull)"

definition emit_agg_input_check_nulls :: "emit_cfg \<Rightarrow> nat \<Rightarrow> nat \<Rightarrow> nat \<Rightarrow> xins list" where
  "emit_agg_input_check_nulls cfg opno nargs jumpnull =
     emit_load_step_field cfg opno SF_check_nulls (R 1) @ emit_null_checks F_bool nargs (L_step jumpnull)"

definition emit_pergroup_nullcheck :: "nat \<Rightarrow> nat \<Rightarrow> xins list" where
  "emit_pergroup_nullcheck setoff jumpnull =
     [Op1 MOV (Reg (R 0)) (Mem (S 0) F_parent), Op1 MOV (Reg (R 0)) (Mem (R 0) F_all_pergroups),
      Op1 MOV (Reg (R 0)) (Mem (R 0) (F_pergroup setoff)), jump_zero (L_step jumpnull)]"

definition emit_presorted :: "emit_cfg \<Rightarrow> nat \<Rightarrow> PGFunction \<Rightarrow> nat \<Rightarrow> xins list" where
  "emit_presorted cfg opno fn jumpdistinct =
     [Op1 MOV (Reg (R 0)) (Mem (S 0) F_parent)] @ emit_load_step_field cfg opno SF_pertrans (R 1) @
     [Icall (C_presorted fn), Op1 MOV_U8 (Reg (R 0)) (Reg (R 0)), jump_zero (L_step jumpdistinct)]"

definition emit_agg_deserialize :: "emit_cfg \<Rightarrow> nat \<Rightarrow> ExprEvalStep \<Rightarrow> nat option \<Rightarrow> fn_addr \<Rightarrow> xins list" where
  "emit_agg_deserialize cfg opno op strict_jump fn =
     (case strict_jump of None \<Rightarrow> []
      | Some jumpnull \<Rightarrow> emit_load_step_field cfg opno SF_fcinfo (R 0) @
          [Op1 MOV_U8 (Reg (R 0)) (Mem (R 0) (F_arg_isnull 0)), jump_nonzero (L_step jumpnull)]) @
     emit_load_step_field cfg opno SF_fcinfo (R 0) @ [Op1 MOV_U8 (Mem (R 0) F_fc_isnull) (Imm 0), Icall (C_v1 fn)] @
     emit_store_resvalue cfg opno op (Reg (R 0)) @
     emit_load_step_field cfg opno SF_fcinfo (R 1) @ [Op1 MOV_U8 (Reg (R 0)) (Mem (R 1) F_fc_isnull)] @
     emit_store_resnull cfg opno op (Reg (R 0))"

section \<open>The dispatch\<close>

fun emit_eval :: "emit_cfg \<Rightarrow> nat \<Rightarrow> ExprEvalStep \<Rightarrow> eval_op \<Rightarrow> xins list option" where
  "emit_eval cfg opno op EEOP_WHOLEROW = Some (emit_eval3 cfg opno ''ExecEvalWholeRowVar'')"
| "emit_eval cfg opno op EEOP_JSON_CONSTRUCTOR = Some (emit_eval3 cfg opno ''ExecEvalJsonConstructor'')"
| "emit_eval cfg opno op EEOP_FUNCEXPR_FUSAGE = Some (emit_eval3 cfg opno ''ExecEvalFuncExprFusage'')"
| "emit_eval cfg opno op EEOP_FUNCEXPR_STRICT_FUSAGE = Some (emit_eval3 cfg opno ''ExecEvalFuncExprStrictFusage'')"
| "emit_eval cfg opno op EEOP_NULLTEST_ROWISNULL = Some (emit_eval3 cfg opno ''ExecEvalRowNull'')"
| "emit_eval cfg opno op EEOP_NULLTEST_ROWISNOTNULL = Some (emit_eval3 cfg opno ''ExecEvalRowNotNull'')"
| "emit_eval cfg opno op EEOP_PARAM_SET = Some (emit_eval3 cfg opno ''ExecEvalParamSet'')"
| "emit_eval cfg opno op EEOP_PARAM_EXTERN = Some (emit_eval3 cfg opno ''ExecEvalParamExtern'')"
| "emit_eval cfg opno op EEOP_ARRAYCOERCE = Some (emit_eval3 cfg opno ''ExecEvalArrayCoerce'')"
| "emit_eval cfg opno op EEOP_FIELDSTORE_DEFORM = Some (emit_eval3 cfg opno ''ExecEvalFieldStoreDeForm'')"
| "emit_eval cfg opno op EEOP_FIELDSTORE_FORM = Some (emit_eval3 cfg opno ''ExecEvalFieldStoreForm'')"
| "emit_eval cfg opno op EEOP_JSONEXPR_COERCION = Some (emit_eval3 cfg opno ''ExecEvalJsonCoercion'')"
| "emit_eval cfg opno op EEOP_MERGE_SUPPORT_FUNC = Some (emit_eval3 cfg opno ''ExecEvalMergeSupportFunc'')"
| "emit_eval cfg opno op EEOP_SUBPLAN = Some (emit_eval3 cfg opno ''ExecEvalSubPlan'')"
| "emit_eval cfg opno op EEOP_AGG_ORDERED_TRANS_DATUM = Some (emit_eval3 cfg opno ''ExecEvalAggOrderedTransDatum'')"
| "emit_eval cfg opno op EEOP_AGG_ORDERED_TRANS_TUPLE = Some (emit_eval3 cfg opno ''ExecEvalAggOrderedTransTuple'')"
| "emit_eval cfg opno op EEOP_CURRENTOFEXPR = Some (emit_eval2 cfg opno ''ExecEvalCurrentOfExpr'')"
| "emit_eval cfg opno op EEOP_XMLEXPR = Some (emit_eval2 cfg opno ''ExecEvalXmlExpr'')"
| "emit_eval cfg opno op (EEOP_PARAM_CALLBACK f) = Some (emit_eval3 cfg opno f)"
| "emit_eval cfg opno op (EEOP_SBSREF_OLD f) = Some (emit_eval3 cfg opno f)"
| "emit_eval cfg opno op (EEOP_SBSREF_ASSIGN f) = Some (emit_eval3 cfg opno f)"
| "emit_eval cfg opno op (EEOP_SBSREF_FETCH f) = Some (emit_eval3 cfg opno f)"
| "emit_eval cfg opno op EEOP_FIELDSELECT = Some (emit_fieldselect cfg opno op)"
| "emit_eval cfg opno op EEOP_CONVERT_ROWTYPE = Some (emit_convert_rowtype cfg opno op)"
| "emit_eval cfg opno op _ = None"

fun var_of :: "slot_kind \<Rightarrow> ExprEvalOp \<Rightarrow> nat option" where
  "var_of k (EEOP_VAR k' attnum) = (if k' = k then Some attnum else None)"
| "var_of k _ = None"

fun assign_var_of :: "slot_kind \<Rightarrow> ExprEvalOp \<Rightarrow> (nat \<times> nat) option" where
  "assign_var_of k (EEOP_ASSIGN_VAR k' attnum resultnum) = (if k' = k then Some (attnum, resultnum) else None)"
| "assign_var_of k _ = None"

text \<open>How many steps after step \<open>opno\<close> join its batch: those of the same opcode up to the next jump target.\<close>

definition batch_extra :: "(ExprEvalOp \<Rightarrow> 'a option) \<Rightarrow> (nat \<Rightarrow> bool) \<Rightarrow> ExprEvalStep list \<Rightarrow> nat \<Rightarrow> nat" where
  "batch_extra f is_jump_target steps opno =
     length (takeWhile (\<lambda>j. \<not> is_jump_target j \<and> f (opcode (steps ! j)) \<noteq> None) [opno + 1..<length steps])"

text \<open>The targets collected before any code is emitted. \<open>EEOP_AGG_STRICT_INPUT_CHECK_ARGS_1\<close> is not among the cases.
  The non-strict steps \<open>EEOP_HASHDATUM_FIRST\<close>, \<open>EEOP_HASHDATUM_NEXT32\<close> and \<open>EEOP_AGG_DESERIALIZE\<close> are; their field holds
  the \<open>-1\<close> that PostgreSQL puts there for a step that never jumps, which the code skips, so that the datatype has no target for them.\<close>

fun jump_target_of :: "ExprEvalOp \<Rightarrow> nat list" where
  "jump_target_of (EEOP_JUMP t) = [t]" | "jump_target_of (EEOP_JUMP_IF_NULL t) = [t]"
| "jump_target_of (EEOP_JUMP_IF_NOT_NULL t) = [t]" | "jump_target_of (EEOP_JUMP_IF_NOT_TRUE t) = [t]"
| "jump_target_of (EEOP_QUAL t) = [t]"
| "jump_target_of (EEOP_BOOL_AND_STEP _ _ t) = [t]" | "jump_target_of (EEOP_BOOL_OR_STEP _ _ t) = [t]"
| "jump_target_of (EEOP_ROWCOMPARE_STEP _ _ _ jumpnull jumpdone) = [jumpnull, jumpdone]"
| "jump_target_of (EEOP_SBSREF_SUBSCRIPTS _ t) = [t]"
| "jump_target_of (EEOP_HASHDATUM_FIRST_STRICT _ _ t) = [t]" | "jump_target_of (EEOP_HASHDATUM_NEXT32_STRICT _ _ _ t) = [t]"
| "jump_target_of (EEOP_AGG_STRICT_DESERIALIZE _ t) = [t]"
| "jump_target_of (EEOP_AGG_STRICT_INPUT_CHECK_NULLS _ _ t) = [t]"
| "jump_target_of (EEOP_AGG_STRICT_INPUT_CHECK_ARGS kind _ _ _ t) = (if kind = CHECK_ARGS then [t] else [])"
| "jump_target_of (EEOP_AGG_PLAIN_PERGROUP_NULLCHECK _ t) = [t]"
| "jump_target_of (EEOP_AGG_PRESORTED_DISTINCT_SINGLE _ t) = [t]" | "jump_target_of (EEOP_AGG_PRESORTED_DISTINCT_MULTI _ t) = [t]"
| "jump_target_of (EEOP_RETURNINGEXPR _ t) = [t]"
| "jump_target_of _ = []"

definition is_jump_target :: "ExprEvalStep list \<Rightarrow> nat \<Rightarrow> bool" where
  "is_jump_target steps t \<longleftrightarrow> t < length steps \<and> list_ex (\<lambda>s. t \<in> set (jump_target_of (opcode s))) steps"

text \<open>The code of the step \<open>opno\<close>, and how many of the following steps it covers.\<close>

definition emit_step :: "emit_cfg \<Rightarrow> ExprEvalStep list \<Rightarrow> (slot_kind \<Rightarrow> bool) \<Rightarrow> nat \<Rightarrow> (xins list \<times> nat) option" where
  "emit_step cfg steps cached opno =
     (let op = steps ! opno; one = (\<lambda>code. Some (code, 0)) in
      case opcode op of
        EEOP_DONE_RETURN \<Rightarrow> one [Op1 MOV (Reg (R 0)) (Mem (S 0) F_resvalue), Op1 MOV_U8 (Reg (R 1)) (Mem (S 0) F_resnull),
            Op1 MOV_U8 (Mem (S 2) F_zero) (Reg (R 1)), Return (Reg (R 0))]
      | EEOP_DONE_NO_RETURN \<Rightarrow> one [Return (Imm 0)]
      | EEOP_EVAL e \<Rightarrow> Option.bind (emit_eval cfg opno op e) one
      | EEOP_FETCHSOME k last_var \<Rightarrow> Option.bind (emit_fetchsome cfg opno k last_var) one
      | EEOP_VAR k _ \<Rightarrow>
          (let extra = batch_extra (var_of k) (is_jump_target steps) steps opno in
           Some (emit_var cfg cached k (map (\<lambda>i. (i, steps ! i, the (var_of k (opcode (steps ! i))))) [opno..<opno + extra + 1]), extra))
      | EEOP_ASSIGN_VAR k _ _ \<Rightarrow>
          (let extra = batch_extra (assign_var_of k) (is_jump_target steps) steps opno in
           map_option (\<lambda>code. (code, extra))
             (emit_assign_var cfg cached k (map (\<lambda>i. the (assign_var_of k (opcode (steps ! i)))) [opno..<opno + extra + 1])))
      | EEOP_ASSIGN_TMP resultnum \<Rightarrow> one (emit_assign_tmp opno False resultnum)
      | EEOP_ASSIGN_TMP_MAKE_RO resultnum \<Rightarrow> one (emit_assign_tmp opno True resultnum)
      | EEOP_CONST value isnull \<Rightarrow> one (emit_const cfg opno op value isnull)
      | EEOP_FUNCEXPR strict fn _ nargs \<Rightarrow> Option.bind (emit_funcexpr cfg opno op strict fn nargs) one
      | EEOP_BOOL_AND_STEP pos _ jumpdone \<Rightarrow> one (emit_bool_and_step cfg opno op pos jumpdone)
      | EEOP_BOOL_OR_STEP pos _ jumpdone \<Rightarrow> one (emit_bool_or_step cfg opno op pos jumpdone)
      | EEOP_BOOL_NOT_STEP \<Rightarrow> one (emit_not cfg opno op)
      | EEOP_QUAL jumpdone \<Rightarrow> one (emit_qual cfg opno op jumpdone)
      | EEOP_JUMP jumpdone \<Rightarrow> one [Jump (L_step jumpdone)]
      | EEOP_JUMP_IF_NULL jumpdone \<Rightarrow> one (emit_jump_if_null cfg opno op jumpdone)
      | EEOP_JUMP_IF_NOT_NULL jumpdone \<Rightarrow> one (emit_jump_if_not_null cfg opno op jumpdone)
      | EEOP_JUMP_IF_NOT_TRUE jumpdone \<Rightarrow> one (emit_jump_if_not_true cfg opno op jumpdone)
      | EEOP_NULLTEST_ISNULL \<Rightarrow> one (emit_nulltest cfg opno op True)
      | EEOP_NULLTEST_ISNOTNULL \<Rightarrow> one (emit_nulltest cfg opno op False)
      | EEOP_BOOLTEST t \<Rightarrow> one (emit_booltest cfg opno op t)
      | EEOP_CASE_TESTVAL value _ \<Rightarrow> one (emit_case_testval cfg opno op value)
      | EEOP_CASE_TESTVAL_EXT \<Rightarrow> one (emit_case_testval_ext cfg opno op)
      | EEOP_MAKE_READONLY _ _ \<Rightarrow> one (emit_make_readonly cfg opno op)
      | EEOP_IOCOERCE f_out f_in \<Rightarrow> if is_jsonb_in cfg f_in then None
          else one (emit_iocoerce cfg opno op (flinfo_fn_addr cfg f_out) (flinfo_fn_addr cfg f_in))
      | EEOP_DISTINCT fn _ \<Rightarrow> one (emit_distinct cfg opno op True fn)
      | EEOP_NOT_DISTINCT fn _ \<Rightarrow> one (emit_distinct cfg opno op False fn)
      | EEOP_NULLIF fn _ \<Rightarrow> one (emit_nullif cfg opno op fn)
      | EEOP_RETURNINGEXPR nullflag jumpdone \<Rightarrow> one (emit_returningexpr cfg opno op nullflag jumpdone)
      | EEOP_ROWCOMPARE_STEP fn _ strict jumpnull jumpdone \<Rightarrow> one (emit_rowcompare_step cfg opno op fn strict jumpnull jumpdone)
      | EEOP_ROWCOMPARE_FINAL cmptype \<Rightarrow> one (emit_rowcompare_final cfg opno op cmptype)
      | EEOP_SBSREF_SUBSCRIPTS fn jumpdone \<Rightarrow> one (emit_sbsref_subscripts cfg opno fn jumpdone)
      | EEOP_DOMAIN_TESTVAL value _ \<Rightarrow> one (emit_domain_testval cfg opno op value)
      | EEOP_DOMAIN_TESTVAL_EXT \<Rightarrow> one (emit_domain_testval_ext cfg opno op)
      | EEOP_DOMAIN_NOTNULL \<Rightarrow> one (emit_domain_notnull cfg opno op)
      | EEOP_DOMAIN_CHECK _ _ \<Rightarrow> one (emit_domain_check cfg opno)
      | EEOP_AGGREF aggno \<Rightarrow> one (emit_aggref cfg opno op aggno)
      | EEOP_AGG_STRICT_DESERIALIZE f jumpnull \<Rightarrow> one (emit_agg_deserialize cfg opno op (Some jumpnull) (flinfo_fn_addr cfg f))
      | EEOP_AGG_DESERIALIZE f \<Rightarrow> one (emit_agg_deserialize cfg opno op None (flinfo_fn_addr cfg f))
      | EEOP_AGG_STRICT_INPUT_CHECK_ARGS _ _ _ nargs jumpnull \<Rightarrow> one (emit_agg_input_check cfg opno nargs jumpnull)
      | EEOP_AGG_STRICT_INPUT_CHECK_NULLS _ nargs jumpnull \<Rightarrow> one (emit_agg_input_check_nulls cfg opno nargs jumpnull)
      | EEOP_AGG_PLAIN_PERGROUP_NULLCHECK setoff jumpnull \<Rightarrow> one (emit_pergroup_nullcheck setoff jumpnull)
      | EEOP_AGG_PRESORTED_DISTINCT_SINGLE _ jumpdistinct \<Rightarrow> one (emit_presorted cfg opno ''ExecEvalPreOrderedDistinctSingle'' jumpdistinct)
      | EEOP_AGG_PRESORTED_DISTINCT_MULTI _ jumpdistinct \<Rightarrow> one (emit_presorted cfg opno ''ExecEvalPreOrderedDistinctMulti'' jumpdistinct)
      | _ \<Rightarrow> None)"

section \<open>The function\<close>

fun cache_slot :: "ExprEvalOp \<Rightarrow> (slot_kind \<Rightarrow> bool) \<Rightarrow> slot_kind \<Rightarrow> bool" where
  "cache_slot (EEOP_FETCHSOME k _) cached = cached(k := True)" | "cache_slot _ cached = cached"

function emit_from :: "emit_cfg \<Rightarrow> ExprEvalStep list \<Rightarrow> (slot_kind \<Rightarrow> bool) \<Rightarrow> nat \<Rightarrow> xins list option" where
  "emit_from cfg steps cached opno =
     (if opno < length steps then
        Option.bind (emit_step cfg steps cached opno) (\<lambda>(code, extra).
          map_option (\<lambda>rest. Label (L_step opno) # code @ map (\<lambda>i. Label (L_step i)) [opno + 1..<opno + extra + 1] @ rest)
            (emit_from cfg steps (cache_slot (opcode (steps ! opno)) cached) (opno + extra + 1)))
      else Some [])"
  by auto
termination by (relation "measure (\<lambda>(cfg, steps, cached, opno). length steps - opno)") auto

declare emit_from.simps [simp del]

definition emit_prologue :: "emit_cfg \<Rightarrow> xins list" where
  "emit_prologue cfg =
     [Op1 MOV (Reg (R 0)) (Mem (S 0) F_steps), Op1 MOV (Sp SOFF_STEPS) (Reg (R 0))] @
     (case sreg_steps cfg of Some r \<Rightarrow> [Op1 MOV (Reg (S r)) (Reg (R 0))] | None \<Rightarrow> []) @
     [Op1 MOV (Reg (R 0)) (Mem (S 0) F_resultslot), Op1 MOV (Sp SOFF_RESULTSLOT) (Reg (R 0)),
      Cmp C_EQUAL (Reg (R 0)) (Imm 0) L_prologue,
      Op1 MOV (Reg SREG_RESULTVALS) (Mem (R 0) F_tts_values), Op1 MOV (Reg SREG_RESULTNULLS) (Mem (R 0) F_tts_isnull), Label L_prologue]"

text \<open>The code of all steps one after the other, with \<open>nregs\<close> saved registers; \<open>sljit_compile_steps\<close> yields it when no CASE is replaced.\<close>

definition emit_expr :: "nat \<Rightarrow> emit_cfg \<Rightarrow> ExprEvalStep list \<Rightarrow> xins list option" where
  "emit_expr nregs cfg steps =
     (let cfg = alloc_registers nregs steps cfg in
      map_option (\<lambda>body. emit_prologue cfg @ body) (emit_from cfg steps (\<lambda>_. False) 0))"

end
