(* ===== verification/ExprCase.thy ===== *)
theory ExprCase
  imports CaseDetect ExprEmit
begin

text \<open>
  The search for CASE expressions that \<open>sljit_compile_expr\<close> (\<open>pg_jitter_sljit.c\<close>) runs before it emits code: the steps as
  \<open>pg_jitter_detect_case_bsearch\<close> reads them, and the function itself, which yields \<open>None\<close> when a CASE is replaced: the code that
  calls the search, and what the replacement leaves out, are not modelled.
\<close>

section \<open>The steps as the detection reads them\<close>

text \<open>\<open>cd_fn\<close> is the function at an address, \<open>cd_collation\<close> the collation of a call frame, \<open>cd_arg1\<close> its second argument when the code is
  compiled: the datum and the null flag.\<close>

record case_cfg =
  cd_env :: case_env
  cd_fn :: "fn_addr \<Rightarrow> PGFunction"
  cd_collation :: "nat \<Rightarrow> Oid"
  cd_arg1 :: "nat \<Rightarrow> Datum \<times> bool"

definition plain_step :: "CaseDetect.ExprEvalOp \<Rightarrow> CaseDetect.ExprEvalStep" where
  "plain_step op = \<lparr>st_op = op, st_attnum = 0, st_fn_addr = [], st_collation = 0, st_arg1 = 0, st_arg1_isnull = False,
     st_const = 0, st_const_isnull = False, st_jumpdone = 0\<rparr>"

fun var_op :: "slot_kind \<Rightarrow> CaseDetect.ExprEvalOp" where
  "var_op Inner = EEOP_INNER_VAR" | "var_op Outer = EEOP_OUTER_VAR" | "var_op Scan = EEOP_SCAN_VAR" | "var_op _ = EEOP_OTHER 0"

fun func_op :: "strictness \<Rightarrow> CaseDetect.ExprEvalOp" where
  "func_op STRICT = EEOP_FUNCEXPR_STRICT" | "func_op STRICT_1 = EEOP_FUNCEXPR_STRICT_1" | "func_op STRICT_2 = EEOP_FUNCEXPR_STRICT_2"
| "func_op NON_STRICT = EEOP_OTHER 0"

fun and_op :: "step_position \<Rightarrow> CaseDetect.ExprEvalOp" where
  "and_op First_step = EEOP_BOOL_AND_STEP_FIRST" | "and_op Middle_step = CaseDetect.EEOP_BOOL_AND_STEP" | "and_op Last_step = EEOP_BOOL_AND_STEP_LAST"

fun detect_step :: "case_cfg \<Rightarrow> ExprSteps.ExprEvalOp \<Rightarrow> CaseDetect.ExprEvalStep" where
  "detect_step cc (EEOP_VAR k attnum) = plain_step (var_op k)\<lparr>st_attnum := int attnum\<rparr>"
| "detect_step cc (ExprSteps.EEOP_CASE_TESTVAL _ _) = plain_step CaseDetect.EEOP_CASE_TESTVAL"
| "detect_step cc (EEOP_FUNCEXPR strict fn f _) = plain_step (func_op strict)
     \<lparr>st_fn_addr := cd_fn cc fn, st_collation := cd_collation cc f, st_arg1 := fst (cd_arg1 cc f), st_arg1_isnull := snd (cd_arg1 cc f)\<rparr>"
| "detect_step cc (ExprSteps.EEOP_CONST value isnull) = plain_step CaseDetect.EEOP_CONST\<lparr>st_const := value, st_const_isnull := isnull\<rparr>"
| "detect_step cc (ExprSteps.EEOP_JUMP t) = plain_step CaseDetect.EEOP_JUMP\<lparr>st_jumpdone := t\<rparr>"
| "detect_step cc (ExprSteps.EEOP_JUMP_IF_NOT_TRUE t) = plain_step CaseDetect.EEOP_JUMP_IF_NOT_TRUE\<lparr>st_jumpdone := t\<rparr>"
| "detect_step cc (ExprSteps.EEOP_QUAL t) = plain_step CaseDetect.EEOP_QUAL"
| "detect_step cc (ExprSteps.EEOP_BOOL_AND_STEP pos _ _) = plain_step (and_op pos)"
| "detect_step cc _ = plain_step (EEOP_OTHER 0)"

text \<open>The patterns found, up to sixteen; \<open>None\<close> when the search does not end.\<close>

definition case_bsearch :: "case_cfg \<Rightarrow> ExprSteps.ExprEvalStep list \<Rightarrow> CaseBSearchInfo list option" where
  "case_bsearch cc steps =
     pg_jitter_detect_case_bsearch (length steps + 1) (cd_env cc) (map (\<lambda>s. detect_step cc (opcode s)) steps) 16"

text \<open>The code of an expression in which no CASE is replaced by a search.\<close>

definition sljit_compile_steps :: "case_cfg \<Rightarrow> nat \<Rightarrow> emit_cfg \<Rightarrow> ExprSteps.ExprEvalStep list \<Rightarrow> xins list option" where
  "sljit_compile_steps cc nregs cfg steps = (if case_bsearch cc steps = Some [] then emit_expr nregs cfg steps else None)"

section \<open>Expressions without a CASE\<close>

text \<open>Every pattern has a jump that is taken when a condition is not true.\<close>

lemma detect_at_no_jump:
  fixes steps :: "CaseDetect.ExprEvalStep list"
  assumes "i + 5 < length steps" "\<And>s. s \<in> set steps \<Longrightarrow> st_op s \<noteq> CaseDetect.EEOP_JUMP_IF_NOT_TRUE"
  shows "detect_case_at env steps i = Skip (i + 1)"
  using assms(1) assms(2) [of "steps ! (i + 2)"]
  by (simp add: detect_case_at_def pattern_start_def branch_structure_def Let_def)

lemma range_at_no_jump:
  fixes steps :: "CaseDetect.ExprEvalStep list"
  assumes "i + RANGE_WHEN_LEN < length steps" "\<And>s. s \<in> set steps \<Longrightarrow> st_op s \<noteq> CaseDetect.EEOP_JUMP_IF_NOT_TRUE"
  shows "detect_range_at steps i = Skip (i + 1)"
  using assms(1) assms(2) [of "steps ! (i + 6)"]
  by (simp add: detect_range_at_def range_parse_def range_prefix_def RANGE_WHEN_LEN_def)

lemma pass1_no_jump:
  fixes steps :: "CaseDetect.ExprEvalStep list"
  assumes "\<And>s. s \<in> set steps \<Longrightarrow> st_op s \<noteq> CaseDetect.EEOP_JUMP_IF_NOT_TRUE"
  shows "length steps - i < fuel \<Longrightarrow> detect_pass1 fuel env steps n i [] = Some []"
proof (induction fuel arbitrary: i)
  case (Suc fuel)
  then show ?case using detect_at_no_jump [OF _ assms, of i] by auto
qed simp

lemma pass2_no_jump:
  fixes steps :: "CaseDetect.ExprEvalStep list"
  assumes "\<And>s. s \<in> set steps \<Longrightarrow> st_op s \<noteq> CaseDetect.EEOP_JUMP_IF_NOT_TRUE"
  shows "length steps - i < fuel \<Longrightarrow> detect_pass2 fuel steps n i [] = Some []"
proof (induction fuel arbitrary: i)
  case (Suc fuel)
  then show ?case using range_at_no_jump [OF _ assms, of i] by auto
qed simp

fun is_jint :: "ExprSteps.ExprEvalOp \<Rightarrow> bool" where
  "is_jint (ExprSteps.EEOP_JUMP_IF_NOT_TRUE _) = True" | "is_jint _ = False"

lemma detect_step_jint: "st_op (detect_step cc op) = CaseDetect.EEOP_JUMP_IF_NOT_TRUE \<Longrightarrow> is_jint op"
proof (cases op)
  case (EEOP_VAR k a)
  then show "st_op (detect_step cc op) = CaseDetect.EEOP_JUMP_IF_NOT_TRUE \<Longrightarrow> is_jint op" by (cases k) (simp_all add: plain_step_def)
next
  case (EEOP_FUNCEXPR s fn f n)
  then show "st_op (detect_step cc op) = CaseDetect.EEOP_JUMP_IF_NOT_TRUE \<Longrightarrow> is_jint op" by (cases s) (simp_all add: plain_step_def)
next
  case (EEOP_BOOL_AND_STEP p a t)
  then show "st_op (detect_step cc op) = CaseDetect.EEOP_JUMP_IF_NOT_TRUE \<Longrightarrow> is_jint op" by (cases p) (simp_all add: plain_step_def)
qed (simp_all add: plain_step_def)

lemma case_bsearch_no_jint:
  assumes "\<And>s. s \<in> set steps \<Longrightarrow> \<not> is_jint (opcode s)"
  shows "case_bsearch cc steps = Some []"
proof -
  let ?steps = "map (\<lambda>s. detect_step cc (opcode s)) steps"
  have n: "\<And>s. s \<in> set ?steps \<Longrightarrow> st_op s \<noteq> CaseDetect.EEOP_JUMP_IF_NOT_TRUE"
    using assms detect_step_jint by auto
  show ?thesis
    using pass1_no_jump [of ?steps 0 "length steps + 1", OF n] pass2_no_jump [of ?steps 0 "length steps + 1", OF n]
    by (simp add: case_bsearch_def pg_jitter_detect_case_bsearch_def del: detect_pass1.simps detect_pass2.simps)
qed

end
