(* ===== verification/ExprExec.thy ===== *)
theory ExprExec
  imports ExprEmit
begin

text \<open>
  What the pieces of emitted code do when they run: the jumps, the loads and stores of results, the null checks and the calls. A
  machine that is \<open>ready\<close> holds what the prologue and the fetches promise: the arguments of the function, the arrays of the
  result slot, the steps, and the arrays of every slot that has been fetched.
\<close>

declare One_nat_def [simp del]

section \<open>Jumps\<close>

lemma xgoto_simps [simp]:
  "xgoto env l (Op1 w d s # is) x = xgoto env l is x" "xgoto env l (Op2 f r a b # is) x = xgoto env l is x"
  "xgoto env l (Test_zero r # is) x = xgoto env l is x" "xgoto env l (And_zero r k # is) x = xgoto env l is x"
  "xgoto env l (Flag_equal r # is) x = xgoto env l is x" "xgoto env l (Cmp c a b l' # is) x = xgoto env l is x"
  "xgoto env l (Jump l' # is) x = xgoto env l is x" "xgoto env l (Jump_zero l' # is) x = xgoto env l is x"
  "xgoto env l (Icall fn # is) x = xgoto env l is x" "xgoto env l (Return a # is) x = xgoto env l is x"
  "xgoto env l (Label l' # is) x = (if l' = l then xexec env is x else xgoto env l is x)"
  by (simp_all add: xgoto_def)

definition plain :: "xins list \<Rightarrow> bool" where
  "plain is \<longleftrightarrow> list_all (\<lambda>i. case i of Label _ \<Rightarrow> False | _ \<Rightarrow> True) is"

lemma plain_simps [simp]:
  "plain []" "plain (i # is) \<longleftrightarrow> (case i of Label _ \<Rightarrow> False | _ \<Rightarrow> True) \<and> plain is" "plain (is @ js) \<longleftrightarrow> plain is \<and> plain js"
  by (simp_all add: plain_def)

lemma xgoto_plain: "plain is \<Longrightarrow> xgoto env l (is @ js) x = xgoto env l js x"
  by (induction "is") (auto split: xins.splits)

lemma plain_concat [simp]: "plain (concat iss) \<longleftrightarrow> list_all plain iss"
  by (induction iss) auto

lemma plain_map [simp]: "plain (map f xs) \<longleftrightarrow> list_all (\<lambda>a. case f a of Label _ \<Rightarrow> False | _ \<Rightarrow> True) xs"
  by (simp add: plain_def list_all_iff)

named_theorems emit_defs

lemmas [emit_defs] = emit_load_step_field_def emit_load_step_addr_def emit_store_resvalue_def emit_store_resnull_def
  emit_store_res_pair_def emit_load_resvalue_def emit_load_resnull_def emit_load_resvalue_addr_def emit_eval_args_def
  emit_load_econtext_slot_def emit_call_fn_def emit_null_checks_def emit_direct_call_def emit_v1_call_def emit_set_arg_def
  emit_eval2_def emit_eval3_def emit_not_def

lemma plain_emit [simp]:
  "plain (emit_load_step_field cfg opno f r)" "plain (emit_load_step_addr cfg opno r)" "plain (emit_store_resvalue cfg opno op s)"
  "plain (emit_store_resnull cfg opno op s)" "plain (emit_store_res_pair cfg opno op s n)" "plain (emit_load_resvalue cfg opno op r)"
  "plain (emit_load_resnull cfg opno op r)" "plain (emit_load_resvalue_addr cfg opno op r)" "plain (emit_eval_args cfg opno)"
  "plain (emit_call_fn cfg opno fn)" "plain (emit_null_checks field nargs l)" "plain (emit_direct_call cfg opno op h fn dfn)"
  "plain (emit_v1_call cfg opno op h fn)" "plain emit_set_arg" "plain (emit_eval2 cfg opno name)" "plain (emit_eval3 cfg opno name)"
  "plain (emit_not cfg opno op)"
  by (auto simp: emit_defs Let_def list_all_iff split: option.splits)

lemmas xgoto_emit [simp] = plain_emit [THEN xgoto_plain]

section \<open>The machine between two pieces of code\<close>

lemma xr_simps [simp]:
  "xr (set_reg r v x) = (xr x)(r := Some v)" "xframe (set_reg r v x) = xframe x" "xz (set_reg r v x) = xz x" "xm (set_reg r v x) = xm x"
  "isnull_out (set_reg r v x) = isnull_out x"
  "xr (after_call r0 m x) (S n) = xr x (S n)" "xr (after_call r0 m x) (R n) = (if n = 0 then r0 else None)"
  "xframe (after_call r0 m x) = xframe x" "xm (after_call r0 m x) = m" "isnull_out (after_call r0 m x) = isnull_out x"
  by (simp_all add: set_reg_def after_call_def)

definition steps_ok :: "emit_cfg \<Rightarrow> 'w xmachine \<Rightarrow> bool" where
  "steps_ok cfg x \<longleftrightarrow> (case sreg_steps cfg of Some r \<Rightarrow> xr x (S r) = Some (XP P_steps) | None \<Rightarrow> True) \<and> xframe x SOFF_STEPS = Some (XP P_steps)"

definition ready :: "'w xenv \<Rightarrow> emit_cfg \<Rightarrow> (slot_kind \<Rightarrow> bool) \<Rightarrow> 'w xmachine \<Rightarrow> bool" where
  "ready env cfg cached x \<longleftrightarrow>
     xr x (S 0) = Some (XP P_state) \<and> xr x (S 1) = Some (XP P_econtext) \<and> xr x (S 2) = Some (XP P_isnull_out) \<and>
     (x_resultslot env \<longrightarrow> xr x (S 3) = Some (XP P_rvalues) \<and> xr x (S 4) = Some (XP P_risnull)) \<and> steps_ok cfg x \<and>
     (\<forall>k. cached k \<longrightarrow> (case sreg_slot cfg k of
        Some (rv, rn) \<Rightarrow> xr x (S rv) = Some (XP (P_tvalues k)) \<and> xr x (S rn) = Some (XP (P_tisnull k))
      | None \<Rightarrow> xframe x (slot_cache_offset k) = Some (XP (P_tvalues k)) \<and> xframe x (slot_cache_offset k + 8) = Some (XP (P_tisnull k))))"

text \<open>The scratch registers, the flag and the memory do not matter.\<close>

definition same_saved :: "'w xmachine \<Rightarrow> 'w xmachine \<Rightarrow> bool" where
  "same_saved x x' \<longleftrightarrow> (\<forall>n. xr x' (S n) = xr x (S n)) \<and> xframe x' = xframe x"

lemma ready_same: "same_saved x x' \<Longrightarrow> ready env cfg cached x' \<longleftrightarrow> ready env cfg cached x"
  by (simp add: ready_def steps_ok_def same_saved_def split: option.splits)

lemma steps_ok_same: "same_saved x x' \<Longrightarrow> steps_ok cfg x' \<longleftrightarrow> steps_ok cfg x"
  by (simp add: steps_ok_def same_saved_def split: option.splits)

definition clobber :: "xval option \<Rightarrow> xval option \<Rightarrow> 'w xmachine \<Rightarrow> 'w xmachine" where
  "clobber u v x = x\<lparr>xr := (xr x)(R 0 := u, R 2 := v)\<rparr>"

lemma clobber_simps [simp]:
  "xr (clobber u v x) = (xr x)(R 0 := u, R 2 := v)" "xframe (clobber u v x) = xframe x" "xm (clobber u v x) = xm x"
  "isnull_out (clobber u v x) = isnull_out x"
  by (simp_all add: clobber_def)

lemma same_saved_simps [simp]:
  "same_saved x x" "same_saved x (set_reg (R i) v y) = same_saved x y" "same_saved x (y\<lparr>xm := m\<rparr>) = same_saved x y"
  "same_saved x (y\<lparr>xz := z\<rparr>) = same_saved x y" "same_saved x (after_call r m y) = same_saved x y"
  "same_saved x (clobber u0 u2 y) = same_saved x y"
  by (simp_all add: same_saved_def)

lemmas ready_simps [simp] =
  ready_same [of x "set_reg (R i) v x" for x i v, simplified] ready_same [of x "x\<lparr>xm := m\<rparr>" for x m, simplified]
  ready_same [of x "x\<lparr>xz := z\<rparr>" for x z, simplified] ready_same [of x "after_call r m x" for x r m, simplified]
  ready_same [of x "clobber u v x" for x u v, simplified]

lemmas steps_ok_simps [simp] =
  steps_ok_same [of x "set_reg (R i) v x" for x i v, simplified] steps_ok_same [of x "x\<lparr>xm := m\<rparr>" for x m, simplified]
  steps_ok_same [of x "x\<lparr>xz := z\<rparr>" for x z, simplified] steps_ok_same [of x "after_call r m x" for x r m, simplified]
  steps_ok_same [of x "clobber u v x" for x u v, simplified]

lemma set_reg_twice [simp]: "set_reg r v (set_reg r u x) = set_reg r v x"
  by (simp add: set_reg_def)

section \<open>Memory\<close>

lemma mem_simps [simp]:
  "vals (set_val l d m) = (vals m)(l := d)" "nulls (set_val l d m) = nulls m" "fc_isnull (set_val l d m) = fc_isnull m"
  "anynulls (set_val l d m) = anynulls m" "slots (set_val l d m) = slots m" "world (set_val l d m) = world m"
  "caseValue (set_val l d m) = caseValue m" "domainValue (set_val l d m) = domainValue m" "aggnulls (set_val l d m) = aggnulls m"
  "result_values (set_val l d m) = result_values m" "result_isnull (set_val l d m) = result_isnull m"
  "vals (set_null l b m) = vals m" "nulls (set_null l b m) = (nulls m)(l := b)" "fc_isnull (set_null l b m) = fc_isnull m"
  "anynulls (set_null l b m) = anynulls m" "slots (set_null l b m) = slots m" "world (set_null l b m) = world m"
  "result_values (set_null l b m) = result_values m" "result_isnull (set_null l b m) = result_isnull m"
  "vals (set_fc_isnull f b m) = vals m" "nulls (set_fc_isnull f b m) = nulls m" "fc_isnull (set_fc_isnull f b m) = (fc_isnull m)(f := b)"
  "world (set_fc_isnull f b m) = world m"
  "vals (set_anynull a b m) = vals m" "nulls (set_anynull a b m) = nulls m" "anynulls (set_anynull a b m) = (anynulls m)(a := b)"
  by (simp_all add: set_val_def set_null_def set_fc_isnull_def set_anynull_def)

lemma set_commute [simp]:
  "set_val l d (set_null l' b m) = set_null l' b (set_val l d m)"
  "set_anynull a b (set_val l d m) = set_val l d (set_anynull a b m)" "set_anynull a b (set_null l c m) = set_null l c (set_anynull a b m)"
  "set_fc_isnull f b (set_val l d m) = set_val l d (set_fc_isnull f b m)" "set_fc_isnull f b (set_null l c m) = set_null l c (set_fc_isnull f b m)"
  "(set_val l d m)\<lparr>world := w\<rparr> = set_val l d (m\<lparr>world := w\<rparr>)" "(set_null l c m)\<lparr>world := w\<rparr> = set_null l c (m\<lparr>world := w\<rparr>)"
  "(set_fc_isnull f b m)\<lparr>world := w\<rparr> = set_fc_isnull f b (m\<lparr>world := w\<rparr>)"
  by (simp_all add: set_val_def set_null_def set_anynull_def set_fc_isnull_def)

section \<open>Loads and stores\<close>

lemma byte_of_simps [simp]:
  "bool_of (byte_of b) = Some b" "bool_of (XN (of_bool b)) = Some b" "bool_of (XN 0) = Some False" "bool_of (XN 1) = Some True"
  "(ucast (ucast (of_bool b :: 64 word) :: uint8) :: 64 word) = of_bool b"
  by (cases b; simp add: bool_of_def byte_of_def)+

lemma rd_simps [simp]:
  "rd env MOV (Reg r) x = xr x r" "rd env w (Imm d) x = Some (XN d)" "rd env MOV (Sp n) x = xframe x n"
  by (simp_all add: rd_def split: option.splits xval.splits)

lemma rd_mem [simp]: "xr x r = Some (XP p) \<Longrightarrow> rd env w (Mem r f) x = load env (xm x) w p f"
  by (simp add: rd_def)

lemma rd_byte [simp]: "xr x r = Some (byte_of b) \<Longrightarrow> rd env MOV_U8 (Reg r) x = Some (byte_of b)"
  by (simp add: rd_def byte_of_def)

lemma wr_simps [simp]:
  "wr w (Reg r) v x = Some (set_reg r v x)" "wr MOV (Sp n) v x = Some (x\<lparr>xframe := (xframe x)(n := Some v)\<rparr>)"
  "xr x r = Some (XP p) \<Longrightarrow> wr MOV (Mem r f) (XN d) x = store_datum p f d x"
  "xr x r = Some (XP p) \<Longrightarrow> wr MOV_U8 (Mem r f) (byte_of b) x = store_bool p f b x"
  "xr x r = Some (XP p) \<Longrightarrow> wr MOV_U8 (Mem r f) (XN 0) x = store_bool p f False x"
  "xr x r = Some (XP p) \<Longrightarrow> wr MOV_U8 (Mem r f) (XN 1) x = store_bool p f True x"
  by (simp_all add: wr_def)

lemma load_step_simps [simp]:
  "load_step st SF_resvalue = Some (XP (P_val (resvalue st)))" "load_step st SF_resnull = Some (XP (P_null (resnull st)))"
  by (simp_all add: load_step_def)

lemma exec_load_step_field:
  "\<lbrakk>steps_ok cfg x; opno < length (x_steps env)\<rbrakk> \<Longrightarrow>
   xexec env (emit_load_step_field cfg opno f (R i) @ is) x =
   (case load_step (x_steps env ! opno) f of None \<Rightarrow> None | Some v \<Rightarrow> xexec env is (set_reg (R i) v x))"
  by (auto simp: steps_ok_def emit_load_step_field_def xexec_ins load_def split: option.splits)

lemma exec_load_step_addr:
  "steps_ok cfg x \<Longrightarrow>
   xexec env (emit_load_step_addr cfg opno (R i) @ is) x = xexec env is (set_reg (R i) (XP (if opno = 0 then P_steps else P_step opno)) x)"
  by (auto simp: steps_ok_def emit_load_step_addr_def xexec_ins rd_alu_def split: option.splits)

definition reg_num :: "'w xmachine \<Rightarrow> xreg \<Rightarrow> Datum" where
  "reg_num x r = (case xr x r of Some (XN d) \<Rightarrow> d | _ \<Rightarrow> 0)"

definition reg_bool :: "'w xmachine \<Rightarrow> xreg \<Rightarrow> bool" where
  "reg_bool x r \<longleftrightarrow> xr x r = Some (byte_of True)"

lemma byte_of_eq [simp]: "byte_of a = byte_of b \<longleftrightarrow> a = b" "byte_of a = XN d \<longleftrightarrow> d = of_bool a" "XN d = byte_of a \<longleftrightarrow> d = of_bool a"
  by (auto simp: byte_of_def)

lemma reg_simps:
  "xr x r = Some (XN d) \<Longrightarrow> reg_num x r = d" "xr x r = Some (byte_of b) \<Longrightarrow> reg_bool x r = b"
  "xr x r = Some (byte_of b) \<Longrightarrow> reg_num x r = of_bool b"
  by (simp_all add: reg_num_def reg_bool_def byte_of_def)

text \<open>The machine after a result has been stored.\<close>

definition st_val :: "ExprEvalStep \<Rightarrow> Datum \<Rightarrow> 'w xmachine \<Rightarrow> 'w xmachine" where
  "st_val op d x = (if resvalue op = Result then x else set_reg (R 1) (XP (P_val (resvalue op))) x)\<lparr>xm := set_val (resvalue op) d (xm x)\<rparr>"

definition st_null :: "ExprEvalStep \<Rightarrow> bool \<Rightarrow> 'w xmachine \<Rightarrow> 'w xmachine" where
  "st_null op b x = (if resnull op = Result then x else set_reg (R 1) (XP (P_null (resnull op))) x)\<lparr>xm := set_null (resnull op) b (xm x)\<rparr>"

definition st_pair :: "ExprEvalStep \<Rightarrow> Datum \<Rightarrow> bool \<Rightarrow> 'w xmachine \<Rightarrow> 'w xmachine" where
  "st_pair op d b x = (if RESNULL_IS_PAIRED op
     then (set_reg (R 1) (XP (P_val (resvalue op))) x)\<lparr>xm := set_null (resnull op) b (set_val (resvalue op) d (xm x))\<rparr>
     else st_null op b (st_val op d x))"

lemma st_simps [simp]:
  "xm (st_val op d x) = set_val (resvalue op) d (xm x)" "xm (st_null op b x) = set_null (resnull op) b (xm x)"
  "xm (st_pair op d b x) = set_null (resnull op) b (set_val (resvalue op) d (xm x))"
  "i \<noteq> 1 \<Longrightarrow> xr (st_val op d x) (R i) = xr x (R i)" "i \<noteq> 1 \<Longrightarrow> xr (st_null op b x) (R i) = xr x (R i)"
  "i \<noteq> 1 \<Longrightarrow> xr (st_pair op d b x) (R i) = xr x (R i)"
  "xr (st_val op d x) (S n) = xr x (S n)" "xr (st_null op b x) (S n) = xr x (S n)" "xr (st_pair op d b x) (S n) = xr x (S n)"
  "isnull_out (st_val op d x) = isnull_out x" "isnull_out (st_null op b x) = isnull_out x" "isnull_out (st_pair op d b x) = isnull_out x"
  "ready env cfg cached (st_val op d x) = ready env cfg cached x" "ready env cfg cached (st_null op b x) = ready env cfg cached x"
  "ready env cfg cached (st_pair op d b x) = ready env cfg cached x"
  "steps_ok cfg (st_val op d x) = steps_ok cfg x" "steps_ok cfg (st_null op b x) = steps_ok cfg x" "steps_ok cfg (st_pair op d b x) = steps_ok cfg x"
  by (auto simp: st_val_def st_null_def st_pair_def)

lemma store_simps [simp]:
  "store_datum P_state F_resvalue d x = Some (x\<lparr>xm := set_val Result d (xm x)\<rparr>)"
  "store_datum (P_val l) F_zero d x = Some (x\<lparr>xm := set_val l d (xm x)\<rparr>)"
  "store_bool P_state F_resnull b x = Some (x\<lparr>xm := set_null Result b (xm x)\<rparr>)"
  "store_bool (P_null l) F_zero b x = Some (x\<lparr>xm := set_null l b (xm x)\<rparr>)"
  "l \<noteq> Result \<Longrightarrow> store_bool (P_val l) F_paired b x = Some (x\<lparr>xm := set_null l b (xm x)\<rparr>)"
  by (simp_all add: store_bool_def store_datum_def)

lemma load_simps [simp]:
  "load env m MOV P_state F_resvalue = Some (XN (vals m Result))" "load env m MOV (P_val l) F_zero = Some (XN (vals m l))"
  "load env m MOV_U8 P_state F_resnull = Some (byte_of (nulls m Result))" "load env m MOV_U8 (P_null l) F_zero = Some (byte_of (nulls m l))"
  by (simp_all add: load_def)

lemma exec_load_resvalue:
  "\<lbrakk>xr x (S 0) = Some (XP P_state); steps_ok cfg x; opno < length (x_steps env); x_steps env ! opno = op\<rbrakk> \<Longrightarrow>
   xexec env (emit_load_resvalue cfg opno op (R i) @ is) x = xexec env is (set_reg (R i) (XN (vals (xm x) (resvalue op))) x)"
  by (auto simp: emit_load_resvalue_def xexec_ins exec_load_step_field)

lemma exec_load_resnull:
  "\<lbrakk>xr x (S 0) = Some (XP P_state); steps_ok cfg x; opno < length (x_steps env); x_steps env ! opno = op\<rbrakk> \<Longrightarrow>
   xexec env (emit_load_resnull cfg opno op (R i) @ is) x = xexec env is (set_reg (R i) (byte_of (nulls (xm x) (resnull op))) x)"
  by (auto simp: emit_load_resnull_def xexec_ins exec_load_step_field)

lemma exec_store_resvalue:
  "\<lbrakk>xr x (S 0) = Some (XP P_state); steps_ok cfg x; opno < length (x_steps env); x_steps env ! opno = op\<rbrakk> \<Longrightarrow>
   xexec env (emit_store_resvalue cfg opno op (Imm d) @ is) x = xexec env is (st_val op d x)"
  "\<lbrakk>xr x (S 0) = Some (XP P_state); steps_ok cfg x; opno < length (x_steps env); x_steps env ! opno = op; i \<noteq> 1;
    xr x (R i) = Some (XN (reg_num x (R i)))\<rbrakk> \<Longrightarrow>
   xexec env (emit_store_resvalue cfg opno op (Reg (R i)) @ is) x = xexec env is (st_val op (reg_num x (R i)) x)"
  by (auto simp: emit_store_resvalue_def xexec_ins exec_load_step_field st_val_def)

lemma exec_store_resnull:
  "\<lbrakk>xr x (S 0) = Some (XP P_state); steps_ok cfg x; opno < length (x_steps env); x_steps env ! opno = op\<rbrakk> \<Longrightarrow>
   xexec env (emit_store_resnull cfg opno op (Imm 0) @ is) x = xexec env is (st_null op False x)"
  "\<lbrakk>xr x (S 0) = Some (XP P_state); steps_ok cfg x; opno < length (x_steps env); x_steps env ! opno = op\<rbrakk> \<Longrightarrow>
   xexec env (emit_store_resnull cfg opno op (Imm 1) @ is) x = xexec env is (st_null op True x)"
  "\<lbrakk>xr x (S 0) = Some (XP P_state); steps_ok cfg x; opno < length (x_steps env); x_steps env ! opno = op; i \<noteq> 1;
    xr x (R i) = Some (byte_of (reg_bool x (R i)))\<rbrakk> \<Longrightarrow>
   xexec env (emit_store_resnull cfg opno op (Reg (R i)) @ is) x = xexec env is (st_null op (reg_bool x (R i)) x)"
  by (auto simp: emit_store_resnull_def xexec_ins exec_load_step_field st_null_def)

text \<open>Where the value goes to the result of the expression, the null flag does too.\<close>

definition results_paired :: "ExprEvalStep \<Rightarrow> bool" where
  "results_paired op \<longleftrightarrow> (resvalue op = Result \<longrightarrow> resnull op = Result)"

lemma exec_store_res_pair:
  "\<lbrakk>xr x (S 0) = Some (XP P_state); steps_ok cfg x; opno < length (x_steps env); x_steps env ! opno = op; results_paired op\<rbrakk> \<Longrightarrow>
   xexec env (emit_store_res_pair cfg opno op (Imm d) 0 @ is) x = xexec env is (st_pair op d False x)"
  "\<lbrakk>xr x (S 0) = Some (XP P_state); steps_ok cfg x; opno < length (x_steps env); x_steps env ! opno = op; results_paired op; i \<noteq> 1;
    xr x (R i) = Some (XN (reg_num x (R i)))\<rbrakk> \<Longrightarrow>
   xexec env (emit_store_res_pair cfg opno op (Reg (R i)) 0 @ is) x = xexec env is (st_pair op (reg_num x (R i)) False x)"
proof -
  assume a: "xr x (S 0) = Some (XP P_state)" "steps_ok cfg x" "opno < length (x_steps env)" "x_steps env ! opno = op" "results_paired op"
  have n: "reg_num (st_val op d' x) (R i) = reg_num x (R i)" if "i \<noteq> 1" for d' i
    using that by (simp add: reg_num_def)
  show "xexec env (emit_store_res_pair cfg opno op (Imm d) 0 @ is) x = xexec env is (st_pair op d False x)"
    using a by (auto simp: emit_store_res_pair_def xexec_ins exec_load_step_field exec_store_resvalue exec_store_resnull
        st_pair_def RESNULL_IS_PAIRED_def st_val_def st_null_def results_paired_def)
  assume b: "i \<noteq> 1" "xr x (R i) = Some (XN (reg_num x (R i)))"
  show "xexec env (emit_store_res_pair cfg opno op (Reg (R i)) 0 @ is) x = xexec env is (st_pair op (reg_num x (R i)) False x)"
    using a b n by (auto simp: emit_store_res_pair_def xexec_ins exec_load_step_field exec_store_resvalue exec_store_resnull
        st_pair_def RESNULL_IS_PAIRED_def st_val_def st_null_def results_paired_def)
qed

lemma exec_load_resvalue_addr:
  "\<lbrakk>xr x (S 0) = Some (XP P_state); steps_ok cfg x; opno < length (x_steps env); x_steps env ! opno = op\<rbrakk> \<Longrightarrow>
   xexec env (emit_load_resvalue_addr cfg opno op (R i) @ is) x = xexec env is (set_reg (R i) (XP (P_val (resvalue op))) x)"
  by (auto simp: emit_load_resvalue_addr_def xexec_ins exec_load_step_field rd_alu_def)

section \<open>Null checks\<close>

lemma alu_or_bytes [simp]: "alu ALU_OR (byte_of a) (byte_of b) = Some (byte_of (a \<or> b))"
  by (cases a; cases b; simp add: alu_def byte_of_def)

lemma rd_alu_or: "rd_alu env ALU_OR (Reg a) (Reg b) x = Option.bind (xr x a) (\<lambda>u. Option.bind (xr x b) (alu ALU_OR u))"
  by (simp add: rd_alu_def split: option.splits xval.splits ptr.splits)

lemma holds_byte [simp]:
  "holds C_NOT_EQUAL (byte_of b) (XN 0) = Some b" "holds C_EQUAL (byte_of b) (XN 0) = Some (\<not> b)"
  by (simp_all add: holds_def byte_of_def)

lemma holds_num [simp]:
  "holds C_NOT_EQUAL (XN d) (XN 0) = Some (d \<noteq> 0)" "holds C_EQUAL (XN d) (XN 0) = Some (d = 0)"
  by (simp_all add: holds_def)

lemma clobber_set_reg [simp]:
  "set_reg (R 0) u (clobber a b x) = clobber (Some u) b x" "set_reg (R 2) u (clobber a b x) = clobber a (Some u) x"
  "clobber c d (clobber a b x) = clobber c d x" "clobber a b (set_reg (R 0) u x) = clobber a b x" "clobber a b (set_reg (R 2) u x) = clobber a b x"
  by (simp_all add: clobber_def set_reg_def fun_upd_twist)

lemma clobber_id [simp]: "clobber (xr x (R 0)) (xr x (R 2)) x = x"
  by (simp add: clobber_def)

lemma exec_or_flags:
  assumes "xr x (R 1) = Some (XP p)" "\<forall>i \<in> set js. load env (xm x) MOV_U8 p (field i) = Some (byte_of (b i))"
    "xr x (R 0) = Some (byte_of c)"
  shows "\<exists>v. xexec env (concat (map (\<lambda>i. [Op1 MOV_U8 (Reg (R 2)) (Mem (R 1) (field i)), Op2 ALU_OR (R 0) (Reg (R 0)) (Reg (R 2))]) js) @ is) x =
    xexec env is (clobber (Some (byte_of (c \<or> (\<exists>i \<in> set js. b i)))) v x)"
  using assms
proof (induction js arbitrary: x c)
  case Nil
  have "clobber (Some (byte_of c)) (xr x (R 2)) x = x" using Nil.prems(3) clobber_id [of x] by simp
  then show ?case by (auto intro: exI [of _ "xr x (R 2)"])
next
  case (Cons j js)
  let ?x = "clobber (Some (byte_of (c \<or> b j))) (Some (byte_of (b j))) x"
  have step: "set_reg (R 0) (byte_of (c \<or> b j)) (set_reg (R 2) (byte_of (b j)) x) = ?x"
    by (simp add: set_reg_def clobber_def fun_upd_twist)
  obtain v where v: "xexec env (concat (map (\<lambda>i. [Op1 MOV_U8 (Reg (R 2)) (Mem (R 1) (field i)), Op2 ALU_OR (R 0) (Reg (R 0)) (Reg (R 2))]) js) @ is) ?x =
      xexec env is (clobber (Some (byte_of ((c \<or> b j) \<or> (\<exists>i \<in> set js. b i)))) v ?x)"
    using Cons.IH [of ?x "c \<or> b j"] Cons.prems by auto
  show ?case
    using Cons.prems v by (auto simp: xexec_ins rd_alu_or step disj_assoc intro!: exI [of _ v])
qed

lemma exec_each_flag:
  assumes "xr x (R 1) = Some (XP p)" "\<forall>i \<in> set js. load env (xm x) MOV_U8 p (field i) = Some (byte_of (b i))"
  shows "\<exists>u. xexec env (concat (map (\<lambda>i. [Op1 MOV_U8 (Reg (R 0)) (Mem (R 1) (field i)), jump_nonzero l]) js) @ is) x =
    (if \<exists>i \<in> set js. b i then xgoto env l is (clobber u (xr x (R 2)) x) else xexec env is (clobber u (xr x (R 2)) x))"
  using assms
proof (induction js arbitrary: x)
  case Nil
  then show ?case by (auto intro: exI [of _ "xr x (R 0)"])
next
  case (Cons j js)
  let ?x = "set_reg (R 0) (byte_of (b j)) x"
  have x: "?x = clobber (Some (byte_of (b j))) (xr x (R 2)) x"
    by (simp add: set_reg_def clobber_def) (rule arg_cong [where f = "\<lambda>g. x\<lparr>xr := g\<rparr>"], simp add: fun_eq_iff)
  have c: "clobber u (xr ?x (R 2)) ?x = clobber u (xr x (R 2)) x" for u by simp
  have pl: "plain (concat (map (\<lambda>i. [Op1 MOV_U8 (Reg (R 0)) (Mem (R 1) (field i)), jump_nonzero l]) js))"
    by (simp add: list_all_iff)
  obtain u where u: "xexec env (concat (map (\<lambda>i. [Op1 MOV_U8 (Reg (R 0)) (Mem (R 1) (field i)), jump_nonzero l]) js) @ is) ?x =
      (if \<exists>i \<in> set js. b i then xgoto env l is (clobber u (xr x (R 2)) x) else xexec env is (clobber u (xr x (R 2)) x))"
    using Cons.IH [of ?x] Cons.prems unfolding c by auto
  show ?case
  proof (cases "b j")
    case True
    then show ?thesis using Cons.prems x by (auto simp: xexec_ins xgoto_plain [OF pl])
  next
    case False
    then show ?thesis using Cons.prems u by (auto simp: xexec_ins)
  qed
qed

lemma exec_null_checks:
  assumes "xr x (R 1) = Some (XP p)" "\<forall>i < nargs. load env (xm x) MOV_U8 p (field i) = Some (byte_of (b i))"
  shows "\<exists>u v. xexec env (emit_null_checks field nargs l @ is) x =
    (if \<exists>i < nargs. b i then xgoto env l is (clobber u v x) else xexec env is (clobber u v x))"
proof (cases "nargs \<le> 4 \<and> 1 < nargs")
  case False
  have "\<exists>u. xexec env (emit_null_checks field nargs l @ is) x =
      (if \<exists>i < nargs. b i then xgoto env l is (clobber u (xr x (R 2)) x) else xexec env is (clobber u (xr x (R 2)) x))"
    using exec_each_flag [of x p "[0..<nargs]" env field b l "is"] assms
    unfolding emit_null_checks_def if_not_P [OF False] by (simp add: Bex_def)
  then show ?thesis by blast
next
  case True
  let ?x = "set_reg (R 0) (byte_of (b 0)) x"
  have x: "clobber u v ?x = clobber u v x" for u v by simp
  have ex: "(\<exists>i < nargs. b i) \<longleftrightarrow> b 0 \<or> (\<exists>i \<in> set [1..<nargs]. b i)"
  proof -
    have "{..<nargs} = insert 0 (set [1..<nargs])" using True by auto
    then have "(\<exists>i \<in> {..<nargs}. b i) \<longleftrightarrow> (\<exists>i \<in> insert 0 (set [1..<nargs]). b i)" by (rule arg_cong)
    then show ?thesis by (simp only: lessThan_iff Bex_def) auto
  qed
  obtain v where "xexec env (concat (map (\<lambda>i. [Op1 MOV_U8 (Reg (R 2)) (Mem (R 1) (field i)), Op2 ALU_OR (R 0) (Reg (R 0)) (Reg (R 2))]) [1..<nargs]) @
        [jump_nonzero l] @ is) ?x =
      xexec env ([jump_nonzero l] @ is) (clobber (Some (byte_of (b 0 \<or> (\<exists>i \<in> set [1..<nargs]. b i)))) v ?x)"
    using exec_or_flags [of ?x p "[1..<nargs]" env field b "b 0" "[jump_nonzero l] @ is"] assms True by auto
  then have "xexec env (emit_null_checks field nargs l @ is) x =
      xexec env ([jump_nonzero l] @ is) (clobber (Some (byte_of (\<exists>i < nargs. b i))) v x)"
    using True assms unfolding ex by (simp add: emit_null_checks_def xexec_ins)
  then show ?thesis by (auto simp: xexec_ins)
qed

section \<open>Calls\<close>

lemma after_call_set_reg [simp]:
  "after_call r m (set_reg (R i) v x) = after_call r m x" "after_call r m (clobber u0 u2 x) = after_call r m x"
  "after_call r m (x\<lparr>xm := m'\<rparr>) = after_call r m x" "after_call r m (x\<lparr>xz := z\<rparr>) = after_call r m x"
  by (auto simp: after_call_def set_reg_def clobber_def fun_eq_iff split: xreg.splits)

lemma exec_v1:
  "xr x (R 0) = Some (XP (P_frame f)) \<Longrightarrow> xexec env (Icall (C_v1 fn) # is) x =
     (case call_frame (x_pg env) fn f (xm x) of Inl e \<Rightarrow> Some (Inl e) | Inr (d, m) \<Rightarrow> xexec env is (after_call (Some (XN d)) m x))"
  by (simp add: xexec_ins do_call_def ret_val_def Let_def split: sum.splits)

lemma exec_call_fn:
  "\<lbrakk>xr x (R 0) = Some (XP (P_frame f)); steps_ok cfg x; opno < length (x_steps env); fn_of (opcode (x_steps env ! opno)) = Some fn\<rbrakk> \<Longrightarrow>
   xexec env (emit_call_fn cfg opno fn @ is) x =
     (case call_frame (x_pg env) fn f (xm x) of Inl e \<Rightarrow> Some (Inl e) | Inr (d, m) \<Rightarrow> xexec env is (after_call (Some (XN d)) m x))"
  by (auto simp: emit_call_fn_def exec_v1 exec_load_step_field load_step_def xexec_ins do_call_def ret_val_def Let_def split: sum.splits)

lemma exec_eval3:
  "\<lbrakk>xr x (S 0) = Some (XP P_state); xr x (S 1) = Some (XP P_econtext); steps_ok cfg x\<rbrakk> \<Longrightarrow>
   xexec env (emit_eval3 cfg opno name @ is) x =
     (case exec_eval (x_pg env) name None opno (xm x) of Inl e \<Rightarrow> Some (Inl e) | Inr m \<Rightarrow> xexec env is (after_call None m x))"
  by (auto simp: emit_eval3_def emit_eval_args_def xexec_ins exec_load_step_addr do_call_def ret_void_def Let_def split: sum.splits)

lemma exec_eval2:
  "\<lbrakk>xr x (S 0) = Some (XP P_state); steps_ok cfg x\<rbrakk> \<Longrightarrow>
   xexec env (emit_eval2 cfg opno name @ is) x =
     (case exec_eval (x_pg env) name None opno (xm x) of Inl e \<Rightarrow> Some (Inl e) | Inr m \<Rightarrow> xexec env is (after_call None m x))"
  by (auto simp: emit_eval2_def xexec_ins exec_load_step_addr do_call_def ret_void_def Let_def split: sum.splits)

end
