(* ===== verification/ExprSim.thy ===== *)
theory ExprSim
  imports ExprExec
begin

text \<open>
  The emitted code of a step does what the step does. \<open>jitted_step\<close> is the step as \<open>pg_jitter_fallback_step\<close> executes it,
  with the four departures of the native code: functions with a native version are called directly, a jump on a false condition leaves the result as it is,
  a test value without a pointer comes from the expression context, and a value made read-only for the result slot stays as it is in the state.
\<close>

section \<open>Steps of the native code\<close>

definition called_directly :: "emit_cfg \<Rightarrow> fn_addr \<Rightarrow> direct_info option" where
  "called_directly cfg fn = Option.bind (direct_fn cfg fn) (\<lambda>dfn. if dfn_has_fn dfn then Some dfn else None)"

definition direct_args :: "'w pg_fns \<Rightarrow> direct_info \<Rightarrow> nat \<Rightarrow> 'w expr_mem \<Rightarrow> Datum list" where
  "direct_args pg dfn f m =
     map (\<lambda>i. vals m (Arg f i)) [0..<dfn_nargs dfn] @ (if dfn_collation dfn then [ucast (fc_collation pg f)] else [])"

definition direct_funcexpr :: "'w xenv \<Rightarrow> direct_info \<Rightarrow> strictness \<Rightarrow> fn_addr \<Rightarrow> nat \<Rightarrow> nat \<Rightarrow> ExprEvalStep \<Rightarrow> 'w expr_mem \<Rightarrow> 'w step_result" where
  "direct_funcexpr env dfn strict fn f nargs op m =
     (if strict \<noteq> NON_STRICT \<and> any_arg_null f 0 nargs m then cont (set_null (resnull op) True m)
      else bind_err (direct_call env fn (direct_args (x_pg env) dfn f m) (world m)) (\<lambda>(d, w). cont (copy_pair op (d, False) (m\<lparr>world := w\<rparr>))))"

definition jitted_step :: "'w xenv \<Rightarrow> emit_cfg \<Rightarrow> nat \<Rightarrow> 'w expr_mem \<Rightarrow> 'w step_result" where
  "jitted_step env cfg opno m =
     (let op = x_steps env ! opno; pg = x_pg env; as_fallback = pg_jitter_fallback_step pg op opno m in
      case opcode op of
        EEOP_FUNCEXPR strict fn f nargs \<Rightarrow>
          (case called_directly cfg fn of None \<Rightarrow> as_fallback | Some dfn \<Rightarrow> direct_funcexpr env dfn strict fn f nargs op m)
      | EEOP_JUMP_IF_NOT_TRUE jumpdone \<Rightarrow> if nulls m (resnull op) \<or> \<not> DatumGetBool (vals m (resvalue op)) then goto jumpdone m else cont m
      | EEOP_ASSIGN_TMP_MAKE_RO resultnum \<Rightarrow>
          cont (set_result resultnum (if nulls m Result then vals m Result else make_readonly pg (vals m Result)) (nulls m Result) m)
      | EEOP_CASE_TESTVAL None _ \<Rightarrow> cont (copy_pair op (caseValue m) m)
      | EEOP_DOMAIN_TESTVAL None _ \<Rightarrow> cont (copy_pair op (domainValue m) m)
      | _ \<Rightarrow> as_fallback)"

section \<open>Following a step\<close>

text \<open>However the code goes on, it first does what \<open>spec\<close> says and is then at the next step or at the target of a jump.\<close>

definition follows :: "'w xenv \<Rightarrow> emit_cfg \<Rightarrow> (slot_kind \<Rightarrow> bool) \<Rightarrow> xins list \<Rightarrow> 'w xmachine \<Rightarrow> 'w step_result \<Rightarrow> bool" where
  "follows env cfg cached code x spec \<longleftrightarrow>
     (case spec of None \<Rightarrow> True
      | Some (Inl e) \<Rightarrow> \<forall>rest. xexec env (code @ rest) x = Some (Inl e)
      | Some (Inr (t, m')) \<Rightarrow> \<forall>rest. \<exists>x'. ready env cfg cached x' \<and> xm x' = m' \<and> isnull_out x' = isnull_out x \<and>
          xexec env (code @ rest) x = (if t < 0 then xexec env rest x' else xgoto env (L_step (nat t)) rest x'))"

lemma followsI:
  "\<forall>rest. \<exists>x'. ready env cfg cached x' \<and> xm x' = m' \<and> isnull_out x' = isnull_out x \<and> xexec env (code @ rest) x = xexec env rest x' \<Longrightarrow>
   follows env cfg cached code x (cont m')"
  "\<forall>rest. \<exists>x'. ready env cfg cached x' \<and> xm x' = m' \<and> isnull_out x' = isnull_out x \<and> xexec env (code @ rest) x = xgoto env (L_step t) rest x' \<Longrightarrow>
   follows env cfg cached code x (goto t m')"
  "\<forall>rest. xexec env (code @ rest) x = Some (Inl e) \<Longrightarrow> follows env cfg cached code x (Some (Inl e))"
  by (simp_all add: follows_def)

lemma sim_exI:
  "\<lbrakk>ready env cfg cached x'; xm x' = m'; isnull_out x' = b\<rbrakk> \<Longrightarrow>
   \<exists>y. ready env cfg cached y \<and> xm y = m' \<and> isnull_out y = b \<and> xexec env rest x' = xexec env rest y"
  "\<lbrakk>ready env cfg cached x'; xm x' = m'; isnull_out x' = b\<rbrakk> \<Longrightarrow>
   \<exists>y. ready env cfg cached y \<and> xm y = m' \<and> isnull_out y = b \<and> xgoto env l rest x' = xgoto env l rest y"
  by auto

definition at_step :: "'w xenv \<Rightarrow> emit_cfg \<Rightarrow> (slot_kind \<Rightarrow> bool) \<Rightarrow> nat \<Rightarrow> ExprEvalStep \<Rightarrow> 'w xmachine \<Rightarrow> bool" where
  "at_step env cfg cached opno op x \<longleftrightarrow> ready env cfg cached x \<and> opno < length (x_steps env) \<and> x_steps env ! opno = op \<and> results_paired op"

lemma at_stepD:
  assumes "at_step env cfg cached opno op x"
  shows "ready env cfg cached x" "opno < length (x_steps env)" "x_steps env ! opno = op" "results_paired op"
    "xr x (S 0) = Some (XP P_state)" "xr x (S 1) = Some (XP P_econtext)" "xr x (S 2) = Some (XP P_isnull_out)" "steps_ok cfg x"
  using assms by (auto simp: at_step_def ready_def)

lemmas exec_rules = xexec_ins exec_load_step_field exec_load_step_addr exec_load_resvalue exec_load_resnull exec_store_resvalue
  exec_store_resnull exec_store_res_pair exec_load_resvalue_addr exec_v1 exec_call_fn exec_eval3 exec_eval2

lemmas jitted_defs = jitted_step_def pg_jitter_fallback_step_def BoolGetDatum_def DatumGetBool_def Let_def

lemma sim_not:
  assumes "at_step env cfg cached opno op x" "opcode op = EEOP_BOOL_NOT_STEP"
  shows "follows env cfg cached (emit_not cfg opno op) x (jitted_step env cfg opno (xm x))"
proof -
  note c = at_stepD [OF assms(1)]
  show ?thesis using c assms(2)
    by (auto simp: jitted_step_def pg_jitter_fallback_step_def emit_not_def exec_rules BoolGetDatum_def DatumGetBool_def reg_simps
        intro!: followsI sim_exI)
qed

lemma sim_qual:
  assumes "at_step env cfg cached opno op x" "opcode op = EEOP_QUAL jumpdone"
  shows "follows env cfg cached (emit_qual cfg opno op jumpdone) x (jitted_step env cfg opno (xm x))"
proof -
  note c = at_stepD [OF assms(1)]
  show ?thesis using c assms(2)
    by (auto simp: jitted_step_def pg_jitter_fallback_step_def fallback_qual_def emit_qual_def exec_rules BoolGetDatum_def DatumGetBool_def
        reg_simps intro!: followsI sim_exI)
qed

lemma sim_jumps:
  assumes "at_step env cfg cached opno op x"
  shows "opcode op = EEOP_JUMP t \<Longrightarrow> follows env cfg cached [Jump (L_step t)] x (jitted_step env cfg opno (xm x))"
    "opcode op = EEOP_JUMP_IF_NULL t \<Longrightarrow> follows env cfg cached (emit_jump_if_null cfg opno op t) x (jitted_step env cfg opno (xm x))"
    "opcode op = EEOP_JUMP_IF_NOT_NULL t \<Longrightarrow> follows env cfg cached (emit_jump_if_not_null cfg opno op t) x (jitted_step env cfg opno (xm x))"
    "opcode op = EEOP_JUMP_IF_NOT_TRUE t \<Longrightarrow> follows env cfg cached (emit_jump_if_not_true cfg opno op t) x (jitted_step env cfg opno (xm x))"
proof -
  note c = at_stepD [OF assms(1)]
  show "opcode op = EEOP_JUMP t \<Longrightarrow> follows env cfg cached [Jump (L_step t)] x (jitted_step env cfg opno (xm x))"
    using c by (auto simp: jitted_defs exec_rules intro!: followsI sim_exI)
  show "opcode op = EEOP_JUMP_IF_NULL t \<Longrightarrow> follows env cfg cached (emit_jump_if_null cfg opno op t) x (jitted_step env cfg opno (xm x))"
    using c by (auto simp: jitted_defs emit_jump_if_null_def exec_rules reg_simps intro!: followsI sim_exI)
  show "opcode op = EEOP_JUMP_IF_NOT_NULL t \<Longrightarrow> follows env cfg cached (emit_jump_if_not_null cfg opno op t) x (jitted_step env cfg opno (xm x))"
    using c by (auto simp: jitted_defs emit_jump_if_not_null_def exec_rules reg_simps intro!: followsI sim_exI)
  show "opcode op = EEOP_JUMP_IF_NOT_TRUE t \<Longrightarrow> follows env cfg cached (emit_jump_if_not_true cfg opno op t) x (jitted_step env cfg opno (xm x))"
    using c by (auto simp: jitted_defs emit_jump_if_not_true_def exec_rules reg_simps intro!: followsI sim_exI)
qed

lemma alu_xor_byte [simp]: "alu ALU_XOR (byte_of b) (XN 1) = Some (byte_of (\<not> b))"
  by (cases b; simp add: alu_def byte_of_def)

lemma rd_alu_xor: "rd_alu env ALU_XOR (Reg a) (Imm k) x = Option.bind (xr x a) (\<lambda>u. alu ALU_XOR u (XN k))"
  by (simp add: rd_alu_def split: option.splits xval.splits ptr.splits)

lemma sim_nulltest:
  assumes "at_step env cfg cached opno op x"
  shows "opcode op = EEOP_NULLTEST_ISNULL \<Longrightarrow> follows env cfg cached (emit_nulltest cfg opno op True) x (jitted_step env cfg opno (xm x))"
    "opcode op = EEOP_NULLTEST_ISNOTNULL \<Longrightarrow> follows env cfg cached (emit_nulltest cfg opno op False) x (jitted_step env cfg opno (xm x))"
proof -
  note c = at_stepD [OF assms(1)]
  show "opcode op = EEOP_NULLTEST_ISNULL \<Longrightarrow> follows env cfg cached (emit_nulltest cfg opno op True) x (jitted_step env cfg opno (xm x))"
    using c by (auto simp: jitted_defs emit_nulltest_def exec_rules reg_simps intro!: followsI sim_exI)
  show "opcode op = EEOP_NULLTEST_ISNOTNULL \<Longrightarrow> follows env cfg cached (emit_nulltest cfg opno op False) x (jitted_step env cfg opno (xm x))"
    using c by (auto simp: jitted_defs emit_nulltest_def exec_rules reg_simps rd_alu_xor intro!: followsI sim_exI)
qed

lemma sim_booltest:
  assumes "at_step env cfg cached opno op x" "opcode op = EEOP_BOOLTEST t"
  shows "follows env cfg cached (emit_booltest cfg opno op t) x (jitted_step env cfg opno (xm x))"
proof -
  note c = at_stepD [OF assms(1)]
  show ?thesis using c assms(2)
    by (cases t) (auto simp: jitted_defs emit_not_def exec_rules reg_simps intro!: followsI sim_exI)
qed

lemma sim_bool_step:
  assumes "at_step env cfg cached opno op x"
  shows "opcode op = EEOP_BOOL_AND_STEP pos a t \<Longrightarrow> follows env cfg cached (emit_bool_and_step cfg opno op pos t) x (jitted_step env cfg opno (xm x))"
    "opcode op = EEOP_BOOL_OR_STEP pos a t \<Longrightarrow> follows env cfg cached (emit_bool_or_step cfg opno op pos t) x (jitted_step env cfg opno (xm x))"
proof -
  note c = at_stepD [OF assms(1)]
  have sb: "store_bool (P_anynull a) F_zero b x = Some (x\<lparr>xm := set_anynull a b (xm x)\<rparr>)" for a b and x :: "'a xmachine"
    by (simp add: store_bool_def)
  have lb: "load env m MOV_U8 (P_anynull a) F_zero = Some (byte_of (anynulls m a))" for a m
    by (simp add: load_def)
  note d = jitted_defs fallback_and_step_def fallback_or_step_def and_or_last_def emit_bool_and_step_def emit_bool_or_step_def emit_bool_step_def
    exec_rules reg_simps load_step_def anynull_of_def sb lb
  show "opcode op = EEOP_BOOL_AND_STEP pos a t \<Longrightarrow> follows env cfg cached (emit_bool_and_step cfg opno op pos t) x (jitted_step env cfg opno (xm x))"
    using c by (cases pos; cases "nulls (xm x) (resnull op)"; cases "vals (xm x) (resvalue op) = 0"; cases "anynulls (xm x) a")
      (auto simp: d intro!: followsI sim_exI)
  show "opcode op = EEOP_BOOL_OR_STEP pos a t \<Longrightarrow> follows env cfg cached (emit_bool_or_step cfg opno op pos t) x (jitted_step env cfg opno (xm x))"
    using c by (cases pos; cases "nulls (xm x) (resnull op)"; cases "vals (xm x) (resvalue op) = 0"; cases "anynulls (xm x) a")
      (auto simp: d intro!: followsI sim_exI)
qed

section \<open>Copies\<close>

lemma copy_pair_alt: "copy_pair op (d, b) m = set_null (resnull op) b (set_val (resvalue op) d m)"
  by (simp add: copy_pair_def)

lemma sim_const:
  assumes "at_step env cfg cached opno op x" "opcode op = EEOP_CONST value isnull"
  shows "follows env cfg cached (emit_const cfg opno op value isnull) x (jitted_step env cfg opno (xm x))"
proof -
  note c = at_stepD [OF assms(1)]
  show ?thesis using c assms(2)
    by (cases "shared_code_mode cfg"; cases isnull)
      (auto simp: jitted_defs emit_const_def exec_rules reg_simps load_step_def copy_pair_alt intro!: followsI sim_exI)
qed

lemma follows_copy:
  assumes "at_step env cfg cached opno op x"
    "rd env MOV value x = Some (XN d)" "\<And>u m. rd env MOV_U8 isnull ((set_reg (R 0) (XN d) x)) = Some (byte_of b)"
    "rd env MOV_U8 isnull (st_val op d (set_reg (R 0) (XN d) x)) = Some (byte_of b)"
  shows "follows env cfg cached (emit_copy cfg opno op value isnull) x (cont (copy_pair op (d, b) (xm x)))"
proof -
  note c = at_stepD [OF assms(1)]
  show ?thesis using c assms(2-)
    by (auto simp: emit_copy_def exec_rules reg_simps copy_pair_alt intro!: followsI sim_exI)
qed

lemma sim_copies:
  assumes "at_step env cfg cached opno op x"
  shows "opcode op = EEOP_CASE_TESTVAL_EXT \<Longrightarrow> follows env cfg cached (emit_case_testval_ext cfg opno op) x (jitted_step env cfg opno (xm x))"
    "opcode op = EEOP_DOMAIN_TESTVAL_EXT \<Longrightarrow> follows env cfg cached (emit_domain_testval_ext cfg opno op) x (jitted_step env cfg opno (xm x))"
    "opcode op = EEOP_CASE_TESTVAL None l \<Longrightarrow> follows env cfg cached (emit_case_testval cfg opno op None) x (jitted_step env cfg opno (xm x))"
    "opcode op = EEOP_DOMAIN_TESTVAL None l \<Longrightarrow> follows env cfg cached (emit_domain_testval cfg opno op None) x (jitted_step env cfg opno (xm x))"
    "opcode op = EEOP_AGGREF n \<Longrightarrow> follows env cfg cached (emit_aggref cfg opno op n) x (jitted_step env cfg opno (xm x))"
proof -
  note c = at_stepD [OF assms(1)]
  have ca: "follows env cfg cached (emit_copy cfg opno op (Mem (S 1) F_case_datum) (Mem (S 1) F_case_isnull)) x (cont (copy_pair op (caseValue (xm x)) (xm x)))"
    using follows_copy [OF assms, of "Mem (S 1) F_case_datum" "fst (caseValue (xm x))" "Mem (S 1) F_case_isnull" "snd (caseValue (xm x))"] c
    by (simp add: load_def)
  have do: "follows env cfg cached (emit_copy cfg opno op (Mem (S 1) F_domain_datum) (Mem (S 1) F_domain_isnull)) x (cont (copy_pair op (domainValue (xm x)) (xm x)))"
    using follows_copy [OF assms, of "Mem (S 1) F_domain_datum" "fst (domainValue (xm x))" "Mem (S 1) F_domain_isnull" "snd (domainValue (xm x))"] c
    by (simp add: load_def)
  show "opcode op = EEOP_CASE_TESTVAL_EXT \<Longrightarrow> follows env cfg cached (emit_case_testval_ext cfg opno op) x (jitted_step env cfg opno (xm x))"
    "opcode op = EEOP_CASE_TESTVAL None l \<Longrightarrow> follows env cfg cached (emit_case_testval cfg opno op None) x (jitted_step env cfg opno (xm x))"
    using c ca by (simp_all add: jitted_defs emit_case_testval_ext_def emit_case_testval_def)
  show "opcode op = EEOP_DOMAIN_TESTVAL_EXT \<Longrightarrow> follows env cfg cached (emit_domain_testval_ext cfg opno op) x (jitted_step env cfg opno (xm x))"
    "opcode op = EEOP_DOMAIN_TESTVAL None l \<Longrightarrow> follows env cfg cached (emit_domain_testval cfg opno op None) x (jitted_step env cfg opno (xm x))"
    using c do by (simp_all add: jitted_defs emit_domain_testval_ext_def emit_domain_testval_def)
  show "opcode op = EEOP_AGGREF n \<Longrightarrow> follows env cfg cached (emit_aggref cfg opno op n) x (jitted_step env cfg opno (xm x))"
    using c by (auto simp: jitted_defs emit_aggref_def exec_rules reg_simps copy_pair_alt load_def intro!: followsI sim_exI)
qed

lemma sim_testval:
  assumes "at_step env cfg cached opno op x"
  shows "opcode op = EEOP_CASE_TESTVAL (Some v) l \<Longrightarrow> follows env cfg cached (emit_case_testval cfg opno op (Some v)) x (jitted_step env cfg opno (xm x))"
    "opcode op = EEOP_DOMAIN_TESTVAL (Some v) l \<Longrightarrow> follows env cfg cached (emit_domain_testval cfg opno op (Some v)) x (jitted_step env cfg opno (xm x))"
proof -
  note c = at_stepD [OF assms(1)]
  note d = jitted_defs fallback_testval_def emit_case_testval_def emit_domain_testval_def emit_copy_from_step_def exec_rules reg_simps load_step_def testval_of_def
  show "opcode op = EEOP_CASE_TESTVAL (Some v) l \<Longrightarrow> follows env cfg cached (emit_case_testval cfg opno op (Some v)) x (jitted_step env cfg opno (xm x))"
    using c by (auto simp: d intro!: followsI sim_exI)
  show "opcode op = EEOP_DOMAIN_TESTVAL (Some v) l \<Longrightarrow> follows env cfg cached (emit_domain_testval cfg opno op (Some v)) x (jitted_step env cfg opno (xm x))"
    using c by (auto simp: d intro!: followsI sim_exI)
qed

lemma do_call_simps [simp]:
  "xr x (R 0) = Some (XN d) \<Longrightarrow> do_call env C_make_readonly x = Some (Inr (after_call (Some (XN (make_readonly (x_pg env) d))) (xm x) x))"
  "xr x (R 0) = Some (XP (P_frame f)) \<Longrightarrow> do_call env (C_v1 fn) x = ret_val (call_frame (x_pg env) fn f (xm x)) x"
  by (simp_all add: do_call_def Let_def)

lemma sim_make_readonly:
  assumes "at_step env cfg cached opno op x" "opcode op = EEOP_MAKE_READONLY v l"
  shows "follows env cfg cached (emit_make_readonly cfg opno op) x (jitted_step env cfg opno (xm x))"
proof -
  note c = at_stepD [OF assms(1)]
  show ?thesis using c assms(2)
    by (auto simp: jitted_defs fallback_make_readonly_def emit_make_readonly_def exec_rules reg_simps load_step_def
        intro!: followsI sim_exI)
qed

lemma sim_returningexpr:
  assumes "at_step env cfg cached opno op x" "opcode op = EEOP_RETURNINGEXPR nullflag t"
  shows "follows env cfg cached (emit_returningexpr cfg opno op nullflag t) x (jitted_step env cfg opno (xm x))"
proof -
  note c = at_stepD [OF assms(1)]
  have f: "(scast (ucast (ucast (f :: uint8) OR push_bit 8 (r :: 64 word)) :: int32) :: 64 word) AND ucast (nullflag :: uint8) = ucast (f AND nullflag)" for f r
    by (rule bit_word_eqI) (auto simp: bit_simps dest: bit_imp_le_length)
  have z: "(ucast (w :: uint8) :: 64 word) = 0 \<longleftrightarrow> w = 0" for w
    by (auto simp: bit_eq_iff bit_simps) (use bit_imp_le_length [of w] in fastforce)
  show ?thesis using c assms(2)
    by (auto simp: jitted_defs fallback_returningexpr_def emit_returningexpr_def exec_rules reg_simps load_def f z
        intro!: followsI sim_exI)
qed

text \<open>Steps that write to the result slot need one.\<close>

lemma ready_resultslot:
  "\<lbrakk>ready env cfg cached x; x_resultslot env\<rbrakk> \<Longrightarrow> xr x (S 3) = Some (XP P_rvalues) \<and> xr x (S 4) = Some (XP P_risnull)"
  by (simp add: ready_def)

lemma store_result_simps [simp]:
  "store_bool P_risnull (F_bool i) b x = Some (x\<lparr>xm := (xm x)\<lparr>result_isnull := (result_isnull (xm x))(i := b)\<rparr>\<rparr>)"
  "store_datum P_rvalues (F_datum i) d x = Some (x\<lparr>xm := (xm x)\<lparr>result_values := (result_values (xm x))(i := d)\<rparr>\<rparr>)"
  by (simp_all add: store_bool_def store_datum_def)

lemma sim_assign_tmp:
  assumes "at_step env cfg cached opno op x" "x_resultslot env"
  shows "opcode op = EEOP_ASSIGN_TMP n \<Longrightarrow> follows env cfg cached (emit_assign_tmp opno False n) x (jitted_step env cfg opno (xm x))"
    "opcode op = EEOP_ASSIGN_TMP_MAKE_RO n \<Longrightarrow> follows env cfg cached (emit_assign_tmp opno True n) x (jitted_step env cfg opno (xm x))"
proof -
  note c = at_stepD [OF assms(1)]
  note r = ready_resultslot [OF c(1) assms(2)]
  show "opcode op = EEOP_ASSIGN_TMP n \<Longrightarrow> follows env cfg cached (emit_assign_tmp opno False n) x (jitted_step env cfg opno (xm x))"
    using c r by (auto simp: jitted_defs fallback_assign_tmp_def emit_assign_tmp_def set_result_def exec_rules reg_simps intro!: followsI sim_exI)
  show "opcode op = EEOP_ASSIGN_TMP_MAKE_RO n \<Longrightarrow> follows env cfg cached (emit_assign_tmp opno True n) x (jitted_step env cfg opno (xm x))"
    using c r by (cases "nulls (xm x) Result") (auto simp: jitted_defs emit_assign_tmp_def set_result_def exec_rules reg_simps intro!: followsI sim_exI)
qed

section \<open>Comparisons\<close>

lemma frame_access [simp]:
  "load env m MOV_U8 (P_frame g) (F_arg_isnull i) = Some (byte_of (nulls m (Arg g i)))"
  "load env m MOV_U8 (P_frame g) F_fc_isnull = Some (byte_of (fc_isnull m g))"
  "load env m MOV (P_frame g) (F_arg_value i) = Some (XN (vals m (Arg g i)))"
  "store_bool (P_frame g) (F_arg_isnull i) b x = Some (x\<lparr>xm := set_null (Arg g i) b (xm x)\<rparr>)"
  "store_bool (P_frame g) F_fc_isnull b x = Some (x\<lparr>xm := set_fc_isnull g b (xm x)\<rparr>)"
  "store_datum (P_frame g) (F_arg_value i) d x = Some (x\<lparr>xm := set_val (Arg g i) d (xm x)\<rparr>)"
  by (simp_all add: load_def store_bool_def store_datum_def)

lemma holds_bytes [simp]: "holds C_NOT_EQUAL (byte_of a) (byte_of b) = Some (a \<noteq> b)"
  by (cases a; cases b; simp add: holds_def byte_of_def)

lemma call_frame_cases:
  obtains (Error) e where "call_frame pg fn f m = Inl e" | (Value) d m' where "call_frame pg fn f m = Inr (d, m')"
  by (cases "call_frame pg fn f m") auto

lemma sim_distinct:
  assumes "at_step env cfg cached opno op x"
  shows "opcode op = EEOP_DISTINCT fn f \<Longrightarrow> follows env cfg cached (emit_distinct cfg opno op True fn) x (jitted_step env cfg opno (xm x))"
    "opcode op = EEOP_NOT_DISTINCT fn f \<Longrightarrow> follows env cfg cached (emit_distinct cfg opno op False fn) x (jitted_step env cfg opno (xm x))"
proof -
  note c = at_stepD [OF assms(1)]
  note d = jitted_defs fallback_distinct_def emit_distinct_def exec_rules reg_simps load_step_def frame_of_def fn_of_def
  show "opcode op = EEOP_DISTINCT fn f \<Longrightarrow> follows env cfg cached (emit_distinct cfg opno op True fn) x (jitted_step env cfg opno (xm x))"
    using c by (cases "nulls (xm x) (Arg f 0)"; cases "nulls (xm x) (Arg f 1)";
        cases rule: call_frame_cases [of "x_pg env" fn f "set_fc_isnull f False (xm x)"]) (auto simp: d intro!: followsI sim_exI)
  show "opcode op = EEOP_NOT_DISTINCT fn f \<Longrightarrow> follows env cfg cached (emit_distinct cfg opno op False fn) x (jitted_step env cfg opno (xm x))"
    using c by (cases "nulls (xm x) (Arg f 0)"; cases "nulls (xm x) (Arg f 1)";
        cases rule: call_frame_cases [of "x_pg env" fn f "set_fc_isnull f False (xm x)"]) (auto simp: d intro!: followsI sim_exI)
qed

lemma sim_nullif:
  assumes "at_step env cfg cached opno op x" "opcode op = EEOP_NULLIF fn f"
  shows "follows env cfg cached (emit_nullif cfg opno op fn) x (jitted_step env cfg opno (xm x))"
proof -
  note c = at_stepD [OF assms(1)]
  note d = jitted_defs fallback_nullif_def emit_nullif_def exec_rules reg_simps load_step_def frame_of_def fn_of_def
  show ?thesis
  proof (cases "nulls (xm x) (Arg f 0) \<or> nulls (xm x) (Arg f 1)")
    case True
    then show ?thesis using c assms(2) by (cases "nulls (xm x) (Arg f 0)") (auto simp: d intro!: followsI sim_exI)
  next
    case False
    then show ?thesis
    proof (cases rule: call_frame_cases [of "x_pg env" fn f "set_fc_isnull f False (xm x)"])
      case (Error e)
      then show ?thesis using c assms(2) False by (auto simp: d intro!: followsI sim_exI)
    next
      case (Value dv m')
      then show ?thesis using c assms(2) False
        by (cases "fc_isnull m' f"; cases "dv = 0") (auto simp: d intro!: followsI sim_exI)
    qed
  qed
qed

lemma sim_rowcompare_final:
  assumes "at_step env cfg cached opno op x" "opcode op = EEOP_ROWCOMPARE_FINAL t" "t \<noteq> COMPARE_EQ" "t \<noteq> COMPARE_NE"
  shows "follows env cfg cached (emit_rowcompare_final cfg opno op t) x (jitted_step env cfg opno (xm x))"
proof -
  note c = at_stepD [OF assms(1)]
  have l: "load env m MOV_S32 (P_val l) F_zero = Some (XN (scast (DatumGetInt32 (vals m l))))" for m l by (simp add: load_def)
  have i: "sint (scast (w :: int32) :: 64 word) = sint w" for w by (rule sint_up_scast) (simp add: is_up)
  show ?thesis using c assms(2-)
    by (cases t; cases "sint (DatumGetInt32 (vals (xm x) (resvalue op)))" "0 :: int" rule: linorder_cases)
      (auto simp: jitted_defs fallback_rowcompare_final_def emit_rowcompare_final_def cmp_flag_def exec_rules reg_simps l i holds_def
        intro!: followsI sim_exI)
qed

text \<open>The comparison function of a row comparison returns an \<open>int32\<close>, so that its datum is zero exactly when its low half is.\<close>

definition int32_result :: "'w pg_fns \<Rightarrow> fn_addr \<Rightarrow> bool" where
  "int32_result pg fn \<longleftrightarrow> (\<forall>args b w d b' w'. v1_call pg fn args b w = Inr (d, b', w') \<longrightarrow> d = scast (DatumGetInt32 d))"

lemma int32_result_zero: "\<lbrakk>int32_result pg fn; call_frame pg fn f m = Inr (d, m')\<rbrakk> \<Longrightarrow> DatumGetInt32 d = 0 \<longleftrightarrow> d = 0"
  by (auto simp: int32_result_def call_frame_def DatumGetInt32_def split: sum.splits prod.splits) (metis scast_0)

lemma sim_rowcompare_step:
  assumes "at_step env cfg cached opno op x" "opcode op = EEOP_ROWCOMPARE_STEP fn f strict t1 t2" "int32_result (x_pg env) fn"
  shows "follows env cfg cached (emit_rowcompare_step cfg opno op fn strict t1 t2) x (jitted_step env cfg opno (xm x))"
proof -
  note c = at_stepD [OF assms(1)]
  note d = jitted_defs fallback_rowcompare_step_def emit_rowcompare_step_def exec_rules reg_simps load_step_def frame_of_def fn_of_def rd_alu_or
  show ?thesis
  proof (cases "strict \<and> (nulls (xm x) (Arg f 0) \<or> nulls (xm x) (Arg f 1))")
    case True
    then show ?thesis using c assms(2)
      by (cases "nulls (xm x) (Arg f 0)"; cases "nulls (xm x) (Arg f 1)") (auto simp: d intro!: followsI sim_exI)
  next
    case False
    show ?thesis
    proof (cases rule: call_frame_cases [of "x_pg env" fn f "set_fc_isnull f False (xm x)"])
      case (Error e)
      then show ?thesis using c assms(2) False by (cases strict) (auto simp: d ret_val_def intro!: followsI sim_exI)
    next
      case (Value dv m')
      have "DatumGetInt32 dv = 0 \<longleftrightarrow> dv = 0" by (rule int32_result_zero [OF assms(3) Value])
      then show ?thesis using c assms(2) False Value
        by (cases strict; cases "fc_isnull m' f"; cases "dv = 0") (auto simp: d ret_val_def intro!: followsI sim_exI)
    qed
  qed
qed

end
