(* ===== verification/ExprCalls.thy ===== *)
theory ExprCalls
  imports ExprSim
begin

text \<open>
  The emitted code of the steps that call functions of PostgreSQL: function calls with their null checks, coercions, domains, aggregates and the
  steps whose work is one call.
\<close>

section \<open>Calls of one function\<close>

lemma sim_iocoerce:
  assumes "at_step env cfg cached opno op x" "opcode op = EEOP_IOCOERCE f_out f_in"
  shows "follows env cfg cached (emit_iocoerce cfg opno op (fc_fn_addr (x_pg env) f_out) (fc_fn_addr (x_pg env) f_in)) x
    (jitted_step env cfg opno (xm x))"
proof -
  note c = at_stepD [OF assms(1)]
  note d = jitted_defs fallback_iocoerce_def emit_iocoerce_def emit_set_arg_def exec_rules reg_simps load_step_def frame_of_def ret_val_def
  let ?m1 = "set_fc_isnull f_out False (set_null (Arg f_out 0) False (set_val (Arg f_out 0) (vals (xm x) (resvalue op)) (xm x)))"
  show ?thesis
  proof (cases "nulls (xm x) (resnull op)")
    case True
    then show ?thesis using c assms(2) by (auto simp: d intro!: followsI sim_exI)
  next
    case False
    show ?thesis
    proof (cases rule: call_frame_cases [of "x_pg env" "fc_fn_addr (x_pg env) f_out" f_out ?m1])
      case (Error e)
      then show ?thesis using c assms(2) False by (auto simp: d intro!: followsI sim_exI)
    next
      case (Value str m2)
      let ?m3 = "set_fc_isnull f_in False (set_null (Arg f_in 0) False (set_val (Arg f_in 0) str m2))"
      show ?thesis
      proof (cases rule: call_frame_cases [of "x_pg env" "fc_fn_addr (x_pg env) f_in" f_in ?m3])
        case (Error e)
        then show ?thesis using c assms(2) False Value by (auto simp: d intro!: followsI sim_exI)
      next
        case second: (Value dv m4)
        then show ?thesis using c assms(2) False Value by (auto simp: d intro!: followsI sim_exI)
      qed
    qed
  qed
qed

lemma sim_eval3:
  assumes "at_step env cfg cached opno op x" "opcode op = EEOP_EVAL e" "eval_fn e = (name, None)"
  shows "follows env cfg cached (emit_eval3 cfg opno name) x (jitted_step env cfg opno (xm x))"
proof -
  note c = at_stepD [OF assms(1)]
  show ?thesis using c assms(2,3)
    by (cases "exec_eval (x_pg env) name None opno (xm x)")
      (auto simp: jitted_defs call_eval_def exec_rules intro!: followsI sim_exI)
qed

lemma sim_eval2:
  assumes "at_step env cfg cached opno op x" "opcode op = EEOP_EVAL e" "eval_fn e = (name, None)"
  shows "follows env cfg cached (emit_eval2 cfg opno name) x (jitted_step env cfg opno (xm x))"
proof -
  note c = at_stepD [OF assms(1)]
  show ?thesis using c assms(2,3)
    by (cases "exec_eval (x_pg env) name None opno (xm x)")
      (auto simp: jitted_defs call_eval_def exec_rules intro!: followsI sim_exI)
qed

text \<open>PostgreSQL's functions for field selection and the conversion of row types leave a null as it is; its checks of domain constraints do nothing
  unless the constraint is violated.\<close>

definition null_kept :: "'w pg_fns \<Rightarrow> nat \<Rightarrow> ExprEvalStep \<Rightarrow> bool" where
  "null_kept pg opno op \<longleftrightarrow> (\<forall>name \<in> {''ExecEvalFieldSelect'', ''ExecEvalConvertRowtype''}. \<forall>m.
     nulls m (resnull op) \<longrightarrow> exec_eval pg name None opno m = Inr m)"

definition domain_checks :: "'w pg_fns \<Rightarrow> nat \<Rightarrow> ExprEvalStep \<Rightarrow> bool" where
  "domain_checks pg opno op \<longleftrightarrow>
     (\<forall>m. \<not> nulls m (resnull op) \<longrightarrow> exec_eval pg ''ExecEvalConstraintNotNull'' None opno m = Inr m) \<and>
     (\<forall>m v l. opcode op = EEOP_DOMAIN_CHECK v l \<longrightarrow> nulls m l \<or> DatumGetBool (vals m v) \<longrightarrow>
        exec_eval pg ''ExecEvalConstraintCheck'' None opno m = Inr m)"

lemma sim_fieldselect:
  assumes "at_step env cfg cached opno op x" "null_kept (x_pg env) opno op"
  shows "opcode op = EEOP_EVAL EEOP_FIELDSELECT \<Longrightarrow> follows env cfg cached (emit_fieldselect cfg opno op) x (jitted_step env cfg opno (xm x))"
    "opcode op = EEOP_EVAL EEOP_CONVERT_ROWTYPE \<Longrightarrow> follows env cfg cached (emit_convert_rowtype cfg opno op) x (jitted_step env cfg opno (xm x))"
proof -
  note c = at_stepD [OF assms(1)]
  note d = jitted_defs call_eval_def exec_rules emit_fieldselect_def emit_convert_rowtype_def reg_simps
  show "opcode op = EEOP_EVAL EEOP_FIELDSELECT \<Longrightarrow> follows env cfg cached (emit_fieldselect cfg opno op) x (jitted_step env cfg opno (xm x))"
    using c assms(2)
    by (cases "exec_eval (x_pg env) ''ExecEvalFieldSelect'' None opno (xm x)"; cases "nulls (xm x) (resnull op)")
      (auto simp: d null_kept_def intro!: followsI sim_exI)
  show "opcode op = EEOP_EVAL EEOP_CONVERT_ROWTYPE \<Longrightarrow> follows env cfg cached (emit_convert_rowtype cfg opno op) x (jitted_step env cfg opno (xm x))"
    using c assms(2)
    by (cases "exec_eval (x_pg env) ''ExecEvalConvertRowtype'' None opno (xm x)"; cases "nulls (xm x) (resnull op)")
      (auto simp: d null_kept_def intro!: followsI sim_exI)
qed

lemma sim_domain:
  assumes "at_step env cfg cached opno op x" "domain_checks (x_pg env) opno op"
  shows "opcode op = EEOP_DOMAIN_NOTNULL \<Longrightarrow> follows env cfg cached (emit_domain_notnull cfg opno op) x (jitted_step env cfg opno (xm x))"
    "opcode op = EEOP_DOMAIN_CHECK v l \<Longrightarrow> follows env cfg cached (emit_domain_check cfg opno) x (jitted_step env cfg opno (xm x))"
proof -
  note c = at_stepD [OF assms(1)]
  note d = jitted_defs call_eval_def exec_rules emit_domain_notnull_def emit_domain_check_def reg_simps load_step_def
  show "opcode op = EEOP_DOMAIN_NOTNULL \<Longrightarrow> follows env cfg cached (emit_domain_notnull cfg opno op) x (jitted_step env cfg opno (xm x))"
    using c assms(2)
    by (cases "exec_eval (x_pg env) ''ExecEvalConstraintNotNull'' None opno (xm x)"; cases "nulls (xm x) (resnull op)")
      (auto simp: d domain_checks_def intro!: followsI sim_exI)
  show "opcode op = EEOP_DOMAIN_CHECK v l \<Longrightarrow> follows env cfg cached (emit_domain_check cfg opno) x (jitted_step env cfg opno (xm x))"
    using c assms(2)
    by (cases "exec_eval (x_pg env) ''ExecEvalConstraintCheck'' None opno (xm x)"; cases "nulls (xm x) l"; cases "vals (xm x) v = 0")
      (auto simp: d domain_checks_def intro!: followsI sim_exI)
qed

lemma rd_byte_after_call [simp]: "rd env MOV_U8 (Reg (R 0)) (after_call (Some (byte_of b)) m x) = Some (byte_of b)"
  by (rule rd_byte) simp

lemma sim_sbsref_subscripts:
  assumes "at_step env cfg cached opno op x" "opcode op = EEOP_SBSREF_SUBSCRIPTS fn t"
  shows "follows env cfg cached (emit_sbsref_subscripts cfg opno fn t) x (jitted_step env cfg opno (xm x))"
proof -
  note c = at_stepD [OF assms(1)]
  show ?thesis using c assms(2)
    by (cases "exec_eval_int (x_pg env) fn opno (xm x)"; cases "fst (projr (exec_eval_int (x_pg env) fn opno (xm x))) = 0")
      (auto simp: jitted_defs emit_sbsref_subscripts_def emit_eval_args_def exec_rules do_call_def reg_simps intro!: followsI sim_exI)
qed

section \<open>Aggregates\<close>

lemma sim_agg_deserialize:
  assumes "at_step env cfg cached opno op x"
  shows "opcode op = EEOP_AGG_DESERIALIZE f \<Longrightarrow>
      follows env cfg cached (emit_agg_deserialize cfg opno op None (fc_fn_addr (x_pg env) f)) x (jitted_step env cfg opno (xm x))"
    "opcode op = EEOP_AGG_STRICT_DESERIALIZE f t \<Longrightarrow>
      follows env cfg cached (emit_agg_deserialize cfg opno op (Some t) (fc_fn_addr (x_pg env) f)) x (jitted_step env cfg opno (xm x))"
proof -
  note c = at_stepD [OF assms(1)]
  note d = jitted_defs fallback_agg_deserialize_def emit_agg_deserialize_def exec_rules reg_simps load_step_def frame_of_def ret_val_def
  show "opcode op = EEOP_AGG_DESERIALIZE f \<Longrightarrow>
      follows env cfg cached (emit_agg_deserialize cfg opno op None (fc_fn_addr (x_pg env) f)) x (jitted_step env cfg opno (xm x))"
    using c by (cases rule: call_frame_cases [of "x_pg env" "fc_fn_addr (x_pg env) f" f "set_fc_isnull f False (xm x)"])
      (auto simp: d intro!: followsI sim_exI)
  show "opcode op = EEOP_AGG_STRICT_DESERIALIZE f t \<Longrightarrow>
      follows env cfg cached (emit_agg_deserialize cfg opno op (Some t) (fc_fn_addr (x_pg env) f)) x (jitted_step env cfg opno (xm x))"
    using c by (cases "nulls (xm x) (Arg f 0)";
        cases rule: call_frame_cases [of "x_pg env" "fc_fn_addr (x_pg env) f" f "set_fc_isnull f False (xm x)"])
      (auto simp: d intro!: followsI sim_exI)
qed

lemma sim_pergroup_nullcheck:
  assumes "at_step env cfg cached opno op x" "opcode op = EEOP_AGG_PLAIN_PERGROUP_NULLCHECK n t"
  shows "follows env cfg cached (emit_pergroup_nullcheck n t) x (jitted_step env cfg opno (xm x))"
proof -
  note c = at_stepD [OF assms(1)]
  have h: "holds C_EQUAL (XP p) (XN 0) = Some False" for p by (simp add: holds_def)
  show ?thesis using c assms(2)
    by (cases "pergroups (xm x) n") (auto simp: jitted_defs emit_pergroup_nullcheck_def exec_rules load_def h intro!: followsI sim_exI)
qed

lemma sim_presorted:
  assumes "at_step env cfg cached opno op x"
  shows "opcode op = EEOP_AGG_PRESORTED_DISTINCT_SINGLE p t \<Longrightarrow>
      follows env cfg cached (emit_presorted cfg opno ''ExecEvalPreOrderedDistinctSingle'' t) x (jitted_step env cfg opno (xm x))"
    "opcode op = EEOP_AGG_PRESORTED_DISTINCT_MULTI p t \<Longrightarrow>
      follows env cfg cached (emit_presorted cfg opno ''ExecEvalPreOrderedDistinctMulti'' t) x (jitted_step env cfg opno (xm x))"
proof -
  note c = at_stepD [OF assms(1)]
  have l: "load env m MOV P_state F_parent = Some (XP P_aggstate)" for m by (simp add: load_def)
  note d = jitted_defs fallback_presorted_def emit_presorted_def exec_rules reg_simps load_step_def pertrans_of_def do_call_def l
  show "opcode op = EEOP_AGG_PRESORTED_DISTINCT_SINGLE p t \<Longrightarrow>
      follows env cfg cached (emit_presorted cfg opno ''ExecEvalPreOrderedDistinctSingle'' t) x (jitted_step env cfg opno (xm x))"
    using c by (cases "presorted_distinct (x_pg env) ''ExecEvalPreOrderedDistinctSingle'' p (xm x)";
        cases "fst (projr (presorted_distinct (x_pg env) ''ExecEvalPreOrderedDistinctSingle'' p (xm x)))")
      (auto simp: d intro!: followsI sim_exI)
  show "opcode op = EEOP_AGG_PRESORTED_DISTINCT_MULTI p t \<Longrightarrow>
      follows env cfg cached (emit_presorted cfg opno ''ExecEvalPreOrderedDistinctMulti'' t) x (jitted_step env cfg opno (xm x))"
    using c by (cases "presorted_distinct (x_pg env) ''ExecEvalPreOrderedDistinctMulti'' p (xm x)";
        cases "fst (projr (presorted_distinct (x_pg env) ''ExecEvalPreOrderedDistinctMulti'' p (xm x)))")
      (auto simp: d intro!: followsI sim_exI)
qed

lemma sim_agg_input_checks:
  assumes "at_step env cfg cached opno op x"
  shows "opcode op = EEOP_AGG_STRICT_INPUT_CHECK_ARGS kind f b nargs t \<Longrightarrow>
      follows env cfg cached (emit_agg_input_check cfg opno nargs t) x (jitted_step env cfg opno (xm x))"
    "opcode op = EEOP_AGG_STRICT_INPUT_CHECK_NULLS arr nargs t \<Longrightarrow>
      follows env cfg cached (emit_agg_input_check_nulls cfg opno nargs t) x (jitted_step env cfg opno (xm x))"
proof -
  note c = at_stepD [OF assms(1)]
  have fin: "follows env cfg cached code x (if P then goto t (xm x) else cont (xm x))"
    if "\<And>rest. \<exists>u v. xexec env (code @ rest) x = (if P then xgoto env (L_step t) rest (clobber u v (set_reg (R 1) p x))
      else xexec env rest (clobber u v (set_reg (R 1) p x)))" for code P p
    using that c(1) by (cases P) (auto simp: follows_def, (metis clobber_simps(3,4) xr_simps(4,5) ready_simps)+)
  show "follows env cfg cached (emit_agg_input_check cfg opno nargs t) x (jitted_step env cfg opno (xm x))"
    if op: "opcode op = EEOP_AGG_STRICT_INPUT_CHECK_ARGS kind f b nargs t"
  proof -
    let ?x = "set_reg (R 1) (XP (P_args f b)) x"
    have "\<exists>u v. xexec env (emit_null_checks F_nd_isnull nargs (L_step t) @ rest) ?x =
        (if \<exists>i < nargs. nulls (xm x) (Arg f (b + i)) then xgoto env (L_step t) rest (clobber u v ?x) else xexec env rest (clobber u v ?x))" for rest
      by (rule exec_null_checks [where p = "P_args f b"]) (simp_all add: load_def)
    then have "\<exists>u v. xexec env (emit_agg_input_check cfg opno nargs t @ rest) x =
        (if any_arg_null f b nargs (xm x) then xgoto env (L_step t) rest (clobber u v ?x) else xexec env rest (clobber u v ?x))" for rest
      using c op unfolding any_arg_null_def by (simp add: emit_agg_input_check_def exec_rules load_step_def)
    from fin [OF this] show ?thesis using c op by (simp add: jitted_defs)
  qed
  show "follows env cfg cached (emit_agg_input_check_nulls cfg opno nargs t) x (jitted_step env cfg opno (xm x))"
    if op: "opcode op = EEOP_AGG_STRICT_INPUT_CHECK_NULLS arr nargs t"
  proof -
    let ?x = "set_reg (R 1) (XP (P_nulls arr)) x"
    have "\<exists>u v. xexec env (emit_null_checks F_bool nargs (L_step t) @ rest) ?x =
        (if \<exists>i < nargs. nulls_arrays (xm x) arr i then xgoto env (L_step t) rest (clobber u v ?x) else xexec env rest (clobber u v ?x))" for rest
      by (rule exec_null_checks [where p = "P_nulls arr"]) (simp_all add: load_def)
    then have "\<exists>u v. xexec env (emit_agg_input_check_nulls cfg opno nargs t @ rest) x =
        (if \<exists>i < nargs. nulls_arrays (xm x) arr i then xgoto env (L_step t) rest (clobber u v ?x) else xexec env rest (clobber u v ?x))" for rest
      using c op by (simp add: emit_agg_input_check_nulls_def exec_rules load_step_def)
    from fin [OF this] show ?thesis using c op by (simp add: jitted_defs)
  qed
qed

section \<open>Function calls\<close>

text \<open>The arguments are loaded into the registers from the first on, while the frame stays in the register after the last.\<close>

lemma exec_load_args:
  assumes "xr x (R n) = Some (XP (P_frame f))" "k \<le> n"
  shows "\<exists>x'. xexec env (map (\<lambda>i. Op1 MOV (Reg (R i)) (Mem (R n) (F_arg_value i))) [0..<k] @ is) x = xexec env is x' \<and>
    (\<forall>i < k. xr x' (R i) = Some (XN (vals (xm x) (Arg f i)))) \<and> xr x' (R n) = Some (XP (P_frame f)) \<and> xm x' = xm x \<and>
    isnull_out x' = isnull_out x \<and> same_saved x x'"
  using assms(2)
proof (induction k arbitrary: "is")
  case 0
  then show ?case using assms(1) by auto
next
  case (Suc k)
  let ?load = "Op1 MOV (Reg (R k)) (Mem (R n) (F_arg_value k))"
  obtain x' where x': "xexec env (map (\<lambda>i. Op1 MOV (Reg (R i)) (Mem (R n) (F_arg_value i))) [0..<k] @ ?load # is) x = xexec env (?load # is) x'"
      "\<forall>i < k. xr x' (R i) = Some (XN (vals (xm x) (Arg f i)))" "xr x' (R n) = Some (XP (P_frame f))" "xm x' = xm x"
      "isnull_out x' = isnull_out x" "same_saved x x'"
    using Suc.IH [of "?load # is"] Suc.prems by auto
  let ?x = "set_reg (R k) (XN (vals (xm x) (Arg f k))) x'"
  have "xexec env (?load # is) x' = xexec env is ?x" using x'(3,4) by (simp add: xexec_ins)
  moreover have "\<forall>i < Suc k. xr ?x (R i) = Some (XN (vals (xm x) (Arg f i)))" using x'(2) by (auto simp: less_Suc_eq)
  ultimately show ?case using x' Suc.prems by (intro exI [of _ ?x]) auto
qed

lemma those_map_Some: "those (map (\<lambda>i. Some (f i)) xs) = Some (map f xs)"
  by (induction xs) auto

lemma reg_nums_args:
  assumes "\<forall>i < n. xr x (R i) = Some (XN (g i))"
  shows "reg_nums n x = Some (map g [0..<n])"
proof -
  have "map (\<lambda>i. case xr x (R i) of Some (XN d) \<Rightarrow> Some d | _ \<Rightarrow> None) [0..<n] = map (\<lambda>i. Some (g i)) [0..<n]"
    using assms by (auto intro!: map_cong)
  then show ?thesis unfolding reg_nums_def by (simp add: those_map_Some del: map_eq_conv)
qed

lemma follows_direct_call:
  assumes "at_step env cfg cached opno op x" "opcode op = EEOP_FUNCEXPR strict fn f nargs"
    "h \<Longrightarrow> xr x (R 1) = Some (XP (P_frame f))"
  shows "follows env cfg cached (emit_direct_call cfg opno op h fn dfn) x
    (bind_err (direct_call env fn (direct_args (x_pg env) dfn f (xm x)) (world (xm x)))
      (\<lambda>(d, w). cont (copy_pair op (d, False) ((xm x)\<lparr>world := w\<rparr>))))"
proof -
  note c = at_stepD [OF assms(1)]
  let ?k = "dfn_nargs dfn" let ?n = "?k + (if dfn_collation dfn then 1 else 0)"
  let ?args = "direct_args (x_pg env) dfn f (xm x)"
  let ?loads = "map (\<lambda>i. Op1 MOV (Reg (R i)) (Mem (R ?n) (F_arg_value i))) [0..<?k]"
  let ?coll = "if dfn_collation dfn then [Op1 MOV32 (Reg (R ?k)) (Mem (R ?n) F_fncollation)] else []"
  let ?call = "Icall (C_direct fn ?n) # emit_store_res_pair cfg opno op (Reg (R 0)) 0"
  have code: "emit_direct_call cfg opno op h fn dfn =
      (if h then [Op1 MOV (Reg (R ?n)) (Reg (R 1))] else emit_load_step_field cfg opno SF_fcinfo (R ?n)) @ ?loads @ ?coll @ ?call"
    by (simp add: emit_direct_call_def Let_def)
  let ?x = "set_reg (R ?n) (XP (P_frame f)) x"
  have first: "xexec env ((if h then [Op1 MOV (Reg (R ?n)) (Reg (R 1))] else emit_load_step_field cfg opno SF_fcinfo (R ?n)) @ is) x = xexec env is ?x" for "is"
    using c assms(2,3) by (auto simp: exec_rules load_step_def frame_of_def)
  have run: "\<exists>x'. xexec env (emit_direct_call cfg opno op h fn dfn @ rest) x = xexec env (?call @ rest) x' \<and> reg_nums ?n x' = Some ?args \<and>
      xm x' = xm x \<and> isnull_out x' = isnull_out x \<and> same_saved x x'" for rest
  proof -
    obtain x1 where x1: "xexec env (?loads @ ?coll @ ?call @ rest) ?x = xexec env (?coll @ ?call @ rest) x1"
        "\<forall>i < ?k. xr x1 (R i) = Some (XN (vals (xm x) (Arg f i)))" "xr x1 (R ?n) = Some (XP (P_frame f))" "xm x1 = xm x"
        "isnull_out x1 = isnull_out x" "same_saved x x1"
      using exec_load_args [of ?x ?n f ?k env "?coll @ ?call @ rest"] by (auto simp: same_saved_def)
    show ?thesis
    proof (cases "dfn_collation dfn")
      case False
      have "reg_nums ?n x1 = Some ?args"
        using reg_nums_args [of ?k x1 "\<lambda>i. vals (xm x) (Arg f i)"] x1(2) False by (simp add: direct_args_def)
      then show ?thesis using x1 False by (intro exI [of _ x1]) (simp add: code first)
    next
      case True
      let ?v = "ucast (fc_collation (x_pg env) f) :: 64 word"
      let ?x2 = "set_reg (R ?k) (XN ?v) x1"
      have "xexec env (?coll @ ?call @ rest) x1 = xexec env (?call @ rest) ?x2"
        using True x1(3) by (simp add: xexec_ins load_def)
      moreover have "reg_nums ?n ?x2 = Some (map (\<lambda>i. if i < ?k then vals (xm x) (Arg f i) else ?v) [0..<Suc ?k])"
        using reg_nums_args [of "Suc ?k" ?x2 "\<lambda>i. if i < ?k then vals (xm x) (Arg f i) else ?v"] x1(2) True by (simp add: less_Suc_eq One_nat_def)
      then have "reg_nums ?n ?x2 = Some ?args" using True by (simp add: direct_args_def)
      ultimately show ?thesis using x1 True by (intro exI [of _ ?x2]) (simp add: code first)
    qed
  qed
  show ?thesis
  proof (cases "direct_call env fn ?args (world (xm x))")
    case (Inl e)
    have "xexec env (emit_direct_call cfg opno op h fn dfn @ rest) x = Some (Inl e)" for rest
      using run [of rest] Inl by (auto simp: xexec_ins do_call_def Let_def)
    then show ?thesis using Inl by (simp add: follows_def)
  next
    case (Inr r)
    obtain d w where r: "r = (d, w)" by (cases r)
    have "\<exists>x'. ready env cfg cached x' \<and> xm x' = copy_pair op (d, False) ((xm x)\<lparr>world := w\<rparr>) \<and> isnull_out x' = isnull_out x \<and>
        xexec env (emit_direct_call cfg opno op h fn dfn @ rest) x = xexec env rest x'" for rest
    proof -
      obtain x1 where x1: "xexec env (emit_direct_call cfg opno op h fn dfn @ rest) x = xexec env (?call @ rest) x1" "reg_nums ?n x1 = Some ?args"
          "xm x1 = xm x" "isnull_out x1 = isnull_out x" "same_saved x x1" using run [of rest] by blast
      have sv: "ready env cfg cached x1" "steps_ok cfg x1" "xr x1 (S 0) = Some (XP P_state)"
        using c x1(5) ready_same [OF x1(5)] steps_ok_same [OF x1(5)] by (simp_all add: same_saved_def)
      show ?thesis unfolding x1(1)
        using Inr r x1(2-4) sv c
        by (auto simp: xexec_ins do_call_def Let_def exec_store_res_pair reg_simps copy_pair_alt intro!: sim_exI)
    qed
    then show ?thesis using Inr r by (simp add: follows_def)
  qed
qed

lemma follows_v1_call:
  assumes "at_step env cfg cached opno op x" "opcode op = EEOP_FUNCEXPR strict fn f nargs"
    "h \<Longrightarrow> xr x (R 1) = Some (XP (P_frame f))"
  shows "follows env cfg cached (emit_v1_call cfg opno op h fn) x
    (bind_err (call_frame (x_pg env) fn f (set_fc_isnull f False (xm x)))
      (\<lambda>(d, m1). let m2 = set_val (resvalue op) d m1 in cont (set_null (resnull op) (fc_isnull m2 f) m2)))"
proof -
  note c = at_stepD [OF assms(1)]
  show ?thesis using c assms(2,3)
    by (cases rule: call_frame_cases [of "x_pg env" fn f "set_fc_isnull f False (xm x)"]; cases h)
      (auto simp: emit_v1_call_def exec_rules reg_simps load_step_def frame_of_def fn_of_def intro!: followsI sim_exI)
qed

text \<open>The null checks before a call and the path they jump to.\<close>

lemma follows_null_path:
  assumes "at_step env cfg cached opno op x" "opcode op = EEOP_FUNCEXPR strict fn f nargs" "strict \<noteq> NON_STRICT" "plain body"
    and body: "\<And>x'. \<lbrakk>at_step env cfg cached opno op x'; xr x' (R 1) = Some (XP (P_frame f)); xm x' = xm x; isnull_out x' = isnull_out x\<rbrakk> \<Longrightarrow>
      follows env cfg cached body x' spec" and "\<And>t m. spec = Some (Inr (t, m)) \<Longrightarrow> t = - 1"
  shows "follows env cfg cached (emit_load_step_field cfg opno SF_fcinfo (R 1) @ emit_null_checks F_arg_isnull nargs (L_local opno 0) @ body @
      [Jump (L_local opno 1), Label (L_local opno 0)] @ emit_store_resnull cfg opno op (Imm 1) @ [Label (L_local opno 1)]) x
    (if any_arg_null f 0 nargs (xm x) then cont (set_null (resnull op) True (xm x)) else spec)"
    (is "follows _ _ _ ?code _ _")
proof -
  note c = at_stepD [OF assms(1)]
  let ?x = "set_reg (R 1) (XP (P_frame f)) x"
  let ?tail = "\<lambda>rest. [Jump (L_local opno 1), Label (L_local opno 0)] @ emit_store_resnull cfg opno op (Imm 1) @ [Label (L_local opno 1)] @ rest"
  have checks: "\<exists>u v. xexec env (?code @ rest) x =
      (if any_arg_null f 0 nargs (xm x) then xgoto env (L_local opno 0) (body @ ?tail rest) (clobber u v ?x)
       else xexec env (body @ ?tail rest) (clobber u v ?x))" for rest
    using exec_null_checks [of ?x "P_frame f" nargs env F_arg_isnull "\<lambda>i. nulls (xm x) (Arg f i)" "L_local opno 0" "body @ ?tail rest"] c assms(2)
    by (simp add: exec_rules load_step_def frame_of_def any_arg_null_def)
  have at: "at_step env cfg cached opno op (clobber u v ?x)" for u v using assms(1) by (simp add: at_step_def)
  show ?thesis
  proof (cases "any_arg_null f 0 nargs (xm x)")
    case True
    have "\<exists>x'. ready env cfg cached x' \<and> xm x' = set_null (resnull op) True (xm x) \<and> isnull_out x' = isnull_out x \<and>
        xexec env (?code @ rest) x = xexec env rest x'" for rest
    proof -
      obtain u v where "xexec env (?code @ rest) x = xgoto env (L_local opno 0) (body @ ?tail rest) (clobber u v ?x)"
        using checks [of rest] True by auto
      then show ?thesis using c by (auto simp: exec_rules xgoto_plain [OF assms(4)] intro!: sim_exI)
    qed
    then show ?thesis using True by (simp add: follows_def)
  next
    case False
    have "follows env cfg cached ?code x spec"
    proof (cases spec)
      case (Some r)
      show ?thesis
      proof (cases r)
        case (Inl e)
        have "xexec env (?code @ rest) x = Some (Inl e)" for rest
        proof -
          obtain u v where "xexec env (?code @ rest) x = xexec env (body @ ?tail rest) (clobber u v ?x)" using checks [of rest] False by auto
          then show ?thesis using body [OF at, of u v] Some Inl by (simp add: follows_def)
        qed
        then show ?thesis using Some Inl by (simp add: follows_def)
      next
        case (Inr tm)
        obtain m where tm: "tm = (- 1, m)" using assms(6) Some Inr by (cases tm) auto
        have "\<exists>x'. ready env cfg cached x' \<and> xm x' = m \<and> isnull_out x' = isnull_out x \<and> xexec env (?code @ rest) x = xexec env rest x'" for rest
        proof -
          obtain u v where e: "xexec env (?code @ rest) x = xexec env (body @ ?tail rest) (clobber u v ?x)" using checks [of rest] False by auto
          obtain x' where "ready env cfg cached x'" "xm x' = m" "isnull_out x' = isnull_out x" "xexec env (body @ ?tail rest) (clobber u v ?x) = xexec env (?tail rest) x'"
            using body [OF at, of u v] Some Inr tm by (auto simp: follows_def dest!: spec [of _ "?tail rest"])
          then show ?thesis using e by (auto simp: xexec_ins)
        qed
        then show ?thesis using Some Inr tm by (simp add: follows_def)
      qed
    qed (simp add: follows_def)
    then show ?thesis using False by simp
  qed
qed

lemma sim_funcexpr:
  assumes "at_step env cfg cached opno op x" "opcode op = EEOP_FUNCEXPR strict fn f nargs"
    "emit_funcexpr cfg opno op strict fn nargs = Some code"
  shows "follows env cfg cached code x (jitted_step env cfg opno (xm x))"
proof -
  note c = at_stepD [OF assms(1)]
  let ?h = "strict \<noteq> NON_STRICT"
  define body where "body = (case called_directly cfg fn of Some dfn \<Rightarrow> emit_direct_call cfg opno op ?h fn dfn | None \<Rightarrow> emit_v1_call cfg opno op ?h fn)"
  define spec where "spec m = (case called_directly cfg fn of
      Some dfn \<Rightarrow> bind_err (direct_call env fn (direct_args (x_pg env) dfn f m) (world m)) (\<lambda>(d, w). cont (copy_pair op (d, False) (m\<lparr>world := w\<rparr>)))
    | None \<Rightarrow> bind_err (call_frame (x_pg env) fn f (set_fc_isnull f False m))
        (\<lambda>(d, m1). let m2 = set_val (resvalue op) d m1 in cont (set_null (resnull op) (fc_isnull m2 f) m2)))" for m
  have code: "code = (if ?h then emit_load_step_field cfg opno SF_fcinfo (R 1) @ emit_null_checks F_arg_isnull nargs (L_local opno 0) else []) @ body @
      (if ?h then [Jump (L_local opno 1), Label (L_local opno 0)] @ emit_store_resnull cfg opno op (Imm 1) @ [Label (L_local opno 1)] else [])"
    using assms(3) by (auto simp: emit_funcexpr_def body_def called_directly_def Let_def split: option.splits if_splits)
  have step: "jitted_step env cfg opno (xm x) =
      (if ?h \<and> any_arg_null f 0 nargs (xm x) then cont (set_null (resnull op) True (xm x)) else spec (xm x))"
    using c assms(2) by (auto simp: jitted_step_def pg_jitter_fallback_step_def direct_funcexpr_def fallback_funcexpr_def spec_def Let_def split: option.splits)
  have fb: "follows env cfg cached body x' (spec (xm x'))"
    if "at_step env cfg cached opno op x'" "?h \<Longrightarrow> xr x' (R 1) = Some (XP (P_frame f))" for x'
    using follows_direct_call [OF that(1) assms(2), of ?h] follows_v1_call [OF that(1) assms(2), of ?h] that(2)
    by (auto simp: body_def spec_def split: option.splits)
  have pl: "plain body" by (simp add: body_def split: option.splits)
  have m1: "t = - 1" if "spec (xm x) = Some (Inr (t, m))" for t m
    using that by (auto simp: spec_def bind_err_def Let_def split: option.splits sum.splits prod.splits)
  show ?thesis
  proof (cases ?h)
    case True
    have fb': "follows env cfg cached body x' (spec (xm x))"
      if "at_step env cfg cached opno op x'" "xr x' (R 1) = Some (XP (P_frame f))" "xm x' = xm x" "isnull_out x' = isnull_out x" for x'
      using fb [of x'] that by simp
    note path = follows_null_path [where spec = "spec (xm x)", OF assms(1,2) True pl fb' m1]
    have c': "code = emit_load_step_field cfg opno SF_fcinfo (R 1) @ emit_null_checks F_arg_isnull nargs (L_local opno 0) @ body @
        [Jump (L_local opno 1), Label (L_local opno 0)] @ emit_store_resnull cfg opno op (Imm 1) @ [Label (L_local opno 1)]"
      unfolding code if_P [OF True] by (simp only: append_assoc)
    have s': "jitted_step env cfg opno (xm x) = (if any_arg_null f 0 nargs (xm x) then cont (set_null (resnull op) True (xm x)) else spec (xm x))"
      unfolding step using True by (simp only: simp_thms)
    show ?thesis unfolding c' s' by (rule path)
  next
    case False
    then show ?thesis using fb [OF assms(1)] by (simp add: step code)
  qed
qed

end
