(* ===== verification/ExprBatch.thy ===== *)
theory ExprBatch
  imports ExprCalls
begin

text \<open>
  The emitted code of the steps that read slots: the fetch, which leaves the arrays of the slot in registers or in the frame, and the batches
  of VAR and ASSIGN steps, which read all values before the null flags.
\<close>

section \<open>Fetching\<close>

text \<open>The registers for the arrays of the slots are their own.\<close>

definition regs_distinct :: "emit_cfg \<Rightarrow> bool" where
  "regs_distinct cfg \<longleftrightarrow>
     (\<forall>k v n. sreg_slot cfg k = Some (v, n) \<longrightarrow> 5 < v \<and> 5 < n \<and> v \<noteq> n \<and> sreg_steps cfg \<noteq> Some v \<and> sreg_steps cfg \<noteq> Some n) \<and>
     (\<forall>k k' v n v' n'. k \<noteq> k' \<longrightarrow> sreg_slot cfg k = Some (v, n) \<longrightarrow> sreg_slot cfg k' = Some (v', n') \<longrightarrow> {v, n} \<inter> {v', n'} = {}) \<and>
     (\<forall>r. sreg_steps cfg = Some r \<longrightarrow> 5 < r)"

lemma slot_offsets_distinct [simp]:
  "slot_cache_offset k = slot_cache_offset k' \<longleftrightarrow> k = k'" "slot_cache_offset k \<noteq> slot_cache_offset k' + 8"
  "slot_cache_offset k' + 8 \<noteq> slot_cache_offset k" "slot_cache_offset k \<noteq> SOFF_STEPS" "slot_cache_offset k + 8 \<noteq> SOFF_STEPS"
  "SOFF_STEPS \<noteq> slot_cache_offset k" "SOFF_STEPS \<noteq> slot_cache_offset k + 8"
  by (cases k; cases k'; simp add: SOFF_STEPS_def)+

lemma ready_cache_regs:
  assumes "ready env cfg cached x" "regs_distinct cfg" "sreg_slot cfg k = Some (v, n)"
  shows "ready env cfg (cached(k := True)) (set_reg (S n) (XP (P_tisnull k)) (set_reg (S v) (XP (P_tvalues k)) x))"
proof -
  have k: "5 < v" "5 < n" "v \<noteq> n" "sreg_steps cfg \<noteq> Some v" "sreg_steps cfg \<noteq> Some n"
    using assms(2,3) unfolding regs_distinct_def by auto
  have o: "a \<noteq> v \<and> a \<noteq> n \<and> b \<noteq> v \<and> b \<noteq> n" if "sreg_slot cfg k' = Some (a, b)" "k' \<noteq> k" for k' a b
  proof -
    have "\<forall>k k' v n v' n'. k \<noteq> k' \<longrightarrow> sreg_slot cfg k = Some (v, n) \<longrightarrow> sreg_slot cfg k' = Some (v', n') \<longrightarrow> {v, n} \<inter> {v', n'} = {}"
      using assms(2) unfolding regs_distinct_def by (elim conjE)
    from this [rule_format, OF that(2) [symmetric] assms(3) that(1)] show ?thesis by auto
  qed
  let ?y = "set_reg (S n) (XP (P_tisnull k)) (set_reg (S v) (XP (P_tvalues k)) x)"
  have slot: "case sreg_slot cfg k' of
        Some (rv, rn) \<Rightarrow> xr ?y (S rv) = Some (XP (P_tvalues k')) \<and> xr ?y (S rn) = Some (XP (P_tisnull k'))
      | None \<Rightarrow> xframe ?y (slot_cache_offset k') = Some (XP (P_tvalues k')) \<and> xframe ?y (slot_cache_offset k' + 8) = Some (XP (P_tisnull k'))"
    if "(cached(k := True)) k'" for k'
  proof (cases "k' = k")
    case True
    then show ?thesis using assms(3) k by simp
  next
    case False
    then have "cached k'" using that by simp
    then show ?thesis using assms(1) o [OF _ False] unfolding ready_def by (cases "sreg_slot cfg k'") auto
  qed
  have "steps_ok cfg ?y" using assms(1) k by (auto simp: ready_def steps_ok_def split: option.splits)
  then show ?thesis using slot assms(1) k by (simp add: ready_def)
qed

lemma ready_cache_frame:
  assumes "ready env cfg cached x" "sreg_slot cfg k = None"
    "xframe y = (xframe x)(slot_cache_offset k := Some (XP (P_tvalues k)), slot_cache_offset k + 8 := Some (XP (P_tisnull k)))"
    "\<And>n. xr y (S n) = xr x (S n)"
  shows "ready env cfg (cached(k := True)) y"
  using assms by (auto simp: ready_def steps_ok_def split: option.splits)

lemma sim_fetchsome:
  assumes "at_step env cfg cached opno op x" "opcode op = EEOP_FETCHSOME k last_var" "emit_fetchsome cfg opno k last_var = Some code"
    "regs_distinct cfg" "shared_code_mode cfg \<Longrightarrow> deform_dispatch env = getsomeattrs (x_pg env)"
  shows "follows env cfg (cached(k := True)) code x (jitted_step env cfg opno (xm x))"
proof -
  note c = at_stepD [OF assms(1)]
  let ?cache = "emit_load_econtext_slot (R 0) k @ (case sreg_slot cfg k of
       Some (rv, rn) \<Rightarrow> [Op1 MOV (Reg (S rv)) (Mem (R 0) F_tts_values), Op1 MOV (Reg (S rn)) (Mem (R 0) F_tts_isnull)]
     | None \<Rightarrow> [Op1 MOV (Reg (R 1)) (Mem (R 0) F_tts_values), Op1 MOV (Sp (slot_cache_offset k)) (Reg (R 1)),
                Op1 MOV (Reg (R 1)) (Mem (R 0) F_tts_isnull), Op1 MOV (Sp (slot_cache_offset k + 8)) (Reg (R 1))])"
  have ls: "load env m MOV P_econtext (F_slot k) = Some (XP (P_slot k))" "load env m MOV_S16 (P_slot k) F_nvalid = Some (XN (scast (nvalid (slots m k))))"
    "load env m MOV (P_slot k) F_tts_values = Some (XP (P_tvalues k))" "load env m MOV (P_slot k) F_tts_isnull = Some (XP (P_tisnull k))" for m
    by (simp_all add: load_def)
  have cache: "\<exists>x'. ready env cfg (cached(k := True)) x' \<and> xm x' = xm y \<and> isnull_out x' = isnull_out y \<and> xexec env (?cache @ rest) y = xexec env rest x'"
    if y: "ready env cfg cached y" for y rest
  proof -
    have e: "xr y (S 1) = Some (XP P_econtext)" using y by (simp add: ready_def)
    show ?thesis
    proof (cases "sreg_slot cfg k")
      case None
      let ?y = "set_reg (R 1) (XP (P_tisnull k)) (set_reg (R 1) (XP (P_tvalues k)) (set_reg (R 0) (XP (P_slot k)) y))"
      let ?z = "?y\<lparr>xframe := (xframe y)(slot_cache_offset k := Some (XP (P_tvalues k)), slot_cache_offset k + 8 := Some (XP (P_tisnull k)))\<rparr>"
      have "xexec env (?cache @ rest) y = xexec env rest ?z" using None e
        by (simp add: emit_load_econtext_slot_def xexec_ins ls set_reg_def)
      moreover have "ready env cfg (cached(k := True)) ?z" by (rule ready_cache_frame [OF y None]) simp_all
      ultimately show ?thesis by (intro exI [of _ ?z]) simp
    next
      case (Some r)
      obtain rv rn where r: "r = (rv, rn)" by (cases r)
      let ?z = "set_reg (S rn) (XP (P_tisnull k)) (set_reg (S rv) (XP (P_tvalues k)) (set_reg (R 0) (XP (P_slot k)) y))"
      have "xexec env (?cache @ rest) y = xexec env rest ?z" using Some r e
        by (simp add: emit_load_econtext_slot_def xexec_ins ls)
      moreover have "ready env cfg (cached(k := True)) ?z"
        by (rule ready_cache_regs) (use y assms(4) Some r in simp_all)
      ultimately show ?thesis by (intro exI [of _ ?z]) simp
    qed
  qed
  have sext: "sint (scast (w :: int16) :: 64 word) = sint w" for w by (rule sint_up_scast) (simp add: is_up)
  have ge: "holds C_SIG_GREATER_EQUAL (XN (scast (v :: int16))) (XN (scast (w :: int16))) = Some (sint w \<le> sint v)" for v w
    by (simp add: holds_def sext)
  have tr: "(ucast (scast (w :: int16) :: 64 word) :: int16) = w" for w
    by (rule bit_word_eqI) (auto simp: bit_simps)
  let ?n = "nvalid (slots (xm x) k)"
  let ?x = "set_reg (R 1) (XN (scast ?n)) (set_reg (R 0) (XP (P_slot k)) x)"
  let ?call = "emit_load_econtext_slot (R 0) k @ [Op1 MOV (Reg (R 1)) (Imm (scast last_var)),
     Icall (if shared_code_mode cfg then C_deform_dispatch else C_getsomeattrs), Label (L_local opno 0)]"
  have run: "xexec env (code @ rest) x = (if sint last_var \<le> sint ?n then xexec env (?cache @ rest) ?x else xexec env (?call @ ?cache @ rest) ?x)" for rest
    using assms(3) c by (auto simp: emit_fetchsome_def emit_load_econtext_slot_def xexec_ins ls ge split: if_splits)
  show ?thesis
  proof (cases "sint last_var \<le> sint ?n")
    case True
    then show ?thesis using cache [of ?x] run c assms(2)
      by (simp add: follows_def jitted_step_def pg_jitter_fallback_step_def fallback_fetchsome_def Let_def)
  next
    case False
    have call: "xexec env (?call @ ?cache @ rest) ?x = (case getsomeattrs (x_pg env) k last_var (xm x) of
        Inl e \<Rightarrow> Some (Inl e) | Inr m \<Rightarrow> xexec env (?cache @ rest) (after_call None m ?x))" for rest
      using c assms(5) by (auto simp: emit_load_econtext_slot_def xexec_ins ls do_call_def ret_void_def tr Let_def split: sum.splits)
    show ?thesis
    proof (cases "getsomeattrs (x_pg env) k last_var (xm x)")
      case (Inl e)
      then show ?thesis using run call False c assms(2)
        by (simp add: follows_def jitted_step_def pg_jitter_fallback_step_def fallback_fetchsome_def Let_def)
    next
      case (Inr m)
      have "ready env cfg cached (after_call None m ?x)" using c(1) by simp
      note cache [OF this]
      then show ?thesis using run call False Inr c assms(2)
        by (simp add: follows_def jitted_step_def pg_jitter_fallback_step_def fallback_fetchsome_def Let_def)
    qed
  qed
qed

section \<open>The arrays of a slot\<close>

lemma load_arrays [simp]:
  "load env m MOV (P_tvalues k) (F_datum i) = Some (XN (tvalues (slots m k) i))"
  "load env m MOV_U8 (P_tisnull k) (F_bool i) = Some (byte_of (tisnull (slots m k) i))"
  "load env m MOV P_econtext (F_slot k) = Some (XP (P_slot k))"
  "load env m MOV (P_slot k) F_tts_values = Some (XP (P_tvalues k))" "load env m MOV (P_slot k) F_tts_isnull = Some (XP (P_tisnull k))"
  by (simp_all add: load_def)

definition base_reg :: "xreg \<Rightarrow> bool" where
  "base_reg r \<longleftrightarrow> r = R 0 \<or> (\<exists>n. r = S n)"

lemma clobber_R0: "set_reg (R 0) v x = clobber (Some v) (xr x (R 2)) x"
  by (simp add: set_reg_def clobber_def) (rule arg_cong [where f = "\<lambda>g. x\<lparr>xr := g\<rparr>"], simp add: fun_eq_iff)

lemma exec_slot_vals:
  assumes "ready env cfg cached x" "emit_slot_vals cfg cached k = (code, r)"
  shows "\<exists>u. (\<forall>is. xexec env (code @ is) x = xexec env is (clobber u (xr x (R 2)) x)) \<and>
    xr (clobber u (xr x (R 2)) x) r = Some (XP (P_tvalues k)) \<and> base_reg r"
proof -
  have e: "xr x (S 1) = Some (XP P_econtext)" using assms(1) by (simp add: ready_def)
  let ?v = "XP (P_tvalues k)"
  consider (reg) rn n where "cached k" "sreg_slot cfg k = Some (n, rn)" "code = []" "r = S n" "xr x (S n) = Some ?v"
    | (load) "r = R 0" "\<forall>is. xexec env (code @ is) x = xexec env is (set_reg (R 0) ?v x)"
    using assms e unfolding emit_slot_vals_def
    by (auto simp: xexec_ins emit_load_econtext_slot_def ready_def split: if_splits option.splits)
  then show ?thesis
  proof cases
    case reg
    then show ?thesis by (intro exI [of _ "xr x (R 0)"]) (auto simp: base_reg_def)
  next
    case load
    then show ?thesis by (intro exI [of _ "Some ?v"]) (simp add: clobber_R0 base_reg_def)
  qed
qed

lemma exec_slot_nulls:
  assumes "ready env cfg cached x" "emit_slot_nulls cfg cached k = (code, r)"
  shows "\<exists>u. (\<forall>is. xexec env (code @ is) x = xexec env is (clobber u (xr x (R 2)) x)) \<and>
    xr (clobber u (xr x (R 2)) x) r = Some (XP (P_tisnull k)) \<and> base_reg r"
proof -
  have e: "xr x (S 1) = Some (XP P_econtext)" using assms(1) by (simp add: ready_def)
  let ?v = "XP (P_tisnull k)"
  consider (reg) rn n where "cached k" "sreg_slot cfg k = Some (n, rn)" "code = []" "r = S rn" "xr x (S rn) = Some ?v"
    | (load) "r = R 0" "\<forall>is. xexec env (code @ is) x = xexec env is (set_reg (R 0) ?v x)"
    using assms e unfolding emit_slot_nulls_def
    by (auto simp: xexec_ins emit_load_econtext_slot_def ready_def split: if_splits option.splits)
  then show ?thesis
  proof cases
    case reg
    then show ?thesis by (intro exI [of _ "xr x (R 0)"]) (auto simp: base_reg_def)
  next
    case load
    then show ?thesis by (intro exI [of _ "Some ?v"]) (simp add: clobber_R0 base_reg_def)
  qed
qed

section \<open>Batches\<close>

definition keeps :: "'w xmachine \<Rightarrow> 'w xmachine \<Rightarrow> bool" where
  "keeps x x' \<longleftrightarrow> same_saved x x' \<and> isnull_out x' = isnull_out x \<and> xr x' (R 0) = xr x (R 0)"

lemma keeps_base: "\<lbrakk>keeps x x'; base_reg r\<rbrakk> \<Longrightarrow> xr x' r = xr x r"
  by (auto simp: keeps_def base_reg_def same_saved_def)

lemma keeps_regs_trans: "\<lbrakk>keeps x y; keeps y z\<rbrakk> \<Longrightarrow> keeps x z"
  by (simp add: keeps_def same_saved_def)

lemma keeps_ready: "keeps x x' \<Longrightarrow> ready env cfg cached x' \<longleftrightarrow> ready env cfg cached x"
  by (simp add: keeps_def ready_same)

text \<open>The phases of a batch of VAR steps, on a machine whose register \<open>r\<close> holds the array.\<close>

definition batch_ok :: "'w xenv \<Rightarrow> (nat \<times> ExprEvalStep \<times> nat) list \<Rightarrow> bool" where
  "batch_ok env batch \<longleftrightarrow> (\<forall>(i, op, a) \<in> set batch. i < length (x_steps env) \<and> x_steps env ! i = op)"

lemma exec_var_values:
  assumes "batch_ok env batch" "ready env cfg cached x" "base_reg r" "xr x r = Some (XP (P_tvalues k))"
  shows "\<exists>x'. xexec env (concat (map (\<lambda>(i, op, attnum).
        Op1 MOV (Reg (R 2)) (Mem r (F_datum attnum)) # emit_store_resvalue cfg i op (Reg (R 2))) batch) @ is) x = xexec env is x' \<and>
      xm x' = fold (\<lambda>(i, op, a). set_val (resvalue op) (tvalues (slots (xm x) k) a)) batch (xm x) \<and> keeps x x'"
  using assms
proof (induction batch arbitrary: x)
  case Nil
  then show ?case by (auto simp: keeps_def)
next
  case (Cons b batch)
  obtain i op a where b: "b = (i, op, a)" by (cases b)
  have bk: "batch_ok env batch" "i < length (x_steps env)" "x_steps env ! i = op" using Cons.prems(1) b by (auto simp: batch_ok_def)
  let ?d = "tvalues (slots (xm x) k) a"
  let ?x = "st_val op ?d (set_reg (R 2) (XN ?d) x)"
  have k1: "keeps x ?x" using Cons.prems by (auto simp: keeps_def same_saved_def st_val_def)
  have r1: "xr ?x r = Some (XP (P_tvalues k))" using keeps_base [OF k1 Cons.prems(3)] Cons.prems(4) by simp
  have ok: "ready env cfg cached ?x" using Cons.prems(2) by simp
  obtain x' where x': "xexec env (concat (map (\<lambda>(i, op, attnum).
        Op1 MOV (Reg (R 2)) (Mem r (F_datum attnum)) # emit_store_resvalue cfg i op (Reg (R 2))) batch) @ is) ?x = xexec env is x'"
      "xm x' = fold (\<lambda>(i, op, a). set_val (resvalue op) (tvalues (slots (xm x) k) a)) batch (xm ?x)" "keeps ?x x'"
    using Cons.IH [OF bk(1) ok Cons.prems(3) r1] by auto
  have "xr x (S 0) = Some (XP P_state)" "steps_ok cfg x" using Cons.prems(2) by (simp_all add: ready_def)
  then show ?case using b bk Cons.prems(4) x' keeps_regs_trans [OF k1 x'(3)]
    by (intro exI [of _ x']) (simp add: xexec_ins exec_store_resvalue reg_simps)
qed

lemma exec_var_nulls:
  assumes "batch_ok env batch" "ready env cfg cached x" "base_reg r" "xr x r = Some (XP (P_tisnull k))"
  shows "\<exists>x'. xexec env (concat (map (\<lambda>(i, op, attnum).
        Op1 MOV_U8 (Reg (R 2)) (Mem r (F_bool attnum)) # emit_store_resnull cfg i op (Reg (R 2))) batch) @ is) x = xexec env is x' \<and>
      xm x' = fold (\<lambda>(i, op, a). set_null (resnull op) (tisnull (slots (xm x) k) a)) batch (xm x) \<and> keeps x x'"
  using assms
proof (induction batch arbitrary: x)
  case Nil
  then show ?case by (auto simp: keeps_def)
next
  case (Cons b batch)
  obtain i op a where b: "b = (i, op, a)" by (cases b)
  have bk: "batch_ok env batch" "i < length (x_steps env)" "x_steps env ! i = op" using Cons.prems(1) b by (auto simp: batch_ok_def)
  let ?n = "tisnull (slots (xm x) k) a"
  let ?x = "st_null op ?n (set_reg (R 2) (byte_of ?n) x)"
  have k1: "keeps x ?x" using Cons.prems by (auto simp: keeps_def same_saved_def st_null_def)
  have r1: "xr ?x r = Some (XP (P_tisnull k))" using keeps_base [OF k1 Cons.prems(3)] Cons.prems(4) by simp
  have ok: "ready env cfg cached ?x" using Cons.prems(2) by simp
  obtain x' where x': "xexec env (concat (map (\<lambda>(i, op, attnum).
        Op1 MOV_U8 (Reg (R 2)) (Mem r (F_bool attnum)) # emit_store_resnull cfg i op (Reg (R 2))) batch) @ is) ?x = xexec env is x'"
      "xm x' = fold (\<lambda>(i, op, a). set_null (resnull op) (tisnull (slots (xm x) k) a)) batch (xm ?x)" "keeps ?x x'"
    using Cons.IH [OF bk(1) ok Cons.prems(3) r1] by auto
  have "xr x (S 0) = Some (XP P_state)" "steps_ok cfg x" using Cons.prems(2) by (simp_all add: ready_def)
  then show ?case using b bk Cons.prems(4) x' keeps_regs_trans [OF k1 x'(3)]
    by (intro exI [of _ x']) (simp add: xexec_ins exec_store_resnull reg_simps)
qed

text \<open>All values, then all null flags, is each pair in turn.\<close>

lemma fold_set_val_null: "fold (\<lambda>b. set_val (f b) (g b)) bs (set_null l n m) = set_null l n (fold (\<lambda>b. set_val (f b) (g b)) bs m)"
  by (induction bs arbitrary: m) simp_all

lemma fold_phases:
  "fold (\<lambda>b. set_null (f' b) (g' b)) bs (fold (\<lambda>b. set_val (f b) (g b)) bs m) = fold (\<lambda>b m. set_null (f' b) (g' b) (set_val (f b) (g b) m)) bs m"
  by (induction bs arbitrary: m) (simp_all flip: fold_set_val_null)

lemma clobber_keeps: "same_saved x (clobber u v x) \<and> isnull_out (clobber u v x) = isnull_out x"
  by simp

lemma slots_fold_set_val [simp]: "slots (fold (\<lambda>b. set_val (f b) (g b)) bs m) = slots m"
  by (induction bs arbitrary: m) simp_all

definition var_batch :: "slot_data \<Rightarrow> (nat \<times> ExprEvalStep \<times> nat) list \<Rightarrow> 'w expr_mem \<Rightarrow> 'w expr_mem" where
  "var_batch sd batch m = fold (\<lambda>(i, op, a). copy_pair op (tvalues sd a, tisnull sd a)) batch m"

lemma exec_var_batch:
  assumes "batch_ok env batch" "ready env cfg cached x"
  shows "\<exists>x'. xexec env (emit_var_batch cfg cached k batch @ is) x = xexec env is x' \<and> ready env cfg cached x' \<and>
    isnull_out x' = isnull_out x \<and> xm x' = var_batch (slots (xm x) k) batch (xm x)"
proof -
  obtain vc vb nc nb where c: "emit_slot_vals cfg cached k = (vc, vb)" "emit_slot_nulls cfg cached k = (nc, nb)"
    by (cases "emit_slot_vals cfg cached k"; cases "emit_slot_nulls cfg cached k")
  let ?vals = "concat (map (\<lambda>(i, op, attnum). Op1 MOV (Reg (R 2)) (Mem vb (F_datum attnum)) # emit_store_resvalue cfg i op (Reg (R 2))) batch)"
  let ?nulls = "concat (map (\<lambda>(i, op, attnum). Op1 MOV_U8 (Reg (R 2)) (Mem nb (F_bool attnum)) # emit_store_resnull cfg i op (Reg (R 2))) batch)"
  let ?sd = "slots (xm x) k"
  let ?m1 = "fold (\<lambda>b. set_val (resvalue (fst (snd b))) (tvalues ?sd (snd (snd b)))) batch (xm x)"
  have cv: "(\<lambda>(i, op, a). set_val (resvalue op) (tvalues sd a)) = (\<lambda>b. set_val (resvalue (fst (snd b))) (tvalues sd (snd (snd b))))" for sd
    by (simp add: fun_eq_iff)
  have cn: "(\<lambda>(i, op, a). set_null (resnull op) (tisnull sd a)) = (\<lambda>b. set_null (resnull (fst (snd b))) (tisnull sd (snd (snd b))))" for sd
    by (simp add: fun_eq_iff)
  obtain u where u: "\<forall>is. xexec env (vc @ is) x = xexec env is (clobber u (xr x (R 2)) x)" "xr (clobber u (xr x (R 2)) x) vb = Some (XP (P_tvalues k))" "base_reg vb"
    using exec_slot_vals [OF assms(2) c(1)] by blast
  let ?x0 = "clobber u (xr x (R 2)) x"
  have r0: "ready env cfg cached ?x0" using assms(2) by simp
  obtain x1 where x1: "xexec env (?vals @ nc @ ?nulls @ is) ?x0 = xexec env (nc @ ?nulls @ is) x1" "xm x1 = ?m1" "keeps ?x0 x1"
    using exec_var_values [OF assms(1) r0 u(3,2), of "nc @ ?nulls @ is"] by (auto simp: cv)
  have r1: "ready env cfg cached x1" using keeps_ready [OF x1(3)] r0 by simp
  obtain u' where u': "\<forall>is. xexec env (nc @ is) x1 = xexec env is (clobber u' (xr x1 (R 2)) x1)" "xr (clobber u' (xr x1 (R 2)) x1) nb = Some (XP (P_tisnull k))" "base_reg nb"
    using exec_slot_nulls [OF r1 c(2)] by blast
  let ?x2 = "clobber u' (xr x1 (R 2)) x1"
  have r2: "ready env cfg cached ?x2" using r1 by simp
  obtain x3 where x3: "xexec env (?nulls @ is) ?x2 = xexec env is x3"
      "xm x3 = fold (\<lambda>b. set_null (resnull (fst (snd b))) (tisnull ?sd (snd (snd b)))) batch ?m1" "keeps ?x2 x3"
    using exec_var_nulls [OF assms(1) r2 u'(3,2), of "is"] by (auto simp: cn x1(2))
  have cp: "(\<lambda>(i, op, a). copy_pair op (tvalues sd a, tisnull sd a)) =
      (\<lambda>b m. set_null (resnull (fst (snd b))) (tisnull sd (snd (snd b))) (set_val (resvalue (fst (snd b))) (tvalues sd (snd (snd b))) m))" for sd
    by (simp add: fun_eq_iff copy_pair_def)
  have "xm x3 = var_batch ?sd batch (xm x)"
    unfolding x3(2) fold_phases var_batch_def cp ..
  moreover have "isnull_out x3 = isnull_out x" using x1(3) x3(3) by (simp add: keeps_def)
  moreover have "ready env cfg cached x3" using keeps_ready [OF x3(3)] r2 by simp
  ultimately show ?thesis using u(1) x1(1) u'(1) x3(1) by (intro exI [of _ x3]) (simp add: emit_var_batch_def c)
qed

lemma exec_var_single:
  assumes "ready env cfg cached x" "i < length (x_steps env)" "x_steps env ! i = op" "RESNULL_IS_PAIRED op"
  shows "\<exists>x'. xexec env (emit_var_single cfg cached i k a @ is) x = xexec env is x' \<and> ready env cfg cached x' \<and>
    isnull_out x' = isnull_out x \<and> xm x' = copy_pair op (tvalues (slots (xm x) k) a, tisnull (slots (xm x) k) a) (xm x)"
proof -
  obtain vc vb nc nb where c: "emit_slot_vals cfg cached k = (vc, vb)" "emit_slot_nulls cfg cached k = (nc, nb)"
    by (cases "emit_slot_vals cfg cached k"; cases "emit_slot_nulls cfg cached k")
  obtain u where u: "\<forall>is. xexec env (vc @ is) x = xexec env is (clobber u (xr x (R 2)) x)" "xr (clobber u (xr x (R 2)) x) vb = Some (XP (P_tvalues k))" "base_reg vb"
    using exec_slot_vals [OF assms(1) c(1)] by blast
  let ?d = "tvalues (slots (xm x) k) a" let ?n = "tisnull (slots (xm x) k) a"
  let ?x1 = "(set_reg (R 1) (XP (P_val (resvalue op))) (clobber u (Some (XN ?d)) x))\<lparr>xm := set_val (resvalue op) ?d (xm x)\<rparr>"
  have r1: "ready env cfg cached ?x1" using assms(1) by simp
  obtain u' where u': "\<forall>is. xexec env (nc @ is) ?x1 = xexec env is (clobber u' (xr ?x1 (R 2)) ?x1)"
      "xr (clobber u' (xr ?x1 (R 2)) ?x1) nb = Some (XP (P_tisnull k))" "base_reg nb"
    using exec_slot_nulls [OF r1 c(2)] by blast
  let ?x2 = "clobber u' (Some (byte_of ?n)) ?x1"
  let ?x3 = "?x2\<lparr>xm := set_null (resvalue op) ?n (xm ?x2)\<rparr>"
  have steps: "steps_ok cfg x" using assms(1) by (simp add: ready_def)
  have first: "xexec env (emit_var_single cfg cached i k a @ is) x =
      xexec env (nc @ [Op1 MOV_U8 (Reg (R 2)) (Mem nb (F_bool a)), Op1 MOV_U8 (Mem (R 1) F_paired) (Reg (R 2))] @ is) ?x1"
    using u assms(2,3) steps by (simp add: emit_var_single_def c xexec_ins exec_load_step_field)
  have nb: "xr ?x1 (R 2) = Some (XN ?d)" by simp
  have "xexec env ([Op1 MOV_U8 (Reg (R 2)) (Mem nb (F_bool a)), Op1 MOV_U8 (Mem (R 1) F_paired) (Reg (R 2))] @ is) (clobber u' (xr ?x1 (R 2)) ?x1) = xexec env is ?x3"
    using u'(2,3) assms(4) by (simp add: xexec_ins RESNULL_IS_PAIRED_def)
  then have "xexec env (emit_var_single cfg cached i k a @ is) x = xexec env is ?x3"
    unfolding first u'(1) [rule_format] .
  moreover have "xm ?x3 = copy_pair op (?d, ?n) (xm x)" using assms(4) by (simp add: copy_pair_def RESNULL_IS_PAIRED_def)
  ultimately show ?thesis using assms(1) by (intro exI [of _ ?x3]) simp
qed

lemma exec_var:
  assumes "batch_ok env batch" "ready env cfg cached x"
  shows "\<exists>x'. xexec env (emit_var cfg cached k batch @ is) x = xexec env is x' \<and> ready env cfg cached x' \<and>
    isnull_out x' = isnull_out x \<and> xm x' = var_batch (slots (xm x) k) batch (xm x)"
proof (cases "\<exists>i op a. batch = [(i, op, a)] \<and> RESNULL_IS_PAIRED op \<and> resvalue op \<noteq> Result")
  case True
  then obtain i op a where b: "batch = [(i, op, a)]" "RESNULL_IS_PAIRED op" "resvalue op \<noteq> Result" by blast
  have "i < length (x_steps env)" "x_steps env ! i = op" using assms(1) b(1) by (auto simp: batch_ok_def)
  from exec_var_single [OF assms(2) this b(2)] show ?thesis using b by (simp add: emit_var_def var_batch_def)
next
  case False
  then have "emit_var cfg cached k batch = emit_var_batch cfg cached k batch"
    by (auto simp: emit_var_def split: list.splits prod.splits)
  then show ?thesis using exec_var_batch [OF assms] by simp
qed

section \<open>Assignments\<close>

definition assign_batch :: "slot_data \<Rightarrow> (nat \<times> nat) list \<Rightarrow> 'w expr_mem \<Rightarrow> 'w expr_mem" where
  "assign_batch sd batch m = fold (\<lambda>(a, r). set_result r (tvalues sd a) (tisnull sd a)) batch m"

definition put_value :: "nat \<Rightarrow> Datum \<Rightarrow> 'w expr_mem \<Rightarrow> 'w expr_mem" where
  "put_value r d m = m\<lparr>result_values := (result_values m)(r := d)\<rparr>"

definition put_null :: "nat \<Rightarrow> bool \<Rightarrow> 'w expr_mem \<Rightarrow> 'w expr_mem" where
  "put_null r b m = m\<lparr>result_isnull := (result_isnull m)(r := b)\<rparr>"

lemma put_simps [simp]: "slots (put_value r d m) = slots m" "slots (put_null r b m) = slots m"
  "put_value r d (put_null r' b m) = put_null r' b (put_value r d m)"
  by (simp_all add: put_value_def put_null_def)

lemma fold_put_value_null: "fold (\<lambda>b. put_value (f b) (g b)) bs (put_null l n m) = put_null l n (fold (\<lambda>b. put_value (f b) (g b)) bs m)"
  by (induction bs arbitrary: m) simp_all

lemma fold_put_phases:
  "fold (\<lambda>b. put_null (f' b) (g' b)) bs (fold (\<lambda>b. put_value (f b) (g b)) bs m) = fold (\<lambda>b m. put_null (f' b) (g' b) (put_value (f b) (g b) m)) bs m"
  by (induction bs arbitrary: m) (simp_all flip: fold_put_value_null)

lemma slots_fold_put_value [simp]: "slots (fold (\<lambda>b. put_value (f b) (g b)) bs m) = slots m"
  by (induction bs arbitrary: m) simp_all

lemma store_put [simp]:
  "store_datum P_rvalues (F_datum i) d x = Some (x\<lparr>xm := put_value i d (xm x)\<rparr>)"
  "store_bool P_risnull (F_bool i) b x = Some (x\<lparr>xm := put_null i b (xm x)\<rparr>)"
  by (simp_all add: put_value_def put_null_def)

declare store_result_simps [simp del]

lemma keeps_put: "keeps x ((set_reg (R 2) v x)\<lparr>xm := m\<rparr>)"
  by (simp add: keeps_def)

lemma exec_assign_values:
  assumes "ready env cfg cached x" "x_resultslot env" "base_reg r" "xr x r = Some (XP (P_tvalues k))"
  shows "\<exists>x'. xexec env (concat (map (\<lambda>(attnum, resultnum).
        [Op1 MOV (Reg (R 2)) (Mem r (F_datum attnum)), Op1 MOV (Mem SREG_RESULTVALS (F_datum resultnum)) (Reg (R 2))]) batch) @ is) x = xexec env is x' \<and>
      xm x' = fold (\<lambda>b. put_value (snd b) (tvalues (slots (xm x) k) (fst b))) batch (xm x) \<and> keeps x x'"
  using assms
proof (induction batch arbitrary: x)
  case Nil
  then show ?case by (auto simp: keeps_def)
next
  case (Cons b batch)
  obtain a n where b: "b = (a, n)" by (cases b)
  let ?d = "tvalues (slots (xm x) k) a"
  let ?x = "(set_reg (R 2) (XN ?d) x)\<lparr>xm := put_value n ?d (xm x)\<rparr>"
  have k1: "keeps x ?x" by (rule keeps_put)
  have r1: "xr ?x r = Some (XP (P_tvalues k))" using keeps_base [OF k1 Cons.prems(3)] Cons.prems(4) by simp
  have ok: "ready env cfg cached ?x" using Cons.prems(1) by simp
  obtain x' where x': "xexec env (concat (map (\<lambda>(attnum, resultnum).
        [Op1 MOV (Reg (R 2)) (Mem r (F_datum attnum)), Op1 MOV (Mem SREG_RESULTVALS (F_datum resultnum)) (Reg (R 2))]) batch) @ is) ?x = xexec env is x'"
      "xm x' = fold (\<lambda>b. put_value (snd b) (tvalues (slots (xm x) k) (fst b))) batch (xm ?x)" "keeps ?x x'"
    using Cons.IH [OF ok Cons.prems(2,3) r1] by auto
  show ?case using b Cons.prems(4) x' keeps_regs_trans [OF k1 x'(3)] ready_resultslot [OF Cons.prems(1,2)]
    by (intro exI [of _ x']) (simp add: xexec_ins)
qed

lemma exec_assign_nulls:
  assumes "ready env cfg cached x" "x_resultslot env" "base_reg r" "xr x r = Some (XP (P_tisnull k))"
  shows "\<exists>x'. xexec env (concat (map (\<lambda>(attnum, resultnum).
        [Op1 MOV_U8 (Reg (R 2)) (Mem r (F_bool attnum)), Op1 MOV_U8 (Mem SREG_RESULTNULLS (F_bool resultnum)) (Reg (R 2))]) batch) @ is) x = xexec env is x' \<and>
      xm x' = fold (\<lambda>b. put_null (snd b) (tisnull (slots (xm x) k) (fst b))) batch (xm x) \<and> keeps x x'"
  using assms
proof (induction batch arbitrary: x)
  case Nil
  then show ?case by (auto simp: keeps_def)
next
  case (Cons b batch)
  obtain a n where b: "b = (a, n)" by (cases b)
  let ?d = "tisnull (slots (xm x) k) a"
  let ?x = "(set_reg (R 2) (byte_of ?d) x)\<lparr>xm := put_null n ?d (xm x)\<rparr>"
  have k1: "keeps x ?x" by (rule keeps_put)
  have r1: "xr ?x r = Some (XP (P_tisnull k))" using keeps_base [OF k1 Cons.prems(3)] Cons.prems(4) by simp
  have ok: "ready env cfg cached ?x" using Cons.prems(1) by simp
  obtain x' where x': "xexec env (concat (map (\<lambda>(attnum, resultnum).
        [Op1 MOV_U8 (Reg (R 2)) (Mem r (F_bool attnum)), Op1 MOV_U8 (Mem SREG_RESULTNULLS (F_bool resultnum)) (Reg (R 2))]) batch) @ is) ?x = xexec env is x'"
      "xm x' = fold (\<lambda>b. put_null (snd b) (tisnull (slots (xm x) k) (fst b))) batch (xm ?x)" "keeps ?x x'"
    using Cons.IH [OF ok Cons.prems(2,3) r1] by auto
  show ?case using b Cons.prems(4) x' keeps_regs_trans [OF k1 x'(3)] ready_resultslot [OF Cons.prems(1,2)]
    by (intro exI [of _ x']) (simp add: xexec_ins)
qed

lemma exec_assign_var:
  assumes "ready env cfg cached x" "x_resultslot env" "emit_assign_var cfg cached k batch = Some code"
  shows "\<exists>x'. xexec env (code @ is) x = xexec env is x' \<and> ready env cfg cached x' \<and>
    isnull_out x' = isnull_out x \<and> xm x' = assign_batch (slots (xm x) k) batch (xm x)"
proof -
  obtain vc vb nc nb where c: "emit_slot_vals cfg cached k = (vc, vb)" "emit_slot_nulls cfg cached k = (nc, nb)"
    by (cases "emit_slot_vals cfg cached k"; cases "emit_slot_nulls cfg cached k")
  let ?vals = "concat (map (\<lambda>(attnum, resultnum).
        [Op1 MOV (Reg (R 2)) (Mem vb (F_datum attnum)), Op1 MOV (Mem SREG_RESULTVALS (F_datum resultnum)) (Reg (R 2))]) batch)"
  let ?nulls = "concat (map (\<lambda>(attnum, resultnum).
        [Op1 MOV_U8 (Reg (R 2)) (Mem nb (F_bool attnum)), Op1 MOV_U8 (Mem SREG_RESULTNULLS (F_bool resultnum)) (Reg (R 2))]) batch)"
  let ?sd = "slots (xm x) k"
  let ?m1 = "fold (\<lambda>b. put_value (snd b) (tvalues ?sd (fst b))) batch (xm x)"
  have code: "code = vc @ ?vals @ nc @ ?nulls" using assms(3) by (simp add: emit_assign_var_def c Let_def split: if_splits)
  obtain u where u: "\<forall>is. xexec env (vc @ is) x = xexec env is (clobber u (xr x (R 2)) x)" "xr (clobber u (xr x (R 2)) x) vb = Some (XP (P_tvalues k))" "base_reg vb"
    using exec_slot_vals [OF assms(1) c(1)] by blast
  let ?x0 = "clobber u (xr x (R 2)) x"
  have r0: "ready env cfg cached ?x0" using assms(1) by simp
  obtain x1 where x1: "xexec env (?vals @ nc @ ?nulls @ is) ?x0 = xexec env (nc @ ?nulls @ is) x1" "xm x1 = ?m1" "keeps ?x0 x1"
    using exec_assign_values [OF r0 assms(2) u(3,2), of batch "nc @ ?nulls @ is"] by auto
  have r1: "ready env cfg cached x1" using keeps_ready [OF x1(3)] r0 by simp
  obtain u' where u': "\<forall>is. xexec env (nc @ is) x1 = xexec env is (clobber u' (xr x1 (R 2)) x1)" "xr (clobber u' (xr x1 (R 2)) x1) nb = Some (XP (P_tisnull k))" "base_reg nb"
    using exec_slot_nulls [OF r1 c(2)] by blast
  let ?x2 = "clobber u' (xr x1 (R 2)) x1"
  have r2: "ready env cfg cached ?x2" using r1 by simp
  obtain x3 where x3: "xexec env (?nulls @ is) ?x2 = xexec env is x3"
      "xm x3 = fold (\<lambda>b. put_null (snd b) (tisnull ?sd (fst b))) batch ?m1" "keeps ?x2 x3"
    using exec_assign_nulls [OF r2 assms(2) u'(3,2), of batch "is"] by (auto simp: x1(2))
  have cp: "(\<lambda>(a, r). set_result r (tvalues sd a) (tisnull sd a)) = (\<lambda>b m. put_null (snd b) (tisnull sd (fst b)) (put_value (snd b) (tvalues sd (fst b)) m))" for sd
    by (simp add: fun_eq_iff set_result_def put_value_def put_null_def)
  have "xm x3 = assign_batch ?sd batch (xm x)" unfolding x3(2) fold_put_phases assign_batch_def cp ..
  moreover have "isnull_out x3 = isnull_out x" using x1(3) x3(3) by (simp add: keeps_def)
  moreover have "ready env cfg cached x3" using keeps_ready [OF x3(3)] r2 by simp
  ultimately show ?thesis using u(1) x1(1) u'(1) x3(1) by (intro exI [of _ x3]) (simp add: code)
qed

end
