(* ===== verification/ExprLabels.thy ===== *)
theory ExprLabels
  imports ExprBatch
begin

text \<open>
  The labels of the compiled function: the code of a step holds no label of another step, so a jump to a step that does not lie
  inside a batch arrives at the code emitted for that step.
\<close>

section \<open>Code without labels of steps\<close>

definition own_label :: "xins \<Rightarrow> bool" where
  "own_label i = (case i of Label (L_step _) \<Rightarrow> False | _ \<Rightarrow> True)"

definition own_labels :: "xins list \<Rightarrow> bool" where
  "own_labels is \<longleftrightarrow> list_all own_label is"

lemma own_label_simps [simp]:
  "own_label (Op1 mv d s)" "own_label (Op2 f r a b)" "own_label (Test_zero r)" "own_label (And_zero r w)" "own_label (Flag_equal r)"
  "own_label (Jump_zero l)" "own_label (Cmp c a b l)" "own_label (Jump l)" "own_label (Icall fn)" "own_label (Return a)"
  "own_label (Label (L_local n i))" "own_label (Label L_prologue)" "\<not> own_label (Label (L_step t))"
  by (simp_all add: own_label_def)

lemma own_labels_simps [simp]:
  "own_labels []" "own_labels (i # is) \<longleftrightarrow> own_label i \<and> own_labels is" "own_labels (is @ js) \<longleftrightarrow> own_labels is \<and> own_labels js"
  by (simp_all add: own_labels_def)

lemma own_labels_concat [simp]: "own_labels (concat iss) \<longleftrightarrow> list_all own_labels iss"
  by (induction iss) auto

lemma own_labels_map [simp]: "own_labels (map f xs) \<longleftrightarrow> list_all (own_label \<circ> f) xs"
  by (simp add: own_labels_def list_all_iff)

lemma xgoto_step_local: "own_labels is \<Longrightarrow> xgoto env (L_step t) (is @ js) x = xgoto env (L_step t) js x"
proof (induction "is")
  case (Cons i "is")
  then show ?case by (cases i) (simp_all add: own_label_def split: xlabel.splits)
qed simp

lemma plain_own_labels: "plain is \<Longrightarrow> own_labels is"
  by (induction "is") (auto simp: own_label_def split: xins.splits)

lemmas own_labels_emit [simp] = plain_emit [THEN plain_own_labels]

lemma own_labels_slots:
  "emit_slot_vals cfg cached k = (code, r) \<Longrightarrow> own_labels code" "emit_slot_nulls cfg cached k = (code, r) \<Longrightarrow> own_labels code"
  by (auto simp: emit_slot_vals_def emit_slot_nulls_def emit_load_econtext_slot_def split: if_splits option.splits)

lemma own_labels_var [simp]: "own_labels (emit_var cfg cached k batch)"
proof -
  have "own_labels (emit_var_batch cfg cached k b)" for b
    by (auto simp: emit_var_batch_def list_all_iff dest: own_labels_slots split: prod.splits)
  moreover have "own_labels (emit_var_single cfg cached i k a)" for i a
    by (auto simp: emit_var_single_def dest: own_labels_slots split: prod.splits)
  ultimately show ?thesis by (simp add: emit_var_def split: list.splits prod.splits)
qed

lemma own_labels_assign_var: "emit_assign_var cfg cached k batch = Some code \<Longrightarrow> own_labels code"
  by (auto simp: emit_assign_var_def list_all_iff dest: own_labels_slots split: prod.splits if_splits)

lemma own_labels_fetchsome: "emit_fetchsome cfg opno k n = Some code \<Longrightarrow> own_labels code"
  by (auto simp: emit_fetchsome_def emit_load_econtext_slot_def split: if_splits option.splits)

lemma own_labels_funcexpr: "emit_funcexpr cfg opno op strict fn nargs = Some code \<Longrightarrow> own_labels code"
  by (auto simp: emit_funcexpr_def Let_def split: if_splits option.splits)

lemma own_labels_eval: "emit_eval cfg opno op e = Some code \<Longrightarrow> own_labels code"
  by (cases "(cfg, opno, op, e)" rule: emit_eval.cases) (auto simp: emit_fieldselect_def emit_convert_rowtype_def)

lemma own_labels_booltest [simp]: "own_labels (emit_booltest cfg opno op t)"
  by (cases t) simp_all

lemma own_labels_logic [simp]:
  "own_labels (emit_bool_and_step cfg opno op pos t)" "own_labels (emit_bool_or_step cfg opno op pos t)" "own_labels (emit_qual cfg opno op t)"
  "own_labels (emit_jump_if_null cfg opno op t)" "own_labels (emit_jump_if_not_null cfg opno op t)"
  "own_labels (emit_jump_if_not_true cfg opno op t)" "own_labels (emit_nulltest cfg opno op b)" "own_labels (emit_returningexpr cfg opno op w t)"
  by (simp_all add: emit_bool_and_step_def emit_bool_or_step_def emit_bool_step_def emit_qual_def emit_jump_if_null_def
      emit_jump_if_not_null_def emit_jump_if_not_true_def emit_nulltest_def emit_returningexpr_def)

lemma own_labels_copies [simp]:
  "own_labels (emit_assign_tmp opno b n)" "own_labels (emit_const cfg opno op d b)" "own_labels (emit_case_testval cfg opno op v)"
  "own_labels (emit_case_testval_ext cfg opno op)" "own_labels (emit_domain_testval cfg opno op v)"
  "own_labels (emit_domain_testval_ext cfg opno op)" "own_labels (emit_aggref cfg opno op n)" "own_labels (emit_make_readonly cfg opno op)"
  by (simp_all add: emit_assign_tmp_def emit_const_def emit_case_testval_def emit_case_testval_ext_def emit_domain_testval_def
      emit_domain_testval_ext_def emit_aggref_def emit_make_readonly_def emit_copy_def emit_copy_from_step_def)

lemma own_labels_calls [simp]:
  "own_labels (emit_distinct cfg opno op b fn)" "own_labels (emit_nullif cfg opno op fn)"
  "own_labels (emit_rowcompare_step cfg opno op fn b t t')" "own_labels (emit_rowcompare_final cfg opno op ct)"
  "own_labels (emit_iocoerce cfg opno op fn fn')" "own_labels (emit_domain_notnull cfg opno op)" "own_labels (emit_domain_check cfg opno)"
  "own_labels (emit_sbsref_subscripts cfg opno name t)"
  by (simp_all add: emit_distinct_def emit_nullif_def emit_rowcompare_step_def emit_rowcompare_final_def emit_iocoerce_def
      emit_domain_notnull_def emit_domain_check_def emit_sbsref_subscripts_def)

lemma own_labels_agg [simp]:
  "own_labels (emit_agg_input_check cfg opno n t)" "own_labels (emit_agg_input_check_nulls cfg opno n t)" "own_labels (emit_pergroup_nullcheck n t)"
  "own_labels (emit_presorted cfg opno name t)" "own_labels (emit_agg_deserialize cfg opno op sj fn)"
  by (simp_all add: emit_agg_input_check_def emit_agg_input_check_nulls_def emit_pergroup_nullcheck_def emit_presorted_def
      emit_agg_deserialize_def split: option.splits)

lemma own_labels_step: "emit_step cfg steps cached opno = Some (code, extra) \<Longrightarrow> own_labels code"
  by (cases "opcode (steps ! opno)")
    (auto simp: emit_step_def Let_def split: if_splits option.splits Option.bind_splits
      dest: own_labels_eval own_labels_fetchsome own_labels_funcexpr own_labels_assign_var)

section \<open>Arriving at a step\<close>

text \<open>Two steps of which the second joins a batch that the first belongs to.\<close>

definition same_batch :: "ExprEvalOp \<Rightarrow> ExprEvalOp \<Rightarrow> bool" where
  "same_batch a b \<longleftrightarrow>
     (case (a, b) of (EEOP_VAR k _, EEOP_VAR k' _) \<Rightarrow> k = k' | (EEOP_ASSIGN_VAR k _ _, EEOP_ASSIGN_VAR k' _ _) \<Rightarrow> k = k' | _ \<Rightarrow> False)"

text \<open>A step that no batch can swallow.\<close>

definition enterable :: "ExprEvalStep list \<Rightarrow> nat \<Rightarrow> bool" where
  "enterable steps t \<longleftrightarrow> is_jump_target steps t \<or> t = 0 \<or> \<not> same_batch (opcode (steps ! (t - 1))) (opcode (steps ! t))"

lemma batch_extra_bounds:
  "opno + batch_extra f jt steps opno < length steps \<or> batch_extra f jt steps opno = 0"
proof -
  have "batch_extra f jt steps opno \<le> length [opno + 1..<length steps]"
    unfolding batch_extra_def by (rule length_takeWhile_le)
  then show ?thesis by auto
qed

lemma batch_extra_member:
  assumes "opno < j" "j \<le> opno + batch_extra f jt steps opno"
  shows "\<not> jt j \<and> f (opcode (steps ! j)) \<noteq> None"
proof -
  let ?P = "\<lambda>j. \<not> jt j \<and> f (opcode (steps ! j)) \<noteq> None" let ?xs = "[opno + 1..<length steps]"
  let ?i = "j - opno - 1"
  have i: "?i < length (takeWhile ?P ?xs)" using assms by (auto simp: batch_extra_def)
  then have "takeWhile ?P ?xs ! ?i = ?xs ! ?i" by (rule takeWhile_nth)
  moreover have "takeWhile ?P ?xs ! ?i \<in> set (takeWhile ?P ?xs)" using i by (rule nth_mem)
  moreover have "?xs ! ?i = j" using assms i length_takeWhile_le [of ?P ?xs] by simp
  ultimately show ?thesis by (auto dest: set_takeWhileD)
qed

lemma emit_step_extra:
  assumes "emit_step cfg steps cached opno = Some (code, extra)" "opno < t" "t \<le> opno + extra"
  shows "\<not> enterable steps t"
proof (cases "opcode (steps ! opno)")
  case (EEOP_VAR k a)
  have e: "extra = batch_extra (var_of k) (is_jump_target steps) steps opno"
    using assms(1) EEOP_VAR by (simp add: emit_step_def Let_def)
  have v: "var_of k (opcode (steps ! j)) \<noteq> None" if "opno \<le> j" "j \<le> t" for j
    using that assms(3) batch_extra_member [of opno j "var_of k" "is_jump_target steps" steps] e EEOP_VAR by (cases "j = opno") auto
  have s: "same_batch a b" if "var_of k a \<noteq> None" "var_of k b \<noteq> None" for a b
    using that by (cases "(k, a)" rule: var_of.cases; cases "(k, b)" rule: var_of.cases) (auto simp: same_batch_def split: if_splits)
  have "same_batch (opcode (steps ! (t - 1))) (opcode (steps ! t))" using assms(2) by (intro s v) auto
  then show ?thesis using assms batch_extra_member [of opno t "var_of k" "is_jump_target steps" steps] e by (simp add: enterable_def)
next
  case (EEOP_ASSIGN_VAR k a r)
  have e: "extra = batch_extra (assign_var_of k) (is_jump_target steps) steps opno"
    using assms(1) EEOP_ASSIGN_VAR by (auto simp: emit_step_def Let_def)
  have v: "assign_var_of k (opcode (steps ! j)) \<noteq> None" if "opno \<le> j" "j \<le> t" for j
    using that assms(3) batch_extra_member [of opno j "assign_var_of k" "is_jump_target steps" steps] e EEOP_ASSIGN_VAR by (cases "j = opno") auto
  have s: "same_batch a b" if "assign_var_of k a \<noteq> None" "assign_var_of k b \<noteq> None" for a b
    using that by (cases "(k, a)" rule: assign_var_of.cases; cases "(k, b)" rule: assign_var_of.cases)
      (auto simp: same_batch_def split: if_splits)
  have "same_batch (opcode (steps ! (t - 1))) (opcode (steps ! t))" using assms(2) by (intro s v) auto
  then show ?thesis using assms batch_extra_member [of opno t "assign_var_of k" "is_jump_target steps" steps] e by (simp add: enterable_def)
qed (use assms in \<open>auto simp: emit_step_def Let_def split: if_splits Option.bind_splits\<close>)

lemma xgoto_labels: "t \<notin> set ls \<Longrightarrow> xgoto env (L_step t) (map (\<lambda>i. Label (L_step i)) ls @ is) x = xgoto env (L_step t) is x"
  by (induction ls) auto

lemma emit_fromD:
  assumes "emit_from cfg steps cached n = Some is" "n < length steps"
  obtains code extra rest where "emit_step cfg steps cached n = Some (code, extra)"
    "emit_from cfg steps (cache_slot (opcode (steps ! n)) cached) (n + extra + 1) = Some rest"
    "is = Label (L_step n) # code @ map (\<lambda>i. Label (L_step i)) [n + 1..<n + extra + 1] @ rest"
  using assms by (subst (asm) emit_from.simps) (auto split: Option.bind_splits)

lemma cache_slot_other: "(\<And>k a. op \<noteq> EEOP_FETCHSOME k a) \<Longrightarrow> cache_slot op cached = cached"
  by (cases "(op, cached)" rule: cache_slot.cases) auto

definition is_fetch :: "ExprEvalOp \<Rightarrow> bool" where
  "is_fetch op = (case op of EEOP_FETCHSOME _ _ \<Rightarrow> True | _ \<Rightarrow> False)"

lemma cache_slot_not_fetch: "\<not> is_fetch op \<Longrightarrow> cache_slot op cached = cached"
  by (rule cache_slot_other) (auto simp: is_fetch_def)

lemma xgoto_emit_from:
  "\<lbrakk>emit_from cfg steps cached n = Some is; n \<le> t; t < length steps; enterable steps t;
    \<forall>j. n \<le> j \<longrightarrow> j < t \<longrightarrow> \<not> is_fetch (opcode (steps ! j))\<rbrakk> \<Longrightarrow>
   \<exists>js. emit_from cfg steps cached t = Some js \<and> xgoto env (L_step t) is x = xexec env js x"
proof (induction "length steps - n" arbitrary: n "is" rule: less_induct)
  case less
  have n: "n < length steps" using less.prems by simp
  obtain code extra rest where e: "emit_step cfg steps cached n = Some (code, extra)"
    "emit_from cfg steps (cache_slot (opcode (steps ! n)) cached) (n + extra + 1) = Some rest"
    "is = Label (L_step n) # code @ map (\<lambda>i. Label (L_step i)) [n + 1..<n + extra + 1] @ rest"
    using emit_fromD [OF less.prems(1) n] .
  show ?case
  proof (cases "n = t")
    case True
    then show ?thesis using less.prems(1) e(3) by (simp add: xexec_ins)
  next
    case False
    then have nt: "n < t" using less.prems(2) by simp
    have "\<not> t \<le> n + extra" using emit_step_extra [OF e(1) nt] less.prems(4) by blast
    then have t: "n + extra + 1 \<le> t" by simp
    have c: "cache_slot (opcode (steps ! n)) cached = cached" using less.prems(5) nt by (intro cache_slot_not_fetch) simp
    have "\<exists>js. emit_from cfg steps cached t = Some js \<and> xgoto env (L_step t) rest x = xexec env js x"
      by (rule less.hyps [of "n + extra + 1"]) (use less.prems t c e(2) n in auto)
    moreover have "xgoto env (L_step t) is x = xgoto env (L_step t) rest x"
    proof -
      have "t \<notin> set [n + 1..<n + extra + 1]" using t by simp
      then show ?thesis
        unfolding e(3) using nt by (simp add: xgoto_step_local [OF own_labels_step [OF e(1)]] xgoto_labels del: upt_Suc set_upt)
    qed
    ultimately show ?thesis by simp
  qed
qed

end
