(* ===== verification/ExprCorrect.thy ===== *)
theory ExprCorrect
  imports ExprLabels
begin

text \<open>
  The compiled function of an expression computes what its steps do, one after the other: the result, its null flag, the memory, the error.
\<close>

section \<open>Well-formed expressions\<close>

text \<open>What the code of a step relies on: a value that goes to the result of the expression has its flag there, a result slot for assignments,
  the functions of PostgreSQL as documented.\<close>

definition supported :: "'w xenv \<Rightarrow> emit_cfg \<Rightarrow> nat \<Rightarrow> bool" where
  "supported env cfg opno \<longleftrightarrow>
     (let op = x_steps env ! opno; pg = x_pg env in results_paired op \<and>
      (case opcode op of
        EEOP_ASSIGN_VAR _ _ _ \<Rightarrow> x_resultslot env | EEOP_ASSIGN_TMP _ \<Rightarrow> x_resultslot env | EEOP_ASSIGN_TMP_MAKE_RO _ \<Rightarrow> x_resultslot env
      | EEOP_FETCHSOME _ _ \<Rightarrow> shared_code_mode cfg \<longrightarrow> deform_dispatch env = getsomeattrs pg
      | EEOP_ROWCOMPARE_STEP fn _ _ _ _ \<Rightarrow> int32_result pg fn
      | EEOP_ROWCOMPARE_FINAL t \<Rightarrow> t \<noteq> COMPARE_EQ \<and> t \<noteq> COMPARE_NE
      | EEOP_EVAL e \<Rightarrow> (e = EEOP_FIELDSELECT \<or> e = EEOP_CONVERT_ROWTYPE) \<longrightarrow> null_kept pg opno op
      | EEOP_DOMAIN_NOTNULL \<Rightarrow> domain_checks pg opno op | EEOP_DOMAIN_CHECK _ _ \<Rightarrow> domain_checks pg opno op
      | EEOP_IOCOERCE f_out f_in \<Rightarrow> flinfo_fn_addr cfg f_out = fc_fn_addr pg f_out \<and> flinfo_fn_addr cfg f_in = fc_fn_addr pg f_in
      | EEOP_AGG_DESERIALIZE f \<Rightarrow> flinfo_fn_addr cfg f = fc_fn_addr pg f
      | EEOP_AGG_STRICT_DESERIALIZE f _ \<Rightarrow> flinfo_fn_addr cfg f = fc_fn_addr pg f
      | _ \<Rightarrow> True))"

fun is_done :: "ExprEvalOp \<Rightarrow> bool" where
  "is_done EEOP_DONE_RETURN = True" | "is_done EEOP_DONE_NO_RETURN = True" | "is_done _ = False"

text \<open>Where a step may go besides the next step.\<close>

fun jumps_of :: "ExprEvalOp \<Rightarrow> nat list" where
  "jumps_of (EEOP_AGG_STRICT_INPUT_CHECK_ARGS _ _ _ _ t) = [t]"
| "jumps_of op = jump_target_of op"

text \<open>A jump goes forward, over no fetch, to a step that is not inside a batch; the last step ends the expression.\<close>

definition wf_expr :: "'w xenv \<Rightarrow> emit_cfg \<Rightarrow> bool" where
  "wf_expr env cfg \<longleftrightarrow>
     (let steps = x_steps env in steps \<noteq> [] \<and>
      (\<forall>i < length steps. supported env cfg i \<and> (\<not> is_done (opcode (steps ! i)) \<longrightarrow> i + 1 < length steps) \<and>
         (\<forall>t \<in> set (jumps_of (opcode (steps ! i))). i < t \<and> t < length steps \<and> enterable steps t \<and>
            (\<forall>j \<in> {i <..< t}. \<not> is_fetch (opcode (steps ! j))))))"

section \<open>Running the steps\<close>

text \<open>The result, the null flag that is returned, and the memory. A jump backward does not occur.\<close>

type_synonym 'w expr_result = "(pg_error + Datum \<times> bool option \<times> 'w expr_mem) option"

function run_steps :: "'w xenv \<Rightarrow> emit_cfg \<Rightarrow> nat \<Rightarrow> 'w expr_mem \<Rightarrow> 'w expr_result" where
  "run_steps env cfg n m =
     (if length (x_steps env) \<le> n then None
      else case opcode (x_steps env ! n) of
        EEOP_DONE_RETURN \<Rightarrow> Some (Inr (vals m Result, Some (nulls m Result), m))
      | EEOP_DONE_NO_RETURN \<Rightarrow> Some (Inr (0, None, m))
      | _ \<Rightarrow> (case jitted_step env cfg n m of None \<Rightarrow> None
          | Some (Inl e) \<Rightarrow> Some (Inl e)
          | Some (Inr (t, m')) \<Rightarrow>
              if t < 0 then run_steps env cfg (n + 1) m' else if n < nat t then run_steps env cfg (nat t) m' else None))"
  by auto
termination by (relation "measure (\<lambda>(env, cfg, n, m). length (x_steps env) - n)") auto

declare run_steps.simps [simp del]

lemma run_steps_go:
  "\<lbrakk>n < length (x_steps env); \<not> is_done (opcode (x_steps env ! n))\<rbrakk> \<Longrightarrow> run_steps env cfg n m =
     (case jitted_step env cfg n m of None \<Rightarrow> None | Some (Inl e) \<Rightarrow> Some (Inl e)
      | Some (Inr (t, m')) \<Rightarrow>
          if t < 0 then run_steps env cfg (n + 1) m' else if n < nat t then run_steps env cfg (nat t) m' else None)"
  by (subst run_steps.simps) (cases "opcode (x_steps env ! n)"; simp)

section \<open>One step\<close>

lemma bind_err_cases: "bind_err r f = None \<Longrightarrow> \<exists>v. r = Inr v \<and> f v = None"
  by (cases r) auto

text \<open>A step for which code is emitted has a result, and goes to the next step or to one of its jumps.\<close>

definition goes :: "nat list \<Rightarrow> 'w step_result \<Rightarrow> bool" where
  "goes js r \<longleftrightarrow> (case r of None \<Rightarrow> False | Some (Inl e) \<Rightarrow> True | Some (Inr (t, m)) \<Rightarrow> t = - 1 \<or> 0 \<le> t \<and> nat t \<in> set js)"

lemma goes_simps [simp]:
  "\<not> goes js None" "goes js (Some (Inl e))" "goes js (cont m)" "goes js (goto t m) \<longleftrightarrow> t \<in> set js"
  "goes js (if b then r else r') \<longleftrightarrow> (if b then goes js r else goes js r')"
  by (simp_all add: goes_def)

lemma goes_cases:
  assumes "goes js r"
  obtains (Error) e where "r = Some (Inl e)" | (Next) m where "r = cont m" | (Jump) t m where "r = goto t m" "t \<in> set js"
proof -
  consider e where "r = Some (Inl e)" | t m where "r = Some (Inr (t, m))" "t = - 1 \<or> 0 \<le> t \<and> nat t \<in> set js"
    using assms by (auto simp: goes_def split: option.splits sum.splits)
  then show ?thesis
  proof cases
    case (2 t m)
    then show ?thesis using that(2) that(3) [of "nat t" m] by auto
  qed (rule that(1))
qed

lemma goes_bind: "(\<And>v. goes js (f v)) \<Longrightarrow> goes js (bind_err r f)"
  by (cases r) simp_all

lemma goes_bind_pair: "(\<And>a b. goes js (f (a, b))) \<Longrightarrow> goes js (bind_err r f)"
  by (rule goes_bind) auto

lemma goes_step:
  assumes "emit_step cfg steps cached opno = Some (code, extra)" "steps ! opno = x_steps env ! opno" "\<not> is_done (opcode (x_steps env ! opno))"
  shows "goes (jumps_of (opcode (x_steps env ! opno))) (jitted_step env cfg opno m)"
proof (cases "opcode (x_steps env ! opno)")
  case (EEOP_ROWCOMPARE_FINAL t)
  then show ?thesis by (cases t) (simp_all add: jitted_defs fallback_rowcompare_final_def)
qed (use assms in \<open>auto simp: emit_step_def jitted_defs fallback_fetchsome_def fallback_var_def fallback_assign_var_def fallback_assign_tmp_def
   fallback_funcexpr_def direct_funcexpr_def fallback_and_step_def fallback_or_step_def and_or_last_def fallback_qual_def
   fallback_testval_def fallback_make_readonly_def fallback_iocoerce_def fallback_distinct_def fallback_nullif_def
   fallback_returningexpr_def fallback_rowcompare_step_def call_eval_def fallback_agg_deserialize_def fallback_presorted_def
   intro!: goes_bind goes_bind_pair split: option.splits bool.splits\<close>)

text \<open>Steps that are not part of a batch: the emitted code follows the step.\<close>

fun is_batched :: "ExprEvalOp \<Rightarrow> bool" where
  "is_batched (EEOP_VAR _ _) = True" | "is_batched (EEOP_ASSIGN_VAR _ _ _) = True" | "is_batched _ = False"

lemma sim_eval:
  assumes "at_step env cfg cached opno op x" "opcode op = EEOP_EVAL e" "emit_eval cfg opno op e = Some code" "supported env cfg opno"
  shows "follows env cfg cached code x (jitted_step env cfg opno (xm x))"
proof -
  note c = at_stepD [OF assms(1)]
  have k: "null_kept (x_pg env) opno op" if "e = EEOP_FIELDSELECT \<or> e = EEOP_CONVERT_ROWTYPE"
    using assms(2,4) c(3) that by (auto simp: supported_def Let_def)
  show ?thesis using assms(2,3)
    by (cases e) (auto intro: sim_eval3 [OF assms(1)] sim_eval2 [OF assms(1)] sim_fieldselect [OF assms(1) k])
qed

lemma sim_step:
  assumes "at_step env cfg cached opno op x" "emit_step cfg steps cached opno = Some (code, extra)" "steps ! opno = op"
    "supported env cfg opno" "regs_distinct cfg" "\<not> is_done (opcode op)" "\<not> is_batched (opcode op)"
  shows "follows env cfg (cache_slot (opcode op) cached) code x (jitted_step env cfg opno (xm x)) \<and> extra = 0"
proof -
  note c = at_stepD [OF assms(1)]
  have s: "supported env cfg opno" "x_steps env ! opno = op" by fact+
  note sims = sim_not [OF assms(1)] sim_qual [OF assms(1)] sim_jumps [OF assms(1)] sim_nulltest [OF assms(1)] sim_booltest [OF assms(1)]
    sim_bool_step [OF assms(1)] sim_const [OF assms(1)] sim_copies [OF assms(1)] sim_testval [OF assms(1)] sim_make_readonly [OF assms(1)]
    sim_returningexpr [OF assms(1)] sim_assign_tmp [OF assms(1)] sim_distinct [OF assms(1)] sim_nullif [OF assms(1)]
    sim_rowcompare_final [OF assms(1)] sim_rowcompare_step [OF assms(1)] sim_iocoerce [OF assms(1)] sim_domain [OF assms(1)]
    sim_sbsref_subscripts [OF assms(1)] sim_agg_deserialize [OF assms(1)] sim_pergroup_nullcheck [OF assms(1)]
    sim_presorted [OF assms(1)] sim_agg_input_checks [OF assms(1)]
  show ?thesis
  proof (cases "opcode op")
    case (EEOP_FETCHSOME k n)
    then show ?thesis using assms(2,3) s sim_fetchsome [OF assms(1) EEOP_FETCHSOME _ assms(5)]
      by (auto simp: emit_step_def supported_def Let_def split: Option.bind_splits)
  next
    case (EEOP_EVAL e)
    then show ?thesis using assms(2,3) sim_eval [OF assms(1) EEOP_EVAL _ assms(4)] by (auto simp: emit_step_def split: Option.bind_splits)
  next
    case (EEOP_FUNCEXPR strict fn f nargs)
    then show ?thesis using assms(2,3) sim_funcexpr [OF assms(1) EEOP_FUNCEXPR] by (auto simp: emit_step_def split: Option.bind_splits)
  next
    case (EEOP_CASE_TESTVAL v l)
    then show ?thesis using assms(2,3) sims by (cases v) (auto simp: emit_step_def)
  next
    case (EEOP_DOMAIN_TESTVAL v l)
    then show ?thesis using assms(2,3) sims by (cases v) (auto simp: emit_step_def)
  next
    case (EEOP_IOCOERCE f g)
    then show ?thesis using assms(2,3) s sim_iocoerce [OF assms(1) EEOP_IOCOERCE]
      by (auto simp: emit_step_def supported_def Let_def split: if_splits)
  qed (use assms(2,3,6,7) s sims in \<open>auto simp: emit_step_def supported_def Let_def split: if_splits\<close>)
qed

section \<open>Batches and ends\<close>

lemma run_var:
  assumes "n < length (x_steps env)" "var_of k (opcode (x_steps env ! n)) = Some a"
  shows "run_steps env cfg n m =
    run_steps env cfg (n + 1) (copy_pair (x_steps env ! n) (tvalues (slots m k) a, tisnull (slots m k) a) m)"
proof -
  have "opcode (x_steps env ! n) = EEOP_VAR k a"
    using assms(2) by (cases "(k, opcode (x_steps env ! n))" rule: var_of.cases) (auto split: if_splits)
  then show ?thesis using assms(1) by (simp add: run_steps_go jitted_defs fallback_var_def)
qed

lemma run_assign_var:
  assumes "n < length (x_steps env)" "assign_var_of k (opcode (x_steps env ! n)) = Some (a, r)"
  shows "run_steps env cfg n m = run_steps env cfg (n + 1) (set_result r (tvalues (slots m k) a) (tisnull (slots m k) a) m)"
proof -
  have "opcode (x_steps env ! n) = EEOP_ASSIGN_VAR k a r"
    using assms(2) by (cases "(k, opcode (x_steps env ! n))" rule: assign_var_of.cases) (auto split: if_splits)
  then show ?thesis using assms(1) by (simp add: run_steps_go jitted_defs fallback_assign_var_def)
qed

lemma slots_copy_pair [simp]: "slots (copy_pair op p m) = slots m"
  by (simp add: copy_pair_def)

lemma slots_set_result [simp]: "slots (set_result r d b m) = slots m"
  by (simp add: set_result_def)

abbreviation var_steps :: "slot_kind \<Rightarrow> ExprEvalStep list \<Rightarrow> nat list \<Rightarrow> (nat \<times> ExprEvalStep \<times> nat) list" where
  "var_steps k steps ns \<equiv> map (\<lambda>i. (i, steps ! i, the (var_of k (opcode (steps ! i))))) ns"

abbreviation assign_steps :: "slot_kind \<Rightarrow> ExprEvalStep list \<Rightarrow> nat list \<Rightarrow> (nat \<times> nat) list" where
  "assign_steps k steps ns \<equiv> map (\<lambda>i. the (assign_var_of k (opcode (steps ! i)))) ns"

lemma run_var_batch:
  "\<lbrakk>e \<le> length (x_steps env); n \<le> e; \<forall>j \<in> {n ..< e}. var_of k (opcode (x_steps env ! j)) \<noteq> None\<rbrakk> \<Longrightarrow>
   run_steps env cfg n m = run_steps env cfg e (var_batch (slots m k) (var_steps k (x_steps env) [n..<e]) m)"
proof (induction "e - n" arbitrary: n m)
  case 0
  then show ?case by (simp add: var_batch_def)
next
  case (Suc d)
  then have ne: "n < e" by simp
  then obtain a where a: "var_of k (opcode (x_steps env ! n)) = Some a" using Suc.prems(3) by fastforce
  let ?m = "copy_pair (x_steps env ! n) (tvalues (slots m k) a, tisnull (slots m k) a) m"
  have "run_steps env cfg n m = run_steps env cfg (n + 1) ?m" using Suc.prems(1) ne by (intro run_var a) simp
  also have "\<dots> = run_steps env cfg e (var_batch (slots ?m k) (var_steps k (x_steps env) [n + 1..<e]) ?m)"
    using Suc.hyps(2) ne Suc.prems by (intro Suc.hyps(1)) auto
  finally show ?case using a upt_conv_Cons [OF ne, unfolded Suc_eq_plus1] by (simp add: var_batch_def)
qed

lemma run_assign_batch:
  "\<lbrakk>e \<le> length (x_steps env); n \<le> e; \<forall>j \<in> {n ..< e}. assign_var_of k (opcode (x_steps env ! j)) \<noteq> None\<rbrakk> \<Longrightarrow>
   run_steps env cfg n m = run_steps env cfg e (assign_batch (slots m k) (assign_steps k (x_steps env) [n..<e]) m)"
proof (induction "e - n" arbitrary: n m)
  case 0
  then show ?case by (simp add: assign_batch_def)
next
  case (Suc d)
  then have ne: "n < e" by simp
  then obtain a r where a: "assign_var_of k (opcode (x_steps env ! n)) = Some (a, r)" using Suc.prems(3) by fastforce
  let ?m = "set_result r (tvalues (slots m k) a) (tisnull (slots m k) a) m"
  have "run_steps env cfg n m = run_steps env cfg (n + 1) ?m" using Suc.prems(1) ne by (intro run_assign_var a) simp
  also have "\<dots> = run_steps env cfg e (assign_batch (slots ?m k) (assign_steps k (x_steps env) [n + 1..<e]) ?m)"
    using Suc.hyps(2) ne Suc.prems by (intro Suc.hyps(1)) auto
  finally show ?case using a upt_conv_Cons [OF ne, unfolded Suc_eq_plus1] by (simp add: assign_batch_def)
qed

text \<open>What a run of the machine shows of its end.\<close>

definition outcome :: "(pg_error + Datum \<times> 'w xmachine) option \<Rightarrow> 'w expr_result" where
  "outcome r = (case r of None \<Rightarrow> None | Some (Inl e) \<Rightarrow> Some (Inl e) | Some (Inr (d, x)) \<Rightarrow> Some (Inr (d, isnull_out x, xm x)))"

lemma store_isnull_out [simp]: "store_bool P_isnull_out F_zero b x = Some (x\<lparr>isnull_out := Some b\<rparr>)"
  by (simp add: store_bool_def)

lemma exec_done:
  assumes "ready env cfg cached x" "n < length (x_steps env)" "is_done (opcode (x_steps env ! n))" "isnull_out x = None"
    "emit_step cfg' (x_steps env) cached n = Some (code, extra)"
  shows "outcome (xexec env (code @ is) x) = run_steps env cfg n (xm x)"
proof -
  have s: "xr x (S 0) = Some (XP P_state)" "xr x (S 2) = Some (XP P_isnull_out)" using assms(1) by (simp_all add: ready_def)
  show ?thesis
  proof (cases "opcode (x_steps env ! n)")
    case EEOP_DONE_RETURN
    then show ?thesis using assms s by (subst run_steps.simps) (auto simp: emit_step_def xexec_ins outcome_def)
  next
    case EEOP_DONE_NO_RETURN
    then show ?thesis using assms s by (subst run_steps.simps) (auto simp: emit_step_def xexec_ins outcome_def)
  qed (use assms(3) in simp_all)
qed

section \<open>The compiled function\<close>

lemma xexec_labels: "xexec env (map (\<lambda>i. Label (L_step i)) ls @ is) x = xexec env is x"
  by (induction ls) (simp_all add: xexec_ins)

lemma wf_exprD:
  assumes "wf_expr env cfg" "n < length (x_steps env)"
  shows "supported env cfg n" "\<not> is_done (opcode (x_steps env ! n)) \<Longrightarrow> n + 1 < length (x_steps env)"
    "\<And>t. t \<in> set (jumps_of (opcode (x_steps env ! n))) \<Longrightarrow> n < t \<and> t < length (x_steps env) \<and> enterable (x_steps env) t \<and>
       (\<forall>j \<in> {n <..< t}. \<not> is_fetch (opcode (x_steps env ! j)))"
  using assms unfolding wf_expr_def Let_def by blast+

lemma at_step_wf:
  "\<lbrakk>wf_expr env cfg; ready env cfg cached x; n < length (x_steps env)\<rbrakk> \<Longrightarrow> at_step env cfg cached n (x_steps env ! n) x"
  using wf_exprD(1) [of env cfg n] by (simp add: at_step_def supported_def Let_def)

text \<open>A batch: all of its steps are executed, and the rest goes on behind them.\<close>

lemma exec_batch:
  assumes "emit_step cfg (x_steps env) cached n = Some (code, extra)" "is_batched (opcode (x_steps env ! n))" "n < length (x_steps env)"
    "wf_expr env cfg" "ready env cfg cached x"
  shows "n + extra + 1 < length (x_steps env) \<and> (\<exists>x'. xexec env (code @ is) x = xexec env is x' \<and> ready env cfg cached x' \<and>
    isnull_out x' = isnull_out x \<and> run_steps env cfg n (xm x) = run_steps env cfg (n + extra + 1) (xm x'))"
proof -
  let ?steps = "x_steps env"
  have len: "n + extra + 1 < length ?steps" if "n + extra < length ?steps" "\<not> is_done (opcode (?steps ! (n + extra)))"
    using wf_exprD(2) [OF assms(4) that] .
  show ?thesis
  proof (cases "opcode (?steps ! n)")
    case (EEOP_VAR k a)
    let ?b = "var_steps k ?steps [n..<n + extra + 1]"
    have e: "extra = batch_extra (var_of k) (is_jump_target ?steps) ?steps n" "code = emit_var cfg cached k ?b"
      using assms(1) EEOP_VAR by (auto simp: emit_step_def Let_def)
    have l: "n + extra < length ?steps" using batch_extra_bounds [of n "var_of k" "is_jump_target ?steps" ?steps] e(1) assms(3) by auto
    have v: "var_of k (opcode (?steps ! j)) \<noteq> None" if "j \<in> {n..<n + extra + 1}" for j
      using that batch_extra_member [of n j "var_of k" "is_jump_target ?steps" ?steps] e(1) EEOP_VAR by (cases "j = n") auto
    have "\<not> is_done (opcode (?steps ! (n + extra)))" using v [of "n + extra"] by (cases "opcode (?steps ! (n + extra))") auto
    note l' = len [OF l this]
    have "batch_ok env ?b" using l by (auto simp: batch_ok_def)
    then obtain x' where x': "xexec env (code @ is) x = xexec env is x'" "ready env cfg cached x'" "isnull_out x' = isnull_out x"
        "xm x' = var_batch (slots (xm x) k) ?b (xm x)"
      using exec_var [OF _ assms(5), of ?b k "is"] unfolding e(2) by blast
    show ?thesis using run_var_batch [of "n + extra + 1" env n k cfg "xm x"] v l l' x' by (auto simp del: upt_Suc)
  next
    case (EEOP_ASSIGN_VAR k a r)
    let ?b = "assign_steps k ?steps [n..<n + extra + 1]"
    have e: "extra = batch_extra (assign_var_of k) (is_jump_target ?steps) ?steps n" "emit_assign_var cfg cached k ?b = Some code"
      using assms(1) EEOP_ASSIGN_VAR by (auto simp: emit_step_def Let_def)
    have l: "n + extra < length ?steps" using batch_extra_bounds [of n "assign_var_of k" "is_jump_target ?steps" ?steps] e(1) assms(3) by auto
    have v: "assign_var_of k (opcode (?steps ! j)) \<noteq> None" if "j \<in> {n..<n + extra + 1}" for j
      using that batch_extra_member [of n j "assign_var_of k" "is_jump_target ?steps" ?steps] e(1) EEOP_ASSIGN_VAR by (cases "j = n") auto
    have "\<not> is_done (opcode (?steps ! (n + extra)))" using v [of "n + extra"] by (cases "opcode (?steps ! (n + extra))") auto
    note l' = len [OF l this]
    have rs: "x_resultslot env" using wf_exprD(1) [OF assms(4,3)] EEOP_ASSIGN_VAR by (simp add: supported_def)
    obtain x' where x': "xexec env (code @ is) x = xexec env is x'" "ready env cfg cached x'" "isnull_out x' = isnull_out x"
        "xm x' = assign_batch (slots (xm x) k) ?b (xm x)"
      using exec_assign_var [OF assms(5) rs e(2), of "is"] by blast
    show ?thesis using run_assign_batch [of "n + extra + 1" env n k cfg "xm x"] v l l' x' by (auto simp del: upt_Suc)
  qed (use assms(2) in simp_all)
qed

lemma exec_from:
  "\<lbrakk>emit_from cfg (x_steps env) cached n = Some is; ready env cfg cached x; n < length (x_steps env); isnull_out x = None;
    wf_expr env cfg; regs_distinct cfg\<rbrakk> \<Longrightarrow>
   outcome (xexec env is x) = run_steps env cfg n (xm x) \<and> run_steps env cfg n (xm x) \<noteq> None"
proof (induction "length (x_steps env) - n" arbitrary: n cached "is" x rule: less_induct)
  case less
  let ?op = "x_steps env ! n"
  obtain code extra rest where e: "emit_step cfg (x_steps env) cached n = Some (code, extra)"
    "emit_from cfg (x_steps env) (cache_slot (opcode ?op) cached) (n + extra + 1) = Some rest"
    "is = Label (L_step n) # code @ map (\<lambda>i. Label (L_step i)) [n + 1..<n + extra + 1] @ rest"
    using emit_fromD [OF less.prems(1,3)] .
  let ?rest = "map (\<lambda>i. Label (L_step i)) [n + 1..<n + extra + 1] @ rest"
  have x_is: "xexec env is x = xexec env (code @ ?rest) x" unfolding e(3) by (simp add: xexec_ins)
  consider (Done) "is_done (opcode ?op)" | (Batch) "is_batched (opcode ?op)" | (Step) "\<not> is_done (opcode ?op)" "\<not> is_batched (opcode ?op)"
    by blast
  then show ?case
  proof cases
    case Done
    have "run_steps env cfg n (xm x) \<noteq> None"
      using Done less.prems(3) by (subst run_steps.simps) (cases "opcode ?op"; simp)
    then show ?thesis unfolding x_is using exec_done [OF less.prems(2,3) Done less.prems(4) e(1)] by simp
  next
    case Batch
    have c: "cache_slot (opcode ?op) cached = cached" using Batch by (cases "opcode ?op") auto
    obtain x' where x': "n + extra + 1 < length (x_steps env)" "xexec env (code @ ?rest) x = xexec env ?rest x'" "ready env cfg cached x'"
        "isnull_out x' = isnull_out x" "run_steps env cfg n (xm x) = run_steps env cfg (n + extra + 1) (xm x')"
      using exec_batch [OF e(1) Batch less.prems(3,5,2), of ?rest] by blast
    have "outcome (xexec env rest x') = run_steps env cfg (n + extra + 1) (xm x') \<and> run_steps env cfg (n + extra + 1) (xm x') \<noteq> None"
      by (rule less.hyps) (use less.prems x' e(2) c in auto)
    then show ?thesis using x' unfolding x_is by (simp add: xexec_labels del: upt_Suc)
  next
    case Step
    let ?cached = "cache_slot (opcode ?op) cached"
    have at: "at_step env cfg cached n ?op x" by (rule at_step_wf [OF less.prems(5,2,3)])
    have f: "follows env cfg ?cached code x (jitted_step env cfg n (xm x))" "extra = 0"
      using sim_step [OF at e(1) refl wf_exprD(1) [OF less.prems(5,3)] less.prems(6) Step] by simp_all
    have rest: "?rest = rest" "emit_from cfg (x_steps env) ?cached (n + 1) = Some rest" using f(2) e(2) by simp_all
    have g: "goes (jumps_of (opcode ?op)) (jitted_step env cfg n (xm x))" by (rule goes_step [OF e(1) refl Step(1)])
    note run = run_steps_go [OF less.prems(3) Step(1)]
    have n1: "n + 1 < length (x_steps env)" by (rule wf_exprD(2) [OF less.prems(5,3) Step(1)])
    from g show ?thesis
    proof (cases rule: goes_cases)
      case (Error err)
      then show ?thesis using f(1) unfolding x_is run rest(1) by (simp add: follows_def outcome_def)
    next
      case (Next m)
      obtain x' where x': "ready env cfg ?cached x'" "xm x' = m" "isnull_out x' = isnull_out x" "xexec env (code @ rest) x = xexec env rest x'"
        using f(1) unfolding Next follows_def by auto
      have "outcome (xexec env rest x') = run_steps env cfg (n + 1) (xm x') \<and> run_steps env cfg (n + 1) (xm x') \<noteq> None"
        by (rule less.hyps) (use less.prems x' rest(2) n1 in auto)
      then show ?thesis using x' Next unfolding x_is run rest(1) by simp
    next
      case (Jump t m)
      have t: "n < t" "t < length (x_steps env)" "enterable (x_steps env) t" "\<forall>j \<in> {n <..< t}. \<not> is_fetch (opcode (x_steps env ! j))"
        using wf_exprD(3) [OF less.prems(5,3) Jump(2)] by simp_all
      obtain x' where x': "ready env cfg ?cached x'" "xm x' = m" "isnull_out x' = isnull_out x"
          "xexec env (code @ rest) x = xgoto env (L_step t) rest x'"
        using f(1) unfolding Jump(1) follows_def by auto
      obtain js where js: "emit_from cfg (x_steps env) ?cached t = Some js" "xgoto env (L_step t) rest x' = xexec env js x'"
        using xgoto_emit_from [OF rest(2), of t env x'] t by auto
      have "outcome (xexec env js x') = run_steps env cfg t (xm x') \<and> run_steps env cfg t (xm x') \<noteq> None"
        by (rule less.hyps) (use less.prems x' js(1) t in auto)
      then show ?thesis using x' js(2) Jump(1) t(1) unfolding x_is run rest(1) by simp
    qed
  qed
qed

section \<open>Registers and prologue\<close>

text \<open>The registers from \<open>n\<close> on are handed out once.\<close>

definition fresh_regs :: "nat \<Rightarrow> nat \<Rightarrow> (slot_kind \<Rightarrow> (nat \<times> nat) option) \<Rightarrow> bool" where
  "fresh_regs n n' r \<longleftrightarrow> n \<le> n' \<and>
     (\<forall>k v w. r k = Some (v, w) \<longrightarrow> n \<le> v \<and> v < n' \<and> n \<le> w \<and> w < n' \<and> v \<noteq> w) \<and>
     (\<forall>k k' v w v' w'. k \<noteq> k' \<longrightarrow> r k = Some (v, w) \<longrightarrow> r k' = Some (v', w') \<longrightarrow> {v, w} \<inter> {v', w'} = {})"

lemma fresh_slot_regs: "slot_regs nregs steps ks n = (r, n') \<Longrightarrow> fresh_regs n n' r"
proof (induction ks arbitrary: n r n')
  case Nil
  then show ?case by (auto simp: fresh_regs_def)
next
  case (Cons k ks)
  show ?case
  proof (cases "8 \<le> nregs \<and> list_ex (\<lambda>s. slot_of (opcode s) = Some k) steps \<and> n + 2 \<le> nregs")
    case True
    then obtain r0 where r0: "slot_regs nregs steps ks (n + 2) = (r0, n')" "r = r0(k := Some (n, n + 1))"
      using Cons.prems by (auto simp: Let_def split: prod.splits)
    have f: "fresh_regs (n + 2) n' r0" by (rule Cons.IH [OF r0(1)])
    then have "n + 2 \<le> n'" "\<And>k v w. r0 k = Some (v, w) \<Longrightarrow> n + 2 \<le> v \<and> v < n' \<and> n + 2 \<le> w \<and> w < n' \<and> v \<noteq> w"
        "\<And>k k' v w v' w'. \<lbrakk>k \<noteq> k'; r0 k = Some (v, w); r0 k' = Some (v', w')\<rbrakk> \<Longrightarrow> {v, w} \<inter> {v', w'} = {}"
      unfolding fresh_regs_def by (elim conjE, blast)+
    note g = this
    have b: "n \<le> v \<and> v < n' \<and> n \<le> w \<and> w < n' \<and> v \<noteq> w" if "r k' = Some (v, w)" for k' v w
      using that g(1) g(2) [of k' v w] r0(2) by (auto split: if_splits)
    have d: "{v, w} \<inter> {v', w'} = {}" if "k1 \<noteq> k2" "r k1 = Some (v, w)" "r k2 = Some (v', w')" for k1 k2 v w v' w'
      using that g(2) [of k1 v w] g(2) [of k2 v' w'] g(3) [of k1 k2 v w v' w'] r0(2) by (auto split: if_splits)
    show ?thesis unfolding fresh_regs_def using g(1) b d by (intro conjI allI impI) (simp, blast+)
  next
    case False
    have "slot_regs nregs steps ks n = (r, n')" using Cons.prems unfolding slot_regs.simps if_not_P [OF False] .
    then show ?thesis by (rule Cons.IH)
  qed
qed

lemma regs_distinct_alloc: "regs_distinct (alloc_registers nregs steps cfg)"
proof -
  let ?n = "base_saved nregs steps + (if steps_reg nregs steps = None then 0 else 1)"
  obtain r n' where r: "slot_regs nregs steps [Inner, Outer, Scan, Old, New] ?n = (r, n')" by (cases "slot_regs nregs steps [Inner, Outer, Scan, Old, New] ?n")
  have f: "fresh_regs ?n n' r" by (rule fresh_slot_regs [OF r])
  have b: "5 < base_saved nregs steps" by (simp add: base_saved_def)
  have s: "steps_reg nregs steps = None \<or> steps_reg nregs steps = Some (base_saved nregs steps)" by (simp add: steps_reg_def)
  have c: "sreg_steps (alloc_registers nregs steps cfg) = steps_reg nregs steps" "sreg_slot (alloc_registers nregs steps cfg) = r"
    using r by (simp_all add: alloc_registers_def Let_def del: slot_regs.simps)
  have b1: "?n \<le> v \<and> ?n \<le> w \<and> v \<noteq> w" if "r k = Some (v, w)" for k v w
    using f that unfolding fresh_regs_def by (elim conjE) blast
  have "5 < v \<and> 5 < w \<and> v \<noteq> w \<and> steps_reg nregs steps \<noteq> Some v \<and> steps_reg nregs steps \<noteq> Some w" if "r k = Some (v, w)" for k v w
    using b1 [OF that] b s by auto
  moreover have "\<forall>k k' v w v' w'. k \<noteq> k' \<longrightarrow> r k = Some (v, w) \<longrightarrow> r k' = Some (v', w') \<longrightarrow> {v, w} \<inter> {v', w'} = {}"
    using f unfolding fresh_regs_def by (elim conjE)
  moreover have "5 < q" if "steps_reg nregs steps = Some q" for q using that s b by auto
  ultimately show ?thesis unfolding regs_distinct_def c by blast
qed

text \<open>The arguments of the function at its entry.\<close>

definition at_entry :: "'w xmachine \<Rightarrow> bool" where
  "at_entry x \<longleftrightarrow> xr x (S 0) = Some (XP P_state) \<and> xr x (S 1) = Some (XP P_econtext) \<and> xr x (S 2) = Some (XP P_isnull_out) \<and> isnull_out x = None"

lemma load_prologue:
  "load env m MOV P_state F_steps = Some (XP P_steps)" "load env m MOV P_state F_resultslot = Some (if x_resultslot env then XP P_resultslot else XN 0)"
  "load env m MOV P_resultslot F_tts_values = Some (XP P_rvalues)" "load env m MOV P_resultslot F_tts_isnull = Some (XP P_risnull)"
  by (simp_all add: load_def)

lemma exec_expr_prologue:
  assumes "at_entry x" "regs_distinct cfg"
  shows "\<exists>x'. xexec env (emit_prologue cfg @ body) x = xexec env body x' \<and> ready env cfg (\<lambda>_. False) x' \<and> xm x' = xm x \<and> isnull_out x' = isnull_out x"
proof -
  have r: "5 < r" if "sreg_steps cfg = Some r" for r using assms(2) that unfolding regs_distinct_def by blast
  have e: "xr x (S 0) = Some (XP P_state)" "xr x (S 1) = Some (XP P_econtext)" "xr x (S 2) = Some (XP P_isnull_out)"
    using assms(1) by (simp_all add: at_entry_def)
  have h: "holds C_EQUAL (XP p) (XN 0) = Some False" for p by (simp add: holds_def)
  have n: "SOFF_RESULTSLOT \<noteq> SOFF_STEPS" by (simp add: soff_defs)
  show ?thesis
  proof (cases "x_resultslot env")
    case True
    then show ?thesis using e r n
      by (cases "sreg_steps cfg") (auto simp: emit_prologue_def xexec_ins load_prologue h ready_def steps_ok_def)
  next
    case False
    then show ?thesis using e r n
      by (cases "sreg_steps cfg") (auto simp: emit_prologue_def xexec_ins load_prologue ready_def steps_ok_def)
  qed
qed

text \<open>The registers do not matter for what an expression does.\<close>

lemma alloc_registers_simps [simp]:
  "shared_code_mode (alloc_registers nregs steps cfg) = shared_code_mode cfg" "direct_fn (alloc_registers nregs steps cfg) = direct_fn cfg"
  "flinfo_fn_addr (alloc_registers nregs steps cfg) = flinfo_fn_addr cfg"
  by (simp_all add: alloc_registers_def Let_def split: prod.splits)

lemma wf_expr_alloc: "wf_expr env (alloc_registers nregs steps cfg) = wf_expr env cfg"
  by (simp add: wf_expr_def supported_def cong: ExprEvalOp.case_cong)

lemma jitted_step_alloc: "jitted_step env (alloc_registers nregs steps cfg) = jitted_step env cfg"
  by (simp add: fun_eq_iff jitted_step_def called_directly_def cong: ExprEvalOp.case_cong)

lemma run_steps_cong:
  assumes "jitted_step env cfg = jitted_step env cfg'"
  shows "run_steps env cfg n m = run_steps env cfg' n m"
proof (induction "length (x_steps env) - n" arbitrary: n m rule: less_induct)
  case less
  show ?case
  proof (cases "n < length (x_steps env) \<and> \<not> is_done (opcode (x_steps env ! n))")
    case True
    then have n: "n < length (x_steps env)" "\<not> is_done (opcode (x_steps env ! n))" by simp_all
    have "run_steps env cfg k m' = run_steps env cfg' k m'" if "n < k" for k m'
      using less [of k m'] that n(1) by simp
    then show ?thesis unfolding run_steps_go [OF n] using assms by (auto split: option.splits sum.splits)
  next
    case False
    then show ?thesis by (subst (1 2) run_steps.simps) (cases "opcode (x_steps env ! n)"; auto)
  qed
qed

lemma compiled_expr:
  assumes "emit_expr nregs cfg (x_steps env) = Some code" "wf_expr env cfg" "at_entry x"
  shows "outcome (xexec env code x) = run_steps env cfg 0 (xm x) \<and> run_steps env cfg 0 (xm x) \<noteq> None"
proof -
  let ?cfg = "alloc_registers nregs (x_steps env) cfg"
  obtain body where b: "emit_from ?cfg (x_steps env) (\<lambda>_. False) 0 = Some body" "code = emit_prologue ?cfg @ body"
    using assms(1) by (auto simp: emit_expr_def Let_def)
  obtain x' where x': "xexec env code x = xexec env body x'" "ready env ?cfg (\<lambda>_. False) x'" "xm x' = xm x" "isnull_out x' = None"
    using exec_expr_prologue [OF assms(3) regs_distinct_alloc, where env = env and body = body] assms(3) unfolding b(2) at_entry_def by metis
  have "0 < length (x_steps env)" using assms(2) by (simp add: wf_expr_def Let_def)
  from exec_from [OF b(1) x'(2) this x'(4) _ regs_distinct_alloc]
  show ?thesis using assms(2) x' by (simp add: wf_expr_alloc run_steps_cong [OF jitted_step_alloc])
qed

end
