(* ===== verification/ExprProps.thy ===== *)
theory ExprProps
  imports ExprCase ExprCorrect
begin

text \<open>
  What the compiled function of an expression guarantees, on concrete expressions too: a filter \<open>a < b\<close>, and AND and OR over any number of operands.
\<close>

declare One_nat_def [simp del]

section \<open>The compiled function and the steps\<close>

text \<open>A filter on two columns of the scanned tuple, \<open>SELECT ... WHERE a < b\<close>, with a comparison function at address 7.\<close>

definition filter_steps :: "ExprEvalStep list" where
  "filter_steps =
     [\<lparr>opcode = EEOP_FETCHSOME Scan 2, resvalue = Result, resnull = Result\<rparr>,
      \<lparr>opcode = EEOP_VAR Scan 0, resvalue = Arg 0 0, resnull = Arg 0 0\<rparr>,
      \<lparr>opcode = EEOP_VAR Scan 1, resvalue = Arg 0 1, resnull = Arg 0 1\<rparr>,
      \<lparr>opcode = EEOP_FUNCEXPR STRICT_2 7 0 2, resvalue = Result, resnull = Result\<rparr>,
      \<lparr>opcode = EEOP_QUAL 6, resvalue = Result, resnull = Result\<rparr>,
      \<lparr>opcode = EEOP_CONST 1 False, resvalue = Result, resnull = Result\<rparr>,
      \<lparr>opcode = EEOP_DONE_RETURN, resvalue = Result, resnull = Result\<rparr>]"

definition sample_cfg :: emit_cfg where
  "sample_cfg = \<lparr>shared_code_mode = False, inline_enabled = False, sreg_steps = None, sreg_slot = (\<lambda>_. None), nsaved = 0,
     direct_fn = (\<lambda>_. None), text_pattern = (\<lambda>_. False), jsonb_field_text = (\<lambda>_. False), deform_ok = (\<lambda>_. False), is_jsonb_in = (\<lambda>_. False), flinfo_fn_addr = (\<lambda>_. 0)\<rparr>"

definition sample_case :: case_cfg where
  "sample_case = \<lparr>cd_env = \<lparr>ce_pg = \<lparr>pg_call = (\<lambda>_ _ _ _. False), text_bytes = (\<lambda>_. []), coll_deterministic = (\<lambda>_. True), coll_is_c = (\<lambda>_. False)\<rparr>,
     ce_qsort = (\<lambda>_ ps. ps), ce_find = (\<lambda>_. None)\<rparr>, cd_fn = (\<lambda>_. []), cd_collation = (\<lambda>_. 0), cd_arg1 = (\<lambda>_. (0, False))\<rparr>"

definition sample_pg :: "unit pg_fns" where
  "sample_pg = \<lparr>v1_call = (\<lambda>fn args _ w. case args of [(a, _), (b, _)] \<Rightarrow> Inr (BoolGetDatum (sint a < sint b), False, w) | _ \<Rightarrow> Inl (Elog_error ''call'')),
     fc_nargs = (\<lambda>_. 2), fc_fn_addr = (\<lambda>_. 7), fc_collation = (\<lambda>_. 0), exec_eval = (\<lambda>_ _ _ m. Inr m),
     exec_eval_int = (\<lambda>_ _ m. Inr (0, m)), presorted_distinct = (\<lambda>_ _ m. Inr (True, m)),
     getsomeattrs = (\<lambda>k n m. Inr (m\<lparr>slots := (slots m)(k := (slots m k)\<lparr>nvalid := n\<rparr>)\<rparr>)),
     make_readonly = (\<lambda>d. d), pt_fcinfo = (\<lambda>_. 0), per_tuple_memory = 0, agg_init_group = (\<lambda>_ _ _ _ m. Inr m),
     agg_copy_trans_value = (\<lambda>_ d _ _ _ w. Inr (d, w))\<rparr>"

definition sample_env :: "ExprEvalStep list \<Rightarrow> unit xenv" where
  "sample_env steps = \<lparr>x_pg = sample_pg, x_steps = steps, x_resultslot = False, direct_call = (\<lambda>_ _ w. Inr (0, w)),
     deform_dispatch = getsomeattrs sample_pg, flag_rest = (\<lambda>_. 0)\<rparr>"

text \<open>A scanned tuple with the values 3 and 5.\<close>

definition sample_mem :: "unit expr_mem" where
  "sample_mem = \<lparr>vals = (\<lambda>_. 0), nulls = (\<lambda>_. False), fc_isnull = (\<lambda>_. False), anynulls = (\<lambda>_. False),
     slots = (\<lambda>_. \<lparr>nvalid = 0, tvalues = (\<lambda>i. if i = 0 then 3 else 5), tisnull = (\<lambda>_. False)\<rparr>),
     result_values = (\<lambda>_. 0), result_isnull = (\<lambda>_. False), aggvalues = (\<lambda>_. 0), aggnulls = (\<lambda>_. False), caseValue = (0, False),
     domainValue = (0, False), nulls_arrays = (\<lambda>_ _. False), wfuncnos = (\<lambda>_. 0), es_flags = 0, pergroups = (\<lambda>_. None), curaggcontext = 0,
     current_set = 0, curpertrans = 0, CurrentMemoryContext = 0, world = ()\<rparr>"

definition sample_start :: "unit xmachine" where
  "sample_start = \<lparr>xr = (\<lambda>r. if r = S 0 then Some (XP P_state) else if r = S 1 then Some (XP P_econtext)
       else if r = S 2 then Some (XP P_isnull_out) else None),
     xframe = (\<lambda>_. None), xz = None, xm = sample_mem, isnull_out = None\<rparr>"

text \<open>The datum and the flag of a result.\<close>

definition result_of :: "'w expr_result \<Rightarrow> (pg_error + Datum \<times> bool option) option" where
  "result_of r = map_option (\<lambda>s. case s of Inl e \<Rightarrow> Inl e | Inr (d, b, _) \<Rightarrow> Inr (d, b)) r"

text \<open>Code is emitted for an expression when it is emitted for each step.\<close>

lemma emit_from_total: "(\<And>n cached. n < length steps \<Longrightarrow> emit_step cfg steps cached n \<noteq> None) \<Longrightarrow> emit_from cfg steps cached n \<noteq> None"
proof (induction "length steps - n" arbitrary: n cached rule: less_induct)
  case less
  show ?case
  proof (cases "n < length steps")
    case True
    then obtain code extra where e: "emit_step cfg steps cached n = Some (code, extra)" using less.prems [of n cached] by auto
    have "emit_from cfg steps (cache_slot (opcode (steps ! n)) cached) (n + extra + 1) \<noteq> None"
      by (rule less.hyps) (use True less.prems in auto)
    then show ?thesis using e True by (subst emit_from.simps) auto
  next
    case False
    then show ?thesis by (subst emit_from.simps) simp
  qed
qed

lemma compiles_total:
  "\<lbrakk>case_bsearch cc steps = Some [];
    \<And>n cached. n < length steps \<Longrightarrow> emit_step (alloc_registers nregs steps cfg) steps cached n \<noteq> None\<rbrakk> \<Longrightarrow>
   \<exists>code. sljit_compile_steps cc nregs cfg steps = Some code"
  using emit_from_total [of steps "alloc_registers nregs steps cfg" "\<lambda>_. False" 0]
  by (auto simp: sljit_compile_steps_def emit_expr_def Let_def)

lemma compiled_emitted:
  "sljit_compile_steps cc nregs cfg steps = Some code \<Longrightarrow> emit_expr nregs cfg steps = Some code"
  by (simp add: sljit_compile_steps_def split: if_splits)

lemmas compiled_code = compiled_expr [OF compiled_emitted]

lemma sample_cfg_simps [simp]:
  "shared_code_mode sample_cfg = False" "direct_fn sample_cfg = (\<lambda>_. None)" "deform_ok sample_cfg = (\<lambda>_. False)" "text_pattern sample_cfg = (\<lambda>_. False)"
  "jsonb_field_text sample_cfg = (\<lambda>_. False)"
  by (simp_all add: sample_cfg_def)

lemma sample_run_simps [simp]: "x_steps (sample_env steps) = steps" "x_pg (sample_env steps) = sample_pg" "x_resultslot (sample_env steps) = False"
  by (simp_all add: sample_env_def)

lemma alloc_registers_more [simp]:
  "deform_ok (alloc_registers nregs steps cfg) = deform_ok cfg" "text_pattern (alloc_registers nregs steps cfg) = text_pattern cfg"
  "jsonb_field_text (alloc_registers nregs steps cfg) = jsonb_field_text cfg"
  "is_jsonb_in (alloc_registers nregs steps cfg) = is_jsonb_in cfg" "inline_enabled (alloc_registers nregs steps cfg) = inline_enabled cfg"
  by (simp_all add: alloc_registers_def Let_def split: prod.splits)

lemma filter_emitted: "\<exists>code. sljit_compile_steps cc nregs sample_cfg filter_steps = Some code"
proof (rule compiles_total)
  show "case_bsearch cc filter_steps = Some []" by (rule case_bsearch_no_jint) (auto simp: filter_steps_def)
next
  fix n cached assume "n < length filter_steps"
  then have "n \<in> {0, 1, 2, 3, 4, 5, 6}" by (auto simp: filter_steps_def)
  then show "emit_step (alloc_registers nregs filter_steps sample_cfg) filter_steps cached n \<noteq> None"
    by (auto simp: emit_step_def filter_steps_def emit_fetchsome_def emit_funcexpr_def Let_def)
qed

lemma filter_wf: "wf_expr (sample_env filter_steps) sample_cfg"
proof -
  have "i < length filter_steps \<Longrightarrow> i \<in> {0, 1, 2, 3, 4, 5, 6}" for i by (auto simp: filter_steps_def)
  moreover have "supported (sample_env filter_steps) sample_cfg i" if "i \<in> {0, 1, 2, 3, 4, 5, 6}" for i
    using that by (auto simp: supported_def filter_steps_def results_paired_def Let_def)
  moreover have "enterable filter_steps 6" by (simp add: enterable_def is_jump_target_def filter_steps_def)
  ultimately show ?thesis
    by (simp add: wf_expr_def) (auto simp: filter_steps_def is_fetch_def nth_Cons split: nat.splits)
qed

lemma filter_run: "result_of (run_steps (sample_env filter_steps) sample_cfg 0 sample_mem) = Some (Inr (1, Some False))"
  by (simp add: run_steps_go filter_steps_def jitted_defs fallback_fetchsome_def fallback_var_def fallback_funcexpr_def fallback_qual_def
      sample_pg_def sample_mem_def copy_pair_def called_directly_def any_arg_null_def call_frame_def frame_args_def set_val_def set_null_def
      set_fc_isnull_def result_of_def upt_rec run_steps.simps [of _ _ 6])

text \<open>C1 (refinement): for every well-formed expression in which the compiler replaces no CASE by a search (else \<open>sljit_compile_steps\<close> is
  \<open>None\<close>) and every number of saved registers, the compiled function started with its arguments returns what the steps yield one after the other, as
  \<open>pg_jitter_fallback_step\<close> executes them up to the four departures of \<open>jitted_step\<close>: the same datum, the same null flag stored through its
  pointer, the same memory, or the same error. Well-formed (\<open>wf_expr\<close>): steps that the emitter supports, a final step that returns, jumps only forward, over no fetch,
  to steps that are not inside a batch.\<close>

theorem compiled_expr_refines:
  assumes "sljit_compile_steps cc nregs cfg (x_steps env) = Some code" "wf_expr env cfg" "at_entry x"
  shows "outcome (xexec env code x) = run_steps env cfg 0 (xm x)"
  using compiled_code [OF assms] by simp

theorem compiled_expr_refines_witness:
  "\<exists>code. sljit_compile_steps sample_case 10 sample_cfg filter_steps = Some code \<and>
     result_of (outcome (xexec (sample_env filter_steps) code sample_start)) = Some (Inr (1, Some False))"
proof -
  obtain code where c: "sljit_compile_steps sample_case 10 sample_cfg filter_steps = Some code" using filter_emitted by blast
  have "at_entry sample_start" by (simp add: at_entry_def sample_start_def)
  from compiled_expr_refines [of sample_case 10 sample_cfg "sample_env filter_steps" code sample_start, OF _ filter_wf this] c
  show ?thesis using filter_run by (simp add: sample_start_def)
qed

text \<open>C3 (type): the compiled function of a well-formed expression (\<open>wf_expr\<close>: supported steps, a final step that returns, jumps only forward, over no
  fetch, to steps that are not inside a batch) in which no CASE is replaced by a search never gets stuck: every register and
  frame cell is written before it is read and holds a value of its kind, every access goes through a pointer to the object it expects, every
  jump has its label, and the end is a return or an error.\<close>

theorem compiled_expr_never_stuck:
  assumes "sljit_compile_steps cc nregs cfg (x_steps env) = Some code" "wf_expr env cfg" "at_entry x"
  shows "xexec env code x \<noteq> None"
  using compiled_code [OF assms] by (auto simp: outcome_def split: option.splits)

theorem compiled_expr_never_stuck_witness:
  "\<exists>code. sljit_compile_steps sample_case 7 sample_cfg filter_steps = Some code \<and> xexec (sample_env filter_steps) code sample_start \<noteq> None"
proof -
  obtain code where c: "sljit_compile_steps sample_case 7 sample_cfg filter_steps = Some code" using filter_emitted by blast
  have "at_entry sample_start" by (simp add: at_entry_def sample_start_def)
  from compiled_expr_never_stuck [of sample_case 7 sample_cfg "sample_env filter_steps" code sample_start, OF _ filter_wf this] c
  show ?thesis by simp
qed

section \<open>AND and OR\<close>

text \<open>Kleene's connectives on \<open>None\<close> for the unknown.\<close>

fun and3 :: "bool option \<Rightarrow> bool option \<Rightarrow> bool option" where
  "and3 (Some False) _ = Some False" | "and3 _ (Some False) = Some False" | "and3 (Some True) (Some True) = Some True" | "and3 _ _ = None"

fun or3 :: "bool option \<Rightarrow> bool option \<Rightarrow> bool option" where
  "or3 (Some True) _ = Some True" | "or3 _ (Some True) = Some True" | "or3 (Some False) (Some False) = Some False" | "or3 _ _ = None"

definition truth3 :: "Datum \<Rightarrow> bool \<Rightarrow> bool option" where
  "truth3 d isnull = (if isnull then None else Some (DatumGetBool d))"

text \<open>The connective of \<open>n\<close> columns of the scanned tuple, as the steps come from the parser: each operand is a VAR step with the boolean step behind it.\<close>

definition bool_step_op :: "bool \<Rightarrow> step_position \<Rightarrow> nat \<Rightarrow> nat \<Rightarrow> ExprEvalOp" where
  "bool_step_op is_and pos a t = (if is_and then EEOP_BOOL_AND_STEP pos a t else EEOP_BOOL_OR_STEP pos a t)"

definition position_of :: "nat \<Rightarrow> nat \<Rightarrow> step_position" where
  "position_of n i = (if i = 0 then First_step else if i = n - 1 then Last_step else Middle_step)"

definition connective_step :: "bool \<Rightarrow> nat \<Rightarrow> nat \<Rightarrow> nat \<Rightarrow> ExprEvalStep" where
  "connective_step is_and a n j =
     \<lparr>opcode = (if j = 2 * n then EEOP_DONE_RETURN else if even j then EEOP_VAR Scan (j div 2)
        else bool_step_op is_and (position_of n (j div 2)) a (2 * n)), resvalue = Result, resnull = Result\<rparr>"

definition connective_steps :: "bool \<Rightarrow> nat \<Rightarrow> nat \<Rightarrow> ExprEvalStep list" where
  "connective_steps is_and a n = map (connective_step is_and a n) [0..<2 * n + 1]"

definition connective3 :: "bool \<Rightarrow> bool option list \<Rightarrow> bool option" where
  "connective3 is_and bs = (if is_and then foldr and3 bs (Some True) else foldr or3 bs (Some False))"

lemma connective3_alt:
  "connective3 is_and bs = (if Some (\<not> is_and) \<in> set bs then Some (\<not> is_and) else if None \<in> set bs then None else Some is_and)"
proof -
  have "foldr and3 bs (Some True) = (if Some False \<in> set bs then Some False else if None \<in> set bs then None else Some True)"
  proof (induction bs)
    case (Cons b bs)
    then show ?case by (cases b rule: option.exhaust [case_names None Some]; cases "the b") auto
  qed simp
  moreover have "foldr or3 bs (Some False) = (if Some True \<in> set bs then Some True else if None \<in> set bs then None else Some False)"
  proof (induction bs)
    case (Cons b bs)
    then show ?case by (cases b rule: option.exhaust [case_names None Some]; cases "the b") auto
  qed simp
  ultimately show ?thesis by (simp add: connective3_def)
qed

lemma connective3_cases:
  "connective3 is_and (map f [0..<n]) =
     (if \<exists>j < n. f j = Some (\<not> is_and) then Some (\<not> is_and) else if \<exists>j < n. f j = None then None else Some is_and)"
proof -
  have "x \<in> set (map f [0..<n]) \<longleftrightarrow> (\<exists>j < n. f j = x)" for x by auto
  then show ?thesis by (simp only: connective3_alt)
qed

lemma connective_nth: "j \<le> 2 * n \<Longrightarrow> connective_steps is_and a n ! j = connective_step is_and a n j"
  unfolding connective_steps_def by (subst nth_map) (simp_all del: upt_Suc)

lemma connective_length [simp]: "length (connective_steps is_and a n) = 2 * n + 1"
  by (simp add: connective_steps_def)

lemma connective_ops:
  "i < n \<Longrightarrow> connective_steps is_and a n ! (2 * i) = \<lparr>opcode = EEOP_VAR Scan i, resvalue = Result, resnull = Result\<rparr>"
  "i < n \<Longrightarrow> connective_steps is_and a n ! (2 * i + 1) = \<lparr>opcode = bool_step_op is_and (position_of n i) a (2 * n), resvalue = Result, resnull = Result\<rparr>"
  "connective_steps is_and a n ! (2 * n) = \<lparr>opcode = EEOP_DONE_RETURN, resvalue = Result, resnull = Result\<rparr>"
  by (simp_all add: connective_nth connective_step_def)

lemma anynull_simps [simp]: "slots (set_anynull a b m) = slots m" "anynulls (set_anynull a b m) = (anynulls m)(a := b)"
  by (simp_all add: set_anynull_def)

text \<open>One boolean step on the truth of its operand and on whether a null has been seen.\<close>

lemma bool_step_truth:
  assumes "x_steps env = connective_steps is_and a n" "i < n" "2 \<le> n"
    "t = truth3 (vals m Result) (nulls m Result)" "an \<longleftrightarrow> (0 < i \<and> anynulls m a) \<or> t = None"
  shows "\<exists>m'. slots m' = slots m \<and> (t = Some (\<not> is_and) \<longrightarrow> jitted_step env cfg (2 * i + 1) m = goto (2 * n) m' \<and>
        truth3 (vals m' Result) (nulls m' Result) = t) \<and>
      (t \<noteq> Some (\<not> is_and) \<longrightarrow> jitted_step env cfg (2 * i + 1) m = cont m' \<and> anynulls m' a = an \<and>
        (i = n - 1 \<longrightarrow> truth3 (vals m' Result) (nulls m' Result) = (if an then None else Some is_and)))"
proof -
  note d = jitted_defs fallback_and_step_def fallback_or_step_def and_or_last_def truth3_def
  have o: "x_steps env ! (2 * i + 1) = \<lparr>opcode = bool_step_op is_and (position_of n i) a (2 * n), resvalue = Result, resnull = Result\<rparr>"
    unfolding assms(1) by (rule connective_ops(2) [OF assms(2)])
  have p: "position_of n i = First_step \<longleftrightarrow> i = 0" "position_of n i = Last_step \<longleftrightarrow> i = n - 1"
    using assms(3) by (auto simp: position_of_def)
  let ?s = "jitted_step env cfg (2 * i + 1) m"
  let ?m1 = "if i = 0 then set_anynull a False m else m"
  let ?m2 = "if nulls m Result then set_anynull a True ?m1 else ?m1"
  let ?m3 = "if i = n - 1 \<and> an then set_null Result True (set_val Result 0 ?m2) else ?m2"
  have ao: "and_or_last (position_of n i) a \<lparr>opcode = oc, resvalue = Result, resnull = Result\<rparr> ?m2 = cont ?m3" for oc
    using assms(4,5) by (auto simp: and_or_last_def p truth3_def)
  show ?thesis
  proof (cases "t = Some (\<not> is_and)")
    case True
    then have "?s = goto (2 * n) ?m1" using assms(4)
      by (cases is_and) (auto simp: jitted_defs o bool_step_op_def fallback_and_step_def fallback_or_step_def p truth3_def split: if_splits)
    then show ?thesis using True assms(4) by (intro exI [of _ ?m1]) simp
  next
    case False
    then have "?s = cont ?m3" using assms(4) ao
      by (cases is_and) (auto simp: jitted_defs o bool_step_op_def fallback_and_step_def fallback_or_step_def p truth3_def split: if_splits)
    moreover have "anynulls ?m3 a = an" using assms(4,5) by (auto simp: truth3_def)
    moreover have "truth3 (vals ?m3 Result) (nulls ?m3 Result) = (if an then None else Some is_and)" if "i = n - 1"
      using that False assms(4,5) by (auto simp: truth3_def DatumGetBool_def split: if_splits)
    ultimately show ?thesis using False by (intro exI [of _ ?m3]) simp
  qed
qed

lemma run_connective:
  assumes "x_steps env = connective_steps is_and a n" "2 \<le> n"
  shows "\<lbrakk>i < n; \<forall>j < i. truth3 (tvalues sd j) (tisnull sd j) \<noteq> Some (\<not> is_and); slots m Scan = sd;
      0 < i \<longrightarrow> anynulls m a = (\<exists>j < i. truth3 (tvalues sd j) (tisnull sd j) = None)\<rbrakk> \<Longrightarrow>
    \<exists>d b m'. run_steps env cfg (2 * i) m = Some (Inr (d, Some b, m')) \<and>
      truth3 d b = connective3 is_and (map (\<lambda>j. truth3 (tvalues sd j) (tisnull sd j)) [0..<n])"
proof (induction "n - i" arbitrary: i m)
  case 0
  then show ?case by simp
next
  case (Suc k)
  let ?t = "\<lambda>j. truth3 (tvalues sd j) (tisnull sd j)"
  let ?m = "set_null Result (tisnull sd i) (set_val Result (tvalues sd i) m)"
  let ?an = "(0 < i \<and> anynulls ?m a) \<or> ?t i = None"
  have len: "length (x_steps env) = 2 * n + 1" unfolding assms(1) by simp
  note i = Suc.prems(1)
  have v: "run_steps env cfg (2 * i) m = run_steps env cfg (2 * i + 1) ?m"
    using run_var [of "2 * i" env Scan i cfg m] i Suc.prems(3) len connective_ops(1) [OF i, of is_and a]
    by (simp add: assms(1) copy_pair_def)
  have t: "?t i = truth3 (vals ?m Result) (nulls ?m Result)" by simp
  have m0: "anynulls ?m = anynulls m" "slots ?m = slots m" by simp_all
  from bool_step_truth [OF assms(1) i assms(2) t refl, of cfg] obtain m' where
      w: "slots m' = slots ?m \<and> (?t i = Some (\<not> is_and) \<longrightarrow> jitted_step env cfg (2 * i + 1) ?m = goto (2 * n) m' \<and>
        truth3 (vals m' Result) (nulls m' Result) = ?t i) \<and>
      (?t i \<noteq> Some (\<not> is_and) \<longrightarrow> jitted_step env cfg (2 * i + 1) ?m = cont m' \<and> anynulls m' a = ?an \<and>
        (i = n - 1 \<longrightarrow> truth3 (vals m' Result) (nulls m' Result) = (if ?an then None else Some is_and)))" ..
  note m' = conjunct1 [OF w] conjunct1 [OF conjunct2 [OF w]] conjunct2 [OF conjunct2 [OF w]]
  have nd: "\<not> is_done (opcode (x_steps env ! (2 * i + 1)))" unfolding assms(1) connective_ops(2) [OF i] by (simp add: bool_step_op_def)
  note go = run_steps_go [of "2 * i + 1" env cfg ?m, unfolded len, OF _ nd]
  have fin: "run_steps env cfg (2 * n) m' = Some (Inr (vals m' Result, Some (nulls m' Result), m'))"
    by (subst run_steps.simps) (simp add: len assms(1) connective_ops(3))
  have ex: "(\<exists>j < Suc i. P j) \<longleftrightarrow> (\<exists>j < i. P j) \<or> P i" for P by (auto simp: less_Suc_eq)
  have an: "?an \<longleftrightarrow> (\<exists>j < Suc i. ?t j = None)" using Suc.prems(4) unfolding ex by auto
  show ?case
  proof (cases "?t i = Some (\<not> is_and)")
    case True
    have "connective3 is_and (map ?t [0..<n]) = Some (\<not> is_and)" using True i by (auto simp: connective3_cases)
    moreover have "nat (2 * int n) = 2 * n" by simp
    moreover have "2 * i + 1 < 2 * n" using i by simp
    ultimately show ?thesis using v go m'(2) True i fin by simp
  next
    case False
    have all: "\<forall>j < Suc i. ?t j \<noteq> Some (\<not> is_and)" using Suc.prems(2) False by (simp add: less_Suc_eq)
    have step: "run_steps env cfg (2 * i) m = run_steps env cfg (2 * Suc i) m'" using v go m'(3) False i by simp
    show ?thesis
    proof (cases "i = n - 1")
      case True
      then have n: "Suc i = n" using i by simp
      have "connective3 is_and (map ?t [0..<n]) = (if ?an then None else Some is_and)"
        unfolding connective3_cases an n using all [unfolded n] by (auto simp del: not_None_eq)
      then show ?thesis using step m'(3) False True fin n by simp
    next
      case False
      show ?thesis unfolding step
        by (rule Suc.hyps(1)) (use Suc.hyps(2) Suc.prems m' all an i False \<open>?t i \<noteq> _\<close> in auto)
    qed
  qed
qed

lemma connective_wf:
  assumes "x_steps env = connective_steps is_and a n" "2 \<le> n"
  shows "wf_expr env cfg"
proof -
  let ?steps = "x_steps env"
  have op: "?steps ! i = connective_step is_and a n i" if "i \<le> 2 * n" for i using that assms(1) connective_nth by simp
  have t: "is_jump_target ?steps (2 * n)"
  proof -
    have "?steps ! 1 \<in> set ?steps" using assms by (intro nth_mem) simp
    moreover have "2 * n \<in> set (jump_target_of (opcode (?steps ! 1)))" using op [of 1] assms(2) by (simp add: connective_step_def bool_step_op_def)
    ultimately show ?thesis using assms by (auto simp: is_jump_target_def list_ex_iff)
  qed
  have "supported env cfg i" if "i \<le> 2 * n" for i
    using op [OF that] by (simp add: supported_def results_paired_def connective_step_def bool_step_op_def)
  moreover have "i + 1 < length ?steps" if "i \<le> 2 * n" "\<not> is_done (opcode (?steps ! i))" for i
    using op [OF that(1)] that assms(1) by (auto simp: connective_step_def split: if_splits)
  moreover have "i < t \<and> t < length ?steps \<and> enterable ?steps t \<and> (\<forall>j \<in> {i<..<t}. \<not> is_fetch (opcode (?steps ! j)))"
    if "i \<le> 2 * n" "t \<in> set (jumps_of (opcode (?steps ! i)))" for i t
  proof -
    have "t = 2 * n" "i < 2 * n" using op [OF that(1)] that by (auto simp: connective_step_def bool_step_op_def split: if_splits)
    moreover have "\<not> is_fetch (opcode (?steps ! j))" if "j < 2 * n" for j
      using op [of j] that by (simp add: connective_step_def bool_step_op_def is_fetch_def)
    ultimately show ?thesis using assms(1) \<open>is_jump_target _ _\<close> by (auto simp: enterable_def)
  qed
  moreover have "?steps \<noteq> []" using assms(1) by (metis connective_length list.size(3) add_is_0 zero_neq_one)
  moreover have "i < length ?steps \<Longrightarrow> i \<le> 2 * n" for i using assms(1) by simp
  ultimately show ?thesis unfolding wf_expr_def Let_def by blast
qed

text \<open>C4 (functional): an AND or an OR of two or more columns, compiled, yields Kleene's AND or OR of the columns of the tuple at hand, for
  every tuple: false as soon as one operand of AND is false, else unknown as soon as one is null, and dually for OR.\<close>

theorem compiled_and_or:
  assumes "sljit_compile_steps cc nregs cfg (connective_steps is_and a n) = Some code" "x_steps env = connective_steps is_and a n" "2 \<le> n" "at_entry x"
  shows "\<exists>d b x'. xexec env code x = Some (Inr (d, x')) \<and> isnull_out x' = Some b \<and>
    truth3 d b = connective3 is_and (map (\<lambda>i. truth3 (tvalues (slots (xm x) Scan) i) (tisnull (slots (xm x) Scan) i)) [0..<n])"
proof -
  note wf = connective_wf [OF assms(2,3)]
  obtain d b m' where r: "run_steps env cfg 0 (xm x) = Some (Inr (d, Some b, m'))"
      "truth3 d b = connective3 is_and (map (\<lambda>i. truth3 (tvalues (slots (xm x) Scan) i) (tisnull (slots (xm x) Scan) i)) [0..<n])"
    using run_connective [OF assms(2,3), of 0 "slots (xm x) Scan" "xm x" cfg] assms(3) by auto
  have "outcome (xexec env code x) = Some (Inr (d, Some b, m'))"
    using compiled_code [of cc nregs cfg env code x] assms(1,2,4) wf r(1) by simp
  then show ?thesis using r(2) by (auto simp: outcome_def split: option.splits sum.splits)
qed

lemma connective_emitted: "\<exists>code. sljit_compile_steps cc nregs cfg (connective_steps is_and a n) = Some code"
proof (rule compiles_total)
  show "case_bsearch cc (connective_steps is_and a n) = Some []"
    by (rule case_bsearch_no_jint) (auto simp: connective_steps_def connective_step_def bool_step_op_def simp del: upt_Suc split: if_splits)
next
  fix j cached assume "j < length (connective_steps is_and a n)"
  then have "connective_steps is_and a n ! j = connective_step is_and a n j" by (intro connective_nth) simp
  then show "emit_step (alloc_registers nregs (connective_steps is_and a n) cfg) (connective_steps is_and a n) cached j \<noteq> None"
    by (simp add: emit_step_def connective_step_def bool_step_op_def Let_def)
qed

theorem compiled_and_or_witness:
  "\<exists>code d x'. sljit_compile_steps sample_case 6 sample_cfg (connective_steps True 0 2) = Some code \<and>
     xexec (sample_env (connective_steps True 0 2)) code sample_start = Some (Inr (d, x')) \<and> isnull_out x' = Some False \<and> d \<noteq> 0"
proof -
  obtain code where c: "sljit_compile_steps sample_case 6 sample_cfg (connective_steps True 0 2) = Some code" using connective_emitted by blast
  have "at_entry sample_start" by (simp add: at_entry_def sample_start_def)
  note r = compiled_and_or [OF c, of "sample_env (connective_steps True 0 2)" sample_start, OF _ _ this]
  let ?sd = "slots (xm sample_start) Scan"
  have "connective3 True (map (\<lambda>i. truth3 (tvalues ?sd i) (tisnull ?sd i)) [0..<2]) = Some True"
    by (simp add: connective3_cases sample_start_def sample_mem_def truth3_def DatumGetBool_def)
  then have "\<exists>d b x'. xexec (sample_env (connective_steps True 0 2)) code sample_start = Some (Inr (d, x')) \<and> isnull_out x' = Some b \<and>
      truth3 d b = Some True"
    using r by simp
  then show ?thesis using c by (fastforce simp: truth3_def DatumGetBool_def split: if_splits)
qed

end
