(* ===== verification/ExprShared.thy ===== *)
theory ExprShared
  imports ExprProps
begin

text \<open>
  Expressions whose code the leader of a parallel query may hand to its workers (\<open>sljit_expr_allows_shared_code\<close> of
  \<open>pg_jitter_sljit.c\<close>): the code then depends on nothing that differs between the processes but the addresses of the native functions, which the
  worker relocates.
\<close>

section \<open>The guard\<close>

fun excluded_from_sharing :: "ExprEvalOp \<Rightarrow> bool" where
  "excluded_from_sharing (EEOP_HASHDATUM_SET_INITVAL _) = True" | "excluded_from_sharing (EEOP_HASHDATUM_FIRST _ _) = True"
| "excluded_from_sharing (EEOP_HASHDATUM_FIRST_STRICT _ _ _) = True" | "excluded_from_sharing (EEOP_HASHDATUM_NEXT32 _ _ _) = True"
| "excluded_from_sharing (EEOP_HASHDATUM_NEXT32_STRICT _ _ _ _) = True"
| "excluded_from_sharing (EEOP_EVAL (EEOP_PARAM_CALLBACK _)) = True"
| "excluded_from_sharing (EEOP_SBSREF_SUBSCRIPTS _ _) = True" | "excluded_from_sharing (EEOP_EVAL (EEOP_SBSREF_OLD _)) = True"
| "excluded_from_sharing (EEOP_EVAL (EEOP_SBSREF_ASSIGN _)) = True" | "excluded_from_sharing (EEOP_EVAL (EEOP_SBSREF_FETCH _)) = True"
| "excluded_from_sharing (EEOP_IOCOERCE _ _) = True" | "excluded_from_sharing (EEOP_EVAL EEOP_IOCOERCE_SAFE) = True"
| "excluded_from_sharing (EEOP_AGG_PLAIN_TRANS_BYVAL _ _ _ _ _ _) = True" | "excluded_from_sharing (EEOP_AGG_PLAIN_TRANS_BYREF _ _ _ _ _ _) = True"
| "excluded_from_sharing (EEOP_AGG_DESERIALIZE _) = True" | "excluded_from_sharing (EEOP_AGG_STRICT_DESERIALIZE _ _) = True"
| "excluded_from_sharing (EEOP_ROWCOMPARE_STEP _ _ _ _ _) = True" | "excluded_from_sharing (EEOP_ROWCOMPARE_FINAL _) = True"
| "excluded_from_sharing (EEOP_RETURNINGEXPR _ _) = True"
| "excluded_from_sharing _ = False"

definition sljit_expr_allows_shared_code :: "emit_cfg \<Rightarrow> ExprEvalStep list \<Rightarrow> bool" where
  "sljit_expr_allows_shared_code cfg steps \<longleftrightarrow>
     (\<forall>i < length steps. \<not> excluded_from_sharing (opcode (steps ! i)) \<and>
        (case opcode (steps ! i) of EEOP_FUNCEXPR _ _ _ _ \<Rightarrow> \<not> text_pattern cfg i | _ \<Rightarrow> True))"

section \<open>What differs between processes\<close>

text \<open>\<open>canon\<close> numbers the functions of a process; a step without its addresses: functions by their numbers, pointers only as far as the code
  distinguishes them.\<close>

definition strip_locs :: "loc \<Rightarrow> loc \<Rightarrow> loc \<times> loc" where
  "strip_locs rv rn = (if rv = Result then Result else Cell 0, if rn = Result then Result else if rn = rv then Cell 0 else Cell 1)"

fun strip_eval :: "eval_op \<Rightarrow> eval_op" where
  "strip_eval (EEOP_PARAM_CALLBACK _) = EEOP_PARAM_CALLBACK []" | "strip_eval (EEOP_SBSREF_OLD _) = EEOP_SBSREF_OLD []"
| "strip_eval (EEOP_SBSREF_ASSIGN _) = EEOP_SBSREF_ASSIGN []" | "strip_eval (EEOP_SBSREF_FETCH _) = EEOP_SBSREF_FETCH []"
| "strip_eval e = e"

fun strip_op :: "(fn_addr \<Rightarrow> nat) \<Rightarrow> ExprEvalOp \<Rightarrow> ExprEvalOp" where
  "strip_op canon (EEOP_EVAL e) = EEOP_EVAL (strip_eval e)"
| "strip_op canon (EEOP_CONST v b) = EEOP_CONST 0 b"
| "strip_op canon (EEOP_FUNCEXPR s fn f n) = EEOP_FUNCEXPR s (canon fn) 0 n"
| "strip_op canon (EEOP_BOOL_AND_STEP p a t) = EEOP_BOOL_AND_STEP p 0 t"
| "strip_op canon (EEOP_BOOL_OR_STEP p a t) = EEOP_BOOL_OR_STEP p 0 t"
| "strip_op canon (EEOP_CASE_TESTVAL v l) = EEOP_CASE_TESTVAL (map_option (\<lambda>_. Cell 0) v) (Cell 0)"
| "strip_op canon (EEOP_DOMAIN_TESTVAL v l) = EEOP_DOMAIN_TESTVAL (map_option (\<lambda>_. Cell 0) v) (Cell 0)"
| "strip_op canon (EEOP_MAKE_READONLY v l) = EEOP_MAKE_READONLY (Cell 0) (Cell 0)"
| "strip_op canon (EEOP_IOCOERCE f g) = EEOP_IOCOERCE 0 0"
| "strip_op canon (EEOP_DISTINCT fn f) = EEOP_DISTINCT 0 0"
| "strip_op canon (EEOP_NOT_DISTINCT fn f) = EEOP_NOT_DISTINCT 0 0"
| "strip_op canon (EEOP_NULLIF fn f) = EEOP_NULLIF 0 0"
| "strip_op canon (EEOP_ROWCOMPARE_STEP fn f s t t') = EEOP_ROWCOMPARE_STEP 0 0 s t t'"
| "strip_op canon (EEOP_SBSREF_SUBSCRIPTS fn t) = EEOP_SBSREF_SUBSCRIPTS [] t"
| "strip_op canon (EEOP_DOMAIN_CHECK v l) = EEOP_DOMAIN_CHECK (Cell 0) (Cell 0)"
| "strip_op canon (EEOP_AGG_STRICT_DESERIALIZE f t) = EEOP_AGG_STRICT_DESERIALIZE 0 t"
| "strip_op canon (EEOP_AGG_DESERIALIZE f) = EEOP_AGG_DESERIALIZE 0"
| "strip_op canon (EEOP_AGG_STRICT_INPUT_CHECK_ARGS k f b n t) = EEOP_AGG_STRICT_INPUT_CHECK_ARGS k 0 0 n t"
| "strip_op canon (EEOP_AGG_STRICT_INPUT_CHECK_NULLS a n t) = EEOP_AGG_STRICT_INPUT_CHECK_NULLS 0 n t"
| "strip_op canon (EEOP_AGG_PRESORTED_DISTINCT_SINGLE p t) = EEOP_AGG_PRESORTED_DISTINCT_SINGLE 0 t"
| "strip_op canon (EEOP_AGG_PRESORTED_DISTINCT_MULTI p t) = EEOP_AGG_PRESORTED_DISTINCT_MULTI 0 t"
| "strip_op canon op = op"

definition strip_step :: "(fn_addr \<Rightarrow> nat) \<Rightarrow> ExprEvalStep \<Rightarrow> ExprEvalStep" where
  "strip_step canon op = (let (rv, rn) = strip_locs (resvalue op) (resnull op) in
     \<lparr>opcode = strip_op canon (opcode op), resvalue = rv, resnull = rn\<rparr>)"

text \<open>The configuration of a process whose functions \<open>canon\<close> numbers, and the one common to all.\<close>

definition canonical_cfg :: "(nat \<Rightarrow> direct_info option) \<Rightarrow> emit_cfg \<Rightarrow> emit_cfg" where
  "canonical_cfg table cfg = cfg\<lparr>direct_fn := table, text_pattern := (\<lambda>_. False), jsonb_field_text := (\<lambda>_. False), flinfo_fn_addr := (\<lambda>_. 0), is_jsonb_in := (\<lambda>_. False)\<rparr>"

text \<open>The address of a native function is what remains of the process in the code; the relocation replaces it.\<close>

definition relocate_ins :: "(fn_addr \<Rightarrow> nat) \<Rightarrow> xins \<Rightarrow> xins" where
  "relocate_ins canon i = (case i of Icall (C_direct fn n) \<Rightarrow> Icall (C_direct (canon fn) n) | _ \<Rightarrow> i)"

lemma relocate_simps [simp]:
  "relocate_ins canon (Op1 mv d s) = Op1 mv d s" "relocate_ins canon (Op2 f r a b) = Op2 f r a b" "relocate_ins canon (Test_zero r) = Test_zero r"
  "relocate_ins canon (And_zero r w) = And_zero r w" "relocate_ins canon (Flag_equal r) = Flag_equal r" "relocate_ins canon (Jump_zero l) = Jump_zero l"
  "relocate_ins canon (Cmp c a b l) = Cmp c a b l" "relocate_ins canon (Jump l) = Jump l" "relocate_ins canon (Label l) = Label l"
  "relocate_ins canon (Return a) = Return a" "relocate_ins canon (Icall (C_direct fn n)) = Icall (C_direct (canon fn) n)"
  "\<forall>fn n. callee \<noteq> C_direct fn n \<Longrightarrow> relocate_ins canon (Icall callee) = Icall callee"
  by (auto simp: relocate_ins_def split: callee.splits)

lemma strip_results [simp]:
  "resvalue (strip_step canon op) = Result \<longleftrightarrow> resvalue op = Result" "resnull (strip_step canon op) = Result \<longleftrightarrow> resnull op = Result"
  "RESNULL_IS_PAIRED (strip_step canon op) \<longleftrightarrow> RESNULL_IS_PAIRED op" "opcode (strip_step canon op) = strip_op canon (opcode op)"
  by (auto simp: strip_step_def strip_locs_def RESNULL_IS_PAIRED_def)

section \<open>The code of a step\<close>

lemma canonical_simps [simp]:
  "sreg_steps (canonical_cfg table cfg) = sreg_steps cfg" "sreg_slot (canonical_cfg table cfg) = sreg_slot cfg"
  "shared_code_mode (canonical_cfg table cfg) = shared_code_mode cfg" "inline_enabled (canonical_cfg table cfg) = inline_enabled cfg"
  "deform_ok (canonical_cfg table cfg) = deform_ok cfg" "direct_fn (canonical_cfg table cfg) = table"
  "text_pattern (canonical_cfg table cfg) = (\<lambda>_. False)" "jsonb_field_text (canonical_cfg table cfg) = (\<lambda>_. False)"
  "flinfo_fn_addr (canonical_cfg table cfg) = (\<lambda>_. 0)"
  "is_jsonb_in (canonical_cfg table cfg) = (\<lambda>_. False)"
  by (simp_all add: canonical_cfg_def)

abbreviation moved :: "(fn_addr \<Rightarrow> nat) \<Rightarrow> xins list \<Rightarrow> xins list" where
  "moved canon is \<equiv> map (relocate_ins canon) is"

text \<open>The helpers emit the same code for the stripped step in the common configuration, and nothing to relocate.\<close>

lemma canonical_fields [simp]:
  "emit_load_step_field (canonical_cfg table cfg) opno f r = emit_load_step_field cfg opno f r"
  "emit_load_step_addr (canonical_cfg table cfg) opno r = emit_load_step_addr cfg opno r"
  "emit_store_resvalue (canonical_cfg table cfg) opno op src = emit_store_resvalue cfg opno op src"
  "emit_store_resnull (canonical_cfg table cfg) opno op src = emit_store_resnull cfg opno op src"
  "emit_store_res_pair (canonical_cfg table cfg) opno op src d = emit_store_res_pair cfg opno op src d"
  "emit_load_resvalue (canonical_cfg table cfg) opno op r = emit_load_resvalue cfg opno op r"
  "emit_load_resnull (canonical_cfg table cfg) opno op r = emit_load_resnull cfg opno op r"
  "emit_slot_vals (canonical_cfg table cfg) cached k = emit_slot_vals cfg cached k"
  "emit_slot_nulls (canonical_cfg table cfg) cached k = emit_slot_nulls cfg cached k"
  by (simp_all add: emit_load_step_field_def emit_load_step_addr_def emit_store_resvalue_def emit_store_resnull_def emit_store_res_pair_def
      emit_load_resvalue_def emit_load_resnull_def emit_slot_vals_def emit_slot_nulls_def)

lemma stripped_results [simp]:
  "emit_store_resvalue cfg opno (strip_step canon op) src = emit_store_resvalue cfg opno op src"
  "emit_store_resnull cfg opno (strip_step canon op) src = emit_store_resnull cfg opno op src"
  "emit_store_res_pair cfg opno (strip_step canon op) src d = emit_store_res_pair cfg opno op src d"
  "emit_load_resvalue cfg opno (strip_step canon op) r = emit_load_resvalue cfg opno op r"
  "emit_load_resnull cfg opno (strip_step canon op) r = emit_load_resnull cfg opno op r"
  by (simp_all add: emit_store_resvalue_def emit_store_resnull_def emit_store_res_pair_def emit_load_resvalue_def emit_load_resnull_def)

lemma moved_fields [simp]:
  "moved canon (emit_load_step_field cfg opno f r) = emit_load_step_field cfg opno f r"
  "moved canon (emit_load_step_addr cfg opno r) = emit_load_step_addr cfg opno r"
  "moved canon (emit_load_econtext_slot r k) = emit_load_econtext_slot r k"
  by (simp_all add: emit_load_step_field_def emit_load_step_addr_def emit_load_econtext_slot_def split: option.splits)

lemma moved_results [simp]:
  "moved canon (emit_store_resvalue cfg opno op src) = emit_store_resvalue cfg opno op src"
  "moved canon (emit_store_resnull cfg opno op src) = emit_store_resnull cfg opno op src"
  "moved canon (emit_store_res_pair cfg opno op src d) = emit_store_res_pair cfg opno op src d"
  "moved canon (emit_load_resvalue cfg opno op r) = emit_load_resvalue cfg opno op r"
  "moved canon (emit_load_resnull cfg opno op r) = emit_load_resnull cfg opno op r"
  by (simp_all add: emit_store_resvalue_def emit_store_resnull_def emit_store_res_pair_def emit_load_resvalue_def emit_load_resnull_def)

lemma moved_slots [simp]:
  "moved canon (fst (emit_slot_vals cfg cached k)) = fst (emit_slot_vals cfg cached k)"
  "moved canon (fst (emit_slot_nulls cfg cached k)) = fst (emit_slot_nulls cfg cached k)"
  by (auto simp: emit_slot_vals_def emit_slot_nulls_def split: option.splits)

lemma moved_null_checks [simp]: "moved canon (emit_null_checks field n l) = emit_null_checks field n l"
  by (simp add: emit_null_checks_def map_concat comp_def)

text \<open>One group of emitters after the other.\<close>

lemma shared_logic [simp]:
  "emit_bool_and_step (canonical_cfg table cfg) opno (strip_step canon op) pos t = moved canon (emit_bool_and_step cfg opno op pos t)"
  "emit_bool_or_step (canonical_cfg table cfg) opno (strip_step canon op) pos t = moved canon (emit_bool_or_step cfg opno op pos t)"
  "emit_not (canonical_cfg table cfg) opno (strip_step canon op) = moved canon (emit_not cfg opno op)"
  "emit_qual (canonical_cfg table cfg) opno (strip_step canon op) t = moved canon (emit_qual cfg opno op t)"
  "emit_jump_if_null (canonical_cfg table cfg) opno (strip_step canon op) t = moved canon (emit_jump_if_null cfg opno op t)"
  "emit_jump_if_not_null (canonical_cfg table cfg) opno (strip_step canon op) t = moved canon (emit_jump_if_not_null cfg opno op t)"
  "emit_jump_if_not_true (canonical_cfg table cfg) opno (strip_step canon op) t = moved canon (emit_jump_if_not_true cfg opno op t)"
  "emit_nulltest (canonical_cfg table cfg) opno (strip_step canon op) b = moved canon (emit_nulltest cfg opno op b)"
  "emit_booltest (canonical_cfg table cfg) opno (strip_step canon op) bt = moved canon (emit_booltest cfg opno op bt)"
  by (simp_all add: emit_bool_and_step_def emit_bool_or_step_def emit_bool_step_def emit_not_def emit_qual_def emit_jump_if_null_def emit_jump_if_not_null_def emit_jump_if_not_true_def emit_nulltest_def)
    (cases bt; simp add: emit_not_def)

lemma shared_copies [simp]:
  "emit_case_testval (canonical_cfg table cfg) opno (strip_step canon op) (map_option (\<lambda>_. Cell 0) v) = moved canon (emit_case_testval cfg opno op v)"
  "emit_case_testval_ext (canonical_cfg table cfg) opno (strip_step canon op) = moved canon (emit_case_testval_ext cfg opno op)"
  "emit_domain_testval (canonical_cfg table cfg) opno (strip_step canon op) (map_option (\<lambda>_. Cell 0) v) = moved canon (emit_domain_testval cfg opno op v)"
  "emit_domain_testval_ext (canonical_cfg table cfg) opno (strip_step canon op) = moved canon (emit_domain_testval_ext cfg opno op)"
  "emit_aggref (canonical_cfg table cfg) opno (strip_step canon op) n = moved canon (emit_aggref cfg opno op n)"
  "emit_make_readonly (canonical_cfg table cfg) opno (strip_step canon op) = moved canon (emit_make_readonly cfg opno op)"
  by (simp_all add: emit_case_testval_def emit_case_testval_ext_def emit_domain_testval_def emit_domain_testval_ext_def emit_aggref_def emit_make_readonly_def emit_copy_def emit_copy_from_step_def)

lemma shared_eval [simp]:
  "emit_eval2 (canonical_cfg table cfg) opno name = moved canon (emit_eval2 cfg opno name)"
  "emit_eval3 (canonical_cfg table cfg) opno name = moved canon (emit_eval3 cfg opno name)"
  "emit_fieldselect (canonical_cfg table cfg) opno (strip_step canon op) = moved canon (emit_fieldselect cfg opno op)"
  "emit_convert_rowtype (canonical_cfg table cfg) opno (strip_step canon op) = moved canon (emit_convert_rowtype cfg opno op)"
  "emit_domain_notnull (canonical_cfg table cfg) opno (strip_step canon op) = moved canon (emit_domain_notnull cfg opno op)"
  "emit_domain_check (canonical_cfg table cfg) opno = moved canon (emit_domain_check cfg opno)"
  by (simp_all add: emit_eval2_def emit_eval3_def emit_eval_args_def emit_fieldselect_def emit_convert_rowtype_def emit_domain_notnull_def emit_domain_check_def)

lemma shared_aggs [simp]:
  "emit_agg_input_check (canonical_cfg table cfg) opno n t = moved canon (emit_agg_input_check cfg opno n t)"
  "emit_agg_input_check_nulls (canonical_cfg table cfg) opno n t = moved canon (emit_agg_input_check_nulls cfg opno n t)"
  "emit_presorted (canonical_cfg table cfg) opno name t = moved canon (emit_presorted cfg opno name t)"
  by (simp_all add: emit_agg_input_check_def emit_agg_input_check_nulls_def emit_presorted_def)

lemma shared_calls:
  assumes "shared_code_mode cfg"
  shows "emit_distinct (canonical_cfg table cfg) opno (strip_step canon op) b fn' = moved canon (emit_distinct cfg opno op b fn)"
    "emit_nullif (canonical_cfg table cfg) opno (strip_step canon op) fn' = moved canon (emit_nullif cfg opno op fn)"
    "emit_const (canonical_cfg table cfg) opno (strip_step canon op) d' b = moved canon (emit_const cfg opno op d b)"
  using assms by (simp_all add: emit_distinct_def emit_nullif_def emit_call_fn_def emit_const_def)

lemma shared_pergroup [simp]: "moved canon (emit_pergroup_nullcheck n t) = emit_pergroup_nullcheck n t"
  by (simp add: emit_pergroup_nullcheck_def)

lemma shared_assign_tmp [simp]: "moved canon (emit_assign_tmp opno b n) = emit_assign_tmp opno b n"
  by (simp add: emit_assign_tmp_def)

lemma shared_fetchsome [simp]:
  "emit_fetchsome (canonical_cfg table cfg) opno k n = emit_fetchsome cfg opno k n"
  "map_option (moved canon) (emit_fetchsome cfg opno k n) = emit_fetchsome cfg opno k n"
  by (simp_all add: emit_fetchsome_def split: option.splits)

text \<open>A function call: the native function carries its number, any other address comes from the step.\<close>

lemma shared_funcexpr:
  assumes "shared_code_mode cfg" "direct_fn cfg = table \<circ> canon"
  shows "emit_funcexpr (canonical_cfg table cfg) opno (strip_step canon op) strict (canon fn) n = map_option (moved canon) (emit_funcexpr cfg opno op strict fn n)"
  using assms by (simp add: emit_funcexpr_def emit_v1_call_def emit_call_fn_def emit_direct_call_def Let_def comp_def split: option.splits)

section \<open>Batches and jumps\<close>

lemma strip_op_facts [simp]:
  "jump_target_of (strip_op canon op) = jump_target_of op" "var_of k (strip_op canon op) = var_of k op"
  "assign_var_of k (strip_op canon op) = assign_var_of k op" "slot_of (strip_op canon op) = slot_of op"
  "is_agg_trans (strip_op canon op) = is_agg_trans op" "is_hash_next (strip_op canon op) = is_hash_next op"
  "cache_slot (strip_op canon op) cached = cache_slot op cached"
  by (cases op; simp)+

lemma is_jump_target_strip [simp]: "is_jump_target (map (strip_step canon) steps) = is_jump_target steps"
  by (simp add: fun_eq_iff is_jump_target_def list_ex_iff)

lemma batch_extra_strip:
  assumes "\<And>op. f (strip_op canon op) = f op"
  shows "batch_extra f jt (map (strip_step canon) steps) opno = batch_extra f jt steps opno"
  unfolding batch_extra_def length_map
  by (rule arg_cong [where f = length], rule takeWhile_cong) (simp_all add: assms)

lemma shared_var:
  assumes "batch' = map (\<lambda>(i, op, a). (i, strip_step canon op, a)) batch"
  shows "emit_var (canonical_cfg table cfg) cached k batch' = moved canon (emit_var cfg cached k batch)"
proof -
  have b: "emit_var_batch (canonical_cfg table cfg) cached k batch' = moved canon (emit_var_batch cfg cached k batch)"
    unfolding assms emit_var_batch_def
    by (auto simp: Let_def map_concat comp_def case_prod_unfold)
  have s: "emit_var_single (canonical_cfg table cfg) cached i k a = moved canon (emit_var_single cfg cached i k a)" for i a
    by (simp add: emit_var_single_def Let_def case_prod_unfold)
  show ?thesis using b s unfolding assms emit_var_def by (auto split: list.splits prod.splits)
qed

lemma shared_assign_var:
  "emit_assign_var (canonical_cfg table cfg) cached k batch = map_option (moved canon) (emit_assign_var cfg cached k batch)"
  by (auto simp: emit_assign_var_def Let_def map_concat comp_def case_prod_unfold)

lemma shared_eval_op:
  "\<not> excluded_from_sharing (EEOP_EVAL e) \<Longrightarrow>
   emit_eval (canonical_cfg table cfg) opno (strip_step canon op) (strip_eval e) = map_option (moved canon) (emit_eval cfg opno op e)"
  by (cases e) simp_all

section \<open>The code of an expression\<close>

lemma upt_below: "i \<in> set [a..<b] \<Longrightarrow> b \<le> n \<Longrightarrow> i < n"
  by simp

lemma shared_step:
  assumes "shared_code_mode cfg" "direct_fn cfg = table \<circ> canon" "opno < length steps" "\<not> excluded_from_sharing (opcode (steps ! opno))"
  shows "emit_step (canonical_cfg table cfg) (map (strip_step canon) steps) cached opno =
    map_option (\<lambda>(code, extra). (moved canon code, extra)) (emit_step cfg steps cached opno)"
proof -
  let ?op = "steps ! opno" let ?steps = "map (strip_step canon) steps"
  have n: "?steps ! opno = strip_step canon ?op" using assms(3) by simp
  show ?thesis
  proof (cases "opcode ?op")
    case (EEOP_VAR k a)
    let ?e = "batch_extra (var_of k) (is_jump_target steps) steps opno"
    have l: "opno + ?e < length steps" using batch_extra_bounds [of opno "var_of k" "is_jump_target steps" steps] assms(3) by auto
    have "map (\<lambda>i. (i, ?steps ! i, the (var_of k (opcode (?steps ! i))))) [opno..<opno + ?e + 1] =
        map (\<lambda>(i, op, a). (i, strip_step canon op, a)) (var_steps k steps [opno..<opno + ?e + 1])"
      using l by (auto simp del: upt_Suc)
    note v = shared_var [OF this, of table cfg cached k]
    show ?thesis using n EEOP_VAR v by (simp add: emit_step_def Let_def batch_extra_strip del: upt_Suc)
  next
    case (EEOP_ASSIGN_VAR k a r)
    let ?e = "batch_extra (assign_var_of k) (is_jump_target steps) steps opno"
    have l: "opno + ?e < length steps" using batch_extra_bounds [of opno "assign_var_of k" "is_jump_target steps" steps] assms(3) by auto
    have "map (\<lambda>i. the (assign_var_of k (opcode (?steps ! i)))) [opno..<opno + ?e + 1] = assign_steps k steps [opno..<opno + ?e + 1]"
      using l by (auto simp del: upt_Suc)
    note a = this
    show ?thesis using n EEOP_ASSIGN_VAR
      by (simp add: emit_step_def Let_def batch_extra_strip a shared_assign_var [where canon = canon] option.map_comp comp_def del: upt_Suc)
  next
    case (EEOP_EVAL e)
    then show ?thesis using n assms(4) shared_eval_op [of e table cfg opno canon ?op]
      by (cases "emit_eval cfg opno ?op e") (simp_all add: emit_step_def Let_def)
  next
    case (EEOP_FUNCEXPR s fn f na)
    then show ?thesis using n shared_funcexpr [OF assms(1,2), of opno ?op s fn na]
      by (cases "emit_funcexpr cfg opno ?op s fn na") (simp_all add: emit_step_def Let_def)
  next
    case (EEOP_FETCHSOME k a)
    then show ?thesis using n shared_fetchsome(2) [of canon cfg opno k a]
      by (cases "emit_fetchsome cfg opno k a") (simp_all add: emit_step_def Let_def)
  next
    case (EEOP_CASE_TESTVAL v l)
    then show ?thesis using n shared_copies(1) [of table cfg opno canon ?op v] by (simp add: emit_step_def Let_def)
  next
    case (EEOP_DOMAIN_TESTVAL v l)
    then show ?thesis using n shared_copies(3) [of table cfg opno canon ?op v] by (simp add: emit_step_def Let_def)
  qed (use n assms(4) in \<open>simp_all add: emit_step_def Let_def shared_calls [OF assms(1)]\<close>)
qed

lemma shared_from:
  "\<lbrakk>shared_code_mode cfg; direct_fn cfg = table \<circ> canon; sljit_expr_allows_shared_code cfg steps\<rbrakk> \<Longrightarrow>
   emit_from (canonical_cfg table cfg) (map (strip_step canon) steps) cached n = map_option (moved canon) (emit_from cfg steps cached n)"
proof (induction "length steps - n" arbitrary: n cached rule: less_induct)
  case less
  let ?steps = "map (strip_step canon) steps"
  show ?case
  proof (cases "n < length steps")
    case True
    have e: "\<not> excluded_from_sharing (opcode (steps ! n))" using less.prems(3) True by (simp add: sljit_expr_allows_shared_code_def)
    note s = shared_step [OF less.prems(1,2) True e, of cached]
    have r: "emit_from (canonical_cfg table cfg) ?steps c (n + extra + 1) = map_option (moved canon) (emit_from cfg steps c (n + extra + 1))" for c extra
      by (rule less.hyps) (use True less.prems in auto)
    have c: "cache_slot (opcode (?steps ! n)) cached = cache_slot (opcode (steps ! n)) cached" using True by simp
    show ?thesis
    proof (cases "emit_step cfg steps cached n")
      case None
      then show ?thesis using True s by (subst (1 2) emit_from.simps) simp
    next
      case (Some ce)
      obtain code extra where ce: "ce = (code, extra)" by (cases ce)
      have "moved canon (map (\<lambda>i. Label (L_step i)) ls) = map (\<lambda>i. Label (L_step i)) ls" for ls by simp
      then show ?thesis using True s Some ce r c
        by (subst (1 2) emit_from.simps) (simp add: option.map_comp comp_def del: upt_Suc)
    qed
  next
    case False
    then show ?thesis by (subst (1 2) emit_from.simps) simp
  qed
qed

lemma list_ex_map_step: "(\<And>op. P (strip_op canon op) = P op) \<Longrightarrow> list_ex (P \<circ> opcode) (map (strip_step canon) steps) = list_ex (P \<circ> opcode) steps"
  by (simp add: list_ex_iff)

lemma alloc_strip [simp]:
  "alloc_registers nregs (map (strip_step canon) steps) cfg = alloc_registers nregs steps cfg"
proof -
  have b: "base_saved nregs (map (strip_step canon) steps) = base_saved nregs steps"
    by (simp add: base_saved_def list_ex_map_step)
  have s: "steps_reg nregs (map (strip_step canon) steps) = steps_reg nregs steps" by (simp add: steps_reg_def b)
  have l: "list_ex (\<lambda>s. slot_of (opcode s) = Some k) (map (strip_step canon) steps) = list_ex (\<lambda>s. slot_of (opcode s) = Some k) steps" for k
    by (simp add: list_ex_iff)
  have "slot_regs nregs (map (strip_step canon) steps) ks n = slot_regs nregs steps ks n" for ks n
    by (induction ks arbitrary: n) (simp_all only: slot_regs.simps l)
  then show ?thesis by (simp add: alloc_registers_def b s del: slot_regs.simps)
qed

lemma alloc_canonical: "alloc_registers nregs steps (canonical_cfg table cfg) = canonical_cfg table (alloc_registers nregs steps cfg)"
  unfolding alloc_registers_def canonical_cfg_def Let_def case_prod_unfold by simp

lemma shared_expr:
  assumes "shared_code_mode cfg" "direct_fn cfg = table \<circ> canon" "sljit_expr_allows_shared_code cfg steps"
  shows "emit_expr nregs (canonical_cfg table cfg) (map (strip_step canon) steps) = map_option (moved canon) (emit_expr nregs cfg steps)"
proof -
  let ?cfg = "alloc_registers nregs steps cfg"
  have a: "sljit_expr_allows_shared_code ?cfg steps" using assms(3) by (simp add: sljit_expr_allows_shared_code_def cong: ExprEvalOp.case_cong)
  have p: "moved canon (emit_prologue ?cfg) = emit_prologue (canonical_cfg table ?cfg)"
    by (simp add: emit_prologue_def split: option.splits)
  show ?thesis
    using shared_from [of ?cfg table canon steps "\<lambda>_. False" 0] assms a p
    by (simp add: emit_expr_def Let_def alloc_canonical option.map_comp comp_def)
qed

text \<open>C2 (safety): the code of an expression that may be shared, and in which neither process replaces a CASE by a search, is the same in the leader and in
  the worker, up to the addresses of the native functions it calls, whatever constants, argument frames, function addresses, callbacks and result
  pointers the steps have in each process.\<close>

theorem shared_code_portable:
  assumes "shared_code_mode cfg" "direct_fn cfg = table \<circ> canon" "sljit_expr_allows_shared_code cfg steps"
    and "shared_code_mode cfg'" "direct_fn cfg' = table \<circ> canon'" "sljit_expr_allows_shared_code cfg' steps'"
    and "map (strip_step canon) steps = map (strip_step canon') steps'" "canonical_cfg table cfg = canonical_cfg table cfg'"
    and "case_bsearch cc steps = Some []" "case_bsearch cc' steps' = Some []"
  shows "map_option (moved canon) (sljit_compile_steps cc nregs cfg steps) = map_option (moved canon') (sljit_compile_steps cc' nregs cfg' steps')"
  using shared_expr [OF assms(1-3), of nregs] shared_expr [OF assms(4-6), of nregs] assms(7-10) by (simp add: sljit_compile_steps_def)

text \<open>A leader and a worker that have loaded the function of the filter at different addresses, with different frames.\<close>

definition worker_steps :: "ExprEvalStep list" where
  "worker_steps =
     [\<lparr>opcode = EEOP_FETCHSOME Scan 2, resvalue = Result, resnull = Result\<rparr>,
      \<lparr>opcode = EEOP_VAR Scan 0, resvalue = Arg 5 0, resnull = Arg 5 0\<rparr>,
      \<lparr>opcode = EEOP_VAR Scan 1, resvalue = Arg 5 1, resnull = Arg 5 1\<rparr>,
      \<lparr>opcode = EEOP_FUNCEXPR STRICT_2 9 5 2, resvalue = Result, resnull = Result\<rparr>,
      \<lparr>opcode = EEOP_QUAL 6, resvalue = Result, resnull = Result\<rparr>,
      \<lparr>opcode = EEOP_CONST 1 False, resvalue = Result, resnull = Result\<rparr>,
      \<lparr>opcode = EEOP_DONE_RETURN, resvalue = Result, resnull = Result\<rparr>]"

definition cfg_calling :: "fn_addr \<Rightarrow> emit_cfg" where
  "cfg_calling fp = sample_cfg\<lparr>shared_code_mode := True, direct_fn := (\<lambda>n. if n = (0 :: nat)
     then Some \<lparr>dfn_inline = False, dfn_has_fn = True, dfn_nargs = 2, dfn_collation = False\<rparr> else None) \<circ> (\<lambda>fn. if fn = fp then 0 else 1)\<rparr>"

lemma cfg_calling_simps [simp]:
  "shared_code_mode (cfg_calling fp) = True" "deform_ok (cfg_calling fp) = (\<lambda>_. False)" "text_pattern (cfg_calling fp) = (\<lambda>_. False)"
  "jsonb_field_text (cfg_calling fp) = (\<lambda>_. False)"
  "inline_enabled (cfg_calling fp) = False"
  by (simp_all add: cfg_calling_def sample_cfg_def)

lemma native_emitted:
  assumes "steps = filter_steps \<or> steps = worker_steps"
  shows "\<exists>code. sljit_compile_steps cc nregs (cfg_calling fp) steps = Some code"
proof (rule compiles_total)
  show "case_bsearch cc steps = Some []"
    by (rule case_bsearch_no_jint) (use assms in \<open>auto simp: filter_steps_def worker_steps_def\<close>)
next
  fix n cached assume "n < length steps"
  then have "n \<in> {0, 1, 2, 3, 4, 5, 6}" using assms by (auto simp: filter_steps_def worker_steps_def)
  then show "emit_step (alloc_registers nregs steps (cfg_calling fp)) steps cached n \<noteq> None"
    using assms by (auto simp: emit_step_def worker_steps_def filter_steps_def emit_fetchsome_def emit_funcexpr_def Let_def split: option.splits)
qed

theorem shared_code_portable_witness:
  "\<exists>code code'. sljit_compile_steps sample_case 10 (cfg_calling 7) filter_steps = Some code \<and> sljit_compile_steps sample_case 10 (cfg_calling 9) worker_steps = Some code' \<and>
     map (relocate_ins (\<lambda>fn. if fn = 7 then 0 else 1)) code = map (relocate_ins (\<lambda>fn. if fn = 9 then 0 else 1)) code'"
proof -
  obtain code code' where c: "sljit_compile_steps sample_case 10 (cfg_calling 7) filter_steps = Some code" "sljit_compile_steps sample_case 10 (cfg_calling 9) worker_steps = Some code'"
    using native_emitted [OF disjI1 [OF refl], of sample_case 10 7] native_emitted [OF disjI2 [OF refl], of sample_case 10 9] by metis
  let ?table = "\<lambda>n. if n = (0 :: nat) then Some \<lparr>dfn_inline = False, dfn_has_fn = True, dfn_nargs = 2, dfn_collation = False\<rparr> else None"
  have d: "direct_fn (cfg_calling fp) = ?table \<circ> (\<lambda>fn. if fn = fp then 0 else 1)" for fp by (simp add: cfg_calling_def)
  have "\<not> excluded_from_sharing (opcode op)" if "op \<in> set filter_steps \<union> set worker_steps" for op
    using that by (auto simp: worker_steps_def filter_steps_def)
  then have a: "sljit_expr_allows_shared_code (cfg_calling 7) filter_steps" "sljit_expr_allows_shared_code (cfg_calling 9) worker_steps"
    by (auto simp: sljit_expr_allows_shared_code_def split: ExprEvalOp.splits)
  have s: "map (strip_step (\<lambda>fn. if fn = 7 then 0 else 1)) filter_steps = map (strip_step (\<lambda>fn. if fn = 9 then 0 else 1)) worker_steps"
    by (simp add: worker_steps_def filter_steps_def strip_step_def strip_locs_def)
  have k: "canonical_cfg ?table (cfg_calling 7) = canonical_cfg ?table (cfg_calling 9)" by (simp add: canonical_cfg_def cfg_calling_def)
  have n: "case_bsearch cc steps = Some []" if "steps = filter_steps \<or> steps = worker_steps" for cc steps
    by (rule case_bsearch_no_jint) (use that in \<open>auto simp: filter_steps_def worker_steps_def\<close>)
  from shared_code_portable [where cc = sample_case and cc' = sample_case and nregs = 10, OF _ d a(1) _ d a(2) s k n n] c show ?thesis by simp
qed

end
