(* ===== verification/Spec2Isabelle.thy ===== *)
theory Spec2Isabelle
  imports Prelude Search Floats CaseHelpers DirectTable CaseDetect CaseCorrect CaseRangeRun LikeMatch LikeCorrect
    IntFuncs IntCorrect HashProbe InList ArrayOps LikeRegex RawRegex Pcre2Cache Pcre2Match MetaLife
    DeformSession SharedDeform Relocate ExprShared
begin

text \<open>
  Verification of pg_jitter, a JIT provider for PostgreSQL.

  \<^bold>\<open>The program.\<close> PostgreSQL loads the \<^emph>\<open>meta provider\<close> (\<open>pg_jitter_meta.c\<close>), which loads up to
  three backends (sljit, asmjit, mir) and hands each expression to one of them. A backend walks the
  steps of the expression and emits machine code; the sljit backend (\<open>pg_jitter_sljit.c\<close>) is modelled
  down to its instructions. What the emitted code does that is not a plain
  machine instruction it leaves to functions of the library: calls of \<open>pg_jit_funcs.c\<close> in place of
  PostgreSQL's functions on the common types, binary searches for long CASE expressions
  (\<open>pg_jitter_common.c\<close>), hash probes and array loops for IN and ANY, LIKE and regular expressions
  (\<open>pg_jitter_simd.c\<close>, \<open>pg_jitter_pcre2.c\<close>). These functions, the analyses that decide
  when they may be used, and the life cycle around them are modelled here.

  \<^bold>\<open>Parts and theories.\<close>
  \<^item> \<open>Prelude\<close>: the C types as words, the errors of \<open>ereport\<close> as a datatype, signed overflow as the
    predicate \<open>sfits\<close>, conversions between datums and integers.
  \<^item> \<open>Floats\<close>: the comparisons of float4 and float8 in \<open>pg_jit_funcs.c\<close> on bit patterns; lemmas relate
    them to one total order in which NaN is the greatest value.
  \<^item> \<open>IntFuncs\<close>, \<open>IntCorrect\<close>: the functions of \<open>pg_jit_funcs.c\<close> on integers, booleans, characters,
    oids, dates, timestamps and money, one definition per C function; the lemmas give the exact
    result or the error of each of them.
  \<^item> \<open>DirectTable\<close>: the rows of \<open>jit_direct_fns\<close>, PostgreSQL function by PostgreSQL function.
  \<^item> \<open>Search\<close>, \<open>CaseHelpers\<close>: the binary searches that generated code calls for a CASE with sorted
    thresholds; the locale \<open>keyed_case\<close> (types compared through an integer key) is interpreted for
    every threshold type of the code.
  \<^item> \<open>CaseDetect\<close>, \<open>CaseCorrect\<close>, \<open>CaseRange\<close>: \<open>pg_jitter_detect_case_bsearch\<close> in its two passes,
    the step relation \<open>case_step\<close> of the interpreted expression, and the refinement between them. \<open>CaseRangeRun\<close> runs the
    steps of a range CASE over a threshold column, a comparison per AND, and shows that the searched table gives the same
    value when the bounds increase; its lemmas exhibit the inputs on which the detection is too permissive.
  \<^item> \<open>HashProbe\<close>, \<open>InList\<close>: linear probing with fuel (the locale \<open>probing\<close>, interpreted for the int4
    table, the text table and the table of direct functions), CRC-32C on both paths, and the lookup
    of a direct function.
  \<^item> \<open>ArrayOps\<close>: the sorted IN list, the vector array searches, ANY and ALL over an array with NULLs
    (\<open>pg_jitter_scalararrayop_loop\<close>), the null bitmap and column extraction helpers of tuple deforming.
  \<^item> \<open>LikeMatch\<close>, \<open>LikeCorrect\<close>: classification, compilation and matching of LIKE patterns in
    \<open>pg_jitter_simd.c\<close> against the definition of LIKE on bytes.
  \<^item> \<open>LikeRegex\<close>, \<open>RawRegex\<close>, \<open>Pcre2Cache\<close>, \<open>Pcre2Match\<close>: the two translations to PCRE2 patterns, the
    cache of compiled patterns with reference counts, and matching, all of \<open>pg_jitter_pcre2.c\<close>.
  \<^item> \<open>Meta\<close>, \<open>MetaStats\<close>, \<open>MetaDispatch\<close>, \<open>MetaTiming\<close>, \<open>MetaLife\<close>: the meta provider: loading, the
    statistics, the choice of a backend, the timing wrapper, the dispatch of a compilation and the
    release of a context, as functions on one state record and as a transition system.

  \<^item> \<open>Sljit\<close>, \<open>DeformCode\<close>, \<open>DeformCorrect\<close>, \<open>DeformExec\<close>, \<open>DeformTuple\<close>: the compiler of tuple
    deforming functions in \<open>pg_jitter_deform_jit.c\<close>: the calls through which it emits code, the documented effect of the
    instructions, the program for a tuple descriptor, and the refinement of deforming column by column.
  \<^item> \<open>DeformSparse\<close>: the helper for wide nullable tables, which agrees with deforming column by column.
  \<^item> \<open>DeformDispatch\<close>, \<open>DeformSession\<close>: the dispatch with its three caches as a transition system, and the dispatch
    together with the compiler. The address of a descriptor may be reused for another one at any time (\<open>reallocated\<close>);
    the ghost component of the session collects the keys that were built for what stood there before, and the
    properties ask that the call is not for one of them (\<open>address_kept\<close>). The lemma \<open>reused_address_runs_old_code\<close>
    shows that this is needed: the caches by pointer are not validated by the hash that the comment in the code names.
  \<^item> \<open>SharedCode\<close>, \<open>SharedDeform\<close>: the segment through which the leader of a parallel query hands compiled code to its
    workers, as bytes: the layout of its entries refines a list, and what is stored is what is found; the deform function
    that all processes map at one address; and any sequence of both by the leader (\<open>leader_run\<close>), over a segment with arbitrary
    contents before, since \<open>pg_jitter_init_shared_dsm\<close> leaves the fields of the deform function as they are.

  \<^item> \<open>Relocate\<close>: what a worker does with the code it finds: copying it and moving the addresses in its calls, on x86-64 and
    ARM64; the code of the worker is that of the leader with the addresses of the worker.
  \<^item> \<open>ExprSteps\<close>, \<open>Fallback\<close>: the steps of an expression as a datatype, the context they work on (result cells, slots,
    parameters, the trace of calls), and \<open>pg_jitter_fallback_step\<close>, one definition per group of cases, which is the
    interpreter of a step and the meaning the emitted code is compared with.
  \<^item> \<open>ExprMachine\<close>: the instructions the compiler emits and the documented effect of each one on registers, memory
    and the control (jumps, labels, calls with their outcome).
  \<^item> \<open>ExprEmit\<close>: \<open>sljit_compile_expr\<close>: the prologue, the code of one step by its opcode, the chain of calls and the
    batch of deformed columns it opens, the epilogue.
  \<^item> \<open>ExprCase\<close>: the compiler as a whole, \<open>sljit_compile_steps\<close>: it first runs the detection of CASE patterns on the
    steps; where a pattern would be replaced by a binary search the model has no code (\<open>None\<close>), and the properties say nothing.
  \<^item> \<open>ExprExec\<close>, \<open>ExprSim\<close>, \<open>ExprCalls\<close>, \<open>ExprBatch\<close>, \<open>ExprLabels\<close>, \<open>ExprCorrect\<close>: the emitted code runs as the
    step it was emitted for, opcode by opcode; labels are unique and every jump is closed; the whole program.
  \<^item> \<open>ExprProps\<close>: the compiled expression returns what the interpreter returns or raises the error it raises, never
    gets stuck, and computes AND and OR in three-valued logic.
  \<^item> \<open>ExprShared\<close>: the expressions whose code may be shared between processes: no instruction of theirs holds an
    address of one process.

  \<^bold>\<open>Conventions.\<close> A C struct is a record, an enumeration a datatype, an integer a word of its width
  (or a natural number or integer where the code bounds it). A function that may raise an error
  returns a sum whose left side is the error; a use of freed memory, a failed assertion or
  an access out of bounds is \<open>None\<close>, and the safety theorems show that it does not occur. Pointers into tables
  are indices. Functions of PostgreSQL, PCRE2, StringZilla and the operating system are parameters,
  their documented behaviour a named predicate (\<open>documented_cmp\<close>, \<open>qsort_ok\<close>, \<open>int32_result\<close>, \<open>null_kept\<close>, \<open>domain_checks\<close>, \<open>documented_pcre2\<close> (which leaves open when a match gives up),
  \<open>installs_code\<close>, \<open>documented_sljit\<close>,
  \<open>documented_sparse\<close>, \<open>documented_os\<close>, \<open>exact_generator\<close>, \<open>dylib_at\<close>), and each theorem that assumes one has a witness with a concrete instance.

  \<^bold>\<open>Loops and fuel.\<close> Loops whose bound is evident are \<open>fun\<close> or \<open>function\<close> with a measure. Two loops take
  fuel: probing (the length of the table, enough because insertion leaves a free slot) and the
  detection of CASE patterns (the number of steps plus one, enough when jumps go forward);
  for both the theorems say that the result is \<open>Some\<close>.

  \<^bold>\<open>Not modelled.\<close> Of the expression compiler in \<open>pg_jitter_sljit.c\<close>: the bodies it inlines in place of calls
    (\<open>emit_inline_funcexpr\<close>, \<open>emit_inline_text_cmp\<close>), LIKE and regular expressions on constant patterns,
    the field of a jsonb object outside shared mode, the steps that
    hash a row, deforming emitted inside the expression, aggregate transitions, window functions, arrays and IN lists,
    MINMAX, ROW and IS JSON, and the replacement of a CASE by a binary search inside the emitter (what it computes,
    \<open>jit_case_bsearch\<close>, is compared with the steps in \<open>CaseCorrect\<close>). For each of them the model of the compiler returns \<open>None\<close>. The machine is that of the documented effect of sljit's
    instructions; how sljit encodes them is not part of the sources. The other two backends
    (\<open>pg_jitter_mir.c\<close>, \<open>pg_jitter_asmjit.cpp\<close> and its \<open>.inc\<close> files) emit for MIR and AsmJit, whose instructions would
    need a machine of their own. Also left out: arithmetic on floating point numbers and on \<open>numeric\<close>, the table of
    segment handles in shared memory, JSON parsing (\<open>pg_jitter_yyjson.c\<close>, a port of functions of PostgreSQL to an
    external parser), the version headers and the code for other platforms under \<open>compat/\<close>.
\<close>

end
